(* ===== verification/Prelude.thy ===== *)
theory Prelude
  imports Main "HOL-Library.Char_ord" "HOL-Library.List_Lexorder" "HOL-Library.Sublist" "HOL-Library.AList"
begin

text \<open>
  What every component of the development shares: the errors the code throws as values, the
  sum type of a fallible result with its sequencing combinator, decimal text of counters as
  \<^verbatim>\<open>String(n)\<close> and \<^verbatim>\<open>padStart\<close> print it, and association lists as the insertion-ordered
  \<^verbatim>\<open>Map\<close> of JavaScript. The collection \<open>result_simps\<close> unfolds sequencing, \<open>wf_defs\<close> the
  well-formedness predicates of the records, \<open>key_simps\<close> the durable keys.
\<close>

named_theorems result_simps
named_theorems wf_defs
named_theorems key_simps

section \<open>Errors as values\<close>

datatype state_code =
    STATE_ABORTED | STATE_ALREADY_OPEN | STATE_ARTIFACT_NOT_FOUND | STATE_CLOSED | STATE_CORRUPT
  | STATE_INVALID_CONFIG | STATE_INVALID_CURSOR | STATE_INVALID_KEY | STATE_LIMIT_EXCEEDED
  | STATE_PATH_CHANGED | STATE_PATH_INSECURE | STATE_POISONED | STATE_VERSION_MISMATCH

text \<open>
  A thrown value: a \<^verbatim>\<open>TypeError\<close> or \<^verbatim>\<open>RangeError\<close> with the path (or the subject) its message
  names, a plain \<^verbatim>\<open>Error\<close> with its message, a \<^verbatim>\<open>StateLocalError\<close> with its code.
\<close>

datatype js_error =
    TypeError string
  | RangeError string
  | PlainError string
  | StateError state_code

type_synonym 'a result = "js_error + 'a"

fun rbind :: "'a result \<Rightarrow> ('a \<Rightarrow> 'b result) \<Rightarrow> 'b result" where
  "rbind (Inl e) f = Inl e"
| "rbind (Inr x) f = f x"

lemma rbind_Inr_iff [result_simps]: "rbind m f = Inr y \<longleftrightarrow> (\<exists>x. m = Inr x \<and> f x = Inr y)"
  by (cases m) auto

lemma rbind_InrE: "rbind m f = Inr y \<Longrightarrow> (\<And>x. m = Inr x \<Longrightarrow> f x = Inr y \<Longrightarrow> thesis) \<Longrightarrow> thesis"
  by (auto simp: rbind_Inr_iff)

lemma rbind_Inr_right [simp]: "rbind m Inr = m"
  by (cases m) auto

lemma rbind_assoc: "rbind (rbind m f) g = rbind m (\<lambda>x. rbind (f x) g)"
  by (cases m) auto

lemma rbind_cong [fundef_cong]:
  "m = m' \<Longrightarrow> (\<And>x. m' = Inr x \<Longrightarrow> f x = f' x) \<Longrightarrow> rbind m f = rbind m' f'"
  by (cases m') auto

definition require :: "bool \<Rightarrow> js_error \<Rightarrow> unit result" where
  "require b e = (if b then Inr () else Inl e)"

lemma require_Inr [simp]: "require b e = Inr u \<longleftrightarrow> b"
  by (simp add: require_def)

lemma require_True [simp]: "require True e = Inr ()"
  by (simp add: require_def)

lemma require_False [simp]: "require False e = Inl e"
  by (simp add: require_def)

text \<open>\<open>rmap f xs\<close> is \<^verbatim>\<open>xs.map(f)\<close> for an \<^verbatim>\<open>f\<close> that may throw: the first throw wins.\<close>

fun rmap :: "('a \<Rightarrow> 'b result) \<Rightarrow> 'a list \<Rightarrow> 'b list result" where
  "rmap f [] = Inr []"
| "rmap f (x # xs) = rbind (f x) (\<lambda>y. rbind (rmap f xs) (\<lambda>ys. Inr (y # ys)))"

lemma rmap_cong [fundef_cong]:
  "xs = ys \<Longrightarrow> (\<And>x. x \<in> set ys \<Longrightarrow> f x = g x) \<Longrightarrow> rmap f xs = rmap g ys"
  by (induction ys arbitrary: xs) auto

lemma rmap_Inr_iff: "rmap f xs = Inr ys \<longleftrightarrow> list_all2 (\<lambda>x y. f x = Inr y) xs ys"
proof (induction xs arbitrary: ys)
  case Nil
  then show ?case by auto
next
  case (Cons x xs)
  then show ?case by (cases ys) (auto simp: rbind_Inr_iff)
qed

lemma rmap_roundtrip: "(\<And>x. x \<in> set xs \<Longrightarrow> f (g x) = Inr x) \<Longrightarrow> rmap f (map g xs) = Inr xs"
  by (induction xs) auto

lemma rmap_length: "rmap f xs = Inr ys \<Longrightarrow> length ys = length xs"
  by (auto simp: rmap_Inr_iff dest: list_all2_lengthD)

text \<open>\<open>imap f i xs\<close> passes the index too: \<^verbatim>\<open>xs.map((x, index) => \<dots>)\<close>, counting from \<open>i\<close>.\<close>

fun imap :: "(nat \<Rightarrow> 'a \<Rightarrow> 'b result) \<Rightarrow> nat \<Rightarrow> 'a list \<Rightarrow> 'b list result" where
  "imap f i [] = Inr []"
| "imap f i (x # xs) = rbind (f i x) (\<lambda>y. rbind (imap f (Suc i) xs) (\<lambda>ys. Inr (y # ys)))"

lemma imap_roundtrip:
  "(\<And>j. j < length xs \<Longrightarrow> f (i + j) (g (xs ! j)) = Inr (xs ! j)) \<Longrightarrow> imap f i (map g xs) = Inr xs"
proof (induction xs arbitrary: i)
  case Nil
  then show ?case by simp
next
  case (Cons x xs)
  have "f i (g x) = Inr x" using Cons.prems [of 0] by simp
  moreover have "imap f (Suc i) (map g xs) = Inr xs"
    using Cons.prems [of "Suc _"] by (intro Cons.IH) force
  ultimately show ?case by simp
qed

lemma imap_Inr_nth:
  "imap f i xs = Inr ys \<Longrightarrow> length ys = length xs \<and> (\<forall>j < length xs. f (i + j) (xs ! j) = Inr (ys ! j))"
proof (induction xs arbitrary: i ys)
  case Nil
  then show ?case by simp
next
  case (Cons x xs)
  then obtain y zs where yz: "f i x = Inr y" "imap f (Suc i) xs = Inr zs" "ys = y # zs"
    by (auto simp: rbind_Inr_iff)
  from Cons.IH [OF yz(2)] yz show ?case
    by (auto simp: nth_Cons split: nat.splits)
qed

section \<open>Decimal text\<close>

definition digit_char :: "nat \<Rightarrow> char" where
  "digit_char d = char_of (48 + d mod 10)"

definition digit_val :: "char \<Rightarrow> nat" where
  "digit_val c = of_char c - 48"

definition is_digit :: "char \<Rightarrow> bool" where
  "is_digit c \<longleftrightarrow> 48 \<le> (of_char c :: nat) \<and> (of_char c :: nat) \<le> 57"

lemma of_char_digit [simp]: "(of_char (digit_char d) :: nat) = 48 + d mod 10"
proof -
  have "d mod 10 < 10" by simp
  then have "(48 + d mod 10) mod 256 = 48 + d mod 10" by (intro mod_less) linarith
  then show ?thesis by (simp add: digit_char_def of_char_of)
qed

lemma is_digit_digit [simp]: "is_digit (digit_char d)"
  using mod_less_divisor [of 10 d] by (simp add: is_digit_def del: mod_less_divisor)

lemma digit_val_digit [simp]: "digit_val (digit_char d) = d mod 10"
  by (simp add: digit_val_def)

lemma digit_char_0: "digit_char 0 = CHR ''0''"
  by code_simp

lemma digit_char_less: "digit_char a < digit_char b \<longleftrightarrow> a mod 10 < b mod 10"
  by (simp add: less_char_def)

lemma digit_char_eq: "digit_char a = digit_char b \<longleftrightarrow> a mod 10 = b mod 10"
proof
  assume "digit_char a = digit_char b"
  then have "digit_val (digit_char a) = digit_val (digit_char b)" by simp
  then show "a mod 10 = b mod 10" by simp
qed (simp add: digit_char_def)

text \<open>\<open>nat_text n\<close> is \<^verbatim>\<open>String(n)\<close> of a non-negative integer.\<close>

fun nat_text :: "nat \<Rightarrow> string" where
  "nat_text n = (if n < 10 then [digit_char n] else nat_text (n div 10) @ [digit_char n])"

declare nat_text.simps [simp del]

text \<open>\<open>fixed_text w n\<close> is the last \<open>w\<close> decimal digits of \<open>n\<close>, most significant first.\<close>

fun fixed_text :: "nat \<Rightarrow> nat \<Rightarrow> string" where
  "fixed_text 0 n = []"
| "fixed_text (Suc w) n = fixed_text w (n div 10) @ [digit_char n]"

definition pad_start :: "nat \<Rightarrow> string \<Rightarrow> string" where
  "pad_start w s = replicate (w - length s) CHR ''0'' @ s"

fun read_nat :: "nat \<Rightarrow> string \<Rightarrow> nat" where
  "read_nat acc [] = acc"
| "read_nat acc (c # cs) = read_nat (acc * 10 + digit_val c) cs"

lemma read_nat_append: "read_nat a (xs @ ys) = read_nat (read_nat a xs) ys"
  by (induction a xs rule: read_nat.induct) auto

lemma nat_text_nonempty [simp]: "nat_text n \<noteq> []"
  by (subst nat_text.simps) simp

lemma nat_text_digits: "list_all is_digit (nat_text n)"
proof (induction n rule: nat_text.induct)
  case (1 n)
  then show ?case by (subst nat_text.simps) auto
qed

lemma read_nat_text [simp]: "read_nat 0 (nat_text n) = n"
proof (induction n rule: nat_text.induct)
  case (1 n)
  show ?case
  proof (cases "n < 10")
    case True
    then show ?thesis by (subst nat_text.simps) simp
  next
    case False
    with 1 have "read_nat 0 (nat_text (n div 10)) = n div 10" by simp
    with False show ?thesis
      by (subst nat_text.simps) (simp add: read_nat_append mult.commute)
  qed
qed

lemma nat_text_inj [simp]: "nat_text a = nat_text b \<longleftrightarrow> a = b"
  by (metis read_nat_text)

lemma nat_text_hd: "hd (nat_text n) = CHR ''0'' \<longleftrightarrow> n = 0"
proof (induction n rule: nat_text.induct)
  case (1 n)
  show ?case
  proof (cases "n < 10")
    case True
    with True show ?thesis
      by (subst nat_text.simps) (auto simp: digit_char_eq simp flip: digit_char_0)
  next
    case False
    with 1 show ?thesis
      by (subst nat_text.simps) (simp add: hd_append)
  qed
qed

lemma length_fixed_text [simp]: "length (fixed_text w n) = w"
  by (induction w arbitrary: n) auto

lemma read_fixed_text: "read_nat 0 (fixed_text w n) = n mod 10 ^ w"
proof (induction w arbitrary: n)
  case 0
  then show ?case by simp
next
  case (Suc w)
  have "n mod 10 ^ Suc w = (n div 10 mod 10 ^ w) * 10 + n mod 10"
    by (simp add: mod_mult2_eq)
  with Suc show ?case by (simp add: read_nat_append)
qed

lemma fixed_text_digits: "list_all is_digit (fixed_text w n)"
  by (induction w arbitrary: n) auto

lemma fixed_text_zero: "fixed_text w 0 = replicate w CHR ''0''"
proof (induction w)
  case 0
  then show ?case by simp
next
  case (Suc w)
  then show ?case
    by (simp add: digit_char_0 replicate_append_same)
qed

lemma pad_start_nat_text:
  "0 < w \<Longrightarrow> n < 10 ^ w \<Longrightarrow> pad_start w (nat_text n) = fixed_text w n"
proof (induction w arbitrary: n)
  case 0
  then show ?case by simp
next
  case (Suc w)
  show ?case
  proof (cases "n < 10")
    case True
    then show ?thesis
      by (subst nat_text.simps) (simp add: pad_start_def fixed_text_zero)
  next
    case False
    have w: "0 < w" using False Suc.prems by (cases w) auto
    have "n div 10 < 10 ^ w" using Suc.prems(2) by (simp add: less_mult_imp_div_less mult.commute)
    from Suc.IH [OF w this] have "pad_start w (nat_text (n div 10)) = fixed_text w (n div 10)" .
    with False show ?thesis
      by (subst nat_text.simps) (simp add: pad_start_def)
  qed
qed

lemma append_same_length_less:
  "length xs = length (ys :: string) \<Longrightarrow> xs @ us < ys @ vs \<longleftrightarrow> xs < ys \<or> (xs = ys \<and> us < vs)"
  by (induction xs ys rule: list_induct2) auto

lemma digit_order:
  "ra < (10::nat) \<Longrightarrow> rb < 10 \<Longrightarrow> 10 * qa + ra < 10 * qb + rb \<longleftrightarrow> qa < qb \<or> (qa = qb \<and> ra < rb)"
  by linarith

text \<open>Padded decimal numbers compare as texts the way they compare as numbers.\<close>

lemma fixed_text_less:
  "a < 10 ^ w \<Longrightarrow> b < 10 ^ w \<Longrightarrow> fixed_text w a < fixed_text w b \<longleftrightarrow> a < b"
proof (induction w arbitrary: a b)
  case 0
  then show ?case by simp
next
  case (Suc w)
  have div: "a div 10 < 10 ^ w" "b div 10 < 10 ^ w"
    using Suc.prems by (simp_all add: less_mult_imp_div_less mult.commute)
  have eq: "fixed_text w (a div 10) = fixed_text w (b div 10) \<longleftrightarrow> a div 10 = b div 10"
    using Suc.IH div by (metis less_irrefl linorder_less_linear)
  have "a < b \<longleftrightarrow> a div 10 < b div 10 \<or> (a div 10 = b div 10 \<and> a mod 10 < b mod 10)"
    using digit_order [of "a mod 10" "b mod 10" "a div 10" "b div 10"] by simp
  then show ?case
    using Suc.IH [OF div] eq by (simp add: append_same_length_less digit_char_less)
qed

lemma prefix_append_iff_literal: "prefix p s \<longleftrightarrow> take (length p) s = p"
  by (metis append_eq_conv_conj prefix_def)

lemma append_less_same: "(p @ x :: string) < p @ y \<longleftrightarrow> x < y"
  by (induction p) auto

lemma append_le_same: "(p @ x :: string) \<le> p @ y \<longleftrightarrow> x \<le> y"
  by (induction p) auto

section \<open>The order of text\<close>

text \<open>
  Texts are their UTF-8 bytes; JavaScript compares texts by UTF-16 code units. The two orders differ
  in one place: the characters from U+E000 to U+FFFF (lead bytes 0xEE and 0xEF) come after the
  surrogate pairs (lead bytes from 0xF0). Moving those two lead bytes to the end gives the order of
  the code units.
\<close>

definition utf16_rank :: "char \<Rightarrow> nat" where
  "utf16_rank c = (let n = of_char c in if n < 238 then n else if n < 240 then n + 16 else n - 2)"

definition text_order :: "string \<Rightarrow> nat list" where
  "text_order s = map utf16_rank s"

definition text_less :: "string \<Rightarrow> string \<Rightarrow> bool" where
  "text_less a b \<longleftrightarrow> text_order a < text_order b"

lemma utf16_rank_inj [simp]: "utf16_rank a = utf16_rank b \<longleftrightarrow> a = b"
proof
  have bound: "(of_char c :: nat) < 256" for c :: char
    by (metis of_char_of char_of_char mod_less_divisor zero_less_numeral)
  assume eq: "utf16_rank a = utf16_rank b"
  obtain m n where mn: "m = (of_char a :: nat)" "n = (of_char b :: nat)" by simp
  have "(if m < 238 then m else if m < 240 then m + 16 else m - 2)
      = (if n < 238 then n else if n < 240 then n + 16 else n - 2)"
    using eq unfolding utf16_rank_def Let_def mn .
  then have "m = n" using bound [of a] bound [of b] unfolding mn [symmetric] by (simp split: if_splits; linarith)
  then show "a = b" using mn by simp
qed simp

lemma text_order_inj [simp]: "text_order a = text_order b \<longleftrightarrow> a = b"
proof
  show "text_order a = text_order b \<Longrightarrow> a = b"
    unfolding text_order_def by (metis injI map_injective utf16_rank_inj)
qed simp

lemma text_less_irrefl [simp]: "\<not> text_less a a"
  by (simp add: text_less_def)

lemma text_less_trans: "text_less a b \<Longrightarrow> text_less b c \<Longrightarrow> text_less a c"
  by (simp add: text_less_def)

lemma text_less_linear: "a \<noteq> b \<Longrightarrow> text_less a b \<or> text_less b a"
  unfolding text_less_def by (metis linorder_neqE text_order_inj)

text \<open>On ASCII texts it is the order of the bytes.\<close>

lemma text_less_ascii:
  "list_all (\<lambda>c. (of_char c :: nat) < 128) a \<Longrightarrow> list_all (\<lambda>c. (of_char c :: nat) < 128) b \<Longrightarrow>
   text_less a b \<longleftrightarrow> a < b"
proof (induction a arbitrary: b)
  case Nil
  then show ?case by (cases b) (simp_all add: text_less_def text_order_def)
next
  case (Cons x a)
  then show ?case
    by (cases b) (auto simp: text_less_def text_order_def utf16_rank_def less_char_def)
qed

section \<open>Insertion-ordered maps\<close>

lemma map_of_AList_update [simp]: "map_of (AList.update k v al) = (map_of al)(k \<mapsto> v)"
  by (rule update_conv')

lemma map_of_AList_delete [simp]: "map_of (AList.delete k al) = (map_of al)(k := None)"
  by (rule delete_conv')

lemma distinct_AList_update [simp]:
  "distinct (map fst al) \<Longrightarrow> distinct (map fst (AList.update k v al))"
  by (rule distinct_update)

lemma distinct_AList_delete [simp]:
  "distinct (map fst al) \<Longrightarrow> distinct (map fst (AList.delete k al))"
  by (rule distinct_delete)

definition alist_size :: "('v \<Rightarrow> nat) \<Rightarrow> ('k \<times> 'v) list \<Rightarrow> nat" where
  "alist_size f al = sum_list (map (f \<circ> snd) al)"

lemma alist_size_simps [simp]:
  "alist_size f [] = 0"
  "alist_size f (kv # al) = f (snd kv) + alist_size f al"
  by (simp_all add: alist_size_def)

lemma alist_size_update:
  "distinct (map fst al) \<Longrightarrow>
   alist_size f (AList.update k v al) + (case map_of al k of None \<Rightarrow> 0 | Some u \<Rightarrow> f u)
     = alist_size f al + f v"
proof (induction al)
  case Nil
  then show ?case by simp
next
  case (Cons p al)
  obtain k' v' where p: "p = (k', v')" by force
  show ?case
  proof (cases "k' = k")
    case True
    with p show ?thesis by simp
  next
    case False
    with p Cons show ?thesis by simp
  qed
qed

lemma alist_delete_notin: "map_of al k = None \<Longrightarrow> AList.delete k al = al"
  by (induction al) (auto split: if_splits)

lemma alist_size_delete:
  "distinct (map fst al) \<Longrightarrow>
   alist_size f (AList.delete k al) + (case map_of al k of None \<Rightarrow> 0 | Some u \<Rightarrow> f u)
     = alist_size f al"
proof (induction al)
  case Nil
  then show ?case by simp
next
  case (Cons p al)
  obtain k' v' where p: "p = (k', v')" by force
  show ?case
  proof (cases "k' = k")
    case True
    with p Cons.prems have "map_of al k = None" by (simp add: map_of_eq_None_iff)
    with True p show ?thesis by (simp add: alist_delete_notin)
  next
    case False
    with p Cons show ?thesis by simp
  qed
qed

lemma length_alist_update:
  "distinct (map fst al) \<Longrightarrow>
   length (AList.update k v al) = length al + (if map_of al k = None then 1 else 0)"
  by (induction al) auto

lemma length_alist_delete:
  "distinct (map fst al) \<Longrightarrow>
   length (AList.delete k al) + (if map_of al k = None then 0 else 1) = length al"
proof (induction al)
  case Nil
  then show ?case by simp
next
  case (Cons p al)
  obtain k' v' where p: "p = (k', v')" by force
  show ?case
  proof (cases "k' = k")
    case True
    with p Cons.prems have "map_of al k = None" by (simp add: map_of_eq_None_iff)
    with True p show ?thesis by (simp add: alist_delete_notin)
  next
    case False
    with p Cons show ?thesis by simp
  qed
qed

end
