(* ===== verification/IsoTime.thy ===== *)
theory IsoTime
  imports Prelude
begin

text \<open>
  Time as the code keeps it: a durable time stamp is the text \<^verbatim>\<open>Date.prototype.toISOString\<close>
  prints, compared either as text or through \<^verbatim>\<open>Date.parse\<close>. The two directions follow the
  definitions of ECMAScript (\<^verbatim>\<open>DayFromYear\<close>, \<^verbatim>\<open>YearFromTime\<close>, month tables). The lemmas show
  that they invert each other on the years 0 to 9999, the ones whose text has 24 characters,
  and that the text order of canonical stamps is the order of time.
\<close>

section \<open>Calendar\<close>

definition day_from_year :: "int \<Rightarrow> int" where
  "day_from_year y =
     365 * (y - 1970) + (y - 1969) div 4 - (y - 1901) div 100 + (y - 1601) div 400"

definition is_leap :: "int \<Rightarrow> bool" where
  "is_leap y \<longleftrightarrow> y mod 4 = 0 \<and> (y mod 100 \<noteq> 0 \<or> y mod 400 = 0)"

definition year_of_day :: "int \<Rightarrow> int" where
  "year_of_day d =
     (let y = 1970 + (d * 400) div 146097 in
      if d < day_from_year y then y - 1
      else if day_from_year (y + 1) \<le> d then y + 1
      else y)"

definition month_starts :: "bool \<Rightarrow> int list" where
  "month_starts leap =
     (if leap then [0, 31, 60, 91, 121, 152, 182, 213, 244, 274, 305, 335]
      else [0, 31, 59, 90, 120, 151, 181, 212, 243, 273, 304, 334])"

definition month_of :: "bool \<Rightarrow> int \<Rightarrow> nat" where
  "month_of leap yday = length (filter (\<lambda>s. s \<le> yday) (month_starts leap))"

definition month_start :: "bool \<Rightarrow> nat \<Rightarrow> int" where
  "month_start leap m = (if 1 \<le> m \<and> m \<le> 12 then month_starts leap ! (m - 1) else 0)"

definition max_date_ms :: int where
  "max_date_ms = 8640000000000000"

lemma day_from_year_Suc: "day_from_year y < day_from_year (y + 1)"
proof -
  have "(y - 1969) div 4 \<le> (y + 1 - 1969) div 4" "(y + 1 - 1901) div 100 \<le> (y - 1901) div 100 + 1"
    "(y - 1601) div 400 \<le> (y + 1 - 1601) div 400"
    by linarith+
  then show ?thesis by (simp add: day_from_year_def)
qed

lemma day_from_year_mono: "a \<le> b \<Longrightarrow> day_from_year a \<le> day_from_year b"
proof (induction b rule: int_ge_induct)
  case base
  then show ?case by simp
next
  case (step i)
  then show ?case using day_from_year_Suc [of i] by linarith
qed

lemma day_from_year_bounds:
  "146097 * (y - 1970) - 506 \<le> 400 * day_from_year y"
  "400 * day_from_year y \<le> 146097 * (y - 1970) + 589"
proof -
  have q: "c * (z div c) \<le> z \<and> z < c * (z div c) + c" if "0 < c" for z c :: int
    using mult_div_mod_eq [of c z] pos_mod_bound [of c z] pos_mod_sign [of c z] that by linarith
  show "146097 * (y - 1970) - 506 \<le> 400 * day_from_year y"
    "400 * day_from_year y \<le> 146097 * (y - 1970) + 589"
    using q [of 4 "y - 1969"] q [of 100 "y - 1901"] q [of 400 "y - 1601"]
    unfolding day_from_year_def by simp_all
qed

lemma year_length: "day_from_year (y + 1) - day_from_year y \<le> 367"
  using day_from_year_bounds(1) [of y] day_from_year_bounds(2) [of "y + 1"] by (simp add: algebra_simps)

lemma year_of_day_bounds:
  "day_from_year (year_of_day d) \<le> d \<and> d < day_from_year (year_of_day d + 1)"
proof -
  define q where "q = (d * 400) div 146097"
  have q: "146097 * q \<le> d * 400" "d * 400 < 146097 * q + 146097"
    unfolding q_def by linarith+
  have lo: "day_from_year (1970 + q - 1) \<le> d"
    using q day_from_year_bounds(2) [of "1970 + q - 1"] by simp
  have hi: "d < day_from_year (1970 + q + 2)"
    using q day_from_year_bounds(1) [of "1970 + q + 2"] by simp
  show ?thesis
    using lo hi by (auto simp: year_of_day_def Let_def add.assoc simp flip: q_def)
qed

lemma year_of_day_unique:
  "day_from_year y \<le> d \<Longrightarrow> d < day_from_year (y + 1) \<Longrightarrow> year_of_day d = y"
  using year_of_day_bounds [of d] day_from_year_mono [of "y + 1" "year_of_day d"]
    day_from_year_mono [of "year_of_day d + 1" y]
  by linarith

lemma year_of_day_mono: "a \<le> b \<Longrightarrow> year_of_day a \<le> year_of_day b"
  using year_of_day_bounds [of a] year_of_day_bounds [of b]
    day_from_year_mono [of "year_of_day b + 1" "year_of_day a"]
  by linarith

lemma month_of_bounds: "0 \<le> yd \<Longrightarrow> 1 \<le> month_of leap yd \<and> month_of leap yd \<le> 12"
proof -
  assume "0 \<le> yd"
  then have "0 \<in> set (filter (\<lambda>s. s \<le> yd) (month_starts leap))" by (simp add: month_starts_def)
  then have "filter (\<lambda>s. s \<le> yd) (month_starts leap) \<noteq> []"
    by (metis empty_iff list.set(1))
  then have "0 < month_of leap yd" unfolding month_of_def by blast
  moreover have "length (month_starts leap) = 12" by (simp add: month_starts_def)
  then have "month_of leap yd \<le> 12"
    using length_filter_le [of "\<lambda>s. s \<le> yd" "month_starts leap"] by (simp only: month_of_def)
  ultimately show ?thesis by linarith
qed

lemma length_filter_mono: "(\<And>x. P x \<Longrightarrow> Q x) \<Longrightarrow> length (filter P xs) \<le> length (filter Q xs)"
  by (induction xs) (auto intro: le_SucI)

lemma month_of_mono: "a \<le> b \<Longrightarrow> month_of leap a \<le> month_of leap b"
  unfolding month_of_def by (rule length_filter_mono) simp

lemma day_of_month_bounds:
  assumes "0 \<le> yd" "yd < 367"
  shows "month_start leap (month_of leap yd) \<le> yd" "yd - month_start leap (month_of leap yd) < 98"
proof -
  have "month_start leap (month_of leap yd) \<le> yd \<and> yd - month_start leap (month_of leap yd) < 98"
    using assms unfolding month_of_def month_start_def month_starts_def
    by (cases leap) (simp_all split del: if_split, simp_all add: linorder_not_le)
  then show "month_start leap (month_of leap yd) \<le> yd" "yd - month_start leap (month_of leap yd) < 98"
    by blast+
qed

section \<open>Instants and their text\<close>

record date_fields =
  yr :: int
  mon :: nat
  dom :: nat
  hh :: nat
  mi :: nat
  ss :: nat
  msec :: nat

definition fields_of_ms :: "int \<Rightarrow> date_fields" where
  "fields_of_ms t =
     (let d = t div 86400000; r = nat (t mod 86400000);
          y = year_of_day d; yd = d - day_from_year y; m = month_of (is_leap y) yd in
      \<lparr>yr = y, mon = m, dom = nat (yd - month_start (is_leap y) m) + 1,
       hh = r div 3600000, mi = r div 60000 mod 60, ss = r div 1000 mod 60, msec = r mod 1000\<rparr>)"

definition ms_of_fields :: "date_fields \<Rightarrow> int" where
  "ms_of_fields f =
     (day_from_year (yr f) + month_start (is_leap (yr f)) (mon f) + int (dom f) - 1) * 86400000
       + int (hh f) * 3600000 + int (mi f) * 60000 + int (ss f) * 1000 + int (msec f)"

definition iso_tail :: "date_fields \<Rightarrow> string" where
  "iso_tail f =
     ''-'' @ fixed_text 2 (mon f) @ ''-'' @ fixed_text 2 (dom f) @ ''T'' @ fixed_text 2 (hh f)
       @ '':'' @ fixed_text 2 (mi f) @ '':'' @ fixed_text 2 (ss f) @ ''.'' @ fixed_text 3 (msec f) @ ''Z''"

definition iso_year :: "int \<Rightarrow> string" where
  "iso_year y =
     (if 0 \<le> y \<and> y \<le> 9999 then fixed_text 4 (nat y)
      else (if y < 0 then ''-'' else ''+'') @ fixed_text 6 (nat \<bar>y\<bar>))"

definition to_iso :: "int \<Rightarrow> string" where
  "to_iso t = (let f = fields_of_ms t in iso_year (yr f) @ iso_tail f)"

definition read_fields :: "string \<Rightarrow> date_fields" where
  "read_fields s =
     \<lparr>yr = int (read_nat 0 (take 4 s)), mon = read_nat 0 (take 2 (drop 5 s)),
      dom = read_nat 0 (take 2 (drop 8 s)), hh = read_nat 0 (take 2 (drop 11 s)),
      mi = read_nat 0 (take 2 (drop 14 s)), ss = read_nat 0 (take 2 (drop 17 s)),
      msec = read_nat 0 (take 3 (drop 20 s))\<rparr>"

text \<open>\<open>date_ms\<close> is \<^verbatim>\<open>Date.parse\<close> on the texts the code gives to it: canonical stamps.\<close>

definition date_ms :: "string \<Rightarrow> int" where
  "date_ms s = ms_of_fields (read_fields s)"

definition canonical_ts :: "string \<Rightarrow> bool" where
  "canonical_ts s \<longleftrightarrow> length s = 24 \<and> to_iso (date_ms s) = s"

definition four_digit_year :: "int \<Rightarrow> bool" where
  "four_digit_year t \<longleftrightarrow> - 62167219200000 \<le> t \<and> t < 253402300800000"

lemma split_day:
  fixes r :: nat
  shows "r = r div 3600000 * 3600000 + r div 60000 mod 60 * 60000 + r div 1000 mod 60 * 1000 + r mod 1000"
proof -
  have a: "r div 60000 div 60 = r div 3600000" "r div 1000 div 60 = r div 60000"
    by (simp_all add: div_mult2_eq [symmetric])
  have "r = r div 1000 * 1000 + r mod 1000" by simp
  also have "r div 1000 = r div 60000 * 60 + r div 1000 mod 60"
    using div_mult_mod_eq [of "r div 1000" 60] a by simp
  also have "r div 60000 = r div 3600000 * 60 + r div 60000 mod 60"
    using div_mult_mod_eq [of "r div 60000" 60] a by simp
  finally show ?thesis by (simp add: algebra_simps)
qed

lemma yday_bounds:
  "0 \<le> d - day_from_year (year_of_day d)" "d - day_from_year (year_of_day d) < 367"
  using year_of_day_bounds [of d] year_length [of "year_of_day d"] by linarith+

lemma ms_of_fields_of_ms: "ms_of_fields (fields_of_ms t) = t"
proof -
  define d where "d = t div 86400000"
  define r where "r = nat (t mod 86400000)"
  define y where "y = year_of_day d"
  define yd where "yd = d - day_from_year y"
  define m where "m = month_of (is_leap y) yd"
  have yd: "0 \<le> yd" "yd < 367" using yday_bounds [of d] by (simp_all add: yd_def y_def)
  have st: "month_start (is_leap y) m \<le> yd"
    using day_of_month_bounds(1) [OF yd] by (simp add: m_def)
  have r: "int r = t mod 86400000" by (simp add: r_def)
  have t: "t = d * 86400000 + int r" by (simp add: d_def r)
  have f: "fields_of_ms t =
      \<lparr>yr = y, mon = m, dom = nat (yd - month_start (is_leap y) m) + 1,
       hh = r div 3600000, mi = r div 60000 mod 60, ss = r div 1000 mod 60, msec = r mod 1000\<rparr>"
    by (simp add: fields_of_ms_def Let_def d_def r_def y_def yd_def m_def)
  have "int r = int (r div 3600000) * 3600000 + int (r div 60000 mod 60) * 60000
      + int (r div 1000 mod 60) * 1000 + int (r mod 1000)"
    using arg_cong [OF split_day [of r], of int] by (simp only: of_nat_add of_nat_mult of_nat_numeral)
  then have "int (r div 3600000) * 3600000 + int (r div 60000 mod 60) * 60000
      + int (r div 1000 mod 60) * 1000 + int (r mod 1000) = int r" by simp
  then have "ms_of_fields (fields_of_ms t)
      = (day_from_year y + month_start (is_leap y) m
          + int (nat (yd - month_start (is_leap y) m) + 1) - 1) * 86400000 + int r"
    unfolding f ms_of_fields_def by (simp only: date_fields.simps add.assoc)
  also have "day_from_year y + month_start (is_leap y) m
      + int (nat (yd - month_start (is_leap y) m) + 1) - 1 = d"
    using st by (simp add: yd_def)
  finally show ?thesis by (simp only: t)
qed

definition small_fields :: "date_fields \<Rightarrow> bool" where
  "small_fields f \<longleftrightarrow> 0 \<le> yr f \<and> yr f \<le> 9999 \<and> mon f < 100 \<and> dom f < 100 \<and> hh f < 100
     \<and> mi f < 100 \<and> ss f < 100 \<and> msec f < 1000"

lemma year_range: "0 \<le> year_of_day d \<and> year_of_day d \<le> 9999 \<longleftrightarrow> - 719528 \<le> d \<and> d < 2932897"
proof -
  have z: "day_from_year 0 = - 719528" "day_from_year 10000 = 2932897"
    by (simp_all add: day_from_year_def)
  show ?thesis
    using year_of_day_bounds [of d] z day_from_year_mono [of 0 "year_of_day d"]
      day_from_year_mono [of "year_of_day d + 1" 10000] day_from_year_mono [of 10000 "year_of_day d"]
      day_from_year_mono [of "year_of_day d + 1" 0]
    by linarith
qed

lemma four_digit_year_of_day:
  "0 \<le> year_of_day (t div 86400000) \<and> year_of_day (t div 86400000) \<le> 9999 \<longleftrightarrow> four_digit_year t"
  unfolding year_range four_digit_year_def by linarith

lemma yr_fields_of_ms [simp]: "yr (fields_of_ms t) = year_of_day (t div 86400000)"
  by (simp add: fields_of_ms_def Let_def)

lemma small_fields_of_ms: "small_fields (fields_of_ms t) \<longleftrightarrow> four_digit_year t"
proof -
  define y where "y = year_of_day (t div 86400000)"
  define yd where "yd = t div 86400000 - day_from_year y"
  define st where "st = month_start (is_leap y) (month_of (is_leap y) yd)"
  define r where "r = nat (t mod 86400000)"
  have yd: "0 \<le> yd" "yd < 367" unfolding yd_def y_def by (rule yday_bounds)+
  have m: "month_of (is_leap y) yd < 100" using month_of_bounds [OF yd(1), of "is_leap y"] by simp
  have d: "nat (yd - st) + 1 < 100" using day_of_month_bounds [OF yd, of "is_leap y"] by (simp add: st_def)
  have "r < 86400000" by (simp add: r_def)
  then have h: "r div 3600000 < 100" by linarith
  have sm: "r div 60000 mod 60 < 100" "r div 1000 mod 60 < 100" "r mod 1000 < 1000"
    using mod_less_divisor [of 60 "r div 60000"] mod_less_divisor [of 60 "r div 1000"]
    by linarith+
  have "fields_of_ms t = \<lparr>yr = y, mon = month_of (is_leap y) yd, dom = nat (yd - st) + 1,
      hh = r div 3600000, mi = r div 60000 mod 60, ss = r div 1000 mod 60, msec = r mod 1000\<rparr>"
    by (simp only: fields_of_ms_def Let_def y_def yd_def st_def r_def)
  then have "small_fields (fields_of_ms t) \<longleftrightarrow> 0 \<le> y \<and> y \<le> 9999"
    using m d h sm by (simp only: small_fields_def date_fields.simps simp_thms)
  then show ?thesis by (simp only: y_def four_digit_year_of_day)
qed

lemma length_iso_tail [simp]: "length (iso_tail f) = 20"
  by (simp add: iso_tail_def)

lemma length_iso_year: "length (iso_year y) = 4 \<longleftrightarrow> 0 \<le> y \<and> y \<le> 9999"
  by (simp add: iso_year_def)

lemma length_to_iso: "length (to_iso t) = 24 \<longleftrightarrow> four_digit_year t"
proof -
  have "length (to_iso t) = length (iso_year (year_of_day (t div 86400000))) + 20"
    by (simp only: to_iso_def Let_def length_append length_iso_tail yr_fields_of_ms)
  then have "length (to_iso t) = 24 \<longleftrightarrow> length (iso_year (year_of_day (t div 86400000))) = 4"
    by linarith
  then show ?thesis
    by (simp only: length_iso_year four_digit_year_of_day)
qed

lemma fixed_text_unfold:
  "fixed_text 2 n = [digit_char (n div 10), digit_char n]"
  "fixed_text 3 n = [digit_char (n div 100), digit_char (n div 10), digit_char n]"
  "fixed_text 4 n = [digit_char (n div 1000), digit_char (n div 100), digit_char (n div 10), digit_char n]"
proof -
  have s: "(2::nat) = Suc (Suc 0)" "(3::nat) = Suc (Suc (Suc 0))" "(4::nat) = Suc (Suc (Suc (Suc 0)))"
    by simp_all
  have d: "n div 10 div 10 = n div 100" "n div 100 div 10 = n div 1000" for n :: nat
    by (simp_all add: div_mult2_eq [symmetric])
  show "fixed_text 2 n = [digit_char (n div 10), digit_char n]"
    by (simp only: s(1) fixed_text.simps append.simps)
  show "fixed_text 3 n = [digit_char (n div 100), digit_char (n div 10), digit_char n]"
    by (simp only: s(2) fixed_text.simps append.simps d)
  show "fixed_text 4 n = [digit_char (n div 1000), digit_char (n div 100), digit_char (n div 10), digit_char n]"
    by (simp only: s(3) fixed_text.simps append.simps d)
qed

lemma iso_slices:
  fixes t :: string
  assumes "t = fixed_text 4 y @ ''-'' @ fixed_text 2 m @ ''-'' @ fixed_text 2 d @ ''T'' @ fixed_text 2 h
      @ '':'' @ fixed_text 2 i @ '':'' @ fixed_text 2 s @ ''.'' @ fixed_text 3 ms @ ''Z''"
  shows "take 4 t = fixed_text 4 y" "take 2 (drop 5 t) = fixed_text 2 m"
    "take 2 (drop 8 t) = fixed_text 2 d" "take 2 (drop 11 t) = fixed_text 2 h"
    "take 2 (drop 14 t) = fixed_text 2 i" "take 2 (drop 17 t) = fixed_text 2 s"
    "take 3 (drop 20 t) = fixed_text 3 ms"
  unfolding assms fixed_text_unfold by simp_all

lemma read_fields_iso:
  assumes "small_fields f"
  shows "read_fields (iso_year (yr f) @ iso_tail f) = f"
proof -
  define t where "t = iso_year (yr f) @ iso_tail f"
  have y: "iso_year (yr f) = fixed_text 4 (nat (yr f))" "nat (yr f) < 10 ^ 4"
    using assms by (auto simp: small_fields_def iso_year_def)
  have "t = fixed_text 4 (nat (yr f)) @ ''-'' @ fixed_text 2 (mon f) @ ''-''
      @ fixed_text 2 (dom f) @ ''T'' @ fixed_text 2 (hh f) @ '':'' @ fixed_text 2 (mi f)
      @ '':'' @ fixed_text 2 (ss f) @ ''.'' @ fixed_text 3 (msec f) @ ''Z''"
    by (simp only: t_def y iso_tail_def)
  note sl = iso_slices [OF this]
  have n: "int (nat (yr f)) = yr f" "nat (yr f) mod 10 ^ 4 = nat (yr f)"
    "mon f mod 10 ^ 2 = mon f" "dom f mod 10 ^ 2 = dom f" "hh f mod 10 ^ 2 = hh f"
    "mi f mod 10 ^ 2 = mi f" "ss f mod 10 ^ 2 = ss f" "msec f mod 10 ^ 3 = msec f"
    using assms y(2) by (simp_all add: small_fields_def)
  show ?thesis
    unfolding t_def [symmetric] read_fields_def sl read_fixed_text n by simp
qed

lemma date_ms_to_iso: "four_digit_year t \<Longrightarrow> date_ms (to_iso t) = t"
  unfolding date_ms_def to_iso_def Let_def
  by (simp only: read_fields_iso small_fields_of_ms ms_of_fields_of_ms)

lemma canonical_ts_iff: "canonical_ts s \<longleftrightarrow> (\<exists>t. four_digit_year t \<and> s = to_iso t)"
  unfolding canonical_ts_def
  by (metis date_ms_to_iso length_to_iso)

lemma canonical_to_iso [simp]: "four_digit_year t \<Longrightarrow> canonical_ts (to_iso t)"
  by (auto simp: canonical_ts_iff)

lemma canonical_length: "canonical_ts s \<Longrightarrow> length s = 24"
  by (simp add: canonical_ts_def)

lemma canonical_four_digit: "canonical_ts s \<Longrightarrow> four_digit_year (date_ms s)"
  by (auto simp: canonical_ts_iff date_ms_to_iso)

section \<open>Text order is time order\<close>

lemma clock_order:
  fixes ra rb :: nat
  shows "ra < rb \<longleftrightarrow>
    ra div 3600000 < rb div 3600000 \<or> ra div 3600000 = rb div 3600000 \<and>
    (ra div 60000 mod 60 < rb div 60000 mod 60 \<or> ra div 60000 mod 60 = rb div 60000 mod 60 \<and>
    (ra div 1000 mod 60 < rb div 1000 mod 60 \<or> ra div 1000 mod 60 = rb div 1000 mod 60 \<and>
     ra mod 1000 < rb mod 1000))"
proof -
  have step: "k * qa + x < k * qb + y \<longleftrightarrow> qa < qb \<or> qa = qb \<and> x < y"
    if "x < k" "y < k" "k = 60 \<or> k = 1000" for k qa qb x y :: nat
    using that by (elim disjE) (simp, linarith)+
  have m: "r mod 1000 < 1000" "r div 1000 mod 60 < 60" "r div 60000 mod 60 < 60" for r :: nat
    by simp_all
  have e: "1000 * (r div 1000) + r mod 1000 = r" "60 * (r div 60000) + r div 1000 mod 60 = r div 1000"
    "60 * (r div 3600000) + r div 60000 mod 60 = r div 60000" for r :: nat
    using mult_div_mod_eq [of 60 "r div 1000"] mult_div_mod_eq [of 60 "r div 60000"]
    by (simp_all add: div_mult2_eq [symmetric])
  have q: "x div k = y div k \<and> x mod k = y mod k \<longleftrightarrow> x = y" for x y k :: nat
    by (metis mult_div_mod_eq)
  show ?thesis
    using step [OF m(1) [of ra] m(1) [of rb], of "ra div 1000" "rb div 1000"]
      step [OF m(2) [of ra] m(2) [of rb], of "ra div 60000" "rb div 60000"]
      step [OF m(3) [of ra] m(3) [of rb], of "ra div 3600000" "rb div 3600000"]
      q [of "ra div 1000" 60 "rb div 1000"] q [of "ra div 60000" 60 "rb div 60000"]
    unfolding e by (auto simp: div_mult2_eq [symmetric])
qed

definition fields_less :: "date_fields \<Rightarrow> date_fields \<Rightarrow> bool" where
  "fields_less f g \<longleftrightarrow>
     yr f < yr g \<or> yr f = yr g \<and> (mon f < mon g \<or> mon f = mon g \<and> (dom f < dom g \<or> dom f = dom g \<and>
     (hh f < hh g \<or> hh f = hh g \<and> (mi f < mi g \<or> mi f = mi g \<and>
     (ss f < ss g \<or> ss f = ss g \<and> msec f < msec g)))))"

lemma fields_less_of_ms:
  assumes "a < b"
  shows "fields_less (fields_of_ms a) (fields_of_ms b)"
proof -
  define da db where "da = a div 86400000" and "db = b div 86400000"
  define ra rb where "ra = nat (a mod 86400000)" and "rb = nat (b mod 86400000)"
  define ya yb where "ya = year_of_day da" and "yb = year_of_day db"
  define va vb where "va = da - day_from_year ya" and "vb = db - day_from_year yb"
  define ma mb where "ma = month_of (is_leap ya) va" and "mb = month_of (is_leap yb) vb"
  define xa xb where "xa = nat (va - month_start (is_leap ya) ma)" and "xb = nat (vb - month_start (is_leap yb) mb)"
  have f: "fields_of_ms a = \<lparr>yr = ya, mon = ma, dom = xa + 1, hh = ra div 3600000,
      mi = ra div 60000 mod 60, ss = ra div 1000 mod 60, msec = ra mod 1000\<rparr>"
    "fields_of_ms b = \<lparr>yr = yb, mon = mb, dom = xb + 1, hh = rb div 3600000,
      mi = rb div 60000 mod 60, ss = rb div 1000 mod 60, msec = rb mod 1000\<rparr>"
    by (simp_all only: fields_of_ms_def Let_def da_def db_def ra_def rb_def ya_def yb_def va_def vb_def
        ma_def mb_def xa_def xb_def)
  have d: "da \<le> db" using assms unfolding da_def db_def by (intro zdiv_mono1) auto
  have y: "ya \<le> yb" using year_of_day_mono [OF d] by (simp add: ya_def yb_def)
  have m: "ma \<le> mb" if "ya = yb"
    using d that month_of_mono [of va vb "is_leap yb"] by (simp add: va_def vb_def ma_def mb_def)
  have x: "xa \<le> xb" if "ya = yb" "ma = mb"
    using d that by (simp add: xa_def xb_def va_def vb_def)
  have same: "da = db" if "ya = yb" "ma = mb" "xa = xb"
  proof -
    have v: "0 \<le> va" "va < 367" "0 \<le> vb" "vb < 367"
      unfolding va_def vb_def ya_def yb_def by (rule yday_bounds)+
    have "month_start (is_leap ya) ma \<le> va" "month_start (is_leap yb) mb \<le> vb"
      unfolding ma_def mb_def
      using day_of_month_bounds(1) [OF v(1,2)] day_of_month_bounds(1) [OF v(3,4)] by blast+
    with that show ?thesis by (simp add: xa_def xb_def va_def vb_def)
  qed
  have r: "ra < rb" if "da = db"
  proof -
    have "a = da * 86400000 + int ra" "b = db * 86400000 + int rb"
      by (simp_all add: da_def db_def ra_def rb_def)
    with assms that show ?thesis by linarith
  qed
  consider "ya < yb" | "ya = yb" "ma < mb" | "ya = yb" "ma = mb" "xa < xb"
    | "ya = yb" "ma = mb" "xa = xb"
    using y m x by linarith
  then show ?thesis
  proof cases
    case 4
    then have "ra < rb" using same r by blast
    then show ?thesis
      using 4 clock_order [of ra rb] unfolding f fields_less_def date_fields.simps by simp
  qed (simp_all add: f fields_less_def)
qed

lemma fixed_text_eq_iff: "a < 10 ^ w \<Longrightarrow> b < 10 ^ w \<Longrightarrow> fixed_text w a = fixed_text w b \<longleftrightarrow> a = b"
  by (metis fixed_text_less less_irrefl linorder_neq_iff)

lemma iso_text_less:
  assumes "small_fields f" "small_fields g"
  shows "iso_year (yr f) @ iso_tail f < iso_year (yr g) @ iso_tail g \<longleftrightarrow> fields_less f g"
proof -
  have w2: "a < 100 \<Longrightarrow> b < 100 \<Longrightarrow> fixed_text 2 a @ u < fixed_text 2 b @ v \<longleftrightarrow> a < b \<or> a = b \<and> u < v"
    for a b :: nat and u v :: string
    using fixed_text_less [of a 2 b] fixed_text_eq_iff [of a 2 b] by (simp add: append_same_length_less)
  have w3: "a < 1000 \<Longrightarrow> b < 1000 \<Longrightarrow> fixed_text 3 a @ u < fixed_text 3 b @ u \<longleftrightarrow> a < b"
    for a b :: nat and u :: string
    using fixed_text_less [of a 3 b] by (simp add: append_same_length_less)
  have w4: "0 \<le> a \<Longrightarrow> a \<le> 9999 \<Longrightarrow> 0 \<le> b \<Longrightarrow> b \<le> 9999 \<Longrightarrow>
      iso_year a @ u < iso_year b @ v \<longleftrightarrow> a < b \<or> a = b \<and> u < v"
    for a b :: int and u v :: string
    using fixed_text_less [of "nat a" 4 "nat b"] fixed_text_eq_iff [of "nat a" 4 "nat b"]
    by (auto simp: append_same_length_less iso_year_def)
  show ?thesis
    using assms unfolding small_fields_def fields_less_def iso_tail_def
    by (simp add: w2 w3 w4 append_less_same del: append.simps)
qed

text \<open>Comparing two canonical stamps as text is comparing the instants.\<close>

lemma to_iso_less:
  "four_digit_year a \<Longrightarrow> four_digit_year b \<Longrightarrow> to_iso a < to_iso b \<longleftrightarrow> a < b"
proof -
  assume ab: "four_digit_year a" "four_digit_year b"
  have less: "to_iso x < to_iso y" if "x < y" "four_digit_year x" "four_digit_year y" for x y
    using that fields_less_of_ms [of x y]
      iso_text_less [of "fields_of_ms x" "fields_of_ms y"]
    unfolding to_iso_def Let_def by (simp only: small_fields_of_ms)
  show ?thesis
    using less [of a b] less [of b a] ab by (metis less_asym linorder_less_linear)
qed

lemma canonical_less: "canonical_ts s \<Longrightarrow> canonical_ts t \<Longrightarrow> s < t \<longleftrightarrow> date_ms s < date_ms t"
  by (auto simp: canonical_ts_iff to_iso_less date_ms_to_iso)

lemma canonical_le: "canonical_ts s \<Longrightarrow> canonical_ts t \<Longrightarrow> s \<le> t \<longleftrightarrow> date_ms s \<le> date_ms t"
  using canonical_less [of t s] by (simp add: linorder_not_less [symmetric])

section \<open>Two instants spelled out\<close>

lemma fields_of_ms_eval:
  assumes "t div 86400000 = d" "nat (t mod 86400000) = r" "year_of_day d = y" "d - day_from_year y = yd"
    and "is_leap y = l" "month_of l yd = m" "nat (yd - month_start l m) + 1 = n"
    and "r div 3600000 = h" "r div 60000 mod 60 = i" "r div 1000 mod 60 = s" "r mod 1000 = ms"
  shows "fields_of_ms t = \<lparr>yr = y, mon = m, dom = n, hh = h, mi = i, ss = s, msec = ms\<rparr>"
  using assms by (simp only: fields_of_ms_def Let_def)

lemma to_iso_epoch: "to_iso 0 = ''1970-01-01T00:00:00.000Z''"
proof -
  have f: "fields_of_ms 0 = \<lparr>yr = 1970, mon = 1, dom = 1, hh = 0, mi = 0, ss = 0, msec = 0\<rparr>"
    by (rule fields_of_ms_eval [where l = False and d = 0 and r = 0 and y = 1970 and yd = 0 and m = 1])
      (simp_all add: year_of_day_def day_from_year_def is_leap_def month_of_def month_starts_def month_start_def)
  show ?thesis unfolding to_iso_def f Let_def by code_simp
qed

lemma to_iso_leap_day: "to_iso 1709208000000 = ''2024-02-29T12:00:00.000Z''"
proof -
  have f: "fields_of_ms 1709208000000 = \<lparr>yr = 2024, mon = 2, dom = 29, hh = 12, mi = 0, ss = 0, msec = 0\<rparr>"
    by (rule fields_of_ms_eval [where l = True and d = 19782 and r = 43200000 and y = 2024 and yd = 59 and m = 2])
      (simp_all add: year_of_day_def day_from_year_def is_leap_def month_of_def month_starts_def month_start_def)
  show ?thesis unfolding to_iso_def f Let_def by code_simp
qed
lemma canonical_epoch: "canonical_ts ''1970-01-01T00:00:00.000Z''"
  using canonical_to_iso [of 0] by (simp add: to_iso_epoch four_digit_year_def)

lemma canonical_leap_day: "canonical_ts ''2024-02-29T12:00:00.000Z''"
  using canonical_to_iso [of 1709208000000] by (simp add: to_iso_leap_day four_digit_year_def)

lemma date_ms_samples:
  "date_ms ''1970-01-01T00:00:00.000Z'' = 0" "date_ms ''2024-02-29T12:00:00.000Z'' = 1709208000000"
  using date_ms_to_iso [of 0] date_ms_to_iso [of 1709208000000]
  by (simp_all add: to_iso_epoch to_iso_leap_day four_digit_year_def)

end
