(* ===== verification/JsValue.thy ===== *)
theory JsValue
  imports IsoTime
begin

text \<open>
  The untyped values the code parses and the scalar parsers every durable record is built from
  (\<^verbatim>\<open>state-local/src/validation.ts\<close>, the scalar parsers at the end of \<^verbatim>\<open>execution-codec.ts\<close>,
  and \<^verbatim>\<open>parseRouteIdentity\<close>, \<^verbatim>\<open>parseArtifactRef\<close> with their helpers in
  \<^verbatim>\<open>module-sdk/src/interactions.ts\<close>).

  A text is its UTF-8 byte sequence, so \<^verbatim>\<open>Buffer.byteLength\<close> is \<open>length\<close>. A number is \<open>JNum\<close>
  when it is a safe integer (zero and negative zero are not told apart), \<open>JFloat\<close> with its JSON
  text when it is any other finite number, \<open>JNonFinite\<close> otherwise. \<open>JObj\<close> is a plain object with
  own data properties only, in insertion order; \<open>JExotic\<close> is any other object (accessors, symbol
  keys, foreign prototypes) and any function, symbol or bigint. A \<^verbatim>\<open>TypeError\<close> or
  \<^verbatim>\<open>RangeError\<close> carries the path its message starts with.
\<close>

datatype js =
    JUndef
  | JNull
  | JBool bool
  | JNum int
  | JFloat string
  | JNonFinite
  | JStr string
  | JArr "js list"
  | JObj "(string \<times> js) list"
  | JBytes string
  | JExotic

named_theorems parse_iffs
named_theorems parse_evals

section \<open>Reading objects and arrays\<close>

definition fld :: "(string \<times> js) list \<Rightarrow> string \<Rightarrow> js" where
  "fld fs k = (case map_of fs k of None \<Rightarrow> JUndef | Some v \<Rightarrow> v)"

definition is_plain_record :: "js \<Rightarrow> bool" where
  "is_plain_record v = (case v of JObj fs \<Rightarrow> True | _ \<Rightarrow> False)"

definition own_data_record :: "string \<Rightarrow> string list \<Rightarrow> js \<Rightarrow> (string \<times> js) list result" where
  "own_data_record path allowed v =
     (case v of
        JObj fs \<Rightarrow>
          if list_all (\<lambda>(k, _). k \<in> set allowed) fs then Inr fs else Inl (TypeError path)
      | _ \<Rightarrow> Inl (TypeError path))"

definition dense_own_data_array :: "string \<Rightarrow> nat \<Rightarrow> js \<Rightarrow> js list result" where
  "dense_own_data_array path maximum v =
     (case v of
        JArr xs \<Rightarrow> if length xs \<le> maximum then Inr xs else Inl (RangeError path)
      | _ \<Rightarrow> Inl (TypeError path))"

definition opt_field :: "(js \<Rightarrow> 'a result) \<Rightarrow> js \<Rightarrow> 'a option result" where
  "opt_field p v = (if v = JUndef then Inr None else rbind (p v) (\<lambda>x. Inr (Some x)))"

text \<open>Object literals: \<open>req k v\<close> is \<^verbatim>\<open>k: v\<close>, \<open>opt k f x\<close> is
  \<^verbatim>\<open>...(x === undefined ? {} : { k: f(x) })\<close>.\<close>

definition req :: "string \<Rightarrow> js \<Rightarrow> (string \<times> js) list" where
  "req k v = [(k, v)]"

definition opt :: "string \<Rightarrow> ('a \<Rightarrow> js) \<Rightarrow> 'a option \<Rightarrow> (string \<times> js) list" where
  "opt k f x = (case x of None \<Rightarrow> [] | Some y \<Rightarrow> [(k, f y)])"

lemma fld_req [simp]: "fld (req k v @ fs) k' = (if k = k' then v else fld fs k')"
  by (simp add: fld_def req_def)

lemma fld_opt [simp]:
  "fld (opt k f x @ fs) k' = (if k = k' then (case x of None \<Rightarrow> fld fs k' | Some y \<Rightarrow> f y) else fld fs k')"
  by (cases x) (auto simp: fld_def opt_def)

lemma fld_req_last [simp]: "fld (req k v) k' = (if k = k' then v else JUndef)"
  by (simp add: fld_def req_def)

lemma fld_opt_last [simp]:
  "fld (opt k f x) k' = (if k = k' then (case x of None \<Rightarrow> JUndef | Some y \<Rightarrow> f y) else JUndef)"
  by (cases x) (auto simp: fld_def opt_def)

lemma fld_Nil [simp]: "fld [] k = JUndef"
  by (simp add: fld_def)

lemma fld_Cons [simp]: "fld ((k, v) # fs) k' = (if k = k' then v else fld fs k')"
  by (simp add: fld_def)

lemma list_all_req [simp]: "list_all P (req k v) \<longleftrightarrow> P (k, v)"
  by (simp add: req_def)

lemma list_all_opt [simp]: "list_all P (opt k f x) \<longleftrightarrow> (\<forall>y. x = Some y \<longrightarrow> P (k, f y))"
  by (cases x) (auto simp: opt_def)

text \<open>\<open>opt_ok P x\<close>: an optional field is absent or satisfies \<open>P\<close>.\<close>

definition opt_ok :: "('a \<Rightarrow> bool) \<Rightarrow> 'a option \<Rightarrow> bool" where
  "opt_ok P x \<longleftrightarrow> (\<forall>y. x = Some y \<longrightarrow> P y)"

lemma opt_ok_simps [simp]: "opt_ok P None" "opt_ok P (Some y) \<longleftrightarrow> P y"
  by (simp_all add: opt_ok_def)

lemma opt_field_ok: "opt_field p v = Inr x \<Longrightarrow> (\<And>u y. p u = Inr y \<Longrightarrow> P y) \<Longrightarrow> opt_ok P x"
  by (auto simp: opt_field_def opt_ok_def split: if_splits elim!: rbind_InrE)

lemma opt_okD: "opt_ok P x \<Longrightarrow> x = Some y \<Longrightarrow> P y"
  by (simp add: opt_ok_def)

lemma own_data_record_Inr [parse_iffs]:
  "own_data_record path allowed v = Inr fs \<longleftrightarrow> v = JObj fs \<and> list_all (\<lambda>(k, _). k \<in> set allowed) fs"
  by (auto simp: own_data_record_def split: js.splits)

lemma dense_own_data_array_Inr [parse_iffs]:
  "dense_own_data_array path maximum v = Inr xs \<longleftrightarrow> v = JArr xs \<and> length xs \<le> maximum"
  by (auto simp: dense_own_data_array_def split: js.splits)

lemma opt_field_Inr:
  "opt_field p v = Inr x \<longleftrightarrow> (v = JUndef \<and> x = None) \<or> (v \<noteq> JUndef \<and> (\<exists>y. p v = Inr y \<and> x = Some y))"
  by (auto simp: opt_field_def rbind_Inr_iff)

section \<open>Texts\<close>

definition js_ws1 :: "nat list" where
  "js_ws1 = [9, 10, 11, 12, 13, 32]"

definition js_ws3 :: "nat list list" where
  "js_ws3 =
     [[225, 154, 128], [226, 128, 128], [226, 128, 129], [226, 128, 130], [226, 128, 131],
      [226, 128, 132], [226, 128, 133], [226, 128, 134], [226, 128, 135], [226, 128, 136],
      [226, 128, 137], [226, 128, 138], [226, 128, 168], [226, 128, 169], [226, 128, 175],
      [226, 129, 159], [227, 128, 128], [239, 187, 191]]"

text \<open>\<open>blank s\<close> is \<^verbatim>\<open>s.trim().length === 0\<close>: only JavaScript white space, in UTF-8.\<close>

fun blank_bytes :: "nat list \<Rightarrow> bool" where
  "blank_bytes [] = True"
| "blank_bytes [a] = (a \<in> set js_ws1)"
| "blank_bytes [a, b] =
     (if a \<in> set js_ws1 then blank_bytes [b] else a = 194 \<and> b = 160)"
| "blank_bytes (a # b # c # cs) =
     (if a \<in> set js_ws1 then blank_bytes (b # c # cs)
      else if a = 194 \<and> b = 160 then blank_bytes (c # cs)
      else [a, b, c] \<in> set js_ws3 \<and> blank_bytes cs)"

definition blank :: "string \<Rightarrow> bool" where
  "blank s = blank_bytes (map of_char s)"

definition has_nul :: "string \<Rightarrow> bool" where
  "has_nul s = list_ex (\<lambda>c. (of_char c :: nat) = 0) s"

definition text_ok :: "nat \<Rightarrow> bool \<Rightarrow> string \<Rightarrow> bool" where
  "text_ok maximum allow_empty s \<longleftrightarrow> (allow_empty \<or> \<not> blank s) \<and> \<not> has_nul s \<and> length s \<le> maximum"

definition bounded_text :: "string \<Rightarrow> nat \<Rightarrow> bool \<Rightarrow> js \<Rightarrow> string result" where
  "bounded_text path maximum allow_empty v =
     (case v of
        JStr s \<Rightarrow> if text_ok maximum allow_empty s then Inr s else Inl (TypeError path)
      | _ \<Rightarrow> Inl (TypeError path))"

definition canonical_timestamp :: "string \<Rightarrow> js \<Rightarrow> string result" where
  "canonical_timestamp path v =
     (case v of
        JStr s \<Rightarrow> if canonical_ts s then Inr s else Inl (TypeError path)
      | _ \<Rightarrow> Inl (TypeError path))"

lemma bounded_text_Inr [parse_iffs]:
  "bounded_text path maximum e v = Inr s \<longleftrightarrow> v = JStr s \<and> text_ok maximum e s"
  by (auto simp: bounded_text_def split: js.splits)

lemma canonical_timestamp_Inr [parse_iffs]:
  "canonical_timestamp path v = Inr s \<longleftrightarrow> v = JStr s \<and> canonical_ts s"
  by (auto simp: canonical_timestamp_def split: js.splits)

lemma text_ok_mono: "text_ok m e s \<Longrightarrow> m \<le> n \<Longrightarrow> text_ok n e s"
  by (simp add: text_ok_def)

text \<open>\<^verbatim>\<open>createDurableFingerprint\<close> and the record parsers share these scalar parsers.\<close>

definition code_of :: "char \<Rightarrow> nat" where
  "code_of c = of_char c"

lemma not_blank_ascii: "code_of c < 128 \<Longrightarrow> code_of c \<notin> set js_ws1 \<Longrightarrow> \<not> blank (c # cs)"
proof -
  assume a: "code_of c < 128" "code_of c \<notin> set js_ws1"
  then have "[code_of c, x, y] \<notin> set js_ws3" for x y by (auto simp: js_ws3_def)
  with a show ?thesis
    by (cases "map of_char cs :: nat list" rule: blank_bytes.cases)
      (auto simp: blank_def code_of_def split: list.splits)
qed

definition graphic :: "char \<Rightarrow> bool" where
  "graphic c \<longleftrightarrow> 33 \<le> code_of c \<and> code_of c \<le> 126"

lemma text_ok_graphic:
  assumes "s \<noteq> []" "list_all graphic s" "length s \<le> m"
  shows "text_ok m e s"
proof -
  obtain c cs where s: "s = c # cs" using assms(1) by (cases s) auto
  have "\<not> blank s" using assms(2) unfolding s
    by (intro not_blank_ascii) (auto simp: graphic_def js_ws1_def)
  moreover have "\<not> has_nul s"
    using assms(2) by (auto simp: has_nul_def list_ex_iff list_all_iff graphic_def code_of_def)
  ultimately show ?thesis using assms(3) by (simp add: text_ok_def)
qed

definition is_alnum :: "char \<Rightarrow> bool" where
  "is_alnum c \<longleftrightarrow> (48 \<le> code_of c \<and> code_of c \<le> 57) \<or> (65 \<le> code_of c \<and> code_of c \<le> 90)
     \<or> (97 \<le> code_of c \<and> code_of c \<le> 122)"

definition is_hex :: "char \<Rightarrow> bool" where
  "is_hex c \<longleftrightarrow> (48 \<le> code_of c \<and> code_of c \<le> 57) \<or> (97 \<le> code_of c \<and> code_of c \<le> 102)"

definition hex64 :: "string \<Rightarrow> bool" where
  "hex64 s \<longleftrightarrow> length s = 64 \<and> list_all is_hex s"

definition fingerprint_ok :: "string \<Rightarrow> bool" where
  "fingerprint_ok s \<longleftrightarrow> (\<exists>h \<in> {drop 7 s}. s = ''sha256:'' @ h \<and> hex64 h)"

definition parse_fingerprint :: "string \<Rightarrow> js \<Rightarrow> string result" where
  "parse_fingerprint path v =
     (case v of
        JStr s \<Rightarrow> if fingerprint_ok s then Inr s else Inl (TypeError path)
      | _ \<Rightarrow> Inl (TypeError path))"

definition identifier_max_bytes :: nat where "identifier_max_bytes = 512"
definition conversation_id_max_bytes :: nat where "conversation_id_max_bytes = 4096"
definition code_max_bytes :: nat where "code_max_bytes = 512"

definition bounded_identifier :: "string \<Rightarrow> js \<Rightarrow> string result" where
  "bounded_identifier path v = bounded_text path identifier_max_bytes False v"

definition bounded_conversation_id :: "string \<Rightarrow> js \<Rightarrow> string result" where
  "bounded_conversation_id path v = bounded_text path conversation_id_max_bytes False v"

abbreviation ident_ok :: "string \<Rightarrow> bool" where
  "ident_ok \<equiv> text_ok identifier_max_bytes False"

abbreviation conv_id_ok :: "string \<Rightarrow> bool" where
  "conv_id_ok \<equiv> text_ok conversation_id_max_bytes False"

definition code_char :: "char \<Rightarrow> bool" where
  "code_char c \<longleftrightarrow> is_alnum c \<or> c \<in> set ''._:/-''"

definition code_ok :: "string \<Rightarrow> bool" where
  "code_ok s \<longleftrightarrow> s \<noteq> [] \<and> length s \<le> code_max_bytes \<and> is_alnum (hd s) \<and> list_all code_char (tl s)"

definition bounded_code :: "string \<Rightarrow> js \<Rightarrow> string result" where
  "bounded_code path v =
     (case v of
        JStr s \<Rightarrow> if code_ok s then Inr s else Inl (TypeError path)
      | _ \<Rightarrow> Inl (TypeError path))"

lemma bounded_identifier_Inr [parse_iffs]:
  "bounded_identifier path v = Inr s \<longleftrightarrow> v = JStr s \<and> ident_ok s"
  by (simp add: bounded_identifier_def parse_iffs)

lemma bounded_conversation_id_Inr [parse_iffs]:
  "bounded_conversation_id path v = Inr s \<longleftrightarrow> v = JStr s \<and> conv_id_ok s"
  by (simp add: bounded_conversation_id_def parse_iffs)

lemma parse_fingerprint_Inr [parse_iffs]:
  "parse_fingerprint path v = Inr s \<longleftrightarrow> v = JStr s \<and> fingerprint_ok s"
  by (auto simp: parse_fingerprint_def split: js.splits)

lemma bounded_code_Inr [parse_iffs]:
  "bounded_code path v = Inr s \<longleftrightarrow> v = JStr s \<and> code_ok s"
  by (auto simp: bounded_code_def split: js.splits)

section \<open>Numbers and enumerations\<close>

definition max_safe_integer :: int where
  "max_safe_integer = 9007199254740991"

definition bounded_integer :: "string \<Rightarrow> nat \<Rightarrow> nat \<Rightarrow> js \<Rightarrow> nat result" where
  "bounded_integer path minimum maximum v =
     (case v of
        JNum i \<Rightarrow> if int minimum \<le> i \<and> i \<le> int maximum then Inr (nat i) else Inl (TypeError path)
      | _ \<Rightarrow> Inl (TypeError path))"

lemma bounded_integer_Inr [parse_iffs]:
  "bounded_integer path lo hi v = Inr n \<longleftrightarrow> v = JNum (int n) \<and> lo \<le> n \<and> n \<le> hi"
  by (auto simp: bounded_integer_def split: js.splits)

text \<open>\<open>string_enum\<close> reads a text among the allowed ones as the constructor the table gives it.\<close>

definition string_enum :: "string \<Rightarrow> (string \<times> 'a) list \<Rightarrow> js \<Rightarrow> 'a result" where
  "string_enum path table v =
     (case v of
        JStr s \<Rightarrow> (case map_of table s of Some a \<Rightarrow> Inr a | None \<Rightarrow> Inl (TypeError path))
      | _ \<Rightarrow> Inl (TypeError path))"

lemma string_enum_Inr [parse_iffs]:
  "string_enum path table v = Inr a \<longleftrightarrow> (\<exists>s. v = JStr s \<and> map_of table s = Some a)"
  by (auto simp: string_enum_def split: js.splits option.splits)

section \<open>Route identities and artifact references\<close>

definition unsafe_keys :: "string list" where
  "unsafe_keys = [''__proto__'', ''constructor'', ''prototype'']"

definition contract_record :: "string \<Rightarrow> string list \<Rightarrow> js \<Rightarrow> (string \<times> js) list result" where
  "contract_record path allowed v =
     (case v of
        JObj fs \<Rightarrow>
          if list_ex (\<lambda>(k, _). k \<in> set unsafe_keys) fs then Inl (TypeError path)
          else if list_all (\<lambda>(k, _). k \<in> set allowed) fs then Inr fs
          else Inl (TypeError path)
      | _ \<Rightarrow> Inl (TypeError path))"

definition contract_text :: "string \<Rightarrow> nat \<Rightarrow> js \<Rightarrow> string result" where
  "contract_text path maximum v =
     (case v of
        JStr s \<Rightarrow>
          if s = [] \<or> blank s then Inl (TypeError path)
          else if has_nul s then Inl (TypeError path)
          else if maximum < length s then Inl (TypeError path)
          else Inr s
      | _ \<Rightarrow> Inl (TypeError path))"

definition identifier_char :: "char \<Rightarrow> bool" where
  "identifier_char c \<longleftrightarrow> is_alnum c \<or> c \<in> set ''._:@/-''"

definition contract_identifier_ok :: "string \<Rightarrow> bool" where
  "contract_identifier_ok s \<longleftrightarrow>
     s \<noteq> [] \<and> length s \<le> 256 \<and> is_alnum (hd s) \<and> list_all identifier_char (tl s)"

definition contract_identifier :: "string \<Rightarrow> js \<Rightarrow> string result" where
  "contract_identifier path v =
     (case v of
        JStr s \<Rightarrow> if contract_identifier_ok s then Inr s else Inl (TypeError path)
      | _ \<Rightarrow> Inl (TypeError path))"

definition contract_non_negative_integer :: "string \<Rightarrow> js \<Rightarrow> nat result" where
  "contract_non_negative_integer path v = bounded_integer path 0 (nat max_safe_integer) v"

lemma contract_record_Inr [parse_iffs]:
  "contract_record path allowed v = Inr fs \<longleftrightarrow>
     v = JObj fs \<and> \<not> list_ex (\<lambda>(k, _). k \<in> set unsafe_keys) fs \<and> list_all (\<lambda>(k, _). k \<in> set allowed) fs"
  by (auto simp: contract_record_def split: js.splits)

lemma contract_text_Inr [parse_iffs]:
  "contract_text path maximum v = Inr s \<longleftrightarrow> v = JStr s \<and> text_ok maximum False s"
  by (auto simp: contract_text_def text_ok_def blank_def split: js.splits)

lemma contract_identifier_Inr [parse_iffs]:
  "contract_identifier path v = Inr s \<longleftrightarrow> v = JStr s \<and> contract_identifier_ok s"
  by (auto simp: contract_identifier_def split: js.splits)

lemma contract_non_negative_integer_Inr [parse_iffs]:
  "contract_non_negative_integer path v = Inr n \<longleftrightarrow> v = JNum (int n) \<and> int n \<le> max_safe_integer"
  by (auto simp: contract_non_negative_integer_def parse_iffs max_safe_integer_def)

record route_identity =
  rt_instance :: string
  rt_model :: string

definition parse_route_identity :: "js \<Rightarrow> route_identity result" where
  "parse_route_identity v =
     rbind (contract_record ''route identity'' [''runtimeInstanceId'', ''model''] v) (\<lambda>input.
     rbind (contract_identifier ''route identity.runtimeInstanceId'' (fld input ''runtimeInstanceId'')) (\<lambda>i.
     rbind (contract_text ''route identity.model'' 4096 (fld input ''model'')) (\<lambda>m.
     Inr \<lparr>rt_instance = i, rt_model = m\<rparr>)))"

definition encode_route_identity :: "route_identity \<Rightarrow> js" where
  "encode_route_identity r =
     JObj (req ''runtimeInstanceId'' (JStr (rt_instance r)) @ req ''model'' (JStr (rt_model r)))"

definition wf_route :: "route_identity \<Rightarrow> bool" where
  [wf_defs]: "wf_route r \<longleftrightarrow> contract_identifier_ok (rt_instance r) \<and> text_ok 4096 False (rt_model r)"

definition same_route :: "route_identity \<Rightarrow> route_identity \<Rightarrow> bool" where
  "same_route l r \<longleftrightarrow> rt_instance l = rt_instance r \<and> rt_model l = rt_model r"

lemma same_route_eq: "same_route l r \<longleftrightarrow> l = r"
  by (cases l; cases r) (simp add: same_route_def)

record artifact_ref =
  ar_id :: string
  ar_sha256 :: string
  ar_size :: nat
  ar_media :: string
  ar_file :: "string option"

definition media_char :: "char \<Rightarrow> bool" where
  "media_char c \<longleftrightarrow> is_alnum c \<or> c \<in> set ''!#$&^_.+-''"

definition media_part_ok :: "string \<Rightarrow> bool" where
  "media_part_ok s \<longleftrightarrow> s \<noteq> [] \<and> is_alnum (hd s) \<and> list_all media_char (tl s)"

definition media_type_ok :: "string \<Rightarrow> bool" where
  "media_type_ok s \<longleftrightarrow>
     (let a = takeWhile (\<lambda>c. c \<noteq> CHR ''/'') s; b = dropWhile (\<lambda>c. c \<noteq> CHR ''/'') s in
      media_part_ok a \<and> b \<noteq> [] \<and> media_part_ok (tl b))"

definition file_name_ok :: "string \<Rightarrow> bool" where
  "file_name_ok s \<longleftrightarrow> CHR ''/'' \<notin> set s \<and> CHR 0x5C \<notin> set s \<and> \<not> has_nul s \<and> s \<noteq> ''.'' \<and> s \<noteq> ''..''"

definition parse_artifact_ref :: "js \<Rightarrow> artifact_ref result" where
  "parse_artifact_ref v =
     rbind (contract_record ''artifact reference''
              [''id'', ''sha256'', ''sizeBytes'', ''mediaType'', ''fileName''] v) (\<lambda>input.
     rbind (contract_text ''artifact reference.sha256'' 71 (fld input ''sha256'')) (\<lambda>sha.
     rbind (require (fingerprint_ok sha) (TypeError ''artifact reference.sha256'')) (\<lambda>_.
     rbind (contract_text ''artifact reference.mediaType'' 255 (fld input ''mediaType'')) (\<lambda>media.
     rbind (require (media_type_ok media) (TypeError ''artifact reference.mediaType'')) (\<lambda>_.
     rbind (contract_non_negative_integer ''artifact reference.sizeBytes'' (fld input ''sizeBytes'')) (\<lambda>size.
     rbind (opt_field (contract_text ''artifact reference.fileName'' 255) (fld input ''fileName'')) (\<lambda>file.
     rbind (require (case file of None \<Rightarrow> True | Some f \<Rightarrow> file_name_ok f)
              (TypeError ''artifact reference.fileName'')) (\<lambda>_.
     rbind (contract_identifier ''artifact reference.id'' (fld input ''id'')) (\<lambda>i.
     Inr \<lparr>ar_id = i, ar_sha256 = sha, ar_size = size, ar_media = media, ar_file = file\<rparr>)))))))))"

definition encode_artifact_ref :: "artifact_ref \<Rightarrow> js" where
  "encode_artifact_ref r =
     JObj (req ''id'' (JStr (ar_id r)) @ req ''sha256'' (JStr (ar_sha256 r))
       @ req ''sizeBytes'' (JNum (int (ar_size r))) @ req ''mediaType'' (JStr (ar_media r))
       @ opt ''fileName'' JStr (ar_file r))"

definition wf_artifact_ref :: "artifact_ref \<Rightarrow> bool" where
  [wf_defs]: "wf_artifact_ref r \<longleftrightarrow>
     contract_identifier_ok (ar_id r) \<and> text_ok 71 False (ar_sha256 r) \<and> fingerprint_ok (ar_sha256 r)
     \<and> int (ar_size r) \<le> max_safe_integer \<and> text_ok 255 False (ar_media r) \<and> media_type_ok (ar_media r)
     \<and> (case ar_file r of None \<Rightarrow> True | Some f \<Rightarrow> text_ok 255 False f \<and> file_name_ok f)"

text \<open>
  The facts that evaluate a parser on an encoded value, one field at a time: \<open>rbind_weak_cong\<close>
  keeps the continuation untouched until its argument is a value.
\<close>

lemma rbind_weak_cong: "m = m' \<Longrightarrow> rbind m f = rbind m' f"
  by simp

lemma own_data_record_obj [parse_evals]:
  "list_all (\<lambda>(k, _). k \<in> set allowed) fs \<Longrightarrow> own_data_record path allowed (JObj fs) = Inr fs"
  by (simp add: parse_iffs)

lemma contract_record_obj [parse_evals]:
  "list_all (\<lambda>(k, _). k \<in> set allowed \<and> k \<notin> set unsafe_keys) fs \<Longrightarrow>
   contract_record path allowed (JObj fs) = Inr fs"
  by (auto simp: parse_iffs list_all_iff list_ex_iff)

lemma scalar_evals [parse_evals]:
  "text_ok n e s \<Longrightarrow> bounded_text path n e (JStr s) = Inr s"
  "canonical_ts s \<Longrightarrow> canonical_timestamp path (JStr s) = Inr s"
  "ident_ok s \<Longrightarrow> bounded_identifier path (JStr s) = Inr s"
  "conv_id_ok s \<Longrightarrow> bounded_conversation_id path (JStr s) = Inr s"
  "fingerprint_ok s \<Longrightarrow> parse_fingerprint path (JStr s) = Inr s"
  "code_ok s \<Longrightarrow> bounded_code path (JStr s) = Inr s"
  "lo \<le> i \<Longrightarrow> i \<le> hi \<Longrightarrow> bounded_integer path lo hi (JNum (int i)) = Inr i"
  "text_ok n False s \<Longrightarrow> contract_text path n (JStr s) = Inr s"
  "contract_identifier_ok s \<Longrightarrow> contract_identifier path (JStr s) = Inr s"
  "int i \<le> max_safe_integer \<Longrightarrow> contract_non_negative_integer path (JNum (int i)) = Inr i"
  "length xs \<le> n \<Longrightarrow> dense_own_data_array path n (JArr xs) = Inr xs"
  "map_of table s = Some a \<Longrightarrow> string_enum path table (JStr s) = Inr a"
  by (simp_all add: parse_iffs)

lemma opt_field_evals [parse_evals]:
  "opt_field p JUndef = Inr None"
  "p v = Inr x \<Longrightarrow> v \<noteq> JUndef \<Longrightarrow> opt_field p v = Inr (Some x)"
  by (simp_all add: opt_field_def)

text \<open>An optional field of a literal: the parser inverts the encoder when the field is present.\<close>

lemma opt_field_case [parse_evals]:
  "(x = None \<Longrightarrow> z = JUndef) \<Longrightarrow> (\<And>y. x = Some y \<Longrightarrow> p (f y) = Inr y) \<Longrightarrow> (\<And>y. f y \<noteq> JUndef) \<Longrightarrow>
   opt_field p (case x of None \<Rightarrow> z | Some y \<Rightarrow> f y) = Inr x"
  by (cases x) (simp_all add: opt_field_def)

lemma route_roundtrip: "wf_route r \<Longrightarrow> parse_route_identity (encode_route_identity r) = Inr r"
  by (simp add: parse_route_identity_def encode_route_identity_def wf_route_def parse_evals
      unsafe_keys_def cong: rbind_weak_cong)

lemma parse_route_wf: "parse_route_identity v = Inr r \<Longrightarrow> wf_route r"
  by (auto simp: parse_route_identity_def wf_route_def parse_iffs result_simps)

lemma artifact_ref_roundtrip: "wf_artifact_ref r \<Longrightarrow> parse_artifact_ref (encode_artifact_ref r) = Inr r"
  by (cases "ar_file r")
    (simp_all add: parse_artifact_ref_def encode_artifact_ref_def wf_artifact_ref_def parse_evals
      unsafe_keys_def cong: rbind_weak_cong)

lemma parse_artifact_ref_wf: "parse_artifact_ref v = Inr r \<Longrightarrow> wf_artifact_ref r"
  unfolding parse_artifact_ref_def
  by (elim rbind_InrE) (auto simp: wf_artifact_ref_def parse_iffs opt_field_Inr)

end
