(* ===== verification/JsonText.thy ===== *)
theory JsonText
  imports JsValue
begin

text \<open>
  JSON as the durable bytes: \<open>json_text\<close> is \<^verbatim>\<open>JSON.stringify\<close> in UTF-8 and \<open>json_parse\<close> is
  \<^verbatim>\<open>JSON.parse\<close>, with the round trip between them on every JSON value with distinct field
  names. An object keeps its fields in insertion order. A number that is not a safe integer is
  kept by its text, which is in shortest form when \<^verbatim>\<open>JSON.stringify\<close> wrote it.
\<close>

section \<open>Printing\<close>

definition hex_digit :: "nat \<Rightarrow> char" where
  "hex_digit d = (if d < 10 then char_of (48 + d) else char_of (87 + d))"

definition json_escape :: "char \<Rightarrow> string" where
  "json_escape c =
     (let n = code_of c in
      if n = 34 then [CHR 0x5C, CHR 0x22]
      else if n = 92 then [CHR 0x5C, CHR 0x5C]
      else if n = 8 then [CHR 0x5C, CHR ''b'']
      else if n = 9 then [CHR 0x5C, CHR ''t'']
      else if n = 10 then [CHR 0x5C, CHR ''n'']
      else if n = 12 then [CHR 0x5C, CHR ''f'']
      else if n = 13 then [CHR 0x5C, CHR ''r'']
      else if n < 32 then CHR 0x5C # ''u00'' @ [hex_digit (n div 16), hex_digit (n mod 16)]
      else [c])"

definition json_quote :: "string \<Rightarrow> string" where
  "json_quote s = CHR 0x22 # concat (map json_escape s) @ [CHR 0x22]"

definition int_text :: "int \<Rightarrow> string" where
  "int_text i = (if i < 0 then ''-'' @ nat_text (nat (- i)) else nat_text (nat i))"

fun json_text :: "js \<Rightarrow> string"
  and json_items :: "js list \<Rightarrow> string"
  and json_fields :: "(string \<times> js) list \<Rightarrow> string" where
  "json_text JUndef = ''null''"
| "json_text JNull = ''null''"
| "json_text (JBool b) = (if b then ''true'' else ''false'')"
| "json_text (JNum i) = int_text i"
| "json_text (JFloat t) = t"
| "json_text JNonFinite = ''null''"
| "json_text (JStr s) = json_quote s"
| "json_text (JArr xs) = ''['' @ json_items xs @ '']''"
| "json_text (JObj fs) = ''{'' @ json_fields fs @ ''}''"
| "json_text (JBytes b) = ''null''"
| "json_text JExotic = ''null''"
| "json_items [] = []"
| "json_items [x] = json_text x"
| "json_items (x # y # ys) = json_text x @ '','' @ json_items (y # ys)"
| "json_fields [] = []"
| "json_fields [kv] = json_quote (fst kv) @ '':'' @ json_text (snd kv)"
| "json_fields (kv # p # ps) = json_quote (fst kv) @ '':'' @ json_text (snd kv) @ '','' @ json_fields (p # ps)"

text \<open>The values \<^verbatim>\<open>JSON.stringify\<close> is given: JSON values only.\<close>

definition number_char :: "char \<Rightarrow> bool" where
  "number_char c \<longleftrightarrow> is_digit c \<or> c \<in> set ''+-.eE''"

fun digits_then :: "(string \<Rightarrow> bool) \<Rightarrow> bool \<Rightarrow> string \<Rightarrow> bool" where
  "digits_then k seen [] = (seen \<and> k [])"
| "digits_then k seen (c # cs) = (if is_digit c then digits_then k True cs else seen \<and> k (c # cs))"

definition exponent_ok :: "string \<Rightarrow> bool" where
  "exponent_ok s =
     (case s of [] \<Rightarrow> True
      | c # cs \<Rightarrow> c \<in> set ''eE'' \<and>
          digits_then (\<lambda>r. r = []) False (case cs of d # ds \<Rightarrow> if d \<in> set ''+-'' then ds else cs | [] \<Rightarrow> cs))"

definition fraction_ok :: "string \<Rightarrow> bool" where
  "fraction_ok s =
     (case s of c # cs \<Rightarrow> if c = CHR ''.'' then digits_then exponent_ok False cs else exponent_ok s
      | [] \<Rightarrow> True)"

definition unsigned_ok :: "string \<Rightarrow> bool" where
  "unsigned_ok s =
     (case s of [] \<Rightarrow> False
      | c # cs \<Rightarrow> if c = CHR ''0'' then fraction_ok cs else digits_then fraction_ok False s)"

definition number_ok :: "string \<Rightarrow> bool" where
  "number_ok s =
     (case s of c # cs \<Rightarrow> if c = CHR ''-'' then unsigned_ok cs else unsigned_ok s | [] \<Rightarrow> False)"

definition integer_text :: "string \<Rightarrow> bool" where
  "integer_text s =
     (case s of c # cs \<Rightarrow> (if c = CHR ''-'' then cs \<noteq> [] \<and> list_all is_digit cs else list_all is_digit s)
      | [] \<Rightarrow> False)"

definition read_int :: "string \<Rightarrow> int" where
  "read_int s =
     (case s of c # cs \<Rightarrow> if c = CHR ''-'' then - int (read_nat 0 cs) else int (read_nat 0 s) | [] \<Rightarrow> 0)"

definition number_value :: "string \<Rightarrow> js" where
  "number_value t =
     (if integer_text t \<and> \<bar>read_int t\<bar> \<le> max_safe_integer then JNum (read_int t) else JFloat t)"

definition float_ok :: "string \<Rightarrow> bool" where
  "float_ok t \<longleftrightarrow> number_ok t \<and> list_all number_char t \<and> number_value t = JFloat t"

fun json_ok :: "js \<Rightarrow> bool" where
  "json_ok JNull = True"
| "json_ok (JBool b) = True"
| "json_ok (JNum i) = (\<bar>i\<bar> \<le> max_safe_integer)"
| "json_ok (JFloat t) = float_ok t"
| "json_ok (JStr s) = True"
| "json_ok (JArr xs) = (\<forall>x \<in> set xs. json_ok x)"
| "json_ok (JObj fs) = (distinct (map fst fs) \<and> (\<forall>kv \<in> set fs. json_ok (snd kv)))"
| "json_ok _ = False"

section \<open>Parsing\<close>

fun skip_ws :: "string \<Rightarrow> string" where
  "skip_ws [] = []"
| "skip_ws (c # cs) = (if code_of c \<in> {9, 10, 13, 32} then skip_ws cs else c # cs)"

definition hex_val :: "char \<Rightarrow> nat option" where
  "hex_val c =
     (let n = code_of c in
      if 48 \<le> n \<and> n \<le> 57 then Some (n - 48)
      else if 97 \<le> n \<and> n \<le> 102 then Some (n - 87)
      else if 65 \<le> n \<and> n \<le> 70 then Some (n - 55)
      else None)"

definition hex4 :: "char \<Rightarrow> char \<Rightarrow> char \<Rightarrow> char \<Rightarrow> nat option" where
  "hex4 a b c d =
     (case (hex_val a, hex_val b, hex_val c, hex_val d) of
        (Some x, Some y, Some z, Some w) \<Rightarrow> Some (((x * 16 + y) * 16 + z) * 16 + w)
      | _ \<Rightarrow> None)"

definition utf8_of :: "nat \<Rightarrow> string" where
  "utf8_of u =
     (if u < 128 then [char_of u]
      else if u < 2048 then [char_of (192 + u div 64), char_of (128 + u mod 64)]
      else if u < 65536 then
        [char_of (224 + u div 4096), char_of (128 + u div 64 mod 64), char_of (128 + u mod 64)]
      else [char_of (240 + u div 262144), char_of (128 + u div 4096 mod 64),
            char_of (128 + u div 64 mod 64), char_of (128 + u mod 64)])"

text \<open>\<open>unescape\<close> reads what follows a backslash: the bytes it stands for and the rest.\<close>

definition unescape :: "string \<Rightarrow> (string \<times> string) option" where
  "unescape s =
     (case s of
        [] \<Rightarrow> None
      | e # r \<Rightarrow>
          if e = CHR 0x22 \<or> e = CHR 0x5C \<or> e = CHR ''/'' then Some ([e], r)
          else if e = CHR ''b'' then Some ([CHR 0x08], r)
          else if e = CHR ''t'' then Some ([CHR 0x09], r)
          else if e = CHR ''n'' then Some ([CHR 0x0A], r)
          else if e = CHR ''f'' then Some ([CHR 0x0C], r)
          else if e = CHR ''r'' then Some ([CHR 0x0D], r)
          else if e = CHR ''u'' then
            (case r of
               a # b # c # d # r1 \<Rightarrow>
                 (case hex4 a b c d of
                    None \<Rightarrow> None
                  | Some u \<Rightarrow>
                      if 55296 \<le> u \<and> u < 56320 then
                        (case r1 of
                           x # y # a' # b' # c' # d' # r2 \<Rightarrow>
                             (case hex4 a' b' c' d' of
                                Some l \<Rightarrow>
                                  if x = CHR 0x5C \<and> y = CHR ''u'' \<and> 56320 \<le> l \<and> l < 57344
                                  then Some (utf8_of (65536 + (u - 55296) * 1024 + (l - 56320)), r2)
                                  else None
                              | None \<Rightarrow> None)
                         | _ \<Rightarrow> None)
                      else Some (utf8_of u, r1))
             | _ \<Rightarrow> None)
          else None)"

lemma unescape_length: "unescape s = Some (t, r) \<Longrightarrow> length r < length s"
  by (auto simp: unescape_def split: list.splits if_splits option.splits)

function p_string :: "string \<Rightarrow> (string \<times> string) option" where
  "p_string s =
     (case s of
        [] \<Rightarrow> None
      | c # cs \<Rightarrow>
          if c = CHR 0x22 then Some ([], cs)
          else if c = CHR 0x5C then
            (case unescape cs of
               None \<Rightarrow> None
             | Some (t, r) \<Rightarrow> (case p_string r of None \<Rightarrow> None | Some (u, q) \<Rightarrow> Some (t @ u, q)))
          else if code_of c < 32 then None
          else (case p_string cs of None \<Rightarrow> None | Some (u, q) \<Rightarrow> Some (c # u, q)))"
  by pat_completeness auto
termination
  by (relation "measure length") (auto dest!: unescape_length)

declare p_string.simps [simp del]

definition p_number :: "string \<Rightarrow> (js \<times> string) option" where
  "p_number s =
     (let t = takeWhile number_char s in
      if number_ok t then Some (number_value t, drop (length t) s) else None)"

definition js_object :: "(string \<times> js) list \<Rightarrow> (string \<times> js) list" where
  "js_object kvs = fold (\<lambda>(k, v) acc. AList.update k v acc) kvs []"

fun p_literal :: "(string \<times> js) list \<Rightarrow> string \<Rightarrow> (js \<times> string) option" where
  "p_literal [] s = None"
| "p_literal ((w, v) # ws) s =
     (if take (length w) s = w then Some (v, drop (length w) s) else p_literal ws s)"

definition json_words :: "(string \<times> js) list" where
  "json_words = [(''null'', JNull), (''true'', JBool True), (''false'', JBool False)]"

fun p_value :: "nat \<Rightarrow> string \<Rightarrow> (js \<times> string) option"
  and p_items :: "nat \<Rightarrow> string \<Rightarrow> (js list \<times> string) option"
  and p_members :: "nat \<Rightarrow> string \<Rightarrow> ((string \<times> js) list \<times> string) option" where
  "p_value 0 s = None"
| "p_value (Suc n) s =
     (case skip_ws s of
        [] \<Rightarrow> None
      | c # cs \<Rightarrow>
          if c = CHR 0x22 then map_option (\<lambda>(t, r). (JStr t, r)) (p_string cs)
          else if c = CHR ''['' then
            (case skip_ws cs of
               d # ds \<Rightarrow> if d = CHR '']'' then Some (JArr [], ds)
                         else map_option (\<lambda>(vs, r). (JArr vs, r)) (p_items n (d # ds))
             | [] \<Rightarrow> None)
          else if c = CHR ''{'' then
            (case skip_ws cs of
               d # ds \<Rightarrow> if d = CHR ''}'' then Some (JObj [], ds)
                         else map_option (\<lambda>(kvs, r). (JObj (js_object kvs), r)) (p_members n (d # ds))
             | [] \<Rightarrow> None)
          else if c = CHR ''-'' \<or> is_digit c then p_number (c # cs)
          else p_literal json_words (c # cs))"
| "p_items 0 s = None"
| "p_items (Suc n) s =
     (case p_value n s of
        None \<Rightarrow> None
      | Some (v, r) \<Rightarrow>
          (case skip_ws r of
             [] \<Rightarrow> None
           | d # ds \<Rightarrow>
               if d = CHR '','' then map_option (\<lambda>(vs, q). (v # vs, q)) (p_items n ds)
               else if d = CHR '']'' then Some ([v], ds)
               else None))"
| "p_members 0 s = None"
| "p_members (Suc n) s =
     (case skip_ws s of
        [] \<Rightarrow> None
      | c # cs \<Rightarrow>
          if c \<noteq> CHR 0x22 then None
          else
            (case p_string cs of
               None \<Rightarrow> None
             | Some (k, r) \<Rightarrow>
                 (case skip_ws r of
                    [] \<Rightarrow> None
                  | e # es \<Rightarrow>
                      if e \<noteq> CHR '':'' then None
                      else
                        (case p_value n es of
                           None \<Rightarrow> None
                         | Some (v, q) \<Rightarrow>
                             (case skip_ws q of
                                [] \<Rightarrow> None
                              | d # ds \<Rightarrow>
                                  if d = CHR '','' then map_option (\<lambda>(kvs, z). ((k, v) # kvs, z)) (p_members n ds)
                                  else if d = CHR ''}'' then Some ([(k, v)], ds)
                                  else None)))))"

definition json_parse :: "string \<Rightarrow> js option" where
  "json_parse s =
     (case p_value (Suc (length s)) s of
        None \<Rightarrow> None
      | Some (v, r) \<Rightarrow> if skip_ws r = [] then Some v else None)"

section \<open>The round trip\<close>

lemma code_of_inj: "code_of c = code_of d \<longleftrightarrow> c = d"
  by (simp add: code_of_def)

lemma char_of_code [simp]: "char_of (code_of c) = c"
  by (simp add: code_of_def)

lemma hex_val_digit: "d < 16 \<Longrightarrow> hex_val (hex_digit d) = Some d"
  by (auto simp: hex_digit_def hex_val_def code_of_def of_char_of)

lemma escape_control:
  assumes "code_of c < 32"
  shows "unescape (''u00'' @ [hex_digit (code_of c div 16), hex_digit (code_of c mod 16)] @ s) = Some ([c], s)"
proof -
  have h: "hex_val (hex_digit (code_of c div 16)) = Some (code_of c div 16)"
    "hex_val (hex_digit (code_of c mod 16)) = Some (code_of c mod 16)"
    using assms by (simp_all add: hex_val_digit)
  have z: "hex_val CHR ''0'' = Some 0" by (simp add: hex_val_def code_of_def)
  have "hex4 CHR ''0'' CHR ''0'' (hex_digit (code_of c div 16)) (hex_digit (code_of c mod 16)) = Some (code_of c)"
    by (simp add: hex4_def h z)
  moreover have "utf8_of (code_of c) = [c]" using assms by (simp add: utf8_of_def)
  ultimately show ?thesis using assms by (simp add: unescape_def)
qed

lemma p_string_escape:
  "p_string (json_escape c @ s) = (case p_string s of None \<Rightarrow> None | Some (u, q) \<Rightarrow> Some (c # u, q))"
proof -
  consider (bs) "code_of c \<in> {34, 92, 8, 9, 10, 12, 13}" | (ctl) "code_of c \<notin> {34, 92, 8, 9, 10, 12, 13}" "code_of c < 32"
    | (plain) "code_of c \<notin> {34, 92}" "\<not> code_of c < 32" by auto
  then show ?thesis
  proof cases
    case bs
    then have "c \<in> {CHR 0x22, CHR 0x5C, CHR 0x08, CHR 0x09, CHR 0x0A, CHR 0x0C, CHR 0x0D}"
      by (simp only: insert_iff empty_iff code_of_inj [symmetric]) (simp add: code_of_def)
    then show ?thesis
      by (auto simp: json_escape_def code_of_def unescape_def p_string.simps [of "CHR 0x5C # _"] split: option.splits)
  next
    case ctl
    then show ?thesis
      using escape_control [OF ctl(2), of s]
      by (auto simp: json_escape_def Let_def p_string.simps [of "CHR 0x5C # _"] split: option.splits)
  next
    case plain
    then have "c \<noteq> CHR 0x22" "c \<noteq> CHR 0x5C" by (auto simp: code_of_def)
    then show ?thesis
      using plain by (auto simp: json_escape_def Let_def p_string.simps [of "c # _"] split: option.splits)
  qed
qed

lemma p_string_quote: "p_string (concat (map json_escape s) @ CHR 0x22 # r) = Some (s, r)"
proof (induction s)
  case Nil
  then show ?case by (simp add: p_string.simps)
next
  case (Cons c s)
  then show ?case by (simp add: p_string_escape)
qed

lemma digits_then_digits: "list_all is_digit s \<Longrightarrow> digits_then k seen s \<longleftrightarrow> (seen \<or> s \<noteq> []) \<and> k []"
  by (induction s arbitrary: seen) auto

lemma unsigned_ok_nat_text: "unsigned_ok (nat_text n)"
proof (cases "n = 0")
  case True
  then show ?thesis
    by (simp add: nat_text.simps [of 0] digit_char_0 unsigned_ok_def fraction_ok_def)
next
  case False
  then have "hd (nat_text n) \<noteq> CHR ''0''" by (simp add: nat_text_hd)
  moreover obtain c cs where cs: "nat_text n = c # cs" by (cases "nat_text n") auto
  ultimately have c: "c \<noteq> CHR ''0''" by simp
  have "digits_then fraction_ok False (nat_text n)"
    using nat_text_digits [of n] by (simp add: digits_then_digits fraction_ok_def)
  then show ?thesis using c cs by (simp add: unsigned_ok_def)
qed

lemma nat_text_hd_digit: "nat_text n = c # cs \<Longrightarrow> is_digit c"
  using nat_text_digits [of n] by simp

lemma minus_not_digit [simp]: "\<not> is_digit CHR ''-''"
  by (simp add: is_digit_def)

lemma int_text_ok:
  "number_ok (int_text i)" "list_all number_char (int_text i)" "integer_text (int_text i)" "read_int (int_text i) = i"
proof -
  have d: "list_all number_char (nat_text n)" for n
    using nat_text_digits [of n] by (auto simp: list_all_iff number_char_def)
  have "number_ok (int_text i) \<and> list_all number_char (int_text i) \<and> integer_text (int_text i) \<and> read_int (int_text i) = i"
  proof (cases "i < 0")
    case True
    then show ?thesis
      using unsigned_ok_nat_text [of "nat (- i)"] d [of "nat (- i)"] nat_text_digits [of "nat (- i)"]
      by (simp add: int_text_def number_ok_def integer_text_def read_int_def number_char_def)
  next
    case False
    obtain c cs where c: "nat_text (nat i) = c # cs" by (cases "nat_text (nat i)") auto
    then have nd: "c \<noteq> CHR ''-''" using nat_text_hd_digit [OF c] by auto
    show ?thesis
      using False nd c unsigned_ok_nat_text [of "nat i"] d [of "nat i"] nat_text_digits [of "nat i"]
        read_nat_text [of "nat i"]
      by (simp add: int_text_def number_ok_def integer_text_def read_int_def)
  qed
  then show "number_ok (int_text i)" "list_all number_char (int_text i)" "integer_text (int_text i)"
    "read_int (int_text i) = i" by auto
qed

definition stops :: "string \<Rightarrow> bool" where
  "stops rest \<longleftrightarrow> (case rest of [] \<Rightarrow> True | c # cs \<Rightarrow> \<not> number_char c)"

lemma p_number_text:
  assumes "number_ok t" "list_all number_char t" "stops rest"
  shows "p_number (t @ rest) = Some (number_value t, rest)"
proof -
  have "takeWhile number_char (t @ rest) = t"
    using assms(2,3) by (cases rest) (auto simp: stops_def list_all_iff takeWhile_append)
  then show ?thesis using assms(1) by (simp add: p_number_def)
qed

lemma number_ok_start: "number_ok t \<Longrightarrow> \<exists>c cs. t = c # cs \<and> (c = CHR ''-'' \<or> is_digit c)"
  by (auto simp: number_ok_def unsigned_ok_def split: list.splits if_splits)
    (simp add: is_digit_def)

definition start_char :: "char \<Rightarrow> bool" where
  "start_char c \<longleftrightarrow> c = CHR ''-'' \<or> is_digit c \<or> c \<in> set ''[{ntf'' \<or> c = CHR 0x22"

lemma start_char_props:
  "start_char c \<Longrightarrow> c \<noteq> CHR '']'' \<and> c \<noteq> CHR ''}'' \<and> code_of c \<notin> {9, 10, 13, 32}"
  by (auto simp: start_char_def is_digit_def code_of_def)

lemma json_text_start: "json_ok v \<Longrightarrow> \<exists>c cs. json_text v = c # cs \<and> start_char c"
proof (cases v)
  case (JNum i)
  then show ?thesis using number_ok_start [OF int_text_ok(1) [of i]] by (auto simp: start_char_def)
next
  case (JFloat t)
  moreover assume "json_ok v"
  ultimately show ?thesis using number_ok_start [of t] by (auto simp: start_char_def float_ok_def)
qed (auto simp: start_char_def json_quote_def)

lemma skip_ws_start: "start_char c \<Longrightarrow> skip_ws (c # cs) = c # cs"
  using start_char_props [of c] by simp

lemma js_object_distinct: "distinct (map fst kvs) \<Longrightarrow> js_object kvs = kvs"
proof -
  have "fold (\<lambda>(k, v) acc. AList.update k v acc) kvs acc = acc @ kvs"
    if "distinct (map fst (acc @ kvs))" for acc
    using that
  proof (induction kvs arbitrary: acc)
    case Nil
    then show ?case by simp
  next
    case (Cons kv kvs)
    obtain k v where kv: "kv = (k, v)" by force
    have "k \<notin> fst ` set acc" using Cons.prems kv by auto
    then have "AList.update k v acc = acc @ [(k, v)]"
      by (induction acc) auto
    then show ?case using Cons kv by simp
  qed
  moreover assume "distinct (map fst kvs)"
  ultimately show ?thesis by (simp add: js_object_def)
qed

lemma not_number_chars [simp]:
  "\<not> number_char CHR '',''" "\<not> number_char CHR '']''" "\<not> number_char CHR ''}''" "\<not> number_char CHR '':''"
  by (simp_all add: number_char_def is_digit_def)

lemma stops_Cons [simp]: "stops (c # cs) \<longleftrightarrow> \<not> number_char c"
  by (simp add: stops_def)

lemma skip_ws_punct [simp]:
  "skip_ws (CHR '','' # s) = CHR '','' # s" "skip_ws (CHR '']'' # s) = CHR '']'' # s"
  "skip_ws (CHR ''}'' # s) = CHR ''}'' # s" "skip_ws (CHR '':'' # s) = CHR '':'' # s"
  "skip_ws (CHR 0x22 # s) = CHR 0x22 # s" "skip_ws (CHR ''['' # s) = CHR ''['' # s"
  "skip_ws (CHR ''{'' # s) = CHR ''{'' # s"
  by (simp_all add: code_of_def)

lemma p_value_number:
  assumes "number_ok t" "list_all number_char t" "stops rest"
  shows "p_value (Suc n) (t @ rest) = Some (number_value t, rest)"
proof -
  obtain c cs where c: "t = c # cs" "c = CHR ''-'' \<or> is_digit c" using number_ok_start [OF assms(1)] by blast
  have ne: "c \<noteq> CHR 0x22" "c \<noteq> CHR ''[''" "c \<noteq> CHR ''{''" using c(2) by (auto simp: is_digit_def)
  have sk: "skip_ws (t @ rest) = c # cs @ rest"
    using c by (simp only: append_Cons, intro skip_ws_start) (auto simp: start_char_def)
  have "p_number (c # cs @ rest) = Some (number_value t, rest)"
    using p_number_text [OF assms] c(1) by simp
  then show ?thesis using sk ne c(2) by (simp del: skip_ws.simps)
qed

lemma p_value_word:
  "p_value (Suc n) (''null'' @ rest) = Some (JNull, rest)"
  "p_value (Suc n) (''true'' @ rest) = Some (JBool True, rest)"
  "p_value (Suc n) (''false'' @ rest) = Some (JBool False, rest)"
  by (simp_all add: code_of_def is_digit_def json_words_def)

lemma p_value_string: "p_value (Suc n) (json_quote s @ rest) = Some (JStr s, rest)"
  by (simp add: json_quote_def p_string_quote del: skip_ws.simps)

lemma p_text_roundtrip:
  shows "json_ok v \<Longrightarrow> stops rest \<Longrightarrow> length (json_text v) < n \<Longrightarrow>
      p_value n (json_text v @ rest) = Some (v, rest)"
    and "\<forall>x \<in> set xs. json_ok x \<Longrightarrow> xs \<noteq> [] \<Longrightarrow> length (json_items xs) + 1 < n \<Longrightarrow>
      p_items n (json_items xs @ CHR '']'' # rest) = Some (xs, rest)"
    and "\<forall>kv \<in> set fs. json_ok (snd kv) \<Longrightarrow> fs \<noteq> [] \<Longrightarrow> length (json_fields fs) + 1 < n \<Longrightarrow>
      p_members n (json_fields fs @ CHR ''}'' # rest) = Some (fs, rest)"
proof (induction v and xs and fs arbitrary: n rest and n rest and n rest
    rule: json_text_json_items_json_fields.induct)
  case (2 n rest)
  then obtain m where "n = Suc m" by (cases n) auto
  then show ?case using p_value_word by simp
next
  case (3 b n rest)
  then obtain m where "n = Suc m" by (cases n) auto
  then show ?case using p_value_word by (cases b) simp_all
next
  case (4 i n rest)
  then obtain m where m: "n = Suc m" by (cases n) auto
  have "number_value (int_text i) = JNum i" using 4 int_text_ok [of i] by (simp add: number_value_def)
  then show ?case using p_value_number [OF int_text_ok(1,2) 4(2), of m i] m by simp
next
  case (5 t n rest)
  then obtain m where m: "n = Suc m" by (cases n) auto
  then show ?case using 5 p_value_number [of t rest m] by (simp add: float_ok_def)
next
  case (7 s n rest)
  then obtain m where "n = Suc m" by (cases n) auto
  then show ?case using p_value_string by simp
next
  case (8 xs n rest)
  then obtain m where m: "n = Suc m" by (cases n) auto
  show ?case
  proof (cases xs)
    case Nil
    then show ?thesis using m by (simp del: skip_ws.simps add: is_digit_def)
  next
    case (Cons x ys)
    obtain c cs where c: "json_text x = c # cs" "start_char c"
      using 8(2) Cons json_text_start [of x] by auto
    have ne: "c \<noteq> CHR '']''" using start_char_props [OF c(2)] by simp
    obtain ds where ds: "json_items xs = c # ds" using c(1) Cons by (cases ys) auto
    have sk: "skip_ws (c # ds @ CHR '']'' # rest) = c # ds @ CHR '']'' # rest"
      by (rule skip_ws_start [OF c(2)])
    have "p_items m (json_items xs @ CHR '']'' # rest) = Some (xs, rest)"
      using 8 m Cons by (intro 8(1)) auto
    then show ?thesis using m ne sk by (simp add: ds del: skip_ws.simps)
  qed
next
  case (9 fs n rest)
  then obtain m where m: "n = Suc m" by (cases n) auto
  have d: "distinct (map fst fs)" using 9(2) by simp
  show ?case
  proof (cases fs)
    case Nil
    then show ?thesis using m by (simp del: skip_ws.simps add: is_digit_def)
  next
    case (Cons x ys)
    obtain ds where ds: "json_fields fs = CHR 0x22 # ds" using Cons by (cases ys) (auto simp: json_quote_def)
    have "p_members m (json_fields fs @ CHR ''}'' # rest) = Some (fs, rest)"
      using 9 m Cons by (intro 9(1)) auto
    then show ?thesis
      using m by (simp add: ds js_object_distinct [OF d] is_digit_def del: skip_ws.simps)
  qed
next
  case (13 x n rest)
  then obtain m where m: "n = Suc m" by (cases n) auto
  have "p_value m (json_text x @ CHR '']'' # rest) = Some (x, CHR '']'' # rest)"
    using 13 m by (intro 13(1)) auto
  then show ?case using m by (simp del: skip_ws.simps)
next
  case (14 x y ys n rest)
  then obtain m where m: "n = Suc m" by (cases n) auto
  have "p_value m (json_text x @ CHR '','' # json_items (y # ys) @ CHR '']'' # rest)
      = Some (x, CHR '','' # json_items (y # ys) @ CHR '']'' # rest)"
    using 14 m by (intro 14(1)) auto
  moreover have "p_items m (json_items (y # ys) @ CHR '']'' # rest) = Some (y # ys, rest)"
    using 14 m by (intro 14(2)) auto
  ultimately show ?case using m by (simp del: skip_ws.simps)
next
  case (16 kv n rest)
  then obtain m where m: "n = Suc m" by (cases n) auto
  have "p_value m (json_text (snd kv) @ CHR ''}'' # rest) = Some (snd kv, CHR ''}'' # rest)"
    using 16 m by (intro 16(1)) auto
  then show ?case using m by (simp add: json_quote_def p_string_quote del: skip_ws.simps)
next
  case (17 kv p ps n rest)
  then obtain m where m: "n = Suc m" by (cases n) auto
  have "p_value m (json_text (snd kv) @ CHR '','' # json_fields (p # ps) @ CHR ''}'' # rest)
      = Some (snd kv, CHR '','' # json_fields (p # ps) @ CHR ''}'' # rest)"
    using 17 m by (intro 17(1)) auto
  moreover have "p_members m (json_fields (p # ps) @ CHR ''}'' # rest) = Some (p # ps, rest)"
    using 17 m by (intro 17(2)) auto
  ultimately show ?case using m by (simp add: json_quote_def p_string_quote del: skip_ws.simps)
qed simp_all

theorem json_roundtrip: "json_ok v \<Longrightarrow> json_parse (json_text v) = Some v"
  using p_text_roundtrip(1) [of v "[]" "Suc (length (json_text v))"]
  by (simp add: json_parse_def stops_def)

lemma json_text_inj: "json_ok v \<Longrightarrow> json_ok w \<Longrightarrow> json_text v = json_text w \<longleftrightarrow> v = w"
  by (metis json_roundtrip option.inject)

section \<open>JSON-safe object literals\<close>

definition keys_of :: "(string \<times> js) list \<Rightarrow> string set" where
  "keys_of fs = fst ` set fs"

lemma keys_of_simps [simp]:
  "keys_of [] = {}"
  "keys_of (req k v) = {k}"
  "keys_of (opt k f x) = (if x = None then {} else {k})"
  "keys_of (fs @ gs) = keys_of fs \<union> keys_of gs"
  by (auto simp: keys_of_def req_def opt_def split: option.splits)

definition fields_ok :: "(string \<times> js) list \<Rightarrow> bool" where
  "fields_ok fs \<longleftrightarrow> distinct (map fst fs) \<and> (\<forall>kv \<in> set fs. json_ok (snd kv))"

lemma json_ok_obj [simp]: "json_ok (JObj fs) \<longleftrightarrow> fields_ok fs"
  by (simp add: fields_ok_def)

lemma fields_ok_simps [simp]:
  "fields_ok []"
  "fields_ok (req k v) \<longleftrightarrow> json_ok v"
  "fields_ok (opt k f x) \<longleftrightarrow> opt_ok (\<lambda>y. json_ok (f y)) x"
  "fields_ok (req k v @ fs) \<longleftrightarrow> json_ok v \<and> k \<notin> keys_of fs \<and> fields_ok fs"
  "fields_ok (opt k f x @ fs) \<longleftrightarrow>
     opt_ok (\<lambda>y. json_ok (f y)) x \<and> (k \<in> keys_of fs \<longrightarrow> x = None) \<and> fields_ok fs"
  by (auto simp: fields_ok_def keys_of_def req_def opt_def image_iff opt_ok_def split: option.splits)

declare json_ok.simps(7) [simp del]

lemma json_ok_text_list [simp]: "json_ok (JArr (map JStr xs))"
  by auto

lemma route_json_ok [simp]: "json_ok (encode_route_identity r)"
  by (simp add: encode_route_identity_def)

lemma artifact_ref_json_ok: "wf_artifact_ref r \<Longrightarrow> json_ok (encode_artifact_ref r)"
  by (simp add: encode_artifact_ref_def wf_artifact_ref_def opt_ok_def)

section \<open>Length of quoted text\<close>

lemma json_escape_length: "length (json_escape c) \<le> 6"
  by (simp add: json_escape_def Let_def)

lemma json_quote_length: "length (json_quote t) \<le> 6 * length t + 2"
proof -
  have "length (concat (map json_escape t)) \<le> 6 * length t"
  proof (induction t)
    case (Cons c t)
    then show ?case using json_escape_length [of c] by simp
  qed simp
  then show ?thesis by (simp add: json_quote_def)
qed

end
