(* ===== verification/Base64.thy ===== *)
theory Base64
  imports JsonText
begin

text \<open>
  Base64 as \<^verbatim>\<open>Buffer.toString\<close> prints it: the padded standard alphabet of stored values and the
  unpadded URL alphabet of cursors and presence keys. The code only accepts a text that its own
  decoding re-encodes to, so a decoder is needed on printed texts only.
\<close>

definition b64_char :: "bool \<Rightarrow> nat \<Rightarrow> char" where
  "b64_char url n =
     (if n < 26 then char_of (65 + n)
      else if n < 52 then char_of (71 + n)
      else if n < 62 then char_of (n - 4)
      else if n = 62 then (if url then CHR ''-'' else CHR ''+'')
      else (if url then CHR ''_'' else CHR ''/''))"

definition b64_val :: "bool \<Rightarrow> char \<Rightarrow> nat option" where
  "b64_val url c =
     (let n = code_of c in
      if 65 \<le> n \<and> n \<le> 90 then Some (n - 65)
      else if 97 \<le> n \<and> n \<le> 122 then Some (n - 71)
      else if 48 \<le> n \<and> n \<le> 57 then Some (n + 4)
      else if c = (if url then CHR ''-'' else CHR ''+'') then Some 62
      else if c = (if url then CHR ''_'' else CHR ''/'') then Some 63
      else None)"

definition b64_pad :: "bool \<Rightarrow> nat \<Rightarrow> string" where
  "b64_pad url n = (if url then [] else replicate n CHR ''='')"

fun b64_encode :: "bool \<Rightarrow> string \<Rightarrow> string" where
  "b64_encode url [] = []"
| "b64_encode url [a] =
     [b64_char url (code_of a div 4), b64_char url (code_of a mod 4 * 16)] @ b64_pad url 2"
| "b64_encode url [a, b] =
     [b64_char url (code_of a div 4), b64_char url (code_of a mod 4 * 16 + code_of b div 16),
      b64_char url (code_of b mod 16 * 4)] @ b64_pad url 1"
| "b64_encode url (a # b # c # r) =
     [b64_char url (code_of a div 4), b64_char url (code_of a mod 4 * 16 + code_of b div 16),
      b64_char url (code_of b mod 16 * 4 + code_of c div 64), b64_char url (code_of c mod 64)] @ b64_encode url r"

fun b64_bytes :: "nat list \<Rightarrow> string" where
  "b64_bytes (x # y # z # w # r) =
     [char_of (x * 4 + y div 16), char_of (y mod 16 * 16 + z div 4), char_of (z mod 4 * 64 + w)] @ b64_bytes r"
| "b64_bytes [x, y, z] = [char_of (x * 4 + y div 16), char_of (y mod 16 * 16 + z div 4)]"
| "b64_bytes [x, y] = [char_of (x * 4 + y div 16)]"
| "b64_bytes _ = []"

fun b64_vals :: "bool \<Rightarrow> string \<Rightarrow> nat list" where
  "b64_vals url [] = []"
| "b64_vals url (c # cs) = (case b64_val url c of None \<Rightarrow> [] | Some v \<Rightarrow> v # b64_vals url cs)"

text \<open>\<open>b64_decode\<close> decodes and requires that encoding gives the text back.\<close>

definition b64_decode :: "bool \<Rightarrow> string \<Rightarrow> string option" where
  "b64_decode url s = (let d = b64_bytes (b64_vals url s) in if b64_encode url d = s then Some d else None)"

lemma code_of_char_of: "n < 256 \<Longrightarrow> code_of (char_of n) = n"
  by (simp add: code_of_def of_char_of)

lemma code_of_less [simp]: "code_of c < 256"
  by (simp add: code_of_def)

lemma b64_val_char [simp]:
  assumes "n < 64"
  shows "b64_val url (b64_char url n) = Some n"
proof -
  consider "n < 26" | "26 \<le> n" "n < 52" | "52 \<le> n" "n < 62" | "n = 62" | "n = 63" using assms by linarith
  then show ?thesis
    by cases (auto simp: b64_val_def b64_char_def code_of_char_of Let_def, (simp add: code_of_def)+)
qed

lemma b64_pad_val: "b64_vals url (b64_pad url n) = []"
  by (cases n) (auto simp: b64_pad_def b64_val_def code_of_def)

lemma b64_decode_encode: "b64_bytes (b64_vals url (b64_encode url s)) = s"
proof (induction url s rule: b64_encode.induct)
  case (1 url)
  then show ?case by simp
next
  case (2 url a)
  have "code_of a div 4 < 64" "code_of a mod 4 * 16 < 64" using code_of_less [of a] by linarith+
  moreover have "code_of a div 4 * 4 + code_of a mod 4 * 16 div 16 = code_of a" by simp
  ultimately show ?case by (simp add: b64_pad_val)
next
  case (3 url a b)
  have l: "code_of a div 4 < 64" "code_of a mod 4 * 16 + code_of b div 16 < 64" "code_of b mod 16 * 4 < 64"
    using code_of_less [of a] code_of_less [of b] by linarith+
  have "code_of b div 16 < 16" using code_of_less [of b] by linarith
  then have "(code_of a mod 4 * 16 + code_of b div 16) div 16 = code_of a mod 4"
    "(code_of a mod 4 * 16 + code_of b div 16) mod 16 = code_of b div 16" by simp_all
  with l show ?case by (simp add: b64_pad_val)
next
  case (4 url a b c r)
  have l: "code_of a div 4 < 64" "code_of a mod 4 * 16 + code_of b div 16 < 64"
    "code_of b mod 16 * 4 + code_of c div 64 < 64" "code_of c mod 64 < 64"
    using code_of_less [of a] code_of_less [of b] code_of_less [of c] by linarith+
  have "code_of b div 16 < 16" "code_of c div 64 < 4"
    using code_of_less [of b] code_of_less [of c] by linarith+
  then have "(code_of a mod 4 * 16 + code_of b div 16) div 16 = code_of a mod 4"
    "(code_of a mod 4 * 16 + code_of b div 16) mod 16 = code_of b div 16"
    "(code_of b mod 16 * 4 + code_of c div 64) div 4 = code_of b mod 16"
    "(code_of b mod 16 * 4 + code_of c div 64) mod 4 = code_of c div 64" by simp_all
  with l 4 show ?case by simp
qed

lemma b64_roundtrip: "b64_decode url (b64_encode url s) = Some s"
  by (simp add: b64_decode_def b64_decode_encode)

lemma b64_decode_Some: "b64_decode url s = Some d \<Longrightarrow> b64_encode url d = s"
  by (simp add: b64_decode_def Let_def split: if_splits)

lemma b64_encode_inj: "b64_encode url s = b64_encode url t \<longleftrightarrow> s = t"
  by (metis b64_decode_encode)

lemma b64_encode_length: "length (b64_encode url s) \<le> 4 * ((length s + 2) div 3)"
proof (induction url s rule: b64_encode.induct)
  case (4 url a b c r)
  have "(length (a # b # c # r) + 2) div 3 = (length r + 2) div 3 + 1" by simp
  with 4 show ?case by simp
qed (auto simp: b64_pad_def)

lemma b64_nonempty: "s \<noteq> [] \<Longrightarrow> b64_encode url s \<noteq> []"
  by (cases "(url, s)" rule: b64_encode.cases) auto

end
