(* ===== verification/StateStore.thy ===== *)
theory StateStore
  imports Base64
begin

text \<open>
  The versioned key-value store under the journal (\<^verbatim>\<open>state-local/src/store.ts\<close>,
  \<^verbatim>\<open>snapshot.ts\<close>): one snapshot of insertion-ordered records, a generation counter from which
  every version is drawn, single-record writes, compare-and-swap, multi-record transactions and
  cursor scans. The store object is the record \<open>store\<close>; what a call meets outside the program
  (abort signal, path identity check, clock, outcome of the durable append) is the record \<open>call\<close>.
\<close>

section \<open>State\<close>

record stored =
  sv_value :: string
  sv_version :: string
  sv_updated :: string

record snapshot =
  sn_generation :: nat
  sn_list_generation :: nat
  sn_records :: "(string \<times> stored) list"
  sn_total :: nat

record limits =
  li_record_bytes :: nat
  li_records :: nat
  li_total_bytes :: nat

record store =
  st_snap :: snapshot
  st_closed :: bool
  st_poisoned :: bool

text \<open>Outcome of the durable append of a commit: it succeeds, it reports an index capacity error
  before anything is written, or it fails in the uncertain region.\<close>

datatype commit_outcome = CommitOk | CommitCapacity js_error | CommitFailed js_error

record call =
  ca_aborted :: bool
  ca_guard :: "js_error option"
  ca_now :: "int option"
  ca_commit :: commit_outcome

definition empty_snapshot :: snapshot where
  "empty_snapshot = \<lparr>sn_generation = 0, sn_list_generation = 0, sn_records = [], sn_total = 0\<rparr>"

definition lookup :: "snapshot \<Rightarrow> string \<Rightarrow> stored option" where
  "lookup s k = map_of (sn_records s) k"

definition version_text :: "nat \<Rightarrow> string" where
  "version_text n = ''v'' @ nat_text n"

lemma version_text_inj [simp]: "version_text a = version_text b \<longleftrightarrow> a = b"
  by (simp add: version_text_def)

section \<open>Keys, prefixes and versions\<close>

definition internal_state_prefix :: string where "internal_state_prefix = ''@mono-agent/internal/''"
definition execution_state_prefix :: string where "execution_state_prefix = ''core/''"
definition legacy_execution_state_prefix :: string where "legacy_execution_state_prefix = ''@core/''"
definition state_key_max_code_units :: nat where "state_key_max_code_units = 1024"

text \<open>\<open>utf16_length\<close> is \<^verbatim>\<open>value.length\<close> of the text whose UTF-8 bytes are given.\<close>

definition utf16_length :: "string \<Rightarrow> nat" where
  "utf16_length s = sum_list (map (\<lambda>c. if code_of c < 128 then 1 else if code_of c < 192 then 0
     else if code_of c < 240 then 1 else 2) s)"

fun has_double_slash :: "string \<Rightarrow> bool" where
  "has_double_slash (a # b # r) = ((a = CHR ''/'' \<and> b = CHR ''/'') \<or> has_double_slash (b # r))"
| "has_double_slash _ = False"

fun split_slash :: "string \<Rightarrow> string list" where
  "split_slash [] = [[]]"
| "split_slash (c # cs) =
     (if c = CHR ''/'' then [] # split_slash cs
      else (case split_slash cs of [] \<Rightarrow> [[c]] | seg # segs \<Rightarrow> (c # seg) # segs))"

definition bad_key_char :: "char \<Rightarrow> bool" where
  "bad_key_char c \<longleftrightarrow> code_of c < 32 \<or> code_of c = 127 \<or> code_of c = 92"

definition key_syntax_ok :: "string \<Rightarrow> bool" where
  "key_syntax_ok s \<longleftrightarrow>
     s \<noteq> [] \<and> utf16_length s \<le> state_key_max_code_units \<and> hd s \<noteq> CHR ''/'' \<and> last s \<noteq> CHR ''/''
     \<and> \<not> has_double_slash s \<and> \<not> list_ex bad_key_char s
     \<and> \<not> list_ex (\<lambda>seg. seg = ''.'' \<or> seg = ''..'') (split_slash s)"

definition prefix_syntax_ok :: "string \<Rightarrow> bool" where
  "prefix_syntax_ok s \<longleftrightarrow>
     s = [] \<or>
     (utf16_length s \<le> state_key_max_code_units \<and> hd s \<noteq> CHR ''/''
      \<and> \<not> has_double_slash s \<and> \<not> list_ex bad_key_char s
      \<and> \<not> list_ex (\<lambda>seg. seg = ''.'' \<or> seg = ''..'') (split_slash s))"

definition is_execution_state_key :: "string \<Rightarrow> bool" where
  "is_execution_state_key k \<longleftrightarrow> prefix execution_state_prefix k \<or> prefix legacy_execution_state_prefix k"

definition is_internal_state_key :: "string \<Rightarrow> bool" where
  "is_internal_state_key k \<longleftrightarrow> prefix internal_state_prefix k \<or> is_execution_state_key k"

definition validate_state_key_syntax :: "js \<Rightarrow> string result" where
  "validate_state_key_syntax v =
     (case v of
        JStr s \<Rightarrow> if key_syntax_ok s then Inr s else Inl (StateError STATE_INVALID_KEY)
      | _ \<Rightarrow> Inl (StateError STATE_INVALID_KEY))"

definition validate_state_key :: "js \<Rightarrow> string result" where
  "validate_state_key v =
     rbind (validate_state_key_syntax v) (\<lambda>k.
     if is_internal_state_key k then Inl (StateError STATE_INVALID_KEY) else Inr k)"

definition validate_execution_state_key :: "js \<Rightarrow> string result" where
  "validate_execution_state_key v =
     rbind (validate_state_key_syntax v) (\<lambda>k.
     if \<not> is_execution_state_key k then Inl (StateError STATE_INVALID_KEY) else Inr k)"

definition validate_state_prefix :: "js \<Rightarrow> string result" where
  "validate_state_prefix v =
     (case v of
        JUndef \<Rightarrow> Inr []
      | JStr s \<Rightarrow> if prefix_syntax_ok s then Inr s else Inl (StateError STATE_INVALID_KEY)
      | _ \<Rightarrow> Inl (StateError STATE_INVALID_KEY))"

definition validate_execution_state_prefix :: "js \<Rightarrow> string result" where
  "validate_execution_state_prefix v =
     rbind (validate_state_prefix v) (\<lambda>p.
     if \<not> is_execution_state_key p then Inl (StateError STATE_INVALID_KEY) else Inr p)"

definition version_ok :: "string \<Rightarrow> bool" where
  "version_ok s \<longleftrightarrow>
     length s \<le> 17 \<and> 2 \<le> length s \<and> hd s = CHR ''v'' \<and> list_all is_digit (tl s) \<and> hd (tl s) \<noteq> CHR ''0''
     \<and> int (read_nat 0 (tl s)) \<le> max_safe_integer"

definition validate_expected_version :: "js \<Rightarrow> string option result" where
  "validate_expected_version v =
     (case v of
        JUndef \<Rightarrow> Inr None
      | JStr s \<Rightarrow> if version_ok s then Inr (Some s) else Inl (StateError STATE_VERSION_MISMATCH)
      | _ \<Rightarrow> Inl (StateError STATE_VERSION_MISMATCH))"

definition next_version :: "snapshot \<Rightarrow> nat result" where
  "next_version s =
     (if max_safe_integer \<le> int (sn_generation s) then Inl (StateError STATE_LIMIT_EXCEEDED)
      else Inr (sn_generation s + 1))"

definition next_list_generation :: "snapshot \<Rightarrow> nat result" where
  "next_list_generation s =
     (if max_safe_integer \<le> int (sn_list_generation s) then Inl (StateError STATE_LIMIT_EXCEEDED)
      else Inr (sn_list_generation s + 1))"

section \<open>The encoded snapshot and its byte bound\<close>

definition state_snapshot_byte_limit :: "limits \<Rightarrow> nat" where
  "state_snapshot_byte_limit l =
     min 2147483647
       (4096 + 4 * ((li_total_bytes l + 2) div 3 + (li_records l - 1))
        + li_records l * state_key_max_code_units * 6 + li_records l * 256)"

definition disk_record :: "string \<times> stored \<Rightarrow> js" where
  "disk_record kv =
     JObj (req ''key'' (JStr (fst kv)) @ req ''valueBase64'' (JStr (b64_encode False (sv_value (snd kv))))
       @ req ''version'' (JStr (sv_version (snd kv))) @ req ''updatedAt'' (JStr (sv_updated (snd kv))))"

definition serialize_snapshot :: "nat \<Rightarrow> snapshot \<Rightarrow> string result" where
  "serialize_snapshot maximum s =
     (let disk = JObj (req ''schema'' (JStr ''mono-agent.state-local.v1'')
            @ req ''generation'' (JNum (int (sn_generation s)))
            @ req ''listGeneration'' (JNum (int (sn_list_generation s)))
            @ req ''records'' (JArr (map disk_record (sort_key (\<lambda>kv. text_order (fst kv)) (sn_records s)))));
          bytes = json_text disk @ [CHR 0x0A] in
      if maximum < length bytes then Inl (StateError STATE_LIMIT_EXCEEDED) else Inr bytes)"

section \<open>Guards and commit\<close>

definition guard_paths :: "call \<Rightarrow> store \<Rightarrow> unit result \<times> store" where
  "guard_paths c st =
     (if st_poisoned st then (Inl (StateError STATE_POISONED), st)
      else (case ca_guard c of
              None \<Rightarrow> (Inr (), st)
            | Some e \<Rightarrow> (Inl e, st\<lparr>st_poisoned := True\<rparr>)))"

definition run_exclusive :: "call \<Rightarrow> (store \<Rightarrow> 'a result \<times> store) \<Rightarrow> store \<Rightarrow> 'a result \<times> store" where
  "run_exclusive c operation st =
     (if st_closed st then (Inl (StateError STATE_CLOSED), st)
      else if ca_aborted c then (Inl (StateError STATE_ABORTED), st)
      else if st_poisoned st then (Inl (StateError STATE_POISONED), st)
      else operation st)"

text \<open>Every operation runs exclusively and checks the paths before anything else.\<close>

definition guarded :: "call \<Rightarrow> (store \<Rightarrow> 'a result \<times> store) \<Rightarrow> store \<Rightarrow> 'a result \<times> store" where
  "guarded c body = run_exclusive c (\<lambda>st.
     case guard_paths c st of (Inl e, st') \<Rightarrow> (Inl e, st') | (Inr _, st') \<Rightarrow> body st')"

definition commit :: "limits \<Rightarrow> call \<Rightarrow> snapshot \<Rightarrow> store \<Rightarrow> unit result \<times> store" where
  "commit l c draft st =
     (case serialize_snapshot (state_snapshot_byte_limit l) draft of
        Inl e \<Rightarrow> (Inl e, st)
      | Inr _ \<Rightarrow>
          (case ca_commit c of
             CommitOk \<Rightarrow> (Inr (), st\<lparr>st_snap := draft\<rparr>)
           | CommitCapacity e \<Rightarrow> (Inl e, st)
           | CommitFailed e \<Rightarrow> (Inl e, st\<lparr>st_poisoned := True\<rparr>)))"

text \<open>The plan of a mutation: either an error, an answer that changes nothing, or a draft to commit
  with the answer to give when the commit succeeds.\<close>

datatype 'a plan = Answer 'a | Draft snapshot 'a

definition run_plan :: "limits \<Rightarrow> call \<Rightarrow> 'a plan result \<Rightarrow> store \<Rightarrow> 'a result \<times> store" where
  "run_plan l c p st =
     (case p of
        Inl e \<Rightarrow> (Inl e, st)
      | Inr (Answer a) \<Rightarrow> (Inr a, st)
      | Inr (Draft d a) \<Rightarrow> (case commit l c d st of (Inl e, st') \<Rightarrow> (Inl e, st') | (Inr _, st') \<Rightarrow> (Inr a, st')))"

definition canonical_now :: "call \<Rightarrow> string result" where
  "canonical_now c =
     (case ca_now c of None \<Rightarrow> Inl (StateError STATE_INVALID_CONFIG) | Some t \<Rightarrow> Inr (to_iso t))"

section \<open>Reading\<close>

record state_record =
  rc_key :: string
  rc_value :: string
  rc_version :: string
  rc_updated :: string

definition to_state_record :: "string \<Rightarrow> stored \<Rightarrow> state_record" where
  "to_state_record k r = \<lparr>rc_key = k, rc_value = sv_value r, rc_version = sv_version r, rc_updated = sv_updated r\<rparr>"

definition find_record :: "snapshot \<Rightarrow> string \<Rightarrow> state_record option" where
  "find_record s k = map_option (to_state_record k) (lookup s k)"

definition state_read :: "call \<Rightarrow> js \<Rightarrow> store \<Rightarrow> state_record option result \<times> store" where
  "state_read c key = guarded c (\<lambda>st.
     (rbind (validate_state_key_syntax key) (\<lambda>k.
      if is_execution_state_key k then Inr None
      else rbind (validate_state_key (JStr k)) (\<lambda>_. Inr (find_record (st_snap st) k))), st))"

definition state_read_internal :: "call \<Rightarrow> js \<Rightarrow> store \<Rightarrow> state_record option result \<times> store" where
  "state_read_internal c key = guarded c (\<lambda>st.
     (rbind (validate_execution_state_key key) (\<lambda>k. Inr (find_record (st_snap st) k)), st))"

section \<open>Single-record writes\<close>

definition size_at :: "snapshot \<Rightarrow> string \<Rightarrow> nat" where
  "size_at s k = (case lookup s k of None \<Rightarrow> 0 | Some r \<Rightarrow> length (sv_value r))"

definition version_at :: "snapshot \<Rightarrow> string \<Rightarrow> string option" where
  "version_at s k = map_option sv_version (lookup s k)"

definition assert_expected_version :: "snapshot \<Rightarrow> string \<Rightarrow> string option \<Rightarrow> unit result" where
  "assert_expected_version s k expected =
     (case expected of
        None \<Rightarrow> Inr ()
      | Some v \<Rightarrow> if version_at s k \<noteq> Some v then Inl (StateError STATE_VERSION_MISMATCH) else Inr ())"

text \<open>The part \<^verbatim>\<open>write\<close> and \<^verbatim>\<open>compareAndSwap\<close> share: capacity checks, the next version, the draft.
  Old bytes are taken off after the new ones are added, which is the same number because a
  snapshot counts the bytes of every record it holds.\<close>

definition put_draft :: "limits \<Rightarrow> call \<Rightarrow> snapshot \<Rightarrow> string \<Rightarrow> string \<Rightarrow> (snapshot \<times> stored) result" where
  "put_draft l c s k value =
     rbind (require (\<not> (lookup s k = None \<and> li_records l \<le> length (sn_records s))) (StateError STATE_LIMIT_EXCEEDED)) (\<lambda>_.
     let total = sn_total s + length value - size_at s k in
     rbind (require (total \<le> li_total_bytes l) (StateError STATE_LIMIT_EXCEEDED)) (\<lambda>_.
     rbind (next_version s) (\<lambda>generation.
     rbind (canonical_now c) (\<lambda>updated.
     rbind (next_list_generation s) (\<lambda>list_generation.
     let r = \<lparr>sv_value = value, sv_version = version_text generation, sv_updated = updated\<rparr> in
     Inr (\<lparr>sn_generation = generation, sn_list_generation = list_generation,
           sn_records = AList.update k r (sn_records s), sn_total = total\<rparr>, r))))))"

definition state_write :: "limits \<Rightarrow> call \<Rightarrow> js \<Rightarrow> js \<Rightarrow> string \<Rightarrow> store \<Rightarrow> (string \<times> string) result \<times> store" where
  "state_write l c key expected value = guarded c (\<lambda>st.
     run_plan l c
       (let s = st_snap st in
        rbind (validate_state_key key) (\<lambda>k.
        rbind (validate_expected_version expected) (\<lambda>ev.
        rbind (require (length value \<le> li_record_bytes l) (StateError STATE_LIMIT_EXCEEDED)) (\<lambda>_.
        rbind (assert_expected_version s k ev) (\<lambda>_.
        rbind (put_draft l c s k value) (\<lambda>(draft, r).
        Inr (Draft draft (sv_version r, sv_updated r)))))))) st)"

definition state_delete :: "limits \<Rightarrow> call \<Rightarrow> js \<Rightarrow> js \<Rightarrow> store \<Rightarrow> bool result \<times> store" where
  "state_delete l c key expected = guarded c (\<lambda>st.
     run_plan l c
       (let s = st_snap st in
        rbind (validate_state_key key) (\<lambda>k.
        rbind (validate_expected_version expected) (\<lambda>ev.
        rbind (assert_expected_version s k ev) (\<lambda>_.
        if lookup s k = None then Inr (Answer False)
        else
          rbind (next_version s) (\<lambda>generation.
          rbind (next_list_generation s) (\<lambda>list_generation.
          Inr (Draft \<lparr>sn_generation = generation, sn_list_generation = list_generation,
                 sn_records = AList.delete k (sn_records s), sn_total = sn_total s - size_at s k\<rparr> True))))))) st)"

datatype cas_result = CasApplied state_record | CasConflict "string option"

definition state_compare_and_swap ::
  "limits \<Rightarrow> call \<Rightarrow> js \<Rightarrow> js \<Rightarrow> string \<Rightarrow> store \<Rightarrow> cas_result result \<times> store" where
  "state_compare_and_swap l c key expected value = guarded c (\<lambda>st.
     run_plan l c
       (let s = st_snap st in
        rbind (validate_state_key key) (\<lambda>k.
        rbind (require (length value \<le> li_record_bytes l) (StateError STATE_LIMIT_EXCEEDED)) (\<lambda>_.
        rbind (if expected = JNull then Inr None else validate_expected_version expected) (\<lambda>ev.
        if version_at s k \<noteq> ev then Inr (Answer (CasConflict (version_at s k)))
        else
          rbind (put_draft l c s k value) (\<lambda>(draft, r).
          Inr (Draft draft (CasApplied (to_state_record k r)))))))) st)"

section \<open>Transactions\<close>

text \<open>A request's entries as the caller gives them, and normalized: an expected version is the
  text, or \<open>None\<close> for \<^verbatim>\<open>null\<close>.\<close>

record tx_entry =
  te_key :: js
  te_expected :: js

record tx_put = tx_entry +
  tp_value :: js

record tx_request =
  tq_checks :: "tx_entry list"
  tq_puts :: "tx_put list"
  tq_deletes :: "tx_entry list"

record tx_op =
  op_key :: string
  op_expected :: "string option"

record put_op = tx_op +
  op_value :: string

record tx_normal =
  tn_checks :: "tx_op list"
  tn_puts :: "put_op list"
  tn_deletes :: "tx_op list"

datatype tx_result =
    TxApplied "state_record list" "string list"
  | TxConflict "(string \<times> string option) list"

definition state_transaction_max_entries :: nat where "state_transaction_max_entries = 1000"

definition normalize_key :: "(js \<Rightarrow> string result) \<Rightarrow> js \<Rightarrow> js \<Rightarrow> (string \<times> string option) result" where
  "normalize_key validator key expected =
     rbind (validator key) (\<lambda>k.
     rbind (if expected = JNull then Inr None
            else rbind (validate_expected_version expected) (\<lambda>v.
              case v of None \<Rightarrow> Inl (StateError STATE_VERSION_MISMATCH) | Some t \<Rightarrow> Inr (Some t))) (\<lambda>ev.
     Inr (k, ev)))"

definition normalize_entry :: "(js \<Rightarrow> string result) \<Rightarrow> tx_entry \<Rightarrow> tx_op result" where
  "normalize_entry validator e =
     rbind (normalize_key validator (te_key e) (te_expected e)) (\<lambda>(k, ev). Inr \<lparr>op_key = k, op_expected = ev\<rparr>)"

definition clone_transaction_bytes :: "js \<Rightarrow> nat \<Rightarrow> string result" where
  "clone_transaction_bytes v max_record_bytes =
     (case v of
        JBytes b \<Rightarrow> if max_record_bytes < length b then Inl (StateError STATE_LIMIT_EXCEEDED) else Inr b
      | _ \<Rightarrow> Inl (StateError STATE_INVALID_CONFIG))"

fun normalize_puts :: "(js \<Rightarrow> string result) \<Rightarrow> nat \<Rightarrow> nat \<Rightarrow> nat \<Rightarrow> tx_put list \<Rightarrow> put_op list result" where
  "normalize_puts validator max_record_bytes max_total_bytes put_bytes [] = Inr []"
| "normalize_puts validator max_record_bytes max_total_bytes put_bytes (p # ps) =
     rbind (normalize_key validator (te_key p) (te_expected p)) (\<lambda>(k, ev).
     rbind (clone_transaction_bytes (tp_value p) max_record_bytes) (\<lambda>bytes.
     let total = put_bytes + length bytes in
     rbind (require (int total \<le> max_safe_integer \<and> total \<le> max_total_bytes) (StateError STATE_LIMIT_EXCEEDED)) (\<lambda>_.
     rbind (normalize_puts validator max_record_bytes max_total_bytes total ps) (\<lambda>rest.
     Inr (\<lparr>op_key = k, op_expected = ev, op_value = bytes\<rparr> # rest)))))"

definition normalize_transaction :: "limits \<Rightarrow> (js \<Rightarrow> string result) \<Rightarrow> tx_request \<Rightarrow> tx_normal result" where
  "normalize_transaction l validator q =
     (let total = length (tq_checks q) + length (tq_puts q) + length (tq_deletes q) in
      rbind (require (length (tq_checks q) \<le> state_transaction_max_entries
                      \<and> length (tq_puts q) \<le> state_transaction_max_entries
                      \<and> length (tq_deletes q) \<le> state_transaction_max_entries) (StateError STATE_LIMIT_EXCEEDED)) (\<lambda>_.
      rbind (require (1 \<le> total \<and> total \<le> state_transaction_max_entries) (StateError STATE_LIMIT_EXCEEDED)) (\<lambda>_.
      rbind (rmap (normalize_entry validator) (tq_checks q)) (\<lambda>checks.
      rbind (normalize_puts validator (li_record_bytes l) (li_total_bytes l) 0 (tq_puts q)) (\<lambda>puts.
      rbind (rmap (normalize_entry validator) (tq_deletes q)) (\<lambda>deletes.
      rbind (require (distinct (map op_key checks @ map op_key puts @ map op_key deletes)) (StateError STATE_INVALID_CONFIG)) (\<lambda>_.
      Inr \<lparr>tn_checks = checks, tn_puts = puts, tn_deletes = deletes\<rparr>)))))))"

definition tx_expectations :: "tx_normal \<Rightarrow> (string \<times> string option) list" where
  "tx_expectations n =
     map (\<lambda>e. (op_key e, op_expected e)) (tn_checks n)
     @ map (\<lambda>e. (op_key e, op_expected e)) (tn_puts n)
     @ map (\<lambda>e. (op_key e, op_expected e)) (tn_deletes n)"

definition tx_conflicts :: "snapshot \<Rightarrow> tx_normal \<Rightarrow> (string \<times> string option) list" where
  "tx_conflicts s n =
     map (\<lambda>(k, _). (k, version_at s k)) (filter (\<lambda>(k, ev). version_at s k \<noteq> ev) (tx_expectations n))"

definition tx_deleted :: "snapshot \<Rightarrow> tx_normal \<Rightarrow> stored list" where
  "tx_deleted s n = List.map_filter (\<lambda>d. lookup s (op_key d)) (tn_deletes n)"

fun apply_puts ::
  "string \<Rightarrow> nat \<Rightarrow> (string \<times> stored) list \<Rightarrow> put_op list \<Rightarrow> nat \<times> (string \<times> stored) list \<times> state_record list" where
  "apply_puts updated generation records [] = (generation, records, [])"
| "apply_puts updated generation records (p # ps) =
     (let g = generation + 1;
          r = \<lparr>sv_value = op_value p, sv_version = version_text g, sv_updated = updated\<rparr>;
          (g', rs, applied) = apply_puts updated g (AList.update (op_key p) r records) ps in
      (g', rs, to_state_record (op_key p) r # applied))"

fun apply_deletes :: "nat \<Rightarrow> (string \<times> stored) list \<Rightarrow> tx_op list \<Rightarrow> nat \<times> (string \<times> stored) list \<times> string list" where
  "apply_deletes generation records [] = (generation, records, [])"
| "apply_deletes generation records (d # ds) =
     (if map_of records (op_key d) = None then apply_deletes generation records ds
      else
        (let (g', rs, deleted) = apply_deletes (generation + 1) (AList.delete (op_key d) records) ds in
         (g', rs, op_key d # deleted)))"

definition plan_transaction :: "limits \<Rightarrow> call \<Rightarrow> bool \<Rightarrow> tx_normal \<Rightarrow> snapshot \<Rightarrow> tx_result plan result" where
  "plan_transaction l c affects_public_list n s =
     (if tx_conflicts s n \<noteq> [] then Inr (Answer (TxConflict (tx_conflicts s n)))
      else
        (let deleted = tx_deleted s n;
             mutations = length (tn_puts n) + length deleted in
         if mutations = 0 then Inr (Answer (TxApplied [] []))
         else
           rbind (require (\<not> max_safe_integer - int mutations < int (sn_generation s)) (StateError STATE_LIMIT_EXCEEDED)) (\<lambda>_.
           let count = length (sn_records s) + length (filter (\<lambda>p. lookup s (op_key p) = None) (tn_puts n)) - length deleted in
           rbind (require (count \<le> li_records l) (StateError STATE_LIMIT_EXCEEDED)) (\<lambda>_.
           let put_bytes = sum_list (map (\<lambda>p. length (op_value p)) (tn_puts n));
               replaced_bytes = sum_list (map (\<lambda>p. size_at s (op_key p)) (tn_puts n));
               deleted_bytes = sum_list (map (\<lambda>r. length (sv_value r)) deleted);
               total = sn_total s + put_bytes - (replaced_bytes + deleted_bytes) in
           rbind (require (int total \<le> max_safe_integer \<and> total \<le> li_total_bytes l) (StateError STATE_LIMIT_EXCEEDED)) (\<lambda>_.
           rbind (canonical_now c) (\<lambda>updated.
           let (g1, records1, applied) = apply_puts updated (sn_generation s) (sn_records s) (tn_puts n);
               (g2, records2, deleted_keys) = apply_deletes g1 records1 (tn_deletes n) in
           rbind (if affects_public_list then next_list_generation s else Inr (sn_list_generation s)) (\<lambda>list_generation.
           Inr (Draft \<lparr>sn_generation = g2, sn_list_generation = list_generation, sn_records = records2, sn_total = total\<rparr>
                  (TxApplied applied deleted_keys)))))))))"

definition transaction_with_validator ::
  "limits \<Rightarrow> call \<Rightarrow> (js \<Rightarrow> string result) \<Rightarrow> bool \<Rightarrow> tx_request \<Rightarrow> store \<Rightarrow> tx_result result \<times> store" where
  "transaction_with_validator l c validator affects_public_list q st =
     (case normalize_transaction l validator q of
        Inl e \<Rightarrow> (Inl e, st)
      | Inr n \<Rightarrow> guarded c (\<lambda>st. run_plan l c (plan_transaction l c affects_public_list n (st_snap st)) st) st)"

definition state_transaction :: "limits \<Rightarrow> call \<Rightarrow> tx_request \<Rightarrow> store \<Rightarrow> tx_result result \<times> store" where
  "state_transaction l c q = transaction_with_validator l c validate_state_key True q"

definition state_transaction_internal :: "limits \<Rightarrow> call \<Rightarrow> tx_request \<Rightarrow> store \<Rightarrow> tx_result result \<times> store" where
  "state_transaction_internal l c q = transaction_with_validator l c validate_execution_state_key False q"

section \<open>Listing and scanning\<close>

definition state_cursor_max_code_units :: nat where "state_cursor_max_code_units = 16512"

definition encode_list_cursor :: "string \<Rightarrow> string \<Rightarrow> nat \<Rightarrow> string" where
  "encode_list_cursor pre k generation =
     b64_encode True (json_text (JObj (req ''v'' (JNum 1) @ req ''p'' (JStr pre) @ req ''k'' (JStr k) @ req ''g'' (JNum (int generation)))))"

definition encode_scan_cursor :: "string \<Rightarrow> string \<Rightarrow> string result" where
  "encode_scan_cursor pre k =
     (let cursor = b64_encode True (json_text (JObj (req ''v'' (JNum 1) @ req ''p'' (JStr pre) @ req ''k'' (JStr k)))) in
      if state_cursor_max_code_units < length cursor then Inl (StateError STATE_LIMIT_EXCEEDED) else Inr cursor)"

definition cursor_key :: "(js \<Rightarrow> string result) \<Rightarrow> string \<Rightarrow> js \<Rightarrow> string result" where
  "cursor_key validator pre v =
     (case validator v of
        Inl e \<Rightarrow> Inl (StateError STATE_INVALID_CURSOR)
      | Inr k \<Rightarrow> if prefix pre k then Inr k else Inl (StateError STATE_INVALID_CURSOR))"

definition cursor_json :: "string \<Rightarrow> js result" where
  "cursor_json cursor =
     (case b64_decode True cursor of
        None \<Rightarrow> Inl (StateError STATE_INVALID_CURSOR)
      | Some b \<Rightarrow> (case json_parse b of None \<Rightarrow> Inl (StateError STATE_INVALID_CURSOR) | Some v \<Rightarrow> Inr v))"

definition decode_list_cursor :: "js \<Rightarrow> string \<Rightarrow> nat \<Rightarrow> string option result" where
  "decode_list_cursor cursor pre generation =
     (case cursor of
        JUndef \<Rightarrow> Inr None
      | JStr c \<Rightarrow>
          if c = [] \<or> state_cursor_max_code_units < length c then Inl (StateError STATE_INVALID_CURSOR)
          else
            rbind (cursor_json c) (\<lambda>raw.
            case raw of
              JObj fs \<Rightarrow>
                if keys_of fs \<noteq> {''g'', ''k'', ''p'', ''v''} \<or> fld fs ''v'' \<noteq> JNum 1 \<or> fld fs ''p'' \<noteq> JStr pre
                   \<or> fld fs ''g'' \<noteq> JNum (int generation)
                then Inl (StateError STATE_INVALID_CURSOR)
                else rbind (cursor_key validate_state_key pre (fld fs ''k'')) (\<lambda>k. Inr (Some k))
            | _ \<Rightarrow> Inl (StateError STATE_INVALID_CURSOR))
      | _ \<Rightarrow> Inl (StateError STATE_INVALID_CURSOR))"

definition decode_scan_cursor :: "string option \<Rightarrow> string \<Rightarrow> (js \<Rightarrow> string result) \<Rightarrow> string option result" where
  "decode_scan_cursor cursor pre validator =
     (case cursor of
        None \<Rightarrow> Inr None
      | Some c \<Rightarrow>
          rbind (cursor_json c) (\<lambda>raw.
          case raw of
            JObj fs \<Rightarrow>
              if keys_of fs \<noteq> {''k'', ''p'', ''v''} \<or> fld fs ''v'' \<noteq> JNum 1 \<or> fld fs ''p'' \<noteq> JStr pre
              then Inl (StateError STATE_INVALID_CURSOR)
              else rbind (cursor_key validator pre (fld fs ''k'')) (\<lambda>k. Inr (Some k))
          | _ \<Rightarrow> Inl (StateError STATE_INVALID_CURSOR)))"

definition matching_records ::
  "(string \<Rightarrow> bool) \<Rightarrow> string \<Rightarrow> string option \<Rightarrow> snapshot \<Rightarrow> (string \<times> stored) list" where
  "matching_records visible pre after s =
     sort_key (\<lambda>kv. text_order (fst kv)) (filter (\<lambda>(k, _). visible k \<and> prefix pre k \<and> (case after of None \<Rightarrow> True | Some a \<Rightarrow> text_less a k)) (sn_records s))"

record page =
  pg_records :: "state_record list"
  pg_cursor :: "string option"

definition page_of :: "(string \<times> stored) list \<Rightarrow> string option \<Rightarrow> page" where
  "page_of selected cursor = \<lparr>pg_records = map (\<lambda>(k, r). to_state_record k r) selected, pg_cursor = cursor\<rparr>"

definition list_limit :: "js \<Rightarrow> nat result" where
  "list_limit limit =
     (case limit of
        JNum i \<Rightarrow> if 1 \<le> i \<and> i \<le> 1000 then Inr (nat i) else Inl (StateError STATE_LIMIT_EXCEEDED)
      | _ \<Rightarrow> Inl (StateError STATE_LIMIT_EXCEEDED))"

definition state_list :: "call \<Rightarrow> js \<Rightarrow> js \<Rightarrow> js \<Rightarrow> store \<Rightarrow> page result \<times> store" where
  "state_list c pre cursor limit = guarded c (\<lambda>st.
     (let s = st_snap st in
      rbind (validate_state_prefix pre) (\<lambda>p.
      rbind (list_limit limit) (\<lambda>n.
      rbind (decode_list_cursor cursor p (sn_list_generation s)) (\<lambda>after.
      let matching = matching_records (\<lambda>k. \<not> is_internal_state_key k) p after s;
          selected = take n matching in
      Inr (page_of selected
        (if length selected < length matching
         then Some (encode_list_cursor p (fst (last selected)) (sn_list_generation s)) else None))))), st))"

record scan_normal =
  sc_prefix :: string
  sc_cursor :: "string option"
  sc_limit :: nat

definition normalize_scan_cursor :: "js \<Rightarrow> string option result" where
  "normalize_scan_cursor cursor =
     (case cursor of
        JUndef \<Rightarrow> Inr None
      | JStr c \<Rightarrow> if c = [] \<or> state_cursor_max_code_units < length c then Inl (StateError STATE_INVALID_CURSOR) else Inr (Some c)
      | _ \<Rightarrow> Inl (StateError STATE_INVALID_CURSOR))"

definition normalize_scan :: "(js \<Rightarrow> string result) \<Rightarrow> js \<Rightarrow> js \<Rightarrow> js \<Rightarrow> scan_normal result" where
  "normalize_scan prefix_validator pre cursor limit =
     rbind (prefix_validator pre) (\<lambda>p.
     rbind (list_limit limit) (\<lambda>n.
     rbind (normalize_scan_cursor cursor) (\<lambda>c.
     Inr \<lparr>sc_prefix = p, sc_cursor = c, sc_limit = n\<rparr>)))"

definition scan_page :: "(js \<Rightarrow> string result) \<Rightarrow> bool \<Rightarrow> scan_normal \<Rightarrow> snapshot \<Rightarrow> page result" where
  "scan_page key_validator include_internal n s =
     rbind (decode_scan_cursor (sc_cursor n) (sc_prefix n) key_validator) (\<lambda>after.
     let matching = matching_records
           (if include_internal then is_execution_state_key else (\<lambda>k. \<not> is_internal_state_key k)) (sc_prefix n) after s;
         selected = take (sc_limit n) matching in
     if length selected < length matching
     then rbind (encode_scan_cursor (sc_prefix n) (fst (last selected))) (\<lambda>c. Inr (page_of selected (Some c)))
     else Inr (page_of selected None))"

definition scan_with_mode ::
  "call \<Rightarrow> (js \<Rightarrow> string result) \<Rightarrow> (js \<Rightarrow> string result) \<Rightarrow> bool \<Rightarrow> js \<Rightarrow> js \<Rightarrow> js \<Rightarrow> store \<Rightarrow> page result \<times> store" where
  "scan_with_mode c prefix_validator key_validator include_internal pre cursor limit st =
     (case normalize_scan prefix_validator pre cursor limit of
        Inl e \<Rightarrow> (Inl e, st)
      | Inr n \<Rightarrow> guarded c (\<lambda>st. (scan_page key_validator include_internal n (st_snap st), st)) st)"

definition state_scan :: "call \<Rightarrow> js \<Rightarrow> js \<Rightarrow> js \<Rightarrow> store \<Rightarrow> page result \<times> store" where
  "state_scan c = scan_with_mode c validate_state_prefix validate_state_key False"

definition state_scan_internal :: "call \<Rightarrow> js \<Rightarrow> js \<Rightarrow> js \<Rightarrow> store \<Rightarrow> page result \<times> store" where
  "state_scan_internal c = scan_with_mode c validate_execution_state_prefix validate_execution_state_key True"

end
