(* ===== verification/StoreLaws.thy ===== *)
theory StoreLaws
  imports StateStore
begin

text \<open>
  What the store promises: the snapshot invariant every operation keeps, the exact effect of a
  transaction (all of it or nothing, against the versions the caller expects), versions that are
  never used twice, and scans that return every matching record once, in key order. The locale
  \<open>versioned_store\<close> states the contract the journal relies on; it is interpreted on the model.
\<close>

section \<open>The snapshot invariant\<close>

definition stored_size :: "stored \<Rightarrow> nat" where
  "stored_size r = length (sv_value r)"

definition versions_ok :: "snapshot \<Rightarrow> bool" where
  "versions_ok s \<longleftrightarrow>
     (\<forall>k r. lookup s k = Some r \<longrightarrow> (\<exists>n. sv_version r = version_text n \<and> 1 \<le> n \<and> n \<le> sn_generation s))
     \<and> (\<forall>k k' r r'. lookup s k = Some r \<longrightarrow> lookup s k' = Some r' \<longrightarrow> sv_version r = sv_version r' \<longrightarrow> k = k')"

definition snapshot_wf :: "limits \<Rightarrow> snapshot \<Rightarrow> bool" where
  "snapshot_wf l s \<longleftrightarrow>
     distinct (map fst (sn_records s)) \<and> versions_ok s
     \<and> sn_total s = alist_size stored_size (sn_records s) \<and> sn_total s \<le> li_total_bytes l
     \<and> length (sn_records s) \<le> li_records l
     \<and> (\<forall>k r. lookup s k = Some r \<longrightarrow> stored_size r \<le> li_record_bytes l)
     \<and> sn_list_generation s \<le> sn_generation s \<and> int (sn_generation s) \<le> max_safe_integer"

definition store_wf :: "limits \<Rightarrow> store \<Rightarrow> bool" where
  "store_wf l st \<longleftrightarrow> snapshot_wf l (st_snap st)"

lemma empty_snapshot_wf: "snapshot_wf l empty_snapshot"
  by (simp add: snapshot_wf_def empty_snapshot_def versions_ok_def lookup_def max_safe_integer_def)

text \<open>\<open>evolves s s'\<close>: time has passed from \<open>s\<close> to \<open>s'\<close>. A record found later was there before or
  carries a version drawn later.\<close>

definition fresh_between :: "nat \<Rightarrow> nat \<Rightarrow> stored \<Rightarrow> bool" where
  "fresh_between g g' r \<longleftrightarrow> (\<exists>n. g < n \<and> n \<le> g' \<and> sv_version r = version_text n)"

definition evolves :: "snapshot \<Rightarrow> snapshot \<Rightarrow> bool" where
  "evolves s s' \<longleftrightarrow> sn_generation s \<le> sn_generation s'
     \<and> (\<forall>k r. lookup s' k = Some r \<longrightarrow> lookup s k = Some r \<or> fresh_between (sn_generation s) (sn_generation s') r)"

lemma evolves_refl [simp]: "evolves s s"
  by (simp add: evolves_def)

lemma fresh_between_mono: "fresh_between g g' r \<Longrightarrow> h \<le> g \<Longrightarrow> g' \<le> h' \<Longrightarrow> fresh_between h h' r"
  by (force simp: fresh_between_def)

lemma evolves_trans: "evolves a b \<Longrightarrow> evolves b c \<Longrightarrow> evolves a c"
  unfolding evolves_def by (metis fresh_between_mono le_refl order_trans)

text \<open>A version, once replaced or deleted, never comes back: a later record with an old version is
  the old record.\<close>

lemma version_never_reused:
  assumes "evolves s s'" "versions_ok s" "lookup s' k = Some r'" "lookup s j = Some r" "sv_version r' = sv_version r"
  shows "k = j \<and> r' = r"
proof -
  obtain n where n: "sv_version r = version_text n" "n \<le> sn_generation s"
    using assms(2,4) unfolding versions_ok_def by metis
  then have "\<not> fresh_between (sn_generation s) (sn_generation s') r'"
    using assms(5) by (auto simp: fresh_between_def)
  then have "lookup s k = Some r'" using assms(1,3) by (auto simp: evolves_def)
  then show ?thesis using assms(2,4,5) by (metis option.inject versions_ok_def)
qed

section \<open>Puts and deletes\<close>

definition put_record :: "string \<Rightarrow> nat \<Rightarrow> put_op \<Rightarrow> stored" where
  "put_record updated g p = \<lparr>sv_value = op_value p, sv_version = version_text g, sv_updated = updated\<rparr>"

lemma apply_puts_generation: "apply_puts u g rs ps = (g', rs', out) \<Longrightarrow> g' = g + length ps \<and> length out = length ps"
  by (induction ps arbitrary: g rs g' rs' out) (fastforce simp: Let_def split: prod.splits)+

lemma apply_puts_distinct:
  "apply_puts u g rs ps = (g', rs', out) \<Longrightarrow> distinct (map fst rs) \<Longrightarrow> distinct (map fst rs')"
  by (induction ps arbitrary: g rs g' rs' out) (auto simp: Let_def split: prod.splits)

lemma apply_puts_other:
  "apply_puts u g rs ps = (g', rs', out) \<Longrightarrow> k \<notin> op_key ` set ps \<Longrightarrow> map_of rs' k = map_of rs k"
  by (induction ps arbitrary: g rs g' rs' out) (auto simp: Let_def split: prod.splits)

lemma apply_puts_nth:
  "apply_puts u g rs ps = (g', rs', out) \<Longrightarrow> distinct (map op_key ps) \<Longrightarrow> i < length ps \<Longrightarrow>
   map_of rs' (op_key (ps ! i)) = Some (put_record u (g + i + 1) (ps ! i))
   \<and> out ! i = to_state_record (op_key (ps ! i)) (put_record u (g + i + 1) (ps ! i))"
proof (induction ps arbitrary: g rs g' rs' out i)
  case Nil
  then show ?case by simp
next
  case (Cons p ps)
  define r where "r = put_record u (g + 1) p"
  obtain g1 rs1 out1 where rec: "apply_puts u (g + 1) (AList.update (op_key p) r rs) ps = (g1, rs1, out1)"
    by (metis prod_cases3)
  with Cons.prems have eq: "g' = g1" "rs' = rs1" "out = to_state_record (op_key p) r # out1"
    by (auto simp: Let_def r_def put_record_def)
  show ?case
  proof (cases i)
    case 0
    have "op_key p \<notin> op_key ` set ps" using Cons.prems(2) by simp
    from apply_puts_other [OF rec this] 0 show ?thesis by (simp add: eq r_def)
  next
    case (Suc j)
    with Cons.prems Cons.IH [OF rec, of j] show ?thesis by (simp add: eq)
  qed
qed

lemma apply_puts_size:
  assumes "apply_puts u g rs ps = (g', rs', out)" "distinct (map fst rs)" "distinct (map op_key ps)"
  shows "alist_size stored_size rs' + sum_list (map (\<lambda>p. case map_of rs (op_key p) of None \<Rightarrow> 0 | Some r \<Rightarrow> stored_size r) ps)
       = alist_size stored_size rs + sum_list (map (\<lambda>p. length (op_value p)) ps)
     \<and> length rs' = length rs + length (filter (\<lambda>p. map_of rs (op_key p) = None) ps)"
  using assms
proof (induction ps arbitrary: g rs g' rs' out)
  case Nil
  then show ?case by simp
next
  case (Cons p ps)
  define r where "r = put_record u (g + 1) p"
  define rs0 where "rs0 = AList.update (op_key p) r rs"
  obtain out1 where rec: "apply_puts u (g + 1) rs0 ps = (g', rs', out1)"
    using Cons.prems(1) by (auto simp: Let_def r_def rs0_def put_record_def split: prod.splits)
  have d0: "distinct (map fst rs0)" using Cons.prems(2) by (simp add: rs0_def)
  have "op_key q \<noteq> op_key p" if "q \<in> set ps" for q
    using Cons.prems(3) that by (auto simp: image_iff)
  then have same: "map (\<lambda>p. case map_of rs0 (op_key p) of None \<Rightarrow> 0 | Some r \<Rightarrow> stored_size r) ps
      = map (\<lambda>p. case map_of rs (op_key p) of None \<Rightarrow> 0 | Some r \<Rightarrow> stored_size r) ps"
    "filter (\<lambda>p. map_of rs0 (op_key p) = None) ps = filter (\<lambda>p. map_of rs (op_key p) = None) ps"
    by (auto simp: rs0_def intro!: filter_cong)
  have "stored_size r = length (op_value p)" by (simp add: r_def put_record_def stored_size_def)
  moreover have "alist_size stored_size rs' + sum_list (map (\<lambda>p. case map_of rs (op_key p) of None \<Rightarrow> 0 | Some r \<Rightarrow> stored_size r) ps)
       = alist_size stored_size rs0 + sum_list (map (\<lambda>p. length (op_value p)) ps)"
    "length rs' = length rs0 + length (filter (\<lambda>p. map_of rs (op_key p) = None) ps)"
    using Cons.IH [OF rec d0] Cons.prems(3) by (simp_all only: same distinct.simps list.map)
  moreover have "alist_size stored_size rs0 + (case map_of rs (op_key p) of None \<Rightarrow> 0 | Some u \<Rightarrow> stored_size u)
      = alist_size stored_size rs + stored_size r"
    "length rs0 = length rs + (if map_of rs (op_key p) = None then 1 else 0)"
    unfolding rs0_def by (rule alist_size_update [OF Cons.prems(2)] length_alist_update [OF Cons.prems(2)])+
  ultimately show ?case
    by (cases "map_of rs (op_key p)") simp_all
qed

lemma apply_deletes_spec:
  assumes "apply_deletes g rs ds = (g', rs', out)" "distinct (map fst rs)" "distinct (map op_key ds)"
  shows "distinct (map fst rs')"
    "map_of rs' k = (if k \<in> op_key ` set ds then None else map_of rs k)"
    "out = filter (\<lambda>k. map_of rs k \<noteq> None) (map op_key ds)"
    "g' = g + length out"
    "alist_size stored_size rs' + sum_list (map (\<lambda>d. case map_of rs (op_key d) of None \<Rightarrow> 0 | Some r \<Rightarrow> stored_size r) ds)
       = alist_size stored_size rs"
    "length rs' + length out = length rs"
  using assms
proof (induction ds arbitrary: g rs g' rs' out)
  case Nil
  { case 1 then show ?case by simp next case 2 then show ?case by simp next case 3 then show ?case by simp
  next case 4 then show ?case by simp next case 5 then show ?case by simp next case 6 then show ?case by simp }
next
  case (Cons d ds)
  have main: "distinct (map fst rs') \<and> map_of rs' k = (if k \<in> op_key ` set (d # ds) then None else map_of rs k)
      \<and> out = filter (\<lambda>k. map_of rs k \<noteq> None) (map op_key (d # ds)) \<and> g' = g + length out
      \<and> alist_size stored_size rs' + sum_list (map (\<lambda>d. case map_of rs (op_key d) of None \<Rightarrow> 0 | Some r \<Rightarrow> stored_size r) (d # ds))
         = alist_size stored_size rs \<and> length rs' + length out = length rs"
    if p: "apply_deletes g rs (d # ds) = (g', rs', out)" "distinct (map fst rs)" "distinct (map op_key (d # ds))"
    for g rs g' rs' out
  proof (cases "map_of rs (op_key d)")
    case None
    then have rec: "apply_deletes g rs ds = (g', rs', out)" using p(1) by simp
    from Cons.IH [OF rec p(2)] p(3) None show ?thesis by auto
  next
    case (Some r)
    define rs0 where "rs0 = AList.delete (op_key d) rs"
    obtain out1 where rec: "apply_deletes (g + 1) rs0 ds = (g', rs', out1)" and out: "out = op_key d # out1"
      using p(1) Some by (auto simp: rs0_def Let_def split: prod.splits)
    have d0: "distinct (map fst rs0)" using p(2) by (simp add: rs0_def)
    have ds: "distinct (map op_key ds)" using p(3) by simp
    have notin: "op_key d \<notin> op_key ` set ds" using p(3) by simp
    have ne: "op_key e \<noteq> op_key d" "op_key d \<noteq> op_key e" if "e \<in> set ds" for e
      using notin that by (metis imageI)+
    have same: "map (\<lambda>d. case map_of rs0 (op_key d) of None \<Rightarrow> 0 | Some r \<Rightarrow> stored_size r) ds
        = map (\<lambda>d. case map_of rs (op_key d) of None \<Rightarrow> 0 | Some r \<Rightarrow> stored_size r) ds"
      "filter (\<lambda>k. map_of rs0 k \<noteq> None) (map op_key ds) = filter (\<lambda>k. map_of rs k \<noteq> None) (map op_key ds)"
      by (auto simp: rs0_def ne intro!: filter_cong)
    note ih = Cons.IH [OF rec d0 ds, unfolded same]
    have k: "map_of rs0 k = (if k = op_key d then None else map_of rs k)" by (simp add: rs0_def)
    have sz: "alist_size stored_size rs0 + stored_size r = alist_size stored_size rs" "length rs0 + 1 = length rs"
      using alist_size_delete [OF p(2), of stored_size "op_key d"] length_alist_delete [OF p(2), of "op_key d"] Some
      by (simp_all add: rs0_def)
    have o: "out = filter (\<lambda>k. map_of rs k \<noteq> None) (map op_key (d # ds))" using ih(3) out Some by simp
    show ?thesis
    proof (intro conjI)
      show "map_of rs' k = (if k \<in> op_key ` set (d # ds) then None else map_of rs k)" using ih(2) k by (cases "k = op_key d") simp_all
      show "alist_size stored_size rs' + sum_list (map (\<lambda>d. case map_of rs (op_key d) of None \<Rightarrow> 0 | Some r \<Rightarrow> stored_size r) (d # ds))
         = alist_size stored_size rs" using ih(5) sz(1) Some by simp
      show "out = filter (\<lambda>k. map_of rs k \<noteq> None) (map op_key (d # ds))" by (rule o)
      show "g' = g + length out" unfolding out using ih(4) by simp
      show "length rs' + length out = length rs" unfolding out using ih(6) sz(2) by simp
    qed (rule ih(1))
  qed
  { case 1 from main [OF 1] show ?case by (elim conjE) next case 2 from main [OF 2] show ?case by (elim conjE)
  next case 3 from main [OF 3] show ?case by (elim conjE) next case 4 from main [OF 4] show ?case by (elim conjE)
  next case 5 from main [OF 5] show ?case by (elim conjE) next case 6 from main [OF 6] show ?case by (elim conjE) }
qed

section \<open>Plans and their draft\<close>

lemma canonical_now_Inr: "canonical_now c = Inr u \<longleftrightarrow> (\<exists>t. ca_now c = Some t \<and> u = to_iso t)"
  by (auto simp: canonical_now_def split: option.splits)

definition tx_keys_ok :: "limits \<Rightarrow> tx_normal \<Rightarrow> bool" where
  "tx_keys_ok l n \<longleftrightarrow>
     distinct (map op_key (tn_checks n) @ map op_key (tn_puts n) @ map op_key (tn_deletes n))
     \<and> (\<forall>p \<in> set (tn_puts n). length (op_value p) \<le> li_record_bytes l)"

lemma normalize_puts_bytes:
  "normalize_puts v m t b ps = Inr out \<Longrightarrow> \<forall>p \<in> set out. length (op_value p) \<le> m"
proof (induction ps arbitrary: b out)
  case Nil
  then show ?case by simp
next
  case (Cons p ps)
  then show ?case
    by (auto elim!: rbind_InrE simp: Let_def clone_transaction_bytes_def split: js.splits if_splits prod.splits)
qed

lemma normalize_transaction_keys: "normalize_transaction l v q = Inr n \<Longrightarrow> tx_keys_ok l n"
  unfolding normalize_transaction_def Let_def
  by (elim rbind_InrE, simp only: require_Inr sum.inject, hypsubst, simp only: tx_keys_ok_def tx_normal.simps, intro conjI)
    (rule TrueI | assumption | erule normalize_puts_bytes)+

text \<open>What a transaction does to the records: the puts with fresh versions, then the deletes.\<close>

definition tx_effect :: "string \<Rightarrow> nat \<Rightarrow> tx_normal \<Rightarrow> (string \<rightharpoonup> stored) \<Rightarrow> (string \<rightharpoonup> stored) \<Rightarrow> bool" where
  "tx_effect u g n f f' \<longleftrightarrow>
     (\<forall>i < length (tn_puts n). f' (op_key (tn_puts n ! i)) = Some (put_record u (g + i + 1) (tn_puts n ! i)))
     \<and> (\<forall>k \<in> op_key ` set (tn_deletes n). f' k = None)
     \<and> (\<forall>k. k \<notin> op_key ` set (tn_puts n) \<longrightarrow> k \<notin> op_key ` set (tn_deletes n) \<longrightarrow> f' k = f k)"

definition expectations_met :: "snapshot \<Rightarrow> tx_normal \<Rightarrow> bool" where
  "expectations_met s n \<longleftrightarrow> (\<forall>(k, ev) \<in> set (tx_expectations n). version_at s k = ev)"

lemma no_conflicts: "tx_conflicts s n = [] \<longleftrightarrow> expectations_met s n"
  by (auto simp: tx_conflicts_def expectations_met_def filter_empty_conv)

lemma deleted_sizes:
  "sum_list (map (\<lambda>r. length (sv_value r)) (tx_deleted s n)) = sum_list (map (\<lambda>d. size_at s (op_key d)) (tn_deletes n))"
  "length (tx_deleted s n) = length (filter (\<lambda>k. lookup s k \<noteq> None) (map op_key (tn_deletes n)))"
proof -
  have "sum_list (map (\<lambda>r. length (sv_value r)) (List.map_filter (\<lambda>d. lookup s (op_key d)) ds))
      = sum_list (map (\<lambda>d. size_at s (op_key d)) ds)"
    "length (List.map_filter (\<lambda>d. lookup s (op_key d)) ds)
      = length (filter (\<lambda>k. lookup s k \<noteq> None) (map op_key ds))" for ds :: "tx_op list"
    unfolding size_at_def by (induction ds) (auto simp: List.map_filter_simps split: option.splits)
  then show "sum_list (map (\<lambda>r. length (sv_value r)) (tx_deleted s n)) = sum_list (map (\<lambda>d. size_at s (op_key d)) (tn_deletes n))"
    "length (tx_deleted s n) = length (filter (\<lambda>k. lookup s k \<noteq> None) (map op_key (tn_deletes n)))"
    by (simp_all add: tx_deleted_def)
qed

lemma size_at_alt: "size_at s k = (case map_of (sn_records s) k of None \<Rightarrow> 0 | Some r \<Rightarrow> stored_size r)"
  by (simp add: size_at_def lookup_def stored_size_def split: option.splits)


text \<open>The commit of a transaction, taken apart once: everything the draft is made of.\<close>

definition draft_of :: "string \<Rightarrow> snapshot \<Rightarrow> tx_normal \<Rightarrow> snapshot \<Rightarrow> tx_result \<Rightarrow> bool" where
  "draft_of u s n d a \<longleftrightarrow>
     (\<exists>g1 rs1 applied g2 rs2 keys.
        apply_puts u (sn_generation s) (sn_records s) (tn_puts n) = (g1, rs1, applied)
        \<and> apply_deletes g1 rs1 (tn_deletes n) = (g2, rs2, keys)
        \<and> sn_generation d = g2 \<and> sn_records d = rs2 \<and> a = TxApplied applied keys)"

definition draft_bounds :: "limits \<Rightarrow> snapshot \<Rightarrow> tx_normal \<Rightarrow> snapshot \<Rightarrow> bool" where
  "draft_bounds l s n d \<longleftrightarrow>
     length (tn_puts n) + length (tx_deleted s n) \<noteq> 0
     \<and> int (sn_generation s) \<le> max_safe_integer - int (length (tn_puts n) + length (tx_deleted s n))
     \<and> length (sn_records s) + length (filter (\<lambda>p. lookup s (op_key p) = None) (tn_puts n)) - length (tx_deleted s n) \<le> li_records l
     \<and> sn_total d = sn_total s + sum_list (map (\<lambda>p. length (op_value p)) (tn_puts n))
          - (sum_list (map (\<lambda>p. size_at s (op_key p)) (tn_puts n)) + sum_list (map (\<lambda>r. length (sv_value r)) (tx_deleted s n)))
     \<and> sn_total d \<le> li_total_bytes l
     \<and> sn_list_generation d \<le> sn_list_generation s + 1"

lemma next_list_generation_le:
  "(if b then next_list_generation s else Inr (sn_list_generation s)) = Inr g \<Longrightarrow> g \<le> sn_list_generation s + 1"
  by (auto simp: next_list_generation_def split: if_splits)

lemma plan_transaction_Draft:
  assumes "plan_transaction l c b n s = Inr (Draft d a)"
  shows "expectations_met s n" "\<exists>u. canonical_now c = Inr u \<and> draft_of u s n d a" "draft_bounds l s n d"
proof -
  obtain g1 rs1 applied u where ap: "canonical_now c = Inr u"
      "apply_puts u (sn_generation s) (sn_records s) (tn_puts n) = (g1, rs1, applied)"
    using assms unfolding plan_transaction_def Let_def
    by (auto elim!: rbind_InrE split: if_splits prod.splits)
  obtain g2 rs2 keys where ad: "apply_deletes g1 rs1 (tn_deletes n) = (g2, rs2, keys)"
    by (metis prod_cases3)
  show "expectations_met s n"
    using assms unfolding plan_transaction_def no_conflicts [symmetric] by (auto split: if_splits)
  obtain lg where lg: "(if b then next_list_generation s else Inr (sn_list_generation s)) = Inr lg"
    and d: "d = \<lparr>sn_generation = g2, sn_list_generation = lg, sn_records = rs2,
      sn_total = sn_total s + sum_list (map (\<lambda>p. length (op_value p)) (tn_puts n))
          - (sum_list (map (\<lambda>p. size_at s (op_key p)) (tn_puts n)) + sum_list (map (\<lambda>r. length (sv_value r)) (tx_deleted s n)))\<rparr>"
    and a: "a = TxApplied applied keys"
    using assms ap ad unfolding plan_transaction_def Let_def
    by (auto elim!: rbind_InrE split: if_splits)
  show "\<exists>u. canonical_now c = Inr u \<and> draft_of u s n d a"
    using ap ad d a unfolding draft_of_def by auto
  have "length (tn_puts n) + length (tx_deleted s n) \<noteq> 0"
    "int (sn_generation s) \<le> max_safe_integer - int (length (tn_puts n) + length (tx_deleted s n))"
    "length (sn_records s) + length (filter (\<lambda>p. lookup s (op_key p) = None) (tn_puts n)) - length (tx_deleted s n) \<le> li_records l"
    "sn_total d \<le> li_total_bytes l"
    using assms d unfolding plan_transaction_def Let_def
    by (auto elim!: rbind_InrE split: if_splits prod.splits)
  then show "draft_bounds l s n d"
    using next_list_generation_le [OF lg] unfolding draft_bounds_def d by simp
qed


lemma apply_puts_present:
  "apply_puts u g rs ps = (g', rs', out) \<Longrightarrow> map_of rs' k \<noteq> None \<longleftrightarrow> map_of rs k \<noteq> None \<or> k \<in> op_key ` set ps"
  by (induction ps arbitrary: g rs g' rs' out) (auto simp: Let_def split: prod.splits)

definition put_answers :: "string \<Rightarrow> nat \<Rightarrow> put_op list \<Rightarrow> state_record list" where
  "put_answers u g ps = map (\<lambda>i. to_state_record (op_key (ps ! i)) (put_record u (g + i + 1) (ps ! i))) [0..<length ps]"

definition deleted_keys :: "snapshot \<Rightarrow> tx_normal \<Rightarrow> string list" where
  "deleted_keys s n = filter (\<lambda>k. lookup s k \<noteq> None) (map op_key (tn_deletes n))"

lemma draft_spec:
  assumes wf: "snapshot_wf l s" and ok: "tx_keys_ok l n" and dr: "draft_of u s n d a"
  shows "tx_effect u (sn_generation s) n (lookup s) (lookup d)"
    "distinct (map fst (sn_records d))"
    "sn_generation d = sn_generation s + length (tn_puts n) + length (deleted_keys s n)"
    "alist_size stored_size (sn_records d) + sum_list (map (\<lambda>p. size_at s (op_key p)) (tn_puts n))
        + sum_list (map (\<lambda>d. size_at s (op_key d)) (tn_deletes n))
      = alist_size stored_size (sn_records s) + sum_list (map (\<lambda>p. length (op_value p)) (tn_puts n))"
    "length (sn_records d) + length (deleted_keys s n)
      = length (sn_records s) + length (filter (\<lambda>p. lookup s (op_key p) = None) (tn_puts n))"
    "a = TxApplied (put_answers u (sn_generation s) (tn_puts n)) (deleted_keys s n)"
proof -
  obtain g1 rs1 applied keys where
    ap: "apply_puts u (sn_generation s) (sn_records s) (tn_puts n) = (g1, rs1, applied)"
    and ad: "apply_deletes g1 rs1 (tn_deletes n) = (sn_generation d, sn_records d, keys)"
    and a: "a = TxApplied applied keys"
    using dr by (auto simp: draft_of_def)
  have d0: "distinct (map fst (sn_records s))" using wf by (simp add: snapshot_wf_def)
  have dp: "distinct (map op_key (tn_puts n))" and dd: "distinct (map op_key (tn_deletes n))"
    and disj: "\<And>k. k \<in> op_key ` set (tn_puts n) \<Longrightarrow> k \<notin> op_key ` set (tn_deletes n)"
    using ok by (auto simp: tx_keys_ok_def)
  note gen = apply_puts_generation [OF ap]
  note sp = apply_deletes_spec [OF ad apply_puts_distinct [OF ap d0] dd]
  have same: "map_of rs1 (op_key e) = lookup s (op_key e)" if "e \<in> set (tn_deletes n)" for e
    using that disj apply_puts_other [OF ap, of "op_key e"] unfolding lookup_def by (metis imageI)
  then have keys: "keys = deleted_keys s n"
    unfolding sp(3) deleted_keys_def by (intro filter_cong) auto
  show "tx_effect u (sn_generation s) n (lookup s) (lookup d)"
    unfolding tx_effect_def
  proof (intro conjI allI impI ballI)
    fix i assume i: "i < length (tn_puts n)"
    have "op_key (tn_puts n ! i) \<notin> op_key ` set (tn_deletes n)" using i disj by simp
    then show "lookup d (op_key (tn_puts n ! i)) = Some (put_record u (sn_generation s + i + 1) (tn_puts n ! i))"
      using apply_puts_nth [OF ap dp i] by (simp add: lookup_def sp(2))
  next
    fix k assume "k \<in> op_key ` set (tn_deletes n)"
    then show "lookup d k = None" by (simp add: lookup_def sp(2))
  next
    fix k assume "k \<notin> op_key ` set (tn_puts n)" "k \<notin> op_key ` set (tn_deletes n)"
    then show "lookup d k = lookup s k" using apply_puts_other [OF ap] by (simp add: lookup_def sp(2))
  qed
  show "distinct (map fst (sn_records d))" by (rule sp(1))
  show "sn_generation d = sn_generation s + length (tn_puts n) + length (deleted_keys s n)"
    using sp(4) gen keys by simp
  have "map (\<lambda>d. case map_of rs1 (op_key d) of None \<Rightarrow> 0 | Some r \<Rightarrow> stored_size r) (tn_deletes n)
      = map (\<lambda>d. size_at s (op_key d)) (tn_deletes n)"
    unfolding size_at_alt using same by (intro map_cong) (simp_all add: lookup_def)
  then show "alist_size stored_size (sn_records d) + sum_list (map (\<lambda>p. size_at s (op_key p)) (tn_puts n))
        + sum_list (map (\<lambda>d. size_at s (op_key d)) (tn_deletes n))
      = alist_size stored_size (sn_records s) + sum_list (map (\<lambda>p. length (op_value p)) (tn_puts n))"
    using sp(5) conjunct1 [OF apply_puts_size [OF ap d0 dp], folded size_at_alt] by (simp only:)
  show "length (sn_records d) + length (deleted_keys s n)
      = length (sn_records s) + length (filter (\<lambda>p. lookup s (op_key p) = None) (tn_puts n))"
    using sp(6) apply_puts_size [OF ap d0 dp] keys by (simp add: lookup_def)
  have "applied = put_answers u (sn_generation s) (tn_puts n)"
    unfolding put_answers_def using gen apply_puts_nth [OF ap dp] by (intro nth_equalityI) auto
  then show "a = TxApplied (put_answers u (sn_generation s) (tn_puts n)) (deleted_keys s n)"
    using a keys by simp
qed

lemma tx_effect_cases:
  assumes "tx_effect u g n f f'" "f' k = Some r"
  obtains (old) "k \<notin> op_key ` set (tn_puts n)" "f k = Some r"
    | (fresh) i where "i < length (tn_puts n)" "k = op_key (tn_puts n ! i)" "r = put_record u (g + i + 1) (tn_puts n ! i)"
proof (cases "k \<in> op_key ` set (tn_puts n)")
  case True
  then obtain i where i: "i < length (tn_puts n)" "k = op_key (tn_puts n ! i)"
    by (auto simp: in_set_conv_nth)
  with assms show ?thesis by (intro fresh [of i]) (auto simp: tx_effect_def)
next
  case False
  have "k \<notin> op_key ` set (tn_deletes n)" using assms by (auto simp: tx_effect_def)
  then show ?thesis using assms False by (intro old) (auto simp: tx_effect_def)
qed


text \<open>The snapshot invariant is kept by a committed transaction.\<close>

lemma tx_versions:
  assumes wf: "versions_ok s" and ok: "tx_keys_ok l n" and eff: "tx_effect u (sn_generation s) n (lookup s) (lookup d)"
    and gen: "sn_generation s + length (tn_puts n) \<le> sn_generation d"
  shows "versions_ok d"
  unfolding versions_ok_def
proof (intro conjI allI impI)
  have ver: "\<exists>m. sv_version r = version_text m \<and> m \<le> sn_generation d
      \<and> (1 \<le> m \<and> m \<le> sn_generation s \<and> lookup s k = Some r
         \<or> (\<exists>i < length (tn_puts n). m = sn_generation s + i + 1 \<and> k = op_key (tn_puts n ! i)))"
    if "lookup d k = Some r" for k r
    using eff that
  proof (cases rule: tx_effect_cases)
    case old
    with wf obtain m where "sv_version r = version_text m" "1 \<le> m" "m \<le> sn_generation s"
      unfolding versions_ok_def by metis
    with old gen show ?thesis by auto
  next
    case (fresh i)
    then show ?thesis using gen by (auto simp: put_record_def)
  qed
  fix k r assume "lookup d k = Some r"
  from ver [OF this] show "\<exists>n. sv_version r = version_text n \<and> 1 \<le> n \<and> n \<le> sn_generation d" by auto
  fix k' r' assume r: "lookup d k = Some r" "lookup d k' = Some r'" "sv_version r = sv_version r'"
  from ver [OF r(1)] ver [OF r(2)] r(3) show "k = k'"
    using wf unfolding versions_ok_def by auto
qed

lemma draft_wf:
  assumes wf: "snapshot_wf l s" and ok: "tx_keys_ok l n" and dr: "draft_of u s n d a" and b: "draft_bounds l s n d"
  shows "snapshot_wf l d"
proof -
  note sp = draft_spec [OF wf ok dr]
  have del: "length (tx_deleted s n) = length (deleted_keys s n)"
    by (simp add: deleted_sizes(2) deleted_keys_def)
  have tot: "sn_total d = alist_size stored_size (sn_records d)"
    using b wf sp(4) unfolding draft_bounds_def snapshot_wf_def deleted_sizes(1) by linarith
  have cnt: "length (sn_records d) \<le> li_records l"
    using b sp(5) del unfolding draft_bounds_def by linarith
  have gen: "int (sn_generation d) \<le> max_safe_integer" "sn_list_generation d \<le> sn_generation d"
    using b sp(3) del wf unfolding draft_bounds_def snapshot_wf_def by linarith+
  have ver: "versions_ok d"
    by (rule tx_versions [OF _ ok sp(1)]) (use wf sp(3) in \<open>simp_all add: snapshot_wf_def\<close>)
  have siz: "stored_size r \<le> li_record_bytes l" if "lookup d k = Some r" for k r
    using sp(1) that
  proof (cases rule: tx_effect_cases)
    case old
    then show ?thesis using wf by (auto simp: snapshot_wf_def)
  next
    case (fresh i)
    then show ?thesis using ok by (simp add: tx_keys_ok_def put_record_def stored_size_def)
  qed
  have total: "sn_total d \<le> li_total_bytes l" using b by (simp add: draft_bounds_def)
  show ?thesis
    unfolding snapshot_wf_def using sp(2) ver tot total cnt siz gen by blast
qed

lemma draft_evolves:
  assumes wf: "snapshot_wf l s" and ok: "tx_keys_ok l n" and dr: "draft_of u s n d a"
  shows "evolves s d"
  unfolding evolves_def
proof (intro conjI allI impI)
  note sp = draft_spec [OF wf ok dr]
  show "sn_generation s \<le> sn_generation d" using sp(3) by simp
  fix k r assume k: "lookup d k = Some r"
  show "lookup s k = Some r \<or> fresh_between (sn_generation s) (sn_generation d) r"
    using sp(1) k
  proof (cases rule: tx_effect_cases)
    case (fresh i)
    then show ?thesis using sp(3) by (auto simp: fresh_between_def put_record_def)
  qed simp
qed


section \<open>The operations keep the invariant\<close>

lemma guarded_cases:
  assumes "guarded c body st = (r, st')"
  obtains (stopped) e where "r = Inl e" "st_snap st' = st_snap st"
    | (ran) "body st = (r, st')"
  using assms
  by (auto simp: guarded_def run_exclusive_def guard_paths_def split: if_splits option.splits)

lemma run_plan_cases:
  assumes "run_plan l c p st = (r, st')"
  obtains (failed) e where "r = Inl e" "st_snap st' = st_snap st"
    | (answered) a where "p = Inr (Answer a)" "r = Inr a" "st' = st"
    | (committed) d a where "p = Inr (Draft d a)" "r = Inr a" "st' = st\<lparr>st_snap := d\<rparr>"
  using assms
  by (auto simp: run_plan_def commit_def split: sum.splits plan.splits commit_outcome.splits prod.splits)

lemma guarded_plan_cases:
  assumes "guarded c (\<lambda>st. run_plan l c (p st) st) st = (r, st')"
  obtains (failed) e where "r = Inl e" "st_snap st' = st_snap st"
    | (answered) a where "p st = Inr (Answer a)" "r = Inr a" "st' = st"
    | (committed) d a where "p st = Inr (Draft d a)" "r = Inr a" "st' = st\<lparr>st_snap := d\<rparr>"
  using assms
proof (cases rule: guarded_cases)
  case (stopped e)
  then show ?thesis by (rule failed)
next
  case ran
  then show ?thesis by (cases rule: run_plan_cases) (erule failed answered committed; assumption)+
qed

text \<open>\<open>kept l s s'\<close>: the snapshot after an operation is well formed and an evolution of the one before.\<close>

definition kept :: "limits \<Rightarrow> snapshot \<Rightarrow> snapshot \<Rightarrow> bool" where
  "kept l s s' \<longleftrightarrow> (snapshot_wf l s \<longrightarrow> snapshot_wf l s') \<and> (snapshot_wf l s \<longrightarrow> evolves s s')"

lemma kept_refl [simp]: "kept l s s"
  by (simp add: kept_def)

lemma guarded_plan_kept:
  assumes "guarded c (\<lambda>st. run_plan l c (p st) st) st = (r, st')"
    and "\<And>d a. p st = Inr (Draft d a) \<Longrightarrow> kept l (st_snap st) d"
  shows "kept l (st_snap st) (st_snap st')"
  using assms(1) by (rule guarded_plan_cases) (use assms(2) in auto)

lemma put_draft_Inr:
  assumes "put_draft l c s k v = Inr (d, r)"
  obtains u where "r = \<lparr>sv_value = v, sv_version = version_text (sn_generation s + 1), sv_updated = u\<rparr>"
    "sn_records d = AList.update k r (sn_records s)" "sn_generation d = sn_generation s + 1"
    "sn_list_generation d = sn_list_generation s + 1" "sn_total d = sn_total s + length v - size_at s k"
    "sn_total d \<le> li_total_bytes l" "lookup s k = None \<longrightarrow> length (sn_records s) < li_records l"
    "int (sn_generation s) < max_safe_integer"
  using assms unfolding put_draft_def Let_def next_version_def next_list_generation_def
  by (auto elim!: rbind_InrE split: if_splits)

lemma put_draft_kept:
  assumes "put_draft l c s k v = Inr (d, r)" "length v \<le> li_record_bytes l"
  shows "kept l s d"
proof -
  obtain u where r: "r = \<lparr>sv_value = v, sv_version = version_text (sn_generation s + 1), sv_updated = u\<rparr>"
    and recs: "sn_records d = AList.update k r (sn_records s)" and gen: "sn_generation d = sn_generation s + 1"
    and lgen: "sn_list_generation d = sn_list_generation s + 1" and tot: "sn_total d = sn_total s + length v - size_at s k"
    and lim: "sn_total d \<le> li_total_bytes l" "lookup s k = None \<longrightarrow> length (sn_records s) < li_records l"
      "int (sn_generation s) < max_safe_integer"
    using assms(1) by (rule put_draft_Inr)
  have look: "lookup d j = (if j = k then Some r else lookup s j)" for j by (simp add: lookup_def recs)
  have rv: "sv_version r = version_text (sn_generation s + 1)" "stored_size r = length v"
    by (simp_all add: r stored_size_def)
  show ?thesis
    unfolding kept_def
  proof (intro conjI impI)
    assume wf: "snapshot_wf l s"
    have dis: "distinct (map fst (sn_records s))" and vs: "versions_ok s" using wf by (simp_all add: snapshot_wf_def)
    have "versions_ok d"
      unfolding versions_ok_def
    proof (intro conjI allI impI)
      have ver: "\<exists>m. sv_version q = version_text m \<and> 1 \<le> m \<and> (if j = k then m = sn_generation s + 1 else m \<le> sn_generation s \<and> lookup s j = Some q)"
        if "lookup d j = Some q" for j q
        using that vs rv unfolding look versions_ok_def by (cases "j = k") auto
      fix j q assume "lookup d j = Some q"
      from ver [OF this] show "\<exists>n. sv_version q = version_text n \<and> 1 \<le> n \<and> n \<le> sn_generation d"
        by (auto simp: gen split: if_splits)
      fix j' q' assume q: "lookup d j = Some q" "lookup d j' = Some q'" "sv_version q = sv_version q'"
      from ver [OF q(1)] ver [OF q(2)] q(3) vs show "j = j'"
        unfolding versions_ok_def by (auto split: if_splits)
    qed
    moreover have "alist_size stored_size (sn_records d) + size_at s k = alist_size stored_size (sn_records s) + length v"
      using alist_size_update [OF dis, of stored_size k r] by (simp add: recs size_at_alt rv)
    moreover have "length (sn_records d) \<le> li_records l"
    proof -
      have "length (sn_records s) \<le> li_records l" using wf by (simp add: snapshot_wf_def)
      then show ?thesis
        unfolding recs length_alist_update [OF dis, of k r] using lim(2)
        by (cases "lookup s k") (auto simp: lookup_def)
    qed
    moreover have "distinct (map fst (sn_records d))" using dis by (simp add: recs)
    moreover have "stored_size q \<le> li_record_bytes l" if "lookup d j = Some q" for j q
      using that wf assms(2) rv by (auto simp: look snapshot_wf_def split: if_splits)
    ultimately show "snapshot_wf l d"
      using wf lim gen lgen tot unfolding snapshot_wf_def by auto
    show "evolves s d"
      using rv by (auto simp: evolves_def gen look fresh_between_def)
  qed
qed

lemma delete_kept:
  assumes "lookup s k \<noteq> None" "int (sn_generation s) < max_safe_integer"
    "d = \<lparr>sn_generation = sn_generation s + 1, sn_list_generation = sn_list_generation s + 1,
          sn_records = AList.delete k (sn_records s), sn_total = sn_total s - size_at s k\<rparr>"
  shows "kept l s d"
  unfolding kept_def
proof (intro conjI impI)
  assume wf: "snapshot_wf l s"
  have dis: "distinct (map fst (sn_records s))" using wf by (simp add: snapshot_wf_def)
  have look: "lookup d j = (if j = k then None else lookup s j)" for j by (simp add: lookup_def assms(3))
  have "alist_size stored_size (sn_records d) + size_at s k = alist_size stored_size (sn_records s)"
    using alist_size_delete [OF dis, of stored_size k] by (simp add: assms(3) size_at_alt)
  moreover have "length (sn_records d) \<le> length (sn_records s)"
    using length_alist_delete [OF dis, of k] by (simp add: assms(3) split: if_splits)
  moreover have "versions_ok d"
    using wf unfolding snapshot_wf_def versions_ok_def look by (fastforce simp: assms(3) split: if_splits)
  ultimately show "snapshot_wf l d"
    using wf dis assms(2) unfolding snapshot_wf_def look by (auto simp: assms(3) split: if_splits)
  have "sn_generation s \<le> sn_generation d" by (simp add: assms(3))
  then show "evolves s d" by (simp add: evolves_def look)
qed


text \<open>What a transaction answers, whatever the call meets: an error or a conflict changes no record;
  an applied transaction found every expectation met and has exactly its effect.\<close>

definition tx_answer_ok ::
  "limits \<Rightarrow> (js \<Rightarrow> string result) \<Rightarrow> tx_request \<Rightarrow> snapshot \<Rightarrow> tx_result result \<Rightarrow> snapshot \<Rightarrow> bool" where
  "tx_answer_ok l validator q s r s' \<longleftrightarrow>
     (case r of
        Inl _ \<Rightarrow> s' = s
      | Inr (TxConflict cs) \<Rightarrow> s' = s \<and> cs \<noteq> [] \<and>
          (\<exists>n. normalize_transaction l validator q = Inr n \<and> \<not> expectations_met s n
             \<and> (\<forall>(k, v) \<in> set cs. v = version_at s k \<and> (k, v) \<notin> set (tx_expectations n)))
      | Inr (TxApplied applied removed) \<Rightarrow>
          (\<exists>n u. normalize_transaction l validator q = Inr n \<and> expectations_met s n
             \<and> tx_effect u (sn_generation s) n (lookup s) (lookup s')
             \<and> applied = put_answers u (sn_generation s) (tn_puts n) \<and> removed = deleted_keys s n))"

lemma tx_conflicts_spec:
  assumes "tx_keys_ok l n" "(k, v) \<in> set (tx_conflicts s n)"
  shows "v = version_at s k \<and> (k, v) \<notin> set (tx_expectations n)"
proof -
  have dis: "distinct (map fst (tx_expectations n))"
    using assms(1) by (simp add: tx_keys_ok_def tx_expectations_def comp_def)
  obtain ev where ev: "(k, ev) \<in> set (tx_expectations n)" "version_at s k \<noteq> ev" "v = version_at s k"
    using assms(2) by (auto simp: tx_conflicts_def)
  with dis show ?thesis by (metis eq_key_imp_eq_value)
qed

lemma no_mutation_effect:
  assumes "length (tn_puts n) + length (tx_deleted s n) = 0"
  shows "tx_effect u g n (lookup s) (lookup s)" "put_answers u g (tn_puts n) = []" "deleted_keys s n = []"
proof -
  have "tn_puts n = []" "deleted_keys s n = []"
    using assms unfolding deleted_keys_def deleted_sizes(2) by (simp_all only: add_is_0 length_0_conv)
  then show "tx_effect u g n (lookup s) (lookup s)" "put_answers u g (tn_puts n) = []" "deleted_keys s n = []"
    by (auto simp: tx_effect_def put_answers_def deleted_keys_def filter_empty_conv)
qed

lemma transaction_answer:
  assumes run: "transaction_with_validator l c validator b q st = (r, st')" and wf: "snapshot_wf l (st_snap st)"
  shows "tx_answer_ok l validator q (st_snap st) r (st_snap st')"
proof (cases "normalize_transaction l validator q")
  case (Inl e)
  with run show ?thesis by (auto simp: transaction_with_validator_def tx_answer_ok_def)
next
  case (Inr n)
  note ok = normalize_transaction_keys [OF Inr]
  have "guarded c (\<lambda>st. run_plan l c (plan_transaction l c b n (st_snap st)) st) st = (r, st')"
    using run Inr by (simp add: transaction_with_validator_def)
  then show ?thesis
  proof (cases rule: guarded_plan_cases)
    case (failed e)
    then show ?thesis by (simp add: tx_answer_ok_def)
  next
    case (committed d a)
    note pl = plan_transaction_Draft [OF committed(1)]
    obtain u where u: "draft_of u (st_snap st) n d a" using pl(2) by blast
    note sp = draft_spec [OF wf ok u]
    show ?thesis
      using committed Inr pl(1) sp(1,6) unfolding tx_answer_ok_def by auto
  next
    case (answered a)
    show ?thesis
    proof (cases "tx_conflicts (st_snap st) n = []")
      case False
      then have "a = TxConflict (tx_conflicts (st_snap st) n)"
        using answered(1) by (simp add: plan_transaction_def)
      moreover from False have "\<not> expectations_met (st_snap st) n" by (simp add: no_conflicts [symmetric])
      ultimately show ?thesis
        using answered False Inr tx_conflicts_spec [OF ok] unfolding tx_answer_ok_def by auto
    next
      case True
      then have a: "a = TxApplied [] []" and none: "length (tn_puts n) + length (tx_deleted (st_snap st) n) = 0"
        using answered(1) unfolding plan_transaction_def Let_def
        by (auto elim!: rbind_InrE split: if_splits prod.splits)
      from True have "expectations_met (st_snap st) n" by (simp add: no_conflicts [symmetric])
      then show ?thesis
        using answered a Inr no_mutation_effect [OF none] unfolding tx_answer_ok_def by simp
    qed
  qed
qed

lemma transaction_kept:
  assumes run: "transaction_with_validator l c validator b q st = (r, st')"
  shows "kept l (st_snap st) (st_snap st')"
proof (cases "normalize_transaction l validator q")
  case (Inl e)
  with run show ?thesis by (simp add: transaction_with_validator_def)
next
  case (Inr n)
  note ok = normalize_transaction_keys [OF Inr]
  have "guarded c (\<lambda>st. run_plan l c (plan_transaction l c b n (st_snap st)) st) st = (r, st')"
    using run Inr by (simp add: transaction_with_validator_def)
  then show ?thesis
  proof (rule guarded_plan_kept)
    fix d a assume p: "plan_transaction l c b n (st_snap st) = Inr (Draft d a)"
    note pl = plan_transaction_Draft [OF p]
    obtain u where u: "draft_of u (st_snap st) n d a" using pl(2) by blast
    show "kept l (st_snap st) d"
      unfolding kept_def using draft_wf [OF _ ok u pl(3)] draft_evolves [OF _ ok u] by blast
  qed
qed

lemma write_kept: "state_write l c k e v st = (r, st') \<Longrightarrow> kept l (st_snap st) (st_snap st')"
  unfolding state_write_def Let_def
  by (erule guarded_plan_kept) (auto elim!: rbind_InrE simp: put_draft_kept)

lemma cas_kept: "state_compare_and_swap l c k e v st = (r, st') \<Longrightarrow> kept l (st_snap st) (st_snap st')"
  unfolding state_compare_and_swap_def Let_def
  by (erule guarded_plan_kept) (auto elim!: rbind_InrE simp: put_draft_kept split: if_splits)

lemma delete_op_kept: "state_delete l c k e st = (r, st') \<Longrightarrow> kept l (st_snap st) (st_snap st')"
  unfolding state_delete_def Let_def
  by (erule guarded_plan_kept)
    (auto elim!: rbind_InrE simp: next_version_def next_list_generation_def intro!: delete_kept split: if_splits)

end
