(* ===== verification/StoreContract.thy ===== *)
theory StoreContract
  imports StoreLaws
begin

text \<open>
  The store as its clients see it: the steps a sequence of calls can take, the contract
  \<open>versioned_store\<close> those steps satisfy (a version names one value of one record for ever), and
  cursor scans as a way to read every matching record exactly once, in key order.
\<close>

section \<open>Store steps\<close>

text \<open>One call of the store's interface, whatever the call meets, whatever it answers.\<close>

inductive store_step :: "limits \<Rightarrow> store \<Rightarrow> store \<Rightarrow> bool" for l where
  step_transaction: "state_transaction l c q st = (r, st') \<Longrightarrow> store_step l st st'"
| step_transaction_internal: "state_transaction_internal l c q st = (r', st') \<Longrightarrow> store_step l st st'"
| step_write: "state_write l c key expected value st = (r'', st') \<Longrightarrow> store_step l st st'"
| step_cas: "state_compare_and_swap l c key expected value st = (r''', st') \<Longrightarrow> store_step l st st'"
| step_delete: "state_delete l c key expected st = (rb, st') \<Longrightarrow> store_step l st st'"
| step_read: "state_read c key st = (ro, st') \<Longrightarrow> store_step l st st'"
| step_read_internal: "state_read_internal c key st = (ro', st') \<Longrightarrow> store_step l st st'"
| step_list: "state_list c pre cursor limit st = (rp, st') \<Longrightarrow> store_step l st st'"
| step_scan: "state_scan c pre cursor limit st = (rp', st') \<Longrightarrow> store_step l st st'"
| step_scan_internal: "state_scan_internal c pre cursor limit st = (rp'', st') \<Longrightarrow> store_step l st st'"
| step_close: "store_step l st (st\<lparr>st_closed := True\<rparr>)"

lemma guarded_query_snap:
  assumes "guarded c (\<lambda>st. (f st, st)) st = (r, st')"
  shows "st_snap st' = st_snap st"
  using assms by (rule guarded_cases) auto

lemma scan_with_mode_snap:
  "scan_with_mode c pv kv b pre cursor limit st = (r, st') \<Longrightarrow> st_snap st' = st_snap st"
  unfolding scan_with_mode_def by (auto split: sum.splits dest: guarded_query_snap)

lemma store_step_kept: "store_step l st st' \<Longrightarrow> kept l (st_snap st) (st_snap st')"
proof (induction rule: store_step.induct)
  case (step_read c key st ro st')
  then show ?case unfolding state_read_def by (auto dest: guarded_query_snap)
next
  case (step_read_internal c key st ro st')
  then show ?case unfolding state_read_internal_def by (auto dest: guarded_query_snap)
next
  case (step_list c pre cursor limit st rp st')
  then show ?case unfolding state_list_def by (auto dest: guarded_query_snap)
qed (auto simp: state_transaction_def state_transaction_internal_def state_scan_def state_scan_internal_def
      dest: transaction_kept write_kept cas_kept delete_op_kept scan_with_mode_snap)

definition drawn :: "store \<Rightarrow> string \<Rightarrow> bool" where
  "drawn st v \<longleftrightarrow> list_ex (\<lambda>n. v = version_text n) [0..<Suc (sn_generation (st_snap st))]"

lemma drawn_iff: "drawn st v \<longleftrightarrow> (\<exists>n \<le> sn_generation (st_snap st). v = version_text n)"
  by (auto simp: drawn_def list_ex_iff atLeastLessThanSuc_atLeastAtMost simp del: upt_Suc)

definition held :: "store \<Rightarrow> string \<Rightarrow> (string \<times> stored) option" where
  "held st k = map_option (\<lambda>r. (sv_version r, r)) (lookup (st_snap st) k)"

section \<open>The contract of a versioned store\<close>

locale versioned_store =
  fixes inv :: "'s \<Rightarrow> bool" and step :: "'s \<Rightarrow> 's \<Rightarrow> bool"
    and get :: "'s \<Rightarrow> 'k \<Rightarrow> ('v \<times> 'r) option" and used :: "'s \<Rightarrow> 'v \<Rightarrow> bool"
  assumes step_inv: "inv s \<Longrightarrow> step s s' \<Longrightarrow> inv s'"
    and get_used: "inv s \<Longrightarrow> get s k = Some (v, r) \<Longrightarrow> used s v"
    and used_mono: "inv s \<Longrightarrow> step s s' \<Longrightarrow> used s v \<Longrightarrow> used s' v"
    and get_step: "inv s \<Longrightarrow> step s s' \<Longrightarrow> get s' k = Some (v, r) \<Longrightarrow> get s k = Some (v, r) \<or> \<not> used s v"
begin

abbreviation later :: "'s \<Rightarrow> 's \<Rightarrow> bool" where
  "later \<equiv> step\<^sup>*\<^sup>*"

lemma later_inv: "later s s' \<Longrightarrow> inv s \<Longrightarrow> inv s'"
  by (induction rule: rtranclp_induct) (auto dest: step_inv)

lemma later_used: "later s s' \<Longrightarrow> inv s \<Longrightarrow> used s v \<Longrightarrow> used s' v"
  by (induction rule: rtranclp_induct) (auto dest: later_inv used_mono)

lemma get_later:
  assumes "later s s'" "inv s" "get s' k = Some (v, r)"
  shows "get s k = Some (v, r) \<or> \<not> used s v"
  using assms
proof (induction arbitrary: r rule: rtranclp_induct)
  case base
  then show ?case by simp
next
  case (step m s')
  have "inv m" by (rule later_inv [OF step.hyps(1) step.prems(1)])
  from get_step [OF this step.hyps(2) step.prems(2)]
  show ?case
    using step.IH [OF step.prems(1)] later_used [OF step.hyps(1) step.prems(1)] by blast
qed

text \<open>A version pins the record: seen again later, it is the same record.\<close>

lemma version_pins:
  "inv s \<Longrightarrow> later s s' \<Longrightarrow> get s k = Some (v, r) \<Longrightarrow> get s' j = Some (v, r') \<Longrightarrow> get s j = Some (v, r')"
  using get_later get_used by blast

text \<open>No record changes and changes back: with the same version before and after, the record was
  there at every moment between.\<close>

lemma unchanged_between:
  assumes "inv s" "later s m" "later m s'" "get s k = Some (v, r)" "get s' k = Some (v, r')"
  shows "get m k = Some (v, r) \<and> r' = r"
proof -
  have "used m v" using later_used get_used assms by blast
  then have m: "get m k = Some (v, r')" using get_later [OF assms(3) later_inv [OF assms(2,1)] assms(5)] by blast
  then show ?thesis using version_pins [OF assms(1,2,4) m] assms(4) by simp
qed

end

interpretation local_store: versioned_store "store_wf l" "store_step l" held drawn for l
proof
  fix s s' :: store assume "store_wf l s" "store_step l s s'"
  then show "store_wf l s'" using store_step_kept by (auto simp: store_wf_def kept_def)
next
  fix s k v r assume "store_wf l s" "held s k = Some (v, r)"
  then show "drawn s v"
    unfolding store_wf_def snapshot_wf_def versions_ok_def held_def drawn_iff by (metis (no_types, lifting) map_option_eq_Some prod.inject)
next
  fix s s' v assume "store_wf l s" "store_step l s s'" "drawn s v"
  then show "drawn s' v"
    using store_step_kept by (fastforce simp: store_wf_def kept_def evolves_def drawn_iff)
next
  fix s s' k v r assume a: "store_wf l s" "store_step l s s'" "held s' k = Some (v, r)"
  then have "evolves (st_snap s) (st_snap s')" using store_step_kept by (auto simp: store_wf_def kept_def)
  then show "held s k = Some (v, r) \<or> \<not> drawn s v"
    using a(3) by (fastforce simp: evolves_def held_def drawn_iff fresh_between_def)
qed

section \<open>Scans\<close>

lemma matching_sorted:
  assumes "distinct (map fst (sn_records s))"
  shows "sorted_wrt text_less (map fst (matching_records visible pre after s))"
proof -
  let ?xs = "matching_records visible pre after s"
  have "distinct (map fst (filter P (sn_records s)))" for P
    using assms by (rule distinct_map_filter)
  then have dis: "distinct (map fst ?xs)"
    unfolding matching_records_def by (simp add: distinct_map)
  have "sorted (map (\<lambda>kv. text_order (fst kv)) ?xs)" unfolding matching_records_def by (rule sorted_sort_key)
  then have "sorted_wrt (\<lambda>a b. text_order (fst a) \<le> text_order (fst b)) ?xs"
    by (simp add: sorted_map)
  moreover have "sorted_wrt (\<lambda>a b. fst a \<noteq> fst b) ?xs"
    using dis by (induction ?xs) (auto simp: distinct_map sorted_wrt_iff_nth_less distinct_conv_nth)
  ultimately show ?thesis
    by (auto simp: sorted_wrt_map sorted_wrt_iff_nth_less text_less_def le_neq_trans)
qed

lemma matching_mem:
  "kv \<in> set (matching_records visible pre after s) \<longleftrightarrow>
     kv \<in> set (sn_records s) \<and> visible (fst kv) \<and> prefix pre (fst kv)
     \<and> (case after of None \<Rightarrow> True | Some a \<Rightarrow> text_less a (fst kv))"
  by (auto simp: matching_records_def split: option.splits)

lemma filter_after:
  assumes "sorted_wrt R (map fst xs)" "i < length xs" "\<And>a. \<not> R a a" "\<And>a b c. R a b \<Longrightarrow> R b c \<Longrightarrow> R a c"
  shows "filter (\<lambda>kv. R (fst (xs ! i)) (fst kv)) xs = drop (Suc i) xs"
  using assms(1,2)
proof (induction xs arbitrary: i)
  case Nil
  then show ?case by simp
next
  case (Cons x xs)
  show ?case
  proof (cases i)
    case 0
    with Cons.prems assms(3) show ?thesis by (auto intro!: filter_True)
  next
    case (Suc j)
    then have "R (fst x) (fst (xs ! j))" using Cons.prems by simp
    then have "\<not> R (fst (xs ! j)) (fst x)" using assms(3,4) by blast
    with Suc Cons show ?thesis by simp
  qed
qed

text \<open>Resuming a scan after the \<open>i\<close>-th match reads exactly the matches behind it.\<close>

lemma matching_resume:
  assumes "distinct (map fst (sn_records s))" "i < length (matching_records visible pre after s)"
    and "matching_records visible pre after s ! i = kv"
  shows "matching_records visible pre (Some (fst kv)) s = drop (Suc i) (matching_records visible pre after s)"
proof -
  let ?xs = "matching_records visible pre after s"
  have "kv \<in> set ?xs" using assms(2,3) nth_mem by blast
  then have after: "case after of None \<Rightarrow> True | Some a \<Rightarrow> text_less a (fst kv)" by (simp add: matching_mem)
  have "matching_records visible pre (Some (fst kv)) s = filter (\<lambda>x. text_less (fst kv) (fst x)) ?xs"
    unfolding matching_records_def filter_sort filter_filter
    using after by (intro arg_cong [where f = "sort_key _"] filter_cong) (auto split: option.splits intro: text_less_trans)
  also have "\<dots> = drop (Suc i) ?xs"
    using filter_after [OF matching_sorted [OF assms(1)] assms(2)] assms(3) text_less_trans by simp
  finally show ?thesis .
qed


text \<open>Cursors fit their bound when prefix and key have at most 1024 bytes, and they name their key.\<close>

lemma b64_url_length: "3 * length (b64_encode True t) \<le> 4 * length t + 4"
  by (induction "True" t rule: b64_encode.induct) (auto simp: b64_pad_def)

lemma encode_scan_cursor_ok:
  assumes "length p \<le> 1024" "length k \<le> 1024"
  shows "\<exists>c. encode_scan_cursor p k = Inr c"
proof -
  have "length (json_text (JObj (req ''v'' (JNum 1) @ req ''p'' (JStr p) @ req ''k'' (JStr k))))
      = length (json_quote p) + length (json_quote k) + length (json_quote ''v'') + length (json_quote ''p'')
        + length (json_quote ''k'') + length (int_text 1) + 7"
    by (simp add: req_def)
  moreover have "length (json_quote ''v'') = 3" "length (json_quote ''p'') = 3" "length (json_quote ''k'') = 3" "length (int_text 1) = 1"
    by code_simp+
  ultimately have "length (json_text (JObj (req ''v'' (JNum 1) @ req ''p'' (JStr p) @ req ''k'' (JStr k)))) \<le> 12309"
    using json_quote_length [of p] json_quote_length [of k] assms by linarith
  then show ?thesis
    using b64_url_length [of "json_text (JObj (req ''v'' (JNum 1) @ req ''p'' (JStr p) @ req ''k'' (JStr k)))"]
    by (auto simp: encode_scan_cursor_def Let_def state_cursor_max_code_units_def)
qed

lemma decode_encode_scan_cursor:
  assumes "encode_scan_cursor p k = Inr c" "validator (JStr k) = Inr k" "prefix p k"
  shows "decode_scan_cursor (Some c) p validator = Inr (Some k)"
proof -
  let ?fs = "req ''v'' (JNum 1) @ req ''p'' (JStr p) @ req ''k'' (JStr k)"
  have c: "c = b64_encode True (json_text (JObj ?fs))"
    using assms(1) by (simp add: encode_scan_cursor_def Let_def split: if_splits)
  have "json_ok (JObj ?fs)" by (simp add: max_safe_integer_def)
  then have "cursor_json c = Inr (JObj ?fs)"
    unfolding cursor_json_def c b64_roundtrip by (simp only: option.case json_roundtrip)
  moreover have "keys_of ?fs = {''k'', ''p'', ''v''}" by (auto simp: req_def keys_of_def)
  moreover have "fld ?fs ''v'' = JNum 1" "fld ?fs ''p'' = JStr p" "fld ?fs ''k'' = JStr k"
    by (simp_all add: req_def fld_def)
  ultimately show ?thesis
    using assms(2,3) by (simp add: decode_scan_cursor_def cursor_key_def)
qed

text \<open>\<open>scan_rest\<close> follows the cursors of a query on one snapshot, at most \<open>fuel\<close> pages.\<close>

fun scan_rest ::
  "nat \<Rightarrow> (js \<Rightarrow> string result) \<Rightarrow> bool \<Rightarrow> scan_normal \<Rightarrow> snapshot \<Rightarrow> state_record list result" where
  "scan_rest 0 validator internal q s = Inl (StateError STATE_LIMIT_EXCEEDED)"
| "scan_rest (Suc fuel) validator internal q s =
     rbind (scan_page validator internal q s) (\<lambda>pg.
     case pg_cursor pg of
       None \<Rightarrow> Inr (pg_records pg)
     | Some c \<Rightarrow> rbind (scan_rest fuel validator internal (q\<lparr>sc_cursor := Some c\<rparr>) s) (\<lambda>rest. Inr (pg_records pg @ rest)))"

definition scan_visible :: "bool \<Rightarrow> string \<Rightarrow> bool" where
  "scan_visible internal = (if internal then is_execution_state_key else (\<lambda>k. \<not> is_internal_state_key k))"

definition scan_keys_ok :: "(js \<Rightarrow> string result) \<Rightarrow> bool \<Rightarrow> snapshot \<Rightarrow> bool" where
  "scan_keys_ok validator internal s \<longleftrightarrow>
     list_all (\<lambda>kv. scan_visible internal (fst kv) \<longrightarrow> validator (JStr (fst kv)) = Inr (fst kv) \<and> length (fst kv) \<le> 1024) (sn_records s)"

lemma scan_rest_complete:
  assumes dis: "distinct (map fst (sn_records s))" and keys: "scan_keys_ok validator internal s"
    and p: "length (sc_prefix q) \<le> 1024" and n: "1 \<le> sc_limit q"
    and dec: "decode_scan_cursor (sc_cursor q) (sc_prefix q) validator = Inr after"
    and fuel: "length (matching_records (scan_visible internal) (sc_prefix q) after s) < fuel"
  shows "scan_rest fuel validator internal q s
     = Inr (map (\<lambda>(k, r). to_state_record k r) (matching_records (scan_visible internal) (sc_prefix q) after s))"
  using p n dec fuel
proof (induction fuel arbitrary: q after)
  case 0
  then show ?case by simp
next
  case (Suc fuel)
  let ?M = "matching_records (scan_visible internal) (sc_prefix q) after s"
  let ?sel = "take (sc_limit q) ?M"
  show ?case
  proof (cases "length ?sel < length ?M")
    case False
    then have "?sel = ?M" by simp
    with False Suc.prems(3) show ?thesis
      by (simp add: scan_page_def Let_def page_of_def flip: scan_visible_def)
  next
    case True
    then have lt: "sc_limit q < length ?M" by simp
    let ?i = "sc_limit q - 1"
    have i: "?i < length ?M" "Suc ?i = sc_limit q" using lt Suc.prems(2) by auto
    have last: "last ?sel = ?M ! ?i"
      using lt Suc.prems(2) by (subst last_conv_nth) (auto simp: min_def)
    let ?k = "fst (?M ! ?i)"
    have "?M ! ?i \<in> set ?M" using i nth_mem by blast
    then have k: "?M ! ?i \<in> set (sn_records s)" "scan_visible internal ?k" "prefix (sc_prefix q) ?k"
      by (simp_all add: matching_mem)
    then have v: "validator (JStr ?k) = Inr ?k" "length ?k \<le> 1024"
      using keys by (auto simp: scan_keys_ok_def list_all_iff)
    obtain c where c: "encode_scan_cursor (sc_prefix q) ?k = Inr c"
      using encode_scan_cursor_ok [OF Suc.prems(1) v(2)] by blast
    have page: "scan_page validator internal q s = Inr (page_of ?sel (Some c))"
      using Suc.prems(3) True c by (simp add: scan_page_def Let_def last flip: scan_visible_def)
    have rest: "matching_records (scan_visible internal) (sc_prefix q) (Some ?k) s = drop (sc_limit q) ?M"
      using matching_resume [OF dis i(1) refl] i(2) by simp
    have "scan_rest fuel validator internal (q\<lparr>sc_cursor := Some c\<rparr>) s
        = Inr (map (\<lambda>(k, r). to_state_record k r) (drop (sc_limit q) ?M))"
      using Suc.IH [of "q\<lparr>sc_cursor := Some c\<rparr>" "Some ?k"] Suc.prems lt
        decode_encode_scan_cursor [where validator = validator, OF c v(1) k(3)] rest by simp
    then show ?thesis by (simp add: page page_of_def flip: map_append)
  qed
qed

end
