(* ===== verification/StoreProps.thy ===== *)
theory StoreProps
  imports StoreContract
begin

text \<open>
  The properties of the versioned store: the invariant of every sequence of calls, the effect of a
  transaction whatever the call meets, no lost update, and complete scans. Witnesses run the store
  on a small snapshot.
\<close>

definition sample_limits :: limits where
  "sample_limits = \<lparr>li_record_bytes = 100, li_records = 4, li_total_bytes = 300\<rparr>"

definition sample_call :: call where
  "sample_call = \<lparr>ca_aborted = False, ca_guard = None, ca_now = Some 0, ca_commit = CommitOk\<rparr>"

definition sample_record :: stored where
  "sample_record = \<lparr>sv_value = ''x'', sv_version = version_text 1, sv_updated = ''1970-01-01T00:00:00.000Z''\<rparr>"

definition sample_snapshot :: snapshot where
  "sample_snapshot = \<lparr>sn_generation = 1, sn_list_generation = 0, sn_records = [(''core/a'', sample_record)], sn_total = 1\<rparr>"

definition sample_store :: store where
  "sample_store = \<lparr>st_snap = sample_snapshot, st_closed = False, st_poisoned = False\<rparr>"

lemma sample_lookup: "lookup sample_snapshot k = (if k = ''core/a'' then Some sample_record else None)"
  by (simp add: lookup_def sample_snapshot_def)

lemma sample_wf: "store_wf sample_limits sample_store"
proof -
  have "versions_ok sample_snapshot"
    unfolding versions_ok_def sample_lookup by (auto simp: sample_record_def sample_snapshot_def)
  then show ?thesis
    unfolding store_wf_def snapshot_wf_def
    by (simp add: sample_store_def sample_lookup sample_limits_def sample_record_def stored_size_def max_safe_integer_def)
      (simp add: sample_snapshot_def sample_record_def stored_size_def)
qed

text \<open>C17: The store invariant (distinct keys, versions drawn from the counter and never shared, the
  byte total, every limit) holds after any sequence of calls that starts in a store where it holds,
  whatever the calls meet and answer; and a record found at the end was there at the start or carries
  a version drawn since.\<close>

theorem store_invariant:
  assumes "store_wf l st" "(store_step l)\<^sup>*\<^sup>* st st'"
  shows "store_wf l st' \<and> evolves (st_snap st) (st_snap st')"
  using assms(2,1)
proof (induction rule: rtranclp_induct)
  case base
  then show ?case by simp
next
  case (step m st')
  then show ?case
    using store_step_kept [OF step.hyps(2)] unfolding store_wf_def kept_def by (metis evolves_trans)
qed

lemma sample_close: "store_step sample_limits sample_store (sample_store\<lparr>st_closed := True\<rparr>)"
  by (rule step_close)

lemma store_invariant_witness:
  "store_wf sample_limits (sample_store\<lparr>st_closed := True\<rparr>)
     \<and> evolves (st_snap sample_store) (st_snap (sample_store\<lparr>st_closed := True\<rparr>))"
  by (rule store_invariant [OF sample_wf r_into_rtranclp [of "store_step sample_limits", OF sample_close]])

text \<open>C16: A transaction is all or nothing: an error leaves the snapshot as it was; a conflict leaves it
  as it was and names keys with their current versions, each different from the expected one; an
  applied answer means that every expectation held and that the snapshot changed by exactly the
  requested puts, each under its own fresh version, and deletes.\<close>

theorem transaction_all_or_nothing:
  assumes "transaction_with_validator l c validator b q st = (r, st')" "store_wf l st"
  shows "tx_answer_ok l validator q (st_snap st) r (st_snap st')"
  using transaction_answer assms unfolding store_wf_def by blast

definition sample_request :: tx_request where
  "sample_request = \<lparr>tq_checks = [], tq_puts = [],
     tq_deletes = [\<lparr>te_key = JStr ''core/a'', te_expected = JNull\<rparr>]\<rparr>"

lemma transaction_all_or_nothing_witness:
  "\<exists>r st'. state_transaction_internal sample_limits sample_call sample_request sample_store = (r, st')
     \<and> tx_answer_ok sample_limits validate_execution_state_key sample_request (st_snap sample_store) r (st_snap st')"
proof -
  obtain r st' where run: "transaction_with_validator sample_limits sample_call validate_execution_state_key False
      sample_request sample_store = (r, st')" by force
  from transaction_all_or_nothing [OF run sample_wf] run show ?thesis
    unfolding state_transaction_internal_def by blast
qed

text \<open>C18: No lost update: if two reads of a key at different moments see the same version, then at
  every moment between them, whatever calls were made and however they ended, the key held that one
  record.\<close>

theorem store_unchanged_between:
  assumes "store_wf l s" "(store_step l)\<^sup>*\<^sup>* s m" "(store_step l)\<^sup>*\<^sup>* m s'"
    and "held s k = Some (v, r)" "held s' k = Some (v, r')"
  shows "held m k = Some (v, r) \<and> r' = r"
  using assms by (rule local_store.unchanged_between)

lemma store_unchanged_between_witness:
  "held (sample_store\<lparr>st_closed := True\<rparr>) ''core/a'' = Some (version_text 1, sample_record) \<and> sample_record = sample_record"
proof -
  have "(store_step sample_limits)\<^sup>*\<^sup>* sample_store (sample_store\<lparr>st_closed := True\<rparr>)"
    by (rule r_into_rtranclp [of "store_step sample_limits", OF sample_close])
  moreover have "held sample_store ''core/a'' = Some (version_text 1, sample_record)"
    "held (sample_store\<lparr>st_closed := True\<rparr>) ''core/a'' = Some (version_text 1, sample_record)"
    by (simp_all add: held_def sample_store_def sample_lookup) (simp_all add: sample_record_def)
  ultimately show ?thesis using store_unchanged_between [OF sample_wf _ rtranclp.rtrancl_refl] by blast
qed

text \<open>C19: Following the cursors of an execution scan, whatever the page size, returns every execution
  record of the prefix exactly once, in the order of their keys, and the walk ends.\<close>

theorem scan_reads_all:
  assumes "store_wf l st" "scan_keys_ok validate_execution_state_key True (st_snap st)"
    and "length p \<le> 1024" "1 \<le> n"
  shows "\<exists>recs. scan_rest (Suc (length (sn_records (st_snap st)))) validate_execution_state_key True
       \<lparr>sc_prefix = p, sc_cursor = None, sc_limit = n\<rparr> (st_snap st) = Inr recs
     \<and> sorted_wrt text_less (map rc_key recs)
     \<and> (\<forall>r. r \<in> set recs \<longleftrightarrow> find_record (st_snap st) (rc_key r) = Some r
          \<and> is_execution_state_key (rc_key r) \<and> prefix p (rc_key r))"
proof -
  let ?s = "st_snap st"
  let ?M = "matching_records is_execution_state_key p None ?s"
  let ?recs = "map (\<lambda>(k, r). to_state_record k r) ?M"
  have dis: "distinct (map fst (sn_records ?s))" using assms(1) by (simp add: store_wf_def snapshot_wf_def)
  have "length ?M \<le> length (sn_records ?s)" by (simp add: matching_records_def)
  then have run: "scan_rest (Suc (length (sn_records ?s))) validate_execution_state_key True
       \<lparr>sc_prefix = p, sc_cursor = None, sc_limit = n\<rparr> ?s = Inr ?recs"
    using scan_rest_complete [OF dis assms(2), of "\<lparr>sc_prefix = p, sc_cursor = None, sc_limit = n\<rparr>" None] assms(3,4)
    by (simp add: scan_visible_def decode_scan_cursor_def del: scan_rest.simps)
  have keys: "map rc_key ?recs = map fst ?M"
    by (auto simp: to_state_record_def)
  have mem: "r \<in> set ?recs \<longleftrightarrow> find_record ?s (rc_key r) = Some r
          \<and> is_execution_state_key (rc_key r) \<and> prefix p (rc_key r)" for r
    using dis by (force simp: matching_mem find_record_def lookup_def to_state_record_def map_of_eq_Some_iff)
  from run keys mem matching_sorted [OF dis] show ?thesis by metis
qed

lemma scan_reads_all_witness:
  "\<exists>recs. scan_rest (Suc (length (sn_records (st_snap sample_store)))) validate_execution_state_key True
       \<lparr>sc_prefix = ''core/'', sc_cursor = None, sc_limit = 1\<rparr> (st_snap sample_store) = Inr recs
     \<and> sorted_wrt text_less (map rc_key recs)
     \<and> (\<forall>r. r \<in> set recs \<longleftrightarrow> find_record (st_snap sample_store) (rc_key r) = Some r
          \<and> is_execution_state_key (rc_key r) \<and> prefix ''core/'' (rc_key r))"
proof (rule scan_reads_all [OF sample_wf])
  have "validate_execution_state_key (JStr ''core/a'') = Inr ''core/a''" by code_simp
  then show "scan_keys_ok validate_execution_state_key True (st_snap sample_store)"
    by (simp add: scan_keys_ok_def sample_store_def sample_snapshot_def)
qed simp_all

end
