(* ===== verification/ExecBytes.thy ===== *)
theory ExecBytes
  imports JsonText
begin

text \<open>
  Journal records as bytes (\<^verbatim>\<open>execution-store.ts\<close>: \<^verbatim>\<open>snapshotExecutionJson\<close>,
  \<^verbatim>\<open>encodeExecutionRecord\<close>, \<^verbatim>\<open>executionBytes\<close>, \<^verbatim>\<open>decodeExecutionRecord\<close>), and the contract
  \<open>record_codec\<close> of a record type: its parser accepts exactly what its encoder prints. The copy
  the code makes lists the fields of an object in collation order; since every reader looks fields
  up by name, the model keeps the order it is given.
\<close>

definition execution_record_max_bytes :: nat where "execution_record_max_bytes = 1048576"
definition execution_record_max_items :: nat where "execution_record_max_items = 100000"
definition execution_record_max_depth :: nat where "execution_record_max_depth = 64"

text \<open>\<open>snapshot_json v path items depth\<close>: the copy and the number of items seen so far.\<close>

definition next_item :: "nat \<Rightarrow> nat result" where
  "next_item items =
     (if execution_record_max_items < items + 1 then Inl (RangeError ''execution record'') else Inr (items + 1))"

definition snapshot_leaf :: "js \<Rightarrow> string \<Rightarrow> nat \<Rightarrow> (js \<times> nat) result" where
  "snapshot_leaf v path n =
     (case v of
        JNull \<Rightarrow> Inr (v, n)
      | JStr _ \<Rightarrow> Inr (v, n)
      | JBool _ \<Rightarrow> Inr (v, n)
      | JNum _ \<Rightarrow> Inr (v, n)
      | JFloat _ \<Rightarrow> Inr (v, n)
      | _ \<Rightarrow> Inl (TypeError path))"

definition container_guard :: "string \<Rightarrow> nat \<Rightarrow> nat \<Rightarrow> unit result" where
  "container_guard path count depth =
     (if execution_record_max_depth \<le> depth then Inl (TypeError path)
      else if execution_record_max_items < count then Inl (RangeError path)
      else Inr ())"

fun snapshot_json :: "js \<Rightarrow> string \<Rightarrow> nat \<Rightarrow> nat \<Rightarrow> (js \<times> nat) result"
  and snapshot_items :: "js list \<Rightarrow> string \<Rightarrow> nat \<Rightarrow> nat \<Rightarrow> nat \<Rightarrow> (js list \<times> nat) result"
  and snapshot_fields :: "(string \<times> js) list \<Rightarrow> string \<Rightarrow> nat \<Rightarrow> nat \<Rightarrow> ((string \<times> js) list \<times> nat) result" where
  "snapshot_json (JArr xs) path items depth =
     rbind (next_item items) (\<lambda>n.
     rbind (container_guard path (length xs) depth) (\<lambda>_.
     rbind (snapshot_items xs path 0 n (depth + 1)) (\<lambda>(ys, m). Inr (JArr ys, m))))"
| "snapshot_json (JObj fs) path items depth =
     rbind (next_item items) (\<lambda>n.
     rbind (container_guard path (length fs) depth) (\<lambda>_.
     rbind (snapshot_fields fs path n (depth + 1)) (\<lambda>(gs, m). Inr (JObj gs, m))))"
| "snapshot_json v path items depth = rbind (next_item items) (snapshot_leaf v path)"
| "snapshot_items [] path i items depth = Inr ([], items)"
| "snapshot_items (x # xs) path i items depth =
     rbind (snapshot_json x (path @ ''.'' @ nat_text i) items depth) (\<lambda>(y, n).
     rbind (snapshot_items xs path (i + 1) n depth) (\<lambda>(ys, m). Inr (y # ys, m)))"
| "snapshot_fields [] path items depth = Inr ([], items)"
| "snapshot_fields (kv # fs) path items depth =
     rbind (snapshot_json (snd kv) (path @ ''.'' @ fst kv) items depth) (\<lambda>(y, n).
     rbind (snapshot_fields fs path n depth) (\<lambda>(gs, m). Inr ((fst kv, y) # gs, m)))"

lemma snapshot_copies:
  "snapshot_json v path items depth = Inr (w, n) \<Longrightarrow> w = v"
  "snapshot_items xs path i items depth = Inr (ys, n) \<Longrightarrow> ys = xs"
  "snapshot_fields fs path items depth = Inr (gs, n) \<Longrightarrow> gs = fs"
proof (induction v path items depth and xs path i items depth and fs path items depth
    arbitrary: w n and ys n and gs n rule: snapshot_json_snapshot_items_snapshot_fields.induct)
qed (auto simp: snapshot_leaf_def elim!: rbind_InrE split: js.splits)

definition encode_execution_record :: "js \<Rightarrow> string result" where
  "encode_execution_record v =
     rbind (snapshot_json v ''$'' 0 0) (\<lambda>(copy, _).
     let bytes = json_text copy in
     if execution_record_max_bytes < length bytes then Inl (RangeError ''execution record'') else Inr bytes)"

definition execution_bytes :: "js \<Rightarrow> string result" where
  "execution_bytes v =
     (case v of
        JBytes b \<Rightarrow> if execution_record_max_bytes < length b then Inl (RangeError ''execution record'') else Inr b
      | _ \<Rightarrow> Inl (TypeError ''execution byte record''))"

definition decode_execution_record :: "string \<Rightarrow> js result" where
  "decode_execution_record bytes =
     (if execution_record_max_bytes < length bytes then Inl (RangeError ''execution record'')
      else case json_parse bytes of None \<Rightarrow> Inl (TypeError ''execution record'') | Some v \<Rightarrow> Inr v)"

lemma encode_execution_Inr:
  "encode_execution_record v = Inr b \<Longrightarrow> b = json_text v \<and> length b \<le> execution_record_max_bytes"
  unfolding encode_execution_record_def by (auto elim!: rbind_InrE dest!: snapshot_copies simp: Let_def split: if_splits)

lemma decode_encode_execution:
  "encode_execution_record v = Inr b \<Longrightarrow> json_ok v \<Longrightarrow> decode_execution_record b = Inr v"
  by (drule encode_execution_Inr) (auto simp: decode_execution_record_def json_roundtrip)

text \<open>\<open>decode_record parse b\<close> is what reading the bytes of a stored record gives its caller.\<close>

definition decode_record :: "(js \<Rightarrow> 'a result) \<Rightarrow> string \<Rightarrow> 'a result" where
  "decode_record parse b = rbind (decode_execution_record b) parse"

section \<open>The contract of a record type\<close>

locale record_codec =
  fixes parse :: "js \<Rightarrow> 'a result" and encode :: "'a \<Rightarrow> js" and wf :: "'a \<Rightarrow> bool"
  assumes parse_encode: "wf x \<Longrightarrow> parse (encode x) = Inr x"
    and parse_wf: "parse v = Inr x \<Longrightarrow> wf x"
    and encode_json: "wf x \<Longrightarrow> json_ok (encode x)"
begin

lemma decoded_wf: "decode_record parse b = Inr x \<Longrightarrow> wf x"
  by (auto simp: decode_record_def elim!: rbind_InrE dest: parse_wf)

lemma decoded_encode:
  "encode_execution_record (encode x) = Inr b \<Longrightarrow> wf x \<Longrightarrow> decode_record parse b = Inr x"
  by (simp add: decode_record_def decode_encode_execution encode_json parse_encode)

lemma encode_inj: "wf x \<Longrightarrow> wf y \<Longrightarrow> encode x = encode y \<Longrightarrow> x = y"
  using parse_encode by (metis sum.inject(2))

lemma text_inj:
  "wf x \<Longrightarrow> wf y \<Longrightarrow> encode_execution_record (encode x) = Inr b \<Longrightarrow> encode_execution_record (encode y) = Inr b \<Longrightarrow> x = y"
  using decoded_encode by (metis sum.inject(2))

text \<open>Reading, writing back and reading again changes nothing.\<close>

lemma rewrite_fixpoint:
  "decode_record parse b = Inr x \<Longrightarrow> encode_execution_record (encode x) = Inr c \<Longrightarrow> decode_record parse c = Inr x"
  using decoded_wf decoded_encode by blast

end

end
