(* ===== verification/Transcript.thy ===== *)
theory Transcript
  imports JsonText
begin

text \<open>
  The canonical transcript of a conversation (\<^verbatim>\<open>state-local/src/execution-transcript.ts\<close>, types in
  \<^verbatim>\<open>execution-types.ts\<close>): its entries, the strict parsers and the JSON shape they accept, the
  byte encoding, and the append-only check that guards every new revision.
\<close>

definition transcript_max_bytes :: nat where "transcript_max_bytes = 67108864"
definition transcript_max_entries :: nat where "transcript_max_entries = 50000"
definition transcript_max_content_parts :: nat where "transcript_max_content_parts = 128"
definition transcript_max_text_bytes :: nat where "transcript_max_text_bytes = 1048576"

section \<open>Content parts\<close>

datatype content_part =
    TextPart string
  | ArtifactPart artifact_ref "string option"

definition value_kind :: "js \<Rightarrow> js" where
  "value_kind v =
     (case v of
        JObj fs \<Rightarrow> (case map_of fs ''kind'' of Some x \<Rightarrow> x | None \<Rightarrow> fld fs ''type'')
      | _ \<Rightarrow> JUndef)"

definition parse_content_part :: "string \<Rightarrow> js \<Rightarrow> content_part result" where
  "parse_content_part path part =
     rbind (own_data_record path
              (if value_kind part = JStr ''text'' then [''type'', ''text''] else [''type'', ''ref'', ''name'']) part) (\<lambda>input.
     if fld input ''type'' = JStr ''text'' then
       rbind (bounded_text (path @ ''.text'') transcript_max_text_bytes True (fld input ''text'')) (\<lambda>t.
       Inr (TextPart t))
     else if fld input ''type'' = JStr ''artifact'' then
       rbind (opt_field (bounded_text (path @ ''.name'') 255 False) (fld input ''name'')) (\<lambda>name.
       rbind (parse_artifact_ref (fld input ''ref'')) (\<lambda>r.
       Inr (ArtifactPart r name)))
     else Inl (TypeError (path @ ''.type'')))"

definition parse_content :: "string \<Rightarrow> js \<Rightarrow> content_part list result" where
  "parse_content path v =
     rbind (dense_own_data_array path transcript_max_content_parts v) (\<lambda>raw.
     imap (\<lambda>i. parse_content_part (path @ ''.'' @ nat_text i)) 0 raw)"

fun encode_content_part :: "content_part \<Rightarrow> js" where
  "encode_content_part (TextPart t) = JObj (req ''type'' (JStr ''text'') @ req ''text'' (JStr t))"
| "encode_content_part (ArtifactPart r name) =
     JObj (req ''type'' (JStr ''artifact'') @ req ''ref'' (encode_artifact_ref r) @ opt ''name'' JStr name)"

definition encode_content :: "content_part list \<Rightarrow> js" where
  "encode_content xs = JArr (map encode_content_part xs)"

fun wf_content_part :: "content_part \<Rightarrow> bool" where
  "wf_content_part (TextPart t) = text_ok transcript_max_text_bytes True t"
| "wf_content_part (ArtifactPart r name) =
     (wf_artifact_ref r \<and> (case name of None \<Rightarrow> True | Some n \<Rightarrow> text_ok 255 False n))"

definition wf_content :: "content_part list \<Rightarrow> bool" where
  [wf_defs]: "wf_content xs \<longleftrightarrow> length xs \<le> transcript_max_content_parts \<and> list_all wf_content_part xs"

section \<open>Interaction evidence\<close>

datatype ask_phase = PhRequested | PhAnswered | PhExpired | PhCancelled
datatype live_phase = LiveApplied | LiveRequeued | LiveDiscarded
datatype approval_decision = AllowOnce | Deny
datatype tool_effect = EffRead | EffWrite | EffExecute | EffNetwork

datatype interaction_evidence =
    AskUser string ask_phase string "string option" nat "nat option"
  | Approval string ask_phase string "string option" string "tool_effect list" "approval_decision option"
  | LiveInput string live_phase string string

definition ask_phases :: "(string \<times> ask_phase) list" where
  "ask_phases =
     [(''requested'', PhRequested), (''answered'', PhAnswered), (''expired'', PhExpired), (''cancelled'', PhCancelled)]"

definition live_phases :: "(string \<times> live_phase) list" where
  "live_phases = [(''applied'', LiveApplied), (''requeued'', LiveRequeued), (''discarded'', LiveDiscarded)]"

definition decisions :: "(string \<times> approval_decision) list" where
  "decisions = [(''allow_once'', AllowOnce), (''deny'', Deny)]"

definition tool_effects :: "(string \<times> tool_effect) list" where
  "tool_effects = [(''read'', EffRead), (''write'', EffWrite), (''execute'', EffExecute), (''network'', EffNetwork)]"

text \<open>The text of an enumeration's constructor: the first row of its table that holds it.\<close>

fun enum_text :: "(string \<times> 'a) list \<Rightarrow> 'a \<Rightarrow> string" where
  "enum_text [] a = []"
| "enum_text ((s, b) # rows) a = (if a = b then s else enum_text rows a)"

definition enum_ok :: "(string \<times> 'a) list \<Rightarrow> bool" where
  "enum_ok table \<longleftrightarrow> (\<forall>a. map_of table (enum_text table a) = Some a)"

lemma string_enum_text [parse_evals]:
  "enum_ok table \<Longrightarrow> string_enum path table (JStr (enum_text table a)) = Inr a"
  by (simp add: string_enum_def enum_ok_def)

lemma transcript_enums [simp]: "enum_ok ask_phases" "enum_ok live_phases" "enum_ok decisions" "enum_ok tool_effects"
proof -
  show "enum_ok ask_phases" unfolding enum_ok_def
  proof
    fix a show "map_of ask_phases (enum_text ask_phases a) = Some a" by (cases a) (simp_all add: ask_phases_def)
  qed
  show "enum_ok live_phases" unfolding enum_ok_def
  proof
    fix a show "map_of live_phases (enum_text live_phases a) = Some a" by (cases a) (simp_all add: live_phases_def)
  qed
  show "enum_ok decisions" unfolding enum_ok_def
  proof
    fix a show "map_of decisions (enum_text decisions a) = Some a" by (cases a) (simp_all add: decisions_def)
  qed
  show "enum_ok tool_effects" unfolding enum_ok_def
  proof
    fix a show "map_of tool_effects (enum_text tool_effects a) = Some a" by (cases a) (simp_all add: tool_effects_def)
  qed
qed

definition optional_settled_timestamp :: "string \<Rightarrow> ask_phase \<Rightarrow> js \<Rightarrow> string option result" where
  "optional_settled_timestamp path phase v =
     (if phase = PhRequested then
        if v \<noteq> JUndef then Inl (TypeError path) else Inr None
      else if v = JUndef then Inl (TypeError path)
      else rbind (canonical_timestamp path v) (\<lambda>t. Inr (Some t)))"

definition bounded_count :: "string \<Rightarrow> nat \<Rightarrow> bool \<Rightarrow> js \<Rightarrow> nat result" where
  "bounded_count path maximum allow_zero v = bounded_integer path (if allow_zero then 0 else 1) maximum v"

text \<open>The loop over \<^verbatim>\<open>effects\<close> keeps the set of effects already seen.\<close>

fun parse_effects :: "string \<Rightarrow> nat \<Rightarrow> tool_effect list \<Rightarrow> js list \<Rightarrow> tool_effect list result" where
  "parse_effects path i seen [] = Inr []"
| "parse_effects path i seen (x # xs) =
     rbind (string_enum (path @ ''.effects.'' @ nat_text i) tool_effects x) (\<lambda>e.
     rbind (require (e \<notin> set seen) (TypeError (path @ ''.effects''))) (\<lambda>_.
     rbind (parse_effects path (Suc i) (e # seen) xs) (\<lambda>es. Inr (e # es))))"

definition parse_ask_user :: "string \<Rightarrow> string \<Rightarrow> (string \<times> js) list \<Rightarrow> interaction_evidence result" where
  "parse_ask_user path interaction_id input =
     rbind (string_enum (path @ ''.phase'') ask_phases (fld input ''phase'')) (\<lambda>phase.
     rbind (optional_settled_timestamp (path @ ''.settledAt'') phase (fld input ''settledAt'')) (\<lambda>settled.
     rbind (bounded_count (path @ ''.questionCount'') 3 False (fld input ''questionCount'')) (\<lambda>questions.
     rbind (opt_field (bounded_count (path @ ''.answeredQuestionCount'') questions True)
              (fld input ''answeredQuestionCount'')) (\<lambda>answered.
     rbind (require ((phase = PhAnswered) = (answered \<noteq> None)) (TypeError (path @ ''.answeredQuestionCount''))) (\<lambda>_.
     rbind (canonical_timestamp (path @ ''.requestedAt'') (fld input ''requestedAt'')) (\<lambda>requested.
     Inr (AskUser interaction_id phase requested settled questions answered)))))))"

definition parse_approval :: "string \<Rightarrow> string \<Rightarrow> (string \<times> js) list \<Rightarrow> interaction_evidence result" where
  "parse_approval path interaction_id input =
     rbind (string_enum (path @ ''.phase'') ask_phases (fld input ''phase'')) (\<lambda>phase.
     rbind (optional_settled_timestamp (path @ ''.settledAt'') phase (fld input ''settledAt'')) (\<lambda>settled.
     rbind (dense_own_data_array (path @ ''.effects'') 4 (fld input ''effects'')) (\<lambda>raw.
     rbind (parse_effects path 0 [] raw) (\<lambda>effects.
     rbind (opt_field (string_enum (path @ ''.decision'') decisions) (fld input ''decision'')) (\<lambda>decision.
     rbind (require ((phase = PhAnswered) = (decision \<noteq> None)) (TypeError (path @ ''.decision''))) (\<lambda>_.
     rbind (canonical_timestamp (path @ ''.requestedAt'') (fld input ''requestedAt'')) (\<lambda>requested.
     rbind (bounded_identifier (path @ ''.toolId'') (fld input ''toolId'')) (\<lambda>tool.
     Inr (Approval interaction_id phase requested settled tool effects decision)))))))))"

definition evidence_keys :: "js \<Rightarrow> string list" where
  "evidence_keys kind =
     (if kind = JStr ''ask-user'' then
        [''kind'', ''interactionId'', ''phase'', ''requestedAt'', ''settledAt'', ''questionCount'', ''answeredQuestionCount'']
      else if kind = JStr ''approval'' then
        [''kind'', ''interactionId'', ''phase'', ''requestedAt'', ''settledAt'', ''toolId'', ''effects'', ''decision'']
      else [''kind'', ''interactionId'', ''phase'', ''receivedAt'', ''settledAt''])"

definition parse_interaction_evidence :: "string \<Rightarrow> js \<Rightarrow> interaction_evidence result" where
  "parse_interaction_evidence path v =
     rbind (own_data_record path (evidence_keys (value_kind v)) v) (\<lambda>input.
     rbind (bounded_identifier (path @ ''.interactionId'') (fld input ''interactionId'')) (\<lambda>interaction_id.
     if fld input ''kind'' = JStr ''ask-user'' then parse_ask_user path interaction_id input
     else if fld input ''kind'' = JStr ''approval'' then parse_approval path interaction_id input
     else if fld input ''kind'' = JStr ''live-input'' then
       rbind (string_enum (path @ ''.phase'') live_phases (fld input ''phase'')) (\<lambda>phase.
       rbind (canonical_timestamp (path @ ''.receivedAt'') (fld input ''receivedAt'')) (\<lambda>received.
       rbind (canonical_timestamp (path @ ''.settledAt'') (fld input ''settledAt'')) (\<lambda>settled.
       Inr (LiveInput interaction_id phase received settled))))
     else Inl (TypeError (path @ ''.kind''))))"

fun encode_evidence :: "interaction_evidence \<Rightarrow> js" where
  "encode_evidence (AskUser i phase requested settled questions answered) =
     JObj (req ''kind'' (JStr ''ask-user'') @ req ''interactionId'' (JStr i)
       @ req ''phase'' (JStr (enum_text ask_phases phase)) @ req ''requestedAt'' (JStr requested)
       @ opt ''settledAt'' JStr settled @ req ''questionCount'' (JNum (int questions))
       @ opt ''answeredQuestionCount'' (\<lambda>n. JNum (int n)) answered)"
| "encode_evidence (Approval i phase requested settled tool effects decision) =
     JObj (req ''kind'' (JStr ''approval'') @ req ''interactionId'' (JStr i)
       @ req ''phase'' (JStr (enum_text ask_phases phase)) @ req ''requestedAt'' (JStr requested)
       @ opt ''settledAt'' JStr settled @ req ''toolId'' (JStr tool)
       @ req ''effects'' (JArr (map (\<lambda>e. JStr (enum_text tool_effects e)) effects))
       @ opt ''decision'' (\<lambda>d. JStr (enum_text decisions d)) decision)"
| "encode_evidence (LiveInput i phase received settled) =
     JObj (req ''kind'' (JStr ''live-input'') @ req ''interactionId'' (JStr i)
       @ req ''phase'' (JStr (enum_text live_phases phase)) @ req ''receivedAt'' (JStr received)
       @ req ''settledAt'' (JStr settled))"

definition wf_settled :: "ask_phase \<Rightarrow> string option \<Rightarrow> bool" where
  [wf_defs]: "wf_settled phase settled \<longleftrightarrow>
     (case settled of None \<Rightarrow> phase = PhRequested | Some t \<Rightarrow> phase \<noteq> PhRequested \<and> canonical_ts t)"

fun wf_evidence :: "interaction_evidence \<Rightarrow> bool" where
  "wf_evidence (AskUser i phase requested settled questions answered) \<longleftrightarrow>
     ident_ok i \<and> canonical_ts requested \<and> wf_settled phase settled \<and> 1 \<le> questions \<and> questions \<le> 3
     \<and> (case answered of None \<Rightarrow> phase \<noteq> PhAnswered | Some n \<Rightarrow> phase = PhAnswered \<and> n \<le> questions)"
| "wf_evidence (Approval i phase requested settled tool effects decision) \<longleftrightarrow>
     ident_ok i \<and> canonical_ts requested \<and> wf_settled phase settled \<and> ident_ok tool
     \<and> distinct effects \<and> length effects \<le> 4 \<and> (phase = PhAnswered) = (decision \<noteq> None)"
| "wf_evidence (LiveInput i phase received settled) \<longleftrightarrow>
     ident_ok i \<and> canonical_ts received \<and> canonical_ts settled"

section \<open>Entries and transcripts\<close>

datatype role = RoleUser | RoleAssistant

definition roles :: "(string \<times> role) list" where
  "roles = [(''user'', RoleUser), (''assistant'', RoleAssistant)]"

record entry_common =
  ec_entry :: string
  ec_run :: string
  ec_request :: string
  ec_conv :: string
  ec_at :: string

datatype transcript_entry =
    MessageEntry entry_common role "content_part list" "route_identity option"
  | InteractionEntry entry_common interaction_evidence "content_part list"
  | VerbatimEntry entry_common role string

fun entry_common_of :: "transcript_entry \<Rightarrow> entry_common" where
  "entry_common_of (MessageEntry c _ _ _) = c"
| "entry_common_of (InteractionEntry c _ _) = c"
| "entry_common_of (VerbatimEntry c _ _) = c"

record canonical_transcript =
  ct_conv :: string
  ct_revision :: nat
  ct_entries :: "transcript_entry list"

definition entry_keys :: "js \<Rightarrow> string list" where
  "entry_keys kind =
     (if kind = JStr ''message'' then
        [''kind'', ''entryId'', ''runId'', ''requestId'', ''conversationId'', ''recordedAt'', ''role'', ''content'', ''route'']
      else if kind = JStr ''interaction'' then
        [''kind'', ''entryId'', ''runId'', ''requestId'', ''conversationId'', ''recordedAt'', ''evidence'', ''content'']
      else [''kind'', ''entryId'', ''runId'', ''requestId'', ''conversationId'', ''recordedAt'', ''role'', ''text''])"

definition parse_entry_common :: "string \<Rightarrow> string \<Rightarrow> (string \<times> js) list \<Rightarrow> entry_common result" where
  "parse_entry_common path conv base =
     rbind (bounded_conversation_id (path @ ''.conversationId'') (fld base ''conversationId'')) (\<lambda>c.
     rbind (require (c = conv) (TypeError (path @ ''.conversationId''))) (\<lambda>_.
     rbind (bounded_identifier (path @ ''.entryId'') (fld base ''entryId'')) (\<lambda>e.
     rbind (bounded_identifier (path @ ''.runId'') (fld base ''runId'')) (\<lambda>r.
     rbind (bounded_identifier (path @ ''.requestId'') (fld base ''requestId'')) (\<lambda>q.
     rbind (canonical_timestamp (path @ ''.recordedAt'') (fld base ''recordedAt'')) (\<lambda>t.
     Inr \<lparr>ec_entry = e, ec_run = r, ec_request = q, ec_conv = c, ec_at = t\<rparr>))))))"

definition parse_transcript_entry :: "string \<Rightarrow> string \<Rightarrow> js \<Rightarrow> transcript_entry result" where
  "parse_transcript_entry conv path v =
     rbind (own_data_record path (entry_keys (value_kind v)) v) (\<lambda>base.
     rbind (require (fld base ''kind'' \<in> {JStr ''message'', JStr ''interaction'', JStr ''verbatim''})
              (TypeError (path @ ''.kind''))) (\<lambda>_.
     rbind (parse_entry_common path conv base) (\<lambda>common.
     if fld base ''kind'' = JStr ''message'' then
       rbind (string_enum (path @ ''.role'') roles (fld base ''role'')) (\<lambda>role.
       rbind (opt_field parse_route_identity (fld base ''route'')) (\<lambda>route.
       rbind (require (\<not> (role = RoleUser \<and> route \<noteq> None)) (TypeError path)) (\<lambda>_.
       rbind (parse_content (path @ ''.content'') (fld base ''content'')) (\<lambda>content.
       Inr (MessageEntry common role content route)))))
     else if fld base ''kind'' = JStr ''interaction'' then
       rbind (parse_interaction_evidence (path @ ''.evidence'') (fld base ''evidence'')) (\<lambda>evidence.
       rbind (parse_content (path @ ''.content'') (fld base ''content'')) (\<lambda>content.
       Inr (InteractionEntry common evidence content)))
     else
       rbind (string_enum (path @ ''.role'') roles (fld base ''role'')) (\<lambda>role.
       rbind (bounded_text (path @ ''.text'') transcript_max_text_bytes True (fld base ''text'')) (\<lambda>text.
       Inr (VerbatimEntry common role text))))))"

definition parse_canonical_transcript :: "js \<Rightarrow> canonical_transcript result" where
  "parse_canonical_transcript v =
     rbind (own_data_record ''canonical transcript''
              [''schemaVersion'', ''kind'', ''conversationId'', ''revision'', ''entries''] v) (\<lambda>input.
     rbind (require (fld input ''schemaVersion'' = JNum 1
                     \<and> fld input ''kind'' = JStr ''mono-agent.canonical-transcript'')
              (TypeError ''canonical transcript'')) (\<lambda>_.
     rbind (bounded_conversation_id ''canonical transcript.conversationId'' (fld input ''conversationId'')) (\<lambda>conv.
     rbind (bounded_integer ''canonical transcript.revision'' 1 (nat max_safe_integer) (fld input ''revision'')) (\<lambda>revision.
     rbind (dense_own_data_array ''canonical transcript.entries'' transcript_max_entries (fld input ''entries'')) (\<lambda>raw.
     rbind (imap (\<lambda>i. parse_transcript_entry conv (''canonical transcript.entries.'' @ nat_text i)) 0 raw) (\<lambda>entries.
     Inr \<lparr>ct_conv = conv, ct_revision = revision, ct_entries = entries\<rparr>))))))"

definition encode_entry_common :: "string \<Rightarrow> entry_common \<Rightarrow> (string \<times> js) list" where
  "encode_entry_common kind c =
     req ''kind'' (JStr kind) @ req ''entryId'' (JStr (ec_entry c)) @ req ''runId'' (JStr (ec_run c))
       @ req ''requestId'' (JStr (ec_request c)) @ req ''conversationId'' (JStr (ec_conv c))
       @ req ''recordedAt'' (JStr (ec_at c))"

fun encode_entry :: "transcript_entry \<Rightarrow> js" where
  "encode_entry (MessageEntry c role content route) =
     JObj (encode_entry_common ''message'' c @ req ''role'' (JStr (enum_text roles role))
       @ req ''content'' (encode_content content) @ opt ''route'' encode_route_identity route)"
| "encode_entry (InteractionEntry c evidence content) =
     JObj (encode_entry_common ''interaction'' c @ req ''evidence'' (encode_evidence evidence)
       @ req ''content'' (encode_content content))"
| "encode_entry (VerbatimEntry c role text) =
     JObj (encode_entry_common ''verbatim'' c @ req ''role'' (JStr (enum_text roles role))
       @ req ''text'' (JStr text))"

definition transcript_literal :: "string \<Rightarrow> nat \<Rightarrow> js list \<Rightarrow> js" where
  "transcript_literal conv revision entries =
     JObj (req ''schemaVersion'' (JNum 1) @ req ''kind'' (JStr ''mono-agent.canonical-transcript'')
       @ req ''conversationId'' (JStr conv) @ req ''revision'' (JNum (int revision))
       @ req ''entries'' (JArr entries))"

definition encode_transcript :: "canonical_transcript \<Rightarrow> js" where
  "encode_transcript t = transcript_literal (ct_conv t) (ct_revision t) (map encode_entry (ct_entries t))"

definition wf_common :: "string \<Rightarrow> entry_common \<Rightarrow> bool" where
  [wf_defs]: "wf_common conv c \<longleftrightarrow> ec_conv c = conv \<and> conv_id_ok conv \<and> ident_ok (ec_entry c) \<and> ident_ok (ec_run c)
     \<and> ident_ok (ec_request c) \<and> canonical_ts (ec_at c)"

fun wf_entry :: "string \<Rightarrow> transcript_entry \<Rightarrow> bool" where
  "wf_entry conv (MessageEntry c role content route) \<longleftrightarrow>
     wf_common conv c \<and> wf_content content
     \<and> (case route of None \<Rightarrow> True | Some r \<Rightarrow> role = RoleAssistant \<and> wf_route r)"
| "wf_entry conv (InteractionEntry c evidence content) \<longleftrightarrow>
     wf_common conv c \<and> wf_evidence evidence \<and> wf_content content"
| "wf_entry conv (VerbatimEntry c role text) \<longleftrightarrow>
     wf_common conv c \<and> text_ok transcript_max_text_bytes True text"

definition wf_transcript :: "canonical_transcript \<Rightarrow> bool" where
  [wf_defs]: "wf_transcript t \<longleftrightarrow> conv_id_ok (ct_conv t) \<and> 1 \<le> ct_revision t \<and> int (ct_revision t) \<le> max_safe_integer
     \<and> length (ct_entries t) \<le> transcript_max_entries \<and> list_all (wf_entry (ct_conv t)) (ct_entries t)"

section \<open>Parsing inverts encoding\<close>

lemma roles_ok [simp]: "enum_ok roles"
  unfolding enum_ok_def
proof
  fix a show "map_of roles (enum_text roles a) = Some a" by (cases a) (simp_all add: roles_def)
qed

lemma value_kind_obj [simp]:
  "value_kind (JObj fs) = (if ''kind'' \<in> keys_of fs then fld fs ''kind'' else fld fs ''type'')"
proof (cases "map_of fs ''kind''")
  case None
  then have "''kind'' \<notin> keys_of fs" by (simp add: keys_of_def map_of_eq_None_iff)
  with None show ?thesis by (simp add: value_kind_def)
next
  case (Some v)
  then have "''kind'' \<in> keys_of fs" by (metis keys_of_def map_of_eq_None_iff option.distinct(1))
  with Some show ?thesis by (simp add: value_kind_def fld_def)
qed

lemma encode_defined [simp]:
  "encode_artifact_ref r \<noteq> JUndef" "encode_route_identity x \<noteq> JUndef"
  by (simp_all add: encode_artifact_ref_def encode_route_identity_def)

lemma content_part_roundtrip: "wf_content_part p \<Longrightarrow> parse_content_part path (encode_content_part p) = Inr p"
proof (cases p)
  case (TextPart t)
  moreover assume "wf_content_part p"
  ultimately show ?thesis by (simp add: parse_content_part_def parse_evals cong: rbind_weak_cong)
next
  case (ArtifactPart r name)
  moreover assume "wf_content_part p"
  ultimately show ?thesis
    by (cases name)
      (simp_all add: parse_content_part_def parse_evals artifact_ref_roundtrip cong: rbind_weak_cong)
qed

lemma content_roundtrip: "wf_content xs \<Longrightarrow> parse_content path (encode_content xs) = Inr xs"
  unfolding parse_content_def encode_content_def wf_content_def
  by (simp add: parse_evals imap_roundtrip content_part_roundtrip list_all_length)

lemma settled_roundtrip:
  "wf_settled phase settled \<Longrightarrow>
   optional_settled_timestamp path phase (case settled of None \<Rightarrow> JUndef | Some t \<Rightarrow> JStr t) = Inr settled"
  by (auto simp: wf_settled_def optional_settled_timestamp_def parse_evals split: option.splits)

lemma effects_roundtrip:
  "distinct es \<Longrightarrow> set es \<inter> set seen = {} \<Longrightarrow>
   parse_effects path i seen (map (\<lambda>e. JStr (enum_text tool_effects e)) es) = Inr es"
  by (induction es arbitrary: i seen) (auto simp: parse_evals)

lemma ask_user_roundtrip:
  assumes "wf_evidence (AskUser i phase requested settled questions answered)"
  shows "parse_interaction_evidence path (encode_evidence (AskUser i phase requested settled questions answered))
     = Inr (AskUser i phase requested settled questions answered)"
  using assms settled_roundtrip [of phase settled "path @ ''.settledAt''"]
  by (cases settled; cases answered)
    (simp_all add: parse_interaction_evidence_def parse_ask_user_def evidence_keys_def bounded_count_def parse_evals
      cong: rbind_weak_cong)

lemma approval_roundtrip:
  assumes "wf_evidence (Approval i phase requested settled tool effects decision)"
  shows "parse_interaction_evidence path (encode_evidence (Approval i phase requested settled tool effects decision))
     = Inr (Approval i phase requested settled tool effects decision)"
  using assms settled_roundtrip [of phase settled "path @ ''.settledAt''"]
  by (cases settled; cases decision)
    (simp_all add: parse_interaction_evidence_def parse_approval_def evidence_keys_def parse_evals effects_roundtrip
      cong: rbind_weak_cong)

lemma evidence_roundtrip: "wf_evidence e \<Longrightarrow> parse_interaction_evidence path (encode_evidence e) = Inr e"
proof (cases e)
  case (LiveInput i phase received settled)
  moreover assume "wf_evidence e"
  ultimately show ?thesis
    by (simp add: parse_interaction_evidence_def evidence_keys_def parse_evals cong: rbind_weak_cong)
qed (simp_all add: ask_user_roundtrip approval_roundtrip del: encode_evidence.simps wf_evidence.simps)

lemma entry_roundtrip: "wf_entry conv e \<Longrightarrow> parse_transcript_entry conv path (encode_entry e) = Inr e"
proof (cases e)
  case (MessageEntry c role content route)
  moreover assume "wf_entry conv e"
  ultimately show ?thesis
    by (cases route)
      (simp_all add: parse_transcript_entry_def parse_entry_common_def encode_entry_common_def entry_keys_def
        wf_common_def parse_evals content_roundtrip route_roundtrip cong: rbind_weak_cong)
next
  case (InteractionEntry c evidence content)
  moreover assume "wf_entry conv e"
  ultimately show ?thesis
    by (simp add: parse_transcript_entry_def parse_entry_common_def encode_entry_common_def entry_keys_def
        wf_common_def parse_evals content_roundtrip evidence_roundtrip cong: rbind_weak_cong)
next
  case (VerbatimEntry c role body)
  moreover assume "wf_entry conv e"
  ultimately show ?thesis
    by (simp add: parse_transcript_entry_def parse_entry_common_def encode_entry_common_def entry_keys_def
        wf_common_def parse_evals cong: rbind_weak_cong)
qed

lemma transcript_roundtrip: "wf_transcript t \<Longrightarrow> parse_canonical_transcript (encode_transcript t) = Inr t"
proof -
  assume wf: "wf_transcript t"
  then have "imap (\<lambda>i. parse_transcript_entry (ct_conv t) (''canonical transcript.entries.'' @ nat_text i)) 0
      (map encode_entry (ct_entries t)) = Inr (ct_entries t)"
    by (intro imap_roundtrip entry_roundtrip) (simp add: wf_transcript_def list_all_length)
  with wf show ?thesis
    by (simp add: parse_canonical_transcript_def encode_transcript_def transcript_literal_def wf_transcript_def
        parse_evals max_safe_integer_def cong: rbind_weak_cong)
qed

section \<open>Whatever a parser accepts is well formed\<close>

lemma imap_all:
  "imap f i xs = Inr ys \<Longrightarrow> (\<And>i x y. f i x = Inr y \<Longrightarrow> P y) \<Longrightarrow> list_all P ys"
proof (induction f i xs arbitrary: ys rule: imap.induct)
  case (1 f i)
  then show ?case by simp
next
  case (2 f i x xs)
  from 2(2) obtain y zs where "f i x = Inr y" "imap f (Suc i) xs = Inr zs" "ys = y # zs"
    by (auto simp: rbind_Inr_iff)
  with 2 show ?case by auto
qed

lemma imap_length: "imap f i xs = Inr ys \<Longrightarrow> length ys = length xs"
  using imap_Inr_nth by blast

lemma role_cases [simp]: "r \<noteq> RoleUser \<longleftrightarrow> r = RoleAssistant" "r \<noteq> RoleAssistant \<longleftrightarrow> r = RoleUser"
  by (cases r; simp)+

lemma parse_content_part_wf: "parse_content_part path v = Inr p \<Longrightarrow> wf_content_part p"
  unfolding parse_content_part_def
  by (elim rbind_InrE)
    (auto split: if_splits elim!: rbind_InrE simp: parse_iffs opt_field_Inr dest: parse_artifact_ref_wf)

lemma parse_content_wf: "parse_content path v = Inr xs \<Longrightarrow> wf_content xs"
  unfolding parse_content_def wf_content_def
  by (elim rbind_InrE) (auto simp: parse_iffs dest: imap_length elim!: imap_all intro: parse_content_part_wf)

lemma parse_effects_wf:
  "parse_effects path i seen xs = Inr es \<Longrightarrow> distinct es \<and> set es \<inter> set seen = {} \<and> length es = length xs"
proof (induction xs arbitrary: i seen es)
  case Nil
  then show ?case by simp
next
  case (Cons x xs)
  from Cons.prems show ?case
    by (auto elim!: rbind_InrE dest!: Cons.IH)
qed

lemma optional_settled_wf: "optional_settled_timestamp path phase v = Inr settled \<Longrightarrow> wf_settled phase settled"
  by (auto simp: optional_settled_timestamp_def wf_settled_def parse_iffs result_simps split: if_splits)

lemma parse_ask_user_wf: "parse_ask_user path i input = Inr e \<Longrightarrow> ident_ok i \<Longrightarrow> wf_evidence e"
  unfolding parse_ask_user_def
  by (elim rbind_InrE) (auto simp: parse_iffs opt_field_Inr bounded_count_def dest!: optional_settled_wf)

lemma parse_approval_wf: "parse_approval path i input = Inr e \<Longrightarrow> ident_ok i \<Longrightarrow> wf_evidence e"
  unfolding parse_approval_def
  by (elim rbind_InrE) (auto simp: parse_iffs opt_field_Inr dest!: optional_settled_wf parse_effects_wf)

lemma parse_evidence_wf: "parse_interaction_evidence path v = Inr e \<Longrightarrow> wf_evidence e"
  unfolding parse_interaction_evidence_def
  by (elim rbind_InrE)
    (auto split: if_splits elim!: rbind_InrE simp: parse_iffs dest: parse_ask_user_wf parse_approval_wf)

lemma parse_entry_common_wf: "parse_entry_common path conv base = Inr c \<Longrightarrow> wf_common conv c"
  unfolding parse_entry_common_def wf_common_def
  by (elim rbind_InrE) (auto simp: parse_iffs)

lemma parse_entry_wf: "parse_transcript_entry conv path v = Inr e \<Longrightarrow> wf_entry conv e"
  unfolding parse_transcript_entry_def
  by (elim rbind_InrE)
    (auto split: if_splits elim!: rbind_InrE simp: parse_iffs opt_field_Inr
      dest!: parse_entry_common_wf parse_content_wf parse_evidence_wf parse_route_wf)

lemma parse_transcript_wf: "parse_canonical_transcript v = Inr t \<Longrightarrow> wf_transcript t"
  unfolding parse_canonical_transcript_def wf_transcript_def
  by (elim rbind_InrE)
    (auto simp: parse_iffs max_safe_integer_def dest: imap_length elim!: imap_all intro: parse_entry_wf)

section \<open>Encoded values are JSON\<close>

lemma content_json_ok: "wf_content xs \<Longrightarrow> json_ok (encode_content xs)"
proof -
  have "json_ok (encode_content_part p)" if "wf_content_part p" for p
    using that by (cases p) (auto simp: artifact_ref_json_ok opt_ok_def)
  then show "wf_content xs \<Longrightarrow> json_ok (encode_content xs)"
    by (auto simp: wf_content_def encode_content_def list_all_iff)
qed

lemma evidence_json_ok: "wf_evidence e \<Longrightarrow> json_ok (encode_evidence e)"
  by (cases e) (auto simp: max_safe_integer_def opt_ok_def split: option.splits)

lemma entry_json_ok: "wf_entry conv e \<Longrightarrow> json_ok (encode_entry e)"
  by (cases e) (auto simp: encode_entry_common_def content_json_ok evidence_json_ok opt_ok_def)

lemma transcript_json_ok: "wf_transcript t \<Longrightarrow> json_ok (encode_transcript t)"
  by (auto simp: encode_transcript_def transcript_literal_def wf_transcript_def list_all_iff max_safe_integer_def
      intro: entry_json_ok)

section \<open>Byte encoding and the append-only check\<close>

definition encode_canonical_transcript :: "canonical_transcript \<Rightarrow> string result" where
  "encode_canonical_transcript value =
     rbind (parse_canonical_transcript (encode_transcript value)) (\<lambda>transcript.
     let encoded = json_text (encode_transcript transcript) in
     if transcript_max_bytes < length encoded then Inl (RangeError ''canonical transcript'')
     else Inr encoded)"

definition decode_canonical_transcript :: "string \<Rightarrow> string option \<Rightarrow> canonical_transcript result" where
  "decode_canonical_transcript bytes expected =
     (if transcript_max_bytes < length bytes then Inl (RangeError ''canonical transcript'')
      else
        (case json_parse bytes of
           None \<Rightarrow> Inl (TypeError ''canonical transcript'')
         | Some decoded \<Rightarrow>
             rbind (parse_canonical_transcript decoded) (\<lambda>transcript.
             case expected of
               None \<Rightarrow> Inr transcript
             | Some conv \<Rightarrow>
                 if ct_conv transcript \<noteq> conv then Inl (TypeError ''canonical transcript'')
                 else Inr transcript)))"

fun same_prefix :: "transcript_entry list \<Rightarrow> transcript_entry list \<Rightarrow> bool" where
  "same_prefix [] ys = True"
| "same_prefix (x # xs) [] = False"
| "same_prefix (x # xs) (y # ys) =
     (json_text (encode_entry x) = json_text (encode_entry y) \<and> same_prefix xs ys)"

definition assert_append_only :: "canonical_transcript \<Rightarrow> canonical_transcript \<Rightarrow> unit result" where
  "assert_append_only previous_value next_value =
     rbind (parse_canonical_transcript (encode_transcript previous_value)) (\<lambda>previous.
     rbind (parse_canonical_transcript (encode_transcript next_value)) (\<lambda>nxt.
     rbind (require (ct_conv previous = ct_conv nxt) (TypeError ''canonical transcript'')) (\<lambda>_.
     rbind (require (int (ct_revision previous) < max_safe_integer \<and> ct_revision nxt = ct_revision previous + 1)
              (PlainError ''canonical transcript revision is not the next canonical revision'')) (\<lambda>_.
     rbind (require (length (ct_entries previous) \<le> length (ct_entries nxt))
              (PlainError ''canonical transcript revision cannot truncate prior history'')) (\<lambda>_.
     require (same_prefix (ct_entries previous) (ct_entries nxt))
       (PlainError ''canonical transcript revision cannot rewrite prior history''))))))"

definition append_canonical_transcript ::
  "canonical_transcript option \<Rightarrow> string \<Rightarrow> js list \<Rightarrow> canonical_transcript result" where
  "append_canonical_transcript current conv entries =
     rbind (bounded_conversation_id ''conversationId'' (JStr conv)) (\<lambda>normalized.
     rbind (case current of
              None \<Rightarrow> Inr None
            | Some t \<Rightarrow> rbind (parse_canonical_transcript (encode_transcript t)) (\<lambda>e. Inr (Some e))) (\<lambda>existing.
     rbind (require (case existing of None \<Rightarrow> True | Some e \<Rightarrow> ct_conv e = normalized)
              (TypeError ''canonical transcript'')) (\<lambda>_.
     let revision = (case existing of None \<Rightarrow> 0 | Some e \<Rightarrow> ct_revision e) + 1;
         prior = (case existing of None \<Rightarrow> [] | Some e \<Rightarrow> map encode_entry (ct_entries e)) in
     rbind (parse_canonical_transcript (transcript_literal normalized revision (prior @ entries))) (\<lambda>parsed.
     rbind (case existing of None \<Rightarrow> Inr () | Some e \<Rightarrow> assert_append_only e parsed) (\<lambda>_.
     rbind (encode_canonical_transcript parsed) (\<lambda>_.
     Inr parsed))))))"

lemma entry_conv_field:
  "\<exists>fs. encode_entry z = JObj fs \<and> fld fs ''conversationId'' = JStr (ec_conv (entry_common_of z))"
  by (cases z) (auto simp: encode_entry_common_def)

lemma wf_entry_conv: "wf_entry b z \<Longrightarrow> ec_conv (entry_common_of z) = b"
  by (cases z) (auto simp: wf_common_def)

lemma same_prefix_iff:
  assumes "list_all (wf_entry c) xs" "list_all (wf_entry d) ys" "length xs \<le> length ys"
  shows "same_prefix xs ys \<longleftrightarrow> prefix xs ys"
  using assms
proof (induction xs ys rule: same_prefix.induct)
  case (3 x xs y ys)
  have "encode_entry x = encode_entry y \<longleftrightarrow> x = y"
  proof
    assume eq: "encode_entry x = encode_entry y"
    obtain fs where fs: "encode_entry x = JObj fs" "fld fs ''conversationId'' = JStr (ec_conv (entry_common_of x))"
      using entry_conv_field by blast
    obtain gs where gs: "encode_entry y = JObj gs" "fld gs ''conversationId'' = JStr (ec_conv (entry_common_of y))"
      using entry_conv_field by blast
    have wx: "wf_entry c x" and wy: "wf_entry d y" using 3(2,3) by simp_all
    have "fs = gs" using eq fs(1) gs(1) by simp
    then have "c = d" using fs(2) gs(2) wf_entry_conv [OF wx] wf_entry_conv [OF wy] by simp
    then have "Inr x = (Inr y :: transcript_entry result)"
      using entry_roundtrip [OF wx, of "[]"] entry_roundtrip [OF wy, of "[]"] by (simp only: eq)
    then show "x = y" by simp
  qed simp
  moreover have "json_ok (encode_entry x)" "json_ok (encode_entry y)"
    using 3(2,3) by (auto intro: entry_json_ok)
  ultimately show ?case using 3 by (auto simp: json_text_inj)
qed auto

text \<open>The check accepts a revision exactly when it is the next one of the same conversation and
  keeps every settled entry in place.\<close>

lemma assert_append_only_iff:
  assumes "wf_transcript p" "wf_transcript n"
  shows "assert_append_only p n = Inr () \<longleftrightarrow>
     ct_conv p = ct_conv n \<and> int (ct_revision p) < max_safe_integer \<and> ct_revision n = ct_revision p + 1
     \<and> prefix (ct_entries p) (ct_entries n)"
proof -
  have "same_prefix (ct_entries p) (ct_entries n) \<longleftrightarrow> prefix (ct_entries p) (ct_entries n)"
    if "length (ct_entries p) \<le> length (ct_entries n)"
    using same_prefix_iff [OF _ _ that] assms by (auto simp: wf_transcript_def)
  then show ?thesis
    using assms by (auto simp: assert_append_only_def transcript_roundtrip rbind_Inr_iff dest: prefix_length_le)
qed

lemma encode_canonical_wf:
  "wf_transcript t \<Longrightarrow> encode_canonical_transcript t = Inr b \<Longrightarrow>
   b = json_text (encode_transcript t) \<and> length b \<le> transcript_max_bytes"
  by (auto simp: encode_canonical_transcript_def transcript_roundtrip Let_def split: if_splits)

lemma encode_canonical_ok:
  "wf_transcript t \<Longrightarrow> length (json_text (encode_transcript t)) \<le> transcript_max_bytes \<Longrightarrow>
   encode_canonical_transcript t = Inr (json_text (encode_transcript t))"
  by (simp add: encode_canonical_transcript_def transcript_roundtrip)

lemma encode_canonical_Inr_wf: "encode_canonical_transcript t = Inr b \<Longrightarrow> \<exists>t'. wf_transcript t'"
  unfolding encode_canonical_transcript_def by (elim rbind_InrE) (auto dest: parse_transcript_wf)

lemma decode_encode:
  assumes "wf_transcript t" "encode_canonical_transcript t = Inr b" "e = None \<or> e = Some (ct_conv t)"
  shows "decode_canonical_transcript b e = Inr t"
  using encode_canonical_wf [OF assms(1,2)] assms(1,3)
  by (auto simp: decode_canonical_transcript_def json_roundtrip transcript_json_ok transcript_roundtrip split: option.splits)

lemma decode_wf: "decode_canonical_transcript b e = Inr t \<Longrightarrow> wf_transcript t"
  by (auto simp: decode_canonical_transcript_def split: if_splits option.splits
      elim!: rbind_InrE dest: parse_transcript_wf)

lemma imap_append_Inr:
  "imap f i (xs @ ys) = Inr zs \<Longrightarrow>
   \<exists>us vs. imap f i xs = Inr us \<and> imap f (i + length xs) ys = Inr vs \<and> zs = us @ vs"
proof (induction xs arbitrary: i zs)
  case Nil
  then show ?case by simp
next
  case (Cons x xs)
  then obtain y ws where "f i x = Inr y" "imap f (Suc i) (xs @ ys) = Inr ws" "zs = y # ws"
    by (auto simp: rbind_Inr_iff)
  with Cons.IH [of "Suc i" ws] show ?case by (auto simp: rbind_Inr_iff)
qed

text \<open>An append keeps the settled entries, in order, in front of the parsed new ones.\<close>

lemma append_transcript_extends:
  assumes "append_canonical_transcript (Some t) conv entries = Inr t'" "wf_transcript t"
  shows "wf_transcript t' \<and> ct_conv t' = conv \<and> ct_conv t = conv \<and> ct_revision t' = ct_revision t + 1
     \<and> (\<exists>new. ct_entries t' = ct_entries t @ new \<and> length new = length entries)"
proof -
  from assms obtain bytes where
    parsed: "parse_canonical_transcript (transcript_literal conv (ct_revision t + 1) (map encode_entry (ct_entries t) @ entries)) = Inr t'"
    and only: "assert_append_only t t' = Inr ()" and conv: "ct_conv t = conv"
    by (auto simp: append_canonical_transcript_def transcript_roundtrip parse_iffs rbind_Inr_iff Let_def)
  have wf: "wf_transcript t'" by (rule parse_transcript_wf [OF parsed])
  have len: "length (ct_entries t') = length (ct_entries t) + length entries"
    using parsed unfolding parse_canonical_transcript_def transcript_literal_def
    by (elim rbind_InrE) (auto simp: parse_iffs dest: imap_length)
  have "prefix (ct_entries t) (ct_entries t')" "ct_revision t' = ct_revision t + 1" "ct_conv t' = conv"
    using only assert_append_only_iff [OF assms(2) wf] conv by auto
  then show ?thesis using wf len conv by (auto simp: prefix_def)
qed

lemma append_transcript_first:
  assumes "append_canonical_transcript None conv entries = Inr t'"
  shows "wf_transcript t' \<and> ct_conv t' = conv \<and> ct_revision t' = 1 \<and> length (ct_entries t') = length entries"
proof -
  from assms have parsed: "parse_canonical_transcript (transcript_literal conv 1 entries) = Inr t'"
    by (auto simp: append_canonical_transcript_def parse_iffs rbind_Inr_iff Let_def)
  then have "ct_conv t' = conv \<and> ct_revision t' = 1 \<and> length (ct_entries t') = length entries"
    unfolding parse_canonical_transcript_def transcript_literal_def
    by (elim rbind_InrE) (auto simp: parse_iffs dest: imap_length)
  with parse_transcript_wf [OF parsed] show ?thesis by simp
qed

end
