(* ===== verification/RunCodec.thy ===== *)
theory RunCodec
  imports Transcript
begin

text \<open>
  The durable evidence of a run (\<^verbatim>\<open>execution-types.ts\<close>, the run parsers of
  \<^verbatim>\<open>execution-codec.ts\<close>): attempts, journal events, the run summary, and the three records that
  carry them. Each parser is shown to invert its JSON shape and to accept well-formed values only.
\<close>

definition run_max_events :: nat where "run_max_events = 10000"
definition run_max_attempts :: nat where "run_max_attempts = 1000"

section \<open>Attempts\<close>

datatype effort_keyword = UltraThink | ExtraThink | Think
datatype attempt_status = AttStarted | AttIneligible | AttFailed | AttCompleted
datatype retryability = Retryable | NotRetryable | RetryUnknown
datatype side_effects = SideNone | SideCommitted | SideUnknown

definition effort_keywords :: "(string \<times> effort_keyword) list" where
  "effort_keywords = [(''ultraThink'', UltraThink), (''extraThink'', ExtraThink), (''think'', Think)]"

definition attempt_statuses :: "(string \<times> attempt_status) list" where
  "attempt_statuses =
     [(''started'', AttStarted), (''ineligible'', AttIneligible), (''failed'', AttFailed), (''completed'', AttCompleted)]"

definition retryabilities :: "(string \<times> retryability) list" where
  "retryabilities = [(''retryable'', Retryable), (''not-retryable'', NotRetryable), (''unknown'', RetryUnknown)]"

definition side_effect_states :: "(string \<times> side_effects) list" where
  "side_effect_states = [(''none'', SideNone), (''committed'', SideCommitted), (''unknown'', SideUnknown)]"

lemma enum_ok_cases: "(\<And>a. map_of table (enum_text table a) = Some a) \<Longrightarrow> enum_ok table"
  by (simp add: enum_ok_def)

lemma attempt_enums [simp]:
  "enum_ok effort_keywords" "enum_ok attempt_statuses" "enum_ok retryabilities" "enum_ok side_effect_states"
proof -
  show "enum_ok effort_keywords"
    by (rule enum_ok_cases, case_tac a) (simp_all add: effort_keywords_def)
  show "enum_ok attempt_statuses"
    by (rule enum_ok_cases, case_tac a) (simp_all add: attempt_statuses_def)
  show "enum_ok retryabilities"
    by (rule enum_ok_cases, case_tac a) (simp_all add: retryabilities_def)
  show "enum_ok side_effect_states"
    by (rule enum_ok_cases, case_tac a) (simp_all add: side_effect_states_def)
qed

record effort_escalation =
  ee_keyword :: effort_keyword
  ee_from :: "string option"
  ee_to :: string

record attempt_evidence =
  at_attempt :: nat
  at_route :: route_identity
  at_status :: attempt_status
  at_started :: string
  at_ended :: "string option"
  at_code :: "string option"
  at_retry :: "retryability option"
  at_side :: "side_effects option"
  at_effort :: "effort_escalation option"

definition parse_effort_escalation :: "string \<Rightarrow> js \<Rightarrow> effort_escalation result" where
  "parse_effort_escalation path v =
     rbind (own_data_record path [''keyword'', ''from'', ''to''] v) (\<lambda>input.
     rbind (string_enum (path @ ''.keyword'') effort_keywords (fld input ''keyword'')) (\<lambda>keyword.
     rbind (opt_field (bounded_code (path @ ''.from'')) (fld input ''from'')) (\<lambda>from.
     rbind (bounded_code (path @ ''.to'') (fld input ''to'')) (\<lambda>to.
     Inr \<lparr>ee_keyword = keyword, ee_from = from, ee_to = to\<rparr>))))"

definition encode_effort_escalation :: "effort_escalation \<Rightarrow> js" where
  "encode_effort_escalation e =
     JObj (req ''keyword'' (JStr (enum_text effort_keywords (ee_keyword e))) @ opt ''from'' JStr (ee_from e)
       @ req ''to'' (JStr (ee_to e)))"

definition parse_run_attempt_evidence :: "string \<Rightarrow> js \<Rightarrow> attempt_evidence result" where
  "parse_run_attempt_evidence path v =
     rbind (own_data_record path
              [''attempt'', ''route'', ''status'', ''startedAt'', ''endedAt'', ''code'', ''retryability'',
               ''sideEffects'', ''effortEscalation''] v) (\<lambda>input.
     rbind (string_enum (path @ ''.status'') attempt_statuses (fld input ''status'')) (\<lambda>status.
     rbind (opt_field (canonical_timestamp (path @ ''.endedAt'')) (fld input ''endedAt'')) (\<lambda>ended.
     rbind (opt_field (bounded_code (path @ ''.code'')) (fld input ''code'')) (\<lambda>code.
     rbind (opt_field (string_enum (path @ ''.retryability'') retryabilities) (fld input ''retryability'')) (\<lambda>retry.
     rbind (opt_field (string_enum (path @ ''.sideEffects'') side_effect_states) (fld input ''sideEffects'')) (\<lambda>side.
     rbind (require (\<not> ((status = AttStarted) = (ended \<noteq> None))) (TypeError path)) (\<lambda>_.
     rbind (require (\<not> ((status = AttIneligible \<or> status = AttFailed) \<noteq> (code \<noteq> None))) (TypeError path)) (\<lambda>_.
     rbind (require (\<not> (status \<noteq> AttFailed \<and> (retry \<noteq> None \<or> side \<noteq> None))) (TypeError path)) (\<lambda>_.
     rbind (require (\<not> (status = AttFailed \<and> (retry = None \<or> side = None))) (TypeError path)) (\<lambda>_.
     rbind (opt_field (parse_effort_escalation (path @ ''.effortEscalation'')) (fld input ''effortEscalation'')) (\<lambda>effort.
     rbind (bounded_integer (path @ ''.attempt'') 1 run_max_attempts (fld input ''attempt'')) (\<lambda>attempt.
     rbind (parse_route_identity (fld input ''route'')) (\<lambda>route.
     rbind (canonical_timestamp (path @ ''.startedAt'') (fld input ''startedAt'')) (\<lambda>started.
     Inr \<lparr>at_attempt = attempt, at_route = route, at_status = status, at_started = started, at_ended = ended,
       at_code = code, at_retry = retry, at_side = side, at_effort = effort\<rparr>))))))))))))))"

definition encode_attempt :: "attempt_evidence \<Rightarrow> js" where
  "encode_attempt a =
     JObj (req ''attempt'' (JNum (int (at_attempt a))) @ req ''route'' (encode_route_identity (at_route a))
       @ req ''status'' (JStr (enum_text attempt_statuses (at_status a))) @ req ''startedAt'' (JStr (at_started a))
       @ opt ''endedAt'' JStr (at_ended a) @ opt ''code'' JStr (at_code a)
       @ opt ''retryability'' (\<lambda>x. JStr (enum_text retryabilities x)) (at_retry a)
       @ opt ''sideEffects'' (\<lambda>x. JStr (enum_text side_effect_states x)) (at_side a)
       @ opt ''effortEscalation'' encode_effort_escalation (at_effort a))"

definition wf_effort :: "effort_escalation \<Rightarrow> bool" where
  [wf_defs]: "wf_effort e \<longleftrightarrow> opt_ok code_ok (ee_from e) \<and> code_ok (ee_to e)"

definition wf_attempt :: "attempt_evidence \<Rightarrow> bool" where
  [wf_defs]: "wf_attempt a \<longleftrightarrow>
     1 \<le> at_attempt a \<and> at_attempt a \<le> run_max_attempts \<and> wf_route (at_route a) \<and> canonical_ts (at_started a)
     \<and> opt_ok canonical_ts (at_ended a) \<and> (at_ended a = None) = (at_status a = AttStarted)
     \<and> opt_ok code_ok (at_code a) \<and> (at_code a = None) = (at_status a \<noteq> AttIneligible \<and> at_status a \<noteq> AttFailed)
     \<and> (at_retry a = None) = (at_status a \<noteq> AttFailed) \<and> (at_side a = None) = (at_status a \<noteq> AttFailed)
     \<and> opt_ok wf_effort (at_effort a)"

lemma effort_defined [simp]: "encode_effort_escalation e \<noteq> JUndef"
  by (simp add: encode_effort_escalation_def)

lemma effort_roundtrip: "wf_effort e \<Longrightarrow> parse_effort_escalation path (encode_effort_escalation e) = Inr e"
  by (simp add: opt_ok_def parse_effort_escalation_def encode_effort_escalation_def wf_effort_def parse_evals
      cong: rbind_weak_cong)

lemma parse_effort_wf: "parse_effort_escalation path v = Inr e \<Longrightarrow> wf_effort e"
  unfolding parse_effort_escalation_def wf_effort_def
  by (elim rbind_InrE) (auto simp: parse_iffs elim!: opt_field_ok)

lemma attempt_roundtrip: "wf_attempt a \<Longrightarrow> parse_run_attempt_evidence path (encode_attempt a) = Inr a"
  by (simp add: parse_run_attempt_evidence_def encode_attempt_def wf_attempt_def opt_ok_def parse_evals
      effort_roundtrip route_roundtrip cong: rbind_weak_cong)

lemma parse_attempt_wf: "parse_run_attempt_evidence path v = Inr a \<Longrightarrow> wf_attempt a"
  unfolding parse_run_attempt_evidence_def
  by (elim rbind_InrE, simp only: require_Inr sum.inject, hypsubst,
      simp only: wf_attempt_def attempt_evidence.simps, intro conjI)
    ((erule opt_field_ok, erule parse_effort_wf) | (erule opt_field_ok, simp add: parse_iffs)
      | (erule parse_route_wf) | (simp only: parse_iffs) | argo)+

lemma effort_json_ok [simp]: "json_ok (encode_effort_escalation e)"
  by (simp add: encode_effort_escalation_def opt_ok_def)

lemma attempt_json_ok: "wf_attempt a \<Longrightarrow> json_ok (encode_attempt a)"
  by (simp add: encode_attempt_def wf_attempt_def run_max_attempts_def max_safe_integer_def opt_ok_def)

section \<open>Journal events\<close>

datatype run_status = RunRunning | RunCompleted | RunCancelled | RunMaxTurns | RunFailed | RunUncertain

definition run_statuses :: "(string \<times> run_status) list" where
  "run_statuses =
     [(''running'', RunRunning), (''completed'', RunCompleted), (''cancelled'', RunCancelled),
      (''max-turns'', RunMaxTurns), (''failed'', RunFailed), (''uncertain'', RunUncertain)]"

definition terminal_statuses :: "(string \<times> run_status) list" where
  "terminal_statuses =
     [(''completed'', RunCompleted), (''cancelled'', RunCancelled), (''max-turns'', RunMaxTurns),
      (''failed'', RunFailed), (''uncertain'', RunUncertain)]"

definition status_text :: "run_status \<Rightarrow> string" where
  "status_text s = enum_text run_statuses s"

definition parse_run_status :: "string \<Rightarrow> js \<Rightarrow> run_status result" where
  "parse_run_status path v = string_enum path run_statuses v"

definition terminal_run_status :: "string \<Rightarrow> js \<Rightarrow> run_status result" where
  "terminal_run_status path v = string_enum path terminal_statuses v"

lemma run_status_eval [parse_evals]: "parse_run_status path (JStr (status_text s)) = Inr s"
  by (cases s) (simp_all add: parse_run_status_def status_text_def string_enum_def run_statuses_def)

lemma terminal_status_eval [parse_evals]:
  "s \<noteq> RunRunning \<Longrightarrow> terminal_run_status path (JStr (status_text s)) = Inr s"
  by (cases s) (simp_all add: terminal_run_status_def status_text_def string_enum_def run_statuses_def terminal_statuses_def)

lemma terminal_run_status_wf: "terminal_run_status path v = Inr s \<Longrightarrow> s \<noteq> RunRunning \<and> v \<noteq> JUndef"
  by (auto simp: terminal_run_status_def parse_iffs terminal_statuses_def split: if_splits)

datatype event_body =
    Admitted
  | AttemptEvent attempt_evidence
  | InteractionEvent interaction_evidence
  | Settled run_status "string option" "string option"

record run_event =
  ev_run :: string
  ev_seq :: nat
  ev_at :: string
  ev_body :: event_body

definition event_keys :: "js \<Rightarrow> string list" where
  "event_keys ty =
     (if ty = JStr ''attempt'' then [''type'', ''runId'', ''sequence'', ''recordedAt'', ''attempt'']
      else if ty = JStr ''interaction'' then [''type'', ''runId'', ''sequence'', ''recordedAt'', ''evidence'']
      else if ty = JStr ''settled'' then
        [''type'', ''runId'', ''sequence'', ''recordedAt'', ''status'', ''transcriptRevision'', ''failureCode'']
      else [''type'', ''runId'', ''sequence'', ''recordedAt''])"

definition value_type :: "js \<Rightarrow> js" where
  "value_type v = (case v of JObj fs \<Rightarrow> fld fs ''type'' | _ \<Rightarrow> JUndef)"

definition parse_event_body :: "(string \<times> js) list \<Rightarrow> event_body result" where
  "parse_event_body input =
     (if fld input ''type'' = JStr ''admitted'' then Inr Admitted
      else if fld input ''type'' = JStr ''attempt'' then
        rbind (parse_run_attempt_evidence ''run event.attempt'' (fld input ''attempt'')) (\<lambda>a. Inr (AttemptEvent a))
      else if fld input ''type'' = JStr ''interaction'' then
        rbind (parse_interaction_evidence ''run event.evidence'' (fld input ''evidence'')) (\<lambda>e. Inr (InteractionEvent e))
      else if fld input ''type'' = JStr ''settled'' then
        rbind (terminal_run_status ''run event.status'' (fld input ''status'')) (\<lambda>status.
        rbind (opt_field (bounded_code ''run event.transcriptRevision'') (fld input ''transcriptRevision'')) (\<lambda>revision.
        rbind (opt_field (bounded_code ''run event.failureCode'') (fld input ''failureCode'')) (\<lambda>failure.
        rbind (require (\<not> ((status = RunFailed \<or> status = RunUncertain) \<noteq> (failure \<noteq> None))) (TypeError ''run event'')) (\<lambda>_.
        Inr (Settled status revision failure)))))
      else Inl (TypeError ''run event.type''))"

definition parse_run_event :: "js \<Rightarrow> run_event result" where
  "parse_run_event v =
     rbind (own_data_record ''run event'' (event_keys (value_type v)) v) (\<lambda>input.
     rbind (bounded_identifier ''run event.runId'' (fld input ''runId'')) (\<lambda>run.
     rbind (bounded_integer ''run event.sequence'' 0 (run_max_events - 1) (fld input ''sequence'')) (\<lambda>sq.
     rbind (canonical_timestamp ''run event.recordedAt'' (fld input ''recordedAt'')) (\<lambda>at.
     rbind (parse_event_body input) (\<lambda>body.
     Inr \<lparr>ev_run = run, ev_seq = sq, ev_at = at, ev_body = body\<rparr>)))))"

definition event_base :: "string \<Rightarrow> run_event \<Rightarrow> (string \<times> js) list" where
  "event_base ty e =
     req ''type'' (JStr ty) @ req ''runId'' (JStr (ev_run e)) @ req ''sequence'' (JNum (int (ev_seq e)))
       @ req ''recordedAt'' (JStr (ev_at e))"

definition encode_event :: "run_event \<Rightarrow> js" where
  "encode_event e =
     (case ev_body e of
        Admitted \<Rightarrow> JObj (event_base ''admitted'' e)
      | AttemptEvent a \<Rightarrow> JObj (event_base ''attempt'' e @ req ''attempt'' (encode_attempt a))
      | InteractionEvent i \<Rightarrow> JObj (event_base ''interaction'' e @ req ''evidence'' (encode_evidence i))
      | Settled status revision failure \<Rightarrow>
          JObj (event_base ''settled'' e @ req ''status'' (JStr (status_text status))
            @ opt ''transcriptRevision'' JStr revision @ opt ''failureCode'' JStr failure))"

fun wf_event_body :: "event_body \<Rightarrow> bool" where
  "wf_event_body Admitted \<longleftrightarrow> True"
| "wf_event_body (AttemptEvent a) \<longleftrightarrow> wf_attempt a"
| "wf_event_body (InteractionEvent i) \<longleftrightarrow> wf_evidence i"
| "wf_event_body (Settled status revision failure) \<longleftrightarrow>
     status \<noteq> RunRunning \<and> opt_ok code_ok revision \<and> opt_ok code_ok failure
     \<and> (failure \<noteq> None) = (status = RunFailed \<or> status = RunUncertain)"

definition wf_event :: "run_event \<Rightarrow> bool" where
  [wf_defs]: "wf_event e \<longleftrightarrow>
     ident_ok (ev_run e) \<and> ev_seq e < run_max_events \<and> canonical_ts (ev_at e) \<and> wf_event_body (ev_body e)"

lemma event_roundtrip: "wf_event e \<Longrightarrow> parse_run_event (encode_event e) = Inr e"
proof -
  assume wf: "wf_event e"
  have sq: "ev_seq e \<le> run_max_events - 1" using wf by (simp add: wf_event_def run_max_events_def)
  show ?thesis
  proof (cases "ev_body e")
    case (Settled status revision failure)
    then show ?thesis using wf sq
      by (simp add: opt_ok_def wf_event_def parse_run_event_def encode_event_def event_base_def event_keys_def value_type_def
          parse_event_body_def parse_evals cong: rbind_weak_cong)
  qed (use wf sq in \<open>simp_all add: wf_event_def parse_run_event_def encode_event_def event_base_def
      event_keys_def value_type_def parse_event_body_def parse_evals attempt_roundtrip evidence_roundtrip
      cong: rbind_weak_cong\<close>)
qed

lemma parse_event_body_wf: "parse_event_body input = Inr b \<Longrightarrow> wf_event_body b"
  unfolding parse_event_body_def
  by (auto split: if_splits elim!: rbind_InrE simp: parse_iffs
      dest!: parse_attempt_wf parse_evidence_wf terminal_run_status_wf elim!: opt_field_ok)

lemma parse_event_wf: "parse_run_event v = Inr e \<Longrightarrow> wf_event e"
  unfolding parse_run_event_def
  by (elim rbind_InrE) (auto simp: wf_event_def parse_iffs run_max_events_def dest!: parse_event_body_wf)

lemma event_json_ok: "wf_event e \<Longrightarrow> json_ok (encode_event e)"
  by (cases "ev_body e")
    (auto simp: wf_event_def encode_event_def event_base_def run_max_events_def max_safe_integer_def
      attempt_json_ok evidence_json_ok opt_ok_def)

section \<open>Run records\<close>

record run_summary =
  rs_run :: string
  rs_request :: string
  rs_conv :: string
  rs_status :: run_status
  rs_started :: string
  rs_updated :: string
  rs_ended :: "string option"
  rs_attempts :: "attempt_evidence list"
  rs_revision :: "string option"
  rs_failure :: "string option"

record stored_run =
  sr_summary :: run_summary
  sr_event_count :: nat
  sr_transcript :: "artifact_ref option"

record run_history =
  rh_run :: string
  rh_started :: string

text \<open>\<open>parse_summary_attempt\<close> is the callback of \<^verbatim>\<open>rawAttempts.map\<close>: attempts are numbered from 1.\<close>

definition parse_summary_attempt :: "nat \<Rightarrow> js \<Rightarrow> attempt_evidence result" where
  "parse_summary_attempt index v =
     rbind (parse_run_attempt_evidence (''run summary.attempts.'' @ nat_text index) v) (\<lambda>parsed.
     rbind (require (at_attempt parsed = index + 1) (TypeError ''run summary attempts'')) (\<lambda>_.
     Inr parsed))"

definition parse_run_summary :: "js \<Rightarrow> run_summary result" where
  "parse_run_summary v =
     rbind (own_data_record ''run summary''
              [''runId'', ''requestId'', ''conversationId'', ''status'', ''startedAt'', ''updatedAt'', ''endedAt'',
               ''attempts'', ''transcriptRevision'', ''failureCode''] v) (\<lambda>input.
     rbind (parse_run_status ''run summary.status'' (fld input ''status'')) (\<lambda>status.
     rbind (opt_field (canonical_timestamp ''run summary.endedAt'') (fld input ''endedAt'')) (\<lambda>ended.
     rbind (dense_own_data_array ''run summary.attempts'' run_max_attempts (fld input ''attempts'')) (\<lambda>raw.
     rbind (imap parse_summary_attempt 0 raw) (\<lambda>attempts.
     rbind (opt_field (bounded_code ''run summary.transcriptRevision'') (fld input ''transcriptRevision'')) (\<lambda>revision.
     rbind (opt_field (bounded_code ''run summary.failureCode'') (fld input ''failureCode'')) (\<lambda>failure.
     rbind (require (\<not> ((status = RunRunning) = (ended \<noteq> None))) (TypeError ''run summary'')) (\<lambda>_.
     rbind (require (\<not> ((status = RunFailed \<or> status = RunUncertain) \<noteq> (failure \<noteq> None))) (TypeError ''run summary'')) (\<lambda>_.
     rbind (bounded_identifier ''run summary.runId'' (fld input ''runId'')) (\<lambda>run.
     rbind (bounded_identifier ''run summary.requestId'' (fld input ''requestId'')) (\<lambda>request.
     rbind (bounded_conversation_id ''run summary.conversationId'' (fld input ''conversationId'')) (\<lambda>conv.
     rbind (canonical_timestamp ''run summary.startedAt'' (fld input ''startedAt'')) (\<lambda>started.
     rbind (canonical_timestamp ''run summary.updatedAt'' (fld input ''updatedAt'')) (\<lambda>updated.
     Inr \<lparr>rs_run = run, rs_request = request, rs_conv = conv, rs_status = status, rs_started = started,
       rs_updated = updated, rs_ended = ended, rs_attempts = attempts, rs_revision = revision,
       rs_failure = failure\<rparr>))))))))))))))"

definition encode_summary :: "run_summary \<Rightarrow> js" where
  "encode_summary s =
     JObj (req ''runId'' (JStr (rs_run s)) @ req ''requestId'' (JStr (rs_request s))
       @ req ''conversationId'' (JStr (rs_conv s)) @ req ''status'' (JStr (status_text (rs_status s)))
       @ req ''startedAt'' (JStr (rs_started s)) @ req ''updatedAt'' (JStr (rs_updated s))
       @ opt ''endedAt'' JStr (rs_ended s) @ req ''attempts'' (JArr (map encode_attempt (rs_attempts s)))
       @ opt ''transcriptRevision'' JStr (rs_revision s) @ opt ''failureCode'' JStr (rs_failure s))"

definition freeze_summary :: "run_summary \<Rightarrow> run_summary result" where
  "freeze_summary s = parse_run_summary (encode_summary s)"

definition parse_stored_run :: "js \<Rightarrow> stored_run result" where
  "parse_stored_run v =
     rbind (own_data_record ''run record'' [''schemaVersion'', ''kind'', ''summary'', ''eventCount'', ''transcriptRef''] v) (\<lambda>input.
     rbind (require (fld input ''schemaVersion'' = JNum 1 \<and> fld input ''kind'' = JStr ''mono-agent.run'')
              (TypeError ''run record'')) (\<lambda>_.
     rbind (parse_run_summary (fld input ''summary'')) (\<lambda>summary.
     rbind (bounded_integer ''run record.eventCount'' 1 run_max_events (fld input ''eventCount'')) (\<lambda>count.
     rbind (opt_field parse_artifact_ref (fld input ''transcriptRef'')) (\<lambda>tref.
     rbind (require (\<not> ((rs_revision summary \<noteq> None) \<noteq> (tref \<noteq> None))) (TypeError ''run transcript'')) (\<lambda>_.
     Inr \<lparr>sr_summary = summary, sr_event_count = count, sr_transcript = tref\<rparr>))))))"

definition encode_stored_run :: "stored_run \<Rightarrow> js" where
  "encode_stored_run r =
     JObj (req ''schemaVersion'' (JNum 1) @ req ''kind'' (JStr ''mono-agent.run'')
       @ req ''summary'' (encode_summary (sr_summary r)) @ req ''eventCount'' (JNum (int (sr_event_count r)))
       @ opt ''transcriptRef'' encode_artifact_ref (sr_transcript r))"

definition parse_stored_event :: "js \<Rightarrow> run_event result" where
  "parse_stored_event v =
     rbind (own_data_record ''run event record'' [''schemaVersion'', ''kind'', ''event''] v) (\<lambda>input.
     rbind (require (fld input ''schemaVersion'' = JNum 1 \<and> fld input ''kind'' = JStr ''mono-agent.run-event'')
              (TypeError ''run event record'')) (\<lambda>_.
     parse_run_event (fld input ''event'')))"

definition encode_stored_event :: "run_event \<Rightarrow> js" where
  "encode_stored_event e =
     JObj (req ''schemaVersion'' (JNum 1) @ req ''kind'' (JStr ''mono-agent.run-event'') @ req ''event'' (encode_event e))"

text \<open>\<open>event_record\<close> parses the event once more before it is stored.\<close>

definition event_record :: "run_event \<Rightarrow> js result" where
  "event_record e = rbind (parse_run_event (encode_event e)) (\<lambda>p. Inr (encode_stored_event p))"

definition parse_run_history :: "js \<Rightarrow> run_history result" where
  "parse_run_history v =
     rbind (own_data_record ''run history record'' [''schemaVersion'', ''kind'', ''runId'', ''startedAt''] v) (\<lambda>input.
     rbind (require (fld input ''schemaVersion'' = JNum 1 \<and> fld input ''kind'' = JStr ''mono-agent.run-history'')
              (TypeError ''run history record'')) (\<lambda>_.
     rbind (bounded_identifier ''run history record.runId'' (fld input ''runId'')) (\<lambda>run.
     rbind (canonical_timestamp ''run history record.startedAt'' (fld input ''startedAt'')) (\<lambda>started.
     Inr \<lparr>rh_run = run, rh_started = started\<rparr>))))"

definition encode_run_history :: "run_history \<Rightarrow> js" where
  "encode_run_history h =
     JObj (req ''schemaVersion'' (JNum 1) @ req ''kind'' (JStr ''mono-agent.run-history'')
       @ req ''runId'' (JStr (rh_run h)) @ req ''startedAt'' (JStr (rh_started h)))"

definition next_event_count :: "nat \<Rightarrow> nat result" where
  "next_event_count n = (if n < 1 \<or> run_max_events \<le> n then Inl (RangeError ''run'') else Inr (n + 1))"

definition same_attempt :: "attempt_evidence \<Rightarrow> attempt_evidence \<Rightarrow> bool" where
  "same_attempt l r \<longleftrightarrow> json_text (encode_attempt l) = json_text (encode_attempt r)"

definition numbered :: "attempt_evidence list \<Rightarrow> bool" where
  "numbered as \<longleftrightarrow> (\<forall>i < length as. at_attempt (as ! i) = i + 1)"

definition wf_summary :: "run_summary \<Rightarrow> bool" where
  [wf_defs]: "wf_summary s \<longleftrightarrow>
     ident_ok (rs_run s) \<and> ident_ok (rs_request s) \<and> conv_id_ok (rs_conv s)
     \<and> canonical_ts (rs_started s) \<and> canonical_ts (rs_updated s)
     \<and> opt_ok canonical_ts (rs_ended s) \<and> (rs_ended s = None) = (rs_status s = RunRunning)
     \<and> length (rs_attempts s) \<le> run_max_attempts \<and> list_all wf_attempt (rs_attempts s) \<and> numbered (rs_attempts s)
     \<and> opt_ok code_ok (rs_revision s) \<and> opt_ok code_ok (rs_failure s)
     \<and> (rs_failure s = None) = (rs_status s \<noteq> RunFailed \<and> rs_status s \<noteq> RunUncertain)"

definition wf_stored_run :: "stored_run \<Rightarrow> bool" where
  [wf_defs]: "wf_stored_run r \<longleftrightarrow>
     wf_summary (sr_summary r) \<and> 1 \<le> sr_event_count r \<and> sr_event_count r \<le> run_max_events
     \<and> opt_ok wf_artifact_ref (sr_transcript r)
     \<and> (rs_revision (sr_summary r) = None) = (sr_transcript r = None)"

definition wf_run_history :: "run_history \<Rightarrow> bool" where
  [wf_defs]: "wf_run_history h \<longleftrightarrow> ident_ok (rh_run h) \<and> canonical_ts (rh_started h)"

lemma summary_roundtrip: "wf_summary s \<Longrightarrow> parse_run_summary (encode_summary s) = Inr s"
proof -
  assume wf: "wf_summary s"
  then have "imap parse_summary_attempt 0 (map encode_attempt (rs_attempts s)) = Inr (rs_attempts s)"
    by (intro imap_roundtrip)
      (simp add: parse_summary_attempt_def wf_summary_def list_all_length numbered_def attempt_roundtrip)
  then show ?thesis
    using wf by (simp add: wf_summary_def parse_run_summary_def encode_summary_def opt_ok_def parse_evals
        cong: rbind_weak_cong)
qed

lemma freeze_summary_wf [simp]: "wf_summary s \<Longrightarrow> freeze_summary s = Inr s"
  by (simp add: freeze_summary_def summary_roundtrip)

lemma parse_attempts_wf: "imap parse_summary_attempt 0 raw = Inr as \<Longrightarrow> list_all wf_attempt as \<and> numbered as"
proof
  assume p: "imap parse_summary_attempt 0 raw = Inr as"
  from p show "list_all wf_attempt as"
    by (rule imap_all) (auto simp: parse_summary_attempt_def elim!: rbind_InrE intro: parse_attempt_wf)
  from imap_Inr_nth [OF p] show "numbered as"
    by (auto simp: numbered_def parse_summary_attempt_def elim!: rbind_InrE)
qed

lemma parse_summary_wf: "parse_run_summary v = Inr s \<Longrightarrow> wf_summary s"
  unfolding parse_run_summary_def
  by (elim rbind_InrE, simp only: require_Inr sum.inject, hypsubst,
      simp only: wf_summary_def run_summary.simps, intro conjI)
    ((erule opt_field_ok, simp add: parse_iffs) | (drule parse_attempts_wf, erule conjunct1)
      | (drule parse_attempts_wf, erule conjunct2) | (drule imap_length, simp only: parse_iffs)
      | (simp only: parse_iffs) | argo)+

lemma stored_run_roundtrip: "wf_stored_run r \<Longrightarrow> parse_stored_run (encode_stored_run r) = Inr r"
  by (simp add: wf_stored_run_def parse_stored_run_def encode_stored_run_def opt_ok_def parse_evals
      summary_roundtrip artifact_ref_roundtrip cong: rbind_weak_cong)

lemma parse_stored_run_wf: "parse_stored_run v = Inr r \<Longrightarrow> wf_stored_run r"
  unfolding parse_stored_run_def
  by (elim rbind_InrE, simp only: require_Inr sum.inject, hypsubst,
      simp only: wf_stored_run_def stored_run.simps, intro conjI)
    ((erule opt_field_ok, erule parse_artifact_ref_wf) | (erule parse_summary_wf) | (simp only: parse_iffs) | argo)+

lemma stored_event_roundtrip: "wf_event e \<Longrightarrow> parse_stored_event (encode_stored_event e) = Inr e"
  by (simp add: parse_stored_event_def encode_stored_event_def parse_evals event_roundtrip cong: rbind_weak_cong)

lemma parse_stored_event_wf: "parse_stored_event v = Inr e \<Longrightarrow> wf_event e"
  unfolding parse_stored_event_def by (elim rbind_InrE) (erule parse_event_wf)

lemma event_record_wf: "wf_event e \<Longrightarrow> event_record e = Inr (encode_stored_event e)"
  by (simp add: event_record_def event_roundtrip)

lemma event_record_Inr: "event_record e = Inr v \<Longrightarrow> \<exists>e'. wf_event e' \<and> v = encode_stored_event e'"
  by (auto simp: event_record_def elim!: rbind_InrE dest: parse_event_wf)

lemma run_history_roundtrip: "wf_run_history h \<Longrightarrow> parse_run_history (encode_run_history h) = Inr h"
  by (simp add: wf_run_history_def parse_run_history_def encode_run_history_def parse_evals cong: rbind_weak_cong)

lemma parse_run_history_wf: "parse_run_history v = Inr h \<Longrightarrow> wf_run_history h"
  unfolding parse_run_history_def wf_run_history_def by (elim rbind_InrE) (auto simp: parse_iffs)

lemma status_json_ok [simp]: "json_ok (JStr s)"
  by simp

lemma summary_json_ok: "wf_summary s \<Longrightarrow> json_ok (encode_summary s)"
  by (auto simp: encode_summary_def wf_summary_def opt_ok_def list_all_iff intro: attempt_json_ok)

lemma stored_run_json_ok: "wf_stored_run r \<Longrightarrow> json_ok (encode_stored_run r)"
  by (auto simp: encode_stored_run_def wf_stored_run_def opt_ok_def run_max_events_def max_safe_integer_def
      intro: summary_json_ok artifact_ref_json_ok)

lemma stored_event_json_ok: "wf_event e \<Longrightarrow> json_ok (encode_stored_event e)"
  by (simp add: encode_stored_event_def event_json_ok max_safe_integer_def)

lemma run_history_json_ok: "json_ok (encode_run_history h)"
  by (simp add: encode_run_history_def max_safe_integer_def)

lemma same_attempt_iff: "wf_attempt l \<Longrightarrow> wf_attempt r \<Longrightarrow> same_attempt l r \<longleftrightarrow> l = r"
  unfolding same_attempt_def
  by (metis attempt_json_ok attempt_roundtrip json_text_inj sum.inject(2))

end
