(* ===== verification/ExecKeys.thy ===== *)
theory ExecKeys
  imports JsonText
begin

text \<open>
  The durable keys of the execution journal (\<^verbatim>\<open>execution-store.ts\<close>, the key functions and
  \<^verbatim>\<open>EXECUTION_STATE_PREFIXES\<close>): every record lives under the prefix of its family followed by
  SHA-256 digests of its identities. The digest function of \<^verbatim>\<open>node:crypto\<close> is the parameter
  \<open>sha\<close>, from bytes to hexadecimal text. The lemmas show that the families never share a key,
  that the events of a run are ordered by sequence number and that the history keys are
  ordered from the newest run to the oldest.
\<close>

definition prefix_conversations :: string where "prefix_conversations = ''core/conversations/''"
definition prefix_chunks :: string where "prefix_chunks = ''core/conversation-chunks/''"
definition prefix_delivery_entries :: string where "prefix_delivery_entries = ''core/conversation-delivery-entries/''"
definition prefix_sessions :: string where "prefix_sessions = ''core/sessions/''"
definition prefix_admissions :: string where "prefix_admissions = ''core/admissions/''"
definition prefix_intents :: string where "prefix_intents = ''core/artifact-intents/''"
definition prefix_runs :: string where "prefix_runs = ''core/runs/''"
definition prefix_history :: string where "prefix_history = ''core/runs/history/''"
definition prefix_events :: string where "prefix_events = ''core/runs/events/''"
definition prefix_deliveries :: string where "prefix_deliveries = ''core/deliveries/''"
definition prefix_checkpoints :: string where "prefix_checkpoints = ''core/retention/checkpoints/''"

lemmas prefix_defs =
  prefix_conversations_def prefix_chunks_def prefix_delivery_entries_def prefix_sessions_def
  prefix_admissions_def prefix_intents_def prefix_runs_def prefix_history_def prefix_events_def
  prefix_deliveries_def prefix_checkpoints_def

section \<open>Digests of identities\<close>

definition identity_digest :: "(string \<Rightarrow> string) \<Rightarrow> string \<Rightarrow> string \<Rightarrow> string result" where
  "identity_digest sha label value =
     (if text_ok 512 False value then Inr (sha value) else Inl (TypeError label))"

definition conversation_identity_digest :: "(string \<Rightarrow> string) \<Rightarrow> string \<Rightarrow> string result" where
  "conversation_identity_digest sha value =
     (if text_ok 4096 False value then Inr (sha value) else Inl (TypeError ''conversationId''))"

definition route_model_identity_digest :: "(string \<Rightarrow> string) \<Rightarrow> string \<Rightarrow> string result" where
  "route_model_identity_digest sha value =
     (if text_ok 4096 False value then Inr (sha value) else Inl (TypeError ''model''))"

definition max_date_milliseconds :: int where "max_date_milliseconds = 8640000000000000"

definition canonical_timestamp_milliseconds :: "string \<Rightarrow> string \<Rightarrow> int result" where
  "canonical_timestamp_milliseconds label value =
     (if length value \<noteq> 24 then Inl (TypeError label)
      else
        (let ms = date_ms value in
         if ms < - max_date_milliseconds \<or> max_date_milliseconds < ms \<or> to_iso ms \<noteq> value
         then Inl (TypeError label) else Inr ms))"

section \<open>Keys\<close>

definition conversation_state_key :: "(string \<Rightarrow> string) \<Rightarrow> string \<Rightarrow> string result" where
  "conversation_state_key sha conv =
     rbind (conversation_identity_digest sha conv) (\<lambda>d. Inr (prefix_conversations @ d))"

definition conversation_chunk_prefix :: "(string \<Rightarrow> string) \<Rightarrow> string \<Rightarrow> string result" where
  "conversation_chunk_prefix sha conv =
     rbind (conversation_identity_digest sha conv) (\<lambda>d. Inr (prefix_chunks @ d @ ''/''))"

definition conversation_chunk_state_key :: "(string \<Rightarrow> string) \<Rightarrow> string \<Rightarrow> nat \<Rightarrow> string \<Rightarrow> string result" where
  "conversation_chunk_state_key sha conv index digest =
     (if 999 < index then Inl (RangeError ''conversation transcript chunk index'')
      else if \<not> hex64 digest then Inl (TypeError ''conversation transcript chunk digest'')
      else rbind (conversation_chunk_prefix sha conv) (\<lambda>p.
        Inr (p @ pad_start 3 (nat_text index) @ ''-'' @ digest)))"

definition delivery_entry_state_key :: "(string \<Rightarrow> string) \<Rightarrow> string \<Rightarrow> string result" where
  "delivery_entry_state_key sha entry_id =
     rbind (identity_digest sha ''entryId'' entry_id) (\<lambda>d. Inr (prefix_delivery_entries @ d))"

definition admission_state_key :: "(string \<Rightarrow> string) \<Rightarrow> string \<Rightarrow> string result" where
  "admission_state_key sha request_id =
     rbind (identity_digest sha ''requestId'' request_id) (\<lambda>d. Inr (prefix_admissions @ d))"

definition artifact_intent_state_key :: "(string \<Rightarrow> string) \<Rightarrow> string \<Rightarrow> string result" where
  "artifact_intent_state_key sha run_id =
     rbind (identity_digest sha ''runId'' run_id) (\<lambda>d. Inr (prefix_intents @ d))"

definition session_state_key :: "(string \<Rightarrow> string) \<Rightarrow> string \<Rightarrow> string \<Rightarrow> string \<Rightarrow> string result" where
  "session_state_key sha conv instance_id model =
     rbind (parse_route_identity (JObj (req ''runtimeInstanceId'' (JStr instance_id) @ req ''model'' (JStr model)))) (\<lambda>route.
     rbind (conversation_identity_digest sha conv) (\<lambda>conversation.
     rbind (identity_digest sha ''runtimeInstanceId'' (rt_instance route)) (\<lambda>runtime.
     rbind (route_model_identity_digest sha (rt_model route)) (\<lambda>selected.
     Inr (prefix_sessions @ conversation @ ''/'' @ sha (runtime @ selected))))))"

definition run_state_key :: "(string \<Rightarrow> string) \<Rightarrow> string \<Rightarrow> string result" where
  "run_state_key sha run_id =
     rbind (identity_digest sha ''runId'' run_id) (\<lambda>d. Inr (prefix_runs @ ''records/'' @ d))"

definition run_event_prefix :: "(string \<Rightarrow> string) \<Rightarrow> string \<Rightarrow> string result" where
  "run_event_prefix sha run_id =
     rbind (identity_digest sha ''runId'' run_id) (\<lambda>d. Inr (prefix_events @ d @ ''/''))"

definition run_event_state_key :: "(string \<Rightarrow> string) \<Rightarrow> string \<Rightarrow> nat \<Rightarrow> string result" where
  "run_event_state_key sha run_id sq =
     (if 999999999 < sq then Inl (RangeError ''run event sequence'')
      else rbind (run_event_prefix sha run_id) (\<lambda>p. Inr (p @ pad_start 9 (nat_text sq))))"

definition run_history_state_key :: "(string \<Rightarrow> string) \<Rightarrow> string \<Rightarrow> string \<Rightarrow> string result" where
  "run_history_state_key sha started run_id =
     rbind (canonical_timestamp_milliseconds ''startedAt'' started) (\<lambda>ms.
     rbind (identity_digest sha ''runId'' run_id) (\<lambda>d.
     Inr (prefix_history @ pad_start 16 (nat_text (nat (max_date_milliseconds - ms))) @ ''/'' @ d)))"

definition delivery_state_key :: "(string \<Rightarrow> string) \<Rightarrow> string \<Rightarrow> string result" where
  "delivery_state_key sha idempotency_key =
     rbind (identity_digest sha ''idempotencyKey'' idempotency_key) (\<lambda>d. Inr (prefix_deliveries @ d))"

definition retention_checkpoint_state_key :: "(string \<Rightarrow> string) \<Rightarrow> string \<Rightarrow> string result" where
  "retention_checkpoint_state_key sha run_id =
     rbind (identity_digest sha ''runId'' run_id) (\<lambda>d. Inr (prefix_checkpoints @ d))"

lemma identity_digest_ok [simp]: "ident_ok v \<Longrightarrow> identity_digest sha label v = Inr (sha v)"
  by (simp add: identity_digest_def identifier_max_bytes_def)

lemma identity_digest_Inr: "identity_digest sha label v = Inr d \<longleftrightarrow> ident_ok v \<and> d = sha v"
  by (auto simp: identity_digest_def identifier_max_bytes_def)

lemma conversation_digest_Inr: "conversation_identity_digest sha v = Inr d \<longleftrightarrow> conv_id_ok v \<and> d = sha v"
  by (auto simp: conversation_identity_digest_def conversation_id_max_bytes_def)

lemma canonical_ms_Inr: "canonical_timestamp_milliseconds label v = Inr ms \<longleftrightarrow> canonical_ts v \<and> ms = date_ms v"
proof -
  have "- max_date_milliseconds \<le> date_ms v \<and> date_ms v \<le> max_date_milliseconds" if "canonical_ts v"
    using canonical_four_digit [OF that] by (simp add: four_digit_year_def max_date_milliseconds_def)
  then show ?thesis
    by (auto simp: canonical_timestamp_milliseconds_def canonical_ts_def Let_def)
qed

text \<open>Key functions with their checks discharged.\<close>

lemma key_Inr [key_simps]:
  "conversation_state_key sha c = Inr k \<longleftrightarrow> conv_id_ok c \<and> k = prefix_conversations @ sha c"
  "conversation_chunk_prefix sha c = Inr k \<longleftrightarrow> conv_id_ok c \<and> k = prefix_chunks @ sha c @ ''/''"
  "delivery_entry_state_key sha i = Inr k \<longleftrightarrow> ident_ok i \<and> k = prefix_delivery_entries @ sha i"
  "admission_state_key sha i = Inr k \<longleftrightarrow> ident_ok i \<and> k = prefix_admissions @ sha i"
  "artifact_intent_state_key sha i = Inr k \<longleftrightarrow> ident_ok i \<and> k = prefix_intents @ sha i"
  "run_state_key sha i = Inr k \<longleftrightarrow> ident_ok i \<and> k = prefix_runs @ ''records/'' @ sha i"
  "run_event_prefix sha i = Inr k \<longleftrightarrow> ident_ok i \<and> k = prefix_events @ sha i @ ''/''"
  "delivery_state_key sha i = Inr k \<longleftrightarrow> ident_ok i \<and> k = prefix_deliveries @ sha i"
  "retention_checkpoint_state_key sha i = Inr k \<longleftrightarrow> ident_ok i \<and> k = prefix_checkpoints @ sha i"
  by (auto simp: rbind_Inr_iff identity_digest_Inr conversation_digest_Inr conversation_state_key_def
      conversation_chunk_prefix_def delivery_entry_state_key_def admission_state_key_def
      artifact_intent_state_key_def run_state_key_def run_event_prefix_def delivery_state_key_def
      retention_checkpoint_state_key_def)

lemma event_key_Inr [key_simps]:
  "run_event_state_key sha i n = Inr k \<longleftrightarrow>
     n \<le> 999999999 \<and> ident_ok i \<and> k = prefix_events @ sha i @ ''/'' @ fixed_text 9 n"
  by (auto simp: run_event_state_key_def rbind_Inr_iff key_Inr pad_start_nat_text)

lemma chunk_key_Inr [key_simps]:
  "conversation_chunk_state_key sha c n d = Inr k \<longleftrightarrow>
     n \<le> 999 \<and> hex64 d \<and> conv_id_ok c \<and> k = prefix_chunks @ sha c @ ''/'' @ fixed_text 3 n @ ''-'' @ d"
  by (auto simp: conversation_chunk_state_key_def rbind_Inr_iff key_Inr pad_start_nat_text)

lemma reverse_ms_bound:
  assumes "canonical_ts t"
  shows "nat (max_date_milliseconds - date_ms t) < 10 ^ 16" "date_ms t \<le> max_date_milliseconds"
proof -
  have b: "- 62167219200000 \<le> date_ms t" "date_ms t < 253402300800000"
    using canonical_four_digit [OF assms] by (simp_all add: four_digit_year_def)
  then have "max_date_milliseconds - date_ms t < 10 ^ 16" "0 \<le> max_date_milliseconds - date_ms t"
    by (simp_all add: max_date_milliseconds_def)
  then show "nat (max_date_milliseconds - date_ms t) < 10 ^ 16" by (simp add: nat_less_iff)
  show "date_ms t \<le> max_date_milliseconds" using b by (simp add: max_date_milliseconds_def)
qed

lemma history_key_Inr [key_simps]:
  "run_history_state_key sha t i = Inr k \<longleftrightarrow>
     canonical_ts t \<and> ident_ok i
     \<and> k = prefix_history @ fixed_text 16 (nat (max_date_milliseconds - date_ms t)) @ ''/'' @ sha i"
proof -
  have "nat (max_date_milliseconds - date_ms t) < 10 ^ 16" if "canonical_ts t"
    using reverse_ms_bound [OF that] by simp
  then show ?thesis
    by (auto simp: run_history_state_key_def rbind_Inr_iff canonical_ms_Inr identity_digest_Inr pad_start_nat_text)
qed

lemma session_key_Inr [key_simps]:
  "session_state_key sha c i m = Inr k \<longleftrightarrow>
     wf_route \<lparr>rt_instance = i, rt_model = m\<rparr> \<and> conv_id_ok c \<and> ident_ok i
     \<and> k = prefix_sessions @ sha c @ ''/'' @ sha (sha i @ sha m)"
proof -
  have "parse_route_identity (JObj (req ''runtimeInstanceId'' (JStr i) @ req ''model'' (JStr m))) = Inr r \<longleftrightarrow>
      wf_route \<lparr>rt_instance = i, rt_model = m\<rparr> \<and> r = \<lparr>rt_instance = i, rt_model = m\<rparr>" for r
    by (auto simp: parse_route_identity_def rbind_Inr_iff parse_iffs wf_route_def unsafe_keys_def req_def)
  then show ?thesis
    by (auto simp: session_state_key_def rbind_Inr_iff identity_digest_Inr conversation_digest_Inr
        route_model_identity_digest_def wf_route_def)
qed

section \<open>Families are disjoint\<close>

datatype key_family =
    FamConversation | FamChunk | FamDeliveryEntry | FamSession | FamAdmission | FamIntent | FamRun
  | FamHistory | FamEvent | FamDelivery | FamCheckpoint

fun family_prefix :: "key_family \<Rightarrow> string" where
  "family_prefix FamConversation = prefix_conversations"
| "family_prefix FamChunk = prefix_chunks"
| "family_prefix FamDeliveryEntry = prefix_delivery_entries"
| "family_prefix FamSession = prefix_sessions"
| "family_prefix FamAdmission = prefix_admissions"
| "family_prefix FamIntent = prefix_intents"
| "family_prefix FamRun = prefix_runs @ ''records/''"
| "family_prefix FamHistory = prefix_history"
| "family_prefix FamEvent = prefix_events"
| "family_prefix FamDelivery = prefix_deliveries"
| "family_prefix FamCheckpoint = prefix_checkpoints"

lemma families_disjoint: "family_prefix f @ s = family_prefix g @ t \<longleftrightarrow> f = g \<and> s = t"
  by (cases f; cases g) (simp_all add: prefix_defs)

definition in_family :: "key_family \<Rightarrow> string \<Rightarrow> bool" where
  "in_family f k \<longleftrightarrow> prefix (family_prefix f) k"

lemma in_family_append [simp]: "in_family f (family_prefix g @ s) \<longleftrightarrow> f = g"
  by (metis families_disjoint in_family_def prefixE prefixI)

lemma in_family_unique: "in_family f k \<Longrightarrow> in_family g k \<Longrightarrow> f = g"
  by (metis families_disjoint in_family_def prefixE)

lemma key_families [key_simps]:
  "in_family f (prefix_conversations @ s) \<longleftrightarrow> f = FamConversation"
  "in_family f (prefix_chunks @ s) \<longleftrightarrow> f = FamChunk"
  "in_family f (prefix_delivery_entries @ s) \<longleftrightarrow> f = FamDeliveryEntry"
  "in_family f (prefix_sessions @ s) \<longleftrightarrow> f = FamSession"
  "in_family f (prefix_admissions @ s) \<longleftrightarrow> f = FamAdmission"
  "in_family f (prefix_intents @ s) \<longleftrightarrow> f = FamIntent"
  "in_family f (prefix_runs @ ''records/'' @ s) \<longleftrightarrow> f = FamRun"
  "in_family f (prefix_history @ s) \<longleftrightarrow> f = FamHistory"
  "in_family f (prefix_events @ s) \<longleftrightarrow> f = FamEvent"
  "in_family f (prefix_deliveries @ s) \<longleftrightarrow> f = FamDelivery"
  "in_family f (prefix_checkpoints @ s) \<longleftrightarrow> f = FamCheckpoint"
  using in_family_append [of f FamConversation s] in_family_append [of f FamChunk s]
    in_family_append [of f FamDeliveryEntry s] in_family_append [of f FamSession s]
    in_family_append [of f FamAdmission s] in_family_append [of f FamIntent s]
    in_family_append [of f FamRun s] in_family_append [of f FamHistory s]
    in_family_append [of f FamEvent s] in_family_append [of f FamDelivery s]
    in_family_append [of f FamCheckpoint s]
  by simp_all

section \<open>Order of event and history keys\<close>

lemma event_key_order:
  "run_event_state_key sha run a = Inr ka \<Longrightarrow> run_event_state_key sha run b = Inr kb \<Longrightarrow>
   ka < kb \<longleftrightarrow> a < b"
  by (simp add: event_key_Inr append_less_same fixed_text_less)

lemma history_key_order:
  assumes "run_history_state_key sha s a = Inr ka" "run_history_state_key sha t b = Inr kb" "s < t"
  shows "kb < ka"
proof -
  have c: "canonical_ts s" "canonical_ts t" using assms by (auto simp: history_key_Inr)
  have b: "nat (max_date_milliseconds - date_ms u) < 10 ^ 16 \<and> date_ms u \<le> max_date_milliseconds"
    if "canonical_ts u" for u
    using reverse_ms_bound [OF that] by simp
  have "nat (max_date_milliseconds - date_ms t) < nat (max_date_milliseconds - date_ms s)"
    using assms(3) c b [OF c(2)] canonical_less [OF c] by simp
  then show ?thesis
    using assms b [OF c(1)] b [OF c(2)]
    by (auto simp: history_key_Inr append_less_same append_same_length_less fixed_text_less)
qed

end
