(* ===== verification/RecordCodec.thy ===== *)
theory RecordCodec
  imports RunCodec ExecKeys
begin

text \<open>
  The journal's bookkeeping records (\<^verbatim>\<open>execution-journal-records.ts\<close>, parsers of
  \<^verbatim>\<open>execution-codec.ts\<close>): admissions, delivery receipts, the link from a delivery to the
  conversation entry it appended, artifact publication intents and retention checkpoints, with
  the operations on artifact descriptors and references.
\<close>

definition run_artifact_max_items :: nat where "run_artifact_max_items = 512"
definition run_content_artifact_max_total_bytes :: nat where "run_content_artifact_max_total_bytes = 67108864"
definition max_conversation_entries :: nat where "max_conversation_entries = 50000"

section \<open>Admissions\<close>

datatype admission_status = AdmRunning | AdmSettled | AdmUncertain

definition admission_statuses :: "(string \<times> admission_status) list" where
  "admission_statuses = [(''running'', AdmRunning), (''settled'', AdmSettled), (''uncertain'', AdmUncertain)]"

lemma admission_enum [simp]: "enum_ok admission_statuses"
  by (rule enum_ok_cases, case_tac a) (simp_all add: admission_statuses_def)

record admission =
  ad_request :: string
  ad_conv :: string
  ad_fingerprint :: string
  ad_run :: string
  ad_status :: admission_status
  ad_started :: string
  ad_updated :: string
  ad_lease :: string
  ad_settled :: "run_status option"
  ad_response :: "artifact_ref option"

definition parse_admission :: "js \<Rightarrow> admission result" where
  "parse_admission v =
     rbind (own_data_record ''admission record''
              [''schemaVersion'', ''kind'', ''requestId'', ''conversationId'', ''fingerprint'', ''runId'', ''status'',
               ''startedAt'', ''updatedAt'', ''leaseExpiresAt'', ''settledStatus'', ''responseRef''] v) (\<lambda>input.
     rbind (require (fld input ''schemaVersion'' = JNum 1 \<and> fld input ''kind'' = JStr ''mono-agent.admission'')
              (TypeError ''admission record'')) (\<lambda>_.
     rbind (string_enum ''admission record.status'' admission_statuses (fld input ''status'')) (\<lambda>status.
     rbind (opt_field (terminal_run_status ''admission record.settledStatus'') (fld input ''settledStatus'')) (\<lambda>settled.
     rbind (require (\<not> ((status = AdmRunning) = (settled \<noteq> None))) (TypeError ''admission record settlement'')) (\<lambda>_.
     rbind (opt_field parse_artifact_ref (fld input ''responseRef'')) (\<lambda>response.
     rbind (require (\<not> (status = AdmRunning \<and> response \<noteq> None)) (TypeError ''running admission'')) (\<lambda>_.
     rbind (bounded_identifier ''admission record.requestId'' (fld input ''requestId'')) (\<lambda>request.
     rbind (bounded_conversation_id ''admission record.conversationId'' (fld input ''conversationId'')) (\<lambda>conv.
     rbind (parse_fingerprint ''admission record.fingerprint'' (fld input ''fingerprint'')) (\<lambda>fingerprint.
     rbind (bounded_identifier ''admission record.runId'' (fld input ''runId'')) (\<lambda>run.
     rbind (canonical_timestamp ''admission record.startedAt'' (fld input ''startedAt'')) (\<lambda>started.
     rbind (canonical_timestamp ''admission record.updatedAt'' (fld input ''updatedAt'')) (\<lambda>updated.
     rbind (canonical_timestamp ''admission record.leaseExpiresAt'' (fld input ''leaseExpiresAt'')) (\<lambda>lease.
     Inr \<lparr>ad_request = request, ad_conv = conv, ad_fingerprint = fingerprint, ad_run = run, ad_status = status,
       ad_started = started, ad_updated = updated, ad_lease = lease, ad_settled = settled,
       ad_response = response\<rparr>))))))))))))))"

definition encode_admission :: "admission \<Rightarrow> js" where
  "encode_admission a =
     JObj (req ''schemaVersion'' (JNum 1) @ req ''kind'' (JStr ''mono-agent.admission'')
       @ req ''requestId'' (JStr (ad_request a)) @ req ''conversationId'' (JStr (ad_conv a))
       @ req ''fingerprint'' (JStr (ad_fingerprint a)) @ req ''runId'' (JStr (ad_run a))
       @ req ''status'' (JStr (enum_text admission_statuses (ad_status a)))
       @ req ''startedAt'' (JStr (ad_started a)) @ req ''updatedAt'' (JStr (ad_updated a))
       @ req ''leaseExpiresAt'' (JStr (ad_lease a))
       @ opt ''settledStatus'' (\<lambda>s. JStr (status_text s)) (ad_settled a)
       @ opt ''responseRef'' encode_artifact_ref (ad_response a))"

definition wf_admission :: "admission \<Rightarrow> bool" where
  [wf_defs]: "wf_admission a \<longleftrightarrow>
     ident_ok (ad_request a) \<and> conv_id_ok (ad_conv a) \<and> fingerprint_ok (ad_fingerprint a) \<and> ident_ok (ad_run a)
     \<and> canonical_ts (ad_started a) \<and> canonical_ts (ad_updated a) \<and> canonical_ts (ad_lease a)
     \<and> opt_ok (\<lambda>s. s \<noteq> RunRunning) (ad_settled a) \<and> (ad_settled a = None) = (ad_status a = AdmRunning)
     \<and> opt_ok wf_artifact_ref (ad_response a) \<and> (ad_status a = AdmRunning \<longrightarrow> ad_response a = None)"

lemma admission_roundtrip: "wf_admission a \<Longrightarrow> parse_admission (encode_admission a) = Inr a"
  by (simp add: wf_admission_def parse_admission_def encode_admission_def opt_ok_def parse_evals
      artifact_ref_roundtrip cong: rbind_weak_cong)

lemma parse_admission_wf: "parse_admission v = Inr a \<Longrightarrow> wf_admission a"
  unfolding parse_admission_def
  by (elim rbind_InrE, simp only: require_Inr sum.inject, hypsubst,
      simp only: wf_admission_def admission.simps, intro conjI)
    ((erule opt_field_ok, erule parse_artifact_ref_wf)
      | (erule opt_field_ok, drule terminal_run_status_wf, erule conjunct1) | (simp only: parse_iffs) | argo)+

lemma admission_json_ok: "wf_admission a \<Longrightarrow> json_ok (encode_admission a)"
  by (auto simp: encode_admission_def wf_admission_def opt_ok_def max_safe_integer_def intro: artifact_ref_json_ok)

section \<open>Delivery receipts\<close>

datatype delivery_status = DelIntent | DelDelivered | DelFailed | DelUnknown

definition delivery_statuses :: "(string \<times> delivery_status) list" where
  "delivery_statuses =
     [(''intent'', DelIntent), (''delivered'', DelDelivered), (''failed'', DelFailed), (''unknown'', DelUnknown)]"

lemma delivery_enum [simp]: "enum_ok delivery_statuses"
  by (rule enum_ok_cases, case_tac a) (simp_all add: delivery_statuses_def)

record delivery =
  de_key :: string
  de_fingerprint :: string
  de_channel :: string
  de_run :: "string option"
  de_status :: delivery_status
  de_attempts :: nat
  de_token :: string
  de_created :: string
  de_updated :: string
  de_lease :: "string option"
  de_message :: "string option"
  de_code :: "string option"
  de_history_entry :: "string option"
  de_history_conv :: "string option"
  de_history_fingerprint :: "string option"
  de_history_digest :: "string option"

definition present :: "'a option \<Rightarrow> nat" where
  "present x = (if x = None then 0 else 1)"

definition max_delivery_attempts :: nat where "max_delivery_attempts = 10000"

definition parse_delivery :: "js \<Rightarrow> delivery result" where
  "parse_delivery v =
     rbind (own_data_record ''delivery record''
              [''schemaVersion'', ''kind'', ''idempotencyKey'', ''fingerprint'', ''channelInstanceId'', ''runId'', ''status'',
               ''attempts'', ''attemptToken'', ''createdAt'', ''updatedAt'', ''leaseExpiresAt'', ''messageId'', ''code'',
               ''historyEntryId'', ''historyConversationId'', ''historyEntryFingerprint'', ''historyEntryDigest''] v) (\<lambda>input.
     rbind (require (fld input ''schemaVersion'' = JNum 1 \<and> fld input ''kind'' = JStr ''mono-agent.delivery'')
              (TypeError ''delivery record'')) (\<lambda>_.
     rbind (string_enum ''delivery record.status'' delivery_statuses (fld input ''status'')) (\<lambda>status.
     rbind (opt_field (canonical_timestamp ''delivery record.leaseExpiresAt'') (fld input ''leaseExpiresAt'')) (\<lambda>lease.
     rbind (opt_field (bounded_identifier ''delivery record.messageId'') (fld input ''messageId'')) (\<lambda>message.
     rbind (opt_field (bounded_code ''delivery record.code'') (fld input ''code'')) (\<lambda>code.
     rbind (opt_field (bounded_identifier ''delivery record.historyEntryId'') (fld input ''historyEntryId'')) (\<lambda>hentry.
     rbind (opt_field (bounded_conversation_id ''delivery record.historyConversationId'')
              (fld input ''historyConversationId'')) (\<lambda>hconv.
     rbind (opt_field (parse_fingerprint ''delivery record.historyEntryFingerprint'')
              (fld input ''historyEntryFingerprint'')) (\<lambda>hfingerprint.
     rbind (opt_field (parse_fingerprint ''delivery record.historyEntryDigest'') (fld input ''historyEntryDigest'')) (\<lambda>hdigest.
     let authority = present hentry + present hconv + present hfingerprint + present hdigest in
     rbind (require (\<not> ((status = DelIntent) \<noteq> (lease \<noteq> None))) (TypeError ''delivery intent lease'')) (\<lambda>_.
     rbind (require (\<not> (status \<noteq> DelDelivered \<and> message \<noteq> None)) (TypeError ''non-delivered state'')) (\<lambda>_.
     rbind (require (\<not> ((status = DelFailed \<or> status = DelUnknown) \<noteq> (code \<noteq> None))) (TypeError ''delivery diagnostic'')) (\<lambda>_.
     rbind (require (\<not> (authority \<noteq> 0 \<and> (authority \<noteq> 4 \<or> status \<noteq> DelDelivered)))
              (TypeError ''delivery destination-history authority'')) (\<lambda>_.
     rbind (bounded_identifier ''delivery record.idempotencyKey'' (fld input ''idempotencyKey'')) (\<lambda>key.
     rbind (parse_fingerprint ''delivery record.fingerprint'' (fld input ''fingerprint'')) (\<lambda>fingerprint.
     rbind (bounded_identifier ''delivery record.channelInstanceId'' (fld input ''channelInstanceId'')) (\<lambda>channel.
     rbind (opt_field (bounded_identifier ''delivery record.runId'') (fld input ''runId'')) (\<lambda>run.
     rbind (bounded_integer ''delivery record.attempts'' 1 max_delivery_attempts (fld input ''attempts'')) (\<lambda>attempts.
     rbind (bounded_identifier ''delivery record.attemptToken'' (fld input ''attemptToken'')) (\<lambda>token.
     rbind (canonical_timestamp ''delivery record.createdAt'' (fld input ''createdAt'')) (\<lambda>created.
     rbind (canonical_timestamp ''delivery record.updatedAt'' (fld input ''updatedAt'')) (\<lambda>updated.
     Inr \<lparr>de_key = key, de_fingerprint = fingerprint, de_channel = channel, de_run = run, de_status = status,
       de_attempts = attempts, de_token = token, de_created = created, de_updated = updated, de_lease = lease,
       de_message = message, de_code = code, de_history_entry = hentry, de_history_conv = hconv,
       de_history_fingerprint = hfingerprint, de_history_digest = hdigest\<rparr>))))))))))))))))))))))"

definition encode_delivery :: "delivery \<Rightarrow> js" where
  "encode_delivery d =
     JObj (req ''schemaVersion'' (JNum 1) @ req ''kind'' (JStr ''mono-agent.delivery'')
       @ req ''idempotencyKey'' (JStr (de_key d)) @ req ''fingerprint'' (JStr (de_fingerprint d))
       @ req ''channelInstanceId'' (JStr (de_channel d)) @ opt ''runId'' JStr (de_run d)
       @ req ''status'' (JStr (enum_text delivery_statuses (de_status d)))
       @ req ''attempts'' (JNum (int (de_attempts d))) @ req ''attemptToken'' (JStr (de_token d))
       @ req ''createdAt'' (JStr (de_created d)) @ req ''updatedAt'' (JStr (de_updated d))
       @ opt ''leaseExpiresAt'' JStr (de_lease d) @ opt ''messageId'' JStr (de_message d)
       @ opt ''code'' JStr (de_code d) @ opt ''historyEntryId'' JStr (de_history_entry d)
       @ opt ''historyConversationId'' JStr (de_history_conv d)
       @ opt ''historyEntryFingerprint'' JStr (de_history_fingerprint d)
       @ opt ''historyEntryDigest'' JStr (de_history_digest d))"

definition history_count :: "delivery \<Rightarrow> nat" where
  "history_count d = present (de_history_entry d) + present (de_history_conv d)
     + present (de_history_fingerprint d) + present (de_history_digest d)"

definition wf_delivery :: "delivery \<Rightarrow> bool" where
  [wf_defs]: "wf_delivery d \<longleftrightarrow>
     ident_ok (de_key d) \<and> fingerprint_ok (de_fingerprint d) \<and> ident_ok (de_channel d) \<and> opt_ok ident_ok (de_run d)
     \<and> 1 \<le> de_attempts d \<and> de_attempts d \<le> max_delivery_attempts \<and> ident_ok (de_token d)
     \<and> canonical_ts (de_created d) \<and> canonical_ts (de_updated d)
     \<and> opt_ok canonical_ts (de_lease d) \<and> (de_lease d = None) = (de_status d \<noteq> DelIntent)
     \<and> opt_ok ident_ok (de_message d) \<and> (de_status d = DelDelivered \<or> de_message d = None)
     \<and> opt_ok code_ok (de_code d) \<and> (de_code d = None) = (de_status d \<noteq> DelFailed \<and> de_status d \<noteq> DelUnknown)
     \<and> opt_ok ident_ok (de_history_entry d) \<and> opt_ok conv_id_ok (de_history_conv d)
     \<and> opt_ok fingerprint_ok (de_history_fingerprint d) \<and> opt_ok fingerprint_ok (de_history_digest d)
     \<and> \<not> (history_count d \<noteq> 0 \<and> (history_count d \<noteq> 4 \<or> de_status d \<noteq> DelDelivered))"

lemma delivery_roundtrip: "wf_delivery d \<Longrightarrow> parse_delivery (encode_delivery d) = Inr d"
  by (simp add: wf_delivery_def history_count_def parse_delivery_def encode_delivery_def opt_ok_def parse_evals Let_def
      cong: rbind_weak_cong)

lemma parse_delivery_wf: "parse_delivery v = Inr d \<Longrightarrow> wf_delivery d"
  unfolding parse_delivery_def Let_def
  by (elim rbind_InrE, simp only: require_Inr sum.inject, hypsubst,
      simp only: wf_delivery_def history_count_def delivery.simps, intro conjI)
    ((erule opt_field_ok, simp only: parse_iffs) | (simp only: parse_iffs) | argo)+

lemma delivery_json_ok: "wf_delivery d \<Longrightarrow> json_ok (encode_delivery d)"
  by (auto simp: encode_delivery_def wf_delivery_def opt_ok_def max_safe_integer_def max_delivery_attempts_def)

definition assert_delivery_key_authority :: "delivery \<Rightarrow> string \<Rightarrow> unit result" where
  "assert_delivery_key_authority d key =
     require (de_key d = key) (PlainError ''delivery record key does not match its idempotency identity'')"

end
