(* ===== verification/ArtifactCodec.thy ===== *)
theory ArtifactCodec
  imports RecordCodec
begin

text \<open>
  Artifact bookkeeping of a run (\<^verbatim>\<open>execution-codec.ts\<close>): publication descriptors and the intent
  record that names them before any byte is written, the retention checkpoint, the delivery link
  of a conversation entry, and the operations that merge descriptors and collect references.
\<close>

definition internal_slot_prefix :: string where "internal_slot_prefix = ''@core/''"
definition transcript_slot :: string where "transcript_slot = ''@core/transcript''"
definition response_slot :: string where "response_slot = ''@core/response''"

definition internal_slot :: "string \<Rightarrow> bool" where
  "internal_slot s = prefix internal_slot_prefix s"

section \<open>Publication descriptors\<close>

record artifact_descriptor =
  pd_slot :: string
  pd_sha256 :: string
  pd_size :: nat
  pd_media :: string
  pd_file :: "string option"

definition artifact_slot :: "string \<Rightarrow> bool \<Rightarrow> js \<Rightarrow> string result" where
  "artifact_slot path allow_internal v =
     rbind (bounded_identifier path v) (\<lambda>slot.
     if internal_slot slot then
       if \<not> allow_internal then Inl (TypeError path)
       else if slot \<noteq> transcript_slot \<and> slot \<noteq> response_slot then Inl (TypeError path)
       else Inr slot
     else Inr slot)"

text \<open>\<^verbatim>\<open>String(input.sha256)\<close> is only read when the reference parser has accepted the digest.\<close>

definition parse_descriptor :: "string \<Rightarrow> js \<Rightarrow> artifact_descriptor result" where
  "parse_descriptor path v =
     rbind (own_data_record path [''slot'', ''sha256'', ''sizeBytes'', ''mediaType'', ''fileName''] v) (\<lambda>input.
     rbind (parse_artifact_ref (JObj
              (req ''id'' (case fld input ''sha256'' of JStr s \<Rightarrow> JStr (''artifact:'' @ s) | _ \<Rightarrow> JUndef)
               @ req ''sha256'' (fld input ''sha256'') @ req ''sizeBytes'' (fld input ''sizeBytes'')
               @ req ''mediaType'' (fld input ''mediaType'')
               @ (if fld input ''fileName'' = JUndef then [] else req ''fileName'' (fld input ''fileName''))))) (\<lambda>r.
     rbind (artifact_slot (path @ ''.slot'') True (fld input ''slot'')) (\<lambda>slot.
     Inr \<lparr>pd_slot = slot, pd_sha256 = ar_sha256 r, pd_size = ar_size r, pd_media = ar_media r, pd_file = ar_file r\<rparr>)))"

definition encode_descriptor :: "artifact_descriptor \<Rightarrow> js" where
  "encode_descriptor d =
     JObj (req ''slot'' (JStr (pd_slot d)) @ req ''sha256'' (JStr (pd_sha256 d))
       @ req ''sizeBytes'' (JNum (int (pd_size d))) @ req ''mediaType'' (JStr (pd_media d))
       @ opt ''fileName'' JStr (pd_file d))"

definition ref_of_descriptor :: "artifact_descriptor \<Rightarrow> artifact_ref" where
  "ref_of_descriptor d =
     \<lparr>ar_id = ''artifact:'' @ pd_sha256 d, ar_sha256 = pd_sha256 d, ar_size = pd_size d, ar_media = pd_media d,
      ar_file = pd_file d\<rparr>"

definition artifact_reference :: "artifact_descriptor \<Rightarrow> artifact_ref result" where
  "artifact_reference d = parse_artifact_ref (encode_artifact_ref (ref_of_descriptor d))"

definition slot_ok :: "string \<Rightarrow> bool" where
  "slot_ok s \<longleftrightarrow> ident_ok s \<and> (internal_slot s \<longrightarrow> s = transcript_slot \<or> s = response_slot)"

definition wf_descriptor :: "artifact_descriptor \<Rightarrow> bool" where
  [wf_defs]: "wf_descriptor d \<longleftrightarrow> slot_ok (pd_slot d) \<and> wf_artifact_ref (ref_of_descriptor d)"

definition same_descriptor :: "artifact_descriptor \<Rightarrow> artifact_descriptor \<Rightarrow> bool" where
  "same_descriptor l r \<longleftrightarrow> pd_slot l = pd_slot r \<and> pd_sha256 l = pd_sha256 r \<and> pd_size l = pd_size r
     \<and> pd_media l = pd_media r \<and> pd_file l = pd_file r"

definition same_artifact_ref :: "artifact_ref option \<Rightarrow> artifact_ref \<Rightarrow> bool" where
  "same_artifact_ref l r = (case l of None \<Rightarrow> False | Some x \<Rightarrow> ar_sha256 x = ar_sha256 r \<and> ar_size x = ar_size r)"

lemma same_descriptor_eq: "same_descriptor l r \<longleftrightarrow> l = r"
  unfolding same_descriptor_def by (metis artifact_descriptor.equality old.unit.exhaust)

lemma artifact_slot_Inr [parse_iffs]: "artifact_slot path True v = Inr s \<longleftrightarrow> v = JStr s \<and> slot_ok s"
proof
  assume "artifact_slot path True v = Inr s"
  then obtain t where t: "bounded_identifier path v = Inr t" and
    "(if internal_slot t then if \<not> True then Inl (TypeError path)
       else if t \<noteq> transcript_slot \<and> t \<noteq> response_slot then Inl (TypeError path) else Inr t
      else Inr t) = Inr s"
    unfolding artifact_slot_def by (elim rbind_InrE) blast
  then show "v = JStr s \<and> slot_ok s"
    unfolding slot_ok_def bounded_identifier_Inr by (auto split: if_splits)
next
  assume "v = JStr s \<and> slot_ok s"
  then show "artifact_slot path True v = Inr s"
    by (auto simp: artifact_slot_def slot_ok_def scalar_evals)
qed

lemma artifact_slot_eval [parse_evals]: "slot_ok s \<Longrightarrow> artifact_slot path True (JStr s) = Inr s"
  by (simp only: artifact_slot_Inr simp_thms)

lemma artifact_reference_wf: "wf_descriptor d \<Longrightarrow> artifact_reference d = Inr (ref_of_descriptor d)"
  by (simp add: artifact_reference_def wf_descriptor_def artifact_ref_roundtrip)

lemma descriptor_roundtrip: "wf_descriptor d \<Longrightarrow> parse_descriptor path (encode_descriptor d) = Inr d"
proof -
  assume wf: "wf_descriptor d"
  have "JObj (req ''id'' (JStr (''artifact:'' @ pd_sha256 d)) @ req ''sha256'' (JStr (pd_sha256 d))
      @ req ''sizeBytes'' (JNum (int (pd_size d))) @ req ''mediaType'' (JStr (pd_media d))
      @ (case pd_file d of None \<Rightarrow> [] | Some f \<Rightarrow> req ''fileName'' (JStr f)))
      = encode_artifact_ref (ref_of_descriptor d)"
    by (simp add: encode_artifact_ref_def ref_of_descriptor_def req_def opt_def split: option.splits)
  then have "parse_artifact_ref (JObj (req ''id'' (JStr (''artifact:'' @ pd_sha256 d)) @ req ''sha256'' (JStr (pd_sha256 d))
      @ req ''sizeBytes'' (JNum (int (pd_size d))) @ req ''mediaType'' (JStr (pd_media d))
      @ (case pd_file d of None \<Rightarrow> [] | Some f \<Rightarrow> req ''fileName'' (JStr f)))) = Inr (ref_of_descriptor d)"
    using wf by (simp add: wf_descriptor_def artifact_ref_roundtrip)
  then show ?thesis
    using wf by (cases "pd_file d")
      (simp_all add: parse_descriptor_def encode_descriptor_def wf_descriptor_def parse_evals ref_of_descriptor_def
        cong: rbind_weak_cong)
qed

lemma parse_descriptor_wf: "parse_descriptor path v = Inr d \<Longrightarrow> wf_descriptor d"
proof -
  assume "parse_descriptor path v = Inr d"
  then obtain input r where
    r: "parse_artifact_ref (JObj
              (req ''id'' (case fld input ''sha256'' of JStr s \<Rightarrow> JStr (''artifact:'' @ s) | _ \<Rightarrow> JUndef)
               @ req ''sha256'' (fld input ''sha256'') @ req ''sizeBytes'' (fld input ''sizeBytes'')
               @ req ''mediaType'' (fld input ''mediaType'')
               @ (if fld input ''fileName'' = JUndef then [] else req ''fileName'' (fld input ''fileName'')))) = Inr r"
    and d: "slot_ok (pd_slot d)" "pd_sha256 d = ar_sha256 r" "pd_size d = ar_size r" "pd_media d = ar_media r"
      "pd_file d = ar_file r"
    unfolding parse_descriptor_def by (elim rbind_InrE) (auto simp: parse_iffs)
  have "ar_id r = ''artifact:'' @ ar_sha256 r"
    using r unfolding parse_artifact_ref_def
    by (elim rbind_InrE) (auto simp: parse_iffs split: js.splits)
  then have "ref_of_descriptor d = r"
    using d by (cases r) (simp add: ref_of_descriptor_def)
  then show ?thesis using d(1) parse_artifact_ref_wf [OF r] by (simp add: wf_descriptor_def)
qed

section \<open>Bounds and merging\<close>

definition content_bytes :: "artifact_descriptor list \<Rightarrow> nat" where
  "content_bytes ds = sum_list (map (\<lambda>d. if internal_slot (pd_slot d) then 0 else pd_size d) ds)"

definition assert_publication_bounds :: "artifact_descriptor list \<Rightarrow> unit result" where
  "assert_publication_bounds ds =
     require (\<not> (max_safe_integer < int (content_bytes ds) \<or> run_content_artifact_max_total_bytes < content_bytes ds))
       (RangeError ''staged run content'')"

fun find_slot :: "artifact_descriptor list \<Rightarrow> string \<Rightarrow> artifact_descriptor option" where
  "find_slot [] s = None"
| "find_slot (d # ds) s = (if pd_slot d = s then Some d else find_slot ds s)"

text \<open>The loop of \<^verbatim>\<open>mergeArtifactPublicationDescriptors\<close>: \<open>merged\<close> is the list that grows, and its
  rows are what the map \<^verbatim>\<open>bySlot\<close> holds.\<close>

fun merge_loop :: "artifact_descriptor list \<Rightarrow> artifact_descriptor list \<Rightarrow> artifact_descriptor list result" where
  "merge_loop merged [] = Inr merged"
| "merge_loop merged (d # ds) =
     (case find_slot merged (pd_slot d) of
        Some existing \<Rightarrow>
          if \<not> same_descriptor existing d
          then Inl (PlainError (''artifact publication slot '' @ pd_slot d @ '' cannot be rewritten''))
          else merge_loop merged ds
      | None \<Rightarrow> merge_loop (merged @ [d]) ds)"

definition merge_descriptors :: "artifact_descriptor list \<Rightarrow> artifact_descriptor list \<Rightarrow> artifact_descriptor list result" where
  "merge_descriptors first second =
     rbind (merge_loop first second) (\<lambda>merged.
     if run_artifact_max_items < length merged then Inl (RangeError ''artifact publication intent'')
     else rbind (assert_publication_bounds merged) (\<lambda>_. Inr merged))"

definition slots :: "artifact_descriptor list \<Rightarrow> string list" where
  "slots ds = map pd_slot ds"

lemma find_slot_None: "find_slot ds s = None \<longleftrightarrow> s \<notin> set (slots ds)"
  by (induction ds) (auto simp: slots_def)

lemma find_slot_Some: "find_slot ds s = Some d \<Longrightarrow> d \<in> set ds \<and> pd_slot d = s"
  by (induction ds) (auto split: if_splits)

lemma find_slot_append: "find_slot (xs @ ys) s = (case find_slot xs s of None \<Rightarrow> find_slot ys s | Some d \<Rightarrow> Some d)"
  by (induction xs) auto

lemma find_slot_unique: "distinct (slots ds) \<Longrightarrow> d \<in> set ds \<Longrightarrow> find_slot ds (pd_slot d) = Some d"
  by (induction ds) (auto simp: slots_def image_iff)

lemma merge_loop_Inr:
  assumes "merge_loop merged ds = Inr out" "distinct (slots merged)"
  shows "distinct (slots out) \<and> prefix merged out \<and> set out = set merged \<union> set ds"
  using assms
proof (induction ds arbitrary: merged)
  case Nil
  then show ?case by simp
next
  case (Cons d ds)
  show ?case
  proof (cases "find_slot merged (pd_slot d)")
    case None
    then have "distinct (slots (merged @ [d]))" using Cons.prems by (auto simp: slots_def find_slot_None)
    with None Cons show ?thesis by (fastforce simp: prefix_def)
  next
    case (Some e)
    with Cons.prems have "e = d" by (simp add: same_descriptor_eq split: if_splits)
    with Some have "d \<in> set merged" using find_slot_Some by blast
    with Some \<open>e = d\<close> Cons show ?thesis by (auto simp: same_descriptor_eq)
  qed
qed

text \<open>A merge keeps every slot bound to the descriptor it had and adds the new ones once.\<close>

lemma merge_descriptors_Inr:
  assumes "merge_descriptors first second = Inr out" "distinct (slots first)"
  shows "distinct (slots out)" "prefix first out" "set out = set first \<union> set second"
    "length out \<le> run_artifact_max_items" "content_bytes out \<le> run_content_artifact_max_total_bytes"
  using assms merge_loop_Inr [of first second out]
  by (auto simp: merge_descriptors_def rbind_Inr_iff assert_publication_bounds_def split: if_splits)

lemma merge_loop_conflict:
  assumes "e \<in> set merged" "d \<in> set ds" "pd_slot e = pd_slot d" "e \<noteq> d" "distinct (slots merged)"
  shows "\<exists>s. merge_loop merged ds = Inl (PlainError (''artifact publication slot '' @ s @ '' cannot be rewritten''))"
  using assms
proof (induction ds arbitrary: merged)
  case Nil
  then show ?case by simp
next
  case (Cons x ds)
  show ?case
  proof (cases "find_slot merged (pd_slot x)")
    case None
    then have dist: "distinct (slots (merged @ [x]))" using Cons.prems(5) by (auto simp: slots_def find_slot_None)
    have "pd_slot e \<in> set (slots merged)" using Cons.prems(1) by (simp add: slots_def)
    then have "x \<noteq> d" using None Cons.prems(3) by (auto simp: find_slot_None)
    then have "d \<in> set ds" using Cons.prems(2) by simp
    then show ?thesis using None Cons.IH [OF _ _ Cons.prems(3,4) dist] Cons.prems(1) by simp
  next
    case (Some y)
    show ?thesis
    proof (cases "y = x")
      case True
      then have "x \<noteq> d"
        using Some find_slot_unique [OF Cons.prems(5,1)] Cons.prems(3,4) by auto
      then show ?thesis using Some True Cons by (auto simp: same_descriptor_eq)
    next
      case False
      then show ?thesis using Some by (auto simp: same_descriptor_eq)
    qed
  qed
qed

lemma merge_loop_idem: "set ds \<subseteq> set merged \<Longrightarrow> distinct (slots merged) \<Longrightarrow> merge_loop merged ds = Inr merged"
  by (induction ds) (auto simp: find_slot_unique same_descriptor_eq)

section \<open>Unique references\<close>

text \<open>The loop of \<^verbatim>\<open>uniqueArtifactRefs\<close> over its \<^verbatim>\<open>Map\<close> keyed by digest.\<close>

fun unique_refs_loop :: "(string \<times> artifact_ref) list \<Rightarrow> artifact_ref option list \<Rightarrow> artifact_ref list result" where
  "unique_refs_loop unique [] = Inr (map snd unique)"
| "unique_refs_loop unique (None # vs) = unique_refs_loop unique vs"
| "unique_refs_loop unique (Some v # vs) =
     rbind (parse_artifact_ref (encode_artifact_ref v)) (\<lambda>ref.
     if (case map_of unique (ar_sha256 ref) of None \<Rightarrow> False
         | Some e \<Rightarrow> ar_size e \<noteq> ar_size ref \<or> ar_id e \<noteq> ar_id ref)
     then Inl (PlainError ''one artifact digest has inconsistent durable authority'')
     else unique_refs_loop (AList.update (ar_sha256 ref) ref unique) vs)"

definition unique_artifact_refs :: "artifact_ref option list \<Rightarrow> artifact_ref list result" where
  "unique_artifact_refs vs = unique_refs_loop [] vs"

definition digest_map_ok :: "(string \<times> artifact_ref) list \<Rightarrow> bool" where
  "digest_map_ok u \<longleftrightarrow> distinct (map fst u) \<and> (\<forall>kv \<in> set u. fst kv = ar_sha256 (snd kv) \<and> wf_artifact_ref (snd kv))"

lemma digest_map_update:
  "digest_map_ok u \<Longrightarrow> wf_artifact_ref r \<Longrightarrow> digest_map_ok (AList.update (ar_sha256 r) r u)"
proof -
  assume u: "digest_map_ok u" and r: "wf_artifact_ref r"
  have "set (AList.update k v al) \<subseteq> insert (k, v) (set al)" for k v and al :: "(string \<times> artifact_ref) list"
    by (induction al) auto
  with u r show ?thesis by (fastforce simp: digest_map_ok_def)
qed

lemma digest_map_distinct: "digest_map_ok u \<Longrightarrow> distinct (map ar_sha256 (map snd u))"
proof -
  assume u: "digest_map_ok u"
  then have "map ar_sha256 (map snd u) = map fst u" by (auto simp: digest_map_ok_def)
  with u show ?thesis by (simp only: digest_map_ok_def)
qed

lemma digests_after_update:
  "fst ` set (AList.update k v al) = insert k (fst ` set al)"
  by (induction al) auto

text \<open>One reference per digest remains, every given digest is kept, and all are well formed.\<close>

lemma unique_refs_loop_Inr:
  assumes "unique_refs_loop u vs = Inr out" "digest_map_ok u"
  shows "distinct (map ar_sha256 out) \<and> list_all wf_artifact_ref out
     \<and> set (map ar_sha256 out) = set (map fst u) \<union> {ar_sha256 r | r. Some r \<in> set vs}"
  using assms
proof (induction u vs rule: unique_refs_loop.induct)
  case (1 u)
  then have "out = map snd u" by simp
  moreover have "set (map ar_sha256 (map snd u)) = set (map fst u)"
    using 1(2) by (force simp: digest_map_ok_def)
  ultimately show ?case
    using digest_map_distinct [OF 1(2)] 1(2) by (auto simp: digest_map_ok_def list_all_iff)
next
  case (2 u vs)
  then show ?case by simp
next
  case (3 u v vs)
  from 3(2) obtain r where r: "parse_artifact_ref (encode_artifact_ref v) = Inr r"
    and rest: "unique_refs_loop (AList.update (ar_sha256 r) r u) vs = Inr out"
    by (auto elim!: rbind_InrE split: if_splits)
  have wf: "wf_artifact_ref r" by (rule parse_artifact_ref_wf [OF r])
  have sha: "ar_sha256 r = ar_sha256 v"
    using r unfolding parse_artifact_ref_def encode_artifact_ref_def
    by (elim rbind_InrE) (auto simp: parse_iffs)
  have ok: "digest_map_ok (AList.update (ar_sha256 r) r u)" by (rule digest_map_update [OF 3(3) wf])
  have cond: "\<not> (case map_of u (ar_sha256 r) of None \<Rightarrow> False | Some e \<Rightarrow> ar_size e \<noteq> ar_size r \<or> ar_id e \<noteq> ar_id r)"
    using 3(2) r by (auto split: if_splits)
  from 3(1) [OF r cond rest ok] show ?case
    by (auto simp: digests_after_update sha)
qed

lemma unique_artifact_refs_Inr:
  assumes "unique_artifact_refs vs = Inr out"
  shows "distinct (map ar_sha256 out)" "list_all wf_artifact_ref out"
    "set (map ar_sha256 out) = {ar_sha256 r | r. Some r \<in> set vs}"
  using unique_refs_loop_Inr [of "[]" vs out] assms by (auto simp: unique_artifact_refs_def digest_map_ok_def)

lemma unique_refs_loop_distinct:
  assumes "list_all wf_artifact_ref rs" "distinct (map fst u @ map ar_sha256 rs)"
  shows "unique_refs_loop u (map Some rs) = Inr (map snd u @ rs)"
  using assms
proof (induction rs arbitrary: u)
  case Nil
  then show ?case by simp
next
  case (Cons r rs)
  have new: "ar_sha256 r \<notin> fst ` set u" using Cons.prems by auto
  then have "map_of u (ar_sha256 r) = None" by (simp add: map_of_eq_None_iff)
  moreover have "AList.update (ar_sha256 r) r u = u @ [(ar_sha256 r, r)]"
    using new by (induction u) auto
  ultimately show ?case
    using Cons by (simp add: artifact_ref_roundtrip)
qed

lemma unique_artifact_refs_fixed:
  "list_all wf_artifact_ref rs \<Longrightarrow> distinct (map ar_sha256 rs) \<Longrightarrow> unique_artifact_refs (map Some rs) = Inr rs"
  using unique_refs_loop_distinct [of rs "[]"] by (simp add: unique_artifact_refs_def)

section \<open>Publication intents\<close>

record publication_intent =
  pi_run :: string
  pi_request :: string
  pi_artifacts :: "artifact_descriptor list"
  pi_cleanup :: "artifact_descriptor list"
  pi_created :: string
  pi_updated :: string

fun parse_unique :: "string \<Rightarrow> nat \<Rightarrow> string list \<Rightarrow> js list \<Rightarrow> artifact_descriptor list result" where
  "parse_unique path i seen [] = Inr []"
| "parse_unique path i seen (v # vs) =
     rbind (parse_descriptor (path @ nat_text i) v) (\<lambda>d.
     rbind (require (pd_slot d \<notin> set seen) (TypeError ''artifact publication intent'')) (\<lambda>_.
     rbind (parse_unique path (Suc i) (pd_slot d # seen) vs) (\<lambda>ds. Inr (d # ds))))"

definition parse_publication_intent :: "js \<Rightarrow> publication_intent result" where
  "parse_publication_intent v =
     rbind (own_data_record ''artifact publication intent''
              [''schemaVersion'', ''kind'', ''runId'', ''requestId'', ''artifacts'', ''cleanupArtifacts'', ''createdAt'', ''updatedAt''] v) (\<lambda>input.
     rbind (require (fld input ''schemaVersion'' = JNum 1
                     \<and> fld input ''kind'' = JStr ''mono-agent.artifact-publication-intent'')
              (TypeError ''artifact publication intent'')) (\<lambda>_.
     rbind (dense_own_data_array ''artifact publication intent.artifacts'' run_artifact_max_items (fld input ''artifacts'')) (\<lambda>raw.
     rbind (dense_own_data_array ''artifact publication intent.cleanupArtifacts'' run_artifact_max_items
              (fld input ''cleanupArtifacts'')) (\<lambda>raw_cleanup.
     rbind (require (length raw + length raw_cleanup \<noteq> 0) (TypeError ''artifact publication intent'')) (\<lambda>_.
     rbind (require (length raw + length raw_cleanup \<le> run_artifact_max_items) (RangeError ''artifact publication intent'')) (\<lambda>_.
     rbind (parse_unique ''artifact publication intent.artifacts.'' 0 [] raw) (\<lambda>artifacts.
     rbind (parse_unique ''artifact publication intent.cleanupArtifacts.'' 0 (slots artifacts) raw_cleanup) (\<lambda>cleanup.
     rbind (assert_publication_bounds (artifacts @ cleanup)) (\<lambda>_.
     rbind (canonical_timestamp ''artifact publication intent.createdAt'' (fld input ''createdAt'')) (\<lambda>created.
     rbind (canonical_timestamp ''artifact publication intent.updatedAt'' (fld input ''updatedAt'')) (\<lambda>updated.
     rbind (require (date_ms created \<le> date_ms updated) (TypeError ''artifact publication intent timestamps'')) (\<lambda>_.
     rbind (bounded_identifier ''artifact publication intent.runId'' (fld input ''runId'')) (\<lambda>run.
     rbind (bounded_identifier ''artifact publication intent.requestId'' (fld input ''requestId'')) (\<lambda>request.
     Inr \<lparr>pi_run = run, pi_request = request, pi_artifacts = artifacts, pi_cleanup = cleanup,
       pi_created = created, pi_updated = updated\<rparr>))))))))))))))"

definition encode_publication_intent :: "publication_intent \<Rightarrow> js" where
  "encode_publication_intent p =
     JObj (req ''schemaVersion'' (JNum 1) @ req ''kind'' (JStr ''mono-agent.artifact-publication-intent'')
       @ req ''runId'' (JStr (pi_run p)) @ req ''requestId'' (JStr (pi_request p))
       @ req ''artifacts'' (JArr (map encode_descriptor (pi_artifacts p)))
       @ req ''cleanupArtifacts'' (JArr (map encode_descriptor (pi_cleanup p)))
       @ req ''createdAt'' (JStr (pi_created p)) @ req ''updatedAt'' (JStr (pi_updated p)))"

definition wf_intent :: "publication_intent \<Rightarrow> bool" where
  [wf_defs]: "wf_intent p \<longleftrightarrow>
     ident_ok (pi_run p) \<and> ident_ok (pi_request p)
     \<and> list_all wf_descriptor (pi_artifacts p) \<and> list_all wf_descriptor (pi_cleanup p)
     \<and> distinct (slots (pi_artifacts p @ pi_cleanup p))
     \<and> pi_artifacts p @ pi_cleanup p \<noteq> []
     \<and> length (pi_artifacts p) + length (pi_cleanup p) \<le> run_artifact_max_items
     \<and> content_bytes (pi_artifacts p @ pi_cleanup p) \<le> run_content_artifact_max_total_bytes
     \<and> canonical_ts (pi_created p) \<and> canonical_ts (pi_updated p) \<and> date_ms (pi_created p) \<le> date_ms (pi_updated p)"

lemma parse_unique_roundtrip:
  "list_all wf_descriptor ds \<Longrightarrow> distinct (slots ds) \<Longrightarrow> set (slots ds) \<inter> set seen = {} \<Longrightarrow>
   parse_unique path i seen (map encode_descriptor ds) = Inr ds"
  by (induction ds arbitrary: i seen) (auto simp: slots_def descriptor_roundtrip)

lemma parse_unique_wf:
  "parse_unique path i seen vs = Inr ds \<Longrightarrow>
   list_all wf_descriptor ds \<and> distinct (slots ds) \<and> (\<forall>d \<in> set ds. \<forall>s \<in> set seen. pd_slot d \<noteq> s)
     \<and> length ds = length vs"
proof (induction vs arbitrary: i seen ds)
  case Nil
  then show ?case by (simp add: slots_def)
next
  case (Cons v vs)
  from Cons.prems obtain d es where d: "parse_descriptor (path @ nat_text i) v = Inr d" "pd_slot d \<notin> set seen"
    and es: "parse_unique path (Suc i) (pd_slot d # seen) vs = Inr es" and ds: "ds = d # es"
    by (auto elim!: rbind_InrE)
  from Cons.IH [OF es] parse_descriptor_wf [OF d(1)] d(2) show ?case
    by (auto simp: ds slots_def)
qed

lemma bounds_Inr [simp]: "assert_publication_bounds ds = Inr u \<longleftrightarrow> content_bytes ds \<le> run_content_artifact_max_total_bytes"
  by (auto simp: assert_publication_bounds_def run_content_artifact_max_total_bytes_def max_safe_integer_def)

lemma bounds_eval [parse_evals]:
  "content_bytes ds \<le> run_content_artifact_max_total_bytes \<Longrightarrow> assert_publication_bounds ds = Inr ()"
  by simp

lemma intent_roundtrip: "wf_intent p \<Longrightarrow> parse_publication_intent (encode_publication_intent p) = Inr p"
proof -
  assume wf: "wf_intent p"
  have a: "parse_unique path 0 [] (map encode_descriptor (pi_artifacts p)) = Inr (pi_artifacts p)" for path
    using wf by (intro parse_unique_roundtrip) (auto simp: wf_intent_def slots_def)
  have c: "parse_unique path 0 (slots (pi_artifacts p)) (map encode_descriptor (pi_cleanup p)) = Inr (pi_cleanup p)" for path
    using wf by (intro parse_unique_roundtrip) (auto simp: wf_intent_def slots_def)
  have ne: "pi_artifacts p \<noteq> [] \<or> pi_cleanup p \<noteq> []" using wf by (auto simp: wf_intent_def)
  show ?thesis
    using wf ne by (simp add: wf_intent_def parse_publication_intent_def encode_publication_intent_def parse_evals a c
        cong: rbind_weak_cong)
qed

lemma distinct_slots_append:
  "distinct (slots xs) \<Longrightarrow> distinct (slots ys) \<Longrightarrow> \<forall>d \<in> set ys. \<forall>s \<in> set (slots xs). pd_slot d \<noteq> s \<Longrightarrow>
   distinct (slots (xs @ ys))"
  by (auto simp: slots_def disjoint_iff) metis

lemma parse_intent_wf: "parse_publication_intent v = Inr p \<Longrightarrow> wf_intent p"
  unfolding parse_publication_intent_def
  by (elim rbind_InrE, drule parse_unique_wf, drule parse_unique_wf)
    (auto simp: wf_intent_def parse_iffs intro: distinct_slots_append)

lemma descriptor_json_ok: "wf_descriptor d \<Longrightarrow> json_ok (encode_descriptor d)"
  by (auto simp: encode_descriptor_def wf_descriptor_def ref_of_descriptor_def wf_artifact_ref_def opt_ok_def)

lemma intent_json_ok: "wf_intent p \<Longrightarrow> json_ok (encode_publication_intent p)"
  by (auto simp: encode_publication_intent_def wf_intent_def list_all_iff max_safe_integer_def intro: descriptor_json_ok)

section \<open>Content referenced by a settled transcript\<close>

fun part_refs :: "content_part list \<Rightarrow> artifact_ref list" where
  "part_refs [] = []"
| "part_refs (ArtifactPart r _ # ps) = r # part_refs ps"
| "part_refs (TextPart _ # ps) = part_refs ps"

fun entry_refs :: "transcript_entry \<Rightarrow> artifact_ref list" where
  "entry_refs (MessageEntry _ _ content _) = part_refs content"
| "entry_refs (InteractionEntry _ _ content) = part_refs content"
| "entry_refs (VerbatimEntry _ _ _) = []"

definition transcript_refs :: "canonical_transcript \<Rightarrow> artifact_ref list" where
  "transcript_refs t = concat (map entry_refs (ct_entries t))"

definition ref_matches :: "artifact_descriptor \<Rightarrow> artifact_ref \<Rightarrow> bool" where
  "ref_matches d r \<longleftrightarrow> ar_sha256 r = pd_sha256 d \<and> ar_size r = pd_size d \<and> ar_media r = pd_media d \<and> ar_file r = pd_file d"

text \<open>Two references share the JSON identity of \<^verbatim>\<open>publishedContentReferences\<close> exactly when all their
  fields agree, so the set of seen identities is a list of references.\<close>

fun staged_refs :: "artifact_ref list \<Rightarrow> artifact_ref list \<Rightarrow> artifact_descriptor list \<Rightarrow> artifact_ref list result" where
  "staged_refs referenced staged [] = Inr staged"
| "staged_refs referenced staged (d # ds) =
     (if internal_slot (pd_slot d) then staged_refs referenced staged ds
      else
        (case find (ref_matches d) referenced of
           None \<Rightarrow> Inl (PlainError (''staged artifact slot '' @ pd_slot d @ '' is not referenced by the settled transcript''))
         | Some ref \<Rightarrow>
             if ref \<in> set staged then staged_refs referenced staged ds
             else staged_refs referenced (staged @ [ref]) ds))"

definition published_content_references :: "publication_intent \<Rightarrow> canonical_transcript \<Rightarrow> artifact_ref list result" where
  "published_content_references p t = staged_refs (transcript_refs t) [] (pi_artifacts p)"

lemma staged_refs_Inr:
  assumes "staged_refs referenced staged ds = Inr out" "distinct staged" "set staged \<subseteq> set referenced"
  shows "distinct out \<and> set staged \<subseteq> set out \<and> set out \<subseteq> set referenced
     \<and> (\<forall>d \<in> set ds. \<not> internal_slot (pd_slot d) \<longrightarrow> (\<exists>r \<in> set out. ref_matches d r))"
  using assms
proof (induction ds arbitrary: staged)
  case Nil
  then show ?case by simp
next
  case (Cons d ds)
  show ?case
  proof (cases "internal_slot (pd_slot d)")
    case True
    with Cons show ?thesis by simp
  next
    case False
    with Cons.prems(1) obtain r where r: "find (ref_matches d) referenced = Some r"
      by (auto split: option.splits)
    then have m: "ref_matches d r" "r \<in> set referenced" by (auto simp: find_Some_iff)
    show ?thesis
    proof (cases "r \<in> set staged")
      case True
      with False r Cons.prems have "staged_refs referenced staged ds = Inr out" by simp
      from Cons.IH [OF this Cons.prems(2,3)] m True show ?thesis by auto
    next
      case notin: False
      with False r Cons.prems have "staged_refs referenced (staged @ [r]) ds = Inr out" by simp
      from Cons.IH [OF this] m notin Cons.prems(2,3) show ?thesis by auto
    qed
  qed
qed

lemma published_references_Inr:
  assumes "published_content_references p t = Inr out"
  shows "distinct out" "set out \<subseteq> set (transcript_refs t)"
    "\<forall>d \<in> set (pi_artifacts p). \<not> internal_slot (pd_slot d) \<longrightarrow> (\<exists>r \<in> set out. ref_matches d r)"
  using staged_refs_Inr [OF assms [unfolded published_content_references_def]] by simp_all

section \<open>Retention checkpoints\<close>

record checkpoint =
  cp_run :: string
  cp_history_key :: string
  cp_request :: string
  cp_started :: string
  cp_ended :: string
  cp_artifacts :: "artifact_ref list"
  cp_created :: string

definition parse_checkpoint :: "(string \<Rightarrow> string) \<Rightarrow> js \<Rightarrow> checkpoint result" where
  "parse_checkpoint sha v =
     rbind (own_data_record ''run retention checkpoint''
              [''schemaVersion'', ''kind'', ''runId'', ''historyKey'', ''requestId'', ''startedAt'', ''endedAt'', ''artifacts'', ''createdAt''] v) (\<lambda>input.
     rbind (require (fld input ''schemaVersion'' = JNum 1
                     \<and> fld input ''kind'' = JStr ''mono-agent.run-retention-checkpoint'')
              (TypeError ''run retention checkpoint'')) (\<lambda>_.
     rbind (bounded_identifier ''run retention checkpoint.runId'' (fld input ''runId'')) (\<lambda>run.
     rbind (bounded_identifier ''run retention checkpoint.requestId'' (fld input ''requestId'')) (\<lambda>request.
     rbind (canonical_timestamp ''run retention checkpoint.startedAt'' (fld input ''startedAt'')) (\<lambda>started.
     rbind (canonical_timestamp ''run retention checkpoint.endedAt'' (fld input ''endedAt'')) (\<lambda>ended.
     rbind (require (\<not> ended < started) (TypeError ''run retention checkpoint timestamps'')) (\<lambda>_.
     rbind (bounded_identifier ''run retention checkpoint.historyKey'' (fld input ''historyKey'')) (\<lambda>hkey.
     rbind (run_history_state_key sha started run) (\<lambda>expected.
     rbind (require (hkey = expected) (TypeError ''run retention checkpoint history key'')) (\<lambda>_.
     rbind (dense_own_data_array ''run retention checkpoint.artifacts'' run_artifact_max_items (fld input ''artifacts'')) (\<lambda>raw.
     rbind (rmap parse_artifact_ref raw) (\<lambda>refs.
     rbind (unique_artifact_refs (map Some refs)) (\<lambda>artifacts.
     rbind (canonical_timestamp ''run retention checkpoint.createdAt'' (fld input ''createdAt'')) (\<lambda>created.
     Inr \<lparr>cp_run = run, cp_history_key = hkey, cp_request = request, cp_started = started, cp_ended = ended,
       cp_artifacts = artifacts, cp_created = created\<rparr>))))))))))))))"

definition encode_checkpoint :: "checkpoint \<Rightarrow> js" where
  "encode_checkpoint c =
     JObj (req ''schemaVersion'' (JNum 1) @ req ''kind'' (JStr ''mono-agent.run-retention-checkpoint'')
       @ req ''runId'' (JStr (cp_run c)) @ req ''historyKey'' (JStr (cp_history_key c))
       @ req ''requestId'' (JStr (cp_request c)) @ req ''startedAt'' (JStr (cp_started c))
       @ req ''endedAt'' (JStr (cp_ended c)) @ req ''artifacts'' (JArr (map encode_artifact_ref (cp_artifacts c)))
       @ req ''createdAt'' (JStr (cp_created c)))"

definition wf_checkpoint :: "(string \<Rightarrow> string) \<Rightarrow> checkpoint \<Rightarrow> bool" where
  [wf_defs]: "wf_checkpoint sha c \<longleftrightarrow>
     ident_ok (cp_run c) \<and> ident_ok (cp_request c) \<and> canonical_ts (cp_started c) \<and> canonical_ts (cp_ended c)
     \<and> cp_started c \<le> cp_ended c \<and> ident_ok (cp_history_key c)
     \<and> run_history_state_key sha (cp_started c) (cp_run c) = Inr (cp_history_key c)
     \<and> length (cp_artifacts c) \<le> run_artifact_max_items
     \<and> list_all wf_artifact_ref (cp_artifacts c) \<and> distinct (map ar_sha256 (cp_artifacts c))
     \<and> canonical_ts (cp_created c)"

lemma checkpoint_roundtrip: "wf_checkpoint sha c \<Longrightarrow> parse_checkpoint sha (encode_checkpoint c) = Inr c"
proof -
  assume wf: "wf_checkpoint sha c"
  have "rmap parse_artifact_ref (map encode_artifact_ref (cp_artifacts c)) = Inr (cp_artifacts c)"
    using wf by (intro rmap_roundtrip artifact_ref_roundtrip) (simp add: wf_checkpoint_def list_all_iff)
  with wf show ?thesis
    by (simp add: wf_checkpoint_def parse_checkpoint_def encode_checkpoint_def parse_evals unique_artifact_refs_fixed
        linorder_not_less cong: rbind_weak_cong)
qed

lemma unique_refs_length:
  "unique_refs_loop u (map Some rs) = Inr out \<Longrightarrow> length out \<le> length u + length rs"
proof (induction rs arbitrary: u)
  case Nil
  then show ?case by auto
next
  case (Cons r rs)
  have "length (AList.update k v al) \<le> Suc (length al)" for k and v :: artifact_ref and al
    by (induction al) auto
  with Cons show ?case
    by (fastforce elim!: rbind_InrE split: if_splits dest!: Cons.IH intro: order_trans)
qed

lemma unique_refs_facts:
  assumes "unique_artifact_refs (map Some rs) = Inr out"
  shows "length out \<le> length rs \<and> list_all wf_artifact_ref out \<and> distinct (map ar_sha256 out)"
  using unique_artifact_refs_Inr [OF assms] unique_refs_length [of "[]" rs out] assms
  by (simp add: unique_artifact_refs_def)

lemma parse_checkpoint_wf: "parse_checkpoint sha v = Inr c \<Longrightarrow> wf_checkpoint sha c"
  unfolding parse_checkpoint_def
  by (elim rbind_InrE) (auto simp: wf_checkpoint_def parse_iffs dest!: rmap_length unique_refs_facts)

lemma checkpoint_json_ok: "wf_checkpoint sha c \<Longrightarrow> json_ok (encode_checkpoint c)"
  by (auto simp: encode_checkpoint_def wf_checkpoint_def list_all_iff max_safe_integer_def intro: artifact_ref_json_ok)

section \<open>The entry a delivery appended to a conversation\<close>

record delivery_link =
  dl_entry :: string
  dl_conv :: string
  dl_key :: string
  dl_delivery_fingerprint :: string
  dl_fingerprint :: string
  dl_digest :: string
  dl_revision :: nat
  dl_entry_count :: nat
  dl_created :: string

definition parse_delivery_link :: "js \<Rightarrow> delivery_link result" where
  "parse_delivery_link v =
     rbind (own_data_record ''conversation delivery entry record''
              [''schemaVersion'', ''kind'', ''entryId'', ''conversationId'', ''deliveryIdempotencyKey'', ''deliveryFingerprint'',
               ''fingerprint'', ''entryDigest'', ''revision'', ''entryCount'', ''createdAt''] v) (\<lambda>input.
     rbind (require (fld input ''schemaVersion'' = JNum 1
                     \<and> fld input ''kind'' = JStr ''mono-agent.conversation-delivery-entry'')
              (TypeError ''conversation delivery entry record'')) (\<lambda>_.
     rbind (bounded_identifier ''conversation delivery entry record.entryId'' (fld input ''entryId'')) (\<lambda>entry.
     rbind (bounded_conversation_id ''conversation delivery entry record.conversationId'' (fld input ''conversationId'')) (\<lambda>conv.
     rbind (bounded_identifier ''conversation delivery entry record.deliveryIdempotencyKey'' (fld input ''deliveryIdempotencyKey'')) (\<lambda>key.
     rbind (parse_fingerprint ''conversation delivery entry record.deliveryFingerprint'' (fld input ''deliveryFingerprint'')) (\<lambda>dfp.
     rbind (parse_fingerprint ''conversation delivery entry record.fingerprint'' (fld input ''fingerprint'')) (\<lambda>fp.
     rbind (parse_fingerprint ''conversation delivery entry record.entryDigest'' (fld input ''entryDigest'')) (\<lambda>digest.
     rbind (bounded_integer ''conversation delivery entry record.revision'' 1 (nat max_safe_integer) (fld input ''revision'')) (\<lambda>revision.
     rbind (bounded_integer ''conversation delivery entry record.entryCount'' 1 max_conversation_entries (fld input ''entryCount'')) (\<lambda>count.
     rbind (canonical_timestamp ''conversation delivery entry record.createdAt'' (fld input ''createdAt'')) (\<lambda>created.
     Inr \<lparr>dl_entry = entry, dl_conv = conv, dl_key = key, dl_delivery_fingerprint = dfp, dl_fingerprint = fp,
       dl_digest = digest, dl_revision = revision, dl_entry_count = count, dl_created = created\<rparr>)))))))))))"

definition encode_delivery_link :: "delivery_link \<Rightarrow> js" where
  "encode_delivery_link l =
     JObj (req ''schemaVersion'' (JNum 1) @ req ''kind'' (JStr ''mono-agent.conversation-delivery-entry'')
       @ req ''entryId'' (JStr (dl_entry l)) @ req ''conversationId'' (JStr (dl_conv l))
       @ req ''deliveryIdempotencyKey'' (JStr (dl_key l)) @ req ''deliveryFingerprint'' (JStr (dl_delivery_fingerprint l))
       @ req ''fingerprint'' (JStr (dl_fingerprint l)) @ req ''entryDigest'' (JStr (dl_digest l))
       @ req ''revision'' (JNum (int (dl_revision l))) @ req ''entryCount'' (JNum (int (dl_entry_count l)))
       @ req ''createdAt'' (JStr (dl_created l)))"

definition wf_delivery_link :: "delivery_link \<Rightarrow> bool" where
  [wf_defs]: "wf_delivery_link l \<longleftrightarrow>
     ident_ok (dl_entry l) \<and> conv_id_ok (dl_conv l) \<and> ident_ok (dl_key l) \<and> fingerprint_ok (dl_delivery_fingerprint l)
     \<and> fingerprint_ok (dl_fingerprint l) \<and> fingerprint_ok (dl_digest l)
     \<and> 1 \<le> dl_revision l \<and> int (dl_revision l) \<le> max_safe_integer
     \<and> 1 \<le> dl_entry_count l \<and> dl_entry_count l \<le> max_conversation_entries \<and> canonical_ts (dl_created l)"

lemma delivery_link_roundtrip: "wf_delivery_link l \<Longrightarrow> parse_delivery_link (encode_delivery_link l) = Inr l"
  by (simp add: wf_delivery_link_def parse_delivery_link_def encode_delivery_link_def parse_evals max_safe_integer_def
      cong: rbind_weak_cong)

lemma parse_delivery_link_wf: "parse_delivery_link v = Inr l \<Longrightarrow> wf_delivery_link l"
  unfolding parse_delivery_link_def
  by (elim rbind_InrE) (auto simp: wf_delivery_link_def parse_iffs max_safe_integer_def)

lemma delivery_link_json_ok: "wf_delivery_link l \<Longrightarrow> json_ok (encode_delivery_link l)"
  by (auto simp: encode_delivery_link_def wf_delivery_link_def max_safe_integer_def max_conversation_entries_def)

end
