(* ===== verification/RecordContract.thy ===== *)
theory RecordContract
  imports ExecBytes ArtifactCodec
begin

text \<open>
  Every record type of the journal meets the contract \<open>record_codec\<close>: its parser accepts what its
  encoder prints, accepts nothing but well-formed records, and its encoding survives JSON text.
\<close>

interpretation admission_codec: record_codec parse_admission encode_admission wf_admission
  by unfold_locales (rule admission_roundtrip parse_admission_wf admission_json_ok; assumption)+

interpretation delivery_codec: record_codec parse_delivery encode_delivery wf_delivery
  by unfold_locales (rule delivery_roundtrip parse_delivery_wf delivery_json_ok; assumption)+

interpretation run_codec: record_codec parse_stored_run encode_stored_run wf_stored_run
  by unfold_locales (rule stored_run_roundtrip parse_stored_run_wf stored_run_json_ok; assumption)+

interpretation event_codec: record_codec parse_stored_event encode_stored_event wf_event
  by unfold_locales (rule stored_event_roundtrip parse_stored_event_wf stored_event_json_ok; assumption)+

interpretation history_codec: record_codec parse_run_history encode_run_history wf_run_history
  by unfold_locales (rule run_history_roundtrip parse_run_history_wf run_history_json_ok; assumption?)+

interpretation intent_codec: record_codec parse_publication_intent encode_publication_intent wf_intent
  by unfold_locales (rule intent_roundtrip parse_intent_wf intent_json_ok; assumption)+

interpretation checkpoint_codec: record_codec "parse_checkpoint sha" encode_checkpoint "wf_checkpoint sha" for sha
  by unfold_locales (rule checkpoint_roundtrip parse_checkpoint_wf checkpoint_json_ok; assumption)+

interpretation link_codec: record_codec parse_delivery_link encode_delivery_link wf_delivery_link
  by unfold_locales (rule delivery_link_roundtrip parse_delivery_link_wf delivery_link_json_ok; assumption)+

end
