(* ===== verification/SessionJson.thy ===== *)
theory SessionJson
  imports JsonText
begin

text \<open>
  Free-form JSON the journal keeps: session and conversation metadata (\<^verbatim>\<open>parseSessionMetadata\<close> of
  \<^verbatim>\<open>execution-codec.ts\<close>). The parser walks a value with its fields in text order and counts items
  and bytes; a cyclic value is no \<open>js\<close> value.
\<close>

definition session_metadata_max_items :: nat where "session_metadata_max_items = 10000"
definition session_metadata_max_bytes :: nat where "session_metadata_max_bytes = 65536"

section \<open>Values with their fields in order\<close>

definition order_fields :: "(string \<times> 'a) list \<Rightarrow> (string \<times> 'a) list" where
  "order_fields fs = sort_key (\<lambda>kv. text_order (fst kv)) (AList.clearjunk fs)"

primrec sort_fields :: "js \<Rightarrow> js" where
  "sort_fields JUndef = JUndef"
| "sort_fields JNull = JNull"
| "sort_fields (JBool b) = JBool b"
| "sort_fields (JNum i) = JNum i"
| "sort_fields (JFloat t) = JFloat t"
| "sort_fields JNonFinite = JNonFinite"
| "sort_fields (JStr s) = JStr s"
| "sort_fields (JArr xs) = JArr (map sort_fields xs)"
| "sort_fields (JObj fs) = JObj (order_fields (map (map_prod id sort_fields) fs))"
| "sort_fields (JBytes b) = JBytes b"
| "sort_fields JExotic = JExotic"

lemma order_fields_distinct: "distinct (map fst (order_fields fs))"
  using distinct_clearjunk [of fs] by (simp add: order_fields_def distinct_map)

lemma order_fields_sorted: "sorted (map (\<lambda>kv. text_order (fst kv)) (order_fields fs))"
  unfolding order_fields_def by (rule sorted_sort_key)

lemma order_fields_mem: "kv \<in> set (order_fields fs) \<Longrightarrow> kv \<in> set fs"
proof -
  assume "kv \<in> set (order_fields fs)"
  then have "map_of (AList.clearjunk fs) (fst kv) = Some (snd kv)"
    using distinct_clearjunk [of fs] by (simp add: order_fields_def map_of_eq_Some_iff)
  then show "kv \<in> set fs" by (metis map_of_SomeD map_of_clearjunk prod.collapse)
qed

lemma order_fields_id:
  assumes "distinct (map fst fs)" "sorted (map (\<lambda>kv. text_order (fst kv)) fs)"
  shows "order_fields fs = fs"
proof -
  have "AList.clearjunk fs = fs" using assms(1) by (rule distinct_clearjunk_id)
  with assms(2) show ?thesis by (simp add: order_fields_def sort_key_id_if_sorted)
qed

lemma sort_fields_idem: "sort_fields (sort_fields v) = sort_fields v"
proof (induction v)
  case (JArr xs)
  then show ?case by simp
next
  case (JObj fs)
  let ?gs = "order_fields (map (map_prod id sort_fields) fs)"
  have "map (map_prod id sort_fields) ?gs = ?gs"
  proof (rule map_idI)
    fix kv assume "kv \<in> set ?gs"
    then have "kv \<in> set (map (map_prod id sort_fields) fs)" by (rule order_fields_mem)
    then obtain k w where "(k, w) \<in> set fs" "kv = (k, sort_fields w)" by auto
    moreover have "sort_fields (sort_fields w) = sort_fields w" using JObj calculation by auto
    ultimately show "map_prod id sort_fields kv = kv" by simp
  qed
  then show ?case by (simp add: order_fields_id order_fields_distinct order_fields_sorted)
qed simp_all

section \<open>Metadata\<close>

text \<open>Number.isFinite of a number value.\<close>

definition finite_number :: "js \<Rightarrow> bool" where
  "finite_number v = (case v of JNum _ \<Rightarrow> json_ok v | JFloat _ \<Rightarrow> json_ok v | _ \<Rightarrow> False)"

type_synonym counters = "nat \<times> nat"

fun walk_items :: "(string \<Rightarrow> counters \<Rightarrow> counters result) list \<Rightarrow> string \<Rightarrow> nat \<Rightarrow> counters \<Rightarrow> counters result" where
  "walk_items [] path i st = Inr st"
| "walk_items (w # ws) path i st = rbind (w (path @ ''.'' @ nat_text i) st) (walk_items ws path (i + 1))"

fun walk_fields :: "(string \<times> (string \<Rightarrow> counters \<Rightarrow> counters result)) list \<Rightarrow> string \<Rightarrow> counters \<Rightarrow> counters result" where
  "walk_fields [] path st = Inr st"
| "walk_fields (kw # ws) path st = rbind ((snd kw) (path @ ''.'' @ fst kw) st) (walk_fields ws path)"

definition count_item :: "string \<Rightarrow> counters \<Rightarrow> counters result" where
  "count_item path st =
     (if session_metadata_max_items < fst st + 1 then Inl (RangeError path) else Inr (fst st + 1, snd st))"

definition count_bytes :: "string \<Rightarrow> nat \<Rightarrow> counters \<Rightarrow> counters result" where
  "count_bytes path n st =
     (if session_metadata_max_bytes < snd st + n then Inl (RangeError path) else Inr (fst st, snd st + n))"

text \<open>\<open>session_walk v path (items, bytes)\<close> is the check \<^verbatim>\<open>parseSessionJsonValue\<close> makes; the value
  it builds is \<open>sort_fields v\<close>.\<close>

primrec session_walk :: "js \<Rightarrow> string \<Rightarrow> counters \<Rightarrow> counters result" where
  "session_walk JUndef path st = rbind (count_item path st) (\<lambda>_. Inl (TypeError path))"
| "session_walk JNull path st = count_item path st"
| "session_walk (JBool b) path st = count_item path st"
| "session_walk (JNum i) path st =
     rbind (count_item path st) (\<lambda>st'. if finite_number (JNum i) then Inr st' else Inl (TypeError path))"
| "session_walk (JFloat t) path st =
     rbind (count_item path st) (\<lambda>st'. if finite_number (JFloat t) then Inr st' else Inl (TypeError path))"
| "session_walk JNonFinite path st = rbind (count_item path st) (\<lambda>_. Inl (TypeError path))"
| "session_walk (JStr s) path st = rbind (count_item path st) (count_bytes path (length s))"
| "session_walk (JArr xs) path st =
     rbind (count_item path st) (\<lambda>st'.
     rbind (dense_own_data_array path session_metadata_max_items (JArr xs)) (\<lambda>_.
     walk_items (map session_walk xs) path 0 st'))"
| "session_walk (JObj fs) path st =
     rbind (count_item path st) (walk_fields (map (map_prod id session_walk) fs) path)"
| "session_walk (JBytes b) path st = rbind (count_item path st) (\<lambda>_. Inl (TypeError path))"
| "session_walk JExotic path st = rbind (count_item path st) (\<lambda>_. Inl (TypeError path))"

definition parse_session_metadata :: "string \<Rightarrow> js \<Rightarrow> js result" where
  "parse_session_metadata path v =
     (let parsed = sort_fields v in
      rbind (session_walk parsed path (0, 0)) (\<lambda>_.
      rbind (require (is_plain_record parsed) (TypeError path)) (\<lambda>_.
      rbind (require (length (json_text parsed) \<le> session_metadata_max_bytes) (RangeError path)) (\<lambda>_.
      Inr parsed))))"

definition wf_metadata :: "js \<Rightarrow> bool" where
  "wf_metadata m \<longleftrightarrow>
     sort_fields m = m \<and> (\<exists>st \<in> {projr (session_walk m [] (0, 0))}. session_walk m [] (0, 0) = Inr st)
     \<and> is_plain_record m \<and> length (json_text m) \<le> session_metadata_max_bytes"

lemma walk_items_path:
  "(\<And>w p q st st'. w \<in> set ws \<Longrightarrow> w p st = Inr st' \<Longrightarrow> w q st = Inr st') \<Longrightarrow>
   walk_items ws p i st = Inr st' \<Longrightarrow> walk_items ws q i st = Inr st'"
proof (induction ws arbitrary: i st)
  case Nil
  then show ?case by simp
next
  case (Cons w ws)
  from Cons.prems(2) obtain st1 where st1: "w (p @ ''.'' @ nat_text i) st = Inr st1" "walk_items ws p (i + 1) st1 = Inr st'"
    by (auto elim!: rbind_InrE)
  have "w (q @ ''.'' @ nat_text i) st = Inr st1" using Cons.prems(1) st1(1) by (meson list.set_intros(1))
  moreover have "walk_items ws q (i + 1) st1 = Inr st'"
    by (rule Cons.IH [OF _ st1(2)]) (meson Cons.prems(1) list.set_intros(2))
  ultimately show ?case by simp
qed

lemma walk_fields_path:
  "(\<And>k w p q st st'. (k, w) \<in> set ws \<Longrightarrow> w p st = Inr st' \<Longrightarrow> w q st = Inr st') \<Longrightarrow>
   walk_fields ws p st = Inr st' \<Longrightarrow> walk_fields ws q st = Inr st'"
proof (induction ws arbitrary: st)
  case Nil
  then show ?case by simp
next
  case (Cons kw ws)
  obtain k w where kw: "kw = (k, w)" by force
  from Cons.prems(2) obtain st1 where st1: "w (p @ ''.'' @ k) st = Inr st1" "walk_fields ws p st1 = Inr st'"
    by (auto simp: kw elim!: rbind_InrE)
  have "w (q @ ''.'' @ k) st = Inr st1" using Cons.prems(1) st1(1) unfolding kw by (meson list.set_intros(1))
  moreover have "walk_fields ws q st1 = Inr st'"
    by (rule Cons.IH [OF _ st1(2)]) (meson Cons.prems(1) list.set_intros(2))
  ultimately show ?case by (simp add: kw)
qed

lemma count_path:
  "count_item p st = Inr st' \<Longrightarrow> count_item q st = Inr st'" "count_bytes p n st = Inr st' \<Longrightarrow> count_bytes q n st = Inr st'"
  by (auto simp: count_item_def count_bytes_def split: if_splits)

text \<open>Whether a walk succeeds does not depend on the path it reports.\<close>

lemma session_walk_path: "session_walk v p st = Inr st' \<Longrightarrow> session_walk v q st = Inr st'"
proof (induction v arbitrary: p q st st')
  case (JArr xs)
  obtain s1 where s1: "count_item p st = Inr s1" "length xs \<le> session_metadata_max_items"
      "walk_items (map session_walk xs) p 0 s1 = Inr st'"
    using JArr.prems by (auto elim!: rbind_InrE simp: parse_iffs)
  have "walk_items (map session_walk xs) q 0 s1 = Inr st'"
  proof (rule walk_items_path [OF _ s1(3)])
    fix w p q and st st' :: counters
    assume "w \<in> set (map session_walk xs)" "w p st = Inr st'"
    then show "w q st = Inr st'" using JArr.IH by (metis imageE list.set_map)
  qed
  then show ?case using s1 count_path(1) [OF s1(1), of q] by (simp add: parse_evals)
next
  case (JObj fs)
  obtain s1 where s1: "count_item p st = Inr s1" "walk_fields (map (map_prod id session_walk) fs) p s1 = Inr st'"
    using JObj.prems by (auto elim!: rbind_InrE)
  have "walk_fields (map (map_prod id session_walk) fs) q s1 = Inr st'"
  proof (rule walk_fields_path [OF _ s1(2)])
    fix k w p q and st st' :: counters
    assume "(k, w) \<in> set (map (map_prod id session_walk) fs)" and step: "w p st = Inr st'"
    then obtain u where u: "(k, u) \<in> set fs" "w = session_walk u" by auto
    then have "u \<in> Basic_BNFs.snds (k, u)" by simp
    with u show "w q st = Inr st'" using JObj.IH step by metis
  qed
  then show ?case using s1 count_path(1) [OF s1(1), of q] by simp
next
  case (JStr s)
  then obtain s1 where "count_item p st = Inr s1" "count_bytes p (length s) s1 = Inr st'"
    by (auto elim!: rbind_InrE)
  then have "count_item q st = Inr s1" "count_bytes q (length s) s1 = Inr st'" by (auto dest: count_path)
  then show ?case by simp
next
  case (JNum i)
  then show ?case using count_path(1) [of p st st' q] by (auto elim!: rbind_InrE split: if_splits)
next
  case (JFloat t)
  then show ?case using count_path(1) [of p st st' q] by (auto elim!: rbind_InrE split: if_splits)
next
  case (JBool b)
  then show ?case using count_path(1) [of p st st' q] by simp
next
  case JNull
  then show ?case using count_path(1) [of p st st' q] by simp
qed (auto elim!: rbind_InrE)

lemma walk_items_all: "walk_items ws p i st = Inr st' \<Longrightarrow> w \<in> set ws \<Longrightarrow> \<exists>q s s'. w q s = Inr s'"
proof (induction ws arbitrary: i st)
  case (Cons v ws)
  from Cons.prems(1) obtain s1 where "v (p @ ''.'' @ nat_text i) st = Inr s1" "walk_items ws p (i + 1) s1 = Inr st'"
    by (auto elim!: rbind_InrE)
  then show ?case using Cons.IH Cons.prems(2) by (metis set_ConsD)
qed simp

lemma walk_fields_all: "walk_fields ws p st = Inr st' \<Longrightarrow> (k, w) \<in> set ws \<Longrightarrow> \<exists>q s s'. w q s = Inr s'"
proof (induction ws arbitrary: st)
  case (Cons v ws)
  from Cons.prems(1) obtain s1 where "(snd v) (p @ ''.'' @ fst v) st = Inr s1" "walk_fields ws p s1 = Inr st'"
    by (auto elim!: rbind_InrE)
  then show ?case using Cons.IH Cons.prems(2) by (metis set_ConsD snd_conv)
qed simp

lemma session_walk_json: "session_walk (sort_fields v) p st = Inr st' \<Longrightarrow> json_ok (sort_fields v)"
proof (induction v arbitrary: p st st')
  case (JArr xs)
  have "json_ok (sort_fields x)" if "x \<in> set xs" for x
  proof -
    have "session_walk (sort_fields x) \<in> set (map session_walk (map sort_fields xs))" using that by simp
    moreover obtain s1 where "walk_items (map session_walk (map sort_fields xs)) p 0 s1 = Inr st'"
      using JArr.prems by (auto elim!: rbind_InrE)
    ultimately obtain q s s' where "session_walk (sort_fields x) q s = Inr s'" using walk_items_all by meson
    then show ?thesis using JArr.IH that by blast
  qed
  then show ?case by simp
next
  case (JObj fs)
  let ?gs = "order_fields (map (map_prod id sort_fields) fs)"
  have "json_ok w" if "(k, w) \<in> set ?gs" for k w
  proof -
    have "(k, session_walk w) \<in> set (map (map_prod id session_walk) ?gs)" using that by force
    moreover obtain s1 where "walk_fields (map (map_prod id session_walk) ?gs) p s1 = Inr st'"
      using JObj.prems by (auto elim!: rbind_InrE)
    ultimately obtain q s s' where "session_walk w q s = Inr s'" using walk_fields_all by meson
    moreover have "(k, w) \<in> set (map (map_prod id sort_fields) fs)" using that by (rule order_fields_mem)
    then obtain u where u: "(k, u) \<in> set fs" "w = sort_fields u" by auto
    moreover have "u \<in> Basic_BNFs.snds (k, u)" by simp
    ultimately show ?thesis using JObj.IH by metis
  qed
  then show ?case using order_fields_distinct by (auto simp: fields_ok_def)
qed (auto simp: finite_number_def elim!: rbind_InrE split: if_splits)

lemma metadata_roundtrip: "wf_metadata m \<Longrightarrow> parse_session_metadata path m = Inr m"
proof -
  assume wf: "wf_metadata m"
  then obtain st where "session_walk m [] (0, 0) = Inr st" unfolding wf_metadata_def by blast
  then have "session_walk m path (0, 0) = Inr st" by (rule session_walk_path)
  with wf show ?thesis by (simp add: wf_metadata_def parse_session_metadata_def Let_def)
qed

lemma parse_metadata_wf: "parse_session_metadata path v = Inr m \<Longrightarrow> wf_metadata m"
proof -
  assume "parse_session_metadata path v = Inr m"
  then obtain st where m: "m = sort_fields v" "is_plain_record m" "length (json_text m) \<le> session_metadata_max_bytes"
    and "session_walk m path (0, 0) = Inr st"
    unfolding parse_session_metadata_def Let_def by (auto elim!: rbind_InrE)
  then have "session_walk m [] (0, 0) = Inr st" by (metis session_walk_path)
  with m show ?thesis by (simp add: wf_metadata_def sort_fields_idem)
qed

lemma metadata_json_ok: "wf_metadata m \<Longrightarrow> json_ok m"
  unfolding wf_metadata_def by (metis session_walk_json)

lemma metadata_defined [simp]: "wf_metadata m \<Longrightarrow> m \<noteq> JUndef"
  by (auto simp: wf_metadata_def is_plain_record_def)

end
