(* ===== verification/ConvCodec.thy ===== *)
theory ConvCodec
  imports RecordContract SessionJson
begin

text \<open>
  Conversations, their chunked transcripts and provider sessions (\<^verbatim>\<open>execution-codec.ts\<close>:
  \<^verbatim>\<open>parseConversationRecord\<close>, \<^verbatim>\<open>chunkCanonicalTranscript\<close>, \<^verbatim>\<open>parseTranscriptChunkManifest\<close>,
  \<^verbatim>\<open>parseProviderSessionRecord\<close>, \<^verbatim>\<open>parseRuntimeSession\<close>, \<^verbatim>\<open>parseDeliveryTranscriptEntry\<close>,
  \<^verbatim>\<open>deliveryEntryAuthorityDigest\<close>). The SHA-256 digest is the parameter \<open>sha\<close>.
\<close>

definition transcript_chunk_max_bytes :: nat where "transcript_chunk_max_bytes = 262144"
definition transcript_chunk_max_items :: nat where "transcript_chunk_max_items = 256"
definition chunked_transcript_max_bytes :: nat where "chunked_transcript_max_bytes = 67108864"
definition conversation_title_max_bytes :: nat where "conversation_title_max_bytes = 65536"

section \<open>Chunk manifests\<close>

record chunk_descriptor =
  ck_key :: string
  ck_digest :: string
  ck_size :: nat

record chunk_manifest =
  cm_digest :: string
  cm_size :: nat
  cm_chunks :: "chunk_descriptor list"

definition transcript_chunk_digest :: "string \<Rightarrow> js \<Rightarrow> string result" where
  "transcript_chunk_digest path v =
     (case v of JStr s \<Rightarrow> if hex64 s then Inr s else Inl (TypeError path) | _ \<Rightarrow> Inl (TypeError path))"

lemma chunk_digest_Inr [parse_iffs]: "transcript_chunk_digest path v = Inr s \<longleftrightarrow> v = JStr s \<and> hex64 s"
  by (auto simp: transcript_chunk_digest_def split: js.splits)

lemma chunk_digest_eval [parse_evals]: "hex64 s \<Longrightarrow> transcript_chunk_digest path (JStr s) = Inr s"
  by (simp add: parse_iffs)

definition parse_chunk ::
  "(string \<Rightarrow> string) \<Rightarrow> string \<Rightarrow> string \<Rightarrow> nat \<Rightarrow> js \<Rightarrow> chunk_descriptor result" where
  "parse_chunk sha pre conv i v =
     (let path = ''conversation transcript chunks.chunks.'' @ nat_text i in
      rbind (own_data_record path [''key'', ''digest'', ''sizeBytes''] v) (\<lambda>chunk.
      rbind (transcript_chunk_digest (path @ ''.digest'') (fld chunk ''digest'')) (\<lambda>digest.
      rbind (bounded_text (path @ ''.key'') 4096 False (fld chunk ''key'')) (\<lambda>key.
      rbind (require (prefix pre key) (TypeError (path @ ''.key''))) (\<lambda>_.
      rbind (conversation_chunk_state_key sha conv i digest) (\<lambda>expected.
      rbind (require (key = expected) (TypeError (path @ ''.key''))) (\<lambda>_.
      rbind (bounded_integer (path @ ''.sizeBytes'') 1 transcript_chunk_max_bytes (fld chunk ''sizeBytes'')) (\<lambda>size.
      Inr \<lparr>ck_key = key, ck_digest = digest, ck_size = size\<rparr>))))))))"

text \<open>\<open>described\<close> is the running total of the sizes.\<close>

fun parse_chunks ::
  "(string \<Rightarrow> string) \<Rightarrow> string \<Rightarrow> string \<Rightarrow> nat \<Rightarrow> nat \<Rightarrow> js list \<Rightarrow> chunk_descriptor list result" where
  "parse_chunks sha pre conv i described [] = Inr []"
| "parse_chunks sha pre conv i described (v # vs) =
     rbind (parse_chunk sha pre conv i v) (\<lambda>c.
     rbind (require (described + ck_size c \<le> chunked_transcript_max_bytes)
              (RangeError ''conversation transcript chunks'')) (\<lambda>_.
     rbind (parse_chunks sha pre conv (Suc i) (described + ck_size c) vs) (\<lambda>cs. Inr (c # cs))))"

definition described_bytes :: "chunk_descriptor list \<Rightarrow> nat" where
  "described_bytes cs = sum_list (map ck_size cs)"

definition parse_chunk_manifest :: "(string \<Rightarrow> string) \<Rightarrow> string \<Rightarrow> js \<Rightarrow> chunk_manifest result" where
  "parse_chunk_manifest sha conv v =
     rbind (own_data_record ''conversation transcript chunks''
              [''schemaVersion'', ''kind'', ''encoding'', ''digest'', ''sizeBytes'', ''chunks''] v) (\<lambda>input.
     rbind (require (fld input ''schemaVersion'' = JNum 1
                     \<and> fld input ''kind'' = JStr ''mono-agent.canonical-transcript-chunks''
                     \<and> fld input ''encoding'' = JStr ''utf8-json'') (TypeError ''conversation transcript chunks'')) (\<lambda>_.
     rbind (transcript_chunk_digest ''conversation transcript chunks.digest'' (fld input ''digest'')) (\<lambda>digest.
     rbind (bounded_integer ''conversation transcript chunks.sizeBytes'' 1 chunked_transcript_max_bytes
              (fld input ''sizeBytes'')) (\<lambda>size.
     rbind (dense_own_data_array ''conversation transcript chunks.chunks'' transcript_chunk_max_items
              (fld input ''chunks'')) (\<lambda>raw.
     rbind (require (raw \<noteq> []) (TypeError ''conversation transcript chunks'')) (\<lambda>_.
     rbind (conversation_chunk_prefix sha conv) (\<lambda>pre.
     rbind (parse_chunks sha pre conv 0 0 raw) (\<lambda>chunks.
     rbind (require (described_bytes chunks = size) (TypeError ''conversation transcript chunks'')) (\<lambda>_.
     Inr \<lparr>cm_digest = digest, cm_size = size, cm_chunks = chunks\<rparr>)))))))))"

definition encode_chunk :: "chunk_descriptor \<Rightarrow> js" where
  "encode_chunk c =
     JObj (req ''key'' (JStr (ck_key c)) @ req ''digest'' (JStr (ck_digest c)) @ req ''sizeBytes'' (JNum (int (ck_size c))))"

definition encode_chunk_manifest :: "chunk_manifest \<Rightarrow> js" where
  "encode_chunk_manifest m =
     JObj (req ''schemaVersion'' (JNum 1) @ req ''kind'' (JStr ''mono-agent.canonical-transcript-chunks'')
       @ req ''encoding'' (JStr ''utf8-json'') @ req ''digest'' (JStr (cm_digest m))
       @ req ''sizeBytes'' (JNum (int (cm_size m))) @ req ''chunks'' (JArr (map encode_chunk (cm_chunks m))))"

definition wf_chunk :: "(string \<Rightarrow> string) \<Rightarrow> string \<Rightarrow> nat \<Rightarrow> chunk_descriptor \<Rightarrow> bool" where
  "wf_chunk sha conv i c \<longleftrightarrow>
     hex64 (ck_digest c) \<and> text_ok 4096 False (ck_key c) \<and> conversation_chunk_state_key sha conv i (ck_digest c) = Inr (ck_key c)
     \<and> 1 \<le> ck_size c \<and> ck_size c \<le> transcript_chunk_max_bytes"

definition wf_manifest :: "(string \<Rightarrow> string) \<Rightarrow> string \<Rightarrow> chunk_manifest \<Rightarrow> bool" where
  [wf_defs]: "wf_manifest sha conv m \<longleftrightarrow>
     hex64 (cm_digest m) \<and> 1 \<le> cm_size m \<and> cm_size m \<le> chunked_transcript_max_bytes
     \<and> cm_chunks m \<noteq> [] \<and> length (cm_chunks m) \<le> transcript_chunk_max_items
     \<and> list_all (\<lambda>i. wf_chunk sha conv i (cm_chunks m ! i)) [0..<length (cm_chunks m)]
     \<and> described_bytes (cm_chunks m) = cm_size m"

lemma chunk_key_prefix:
  "conversation_chunk_state_key sha conv i d = Inr k \<Longrightarrow> conversation_chunk_prefix sha conv = Inr p \<Longrightarrow> prefix p k"
  by (auto simp: key_simps)

lemma wf_chunk_prefix: "wf_chunk sha conv i c \<Longrightarrow> conversation_chunk_prefix sha conv = Inr p \<Longrightarrow> prefix p (ck_key c)"
  unfolding wf_chunk_def by (blast intro: chunk_key_prefix)

lemma chunk_roundtrip:
  "wf_chunk sha conv i c \<Longrightarrow> conversation_chunk_prefix sha conv = Inr pre \<Longrightarrow>
   parse_chunk sha pre conv i (encode_chunk c) = Inr c"
  using wf_chunk_prefix [of sha conv i c pre]
  by (simp add: wf_chunk_def parse_chunk_def encode_chunk_def Let_def parse_evals cong: rbind_weak_cong)

lemma parse_chunk_wf: "parse_chunk sha pre conv i v = Inr c \<Longrightarrow> wf_chunk sha conv i c"
  unfolding parse_chunk_def Let_def by (elim rbind_InrE) (auto simp: wf_chunk_def parse_iffs)

lemma parse_chunks_roundtrip:
  assumes "conversation_chunk_prefix sha conv = Inr pre"
  shows "\<forall>j < length cs. wf_chunk sha conv (i + j) (cs ! j) \<Longrightarrow>
    described + described_bytes cs \<le> chunked_transcript_max_bytes \<Longrightarrow>
    parse_chunks sha pre conv i described (map encode_chunk cs) = Inr cs"
proof (induction cs arbitrary: i described)
  case Nil
  then show ?case by simp
next
  case (Cons c cs)
  have "wf_chunk sha conv i c" using Cons.prems(1) by force
  moreover have "parse_chunks sha pre conv (Suc i) (described + ck_size c) (map encode_chunk cs) = Inr cs"
  proof (rule Cons.IH)
    show "\<forall>j < length cs. wf_chunk sha conv (Suc i + j) (cs ! j)" using Cons.prems(1) by force
    show "described + ck_size c + described_bytes cs \<le> chunked_transcript_max_bytes"
      using Cons.prems(2) by (simp add: described_bytes_def)
  qed
  ultimately show ?case using Cons.prems(2) chunk_roundtrip [OF _ assms] by (simp add: described_bytes_def)
qed

lemma parse_chunks_wf:
  "parse_chunks sha pre conv i described vs = Inr cs \<Longrightarrow>
   length cs = length vs \<and> (\<forall>j < length cs. wf_chunk sha conv (i + j) (cs ! j))"
proof (induction vs arbitrary: i described cs)
  case Nil
  then show ?case by simp
next
  case (Cons v vs)
  from Cons.prems obtain c ds where c: "parse_chunk sha pre conv i v = Inr c"
    and ds: "parse_chunks sha pre conv (Suc i) (described + ck_size c) vs = Inr ds" and cs: "cs = c # ds"
    by (auto elim!: rbind_InrE)
  from Cons.IH [OF ds] parse_chunk_wf [OF c] show ?case
    by (auto simp: cs nth_Cons split: nat.splits)
qed

lemma manifest_roundtrip: "wf_manifest sha conv m \<Longrightarrow> parse_chunk_manifest sha conv (encode_chunk_manifest m) = Inr m"
proof -
  assume wf: "wf_manifest sha conv m"
  then have "wf_chunk sha conv 0 (cm_chunks m ! 0)"
    unfolding wf_manifest_def list_all_length by fastforce
  then obtain pre where pre: "conversation_chunk_prefix sha conv = Inr pre"
    by (auto simp: wf_chunk_def key_simps)
  have "parse_chunks sha pre conv 0 0 (map encode_chunk (cm_chunks m)) = Inr (cm_chunks m)"
    by (rule parse_chunks_roundtrip [OF pre]) (use wf in \<open>auto simp: wf_manifest_def list_all_length\<close>)
  then show ?thesis
    using wf pre by (simp add: wf_manifest_def parse_chunk_manifest_def encode_chunk_manifest_def parse_evals cong: rbind_weak_cong)
qed

lemma parse_manifest_wf: "parse_chunk_manifest sha conv v = Inr m \<Longrightarrow> wf_manifest sha conv m"
  unfolding parse_chunk_manifest_def
  by (elim rbind_InrE) (auto simp: wf_manifest_def parse_iffs list_all_length dest!: parse_chunks_wf)

lemma chunk_json_ok: "wf_chunk sha conv i c \<Longrightarrow> json_ok (encode_chunk c)"
  by (auto simp: encode_chunk_def wf_chunk_def max_safe_integer_def transcript_chunk_max_bytes_def)

lemma manifest_json_ok: "wf_manifest sha conv m \<Longrightarrow> json_ok (encode_chunk_manifest m)"
proof -
  assume wf: "wf_manifest sha conv m"
  then have "json_ok (encode_chunk c)" if "c \<in> set (cm_chunks m)" for c
    using that chunk_json_ok by (fastforce simp: wf_manifest_def list_all_length in_set_conv_nth)
  then show ?thesis
    using wf by (auto simp: wf_manifest_def encode_chunk_manifest_def max_safe_integer_def chunked_transcript_max_bytes_def)
qed

section \<open>Chunking a transcript\<close>

record transcript_chunk =
  tc_descriptor :: chunk_descriptor
  tc_bytes :: string

function chunk_loop :: "(string \<Rightarrow> string) \<Rightarrow> string \<Rightarrow> nat \<Rightarrow> string \<Rightarrow> transcript_chunk list result" where
  "chunk_loop sha conv i rest =
     (if rest = [] then Inr []
      else if transcript_chunk_max_items \<le> i then Inl (RangeError ''canonical transcript'')
      else
        (let bytes = take transcript_chunk_max_bytes rest; digest = sha bytes in
         rbind (conversation_chunk_state_key sha conv i digest) (\<lambda>key.
         rbind (chunk_loop sha conv (i + 1) (drop transcript_chunk_max_bytes rest)) (\<lambda>chunks.
         Inr (\<lparr>tc_descriptor = \<lparr>ck_key = key, ck_digest = digest, ck_size = length bytes\<rparr>, tc_bytes = bytes\<rparr> # chunks)))))"
  by pat_completeness auto
termination
  by (relation "measure (\<lambda>(sha, conv, i, rest). length rest)") (auto simp: transcript_chunk_max_bytes_def)

declare chunk_loop.simps [simp del]

definition chunk_canonical_transcript ::
  "(string \<Rightarrow> string) \<Rightarrow> canonical_transcript \<Rightarrow> (chunk_manifest \<times> transcript_chunk list) result" where
  "chunk_canonical_transcript sha t =
     rbind (parse_canonical_transcript (encode_transcript t)) (\<lambda>parsed.
     rbind (encode_canonical_transcript parsed) (\<lambda>encoded.
     rbind (require (1 \<le> length encoded \<and> length encoded \<le> chunked_transcript_max_bytes) (RangeError ''canonical transcript'')) (\<lambda>_.
     rbind (chunk_loop sha (ct_conv parsed) 0 encoded) (\<lambda>chunks.
     Inr (\<lparr>cm_digest = sha encoded, cm_size = length encoded, cm_chunks = map tc_descriptor chunks\<rparr>, chunks)))))"

text \<open>A chunk describes its own bytes, and the chunks in order are the transcript.\<close>

definition chunk_ok :: "(string \<Rightarrow> string) \<Rightarrow> string \<Rightarrow> nat \<Rightarrow> transcript_chunk \<Rightarrow> bool" where
  "chunk_ok sha conv i c \<longleftrightarrow>
     ck_digest (tc_descriptor c) = sha (tc_bytes c) \<and> ck_size (tc_descriptor c) = length (tc_bytes c)
     \<and> conversation_chunk_state_key sha conv i (sha (tc_bytes c)) = Inr (ck_key (tc_descriptor c))
     \<and> 1 \<le> length (tc_bytes c) \<and> length (tc_bytes c) \<le> transcript_chunk_max_bytes"

lemma chunk_loop_Inr:
  "chunk_loop sha conv i rest = Inr cs \<Longrightarrow> i \<le> transcript_chunk_max_items \<Longrightarrow>
   concat (map tc_bytes cs) = rest \<and> i + length cs \<le> transcript_chunk_max_items
   \<and> (\<forall>j < length cs. chunk_ok sha conv (i + j) (cs ! j))"
proof (induction sha conv i rest arbitrary: cs rule: chunk_loop.induct)
  case (1 sha conv i rest)
  show ?case
  proof (cases "rest = []")
    case True
    then have "cs = []" using "1.prems" by (simp add: chunk_loop.simps [of sha conv i "[]"])
    then show ?thesis using True "1.prems" by simp
  next
    case False
    let ?b = "take transcript_chunk_max_bytes rest"
    obtain key ds where i: "i < transcript_chunk_max_items" and key: "conversation_chunk_state_key sha conv i (sha ?b) = Inr key"
      and ds: "chunk_loop sha conv (i + 1) (drop transcript_chunk_max_bytes rest) = Inr ds"
      and cs: "cs = \<lparr>tc_descriptor = \<lparr>ck_key = key, ck_digest = sha ?b, ck_size = length ?b\<rparr>, tc_bytes = ?b\<rparr> # ds"
      using "1.prems" False by (auto simp: chunk_loop.simps [of sha conv i rest] Let_def elim!: rbind_InrE split: if_splits)
    have ih: "concat (map tc_bytes ds) = drop transcript_chunk_max_bytes rest \<and> i + 1 + length ds \<le> transcript_chunk_max_items
        \<and> (\<forall>j < length ds. chunk_ok sha conv (i + 1 + j) (ds ! j))"
      by (rule "1.IH" [OF False _ refl refl key ds]) (use i in auto)
    have "1 \<le> length ?b" "length ?b \<le> transcript_chunk_max_bytes"
      using False by (auto simp: transcript_chunk_max_bytes_def Suc_le_eq)
    then have "chunk_ok sha conv i (hd cs)" using key by (simp add: chunk_ok_def cs)
    with ih show ?thesis unfolding cs by (auto simp: nth_Cons split: nat.splits)
  qed
qed

section \<open>Conversation records\<close>

text \<open>A record carries exactly one representation of its transcript.\<close>

datatype transcript_body =
    InlineTranscript canonical_transcript
  | TranscriptChunks chunk_manifest
  | TranscriptRef artifact_ref

record conversation =
  cv_conv :: string
  cv_revision :: nat
  cv_body :: transcript_body
  cv_count :: nat
  cv_created :: "string option"
  cv_updated :: string
  cv_title :: "string option"
  cv_metadata :: "js option"

definition inline_of :: "transcript_body \<Rightarrow> canonical_transcript option" where
  "inline_of b = (case b of InlineTranscript t \<Rightarrow> Some t | _ \<Rightarrow> None)"

definition chunks_of :: "transcript_body \<Rightarrow> chunk_manifest option" where
  "chunks_of b = (case b of TranscriptChunks m \<Rightarrow> Some m | _ \<Rightarrow> None)"

definition ref_of :: "transcript_body \<Rightarrow> artifact_ref option" where
  "ref_of b = (case b of TranscriptRef r \<Rightarrow> Some r | _ \<Rightarrow> None)"

definition one_body ::
  "canonical_transcript option \<Rightarrow> chunk_manifest option \<Rightarrow> artifact_ref option \<Rightarrow> transcript_body result" where
  "one_body inline chunks ref =
     (case (inline, chunks, ref) of
        (Some t, None, None) \<Rightarrow> Inr (InlineTranscript t)
      | (None, Some m, None) \<Rightarrow> Inr (TranscriptChunks m)
      | (None, None, Some r) \<Rightarrow> Inr (TranscriptRef r)
      | _ \<Rightarrow> Inl (TypeError ''conversation record''))"

definition body_matches :: "transcript_body \<Rightarrow> nat \<Rightarrow> nat \<Rightarrow> bool" where
  "body_matches b revision count =
     (case b of InlineTranscript t \<Rightarrow> ct_revision t = revision \<and> length (ct_entries t) = count | _ \<Rightarrow> True)"

definition parse_conversation :: "(string \<Rightarrow> string) \<Rightarrow> js \<Rightarrow> conversation result" where
  "parse_conversation sha v =
     rbind (own_data_record ''conversation record''
              [''schemaVersion'', ''kind'', ''conversationId'', ''revision'', ''inlineTranscript'', ''transcriptChunks'',
               ''transcriptRef'', ''entryCount'', ''createdAt'', ''updatedAt'', ''title'', ''metadata''] v) (\<lambda>input.
     rbind (require (fld input ''schemaVersion'' = JNum 1 \<and> fld input ''kind'' = JStr ''mono-agent.conversation'')
              (TypeError ''conversation record'')) (\<lambda>_.
     rbind (bounded_conversation_id ''conversation record.conversationId'' (fld input ''conversationId'')) (\<lambda>conv.
     rbind (opt_field parse_canonical_transcript (fld input ''inlineTranscript'')) (\<lambda>inline.
     rbind (opt_field (parse_chunk_manifest sha conv) (fld input ''transcriptChunks'')) (\<lambda>chunks.
     rbind (opt_field parse_artifact_ref (fld input ''transcriptRef'')) (\<lambda>ref.
     rbind (one_body inline chunks ref) (\<lambda>body.
     rbind (require (case body of InlineTranscript t \<Rightarrow> ct_conv t = conv | _ \<Rightarrow> True)
              (TypeError ''inline transcript conversation identity does not match'')) (\<lambda>_.
     rbind (bounded_integer ''conversation record.revision'' 1 (nat max_safe_integer) (fld input ''revision'')) (\<lambda>revision.
     rbind (bounded_integer ''conversation record.entryCount'' 0 max_conversation_entries (fld input ''entryCount'')) (\<lambda>count.
     rbind (require (body_matches body revision count)
              (TypeError ''inline transcript does not match its conversation record'')) (\<lambda>_.
     rbind (opt_field (bounded_text ''conversation record.title'' conversation_title_max_bytes True) (fld input ''title'')) (\<lambda>title.
     rbind (opt_field (parse_session_metadata ''conversation record.metadata'') (fld input ''metadata'')) (\<lambda>metadata.
     rbind (opt_field (canonical_timestamp ''conversation record.createdAt'') (fld input ''createdAt'')) (\<lambda>created.
     rbind (canonical_timestamp ''conversation record.updatedAt'' (fld input ''updatedAt'')) (\<lambda>updated.
     rbind (require (case created of None \<Rightarrow> True | Some c \<Rightarrow> \<not> text_less updated c)
              (TypeError ''conversation record timestamps are non-monotonic'')) (\<lambda>_.
     Inr \<lparr>cv_conv = conv, cv_revision = revision, cv_body = body, cv_count = count, cv_created = created,
       cv_updated = updated, cv_title = title, cv_metadata = metadata\<rparr>))))))))))))))))"

definition encode_conversation :: "conversation \<Rightarrow> js" where
  "encode_conversation c =
     JObj (req ''schemaVersion'' (JNum 1) @ req ''kind'' (JStr ''mono-agent.conversation'')
       @ req ''conversationId'' (JStr (cv_conv c)) @ req ''revision'' (JNum (int (cv_revision c)))
       @ opt ''inlineTranscript'' encode_transcript (inline_of (cv_body c))
       @ opt ''transcriptChunks'' encode_chunk_manifest (chunks_of (cv_body c))
       @ opt ''transcriptRef'' encode_artifact_ref (ref_of (cv_body c))
       @ req ''entryCount'' (JNum (int (cv_count c))) @ opt ''createdAt'' JStr (cv_created c)
       @ req ''updatedAt'' (JStr (cv_updated c)) @ opt ''title'' JStr (cv_title c) @ opt ''metadata'' id (cv_metadata c))"

definition wf_body :: "(string \<Rightarrow> string) \<Rightarrow> string \<Rightarrow> transcript_body \<Rightarrow> bool" where
  "wf_body sha conv b \<longleftrightarrow>
     (case b of
        InlineTranscript t \<Rightarrow> wf_transcript t \<and> ct_conv t = conv
      | TranscriptChunks m \<Rightarrow> wf_manifest sha conv m
      | TranscriptRef r \<Rightarrow> wf_artifact_ref r)"

definition wf_conversation :: "(string \<Rightarrow> string) \<Rightarrow> conversation \<Rightarrow> bool" where
  [wf_defs]: "wf_conversation sha c \<longleftrightarrow>
     conv_id_ok (cv_conv c) \<and> wf_body sha (cv_conv c) (cv_body c)
     \<and> 1 \<le> cv_revision c \<and> int (cv_revision c) \<le> max_safe_integer \<and> cv_count c \<le> max_conversation_entries
     \<and> body_matches (cv_body c) (cv_revision c) (cv_count c)
     \<and> opt_ok (text_ok conversation_title_max_bytes True) (cv_title c) \<and> opt_ok wf_metadata (cv_metadata c)
     \<and> opt_ok canonical_ts (cv_created c) \<and> canonical_ts (cv_updated c)
     \<and> (case cv_created c of None \<Rightarrow> True | Some t \<Rightarrow> \<not> text_less (cv_updated c) t)"

lemma encode_transcript_defined [simp]: "encode_transcript t \<noteq> JUndef"
  by (simp add: encode_transcript_def transcript_literal_def)

lemma encode_manifest_defined [simp]: "encode_chunk_manifest m \<noteq> JUndef"
  by (simp add: encode_chunk_manifest_def)

lemma encode_ref_defined [simp]: "encode_artifact_ref r \<noteq> JUndef"
  by (simp add: encode_artifact_ref_def)

lemma metadata_field:
  "opt_ok wf_metadata x \<Longrightarrow> (x = None \<Longrightarrow> z = JUndef) \<Longrightarrow>
   opt_field (parse_session_metadata path) (case x of None \<Rightarrow> z | Some y \<Rightarrow> id y) = Inr x"
  by (cases x) (simp_all add: opt_field_def metadata_roundtrip)

lemma one_body_of [simp]: "one_body (inline_of b) (chunks_of b) (ref_of b) = Inr b"
  by (cases b) (simp_all add: one_body_def inline_of_def chunks_of_def ref_of_def)

lemma body_fields:
  assumes "wf_body sha conv b"
  shows "(inline_of b = None \<Longrightarrow> z = JUndef) \<Longrightarrow>
      opt_field parse_canonical_transcript (case inline_of b of None \<Rightarrow> z | Some t \<Rightarrow> encode_transcript t) = Inr (inline_of b)"
    "(chunks_of b = None \<Longrightarrow> z = JUndef) \<Longrightarrow>
      opt_field (parse_chunk_manifest sha conv) (case chunks_of b of None \<Rightarrow> z | Some m \<Rightarrow> encode_chunk_manifest m) = Inr (chunks_of b)"
    "(ref_of b = None \<Longrightarrow> z = JUndef) \<Longrightarrow>
      opt_field parse_artifact_ref (case ref_of b of None \<Rightarrow> z | Some r \<Rightarrow> encode_artifact_ref r) = Inr (ref_of b)"
  using assms
  by (cases b; simp add: wf_body_def inline_of_def chunks_of_def ref_of_def opt_field_def transcript_roundtrip
      manifest_roundtrip artifact_ref_roundtrip)+

lemma conversation_roundtrip: "wf_conversation sha c \<Longrightarrow> parse_conversation sha (encode_conversation c) = Inr c"
proof -
  assume wf: "wf_conversation sha c"
  have "case cv_body c of InlineTranscript t \<Rightarrow> ct_conv t = cv_conv c | _ \<Rightarrow> True"
    using wf by (auto simp: wf_conversation_def wf_body_def split: transcript_body.splits)
  then show ?thesis
    using wf
    by (simp add: wf_conversation_def parse_conversation_def encode_conversation_def opt_ok_def parse_evals
        body_fields [of sha "cv_conv c" "cv_body c"] metadata_field max_safe_integer_def cong: rbind_weak_cong)
qed

lemma one_body_Inr:
  "one_body i m r = Inr b \<longleftrightarrow> i = inline_of b \<and> m = chunks_of b \<and> r = ref_of b"
  by (auto simp: one_body_def inline_of_def chunks_of_def ref_of_def split: option.splits transcript_body.splits)

lemma one_body_wf:
  assumes "opt_field parse_canonical_transcript u = Inr inline" "opt_field (parse_chunk_manifest sha conv) v = Inr chunks"
    "opt_field parse_artifact_ref w = Inr ref" "one_body inline chunks ref = Inr body"
    "case body of InlineTranscript t \<Rightarrow> ct_conv t = conv | _ \<Rightarrow> True"
  shows "wf_body sha conv body"
proof (cases body)
  case (InlineTranscript t)
  then have "inline = Some t" using assms(4) by (simp add: one_body_Inr inline_of_def)
  then have "wf_transcript t" using assms(1) by (auto simp: opt_field_Inr dest: parse_transcript_wf)
  then show ?thesis using assms(5) by (simp add: InlineTranscript wf_body_def)
next
  case (TranscriptChunks cm)
  then have "chunks = Some cm" using assms(4) by (simp add: one_body_Inr chunks_of_def)
  then show ?thesis using assms(2) by (auto simp: TranscriptChunks wf_body_def opt_field_Inr dest: parse_manifest_wf)
next
  case (TranscriptRef ar)
  then have "ref = Some ar" using assms(4) by (simp add: one_body_Inr ref_of_def)
  then show ?thesis using assms(3) by (auto simp: TranscriptRef wf_body_def opt_field_Inr dest: parse_artifact_ref_wf)
qed

lemma parse_conversation_wf: "parse_conversation sha v = Inr c \<Longrightarrow> wf_conversation sha c"
  unfolding parse_conversation_def
  by (elim rbind_InrE, simp only: require_Inr sum.inject, hypsubst,
      simp only: wf_conversation_def conversation.simps, intro conjI)
    ((erule (4) one_body_wf) | (erule opt_field_ok, erule parse_metadata_wf) | (erule opt_field_ok, simp only: parse_iffs)
      | (simp only: parse_iffs) | assumption | (simp add: parse_iffs max_safe_integer_def))+

lemma conversation_json_ok: "wf_conversation sha c \<Longrightarrow> json_ok (encode_conversation c)"
proof -
  assume wf: "wf_conversation sha c"
  have "opt_ok (\<lambda>t. json_ok (encode_transcript t)) (inline_of (cv_body c))"
    "opt_ok (\<lambda>m. json_ok (encode_chunk_manifest m)) (chunks_of (cv_body c))"
    "opt_ok (\<lambda>r. json_ok (encode_artifact_ref r)) (ref_of (cv_body c))"
    using wf
    by (auto simp: wf_conversation_def wf_body_def inline_of_def chunks_of_def ref_of_def opt_ok_def
        split: transcript_body.splits intro: transcript_json_ok manifest_json_ok artifact_ref_json_ok)
  moreover have "opt_ok (\<lambda>m. json_ok (id m)) (cv_metadata c)"
    using wf metadata_json_ok by (simp add: wf_conversation_def opt_ok_def)
  moreover have "opt_ok (\<lambda>s. json_ok (JStr s)) x" for x by (simp add: opt_ok_def)
  ultimately show ?thesis
    using wf by (simp add: encode_conversation_def wf_conversation_def max_conversation_entries_def max_safe_integer_def)
qed

interpretation conversation_codec: record_codec "parse_conversation sha" encode_conversation "wf_conversation sha" for sha
  by unfold_locales (rule conversation_roundtrip parse_conversation_wf conversation_json_ok; assumption)+

definition assert_conversation_key_authority ::
  "(string \<Rightarrow> string) \<Rightarrow> string \<Rightarrow> conversation \<Rightarrow> string option \<Rightarrow> unit result" where
  "assert_conversation_key_authority sha key c requested =
     rbind (conversation_state_key sha (cv_conv c)) (\<lambda>expected.
     require (key = expected \<and> (case requested of None \<Rightarrow> True | Some r \<Rightarrow> cv_conv c = r))
       (PlainError ''conversation record key does not match its conversation identity''))"

section \<open>Provider sessions\<close>

record runtime_session =
  se_id :: string
  se_conv :: string
  se_route :: route_identity
  se_created :: "string option"
  se_expires :: "string option"
  se_metadata :: "js option"

record provider_session =
  ps_conv :: string
  ps_route :: route_identity
  ps_session :: runtime_session
  ps_updated :: string

definition lifetime_ok :: "string option \<Rightarrow> string option \<Rightarrow> bool" where
  "lifetime_ok created expires =
     (case (created, expires) of (Some c, Some e) \<Rightarrow> \<not> date_ms e \<le> date_ms c | _ \<Rightarrow> True)"

definition parse_runtime_session :: "string \<Rightarrow> js \<Rightarrow> runtime_session result" where
  "parse_runtime_session path v =
     rbind (own_data_record path [''id'', ''conversationId'', ''route'', ''createdAt'', ''expiresAt'', ''metadata''] v) (\<lambda>input.
     rbind (opt_field (canonical_timestamp (path @ ''.createdAt'')) (fld input ''createdAt'')) (\<lambda>created.
     rbind (opt_field (canonical_timestamp (path @ ''.expiresAt'')) (fld input ''expiresAt'')) (\<lambda>expires.
     rbind (require (lifetime_ok created expires) (TypeError (path @ ''.expiresAt''))) (\<lambda>_.
     rbind (opt_field (parse_session_metadata (path @ ''.metadata'')) (fld input ''metadata'')) (\<lambda>metadata.
     rbind (bounded_identifier (path @ ''.id'') (fld input ''id'')) (\<lambda>i.
     rbind (bounded_conversation_id (path @ ''.conversationId'') (fld input ''conversationId'')) (\<lambda>conv.
     rbind (parse_route_identity (fld input ''route'')) (\<lambda>route.
     Inr \<lparr>se_id = i, se_conv = conv, se_route = route, se_created = created, se_expires = expires,
       se_metadata = metadata\<rparr>))))))))"

definition encode_runtime_session :: "runtime_session \<Rightarrow> js" where
  "encode_runtime_session s =
     JObj (req ''id'' (JStr (se_id s)) @ req ''conversationId'' (JStr (se_conv s))
       @ req ''route'' (encode_route_identity (se_route s)) @ opt ''createdAt'' JStr (se_created s)
       @ opt ''expiresAt'' JStr (se_expires s) @ opt ''metadata'' id (se_metadata s))"

definition wf_runtime_session :: "runtime_session \<Rightarrow> bool" where
  [wf_defs]: "wf_runtime_session s \<longleftrightarrow>
     ident_ok (se_id s) \<and> conv_id_ok (se_conv s) \<and> wf_route (se_route s) \<and> opt_ok canonical_ts (se_created s)
     \<and> opt_ok canonical_ts (se_expires s) \<and> lifetime_ok (se_created s) (se_expires s) \<and> opt_ok wf_metadata (se_metadata s)"

lemma runtime_session_roundtrip:
  "wf_runtime_session s \<Longrightarrow> parse_runtime_session path (encode_runtime_session s) = Inr s"
  by (simp add: wf_runtime_session_def parse_runtime_session_def encode_runtime_session_def opt_ok_def parse_evals
      metadata_field route_roundtrip cong: rbind_weak_cong)

lemma parse_runtime_session_wf: "parse_runtime_session path v = Inr s \<Longrightarrow> wf_runtime_session s"
  unfolding parse_runtime_session_def
  by (elim rbind_InrE, simp only: require_Inr sum.inject, hypsubst,
      simp only: wf_runtime_session_def runtime_session.simps, intro conjI)
    ((erule opt_field_ok, erule parse_metadata_wf) | (erule opt_field_ok, simp only: parse_iffs)
      | (erule parse_route_wf) | (simp only: parse_iffs) | argo)+

lemma runtime_session_json_ok: "wf_runtime_session s \<Longrightarrow> json_ok (encode_runtime_session s)"
  by (auto simp: encode_runtime_session_def wf_runtime_session_def opt_ok_def encode_route_identity_def
      intro: metadata_json_ok)

definition parse_provider_session :: "js \<Rightarrow> provider_session result" where
  "parse_provider_session v =
     rbind (own_data_record ''provider session record''
              [''schemaVersion'', ''kind'', ''conversationId'', ''route'', ''session'', ''updatedAt''] v) (\<lambda>input.
     rbind (require (fld input ''schemaVersion'' = JNum 1 \<and> fld input ''kind'' = JStr ''mono-agent.provider-session'')
              (TypeError ''provider session record'')) (\<lambda>_.
     rbind (bounded_conversation_id ''provider session record.conversationId'' (fld input ''conversationId'')) (\<lambda>conv.
     rbind (parse_route_identity (fld input ''route'')) (\<lambda>route.
     rbind (parse_runtime_session ''provider session record.session'' (fld input ''session'')) (\<lambda>session.
     rbind (require (se_conv session = conv \<and> same_route (se_route session) route) (TypeError ''provider session record'')) (\<lambda>_.
     rbind (canonical_timestamp ''provider session record.updatedAt'' (fld input ''updatedAt'')) (\<lambda>updated.
     Inr \<lparr>ps_conv = conv, ps_route = route, ps_session = session, ps_updated = updated\<rparr>)))))))"

definition encode_provider_session :: "provider_session \<Rightarrow> js" where
  "encode_provider_session p =
     JObj (req ''schemaVersion'' (JNum 1) @ req ''kind'' (JStr ''mono-agent.provider-session'')
       @ req ''conversationId'' (JStr (ps_conv p)) @ req ''route'' (encode_route_identity (ps_route p))
       @ req ''session'' (encode_runtime_session (ps_session p)) @ req ''updatedAt'' (JStr (ps_updated p)))"

definition wf_provider_session :: "provider_session \<Rightarrow> bool" where
  [wf_defs]: "wf_provider_session p \<longleftrightarrow>
     conv_id_ok (ps_conv p) \<and> wf_route (ps_route p) \<and> wf_runtime_session (ps_session p)
     \<and> se_conv (ps_session p) = ps_conv p \<and> se_route (ps_session p) = ps_route p \<and> canonical_ts (ps_updated p)"

lemma provider_session_roundtrip:
  "wf_provider_session p \<Longrightarrow> parse_provider_session (encode_provider_session p) = Inr p"
  by (simp add: wf_provider_session_def parse_provider_session_def encode_provider_session_def parse_evals
      route_roundtrip runtime_session_roundtrip same_route_eq cong: rbind_weak_cong)

lemma parse_provider_session_wf: "parse_provider_session v = Inr p \<Longrightarrow> wf_provider_session p"
  unfolding parse_provider_session_def
  by (elim rbind_InrE)
    (auto simp: wf_provider_session_def parse_iffs same_route_eq dest: parse_route_wf parse_runtime_session_wf)

lemma provider_session_json_ok: "wf_provider_session p \<Longrightarrow> json_ok (encode_provider_session p)"
  by (auto simp: encode_provider_session_def wf_provider_session_def encode_route_identity_def max_safe_integer_def
      intro: runtime_session_json_ok)

interpretation session_codec: record_codec parse_provider_session encode_provider_session wf_provider_session
  by unfold_locales (rule provider_session_roundtrip parse_provider_session_wf provider_session_json_ok; assumption)+

section \<open>Entries appended by a delivery\<close>

definition own_data_field :: "js \<Rightarrow> string \<Rightarrow> js" where
  "own_data_field v k = (case v of JObj fs \<Rightarrow> fld fs k | _ \<Rightarrow> JUndef)"

definition delivery_entry_keys :: "js \<Rightarrow> string list" where
  "delivery_entry_keys kind =
     (if kind = JStr ''message''
      then [''kind'', ''entryId'', ''runId'', ''requestId'', ''conversationId'', ''role'', ''content'', ''route'']
      else if kind = JStr ''verbatim''
      then [''kind'', ''entryId'', ''runId'', ''requestId'', ''conversationId'', ''role'', ''text'']
      else [''kind''])"

fun assistant_entry :: "transcript_entry \<Rightarrow> bool" where
  "assistant_entry (MessageEntry c role content route) = (role = RoleAssistant)"
| "assistant_entry (VerbatimEntry c role body) = (role = RoleAssistant)"
| "assistant_entry (InteractionEntry c evidence content) = False"

definition parse_delivery_transcript_entry :: "js \<Rightarrow> string \<Rightarrow> string \<Rightarrow> transcript_entry result" where
  "parse_delivery_transcript_entry v conv recorded =
     rbind (own_data_record ''conversation delivery entry'' (delivery_entry_keys (own_data_field v ''kind'')) v) (\<lambda>input.
     rbind (parse_canonical_transcript (transcript_literal conv 1 [JObj (input @ req ''recordedAt'' (JStr recorded))])) (\<lambda>t.
     rbind (require (assistant_entry (hd (ct_entries t))) (TypeError ''conversation delivery entry'')) (\<lambda>_.
     Inr (hd (ct_entries t)))))"

fun authority_fields :: "transcript_entry \<Rightarrow> (string \<times> js) list" where
  "authority_fields (MessageEntry c role content route) =
     req ''kind'' (JStr ''message'') @ req ''entryId'' (JStr (ec_entry c)) @ req ''runId'' (JStr (ec_run c))
       @ req ''requestId'' (JStr (ec_request c)) @ req ''conversationId'' (JStr (ec_conv c))
       @ req ''role'' (JStr (enum_text roles role)) @ req ''content'' (encode_content content)
       @ opt ''route'' encode_route_identity route"
| "authority_fields (VerbatimEntry c role body) =
     req ''kind'' (JStr ''verbatim'') @ req ''entryId'' (JStr (ec_entry c)) @ req ''runId'' (JStr (ec_run c))
       @ req ''requestId'' (JStr (ec_request c)) @ req ''conversationId'' (JStr (ec_conv c))
       @ req ''role'' (JStr (enum_text roles role)) @ req ''text'' (JStr body)"
| "authority_fields (InteractionEntry c evidence content) = []"

definition delivery_entry_digest :: "(string \<Rightarrow> string) \<Rightarrow> transcript_entry \<Rightarrow> string result" where
  "delivery_entry_digest sha e =
     rbind (require (assistant_entry e) (TypeError ''conversation delivery entry'')) (\<lambda>_.
     let encoded = json_text (JObj (authority_fields e)) in
     rbind (require (length encoded \<le> chunked_transcript_max_bytes) (RangeError ''conversation delivery entry'')) (\<lambda>_.
     Inr (''sha256:'' @ sha (''mono-agent:conversation-delivery-entry:v1'' @ [CHR 0x00] @ encoded))))"

text \<open>What the digest parameter must be: the lower-case hexadecimal text of 32 bytes.\<close>

definition sha_hex :: "(string \<Rightarrow> string) \<Rightarrow> bool" where
  "sha_hex sha \<longleftrightarrow> (\<forall>s. hex64 (sha s))"

lemma hex64_graphic: "hex64 d \<Longrightarrow> list_all graphic d"
  by (auto simp: hex64_def is_hex_def graphic_def list_all_iff)

lemma digest_graphic: "digit_char n = c \<Longrightarrow> graphic c"
  using is_digit_digit [of n] by (auto simp: graphic_def code_of_def is_digit_def)

lemma fixed_text_graphic: "list_all graphic (fixed_text w n)"
  using fixed_text_digits [of w n] by (auto simp: list_all_iff graphic_def code_of_def is_digit_def)

lemma chunk_key_text:
  assumes "sha_hex sha" "conversation_chunk_state_key sha conv i d = Inr k"
  shows "text_ok 4096 False k"
proof -
  have d: "hex64 d" and k: "k = prefix_chunks @ sha conv @ ''/'' @ fixed_text 3 i @ ''-'' @ d"
    using assms(2) by (auto simp: key_simps)
  have s: "hex64 (sha conv)" using assms(1) by (simp add: sha_hex_def)
  have "length k \<le> 4096" "k \<noteq> []"
    using d s by (simp_all add: k prefix_chunks_def hex64_def)
  moreover have "list_all graphic k"
    using hex64_graphic [OF d] hex64_graphic [OF s] fixed_text_graphic
    by (simp add: k prefix_chunks_def graphic_def code_of_def)
  ultimately show ?thesis by (intro text_ok_graphic)
qed

lemma chunk_ok_wf: "sha_hex sha \<Longrightarrow> chunk_ok sha conv i c \<Longrightarrow> wf_chunk sha conv i (tc_descriptor c)"
  by (auto simp: chunk_ok_def wf_chunk_def sha_hex_def intro: chunk_key_text)

text \<open>Chunking gives a manifest its own parser accepts, whose chunks put together are the encoded
  transcript.\<close>

lemma chunk_transcript_Inr:
  assumes "chunk_canonical_transcript sha t = Inr (m, cs)" "wf_transcript t"
  shows "encode_canonical_transcript t = Inr (concat (map tc_bytes cs))"
    "cm_digest m = sha (concat (map tc_bytes cs))" "cm_size m = length (concat (map tc_bytes cs))"
    "cm_chunks m = map tc_descriptor cs" "\<forall>j < length cs. chunk_ok sha (ct_conv t) j (cs ! j)"
    "sha_hex sha \<Longrightarrow> wf_manifest sha (ct_conv t) m"
proof -
  obtain encoded where enc: "encode_canonical_transcript t = Inr encoded"
    and len: "1 \<le> length encoded" "length encoded \<le> chunked_transcript_max_bytes"
    and loop: "chunk_loop sha (ct_conv t) 0 encoded = Inr cs"
    and m: "m = \<lparr>cm_digest = sha encoded, cm_size = length encoded, cm_chunks = map tc_descriptor cs\<rparr>"
    using assms unfolding chunk_canonical_transcript_def
    by (auto elim!: rbind_InrE simp: transcript_roundtrip)
  have l: "concat (map tc_bytes cs) = encoded" "length cs \<le> transcript_chunk_max_items"
    "\<forall>j < length cs. chunk_ok sha (ct_conv t) j (cs ! j)"
    using chunk_loop_Inr [OF loop] by auto
  show "encode_canonical_transcript t = Inr (concat (map tc_bytes cs))"
    "cm_digest m = sha (concat (map tc_bytes cs))" "cm_size m = length (concat (map tc_bytes cs))"
    "cm_chunks m = map tc_descriptor cs" "\<forall>j < length cs. chunk_ok sha (ct_conv t) j (cs ! j)"
    using enc l m by simp_all
  assume sha: "sha_hex sha"
  have "map (\<lambda>c. ck_size (tc_descriptor c)) cs = map (\<lambda>c. length (tc_bytes c)) cs"
    using l(3) by (intro nth_equalityI) (auto simp: chunk_ok_def)
  from arg_cong [OF this, of sum_list] have "described_bytes (cm_chunks m) = length encoded"
    unfolding described_bytes_def m l(1) [symmetric] by (simp only: length_concat comp_def map_map chunk_manifest.simps)
  moreover have "cs \<noteq> []" using l(1) len by auto
  moreover have "wf_chunk sha (ct_conv t) i (tc_descriptor (cs ! i))" if "i < length cs" for i
    using that l(3) chunk_ok_wf [OF sha] by blast
  ultimately show "wf_manifest sha (ct_conv t) m"
    using sha len l(2) by (auto simp: wf_manifest_def m sha_hex_def list_all_iff)
qed

lemma delivery_digest_Inr:
  "delivery_entry_digest sha e = Inr d \<Longrightarrow> assistant_entry e \<and> (sha_hex sha \<longrightarrow> fingerprint_ok d)"
  unfolding delivery_entry_digest_def Let_def
  by (elim rbind_InrE) (auto simp: sha_hex_def fingerprint_ok_def)

lemma entry_common_at: "parse_entry_common path conv base = Inr c \<Longrightarrow> fld base ''recordedAt'' = JStr (ec_at c)"
  unfolding parse_entry_common_def by (elim rbind_InrE) (auto simp: parse_iffs)

lemma transcript_entry_at:
  assumes "parse_transcript_entry conv path (JObj fs) = Inr e"
  shows "fld fs ''recordedAt'' = JStr (ec_at (entry_common_of e))"
  using assms unfolding parse_transcript_entry_def
  by (elim rbind_InrE) (auto simp: parse_iffs elim!: rbind_InrE dest!: entry_common_at split: if_splits)

lemma transcript_literal_one:
  assumes "parse_canonical_transcript (transcript_literal conv n [v]) = Inr t"
  shows "\<exists>path. parse_transcript_entry conv path v = Inr (hd (ct_entries t))"
proof -
  obtain entries path where im: "imap (\<lambda>i. parse_transcript_entry conv (path i)) 0 [v] = Inr entries"
    and t: "ct_entries t = entries"
    using assms unfolding parse_canonical_transcript_def transcript_literal_def
    by (elim rbind_InrE) (auto simp: parse_iffs simp del: imap.simps)
  from imap_Inr_nth [OF im] have "parse_transcript_entry conv (path 0) v = Inr (hd entries)"
    by (cases entries) auto
  then show ?thesis using t by blast
qed

lemma parse_delivery_entry_wf:
  assumes "parse_delivery_transcript_entry v conv recorded = Inr e"
  shows "wf_entry conv e \<and> assistant_entry e \<and> ec_at (entry_common_of e) = recorded"
proof -
  from assms obtain input t where
    v: "own_data_record ''conversation delivery entry'' (delivery_entry_keys (own_data_field v ''kind'')) v = Inr input"
    and t: "parse_canonical_transcript (transcript_literal conv 1 [JObj (input @ req ''recordedAt'' (JStr recorded))]) = Inr t"
    and as: "assistant_entry (hd (ct_entries t))" and e: "e = hd (ct_entries t)"
    unfolding parse_delivery_transcript_entry_def by (elim rbind_InrE) (simp only: require_Inr sum.inject)
  from transcript_literal_one [OF t] obtain path where
    p: "parse_transcript_entry conv path (JObj (input @ req ''recordedAt'' (JStr recorded))) = Inr e"
    using e by blast
  have "map_of input ''recordedAt'' = None"
    using v by (auto simp: map_of_eq_None_iff list_all_iff delivery_entry_keys_def parse_iffs split: if_splits)
  then have "fld (input @ req ''recordedAt'' (JStr recorded)) ''recordedAt'' = JStr recorded"
    by (simp add: fld_def req_def map_add_def)
  with transcript_entry_at [OF p] have "ec_at (entry_common_of e) = recorded" by simp
  moreover have "wf_entry conv e" using p by (rule parse_entry_wf)
  ultimately show ?thesis using as e by simp
qed

end
