(* ===== verification/CodecProps.thy ===== *)
theory CodecProps
  imports RecordContract
begin

text \<open>
  The properties of the records and keys of the journal, each with a witness on a concrete record.
  The delivery receipt stands for the record types that share the contract \<open>record_codec\<close>.
\<close>

section \<open>Sample values\<close>

abbreviation sample_time :: string where
  "sample_time \<equiv> ''1970-01-01T00:00:00.000Z''"

definition sample_digest :: string where
  "sample_digest = ''sha256:'' @ replicate 64 CHR ''a''"

lemma sample_digest_ok [simp]: "fingerprint_ok sample_digest"
  by (simp add: fingerprint_ok_def sample_digest_def hex64_def list_all_iff is_hex_def code_of_def)

lemma sample_ident [simp]: "s \<in> {''d1'', ''c1'', ''t1'', ''r1'', ''m1''} \<Longrightarrow> ident_ok s"
  by (auto simp: text_ok_graphic graphic_def code_of_def identifier_max_bytes_def)

definition sample_delivery :: delivery where
  "sample_delivery = \<lparr>de_key = ''d1'', de_fingerprint = sample_digest, de_channel = ''c1'', de_run = None,
     de_status = DelDelivered, de_attempts = 1, de_token = ''t1'', de_created = sample_time, de_updated = sample_time,
     de_lease = None, de_message = Some ''m1'', de_code = None, de_history_entry = None, de_history_conv = None,
     de_history_fingerprint = None, de_history_digest = None\<rparr>"

lemma sample_delivery_wf: "wf_delivery sample_delivery"
  using canonical_epoch
  by (simp add: wf_delivery_def sample_delivery_def history_count_def present_def max_delivery_attempts_def)

lemma sample_delivery_bytes:
  "encode_execution_record (encode_delivery sample_delivery) = Inr (json_text (encode_delivery sample_delivery))"
proof -
  have "snapshot_json (encode_delivery sample_delivery) ''$'' 0 0 = Inr (encode_delivery sample_delivery, 12)"
    by (simp add: encode_delivery_def sample_delivery_def req_def opt_def next_item_def container_guard_def
        snapshot_leaf_def execution_record_max_items_def execution_record_max_depth_def)
  moreover have "length (concat (map json_escape sample_digest)) \<le> 430"
    using json_quote_length [of sample_digest] by (simp add: json_quote_def sample_digest_def)
  then have "length (json_text (encode_delivery sample_delivery)) \<le> execution_record_max_bytes"
    by (simp add: encode_delivery_def sample_delivery_def req_def opt_def json_quote_def json_escape_def code_of_def
        int_text_def nat_text.simps delivery_statuses_def execution_record_max_bytes_def)
  ultimately show ?thesis by (simp add: encode_execution_record_def)
qed

section \<open>Records\<close>

text \<open>C22: A delivery receipt that was written is read back unchanged.\<close>

theorem delivery_bytes_roundtrip:
  assumes "wf_delivery d" "encode_execution_record (encode_delivery d) = Inr b"
  shows "decode_record parse_delivery b = Inr d"
  using assms by (rule delivery_codec.decoded_encode [rotated])

lemma delivery_bytes_roundtrip_witness:
  "decode_record parse_delivery (json_text (encode_delivery sample_delivery)) = Inr sample_delivery"
  by (rule delivery_bytes_roundtrip [OF sample_delivery_wf sample_delivery_bytes])

text \<open>C23: Whatever bytes are stored, a receipt the reader accepts is in one of four consistent states:
  an intent with a lease and neither message nor code; delivered, without lease or code; failed or
  unknown, with a code and neither lease nor message; and history fields come all four with a delivered
  receipt or not at all.\<close>

theorem delivery_read_states:
  assumes "decode_record parse_delivery b = Inr d"
  shows "1 \<le> de_attempts d \<and> de_attempts d \<le> max_delivery_attempts
    \<and> (case de_status d of
         DelIntent \<Rightarrow> de_lease d \<noteq> None \<and> de_message d = None \<and> de_code d = None \<and> history_count d = 0
       | DelDelivered \<Rightarrow> de_lease d = None \<and> de_code d = None \<and> history_count d \<in> {0, 4}
       | DelFailed \<Rightarrow> de_lease d = None \<and> de_message d = None \<and> de_code d \<noteq> None \<and> history_count d = 0
       | DelUnknown \<Rightarrow> de_lease d = None \<and> de_message d = None \<and> de_code d \<noteq> None \<and> history_count d = 0)"
  using delivery_codec.decoded_wf [OF assms] by (auto simp: wf_delivery_def split: delivery_status.splits)

lemma delivery_read_states_witness:
  "de_lease sample_delivery = None \<and> de_code sample_delivery = None \<and> history_count sample_delivery \<in> {0, 4}"
proof -
  have "decode_record parse_delivery (json_text (encode_delivery sample_delivery)) = Inr sample_delivery"
    using delivery_codec.decoded_encode [OF sample_delivery_bytes sample_delivery_wf] .
  from delivery_read_states [OF this] show ?thesis by (simp add: sample_delivery_def)
qed

section \<open>Keys\<close>

definition sample_sha :: "string \<Rightarrow> string" where
  "sample_sha s = replicate 64 CHR ''a''"

text \<open>C26: The keys of the events of a run are in text order exactly when their sequence numbers are in
  order, so a scan of the run's prefix reads its events in sequence.\<close>

theorem event_keys_in_sequence:
  assumes "run_event_state_key sha run a = Inr ka" "run_event_state_key sha run b = Inr kb"
  shows "(ka < kb \<longleftrightarrow> a < b) \<and> (ka = kb \<longleftrightarrow> a = b)
    \<and> (\<forall>p. run_event_prefix sha run = Inr p \<longrightarrow> prefix p ka \<and> prefix p kb)"
proof -
  have less: "ka < kb \<longleftrightarrow> a < b" "kb < ka \<longleftrightarrow> b < a"
    using event_key_order assms by blast+
  have "ka = kb \<longleftrightarrow> a = b"
    using less by (metis less_irrefl linorder_less_linear)
  then show ?thesis using less assms by (auto simp: key_simps)
qed

lemma event_keys_in_sequence_witness:
  "prefix_events @ sample_sha ''r1'' @ ''/'' @ fixed_text 9 9 < prefix_events @ sample_sha ''r1'' @ ''/'' @ fixed_text 9 10"
proof -
  have "run_event_state_key sample_sha ''r1'' 9 = Inr (prefix_events @ sample_sha ''r1'' @ ''/'' @ fixed_text 9 9)"
    "run_event_state_key sample_sha ''r1'' 10 = Inr (prefix_events @ sample_sha ''r1'' @ ''/'' @ fixed_text 9 10)"
    by (simp_all add: key_simps)
  from event_keys_in_sequence [OF this] show ?thesis by simp
qed

text \<open>C27: A scan of the run history reads the latest start first: a later start has the smaller key.\<close>

theorem history_keys_newest_first:
  assumes "run_history_state_key sha s a = Inr ka" "run_history_state_key sha t b = Inr kb" "date_ms s < date_ms t"
  shows "kb < ka"
proof -
  have "canonical_ts s" "canonical_ts t" using assms(1,2) by (auto simp: key_simps)
  then have "s < t" using canonical_less assms(3) by simp
  then show ?thesis by (rule history_key_order [OF assms(1,2)])
qed

lemma history_keys_newest_first_witness:
  "prefix_history @ fixed_text 16 (nat (max_date_milliseconds - date_ms ''2024-02-29T12:00:00.000Z'')) @ ''/'' @ sample_sha ''r1''
    < prefix_history @ fixed_text 16 (nat (max_date_milliseconds - date_ms sample_time)) @ ''/'' @ sample_sha ''c1''"
  by (rule history_keys_newest_first [where sha = sample_sha and s = sample_time and a = "''c1''" and t = "''2024-02-29T12:00:00.000Z''" and b = "''r1''"])
    (simp_all add: key_simps canonical_epoch canonical_leap_day date_ms_samples)

section \<open>Artifact descriptors\<close>

definition sample_descriptor :: artifact_descriptor where
  "sample_descriptor = \<lparr>pd_slot = ''report'', pd_sha256 = sample_digest, pd_size = 3, pd_media = ''text/plain'', pd_file = None\<rparr>"

text \<open>C24: Merging publication descriptors keeps every settled slot bound to its descriptor, adds each new
  one once, and stays inside the item and byte bounds of a run.\<close>

theorem merge_keeps_slots:
  assumes "merge_descriptors first second = Inr out" "distinct (slots first)"
  shows "prefix first out \<and> distinct (slots out) \<and> set out = set first \<union> set second
    \<and> length out \<le> run_artifact_max_items \<and> content_bytes out \<le> run_content_artifact_max_total_bytes"
  using merge_descriptors_Inr [OF assms] by blast

lemma sample_merge: "merge_descriptors [] [sample_descriptor] = Inr [sample_descriptor]"
  by (simp add: merge_descriptors_def assert_publication_bounds_def content_bytes_def sample_descriptor_def
      internal_slot_def internal_slot_prefix_def run_artifact_max_items_def run_content_artifact_max_total_bytes_def
      max_safe_integer_def)

lemma merge_keeps_slots_witness: "prefix [] [sample_descriptor] \<and> distinct (slots [sample_descriptor])"
  using merge_keeps_slots [OF sample_merge] by (simp add: slots_def)

text \<open>C25: A slot is never rewritten: merging a different descriptor for a slot that is already bound is an
  error, and merging the same descriptors again changes nothing.\<close>

theorem merge_never_rewrites:
  assumes "distinct (slots first)"
  shows "((\<exists>e \<in> set first. \<exists>d \<in> set second. pd_slot e = pd_slot d \<and> e \<noteq> d) \<longrightarrow>
      (\<exists>s. merge_descriptors first second = Inl (PlainError (''artifact publication slot '' @ s @ '' cannot be rewritten''))))
    \<and> (\<forall>out. merge_descriptors first second = Inr out \<longrightarrow> merge_descriptors out second = Inr out)"
proof
  show "(\<exists>e \<in> set first. \<exists>d \<in> set second. pd_slot e = pd_slot d \<and> e \<noteq> d) \<longrightarrow>
      (\<exists>s. merge_descriptors first second = Inl (PlainError (''artifact publication slot '' @ s @ '' cannot be rewritten'')))"
    using merge_loop_conflict [OF _ _ _ _ assms] by (fastforce simp: merge_descriptors_def)
  show "\<forall>out. merge_descriptors first second = Inr out \<longrightarrow> merge_descriptors out second = Inr out"
  proof (intro allI impI)
    fix out assume out: "merge_descriptors first second = Inr out"
    note m = merge_descriptors_Inr [OF out assms]
    have "merge_loop out second = Inr out" by (rule merge_loop_idem) (use m in auto)
    then show "merge_descriptors out second = Inr out"
      using out by (auto simp: merge_descriptors_def rbind_Inr_iff split: if_splits)
  qed
qed

lemma merge_never_rewrites_witness:
  "\<exists>s. merge_descriptors [sample_descriptor] [sample_descriptor\<lparr>pd_size := 4\<rparr>]
     = Inl (PlainError (''artifact publication slot '' @ s @ '' cannot be rewritten''))"
  using merge_never_rewrites [of "[sample_descriptor]" "[sample_descriptor\<lparr>pd_size := 4\<rparr>]"]
  by (simp add: slots_def sample_descriptor_def)

end
