(* ===== verification/ConvProps.thy ===== *)
theory ConvProps
  imports ConvCodec CodecProps
begin

text \<open>
  The properties of conversation records and of chunked transcripts, each with a witness on a concrete
  conversation.
\<close>

definition sample_transcript :: canonical_transcript where
  "sample_transcript =
     \<lparr>ct_conv = ''conv-1'', ct_revision = 1,
      ct_entries = [VerbatimEntry \<lparr>ec_entry = ''e1'', ec_run = ''r1'', ec_request = ''q1'', ec_conv = ''conv-1'',
        ec_at = ''2024-02-29T12:00:00.000Z''\<rparr> RoleUser ''hello'']\<rparr>"

lemma sample_transcript_wf: "wf_transcript sample_transcript"
  using canonical_leap_day
  by (simp add: sample_transcript_def wf_transcript_def wf_common_def text_ok_graphic graphic_def code_of_def
      identifier_max_bytes_def conversation_id_max_bytes_def transcript_max_entries_def
      transcript_max_text_bytes_def max_safe_integer_def)

abbreviation sample_text :: string where
  "sample_text \<equiv> json_text (encode_transcript sample_transcript)"

lemma sample_text_length: "1 \<le> length sample_text \<and> length sample_text \<le> 1000"
  by (simp add: sample_transcript_def encode_transcript_def transcript_literal_def encode_entry_common_def
      req_def json_quote_def json_escape_def code_of_def int_text_def nat_text.simps roles_def)

lemma sample_transcript_bytes: "encode_canonical_transcript sample_transcript = Inr sample_text"
  using sample_text_length by (intro encode_canonical_ok sample_transcript_wf) (simp add: transcript_max_bytes_def)

section \<open>Chunked transcripts\<close>

text \<open>C29: Splitting a transcript into chunks gives a manifest that the reader of conversation records
  accepts, whose chunks, read in the manifest's order and put together, decode to that transcript; every
  chunk is stored under the key of its own digest and none is larger than a chunk may be.\<close>

theorem chunking_roundtrip:
  assumes "chunk_canonical_transcript sha t = Inr (m, cs)" "wf_transcript t" "sha_hex sha"
  shows "parse_chunk_manifest sha (ct_conv t) (encode_chunk_manifest m) = Inr m
    \<and> decode_canonical_transcript (concat (map tc_bytes cs)) (Some (ct_conv t)) = Inr t
    \<and> length cs = length (cm_chunks m)
    \<and> (\<forall>j < length cs. conversation_chunk_state_key sha (ct_conv t) j (sha (tc_bytes (cs ! j))) = Inr (ck_key (cm_chunks m ! j))
         \<and> length (tc_bytes (cs ! j)) \<le> transcript_chunk_max_bytes)"
proof -
  note c = chunk_transcript_Inr [OF assms(1,2)]
  have "decode_canonical_transcript (concat (map tc_bytes cs)) (Some (ct_conv t)) = Inr t"
    using decode_encode [OF assms(2) c(1)] by simp
  moreover have "parse_chunk_manifest sha (ct_conv t) (encode_chunk_manifest m) = Inr m"
    using manifest_roundtrip c(6) assms(3) by blast
  ultimately show ?thesis using c(4,5) by (simp add: chunk_ok_def)
qed

lemma sample_sha_hex: "sha_hex sample_sha"
  by (simp add: sha_hex_def sample_sha_def hex64_def list_all_iff is_hex_def code_of_def)

lemma sample_chunk_key: "\<exists>k. conversation_chunk_state_key sample_sha ''conv-1'' 0 (sample_sha b) = Inr k"
  using sample_sha_hex
  by (simp add: key_simps sha_hex_def text_ok_graphic graphic_def code_of_def conversation_id_max_bytes_def)

lemma sample_chunks:
  "\<exists>k. chunk_canonical_transcript sample_sha sample_transcript
     = Inr (\<lparr>cm_digest = sample_sha sample_text, cm_size = length sample_text,
             cm_chunks = [\<lparr>ck_key = k, ck_digest = sample_sha sample_text, ck_size = length sample_text\<rparr>]\<rparr>,
            [\<lparr>tc_descriptor = \<lparr>ck_key = k, ck_digest = sample_sha sample_text, ck_size = length sample_text\<rparr>,
              tc_bytes = sample_text\<rparr>])"
proof -
  obtain k where k: "conversation_chunk_state_key sample_sha ''conv-1'' 0 (sample_sha sample_text) = Inr k"
    using sample_chunk_key by blast
  have n: "sample_text \<noteq> []" "length sample_text \<le> transcript_chunk_max_bytes"
    using sample_text_length by (auto simp: transcript_chunk_max_bytes_def)
  then have "chunk_loop sample_sha ''conv-1'' 0 sample_text
      = Inr [\<lparr>tc_descriptor = \<lparr>ck_key = k, ck_digest = sample_sha sample_text, ck_size = length sample_text\<rparr>,
              tc_bytes = sample_text\<rparr>]"
    using k by (simp add: chunk_loop.simps [of _ _ _ sample_text] chunk_loop.simps [of _ _ _ "[]"]
        Let_def transcript_chunk_max_items_def)
  moreover have "ct_conv sample_transcript = ''conv-1''" by (simp add: sample_transcript_def)
  ultimately show ?thesis
    using sample_text_length
    by (auto simp: chunk_canonical_transcript_def transcript_roundtrip [OF sample_transcript_wf] sample_transcript_bytes
        chunked_transcript_max_bytes_def)
qed

lemma chunking_roundtrip_witness:
  "decode_canonical_transcript sample_text (Some ''conv-1'') = Inr sample_transcript"
proof -
  obtain m cs where c: "chunk_canonical_transcript sample_sha sample_transcript = Inr (m, cs)"
    and b: "concat (map tc_bytes cs) = sample_text"
    using sample_chunks by fastforce
  from chunking_roundtrip [OF c sample_transcript_wf sample_sha_hex] show ?thesis
    unfolding b by (simp add: sample_transcript_def)
qed

section \<open>Conversation records\<close>

definition sample_conversation :: conversation where
  "sample_conversation = \<lparr>cv_conv = ''conv-1'', cv_revision = 1, cv_body = InlineTranscript sample_transcript,
     cv_count = 1, cv_created = Some sample_time, cv_updated = ''2024-02-29T12:00:00.000Z'', cv_title = None,
     cv_metadata = None\<rparr>"

lemma sample_conversation_wf: "wf_conversation sample_sha sample_conversation"
  using sample_transcript_wf canonical_epoch canonical_leap_day
  by (simp add: wf_conversation_def sample_conversation_def wf_body_def body_matches_def opt_ok_def
      sample_transcript_def text_ok_graphic graphic_def code_of_def conversation_id_max_bytes_def max_safe_integer_def
      max_conversation_entries_def text_less_ascii)

text \<open>C30: Whatever bytes are stored, a conversation record the reader accepts carries exactly one
  representation of its transcript, which belongs to the conversation; an inline transcript has the
  record's revision and entry count, a manifest describes consecutive chunks of this conversation that add
  up to its size.\<close>

theorem conversation_read_bodies:
  assumes "decode_record (parse_conversation sha) b = Inr c"
  shows "1 \<le> cv_revision c \<and> (case cv_body c of
      InlineTranscript t \<Rightarrow> wf_transcript t \<and> ct_conv t = cv_conv c \<and> ct_revision t = cv_revision c \<and> length (ct_entries t) = cv_count c
    | TranscriptChunks m \<Rightarrow> sum_list (map ck_size (cm_chunks m)) = cm_size m \<and> cm_chunks m \<noteq> []
        \<and> (\<forall>j < length (cm_chunks m). conversation_chunk_state_key sha (cv_conv c) j (ck_digest (cm_chunks m ! j)) = Inr (ck_key (cm_chunks m ! j)))
    | TranscriptRef r \<Rightarrow> wf_artifact_ref r)"
  using conversation_codec.decoded_wf [OF assms]
  by (auto simp: wf_conversation_def wf_body_def body_matches_def wf_manifest_def described_bytes_def wf_chunk_def
      list_all_iff split: transcript_body.splits)

lemma sample_conversation_bytes:
  "encode_execution_record (encode_conversation sample_conversation) = Inr (json_text (encode_conversation sample_conversation))"
proof -
  have "\<exists>n. snapshot_json (encode_conversation sample_conversation) ''$'' 0 0 = Inr (encode_conversation sample_conversation, n)"
    by (simp add: encode_conversation_def sample_conversation_def req_def opt_def next_item_def container_guard_def
        snapshot_leaf_def execution_record_max_items_def execution_record_max_depth_def inline_of_def chunks_of_def
        ref_of_def sample_transcript_def encode_transcript_def transcript_literal_def encode_entry_common_def)
  moreover have "length (json_text (encode_conversation sample_conversation)) \<le> execution_record_max_bytes"
    by (simp add: encode_conversation_def sample_conversation_def req_def opt_def json_quote_def json_escape_def code_of_def
        int_text_def nat_text.simps execution_record_max_bytes_def inline_of_def chunks_of_def
        ref_of_def sample_transcript_def encode_transcript_def transcript_literal_def encode_entry_common_def roles_def)
  ultimately show ?thesis by (auto simp: encode_execution_record_def)
qed

lemma conversation_read_bodies_witness: "1 \<le> cv_revision sample_conversation"
proof -
  have "decode_record (parse_conversation sample_sha) (json_text (encode_conversation sample_conversation)) = Inr sample_conversation"
    using conversation_codec.decoded_encode [OF sample_conversation_bytes sample_conversation_wf] .
  from conversation_read_bodies [OF this] show ?thesis by simp
qed

end
