(* ===== verification/Fingerprint.thy ===== *)
theory Fingerprint
  imports SessionJson
begin

text \<open>
  Durable fingerprints (\<^verbatim>\<open>createDurableFingerprint\<close> and \<^verbatim>\<open>canonicalFingerprintValue\<close> of
  \<^verbatim>\<open>execution-codec.ts\<close>): the digest of a canonical text of a value. Fingerprint material tells
  negative zero from zero, as the code does; everything else is as in \<open>js\<close>: \<open>MNum\<close> is a safe integer,
  \<open>MFloat\<close> another finite number by its JSON text.
\<close>

definition fingerprint_max_items :: nat where "fingerprint_max_items = 20000"
definition fingerprint_max_bytes :: nat where "fingerprint_max_bytes = 16777216"

datatype material =
    MUndef
  | MNull
  | MBool bool
  | MNum int
  | MNegZero
  | MFloat string
  | MNonFinite
  | MStr string
  | MArr "material list"
  | MObj "(string \<times> material) list"
  | MBytes string
  | MExotic

section \<open>Fields in order\<close>

primrec sort_material :: "material \<Rightarrow> material" where
  "sort_material MUndef = MUndef"
| "sort_material MNull = MNull"
| "sort_material (MBool b) = MBool b"
| "sort_material (MNum i) = MNum i"
| "sort_material MNegZero = MNegZero"
| "sort_material (MFloat t) = MFloat t"
| "sort_material MNonFinite = MNonFinite"
| "sort_material (MStr s) = MStr s"
| "sort_material (MArr xs) = MArr (map sort_material xs)"
| "sort_material (MObj fs) = MObj (order_fields (map (map_prod id sort_material) fs))"
| "sort_material (MBytes b) = MBytes b"
| "sort_material MExotic = MExotic"

section \<open>The canonical form and its digest\<close>

definition fp_item :: "counters \<Rightarrow> counters result" where
  "fp_item st =
     (if fingerprint_max_items < fst st + 1 then Inl (RangeError ''fingerprint material'') else Inr (fst st + 1, snd st))"

definition fp_bytes :: "nat \<Rightarrow> counters \<Rightarrow> counters result" where
  "fp_bytes n st =
     (if fingerprint_max_bytes < snd st + n then Inl (RangeError ''fingerprint material'') else Inr (fst st, snd st + n))"

text \<open>The checks of \<^verbatim>\<open>canonicalFingerprintValue\<close>; the form it builds is \<open>canonical_form\<close>.\<close>

primrec fingerprint_walk :: "material \<Rightarrow> string \<Rightarrow> counters \<Rightarrow> counters result" where
  "fingerprint_walk MUndef path st = rbind (fp_item st) (\<lambda>_. Inl (TypeError path))"
| "fingerprint_walk MNull path st = fp_item st"
| "fingerprint_walk (MBool b) path st = fp_item st"
| "fingerprint_walk (MNum i) path st =
     rbind (fp_item st) (\<lambda>st'. if finite_number (JNum i) then Inr st' else Inl (TypeError path))"
| "fingerprint_walk MNegZero path st = fp_item st"
| "fingerprint_walk (MFloat t) path st =
     rbind (fp_item st) (\<lambda>st'. if finite_number (JFloat t) then Inr st' else Inl (TypeError path))"
| "fingerprint_walk MNonFinite path st = rbind (fp_item st) (\<lambda>_. Inl (TypeError path))"
| "fingerprint_walk (MStr s) path st = rbind (fp_item st) (fp_bytes (length s))"
| "fingerprint_walk (MArr xs) path st =
     rbind (fp_item st) (\<lambda>st'.
     rbind (require (length xs \<le> fingerprint_max_items) (RangeError path)) (\<lambda>_.
     walk_items (map fingerprint_walk xs) path 0 st'))"
| "fingerprint_walk (MObj fs) path st =
     rbind (fp_item st) (walk_fields (map (map_prod id fingerprint_walk) fs) path)"
| "fingerprint_walk (MBytes b) path st = rbind (fp_item st) (fp_bytes (length b))"
| "fingerprint_walk MExotic path st = rbind (fp_item st) (\<lambda>_. Inl (TypeError path))"

primrec canonical_form :: "(string \<Rightarrow> string) \<Rightarrow> material \<Rightarrow> js" where
  "canonical_form sha MUndef = JUndef"
| "canonical_form sha MNull = JArr [JStr ''null'']"
| "canonical_form sha (MBool b) = JArr [JStr ''boolean'', JBool b]"
| "canonical_form sha (MNum i) = JArr [JStr ''number'', JNum i]"
| "canonical_form sha MNegZero = JArr [JStr ''number'', JStr ''-0'']"
| "canonical_form sha (MFloat t) = JArr [JStr ''number'', JFloat t]"
| "canonical_form sha MNonFinite = JUndef"
| "canonical_form sha (MStr s) = JArr [JStr ''string'', JStr s]"
| "canonical_form sha (MArr xs) = JArr [JStr ''array'', JArr (map (canonical_form sha) xs)]"
| "canonical_form sha (MObj fs) =
     JArr [JStr ''object'', JArr (map (\<lambda>kv. JArr [JStr (fst kv), snd kv]) (map (map_prod id (canonical_form sha)) fs))]"
| "canonical_form sha (MBytes b) = JArr [JStr ''bytes'', JNum (int (length b)), JStr (sha b)]"
| "canonical_form sha MExotic = JUndef"

definition fingerprint_text :: "(string \<Rightarrow> string) \<Rightarrow> material \<Rightarrow> string" where
  "fingerprint_text sha v =
     ''mono-agent:durable-fingerprint:v1'' @ [CHR 0x00] @ json_text (canonical_form sha (sort_material v))"

definition create_durable_fingerprint :: "(string \<Rightarrow> string) \<Rightarrow> material \<Rightarrow> string result" where
  "create_durable_fingerprint sha v =
     rbind (fingerprint_walk (sort_material v) ''$'' (0, 0)) (\<lambda>_.
     rbind (require (length (json_text (canonical_form sha (sort_material v))) \<le> fingerprint_max_bytes)
              (RangeError ''fingerprint material'')) (\<lambda>_.
     Inr (''sha256:'' @ sha (fingerprint_text sha v))))"

text \<open>The byte strings a fingerprint hashes.\<close>

primrec hashed_bytes :: "material \<Rightarrow> string list" where
  "hashed_bytes MUndef = []"
| "hashed_bytes MNull = []"
| "hashed_bytes (MBool b) = []"
| "hashed_bytes (MNum i) = []"
| "hashed_bytes MNegZero = []"
| "hashed_bytes (MFloat t) = []"
| "hashed_bytes MNonFinite = []"
| "hashed_bytes (MStr s) = []"
| "hashed_bytes (MArr xs) = concat (map hashed_bytes xs)"
| "hashed_bytes (MObj fs) = concat (map snd (map (map_prod id hashed_bytes) fs))"
| "hashed_bytes (MBytes b) = [b]"
| "hashed_bytes MExotic = []"

definition no_collision :: "(string \<Rightarrow> string) \<Rightarrow> string list \<Rightarrow> bool" where
  "no_collision sha ts \<longleftrightarrow> list_all (\<lambda>a. list_all (\<lambda>b. sha a = sha b \<longrightarrow> a = b) ts) ts"

primrec hashable :: "material \<Rightarrow> bool" where
  "hashable MUndef = False"
| "hashable MNull = True"
| "hashable (MBool b) = True"
| "hashable (MNum i) = finite_number (JNum i)"
| "hashable MNegZero = True"
| "hashable (MFloat t) = finite_number (JFloat t)"
| "hashable MNonFinite = False"
| "hashable (MStr s) = True"
| "hashable (MArr xs) = list_all id (map hashable xs)"
| "hashable (MObj fs) = list_all snd (map (map_prod id hashable) fs)"
| "hashable (MBytes b) = (int (length b) \<le> max_safe_integer)"
| "hashable MExotic = False"

lemma fp_bytes_Inr: "fp_bytes n st = Inr st' \<Longrightarrow> int n \<le> max_safe_integer"
  by (simp add: fp_bytes_def fingerprint_max_bytes_def max_safe_integer_def split: if_splits)

lemma fingerprint_walk_hashable: "fingerprint_walk v p st = Inr st' \<Longrightarrow> hashable v"
proof (induction v arbitrary: p st st')
  case (MArr xs)
  obtain s1 where "walk_items (map fingerprint_walk xs) p 0 s1 = Inr st'"
    using MArr.prems by (auto elim!: rbind_InrE)
  then have "\<exists>q s s'. fingerprint_walk x q s = Inr s'" if "x \<in> set xs" for x
    using that walk_items_all by (metis imageI list.set_map)
  then have "hashable x" if "x \<in> set xs" for x using MArr.IH that by blast
  then show ?case by (auto simp: list_all_iff)
next
  case (MObj fs)
  obtain s1 where s1: "walk_fields (map (map_prod id fingerprint_walk) fs) p s1 = Inr st'"
    using MObj.prems by (auto elim!: rbind_InrE)
  have "hashable x" if x: "(k, x) \<in> set fs" for k x
  proof -
    have "(k, fingerprint_walk x) \<in> set (map (map_prod id fingerprint_walk) fs)" using x by force
    then obtain q s s' where "fingerprint_walk x q s = Inr s'" using walk_fields_all [OF s1] by blast
    moreover have "x \<in> Basic_BNFs.snds (k, x)" by simp
    ultimately show ?thesis using MObj.IH x by metis
  qed
  then show ?case by (auto simp: list_all_iff)
next
  case (MBytes b)
  then show ?case by (auto elim!: rbind_InrE dest: fp_bytes_Inr)
qed (auto elim!: rbind_InrE split: if_splits)

lemma no_collisionD: "no_collision sha ts \<Longrightarrow> sha a = sha b \<Longrightarrow> a \<in> set ts \<Longrightarrow> b \<in> set ts \<Longrightarrow> a = b"
  unfolding no_collision_def list_all_iff by blast

lemma no_collision_sub: "no_collision sha ts \<Longrightarrow> set us \<subseteq> set ts \<Longrightarrow> no_collision sha us"
  by (auto simp: no_collision_def list_all_iff)

text \<open>The form tells apart every two values, as far as the digest tells apart their byte strings.\<close>

lemma canonical_form_inj:
  "hashable v \<Longrightarrow> hashable w \<Longrightarrow> no_collision sha (hashed_bytes v @ hashed_bytes w) \<Longrightarrow>
   canonical_form sha v = canonical_form sha w \<Longrightarrow> v = w"
proof (induction v arbitrary: w)
  case (MArr xs)
  then obtain ys where w: "w = MArr ys" by (cases w) auto
  have eq: "map (canonical_form sha) xs = map (canonical_form sha) ys" using MArr.prems w by simp
  then have len: "length xs = length ys" by (rule map_eq_imp_length_eq)
  have "xs ! i = ys ! i" if i: "i < length xs" for i
  proof (rule MArr.IH)
    show "xs ! i \<in> set xs" using i by simp
    show "hashable (xs ! i)" "hashable (ys ! i)" using MArr.prems w i len by (auto simp: list_all_length)
    show "no_collision sha (hashed_bytes (xs ! i) @ hashed_bytes (ys ! i))"
      by (rule no_collision_sub [OF MArr.prems(3)]) (use w i len nth_mem in auto)
    show "canonical_form sha (xs ! i) = canonical_form sha (ys ! i)" using eq i len by (metis nth_map)
  qed
  then show ?case using w len by (simp add: list_eq_iff_nth_eq)
next
  case (MObj fs)
  then obtain gs where w: "w = MObj gs" by (cases w) auto
  have eq: "map (\<lambda>kv. (fst kv, canonical_form sha (snd kv))) fs = map (\<lambda>kv. (fst kv, canonical_form sha (snd kv))) gs"
  proof -
    have "map (\<lambda>kv. JArr [JStr (fst kv), canonical_form sha (snd kv)]) fs
        = map (\<lambda>kv. JArr [JStr (fst kv), canonical_form sha (snd kv)]) gs"
      using MObj.prems w by (simp add: comp_def)
    then show ?thesis by (induction fs gs rule: list_induct2') auto
  qed
  then have len: "length fs = length gs" by (rule map_eq_imp_length_eq)
  have "fs ! i = gs ! i" if i: "i < length fs" for i
  proof -
    have e: "fst (fs ! i) = fst (gs ! i)" "canonical_form sha (snd (fs ! i)) = canonical_form sha (snd (gs ! i))"
      using eq i len by (metis (no_types, lifting) nth_map prod.inject)+
    have "snd (fs ! i) = snd (gs ! i)"
    proof (rule MObj.IH)
      show "fs ! i \<in> set fs" using i by simp
      show "snd (fs ! i) \<in> Basic_BNFs.snds (fs ! i)" by (cases "fs ! i") simp
      show "hashable (snd (fs ! i))" "hashable (snd (gs ! i))"
        using MObj.prems w i len by (auto simp: list_all_length)
      show "no_collision sha (hashed_bytes (snd (fs ! i)) @ hashed_bytes (snd (gs ! i)))"
        by (rule no_collision_sub [OF MObj.prems(3)]) (use w i len nth_mem in \<open>auto simp: comp_def\<close>)
    qed (rule e(2))
    with e(1) show ?thesis by (simp add: prod_eq_iff)
  qed
  then show ?case using w len by (simp add: list_eq_iff_nth_eq)
next
  case (MBytes b)
  then obtain c where w: "w = MBytes c" "sha b = sha c" by (cases w) auto
  moreover have "b = c" by (rule no_collisionD [OF MBytes.prems(3) w(2)]) (simp_all add: w(1))
  ultimately show ?case by simp
next
  case MUndef
  then show ?case by (cases w) auto
next
  case MNull
  then show ?case by (cases w) auto
next
  case (MBool b)
  then show ?case by (cases w) auto
next
  case (MNum i)
  then show ?case by (cases w) auto
next
  case MNegZero
  then show ?case by (cases w) auto
next
  case (MFloat t)
  then show ?case by (cases w) auto
next
  case MNonFinite
  then show ?case by (cases w) auto
next
  case (MStr t)
  then show ?case by (cases w) auto
next
  case MExotic
  then show ?case by (cases w) auto
qed

lemma canonical_form_json: "hashable v \<Longrightarrow> json_ok (canonical_form sha v)"
proof (induction v)
  case (MObj fs)
  have "json_ok (canonical_form sha x)" if x: "(k, x) \<in> set fs" for k x
  proof -
    have "x \<in> Basic_BNFs.snds (k, x)" by simp
    moreover have "hashable x" using MObj.prems x by (auto simp: list_all_iff)
    ultimately show ?thesis using MObj.IH x by metis
  qed
  then show ?case by auto
qed (auto simp: finite_number_def list_all_iff)

lemma create_fingerprint_Inr:
  "create_durable_fingerprint sha v = Inr f \<Longrightarrow> hashable (sort_material v) \<and> f = ''sha256:'' @ sha (fingerprint_text sha v)"
  unfolding create_durable_fingerprint_def by (auto elim!: rbind_InrE dest: fingerprint_walk_hashable)

text \<open>C31: Two requests get the same fingerprint exactly when they are the same up to the order of the
  fields of their objects (zero and negative zero being different values), as far as the digest does not collide on what is hashed.\<close>

theorem fingerprint_identifies:
  assumes "create_durable_fingerprint sha v = Inr f" "create_durable_fingerprint sha w = Inr g"
    and "no_collision sha (hashed_bytes (sort_material v) @ hashed_bytes (sort_material w))"
    and "no_collision sha [fingerprint_text sha v, fingerprint_text sha w]"
  shows "f = g \<longleftrightarrow> sort_material v = sort_material w"
proof
  assume "f = g"
  have v: "hashable (sort_material v)" and w: "hashable (sort_material w)"
    using create_fingerprint_Inr assms(1,2) by blast+
  have "sha (fingerprint_text sha v) = sha (fingerprint_text sha w)"
    using create_fingerprint_Inr [OF assms(1)] create_fingerprint_Inr [OF assms(2)] \<open>f = g\<close> by simp
  then have "fingerprint_text sha v = fingerprint_text sha w"
    by (rule no_collisionD [OF assms(4)]) simp_all
  then have "canonical_form sha (sort_material v) = canonical_form sha (sort_material w)"
    using json_text_inj canonical_form_json v w by (metis append_same_eq fingerprint_text_def same_append_eq)
  then show "sort_material v = sort_material w" using canonical_form_inj [OF v w assms(3)] by simp
next
  assume "sort_material v = sort_material w"
  then have "fingerprint_text sha v = fingerprint_text sha w" by (simp add: fingerprint_text_def)
  then show "f = g" using create_fingerprint_Inr [OF assms(1)] create_fingerprint_Inr [OF assms(2)] by simp
qed

definition sample_request_v :: material where
  "sample_request_v = MObj [(''b'', MNegZero), (''a'', MStr ''x'')]"

definition sample_request_w :: material where
  "sample_request_w = MObj [(''a'', MStr ''x''), (''b'', MNegZero)]"

lemma sample_sorted: "sort_material sample_request_v = sample_request_w" "sort_material sample_request_w = sample_request_w"
  by (simp_all add: sample_request_v_def sample_request_w_def order_fields_def text_order_def utf16_rank_def)

lemma sample_walk: "fingerprint_walk sample_request_w ''$'' (0, 0) = Inr (3, 1)"
  by (simp add: sample_request_w_def fp_item_def fp_bytes_def fingerprint_max_items_def fingerprint_max_bytes_def
      finite_number_def max_safe_integer_def)

lemma sample_length: "length (json_text (canonical_form sha sample_request_w)) \<le> fingerprint_max_bytes"
  by (simp add: sample_request_w_def json_quote_def json_escape_def code_of_def int_text_def nat_text.simps
      fingerprint_max_bytes_def)

lemma fingerprint_identifies_witness:
  "''sha256:'' @ fingerprint_text id sample_request_v = ''sha256:'' @ fingerprint_text id sample_request_w
     \<longleftrightarrow> sort_material sample_request_v = sort_material sample_request_w"
proof -
  have c: "create_durable_fingerprint id v = Inr (''sha256:'' @ id (fingerprint_text id v))"
    if "v \<in> {sample_request_v, sample_request_w}" for v
    using that by (auto simp: create_durable_fingerprint_def sample_sorted sample_walk sample_length)
  have h: "hashed_bytes (sort_material sample_request_v) @ hashed_bytes (sort_material sample_request_w) = []"
    by (simp add: sample_sorted) (simp add: sample_request_w_def)
  have v: "create_durable_fingerprint id sample_request_v = Inr (''sha256:'' @ fingerprint_text id sample_request_v)"
    and w: "create_durable_fingerprint id sample_request_w = Inr (''sha256:'' @ fingerprint_text id sample_request_w)"
    using c by auto
  show ?thesis by (rule fingerprint_identifies [OF v w]) (simp_all add: h no_collision_def)
qed

end
