(* ===== verification/KeyProps.thy ===== *)
theory KeyProps
  imports CodecProps ConvCodec Fingerprint
begin

text \<open>
  The durable keys as a whole: the identity of a record, of whatever family, and the key it is stored
  under. Two records share a key only when they are the same record.
\<close>

datatype record_identity =
    OfConversation string
  | OfChunk string nat string
  | OfDeliveryEntry string
  | OfAdmission string
  | OfIntent string
  | OfSession string string string
  | OfRun string
  | OfEvent string nat
  | OfHistory string string
  | OfDelivery string
  | OfCheckpoint string

primrec state_key :: "(string \<Rightarrow> string) \<Rightarrow> record_identity \<Rightarrow> string result" where
  "state_key sha (OfConversation conv) = conversation_state_key sha conv"
| "state_key sha (OfChunk conv index digest) = conversation_chunk_state_key sha conv index digest"
| "state_key sha (OfDeliveryEntry entry) = delivery_entry_state_key sha entry"
| "state_key sha (OfAdmission request) = admission_state_key sha request"
| "state_key sha (OfIntent run) = artifact_intent_state_key sha run"
| "state_key sha (OfSession conv runtime model) = session_state_key sha conv runtime model"
| "state_key sha (OfRun run) = run_state_key sha run"
| "state_key sha (OfEvent run index) = run_event_state_key sha run index"
| "state_key sha (OfHistory started run) = run_history_state_key sha started run"
| "state_key sha (OfDelivery key) = delivery_state_key sha key"
| "state_key sha (OfCheckpoint run) = retention_checkpoint_state_key sha run"

text \<open>What the key of a record hashes.\<close>

primrec key_material :: "(string \<Rightarrow> string) \<Rightarrow> record_identity \<Rightarrow> string list" where
  "key_material sha (OfConversation conv) = [conv]"
| "key_material sha (OfChunk conv index digest) = [conv]"
| "key_material sha (OfDeliveryEntry entry) = [entry]"
| "key_material sha (OfAdmission request) = [request]"
| "key_material sha (OfIntent run) = [run]"
| "key_material sha (OfSession conv runtime model) = [conv, runtime, model, sha runtime @ sha model]"
| "key_material sha (OfRun run) = [run]"
| "key_material sha (OfEvent run index) = [run]"
| "key_material sha (OfHistory started run) = [run]"
| "key_material sha (OfDelivery key) = [key]"
| "key_material sha (OfCheckpoint run) = [run]"

primrec family_of :: "record_identity \<Rightarrow> key_family" where
  "family_of (OfConversation conv) = FamConversation"
| "family_of (OfChunk conv index digest) = FamChunk"
| "family_of (OfDeliveryEntry entry) = FamDeliveryEntry"
| "family_of (OfAdmission request) = FamAdmission"
| "family_of (OfIntent run) = FamIntent"
| "family_of (OfSession conv runtime model) = FamSession"
| "family_of (OfRun run) = FamRun"
| "family_of (OfEvent run index) = FamEvent"
| "family_of (OfHistory started run) = FamHistory"
| "family_of (OfDelivery key) = FamDelivery"
| "family_of (OfCheckpoint run) = FamCheckpoint"

lemma state_key_family: "state_key sha a = Inr k \<Longrightarrow> in_family f k \<longleftrightarrow> f = family_of a"
  using in_family_append [of f FamRun] by (cases a) (auto simp: key_simps)

lemma sha_append:
  assumes "sha_hex sha"
  shows "sha a @ s = sha b @ t \<longleftrightarrow> sha a = sha b \<and> s = t"
proof -
  have "length (sha x) = 64" for x using assms by (simp add: sha_hex_def hex64_def)
  then show ?thesis by simp
qed

lemma fixed_text_same:
  assumes "a < 10 ^ w" "b < 10 ^ w"
  shows "fixed_text w a @ s = fixed_text w b @ t \<longleftrightarrow> a = b \<and> s = t"
proof -
  have "fixed_text w a = fixed_text w b \<longleftrightarrow> a = b"
    using fixed_text_less [OF assms] fixed_text_less [OF assms(2,1)] by (metis less_irrefl linorder_less_linear)
  then show ?thesis by (simp add: append_eq_append_conv)
qed

lemma reverse_ms_same:
  assumes "canonical_ts s" "canonical_ts t"
  shows "fixed_text 16 (nat (max_date_milliseconds - date_ms s)) = fixed_text 16 (nat (max_date_milliseconds - date_ms t)) \<longleftrightarrow> s = t"
proof -
  have "fixed_text 16 (nat (max_date_milliseconds - date_ms s)) = fixed_text 16 (nat (max_date_milliseconds - date_ms t))
      \<longleftrightarrow> nat (max_date_milliseconds - date_ms s) = nat (max_date_milliseconds - date_ms t)"
    using fixed_text_same [OF reverse_ms_bound(1) [OF assms(1)] reverse_ms_bound(1) [OF assms(2)], of "[]" "[]"] by simp
  also have "\<dots> \<longleftrightarrow> date_ms s = date_ms t"
    using reverse_ms_bound(2) [OF assms(1)] reverse_ms_bound(2) [OF assms(2)] by (simp add: eq_nat_nat_iff)
  also have "\<dots> \<longleftrightarrow> s = t"
    using canonical_less [OF assms] canonical_less [OF assms(2,1)] by (metis less_irrefl linorder_less_linear)
  finally show ?thesis .
qed

lemma no_collision_eq: "no_collision sha ts \<Longrightarrow> a \<in> set ts \<Longrightarrow> b \<in> set ts \<Longrightarrow> sha a = sha b \<longleftrightarrow> a = b"
  using no_collisionD by blast

text \<open>C28: Two records have the same key exactly when they are the same record: of the same family and with
  the same identities, as far as the digest does not collide on what the two keys hash.\<close>

theorem keys_identify_records:
  assumes "state_key sha a = Inr ka" "state_key sha b = Inr kb" "sha_hex sha"
    and apart: "no_collision sha (key_material sha a @ key_material sha b)"
  shows "ka = kb \<longleftrightarrow> a = b"
proof
  assume "ka = kb"
  then have "family_of a = family_of b" using state_key_family assms(1,2) by blast
  note sames = sha_append [OF assms(3)] fixed_text_same reverse_ms_same no_collision_eq [OF apart]
  show "a = b"
    using \<open>ka = kb\<close> \<open>family_of a = family_of b\<close> assms(1,2)
    by (cases a; cases b) (auto simp: key_simps sames fixed_text_same [where s = "[]" and t = "[]", simplified])
next
  assume "a = b"
  then show "ka = kb" using assms(1,2) by simp
qed

definition two_sha :: "string \<Rightarrow> string" where
  "two_sha s = replicate 64 (if s = ''r1'' then CHR ''a'' else CHR ''b'')"

lemma keys_identify_records_witness:
  "prefix_runs @ ''records/'' @ two_sha ''r1'' \<noteq> prefix_runs @ ''records/'' @ two_sha ''c1''"
proof -
  have "sha_hex two_sha"
    by (simp add: sha_hex_def hex64_def two_sha_def list_all_iff is_hex_def code_of_def)
  then show ?thesis
    using keys_identify_records [of two_sha "OfRun ''r1''" _ "OfRun ''c1''"]
    by (simp add: key_simps no_collision_def two_sha_def)
qed

end
