(* ===== verification/JournalProg.thy ===== *)
theory JournalProg
  imports StoreContract RecordContract ConvCodec
begin

text \<open>
  The asynchronous methods of the journal as programs: a program is a tree of the calls it awaits
  (\<^verbatim>\<open>ExecutionStore\<close> over the store's internal accessor, the clock, the generators, the
  artifact capability), with what it does next for every answer. Between two calls any other code may
  run. This theory has the methods of \<^verbatim>\<open>execution-store.ts\<close>, the steps of a program, and the
  rules to reason about a program whatever its calls meet and whatever happens between them: \<open>wp\<close>
  holds of a program when each of its commits satisfies a guarantee \<open>G\<close> and each of its answers
  satisfies \<open>Q\<close>, provided every change made by others satisfies the rely of the setting.
\<close>

section \<open>Programs\<close>

datatype generator = RunIdGenerator | DeliveryTokenGenerator | UuidGenerator

datatype artifact_request =
    PutArtifact string string "string option"
  | ReadArtifact artifact_ref nat
  | DeleteArtifact artifact_ref
  | ReleaseArtifact artifact_ref

datatype 'a prog =
    Return 'a
  | Throw js_error
  | Hang
  | ReadCall string "state_record option result \<Rightarrow> 'a prog"
  | ScanCall string "string option" nat "page result \<Rightarrow> 'a prog"
  | TransactCall tx_request "tx_result result \<Rightarrow> 'a prog"
  | ClockCall "int option \<Rightarrow> 'a prog"
  | GenerateCall generator "js \<Rightarrow> 'a prog"
  | ArtifactCall artifact_request "js result \<Rightarrow> 'a prog"

primrec pbind :: "'a prog \<Rightarrow> ('a \<Rightarrow> 'b prog) \<Rightarrow> 'b prog" where
  "pbind (Return x) k = k x"
| "pbind (Throw e) k = Throw e"
| "pbind Hang k = Hang"
| "pbind (ReadCall key f) k = ReadCall key (\<lambda>r. pbind (f r) k)"
| "pbind (ScanCall pre cursor n f) k = ScanCall pre cursor n (\<lambda>r. pbind (f r) k)"
| "pbind (TransactCall q f) k = TransactCall q (\<lambda>r. pbind (f r) k)"
| "pbind (ClockCall f) k = ClockCall (\<lambda>r. pbind (f r) k)"
| "pbind (GenerateCall g f) k = GenerateCall g (\<lambda>r. pbind (f r) k)"
| "pbind (ArtifactCall a f) k = ArtifactCall a (\<lambda>r. pbind (f r) k)"

text \<open>\<^verbatim>\<open>try { p } catch (e) { h(e) }\<close>.\<close>

primrec pcatch :: "'a prog \<Rightarrow> (js_error \<Rightarrow> 'a prog) \<Rightarrow> 'a prog" where
  "pcatch (Return x) h = Return x"
| "pcatch (Throw e) h = h e"
| "pcatch Hang h = Hang"
| "pcatch (ReadCall key f) h = ReadCall key (\<lambda>r. pcatch (f r) h)"
| "pcatch (ScanCall pre cursor n f) h = ScanCall pre cursor n (\<lambda>r. pcatch (f r) h)"
| "pcatch (TransactCall q f) h = TransactCall q (\<lambda>r. pcatch (f r) h)"
| "pcatch (ClockCall f) h = ClockCall (\<lambda>r. pcatch (f r) h)"
| "pcatch (GenerateCall g f) h = GenerateCall g (\<lambda>r. pcatch (f r) h)"
| "pcatch (ArtifactCall a f) h = ArtifactCall a (\<lambda>r. pcatch (f r) h)"

fun lift :: "'a result \<Rightarrow> 'a prog" where
  "lift (Inl e) = Throw e"
| "lift (Inr x) = Return x"

lemma pbind_Return [simp]: "pbind p Return = p"
  by (induction p) auto

lemma pbind_assoc: "pbind (pbind p f) g = pbind p (\<lambda>x. pbind (f x) g)"
  by (induction p) auto

section \<open>The methods of the execution store\<close>

definition execution_transaction_max_mutations :: nat where "execution_transaction_max_mutations = 1000"
definition execution_scan_max_limit :: nat where "execution_scan_max_limit = 1000"
definition execution_artifact_max_bytes :: nat where "execution_artifact_max_bytes = 67108864"

record 'a exec_record =
  er_key :: string
  er_value :: 'a
  er_version :: string
  er_updated :: string

definition exec_record_of :: "state_record \<Rightarrow> 'a \<Rightarrow> 'a exec_record" where
  "exec_record_of rc x = \<lparr>er_key = rc_key rc, er_value = x, er_version = rc_version rc, er_updated = rc_updated rc\<rparr>"

definition decode_state_record :: "(js \<Rightarrow> 'a result) \<Rightarrow> state_record \<Rightarrow> 'a exec_record result" where
  "decode_state_record parse rc = rbind (decode_record parse (rc_value rc)) (\<lambda>x. Inr (exec_record_of rc x))"

definition exec_read :: "(js \<Rightarrow> 'a result) \<Rightarrow> string \<Rightarrow> 'a exec_record option prog" where
  "exec_read parse key = ReadCall key (\<lambda>r.
     pbind (lift r) (\<lambda>found.
     case found of
       None \<Rightarrow> Return None
     | Some rc \<Rightarrow> pbind (lift (decode_state_record parse rc)) (\<lambda>x. Return (Some x))))"

definition exec_read_bytes :: "string \<Rightarrow> string exec_record option prog" where
  "exec_read_bytes key = ReadCall key (\<lambda>r.
     pbind (lift r) (\<lambda>found. Return (map_option (\<lambda>rc. exec_record_of rc (rc_value rc)) found)))"

definition exec_scan ::
  "string \<Rightarrow> string option \<Rightarrow> nat \<Rightarrow> (js \<Rightarrow> 'a result) \<Rightarrow> ('a exec_record list \<times> string option) prog" where
  "exec_scan pre cursor limit parse =
     (if limit < 1 \<or> execution_scan_max_limit < limit then Throw (RangeError ''execution scan limit'')
      else ScanCall pre cursor limit (\<lambda>r.
        pbind (lift r) (\<lambda>pg.
        pbind (lift (rmap (decode_state_record parse) (pg_records pg))) (\<lambda>records.
        Return (records, pg_cursor pg)))))"

record exec_request =
  xq_checks :: "(string \<times> string option) list"
  xq_puts :: "(string \<times> string option \<times> js) list"
  xq_byte_puts :: "(string \<times> string option \<times> string) list"
  xq_deletes :: "(string \<times> string option) list"

definition no_request :: exec_request where
  "no_request = \<lparr>xq_checks = [], xq_puts = [], xq_byte_puts = [], xq_deletes = []\<rparr>"

fun expected_js :: "string option \<Rightarrow> js" where
  "expected_js None = JNull"
| "expected_js (Some v) = JStr v"

definition entry_of :: "string \<times> string option \<Rightarrow> tx_entry" where
  "entry_of = (\<lambda>(k, ev). \<lparr>te_key = JStr k, te_expected = expected_js ev\<rparr>)"

definition put_of :: "string \<times> string option \<times> string \<Rightarrow> tx_put" where
  "put_of = (\<lambda>(k, ev, b). \<lparr>te_key = JStr k, te_expected = expected_js ev, tp_value = JBytes b\<rparr>)"

definition encode_put :: "string \<times> string option \<times> js \<Rightarrow> (string \<times> string option \<times> string) result" where
  "encode_put = (\<lambda>(k, ev, v). rbind (encode_execution_record v) (\<lambda>b. Inr (k, ev, b)))"

definition byte_put :: "string \<times> string option \<times> string \<Rightarrow> (string \<times> string option \<times> string) result" where
  "byte_put = (\<lambda>(k, ev, b). rbind (execution_bytes (JBytes b)) (\<lambda>c. Inr (k, ev, c)))"

definition exec_transaction :: "exec_request \<Rightarrow> tx_result prog" where
  "exec_transaction q =
     (if execution_transaction_max_mutations
          < length (xq_checks q) + length (xq_puts q) + length (xq_byte_puts q) + length (xq_deletes q)
      then Throw (RangeError ''execution transaction'')
      else
        pbind (lift (rmap encode_put (xq_puts q))) (\<lambda>puts.
        pbind (lift (rmap byte_put (xq_byte_puts q))) (\<lambda>byte_puts.
        TransactCall \<lparr>tq_checks = map entry_of (xq_checks q), tq_puts = map put_of (puts @ byte_puts),
                      tq_deletes = map entry_of (xq_deletes q)\<rparr> lift)))"

definition put_request :: "string \<Rightarrow> string option \<Rightarrow> js \<Rightarrow> exec_request" where
  "put_request key expected value =
     \<lparr>xq_checks = [], xq_puts = [(key, expected, value)], xq_byte_puts = [], xq_deletes = []\<rparr>"

section \<open>Artifacts\<close>

text \<open>What a journal is built with: the lower-case hexadecimal SHA-256 digest, the lease length
  \<^verbatim>\<open>staleAfterMs\<close>, and whether the store has the artifact capability and the journal a
  \<^verbatim>\<open>releaseArtifact\<close>.\<close>

record config =
  cf_sha :: "string \<Rightarrow> string"
  cf_stale :: nat
  cf_capable :: bool
  cf_release :: bool

definition describe_artifact ::
  "(string \<Rightarrow> string) \<Rightarrow> string \<Rightarrow> js \<Rightarrow> js \<Rightarrow> (string \<times> nat \<times> string \<times> string option) result" where
  "describe_artifact sha data media file =
     (if execution_artifact_max_bytes < length data then Inl (RangeError ''execution artifact'')
      else
        rbind (parse_artifact_ref (JObj (req ''id'' (JStr (''artifact:sha256:'' @ sha data))
                 @ req ''sha256'' (JStr (''sha256:'' @ sha data)) @ req ''sizeBytes'' (JNum (int (length data)))
                 @ req ''mediaType'' media @ (if file = JUndef then [] else req ''fileName'' file)))) (\<lambda>ref.
        Inr (ar_sha256 ref, ar_size ref, ar_media ref, ar_file ref)))"

definition no_capability :: js_error where
  "no_capability = PlainError ''selected state module does not provide the artifact capability''"

definition exec_put_artifact :: "config \<Rightarrow> string \<Rightarrow> string \<Rightarrow> string option \<Rightarrow> artifact_ref prog" where
  "exec_put_artifact cf data media file =
     (if \<not> cf_capable cf then Throw no_capability
      else
        pbind (lift (describe_artifact (cf_sha cf) data (JStr media) (case file of None \<Rightarrow> JUndef | Some f \<Rightarrow> JStr f)))
          (\<lambda>(sha256, size, media', file').
        ArtifactCall (PutArtifact data media' file') (\<lambda>a.
        pbind (lift (rbind a parse_artifact_ref)) (\<lambda>ref.
        if ar_sha256 ref \<noteq> sha256 \<or> ar_size ref \<noteq> size \<or> ar_media ref \<noteq> media' \<or> ar_file ref \<noteq> file'
        then Throw (PlainError ''state artifact publication returned mismatched content authority'')
        else Return ref))))"

definition exec_read_artifact :: "config \<Rightarrow> artifact_ref \<Rightarrow> string prog" where
  "exec_read_artifact cf ref =
     (if \<not> cf_capable cf then Throw no_capability
      else
        pbind (lift (parse_artifact_ref (encode_artifact_ref ref))) (\<lambda>expected.
        if execution_artifact_max_bytes < ar_size expected then Throw (RangeError ''execution artifact'')
        else ArtifactCall (ReadArtifact expected execution_artifact_max_bytes) (\<lambda>a.
          pbind (lift a) (\<lambda>v.
          case v of
            JBytes b \<Rightarrow>
              if length b \<noteq> ar_size expected \<or> ''sha256:'' @ cf_sha cf b \<noteq> ar_sha256 expected
              then Throw (PlainError ''state artifact read returned mismatched content authority'')
              else Return b
          | _ \<Rightarrow> Throw (TypeError ''state artifact read'')))))"

definition exec_delete_artifact :: "config \<Rightarrow> artifact_ref \<Rightarrow> bool prog" where
  "exec_delete_artifact cf ref =
     (if \<not> cf_capable cf then Return False
      else
        pbind (lift (parse_artifact_ref (encode_artifact_ref ref))) (\<lambda>parsed.
        ArtifactCall (DeleteArtifact parsed) (\<lambda>a.
        pbind (lift a) (\<lambda>v.
        case v of JBool b \<Rightarrow> Return b | _ \<Rightarrow> Throw (TypeError ''state artifact deletion'')))))"

section \<open>Clock and generators\<close>

definition min_stale_after_ms :: nat where "min_stale_after_ms = 1000"
definition max_stale_after_ms :: nat where "max_stale_after_ms = 86400000"

definition bounded_duration :: "js \<Rightarrow> string \<Rightarrow> nat result" where
  "bounded_duration v path = bounded_integer path min_stale_after_ms max_stale_after_ms v"

text \<open>The clock's instant. The text \<^verbatim>\<open>canonicalNow\<close> returns is \<open>to_iso\<close> of it, and
  \<^verbatim>\<open>Date.parse\<close> of that text is the instant again.\<close>

definition canonical_instant :: "int prog" where
  "canonical_instant = ClockCall (\<lambda>a.
     case a of None \<Rightarrow> Throw (TypeError ''journal clock'') | Some t \<Rightarrow> Return t)"

definition journal_now :: "string prog" where
  "journal_now = pbind canonical_instant (\<lambda>t. Return (to_iso t))"

definition timestamp_ms :: "string \<Rightarrow> string \<Rightarrow> int result" where
  "timestamp_ms path v = rbind (canonical_timestamp path (JStr v)) (\<lambda>t. Inr (date_ms t))"

definition add_milliseconds :: "string \<Rightarrow> nat \<Rightarrow> string result" where
  "add_milliseconds t ms =
     rbind (timestamp_ms ''timestamp'' t) (\<lambda>x.
     if max_date_milliseconds < \<bar>x + int ms\<bar> then Inl (RangeError ''Invalid time value'')
     else Inr (to_iso (x + int ms)))"

definition is_expired :: "string option \<Rightarrow> bool prog" where
  "is_expired v =
     (case v of
        None \<Rightarrow> Return True
      | Some t \<Rightarrow>
          pbind (lift (timestamp_ms ''leaseExpiresAt'' t)) (\<lambda>expires.
          pbind canonical_instant (\<lambda>now. Return (expires \<le> now))))"

section \<open>Steps\<close>

text \<open>A setting: the store's limits, what others may do to the snapshot between two calls, and the
  instants the clock may show.\<close>

record setting =
  se_limits :: limits
  se_rely :: "snapshot \<Rightarrow> snapshot \<Rightarrow> bool"
  se_clock :: "int \<Rightarrow> bool"

definition cursor_js :: "string option \<Rightarrow> js" where
  "cursor_js c = (case c of None \<Rightarrow> JUndef | Some t \<Rightarrow> JStr t)"

inductive prog_step :: "setting \<Rightarrow> store \<Rightarrow> 'a prog \<Rightarrow> store \<Rightarrow> 'a prog \<Rightarrow> bool" for E where
  step_read_call: "state_read_internal c (JStr key) st = (r, st') \<Longrightarrow> prog_step E st (ReadCall key f) st' (f r)"
| step_scan_call: "state_scan_internal c (JStr pre) (cursor_js cursor) (JNum (int n)) st = (r', st') \<Longrightarrow>
    prog_step E st (ScanCall pre cursor n f') st' (f' r')"
| step_transact_call: "state_transaction_internal (se_limits E) c q st = (r'', st') \<Longrightarrow>
    prog_step E st (TransactCall q f'') st' (f'' r'')"
| step_clock_call: "(\<And>t. a = Some t \<Longrightarrow> se_clock E t) \<Longrightarrow> prog_step E st (ClockCall g) st (g a)"
| step_generate_call: "prog_step E st (GenerateCall gen h) st (h v)"
| step_artifact_call: "prog_step E st (ArtifactCall q' h') st (h' answer)"

inductive_cases prog_stepE:
  "prog_step E st (ReadCall key f) st' p"
  "prog_step E st (ScanCall pre cursor n f') st' p"
  "prog_step E st (TransactCall q f'') st' p"
  "prog_step E st (ClockCall g) st' p"
  "prog_step E st (GenerateCall gen h) st' p"
  "prog_step E st (ArtifactCall q' h') st' p"
  "prog_step E st (Return x) st' p"
  "prog_step E st (Throw e) st' p"
  "prog_step E st Hang st' p"

lemma prog_step_store: "prog_step E st p st' p' \<Longrightarrow> store_step (se_limits E) st st' \<or> st' = st"
  by (induction rule: prog_step.induct)
    (auto intro: step_read_internal step_scan_internal step_transaction_internal)

lemma prog_step_kept: "prog_step E st p st' p' \<Longrightarrow> kept (se_limits E) (st_snap st) (st_snap st')"
  using prog_step_store store_step_kept by (fastforce simp: kept_def)

end
