(* ===== verification/JournalLogic.thy ===== *)
theory JournalLogic
  imports JournalProg
begin

text \<open>
  Reasoning about journal programs. \<open>wp E G Q p s\<close>: started when the snapshot is \<open>s\<close>, in the
  setting \<open>E\<close>, every commit of \<open>p\<close> satisfies \<open>G\<close>, every value it returns satisfies \<open>Q\<close> at that
  moment, and it never hangs. Each rule handles one awaited call: it says what the program may
  assume about the snapshot the call runs on.
\<close>

section \<open>The predicate\<close>

definition interf :: "setting \<Rightarrow> snapshot \<Rightarrow> snapshot \<Rightarrow> bool" where
  "interf E s s' \<longleftrightarrow> snapshot_wf (se_limits E) s' \<and> evolves s s' \<and> se_rely E s s'"

lemma interfD: "interf E s s' \<Longrightarrow> snapshot_wf (se_limits E) s' \<and> evolves s s'"
  by (simp add: interf_def)

primrec wp ::
  "setting \<Rightarrow> (snapshot \<Rightarrow> 'a prog \<Rightarrow> snapshot \<Rightarrow> bool) \<Rightarrow> ('a \<Rightarrow> snapshot \<Rightarrow> bool) \<Rightarrow> 'a prog \<Rightarrow> snapshot \<Rightarrow> bool" where
  "wp E G Q (Return x) = Q x"
| "wp E G Q (Throw e) = (\<lambda>s. True)"
| "wp E G Q Hang = (\<lambda>s. False)"
| "wp E G Q (ReadCall key f) = (\<lambda>s. \<forall>st c r st'. interf E s (st_snap st) \<longrightarrow>
     state_read_internal c (JStr key) st = (r, st') \<longrightarrow> wp E G Q (f r) (st_snap st'))"
| "wp E G Q (ScanCall pre cursor n f) = (\<lambda>s. \<forall>st c r st'. interf E s (st_snap st) \<longrightarrow>
     state_scan_internal c (JStr pre) (cursor_js cursor) (JNum (int n)) st = (r, st') \<longrightarrow> wp E G Q (f r) (st_snap st'))"
| "wp E G Q (TransactCall q f) = (\<lambda>s. \<forall>st c r st'. interf E s (st_snap st) \<longrightarrow>
     state_transaction_internal (se_limits E) c q st = (r, st') \<longrightarrow>
     G (st_snap st) (f r) (st_snap st') \<and> wp E G Q (f r) (st_snap st'))"
| "wp E G Q (ClockCall f) = (\<lambda>s. \<forall>a s'. (\<forall>t. a = Some t \<longrightarrow> se_clock E t) \<longrightarrow> interf E s s' \<longrightarrow> wp E G Q (f a) s')"
| "wp E G Q (GenerateCall g f) = (\<lambda>s. \<forall>v s'. interf E s s' \<longrightarrow> wp E G Q (f v) s')"
| "wp E G Q (ArtifactCall a f) = (\<lambda>s. \<forall>r s'. interf E s s' \<longrightarrow> wp E G Q (f r) s')"

lemma wp_mono:
  assumes "wp E G Q p s" "\<And>s p s'. G s p s' \<Longrightarrow> G' s p s'" "\<And>x s. Q x s \<Longrightarrow> Q' x s"
  shows "wp E G' Q' p s"
  using assms(1) by (induction p arbitrary: s) (simp_all, (blast intro: assms(2,3) rangeI)+)

text \<open>A weaker interference and a narrower clock only help.\<close>

lemma wp_setting:
  assumes "wp E G Q p s" "se_limits E' = se_limits E" "\<And>s s'. se_rely E' s s' \<Longrightarrow> se_rely E s s'"
    "\<And>t. se_clock E' t \<Longrightarrow> se_clock E t"
  shows "wp E' G Q p s"
proof -
  have i: "interf E' s s' \<Longrightarrow> interf E s s'" for s s' using assms(2,3) by (auto simp: interf_def)
  show ?thesis using assms(1)
    by (induction p arbitrary: s) (simp_all add: assms(2), (blast intro: i assms(4) rangeI)+)
qed

lemma wp_bind:
  "wp E (\<lambda>s p s'. G s (pbind p k) s') (\<lambda>x. wp E G Q (k x)) p s \<Longrightarrow> wp E G Q (pbind p k) s"
  by (induction p arbitrary: s) auto

text \<open>Time may pass before the next call: a program that is fine now is fine after interference,
  when the rely is transitive and the answers are stable.\<close>

definition stable :: "setting \<Rightarrow> ('a \<Rightarrow> snapshot \<Rightarrow> bool) \<Rightarrow> bool" where
  "stable E Q \<longleftrightarrow> (\<forall>x s s'. Q x s \<longrightarrow> interf E s s' \<longrightarrow> Q x s')"

lemma stableI: "(\<And>x s s'. Q x s \<Longrightarrow> interf E s s' \<Longrightarrow> Q x s') \<Longrightarrow> stable E Q"
  by (auto simp: stable_def)

lemma interf_trans: "transp (se_rely E) \<Longrightarrow> interf E a b \<Longrightarrow> interf E b c \<Longrightarrow> interf E a c"
  unfolding interf_def by (blast intro: evolves_trans dest: transpD)

lemma wp_stable:
  assumes "wp E G Q p s" "interf E s s'" "transp (se_rely E)" "stable E Q"
  shows "wp E G Q p s'"
proof -
  have t: "interf E s' s'' \<Longrightarrow> interf E s s''" for s'' using assms(2,3) by (blast intro: interf_trans)
  show ?thesis using assms(1,2,4) by (cases p) (auto simp: stable_def dest: t)
qed

text \<open>A step of the program keeps the predicate, and its commit satisfies the guarantee.\<close>

lemma wp_step:
  assumes "prog_step E st p st' p'" "wp E G Q p (st_snap st)" "interf E (st_snap st) (st_snap st)"
  shows "wp E G Q p' (st_snap st') \<and> (st_snap st' = st_snap st \<or> G (st_snap st) p' (st_snap st'))"
  using assms(1)
proof (cases rule: prog_step.cases)
  case (step_read_call c key r f)
  have "st_snap st' = st_snap st"
    using step_read_call(3) unfolding state_read_internal_def by (auto dest: guarded_query_snap)
  then show ?thesis using step_read_call assms(2,3) by (simp del: split_paired_All) metis
next
  case (step_scan_call c pre cursor n r f)
  have "st_snap st' = st_snap st"
    using step_scan_call(3) unfolding state_scan_internal_def by (rule scan_with_mode_snap)
  then show ?thesis using step_scan_call assms(2,3) by (simp del: split_paired_All) metis
qed (use assms(2,3) in auto)

section \<open>Rules for the calls\<close>

lemma internal_read_result:
  assumes "state_read_internal c (JStr key) st = (r, st')"
  shows "st_snap st' = st_snap st" "r = Inr x \<Longrightarrow> x = find_record (st_snap st) key"
proof -
  show "st_snap st' = st_snap st"
    using assms unfolding state_read_internal_def by (auto dest: guarded_query_snap)
  assume r: "r = Inr x"
  have "rbind (validate_execution_state_key (JStr key)) (\<lambda>k. Inr (find_record (st_snap st) k)) = Inr x"
    using assms r unfolding state_read_internal_def by (auto elim: guarded_cases)
  then show "x = find_record (st_snap st) key"
    by (auto simp: rbind_Inr_iff validate_execution_state_key_def validate_state_key_syntax_def split: if_splits)
qed

definition seen :: "string \<Rightarrow> stored \<Rightarrow> 'a \<Rightarrow> 'a exec_record" where
  "seen key r x = \<lparr>er_key = key, er_value = x, er_version = sv_version r, er_updated = sv_updated r\<rparr>"

lemma seen_simps [simp]:
  "er_key (seen key r x) = key" "er_value (seen key r x) = x" "er_version (seen key r x) = sv_version r"
  by (simp_all add: seen_def)

lemma pbind_lift: "pbind (lift r) k = (case r of Inl e \<Rightarrow> Throw e | Inr x \<Rightarrow> k x)"
  by (cases r) auto

lemma wp_lift:
  "(\<And>x. r = Inr x \<Longrightarrow> wp E G Q (k x) s) \<Longrightarrow> wp E G Q (pbind (lift r) k) s"
  by (cases r) auto

lemma wp_read:
  assumes "\<And>s1. interf E s s1 \<Longrightarrow> lookup s1 key = None \<Longrightarrow> wp E G Q (k None) s1"
    and "\<And>s1 r x. interf E s s1 \<Longrightarrow> lookup s1 key = Some r \<Longrightarrow> decode_record parse (sv_value r) = Inr x \<Longrightarrow>
      wp E G Q (k (Some (seen key r x))) s1"
  shows "wp E G Q (pbind (exec_read parse key) k) s"
  unfolding exec_read_def pbind.simps wp.simps
proof (intro allI impI)
  fix st c r st' assume i: "interf E s (st_snap st)" and run: "state_read_internal c (JStr key) st = (r, st')"
  note snap = internal_read_result(1) [OF run]
  show "wp E G Q (pbind (pbind (lift r) (\<lambda>found. case found of None \<Rightarrow> Return None
      | Some rc \<Rightarrow> pbind (lift (decode_state_record parse rc)) (\<lambda>x. Return (Some x)))) k) (st_snap st')"
  proof (cases r)
    case (Inr found)
    with internal_read_result(2) [OF run] have f: "found = find_record (st_snap st) key" by simp
    show ?thesis
    proof (cases "lookup (st_snap st) key")
      case None
      then show ?thesis using assms(1) [OF i] by (simp add: Inr f find_record_def snap)
    next
      case (Some rec)
      then show ?thesis using assms(2) [OF i Some]
        by (cases "decode_record parse (sv_value rec)")
          (simp_all add: Inr f find_record_def snap decode_state_record_def to_state_record_def exec_record_of_def seen_def)
    qed
  qed simp
qed

lemma wp_read_bytes:
  assumes "\<And>s1. interf E s s1 \<Longrightarrow> lookup s1 key = None \<Longrightarrow> wp E G Q (k None) s1"
    and "\<And>s1 r. interf E s s1 \<Longrightarrow> lookup s1 key = Some r \<Longrightarrow> wp E G Q (k (Some (seen key r (sv_value r)))) s1"
  shows "wp E G Q (pbind (exec_read_bytes key) k) s"
  unfolding exec_read_bytes_def pbind.simps wp.simps
proof (intro allI impI)
  fix st c r st' assume i: "interf E s (st_snap st)" and run: "state_read_internal c (JStr key) st = (r, st')"
  show "wp E G Q (pbind (pbind (lift r) (\<lambda>found. Return (map_option (\<lambda>rc. exec_record_of rc (rc_value rc)) found))) k) (st_snap st')"
  proof (cases r)
    case (Inr found)
    with internal_read_result [OF run] show ?thesis
      using assms [OF i] by (cases "lookup (st_snap st) key")
        (simp_all add: find_record_def to_state_record_def exec_record_of_def seen_def)
  qed simp
qed

lemma wp_instant:
  assumes "\<And>t s'. se_clock E t \<Longrightarrow> interf E s s' \<Longrightarrow> wp E G Q (k t) s'"
  shows "wp E G Q (pbind canonical_instant k) s"
  using assms by (auto simp: canonical_instant_def split: option.splits)

lemma wp_now:
  assumes "\<And>t s'. se_clock E t \<Longrightarrow> interf E s s' \<Longrightarrow> wp E G Q (k (to_iso t)) s'"
  shows "wp E G Q (pbind journal_now k) s"
  unfolding journal_now_def pbind_assoc pbind.simps by (rule wp_instant) (rule assms)

lemma wp_expired:
  assumes "v = None \<Longrightarrow> wp E G Q (k True) s"
    and "\<And>t now s'. v = Some t \<Longrightarrow> interf E s s' \<Longrightarrow> se_clock E now \<Longrightarrow> wp E G Q (k (date_ms t \<le> now)) s'"
  shows "wp E G Q (pbind (is_expired v) k) s"
proof (cases v)
  case None
  then show ?thesis using assms(1) by (simp add: is_expired_def)
next
  case (Some t)
  show ?thesis unfolding is_expired_def Some option.case pbind_assoc pbind.simps
  proof (rule wp_lift)
    fix x assume "timestamp_ms ''leaseExpiresAt'' t = Inr x"
    then have x: "x = date_ms t" by (auto simp: timestamp_ms_def rbind_Inr_iff canonical_timestamp_def split: if_splits)
    show "wp E G Q (pbind canonical_instant (\<lambda>now. k (x \<le> now))) s"
      by (rule wp_instant) (use assms(2) Some x in auto)
  qed
qed

lemma wp_generate:
  "(\<And>v s'. interf E s s' \<Longrightarrow> wp E G Q (k v) s') \<Longrightarrow> wp E G Q (pbind (GenerateCall g Return) k) s"
  by simp

section \<open>Transactions\<close>

text \<open>\<open>commits checks puts deletes s s'\<close>: on \<open>s\<close> every expected version was current, and \<open>s'\<close> is \<open>s\<close>
  with the puts and deletes done.\<close>

definition commits ::
  "(string \<times> string option) list \<Rightarrow> (string \<times> string option \<times> string) list \<Rightarrow> (string \<times> string option) list \<Rightarrow>
   snapshot \<Rightarrow> snapshot \<Rightarrow> bool" where
  "commits checks puts deletes s s' \<longleftrightarrow>
     distinct (map fst checks @ map fst puts @ map fst deletes)
     \<and> (\<forall>(k, ev) \<in> set checks. version_at s k = ev)
     \<and> (\<forall>(k, ev, b) \<in> set puts. version_at s k = ev \<and> map_option sv_value (lookup s' k) = Some b)
     \<and> (\<forall>(k, ev) \<in> set deletes. version_at s k = ev \<and> lookup s' k = None)
     \<and> (\<forall>k. k \<notin> fst ` set puts \<longrightarrow> k \<notin> fst ` set deletes \<longrightarrow> lookup s' k = lookup s k)"

lemma validate_key_id: "validate_execution_state_key (JStr k) = Inr k' \<Longrightarrow> k' = k"
  by (auto simp: validate_execution_state_key_def validate_state_key_syntax_def rbind_Inr_iff split: if_splits)

lemma normalize_key_id:
  "normalize_key validate_execution_state_key (JStr k) (expected_js ev) = Inr (k', ev') \<Longrightarrow> k' = k \<and> ev' = ev"
  unfolding normalize_key_def
  by (cases ev) (auto simp: rbind_Inr_iff validate_expected_version_def dest: validate_key_id split: if_splits option.splits)

lemma normalize_entries_id:
  "rmap (normalize_entry validate_execution_state_key) (map entry_of es) = Inr os \<Longrightarrow> map (\<lambda>e. (op_key e, op_expected e)) os = es"
  by (induction es arbitrary: os)
    (auto simp: rbind_Inr_iff normalize_entry_def entry_of_def dest!: normalize_key_id split: prod.splits)

lemma normalize_puts_id:
  "normalize_puts validate_execution_state_key m t n (map put_of ps) = Inr os \<Longrightarrow>
   map (\<lambda>e. (op_key e, op_expected e, op_value e)) os = ps"
  by (induction ps arbitrary: n os)
    (auto simp: rbind_Inr_iff put_of_def clone_transaction_bytes_def Let_def dest!: normalize_key_id split: prod.splits if_splits)

lemma applied_commits:
  assumes run: "state_transaction_internal l c \<lparr>tq_checks = map entry_of checks, tq_puts = map put_of puts,
      tq_deletes = map entry_of deletes\<rparr> st = (Inr (TxApplied rs ks), st')"
    and wf: "snapshot_wf l (st_snap st)"
  shows "commits checks puts deletes (st_snap st) (st_snap st')
    \<and> ks = filter (\<lambda>k. lookup (st_snap st) k \<noteq> None) (map fst deletes)"
proof -
  let ?q = "\<lparr>tq_checks = map entry_of checks, tq_puts = map put_of puts, tq_deletes = map entry_of deletes\<rparr>"
  let ?s = "st_snap st" and ?s' = "st_snap st'"
  have "tx_answer_ok l validate_execution_state_key ?q ?s (Inr (TxApplied rs ks)) ?s'"
    using transaction_answer [OF run [unfolded state_transaction_internal_def] wf] .
  then obtain n u where n: "normalize_transaction l validate_execution_state_key ?q = Inr n"
    and met: "expectations_met ?s n" and eff: "tx_effect u (sn_generation ?s) n (lookup ?s) (lookup ?s')"
    and ks: "ks = deleted_keys ?s n"
    unfolding tx_answer_ok_def by auto
  have ids: "map (\<lambda>e. (op_key e, op_expected e)) (tn_checks n) = checks"
    "map (\<lambda>e. (op_key e, op_expected e, op_value e)) (tn_puts n) = puts"
    "map (\<lambda>e. (op_key e, op_expected e)) (tn_deletes n) = deletes"
    using n unfolding normalize_transaction_def Let_def
    by (auto simp: rbind_Inr_iff dest!: normalize_entries_id normalize_puts_id)
  have keys: "map op_key (tn_checks n) = map fst checks" "map op_key (tn_puts n) = map fst puts"
    "map op_key (tn_deletes n) = map fst deletes"
    unfolding ids [symmetric] by (simp_all add: comp_def)
  have dis: "distinct (map fst checks @ map fst puts @ map fst deletes)"
    using normalize_transaction_keys [OF n] unfolding tx_keys_ok_def keys by simp
  have sets: "op_key ` set (tn_puts n) = fst ` set puts" "op_key ` set (tn_deletes n) = fst ` set deletes"
    using keys by (metis list.set_map)+
  have "version_at ?s k = ev" if "(k, ev) \<in> set checks \<or> (\<exists>b. (k, ev, b) \<in> set puts) \<or> (k, ev) \<in> set deletes" for k ev
    using that met unfolding expectations_met_def tx_expectations_def ids [symmetric] by force
  moreover have "map_option sv_value (lookup ?s' k) = Some b" if kb: "(k, ev, b) \<in> set puts" for k ev b
  proof -
    have "(k, ev, b) \<in> (\<lambda>e. (op_key e, op_expected e, op_value e)) ` set (tn_puts n)"
      using kb unfolding ids(2) [symmetric] by simp
    then obtain i where "i < length (tn_puts n)" "k = op_key (tn_puts n ! i)" "b = op_value (tn_puts n ! i)"
      by (auto simp: in_set_conv_nth)
    then show ?thesis using eff by (simp add: tx_effect_def put_record_def)
  qed
  moreover have "lookup ?s' k = None" if "(k, ev) \<in> set deletes" for k ev
    using that eff sets unfolding tx_effect_def by (metis fst_conv imageI)
  moreover have "lookup ?s' k = lookup ?s k" if "k \<notin> fst ` set puts" "k \<notin> fst ` set deletes" for k
    using that eff unfolding tx_effect_def sets by blast
  ultimately have "commits checks puts deletes ?s ?s'" using dis unfolding commits_def by blast
  then show ?thesis using ks keys(3) by (simp add: deleted_keys_def)
qed

text \<open>The rule of \<^verbatim>\<open>ExecutionStore.transaction\<close>: an error or a conflict leaves the snapshot as the
  call found it; otherwise the request is committed on it.\<close>

lemma wp_transaction:
  assumes err: "\<And>e s1. interf E s s1 \<Longrightarrow> G s1 (Throw e) s1"
    and conflict: "\<And>cs s1. interf E s s1 \<Longrightarrow> G s1 (k (TxConflict cs)) s1 \<and> wp E G Q (k (TxConflict cs)) s1"
    and applied: "\<And>ps bs rs ks s1 s2. interf E s s1 \<Longrightarrow> rmap encode_put puts = Inr ps \<Longrightarrow> rmap byte_put byte_puts = Inr bs \<Longrightarrow>
      commits checks (ps @ bs) deletes s1 s2 \<Longrightarrow> ks = filter (\<lambda>k. lookup s1 k \<noteq> None) (map fst deletes) \<Longrightarrow>
      snapshot_wf (se_limits E) s2 \<Longrightarrow> evolves s1 s2 \<Longrightarrow>
      G s1 (k (TxApplied rs ks)) s2 \<and> wp E G Q (k (TxApplied rs ks)) s2"
  shows "wp E G Q (pbind (exec_transaction \<lparr>xq_checks = checks, xq_puts = puts, xq_byte_puts = byte_puts, xq_deletes = deletes\<rparr>) k) s"
proof -
  have "wp E G Q (pbind (pbind (lift (rmap encode_put puts)) (\<lambda>ps. pbind (lift (rmap byte_put byte_puts)) (\<lambda>bs.
      TransactCall \<lparr>tq_checks = map entry_of checks, tq_puts = map put_of (ps @ bs), tq_deletes = map entry_of deletes\<rparr> lift))) k) s"
    unfolding pbind_assoc
  proof (intro wp_lift)
    fix ps bs assume ps: "rmap encode_put puts = Inr ps" and bs: "rmap byte_put byte_puts = Inr bs"
    show "wp E G Q (pbind (TransactCall \<lparr>tq_checks = map entry_of checks, tq_puts = map put_of (ps @ bs),
        tq_deletes = map entry_of deletes\<rparr> lift) k) s"
      unfolding pbind.simps wp.simps
    proof (intro allI impI)
      fix st c r st'
      assume i: "interf E s (st_snap st)"
        and run: "state_transaction_internal (se_limits E) c \<lparr>tq_checks = map entry_of checks,
          tq_puts = map put_of (ps @ bs), tq_deletes = map entry_of deletes\<rparr> st = (r, st')"
      have wf: "snapshot_wf (se_limits E) (st_snap st)" using i by (simp add: interf_def)
      note ans = transaction_answer [OF run [unfolded state_transaction_internal_def] wf, unfolded tx_answer_ok_def]
      show "G (st_snap st) (pbind (lift r) k) (st_snap st') \<and> wp E G Q (pbind (lift r) k) (st_snap st')"
      proof (cases r)
        case (Inl e)
        then show ?thesis using ans err [OF i] by simp
      next
        case (Inr a)
        show ?thesis
        proof (cases a)
          case (TxConflict cs)
          then show ?thesis using ans conflict [OF i] by (simp add: Inr)
        next
          case (TxApplied rs ks)
          have "kept (se_limits E) (st_snap st) (st_snap st')"
            using run step_transaction_internal store_step_kept by blast
          then have "snapshot_wf (se_limits E) (st_snap st')" "evolves (st_snap st) (st_snap st')"
            using wf by (auto simp: kept_def)
          then show ?thesis
            using applied [OF i ps bs] applied_commits [OF run [unfolded Inr TxApplied] wf] by (simp add: Inr TxApplied)
        qed
      qed
    qed
  qed
  then show ?thesis by (simp add: exec_transaction_def)
qed

text \<open>What was read is still there when its version still is.\<close>

lemma pinned:
  assumes "lookup s k = Some r" "snapshot_wf l s" "evolves s s1" "version_at s1 k = Some (sv_version r)"
  shows "lookup s1 k = Some r"
proof -
  obtain r' where r': "lookup s1 k = Some r'" "sv_version r' = sv_version r"
    using assms(4) by (auto simp: version_at_def)
  have "versions_ok s" using assms(2) by (simp add: snapshot_wf_def)
  from version_never_reused [OF assms(3) this r'(1) assms(1) r'(2)] r'(1) show ?thesis by simp
qed

lemma absent: "version_at s k = None \<longleftrightarrow> lookup s k = None"
  by (simp add: version_at_def)

lemma wp_put:
  assumes err: "\<And>e s1. interf E s s1 \<Longrightarrow> G s1 (Throw e) s1"
    and conflict: "\<And>cs s1. interf E s s1 \<Longrightarrow> G s1 (k (TxConflict cs)) s1 \<and> wp E G Q (k (TxConflict cs)) s1"
    and applied: "\<And>b rs ks s1 s2. interf E s s1 \<Longrightarrow> encode_execution_record v = Inr b \<Longrightarrow> version_at s1 key = ev \<Longrightarrow>
      map_option sv_value (lookup s2 key) = Some b \<Longrightarrow> (\<And>j. j \<noteq> key \<Longrightarrow> lookup s2 j = lookup s1 j) \<Longrightarrow>
      snapshot_wf (se_limits E) s2 \<Longrightarrow> evolves s1 s2 \<Longrightarrow>
      G s1 (k (TxApplied rs ks)) s2 \<and> wp E G Q (k (TxApplied rs ks)) s2"
  shows "wp E G Q (pbind (exec_transaction (put_request key ev v)) k) s"
  unfolding put_request_def
proof (rule wp_transaction)
  fix ps bs rs ks s1 s2
  assume i: "interf E s s1" and ps: "rmap encode_put [(key, ev, v)] = Inr ps" and bs: "rmap byte_put [] = Inr bs"
    and c: "commits [] (ps @ bs) [] s1 s2" and s2: "snapshot_wf (se_limits E) s2" "evolves s1 s2"
  obtain b where b: "encode_execution_record v = Inr b" "ps @ bs = [(key, ev, b)]"
    using ps bs by (auto simp: encode_put_def rbind_Inr_iff)
  show "G s1 (k (TxApplied rs ks)) s2 \<and> wp E G Q (k (TxApplied rs ks)) s2"
    by (rule applied [OF i b(1) _ _ _ s2]) (use c in \<open>auto simp: commits_def b(2)\<close>)
qed (rule err conflict; assumption)+
section \<open>Cells\<close>

text \<open>What a reader finds under a key.\<close>

datatype 'a cell = Absent | Holds 'a | Unreadable

definition cell_at :: "(js \<Rightarrow> 'a result) \<Rightarrow> snapshot \<Rightarrow> string \<Rightarrow> 'a cell" where
  "cell_at parse s k =
     (case lookup s k of
        None \<Rightarrow> Absent
      | Some r \<Rightarrow> (case decode_record parse (sv_value r) of Inl e \<Rightarrow> Unreadable | Inr x \<Rightarrow> Holds x))"

lemma cell_frame: "lookup s' k = lookup s k \<Longrightarrow> cell_at parse s' k = cell_at parse s k"
  by (simp add: cell_at_def)

lemma cell_absent: "cell_at parse s k = Absent \<longleftrightarrow> version_at s k = None"
  by (auto simp: cell_at_def version_at_def split: option.splits sum.splits)

lemma cell_holds: "lookup s k = Some r \<Longrightarrow> decode_record parse (sv_value r) = Inr x \<Longrightarrow> cell_at parse s k = Holds x"
  by (simp add: cell_at_def)

text \<open>The record read is the one a commit finds, when its version is.\<close>

lemma cell_pinned:
  assumes "lookup s k = Some r" "decode_record parse (sv_value r) = Inr x" "snapshot_wf l s" "evolves s s1"
    "version_at s1 k = Some (sv_version r)"
  shows "cell_at parse s1 k = Holds x"
  using pinned [OF assms(1,3,4,5)] assms(2) by (simp add: cell_at_def)

context record_codec
begin

lemma cell_written:
  assumes "encode_execution_record (encode x) = Inr b" "map_option sv_value (lookup s k) = Some b" "wf x"
  shows "cell_at parse s k = Holds x"
  using assms decoded_encode [OF assms(1,3)] by (auto simp: cell_at_def)

lemma cell_seen:
  "lookup s k = Some r \<Longrightarrow> decode_record parse (sv_value r) = Inr x \<Longrightarrow> cell_at parse s k = Holds x \<and> wf x"
  by (auto simp: cell_at_def dest: decoded_wf)

lemma cell_wf: "cell_at parse s k = Holds x \<Longrightarrow> wf x"
  by (auto simp: cell_at_def dest: decoded_wf split: option.splits sum.splits)

end

end
