(* ===== verification/JournalConcern.thy ===== *)
theory JournalConcern
  imports JournalLogic
begin

text \<open>
  The methods the journals share (\<^verbatim>\<open>execution-journal-concern.ts\<close>): loading a conversation's
  transcript from its record, its chunks or its artifact; scans that follow their cursors; the event
  log of a run; the publication intent of a run's artifacts with its retries, and its cleanup; the
  classification of an admission that already exists; one step of a run's retirement.
\<close>

section \<open>Transcripts\<close>

record loaded_transcript =
  lt_transcript :: canonical_transcript
  lt_chunks :: "string exec_record list"

primrec load_chunk_records :: "(string \<Rightarrow> string) \<Rightarrow> nat \<Rightarrow> chunk_descriptor list \<Rightarrow> string exec_record list prog" where
  "load_chunk_records sha bytes [] = Return []"
| "load_chunk_records sha bytes (d # ds) =
     pbind (exec_read_bytes (ck_key d)) (\<lambda>found.
     case found of
       None \<Rightarrow> Throw (PlainError ''canonical transcript chunk is missing'')
     | Some chunk \<Rightarrow>
         if length (er_value chunk) \<noteq> ck_size d \<or> sha (er_value chunk) \<noteq> ck_digest d
         then Throw (PlainError ''canonical transcript chunk does not match its manifest'')
         else
           (let bytes' = bytes + length (er_value chunk) in
            if max_safe_integer < int bytes' \<or> chunked_transcript_max_bytes < bytes'
            then Throw (PlainError ''canonical transcript chunks exceed their byte bound'')
            else pbind (load_chunk_records sha bytes' ds) (\<lambda>chunks. Return (chunk # chunks))))"

definition load_chunked_transcript :: "(string \<Rightarrow> string) \<Rightarrow> string \<Rightarrow> chunk_manifest \<Rightarrow> loaded_transcript prog" where
  "load_chunked_transcript sha conv m =
     pbind (load_chunk_records sha 0 (cm_chunks m)) (\<lambda>chunks.
     let encoded = concat (map er_value chunks) in
     if length encoded \<noteq> cm_size m
     then Throw (PlainError ''canonical transcript chunks do not match their declared size'')
     else if sha encoded \<noteq> cm_digest m
     then Throw (PlainError ''canonical transcript chunks do not match their content authority'')
     else
       pbind (lift (decode_canonical_transcript encoded (Some conv))) (\<lambda>t.
       Return \<lparr>lt_transcript = t, lt_chunks = chunks\<rparr>))"

definition load_transcript_body :: "config \<Rightarrow> conversation \<Rightarrow> loaded_transcript prog" where
  "load_transcript_body cf c =
     (case cv_body c of
        InlineTranscript t \<Rightarrow> Return \<lparr>lt_transcript = t, lt_chunks = []\<rparr>
      | TranscriptChunks m \<Rightarrow> load_chunked_transcript (cf_sha cf) (cv_conv c) m
      | TranscriptRef ref \<Rightarrow>
          pbind (exec_read_artifact cf ref) (\<lambda>b.
          pbind (lift (decode_canonical_transcript b (Some (cv_conv c)))) (\<lambda>t.
          Return \<lparr>lt_transcript = t, lt_chunks = []\<rparr>)))"

definition load_conversation_transcript_state :: "config \<Rightarrow> conversation \<Rightarrow> loaded_transcript prog" where
  "load_conversation_transcript_state cf c =
     pbind (load_transcript_body cf c) (\<lambda>loaded.
     if ct_revision (lt_transcript loaded) \<noteq> cv_revision c \<or> length (ct_entries (lt_transcript loaded)) \<noteq> cv_count c
     then Throw (PlainError ''canonical transcript pointer does not match its record'')
     else Return loaded)"

definition load_conversation_transcript :: "config \<Rightarrow> conversation \<Rightarrow> canonical_transcript prog" where
  "load_conversation_transcript cf c =
     pbind (load_conversation_transcript_state cf c) (\<lambda>loaded. Return (lt_transcript loaded))"

section \<open>Scans that follow their cursors\<close>

definition retention_scan_page_size :: nat where "retention_scan_page_size = 1000"
definition retention_reference_scan_max_records :: nat where "retention_reference_scan_max_records = 100000"
definition run_event_page_size :: nat where "run_event_page_size = 1000"

text \<open>The loop of \<^verbatim>\<open>scanAll\<close>. It goes on while pages have cursors; \<open>fuel\<close> bounds its turns, and a loop
  that would need more hangs. Every page with a cursor has a record, so \<open>maximum + 1\<close> turns are enough.\<close>

primrec scan_loop ::
  "nat \<Rightarrow> string \<Rightarrow> (js \<Rightarrow> 'a result) \<Rightarrow> nat \<Rightarrow> 'a exec_record list \<Rightarrow> string list \<Rightarrow> string option \<Rightarrow>
   ('a exec_record list \<times> bool) prog" where
  "scan_loop 0 pre parse maximum records visited cursor = Hang"
| "scan_loop (Suc fuel) pre parse maximum records visited cursor =
     (if length records < maximum then
        pbind (exec_scan pre cursor (min retention_scan_page_size (maximum - length records)) parse) (\<lambda>(page, next).
        case next of
          None \<Rightarrow> Return (records @ page, False)
        | Some c \<Rightarrow>
            if c \<in> set visited then Throw (PlainError ''execution retention scan cursor did not advance'')
            else scan_loop fuel pre parse maximum (records @ page) (c # visited) (Some c))
      else Return (records, cursor \<noteq> None))"

definition scan_all :: "string \<Rightarrow> (js \<Rightarrow> 'a result) \<Rightarrow> nat \<Rightarrow> ('a exec_record list \<times> bool) prog" where
  "scan_all pre parse maximum = scan_loop (Suc maximum) pre parse maximum [] [] None"

section \<open>Runs and their events\<close>

definition require_running_run :: "config \<Rightarrow> string \<Rightarrow> stored_run exec_record prog" where
  "require_running_run cf run =
     pbind (lift (run_state_key (cf_sha cf) run)) (\<lambda>key.
     pbind (exec_read parse_stored_run key) (\<lambda>found.
     case found of
       None \<Rightarrow> Throw (PlainError (''run '' @ run @ '' does not exist''))
     | Some stored \<Rightarrow>
         if rs_status (sr_summary (er_value stored)) \<noteq> RunRunning
         then Throw (PlainError (''run '' @ run @ '' is already terminal''))
         else Return stored))"

text \<open>The paging loop of \<^verbatim>\<open>readEvents\<close>.\<close>

primrec read_event_pages ::
  "nat \<Rightarrow> string \<Rightarrow> nat \<Rightarrow> run_event list \<Rightarrow> string option \<Rightarrow> (run_event list \<times> string option) prog" where
  "read_event_pages 0 pre count events cursor = Hang"
| "read_event_pages (Suc fuel) pre count events cursor =
     (if count \<le> length events then Return (events, cursor)
      else
        pbind (exec_scan pre cursor (min run_event_page_size (count - length events)) parse_stored_event) (\<lambda>(page, next).
        let events' = events @ map er_value page in
        case next of
          None \<Rightarrow> Return (events', None)
        | Some c \<Rightarrow> read_event_pages fuel pre count events' (Some c)))"

fun events_canonical :: "string \<Rightarrow> nat \<Rightarrow> string option \<Rightarrow> run_event list \<Rightarrow> unit result" where
  "events_canonical run i previous [] = Inr ()"
| "events_canonical run i previous (e # es) =
     (if ev_run e \<noteq> run \<or> ev_seq e \<noteq> i then Inl (PlainError ''run event journal is non-canonical'')
      else if (case previous of None \<Rightarrow> False | Some t \<Rightarrow> date_ms (ev_at e) < date_ms t)
      then Inl (PlainError ''run event journal timestamps are non-monotonic'')
      else events_canonical run (i + 1) (Some (ev_at e)) es)"

definition last_event_ok :: "run_summary \<Rightarrow> run_event list \<Rightarrow> unit result" where
  "last_event_ok s events =
     (let final = (if events = [] then None else Some (ev_body (last events))) in
      if rs_status s = RunRunning then
        require (\<not> (\<exists>st rev fail. final = Some (Settled st rev fail))) (PlainError ''running run has terminal event evidence'')
      else
        require (final = Some (Settled (rs_status s) (rs_revision s) (rs_failure s)))
          (PlainError ''terminal run does not match its settlement event''))"

definition read_events :: "config \<Rightarrow> stored_run \<Rightarrow> run_event list prog" where
  "read_events cf r =
     (let s = sr_summary r; count = sr_event_count r in
      pbind (lift (run_event_prefix (cf_sha cf) (rs_run s))) (\<lambda>pre.
      pbind (read_event_pages (Suc count) pre count [] None) (\<lambda>(events, cursor).
      if length events \<noteq> count \<or> cursor \<noteq> None then Throw (PlainError ''run event journal is incomplete'')
      else
        pbind (lift (events_canonical (rs_run s) 0 None events)) (\<lambda>_.
        if events = [] \<or> ev_body (hd events) \<noteq> Admitted \<or> ev_at (hd events) \<noteq> rs_started s
        then Throw (PlainError ''run event journal has an invalid admission event'')
        else pbind (lift (last_event_ok s events)) (\<lambda>_. Return events)))))"

section \<open>Publication intents of a run\<close>

record ensured_intent =
  ei_record :: "publication_intent exec_record"
  ei_activated :: "string list"

definition intent_retries :: nat where "intent_retries = 3"

text \<open>The loop over the additions of \<^verbatim>\<open>ensureArtifactIntent\<close> against an existing intent: the
  artifacts grow, and the slots that are new are activated.\<close>

fun extend_artifacts ::
  "artifact_descriptor list \<Rightarrow> artifact_descriptor list \<Rightarrow> string list \<Rightarrow> artifact_descriptor list \<Rightarrow>
   (artifact_descriptor list \<times> string list) result" where
  "extend_artifacts cleanup artifacts activated [] = Inr (artifacts, activated)"
| "extend_artifacts cleanup artifacts activated (d # ds) =
     (case find_slot cleanup (pd_slot d) of
        Some pending \<Rightarrow>
          if \<not> same_descriptor pending d
          then Inl (PlainError (''artifact publication slot '' @ pd_slot d @ '' cannot be rewritten''))
          else Inl (PlainError (''artifact publication slot '' @ pd_slot d @ '' is awaiting proven cleanup''))
      | None \<Rightarrow>
          (case find_slot artifacts (pd_slot d) of
             Some prior \<Rightarrow>
               if \<not> same_descriptor prior d
               then Inl (PlainError (''artifact publication slot '' @ pd_slot d @ '' cannot be rewritten''))
               else extend_artifacts cleanup artifacts activated ds
           | None \<Rightarrow> extend_artifacts cleanup (artifacts @ [d]) (activated @ [pd_slot d]) ds))"

definition extend_intent ::
  "publication_intent \<Rightarrow> artifact_descriptor list \<Rightarrow> (artifact_descriptor list \<times> string list) result" where
  "extend_intent p additions =
     rbind (extend_artifacts (pi_cleanup p) (pi_artifacts p) [] additions) (\<lambda>(artifacts, activated).
     rbind (require (length artifacts + length (pi_cleanup p) \<le> run_artifact_max_items)
              (RangeError ''artifact publication intent'')) (\<lambda>_.
     rbind (assert_publication_bounds (artifacts @ pi_cleanup p)) (\<lambda>_.
     Inr (artifacts, activated))))"

text \<open>The commit: the run and the admission are checked, the intent is put, and read back.\<close>

definition store_intent ::
  "string \<Rightarrow> stored_run exec_record \<Rightarrow> admission exec_record \<Rightarrow> string option \<Rightarrow> publication_intent \<Rightarrow> string list \<Rightarrow>
   ensured_intent prog \<Rightarrow> ensured_intent prog" where
  "store_intent key run adm expected value activated again =
     pbind (exec_transaction
              \<lparr>xq_checks = [(er_key run, Some (er_version run)), (er_key adm, Some (er_version adm))],
               xq_puts = [(key, expected, encode_publication_intent value)], xq_byte_puts = [], xq_deletes = []\<rparr>) (\<lambda>result.
     case result of
       TxConflict _ \<Rightarrow> again
     | TxApplied _ _ \<Rightarrow>
         pbind (exec_read parse_publication_intent key) (\<lambda>stored.
         case stored of
           None \<Rightarrow> Throw (PlainError ''artifact publication intent disappeared after commit'')
         | Some rec \<Rightarrow> Return \<lparr>ei_record = rec, ei_activated = activated\<rparr>))"

definition require_running_admission :: "config \<Rightarrow> string \<Rightarrow> string \<Rightarrow> string \<Rightarrow> admission exec_record prog" where
  "require_running_admission cf request run conv =
     pbind (lift (admission_state_key (cf_sha cf) request)) (\<lambda>akey.
     pbind (exec_read parse_admission akey) (\<lambda>found.
     case found of
       None \<Rightarrow> Throw (PlainError ''artifact publication admission authority is missing or mismatched'')
     | Some a \<Rightarrow>
         if ad_run (er_value a) \<noteq> run \<or> ad_conv (er_value a) \<noteq> conv \<or> ad_status (er_value a) \<noteq> AdmRunning
         then Throw (PlainError ''artifact publication admission authority is missing or mismatched'')
         else Return a))"

definition ensure_once ::
  "config \<Rightarrow> string \<Rightarrow> string \<Rightarrow> string \<Rightarrow> artifact_descriptor list \<Rightarrow> ensured_intent prog \<Rightarrow> ensured_intent prog" where
  "ensure_once cf key run request additions again =
     pbind (require_running_run cf run) (\<lambda>stored.
     if rs_request (sr_summary (er_value stored)) \<noteq> request
     then Throw (PlainError ''artifact publication run request identity does not match'')
     else
       pbind (require_running_admission cf request run (rs_conv (sr_summary (er_value stored)))) (\<lambda>adm.
       pbind (exec_read parse_publication_intent key) (\<lambda>found.
       case found of
         None \<Rightarrow>
           pbind journal_now (\<lambda>now.
           store_intent key stored adm None
             \<lparr>pi_run = run, pi_request = request, pi_artifacts = additions, pi_cleanup = [], pi_created = now, pi_updated = now\<rparr>
             (map pd_slot additions) again)
       | Some existing \<Rightarrow>
           (let p = er_value existing in
            if pi_run p \<noteq> run \<or> pi_request p \<noteq> request
            then Throw (PlainError ''artifact publication intent authority is mismatched'')
            else
              pbind (lift (extend_intent p additions)) (\<lambda>(artifacts, activated).
              if length artifacts = length (pi_artifacts p)
              then Return \<lparr>ei_record = existing, ei_activated = activated\<rparr>
              else
                pbind journal_now (\<lambda>now.
                store_intent key stored adm (Some (er_version existing)) (p\<lparr>pi_artifacts := artifacts, pi_updated := now\<rparr>)
                  activated again))))))"

primrec ensure_loop ::
  "nat \<Rightarrow> config \<Rightarrow> string \<Rightarrow> string \<Rightarrow> string \<Rightarrow> artifact_descriptor list \<Rightarrow> ensured_intent prog" where
  "ensure_loop 0 cf key run request additions =
     Throw (PlainError ''artifact publication intent did not converge after contention'')"
| "ensure_loop (Suc n) cf key run request additions =
     ensure_once cf key run request additions (ensure_loop n cf key run request additions)"

definition ensure_artifact_intent ::
  "config \<Rightarrow> string \<Rightarrow> string \<Rightarrow> artifact_descriptor list \<Rightarrow> ensured_intent prog" where
  "ensure_artifact_intent cf run request descriptors =
     (if descriptors = [] \<or> run_artifact_max_items < length descriptors
      then Throw (RangeError ''artifact publication intent'')
      else
        pbind (lift (imap (\<lambda>i d. parse_descriptor (''artifact publication descriptor.'' @ nat_text i) (encode_descriptor d)) 0 descriptors)) (\<lambda>additions.
        pbind (lift (assert_publication_bounds additions)) (\<lambda>_.
        pbind (lift (require (distinct (map pd_slot additions)) (TypeError ''artifact publication intent''))) (\<lambda>_.
        pbind (lift (artifact_intent_state_key (cf_sha cf) run)) (\<lambda>key.
        ensure_loop intent_retries cf key run request additions)))))"

end
