(* ===== verification/IntentCleanup.thy ===== *)
theory IntentCleanup
  imports JournalConcern
begin

text \<open>
  Cleanup of publication intents (\<^verbatim>\<open>abandonArtifactPublication\<close>,
  \<^verbatim>\<open>reconcileArtifactIntent\<close> and their best-effort forms in
  \<^verbatim>\<open>execution-journal-concern.ts\<close>): a descriptor leaves an intent only when its artifact was
  never published or is proven deleted; a run that is no longer running has all its artifacts moved to
  cleanup first.
\<close>

section \<open>Abandoning a publication\<close>

text \<open>Splits the active artifacts: those activated by others stay; of those this call activated, the
  ones that may have been published go to cleanup and the others are dropped.\<close>

fun split_abandoned ::
  "string list \<Rightarrow> artifact_descriptor list \<Rightarrow> artifact_descriptor list \<Rightarrow> (artifact_descriptor list \<times> artifact_descriptor list) result" where
  "split_abandoned activated published [] = Inr ([], [])"
| "split_abandoned activated published (a # as) =
     (if pd_slot a \<notin> set activated then
        rbind (split_abandoned activated published as) (\<lambda>(kept, cleanup). Inr (a # kept, cleanup))
      else
        (case find_slot (rev published) (pd_slot a) of
           None \<Rightarrow> split_abandoned activated published as
         | Some ambiguous \<Rightarrow>
             if \<not> same_descriptor a ambiguous
             then Inl (PlainError (''artifact publication slot '' @ pd_slot a @ '' cannot be rewritten''))
             else rbind (split_abandoned activated published as) (\<lambda>(kept, cleanup). Inr (kept, a # cleanup))))"

definition delete_request :: "string \<Rightarrow> string option \<Rightarrow> exec_request" where
  "delete_request key expected =
     \<lparr>xq_checks = [], xq_puts = [], xq_byte_puts = [], xq_deletes = [(key, expected)]\<rparr>"

definition abandon_once ::
  "ensured_intent \<Rightarrow> artifact_descriptor list \<Rightarrow> publication_intent exec_record option prog \<Rightarrow> publication_intent exec_record option prog" where
  "abandon_once ensured published again =
     (let key = er_key (ei_record ensured) in
      pbind (exec_read parse_publication_intent key) (\<lambda>found.
      case found of
        None \<Rightarrow> Return None
      | Some current \<Rightarrow>
          (let p = er_value current in
           if pi_run p \<noteq> pi_run (er_value (ei_record ensured)) \<or> pi_request p \<noteq> pi_request (er_value (ei_record ensured))
           then Throw (PlainError ''artifact publication intent authority is mismatched'')
           else
             pbind (lift (split_abandoned (ei_activated ensured) published (pi_artifacts p))) (\<lambda>(artifacts, added).
             let cleanup = pi_cleanup p @ added in
             if artifacts = [] \<and> cleanup = [] then
               pbind (exec_transaction (delete_request key (Some (er_version current)))) (\<lambda>result.
               case result of TxConflict _ \<Rightarrow> again | TxApplied _ _ \<Rightarrow> Return None)
             else
               pbind journal_now (\<lambda>now.
               pbind (exec_transaction (put_request key (Some (er_version current))
                        (encode_publication_intent (p\<lparr>pi_artifacts := artifacts, pi_cleanup := cleanup, pi_updated := now\<rparr>)))) (\<lambda>result.
               case result of
                 TxConflict _ \<Rightarrow> again
               | TxApplied _ _ \<Rightarrow>
                   pbind (exec_read parse_publication_intent key) (\<lambda>stored.
                   case stored of
                     None \<Rightarrow> Throw (PlainError ''artifact cleanup intent disappeared after commit'')
                   | Some rec \<Rightarrow> Return (Some rec))))))))"

primrec abandon_loop ::
  "nat \<Rightarrow> ensured_intent \<Rightarrow> artifact_descriptor list \<Rightarrow> publication_intent exec_record option prog" where
  "abandon_loop 0 ensured published =
     Throw (PlainError ''artifact publication abandonment did not converge after contention'')"
| "abandon_loop (Suc n) ensured published = abandon_once ensured published (abandon_loop n ensured published)"

definition abandon_artifact_publication ::
  "ensured_intent \<Rightarrow> artifact_descriptor list \<Rightarrow> publication_intent exec_record option prog" where
  "abandon_artifact_publication = abandon_loop intent_retries"

section \<open>Reconciling an intent\<close>

record reconciled =
  rn_deleted :: nat
  rn_pending :: nat
  rn_skipped :: nat

definition slot_error :: "artifact_descriptor \<Rightarrow> js_error" where
  "slot_error a = PlainError (''artifact publication slot '' @ pd_slot a @ '' cannot be rewritten'')"

text \<open>\<open>proven\<close> holds the rows of the map \<^verbatim>\<open>provenDeleted\<close>; a deletion that throws leaves its
  artifact pending.\<close>

primrec delete_candidates ::
  "config \<Rightarrow> artifact_descriptor list \<Rightarrow> artifact_descriptor list \<Rightarrow> artifact_descriptor list prog" where
  "delete_candidates cf proven [] = Return proven"
| "delete_candidates cf proven (a # as) =
     (case find_slot proven (pd_slot a) of
        Some deleted \<Rightarrow>
          if \<not> same_descriptor deleted a then Throw (slot_error a) else delete_candidates cf proven as
      | None \<Rightarrow>
          pbind (pcatch (pbind (lift (artifact_reference a)) (exec_delete_artifact cf)) (\<lambda>e. Return False)) (\<lambda>deleted.
          delete_candidates cf (if deleted then proven @ [a] else proven) as))"

fun remaining_cleanup :: "artifact_descriptor list \<Rightarrow> artifact_descriptor list \<Rightarrow> artifact_descriptor list result" where
  "remaining_cleanup proven [] = Inr []"
| "remaining_cleanup proven (a # as) =
     (case find_slot proven (pd_slot a) of
        None \<Rightarrow> rbind (remaining_cleanup proven as) (\<lambda>rest. Inr (a # rest))
      | Some deleted \<Rightarrow> if \<not> same_descriptor deleted a then Inl (slot_error a) else remaining_cleanup proven as)"

definition finish_cleanup ::
  "config \<Rightarrow> artifact_descriptor list \<Rightarrow> publication_intent exec_record \<Rightarrow> (artifact_descriptor list \<Rightarrow> reconciled prog) \<Rightarrow> reconciled prog" where
  "finish_cleanup cf proven current again =
     (let p = er_value current; skipped = (if pi_artifacts p \<noteq> [] then 1 else 0); candidates = pi_cleanup p in
      if candidates = [] then Return \<lparr>rn_deleted = length proven, rn_pending = 0, rn_skipped = skipped\<rparr>
      else
        pbind (delete_candidates cf proven candidates) (\<lambda>proven.
        if proven = [] then Return \<lparr>rn_deleted = 0, rn_pending = length candidates, rn_skipped = skipped\<rparr>
        else
          pbind (lift (remaining_cleanup proven candidates)) (\<lambda>cleanup.
          pbind (if pi_artifacts p = [] \<and> cleanup = []
                 then exec_transaction (delete_request (er_key current) (Some (er_version current)))
                 else
                   pbind journal_now (\<lambda>now.
                   exec_transaction (put_request (er_key current) (Some (er_version current))
                     (encode_publication_intent (p\<lparr>pi_cleanup := cleanup, pi_updated := now\<rparr>))))) (\<lambda>result.
          case result of
            TxConflict _ \<Rightarrow> again proven
          | TxApplied _ _ \<Rightarrow> Return \<lparr>rn_deleted = length proven, rn_pending = length cleanup, rn_skipped = skipped\<rparr>))))"

definition reconcile_once ::
  "config \<Rightarrow> artifact_descriptor list \<Rightarrow> publication_intent exec_record \<Rightarrow> (artifact_descriptor list \<Rightarrow> reconciled prog) \<Rightarrow> reconciled prog" where
  "reconcile_once cf proven current again =
     (let p = er_value current in
      pbind (lift (run_state_key (cf_sha cf) (pi_run p))) (\<lambda>rkey.
      pbind (exec_read parse_stored_run rkey) (\<lambda>run.
      if (case run of None \<Rightarrow> False | Some r \<Rightarrow> rs_request (sr_summary (er_value r)) \<noteq> pi_request p)
      then Throw (PlainError ''artifact cleanup intent run authority is mismatched'')
      else if (case run of None \<Rightarrow> True | Some r \<Rightarrow> rs_status (sr_summary (er_value r)) \<noteq> RunRunning) \<and> pi_artifacts p \<noteq> []
      then
        pbind (lift (merge_descriptors (pi_cleanup p) (pi_artifacts p))) (\<lambda>cleanup.
        pbind journal_now (\<lambda>now.
        pbind (exec_transaction (put_request (er_key current) (Some (er_version current))
                 (encode_publication_intent (p\<lparr>pi_artifacts := [], pi_cleanup := cleanup, pi_updated := now\<rparr>)))) (\<lambda>moved.
        case moved of
          TxConflict _ \<Rightarrow> again proven
        | TxApplied _ _ \<Rightarrow>
            pbind (exec_read parse_publication_intent (er_key current)) (\<lambda>stored.
            case stored of
              None \<Rightarrow> Throw (PlainError ''artifact cleanup intent disappeared after commit'')
            | Some rec \<Rightarrow> finish_cleanup cf proven rec again))))
      else finish_cleanup cf proven current again)))"

text \<open>From the second turn on the intent is read again first.\<close>

primrec reconcile_loop ::
  "nat \<Rightarrow> config \<Rightarrow> string \<Rightarrow> artifact_descriptor list \<Rightarrow> reconciled prog" where
  "reconcile_loop 0 cf key proven =
     Throw (PlainError ''artifact publication reconciliation did not converge after contention'')"
| "reconcile_loop (Suc n) cf key proven =
     pbind (exec_read parse_publication_intent key) (\<lambda>found.
     case found of
       None \<Rightarrow> Return \<lparr>rn_deleted = length proven, rn_pending = 0, rn_skipped = 0\<rparr>
     | Some current \<Rightarrow> reconcile_once cf proven current (reconcile_loop n cf key))"

definition reconcile_retries :: nat where "reconcile_retries = 5"

definition reconcile_artifact_intent :: "config \<Rightarrow> publication_intent exec_record \<Rightarrow> reconciled prog" where
  "reconcile_artifact_intent cf initial =
     reconcile_once cf [] initial (reconcile_loop (reconcile_retries - 1) cf (er_key initial))"

definition best_effort_reconcile :: "config \<Rightarrow> string \<Rightarrow> unit prog" where
  "best_effort_reconcile cf run =
     pcatch
       (pbind (lift (artifact_intent_state_key (cf_sha cf) run)) (\<lambda>key.
        pbind (exec_read parse_publication_intent key) (\<lambda>found.
        case found of
          None \<Rightarrow> Return ()
        | Some rec \<Rightarrow> pbind (reconcile_artifact_intent cf rec) (\<lambda>_. Return ()))))
       (\<lambda>e. Return ())"

definition best_effort_abandon :: "config \<Rightarrow> ensured_intent \<Rightarrow> artifact_descriptor list \<Rightarrow> unit prog" where
  "best_effort_abandon cf ensured published =
     pcatch
       (pbind (abandon_artifact_publication ensured published) (\<lambda>pending.
        case pending of
          None \<Rightarrow> Return ()
        | Some rec \<Rightarrow> pbind (reconcile_artifact_intent cf rec) (\<lambda>_. Return ())))
       (\<lambda>e. Return ())"

end
