(* ===== verification/RunJournal.thy ===== *)
theory RunJournal
  imports IntentCleanup
begin

text \<open>
  The life of a run (\<^verbatim>\<open>execution-journal-runs.ts\<close>, \<^verbatim>\<open>existingAdmission\<close> of
  \<^verbatim>\<open>execution-journal-concern.ts\<close>): admission of a request once, with a lease; recording of
  attempts and interactions, each with its event; staging of artifacts; settlement, which commits the
  run, its admission, its last event, the conversation, the provider session and the publication intent
  in one transaction; reading a run back with its events and transcript.
\<close>

section \<open>Admission\<close>

datatype admission_answer =
    AdmissionAccepted run_summary
  | AdmissionJoin string
  | AdmissionCached run_summary "artifact_ref option"
  | AdmissionConflict string
  | AdmissionUncertain string

text \<open>A write of a run together with its next event; the event's key must be free.\<close>

definition event_puts :: "config \<Rightarrow> run_event \<Rightarrow> (string \<times> string option \<times> js) list result" where
  "event_puts cf e =
     rbind (run_event_state_key (cf_sha cf) (ev_run e) (ev_seq e)) (\<lambda>key.
     rbind (event_record e) (\<lambda>v. Inr [(key, None, v)]))"

definition run_put :: "stored_run exec_record \<Rightarrow> stored_run \<Rightarrow> string \<times> string option \<times> js" where
  "run_put stored updated = (er_key stored, Some (er_version stored), encode_stored_run updated)"

definition admission_put :: "admission exec_record \<Rightarrow> admission \<Rightarrow> string \<times> string option \<times> js" where
  "admission_put stored updated = (er_key stored, Some (er_version stored), encode_admission updated)"

definition stale_code :: string where "stale_code = ''stale-running-admission''"

definition settled_event :: "string \<Rightarrow> nat \<Rightarrow> string \<Rightarrow> run_status \<Rightarrow> string option \<Rightarrow> string option \<Rightarrow> run_event" where
  "settled_event run sq now status revision failure =
     \<lparr>ev_run = run, ev_seq = sq, ev_at = now, ev_body = Settled status revision failure\<rparr>"

text \<open>A running admission whose lease has expired: run and admission become uncertain together, and
  the publication intent, when there is one, is turned to cleanup.\<close>

definition stale_intent_puts :: "string \<Rightarrow> admission \<Rightarrow> publication_intent exec_record option \<Rightarrow> (string \<times> string option \<times> js) list result" where
  "stale_intent_puts now a found =
     (case found of
        None \<Rightarrow> Inr []
      | Some intent \<Rightarrow>
          (let p = er_value intent in
           if pi_run p \<noteq> ad_run a \<or> pi_request p \<noteq> ad_request a
           then Inl (PlainError ''artifact publication intent authority is mismatched'')
           else
             rbind (merge_descriptors (pi_cleanup p) (pi_artifacts p)) (\<lambda>cleanup.
             Inr [(er_key intent, Some (er_version intent),
                   encode_publication_intent (p\<lparr>pi_artifacts := [], pi_cleanup := cleanup, pi_updated := now\<rparr>))])))"

definition classify_stale ::
  "config \<Rightarrow> admission exec_record \<Rightarrow> admission_answer prog \<Rightarrow> admission_answer prog" where
  "classify_stale cf adm again =
     (let a = er_value adm in
      pbind (lift (run_state_key (cf_sha cf) (ad_run a))) (\<lambda>rkey.
      pbind (exec_read parse_stored_run rkey) (\<lambda>found.
      case found of
        None \<Rightarrow> Throw (PlainError ''running admission points to missing or terminal state'')
      | Some run \<Rightarrow>
          (let r = er_value run; s = sr_summary r in
           if rs_status s \<noteq> RunRunning \<or> rs_request s \<noteq> ad_request a \<or> rs_conv s \<noteq> ad_conv a
           then Throw (PlainError ''running admission points to missing or terminal state'')
           else
             pbind journal_now (\<lambda>now.
             pbind (lift (freeze_summary (s\<lparr>rs_status := RunUncertain, rs_updated := now, rs_ended := Some now,
                      rs_failure := Some stale_code\<rparr>))) (\<lambda>summary.
             pbind (lift (next_event_count (sr_event_count r))) (\<lambda>count.
             pbind (lift (artifact_intent_state_key (cf_sha cf) (ad_run a))) (\<lambda>ikey.
             pbind (exec_read parse_publication_intent ikey) (\<lambda>intent.
             pbind (lift (stale_intent_puts now a intent)) (\<lambda>intent_puts.
             pbind (lift (event_puts cf (settled_event (ad_run a) (sr_event_count r) now RunUncertain None (Some stale_code)))) (\<lambda>event.
             pbind (exec_transaction
                      \<lparr>xq_checks = [],
                       xq_puts =
                         [admission_put adm (a\<lparr>ad_status := AdmUncertain, ad_updated := now, ad_lease := now,
                            ad_settled := Some RunUncertain\<rparr>),
                          run_put run (r\<lparr>sr_summary := summary, sr_event_count := count\<rparr>)]
                         @ event @ intent_puts,
                       xq_byte_puts = [], xq_deletes = []\<rparr>) (\<lambda>result.
             case result of
               TxConflict _ \<Rightarrow> again
             | TxApplied _ _ \<Rightarrow>
                 pbind (if intent = None then Return () else best_effort_reconcile cf (ad_run a)) (\<lambda>_.
                 Return (AdmissionUncertain (ad_run a)))))))))))))))"

text \<open>\<open>n\<close> is the number of further turns contention may take: \<^verbatim>\<open>2 - contention\<close>.\<close>

primrec existing_admission ::
  "nat \<Rightarrow> config \<Rightarrow> admission exec_record \<Rightarrow> string \<Rightarrow> string \<Rightarrow> admission_answer prog" where
  "existing_admission 0 cf adm conv fingerprint = Throw (PlainError ''stale admission classification did not converge'')"
| "existing_admission (Suc n) cf adm conv fingerprint =
     (let a = er_value adm in
      if ad_conv a \<noteq> conv \<or> ad_fingerprint a \<noteq> fingerprint then Return (AdmissionConflict (ad_run a))
      else if ad_status a = AdmUncertain then
        pbind (best_effort_reconcile cf (ad_run a)) (\<lambda>_. Return (AdmissionUncertain (ad_run a)))
      else if ad_status a = AdmSettled then
        pbind (lift (run_state_key (cf_sha cf) (ad_run a))) (\<lambda>rkey.
        pbind (exec_read parse_stored_run rkey) (\<lambda>found.
        case found of
          None \<Rightarrow> Throw (PlainError ''settled admission points to missing or running state'')
        | Some run \<Rightarrow>
            (let s = sr_summary (er_value run) in
             if rs_status s = RunRunning \<or> rs_request s \<noteq> ad_request a \<or> rs_conv s \<noteq> ad_conv a
             then Throw (PlainError ''settled admission points to missing or running state'')
             else pbind (best_effort_reconcile cf (ad_run a)) (\<lambda>_. Return (AdmissionCached s (ad_response a))))))
      else
        pbind (is_expired (Some (ad_lease a))) (\<lambda>expired.
        if \<not> expired then Return (AdmissionJoin (ad_run a))
        else
          classify_stale cf adm
            (case n of
               0 \<Rightarrow> Throw (PlainError ''stale admission classification did not converge'')
             | Suc m \<Rightarrow>
                 pbind (exec_read parse_admission (er_key adm)) (\<lambda>current.
                 case current of
                   None \<Rightarrow> Throw (PlainError ''admission disappeared during stale classification'')
                 | Some c \<Rightarrow> existing_admission n cf c conv fingerprint))))"

definition admission_turns :: nat where "admission_turns = 3"

record admit_input =
  ai_request :: js
  ai_conv :: js
  ai_fingerprint :: js
  ai_run :: js

definition choose_run_id :: "js \<Rightarrow> string prog" where
  "choose_run_id v =
     pbind (if v = JUndef \<or> v = JNull then GenerateCall RunIdGenerator Return else Return v) (\<lambda>id.
     lift (bounded_identifier ''runId'' id))"

definition new_summary :: "string \<Rightarrow> string \<Rightarrow> string \<Rightarrow> string \<Rightarrow> run_summary" where
  "new_summary run request conv now =
     \<lparr>rs_run = run, rs_request = request, rs_conv = conv, rs_status = RunRunning, rs_started = now, rs_updated = now,
      rs_ended = None, rs_attempts = [], rs_revision = None, rs_failure = None\<rparr>"

definition new_admission :: "string \<Rightarrow> string \<Rightarrow> string \<Rightarrow> string \<Rightarrow> string \<Rightarrow> string \<Rightarrow> admission" where
  "new_admission request conv fingerprint run now lease =
     \<lparr>ad_request = request, ad_conv = conv, ad_fingerprint = fingerprint, ad_run = run, ad_status = AdmRunning,
      ad_started = now, ad_updated = now, ad_lease = lease, ad_settled = None, ad_response = None\<rparr>"

definition admit_new ::
  "config \<Rightarrow> string \<Rightarrow> string \<Rightarrow> string \<Rightarrow> string \<Rightarrow> js \<Rightarrow> admission_answer prog \<Rightarrow> admission_answer prog" where
  "admit_new cf akey request conv fingerprint run_v again =
     pbind (choose_run_id run_v) (\<lambda>run.
     pbind journal_now (\<lambda>now.
     pbind (lift (add_milliseconds now (cf_stale cf))) (\<lambda>lease.
     pbind (lift (freeze_summary (new_summary run request conv now))) (\<lambda>summary.
     pbind (lift (run_state_key (cf_sha cf) run)) (\<lambda>rkey.
     pbind (lift (event_puts cf \<lparr>ev_run = run, ev_seq = 0, ev_at = now, ev_body = Admitted\<rparr>)) (\<lambda>event.
     pbind (lift (run_history_state_key (cf_sha cf) now run)) (\<lambda>hkey.
     pbind (exec_transaction
              \<lparr>xq_checks = [],
               xq_puts =
                 [(akey, None, encode_admission (new_admission request conv fingerprint run now lease)),
                  (rkey, None, encode_stored_run \<lparr>sr_summary = summary, sr_event_count = 1, sr_transcript = None\<rparr>)]
                 @ event @ [(hkey, None, encode_run_history \<lparr>rh_run = run, rh_started = now\<rparr>)],
               xq_byte_puts = [], xq_deletes = []\<rparr>) (\<lambda>result.
     case result of
       TxApplied _ _ \<Rightarrow> Return (AdmissionAccepted summary)
     | TxConflict conflicts \<Rightarrow>
         if akey \<notin> fst ` set conflicts
         then Throw (PlainError ''run admission collided with an unrelated durable identity'')
         else again))))))))"

primrec admit_loop :: "nat \<Rightarrow> config \<Rightarrow> string \<Rightarrow> string \<Rightarrow> string \<Rightarrow> string \<Rightarrow> js \<Rightarrow> admission_answer prog" where
  "admit_loop 0 cf akey request conv fingerprint run_v = Throw (PlainError ''run admission did not converge after contention'')"
| "admit_loop (Suc n) cf akey request conv fingerprint run_v =
     pbind (exec_read parse_admission akey) (\<lambda>found.
     case found of
       Some existing \<Rightarrow> existing_admission admission_turns cf existing conv fingerprint
     | None \<Rightarrow> admit_new cf akey request conv fingerprint run_v (admit_loop n cf akey request conv fingerprint run_v))"

definition admit :: "config \<Rightarrow> admit_input \<Rightarrow> admission_answer prog" where
  "admit cf input =
     pbind (lift (bounded_identifier ''requestId'' (ai_request input))) (\<lambda>request.
     pbind (lift (bounded_conversation_id ''conversationId'' (ai_conv input))) (\<lambda>conv.
     pbind (lift (parse_fingerprint ''fingerprint'' (ai_fingerprint input))) (\<lambda>fingerprint.
     pbind (lift (admission_state_key (cf_sha cf) request)) (\<lambda>akey.
     admit_loop admission_turns cf akey request conv fingerprint (ai_run input)))))"

definition renew_admission :: "config \<Rightarrow> js \<Rightarrow> js \<Rightarrow> bool prog" where
  "renew_admission cf request_v run_v =
     pbind (lift (rbind (bounded_identifier ''requestId'' request_v) (admission_state_key (cf_sha cf)))) (\<lambda>key.
     pbind (lift (bounded_identifier ''runId'' run_v)) (\<lambda>run.
     pbind (exec_read parse_admission key) (\<lambda>found.
     case found of
       None \<Rightarrow> Return False
     | Some current \<Rightarrow>
         (let a = er_value current in
          if ad_run a \<noteq> run \<or> ad_status a \<noteq> AdmRunning then Return False
          else
            pbind journal_now (\<lambda>now.
            pbind (lift (add_milliseconds now (cf_stale cf))) (\<lambda>lease.
            pbind (exec_transaction (put_request key (Some (er_version current))
                     (encode_admission (a\<lparr>ad_updated := now, ad_lease := lease\<rparr>)))) (\<lambda>result.
            Return (case result of TxApplied _ _ \<Rightarrow> True | TxConflict _ \<Rightarrow> False))))))))"

section \<open>Attempts and interactions\<close>

text \<open>The new list of attempts, or the decision that the evidence is already recorded.\<close>

datatype attempt_update = AlreadyRecorded | NewAttempts "attempt_evidence list"

definition update_attempts :: "attempt_evidence list \<Rightarrow> attempt_evidence \<Rightarrow> attempt_update result" where
  "update_attempts attempts evidence =
     (let i = at_attempt evidence - 1 in
      if length attempts + 1 < at_attempt evidence then Inl (RangeError ''attempt evidence'')
      else if i < length attempts \<and> at_status (attempts ! i) \<noteq> AttStarted then
        (if same_attempt (attempts ! i) evidence then Inr AlreadyRecorded
         else Inl (PlainError ''terminal attempt evidence cannot be rewritten''))
      else if i < length attempts \<and> at_status evidence = AttStarted then
        (if same_attempt (attempts ! i) evidence then Inr AlreadyRecorded
         else Inl (PlainError ''started attempt evidence cannot be rewritten''))
      else
        (let attempts' = (if i < length attempts then attempts[i := evidence] else attempts @ [evidence]) in
         if run_max_attempts < length attempts' then Inl (RangeError ''run'')
         else Inr (NewAttempts attempts')))"

definition commit_run_event ::
  "config \<Rightarrow> stored_run exec_record \<Rightarrow> run_summary \<Rightarrow> run_event \<Rightarrow> run_summary prog \<Rightarrow> run_summary prog" where
  "commit_run_event cf stored summary_value e again =
     pbind (lift (freeze_summary summary_value)) (\<lambda>summary.
     pbind (lift (next_event_count (sr_event_count (er_value stored)))) (\<lambda>count.
     pbind (lift (event_puts cf e)) (\<lambda>event.
     pbind (exec_transaction
              \<lparr>xq_checks = [],
               xq_puts = run_put stored ((er_value stored)\<lparr>sr_summary := summary, sr_event_count := count\<rparr>) # event,
               xq_byte_puts = [], xq_deletes = []\<rparr>) (\<lambda>result.
     case result of TxApplied _ _ \<Rightarrow> Return summary | TxConflict _ \<Rightarrow> again))))"

primrec record_attempt_loop :: "nat \<Rightarrow> config \<Rightarrow> string \<Rightarrow> attempt_evidence \<Rightarrow> run_summary prog" where
  "record_attempt_loop 0 cf run evidence = Throw (PlainError ''attempt recording did not converge after contention'')"
| "record_attempt_loop (Suc n) cf run evidence =
     pbind (require_running_run cf run) (\<lambda>stored.
     let s = sr_summary (er_value stored) in
     pbind (lift (update_attempts (rs_attempts s) evidence)) (\<lambda>update.
     case update of
       AlreadyRecorded \<Rightarrow> Return s
     | NewAttempts attempts \<Rightarrow>
         pbind journal_now (\<lambda>now.
         commit_run_event cf stored (s\<lparr>rs_updated := now, rs_attempts := attempts\<rparr>)
           \<lparr>ev_run = run, ev_seq = sr_event_count (er_value stored), ev_at = now, ev_body = AttemptEvent evidence\<rparr>
           (record_attempt_loop n cf run evidence))))"

definition record_attempt :: "config \<Rightarrow> js \<Rightarrow> js \<Rightarrow> run_summary prog" where
  "record_attempt cf run_v attempt_v =
     pbind (lift (bounded_identifier ''runId'' run_v)) (\<lambda>run.
     pbind (lift (parse_run_attempt_evidence ''attempt'' attempt_v)) (\<lambda>evidence.
     if rt_instance (at_route evidence) = [] then Throw (TypeError ''attempt route'')
     else record_attempt_loop admission_turns cf run evidence))"

primrec record_interaction_loop :: "nat \<Rightarrow> config \<Rightarrow> string \<Rightarrow> interaction_evidence \<Rightarrow> run_summary prog" where
  "record_interaction_loop 0 cf run evidence = Throw (PlainError ''interaction recording did not converge after contention'')"
| "record_interaction_loop (Suc n) cf run evidence =
     pbind (require_running_run cf run) (\<lambda>stored.
     pbind journal_now (\<lambda>now.
     commit_run_event cf stored ((sr_summary (er_value stored))\<lparr>rs_updated := now\<rparr>)
       \<lparr>ev_run = run, ev_seq = sr_event_count (er_value stored), ev_at = now, ev_body = InteractionEvent evidence\<rparr>
       (record_interaction_loop n cf run evidence)))"

definition record_interaction :: "config \<Rightarrow> js \<Rightarrow> js \<Rightarrow> run_summary prog" where
  "record_interaction cf run_v evidence_v =
     pbind (lift (bounded_identifier ''runId'' run_v)) (\<lambda>run.
     pbind (lift (parse_interaction_evidence ''interaction evidence'' evidence_v)) (\<lambda>evidence.
     record_interaction_loop admission_turns cf run evidence))"

section \<open>Staging artifacts\<close>

record artifact_plan =
  ap_data :: string
  ap_descriptor :: artifact_descriptor

definition describe_slot :: "config \<Rightarrow> string \<Rightarrow> string \<Rightarrow> js \<Rightarrow> js \<Rightarrow> artifact_descriptor result" where
  "describe_slot cf slot data media file =
     rbind (describe_artifact (cf_sha cf) data media file) (\<lambda>(sha256, size, media', file').
     Inr \<lparr>pd_slot = slot, pd_sha256 = sha256, pd_size = size, pd_media = media', pd_file = file'\<rparr>)"

fun plan_artifacts :: "config \<Rightarrow> nat \<Rightarrow> string list \<Rightarrow> js list \<Rightarrow> artifact_plan list result" where
  "plan_artifacts cf i taken [] = Inr []"
| "plan_artifacts cf i taken (v # vs) =
     (let path = ''artifacts.'' @ nat_text i in
      rbind (own_data_record path [''slot'', ''data'', ''mediaType'', ''fileName''] v) (\<lambda>artifact.
      rbind (artifact_slot (path @ ''.slot'') False (fld artifact ''slot'')) (\<lambda>slot.
      if slot \<in> set taken then Inl (TypeError ''artifacts'')
      else
        (case fld artifact ''data'' of
           JBytes data \<Rightarrow>
             rbind (describe_slot cf slot data (fld artifact ''mediaType'') (fld artifact ''fileName'')) (\<lambda>d.
             rbind (plan_artifacts cf (i + 1) (slot # taken) vs) (\<lambda>plans. Inr (\<lparr>ap_data = data, ap_descriptor = d\<rparr> # plans)))
         | _ \<Rightarrow> Inl (TypeError (path @ ''.data''))))))"

text \<open>Publishing one artifact: before the call the descriptor counts as possibly published, when its
  slot was activated here; a failure abandons the publication and is thrown again.\<close>

definition publish_one ::
  "config \<Rightarrow> ensured_intent option \<Rightarrow> artifact_descriptor list \<Rightarrow> string \<Rightarrow> string \<Rightarrow> string option \<Rightarrow> artifact_descriptor \<Rightarrow>
   (artifact_ref \<times> artifact_descriptor list) prog" where
  "publish_one cf ensured published data media file d =
     (let published' = (case ensured of
            Some e \<Rightarrow> if pd_slot d \<in> set (ei_activated e) then published @ [d] else published
          | None \<Rightarrow> published) in
      pbind (pcatch (pbind (exec_put_artifact cf data media file) (\<lambda>ref. Return (Inr ref))) (\<lambda>e. Return (Inl e))) (\<lambda>r.
      case r of
        Inr ref \<Rightarrow> Return (ref, published')
      | Inl e \<Rightarrow>
          pbind (case ensured of None \<Rightarrow> Return () | Some en \<Rightarrow> best_effort_abandon cf en published') (\<lambda>_. Throw e)))"

primrec publish_plans ::
  "config \<Rightarrow> ensured_intent \<Rightarrow> artifact_descriptor list \<Rightarrow> artifact_plan list \<Rightarrow> (string \<times> artifact_ref) list prog" where
  "publish_plans cf ensured published [] = Return []"
| "publish_plans cf ensured published (p # ps) =
     pbind (publish_one cf (Some ensured) published (ap_data p) (pd_media (ap_descriptor p)) (pd_file (ap_descriptor p)) (ap_descriptor p)) (\<lambda>(ref, published').
     pbind (publish_plans cf ensured published' ps) (\<lambda>staged.
     Return ((pd_slot (ap_descriptor p), ref) # staged)))"

definition stage_run_artifacts :: "config \<Rightarrow> js \<Rightarrow> js \<Rightarrow> js \<Rightarrow> (string \<times> artifact_ref) list prog" where
  "stage_run_artifacts cf run_v request_v artifacts_v =
     pbind (lift (bounded_identifier ''runId'' run_v)) (\<lambda>run.
     pbind (lift (bounded_identifier ''requestId'' request_v)) (\<lambda>request.
     pbind (lift (dense_own_data_array ''artifacts'' run_artifact_max_items artifacts_v)) (\<lambda>raw.
     if raw = [] then Return []
     else
       pbind (lift (plan_artifacts cf 0 [] raw)) (\<lambda>plans.
       pbind (ensure_artifact_intent cf run request (map ap_descriptor plans)) (\<lambda>ensured.
       publish_plans cf ensured [] plans)))))"

section \<open>Reading runs\<close>

definition run_history_page_size :: nat where "run_history_page_size = 50"

definition read_cached_response :: "config \<Rightarrow> js \<Rightarrow> string prog" where
  "read_cached_response cf ref_v = pbind (lift (parse_artifact_ref ref_v)) (exec_read_artifact cf)"

record run_view =
  rv_summary :: run_summary
  rv_events :: "run_event list"
  rv_transcript :: "transcript_entry list"

definition revision_text :: "nat \<Rightarrow> string \<Rightarrow> string" where
  "revision_text revision sha256 = ''r'' @ nat_text revision @ '':'' @ sha256"

definition read_run_transcript :: "config \<Rightarrow> stored_run \<Rightarrow> transcript_entry list prog" where
  "read_run_transcript cf r =
     (case sr_transcript r of
        None \<Rightarrow> Return []
      | Some ref \<Rightarrow>
          pbind (exec_read_artifact cf ref) (\<lambda>encoded.
          pbind (lift (decode_canonical_transcript encoded (Some (rs_conv (sr_summary r))))) (\<lambda>t.
          if rs_revision (sr_summary r) \<noteq> Some (revision_text (ct_revision t) (ar_sha256 ref))
          then Throw (PlainError ''run transcript revision does not match its artifact'')
          else Return (ct_entries t))))"

definition read_run :: "config \<Rightarrow> js \<Rightarrow> run_view option prog" where
  "read_run cf run_v =
     pbind (lift (bounded_identifier ''runId'' run_v)) (\<lambda>run.
     pbind (lift (run_state_key (cf_sha cf) run)) (\<lambda>key.
     pbind (exec_read parse_stored_run key) (\<lambda>found.
     case found of
       None \<Rightarrow> Return None
     | Some stored \<Rightarrow>
         pbind (lift (retention_checkpoint_state_key (cf_sha cf) run)) (\<lambda>ckey.
         pbind (exec_read (parse_checkpoint (cf_sha cf)) ckey) (\<lambda>retention.
         if retention \<noteq> None then Return None
         else
           pbind (read_events cf (er_value stored)) (\<lambda>events.
           pbind (read_run_transcript cf (er_value stored)) (\<lambda>entries.
           Return (Some \<lparr>rv_summary = sr_summary (er_value stored), rv_events = events,
             rv_transcript = filter (\<lambda>e. ec_run (entry_common_of e) = run) entries\<rparr>))))))))"

primrec summaries_of :: "config \<Rightarrow> run_history exec_record list \<Rightarrow> run_summary list prog" where
  "summaries_of cf [] = Return []"
| "summaries_of cf (h # hs) =
     pbind (lift (retention_checkpoint_state_key (cf_sha cf) (rh_run (er_value h)))) (\<lambda>ckey.
     pbind (exec_read (parse_checkpoint (cf_sha cf)) ckey) (\<lambda>retention.
     if retention \<noteq> None then summaries_of cf hs
     else
       pbind (lift (run_state_key (cf_sha cf) (rh_run (er_value h)))) (\<lambda>key.
       pbind (exec_read parse_stored_run key) (\<lambda>found.
       case found of
         None \<Rightarrow> Throw (PlainError ''run history index points to missing or mismatched run state'')
       | Some stored \<Rightarrow>
           if rs_started (sr_summary (er_value stored)) \<noteq> rh_started (er_value h)
           then Throw (PlainError ''run history index points to missing or mismatched run state'')
           else pbind (summaries_of cf hs) (\<lambda>rest. Return (sr_summary (er_value stored) # rest))))))"

definition list_runs :: "config \<Rightarrow> string option \<Rightarrow> (run_summary list \<times> string option) prog" where
  "list_runs cf cursor =
     pbind (exec_scan prefix_history cursor run_history_page_size parse_run_history) (\<lambda>(records, next).
     pbind (summaries_of cf records) (\<lambda>runs. Return (runs, next)))"

end
