(* ===== verification/RunSettle.thy ===== *)
theory RunSettle
  imports RunJournal
begin

text \<open>
  Settlement of a run (\<^verbatim>\<open>settle\<close> of \<^verbatim>\<open>execution-journal-runs.ts\<close>): validation of the request, the
  checks against the run, its admission, the conversation and the provider session, publication of the
  transcript and the response, and one transaction that commits the run, its admission, its last event,
  the conversation, the session and the publication intent together.
\<close>

section \<open>The request\<close>

record settle_input =
  ri_run :: js
  ri_request :: js
  ri_status :: js
  ri_transcript :: js
  ri_response :: js
  ri_session :: "(js \<times> js) option"
  ri_eviction :: js
  ri_failure :: js

definition user_visible :: "run_status \<Rightarrow> bool" where
  "user_visible st \<longleftrightarrow> st = RunCompleted \<or> st = RunCancelled \<or> st = RunMaxTurns"

definition settle_checks :: "settle_input \<Rightarrow> (string \<times> string \<times> run_status \<times> string option) result" where
  "settle_checks input =
     rbind (bounded_identifier ''runId'' (ri_run input)) (\<lambda>run.
     rbind (bounded_identifier ''requestId'' (ri_request input)) (\<lambda>request.
     rbind (terminal_run_status ''status'' (ri_status input)) (\<lambda>status.
     rbind (opt_field (bounded_code ''failureCode'') (ri_failure input)) (\<lambda>failure.
     rbind (require ((status = RunFailed \<or> status = RunUncertain) = (failure \<noteq> None)) (TypeError ''failed and uncertain runs'')) (\<lambda>_.
     rbind (require (user_visible status = (ri_transcript input \<noteq> JUndef)) (TypeError ''user-visible settlement'')) (\<lambda>_.
     rbind (require (user_visible status = (ri_response input \<noteq> JUndef)) (TypeError ''user-visible settlement'')) (\<lambda>_.
     rbind (require (user_visible status \<or> ri_session input = None) (TypeError ''failed and uncertain runs'')) (\<lambda>_.
     rbind (require (user_visible status \<or> ri_eviction input = JUndef) (TypeError ''failed and uncertain runs'')) (\<lambda>_.
     rbind (require (ri_session input = None \<or> ri_eviction input = JUndef) (TypeError ''run settlement'')) (\<lambda>_.
     Inr (run, request, status, failure)))))))))))"

section \<open>What is read before anything is published\<close>

definition settle_admission :: "config \<Rightarrow> string \<Rightarrow> string \<Rightarrow> string \<Rightarrow> admission exec_record prog" where
  "settle_admission cf run request conv =
     pbind (lift (admission_state_key (cf_sha cf) request)) (\<lambda>akey.
     pbind (exec_read parse_admission akey) (\<lambda>found.
     case found of
       None \<Rightarrow> Throw (PlainError ''run admission identity is missing or mismatched'')
     | Some a \<Rightarrow>
         if ad_run (er_value a) \<noteq> run \<or> ad_conv (er_value a) \<noteq> conv
         then Throw (PlainError ''run admission identity is missing or mismatched'')
         else if ad_status (er_value a) \<noteq> AdmRunning
         then Throw (PlainError ''run admission is no longer settleable'')
         else Return a))"

record transcript_plan =
  tp_transcript :: canonical_transcript
  tp_bytes :: string
  tp_conversation :: "conversation exec_record option"
  tp_chunks :: "string exec_record list"

definition plan_transcript :: "config \<Rightarrow> string \<Rightarrow> js \<Rightarrow> transcript_plan prog" where
  "plan_transcript cf conv v =
     pbind (lift (parse_canonical_transcript v)) (\<lambda>t.
     if ct_conv t \<noteq> conv
     then Throw (TypeError ''settled transcript conversation identity does not match the run'')
     else
       pbind (lift (conversation_state_key (cf_sha cf) (ct_conv t))) (\<lambda>ckey.
       pbind (exec_read (parse_conversation (cf_sha cf)) ckey) (\<lambda>found.
       if ct_revision t \<noteq> (case found of None \<Rightarrow> 0 | Some c \<Rightarrow> cv_revision (er_value c)) + 1
       then Throw (PlainError ''settled transcript revision is not the next canonical revision'')
       else
         pbind (case found of
                  None \<Rightarrow> Return []
                | Some c \<Rightarrow>
                    pbind (load_conversation_transcript_state cf (er_value c)) (\<lambda>loaded.
                    if ct_revision (lt_transcript loaded) \<noteq> cv_revision (er_value c)
                       \<or> length (ct_entries (lt_transcript loaded)) \<noteq> cv_count (er_value c)
                    then Throw (PlainError ''canonical transcript pointer does not match its artifact'')
                    else
                      pbind (lift (assert_append_only (lt_transcript loaded) t)) (\<lambda>_.
                      Return (lt_chunks loaded)))) (\<lambda>chunks.
         pbind (lift (encode_canonical_transcript t)) (\<lambda>b.
         Return \<lparr>tp_transcript = t, tp_bytes = b, tp_conversation = found, tp_chunks = chunks\<rparr>)))))"

datatype session_plan =
    NoSession
  | StoreSession string "string option" provider_session
  | EvictSession string "string option"

definition plan_session_store :: "config \<Rightarrow> string \<Rightarrow> js \<Rightarrow> js \<Rightarrow> session_plan prog" where
  "plan_session_store cf conv value_v updated_v =
     pbind (lift (parse_runtime_session ''session.value'' value_v)) (\<lambda>session.
     if se_conv session \<noteq> conv
     then Throw (TypeError ''provider session conversation identity does not match the run'')
     else
       pbind (lift (canonical_timestamp ''session.updatedAt'' updated_v)) (\<lambda>updated.
       pbind (lift (session_state_key (cf_sha cf) (se_conv session) (rt_instance (se_route session)) (rt_model (se_route session)))) (\<lambda>key.
       pbind (exec_read parse_provider_session key) (\<lambda>found.
       if (case found of None \<Rightarrow> False | Some p \<Rightarrow>
             ps_conv (er_value p) \<noteq> se_conv session \<or> \<not> same_route (ps_route (er_value p)) (se_route session))
       then Throw (PlainError ''provider session key points to mismatched authority'')
       else
         Return (StoreSession key (map_option er_version found)
           \<lparr>ps_conv = se_conv session, ps_route = se_route session, ps_session = session, ps_updated = updated\<rparr>)))))"

definition plan_session_eviction :: "config \<Rightarrow> string \<Rightarrow> js \<Rightarrow> session_plan prog" where
  "plan_session_eviction cf conv route_v =
     pbind (lift (parse_route_identity route_v)) (\<lambda>route.
     pbind (lift (session_state_key (cf_sha cf) conv (rt_instance route) (rt_model route))) (\<lambda>key.
     pbind (exec_read parse_provider_session key) (\<lambda>found.
     if (case found of None \<Rightarrow> False | Some p \<Rightarrow>
           ps_conv (er_value p) \<noteq> conv \<or> \<not> same_route (ps_route (er_value p)) route)
     then Throw (PlainError ''provider session eviction key points to mismatched authority'')
     else Return (EvictSession key (map_option er_version found)))))"

definition plan_session :: "config \<Rightarrow> string \<Rightarrow> settle_input \<Rightarrow> session_plan prog" where
  "plan_session cf conv input =
     (case ri_session input of
        Some (value_v, updated_v) \<Rightarrow> plan_session_store cf conv value_v updated_v
      | None \<Rightarrow> if ri_eviction input \<noteq> JUndef then plan_session_eviction cf conv (ri_eviction input) else Return NoSession)"

definition response_bytes :: "js \<Rightarrow> string option result" where
  "response_bytes v =
     (case v of JUndef \<Rightarrow> Inr None | JBytes b \<Rightarrow> Inr (Some b) | _ \<Rightarrow> Inl (TypeError ''responseBytes must be bytes''))"

section \<open>Publication\<close>

definition transcript_media :: string where
  "transcript_media = ''application/vnd.mono-agent.transcript+json''"

definition response_media :: string where
  "response_media = ''application/vnd.mono-agent.response+json''"

definition opt_list :: "'a option \<Rightarrow> 'a list" where
  "opt_list x = (case x of None \<Rightarrow> [] | Some y \<Rightarrow> [y])"

definition slot_plan :: "config \<Rightarrow> string \<Rightarrow> string \<Rightarrow> string option \<Rightarrow> artifact_plan option result" where
  "slot_plan cf slot media data =
     (case data of
        None \<Rightarrow> Inr None
      | Some b \<Rightarrow> rbind (describe_slot cf slot b (JStr media) JUndef) (\<lambda>d. Inr (Some \<lparr>ap_data = b, ap_descriptor = d\<rparr>)))"

text \<open>The intent that covers the publication, or the one the run already has.\<close>

definition settlement_intent ::
  "config \<Rightarrow> string \<Rightarrow> string \<Rightarrow> artifact_descriptor list \<Rightarrow> (ensured_intent option \<times> publication_intent exec_record option) prog" where
  "settlement_intent cf run request descriptors =
     (if descriptors \<noteq> [] then
        pbind (ensure_artifact_intent cf run request descriptors) (\<lambda>e. Return (Some e, Some (ei_record e)))
      else
        pbind (lift (artifact_intent_state_key (cf_sha cf) run)) (\<lambda>ikey.
        pbind (exec_read parse_publication_intent ikey) (\<lambda>found.
        if (case found of None \<Rightarrow> False | Some p \<Rightarrow> pi_run (er_value p) \<noteq> run \<or> pi_request (er_value p) \<noteq> request)
        then Throw (PlainError ''artifact publication intent authority is mismatched'')
        else Return (None, found))))"

primrec read_all_artifacts :: "config \<Rightarrow> artifact_ref list \<Rightarrow> unit prog" where
  "read_all_artifacts cf [] = Return ()"
| "read_all_artifacts cf (r # rs) = pbind (exec_read_artifact cf r) (\<lambda>_. read_all_artifacts cf rs)"

definition check_staged ::
  "config \<Rightarrow> publication_intent exec_record option \<Rightarrow> transcript_plan option \<Rightarrow> unit prog" where
  "check_staged cf intent transcript =
     (case (intent, transcript) of
        (Some p, Some t) \<Rightarrow>
          pbind (lift (published_content_references (er_value p) (tp_transcript t))) (read_all_artifacts cf)
      | _ \<Rightarrow> Return ())"

definition publish_slot ::
  "config \<Rightarrow> ensured_intent option \<Rightarrow> artifact_descriptor list \<Rightarrow> string \<Rightarrow> artifact_plan option \<Rightarrow>
   (artifact_ref option \<times> artifact_descriptor list) prog" where
  "publish_slot cf ensured published media plan =
     (case plan of
        None \<Rightarrow> Return (None, published)
      | Some p \<Rightarrow>
          pbind (publish_one cf ensured published (ap_data p) media None (ap_descriptor p)) (\<lambda>(ref, published').
          Return (Some ref, published')))"

section \<open>The commit\<close>

definition settled_conversation :: "canonical_transcript \<Rightarrow> artifact_ref \<Rightarrow> conversation option \<Rightarrow> string \<Rightarrow> conversation" where
  "settled_conversation t ref previous now =
     \<lparr>cv_conv = ct_conv t, cv_revision = ct_revision t, cv_body = TranscriptRef ref, cv_count = length (ct_entries t),
      cv_created = (case previous of None \<Rightarrow> None | Some c \<Rightarrow> cv_created c), cv_updated = now,
      cv_title = (case previous of None \<Rightarrow> None | Some c \<Rightarrow> cv_title c),
      cv_metadata = (case previous of None \<Rightarrow> None | Some c \<Rightarrow> cv_metadata c)\<rparr>"

definition retained_cleanup :: "run_status \<Rightarrow> publication_intent exec_record option \<Rightarrow> artifact_descriptor list result" where
  "retained_cleanup status intent =
     (case intent of
        None \<Rightarrow> Inr []
      | Some p \<Rightarrow>
          if user_visible status then Inr (pi_cleanup (er_value p))
          else merge_descriptors (pi_cleanup (er_value p)) (pi_artifacts (er_value p)))"

text \<open>The intent left behind: only when something awaits cleanup.\<close>

definition retained_intent ::
  "publication_intent exec_record option \<Rightarrow> artifact_descriptor list \<Rightarrow> string \<Rightarrow>
   (publication_intent exec_record \<times> publication_intent) option" where
  "retained_intent intent cleanup now =
     (case intent of
        None \<Rightarrow> None
      | Some p \<Rightarrow>
          if cleanup = [] then None
          else Some (p, (er_value p)\<lparr>pi_artifacts := [], pi_cleanup := cleanup, pi_updated := now\<rparr>))"

definition settled_summary ::
  "run_summary \<Rightarrow> run_status \<Rightarrow> string \<Rightarrow> string option \<Rightarrow> string option \<Rightarrow> run_summary" where
  "settled_summary s status now revision failure =
     s\<lparr>rs_status := status, rs_updated := now, rs_ended := Some now,
       rs_revision := (case revision of None \<Rightarrow> rs_revision s | Some r \<Rightarrow> Some r),
       rs_failure := (case failure of None \<Rightarrow> rs_failure s | Some c \<Rightarrow> Some c)\<rparr>"

definition settled_admission :: "admission \<Rightarrow> run_status \<Rightarrow> string \<Rightarrow> artifact_ref option \<Rightarrow> admission" where
  "settled_admission a status now response =
     a\<lparr>ad_status := (if status = RunUncertain then AdmUncertain else AdmSettled), ad_updated := now, ad_lease := now,
       ad_settled := Some status, ad_response := (case response of None \<Rightarrow> ad_response a | Some r \<Rightarrow> Some r)\<rparr>"

definition conversation_put ::
  "config \<Rightarrow> transcript_plan option \<Rightarrow> artifact_ref option \<Rightarrow> string \<Rightarrow> (string \<times> string option \<times> js) list result" where
  "conversation_put cf transcript tref now =
     (case (transcript, tref) of
        (Some t, Some ref) \<Rightarrow>
          rbind (conversation_state_key (cf_sha cf) (ct_conv (tp_transcript t))) (\<lambda>ckey.
          Inr [(ckey, map_option er_version (tp_conversation t),
                encode_conversation (settled_conversation (tp_transcript t) ref (map_option er_value (tp_conversation t)) now))])
      | _ \<Rightarrow> Inr [])"

definition session_puts :: "session_plan \<Rightarrow> (string \<times> string option \<times> js) list" where
  "session_puts p = (case p of StoreSession key ev v \<Rightarrow> [(key, ev, encode_provider_session v)] | _ \<Rightarrow> [])"

definition session_deletes :: "session_plan \<Rightarrow> (string \<times> string option) list" where
  "session_deletes p = (case p of EvictSession key ev \<Rightarrow> [(key, ev)] | _ \<Rightarrow> [])"

record settlement_parts =
  sp_run_id :: string
  sp_status :: run_status
  sp_failure :: "string option"
  sp_run :: "stored_run exec_record"
  sp_admission :: "admission exec_record"
  sp_transcript :: "transcript_plan option"
  sp_session :: session_plan
  sp_intent :: "publication_intent exec_record option"
  sp_transcript_ref :: "artifact_ref option"
  sp_response_ref :: "artifact_ref option"

definition transcript_revision :: "settlement_parts \<Rightarrow> string option" where
  "transcript_revision p =
     (case (sp_transcript p, sp_transcript_ref p) of
        (Some t, Some ref) \<Rightarrow> Some (revision_text (ct_revision (tp_transcript t)) (ar_sha256 ref))
      | _ \<Rightarrow> None)"

definition intent_deletes ::
  "publication_intent exec_record option \<Rightarrow> (publication_intent exec_record \<times> publication_intent) option \<Rightarrow>
   (string \<times> string option) list" where
  "intent_deletes intent retained =
     (case (intent, retained) of (Some p, None) \<Rightarrow> [(er_key p, Some (er_version p))] | _ \<Rightarrow> [])"

definition intent_puts :: "(publication_intent exec_record \<times> publication_intent) option \<Rightarrow> (string \<times> string option \<times> js) list" where
  "intent_puts retained =
     (case retained of None \<Rightarrow> [] | Some (p, v) \<Rightarrow> [(er_key p, Some (er_version p), encode_publication_intent v)])"

definition chunk_deletes :: "transcript_plan option \<Rightarrow> (string \<times> string option) list" where
  "chunk_deletes transcript =
     (case transcript of None \<Rightarrow> [] | Some t \<Rightarrow> map (\<lambda>c. (er_key c, Some (er_version c))) (tp_chunks t))"

definition commit_settlement :: "config \<Rightarrow> settlement_parts \<Rightarrow> run_summary prog" where
  "commit_settlement cf p =
     (let r = er_value (sp_run p); s = sr_summary r; revision = transcript_revision p in
      pbind journal_now (\<lambda>now.
      pbind (lift (retained_cleanup (sp_status p) (sp_intent p))) (\<lambda>cleanup.
      let retained = retained_intent (sp_intent p) cleanup now in
      pbind (lift (freeze_summary (settled_summary s (sp_status p) now revision (sp_failure p)))) (\<lambda>summary.
      pbind (lift (next_event_count (sr_event_count r))) (\<lambda>count.
      pbind (lift (event_puts cf (settled_event (sp_run_id p) (sr_event_count r) now (sp_status p) revision (sp_failure p)))) (\<lambda>event.
      pbind (lift (conversation_put cf (sp_transcript p) (sp_transcript_ref p) now)) (\<lambda>conversation.
      pbind (exec_transaction
               \<lparr>xq_checks = [],
                xq_puts =
                  [run_put (sp_run p) (r\<lparr>sr_summary := summary, sr_event_count := count,
                     sr_transcript := (case sp_transcript_ref p of None \<Rightarrow> sr_transcript r | Some ref \<Rightarrow> Some ref)\<rparr>),
                   admission_put (sp_admission p)
                     (settled_admission (er_value (sp_admission p)) (sp_status p) now (sp_response_ref p))]
                  @ event @ conversation @ session_puts (sp_session p) @ intent_puts retained,
                xq_byte_puts = [],
                xq_deletes = intent_deletes (sp_intent p) retained @ session_deletes (sp_session p)
                  @ chunk_deletes (sp_transcript p)\<rparr>) (\<lambda>result.
      case result of
        TxConflict _ \<Rightarrow> Throw (PlainError ''run settlement lost an atomic state race'')
      | TxApplied _ _ \<Rightarrow>
          pbind (if retained = None then Return () else best_effort_reconcile cf (sp_run_id p)) (\<lambda>_.
          Return summary)))))))))"

section \<open>Settlement\<close>

definition settle_running ::
  "config \<Rightarrow> settle_input \<Rightarrow> string \<Rightarrow> string \<Rightarrow> run_status \<Rightarrow> string option \<Rightarrow> stored_run exec_record \<Rightarrow> run_summary prog" where
  "settle_running cf input run request status failure stored =
     (let s = sr_summary (er_value stored) in
      pbind (settle_admission cf run request (rs_conv s)) (\<lambda>adm.
      pbind (if ri_transcript input = JUndef then Return None
             else pbind (plan_transcript cf (rs_conv s) (ri_transcript input)) (\<lambda>t. Return (Some t))) (\<lambda>transcript.
      pbind (plan_session cf (rs_conv s) input) (\<lambda>session.
      pbind (lift (response_bytes (ri_response input))) (\<lambda>response.
      pbind (lift (slot_plan cf transcript_slot transcript_media (map_option tp_bytes transcript))) (\<lambda>tplan.
      pbind (lift (slot_plan cf response_slot response_media response)) (\<lambda>rplan.
      pbind (settlement_intent cf run request (map ap_descriptor (opt_list tplan @ opt_list rplan))) (\<lambda>(ensured, intent).
      pbind (check_staged cf intent transcript) (\<lambda>_.
      pbind (publish_slot cf ensured [] transcript_media tplan) (\<lambda>(tref, published).
      pbind (publish_slot cf ensured published response_media rplan) (\<lambda>(rref, _).
      commit_settlement cf
        \<lparr>sp_run_id = run, sp_status = status, sp_failure = failure, sp_run = stored, sp_admission = adm, sp_transcript = transcript,
         sp_session = session, sp_intent = intent, sp_transcript_ref = tref, sp_response_ref = rref\<rparr>)))))))))))"

text \<open>A run that is already terminal: the same outcome is answered again, any other is refused.\<close>

definition settle :: "config \<Rightarrow> settle_input \<Rightarrow> run_summary prog" where
  "settle cf input =
     pbind (lift (settle_checks input)) (\<lambda>(run, request, status, failure).
     pbind (lift (run_state_key (cf_sha cf) run)) (\<lambda>rkey.
     pbind (exec_read parse_stored_run rkey) (\<lambda>found.
     case found of
       None \<Rightarrow> Throw (PlainError (''run '' @ run @ '' does not exist''))
     | Some stored \<Rightarrow>
         (let s = sr_summary (er_value stored) in
          if rs_request s \<noteq> request then Throw (PlainError ''run request identity does not match'')
          else if rs_status s \<noteq> RunRunning then
            (if rs_status s = status \<and> rs_failure s = failure then Return s
             else Throw (PlainError ''terminal run settlement cannot be rewritten''))
          else settle_running cf input run request status failure stored))))"

end
