(* ===== verification/DeliveryJournal.thy ===== *)
theory DeliveryJournal
  imports JournalLogic
begin

text \<open>
  Outbound deliveries (\<^verbatim>\<open>execution-journal-delivery.ts\<close>): claiming an attempt with a lease,
  settling it, and the abstract machine of a receipt both refine: absent, intent, settled once; only a
  failed receipt is claimed again, with the next attempt number.
\<close>

section \<open>The abstract receipt\<close>

abbreviation receipt_at :: "snapshot \<Rightarrow> string \<Rightarrow> delivery cell" where
  "receipt_at \<equiv> cell_at parse_delivery"

definition same_identity :: "delivery \<Rightarrow> delivery \<Rightarrow> bool" where
  "same_identity d d' \<longleftrightarrow> de_key d' = de_key d \<and> de_fingerprint d' = de_fingerprint d \<and> de_channel d' = de_channel d
     \<and> de_run d' = de_run d \<and> de_created d' = de_created d"

text \<open>The machine. The last rule is the attempt counter running past what its reader accepts: the
  receipt can then no longer be read.\<close>

inductive receipt_step :: "delivery cell \<Rightarrow> delivery cell \<Rightarrow> bool" where
  receipt_claim: "de_status d = DelIntent \<Longrightarrow> de_attempts d = 1 \<Longrightarrow> receipt_step Absent (Holds d)"
| receipt_settle: "de_status d = DelIntent \<Longrightarrow> de_status d' \<noteq> DelIntent \<Longrightarrow> same_identity d d' \<Longrightarrow>
    de_attempts d' = de_attempts d \<Longrightarrow> de_token d' = de_token d \<Longrightarrow> receipt_step (Holds d) (Holds d')"
| receipt_retry: "de_status d = DelFailed \<Longrightarrow> de_status d' = DelIntent \<Longrightarrow> same_identity d d' \<Longrightarrow>
    de_attempts d' = de_attempts d + 1 \<Longrightarrow> receipt_step (Holds d) (Holds d')"
| receipt_overflow: "de_status d = DelFailed \<Longrightarrow> de_attempts d = max_delivery_attempts \<Longrightarrow> receipt_step (Holds d) Unreadable"

inductive_cases receipt_stepE: "receipt_step r r'"
inductive_simps receipt_step_simps [simp]:
  "receipt_step Absent r" "receipt_step (Holds d) r" "receipt_step Unreadable r"

definition attempts_of :: "delivery cell \<Rightarrow> nat" where
  "attempts_of r = (case r of Absent \<Rightarrow> 0 | Holds d \<Rightarrow> de_attempts d | Unreadable \<Rightarrow> max_delivery_attempts + 1)"

lemma attempts_simps [simp]:
  "attempts_of Absent = 0" "attempts_of (Holds d) = de_attempts d" "attempts_of Unreadable = max_delivery_attempts + 1"
  by (simp_all add: attempts_of_def)

abbreviation receipt_later :: "delivery cell \<Rightarrow> delivery cell \<Rightarrow> bool" where
  "receipt_later \<equiv> receipt_step\<^sup>*\<^sup>*"

lemma receipt_attempts_mono: "receipt_later r r' \<Longrightarrow> attempts_of r \<le> attempts_of r'"
  by (induction rule: rtranclp_induct) (auto elim!: receipt_stepE)

lemma receipt_identity:
  "receipt_later r r' \<Longrightarrow> r = Holds d \<Longrightarrow> r' = Unreadable \<or> (\<exists>d'. r' = Holds d' \<and> same_identity d d')"
  by (induction arbitrary: rule: rtranclp_induct) (auto elim!: receipt_stepE simp: same_identity_def)

lemma receipt_present: "receipt_later r r' \<Longrightarrow> r \<noteq> Absent \<Longrightarrow> r' \<noteq> Absent"
  by (induction rule: rtranclp_induct) (auto elim!: receipt_stepE)

lemma receipt_final:
  assumes "receipt_later (Holds d) r'" "de_status d = DelDelivered \<or> de_status d = DelUnknown"
  shows "r' = Holds d"
  using assms(1) by (induction rule: rtranclp_induct) (use assms(2) in \<open>auto elim!: receipt_stepE\<close>)

lemma receipt_corrupt: "receipt_later Unreadable r \<Longrightarrow> r = Unreadable"
  by (induction rule: rtranclp_induct) auto

lemma receipt_token:
  assumes "receipt_later (Holds d) (Holds d')" "de_attempts d' = de_attempts d"
  shows "de_token d' = de_token d \<and> (de_status d \<noteq> DelIntent \<longrightarrow> d' = d)"
proof -
  have "de_attempts d < attempts_of r \<or>
      (\<exists>e. r = Holds e \<and> de_attempts e = de_attempts d \<and> de_token e = de_token d \<and> (de_status d \<noteq> DelIntent \<longrightarrow> e = d))"
    if "receipt_later (Holds d) r" for r
    using that
  proof (induction rule: rtranclp_induct)
    case (step y z)
    then have "attempts_of y \<le> attempts_of z" by (intro receipt_attempts_mono) auto
    with step.IH step.hyps(2) show ?case by (auto elim!: receipt_stepE)
  qed simp
  from this [OF assms(1)] assms(2) show ?thesis by auto
qed

text \<open>Every delivery key moves along the machine.\<close>

definition receipts_evolve :: "snapshot \<Rightarrow> snapshot \<Rightarrow> bool" where
  "receipts_evolve s s' \<longleftrightarrow> (\<forall>k. in_family FamDelivery k \<longrightarrow> receipt_later (receipt_at s k) (receipt_at s' k))"

lemma receipts_evolve_refl [simp]: "receipts_evolve s s"
  by (simp add: receipts_evolve_def)

lemma receipts_evolve_trans: "receipts_evolve a b \<Longrightarrow> receipts_evolve b c \<Longrightarrow> receipts_evolve a c"
  unfolding receipts_evolve_def by (meson rtranclp_trans)

lemma receipts_frame: "(\<And>k. in_family FamDelivery k \<Longrightarrow> lookup s' k = lookup s k) \<Longrightarrow> receipts_evolve s s'"
  by (simp add: receipts_evolve_def cell_at_def)

section \<open>Operations\<close>

record delivery_input =
  di_key :: js
  di_fingerprint :: js
  di_channel :: js
  di_run :: js

datatype settlement = AsDelivered | AsFailed | AsUnknown

fun settlement_status :: "settlement \<Rightarrow> delivery_status" where
  "settlement_status AsDelivered = DelDelivered"
| "settlement_status AsFailed = DelFailed"
| "settlement_status AsUnknown = DelUnknown"

record settlement_input =
  si_key :: js
  si_fingerprint :: js
  si_attempt :: js
  si_token :: js
  si_status :: settlement
  si_message :: js
  si_code :: js

datatype delivery_answer =
    DeliverySend nat string
  | DeliveryJoin
  | DeliveryDuplicate "string option"
  | DeliveryUnknown "string option"
  | DeliveryConflict

definition delivery_token :: "string prog" where
  "delivery_token = pbind (GenerateCall DeliveryTokenGenerator Return) (\<lambda>v. lift (bounded_identifier ''delivery attempt token'' v))"

text \<open>The record literals: a receipt of a given identity in a given state, without history.\<close>

definition intent_record :: "delivery \<Rightarrow> nat \<Rightarrow> string \<Rightarrow> string \<Rightarrow> string \<Rightarrow> delivery" where
  "intent_record d attempts token now lease =
     d\<lparr>de_status := DelIntent, de_attempts := attempts, de_token := token, de_updated := now, de_lease := Some lease,
       de_message := None, de_code := None, de_history_entry := None, de_history_conv := None,
       de_history_fingerprint := None, de_history_digest := None\<rparr>"

definition settled_record :: "delivery \<Rightarrow> delivery_status \<Rightarrow> string \<Rightarrow> string option \<Rightarrow> string option \<Rightarrow> delivery" where
  "settled_record d status now message code =
     d\<lparr>de_status := status, de_updated := now, de_lease := None, de_message := message, de_code := code,
       de_history_entry := None, de_history_conv := None, de_history_fingerprint := None, de_history_digest := None\<rparr>"

definition new_delivery :: "string \<Rightarrow> string \<Rightarrow> string \<Rightarrow> string option \<Rightarrow> string \<Rightarrow> string \<Rightarrow> string \<Rightarrow> delivery" where
  "new_delivery key fingerprint channel run token now lease =
     \<lparr>de_key = key, de_fingerprint = fingerprint, de_channel = channel, de_run = run, de_status = DelIntent,
      de_attempts = 1, de_token = token, de_created = now, de_updated = now, de_lease = Some lease, de_message = None,
      de_code = None, de_history_entry = None, de_history_conv = None, de_history_fingerprint = None,
      de_history_digest = None\<rparr>"

text \<open>The branches of \<^verbatim>\<open>prepareDelivery\<close>; \<open>again\<close> is the next turn of its loop.\<close>

definition claim_absent ::
  "config \<Rightarrow> string \<Rightarrow> string \<Rightarrow> string \<Rightarrow> string \<Rightarrow> string option \<Rightarrow> delivery_answer prog \<Rightarrow> delivery_answer prog" where
  "claim_absent cf key ident fingerprint channel run again =
     pbind journal_now (\<lambda>now.
     pbind delivery_token (\<lambda>token.
     pbind (lift (add_milliseconds now (cf_stale cf))) (\<lambda>lease.
     pbind (exec_transaction (put_request key None
              (encode_delivery (new_delivery ident fingerprint channel run token now lease)))) (\<lambda>created.
     case created of
       TxApplied _ _ \<Rightarrow> Return (DeliverySend 1 token)
     | TxConflict _ \<Rightarrow> again))))"

definition expire_intent :: "string \<Rightarrow> delivery exec_record \<Rightarrow> delivery_answer prog \<Rightarrow> delivery_answer prog" where
  "expire_intent key existing again =
     pbind (is_expired (de_lease (er_value existing))) (\<lambda>expired.
     if \<not> expired then Return DeliveryJoin
     else
       pbind journal_now (\<lambda>now.
       pbind (exec_transaction (put_request key (Some (er_version existing))
                (encode_delivery (settled_record (er_value existing) DelUnknown now None (Some ''stale-delivery-intent''))))) (\<lambda>settled.
       case settled of
         TxApplied _ _ \<Rightarrow> Return (DeliveryUnknown (Some ''stale-delivery-intent''))
       | TxConflict _ \<Rightarrow> again)))"

definition retry_failed :: "config \<Rightarrow> string \<Rightarrow> delivery exec_record \<Rightarrow> delivery_answer prog \<Rightarrow> delivery_answer prog" where
  "retry_failed cf key existing again =
     pbind journal_now (\<lambda>now.
     pbind delivery_token (\<lambda>token.
     pbind (lift (add_milliseconds now (cf_stale cf))) (\<lambda>lease.
     pbind (exec_transaction (put_request key (Some (er_version existing))
              (encode_delivery (intent_record (er_value existing) (de_attempts (er_value existing) + 1) token now lease)))) (\<lambda>retried.
     case retried of
       TxApplied _ _ \<Rightarrow> Return (DeliverySend (de_attempts (er_value existing) + 1) token)
     | TxConflict _ \<Rightarrow> again))))"

definition prepare_existing ::
  "config \<Rightarrow> string \<Rightarrow> string \<Rightarrow> string \<Rightarrow> string \<Rightarrow> string option \<Rightarrow> delivery exec_record \<Rightarrow> delivery_answer prog \<Rightarrow> delivery_answer prog" where
  "prepare_existing cf key ident fingerprint channel run existing again =
     (let d = er_value existing in
      pbind (lift (assert_delivery_key_authority d ident)) (\<lambda>_.
      if de_fingerprint d \<noteq> fingerprint \<or> de_channel d \<noteq> channel \<or> de_run d \<noteq> run then Return DeliveryConflict
      else if de_status d = DelDelivered then Return (DeliveryDuplicate (de_message d))
      else if de_status d = DelUnknown then Return (DeliveryUnknown (de_code d))
      else if de_status d = DelIntent then expire_intent key existing again
      else retry_failed cf key existing again))"

primrec prepare_loop ::
  "nat \<Rightarrow> config \<Rightarrow> string \<Rightarrow> string \<Rightarrow> string \<Rightarrow> string \<Rightarrow> string option \<Rightarrow> delivery_answer prog" where
  "prepare_loop 0 cf key ident fingerprint channel run =
     Throw (PlainError ''delivery intent did not converge after contention'')"
| "prepare_loop (Suc n) cf key ident fingerprint channel run =
     pbind (exec_read parse_delivery key) (\<lambda>found.
     case found of
       None \<Rightarrow> claim_absent cf key ident fingerprint channel run (prepare_loop n cf key ident fingerprint channel run)
     | Some existing \<Rightarrow>
         prepare_existing cf key ident fingerprint channel run existing (prepare_loop n cf key ident fingerprint channel run))"

definition delivery_retries :: nat where "delivery_retries = 3"

definition prepare_delivery :: "config \<Rightarrow> delivery_input \<Rightarrow> delivery_answer prog" where
  "prepare_delivery cf input =
     pbind (lift (bounded_identifier ''idempotencyKey'' (di_key input))) (\<lambda>ident.
     pbind (lift (parse_fingerprint ''fingerprint'' (di_fingerprint input))) (\<lambda>fingerprint.
     pbind (lift (bounded_identifier ''channelInstanceId'' (di_channel input))) (\<lambda>channel.
     pbind (lift (opt_field (bounded_identifier ''runId'') (di_run input))) (\<lambda>run.
     pbind (lift (delivery_state_key (cf_sha cf) ident)) (\<lambda>key.
     prepare_loop delivery_retries cf key ident fingerprint channel run)))))"

definition settle_active :: "string \<Rightarrow> delivery exec_record \<Rightarrow> settlement_input \<Rightarrow> delivery_answer prog" where
  "settle_active key existing input =
     (let d = er_value existing; status = settlement_status (si_status input) in
      pbind (lift (opt_field (bounded_identifier ''messageId'') (si_message input))) (\<lambda>message.
      pbind (lift (opt_field (bounded_code ''code'') (si_code input))) (\<lambda>code.
      pbind (lift (require (\<not> (status = DelDelivered \<and> code \<noteq> None)) (TypeError ''delivered receipts''))) (\<lambda>_.
      pbind (lift (require (\<not> (status \<noteq> DelDelivered \<and> code = None)) (TypeError ''failed and unknown delivery receipts''))) (\<lambda>_.
      pbind (lift (require (\<not> (status \<noteq> DelDelivered \<and> message \<noteq> None)) (TypeError ''non-delivered receipts''))) (\<lambda>_.
      pbind journal_now (\<lambda>now.
      pbind (exec_transaction (put_request key (Some (er_version existing))
               (encode_delivery (settled_record d status now message code)))) (\<lambda>result.
      case result of
        TxApplied _ _ \<Rightarrow>
          Return (if status = DelDelivered then DeliveryDuplicate message
                  else if status = DelUnknown then DeliveryUnknown code
                  else DeliveryJoin)
      | TxConflict _ \<Rightarrow> Throw (PlainError ''delivery settlement lost an atomic state race'')))))))))"

definition settle_found ::
  "string \<Rightarrow> string \<Rightarrow> string \<Rightarrow> nat \<Rightarrow> string \<Rightarrow> settlement_input \<Rightarrow> delivery exec_record option \<Rightarrow> delivery_answer prog" where
  "settle_found key ident fingerprint attempt token input found =
     (case found of
        None \<Rightarrow> Throw (PlainError ''delivery intent does not exist'')
      | Some existing \<Rightarrow>
          (let d = er_value existing in
           pbind (lift (assert_delivery_key_authority d ident)) (\<lambda>_.
           if de_fingerprint d \<noteq> fingerprint then Return DeliveryConflict
           else if de_attempts d \<noteq> attempt \<or> de_token d \<noteq> token then Return DeliveryConflict
           else if de_status d = DelDelivered then Return (DeliveryDuplicate (de_message d))
           else if de_status d = DelUnknown then Return (DeliveryUnknown (de_code d))
           else if de_status d \<noteq> DelIntent then
             (if si_status input = AsFailed then Return DeliveryJoin
              else Throw (PlainError ''only an active delivery intent can settle''))
           else settle_active key existing input)))"

definition settle_delivery :: "config \<Rightarrow> settlement_input \<Rightarrow> delivery_answer prog" where
  "settle_delivery cf input =
     pbind (lift (bounded_identifier ''idempotencyKey'' (si_key input))) (\<lambda>ident.
     pbind (lift (parse_fingerprint ''fingerprint'' (si_fingerprint input))) (\<lambda>fingerprint.
     pbind (lift (bounded_integer ''attempt'' 1 max_delivery_attempts (si_attempt input))) (\<lambda>attempt.
     pbind (lift (bounded_identifier ''delivery attempt token'' (si_token input))) (\<lambda>token.
     pbind (lift (delivery_state_key (cf_sha cf) ident)) (\<lambda>key.
     pbind (exec_read parse_delivery key) (settle_found key ident fingerprint attempt token input))))))"

section \<open>Refinement\<close>

text \<open>What a delivery call may do: one key, one step of its receipt; an answer \<open>send n\<close> comes with
  the step that raises the attempt counter to \<open>n\<close>. An attempt is only recorded as failed when it is
  one of \<open>fa\<close>, the attempts the call was asked to fail.\<close>

definition failed_attempt :: "delivery cell \<Rightarrow> nat \<Rightarrow> bool" where
  "failed_attempt r n \<longleftrightarrow> (\<exists>d. r = Holds d \<and> de_status d = DelFailed \<and> de_attempts d = n)"

lemma failed_attempt_simps [simp]:
  "\<not> failed_attempt Absent n" "\<not> failed_attempt Unreadable n"
  "failed_attempt (Holds d) n \<longleftrightarrow> de_status d = DelFailed \<and> de_attempts d = n"
  by (auto simp: failed_attempt_def)

definition delivery_commit :: "nat set \<Rightarrow> string \<Rightarrow> snapshot \<Rightarrow> delivery_answer prog \<Rightarrow> snapshot \<Rightarrow> bool" where
  "delivery_commit fa key s p s' \<longleftrightarrow>
     (\<forall>j. j \<noteq> key \<longrightarrow> lookup s' j = lookup s j)
     \<and> (receipt_at s' key = receipt_at s key \<or> receipt_step (receipt_at s key) (receipt_at s' key))
     \<and> (\<forall>n t. p = Return (DeliverySend n t) \<longrightarrow> attempts_of (receipt_at s key) < n \<and> attempts_of (receipt_at s' key) = n)
     \<and> (\<forall>n. failed_attempt (receipt_at s' key) n \<longrightarrow> receipt_at s' key = receipt_at s key \<or> n \<in> fa)"

text \<open>What an answer says about the receipt, from then on.\<close>

fun delivery_answered :: "string \<Rightarrow> delivery_answer \<Rightarrow> snapshot \<Rightarrow> bool" where
  "delivery_answered key (DeliverySend n token) s =
     (1 \<le> n \<and> n \<le> attempts_of (receipt_at s key)
      \<and> (\<forall>d. receipt_at s key = Holds d \<longrightarrow> de_attempts d = n \<longrightarrow> de_token d = token))"
| "delivery_answered key (DeliveryDuplicate m) s =
     (\<exists>d. receipt_at s key = Holds d \<and> de_status d = DelDelivered \<and> de_message d = m)"
| "delivery_answered key (DeliveryUnknown c) s =
     (\<exists>d. receipt_at s key = Holds d \<and> de_status d = DelUnknown \<and> de_code d = c)"
| "delivery_answered key DeliveryJoin s = (receipt_at s key \<noteq> Absent)"
| "delivery_answered key DeliveryConflict s = (receipt_at s key \<noteq> Absent)"

definition clock_ok :: "int \<Rightarrow> bool" where
  "clock_ok t \<longleftrightarrow> four_digit_year t \<and> four_digit_year (t + 86400000)"

definition delivery_setting :: "setting \<Rightarrow> bool" where
  "delivery_setting E \<longleftrightarrow> transp (se_rely E) \<and> (\<forall>s s'. se_rely E s s' \<longrightarrow> receipts_evolve s s')
     \<and> (\<forall>t. se_clock E t \<longrightarrow> clock_ok t)"

lemma receipt_rely:
  "delivery_setting E \<Longrightarrow> interf E s s' \<Longrightarrow> in_family FamDelivery k \<Longrightarrow> receipt_later (receipt_at s k) (receipt_at s' k)"
  by (simp add: delivery_setting_def interf_def receipts_evolve_def)

lemma delivery_answered_later:
  "delivery_answered key a s \<Longrightarrow> receipt_later (receipt_at s key) (receipt_at s' key) \<Longrightarrow> delivery_answered key a s'"
proof (induction key a s rule: delivery_answered.induct)
  case (1 key n token s)
  have m: "attempts_of (receipt_at s key) \<le> attempts_of (receipt_at s' key)"
    using 1(2) by (rule receipt_attempts_mono)
  have "de_token d' = token" if d': "receipt_at s' key = Holds d'" "de_attempts d' = n" for d'
  proof (cases "receipt_at s key")
    case (Holds d)
    then have "de_attempts d' = de_attempts d" using m 1(1) d' by simp
    with receipt_token [of d d'] 1 d' Holds show ?thesis by simp
  next
    case Unreadable
    with receipt_corrupt [of "Holds d'"] 1(2) d' show ?thesis by simp
  qed (use 1 in auto)
  with m 1(1) show ?case by simp
next
  case (2 key m s)
  then obtain d where d: "receipt_at s key = Holds d" "de_status d = DelDelivered" "de_message d = m" by auto
  with 2(2) have "receipt_at s' key = Holds d" by (intro receipt_final) simp_all
  with d show ?case by simp
next
  case (3 key c s)
  then obtain d where d: "receipt_at s key = Holds d" "de_status d = DelUnknown" "de_code d = c" by auto
  with 3(2) have "receipt_at s' key = Holds d" by (intro receipt_final) simp_all
  with d show ?case by simp
next
  case (4 key s)
  from receipt_present [OF 4(2)] 4(1) show ?case by simp
next
  case (5 key s)
  from receipt_present [OF 5(2)] 5(1) show ?case by simp
qed

lemma delivery_stable:
  assumes "delivery_setting E" "in_family FamDelivery key"
  shows "stable E (delivery_answered key)"
  using assms by (auto intro!: stableI intro: delivery_answered_later simp: delivery_setting_def interf_def receipts_evolve_def)

lemma add_ms_ok:
  "clock_ok t \<Longrightarrow> ms \<le> 86400000 \<Longrightarrow> add_milliseconds (to_iso t) ms = Inr l \<Longrightarrow> canonical_ts l"
  by (auto simp: clock_ok_def add_milliseconds_def timestamp_ms_def rbind_Inr_iff canonical_timestamp_def date_ms_to_iso
      four_digit_year_def split: if_splits)

text \<open>A receipt whose counter has passed its bound can be written, but not read.\<close>

lemma parse_delivery_attempts:
  assumes "parse_delivery (JObj fs) = Inr d"
  shows "fld fs ''attempts'' = JNum (int (de_attempts d)) \<and> de_attempts d \<le> max_delivery_attempts"
  using assms unfolding parse_delivery_def Let_def
  by (elim rbind_InrE, simp only: require_Inr sum.inject, hypsubst) (simp add: parse_iffs)

lemma overflow_unread:
  assumes "encode_execution_record (encode_delivery d) = Inr b" "map_option sv_value (lookup s k) = Some b"
    and "max_delivery_attempts < de_attempts d" "json_ok (encode_delivery d)"
  shows "receipt_at s k = Unreadable"
proof -
  obtain fs where fs: "encode_delivery d = JObj fs" "fld fs ''attempts'' = JNum (int (de_attempts d))"
    unfolding encode_delivery_def by (simp add: parse_evals)
  have "parse_delivery (encode_delivery d) \<noteq> Inr x" for x
    using assms(3) parse_delivery_attempts [of fs x] fs by auto
  then have "\<exists>e. decode_record parse_delivery b = Inl e"
    using decode_encode_execution [OF assms(1,4)] by (cases "parse_delivery (encode_delivery d)") (auto simp: decode_record_def)
  then show ?thesis using assms(2) by (auto simp: cell_at_def)
qed

lemma new_delivery_wf:
  "ident_ok key \<Longrightarrow> fingerprint_ok fp \<Longrightarrow> ident_ok channel \<Longrightarrow> opt_ok ident_ok run \<Longrightarrow> ident_ok token \<Longrightarrow> canonical_ts now \<Longrightarrow>
   canonical_ts lease \<Longrightarrow> wf_delivery (new_delivery key fp channel run token now lease)"
  by (simp add: wf_delivery_def new_delivery_def history_count_def present_def max_delivery_attempts_def)

lemma settled_record_wf:
  "wf_delivery d \<Longrightarrow> canonical_ts now \<Longrightarrow> status \<noteq> DelIntent \<Longrightarrow> opt_ok ident_ok message \<Longrightarrow> opt_ok code_ok code \<Longrightarrow>
   (status = DelDelivered) = (code = None) \<Longrightarrow> (status = DelDelivered \<or> message = None) \<Longrightarrow>
   wf_delivery (settled_record d status now message code)"
  by (cases status) (auto simp: wf_delivery_def settled_record_def history_count_def present_def)

lemma intent_record_wf:
  "wf_delivery d \<Longrightarrow> canonical_ts now \<Longrightarrow> canonical_ts lease \<Longrightarrow> ident_ok token \<Longrightarrow> 1 \<le> n \<Longrightarrow> n \<le> max_delivery_attempts \<Longrightarrow>
   wf_delivery (intent_record d n token now lease)"
  by (auto simp: wf_delivery_def intent_record_def history_count_def present_def)

lemma intent_record_json:
  "wf_delivery d \<Longrightarrow> n \<le> max_delivery_attempts + 1 \<Longrightarrow> json_ok (encode_delivery (intent_record d n token now lease))"
  by (auto simp: encode_delivery_def intent_record_def wf_delivery_def max_safe_integer_def max_delivery_attempts_def)

lemma record_fields [simp]:
  "de_status (settled_record d st now m c) = st" "de_attempts (settled_record d st now m c) = de_attempts d"
  "de_token (settled_record d st now m c) = de_token d" "same_identity d (settled_record d st now m c)"
  "de_message (settled_record d st now m c) = m" "de_code (settled_record d st now m c) = c"
  "de_status (intent_record d n t now l) = DelIntent" "de_attempts (intent_record d n t now l) = n"
  "de_token (intent_record d n t now l) = t" "same_identity d (intent_record d n t now l)"
  "de_status (new_delivery i f ch r t now l) = DelIntent" "de_attempts (new_delivery i f ch r t now l) = 1"
  "de_token (new_delivery i f ch r t now l) = t"
  by (simp_all add: settled_record_def intent_record_def new_delivery_def same_identity_def)

section \<open>The operations refine the machine\<close>

lemma delivery_commit_same: "(\<And>n t. p \<noteq> Return (DeliverySend n t)) \<Longrightarrow> delivery_commit fa key s p s"
  by (simp add: delivery_commit_def)

lemma wp_token:
  assumes "\<And>t s'. ident_ok t \<Longrightarrow> interf E s s' \<Longrightarrow> wp E G Q (k t) s'"
  shows "wp E G Q (pbind delivery_token k) s"
  unfolding delivery_token_def pbind_assoc pbind.simps
  by (intro wp_generate [unfolded pbind.simps] wp_lift) (auto simp: parse_iffs intro: assms)

text \<open>The three commits of a delivery.\<close>

lemma claim_commit:
  assumes "encode_execution_record (encode_delivery (new_delivery i f ch r t now l)) = Inr b" "version_at s1 key = None"
    "map_option sv_value (lookup s2 key) = Some b" "\<And>j. j \<noteq> key \<Longrightarrow> lookup s2 j = lookup s1 j"
    "wf_delivery (new_delivery i f ch r t now l)"
  shows "delivery_commit fa key s1 (Return (DeliverySend 1 t)) s2 \<and> delivery_answered key (DeliverySend 1 t) s2"
proof -
  have "receipt_at s1 key = Absent" using assms(2) by (simp add: cell_at_def absent)
  moreover have "receipt_at s2 key = Holds (new_delivery i f ch r t now l)" by (rule delivery_codec.cell_written [OF assms(1,3,5)])
  ultimately show ?thesis using assms(4) by (simp add: delivery_commit_def)
qed

lemma settle_commit:
  assumes "encode_execution_record (encode_delivery (settled_record d st now m c)) = Inr b" "receipt_at s1 key = Holds d"
    "map_option sv_value (lookup s2 key) = Some b" "\<And>j. j \<noteq> key \<Longrightarrow> lookup s2 j = lookup s1 j"
    "wf_delivery (settled_record d st now m c)" "de_status d = DelIntent" "st \<noteq> DelIntent" "st = DelFailed \<Longrightarrow> de_attempts d \<in> fa"
  shows "(\<And>n t. p \<noteq> Return (DeliverySend n t)) \<Longrightarrow> delivery_commit fa key s1 p s2"
    "receipt_at s2 key = Holds (settled_record d st now m c)"
  using assms(2,4,6,7,8) delivery_codec.cell_written [OF assms(1,3,5)] by (simp_all add: delivery_commit_def)

lemma retry_commit:
  assumes "encode_execution_record (encode_delivery (intent_record d (de_attempts d + 1) t now l)) = Inr b"
    "receipt_at s1 key = Holds d" "map_option sv_value (lookup s2 key) = Some b" "\<And>j. j \<noteq> key \<Longrightarrow> lookup s2 j = lookup s1 j"
    "wf_delivery d" "de_status d = DelFailed" "canonical_ts now" "canonical_ts l" "ident_ok t"
  shows "delivery_commit fa key s1 (Return (DeliverySend (de_attempts d + 1) t)) s2 \<and> delivery_answered key (DeliverySend (de_attempts d + 1) t) s2"
proof (cases "de_attempts d = max_delivery_attempts")
  case True
  have "receipt_at s2 key = Unreadable"
    by (rule overflow_unread [OF assms(1,3)]) (use True assms(5) in \<open>auto intro: intent_record_json\<close>)
  then show ?thesis using assms(2,4,6) True by (simp add: delivery_commit_def)
next
  case False
  then have "de_attempts d + 1 \<le> max_delivery_attempts" using assms(5) by (simp add: wf_delivery_def)
  then have "receipt_at s2 key = Holds (intent_record d (de_attempts d + 1) t now l)"
    by (intro delivery_codec.cell_written [OF assms(1,3)] intent_record_wf) (use assms in auto)
  then show ?thesis using assms(2,4,6) by (simp add: delivery_commit_def)
qed

lemma clock_canonical: "delivery_setting E \<Longrightarrow> se_clock E t \<Longrightarrow> clock_ok t \<and> canonical_ts (to_iso t)"
  by (auto simp: delivery_setting_def clock_ok_def)

lemma wp_receipt_put:
  assumes again: "\<And>s. wp E (delivery_commit fa key) (delivery_answered key) again s" "\<And>n t. again \<noteq> Return (DeliverySend n t)"
    and applied: "\<And>b s1 s2. interf E s s1 \<Longrightarrow> encode_execution_record v = Inr b \<Longrightarrow> version_at s1 key = ev \<Longrightarrow>
      map_option sv_value (lookup s2 key) = Some b \<Longrightarrow> (\<And>j. j \<noteq> key \<Longrightarrow> lookup s2 j = lookup s1 j) \<Longrightarrow>
      delivery_commit fa key s1 (Return a) s2 \<and> delivery_answered key a s2"
  shows "wp E (delivery_commit fa key) (delivery_answered key)
    (pbind (exec_transaction (put_request key ev v)) (\<lambda>r. case r of TxApplied x y \<Rightarrow> Return a | TxConflict z \<Rightarrow> again)) s"
proof (rule wp_put)
  show "delivery_commit fa key s1 (Throw e) s1" for e s1 by (simp add: delivery_commit_same)
  show "delivery_commit fa key s1 (case TxConflict cs of TxApplied x y \<Rightarrow> Return a | TxConflict z \<Rightarrow> again) s1 \<and>
      wp E (delivery_commit fa key) (delivery_answered key) (case TxConflict cs of TxApplied x y \<Rightarrow> Return a | TxConflict z \<Rightarrow> again) s1" for cs s1
    using again by (simp add: delivery_commit_same)
qed (simp only: tx_result.case wp.simps, rule applied)

lemma claim_absent_wp:
  assumes E: "delivery_setting E" and st: "cf_stale cf \<le> 86400000"
    and ids: "ident_ok ident" "fingerprint_ok fp" "ident_ok ch" "opt_ok ident_ok run"
    and again: "\<And>s. wp E (delivery_commit fa key) (delivery_answered key) again s" "\<And>n t. again \<noteq> Return (DeliverySend n t)"
  shows "wp E (delivery_commit fa key) (delivery_answered key) (claim_absent cf key ident fp ch run again) s"
  unfolding claim_absent_def
proof (intro wp_now wp_token wp_lift wp_receipt_put again)
  fix t s1 token s2 lease b s3 s4
  assume t: "se_clock E t" and token: "ident_ok token" and l: "add_milliseconds (to_iso t) (cf_stale cf) = Inr lease"
    and c: "encode_execution_record (encode_delivery (new_delivery ident fp ch run token (to_iso t) lease)) = Inr b"
      "version_at s3 key = None" "map_option sv_value (lookup s4 key) = Some b" "\<And>j. j \<noteq> key \<Longrightarrow> lookup s4 j = lookup s3 j"
  have "wf_delivery (new_delivery ident fp ch run token (to_iso t) lease)"
    by (rule new_delivery_wf [OF ids token]) (use clock_canonical [OF E t] add_ms_ok [OF _ st l] in auto)
  from claim_commit [OF c this] show "delivery_commit fa key s3 (Return (DeliverySend 1 token)) s4 \<and> delivery_answered key (DeliverySend 1 token) s4" .
qed

lemma expire_intent_wp:
  assumes E: "delivery_setting E"
    and r: "lookup s key = Some r" "decode_record parse_delivery (sv_value r) = Inr d" "snapshot_wf (se_limits E) s"
    and d: "de_status d = DelIntent"
    and again: "\<And>s. wp E (delivery_commit fa key) (delivery_answered key) again s" "\<And>n t. again \<noteq> Return (DeliverySend n t)"
    and fam: "in_family FamDelivery key"
  shows "wp E (delivery_commit fa key) (delivery_answered key) (expire_intent key (seen key r d) again) s"
proof -
  have at: "receipt_at s key = Holds d" and wf: "wf_delivery d" using delivery_codec.cell_seen [OF r(1,2)] by auto
  have settle: "wp E (delivery_commit fa key) (delivery_answered key)
      (pbind journal_now (\<lambda>now.
       pbind (exec_transaction (put_request key (Some (sv_version r))
                (encode_delivery (settled_record d DelUnknown now None (Some ''stale-delivery-intent''))))) (\<lambda>settled.
       case settled of
         TxApplied _ _ \<Rightarrow> Return (DeliveryUnknown (Some ''stale-delivery-intent''))
       | TxConflict _ \<Rightarrow> again))) s'" if s': "s' = s \<or> interf E s s'" for s'
  proof (intro wp_now wp_receipt_put again)
    fix t s1 b s3 s4
    assume t: "se_clock E t" and i: "interf E s' s1" "interf E s1 s3"
      and c: "encode_execution_record (encode_delivery (settled_record d DelUnknown (to_iso t) None (Some ''stale-delivery-intent''))) = Inr b"
        "version_at s3 key = Some (sv_version r)" "map_option sv_value (lookup s4 key) = Some b" "\<And>j. j \<noteq> key \<Longrightarrow> lookup s4 j = lookup s3 j"
    have "evolves s s3" using i s' by (auto dest!: interfD intro: evolves_trans)
    then have at3: "receipt_at s3 key = Holds d" using cell_pinned [OF r] c(2) by blast
    have "code_ok ''stale-delivery-intent''" by code_simp
    then have "wf_delivery (settled_record d DelUnknown (to_iso t) None (Some ''stale-delivery-intent''))"
      by (intro settled_record_wf wf) (use clock_canonical [OF E t] in \<open>auto simp: opt_ok_def\<close>)
    from settle_commit [OF c(1) at3 c(3,4) this d] show "delivery_commit fa key s3 (Return (DeliveryUnknown (Some ''stale-delivery-intent''))) s4
        \<and> delivery_answered key (DeliveryUnknown (Some ''stale-delivery-intent'')) s4"
      by simp
  qed
  have join: "delivery_answered key DeliveryJoin s'" if "interf E s s'" for s'
    using receipt_present [OF receipt_rely [OF E that fam]] at by simp
  show ?thesis
    unfolding expire_intent_def seen_simps
    by (rule wp_expired) (use settle join in \<open>auto simp del: delivery_answered.simps\<close>)
qed

lemma retry_failed_wp:
  assumes E: "delivery_setting E" and st: "cf_stale cf \<le> 86400000"
    and r: "lookup s key = Some r" "decode_record parse_delivery (sv_value r) = Inr d" "snapshot_wf (se_limits E) s"
    and d: "de_status d = DelFailed"
    and again: "\<And>s. wp E (delivery_commit fa key) (delivery_answered key) again s" "\<And>n t. again \<noteq> Return (DeliverySend n t)"
  shows "wp E (delivery_commit fa key) (delivery_answered key) (retry_failed cf key (seen key r d) again) s"
  unfolding retry_failed_def seen_simps
proof (intro wp_now wp_token wp_lift wp_receipt_put again)
  fix t s1 token s2 lease b s3 s4
  assume t: "se_clock E t" and token: "ident_ok token" and l: "add_milliseconds (to_iso t) (cf_stale cf) = Inr lease"
    and i: "interf E s s1" "interf E s1 s2" "interf E s2 s3"
    and c: "encode_execution_record (encode_delivery (intent_record d (de_attempts d + 1) token (to_iso t) lease)) = Inr b"
      "version_at s3 key = Some (sv_version r)" "map_option sv_value (lookup s4 key) = Some b" "\<And>j. j \<noteq> key \<Longrightarrow> lookup s4 j = lookup s3 j"
  have "evolves s s3" using i by (auto dest!: interfD intro: evolves_trans)
  then have at3: "receipt_at s3 key = Holds d" using cell_pinned [OF r] c(2) by blast
  have wf: "wf_delivery d" using delivery_codec.cell_seen [OF r(1,2)] by auto
  show "delivery_commit fa key s3 (Return (DeliverySend (de_attempts d + 1) token)) s4
      \<and> delivery_answered key (DeliverySend (de_attempts d + 1) token) s4"
    by (rule retry_commit [OF c(1) at3 c(3,4) wf d]) (use clock_canonical [OF E t] add_ms_ok [OF _ st l] token in auto)
qed

lemma prepare_existing_wp:
  assumes E: "delivery_setting E" and st: "cf_stale cf \<le> 86400000" and fam: "in_family FamDelivery key"
    and r: "lookup s key = Some r" "decode_record parse_delivery (sv_value r) = Inr d" "snapshot_wf (se_limits E) s"
    and again: "\<And>s. wp E (delivery_commit fa key) (delivery_answered key) again s" "\<And>n t. again \<noteq> Return (DeliverySend n t)"
  shows "wp E (delivery_commit fa key) (delivery_answered key) (prepare_existing cf key ident fp ch run (seen key r d) again) s"
proof -
  have at: "receipt_at s key = Holds d" using delivery_codec.cell_seen [OF r(1,2)] by auto
  show ?thesis
    unfolding prepare_existing_def Let_def seen_simps
    by (rule wp_lift, cases "de_status d")
      (auto simp: at intro: expire_intent_wp [OF E r _ again fam] retry_failed_wp [OF E st r _ again])
qed

lemma prepare_loop_not_send: "prepare_loop n cf key ident fp ch run \<noteq> Return (DeliverySend m t)"
  by (cases n) (simp_all add: exec_read_def)

lemma prepare_loop_wp:
  assumes E: "delivery_setting E" and st: "cf_stale cf \<le> 86400000" and fam: "in_family FamDelivery key"
    and ids: "ident_ok ident" "fingerprint_ok fp" "ident_ok ch" "opt_ok ident_ok run"
  shows "wp E (delivery_commit fa key) (delivery_answered key) (prepare_loop n cf key ident fp ch run) s"
proof (induction n arbitrary: s)
  case 0
  then show ?case by simp
next
  case (Suc n)
  show ?case unfolding prepare_loop.simps
    by (rule wp_read) (auto intro!: claim_absent_wp [OF E st ids Suc.IH prepare_loop_not_send]
        prepare_existing_wp [OF E st fam _ _ _ Suc.IH prepare_loop_not_send] dest: interfD)
qed

lemma opt_field_ident: "opt_field (bounded_identifier p) v = Inr x \<Longrightarrow> opt_ok ident_ok x"
  by (erule opt_field_ok) (simp add: parse_iffs)

lemma prepare_delivery_wp:
  assumes "delivery_setting E" "cf_stale cf \<le> 86400000"
  shows "wp E (\<lambda>s p s'. \<exists>ident key. di_key input = JStr ident \<and> delivery_state_key (cf_sha cf) ident = Inr key \<and> delivery_commit fa key s p s')
     (\<lambda>a s. \<exists>ident key. di_key input = JStr ident \<and> delivery_state_key (cf_sha cf) ident = Inr key \<and> delivery_answered key a s)
     (prepare_delivery cf input) s"
  unfolding prepare_delivery_def
proof (intro wp_lift)
  fix ident fp ch run key
  assume "bounded_identifier ''idempotencyKey'' (di_key input) = Inr ident" "parse_fingerprint ''fingerprint'' (di_fingerprint input) = Inr fp"
    "bounded_identifier ''channelInstanceId'' (di_channel input) = Inr ch" "opt_field (bounded_identifier ''runId'') (di_run input) = Inr run"
    and key: "delivery_state_key (cf_sha cf) ident = Inr key"
  then have ids: "di_key input = JStr ident" "ident_ok ident" "fingerprint_ok fp" "ident_ok ch" "opt_ok ident_ok run"
    by (auto simp: parse_iffs dest: opt_field_ident)
  have fam: "in_family FamDelivery key" using key by (auto simp: key_simps)
  show "wp E (\<lambda>s p s'. \<exists>ident key. di_key input = JStr ident \<and> delivery_state_key (cf_sha cf) ident = Inr key \<and> delivery_commit fa key s p s')
     (\<lambda>a s. \<exists>ident key. di_key input = JStr ident \<and> delivery_state_key (cf_sha cf) ident = Inr key \<and> delivery_answered key a s)
     (prepare_loop delivery_retries cf key ident fp ch run) s"
    by (rule wp_mono [OF prepare_loop_wp [OF assms fam ids(2-5)]]) (use ids(1) key in blast)+
qed

lemma settle_active_wp:
  assumes E: "delivery_setting E"
    and r: "lookup s key = Some r" "decode_record parse_delivery (sv_value r) = Inr d" "snapshot_wf (se_limits E) s"
    and d: "de_status d = DelIntent" and fa: "si_status input = AsFailed \<Longrightarrow> de_attempts d \<in> fa"
  shows "wp E (delivery_commit fa key) (delivery_answered key) (settle_active key (seen key r d) input) s"
  unfolding settle_active_def Let_def seen_simps
proof (intro wp_lift wp_now wp_receipt_put)
  fix message code u1 u2 u3 t s1 b s3 s4
  let ?st = "settlement_status (si_status input)"
  assume m: "opt_field (bounded_identifier ''messageId'') (si_message input) = Inr message"
      "opt_field (bounded_code ''code'') (si_code input) = Inr code"
    and checks: "require (\<not> (?st = DelDelivered \<and> code \<noteq> None)) (TypeError ''delivered receipts'') = Inr u1"
      "require (\<not> (?st \<noteq> DelDelivered \<and> code = None)) (TypeError ''failed and unknown delivery receipts'') = Inr u2"
      "require (\<not> (?st \<noteq> DelDelivered \<and> message \<noteq> None)) (TypeError ''non-delivered receipts'') = Inr u3"
    and t: "se_clock E t" and i: "interf E s s1" "interf E s1 s3"
    and c: "encode_execution_record (encode_delivery (settled_record d ?st (to_iso t) message code)) = Inr b"
      "version_at s3 key = Some (sv_version r)" "map_option sv_value (lookup s4 key) = Some b" "\<And>j. j \<noteq> key \<Longrightarrow> lookup s4 j = lookup s3 j"
  have "opt_ok code_ok code" using m(2) by (rule opt_field_ok) (simp add: parse_iffs)
  moreover have st: "?st \<noteq> DelIntent" by (cases "si_status input") simp_all
  ultimately have wf: "wf_delivery (settled_record d ?st (to_iso t) message code)"
    using checks delivery_codec.cell_seen [OF r(1,2)] clock_canonical [OF E t] opt_field_ident [OF m(1)]
    by (intro settled_record_wf) auto
  have "evolves s s3" using i by (auto dest!: interfD intro: evolves_trans)
  then have at3: "receipt_at s3 key = Holds d" using cell_pinned [OF r] c(2) by blast
  have "?st = DelFailed \<Longrightarrow> de_attempts d \<in> fa" using fa by (cases "si_status input") simp_all
  from settle_commit [OF c(1) at3 c(3,4) wf d st this] checks show
    "delivery_commit fa key s3 (Return (if ?st = DelDelivered then DeliveryDuplicate message
        else if ?st = DelUnknown then DeliveryUnknown code else DeliveryJoin)) s4
     \<and> delivery_answered key (if ?st = DelDelivered then DeliveryDuplicate message
        else if ?st = DelUnknown then DeliveryUnknown code else DeliveryJoin) s4"
    by (cases "si_status input") simp_all
qed simp_all

lemma settle_found_wp:
  assumes E: "delivery_setting E" and fa: "si_status input = AsFailed \<Longrightarrow> attempt \<in> fa"
  shows "wp E (delivery_commit fa key) (delivery_answered key)
    (pbind (exec_read parse_delivery key) (settle_found key ident fp attempt token input)) s"
  unfolding settle_found_def
  by (rule wp_read)
    (use fa in \<open>auto simp: Let_def delivery_codec.cell_seen dest: interfD intro!: wp_lift settle_active_wp [OF E]\<close>)

text \<open>The attempts a settlement is asked to fail.\<close>

definition fails_attempts :: "settlement_input \<Rightarrow> nat set" where
  "fails_attempts i =
     {n. si_status i = AsFailed \<and> bounded_integer ''attempt'' 1 max_delivery_attempts (si_attempt i) = Inr n}"

lemma settle_delivery_wp:
  assumes E: "delivery_setting E"
  shows "wp E (\<lambda>s p s'. \<exists>ident key. si_key input = JStr ident \<and> delivery_state_key (cf_sha cf) ident = Inr key
         \<and> delivery_commit (fails_attempts input) key s p s')
     (\<lambda>a s. \<exists>ident key. si_key input = JStr ident \<and> delivery_state_key (cf_sha cf) ident = Inr key \<and> delivery_answered key a s)
     (settle_delivery cf input) s"
  unfolding settle_delivery_def
  by (intro wp_lift, rule wp_mono [OF settle_found_wp [OF E, where fa = "fails_attempts input"]])
    (auto simp: parse_iffs fails_attempts_def)

end
