(* ===== verification/DeliveryHistory.thy ===== *)
theory DeliveryHistory
  imports DeliveryJournal JournalConcern
begin

text \<open>
  \<^verbatim>\<open>settleDeliveryWithHistory\<close> of \<^verbatim>\<open>execution-journal-delivery.ts\<close>: confirming a delivery and
  appending its entry to the destination conversation in one transaction, together with the binding
  record that links the two.
\<close>

section \<open>The request\<close>

record history_input =
  hi_key :: js
  hi_fingerprint :: js
  hi_attempt :: js
  hi_token :: js
  hi_message :: js
  hi_conv :: js
  hi_entry :: js
  hi_entry_fingerprint :: js

record history_request =
  hq_key :: string
  hq_fingerprint :: string
  hq_attempt :: nat
  hq_token :: string
  hq_message :: "string option"
  hq_conv :: string
  hq_entry_fingerprint :: string
  hq_entry :: transcript_entry
  hq_digest :: string
  hq_binding_key :: string
  hq_delivery_key :: string

datatype history_answer =
    HistoryAppended string string nat nat "string option"
  | HistoryDuplicate string string nat nat "string option"
  | HistoryConflict string string

definition epoch_text :: string where "epoch_text = ''1970-01-01T00:00:00.000Z''"

definition parse_history_input :: "config \<Rightarrow> history_input \<Rightarrow> history_request result" where
  "parse_history_input cf input =
     rbind (bounded_identifier ''idempotencyKey'' (hi_key input)) (\<lambda>key.
     rbind (parse_fingerprint ''fingerprint'' (hi_fingerprint input)) (\<lambda>fingerprint.
     rbind (bounded_integer ''attempt'' 1 max_delivery_attempts (hi_attempt input)) (\<lambda>attempt.
     rbind (bounded_identifier ''delivery attempt token'' (hi_token input)) (\<lambda>token.
     rbind (opt_field (bounded_identifier ''messageId'') (hi_message input)) (\<lambda>message.
     rbind (bounded_conversation_id ''conversationId'' (hi_conv input)) (\<lambda>conv.
     rbind (parse_fingerprint ''entryFingerprint'' (hi_entry_fingerprint input)) (\<lambda>entry_fingerprint.
     rbind (parse_delivery_transcript_entry (hi_entry input) conv epoch_text) (\<lambda>entry.
     rbind (delivery_entry_digest (cf_sha cf) entry) (\<lambda>digest.
     rbind (delivery_entry_state_key (cf_sha cf) (ec_entry (entry_common_of entry))) (\<lambda>binding_key.
     rbind (delivery_state_key (cf_sha cf) key) (\<lambda>delivery_key.
     Inr \<lparr>hq_key = key, hq_fingerprint = fingerprint, hq_attempt = attempt, hq_token = token, hq_message = message,
       hq_conv = conv, hq_entry_fingerprint = entry_fingerprint, hq_entry = entry, hq_digest = digest,
       hq_binding_key = binding_key, hq_delivery_key = delivery_key\<rparr>)))))))))))"

definition hq_entry_id :: "history_request \<Rightarrow> string" where
  "hq_entry_id h = ec_entry (entry_common_of (hq_entry h))"

definition history_conflict :: "history_request \<Rightarrow> history_answer" where
  "history_conflict h = HistoryConflict (hq_conv h) (hq_entry_id h)"

section \<open>The records written\<close>

fun with_recorded :: "string \<Rightarrow> transcript_entry \<Rightarrow> transcript_entry" where
  "with_recorded t (MessageEntry c role content route) = MessageEntry (c\<lparr>ec_at := t\<rparr>) role content route"
| "with_recorded t (InteractionEntry c evidence content) = InteractionEntry (c\<lparr>ec_at := t\<rparr>) evidence content"
| "with_recorded t (VerbatimEntry c role body) = VerbatimEntry (c\<lparr>ec_at := t\<rparr>) role body"

text \<open>\<^verbatim>\<open>Date.parse(now) >= Date.parse(other) ? now : other\<close>.\<close>

definition later_of :: "string \<Rightarrow> string \<Rightarrow> string" where
  "later_of now other = (if date_ms other \<le> date_ms now then now else other)"

definition delivered_with_history :: "delivery \<Rightarrow> history_request \<Rightarrow> string \<Rightarrow> delivery" where
  "delivered_with_history d h updated =
     d\<lparr>de_status := DelDelivered, de_updated := updated, de_lease := None, de_message := hq_message h, de_code := None,
       de_history_entry := Some (hq_entry_id h), de_history_conv := Some (hq_conv h),
       de_history_fingerprint := Some (hq_entry_fingerprint h), de_history_digest := Some (hq_digest h)\<rparr>"

definition binding_of :: "history_request \<Rightarrow> canonical_transcript \<Rightarrow> string \<Rightarrow> delivery_link" where
  "binding_of h t recorded =
     \<lparr>dl_entry = hq_entry_id h, dl_conv = hq_conv h, dl_key = hq_key h, dl_delivery_fingerprint = hq_fingerprint h,
      dl_fingerprint = hq_entry_fingerprint h, dl_digest = hq_digest h, dl_revision = ct_revision t,
      dl_entry_count = length (ct_entries t), dl_created = recorded\<rparr>"

definition created_at :: "conversation option \<Rightarrow> canonical_transcript option \<Rightarrow> string \<Rightarrow> string" where
  "created_at previous loaded recorded =
     (case previous of
        None \<Rightarrow> recorded
      | Some c \<Rightarrow>
          (case cv_created c of
             Some t \<Rightarrow> t
           | None \<Rightarrow>
               (case loaded of
                  Some l \<Rightarrow> (case ct_entries l of e # _ \<Rightarrow> ec_at (entry_common_of e) | [] \<Rightarrow> cv_updated c)
                | None \<Rightarrow> cv_updated c)))"

definition appended_conversation ::
  "canonical_transcript \<Rightarrow> chunk_manifest \<Rightarrow> conversation option \<Rightarrow> string \<Rightarrow> string \<Rightarrow> conversation" where
  "appended_conversation t m previous created recorded =
     \<lparr>cv_conv = ct_conv t, cv_revision = ct_revision t, cv_body = TranscriptChunks m, cv_count = length (ct_entries t),
      cv_created = Some created, cv_updated = recorded,
      cv_title = (case previous of None \<Rightarrow> None | Some c \<Rightarrow> cv_title c),
      cv_metadata = (case previous of None \<Rightarrow> None | Some c \<Rightarrow> cv_metadata c)\<rparr>"

text \<open>Chunks of the next revision that exist already are checked, new ones are put, and the ones the
  next revision does not have are deleted.\<close>

definition previous_chunk :: "string exec_record list \<Rightarrow> string \<Rightarrow> string exec_record option" where
  "previous_chunk chunks key = find (\<lambda>c. er_key c = key) chunks"

definition chunk_checks :: "string exec_record list \<Rightarrow> transcript_chunk list \<Rightarrow> (string \<times> string option) list" where
  "chunk_checks previous chunks =
     concat (map (\<lambda>c. case previous_chunk previous (ck_key (tc_descriptor c)) of
       None \<Rightarrow> [] | Some p \<Rightarrow> [(er_key p, Some (er_version p))]) chunks)"

definition chunk_puts :: "string exec_record list \<Rightarrow> transcript_chunk list \<Rightarrow> (string \<times> string option \<times> string) list" where
  "chunk_puts previous chunks =
     concat (map (\<lambda>c. case previous_chunk previous (ck_key (tc_descriptor c)) of
       None \<Rightarrow> [(ck_key (tc_descriptor c), None, tc_bytes c)] | Some p \<Rightarrow> []) chunks)"

definition stale_chunks :: "string exec_record list \<Rightarrow> transcript_chunk list \<Rightarrow> (string \<times> string option) list" where
  "stale_chunks previous chunks =
     map (\<lambda>p. (er_key p, Some (er_version p)))
       (filter (\<lambda>p. er_key p \<notin> set (map (\<lambda>c. ck_key (tc_descriptor c)) chunks)) previous)"

section \<open>The method\<close>

definition history_mismatch :: "history_request \<Rightarrow> delivery \<Rightarrow> bool" where
  "history_mismatch h d \<longleftrightarrow>
     de_fingerprint d \<noteq> hq_fingerprint h \<or> de_attempts d \<noteq> hq_attempt h \<or> de_token d \<noteq> hq_token h
     \<or> (de_status d = DelDelivered \<and> de_message d \<noteq> hq_message h)
     \<or> (de_status d \<noteq> DelIntent \<and> de_status d \<noteq> DelDelivered)"

definition history_differs :: "history_request \<Rightarrow> delivery \<Rightarrow> bool" where
  "history_differs h d \<longleftrightarrow>
     de_history_entry d \<noteq> Some (hq_entry_id h) \<or> de_history_conv d \<noteq> Some (hq_conv h)
     \<or> de_history_fingerprint d \<noteq> Some (hq_entry_fingerprint h) \<or> de_history_digest d \<noteq> Some (hq_digest h)"

definition binding_differs :: "history_request \<Rightarrow> delivery_link \<Rightarrow> bool" where
  "binding_differs h b \<longleftrightarrow>
     dl_conv b \<noteq> hq_conv h \<or> dl_key b \<noteq> hq_key h \<or> dl_delivery_fingerprint b \<noteq> hq_fingerprint h
     \<or> dl_fingerprint b \<noteq> hq_entry_fingerprint h \<or> dl_digest b \<noteq> hq_digest h"

text \<open>The entry the binding names is the one in the destination's transcript.\<close>

definition binding_matches :: "config \<Rightarrow> delivery_link \<Rightarrow> canonical_transcript \<Rightarrow> bool result" where
  "binding_matches cf b t =
     (if ct_revision t < dl_revision b \<or> length (ct_entries t) < dl_entry_count b \<or> dl_entry_count b < 1 then Inr False
      else
        (let committed = ct_entries t ! (dl_entry_count b - 1) in
         if ec_at (entry_common_of committed) \<noteq> dl_created b then Inr False
         else rbind (delivery_entry_digest (cf_sha cf) committed) (\<lambda>digest. Inr (digest = dl_digest b))))"

definition history_bound ::
  "config \<Rightarrow> history_request \<Rightarrow> delivery \<Rightarrow> delivery_link \<Rightarrow> history_answer prog" where
  "history_bound cf h d b =
     (if dl_entry b \<noteq> hq_entry_id h
      then Throw (PlainError ''conversation delivery binding key does not match its entry identity'')
      else if binding_differs h b then Return (history_conflict h)
      else
        pbind (lift (conversation_state_key (cf_sha cf) (hq_conv h))) (\<lambda>ckey.
        pbind (exec_read (parse_conversation (cf_sha cf)) ckey) (\<lambda>found.
        case found of
          None \<Rightarrow> Throw (PlainError ''conversation delivery binding points to missing destination history'')
        | Some c \<Rightarrow>
            pbind (load_conversation_transcript cf (er_value c)) (\<lambda>t.
            pbind (lift (binding_matches cf b t)) (\<lambda>ok.
            if \<not> ok then Throw (PlainError ''conversation delivery binding does not match destination history'')
            else if de_status d \<noteq> DelDelivered
            then Throw (PlainError ''destination history exists without its atomic delivery receipt'')
            else Return (HistoryDuplicate (hq_conv h) (hq_entry_id h) (dl_revision b) (dl_entry_count b) (hq_message h)))))))"

definition append_history ::
  "config \<Rightarrow> history_request \<Rightarrow> delivery exec_record \<Rightarrow> string \<Rightarrow> conversation exec_record option \<Rightarrow> loaded_transcript option \<Rightarrow>
   history_answer prog \<Rightarrow> history_answer prog" where
  "append_history cf h existing ckey found loaded again =
     (let d = er_value existing; previous = map_option er_value found;
          previous_chunks = (case loaded of None \<Rightarrow> [] | Some l \<Rightarrow> lt_chunks l) in
      pbind journal_now (\<lambda>now.
      let recorded = (case previous of None \<Rightarrow> now | Some c \<Rightarrow> later_of now (cv_updated c)) in
      pbind (lift (append_canonical_transcript (map_option lt_transcript loaded) (hq_conv h)
               [encode_entry (with_recorded recorded (hq_entry h))])) (\<lambda>t.
      pbind (lift (chunk_canonical_transcript (cf_sha cf) t)) (\<lambda>(manifest, chunks).
      pbind (exec_transaction
               \<lparr>xq_checks = chunk_checks previous_chunks chunks,
                xq_puts =
                  [(hq_delivery_key h, Some (er_version existing),
                    encode_delivery (delivered_with_history d h (later_of now (de_updated d)))),
                   (ckey, map_option er_version found,
                    encode_conversation (appended_conversation t manifest previous
                      (created_at previous (map_option lt_transcript loaded) recorded) recorded)),
                   (hq_binding_key h, None, encode_delivery_link (binding_of h t recorded))],
                xq_byte_puts = chunk_puts previous_chunks chunks,
                xq_deletes = stale_chunks previous_chunks chunks\<rparr>) (\<lambda>result.
      case result of
        TxApplied _ _ \<Rightarrow>
          Return (HistoryAppended (hq_conv h) (hq_entry_id h) (ct_revision t) (length (ct_entries t)) (hq_message h))
      | TxConflict _ \<Rightarrow> again)))))"

definition history_unbound ::
  "config \<Rightarrow> history_request \<Rightarrow> delivery exec_record \<Rightarrow> history_answer prog \<Rightarrow> history_answer prog" where
  "history_unbound cf h existing again =
     (if de_status (er_value existing) = DelDelivered
      then Throw (PlainError ''delivered receipt exists without its atomic destination history'')
      else
        pbind (lift (conversation_state_key (cf_sha cf) (hq_conv h))) (\<lambda>ckey.
        pbind (exec_read (parse_conversation (cf_sha cf)) ckey) (\<lambda>found.
        pbind (case found of
                 None \<Rightarrow> Return None
               | Some c \<Rightarrow> pbind (load_conversation_transcript_state cf (er_value c)) (\<lambda>l. Return (Some l))) (\<lambda>loaded.
        if (case loaded of None \<Rightarrow> False
            | Some l \<Rightarrow> list_ex (\<lambda>e. ec_entry (entry_common_of e) = hq_entry_id h) (ct_entries (lt_transcript l)))
        then Return (history_conflict h)
        else append_history cf h existing ckey found loaded again))))"

definition history_found ::
  "config \<Rightarrow> history_request \<Rightarrow> delivery exec_record option \<Rightarrow> history_answer prog \<Rightarrow> history_answer prog" where
  "history_found cf h found again =
     (case found of
        None \<Rightarrow> Throw (PlainError ''delivery intent does not exist'')
      | Some existing \<Rightarrow>
          (let d = er_value existing in
           pbind (lift (assert_delivery_key_authority d (hq_key h))) (\<lambda>_.
           if history_mismatch h d then Return (history_conflict h)
           else if de_status d = DelDelivered \<and> de_history_entry d = None
           then Throw (PlainError ''delivered receipt exists without its atomic destination history'')
           else if de_status d = DelDelivered \<and> history_differs h d then Return (history_conflict h)
           else
             pbind (exec_read parse_delivery_link (hq_binding_key h)) (\<lambda>binding.
             case binding of
               Some b \<Rightarrow> history_bound cf h d (er_value b)
             | None \<Rightarrow> history_unbound cf h existing again))))"

primrec history_loop :: "nat \<Rightarrow> config \<Rightarrow> history_request \<Rightarrow> history_answer prog" where
  "history_loop 0 cf h = Throw (PlainError ''delivery settlement with destination history did not converge after contention'')"
| "history_loop (Suc n) cf h =
     pbind (exec_read parse_delivery (hq_delivery_key h)) (\<lambda>found. history_found cf h found (history_loop n cf h))"

definition history_retries :: nat where "history_retries = 5"

definition settle_delivery_with_history :: "config \<Rightarrow> history_input \<Rightarrow> history_answer prog" where
  "settle_delivery_with_history cf input =
     pbind (lift (parse_history_input cf input)) (history_loop history_retries cf)"

end
