(* ===== verification/ConversationJournal.thy ===== *)
theory ConversationJournal
  imports JournalConcern
begin

text \<open>
  Conversations and provider sessions (\<^verbatim>\<open>execution-journal-conversations.ts\<close>): loading a canonical
  transcript, opening a conversation with its first revision, listing conversations, and the cached
  session of a route with its conditional eviction.
\<close>

section \<open>Conversations\<close>

definition load_transcript :: "config \<Rightarrow> js \<Rightarrow> canonical_transcript option prog" where
  "load_transcript cf conv_v =
     pbind (lift (bounded_conversation_id ''conversationId'' conv_v)) (\<lambda>conv.
     pbind (lift (conversation_state_key (cf_sha cf) conv)) (\<lambda>key.
     pbind (exec_read (parse_conversation (cf_sha cf)) key) (\<lambda>found.
     case found of
       None \<Rightarrow> Return None
     | Some c \<Rightarrow>
         pbind (lift (assert_conversation_key_authority (cf_sha cf) (er_key c) (er_value c) (Some conv))) (\<lambda>_.
         pbind (load_conversation_transcript cf (er_value c)) (\<lambda>t.
         if ct_revision t \<noteq> cv_revision (er_value c) \<or> length (ct_entries t) \<noteq> cv_count (er_value c)
         then Throw (PlainError ''canonical transcript pointer does not match its artifact'')
         else Return (Some t))))))"

record conversation_view =
  vw_conv :: string
  vw_created :: string
  vw_updated :: string
  vw_transcript :: canonical_transcript
  vw_title :: "string option"
  vw_metadata :: "js option"

definition conversation_text_max_bytes :: nat where "conversation_text_max_bytes = 1048576"

definition initial_entries :: "string \<Rightarrow> string option \<Rightarrow> string \<Rightarrow> transcript_entry list" where
  "initial_entries conv initial created =
     (case initial of
        None \<Rightarrow> []
      | Some body \<Rightarrow>
          if body = [] then []
          else [VerbatimEntry \<lparr>ec_entry = conv @ '':initial'', ec_run = conv @ '':open'', ec_request = conv @ '':open'',
                  ec_conv = conv, ec_at = created\<rparr> RoleAssistant body])"

text \<open>The generated identifier: what \<^verbatim>\<open>randomUUID\<close> returns is text.\<close>

definition proactive_id :: "string prog" where
  "proactive_id = GenerateCall UuidGenerator (\<lambda>v.
     case v of JStr u \<Rightarrow> Return (''proactive:'' @ u) | _ \<Rightarrow> Throw (TypeError ''randomUUID''))"

definition opened_conversation ::
  "canonical_transcript \<Rightarrow> chunk_manifest \<Rightarrow> string \<Rightarrow> string option \<Rightarrow> js option \<Rightarrow> conversation" where
  "opened_conversation t m created title metadata =
     \<lparr>cv_conv = ct_conv t, cv_revision = ct_revision t, cv_body = TranscriptChunks m, cv_count = length (ct_entries t),
      cv_created = Some created, cv_updated = created, cv_title = title, cv_metadata = metadata\<rparr>"

definition open_once ::
  "config \<Rightarrow> string option \<Rightarrow> string option \<Rightarrow> js option \<Rightarrow> conversation_view prog \<Rightarrow> conversation_view prog" where
  "open_once cf title initial metadata again =
     pbind proactive_id (\<lambda>conv.
     pbind journal_now (\<lambda>created.
     pbind (lift (parse_canonical_transcript
              (transcript_literal conv 1 (map encode_entry (initial_entries conv initial created))))) (\<lambda>t.
     pbind (lift (chunk_canonical_transcript (cf_sha cf) t)) (\<lambda>(manifest, chunks).
     pbind (lift (conversation_state_key (cf_sha cf) conv)) (\<lambda>key.
     pbind (exec_transaction
              \<lparr>xq_checks = [],
               xq_puts = [(key, None, encode_conversation (opened_conversation t manifest created title metadata))],
               xq_byte_puts = map (\<lambda>c. (ck_key (tc_descriptor c), None, tc_bytes c)) chunks,
               xq_deletes = []\<rparr>) (\<lambda>result.
     case result of
       TxApplied _ _ \<Rightarrow>
         Return \<lparr>vw_conv = conv, vw_created = created, vw_updated = created, vw_transcript = t, vw_title = title,
           vw_metadata = metadata\<rparr>
     | TxConflict _ \<Rightarrow> again))))))"

primrec open_loop ::
  "nat \<Rightarrow> config \<Rightarrow> string option \<Rightarrow> string option \<Rightarrow> js option \<Rightarrow> conversation_view prog" where
  "open_loop 0 cf title initial metadata = Throw (PlainError ''proactive conversation identity did not converge'')"
| "open_loop (Suc n) cf title initial metadata =
     open_once cf title initial metadata (open_loop n cf title initial metadata)"

definition open_retries :: nat where "open_retries = 3"

definition open_conversation :: "config \<Rightarrow> js \<Rightarrow> conversation_view prog" where
  "open_conversation cf input =
     pbind (lift (own_data_record ''open conversation'' [''title'', ''initialText'', ''metadata''] input)) (\<lambda>source.
     pbind (lift (opt_field (bounded_text ''open conversation.title'' conversation_title_max_bytes True) (fld source ''title''))) (\<lambda>title.
     pbind (lift (opt_field (bounded_text ''open conversation.initialText'' conversation_text_max_bytes True)
              (fld source ''initialText''))) (\<lambda>initial.
     pbind (lift (opt_field (parse_session_metadata ''open conversation.metadata'') (fld source ''metadata''))) (\<lambda>metadata.
     open_loop open_retries cf title initial metadata))))"

definition load_conversation :: "config \<Rightarrow> js \<Rightarrow> conversation_view option prog" where
  "load_conversation cf conv_v =
     pbind (lift (bounded_conversation_id ''conversationId'' conv_v)) (\<lambda>conv.
     pbind (lift (conversation_state_key (cf_sha cf) conv)) (\<lambda>key.
     pbind (exec_read (parse_conversation (cf_sha cf)) key) (\<lambda>found.
     case found of
       None \<Rightarrow> Return None
     | Some rc \<Rightarrow>
         (let c = er_value rc in
          pbind (lift (assert_conversation_key_authority (cf_sha cf) (er_key rc) c (Some conv))) (\<lambda>_.
          pbind (load_conversation_transcript cf c) (\<lambda>t.
          Return (Some \<lparr>vw_conv = conv,
            vw_created = (case cv_created c of
                            Some at \<Rightarrow> at
                          | None \<Rightarrow> (case ct_entries t of e # _ \<Rightarrow> ec_at (entry_common_of e) | [] \<Rightarrow> cv_updated c)),
            vw_updated = cv_updated c, vw_transcript = t, vw_title = cv_title c, vw_metadata = cv_metadata c\<rparr>)))))))"

record conversation_line =
  ln_conv :: string
  ln_created :: string
  ln_updated :: string
  ln_title :: "string option"
  ln_metadata :: "js option"

definition conversation_page_size :: nat where "conversation_page_size = 100"

definition conversation_line_of :: "(string \<Rightarrow> string) \<Rightarrow> conversation exec_record \<Rightarrow> conversation_line result" where
  "conversation_line_of sha rc =
     (let c = er_value rc in
      rbind (assert_conversation_key_authority sha (er_key rc) c None) (\<lambda>_.
      Inr \<lparr>ln_conv = cv_conv c, ln_created = (case cv_created c of Some t \<Rightarrow> t | None \<Rightarrow> cv_updated c),
        ln_updated = cv_updated c, ln_title = cv_title c, ln_metadata = cv_metadata c\<rparr>))"

definition list_conversations :: "config \<Rightarrow> string option \<Rightarrow> (conversation_line list \<times> string option) prog" where
  "list_conversations cf cursor =
     pbind (exec_scan prefix_conversations cursor conversation_page_size (parse_conversation (cf_sha cf))) (\<lambda>(records, next).
     pbind (lift (rmap (conversation_line_of (cf_sha cf)) records)) (\<lambda>lines. Return (lines, next)))"

section \<open>Provider sessions\<close>

definition session_authority :: "provider_session \<Rightarrow> string \<Rightarrow> route_identity \<Rightarrow> bool" where
  "session_authority p conv route \<longleftrightarrow>
     ps_conv p = conv \<and> same_route (ps_route p) route \<and> se_conv (ps_session p) = conv
     \<and> same_route (se_route (ps_session p)) route"

definition load_session :: "config \<Rightarrow> js \<Rightarrow> js \<Rightarrow> (runtime_session \<times> string) option prog" where
  "load_session cf conv_v route_v =
     pbind (lift (bounded_conversation_id ''conversationId'' conv_v)) (\<lambda>conv.
     pbind (lift (parse_route_identity route_v)) (\<lambda>route.
     pbind (lift (session_state_key (cf_sha cf) conv (rt_instance route) (rt_model route))) (\<lambda>key.
     pbind (exec_read parse_provider_session key) (\<lambda>found.
     case found of
       None \<Rightarrow> Return None
     | Some p \<Rightarrow>
         if \<not> session_authority (er_value p) conv route
         then Throw (PlainError ''provider session key does not match its stored authority'')
         else Return (Some (ps_session (er_value p), ps_updated (er_value p)))))))"

definition evict_session :: "config \<Rightarrow> js \<Rightarrow> js \<Rightarrow> js \<Rightarrow> bool prog" where
  "evict_session cf conv_v route_v expected_v =
     pbind (lift (bounded_conversation_id ''conversationId'' conv_v)) (\<lambda>conv.
     pbind (lift (parse_route_identity route_v)) (\<lambda>route.
     pbind (lift (own_data_record ''expected session authority'' [''sessionId'', ''updatedAt''] expected_v)) (\<lambda>expected.
     pbind (lift (bounded_identifier ''expected session authority.sessionId'' (fld expected ''sessionId''))) (\<lambda>session.
     pbind (lift (canonical_timestamp ''expected session authority.updatedAt'' (fld expected ''updatedAt''))) (\<lambda>updated.
     pbind (lift (session_state_key (cf_sha cf) conv (rt_instance route) (rt_model route))) (\<lambda>key.
     pbind (exec_read parse_provider_session key) (\<lambda>found.
     case found of
       None \<Rightarrow> Return False
     | Some p \<Rightarrow>
         if \<not> session_authority (er_value p) conv route
         then Throw (PlainError ''provider session key does not match its stored authority'')
         else if se_id (ps_session (er_value p)) \<noteq> session \<or> ps_updated (er_value p) \<noteq> updated then Return False
         else
           pbind (exec_transaction
                    \<lparr>xq_checks = [], xq_puts = [], xq_byte_puts = [], xq_deletes = [(key, Some (er_version p))]\<rparr>) (\<lambda>result.
           Return (case result of TxApplied _ _ \<Rightarrow> True | TxConflict _ \<Rightarrow> False)))))))))"

end
