(* ===== verification/MaintenanceJournal.thy ===== *)
theory MaintenanceJournal
  imports IntentCleanup
begin

text \<open>
  Retention (\<^verbatim>\<open>execution-journal-maintenance.ts\<close>, \<^verbatim>\<open>resumeRunRetention\<close> and
  \<^verbatim>\<open>artifactIsReferenced\<close> of \<^verbatim>\<open>execution-journal-concern.ts\<close>): a terminal run older than the
  cutoff is claimed with a checkpoint, its events are deleted in pages, then its owners in one
  transaction, then its artifacts are released when nothing refers to them any more, and the
  checkpoint goes last.
\<close>

section \<open>References to an artifact\<close>

definition scan_refers ::
  "string \<Rightarrow> (js \<Rightarrow> 'a result) \<Rightarrow> ('a \<Rightarrow> bool) \<Rightarrow> bool prog \<Rightarrow> bool prog" where
  "scan_refers pre parse refers next =
     pbind (scan_all pre parse retention_reference_scan_max_records) (\<lambda>(records, truncated).
     if truncated then Return True
     else if list_ex (\<lambda>r. refers (er_value r)) records then Return True
     else next)"

definition intent_refers :: "artifact_ref \<Rightarrow> publication_intent \<Rightarrow> bool" where
  "intent_refers a p \<longleftrightarrow> list_ex (\<lambda>d. pd_sha256 d = ar_sha256 a \<and> pd_size d = ar_size a) (pi_artifacts p @ pi_cleanup p)"

definition artifact_is_referenced :: "config \<Rightarrow> artifact_ref \<Rightarrow> bool prog" where
  "artifact_is_referenced cf a =
     scan_refers prefix_conversations (parse_conversation (cf_sha cf)) (\<lambda>c. same_artifact_ref (ref_of (cv_body c)) a)
     (scan_refers (prefix_runs @ ''records/'') parse_stored_run (\<lambda>r. same_artifact_ref (sr_transcript r) a)
     (scan_refers prefix_admissions parse_admission (\<lambda>m. same_artifact_ref (ad_response m) a)
     (scan_refers prefix_intents parse_publication_intent (intent_refers a) (Return False))))"

section \<open>One step of a run's retirement\<close>

record resumed =
  rz_mutations :: nat
  rz_run :: nat
  rz_events :: nat
  rz_admission :: nat
  rz_artifacts :: nat
  rz_pending :: bool

definition nothing_done :: "nat \<Rightarrow> bool \<Rightarrow> resumed" where
  "nothing_done released pending =
     \<lparr>rz_mutations = 0, rz_run = 0, rz_events = 0, rz_admission = 0, rz_artifacts = released, rz_pending = pending\<rparr>"

definition owner_of :: "'a exec_record option \<Rightarrow> (string \<times> string option) list" where
  "owner_of r = (case r of None \<Rightarrow> [] | Some x \<Rightarrow> [(er_key x, Some (er_version x))])"

definition delete_all :: "(string \<times> string option) list \<Rightarrow> exec_request" where
  "delete_all ds = \<lparr>xq_checks = [], xq_puts = [], xq_byte_puts = [], xq_deletes = ds\<rparr>"

definition retire_events :: "nat \<Rightarrow> run_event exec_record list \<Rightarrow> resumed prog" where
  "retire_events budget events =
     (let selected = take (min budget retention_scan_page_size) events in
      if selected = [] then Return (nothing_done 0 True)
      else
        pbind (exec_transaction (delete_all (map (\<lambda>e. (er_key e, Some (er_version e))) selected))) (\<lambda>deleted.
        case deleted of
          TxConflict _ \<Rightarrow> Throw (PlainError ''run event retention lost an atomic state race'')
        | TxApplied _ ks \<Rightarrow>
            Return \<lparr>rz_mutations = length ks, rz_run = 0, rz_events = length ks, rz_admission = 0, rz_artifacts = 0,
              rz_pending = True\<rparr>))"

definition retire_owners ::
  "nat \<Rightarrow> stored_run exec_record option \<Rightarrow> run_history exec_record option \<Rightarrow> admission exec_record option \<Rightarrow> resumed prog" where
  "retire_owners budget run history adm =
     (let owners = owner_of run @ owner_of history @ owner_of adm in
      if budget < length owners then Return (nothing_done 0 True)
      else
        pbind (exec_transaction (delete_all owners)) (\<lambda>deleted.
        case deleted of
          TxConflict _ \<Rightarrow> Throw (PlainError ''terminal run retention lost an atomic state race'')
        | TxApplied _ ks \<Rightarrow>
            Return \<lparr>rz_mutations = length ks, rz_run = (if run = None then 0 else 1), rz_events = 0,
              rz_admission = (if adm = None then 0 else 1), rz_artifacts = 0, rz_pending = True\<rparr>))"

text \<open>\<^verbatim>\<open>releaseArtifact\<close> is the journal's option; it answers a boolean.\<close>

definition release_artifact :: "artifact_ref \<Rightarrow> bool prog" where
  "release_artifact a = ArtifactCall (ReleaseArtifact a) (\<lambda>r. pbind (lift r) (\<lambda>v. Return (v = JBool True)))"

primrec release_unreferenced :: "config \<Rightarrow> nat \<Rightarrow> bool \<Rightarrow> artifact_ref list \<Rightarrow> (nat \<times> bool) prog" where
  "release_unreferenced cf released referenced [] = Return (released, referenced)"
| "release_unreferenced cf released referenced (a # as) =
     pbind (artifact_is_referenced cf a) (\<lambda>used.
     if used then release_unreferenced cf released True as
     else if cf_release cf then
       pbind (release_artifact a) (\<lambda>gone. release_unreferenced cf (if gone then released + 1 else released) referenced as)
     else release_unreferenced cf released referenced as)"

definition retire_checkpoint :: "config \<Rightarrow> nat \<Rightarrow> checkpoint exec_record \<Rightarrow> resumed prog" where
  "retire_checkpoint cf budget cp =
     pbind (release_unreferenced cf 0 False (cp_artifacts (er_value cp))) (\<lambda>(released, referenced).
     if referenced then Return (nothing_done released True)
     else if budget < 1 then Return (nothing_done released True)
     else
       pbind (exec_transaction (delete_all [(er_key cp, Some (er_version cp))])) (\<lambda>removed.
       case removed of
         TxConflict _ \<Rightarrow> Throw (PlainError ''run retention checkpoint cleanup lost an atomic state race'')
       | TxApplied _ ks \<Rightarrow> Return ((nothing_done released False)\<lparr>rz_mutations := length ks\<rparr>)))"

definition checkpoint_run_ok :: "checkpoint \<Rightarrow> stored_run \<Rightarrow> bool" where
  "checkpoint_run_ok v r \<longleftrightarrow>
     (let s = sr_summary r in
      rs_status s \<noteq> RunRunning \<and> rs_request s = cp_request v \<and> rs_started s = cp_started v \<and> rs_ended s = Some (cp_ended v))"

definition resume_run_retention :: "config \<Rightarrow> nat \<Rightarrow> checkpoint exec_record \<Rightarrow> resumed prog" where
  "resume_run_retention cf budget cp =
     (let v = er_value cp in
      pbind (lift (run_state_key (cf_sha cf) (cp_run v))) (\<lambda>rkey.
      pbind (exec_read parse_stored_run rkey) (\<lambda>run.
      if \<not> (case run of None \<Rightarrow> True | Some r \<Rightarrow> checkpoint_run_ok v (er_value r))
      then Throw (PlainError ''run retention checkpoint no longer matches its terminal run'')
      else
        pbind (lift (run_event_prefix (cf_sha cf) (cp_run v))) (\<lambda>pre.
        pbind (scan_all pre parse_stored_event run_max_events) (\<lambda>(events, _).
        if events \<noteq> [] then retire_events budget events
        else
          pbind (exec_read parse_run_history (cp_history_key v)) (\<lambda>history.
          if \<not> (case history of None \<Rightarrow> True
                | Some h \<Rightarrow> rh_run (er_value h) = cp_run v \<and> rh_started (er_value h) = cp_started v)
          then Throw (PlainError ''run retention checkpoint history authority is mismatched'')
          else
            pbind (lift (admission_state_key (cf_sha cf) (cp_request v))) (\<lambda>akey.
            pbind (exec_read parse_admission akey) (\<lambda>adm.
            if \<not> (case adm of None \<Rightarrow> True
                  | Some a \<Rightarrow> ad_run (er_value a) = cp_run v \<and> ad_status (er_value a) \<noteq> AdmRunning)
            then Throw (PlainError ''run retention checkpoint admission authority is mismatched'')
            else if run \<noteq> None \<or> history \<noteq> None \<or> adm \<noteq> None then retire_owners budget run history adm
            else retire_checkpoint cf budget cp))))))))"

section \<open>A maintenance pass\<close>

record maintenance_state =
  mz_budget :: nat
  mz_runs :: nat
  mz_events :: nat
  mz_admissions :: nat
  mz_artifacts :: nat
  mz_truncated :: bool

primrec resume_checkpoints ::
  "config \<Rightarrow> maintenance_state \<Rightarrow> checkpoint exec_record list \<Rightarrow> maintenance_state prog" where
  "resume_checkpoints cf m [] = Return m"
| "resume_checkpoints cf m (cp # cps) =
     (if mz_budget m < 1 then Return (m\<lparr>mz_truncated := True\<rparr>)
      else
        pbind (resume_run_retention cf (mz_budget m) cp) (\<lambda>r.
        resume_checkpoints cf
          \<lparr>mz_budget = mz_budget m - rz_mutations r, mz_runs = mz_runs m + rz_run r, mz_events = mz_events m + rz_events r,
           mz_admissions = mz_admissions m + rz_admission r, mz_artifacts = mz_artifacts m + rz_artifacts r,
           mz_truncated = (mz_truncated m \<or> rz_pending r)\<rparr> cps))"

record candidate =
  ca_history :: "run_history exec_record"
  ca_run :: "stored_run exec_record"
  ca_admission :: "admission exec_record option"

definition terminal_before :: "string \<Rightarrow> run_summary \<Rightarrow> bool" where
  "terminal_before cutoff s \<longleftrightarrow>
     rs_status s \<noteq> RunRunning \<and> (case rs_ended s of None \<Rightarrow> False | Some e \<Rightarrow> \<not> text_less cutoff e)"

primrec terminal_candidates ::
  "config \<Rightarrow> string \<Rightarrow> run_history exec_record list \<Rightarrow> candidate list prog" where
  "terminal_candidates cf cutoff [] = Return []"
| "terminal_candidates cf cutoff (h # hs) =
     pbind (lift (run_state_key (cf_sha cf) (rh_run (er_value h)))) (\<lambda>rkey.
     pbind (exec_read parse_stored_run rkey) (\<lambda>found.
     case found of
       None \<Rightarrow>
         pbind (lift (retention_checkpoint_state_key (cf_sha cf) (rh_run (er_value h)))) (\<lambda>ckey.
         pbind (exec_read (parse_checkpoint (cf_sha cf)) ckey) (\<lambda>cp.
         if cp = None then Throw (PlainError ''run history index points to missing uncheckpointed run state'')
         else terminal_candidates cf cutoff hs))
     | Some run \<Rightarrow>
         (let s = sr_summary (er_value run) in
          if \<not> terminal_before cutoff s then terminal_candidates cf cutoff hs
          else if rs_started s \<noteq> rh_started (er_value h)
          then Throw (PlainError ''run retention history authority is mismatched'')
          else
            pbind (lift (admission_state_key (cf_sha cf) (rs_request s))) (\<lambda>akey.
            pbind (exec_read parse_admission akey) (\<lambda>adm.
            if (case adm of None \<Rightarrow> False
                | Some a \<Rightarrow> ad_run (er_value a) \<noteq> rs_run s \<or> ad_conv (er_value a) \<noteq> rs_conv s \<or> ad_status (er_value a) = AdmRunning)
            then Throw (PlainError ''terminal run retention admission authority is mismatched'')
            else
              pbind (terminal_candidates cf cutoff hs) (\<lambda>rest.
              Return (\<lparr>ca_history = h, ca_run = run, ca_admission = adm\<rparr> # rest)))))))"

definition checkpoint_of :: "candidate \<Rightarrow> artifact_ref list \<Rightarrow> string \<Rightarrow> checkpoint" where
  "checkpoint_of c artifacts now =
     (let s = sr_summary (er_value (ca_run c)) in
      \<lparr>cp_run = rs_run s, cp_history_key = er_key (ca_history c), cp_request = rs_request s, cp_started = rs_started s,
       cp_ended = (case rs_ended s of None \<Rightarrow> [] | Some e \<Rightarrow> e), cp_artifacts = artifacts, cp_created = now\<rparr>)"

primrec claim_candidates :: "config \<Rightarrow> maintenance_state \<Rightarrow> candidate list \<Rightarrow> maintenance_state prog" where
  "claim_candidates cf m [] = Return m"
| "claim_candidates cf m (c # cs) =
     (if mz_budget m < 1 then Return (m\<lparr>mz_truncated := True\<rparr>)
      else
        pbind (lift (retention_checkpoint_state_key (cf_sha cf) (rs_run (sr_summary (er_value (ca_run c)))))) (\<lambda>key.
        pbind (exec_read (parse_checkpoint (cf_sha cf)) key) (\<lambda>existing.
        if existing \<noteq> None then claim_candidates cf m cs
        else
          pbind (lift (unique_artifact_refs
                   [sr_transcript (er_value (ca_run c)),
                    (case ca_admission c of None \<Rightarrow> None | Some a \<Rightarrow> ad_response (er_value a))])) (\<lambda>artifacts.
          pbind journal_now (\<lambda>now.
          pbind (exec_transaction (put_request key None (encode_checkpoint (checkpoint_of c artifacts now)))) (\<lambda>claimed.
          claim_candidates cf
            (case claimed of TxApplied _ _ \<Rightarrow> m\<lparr>mz_budget := mz_budget m - 1\<rparr> | TxConflict _ \<Rightarrow> m) cs))))))"

text \<open>The sessions of the pass: how many are stale, and how many were removed.\<close>

definition remove_stale_sessions ::
  "bool \<Rightarrow> string \<Rightarrow> maintenance_state \<Rightarrow> provider_session exec_record list \<Rightarrow> (maintenance_state \<times> nat \<times> nat) prog" where
  "remove_stale_sessions dry cutoff m sessions =
     (let stale = filter (\<lambda>r. \<not> text_less cutoff (ps_updated (er_value r))) sessions in
      if \<not> dry \<and> 0 < mz_budget m \<and> stale \<noteq> [] then
        (let selected = take (mz_budget m) stale in
         pbind (exec_transaction (delete_all (map (\<lambda>r. (er_key r, Some (er_version r))) selected))) (\<lambda>deleted.
         case deleted of
           TxConflict _ \<Rightarrow> Throw (PlainError ''stale session retention lost an atomic state race'')
         | TxApplied _ ks \<Rightarrow>
             Return (m\<lparr>mz_budget := mz_budget m - length ks,
               mz_truncated := (mz_truncated m \<or> length selected < length stale)\<rparr>, length stale, length ks)))
      else if \<not> dry \<and> stale \<noteq> [] then Return (m\<lparr>mz_truncated := True\<rparr>, length stale, 0)
      else Return (m, length stale, 0))"

record maintenance_result =
  mr_candidates :: nat
  mr_runs :: nat
  mr_events :: nat
  mr_admissions :: nat
  mr_delivery_candidates :: nat
  mr_deliveries :: nat
  mr_stale_sessions :: nat
  mr_sessions :: nat
  mr_artifacts :: nat
  mr_checkpoints :: nat
  mr_truncated :: bool

record maintenance_input =
  mi_cutoff :: js
  mi_dry :: js
  mi_limit :: js

definition dry_run_flag :: "js \<Rightarrow> bool result" where
  "dry_run_flag v =
     (case v of JUndef \<Rightarrow> Inr False | JNull \<Rightarrow> Inr False | JBool b \<Rightarrow> Inr b | _ \<Rightarrow> Inl (TypeError ''execution maintenance.dryRun''))"

definition with_default :: "js \<Rightarrow> nat \<Rightarrow> js" where
  "with_default v n = (if v = JUndef \<or> v = JNull then JNum (int n) else v)"

definition maintain_execution :: "config \<Rightarrow> maintenance_input \<Rightarrow> maintenance_result prog" where
  "maintain_execution cf input =
     pbind (lift (canonical_timestamp ''execution maintenance.cutoffAt'' (mi_cutoff input))) (\<lambda>cutoff.
     pbind (lift (dry_run_flag (mi_dry input))) (\<lambda>dry.
     pbind (lift (bounded_integer ''execution maintenance.limit'' 1 retention_scan_page_size
              (with_default (mi_limit input) retention_scan_page_size))) (\<lambda>limit.
     pbind (scan_all prefix_checkpoints (parse_checkpoint (cf_sha cf)) retention_reference_scan_max_records) (\<lambda>(checkpoints, t1).
     let m0 = \<lparr>mz_budget = limit, mz_runs = 0, mz_events = 0, mz_admissions = 0, mz_artifacts = 0, mz_truncated = t1\<rparr> in
     pbind (if dry then Return m0 else resume_checkpoints cf m0 checkpoints) (\<lambda>m1.
     pbind (scan_all prefix_history parse_run_history retention_reference_scan_max_records) (\<lambda>(histories, t2).
     pbind (terminal_candidates cf cutoff histories) (\<lambda>candidates.
     let m2 = m1\<lparr>mz_truncated := (mz_truncated m1 \<or> t2)\<rparr> in
     pbind (if dry then Return m2 else claim_candidates cf m2 candidates) (\<lambda>m3.
     pbind (scan_all prefix_sessions parse_provider_session retention_reference_scan_max_records) (\<lambda>(sessions, t3).
     pbind (remove_stale_sessions dry cutoff (m3\<lparr>mz_truncated := (mz_truncated m3 \<or> t3)\<rparr>) sessions) (\<lambda>(m4, stale, removed).
     pbind (scan_all prefix_checkpoints (parse_checkpoint (cf_sha cf)) retention_reference_scan_max_records) (\<lambda>(remaining, t4).
     Return
       \<lparr>mr_candidates = length candidates, mr_runs = mz_runs m4, mr_events = mz_events m4, mr_admissions = mz_admissions m4,
        mr_delivery_candidates = 0, mr_deliveries = 0, mr_stale_sessions = stale, mr_sessions = removed,
        mr_artifacts = mz_artifacts m4, mr_checkpoints = length remaining, mr_truncated = (mz_truncated m4 \<or> t4)\<rparr>)))))))))))"

section \<open>Reconciling publication intents\<close>

record reconciliation =
  rc_examined :: nat
  rc_totals :: reconciled
  rc_next :: "string option"

definition artifact_reconciliation_default_limit :: nat where "artifact_reconciliation_default_limit = 50"
definition artifact_reconciliation_max_limit :: nat where "artifact_reconciliation_max_limit = 200"

primrec reconcile_records :: "config \<Rightarrow> reconciled \<Rightarrow> publication_intent exec_record list \<Rightarrow> reconciled prog" where
  "reconcile_records cf acc [] = Return acc"
| "reconcile_records cf acc (r # rs) =
     pbind (reconcile_artifact_intent cf r) (\<lambda>x.
     reconcile_records cf
       \<lparr>rn_deleted = rn_deleted acc + rn_deleted x, rn_pending = rn_pending acc + rn_pending x,
        rn_skipped = rn_skipped acc + rn_skipped x\<rparr> rs)"

definition reconcile_artifact_publications :: "config \<Rightarrow> js \<Rightarrow> string option \<Rightarrow> reconciliation prog" where
  "reconcile_artifact_publications cf limit_v cursor =
     pbind (lift (bounded_integer ''artifact reconciliation limit'' 1 artifact_reconciliation_max_limit
              (with_default limit_v artifact_reconciliation_default_limit))) (\<lambda>limit.
     pbind (exec_scan prefix_intents cursor limit parse_publication_intent) (\<lambda>(records, next).
     pbind (reconcile_records cf \<lparr>rn_deleted = 0, rn_pending = 0, rn_skipped = 0\<rparr> records) (\<lambda>acc.
     Return \<lparr>rc_examined = length records, rc_totals = acc, rc_next = next\<rparr>)))"

end
