(* ===== verification/ScanLogic.thy ===== *)
theory ScanLogic
  imports JournalConcern
begin

text \<open>
  Rules for the calls a journal makes in loops and under \<^verbatim>\<open>try\<close>: what a scan may assume about the
  records it got, that following cursors ends within its fuel, and how the predicate \<open>wp\<close> passes
  through \<open>pcatch\<close>.
\<close>

section \<open>Pages\<close>

text \<open>A record of a page is the one the store held under its key when the page was read.\<close>

definition scanned :: "(js \<Rightarrow> 'a result) \<Rightarrow> string \<Rightarrow> snapshot \<Rightarrow> 'a exec_record list \<Rightarrow> bool" where
  "scanned parse pre s page \<longleftrightarrow>
     (\<forall>x \<in> set page. prefix pre (er_key x) \<and>
        (\<exists>r. lookup s (er_key x) = Some r \<and> decode_record parse (sv_value r) = Inr (er_value x)
          \<and> x = seen (er_key x) r (er_value x)))"

lemma scan_page_Inr:
  assumes "scan_page v True q s = Inr pg" "1 \<le> sc_limit q" "distinct (map fst (sn_records s))"
  shows "\<forall>rc \<in> set (pg_records pg). find_record s (rc_key rc) = Some rc \<and> prefix (sc_prefix q) (rc_key rc)"
    and "pg_cursor pg \<noteq> None \<longrightarrow> length (pg_records pg) = sc_limit q" "length (pg_records pg) \<le> sc_limit q"
proof -
  obtain after where "decode_scan_cursor (sc_cursor q) (sc_prefix q) v = Inr after"
    using assms(1) by (auto simp: scan_page_def elim!: rbind_InrE)
  then obtain cursor where pg: "pg = page_of (take (sc_limit q) (matching_records is_execution_state_key (sc_prefix q) after s)) cursor"
    and full: "cursor \<noteq> None \<longrightarrow> sc_limit q < length (matching_records is_execution_state_key (sc_prefix q) after s)"
    using assms(1) by (auto simp: scan_page_def Let_def elim!: rbind_InrE split: if_splits)
  show "pg_cursor pg \<noteq> None \<longrightarrow> length (pg_records pg) = sc_limit q" "length (pg_records pg) \<le> sc_limit q"
    using full by (auto simp: pg page_of_def)
  show "\<forall>rc \<in> set (pg_records pg). find_record s (rc_key rc) = Some rc \<and> prefix (sc_prefix q) (rc_key rc)"
  proof
    fix rc assume "rc \<in> set (pg_records pg)"
    then obtain kv where kv: "kv \<in> set (matching_records is_execution_state_key (sc_prefix q) after s)"
      and rc: "rc = to_state_record (fst kv) (snd kv)"
      unfolding pg page_of_def by (auto dest: in_set_takeD)
    then have "(fst kv, snd kv) \<in> set (sn_records s)" "prefix (sc_prefix q) (fst kv)" by (simp_all add: matching_mem)
    then have "lookup s (fst kv) = Some (snd kv)" "prefix (sc_prefix q) (fst kv)"
      using assms(3) by (simp_all add: lookup_def map_of_is_SomeI)
    then show "find_record s (rc_key rc) = Some rc \<and> prefix (sc_prefix q) (rc_key rc)"
      by (simp add: rc find_record_def to_state_record_def)
  qed
qed

lemma internal_scan_result:
  assumes "state_scan_internal c (JStr pre) cursor (JNum (int n)) st = (r, st')"
  shows "st_snap st' = st_snap st"
    and "r = Inr pg \<Longrightarrow> \<exists>q v. scan_page v True q (st_snap st) = Inr pg \<and> sc_prefix q = pre \<and> sc_limit q = n \<and> 1 \<le> n"
proof -
  show "st_snap st' = st_snap st"
    using assms unfolding state_scan_internal_def by (rule scan_with_mode_snap)
  assume r: "r = Inr pg"
  obtain q where q: "normalize_scan validate_execution_state_prefix (JStr pre) cursor (JNum (int n)) = Inr q"
    and run: "guarded c (\<lambda>st. (scan_page validate_execution_state_key True q (st_snap st), st)) st = (r, st')"
    using assms r unfolding state_scan_internal_def scan_with_mode_def by (auto split: sum.splits)
  have "sc_prefix q = pre \<and> sc_limit q = n \<and> 1 \<le> n"
    using q unfolding normalize_scan_def
    by (auto simp: rbind_Inr_iff list_limit_def validate_execution_state_prefix_def validate_state_prefix_def validate_state_key_syntax_def split: if_splits)
  moreover have "scan_page validate_execution_state_key True q (st_snap st) = Inr pg"
    using run r by (auto elim: guarded_cases)
  ultimately show "\<exists>q v. scan_page v True q (st_snap st) = Inr pg \<and> sc_prefix q = pre \<and> sc_limit q = n \<and> 1 \<le> n" by blast
qed

lemma rmap_member: "rmap f xs = Inr ys \<Longrightarrow> y \<in> set ys \<Longrightarrow> \<exists>x \<in> set xs. f x = Inr y"
  unfolding rmap_Inr_iff by (induction rule: list_all2_induct) auto

lemma decoded_page:
  assumes "rmap (decode_state_record parse) rcs = Inr page" "\<forall>rc \<in> set rcs. find_record s (rc_key rc) = Some rc \<and> prefix pre (rc_key rc)"
  shows "scanned parse pre s page"
  unfolding scanned_def
proof
  fix x assume "x \<in> set page"
  then obtain rc where rc: "rc \<in> set rcs" "decode_state_record parse rc = Inr x"
    using assms(1) by (blast dest: rmap_member)
  then obtain y where y: "decode_record parse (rc_value rc) = Inr y" "x = exec_record_of rc y"
    by (auto simp: decode_state_record_def rbind_Inr_iff)
  have "find_record s (rc_key rc) = Some rc" "prefix pre (rc_key rc)" using assms(2) rc(1) by auto
  then obtain r where r: "lookup s (rc_key rc) = Some r" and "rc = to_state_record (rc_key rc) r"
    by (auto simp: find_record_def)
  then have "rc_value rc = sv_value r" "rc_version rc = sv_version r" "rc_updated rc = sv_updated r"
    by (metis state_record.select_convs to_state_record_def)+
  then show "prefix pre (er_key x) \<and> (\<exists>r. lookup s (er_key x) = Some r \<and> decode_record parse (sv_value r) = Inr (er_value x)
      \<and> x = seen (er_key x) r (er_value x))"
    using y r \<open>prefix pre (rc_key rc)\<close> by (auto simp: exec_record_of_def seen_def)
qed

text \<open>The rule of \<^verbatim>\<open>ExecutionStore.scan\<close>. A page with a cursor is full.\<close>

lemma wp_scan:
  assumes "\<And>s1 page next. interf E s s1 \<Longrightarrow> scanned parse pre s1 page \<Longrightarrow> 1 \<le> limit \<Longrightarrow> length page \<le> limit \<Longrightarrow>
      (next \<noteq> None \<longrightarrow> length page = limit) \<Longrightarrow> wp E G Q (k (page, next)) s1"
  shows "wp E G Q (pbind (exec_scan pre cursor limit parse) k) s"
proof (cases "limit < 1 \<or> execution_scan_max_limit < limit")
  case False
  have "wp E G Q (pbind (pbind (lift r) (\<lambda>pg. pbind (lift (rmap (decode_state_record parse) (pg_records pg)))
      (\<lambda>records. Return (records, pg_cursor pg)))) k) (st_snap st')"
    if i: "interf E s (st_snap st)" and run: "state_scan_internal c (JStr pre) (cursor_js cursor) (JNum (int limit)) st = (r, st')"
    for st c r st'
    unfolding pbind_assoc
  proof (intro wp_lift)
    fix pg page assume r: "r = Inr pg" and page: "rmap (decode_state_record parse) (pg_records pg) = Inr page"
    obtain q v where q: "scan_page v True q (st_snap st) = Inr pg" "sc_prefix q = pre" "sc_limit q = limit" "1 \<le> limit"
      using internal_scan_result(2) [OF run r] by blast
    have dis: "distinct (map fst (sn_records (st_snap st)))" using i by (simp add: interf_def snapshot_wf_def)
    note pg = scan_page_Inr [OF q(1) _ dis]
    have "scanned parse pre (st_snap st) page" using page pg(1) q by (intro decoded_page) auto
    moreover have "length page = length (pg_records pg)" using page by (simp add: rmap_length)
    ultimately show "wp E G Q (pbind (Return (page, pg_cursor pg)) k) (st_snap st')"
      using assms [OF i, of page "pg_cursor pg"] pg(2,3) q internal_scan_result(1) [OF run] by simp
  qed
  with False show ?thesis by (simp add: exec_scan_def)
qed (simp add: exec_scan_def)

section \<open>Following cursors\<close>

text \<open>What a loop of scans got: each record was in the store when its page was read.\<close>

definition was_read :: "setting \<Rightarrow> (js \<Rightarrow> 'a result) \<Rightarrow> string \<Rightarrow> snapshot \<Rightarrow> 'a exec_record \<Rightarrow> bool" where
  "was_read E parse pre s x \<longleftrightarrow>
     (\<exists>s0 r. snapshot_wf (se_limits E) s0 \<and> (\<exists>z. interf E z s0) \<and> evolves s0 s \<and> (s0 = s \<or> interf E s0 s)
        \<and> prefix pre (er_key x) \<and> lookup s0 (er_key x) = Some r \<and> decode_record parse (sv_value r) = Inr (er_value x)
        \<and> x = seen (er_key x) r (er_value x))"

lemma was_read_scanned:
  assumes "interf E z s" "scanned parse pre s page" "x \<in> set page"
  shows "was_read E parse pre s x"
  unfolding was_read_def using assms evolves_refl by (fastforce simp: scanned_def dest: interfD)

lemma was_read_later:
  assumes "was_read E parse pre s x" "interf E s s1" "transp (se_rely E)"
  shows "was_read E parse pre s1 x"
proof -
  have "evolves s s1" using assms(2) by (simp add: interf_def)
  then have "evolves s0 s1 \<and> interf E s0 s1" if "evolves s0 s" "s0 = s \<or> interf E s0 s" for s0
    using that assms(2) evolves_trans interf_trans [OF assms(3)] by blast
  with assms(1) show ?thesis unfolding was_read_def by blast
qed

lemma scan_loop_wp:
  assumes t: "transp (se_rely E)" and post: "\<And>s1 out tr. (s1 = s \<or> interf E s s1) \<Longrightarrow> (\<forall>x \<in> set out. was_read E parse pre s1 x) \<Longrightarrow> wp E G Q (k (out, tr)) s1"
  shows "maximum < fuel + length records \<Longrightarrow> length records \<le> maximum \<Longrightarrow> s0 = s \<or> interf E s s0 \<Longrightarrow>
     (\<forall>x \<in> set records. was_read E parse pre s0 x) \<Longrightarrow>
     wp E G Q (pbind (scan_loop fuel pre parse maximum records visited cursor) k) s0"
proof (induction fuel arbitrary: records visited cursor s0)
  case 0
  then show ?case by simp
next
  case (Suc fuel)
  show ?case
  proof (cases "length records < maximum")
    case False
    then show ?thesis using post Suc.prems by simp
  next
    case True
    show ?thesis
      unfolding scan_loop.simps if_P [OF True] pbind_assoc
    proof (rule wp_scan)
      fix s1 page and nxt :: "string option"
      let ?n = "min retention_scan_page_size (maximum - length records)"
      assume i: "interf E s0 s1" and pg: "scanned parse pre s1 page" "1 \<le> ?n" "length page \<le> ?n" "nxt \<noteq> None \<longrightarrow> length page = ?n"
      have s1: "s1 = s \<or> interf E s s1" using Suc.prems(3) i interf_trans [OF t] by blast
      have all: "\<forall>x \<in> set (records @ page). was_read E parse pre s1 x"
        using Suc.prems(4) was_read_later [OF _ i t] was_read_scanned [OF i pg(1)] by auto
      show "wp E G Q (pbind (case (page, nxt) of (page, next) \<Rightarrow> (case next of None \<Rightarrow> Return (records @ page, False)
         | Some c \<Rightarrow> if c \<in> set visited then Throw (PlainError ''execution retention scan cursor did not advance'')
             else scan_loop fuel pre parse maximum (records @ page) (c # visited) (Some c))) k) s1"
      proof (cases nxt)
        case None
        then show ?thesis using post [OF s1 all] by simp
      next
        case (Some c)
        have "wp E G Q (pbind (scan_loop fuel pre parse maximum (records @ page) (c # visited) (Some c)) k) s1"
          by (rule Suc.IH [OF _ _ s1 all]) (use pg Suc.prems(1) True Some in auto)
        then show ?thesis using Some by simp
      qed
    qed
  qed
qed

lemma wp_scan_all:
  assumes "transp (se_rely E)"
    and "\<And>s1 out tr. (s1 = s \<or> interf E s s1) \<Longrightarrow> (\<forall>x \<in> set out. was_read E parse pre s1 x) \<Longrightarrow> wp E G Q (k (out, tr)) s1"
  shows "wp E G Q (pbind (scan_all pre parse maximum) k) s"
  unfolding scan_all_def
  by (rule scan_loop_wp [where s = s and parse = parse and pre = pre and k = k, OF assms(1)]) (auto intro: assms(2))

text \<open>The pages of an event log: at most one turn for every event.\<close>

lemma event_pages_wp:
  assumes post: "\<And>s1 out c. wp E G Q (k (out, c)) s1"
  shows "count < fuel + length events \<Longrightarrow> length events \<le> count \<Longrightarrow> wp E G Q (pbind (read_event_pages fuel pre count events cursor) k) s"
proof (induction fuel arbitrary: events cursor s)
  case 0
  then show ?case by simp
next
  case (Suc fuel)
  show ?case
  proof (cases "count \<le> length events")
    case True
    then show ?thesis using post by simp
  next
    case False
    show ?thesis
      unfolding read_event_pages.simps if_not_P [OF False] pbind_assoc
      by (rule wp_scan) (use post Suc False in \<open>auto simp: Let_def split: option.splits\<close>)
  qed
qed

section \<open>Errors caught\<close>

text \<open>The handler may run at any moment.\<close>

lemma wp_pcatch:
  assumes "wp E (\<lambda>s q s'. G s (pcatch q h) s') Q p s" "\<And>e s. wp E G Q (h e) s"
  shows "wp E G Q (pcatch p h) s"
  using assms(1) by (induction p arbitrary: s) (simp_all add: assms(2))

text \<open>A fact that interference and the program's own commits keep holds wherever the program ends, by
  an answer or by an error.\<close>

lemma wp_pcatch_keeping:
  assumes "wp E (\<lambda>s q s'. G s (pcatch q h) s') (\<lambda>x s. P s \<longrightarrow> Q x s) p s" "P s"
    and "\<And>e s. P s \<Longrightarrow> wp E G Q (h e) s"
    and "\<And>s s'. interf E s s' \<Longrightarrow> P s \<Longrightarrow> P s'" "\<And>s q s'. G s q s' \<Longrightarrow> P s \<Longrightarrow> P s'"
  shows "wp E G Q (pcatch p h) s"
  using assms(1,2)
proof (induction p arbitrary: s)
  case (ReadCall key f)
  show ?case unfolding pcatch.simps wp.simps
  proof (intro allI impI)
    fix st c r st' assume i: "interf E s (st_snap st)" and run: "state_read_internal c (JStr key) st = (r, st')"
    have "P (st_snap st')" using assms(4) [OF i ReadCall.prems(2)] internal_read_result(1) [OF run] by simp
    then show "wp E G Q (pcatch (f r) h) (st_snap st')" using ReadCall i run by (simp add: rangeI)
  qed
next
  case (ScanCall pre cursor n f)
  show ?case unfolding pcatch.simps wp.simps
  proof (intro allI impI)
    fix st c r st' assume i: "interf E s (st_snap st)"
      and run: "state_scan_internal c (JStr pre) (cursor_js cursor) (JNum (int n)) st = (r, st')"
    have "P (st_snap st')" using assms(4) [OF i ScanCall.prems(2)] internal_scan_result(1) [OF run] by simp
    then show "wp E G Q (pcatch (f r) h) (st_snap st')" using ScanCall i run by (simp add: rangeI)
  qed
next
  case (TransactCall q f)
  show ?case unfolding pcatch.simps wp.simps
  proof (intro allI impI)
    fix st c r st' assume i: "interf E s (st_snap st)" and run: "state_transaction_internal (se_limits E) c q st = (r, st')"
    have g: "G (st_snap st) (pcatch (f r) h) (st_snap st')" using TransactCall.prems(1) i run by simp
    have "P (st_snap st')" using assms(5) [OF g assms(4) [OF i TransactCall.prems(2)]] .
    then show "G (st_snap st) (pcatch (f r) h) (st_snap st') \<and> wp E G Q (pcatch (f r) h) (st_snap st')"
      using g TransactCall i run by (simp add: rangeI)
  qed
next
  case (ClockCall f)
  then show ?case using assms(4) by (simp add: rangeI)
next
  case (GenerateCall g f)
  then show ?case using assms(4) by (simp add: rangeI)
next
  case (ArtifactCall a f)
  then show ?case using assms(4) by (simp add: rangeI)
qed (use assms(3) in simp_all)

end
