(* ===== verification/Journal.thy ===== *)
theory Journal
  imports RunSettle DeliveryHistory ConversationJournal MaintenanceJournal ScanLogic
begin

text \<open>
  The journal as its callers see it (\<^verbatim>\<open>DurableRunJournal\<close> of \<^verbatim>\<open>execution-journal.ts\<close>): every
  method is a call with an answer, which the four parts carry out on one store.
\<close>

datatype journal_call =
    Admit admit_input
  | RenewAdmission js js
  | RecordAttempt js js
  | RecordInteraction js js
  | StageRunArtifacts js js js
  | Settle settle_input
  | ReadCachedResponse js
  | LoadTranscript js
  | OpenConversation js
  | SettleDeliveryWithHistory history_input
  | LoadConversation js
  | ListConversations "string option"
  | LoadSession js js
  | EvictProviderSession js js js
  | ReadRun js
  | ListRuns "string option"
  | PrepareDelivery delivery_input
  | SettleDelivery settlement_input
  | ReconcileArtifactPublications js "string option"
  | MaintainExecution maintenance_input

datatype journal_answer =
    AdmitAnswer admission_answer
  | FlagAnswer bool
  | SummaryAnswer run_summary
  | StagedAnswer "(string \<times> artifact_ref) list"
  | BytesAnswer string
  | TranscriptAnswer "canonical_transcript option"
  | ViewAnswer "conversation_view option"
  | HistoryAnswer history_answer
  | ConversationsAnswer "conversation_line list" "string option"
  | SessionAnswer "(runtime_session \<times> string) option"
  | RunAnswer "run_view option"
  | RunsAnswer "run_summary list" "string option"
  | DeliveryAnswer delivery_answer
  | ReconciliationAnswer reconciliation
  | MaintenanceAnswer maintenance_result

definition answer :: "('a \<Rightarrow> journal_answer) \<Rightarrow> 'a prog \<Rightarrow> journal_answer prog" where
  "answer f p = pbind p (\<lambda>x. Return (f x))"

fun journal_prog :: "config \<Rightarrow> journal_call \<Rightarrow> journal_answer prog" where
  "journal_prog cf (Admit i) = answer AdmitAnswer (admit cf i)"
| "journal_prog cf (RenewAdmission request run) = answer FlagAnswer (renew_admission cf request run)"
| "journal_prog cf (RecordAttempt run attempt) = answer SummaryAnswer (record_attempt cf run attempt)"
| "journal_prog cf (RecordInteraction run evidence) = answer SummaryAnswer (record_interaction cf run evidence)"
| "journal_prog cf (StageRunArtifacts run request artifacts) = answer StagedAnswer (stage_run_artifacts cf run request artifacts)"
| "journal_prog cf (Settle i) = answer SummaryAnswer (settle cf i)"
| "journal_prog cf (ReadCachedResponse ref) = answer BytesAnswer (read_cached_response cf ref)"
| "journal_prog cf (LoadTranscript conv) = answer TranscriptAnswer (load_transcript cf conv)"
| "journal_prog cf (OpenConversation i) = answer (\<lambda>v. ViewAnswer (Some v)) (open_conversation cf i)"
| "journal_prog cf (SettleDeliveryWithHistory i) = answer HistoryAnswer (settle_delivery_with_history cf i)"
| "journal_prog cf (LoadConversation conv) = answer ViewAnswer (load_conversation cf conv)"
| "journal_prog cf (ListConversations cursor) = answer (\<lambda>(l, c). ConversationsAnswer l c) (list_conversations cf cursor)"
| "journal_prog cf (LoadSession conv route) = answer SessionAnswer (load_session cf conv route)"
| "journal_prog cf (EvictProviderSession conv route expected) = answer FlagAnswer (evict_session cf conv route expected)"
| "journal_prog cf (ReadRun run) = answer RunAnswer (read_run cf run)"
| "journal_prog cf (ListRuns cursor) = answer (\<lambda>(l, c). RunsAnswer l c) (list_runs cf cursor)"
| "journal_prog cf (PrepareDelivery i) = answer DeliveryAnswer (prepare_delivery cf i)"
| "journal_prog cf (SettleDelivery i) = answer DeliveryAnswer (settle_delivery cf i)"
| "journal_prog cf (ReconcileArtifactPublications limit cursor) = answer ReconciliationAnswer (reconcile_artifact_publications cf limit cursor)"
| "journal_prog cf (MaintainExecution i) = answer MaintenanceAnswer (maintain_execution cf i)"

end
