(* ===== verification/Footprint.thy ===== *)
theory Footprint
  imports Journal
begin

text \<open>
  Which records a journal call may write. \<open>keeps F R p\<close>: whatever other code does meanwhile, every
  commit of \<open>p\<close> changes only keys of the families \<open>F\<close>, every answer satisfies \<open>R\<close>, and \<open>p\<close> never
  hangs. The rules follow the structure of a program; each method is one lemma.
\<close>

section \<open>The predicate and its rules\<close>

definition within :: "key_family set \<Rightarrow> string \<Rightarrow> bool" where
  "within F k \<longleftrightarrow> (\<exists>f \<in> F. in_family f k)"

definition touches :: "key_family set \<Rightarrow> snapshot \<Rightarrow> snapshot \<Rightarrow> bool" where
  "touches F s s' \<longleftrightarrow> (\<forall>k. \<not> within F k \<longrightarrow> lookup s' k = lookup s k)"

definition keeps :: "key_family set \<Rightarrow> ('a \<Rightarrow> bool) \<Rightarrow> 'a prog \<Rightarrow> bool" where
  "keeps F R p \<longleftrightarrow> (\<forall>E s. transp (se_rely E) \<longrightarrow> wp E (\<lambda>s _ s'. touches F s s') (\<lambda>x _. R x) p s)"

named_theorems keeps_intros

lemma touches_refl [simp]: "touches F s s"
  by (simp add: touches_def)

lemma touches_mono: "touches F s s' \<Longrightarrow> F \<subseteq> F' \<Longrightarrow> touches F' s s'"
  by (auto simp: touches_def within_def)

lemma keeps_mono: "keeps F R p \<Longrightarrow> F \<subseteq> F' \<Longrightarrow> (\<And>x. R x \<Longrightarrow> R' x) \<Longrightarrow> keeps F' R' p"
  unfolding keeps_def by (blast intro: wp_mono touches_mono)

lemma keeps_Return [keeps_intros]: "R x \<Longrightarrow> keeps F R (Return x)"
  and keeps_Throw [keeps_intros]: "keeps F R (Throw e)"
  by (simp_all add: keeps_def)

lemma keeps_bind:
  assumes "keeps F R p" "\<And>x. R x \<Longrightarrow> keeps F R' (k x)"
  shows "keeps F R' (pbind p k)"
  unfolding keeps_def
proof (intro allI impI)
  fix E :: setting and s assume t: "transp (se_rely E)"
  then have "wp E (\<lambda>s _ s'. touches F s s') (\<lambda>x _. R x) p s" using assms(1) by (simp add: keeps_def)
  then have "wp E (\<lambda>s _ s'. touches F s s') (\<lambda>x. wp E (\<lambda>s _ s'. touches F s s') (\<lambda>x _. R' x) (k x)) p s"
    by (rule wp_mono) (use assms(2) t in \<open>auto simp: keeps_def\<close>)
  then show "wp E (\<lambda>s _ s'. touches F s s') (\<lambda>x _. R' x) (pbind p k) s" by (rule wp_bind)
qed

lemma keeps_if [keeps_intros]: "(b \<Longrightarrow> keeps F R p) \<Longrightarrow> (\<not> b \<Longrightarrow> keeps F R q) \<Longrightarrow> keeps F R (if b then p else q)"
  by simp

lemma keeps_option [keeps_intros]:
  "(v = None \<Longrightarrow> keeps F R p) \<Longrightarrow> (\<And>x. v = Some x \<Longrightarrow> keeps F R (f x)) \<Longrightarrow> keeps F R (case v of None \<Rightarrow> p | Some x \<Rightarrow> f x)"
  by (cases v) auto

lemma keeps_tx_result [keeps_intros]:
  "(\<And>rs ks. r = TxApplied rs ks \<Longrightarrow> keeps F R (f rs ks)) \<Longrightarrow> (\<And>cs. r = TxConflict cs \<Longrightarrow> keeps F R (g cs)) \<Longrightarrow>
   keeps F R (case r of TxApplied rs ks \<Rightarrow> f rs ks | TxConflict cs \<Rightarrow> g cs)"
  by (cases r) auto

lemma keeps_sum [keeps_intros]:
  "(\<And>e. r = Inl e \<Longrightarrow> keeps F R (f e)) \<Longrightarrow> (\<And>x. r = Inr x \<Longrightarrow> keeps F R (g x)) \<Longrightarrow>
   keeps F R (case r of Inl e \<Rightarrow> f e | Inr x \<Rightarrow> g x)"
  by (cases r) auto

lemma keeps_prod [keeps_intros]:
  "(\<And>x y. p = (x, y) \<Longrightarrow> keeps F R (f x y)) \<Longrightarrow> keeps F R (case p of (x, y) \<Rightarrow> f x y)"
  by (cases p) auto

lemma keeps_let [keeps_intros]: "keeps F R (f x) \<Longrightarrow> keeps F R (let y = x in f y)"
  by simp

lemma keeps_lift [keeps_intros]: "(\<And>x. r = Inr x \<Longrightarrow> R x) \<Longrightarrow> keeps F R (lift r)"
  by (cases r) (auto simp: keeps_def)

lemma keeps_bind_lift [keeps_intros]: "(\<And>x. r = Inr x \<Longrightarrow> keeps F R (k x)) \<Longrightarrow> keeps F R (pbind (lift r) k)"
  by (cases r) (auto simp: keeps_def)

lemma keeps_read [keeps_intros]:
  assumes "keeps F R (k None)"
    and "\<And>x b. er_key x = key \<Longrightarrow> decode_record parse b = Inr (er_value x) \<Longrightarrow> keeps F R (k (Some x))"
  shows "keeps F R (pbind (exec_read parse key) k)"
  unfolding keeps_def
proof (intro allI impI wp_read)
  fix E :: setting and s1 and r :: stored and x
  assume "transp (se_rely E)" "decode_record parse (sv_value r) = Inr x"
  then show "wp E (\<lambda>s _ s'. touches F s s') (\<lambda>x _. R x) (k (Some (seen key r x))) s1"
    using assms(2) [of "seen key r x"] by (simp add: keeps_def)
qed (use assms(1) in \<open>simp add: keeps_def\<close>)

lemma keeps_read_bytes [keeps_intros]:
  assumes "keeps F R (k None)" "\<And>x. er_key x = key \<Longrightarrow> keeps F R (k (Some x))"
  shows "keeps F R (pbind (exec_read_bytes key) k)"
  unfolding keeps_def
proof (intro allI impI wp_read_bytes)
  fix E :: setting and s1 and r :: stored
  assume "transp (se_rely E)"
  then show "wp E (\<lambda>s _ s'. touches F s s') (\<lambda>x _. R x) (k (Some (seen key r (sv_value r)))) s1"
    using assms(2) [of "seen key r (sv_value r)"] by (simp add: keeps_def)
qed (use assms(1) in \<open>simp add: keeps_def\<close>)

definition parsed :: "(js \<Rightarrow> 'a result) \<Rightarrow> string \<Rightarrow> 'a exec_record \<Rightarrow> bool" where
  "parsed parse pre x \<longleftrightarrow> prefix pre (er_key x) \<and> (\<exists>b. decode_record parse b = Inr (er_value x))"

lemma keeps_scan [keeps_intros]:
  assumes "\<And>page nxt. (\<forall>x \<in> set page. parsed parse pre x) \<Longrightarrow> keeps F R (k (page, nxt))"
  shows "keeps F R (pbind (exec_scan pre cursor limit parse) k)"
  unfolding keeps_def
proof (intro allI impI wp_scan)
  fix E :: setting and s1 page and nxt :: "string option"
  assume t: "transp (se_rely E)" and pg: "scanned parse pre s1 page"
  have "\<forall>x \<in> set page. parsed parse pre x" using pg by (auto simp: scanned_def parsed_def)
  with assms t show "wp E (\<lambda>s _ s'. touches F s s') (\<lambda>x _. R x) (k (page, nxt)) s1" by (simp add: keeps_def)
qed

lemma keeps_scan_all [keeps_intros]:
  assumes "\<And>out tr. (\<forall>x \<in> set out. parsed parse pre x) \<Longrightarrow> keeps F R (k (out, tr))"
  shows "keeps F R (pbind (scan_all pre parse maximum) k)"
  unfolding keeps_def
proof (intro allI impI wp_scan_all)
  fix E :: setting and s1 out tr
  assume t: "transp (se_rely E)" and out: "\<forall>x \<in> set out. was_read E parse pre s1 x"
  have "\<forall>x \<in> set out. parsed parse pre x" using out by (auto simp: was_read_def parsed_def)
  with assms t show "wp E (\<lambda>s _ s'. touches F s s') (\<lambda>x _. R x) (k (out, tr)) s1" by (simp add: keeps_def)
qed

lemma encode_put_keys: "rmap encode_put ps = Inr qs \<Longrightarrow> fst ` set qs = fst ` set ps"
  and byte_put_keys: "rmap byte_put bs = Inr cs \<Longrightarrow> fst ` set cs = fst ` set bs"
  unfolding rmap_Inr_iff
  by (induction rule: list_all2_induct; auto simp: encode_put_def byte_put_def rbind_Inr_iff)+

definition request_keys :: "exec_request \<Rightarrow> string set" where
  "request_keys q = fst ` set (xq_puts q) \<union> fst ` set (xq_byte_puts q) \<union> fst ` set (xq_deletes q)"

lemma keeps_transaction [keeps_intros]:
  assumes "\<And>x. x \<in> request_keys q \<Longrightarrow> within F x" "\<And>r. keeps F R (k r)"
  shows "keeps F R (pbind (exec_transaction q) k)"
proof -
  obtain checks puts bytes deletes where q: "q = \<lparr>xq_checks = checks, xq_puts = puts, xq_byte_puts = bytes, xq_deletes = deletes\<rparr>"
    by (cases q)
  show ?thesis unfolding keeps_def q
  proof (intro allI impI wp_transaction)
    fix E :: setting and s1 s2 ps bs rs ks
    assume t: "transp (se_rely E)" and ps: "rmap encode_put puts = Inr ps" and bs: "rmap byte_put bytes = Inr bs"
      and c: "commits checks (ps @ bs) deletes s1 s2"
    have "fst ` set (ps @ bs) \<union> fst ` set deletes = request_keys q"
      using encode_put_keys [OF ps] byte_put_keys [OF bs] by (auto simp: q request_keys_def)
    then have "touches F s1 s2" using c assms(1) unfolding touches_def commits_def by blast
    then show "touches F s1 s2 \<and> wp E (\<lambda>s _ s'. touches F s s') (\<lambda>x _. R x) (k (TxApplied rs ks)) s2"
      using assms(2) t by (simp add: keeps_def)
  qed (use assms(2) in \<open>simp_all add: keeps_def\<close>)
qed

lemma keeps_instant [keeps_intros]: "(\<And>t. keeps F R (k t)) \<Longrightarrow> keeps F R (pbind canonical_instant k)"
  unfolding keeps_def by (blast intro: wp_instant)

lemma keeps_now [keeps_intros]: "(\<And>t. keeps F R (k t)) \<Longrightarrow> keeps F R (pbind journal_now k)"
  unfolding keeps_def by (blast intro: wp_now)

lemma keeps_expired [keeps_intros]: "(\<And>b. keeps F R (k b)) \<Longrightarrow> keeps F R (pbind (is_expired v) k)"
  unfolding keeps_def by (blast intro: wp_expired)

lemma keeps_token [keeps_intros]: "(\<And>t. keeps F R (k t)) \<Longrightarrow> keeps F R (pbind delivery_token k)"
  unfolding keeps_def by (blast intro: wp_token)

lemma keeps_generate [keeps_intros]: "(\<And>v. keeps F R (k v)) \<Longrightarrow> keeps F R (GenerateCall g k)"
  and keeps_artifact [keeps_intros]: "(\<And>v. keeps F R (f v)) \<Longrightarrow> keeps F R (ArtifactCall a f)"
  by (simp_all add: keeps_def)

lemma keeps_catch:
  assumes "keeps F R p" "\<And>e. keeps F R (h e)"
  shows "keeps F R (pcatch p h)"
  using assms unfolding keeps_def by (blast intro: wp_pcatch)

lemmas keeps_step = keeps_bind [where R = "\<lambda>_. True"]

end
