(* ===== verification/FootprintMethods.thy ===== *)
theory FootprintMethods
  imports Footprint
begin

text \<open>Every method of the journal keeps to its families of records, and none of them hangs.\<close>

lemma within_intros [simp]:
  "in_family f k \<Longrightarrow> within F k \<longleftrightarrow> f \<in> F"
  by (auto simp: within_def dest: in_family_unique)

lemma in_family_prefix: "prefix (family_prefix f) k \<Longrightarrow> in_family f k"
  by (simp add: in_family_def)

text \<open>Every key a method computes is in the family of its kind.\<close>

lemma key_in_family:
  "conversation_state_key sha i = Inr k \<Longrightarrow> in_family FamConversation k"
  "admission_state_key sha i = Inr k \<Longrightarrow> in_family FamAdmission k"
  "artifact_intent_state_key sha i = Inr k \<Longrightarrow> in_family FamIntent k"
  "run_state_key sha i = Inr k \<Longrightarrow> in_family FamRun k"
  "run_event_state_key sha i n = Inr k \<Longrightarrow> in_family FamEvent k"
  "run_history_state_key sha t i = Inr k \<Longrightarrow> in_family FamHistory k"
  "delivery_state_key sha i = Inr k \<Longrightarrow> in_family FamDelivery k"
  "delivery_entry_state_key sha i = Inr k \<Longrightarrow> in_family FamDeliveryEntry k"
  "retention_checkpoint_state_key sha i = Inr k \<Longrightarrow> in_family FamCheckpoint k"
  "session_state_key sha i r m = Inr k \<Longrightarrow> in_family FamSession k"
  "conversation_chunk_state_key sha i n d = Inr k \<Longrightarrow> in_family FamChunk k"
  by (auto simp: key_simps) (simp add: in_family_def)

lemmas request_defs = request_keys_def put_request_def delete_request_def delete_all_def

section \<open>Shared methods\<close>

lemma keeps_put_artifact: "keeps F wf_artifact_ref (exec_put_artifact cf data media file)"
  unfolding exec_put_artifact_def by (intro keeps_intros) (auto simp: rbind_Inr_iff intro: parse_artifact_ref_wf)

lemma keeps_read_artifact: "keeps F (\<lambda>_. True) (exec_read_artifact cf r)"
  unfolding exec_read_artifact_def
  by (intro keeps_intros TrueI) (auto intro: keeps_intros split: js.split)

lemma keeps_delete_artifact: "keeps F (\<lambda>_. True) (exec_delete_artifact cf r)"
  unfolding exec_delete_artifact_def
  by (intro keeps_intros TrueI) (auto intro: keeps_intros split: js.split)

lemma keeps_chunk_records:
  "list_all (\<lambda>d. in_family FamChunk (ck_key d)) ds \<Longrightarrow>
   keeps F (\<lambda>cs. \<forall>c \<in> set cs. in_family FamChunk (er_key c)) (load_chunk_records sha bytes ds)"
proof (induction ds arbitrary: bytes)
  case Nil
  then show ?case by (auto intro: keeps_intros)
next
  case (Cons d ds)
  show ?case unfolding load_chunk_records.simps Let_def
    by (intro keeps_intros keeps_bind [OF Cons.IH]) (use Cons.prems in \<open>auto simp: Let_def\<close>)
qed

text \<open>The chunks of a stored conversation are chunk records.\<close>

lemma keeps_load_state:
  assumes "wf_conversation (cf_sha cf) c"
  shows "keeps F (\<lambda>l. \<forall>x \<in> set (lt_chunks l). in_family FamChunk (er_key x)) (load_conversation_transcript_state cf c)"
proof -
  have "keeps F (\<lambda>l. \<forall>x \<in> set (lt_chunks l). in_family FamChunk (er_key x)) (load_transcript_body cf c)"
  proof (cases "cv_body c")
    case (InlineTranscript t)
    then show ?thesis by (auto simp: load_transcript_body_def intro: keeps_intros)
  next
    case (TranscriptChunks m)
    have m: "list_all (\<lambda>d. in_family FamChunk (ck_key d)) (cm_chunks m)"
      unfolding list_all_length
    proof (intro allI impI)
      fix i assume "i < length (cm_chunks m)"
      then have "wf_chunk (cf_sha cf) (cv_conv c) i (cm_chunks m ! i)"
        using assms TranscriptChunks by (simp add: wf_conversation_def wf_body_def wf_manifest_def list_all_iff)
      then show "in_family FamChunk (ck_key (cm_chunks m ! i))" unfolding wf_chunk_def by (blast intro: key_in_family)
    qed
    show ?thesis unfolding load_transcript_body_def TranscriptChunks load_chunked_transcript_def Let_def transcript_body.case
      by (rule keeps_bind [OF keeps_chunk_records [OF m]]) (auto intro!: keeps_intros)
  next
    case (TranscriptRef r)
    show ?thesis unfolding load_transcript_body_def TranscriptRef transcript_body.case
      by (rule keeps_step [OF keeps_read_artifact]) (auto intro!: keeps_intros)
  qed
  note step = keeps_bind [OF this]
  show ?thesis unfolding load_conversation_transcript_state_def by (intro step keeps_intros)
qed

lemma keeps_load_transcript:
  "wf_conversation (cf_sha cf) c \<Longrightarrow> keeps F (\<lambda>_. True) (load_conversation_transcript cf c)"
  unfolding load_conversation_transcript_def
  by (rule keeps_bind [OF keeps_load_state]) (auto intro: keeps_intros)

lemma keeps_require_running: "keeps F (\<lambda>x. in_family FamRun (er_key x)) (require_running_run cf run)"
  unfolding require_running_run_def by (intro keeps_intros) (auto dest: key_in_family)

lemma keeps_require_admission: "keeps F (\<lambda>_. True) (require_running_admission cf request run conv)"
  unfolding require_running_admission_def by (intro keeps_intros TrueI)

lemma keeps_store_intent:
  assumes "in_family FamIntent key" "FamIntent \<in> F" "keeps F (\<lambda>e. er_key (ei_record e) = key) again"
  shows "keeps F (\<lambda>e. er_key (ei_record e) = key) (store_intent key run adm ev v ids again)"
  unfolding store_intent_def by (intro keeps_intros assms(3)) (use assms in \<open>auto simp: request_defs\<close>)

lemma keeps_ensure_once:
  assumes "in_family FamIntent key" "FamIntent \<in> F" "keeps F (\<lambda>e. er_key (ei_record e) = key) again"
  shows "keeps F (\<lambda>e. er_key (ei_record e) = key) (ensure_once cf key run request additions again)"
  unfolding ensure_once_def
  by (rule keeps_bind [OF keeps_require_running], intro keeps_intros, rule keeps_step [OF keeps_require_admission])
    (intro keeps_intros keeps_store_intent assms; auto)

lemma keeps_ensure:
  assumes "FamIntent \<in> F"
  shows "keeps F (\<lambda>e. in_family FamIntent (er_key (ei_record e))) (ensure_artifact_intent cf run request ds)"
proof -
  have loop: "keeps F (\<lambda>e. er_key (ei_record e) = key) (ensure_loop n cf key run request ads)" if "in_family FamIntent key" for n key ads
    by (induction n) (auto intro: keeps_intros keeps_ensure_once [OF that assms])
  show ?thesis unfolding ensure_artifact_intent_def
    by (intro keeps_intros) (rule keeps_mono [OF loop], auto dest: key_in_family)
qed

section \<open>Cleanup of intents\<close>

lemma keeps_abandon:
  assumes "in_family FamIntent (er_key (ei_record ensured))" "FamIntent \<in> F"
  shows "keeps F (\<lambda>r. \<forall>x. r = Some x \<longrightarrow> in_family FamIntent (er_key x)) (abandon_artifact_publication ensured published)"
proof -
  have "keeps F (\<lambda>r. \<forall>x. r = Some x \<longrightarrow> in_family FamIntent (er_key x)) (abandon_loop n ensured published)" for n
  proof (induction n)
    case 0
    then show ?case by (auto intro: keeps_intros)
  next
    case (Suc n)
    show ?case unfolding abandon_loop.simps abandon_once_def Let_def
      by (intro keeps_intros Suc.IH) (use assms in \<open>auto simp: request_defs\<close>)
  qed
  then show ?thesis by (simp add: abandon_artifact_publication_def)
qed

lemma keeps_candidates: "keeps F (\<lambda>_. True) (delete_candidates cf proven as)"
proof (induction as arbitrary: proven)
  case Nil
  then show ?case by (auto intro: keeps_intros)
next
  case (Cons a as)
  have "keeps F (\<lambda>_. True) (pcatch (pbind (lift (artifact_reference a)) (exec_delete_artifact cf)) (\<lambda>e. Return False))"
    by (rule keeps_catch) (intro keeps_intros keeps_delete_artifact TrueI)+
  note step = keeps_step [OF this]
  show ?case unfolding delete_candidates.simps by (intro keeps_intros step Cons.IH)
qed

lemma keeps_finish_cleanup:
  assumes "in_family FamIntent (er_key current)" "FamIntent \<in> F" "\<And>p. keeps F (\<lambda>_. True) (again p)"
  shows "keeps F (\<lambda>_. True) (finish_cleanup cf proven current again)"
  unfolding finish_cleanup_def Let_def
proof (intro keeps_intros TrueI keeps_step [OF keeps_candidates], goal_cases)
  case (1 proven' cleanup)
  have "keeps F (\<lambda>_. True) (if pi_artifacts (er_value current) = [] \<and> cleanup = []
      then exec_transaction (delete_request (er_key current) (Some (er_version current)))
      else pbind journal_now (\<lambda>now. exec_transaction (put_request (er_key current) (Some (er_version current))
        (encode_publication_intent ((er_value current)\<lparr>pi_cleanup := cleanup, pi_updated := now\<rparr>)))))"
    by (intro keeps_intros keeps_transaction [where k = Return, simplified] TrueI) (use assms in \<open>auto simp: request_defs\<close>)
  then show ?case by (rule keeps_step) (intro keeps_intros TrueI assms(3))
qed

lemma keeps_reconcile_once:
  assumes "in_family FamIntent (er_key current)" "FamIntent \<in> F" "\<And>p. keeps F (\<lambda>_. True) (again p)"
  shows "keeps F (\<lambda>_. True) (reconcile_once cf proven current again)"
  unfolding reconcile_once_def Let_def
  by (intro keeps_intros keeps_finish_cleanup assms) (use assms in \<open>auto simp: request_defs\<close>)

lemma keeps_reconcile:
  assumes "in_family FamIntent (er_key r)" "FamIntent \<in> F"
  shows "keeps F (\<lambda>_. True) (reconcile_artifact_intent cf r)"
proof -
  have "keeps F (\<lambda>_. True) (reconcile_loop n cf (er_key r) proven)" for n proven
  proof (induction n arbitrary: proven)
    case (Suc n)
    show ?case unfolding reconcile_loop.simps
      by (intro keeps_intros keeps_reconcile_once Suc.IH TrueI) (use assms in auto)
  qed (auto intro: keeps_intros)
  then show ?thesis unfolding reconcile_artifact_intent_def by (intro keeps_reconcile_once assms)
qed

lemma keeps_best_reconcile: "FamIntent \<in> F \<Longrightarrow> keeps F (\<lambda>_. True) (best_effort_reconcile cf run)"
  unfolding best_effort_reconcile_def
  by (intro keeps_catch keeps_intros TrueI keeps_step [OF keeps_reconcile]) (auto dest: key_in_family)

lemma keeps_best_abandon:
  assumes "in_family FamIntent (er_key (ei_record ensured))" "FamIntent \<in> F"
  shows "keeps F (\<lambda>_. True) (best_effort_abandon cf ensured published)"
  unfolding best_effort_abandon_def
  by (rule keeps_catch, rule keeps_bind [OF keeps_abandon [OF assms]])
    (intro keeps_intros TrueI keeps_step [OF keeps_reconcile]; use assms in auto)+

section \<open>Runs\<close>

lemma event_puts_key: "event_puts cf e = Inr ps \<Longrightarrow> \<exists>k v. ps = [(k, None, v)] \<and> in_family FamEvent k"
  by (auto simp: event_puts_def rbind_Inr_iff dest: key_in_family)

lemma stale_intent_keys:
  "stale_intent_puts now a found = Inr ps \<Longrightarrow> (\<And>x. found = Some x \<Longrightarrow> er_key x = k) \<Longrightarrow> fst ` set ps \<subseteq> {k}"
  by (auto simp: stale_intent_puts_def Let_def rbind_Inr_iff split: option.splits if_splits)

lemma keeps_classify_stale:
  assumes "in_family FamAdmission (er_key adm)" "{FamAdmission, FamRun, FamEvent, FamIntent} \<subseteq> F" "keeps F (\<lambda>_. True) again"
  shows "keeps F (\<lambda>_. True) (classify_stale cf adm again)"
proof -
  note puts = request_defs run_put_def admission_put_def
  have best: "keeps F (\<lambda>_. True) (pbind (if b then Return () else best_effort_reconcile cf run) (\<lambda>_. Return (AdmissionUncertain run)))" for b run
    by (rule keeps_step) (intro keeps_intros keeps_best_reconcile TrueI; use assms(2) in auto)+
  show ?thesis unfolding classify_stale_def Let_def
    by (intro keeps_intros best assms(3) TrueI)
      (use assms(1,2) in \<open>auto simp: puts dest!: key_in_family event_puts_key stale_intent_keys\<close>)
qed

lemma keeps_existing_admission:
  assumes "{FamAdmission, FamRun, FamEvent, FamIntent} \<subseteq> F" "in_family FamAdmission (er_key adm)"
  shows "keeps F (\<lambda>_. True) (existing_admission n cf adm conv fp)"
  using assms(2)
proof (induction n arbitrary: adm)
  case 0
  then show ?case by (auto intro: keeps_intros)
next
  case (Suc n)
  have best: "keeps F (\<lambda>_. True) (pbind (best_effort_reconcile cf run) (\<lambda>_. Return x))" for run and x :: admission_answer
    by (rule keeps_step [OF keeps_best_reconcile]) (use assms(1) in \<open>auto intro: keeps_intros\<close>)
  have again: "keeps F (\<lambda>_. True) (case n of
        0 \<Rightarrow> Throw (PlainError ''stale admission classification did not converge'')
      | Suc m \<Rightarrow> pbind (exec_read parse_admission (er_key adm)) (\<lambda>current. case current of
          None \<Rightarrow> Throw (PlainError ''admission disappeared during stale classification'')
        | Some c \<Rightarrow> existing_admission n cf c conv fp))"
    by (cases n) (use Suc.IH Suc.prems in \<open>auto intro!: keeps_intros simp del: existing_admission.simps\<close>)
  show ?case unfolding existing_admission.simps Let_def
    by (intro keeps_intros best keeps_classify_stale Suc.prems assms(1) again TrueI)
qed

lemma keeps_admit:
  assumes "{FamAdmission, FamRun, FamEvent, FamIntent, FamHistory} \<subseteq> F"
  shows "keeps F (\<lambda>_. True) (admit cf input)"
proof -
  have id: "keeps F (\<lambda>_. True) (choose_run_id v)" for v
    unfolding choose_run_id_def by (rule keeps_step) (intro keeps_intros TrueI)+
  have fresh: "keeps F (\<lambda>_. True) (admit_new cf akey request conv fp run_v again)"
    if "in_family FamAdmission akey" "keeps F (\<lambda>_. True) again" for akey request conv fp run_v again
    unfolding admit_new_def
    by (rule keeps_step [OF id], intro keeps_intros that(2) TrueI)
      (use assms that(1) in \<open>auto simp: request_defs dest!: event_puts_key key_in_family\<close>)
  have loop: "keeps F (\<lambda>_. True) (admit_loop n cf akey request conv fp run_v)"
    if "in_family FamAdmission akey" for n akey request conv fp run_v
    by (induction n) (use assms that in \<open>auto intro!: keeps_intros fresh keeps_existing_admission\<close>)
  show ?thesis unfolding admit_def by (intro keeps_intros loop) (auto dest: key_in_family)
qed

lemma keeps_renew:
  assumes "FamAdmission \<in> F"
  shows "keeps F (\<lambda>_. True) (renew_admission cf request_v run_v)"
  unfolding renew_admission_def Let_def
  by (intro keeps_intros TrueI) (use assms in \<open>auto simp: request_defs rbind_Inr_iff dest!: key_in_family\<close>)

lemma keeps_commit_event:
  assumes "in_family FamRun (er_key stored)" "{FamRun, FamEvent} \<subseteq> F" "keeps F (\<lambda>_. True) again"
  shows "keeps F (\<lambda>_. True) (commit_run_event cf stored sv e again)"
  unfolding commit_run_event_def
  by (intro keeps_intros assms(3) TrueI) (use assms(1,2) in \<open>auto simp: request_defs run_put_def dest!: event_puts_key\<close>)

lemma keeps_record_attempt:
  assumes "{FamRun, FamEvent} \<subseteq> F"
  shows "keeps F (\<lambda>_. True) (record_attempt cf run_v attempt_v)"
proof -
  have update: "keeps F (\<lambda>_. True) (case u of AlreadyRecorded \<Rightarrow> p | NewAttempts as \<Rightarrow> q as)"
    if "keeps F (\<lambda>_. True) p" "\<And>as. keeps F (\<lambda>_. True) (q as)" for u and p :: "run_summary prog" and q
    using that by (cases u) auto
  have loop: "keeps F (\<lambda>_. True) (record_attempt_loop n cf run evidence)" for n run evidence
  proof (induction n)
    case (Suc n)
    show ?case unfolding record_attempt_loop.simps Let_def
      by (rule keeps_bind [OF keeps_require_running]) (intro keeps_intros update keeps_commit_event assms Suc.IH TrueI)
  qed (auto intro: keeps_intros)
  show ?thesis unfolding record_attempt_def by (intro keeps_intros loop)
qed

lemma keeps_record_interaction:
  assumes "{FamRun, FamEvent} \<subseteq> F"
  shows "keeps F (\<lambda>_. True) (record_interaction cf run_v evidence_v)"
proof -
  have loop: "keeps F (\<lambda>_. True) (record_interaction_loop n cf run evidence)" for n run evidence
  proof (induction n)
    case (Suc n)
    show ?case unfolding record_interaction_loop.simps
      by (rule keeps_bind [OF keeps_require_running]) (intro keeps_intros keeps_commit_event assms Suc.IH)
  qed (auto intro: keeps_intros)
  show ?thesis unfolding record_interaction_def by (intro keeps_intros loop)
qed

text \<open>Publishing with an intent that is a publication intent record.\<close>

definition intent_record_of :: "ensured_intent option \<Rightarrow> bool" where
  "intent_record_of e \<longleftrightarrow> (\<forall>x. e = Some x \<longrightarrow> in_family FamIntent (er_key (ei_record x)))"

lemma keeps_publish_one:
  assumes "intent_record_of ensured" "FamIntent \<in> F"
  shows "keeps F (\<lambda>(ref, _). wf_artifact_ref ref) (publish_one cf ensured published data media file d)"
proof -
  have put: "keeps F (\<lambda>r. \<forall>ref. r = Inr ref \<longrightarrow> wf_artifact_ref ref) (pcatch (pbind (exec_put_artifact cf data media file) (\<lambda>ref. Return (Inr ref))) (\<lambda>e. Return (Inl e)))"
    by (rule keeps_catch) (intro keeps_bind [OF keeps_put_artifact] keeps_intros; simp)+
  have abandon: "keeps F (\<lambda>(ref, _). wf_artifact_ref ref) (pbind (case ensured of None \<Rightarrow> Return () | Some en \<Rightarrow> best_effort_abandon cf en published') (\<lambda>_. Throw e))"
    for published' e
    by (rule keeps_step) (intro keeps_intros keeps_best_abandon assms(2) TrueI; use assms(1) in \<open>auto simp: intent_record_of_def\<close>)+
  show ?thesis unfolding publish_one_def Let_def
    by (rule keeps_bind [OF put]) (intro keeps_intros abandon; simp)
qed

lemma keeps_stage:
  assumes "FamIntent \<in> F"
  shows "keeps F (\<lambda>_. True) (stage_run_artifacts cf run_v request_v artifacts_v)"
proof -
  have plans: "keeps F (\<lambda>_. True) (publish_plans cf ensured published ps)" if "intent_record_of (Some ensured)" for ensured published ps
    by (induction ps arbitrary: published)
      (auto intro!: keeps_intros keeps_bind [OF keeps_publish_one [OF that assms]] intro: keeps_step)
  show ?thesis unfolding stage_run_artifacts_def
    by (intro keeps_intros keeps_bind [OF keeps_ensure [OF assms]] plans TrueI) (simp add: intent_record_of_def)
qed

lemma keeps_read_run: "keeps F (\<lambda>_. True) (read_run cf run_v)"
proof -
  have events: "keeps F (\<lambda>_. True) (read_events cf r)" for r
  proof -
    have "keeps F (\<lambda>_. True) (pbind (read_event_pages (Suc n) pre n [] None) k)" if "\<And>x. keeps F (\<lambda>_. True) (k x)" for n pre
      and k :: "_ \<Rightarrow> run_event list prog"
      using that unfolding keeps_def by (auto intro!: event_pages_wp simp del: read_event_pages.simps)
    note pages = this
    show ?thesis unfolding read_events_def Let_def by (intro keeps_intros pages TrueI)
  qed
  have transcript: "keeps F (\<lambda>_. True) (read_run_transcript cf r)" for r
    unfolding read_run_transcript_def by (intro keeps_intros keeps_step [OF keeps_read_artifact] TrueI)
  show ?thesis unfolding read_run_def
    by (intro keeps_intros keeps_step [OF events] keeps_step [OF transcript] TrueI)
qed

lemma keeps_list_runs: "keeps F (\<lambda>_. True) (list_runs cf cursor)"
proof -
  have "keeps F (\<lambda>_. True) (summaries_of cf hs)" for hs
    by (induction hs) (auto intro!: keeps_intros intro: keeps_step)
  note step = keeps_step [OF this]
  show ?thesis unfolding list_runs_def by (intro keeps_intros step TrueI)
qed

section \<open>Settlement\<close>

lemma keeps_settle_admission: "keeps F (\<lambda>a. in_family FamAdmission (er_key a)) (settle_admission cf run request conv)"
  unfolding settle_admission_def by (intro keeps_intros) (auto dest: key_in_family)

definition plan_chunks_ok :: "transcript_plan \<Rightarrow> bool" where
  "plan_chunks_ok t \<longleftrightarrow> (\<forall>c \<in> set (tp_chunks t). in_family FamChunk (er_key c))"

lemma keeps_plan_transcript: "keeps F plan_chunks_ok (plan_transcript cf conv v)"
proof -
  have load: "keeps F (\<lambda>cs. \<forall>c \<in> set cs. in_family FamChunk (er_key c)) (case found of None \<Rightarrow> Return []
      | Some c \<Rightarrow> pbind (load_conversation_transcript_state cf (er_value c)) (\<lambda>loaded.
          if ct_revision (lt_transcript loaded) \<noteq> cv_revision (er_value c) \<or> length (ct_entries (lt_transcript loaded)) \<noteq> cv_count (er_value c)
          then Throw (PlainError ''canonical transcript pointer does not match its artifact'')
          else pbind (lift (assert_append_only (lt_transcript loaded) t)) (\<lambda>_. Return (lt_chunks loaded))))"
    if "\<And>c. found = Some c \<Longrightarrow> wf_conversation (cf_sha cf) (er_value c)" for found t
    by (intro keeps_intros keeps_bind [OF keeps_load_state]) (auto intro: that)
  show ?thesis unfolding plan_transcript_def
    by (intro keeps_intros keeps_bind [OF load])
      (auto simp: plan_chunks_ok_def intro: conversation_codec.decoded_wf)
qed

definition session_plan_ok :: "session_plan \<Rightarrow> bool" where
  "session_plan_ok p \<longleftrightarrow> (case p of NoSession \<Rightarrow> True | StoreSession k _ _ \<Rightarrow> in_family FamSession k | EvictSession k _ \<Rightarrow> in_family FamSession k)"

lemma keeps_plan_session: "keeps F session_plan_ok (plan_session cf conv input)"
  unfolding plan_session_def plan_session_store_def plan_session_eviction_def
  by (intro keeps_intros) (auto simp: session_plan_ok_def dest: key_in_family)

lemma keeps_settlement_intent:
  assumes "FamIntent \<in> F"
  shows "keeps F (\<lambda>(e, i). intent_record_of e \<and> (\<forall>x. i = Some x \<longrightarrow> in_family FamIntent (er_key x))) (settlement_intent cf run request ds)"
  unfolding settlement_intent_def
  by (intro keeps_intros keeps_bind [OF keeps_ensure [OF assms]]) (auto simp: intent_record_of_def dest: key_in_family)

lemma keeps_check_staged: "keeps F (\<lambda>_. True) (check_staged cf intent transcript)"
proof -
  have "keeps F (\<lambda>_. True) (read_all_artifacts cf rs)" for rs
    by (induction rs) (auto intro!: keeps_intros intro: keeps_step [OF keeps_read_artifact])
  then show ?thesis unfolding check_staged_def by (intro keeps_intros) auto
qed

lemma keeps_publish_slot:
  assumes "intent_record_of ensured" "FamIntent \<in> F"
  shows "keeps F (\<lambda>(ref, _). opt_ok wf_artifact_ref ref \<and> (ref = None) = (plan = None)) (publish_slot cf ensured published media plan)"
  unfolding publish_slot_def
  by (intro keeps_intros keeps_bind [OF keeps_publish_one [OF assms]]) (auto simp: opt_ok_def)

definition parts_ok :: "settlement_parts \<Rightarrow> bool" where
  "parts_ok p \<longleftrightarrow> in_family FamRun (er_key (sp_run p)) \<and> in_family FamAdmission (er_key (sp_admission p))
     \<and> (\<forall>t. sp_transcript p = Some t \<longrightarrow> plan_chunks_ok t) \<and> session_plan_ok (sp_session p)
     \<and> (\<forall>x. sp_intent p = Some x \<longrightarrow> in_family FamIntent (er_key x))"

lemma settlement_keys:
  assumes "parts_ok p" "event_puts cf e = Inr ep" "conversation_put cf (sp_transcript p) tref now = Inr cp"
    and "x \<in> request_keys \<lparr>xq_checks = [], xq_puts = [run_put (sp_run p) r, admission_put (sp_admission p) a]
        @ ep @ cp @ session_puts (sp_session p) @ intent_puts (retained_intent (sp_intent p) cleanup now), xq_byte_puts = [],
      xq_deletes = intent_deletes (sp_intent p) (retained_intent (sp_intent p) cleanup now)
        @ session_deletes (sp_session p) @ chunk_deletes (sp_transcript p)\<rparr>"
  shows "within {FamRun, FamAdmission, FamEvent, FamConversation, FamSession, FamIntent, FamChunk} x"
proof -
  note ok = assms(1) [unfolded parts_ok_def]
  have s: "x \<in> fst ` set (session_puts (sp_session p)) \<union> fst ` set (session_deletes (sp_session p)) \<Longrightarrow> in_family FamSession x"
    using ok by (auto simp: session_puts_def session_deletes_def session_plan_ok_def split: session_plan.splits)
  have i: "x \<in> fst ` set (intent_puts (retained_intent (sp_intent p) cleanup now))
      \<union> fst ` set (intent_deletes (sp_intent p) (retained_intent (sp_intent p) cleanup now)) \<Longrightarrow> in_family FamIntent x"
    using ok by (auto simp: intent_puts_def intent_deletes_def retained_intent_def split: option.splits if_splits)
  have c: "x \<in> fst ` set (chunk_deletes (sp_transcript p)) \<Longrightarrow> in_family FamChunk x"
    using ok by (cases "sp_transcript p") (auto simp: chunk_deletes_def plan_chunks_ok_def)
  have v: "x \<in> fst ` set cp \<Longrightarrow> in_family FamConversation x"
    using assms(3) by (auto simp: conversation_put_def rbind_Inr_iff dest: key_in_family split: option.splits)
  have e: "x \<in> fst ` set ep \<Longrightarrow> in_family FamEvent x" using event_puts_key [OF assms(2)] by auto
  have r: "x = er_key (sp_run p) \<Longrightarrow> in_family FamRun x" "x = er_key (sp_admission p) \<Longrightarrow> in_family FamAdmission x"
    using ok by auto
  show ?thesis using assms(4) s i c v e r
    unfolding request_keys_def within_def by (simp add: run_put_def admission_put_def image_Un) blast
qed

lemma keeps_commit_settlement:
  assumes "parts_ok p" "{FamRun, FamAdmission, FamEvent, FamConversation, FamSession, FamIntent, FamChunk} \<subseteq> F"
  shows "keeps F (\<lambda>_. True) (commit_settlement cf p)"
proof -
  have best: "keeps F (\<lambda>_. True) (pbind (if b then Return () else best_effort_reconcile cf run) (\<lambda>_. Return (x :: run_summary)))" for b run x
    by (rule keeps_step) (intro keeps_intros keeps_best_reconcile TrueI; use assms(2) in auto)+
  have mono: "within {FamRun, FamAdmission, FamEvent, FamConversation, FamSession, FamIntent, FamChunk} x \<Longrightarrow> within F x" for x
    using assms(2) by (auto simp: within_def)
  show ?thesis unfolding commit_settlement_def Let_def
    by (intro keeps_intros best TrueI) (rule mono, rule settlement_keys [OF assms(1)])
qed

lemma keeps_settle:
  assumes "{FamRun, FamAdmission, FamEvent, FamConversation, FamSession, FamIntent, FamChunk} \<subseteq> F"
  shows "keeps F (\<lambda>_. True) (settle cf input)"
proof -
  have i: "FamIntent \<in> F" using assms by auto
  have plan: "keeps F (\<lambda>r. \<forall>t. r = Some t \<longrightarrow> plan_chunks_ok t) (if b then Return None
      else pbind (plan_transcript cf conv v) (\<lambda>t. Return (Some t)))" for b conv v
    by (intro keeps_intros keeps_bind [OF keeps_plan_transcript]) auto
  have "keeps F (\<lambda>_. True) (settle_running cf input run request status failure stored)"
    if "in_family FamRun (er_key stored)" for run request status failure stored
    unfolding settle_running_def Let_def
    by (intro keeps_intros keeps_bind [OF keeps_settle_admission] keeps_bind [OF plan] keeps_bind [OF keeps_plan_session]
        keeps_bind [OF keeps_settlement_intent [OF i]] keeps_step [OF keeps_check_staged] keeps_bind [OF keeps_publish_slot [OF _ i]]
        keeps_commit_settlement assms)
      (use that in \<open>auto simp: parts_ok_def\<close>)
  note run = this
  show ?thesis unfolding settle_def Let_def by (intro keeps_intros run TrueI) (auto dest: key_in_family)
qed

section \<open>Conversations, sessions and deliveries\<close>

lemma chunked_keys:
  assumes "chunk_canonical_transcript sha t = Inr (m, cs)" "wf_transcript t" "c \<in> set cs"
  shows "in_family FamChunk (ck_key (tc_descriptor c))"
proof -
  obtain j where "j < length cs" "c = cs ! j" using assms(3) by (auto simp: in_set_conv_nth)
  then have "chunk_ok sha (ct_conv t) j c" using chunk_transcript_Inr(5) [OF assms(1,2)] by blast
  then show ?thesis unfolding chunk_ok_def by (blast intro: key_in_family)
qed

lemma chunk_within:
  "chunk_canonical_transcript sha t = Inr (m, cs) \<Longrightarrow> wf_transcript t \<Longrightarrow> c \<in> set cs \<Longrightarrow> FamChunk \<in> F \<Longrightarrow> within F (ck_key (tc_descriptor c))"
  unfolding within_def using chunked_keys by blast

lemma keeps_load_transcript_call: "keeps F (\<lambda>_. True) (load_transcript cf conv_v)"
  unfolding load_transcript_def
  by (intro keeps_intros keeps_step [OF keeps_load_transcript] TrueI) (auto intro: conversation_codec.decoded_wf)

lemma keeps_load_conversation: "keeps F (\<lambda>_. True) (load_conversation cf conv_v)"
  unfolding load_conversation_def Let_def
  by (intro keeps_intros keeps_step [OF keeps_load_transcript] TrueI) (auto intro: conversation_codec.decoded_wf)

lemma keeps_list_conversations: "keeps F (\<lambda>_. True) (list_conversations cf cursor)"
  unfolding list_conversations_def by (intro keeps_intros TrueI)

lemma keeps_load_session: "keeps F (\<lambda>_. True) (load_session cf conv_v route_v)"
  unfolding load_session_def by (intro keeps_intros TrueI)

lemma keeps_open:
  assumes "{FamConversation, FamChunk} \<subseteq> F"
  shows "keeps F (\<lambda>_. True) (open_conversation cf input)"
proof -
  have id: "keeps F (\<lambda>_. True) proactive_id"
    unfolding proactive_id_def by (intro keeps_intros) (auto intro: keeps_intros split: js.split)
  have "keeps F (\<lambda>_. True) (open_loop n cf title initial metadata)" for n title initial metadata
  proof (induction n)
    case (Suc n)
    show ?case unfolding open_loop.simps open_once_def
      by (rule keeps_step [OF id], intro keeps_intros Suc.IH TrueI)
        (use assms in \<open>auto simp: request_defs dest!: key_in_family\<close>, (blast intro: chunk_within parse_transcript_wf)+)
  qed (auto intro: keeps_intros)
  note loop = this
  show ?thesis unfolding open_conversation_def by (intro keeps_intros loop)
qed

lemma keeps_evict:
  assumes "FamSession \<in> F"
  shows "keeps F (\<lambda>_. True) (evict_session cf conv_v route_v expected_v)"
  unfolding evict_session_def
  by (intro keeps_intros TrueI) (use assms in \<open>auto simp: request_defs dest: key_in_family\<close>)

lemma keeps_prepare:
  assumes "FamDelivery \<in> F"
  shows "keeps F (\<lambda>_. True) (prepare_delivery cf input)"
proof -
  have "keeps F (\<lambda>_. True) (prepare_loop n cf key ident fp ch run)" if "in_family FamDelivery key" for n key ident fp ch run
  proof (induction n)
    case (Suc n)
    show ?case unfolding prepare_loop.simps claim_absent_def prepare_existing_def expire_intent_def retry_failed_def Let_def
      by (intro keeps_intros Suc.IH TrueI) (use that assms in \<open>auto simp: request_defs\<close>)
  qed (auto intro: keeps_intros)
  note loop = this
  show ?thesis unfolding prepare_delivery_def by (intro keeps_intros loop) (auto dest: key_in_family)
qed

lemma keeps_settle_delivery:
  assumes "FamDelivery \<in> F"
  shows "keeps F (\<lambda>_. True) (settle_delivery cf input)"
  unfolding settle_delivery_def settle_found_def settle_active_def Let_def
  by (intro keeps_intros TrueI) (use assms in \<open>auto simp: request_defs dest: key_in_family\<close>)

section \<open>Settlement with destination history\<close>

lemma history_chunk_keys:
  "x \<in> fst ` set (chunk_puts previous cs) \<Longrightarrow> x \<in> (\<lambda>c. ck_key (tc_descriptor c)) ` set cs"
  "x \<in> fst ` set (stale_chunks previous cs) \<Longrightarrow> x \<in> er_key ` set previous"
  by (auto simp: chunk_puts_def stale_chunks_def split: option.splits)

definition loaded_chunks_ok :: "loaded_transcript option \<Rightarrow> bool" where
  "loaded_chunks_ok l \<longleftrightarrow> (\<forall>t. l = Some t \<longrightarrow> (\<forall>x \<in> set (lt_chunks t). in_family FamChunk (er_key x)))"

definition request_ok :: "history_request \<Rightarrow> bool" where
  "request_ok h \<longleftrightarrow> in_family FamDelivery (hq_delivery_key h) \<and> in_family FamDeliveryEntry (hq_binding_key h)"

lemma parse_history_ok: "parse_history_input cf input = Inr h \<Longrightarrow> request_ok h"
  unfolding parse_history_input_def request_ok_def by (elim rbind_InrE) (auto dest: key_in_family)

lemma append_wf: "append_canonical_transcript t conv es = Inr t' \<Longrightarrow> wf_transcript t'"
  unfolding append_canonical_transcript_def Let_def by (elim rbind_InrE) (auto dest: parse_transcript_wf)

lemma keeps_append_history:
  assumes "request_ok h" "in_family FamConversation ckey" "loaded_chunks_ok loaded" "keeps F (\<lambda>_. True) again"
    and "{FamDelivery, FamDeliveryEntry, FamConversation, FamChunk} \<subseteq> F"
  shows "keeps F (\<lambda>_. True) (append_history cf h existing ckey found loaded again)"
proof -
  have prev: "in_family FamChunk (er_key c)" if "c \<in> set (case loaded of None \<Rightarrow> [] | Some l \<Rightarrow> lt_chunks l)" for c
    using that assms(3) by (cases loaded) (auto simp: loaded_chunks_ok_def)
  show ?thesis unfolding append_history_def Let_def
  proof (intro keeps_intros assms(4) TrueI, goal_cases)
    case (1 now t cm manifest cs x)
    have new: "in_family FamChunk (ck_key (tc_descriptor c))" if "c \<in> set cs" for c
      using chunked_keys [OF _ append_wf [OF 1(1)] that] 1(2,3) by simp
    let ?prev = "case loaded of None \<Rightarrow> [] | Some l \<Rightarrow> lt_chunks l"
    have "x \<in> {hq_delivery_key h, ckey, hq_binding_key h} \<or> x \<in> fst ` set (chunk_puts ?prev cs) \<or> x \<in> fst ` set (stale_chunks ?prev cs)"
      using 1(4) by (auto simp: request_defs)
    then have "in_family FamDelivery x \<or> in_family FamConversation x \<or> in_family FamDeliveryEntry x \<or> in_family FamChunk x"
      using assms(1,2) prev new by (auto simp: request_ok_def dest!: history_chunk_keys)
    then show ?case using assms(5) unfolding within_def by blast
  qed
qed

lemma keeps_history_unbound:
  assumes "request_ok h" "keeps F (\<lambda>_. True) again" "{FamDelivery, FamDeliveryEntry, FamConversation, FamChunk} \<subseteq> F"
  shows "keeps F (\<lambda>_. True) (history_unbound cf h existing again)"
proof -
  have load: "keeps F loaded_chunks_ok (case found of None \<Rightarrow> Return None
      | Some c \<Rightarrow> pbind (load_conversation_transcript_state cf (er_value c)) (\<lambda>l. Return (Some l)))"
    if "\<And>c. found = Some c \<Longrightarrow> wf_conversation (cf_sha cf) (er_value c)" for found
    by (intro keeps_intros keeps_bind [OF keeps_load_state]) (auto simp: loaded_chunks_ok_def intro: that)
  show ?thesis unfolding history_unbound_def
    by (intro keeps_intros keeps_bind [OF load] keeps_append_history assms TrueI)
      (auto intro: conversation_codec.decoded_wf dest: key_in_family)
qed

lemma keeps_history:
  assumes "{FamDelivery, FamDeliveryEntry, FamConversation, FamChunk} \<subseteq> F"
  shows "keeps F (\<lambda>_. True) (settle_delivery_with_history cf input)"
proof -
  have bound: "keeps F (\<lambda>_. True) (history_bound cf h d b)" for h d b
    unfolding history_bound_def
    by (intro keeps_intros keeps_step [OF keeps_load_transcript] TrueI) (auto intro: conversation_codec.decoded_wf)
  have "keeps F (\<lambda>_. True) (history_loop n cf h)" if "request_ok h" for n h
  proof (induction n)
    case (Suc n)
    show ?case unfolding history_loop.simps history_found_def Let_def
      by (intro keeps_intros bound keeps_history_unbound Suc.IH that assms TrueI)
  qed (auto intro: keeps_intros)
  note loop = this
  show ?thesis unfolding settle_delivery_with_history_def by (intro keeps_intros loop) (rule parse_history_ok)
qed

section \<open>Maintenance\<close>

lemma keeps_referenced: "keeps F (\<lambda>_. True) (artifact_is_referenced cf a)"
  unfolding artifact_is_referenced_def scan_refers_def by (intro keeps_intros TrueI)

lemma keeps_release_unreferenced: "keeps F (\<lambda>_. True) (release_unreferenced cf n b as)"
proof (induction as arbitrary: n b)
  case (Cons a as)
  have "keeps F (\<lambda>_. True) (release_artifact a)"
    unfolding release_artifact_def by (intro keeps_intros TrueI)
  note release = keeps_step [OF this]
  show ?case unfolding release_unreferenced.simps
    by (intro keeps_intros keeps_step [OF keeps_referenced] release Cons.IH)
qed (auto intro: keeps_intros)

definition retirement_families :: "key_family set" where
  "retirement_families = {FamRun, FamEvent, FamHistory, FamAdmission, FamCheckpoint}"

lemma owner_keys:
  "x \<in> fst ` set (owner_of run @ owner_of history @ owner_of adm) \<Longrightarrow>
   (\<And>r. run = Some r \<Longrightarrow> in_family FamRun (er_key r)) \<Longrightarrow> (\<And>r. history = Some r \<Longrightarrow> in_family FamHistory (er_key r)) \<Longrightarrow>
   (\<And>r. adm = Some r \<Longrightarrow> in_family FamAdmission (er_key r)) \<Longrightarrow> within retirement_families x"
  by (auto simp: owner_of_def retirement_families_def within_def split: option.splits)

lemma event_family: "parsed p pre x \<Longrightarrow> run_event_prefix sha i = Inr pre \<Longrightarrow> in_family FamEvent (er_key x)"
  by (auto simp: parsed_def key_simps in_family_def prefix_def)

lemma keeps_resume:
  assumes "in_family FamCheckpoint (er_key cp)" "wf_checkpoint (cf_sha cf) (er_value cp)"
  shows "keeps retirement_families (\<lambda>_. True) (resume_run_retention cf budget cp)"
proof -
  have h: "in_family FamHistory (cp_history_key (er_value cp))"
    using assms(2) by (auto simp: wf_checkpoint_def dest: key_in_family)
  have events: "keeps retirement_families (\<lambda>_. True) (retire_events b es)" if "\<forall>e \<in> set es. in_family FamEvent (er_key e)" for b es
    unfolding retire_events_def Let_def
    by (intro keeps_intros TrueI) (use that in \<open>auto simp: request_defs retirement_families_def dest!: in_set_takeD\<close>)
  have owners: "keeps retirement_families (\<lambda>_. True) (retire_owners b run history adm)"
    if "\<And>r. run = Some r \<Longrightarrow> in_family FamRun (er_key r)" "\<And>r. history = Some r \<Longrightarrow> in_family FamHistory (er_key r)"
      "\<And>r. adm = Some r \<Longrightarrow> in_family FamAdmission (er_key r)" for b run history adm
  proof -
    have "within retirement_families x" if "x \<in> request_keys (delete_all (owner_of run @ owner_of history @ owner_of adm))" for x
      using owner_keys [OF _ \<open>\<And>r. run = Some r \<Longrightarrow> in_family FamRun (er_key r)\<close> \<open>\<And>r. history = Some r \<Longrightarrow> in_family FamHistory (er_key r)\<close>
          \<open>\<And>r. adm = Some r \<Longrightarrow> in_family FamAdmission (er_key r)\<close>] that
      by (simp add: request_defs)
    then show ?thesis unfolding retire_owners_def Let_def by (intro keeps_intros TrueI)
  qed
  have last: "keeps retirement_families (\<lambda>_. True) (retire_checkpoint cf b cp)" for b
    unfolding retire_checkpoint_def
    by (rule keeps_step [OF keeps_release_unreferenced], intro keeps_intros TrueI)
      (use assms(1) in \<open>auto simp: request_defs retirement_families_def\<close>)
  show ?thesis unfolding resume_run_retention_def Let_def
    by (intro keeps_intros events last owners TrueI)
      (use h in \<open>auto intro: event_family dest: key_in_family\<close>)
qed

lemma checkpoint_record_ok:
  "parsed (parse_checkpoint sha) prefix_checkpoints x \<Longrightarrow> in_family FamCheckpoint (er_key x) \<and> wf_checkpoint sha (er_value x)"
  by (auto simp: parsed_def in_family_def intro: checkpoint_codec.decoded_wf)

lemma keeps_resume_all:
  "\<forall>x \<in> set cps. parsed (parse_checkpoint (cf_sha cf)) prefix_checkpoints x \<Longrightarrow>
   keeps retirement_families (\<lambda>_. True) (resume_checkpoints cf m cps)"
proof (induction cps arbitrary: m)
  case (Cons cp cps)
  then have cp: "in_family FamCheckpoint (er_key cp)" "wf_checkpoint (cf_sha cf) (er_value cp)"
    using checkpoint_record_ok by auto
  show ?case unfolding resume_checkpoints.simps
    by (intro keeps_intros keeps_step [OF keeps_resume [OF cp]] Cons.IH TrueI) (use Cons.prems in auto)
qed (auto intro: keeps_intros)

lemma keeps_candidates_scan: "keeps F (\<lambda>_. True) (terminal_candidates cf cutoff hs)"
proof (induction hs)
  case (Cons h hs)
  note rest = keeps_step [OF Cons.IH]
  show ?case unfolding terminal_candidates.simps Let_def by (intro keeps_intros rest Cons.IH TrueI)
qed (auto intro: keeps_intros)

lemma keeps_claims:
  assumes "FamCheckpoint \<in> F"
  shows "keeps F (\<lambda>_. True) (claim_candidates cf m cs)"
proof (induction cs arbitrary: m)
  case (Cons c cs)
  show ?case unfolding claim_candidates.simps
    by (intro keeps_intros Cons.IH TrueI) (use assms in \<open>auto simp: request_defs dest: key_in_family\<close>)
qed (auto intro: keeps_intros)

definition maintenance_families :: "key_family set" where
  "maintenance_families = retirement_families \<union> {FamSession}"

lemma keeps_stale_sessions:
  assumes "\<forall>x \<in> set sessions. parsed parse_provider_session prefix_sessions x" and "FamSession \<in> F"
  shows "keeps F (\<lambda>_. True) (remove_stale_sessions dry cutoff m sessions)"
proof -
  have "in_family FamSession (er_key x)" if "x \<in> set (take n (filter P sessions))" for x n P
    using assms(1) that by (auto dest!: in_set_takeD simp: parsed_def in_family_def)
  note stale = this
  have "within F (er_key x)" if "x \<in> set (take n (filter P sessions))" for x n P
    using stale [OF that] assms(2) by (auto simp: within_def)
  then show ?thesis unfolding remove_stale_sessions_def Let_def
    by (intro keeps_intros TrueI) (auto simp: request_defs)
qed

lemma keeps_maintain: "keeps maintenance_families (\<lambda>_. True) (maintain_execution cf input)"
proof -
  have sub: "retirement_families \<subseteq> maintenance_families" by (auto simp: maintenance_families_def)
  have resume: "keeps maintenance_families (\<lambda>_. True) (if dry then Return m else resume_checkpoints cf m cps)"
    if "\<forall>x \<in> set cps. parsed (parse_checkpoint (cf_sha cf)) prefix_checkpoints x" for dry m cps
    by (intro keeps_intros keeps_mono [OF keeps_resume_all [OF that] sub] TrueI)
  have claim: "keeps maintenance_families (\<lambda>_. True) (if dry then Return m else claim_candidates cf m cs)" for dry m cs
    by (intro keeps_intros keeps_claims TrueI) (simp add: maintenance_families_def retirement_families_def)
  show ?thesis unfolding maintain_execution_def Let_def
    by (intro keeps_intros keeps_step [OF resume] keeps_step [OF keeps_candidates_scan] keeps_step [OF claim]
        keeps_step [OF keeps_stale_sessions] TrueI) (auto simp: maintenance_families_def)
qed

lemma keeps_reconcile_publications:
  assumes "FamIntent \<in> F"
  shows "keeps F (\<lambda>_. True) (reconcile_artifact_publications cf limit_v cursor)"
proof -
  have "keeps F (\<lambda>_. True) (reconcile_records cf acc rs)" if "\<forall>r \<in> set rs. parsed parse_publication_intent prefix_intents r" for acc rs
    using that
  proof (induction rs arbitrary: acc)
    case (Cons r rs)
    then have "in_family FamIntent (er_key r)" by (auto simp: parsed_def in_family_def)
    then show ?case using Cons by (auto intro!: keeps_step [OF keeps_reconcile [OF _ assms]])
  qed (auto intro: keeps_intros)
  note step = keeps_step [OF this]
  show ?thesis unfolding reconcile_artifact_publications_def by (intro keeps_intros step TrueI) auto
qed

section \<open>The journal\<close>

fun written_families :: "journal_call \<Rightarrow> key_family set" where
  "written_families (Admit _) = {FamAdmission, FamRun, FamEvent, FamIntent, FamHistory}"
| "written_families (RenewAdmission _ _) = {FamAdmission}"
| "written_families (RecordAttempt _ _) = {FamRun, FamEvent}"
| "written_families (RecordInteraction _ _) = {FamRun, FamEvent}"
| "written_families (StageRunArtifacts _ _ _) = {FamIntent}"
| "written_families (Settle _) = {FamRun, FamAdmission, FamEvent, FamConversation, FamSession, FamIntent, FamChunk}"
| "written_families (OpenConversation _) = {FamConversation, FamChunk}"
| "written_families (SettleDeliveryWithHistory _) = {FamDelivery, FamDeliveryEntry, FamConversation, FamChunk}"
| "written_families (EvictProviderSession _ _ _) = {FamSession}"
| "written_families (PrepareDelivery _) = {FamDelivery}"
| "written_families (SettleDelivery _) = {FamDelivery}"
| "written_families (ReconcileArtifactPublications _ _) = {FamIntent}"
| "written_families (MaintainExecution _) = {FamRun, FamEvent, FamHistory, FamAdmission, FamCheckpoint, FamSession}"
| "written_families _ = {}"

lemma keeps_answer: "keeps F (\<lambda>_. True) p \<Longrightarrow> keeps F (\<lambda>_. True) (answer f p)"
  unfolding answer_def by (rule keeps_step) (auto intro: keeps_intros)

lemma keeps_journal: "keeps (written_families c) (\<lambda>_. True) (journal_prog cf c)"
proof (cases c)
  case (MaintainExecution i)
  have "written_families c = maintenance_families"
    by (auto simp: MaintainExecution maintenance_families_def retirement_families_def)
  then show ?thesis unfolding MaintainExecution journal_prog.simps by (simp add: keeps_answer keeps_maintain)
next
  case (ReadCachedResponse ref)
  have "keeps {} (\<lambda>_. True) (read_cached_response cf ref)"
    unfolding read_cached_response_def by (intro keeps_intros keeps_read_artifact)
  then show ?thesis by (simp add: ReadCachedResponse keeps_answer)
qed (simp_all add: keeps_answer keeps_admit keeps_renew keeps_record_attempt keeps_record_interaction keeps_stage keeps_settle
      keeps_load_transcript_call keeps_open keeps_history keeps_load_conversation keeps_list_conversations keeps_load_session
      keeps_evict keeps_read_run keeps_list_runs keeps_prepare keeps_settle_delivery keeps_reconcile_publications)

end
