(* ===== verification/JournalPool.thy ===== *)
theory JournalPool
  imports FootprintMethods
begin

text \<open>
  Calls run concurrently: a pool of programs over one store, where any program may take its next step
  at any time, new calls start at any time, and other code uses the store's public interface between
  them. The locale \<open>rely_guarantee\<close> turns what \<open>wp\<close> says of each call alone into an invariant of the
  whole pool; a finished call stays in the pool with its answer, so the pool is also the history.
\<close>

section \<open>The public interface keeps off the journal's records\<close>

inductive public_step :: "limits \<Rightarrow> store \<Rightarrow> store \<Rightarrow> bool" for l where
  public_transaction: "state_transaction l c q st = (r, st') \<Longrightarrow> public_step l st st'"
| public_write: "state_write l c key expected value st = (r'', st') \<Longrightarrow> public_step l st st'"
| public_cas: "state_compare_and_swap l c key expected value st = (r''', st') \<Longrightarrow> public_step l st st'"
| public_delete: "state_delete l c key expected st = (rb, st') \<Longrightarrow> public_step l st st'"
| public_read: "state_read c key st = (ro, st') \<Longrightarrow> public_step l st st'"
| public_list: "state_list c pre cursor limit st = (rp, st') \<Longrightarrow> public_step l st st'"
| public_scan: "state_scan c pre cursor limit st = (rp', st') \<Longrightarrow> public_step l st st'"
| public_close: "public_step l st (st\<lparr>st_closed := True\<rparr>)"

lemma public_store_step: "public_step l st st' \<Longrightarrow> store_step l st st'"
  by (induction rule: public_step.induct) (auto intro: store_step.intros)

lemma public_key: "validate_state_key v = Inr k \<Longrightarrow> \<not> is_internal_state_key k"
  by (auto simp: validate_state_key_def rbind_Inr_iff split: if_splits)

lemma put_draft_other: "put_draft l c s k v = Inr (d, r) \<Longrightarrow> j \<noteq> k \<Longrightarrow> lookup d j = lookup s j"
  by (erule put_draft_Inr) (simp add: lookup_def)

lemma put_draft_public:
  "put_draft l c s k v = Inr (d, r) \<Longrightarrow> validate_state_key x = Inr k \<Longrightarrow> is_internal_state_key j \<Longrightarrow>
   lookup d j = lookup s j"
  by (rule put_draft_other) (auto dest: public_key)

lemma public_entry_keys:
  "rmap (normalize_entry validate_state_key) es = Inr os \<Longrightarrow> e \<in> set os \<Longrightarrow> \<not> is_internal_state_key (op_key e)"
  unfolding rmap_Inr_iff
  by (induction rule: list_all2_induct) (auto simp: normalize_entry_def normalize_key_def rbind_Inr_iff dest: public_key)

lemma public_put_keys:
  "normalize_puts validate_state_key m t n ps = Inr os \<Longrightarrow> e \<in> set os \<Longrightarrow> \<not> is_internal_state_key (op_key e)"
  by (induction ps arbitrary: n os) (auto simp: normalize_key_def rbind_Inr_iff Let_def dest!: public_key)

lemma public_transaction_frame:
  assumes "state_transaction l c q st = (r, st')" "snapshot_wf l (st_snap st)" "is_internal_state_key k"
  shows "lookup (st_snap st') k = lookup (st_snap st) k"
proof -
  have ans: "tx_answer_ok l validate_state_key q (st_snap st) r (st_snap st')"
    using transaction_answer [OF assms(1) [unfolded state_transaction_def] assms(2)] .
  show ?thesis
  proof (cases "st_snap st' = st_snap st")
    case False
    then obtain n u where n: "normalize_transaction l validate_state_key q = Inr n"
      and eff: "tx_effect u (sn_generation (st_snap st)) n (lookup (st_snap st)) (lookup (st_snap st'))"
      using ans by (auto simp: tx_answer_ok_def split: sum.splits tx_result.splits)
    have "k \<notin> op_key ` set (tn_puts n)" "k \<notin> op_key ` set (tn_deletes n)"
      using n assms(3) unfolding normalize_transaction_def Let_def
      by (auto simp: rbind_Inr_iff dest: public_entry_keys public_put_keys)
    with eff show ?thesis by (simp add: tx_effect_def)
  qed simp
qed

lemma public_frame:
  "public_step l st st' \<Longrightarrow> snapshot_wf l (st_snap st) \<Longrightarrow> is_internal_state_key k \<Longrightarrow>
   lookup (st_snap st') k = lookup (st_snap st) k"
proof (induction rule: public_step.induct)
  case (public_write c key expected val st r'' st')
  from public_write(1) show ?case unfolding state_write_def Let_def
    by (rule guarded_plan_cases)
      (use public_write(3) in \<open>auto simp: rbind_Inr_iff dest: put_draft_public split: prod.splits\<close>)
next
  case (public_cas c key expected val st r''' st')
  from public_cas(1) show ?case unfolding state_compare_and_swap_def Let_def
    by (rule guarded_plan_cases)
      (use public_cas(3) in \<open>auto simp: rbind_Inr_iff dest: put_draft_public split: prod.splits if_splits\<close>)
next
  case (public_delete c key expected st rb st')
  from public_delete(1) show ?case unfolding state_delete_def Let_def
    by (rule guarded_plan_cases)
      (use public_delete(3) in \<open>auto simp: rbind_Inr_iff lookup_def dest!: public_key split: if_splits\<close>)
qed (auto simp: state_read_def state_list_def state_scan_def dest: public_transaction_frame guarded_query_snap scan_with_mode_snap)

lemma family_internal: "in_family f k \<Longrightarrow> is_internal_state_key k"
  by (cases f) (auto simp: in_family_def is_internal_state_key_def is_execution_state_key_def execution_state_prefix_def
      prefix_defs prefix_def)

section \<open>The pool\<close>

type_synonym ('c, 'a) pool = "store \<times> ('c \<times> 'a prog) list"

inductive pool_step :: "setting \<Rightarrow> ('c \<Rightarrow> 'a prog) \<Rightarrow> ('c, 'a) pool \<Rightarrow> ('c, 'a) pool \<Rightarrow> bool" for E start where
  pool_start: "pool_step E start (st, cs) (st, cs @ [(c, start c)])"
| pool_call: "i < length cs \<Longrightarrow> cs ! i = (c, p) \<Longrightarrow> prog_step E st p st' p' \<Longrightarrow> pool_step E start (st, cs) (st', cs[i := (c, p')])"
| pool_public: "public_step (se_limits E) st st' \<Longrightarrow> pool_step E start (st, cs) (st', cs)"

abbreviation pool_run :: "setting \<Rightarrow> ('c \<Rightarrow> 'a prog) \<Rightarrow> ('c, 'a) pool \<Rightarrow> ('c, 'a) pool \<Rightarrow> bool" where
  "pool_run E start \<equiv> (pool_step E start)\<^sup>*\<^sup>*"

definition answered :: "('c, 'a) pool \<Rightarrow> nat \<Rightarrow> 'c \<Rightarrow> 'a \<Rightarrow> bool" where
  "answered P i c x \<longleftrightarrow> i < length (snd P) \<and> snd P ! i = (c, Return x)"

text \<open>A program is hung when it waits for an answer that no call gives.\<close>

definition hung :: "('c, 'a) pool \<Rightarrow> nat \<Rightarrow> bool" where
  "hung P i \<longleftrightarrow> i < length (snd P) \<and> snd (snd P ! i) = Hang"

fun transacts :: "'a prog \<Rightarrow> bool" where
  "transacts (TransactCall q f) = True"
| "transacts p = False"

lemma prog_step_idle: "prog_step E st p st' p' \<Longrightarrow> \<not> transacts p \<Longrightarrow> st_snap st' = st_snap st"
proof (induction rule: prog_step.induct)
  case (step_read_call c key st r st' f)
  then show ?case unfolding state_read_internal_def by (auto dest: guarded_query_snap)
next
  case (step_scan_call c pre cursor n st r' st' f')
  then show ?case unfolding state_scan_internal_def by (auto dest: scan_with_mode_snap)
qed simp_all

lemma wp_commit:
  assumes "prog_step E st p st' p'" "wp E G Q p (st_snap st)" "interf E (st_snap st) (st_snap st)" "transacts p"
  shows "G (st_snap st) p' (st_snap st')"
  using assms by (cases rule: prog_step.cases) auto

text \<open>What every call owes and may rely on. \<open>ok\<close> picks the calls that are made.\<close>

locale rely_guarantee =
  fixes E :: setting and start :: "'c \<Rightarrow> 'a prog" and ok :: "'c \<Rightarrow> bool"
    and G :: "'c \<Rightarrow> snapshot \<Rightarrow> 'a prog \<Rightarrow> snapshot \<Rightarrow> bool" and Q :: "'c \<Rightarrow> 'a \<Rightarrow> snapshot \<Rightarrow> bool"
  assumes meets: "ok c \<Longrightarrow> interf E s s \<Longrightarrow> wp E (G c) (Q c) (start c) s"
    and guarantee: "ok c \<Longrightarrow> interf E s s \<Longrightarrow> snapshot_wf (se_limits E) s' \<Longrightarrow> evolves s s' \<Longrightarrow> G c s p s' \<Longrightarrow> se_rely E s s'"
    and public_rely: "interf E s s \<Longrightarrow> (\<And>k. is_internal_state_key k \<Longrightarrow> lookup s' k = lookup s k) \<Longrightarrow> se_rely E s s'"
    and rely_trans: "transp (se_rely E)"
    and rely_self: "se_rely E s s' \<Longrightarrow> se_rely E s' s'"
    and stays: "ok c \<Longrightarrow> Q c x s \<Longrightarrow> interf E s s' \<Longrightarrow> Q c x s'"
begin

definition sound :: "('c, 'a) pool \<Rightarrow> bool" where
  "sound P \<longleftrightarrow> interf E (st_snap (fst P)) (st_snap (fst P))
     \<and> (\<forall>(c, p) \<in> set (snd P). ok c \<and> wp E (G c) (Q c) p (st_snap (fst P)))"

lemma interf_self: "interf E s s' \<Longrightarrow> interf E s' s'"
  unfolding interf_def using rely_self evolves_refl by blast

lemma step_interf:
  assumes "sound P" "pool_step E start P P'"
  shows "interf E (st_snap (fst P)) (st_snap (fst P'))"
  using assms(2,1)
proof (cases rule: pool_step.cases)
  case (pool_start st cs c)
  then show ?thesis using assms(1) by (simp add: sound_def)
next
  case (pool_call i cs c p st st' p')
  have i: "interf E (st_snap st) (st_snap st)" and ok: "ok c" and wp: "wp E (G c) (Q c) p (st_snap st)"
    using assms(1) pool_call nth_mem [OF pool_call(3)] by (auto simp: sound_def)
  have wf: "snapshot_wf (se_limits E) (st_snap st')" "evolves (st_snap st) (st_snap st')"
    using prog_step_kept [OF pool_call(5)] i by (auto simp: kept_def interf_def)
  from wp_step [OF pool_call(5) wp i] show ?thesis
    using i guarantee [OF ok i wf] wf pool_call by (auto simp: interf_def)
next
  case (pool_public st st' cs)
  have i: "interf E (st_snap st) (st_snap st)" using assms(1) pool_public by (simp add: sound_def)
  have wf: "snapshot_wf (se_limits E) (st_snap st)" using i by (simp add: interf_def)
  have "kept (se_limits E) (st_snap st) (st_snap st')"
    using pool_public(3) by (intro store_step_kept public_store_step)
  moreover have "se_rely E (st_snap st) (st_snap st')"
    by (rule public_rely [OF i]) (rule public_frame [OF pool_public(3) wf])
  ultimately show ?thesis using wf pool_public by (auto simp: kept_def interf_def)
qed

lemma stable_Q: "ok c \<Longrightarrow> stable E (Q c)"
  by (rule stableI) (rule stays)

lemma sound_step:
  assumes P: "sound P" and step: "pool_step E start P P'" and started: "\<forall>(c, p) \<in> set (snd P'). ok c"
  shows "sound P'"
proof -
  note i = step_interf [OF P step]
  have self: "interf E (st_snap (fst P')) (st_snap (fst P'))" using i by (rule interf_self)
  have later: "wp E (G c) (Q c) p (st_snap (fst P'))" if "(c, p) \<in> set (snd P)" for c p
  proof -
    have "ok c" "wp E (G c) (Q c) p (st_snap (fst P))" using P that by (auto simp: sound_def)
    then show ?thesis using wp_stable [OF _ i rely_trans stable_Q] by blast
  qed
  from step show ?thesis
  proof (cases rule: pool_step.cases)
    case (pool_start st cs c)
    then show ?thesis using self later started meets by (auto simp: sound_def)
  next
    case (pool_call j cs c p st st' p')
    have "(c, p) \<in> set cs" using pool_call(3,4) nth_mem by fastforce
    then have "wp E (G c) (Q c) p (st_snap st)" "interf E (st_snap st) (st_snap st)"
      using P pool_call by (auto simp: sound_def)
    then have "wp E (G c) (Q c) p' (st_snap st')" using wp_step [OF pool_call(5)] by blast
    moreover have "(d, q) \<in> set (snd P')" if "(d, q) \<in> set (snd P')" for d q using that .
    ultimately show ?thesis
      using self later started pool_call set_update_subset_insert [of cs j "(c, p')"]
      by (fastforce simp: sound_def)
  next
    case (pool_public st st' cs)
    then show ?thesis using self later started by (auto simp: sound_def)
  qed
qed

lemma started_ok_back:
  assumes "pool_step E start P P'" "\<forall>(c, p) \<in> set (snd P'). ok c"
  shows "\<forall>(c, p) \<in> set (snd P). ok c"
  using assms
proof (cases rule: pool_step.cases)
  case (pool_call i cs c p st st' p')
  have "ok d" if d: "(d, q) \<in> set cs" for d q
  proof -
    obtain j where j: "j < length cs" "cs ! j = (d, q)" using d by (auto simp: in_set_conv_nth)
    have "fst (cs[i := (c, p')] ! j) = d" using j pool_call by (cases "i = j") auto
    moreover have "cs[i := (c, p')] ! j \<in> set (snd P')" using j pool_call by (simp add: nth_mem)
    ultimately show ?thesis using assms(2) by (metis case_prodD prod.collapse)
  qed
  with pool_call show ?thesis by auto
qed auto

lemma sound_run:
  assumes "pool_run E start P P'" "sound P" "\<forall>(c, p) \<in> set (snd P'). ok c"
  shows "sound P'"
  using assms
proof (induction rule: rtranclp_induct)
  case (step M P')
  from step.prems(2) started_ok_back [OF step.hyps(2)] have "\<forall>(c, p) \<in> set (snd M). ok c" by blast
  with step sound_step show ?case by blast
qed simp

lemma run_interf:
  assumes "pool_run E start P P'" "sound P" "\<forall>(c, p) \<in> set (snd P'). ok c"
  shows "interf E (st_snap (fst P)) (st_snap (fst P'))"
  using assms
proof (induction rule: rtranclp_induct)
  case base
  then show ?case by (simp add: sound_def)
next
  case (step M P')
  have ok: "\<forall>(c, p) \<in> set (snd M). ok c" using started_ok_back step.hyps(2) step.prems(2) by blast
  have "sound M" by (rule sound_run [OF step.hyps(1) step.prems(1) ok])
  then show ?case using step.IH [OF step.prems(1) ok] step_interf [OF _ step.hyps(2)] interf_trans [OF rely_trans] by blast
qed

text \<open>An answer given at any time still says the truth, and no call hangs.\<close>

lemma run_answers:
  assumes "pool_run E start P P'" "sound P" "\<forall>(c, p) \<in> set (snd P'). ok c"
  shows "answered P' i c x \<Longrightarrow> Q c x (st_snap (fst P'))" "\<not> hung P' i"
proof -
  have s: "sound P'" by (rule sound_run [OF assms])
  show "Q c x (st_snap (fst P'))" if "answered P' i c x"
  proof -
    have "(c, Return x) \<in> set (snd P')" using that nth_mem unfolding answered_def by fastforce
    with s show ?thesis by (auto simp: sound_def)
  qed
  show "\<not> hung P' i"
  proof
    assume "hung P' i"
    then obtain c where "(c, Hang) \<in> set (snd P')" unfolding hung_def by (metis nth_mem prod.collapse)
    with s show False by (auto simp: sound_def)
  qed
qed

lemma sound_empty: "interf E (st_snap st) (st_snap st) \<Longrightarrow> sound (st, [])"
  by (simp add: sound_def)

end

end
