(* ===== verification/Upholds.thy ===== *)
theory Upholds
  imports FootprintMethods
begin

text \<open>
  Commits that depend on what was read. \<open>upholds E G P R p\<close>: started when \<open>P\<close> holds, every commit of
  \<open>p\<close> satisfies \<open>G\<close> and every answer \<open>R\<close>. The assertions are lasting: they stay true while the store
  evolves, so a record that was read is known to be the one a later commit finds under its version.
\<close>

section \<open>Lasting assertions\<close>

definition lasting :: "(snapshot \<Rightarrow> bool) \<Rightarrow> bool" where
  "lasting P \<longleftrightarrow> (\<forall>s s'. P s \<longrightarrow> evolves s s' \<longrightarrow> P s')"

named_theorems lasting_intros
named_theorems upholds_intros

lemma lastingD: "lasting P \<Longrightarrow> P s \<Longrightarrow> evolves s s' \<Longrightarrow> P s'"
  by (auto simp: lasting_def)

lemma lasting_interf: "lasting P \<Longrightarrow> P s \<Longrightarrow> interf E s s' \<Longrightarrow> P s'"
  by (auto simp: lasting_def interf_def)

lemma lasting_const [lasting_intros]: "lasting (\<lambda>_. b)"
  and lasting_conj [lasting_intros]: "lasting P \<Longrightarrow> lasting Q \<Longrightarrow> lasting (\<lambda>s. P s \<and> Q s)"
  by (auto simp: lasting_def)

lemma lasting_all [lasting_intros]: "(\<And>x. lasting (P x)) \<Longrightarrow> lasting (\<lambda>s. \<forall>x. b x \<longrightarrow> P x s)"
  by (auto simp: lasting_def)

lemma lasting_ball [lasting_intros]: "(\<And>x. lasting (P x)) \<Longrightarrow> lasting (\<lambda>s. \<forall>x \<in> A. P x s)"
  by (auto simp: lasting_def)

definition was :: "limits \<Rightarrow> (js \<Rightarrow> 'a result) \<Rightarrow> 'a exec_record \<Rightarrow> snapshot \<Rightarrow> bool" where
  "was l parse x s \<longleftrightarrow>
     (\<exists>s0 r. snapshot_wf l s0 \<and> evolves s0 s \<and> lookup s0 (er_key x) = Some r
        \<and> decode_record parse (sv_value r) = Inr (er_value x) \<and> sv_version r = er_version x)"

lemma lasting_was [lasting_intros]: "lasting (was l parse x)"
  unfolding lasting_def was_def by (blast intro: evolves_trans)

lemma was_pinned:
  "was l parse x s \<Longrightarrow> version_at s (er_key x) = Some (er_version x) \<Longrightarrow> cell_at parse s (er_key x) = Holds (er_value x)"
  unfolding was_def by (metis cell_pinned)

lemma was_parsed: "was l parse x s \<Longrightarrow> prefix pre (er_key x) \<Longrightarrow> parsed parse pre x"
  by (auto simp: was_def parsed_def)

lemma was_read_was: "was_read E parse pre s x \<Longrightarrow> was (se_limits E) parse x s"
  unfolding was_read_def was_def by (metis seen_simps(3))

section \<open>The predicate and its rules\<close>

definition upholds ::
  "setting \<Rightarrow> (snapshot \<Rightarrow> snapshot \<Rightarrow> bool) \<Rightarrow> (snapshot \<Rightarrow> bool) \<Rightarrow> ('a \<Rightarrow> snapshot \<Rightarrow> bool) \<Rightarrow> 'a prog \<Rightarrow> bool" where
  "upholds E G P R p \<longleftrightarrow> (\<forall>s. P s \<longrightarrow> wp E (\<lambda>s _ s'. G s s') R p s)"

lemma wp_frame:
  "wp E G R p s \<Longrightarrow> lasting P \<Longrightarrow> P s \<Longrightarrow> wp E G (\<lambda>x s. R x s \<and> P s) p s"
proof (induction p arbitrary: s)
  case (ReadCall key f)
  show ?case unfolding wp.simps
  proof (intro allI impI)
    fix st c r st' assume i: "interf E s (st_snap st)" and run: "state_read_internal c (JStr key) st = (r, st')"
    have "P (st_snap st)" using ReadCall.prems(2,3) i by (auto dest: lasting_interf)
    then have "P (st_snap st')" using internal_read_result(1) [OF run] by simp
    then show "wp E G (\<lambda>x s. R x s \<and> P s) (f r) (st_snap st')"
      using ReadCall.IH [OF _ _ ReadCall.prems(2)] ReadCall.prems(1) i run by auto
  qed
next
  case (ScanCall pre cursor n f)
  show ?case unfolding wp.simps
  proof (intro allI impI)
    fix st c r st' assume i: "interf E s (st_snap st)"
      and run: "state_scan_internal c (JStr pre) (cursor_js cursor) (JNum (int n)) st = (r, st')"
    have "P (st_snap st)" using ScanCall.prems(2,3) i by (auto dest: lasting_interf)
    then have "P (st_snap st')" using internal_scan_result(1) [OF run] by simp
    then show "wp E G (\<lambda>x s. R x s \<and> P s) (f r) (st_snap st')"
      using ScanCall.IH [OF _ _ ScanCall.prems(2)] ScanCall.prems(1) i run by auto
  qed
next
  case (TransactCall q f)
  show ?case unfolding wp.simps
  proof (intro allI impI)
    fix st c r st' assume i: "interf E s (st_snap st)"
      and run: "state_transaction_internal (se_limits E) c q st = (r, st')"
    have "P (st_snap st)" using TransactCall.prems(2,3) i by (auto dest: lasting_interf)
    moreover have "evolves (st_snap st) (st_snap st')"
      using store_step_kept [OF step_transaction_internal [OF run]] interfD [OF i] by (auto simp: kept_def)
    ultimately have "P (st_snap st')" using TransactCall.prems(2) by (blast dest: lastingD)
    then show "G (st_snap st) (f r) (st_snap st') \<and> wp E G (\<lambda>x s. R x s \<and> P s) (f r) (st_snap st')"
      using TransactCall.IH [OF _ _ TransactCall.prems(2)] TransactCall.prems(1) i run by auto
  qed
next
  case (ClockCall f)
  then show ?case by (auto intro!: ClockCall.IH dest: lasting_interf)
next
  case (GenerateCall g f)
  then show ?case by (auto intro!: GenerateCall.IH dest: lasting_interf)
next
  case (ArtifactCall a f)
  then show ?case by (auto intro!: ArtifactCall.IH dest: lasting_interf)
qed simp_all

lemma upholds_bind:
  assumes "upholds E G (\<lambda>_. True) R p" "lasting P" "\<And>x. upholds E G (\<lambda>s. P s \<and> R x s) R' (k x)"
  shows "upholds E G P R' (pbind p k)"
  unfolding upholds_def
proof (intro allI impI wp_bind)
  fix s assume P: "P s"
  have "wp E (\<lambda>s _ s'. G s s') R p s" using assms(1) by (simp add: upholds_def)
  from wp_frame [OF this assms(2) P]
  show "wp E (\<lambda>s _ s'. G s s') (\<lambda>x. wp E (\<lambda>s _ s'. G s s') R' (k x)) p s"
    by (rule wp_mono) (use assms(3) in \<open>auto simp: upholds_def\<close>)
qed

lemma upholds_weaken:
  "upholds E G P R p \<Longrightarrow> (\<And>s. P' s \<Longrightarrow> P s) \<Longrightarrow> (\<And>x s. R x s \<Longrightarrow> R' x s) \<Longrightarrow> (\<And>s s'. G s s' \<Longrightarrow> G' s s') \<Longrightarrow> upholds E G' P' R' p"
  unfolding upholds_def by (blast intro: wp_mono)

lemma upholds_given: "(\<And>s. P s \<Longrightarrow> upholds E G P R p) \<Longrightarrow> upholds E G P R p"
  by (auto simp: upholds_def)

lemma keeps_upholds:
  assumes "keeps F R p" "transp (se_rely E)" "\<And>s s'. touches F s s' \<Longrightarrow> G s s'"
  shows "upholds E G P (\<lambda>x _. R x) p"
proof -
  have "wp E (\<lambda>s _ s'. touches F s s') (\<lambda>x _. R x) p s" for s using assms(1,2) by (simp add: keeps_def)
  then show ?thesis unfolding upholds_def by (blast intro: wp_mono assms(3))
qed

lemma upholds_keeps_bind:
  assumes "keeps F R p" "transp (se_rely E)" "\<And>s s'. touches F s s' \<Longrightarrow> G s s'" "lasting P"
    and "\<And>x. R x \<Longrightarrow> upholds E G P R' (k x)"
  shows "upholds E G P R' (pbind p k)"
proof (rule upholds_bind [OF keeps_upholds [OF assms(1,2)] assms(4)])
  show "upholds E G (\<lambda>s. P s \<and> R x) R' (k x)" for x
    using assms(5) [of x] by (cases "R x") (auto simp: upholds_def)
qed (rule assms(3))

lemma upholds_Return [upholds_intros]: "(\<And>s. P s \<Longrightarrow> R x s) \<Longrightarrow> upholds E G P R (Return x)"
  and upholds_Throw [upholds_intros]: "upholds E G P R (Throw e)"
  by (simp_all add: upholds_def)

lemma upholds_if [upholds_intros]:
  "(b \<Longrightarrow> upholds E G P R p) \<Longrightarrow> (\<not> b \<Longrightarrow> upholds E G P R q) \<Longrightarrow> upholds E G P R (if b then p else q)"
  by simp

lemma upholds_option [upholds_intros]:
  "(v = None \<Longrightarrow> upholds E G P R p) \<Longrightarrow> (\<And>x. v = Some x \<Longrightarrow> upholds E G P R (f x)) \<Longrightarrow>
   upholds E G P R (case v of None \<Rightarrow> p | Some x \<Rightarrow> f x)"
  by (cases v) auto

lemma upholds_tx_result [upholds_intros]:
  "(\<And>rs ks. upholds E G P R (f rs ks)) \<Longrightarrow> (\<And>cs. upholds E G P R (g cs)) \<Longrightarrow>
   upholds E G P R (case r of TxApplied rs ks \<Rightarrow> f rs ks | TxConflict cs \<Rightarrow> g cs)"
  by (cases r) auto

lemma upholds_prod [upholds_intros]:
  "(\<And>x y. p = (x, y) \<Longrightarrow> upholds E G P R (f x y)) \<Longrightarrow> upholds E G P R (case p of (x, y) \<Rightarrow> f x y)"
  by (cases p) auto

lemma upholds_lift [upholds_intros]:
  "(\<And>x. r = Inr x \<Longrightarrow> upholds E G P R (k x)) \<Longrightarrow> upholds E G P R (pbind (lift r) k)"
  by (cases r) (auto simp: upholds_def)

lemma upholds_read:
  assumes "lasting P" "upholds E G P R (k None)"
    and "\<And>x. er_key x = key \<Longrightarrow> upholds E G (\<lambda>s. P s \<and> was (se_limits E) parse x s) R (k (Some x))"
  shows "upholds E G P R (pbind (exec_read parse key) k)"
  unfolding upholds_def
proof (intro allI impI wp_read)
  fix s s1 assume "P s" "interf E s s1" "lookup s1 key = None"
  then have "P s1" using assms(1) by (auto dest: lasting_interf)
  then show "wp E (\<lambda>s _ s'. G s s') R (k None) s1" using assms(2) by (simp add: upholds_def)
next
  fix s s1 and r :: stored and x
  assume s: "P s" "interf E s s1" and r: "lookup s1 key = Some r" "decode_record parse (sv_value r) = Inr x"
  have "P s1" using s assms(1) by (auto dest: lasting_interf)
  moreover have "was (se_limits E) parse (seen key r x) s1"
    unfolding was_def using s(2) r by (auto dest!: interfD intro: evolves_refl)
  ultimately show "wp E (\<lambda>s _ s'. G s s') R (k (Some (seen key r x))) s1"
    using assms(3) [of "seen key r x"] by (simp add: upholds_def)
qed

lemma upholds_read_case:
  assumes "lasting P" "upholds E G P R p"
    and "\<And>x. er_key x = key \<Longrightarrow> upholds E G (\<lambda>s. P s \<and> was (se_limits E) parse x s) R (f x)"
  shows "upholds E G P R (pbind (exec_read parse key) (\<lambda>found. case found of None \<Rightarrow> p | Some x \<Rightarrow> f x))"
  by (rule upholds_read) (simp_all add: assms)

lemma upholds_scan_all:
  assumes "transp (se_rely E)" "lasting P"
    and "\<And>out tr. (\<And>x. x \<in> set out \<Longrightarrow> parsed parse pre x) \<Longrightarrow>
      upholds E G (\<lambda>s. P s \<and> (\<forall>x \<in> set out. was (se_limits E) parse x s)) R (k (out, tr))"
  shows "upholds E G P R (pbind (scan_all pre parse maximum) k)"
  unfolding upholds_def
proof (intro allI impI wp_scan_all assms(1))
  fix s s1 out tr
  assume P: "P s" and s1: "s1 = s \<or> interf E s s1" and out: "\<forall>x \<in> set out. was_read E parse pre s1 x"
  have "P s1" using P s1 assms(2) by (auto dest: lasting_interf)
  moreover have "\<forall>x \<in> set out. was (se_limits E) parse x s1" using out was_read_was by blast
  moreover have "\<And>x. x \<in> set out \<Longrightarrow> parsed parse pre x" using out by (auto simp: was_read_def parsed_def)
  ultimately show "wp E (\<lambda>s _ s'. G s s') R (k (out, tr)) s1" using assms(3) by (simp add: upholds_def)
qed

lemma upholds_transaction:
  assumes "lasting P" "\<And>s. G s s"
    and "\<And>ps bs s1 s2. P s1 \<Longrightarrow> rmap encode_put puts = Inr ps \<Longrightarrow> rmap byte_put byte_puts = Inr bs \<Longrightarrow>
      commits checks (ps @ bs) deletes s1 s2 \<Longrightarrow> G s1 s2"
    and "\<And>r. upholds E G P R (k r)"
  shows "upholds E G P R (pbind (exec_transaction \<lparr>xq_checks = checks, xq_puts = puts, xq_byte_puts = byte_puts, xq_deletes = deletes\<rparr>) k)"
  unfolding upholds_def
proof (intro allI impI wp_transaction)
  fix s ps bs rs ks s1 s2
  assume P: "P s" and i: "interf E s s1" and ps: "rmap encode_put puts = Inr ps" "rmap byte_put byte_puts = Inr bs"
    and c: "commits checks (ps @ bs) deletes s1 s2" and e: "evolves s1 s2"
  have "P s1" using P i assms(1) by (auto dest: lasting_interf)
  then have "P s2" using e assms(1) by (blast dest: lastingD)
  then show "G s1 s2 \<and> wp E (\<lambda>s _ s'. G s s') R (k (TxApplied rs ks)) s2"
    using assms(3) [OF \<open>P s1\<close> ps c] assms(4) by (simp add: upholds_def)
next
  fix s s1 cs assume "P s" "interf E s s1"
  then have "P s1" using assms(1) by (auto dest: lasting_interf)
  then show "G s1 s1 \<and> wp E (\<lambda>s _ s'. G s s') R (k (TxConflict cs)) s1"
    using assms(2,4) by (simp add: upholds_def)
qed (rule assms(2))

lemma upholds_now:
  assumes "lasting P" "\<And>t. se_clock E t \<Longrightarrow> upholds E G P R (k (to_iso t))"
  shows "upholds E G P R (pbind journal_now k)"
  unfolding upholds_def
proof (intro allI impI wp_now)
  fix s t s' assume "P s" "se_clock E t" "interf E s s'"
  then show "wp E (\<lambda>s _ s'. G s s') R (k (to_iso t)) s'"
    using assms by (auto simp: upholds_def dest: lasting_interf)
qed

lemma upholds_expired:
  assumes "lasting P" "\<And>b. upholds E G P R (k b)"
  shows "upholds E G P R (pbind (is_expired v) k)"
  unfolding upholds_def
proof (intro allI impI wp_expired)
  fix s t now s' assume "P s" "interf E s s'"
  then show "wp E (\<lambda>s _ s'. G s s') R (k (date_ms t \<le> now)) s'"
    using assms by (auto simp: upholds_def dest: lasting_interf)
qed (use assms(2) in \<open>simp add: upholds_def\<close>)

lemma upholds_generate:
  assumes "lasting P" "\<And>v. upholds E G P R (k v)"
  shows "upholds E G P R (GenerateCall g k)"
  using assms by (auto simp: upholds_def dest: lasting_interf)

end
