(* ===== verification/RunSteps.thy ===== *)
theory RunSteps
  imports Upholds
begin

text \<open>
  What the journal does to its runs. \<open>run_commit\<close> is the abstract specification: the commits there
  are on the records of runs, their events, admissions and history index. Every call of the journal
  commits only such steps.
\<close>

section \<open>The records of a run\<close>

abbreviation run_at :: "snapshot \<Rightarrow> string \<Rightarrow> stored_run cell" where
  "run_at \<equiv> cell_at parse_stored_run"

abbreviation event_at :: "snapshot \<Rightarrow> string \<Rightarrow> run_event cell" where
  "event_at \<equiv> cell_at parse_stored_event"

abbreviation admission_at :: "snapshot \<Rightarrow> string \<Rightarrow> admission cell" where
  "admission_at \<equiv> cell_at parse_admission"

abbreviation history_at :: "snapshot \<Rightarrow> string \<Rightarrow> run_history cell" where
  "history_at \<equiv> cell_at parse_run_history"

text \<open>Their keys, by the digest of the identity.\<close>

definition run_slot :: "string \<Rightarrow> string" where
  "run_slot d = prefix_runs @ ''records/'' @ d"

definition event_slot :: "string \<Rightarrow> nat \<Rightarrow> string" where
  "event_slot d n = prefix_events @ d @ ''/'' @ fixed_text 9 n"

definition admission_slot :: "string \<Rightarrow> string" where
  "admission_slot d = prefix_admissions @ d"

definition history_slot :: "string \<Rightarrow> string \<Rightarrow> string" where
  "history_slot t d = prefix_history @ fixed_text 16 (nat (max_date_milliseconds - date_ms t)) @ ''/'' @ d"

lemma slot_keys:
  "run_state_key sha i = Inr k \<longleftrightarrow> ident_ok i \<and> k = run_slot (sha i)"
  "run_event_state_key sha i n = Inr k \<longleftrightarrow> n \<le> 999999999 \<and> ident_ok i \<and> k = event_slot (sha i) n"
  "admission_state_key sha i = Inr k \<longleftrightarrow> ident_ok i \<and> k = admission_slot (sha i)"
  "run_history_state_key sha t i = Inr k \<longleftrightarrow> canonical_ts t \<and> ident_ok i \<and> k = history_slot t (sha i)"
  by (simp_all add: key_simps run_slot_def event_slot_def admission_slot_def history_slot_def)

lemma slot_families [simp]:
  "in_family f (run_slot d) \<longleftrightarrow> f = FamRun" "in_family f (event_slot d n) \<longleftrightarrow> f = FamEvent"
  "in_family f (admission_slot d) \<longleftrightarrow> f = FamAdmission" "in_family f (history_slot t d) \<longleftrightarrow> f = FamHistory"
  by (simp_all only: run_slot_def event_slot_def admission_slot_def history_slot_def key_families)

lemma slot_apart [simp]:
  "run_slot d \<noteq> event_slot d' n" "run_slot d \<noteq> admission_slot d'" "run_slot d \<noteq> history_slot t d'"
  "event_slot d' n \<noteq> run_slot d" "admission_slot d' \<noteq> run_slot d" "history_slot t d' \<noteq> run_slot d"
  "event_slot d n \<noteq> admission_slot d'" "event_slot d n \<noteq> history_slot t d'" "admission_slot d' \<noteq> event_slot d n"
  "history_slot t d' \<noteq> event_slot d n" "admission_slot d \<noteq> history_slot t d'" "history_slot t d' \<noteq> admission_slot d"
  using slot_families(1) [of FamRun d] slot_families(2) [of FamEvent] slot_families(3) [of FamAdmission]
    slot_families(4) [of FamHistory] by (metis slot_families key_family.distinct)+

lemma slot_inject [simp]:
  "run_slot d = run_slot d' \<longleftrightarrow> d = d'" "admission_slot d = admission_slot d' \<longleftrightarrow> d = d'"
  by (simp_all add: run_slot_def admission_slot_def)

section \<open>The steps\<close>

definition run_families :: "key_family set" where
  "run_families = {FamRun, FamEvent, FamAdmission, FamHistory}"

definition elsewhere :: "string set \<Rightarrow> snapshot \<Rightarrow> snapshot \<Rightarrow> bool" where
  "elsewhere K s s' \<longleftrightarrow> (\<forall>k. within run_families k \<longrightarrow> k \<notin> K \<longrightarrow> lookup s' k = lookup s k)"

fun progress_body :: "event_body \<Rightarrow> bool" where
  "progress_body (AttemptEvent _) = True"
| "progress_body (InteractionEvent _) = True"
| "progress_body _ = False"

text \<open>The last two rules are retention's; \<open>m\<close> says whether it runs. Events are deleted without a look
  at the run as it is then.\<close>

inductive run_commit :: "(string \<Rightarrow> string) \<Rightarrow> bool \<Rightarrow> snapshot \<Rightarrow> snapshot \<Rightarrow> bool" for sha m where
  runs_untouched: "elsewhere {} s s' \<Longrightarrow> run_commit sha m s s'"
| run_admitted:
    "ident_ok request \<Longrightarrow> ident_ok run \<Longrightarrow> canonical_ts now \<Longrightarrow>
     admission_at s (admission_slot (sha request)) = Absent \<Longrightarrow> run_at s (run_slot (sha run)) = Absent \<Longrightarrow>
     event_at s (event_slot (sha run) 0) = Absent \<Longrightarrow> history_at s (history_slot now (sha run)) = Absent \<Longrightarrow>
     admission_at s' (admission_slot (sha request)) = Holds (new_admission request conv fingerprint run now lease) \<Longrightarrow>
     run_at s' (run_slot (sha run)) = Holds \<lparr>sr_summary = new_summary run request conv now, sr_event_count = 1, sr_transcript = None\<rparr> \<Longrightarrow>
     event_at s' (event_slot (sha run) 0) = Holds \<lparr>ev_run = run, ev_seq = 0, ev_at = now, ev_body = Admitted\<rparr> \<Longrightarrow>
     history_at s' (history_slot now (sha run)) = Holds \<lparr>rh_run = run, rh_started = now\<rparr> \<Longrightarrow>
     elsewhere {admission_slot (sha request), run_slot (sha run), event_slot (sha run) 0, history_slot now (sha run)} s s' \<Longrightarrow>
     run_commit sha m s s'"
| run_recorded:
    "run_at s (run_slot (sha run)) = Holds r \<Longrightarrow> rs_status (sr_summary r) = RunRunning \<Longrightarrow>
     event_at s (event_slot (sha run) (sr_event_count r)) = Absent \<Longrightarrow>
     run_at s' (run_slot (sha run)) = Holds (r\<lparr>sr_summary := (sr_summary r)\<lparr>rs_updated := now, rs_attempts := attempts\<rparr>,
       sr_event_count := sr_event_count r + 1\<rparr>) \<Longrightarrow>
     event_at s' (event_slot (sha run) (sr_event_count r)) =
       Holds \<lparr>ev_run = run, ev_seq = sr_event_count r, ev_at = now, ev_body = body\<rparr> \<Longrightarrow> progress_body body \<Longrightarrow>
     elsewhere {run_slot (sha run), event_slot (sha run) (sr_event_count r)} s s' \<Longrightarrow> run_commit sha m s s'"
| run_settled:
    "run_at s (run_slot (sha run)) = Holds r \<Longrightarrow> rs_status (sr_summary r) = RunRunning \<Longrightarrow> status \<noteq> RunRunning \<Longrightarrow>
     admission_at s akey = Holds a \<Longrightarrow> in_family FamAdmission akey \<Longrightarrow> ad_status a = AdmRunning \<Longrightarrow> ad_run a = run \<Longrightarrow>
     ad_conv a = rs_conv (sr_summary r) \<Longrightarrow>
     event_at s (event_slot (sha run) (sr_event_count r)) = Absent \<Longrightarrow>
     run_at s' (run_slot (sha run)) = Holds \<lparr>sr_summary = settled_summary (sr_summary r) status now revision failure,
       sr_event_count = sr_event_count r + 1, sr_transcript = transcript\<rparr> \<Longrightarrow>
     admission_at s' akey = Holds (settled_admission a status now response) \<Longrightarrow>
     event_at s' (event_slot (sha run) (sr_event_count r)) = Holds (settled_event run (sr_event_count r) now status revision failure) \<Longrightarrow>
     elsewhere {run_slot (sha run), akey, event_slot (sha run) (sr_event_count r)} s s' \<Longrightarrow> run_commit sha m s s'"
| admission_renewed:
    "admission_at s akey = Holds a \<Longrightarrow> in_family FamAdmission akey \<Longrightarrow> ad_status a = AdmRunning \<Longrightarrow>
     admission_at s' akey = Holds (a\<lparr>ad_updated := now, ad_lease := lease\<rparr>) \<Longrightarrow> elsewhere {akey} s s' \<Longrightarrow> run_commit sha m s s'"
| events_retired:
    "m \<Longrightarrow> \<forall>k. in_family FamEvent k \<longrightarrow> lookup s' k = lookup s k \<or> lookup s' k = None \<Longrightarrow>
     \<forall>k. within (run_families - {FamEvent}) k \<longrightarrow> lookup s' k = lookup s k \<Longrightarrow> run_commit sha m s s'"
| run_retired:
    "m \<Longrightarrow> \<forall>k \<in> K. lookup s' k = None \<Longrightarrow> \<forall>k \<in> K. in_family FamRun k \<or> in_family FamAdmission k \<or> in_family FamHistory k \<Longrightarrow>
     \<forall>k \<in> K. in_family FamRun k \<longrightarrow> (\<exists>r. run_at s k = Holds r \<and> rs_status (sr_summary r) \<noteq> RunRunning) \<Longrightarrow>
     \<forall>k \<in> K. in_family FamAdmission k \<longrightarrow> (\<exists>a. admission_at s k = Holds a \<and> ad_status a \<noteq> AdmRunning) \<Longrightarrow>
     elsewhere K s s' \<Longrightarrow> run_commit sha m s s'"

lemma run_commit_refl [simp]: "run_commit sha m s s"
  by (rule runs_untouched) (simp add: elsewhere_def)

lemma touches_untouched:
  assumes "touches F s s'" "F \<inter> run_families = {}"
  shows "run_commit sha m s s'"
proof (rule runs_untouched)
  have "\<not> within F k" if "within run_families k" for k
    using that assms(2) by (auto simp: within_def dest: in_family_unique)
  with assms(1) show "elsewhere {} s s'" by (simp add: elsewhere_def touches_def)
qed

section \<open>Reading a commit\<close>

lemma commit_put:
  assumes "commits checks (ps @ bs) deletes s1 s2" "rmap encode_put puts = Inr ps" "(key, ev, v) \<in> set puts"
  shows "version_at s1 key = ev \<and> (\<exists>b. encode_execution_record v = Inr b \<and> map_option sv_value (lookup s2 key) = Some b)"
proof -
  obtain b where "encode_execution_record v = Inr b" "(key, ev, b) \<in> set ps"
    using assms(2,3) unfolding rmap_Inr_iff
    by (induction rule: list_all2_induct) (auto simp: encode_put_def rbind_Inr_iff split: prod.splits)
  moreover have "version_at s1 k = e \<and> map_option sv_value (lookup s2 k) = Some b" if "(k, e, b) \<in> set ps" for k e b
  proof -
    have all: "\<forall>(k, ev, b) \<in> set (ps @ bs). version_at s1 k = ev \<and> map_option sv_value (lookup s2 k) = Some b"
      using assms(1) unfolding commits_def by blast
    from bspec [OF all, of "(k, e, b)"] that show ?thesis by simp
  qed
  ultimately show ?thesis by blast
qed

lemma commit_delete:
  "commits checks puts deletes s1 s2 \<Longrightarrow> (key, ev) \<in> set deletes \<Longrightarrow> version_at s1 key = ev \<and> lookup s2 key = None"
  by (auto simp: commits_def)

lemma commit_frame:
  assumes "commits checks (ps @ bs) deletes s1 s2" "rmap encode_put puts = Inr ps" "rmap byte_put byte_puts = Inr bs"
    "k \<notin> fst ` set puts" "k \<notin> fst ` set byte_puts" "k \<notin> fst ` set deletes"
  shows "lookup s2 k = lookup s1 k"
proof -
  have "k \<notin> fst ` set (ps @ bs)"
    using assms(4,5) encode_put_keys [OF assms(2)] byte_put_keys [OF assms(3)] by (simp add: image_Un)
  then show ?thesis using assms(1,6) unfolding commits_def by blast
qed

lemma commit_elsewhere:
  assumes "commits checks (ps @ bs) deletes s1 s2" "rmap encode_put puts = Inr ps" "rmap byte_put byte_puts = Inr bs"
    and "\<And>k. k \<in> fst ` set puts \<union> fst ` set byte_puts \<union> fst ` set deletes \<Longrightarrow> within run_families k \<Longrightarrow> k \<in> K"
  shows "elsewhere K s1 s2"
  unfolding elsewhere_def
proof (intro allI impI)
  fix k assume "within run_families k" "k \<notin> K"
  then have "k \<notin> fst ` set puts \<union> fst ` set byte_puts \<union> fst ` set deletes" using assms(4) by blast
  then show "lookup s2 k = lookup s1 k" by (intro commit_frame [OF assms(1-3)]) simp_all
qed

context record_codec
begin

lemma cell_put:
  assumes "commits checks (ps @ bs) deletes s1 s2" "rmap encode_put puts = Inr ps" "(key, ev, encode x) \<in> set puts" "wf x"
  shows "cell_at parse s2 key = Holds x"
  using commit_put [OF assms(1-3)] cell_written assms(4) by blast

lemma was_wf: "was l parse x s \<Longrightarrow> wf (er_value x)"
  unfolding was_def using decoded_wf by blast

end

lemma commit_created:
  assumes "commits checks (ps @ bs) deletes s1 s2" "rmap encode_put puts = Inr ps" "(key, None, v) \<in> set puts"
  shows "cell_at parse s1 key = Absent"
  using commit_put [OF assms] by (simp add: cell_absent)

lemma commit_updated:
  assumes "commits checks (ps @ bs) deletes s1 s2" "rmap encode_put puts = Inr ps" "(er_key x, Some (er_version x), v) \<in> set puts"
    "was l parse x s1"
  shows "cell_at parse s1 (er_key x) = Holds (er_value x)"
  using was_pinned [OF assms(4)] commit_put [OF assms(1-3)] by blast

end
