(* ===== verification/RunMethods.thy ===== *)
theory RunMethods
  imports RunSteps
begin

text \<open>
  Every method of the journal commits only the steps of \<open>run_commit\<close>. The methods that write runs are
  taken one by one; for the others their footprint is enough.
\<close>

section \<open>What is written is well-formed\<close>

definition clocked :: "setting \<Rightarrow> config \<Rightarrow> bool" where
  "clocked E cf \<longleftrightarrow> transp (se_rely E) \<and> (\<forall>t. se_clock E t \<longrightarrow> clock_ok t) \<and> cf_stale cf \<le> 86400000"

lemma clocked_iso: "clocked E cf \<Longrightarrow> se_clock E t \<Longrightarrow> canonical_ts (to_iso t)"
  by (auto simp: clocked_def clock_ok_def)

lemma clocked_lease:
  "clocked E cf \<Longrightarrow> se_clock E t \<Longrightarrow> add_milliseconds (to_iso t) (cf_stale cf) = Inr lease \<Longrightarrow> canonical_ts lease"
  by (auto simp: clocked_def intro: add_ms_ok)

definition attempts_ok :: "attempt_evidence list \<Rightarrow> bool" where
  "attempts_ok as \<longleftrightarrow> length as \<le> run_max_attempts \<and> list_all wf_attempt as \<and> numbered as"

lemma wf_summary_attempts: "wf_summary s \<Longrightarrow> attempts_ok (rs_attempts s)"
  by (simp add: wf_summary_def attempts_ok_def)

lemma parse_summary_fields:
  assumes "parse_run_summary (JObj fs) = Inr s'"
  shows "fld fs ''runId'' = JStr (rs_run s') \<and> fld fs ''requestId'' = JStr (rs_request s') \<and> fld fs ''conversationId'' = JStr (rs_conv s')
    \<and> fld fs ''startedAt'' = JStr (rs_started s') \<and> fld fs ''updatedAt'' = JStr (rs_updated s')
    \<and> parse_run_status ''run summary.status'' (fld fs ''status'') = Inr (rs_status s')
    \<and> opt_field (canonical_timestamp ''run summary.endedAt'') (fld fs ''endedAt'') = Inr (rs_ended s')
    \<and> opt_field (bounded_code ''run summary.transcriptRevision'') (fld fs ''transcriptRevision'') = Inr (rs_revision s')
    \<and> opt_field (bounded_code ''run summary.failureCode'') (fld fs ''failureCode'') = Inr (rs_failure s')
    \<and> (\<exists>raw. dense_own_data_array ''run summary.attempts'' run_max_attempts (fld fs ''attempts'') = Inr raw \<and> imap parse_summary_attempt 0 raw = Inr (rs_attempts s'))"
  using assms unfolding parse_run_summary_def
  by (elim rbind_InrE, simp only: require_Inr sum.inject own_data_record_Inr, elim conjE, hypsubst)
    (simp add: parse_iffs)

lemma summary_fields:
  "encode_summary s = JObj fs \<Longrightarrow> fld fs ''runId'' = JStr (rs_run s) \<and> fld fs ''requestId'' = JStr (rs_request s) \<and> fld fs ''conversationId'' = JStr (rs_conv s)
    \<and> fld fs ''startedAt'' = JStr (rs_started s) \<and> fld fs ''updatedAt'' = JStr (rs_updated s) \<and> fld fs ''status'' = JStr (status_text (rs_status s))
    \<and> fld fs ''endedAt'' = (case rs_ended s of None \<Rightarrow> JUndef | Some t \<Rightarrow> JStr t)
    \<and> fld fs ''transcriptRevision'' = (case rs_revision s of None \<Rightarrow> JUndef | Some t \<Rightarrow> JStr t)
    \<and> fld fs ''failureCode'' = (case rs_failure s of None \<Rightarrow> JUndef | Some t \<Rightarrow> JStr t)
    \<and> fld fs ''attempts'' = JArr (map encode_attempt (rs_attempts s))"
  by (auto simp: encode_summary_def parse_evals cong: option.case_cong)
lemma opt_text_Inr:
  "opt_field p (case x of None \<Rightarrow> JUndef | Some t \<Rightarrow> JStr t) = Inr y \<Longrightarrow> (\<And>t u. p (JStr t) = Inr u \<Longrightarrow> u = t) \<Longrightarrow> y = x"
  by (auto simp: opt_field_Inr split: option.splits)

lemma freeze_summary_id:
  assumes "attempts_ok (rs_attempts s)" "freeze_summary s = Inr s'"
  shows "s' = s \<and> wf_summary s"
proof -
  obtain fs where fs: "encode_summary s = JObj fs" by (simp add: encode_summary_def)
  have p: "parse_run_summary (JObj fs) = Inr s'" using assms(2) by (simp add: freeze_summary_def fs)
  note f = summary_fields [OF fs] and f' = parse_summary_fields [OF p]
  have im: "imap parse_summary_attempt 0 (map encode_attempt (rs_attempts s)) = Inr (rs_attempts s)"
    using assms(1) by (intro imap_roundtrip)
      (simp add: parse_summary_attempt_def attempts_ok_def list_all_length numbered_def attempt_roundtrip)
  have "rs_ended s' = rs_ended s" "rs_revision s' = rs_revision s" "rs_failure s' = rs_failure s"
    using f f' by (auto elim!: opt_text_Inr simp: parse_iffs)
  moreover have "rs_attempts s' = rs_attempts s"
    using f f' im by (auto simp: parse_iffs)
  moreover have "rs_status s' = rs_status s" using f f' by (simp add: run_status_eval)
  ultimately have "s' = s" using f f' by (intro run_summary.equality) auto
  then show ?thesis using parse_summary_wf [OF p] by simp
qed
lemma update_attempts_ok:
  assumes "update_attempts as e = Inr (NewAttempts bs)" "attempts_ok as" "wf_attempt e"
  shows "attempts_ok bs"
proof -
  have i: "1 \<le> at_attempt e" "at_attempt e \<le> length as + 1" and len: "length bs \<le> run_max_attempts"
    and bs: "bs = (if at_attempt e - 1 < length as then as[at_attempt e - 1 := e] else as @ [e])"
    using assms(1,3) by (auto simp: update_attempts_def wf_attempt_def Let_def split: if_splits)
  have "list_all wf_attempt bs" using assms(2,3) unfolding bs attempts_ok_def
    by (auto simp: list_all_iff dest!: set_update_subset_insert [THEN subsetD])
  moreover have "numbered bs" using assms(2) i unfolding bs attempts_ok_def numbered_def
    by (auto simp: nth_list_update nth_append)
  ultimately show ?thesis using len by (simp add: attempts_ok_def)
qed

lemma event_puts_Inr:
  assumes "event_puts cf e = Inr ps" "wf_event e"
  shows "ps = [(event_slot (cf_sha cf (ev_run e)) (ev_seq e), None, encode_stored_event e)]"
  using assms by (auto simp: event_puts_def rbind_Inr_iff slot_keys event_record_wf)

section \<open>Renewal\<close>

lemma renew_upholds:
  assumes E: "clocked E cf"
  shows "upholds E (run_commit (cf_sha cf) m) (\<lambda>_. True) (\<lambda>_ _. True) (renew_admission cf request run)"
  unfolding renew_admission_def Let_def put_request_def
proof (intro upholds_intros upholds_read_case upholds_now upholds_transaction lasting_intros run_commit_refl TrueI)
  fix key v y t lease ps bs s1 s2
  assume key: "rbind (bounded_identifier ''requestId'' request) (admission_state_key (cf_sha cf)) = Inr key"
    and y: "er_key y = key" "\<not> (ad_run (er_value y) \<noteq> v \<or> ad_status (er_value y) \<noteq> AdmRunning)"
    and t: "se_clock E t" "add_milliseconds (to_iso t) (cf_stale cf) = Inr lease"
    and w: "True \<and> was (se_limits E) parse_admission y s1"
    and ps: "rmap encode_put [(key, Some (er_version y), encode_admission (er_value y\<lparr>ad_updated := to_iso t, ad_lease := lease\<rparr>))] = Inr ps"
      "rmap byte_put [] = Inr bs" and c: "commits [] (ps @ bs) [] s1 s2"
  let ?a = "er_value y"
  have fam: "in_family FamAdmission key" using key by (auto simp: rbind_Inr_iff slot_keys)
  have wf: "wf_admission ?a" using w admission_codec.was_wf by blast
  have "wf_admission (?a\<lparr>ad_updated := to_iso t, ad_lease := lease\<rparr>)"
    using wf clocked_iso [OF E t(1)] clocked_lease [OF E t] by (simp add: wf_admission_def)
  then have "admission_at s2 key = Holds (?a\<lparr>ad_updated := to_iso t, ad_lease := lease\<rparr>)"
    by (rule admission_codec.cell_put [OF c ps(1), rotated]) simp
  moreover have "admission_at s1 key = Holds ?a"
    using commit_updated [OF c ps(1)] w y(1) by auto
  moreover have "elsewhere {key} s1 s2" by (rule commit_elsewhere [OF c ps]) simp
  ultimately show "run_commit (cf_sha cf) m s1 s2" using fam y(2) by (intro admission_renewed) auto
qed

section \<open>Attempts and interactions\<close>

definition running_run :: "setting \<Rightarrow> config \<Rightarrow> string \<Rightarrow> stored_run exec_record \<Rightarrow> snapshot \<Rightarrow> bool" where
  "running_run E cf run x s \<longleftrightarrow>
     was (se_limits E) parse_stored_run x s \<and> er_key x = run_slot (cf_sha cf run) \<and> ident_ok run
     \<and> rs_status (sr_summary (er_value x)) = RunRunning"

lemma lasting_running_run [lasting_intros]: "lasting (running_run E cf run x)"
  unfolding running_run_def by (intro lasting_intros)

lemma require_running_upholds:
  "(\<And>s. G s s) \<Longrightarrow> upholds E G (\<lambda>_. True) (running_run E cf run) (require_running_run cf run)"
  unfolding require_running_run_def Let_def
  by (intro upholds_intros upholds_read_case lasting_intros) (auto simp: running_run_def slot_keys)

lemma running_run_wf: "running_run E cf run x s \<Longrightarrow> wf_stored_run (er_value x)"
  unfolding running_run_def using run_codec.was_wf by blast

lemma next_event_Inr: "next_event_count n = Inr c \<longleftrightarrow> 1 \<le> n \<and> n < run_max_events \<and> c = n + 1"
  by (auto simp: next_event_count_def)

lemma commit_event_upholds:
  assumes E: "clocked E cf" and now: "canonical_ts now" and attempts: "attempts_ok attempts" and body: "wf_event_body body" "progress_body body"
    and again: "upholds E (run_commit (cf_sha cf) m) (\<lambda>_. True) (\<lambda>_ _. True) again"
  shows "upholds E (run_commit (cf_sha cf) m) (running_run E cf run stored) (\<lambda>_ _. True)
    (commit_run_event cf stored ((sr_summary (er_value stored))\<lparr>rs_updated := now, rs_attempts := attempts\<rparr>)
       \<lparr>ev_run = run, ev_seq = sr_event_count (er_value stored), ev_at = now, ev_body = body\<rparr> again)"
  unfolding commit_run_event_def
proof (intro upholds_intros upholds_transaction lasting_intros run_commit_refl TrueI upholds_weaken [OF again])
  let ?r = "er_value stored" and ?e = "\<lparr>ev_run = run, ev_seq = sr_event_count (er_value stored), ev_at = now, ev_body = body\<rparr>"
  fix summary count event ps bs s1 s2
  assume sm: "freeze_summary ((sr_summary ?r)\<lparr>rs_updated := now, rs_attempts := attempts\<rparr>) = Inr summary"
    and n: "next_event_count (sr_event_count ?r) = Inr count" and ev: "event_puts cf ?e = Inr event"
    and run: "running_run E cf run stored s1"
    and ps: "rmap encode_put (run_put stored (?r\<lparr>sr_summary := summary, sr_event_count := count\<rparr>) # event) = Inr ps"
      "rmap byte_put [] = Inr bs" and c: "commits [] (ps @ bs) [] s1 s2"
  let ?r' = "?r\<lparr>sr_summary := (sr_summary ?r)\<lparr>rs_updated := now, rs_attempts := attempts\<rparr>, sr_event_count := sr_event_count ?r + 1\<rparr>"
  have wf: "wf_stored_run ?r" using run by (rule running_run_wf)
  have id: "ident_ok run" "er_key stored = run_slot (cf_sha cf run)" "rs_status (sr_summary ?r) = RunRunning"
    and was: "was (se_limits E) parse_stored_run stored s1" using run by (auto simp: running_run_def)
  have sm': "summary = (sr_summary ?r)\<lparr>rs_updated := now, rs_attempts := attempts\<rparr>" "wf_summary summary"
    using freeze_summary_id [OF _ sm] attempts by auto
  have count: "count = sr_event_count ?r + 1" "sr_event_count ?r < run_max_events" using n by (auto simp: next_event_Inr)
  have wfe: "wf_event ?e" using id(1) now body count by (simp add: wf_event_def)
  note event = event_puts_Inr [OF ev wfe, simplified]
  have "wf_stored_run ?r'" using wf sm' count by (simp add: wf_stored_run_def)
  then have r': "run_at s2 (run_slot (cf_sha cf run)) = Holds ?r'"
    by (rule run_codec.cell_put [OF c ps(1), rotated]) (auto simp: run_put_def id sm' count)
  have e': "event_at s2 (event_slot (cf_sha cf run) (sr_event_count ?r)) = Holds ?e"
    by (rule event_codec.cell_put [OF c ps(1) _ wfe, where ev = None]) (simp add: event)
  have r: "run_at s1 (run_slot (cf_sha cf run)) = Holds ?r"
    using commit_updated [OF c ps(1) _ was] by (auto simp: run_put_def id(2))
  have e: "event_at s1 (event_slot (cf_sha cf run) (sr_event_count ?r)) = Absent"
    by (rule commit_created [OF c ps(1)]) (auto simp: event)
  have "elsewhere {run_slot (cf_sha cf run), event_slot (cf_sha cf run) (sr_event_count ?r)} s1 s2"
    by (rule commit_elsewhere [OF c ps]) (auto simp: event run_put_def id(2))
  then show "run_commit (cf_sha cf) m s1 s2"
    by (rule run_recorded [where sha = "cf_sha cf" and run = run, OF r id(3) e r' e' body(2)])
qed

lemma recorded_upholds:
  assumes E: "clocked E cf" and f: "\<And>x s. running_run E cf run x s \<Longrightarrow> upholds E (run_commit (cf_sha cf) m) (running_run E cf run x) (\<lambda>_ _. True) (f x)"
  shows "upholds E (run_commit (cf_sha cf) m) (\<lambda>_. True) (\<lambda>_ _. True) (pbind (require_running_run cf run) f)"
proof (rule upholds_bind [OF require_running_upholds])
  fix x
  have "upholds E (run_commit (cf_sha cf) m) (running_run E cf run x) (\<lambda>_ _. True) (f x)"
    by (rule upholds_given) (rule f)
  then show "upholds E (run_commit (cf_sha cf) m) (\<lambda>s. True \<and> running_run E cf run x s) (\<lambda>_ _. True) (f x)" by simp
qed (intro run_commit_refl lasting_intros)+

lemma running_attempts: "running_run E cf run x s \<Longrightarrow> attempts_ok (rs_attempts (sr_summary (er_value x)))"
  by (auto dest!: running_run_wf simp: wf_stored_run_def wf_summary_attempts)

lemma record_attempt_upholds:
  assumes E: "clocked E cf"
  shows "upholds E (run_commit (cf_sha cf) m) (\<lambda>_. True) (\<lambda>_ _. True) (record_attempt cf run_v attempt_v)"
proof -
  have loop: "upholds E (run_commit (cf_sha cf) m) (\<lambda>_. True) (\<lambda>_ _. True) (record_attempt_loop n cf run evidence)"
    if ev: "wf_attempt evidence" for n run evidence
  proof (induction n)
    case (Suc n)
    show ?case unfolding record_attempt_loop.simps Let_def
    proof (intro recorded_upholds [OF E] upholds_lift)
      fix x s u
      assume x: "running_run E cf run x s" and u: "update_attempts (rs_attempts (sr_summary (er_value x))) evidence = Inr u"
      show "upholds E (run_commit (cf_sha cf) m) (running_run E cf run x) (\<lambda>_ _. True)
        (case u of AlreadyRecorded \<Rightarrow> Return (sr_summary (er_value x))
         | NewAttempts attempts \<Rightarrow>
             pbind journal_now (\<lambda>now.
             commit_run_event cf x ((sr_summary (er_value x))\<lparr>rs_updated := now, rs_attempts := attempts\<rparr>)
               \<lparr>ev_run = run, ev_seq = sr_event_count (er_value x), ev_at = now, ev_body = AttemptEvent evidence\<rparr>
               (record_attempt_loop n cf run evidence)))"
      proof (cases u)
        case (NewAttempts as)
        note ok = update_attempts_ok [OF u [unfolded NewAttempts] running_attempts [OF x] ev]
        show ?thesis unfolding NewAttempts attempt_update.case
          by (intro upholds_now commit_event_upholds [OF E _ ok] lasting_intros Suc.IH) (use clocked_iso [OF E] ev in auto)
      qed (simp add: upholds_Return)
    qed
  qed (simp add: upholds_Throw)
  show ?thesis unfolding record_attempt_def by (intro upholds_intros loop) (auto dest: parse_attempt_wf)
qed

lemma updated_only: "s\<lparr>rs_updated := t\<rparr> = s\<lparr>rs_updated := t, rs_attempts := rs_attempts s\<rparr>" for s :: run_summary
  by (cases s) simp

lemma record_interaction_upholds:
  assumes E: "clocked E cf"
  shows "upholds E (run_commit (cf_sha cf) m) (\<lambda>_. True) (\<lambda>_ _. True) (record_interaction cf run_v evidence_v)"
proof -
  have loop: "upholds E (run_commit (cf_sha cf) m) (\<lambda>_. True) (\<lambda>_ _. True) (record_interaction_loop n cf run evidence)"
    if ev: "wf_evidence evidence" for n run evidence
  proof (induction n)
    case (Suc n)
    show ?case unfolding record_interaction_loop.simps Let_def
    proof (intro recorded_upholds [OF E] upholds_now lasting_intros)
      fix x s t assume x: "running_run E cf run x s" and t: "se_clock E t"
      show "upholds E (run_commit (cf_sha cf) m) (running_run E cf run x) (\<lambda>_ _. True)
        (commit_run_event cf x ((sr_summary (er_value x))\<lparr>rs_updated := to_iso t\<rparr>)
           \<lparr>ev_run = run, ev_seq = sr_event_count (er_value x), ev_at = to_iso t, ev_body = InteractionEvent evidence\<rparr>
           (record_interaction_loop n cf run evidence))"
        by (subst updated_only, rule commit_event_upholds [OF E clocked_iso [OF E t] running_attempts [OF x] _ _ Suc.IH])
          (use ev in simp_all)
    qed
  qed (simp add: upholds_Throw)
  show ?thesis unfolding record_interaction_def by (intro upholds_intros loop) (auto dest: parse_evidence_wf)
qed

section \<open>Settling a run\<close>

text \<open>The commit that stale classification and settlement share.\<close>

definition open_admission :: "setting \<Rightarrow> admission exec_record \<Rightarrow> snapshot \<Rightarrow> bool" where
  "open_admission E x s \<longleftrightarrow>
     was (se_limits E) parse_admission x s \<and> in_family FamAdmission (er_key x) \<and> ad_status (er_value x) = AdmRunning"

lemma lasting_open_admission [lasting_intros]: "lasting (open_admission E x)"
  unfolding open_admission_def by (intro lasting_intros)

lemma settled_step:
  assumes c: "commits checks (ps @ bs) deletes s1 s2" "rmap encode_put puts = Inr ps" "rmap byte_put byte_puts = Inr bs"
    and run: "running_run E cf run stored s1" and adm: "open_admission E a s1" "ad_run (er_value a) = run"
      "ad_conv (er_value a) = rs_conv (sr_summary (er_value stored))"
    and sm: "freeze_summary (settled_summary (sr_summary (er_value stored)) status now revision failure) = Inr summary"
      "next_event_count (sr_event_count (er_value stored)) = Inr count"
      "event_puts cf (settled_event run (sr_event_count (er_value stored)) now status revision failure) = Inr event"
    and ok: "status \<noteq> RunRunning" "canonical_ts now" "opt_ok wf_artifact_ref transcript" "opt_ok wf_artifact_ref response"
      "(rs_revision summary = None) = (transcript = None)"
    and puts: "run_put stored \<lparr>sr_summary = summary, sr_event_count = count, sr_transcript = transcript\<rparr> \<in> set puts"
      "admission_put a (settled_admission (er_value a) status now response) \<in> set puts" "set event \<subseteq> set puts"
    and keys: "\<And>k. k \<in> fst ` set puts \<union> fst ` set byte_puts \<union> fst ` set deletes \<Longrightarrow> within run_families k \<Longrightarrow>
      k \<in> insert (er_key stored) (insert (er_key a) (fst ` set event))"
  shows "run_commit (cf_sha cf) m s1 s2"
proof -
  let ?r = "er_value stored" and ?a = "er_value a"
  let ?e = "settled_event run (sr_event_count ?r) now status revision failure"
  let ?s' = "settled_summary (sr_summary ?r) status now revision failure"
  have wf: "wf_stored_run ?r" using run by (rule running_run_wf)
  have id: "ident_ok run" "er_key stored = run_slot (cf_sha cf run)" "rs_status (sr_summary ?r) = RunRunning"
    and was: "was (se_limits E) parse_stored_run stored s1" "was (se_limits E) parse_admission a s1"
    and a: "in_family FamAdmission (er_key a)" "ad_status ?a = AdmRunning"
    using run adm by (auto simp: running_run_def open_admission_def)
  have wfa: "wf_admission ?a" using was(2) by (rule admission_codec.was_wf)
  have "attempts_ok (rs_attempts ?s')" using running_attempts [OF run] by (simp add: settled_summary_def)
  from freeze_summary_id [OF this sm(1)] have s': "summary = ?s'" "wf_summary ?s'" by auto
  have count: "count = sr_event_count ?r + 1" "sr_event_count ?r < run_max_events" using sm(2) by (auto simp: next_event_Inr)
  have "rs_failure (sr_summary ?r) = None" using wf id(3) by (simp add: wf_stored_run_def wf_summary_def)
  then have wfe: "wf_event ?e" using s'(2) id(1) ok(1,2) count
    by (cases revision; cases failure) (auto simp: wf_event_def settled_event_def wf_summary_def settled_summary_def opt_ok_def)
  have event: "event = [(event_slot (cf_sha cf run) (sr_event_count ?r), None, encode_stored_event ?e)]"
    using event_puts_Inr [OF sm(3) wfe] by (simp add: settled_event_def)
  have wf': "wf_stored_run \<lparr>sr_summary = summary, sr_event_count = count, sr_transcript = transcript\<rparr>"
    using s' count ok by (simp add: wf_stored_run_def)
  have wfa': "wf_admission (settled_admission ?a status now response)"
    using wfa a(2) ok by (auto simp: wf_admission_def settled_admission_def opt_ok_def split: option.splits)
  show ?thesis
  proof (rule run_settled [where sha = "cf_sha cf" and run = run])
    show "run_at s1 (run_slot (cf_sha cf run)) = Holds ?r"
      using commit_updated [OF c(1,2) _ was(1)] puts(1) by (auto simp: run_put_def id(2))
    show "admission_at s1 (er_key a) = Holds ?a"
      using commit_updated [OF c(1,2) _ was(2)] puts(2) by (auto simp: admission_put_def)
    show "event_at s1 (event_slot (cf_sha cf run) (sr_event_count ?r)) = Absent"
      by (rule commit_created [OF c(1,2)]) (use puts(3) event in auto)
    show "run_at s2 (run_slot (cf_sha cf run)) = Holds \<lparr>sr_summary = ?s', sr_event_count = sr_event_count ?r + 1, sr_transcript = transcript\<rparr>"
      using run_codec.cell_put [OF c(1,2) puts(1) [unfolded run_put_def] wf'] s' count by (simp add: id(2))
    show "admission_at s2 (er_key a) = Holds (settled_admission ?a status now response)"
      by (rule admission_codec.cell_put [OF c(1,2) puts(2) [unfolded admission_put_def] wfa'])
    show "event_at s2 (event_slot (cf_sha cf run) (sr_event_count ?r)) = Holds ?e"
      by (rule event_codec.cell_put [OF c(1,2) _ wfe, where ev = None]) (use puts(3) event in auto)
    show "elsewhere {run_slot (cf_sha cf run), er_key a, event_slot (cf_sha cf run) (sr_event_count ?r)} s1 s2"
      by (rule commit_elsewhere [OF c]) (use keys in \<open>auto simp: event id(2)\<close>)
  qed (use id a adm ok in auto)
qed

section \<open>Admission\<close>

lemma quiet_bind:
  assumes "clocked E cf" "keeps F R p" "F \<inter> run_families = {}" "lasting P" "\<And>x. R x \<Longrightarrow> upholds E (run_commit sha m) P R' (k x)"
  shows "upholds E (run_commit sha m) P R' (pbind p k)"
  by (rule upholds_keeps_bind [OF assms(2)]) (use assms in \<open>auto simp: clocked_def intro: touches_untouched\<close>)

lemma quiet:
  assumes "clocked E cf" "keeps F (\<lambda>_. True) p" "F \<inter> run_families = {}"
  shows "upholds E (run_commit sha m) P (\<lambda>_ _. True) p"
  by (rule keeps_upholds [OF assms(2)]) (use assms in \<open>auto simp: clocked_def intro: touches_untouched\<close>)

lemma best_reconcile_bind:
  assumes "clocked E cf" "lasting P" "\<And>x. upholds E (run_commit sha m) P R (k x)"
  shows "upholds E (run_commit sha m) P R (pbind (best_effort_reconcile cf' run) k)"
  by (rule quiet_bind [OF assms(1) keeps_best_reconcile [of "{FamIntent}"] _ assms(2,3)]) (simp_all add: run_families_def)

lemma stale_puts_keys:
  "stale_intent_puts now a found = Inr ips \<Longrightarrow> (\<And>x. found = Some x \<Longrightarrow> in_family FamIntent (er_key x)) \<Longrightarrow>
   x \<in> fst ` set ips \<Longrightarrow> in_family FamIntent x"
  by (auto simp: stale_intent_puts_def Let_def rbind_Inr_iff split: option.splits if_splits)

lemma stale_summary:
  "s\<lparr>rs_status := RunUncertain, rs_updated := now, rs_ended := Some now, rs_failure := Some stale_code\<rparr> =
   settled_summary s RunUncertain now None (Some stale_code)" for s :: run_summary
  by (cases s) (simp add: settled_summary_def)

lemma stale_admission:
  "a\<lparr>ad_status := AdmUncertain, ad_updated := now, ad_lease := now, ad_settled := Some RunUncertain\<rparr> =
   settled_admission a RunUncertain now None" for a :: admission
  by (cases a) (simp add: settled_admission_def)

lemma counted_run: "r\<lparr>sr_summary := s, sr_event_count := n\<rparr> = \<lparr>sr_summary = s, sr_event_count = n, sr_transcript = sr_transcript r\<rparr>"
  for r :: stored_run
  by (cases r) simp

text \<open>The commit of stale classification; \<open>found\<close> is the publication intent it read.\<close>

lemma classify_step:
  assumes E: "clocked E cf" and t: "se_clock E t"
    and run: "run_state_key (cf_sha cf) (ad_run (er_value adm)) = Inr (er_key run)"
      "rs_status (sr_summary (er_value run)) = RunRunning" "rs_conv (sr_summary (er_value run)) = ad_conv (er_value adm)"
      "was (se_limits E) parse_stored_run run s1"
    and adm: "open_admission E adm s1"
    and sm: "freeze_summary ((sr_summary (er_value run))\<lparr>rs_status := RunUncertain, rs_updated := to_iso t, rs_ended := Some (to_iso t),
        rs_failure := Some stale_code\<rparr>) = Inr summary"
      "next_event_count (sr_event_count (er_value run)) = Inr count"
      "stale_intent_puts (to_iso t) (er_value adm) found = Inr ips"
      "event_puts cf (settled_event (ad_run (er_value adm)) (sr_event_count (er_value run)) (to_iso t) RunUncertain None (Some stale_code)) = Inr event"
    and found: "\<And>x. found = Some x \<Longrightarrow> in_family FamIntent (er_key x)"
    and c: "commits [] (ps @ bs) [] s1 s2" "rmap byte_put [] = Inr bs"
      "rmap encode_put ([admission_put adm ((er_value adm)\<lparr>ad_status := AdmUncertain, ad_updated := to_iso t, ad_lease := to_iso t,
         ad_settled := Some RunUncertain\<rparr>), run_put run ((er_value run)\<lparr>sr_summary := summary, sr_event_count := count\<rparr>)]
         @ event @ ips) = Inr ps"
  shows "run_commit (cf_sha cf) m s1 s2"
proof -
  have r: "running_run E cf (ad_run (er_value adm)) run s1"
    using run by (simp add: running_run_def slot_keys)
  have wf: "wf_stored_run (er_value run)" using r by (rule running_run_wf)
  note sm1 = sm(1) [unfolded stale_summary]
  have "attempts_ok (rs_attempts (settled_summary (sr_summary (er_value run)) RunUncertain (to_iso t) None (Some stale_code)))"
    using running_attempts [OF r] by (simp add: settled_summary_def)
  from freeze_summary_id [OF this sm1] have "rs_revision summary = rs_revision (sr_summary (er_value run))"
    by (simp add: settled_summary_def)
  then have tr: "(rs_revision summary = None) = (sr_transcript (er_value run) = None)" "opt_ok wf_artifact_ref (sr_transcript (er_value run))"
    using wf by (simp_all add: wf_stored_run_def)
  have "\<not> within run_families k" if "k \<in> fst ` set ips" for k
    using stale_puts_keys [OF sm(3) found that] by (auto simp: within_def run_families_def dest: in_family_unique)
  then have outside: "within run_families k \<Longrightarrow> k \<notin> fst ` set ips" for k by blast
  show ?thesis
    by (rule settled_step [OF c(1,3,2) r adm _ _ sm1 sm(2,4) _ clocked_iso [OF E t] tr(2) _ tr(1), where response = None])
      (use run(3) in \<open>auto simp: opt_ok_def counted_run stale_admission run_put_def admission_put_def dest!: outside\<close>)
qed

lemma classify_upholds:
  assumes E: "clocked E cf" and again: "upholds E (run_commit (cf_sha cf) m) (\<lambda>_. True) (\<lambda>_ _. True) again"
  shows "upholds E (run_commit (cf_sha cf) m) (open_admission E adm) (\<lambda>_ _. True) (classify_stale cf adm again)"
proof -
  have ending: "upholds E (run_commit (cf_sha cf) m) P (\<lambda>_ _. True)
      (pbind (if b then Return () else best_effort_reconcile cf run) (\<lambda>_. Return (AdmissionUncertain run)))" if "lasting P" for P b run
    by (cases b) (auto intro: best_reconcile_bind [OF E that] upholds_intros)
  have again': "upholds E (run_commit (cf_sha cf) m) P (\<lambda>_ _. True) again" for P
    by (rule upholds_weaken [OF again]) auto
  show ?thesis unfolding classify_stale_def Let_def
    apply (intro upholds_intros upholds_read_case upholds_read upholds_now upholds_transaction ending lasting_intros run_commit_refl TrueI again')
    subgoal premises prems
      by (rule classify_step [OF E prems(4) _ _ _ _ _ prems(5,6,8,9) _ prems(13,12,11)]) (use prems(1,2,3,10) in auto)
    subgoal premises prems
      by (rule classify_step [OF E prems(4) _ _ _ _ _ prems(5,6,9,10) _ prems(14,13,12)])
        (use prems(1,2,3,7,8,11) in \<open>auto dest: key_in_family\<close>)
    done
qed

definition read_admission :: "setting \<Rightarrow> admission exec_record \<Rightarrow> snapshot \<Rightarrow> bool" where
  "read_admission E x s \<longleftrightarrow> was (se_limits E) parse_admission x s \<and> in_family FamAdmission (er_key x)"

lemma lasting_read_admission [lasting_intros]: "lasting (read_admission E x)"
  unfolding read_admission_def by (intro lasting_intros)

lemma open_read_admission: "ad_status (er_value x) = AdmRunning \<Longrightarrow> open_admission E x s \<longleftrightarrow> read_admission E x s"
  by (auto simp: open_admission_def read_admission_def)

lemma existing_upholds:
  assumes E: "clocked E cf"
  shows "upholds E (run_commit (cf_sha cf) m) (read_admission E adm) (\<lambda>_ _. True) (existing_admission n cf adm conv fp)"
proof (induction n arbitrary: adm)
  case 0
  then show ?case by (simp add: upholds_Throw)
next
  case (Suc n)
  have again: "upholds E (run_commit (cf_sha cf) m) (\<lambda>_. True) (\<lambda>_ _. True)
      (case n of 0 \<Rightarrow> Throw (PlainError ''stale admission classification did not converge'')
       | Suc k \<Rightarrow> pbind (exec_read parse_admission (er_key adm)) (\<lambda>current. case current of
           None \<Rightarrow> Throw (PlainError ''admission disappeared during stale classification'')
         | Some c \<Rightarrow> existing_admission n cf c conv fp))" if fam: "in_family FamAdmission (er_key adm)"
  proof (cases n)
    case (Suc k)
    have "upholds E (run_commit (cf_sha cf) m) (\<lambda>s. True \<and> was (se_limits E) parse_admission c s) (\<lambda>_ _. True) (existing_admission n cf c conv fp)"
      if "er_key c = er_key adm" for c
      by (rule upholds_weaken [OF Suc.IH]) (use that fam in \<open>auto simp: read_admission_def\<close>)
    then show ?thesis unfolding Suc nat.case
      by (intro upholds_read_case upholds_intros lasting_intros) (simp add: Suc)
  qed (simp add: upholds_Throw)
  have classify: "upholds E (run_commit (cf_sha cf) m) (read_admission E adm) (\<lambda>_ _. True) (classify_stale cf adm
      (case n of 0 \<Rightarrow> Throw (PlainError ''stale admission classification did not converge'')
       | Suc k \<Rightarrow> pbind (exec_read parse_admission (er_key adm)) (\<lambda>current. case current of
           None \<Rightarrow> Throw (PlainError ''admission disappeared during stale classification'')
         | Some c \<Rightarrow> existing_admission n cf c conv fp)))" if "ad_status (er_value adm) = AdmRunning"
  proof (cases "in_family FamAdmission (er_key adm)")
    case True
    show ?thesis
      by (rule upholds_weaken [OF classify_upholds [OF E again [OF True]]]) (use that in \<open>auto simp: open_read_admission\<close>)
  qed (simp add: upholds_def read_admission_def)
  show ?case unfolding existing_admission.simps Let_def
    by (intro upholds_intros upholds_read_case upholds_expired best_reconcile_bind [OF E] classify lasting_intros TrueI)
      (cases "ad_status (er_value adm)"; simp)
qed

lemma event_wf_Admitted: "ident_ok run \<Longrightarrow> canonical_ts now \<Longrightarrow> wf_event \<lparr>ev_run = run, ev_seq = 0, ev_at = now, ev_body = Admitted\<rparr>"
  by (simp add: wf_event_def run_max_events_def)

lemma admitted_step:
  assumes E: "clocked E cf" and t: "se_clock E t" "add_milliseconds (to_iso t) (cf_stale cf) = Inr lease"
    and ids: "ident_ok request" "ident_ok run" "conv_id_ok conv" "fingerprint_ok fp"
    and sm: "freeze_summary (new_summary run request conv (to_iso t)) = Inr summary"
    and event: "event_puts cf \<lparr>ev_run = run, ev_seq = 0, ev_at = to_iso t, ev_body = Admitted\<rparr> = Inr event"
    and c: "commits [] (ps @ bs) [] s1 s2" "rmap byte_put [] = Inr bs"
      "rmap encode_put ([(admission_slot (cf_sha cf request), None, encode_admission (new_admission request conv fp run (to_iso t) lease)),
         (run_slot (cf_sha cf run), None, encode_stored_run \<lparr>sr_summary = summary, sr_event_count = 1, sr_transcript = None\<rparr>)]
         @ event @ [(history_slot (to_iso t) (cf_sha cf run), None, encode_run_history \<lparr>rh_run = run, rh_started = to_iso t\<rparr>)]) = Inr ps"
  shows "run_commit (cf_sha cf) m s1 s2"
proof -
  let ?now = "to_iso t" and ?d = "cf_sha cf run"
  let ?e = "\<lparr>ev_run = run, ev_seq = 0, ev_at = ?now, ev_body = Admitted\<rparr>"
  have now: "canonical_ts ?now" and lease: "canonical_ts lease" using clocked_iso [OF E t(1)] clocked_lease [OF E t] by auto
  have wfe: "wf_event ?e" by (rule event_wf_Admitted [OF ids(2) now])
  have ev: "event = [(event_slot ?d 0, None, encode_stored_event ?e)]" using event_puts_Inr [OF event wfe] by simp
  have "attempts_ok (rs_attempts (new_summary run request conv ?now))" by (simp add: new_summary_def attempts_ok_def numbered_def)
  from freeze_summary_id [OF this sm] have s: "summary = new_summary run request conv ?now" "wf_summary summary" by auto
  have wfr: "wf_stored_run \<lparr>sr_summary = summary, sr_event_count = 1, sr_transcript = None\<rparr>"
    using s by (simp add: wf_stored_run_def new_summary_def run_max_events_def opt_ok_def)
  have wfa: "wf_admission (new_admission request conv fp run ?now lease)"
    using ids now lease by (simp add: wf_admission_def new_admission_def opt_ok_def)
  have wfh: "wf_run_history \<lparr>rh_run = run, rh_started = ?now\<rparr>" using ids now by (simp add: wf_run_history_def)
  show ?thesis
  proof (rule run_admitted [where sha = "cf_sha cf" and run = run and request = request])
    show "admission_at s2 (admission_slot (cf_sha cf request)) = Holds (new_admission request conv fp run ?now lease)"
      by (rule admission_codec.cell_put [OF c(1,3) _ wfa, where ev = None]) simp
    show "run_at s2 (run_slot ?d) = Holds \<lparr>sr_summary = new_summary run request conv ?now, sr_event_count = 1, sr_transcript = None\<rparr>"
      using run_codec.cell_put [OF c(1,3) _ wfr, where ev = None] by (simp add: s(1))
    show "event_at s2 (event_slot ?d 0) = Holds ?e"
      by (rule event_codec.cell_put [OF c(1,3) _ wfe, where ev = None]) (simp add: ev)
    show "history_at s2 (history_slot ?now ?d) = Holds \<lparr>rh_run = run, rh_started = ?now\<rparr>"
      by (rule history_codec.cell_put [OF c(1,3) _ wfh, where ev = None]) simp
    show "elsewhere {admission_slot (cf_sha cf request), run_slot ?d, event_slot ?d 0, history_slot ?now ?d} s1 s2"
      by (rule commit_elsewhere [OF c(1,3,2)]) (auto simp: ev)
  qed (use ids now in \<open>auto intro!: commit_created [OF c(1,3)] simp: ev\<close>)
qed

lemma keeps_choose_run: "keeps {} ident_ok (choose_run_id v)"
proof -
  have "keeps {} (\<lambda>_. True) (if v = JUndef \<or> v = JNull then GenerateCall RunIdGenerator Return else Return v)"
    by (intro keeps_intros TrueI)
  then show ?thesis unfolding choose_run_id_def
    by (rule keeps_step) (intro keeps_intros, auto simp: parse_iffs)
qed

lemma admit_new_upholds:
  assumes E: "clocked E cf" and ids: "ident_ok request" "conv_id_ok conv" "fingerprint_ok fp"
    and again: "upholds E (run_commit (cf_sha cf) m) (\<lambda>_. True) (\<lambda>_ _. True) again"
  shows "upholds E (run_commit (cf_sha cf) m) (\<lambda>_. True) (\<lambda>_ _. True)
    (admit_new cf (admission_slot (cf_sha cf request)) request conv fp run_v again)"
  unfolding admit_new_def
  apply (intro quiet_bind [OF E keeps_choose_run] upholds_intros upholds_now upholds_transaction lasting_intros run_commit_refl TrueI again)
   apply simp
  subgoal premises prems for run t lease summary rkey event hkey ps bs s1 s2
    by (rule admitted_step [OF E prems(2,3) ids(1) prems(1) ids(2,3) prems(4,6) prems(11,10)])
      (use prems(5,7,9) in \<open>simp add: slot_keys\<close>)
  done

lemma admit_upholds:
  assumes E: "clocked E cf"
  shows "upholds E (run_commit (cf_sha cf) m) (\<lambda>_. True) (\<lambda>_ _. True) (admit cf input)"
proof -
  have loop: "upholds E (run_commit (cf_sha cf) m) (\<lambda>_. True) (\<lambda>_ _. True)
      (admit_loop n cf (admission_slot (cf_sha cf request)) request conv fp run_v)"
    if ids: "ident_ok request" "conv_id_ok conv" "fingerprint_ok fp" for n request conv fp run_v
  proof (induction n)
    case (Suc n)
    have "upholds E (run_commit (cf_sha cf) m) (\<lambda>s. True \<and> was (se_limits E) parse_admission x s) (\<lambda>_ _. True)
        (existing_admission admission_turns cf x conv fp)" if "er_key x = admission_slot (cf_sha cf request)" for x
      by (rule upholds_weaken [OF existing_upholds [OF E]]) (use that in \<open>auto simp: read_admission_def\<close>)
    then show ?case unfolding admit_loop.simps
      by (intro upholds_read_case admit_new_upholds [OF E ids Suc.IH] lasting_intros)
  qed (simp add: upholds_Throw)
  show ?thesis unfolding admit_def by (intro upholds_lift) (auto simp: parse_iffs slot_keys intro!: loop)
qed

end
