(* ===== verification/SettleSteps.thy ===== *)
theory SettleSteps
  imports RunMethods
begin

text \<open>
  Settlement and retention commit only steps of \<open>run_commit\<close>, and with them every call of the journal
  does.
\<close>

section \<open>Settlement\<close>

lemma settle_admission_upholds:
  "upholds E (run_commit sha m) (\<lambda>_. True) (\<lambda>a s. open_admission E a s \<and> ad_run (er_value a) = run \<and> ad_conv (er_value a) = conv)
     (settle_admission cf run request conv)"
  unfolding settle_admission_def
  by (intro upholds_intros upholds_read_case lasting_intros) (auto simp: open_admission_def slot_keys)

definition settling :: "setting \<Rightarrow> config \<Rightarrow> settlement_parts \<Rightarrow> snapshot \<Rightarrow> bool" where
  "settling E cf p s \<longleftrightarrow> running_run E cf (sp_run_id p) (sp_run p) s \<and> open_admission E (sp_admission p) s"

lemma lasting_settling [lasting_intros]: "lasting (settling E cf p)"
  unfolding settling_def by (intro lasting_intros)

definition settling_ok :: "settlement_parts \<Rightarrow> bool" where
  "settling_ok p \<longleftrightarrow> parts_ok p \<and> sp_status p \<noteq> RunRunning \<and> ad_run (er_value (sp_admission p)) = sp_run_id p
     \<and> ad_conv (er_value (sp_admission p)) = rs_conv (sr_summary (er_value (sp_run p)))
     \<and> opt_ok wf_artifact_ref (sp_transcript_ref p) \<and> opt_ok wf_artifact_ref (sp_response_ref p)
     \<and> (sp_transcript_ref p = None) = (sp_transcript p = None)"

lemma family_outside: "in_family f k \<Longrightarrow> f \<notin> run_families \<Longrightarrow> \<not> within run_families k"
  by (auto simp: within_def dest: in_family_unique)

text \<open>Apart from the run, its admission and its event, the settlement writes outside the runs.\<close>

lemma settlement_outside:
  assumes "parts_ok p" "conversation_put cf (sp_transcript p) tref now = Inr cp"
    and "x \<in> fst ` set (cp @ session_puts (sp_session p) @ intent_puts (retained_intent (sp_intent p) cleanup now))
      \<union> fst ` set (intent_deletes (sp_intent p) (retained_intent (sp_intent p) cleanup now) @ session_deletes (sp_session p)
        @ chunk_deletes (sp_transcript p))"
  shows "\<not> within run_families x"
proof -
  note ok = assms(1) [unfolded parts_ok_def]
  have s: "x \<in> fst ` set (session_puts (sp_session p)) \<union> fst ` set (session_deletes (sp_session p)) \<Longrightarrow> in_family FamSession x"
    using ok by (auto simp: session_puts_def session_deletes_def session_plan_ok_def split: session_plan.splits)
  have i: "x \<in> fst ` set (intent_puts (retained_intent (sp_intent p) cleanup now))
      \<union> fst ` set (intent_deletes (sp_intent p) (retained_intent (sp_intent p) cleanup now)) \<Longrightarrow> in_family FamIntent x"
    using ok by (auto simp: intent_puts_def intent_deletes_def retained_intent_def split: option.splits if_splits)
  have c: "x \<in> fst ` set (chunk_deletes (sp_transcript p)) \<Longrightarrow> in_family FamChunk x"
    using ok by (cases "sp_transcript p") (auto simp: chunk_deletes_def plan_chunks_ok_def)
  have v: "x \<in> fst ` set cp \<Longrightarrow> in_family FamConversation x"
    using assms(2) by (auto simp: conversation_put_def rbind_Inr_iff dest: key_in_family split: option.splits)
  have "in_family FamConversation x \<or> in_family FamSession x \<or> in_family FamIntent x \<or> in_family FamChunk x"
    using assms(3) s i c v by (simp add: image_Un) blast
  then show ?thesis by (auto simp: run_families_def dest: family_outside)
qed

lemma settlement_step:
  assumes E: "clocked E cf" and t: "se_clock E t" and ok: "settling_ok p" and P: "settling E cf p s1"
    and sm: "freeze_summary (settled_summary (sr_summary (er_value (sp_run p))) (sp_status p) (to_iso t) (transcript_revision p) (sp_failure p)) = Inr summary"
      "next_event_count (sr_event_count (er_value (sp_run p))) = Inr count"
      "event_puts cf (settled_event (sp_run_id p) (sr_event_count (er_value (sp_run p))) (to_iso t) (sp_status p) (transcript_revision p) (sp_failure p)) = Inr event"
      "conversation_put cf (sp_transcript p) (sp_transcript_ref p) (to_iso t) = Inr cp"
    and c: "commits [] (ps @ bs) (intent_deletes (sp_intent p) (retained_intent (sp_intent p) cleanup (to_iso t))
        @ session_deletes (sp_session p) @ chunk_deletes (sp_transcript p)) s1 s2"
      "rmap byte_put [] = Inr bs"
      "rmap encode_put ([run_put (sp_run p) ((er_value (sp_run p))\<lparr>sr_summary := summary, sr_event_count := count,
           sr_transcript := (case sp_transcript_ref p of None \<Rightarrow> sr_transcript (er_value (sp_run p)) | Some ref \<Rightarrow> Some ref)\<rparr>),
         admission_put (sp_admission p) (settled_admission (er_value (sp_admission p)) (sp_status p) (to_iso t) (sp_response_ref p))]
        @ event @ cp @ session_puts (sp_session p) @ intent_puts (retained_intent (sp_intent p) cleanup (to_iso t))) = Inr ps"
  shows "run_commit (cf_sha cf) m s1 s2"
proof -
  let ?r = "er_value (sp_run p)"
  let ?t = "case sp_transcript_ref p of None \<Rightarrow> sr_transcript ?r | Some ref \<Rightarrow> Some ref"
  have run: "running_run E cf (sp_run_id p) (sp_run p) s1" and adm: "open_admission E (sp_admission p) s1"
    using P by (simp_all add: settling_def)
  have wf: "wf_stored_run ?r" using run by (rule running_run_wf)
  have "attempts_ok (rs_attempts (settled_summary (sr_summary ?r) (sp_status p) (to_iso t) (transcript_revision p) (sp_failure p)))"
    using running_attempts [OF run] by (simp add: settled_summary_def)
  from freeze_summary_id [OF this sm(1)] have s': "rs_revision summary = (case transcript_revision p of None \<Rightarrow> rs_revision (sr_summary ?r) | Some x \<Rightarrow> Some x)"
    by (simp add: settled_summary_def)
  have tr: "opt_ok wf_artifact_ref ?t" "(rs_revision summary = None) = (?t = None)"
    using wf ok s' by (auto simp: wf_stored_run_def settling_ok_def transcript_revision_def opt_ok_def split: option.splits)
  have upd: "?r\<lparr>sr_summary := summary, sr_event_count := count, sr_transcript := ?t\<rparr> = \<lparr>sr_summary = summary, sr_event_count = count, sr_transcript = ?t\<rparr>"
    by (cases ?r) simp
  have parts: "parts_ok p" using ok by (simp add: settling_ok_def)
  note outside = settlement_outside [OF parts sm(4)]
  show ?thesis
    by (rule settled_step [OF c(1,3,2) run adm _ _ sm(1-3) _ clocked_iso [OF E t] tr(1) _ tr(2), where response = "sp_response_ref p"])
      (use ok outside in \<open>auto simp: settling_ok_def upd run_put_def admission_put_def\<close>)
qed

lemma commit_settlement_upholds:
  assumes E: "clocked E cf" and ok: "settling_ok p"
  shows "upholds E (run_commit (cf_sha cf) m) (settling E cf p) (\<lambda>_ _. True) (commit_settlement cf p)"
proof -
  have ending: "upholds E (run_commit (cf_sha cf) m) P (\<lambda>_ _. True)
      (pbind (if b then Return () else best_effort_reconcile cf run) (\<lambda>_. Return (x :: run_summary)))" if "lasting P" for P b run x
    by (cases b) (auto intro: best_reconcile_bind [OF E that] upholds_intros)
  show ?thesis unfolding commit_settlement_def Let_def
    apply (intro upholds_intros upholds_now upholds_transaction ending lasting_intros run_commit_refl TrueI)
    subgoal premises prems
      by (rule settlement_step [OF E prems(1) ok prems(7) prems(3-6) prems(10,9,8)])
    done
qed

lemma settle_checks_terminal: "settle_checks input = Inr (run, request, status, failure) \<Longrightarrow> status \<noteq> RunRunning"
  by (auto simp: settle_checks_def rbind_Inr_iff dest!: terminal_run_status_wf)

lemma settle_upholds:
  assumes E: "clocked E cf"
  shows "upholds E (run_commit (cf_sha cf) m) (\<lambda>_. True) (\<lambda>_ _. True) (settle cf input)"
proof -
  have out: "F \<inter> run_families = {}" if "F \<subseteq> {FamIntent}" for F using that by (auto simp: run_families_def)
  have plan: "keeps {} (\<lambda>r. \<forall>t. r = Some t \<longrightarrow> plan_chunks_ok t) (if b then Return None
      else pbind (plan_transcript cf conv v) (\<lambda>t. Return (Some t)))" for b conv v
    by (intro keeps_intros keeps_bind [OF keeps_plan_transcript]) auto
  have run: "upholds E (run_commit (cf_sha cf) m) (running_run E cf run stored) (\<lambda>_ _. True)
      (settle_running cf input run request status failure stored)"
    if st: "status \<noteq> RunRunning" "in_family FamRun (er_key stored)" for run request status failure stored
    unfolding settle_running_def Let_def
  proof (intro upholds_bind [OF settle_admission_upholds] lasting_intros)
    fix a
    let ?P = "\<lambda>s. running_run E cf run stored s \<and> open_admission E a s \<and> ad_run (er_value a) = run
      \<and> ad_conv (er_value a) = rs_conv (sr_summary (er_value stored))"
    show "upholds E (run_commit (cf_sha cf) m) ?P (\<lambda>_ _. True)
      (pbind (if ri_transcript input = JUndef then Return None
              else pbind (plan_transcript cf (rs_conv (sr_summary (er_value stored))) (ri_transcript input)) (\<lambda>t. Return (Some t))) (\<lambda>transcript.
       pbind (plan_session cf (rs_conv (sr_summary (er_value stored))) input) (\<lambda>session.
       pbind (lift (response_bytes (ri_response input))) (\<lambda>response.
       pbind (lift (slot_plan cf transcript_slot transcript_media (map_option tp_bytes transcript))) (\<lambda>tplan.
       pbind (lift (slot_plan cf response_slot response_media response)) (\<lambda>rplan.
       pbind (settlement_intent cf run request (map ap_descriptor (opt_list tplan @ opt_list rplan))) (\<lambda>(ensured, intent).
       pbind (check_staged cf intent transcript) (\<lambda>_.
       pbind (publish_slot cf ensured [] transcript_media tplan) (\<lambda>(tref, published).
       pbind (publish_slot cf ensured published response_media rplan) (\<lambda>(rref, _).
       commit_settlement cf
         \<lparr>sp_run_id = run, sp_status = status, sp_failure = failure, sp_run = stored, sp_admission = a, sp_transcript = transcript,
          sp_session = session, sp_intent = intent, sp_transcript_ref = tref, sp_response_ref = rref\<rparr>))))))))))"
    proof (rule upholds_given)
      fix s assume "?P s"
      then have a: "in_family FamAdmission (er_key a)" "ad_run (er_value a) = run" "ad_conv (er_value a) = rs_conv (sr_summary (er_value stored))"
        by (auto simp: open_admission_def)
      have commit: "upholds E (run_commit (cf_sha cf) m) ?P (\<lambda>_ _. True) (commit_settlement cf
         \<lparr>sp_run_id = run, sp_status = status, sp_failure = failure, sp_run = stored, sp_admission = a, sp_transcript = transcript,
          sp_session = session, sp_intent = intent, sp_transcript_ref = tref, sp_response_ref = rref\<rparr>)"
        if "\<forall>t. transcript = Some t \<longrightarrow> plan_chunks_ok t" "session_plan_ok session" "\<forall>x. intent = Some x \<longrightarrow> in_family FamIntent (er_key x)"
          "opt_ok wf_artifact_ref tref" "opt_ok wf_artifact_ref rref" "(tref = None) = (transcript = None)"
        for transcript session intent tref rref
        by (rule upholds_weaken [OF commit_settlement_upholds [OF E]])
          (use that a st in \<open>auto simp: settling_def settling_ok_def parts_ok_def\<close>)
      show ?thesis
        by (intro quiet_bind [OF E plan] quiet_bind [OF E keeps_plan_session [of "{}"]] upholds_intros
            quiet_bind [OF E keeps_settlement_intent [of "{FamIntent}"]] quiet_bind [OF E keeps_check_staged [of "{}"]]
            quiet_bind [OF E keeps_publish_slot [of _ "{FamIntent}"]] out commit lasting_intros)
          (auto simp: slot_plan_def rbind_Inr_iff split: option.splits)
    qed
  qed
  show ?thesis unfolding settle_def Let_def
    apply (intro upholds_lift upholds_prod upholds_read_case upholds_if upholds_Return upholds_Throw lasting_intros TrueI)
    subgoal premises prems for c run rest request rest' status failure rkey stored
      by (rule upholds_weaken [OF run]) (use prems in \<open>auto simp: running_run_def slot_keys dest: settle_checks_terminal\<close>)
    done
qed

section \<open>Retention\<close>

lemma retire_events_upholds:
  assumes "\<And>e. e \<in> set events \<Longrightarrow> in_family FamEvent (er_key e)" "lasting P"
  shows "upholds E (run_commit sha True) P (\<lambda>_ _. True) (retire_events budget events)"
proof -
  have sel: "in_family FamEvent k" if "k \<in> fst ` set (map (\<lambda>e. (er_key e, Some (er_version e))) (take n events))" for n k
    using that assms(1) by (auto dest: in_set_takeD)
  have "run_commit sha True s1 s2"
    if c: "commits [] (ps @ bs) (map (\<lambda>e. (er_key e, Some (er_version e))) (take n events)) s1 s2"
      "rmap encode_put [] = Inr ps" "rmap byte_put [] = Inr bs" for n ps bs s1 s2
  proof (rule events_retired)
    show "\<forall>k. in_family FamEvent k \<longrightarrow> lookup s2 k = lookup s1 k \<or> lookup s2 k = None"
    proof (intro allI impI)
      fix k show "lookup s2 k = lookup s1 k \<or> lookup s2 k = None"
      proof (cases "k \<in> fst ` set (map (\<lambda>e. (er_key e, Some (er_version e))) (take n events))")
        case True
        then show ?thesis using commit_delete [OF c(1)] by fastforce
      next
        case False
        then show ?thesis using commit_frame [OF c(1,2,3), of k] by simp
      qed
    qed
    have "k \<notin> fst ` set (map (\<lambda>e. (er_key e, Some (er_version e))) (take n events))" if "within (run_families - {FamEvent}) k" for k
      using that sel [of k n] by (auto simp: within_def dest: in_family_unique)
    then show "\<forall>k. within (run_families - {FamEvent}) k \<longrightarrow> lookup s2 k = lookup s1 k"
      using commit_frame [OF c(1,2,3)] by simp
  qed simp
  note step = this
  show ?thesis unfolding retire_events_def Let_def delete_all_def
    by (intro upholds_intros upholds_transaction lasting_intros assms(2) run_commit_refl TrueI) (rule step)
qed

definition retiring ::
  "setting \<Rightarrow> stored_run exec_record option \<Rightarrow> run_history exec_record option \<Rightarrow> admission exec_record option \<Rightarrow> snapshot \<Rightarrow> bool" where
  "retiring E run history adm s \<longleftrightarrow>
     (\<forall>r. run = Some r \<longrightarrow> was (se_limits E) parse_stored_run r s \<and> in_family FamRun (er_key r) \<and> rs_status (sr_summary (er_value r)) \<noteq> RunRunning)
     \<and> (\<forall>h. history = Some h \<longrightarrow> in_family FamHistory (er_key h))
     \<and> (\<forall>a. adm = Some a \<longrightarrow> was (se_limits E) parse_admission a s \<and> in_family FamAdmission (er_key a) \<and> ad_status (er_value a) \<noteq> AdmRunning)"

lemma lasting_retiring: "lasting (retiring E run history adm)"
  unfolding retiring_def by (intro lasting_intros)

lemma retire_owners_upholds:
  "upholds E (run_commit sha True) (retiring E run history adm) (\<lambda>_ _. True) (retire_owners budget run history adm)"
proof -
  let ?K = "fst ` set (owner_of run @ owner_of history @ owner_of adm)"
  have "run_commit sha True s1 s2"
    if P: "retiring E run history adm s1" and c: "commits [] (ps @ bs) (owner_of run @ owner_of history @ owner_of adm) s1 s2"
      "rmap encode_put [] = Inr ps" "rmap byte_put [] = Inr bs" for ps bs s1 s2
  proof (rule run_retired [where K = ?K])
    have del: "version_at s1 (er_key r) = Some (er_version r)" if "run = Some r" for r
      using commit_delete [OF c(1)] that by (auto simp: owner_of_def)
    have del': "version_at s1 (er_key a) = Some (er_version a)" if "adm = Some a" for a
      using commit_delete [OF c(1)] that by (auto simp: owner_of_def)
    show "\<forall>k \<in> ?K. lookup s2 k = None" using commit_delete [OF c(1)] by fastforce
    show "\<forall>k \<in> ?K. in_family FamRun k \<or> in_family FamAdmission k \<or> in_family FamHistory k"
      using P by (auto simp: retiring_def owner_of_def split: option.splits)
    show "\<forall>k \<in> ?K. in_family FamRun k \<longrightarrow> (\<exists>r. run_at s1 k = Holds r \<and> rs_status (sr_summary r) \<noteq> RunRunning)"
      using P del by (auto simp: retiring_def owner_of_def was_pinned dest: in_family_unique split: option.splits)
    show "\<forall>k \<in> ?K. in_family FamAdmission k \<longrightarrow> (\<exists>a. admission_at s1 k = Holds a \<and> ad_status a \<noteq> AdmRunning)"
      using P del' by (auto simp: retiring_def owner_of_def was_pinned dest: in_family_unique split: option.splits)
    show "elsewhere ?K s1 s2" by (rule commit_elsewhere [OF c]) simp
  qed simp
  note step = this
  show ?thesis unfolding retire_owners_def Let_def delete_all_def
    by (intro upholds_intros upholds_transaction lasting_intros lasting_retiring run_commit_refl TrueI) (rule step)
qed

lemma keeps_retire_checkpoint:
  "in_family FamCheckpoint (er_key cp) \<Longrightarrow> keeps {FamCheckpoint} (\<lambda>_. True) (retire_checkpoint cf b cp)"
  unfolding retire_checkpoint_def
  by (rule keeps_step [OF keeps_release_unreferenced], intro keeps_intros TrueI) (auto simp: request_defs)

lemma resume_upholds:
  assumes E: "clocked E cf" and cp: "in_family FamCheckpoint (er_key cp)" "wf_checkpoint (cf_sha cf) (er_value cp)"
  shows "upholds E (run_commit sha True) (\<lambda>_. True) (\<lambda>_ _. True) (resume_run_retention cf budget cp)"
proof -
  have t: "transp (se_rely E)" using E by (simp add: clocked_def)
  have h: "in_family FamHistory (cp_history_key (er_value cp))"
    using cp(2) by (auto simp: wf_checkpoint_def dest: key_in_family)
  have last: "upholds E (run_commit sha True) P (\<lambda>_ _. True) (retire_checkpoint cf b cp)" for P b
    by (rule quiet [OF E keeps_retire_checkpoint [OF cp(1)]]) (simp add: run_families_def)
  show ?thesis unfolding resume_run_retention_def Let_def
    by (intro upholds_lift upholds_read upholds_if upholds_Throw upholds_scan_all [OF t] upholds_prod retire_events_upholds lasting_intros last
        upholds_weaken [OF retire_owners_upholds [of E sha]])
      (use h in \<open>auto simp: retiring_def checkpoint_run_ok_def Let_def dest: key_in_family event_family\<close>)
qed

lemma resume_all_upholds:
  assumes E: "clocked E cf" and cps: "\<forall>x \<in> set cps. parsed (parse_checkpoint (cf_sha cf)) prefix_checkpoints x"
  shows "upholds E (run_commit sha True) (\<lambda>_. True) (\<lambda>_ _. True) (resume_checkpoints cf m cps)"
  using cps
proof (induction cps arbitrary: m)
  case (Cons cp cps)
  then have cp: "in_family FamCheckpoint (er_key cp)" "wf_checkpoint (cf_sha cf) (er_value cp)"
    using checkpoint_record_ok by auto
  have rest: "upholds E (run_commit sha True) (\<lambda>s. True \<and> True) (\<lambda>_ _. True) (resume_checkpoints cf m cps)" for m
    using Cons by simp
  show ?case unfolding resume_checkpoints.simps
    by (intro upholds_if upholds_Return upholds_bind [OF resume_upholds [OF E cp]] rest lasting_intros TrueI)
qed (simp add: upholds_Return)

lemma maintain_upholds:
  assumes E: "clocked E cf"
  shows "upholds E (run_commit sha True) (\<lambda>_. True) (\<lambda>_ _. True) (maintain_execution cf input)"
proof -
  have t: "transp (se_rely E)" using E by (simp add: clocked_def)
  have out: "{FamCheckpoint} \<inter> run_families = {}" "{FamSession} \<inter> run_families = {}" "{} \<inter> run_families = {}"
    by (auto simp: run_families_def)
  have resume: "upholds E (run_commit sha True) (\<lambda>_. True) (\<lambda>_ _. True) (if dry then Return m else resume_checkpoints cf m cps)"
    if "\<forall>x \<in> set cps. parsed (parse_checkpoint (cf_sha cf)) prefix_checkpoints x" for dry m cps
    using resume_all_upholds [OF E that] by (auto intro: upholds_intros)
  have claim: "keeps {FamCheckpoint} (\<lambda>_. True) (if dry then Return m else claim_candidates cf m cs)" for dry m cs
    by (intro keeps_intros keeps_claims TrueI) simp
  show ?thesis unfolding maintain_execution_def Let_def
    by (intro upholds_lift upholds_scan_all [OF t] upholds_prod upholds_bind [OF resume] quiet_bind [OF E keeps_candidates_scan [of "{}"]]
        quiet_bind [OF E claim] quiet_bind [OF E keeps_stale_sessions [of _ "{FamSession}"]] upholds_Return out lasting_intros TrueI)
      auto
qed

section \<open>The journal\<close>

definition retains :: "journal_call \<Rightarrow> bool" where
  "retains c \<longleftrightarrow> (\<exists>i. c = MaintainExecution i)"

lemma answer_upholds: "upholds E G (\<lambda>_. True) (\<lambda>_ _. True) p \<Longrightarrow> upholds E G (\<lambda>_. True) (\<lambda>_ _. True) (answer f p)"
  unfolding answer_def
  by (rule upholds_bind [where R = "\<lambda>_ _. True"]) (auto intro: upholds_intros lasting_const)

lemma journal_upholds:
  assumes E: "clocked E cf"
  shows "upholds E (run_commit (cf_sha cf) (retains c)) (\<lambda>_. True) (\<lambda>_ _. True) (journal_prog cf c)"
proof (cases "written_families c \<inter> run_families = {}")
  case True
  then show ?thesis by (rule quiet [OF E keeps_journal])
next
  case False
  then show ?thesis
    by (cases c) (simp_all add: run_families_def retains_def answer_upholds admit_upholds [OF E] renew_upholds [OF E]
        record_attempt_upholds [OF E] record_interaction_upholds [OF E] settle_upholds [OF E] maintain_upholds [OF E])
qed

end
