(* ===== verification/RunInvariant.thy ===== *)
theory RunInvariant
  imports SettleSteps
begin

text \<open>
  What holds of the runs after any sequence of \<open>run_commit\<close> steps without retention: the event log of
  a run is complete and ends with its settlement, and every run has its admission and its history entry,
  in the same state.
\<close>

section \<open>The invariant\<close>

text \<open>Event \<open>n\<close> of the log of a run: its admission, what was recorded, its settlement. The code never compares
  the identity of the run with the one it was asked for, so they agree as far as their digests do.\<close>

definition logged :: "(string \<Rightarrow> string) \<Rightarrow> stored_run \<Rightarrow> nat \<Rightarrow> run_event \<Rightarrow> bool" where
  "logged sha r n e \<longleftrightarrow>
     sha (ev_run e) = sha (rs_run (sr_summary r)) \<and> ev_seq e = n
     \<and> (if n = 0 then ev_body e = Admitted \<and> ev_at e = rs_started (sr_summary r)
        else if n + 1 = sr_event_count r \<and> rs_status (sr_summary r) \<noteq> RunRunning
        then ev_body e = Settled (rs_status (sr_summary r)) (rs_revision (sr_summary r)) (rs_failure (sr_summary r))
        else progress_body (ev_body e))"

definition log_of :: "(string \<Rightarrow> string) \<Rightarrow> snapshot \<Rightarrow> string \<Rightarrow> stored_run \<Rightarrow> bool" where
  "log_of sha s d r \<longleftrightarrow>
     (\<forall>n < sr_event_count r. \<exists>e. event_at s (event_slot d n) = Holds e \<and> logged sha r n e)
     \<and> (\<forall>n. sr_event_count r \<le> n \<longrightarrow> n < run_max_events \<longrightarrow> event_at s (event_slot d n) = Absent)"

definition run_ok :: "(string \<Rightarrow> string) \<Rightarrow> snapshot \<Rightarrow> string \<Rightarrow> bool" where
  "run_ok sha s d \<longleftrightarrow>
     (case run_at s (run_slot d) of
        Absent \<Rightarrow> \<forall>n < run_max_events. event_at s (event_slot d n) = Absent
      | Holds r \<Rightarrow> sha (rs_run (sr_summary r)) = d \<and> log_of sha s d r
          \<and> (if rs_status (sr_summary r) = RunRunning then rs_revision (sr_summary r) = None else 2 \<le> sr_event_count r)
      | Unreadable \<Rightarrow> False)"

fun admission_status :: "run_status \<Rightarrow> admission_status" where
  "admission_status RunRunning = AdmRunning"
| "admission_status RunUncertain = AdmUncertain"
| "admission_status _ = AdmSettled"

definition coupled :: "admission \<Rightarrow> run_summary \<Rightarrow> bool" where
  "coupled a s \<longleftrightarrow>
     rs_run s = ad_run a \<and> rs_request s = ad_request a \<and> rs_conv s = ad_conv a
     \<and> ad_status a = admission_status (rs_status s)
     \<and> ad_settled a = (if rs_status s = RunRunning then None else Some (rs_status s))"

definition admission_ok :: "(string \<Rightarrow> string) \<Rightarrow> snapshot \<Rightarrow> string \<Rightarrow> bool" where
  "admission_ok sha s q \<longleftrightarrow>
     (case admission_at s (admission_slot q) of
        Absent \<Rightarrow> True
      | Holds a \<Rightarrow> sha (ad_request a) = q
          \<and> (\<exists>r. run_at s (run_slot (sha (ad_run a))) = Holds r \<and> coupled a (sr_summary r))
      | Unreadable \<Rightarrow> False)"

definition owners_ok :: "(string \<Rightarrow> string) \<Rightarrow> snapshot \<Rightarrow> string \<Rightarrow> bool" where
  "owners_ok sha s d \<longleftrightarrow>
     (\<forall>r. run_at s (run_slot d) = Holds r \<longrightarrow>
        (\<exists>a. admission_at s (admission_slot (sha (rs_request (sr_summary r)))) = Holds a \<and> coupled a (sr_summary r))
        \<and> history_at s (history_slot (rs_started (sr_summary r)) d) =
            Holds \<lparr>rh_run = rs_run (sr_summary r), rh_started = rs_started (sr_summary r)\<rparr>)"

definition runs_ok :: "(string \<Rightarrow> string) \<Rightarrow> snapshot \<Rightarrow> bool" where
  "runs_ok sha s \<longleftrightarrow> (\<forall>d. run_ok sha s d \<and> admission_ok sha s d \<and> owners_ok sha s d)"

section \<open>Every step keeps it\<close>

lemma elsewhere_cell:
  "elsewhere K s s' \<Longrightarrow> in_family f k \<Longrightarrow> f \<in> run_families \<Longrightarrow> k \<notin> K \<Longrightarrow> cell_at p s' k = cell_at p s k"
  by (rule cell_frame) (auto simp: elsewhere_def within_def)

lemma run_families_simps [simp]:
  "FamRun \<in> run_families" "FamEvent \<in> run_families" "FamAdmission \<in> run_families" "FamHistory \<in> run_families"
  by (simp_all add: run_families_def)

lemma elsewhere_slots:
  assumes "elsewhere K s s'"
  shows "run_slot d \<notin> K \<Longrightarrow> run_at s' (run_slot d) = run_at s (run_slot d)"
    "event_slot d n \<notin> K \<Longrightarrow> event_at s' (event_slot d n) = event_at s (event_slot d n)"
    "admission_slot d \<notin> K \<Longrightarrow> admission_at s' (admission_slot d) = admission_at s (admission_slot d)"
    "history_slot t d \<notin> K \<Longrightarrow> history_at s' (history_slot t d) = history_at s (history_slot t d)"
  using elsewhere_cell [OF assms, of FamRun "run_slot d"] elsewhere_cell [OF assms, of FamEvent "event_slot d n"]
    elsewhere_cell [OF assms, of FamAdmission "admission_slot d"] elsewhere_cell [OF assms, of FamHistory "history_slot t d"]
  by simp_all

lemma event_slot_inject [simp]:
  "n < run_max_events \<Longrightarrow> n' < run_max_events \<Longrightarrow> event_slot d n = event_slot d' n' \<longleftrightarrow> d = d' \<and> n = n'"
proof -
  assume n: "n < run_max_events" "n' < run_max_events"
  have "n = n'" if "fixed_text 9 n = fixed_text 9 n'"
  proof -
    have "n mod 10 ^ 9 = n' mod 10 ^ 9" using that read_fixed_text by metis
    then show ?thesis using n by (simp add: run_max_events_def)
  qed
  then show ?thesis by (auto simp: event_slot_def append_eq_append_conv)
qed

lemma admission_slots: "in_family FamAdmission k \<Longrightarrow> \<exists>q. k = admission_slot q"
  by (auto simp: in_family_def admission_slot_def elim: prefixE)

lemma runs_run:
  assumes "runs_ok sha s" "run_at s (run_slot d) = Holds r"
  shows "sha (rs_run (sr_summary r)) = d" "log_of sha s d r"
    "if rs_status (sr_summary r) = RunRunning then rs_revision (sr_summary r) = None else 2 \<le> sr_event_count r"
    "\<exists>a. admission_at s (admission_slot (sha (rs_request (sr_summary r)))) = Holds a \<and> coupled a (sr_summary r)"
    "history_at s (history_slot (rs_started (sr_summary r)) d) =
       Holds \<lparr>rh_run = rs_run (sr_summary r), rh_started = rs_started (sr_summary r)\<rparr>"
proof -
  have at: "run_ok sha s d" "owners_ok sha s d" using assms(1) by (simp_all add: runs_ok_def)
  note facts = at(1) [unfolded run_ok_def assms(2) cell.case] at(2) [unfolded owners_ok_def, rule_format, OF assms(2)]
  show "sha (rs_run (sr_summary r)) = d" "log_of sha s d r"
    "if rs_status (sr_summary r) = RunRunning then rs_revision (sr_summary r) = None else 2 \<le> sr_event_count r"
    "\<exists>a. admission_at s (admission_slot (sha (rs_request (sr_summary r)))) = Holds a \<and> coupled a (sr_summary r)"
    "history_at s (history_slot (rs_started (sr_summary r)) d) =
       Holds \<lparr>rh_run = rs_run (sr_summary r), rh_started = rs_started (sr_summary r)\<rparr>"
    using facts by blast+
qed

lemma runs_absent:
  "runs_ok sha s \<Longrightarrow> run_at s (run_slot d) = Absent \<Longrightarrow> n < run_max_events \<Longrightarrow> event_at s (event_slot d n) = Absent"
proof -
  assume "runs_ok sha s" and a: "run_at s (run_slot d) = Absent" "n < run_max_events"
  then have "run_ok sha s d" by (simp add: runs_ok_def)
  then show ?thesis using a by (simp add: run_ok_def)
qed

lemma runs_admission:
  assumes "runs_ok sha s" "admission_at s (admission_slot q) = Holds a"
  shows "sha (ad_request a) = q" "\<exists>r. run_at s (run_slot (sha (ad_run a))) = Holds r \<and> coupled a (sr_summary r)"
proof -
  have "admission_ok sha s q" using assms(1) by (simp add: runs_ok_def)
  note facts = this [unfolded admission_ok_def assms(2) cell.case]
  show "sha (ad_request a) = q" "\<exists>r. run_at s (run_slot (sha (ad_run a))) = Holds r \<and> coupled a (sr_summary r)"
    using facts by blast+
qed

lemma runs_readable:
  assumes "runs_ok sha s"
  shows "run_at s (run_slot d) \<noteq> Unreadable" "admission_at s (admission_slot q) \<noteq> Unreadable"
proof -
  have "run_ok sha s d" "admission_ok sha s q" using assms by (simp_all add: runs_ok_def)
  then show "run_at s (run_slot d) \<noteq> Unreadable" "admission_at s (admission_slot q) \<noteq> Unreadable"
    unfolding run_ok_def admission_ok_def by (auto split: cell.splits)
qed

lemma runs_okI:
  assumes "\<And>d. run_at s (run_slot d) \<noteq> Unreadable" "\<And>q. admission_at s (admission_slot q) \<noteq> Unreadable"
    "\<And>d n. run_at s (run_slot d) = Absent \<Longrightarrow> n < run_max_events \<Longrightarrow> event_at s (event_slot d n) = Absent"
    "\<And>d r. run_at s (run_slot d) = Holds r \<Longrightarrow> sha (rs_run (sr_summary r)) = d \<and> log_of sha s d r
       \<and> (if rs_status (sr_summary r) = RunRunning then rs_revision (sr_summary r) = None else 2 \<le> sr_event_count r)
       \<and> (\<exists>a. admission_at s (admission_slot (sha (rs_request (sr_summary r)))) = Holds a \<and> coupled a (sr_summary r))
       \<and> history_at s (history_slot (rs_started (sr_summary r)) d) =
            Holds \<lparr>rh_run = rs_run (sr_summary r), rh_started = rs_started (sr_summary r)\<rparr>"
    "\<And>q a. admission_at s (admission_slot q) = Holds a \<Longrightarrow> sha (ad_request a) = q
       \<and> (\<exists>r. run_at s (run_slot (sha (ad_run a))) = Holds r \<and> coupled a (sr_summary r))"
  shows "runs_ok sha s"
  unfolding runs_ok_def
proof (intro allI conjI)
  fix d
  show "run_ok sha s d"
    using assms(1,3,4) unfolding run_ok_def by (auto split: cell.splits)
  show "admission_ok sha s d"
    using assms(2,5) unfolding admission_ok_def by (auto split: cell.splits)
  show "owners_ok sha s d"
    using assms(4) unfolding owners_ok_def by auto
qed

lemma runs_ok_frame: "elsewhere {} s s' \<Longrightarrow> runs_ok sha s \<Longrightarrow> runs_ok sha s'"
proof -
  assume "elsewhere {} s s'" and ok: "runs_ok sha s"
  note same = elsewhere_slots [OF this(1), simplified]
  show ?thesis using ok unfolding runs_ok_def run_ok_def admission_ok_def owners_ok_def log_of_def same .
qed

lemma runs_ok_empty: "(\<And>k. lookup s k = None) \<Longrightarrow> runs_ok sha s"
  unfolding runs_ok_def run_ok_def admission_ok_def owners_ok_def by (simp add: cell_at_def)

lemma log_bound:
  assumes "run_at s k = Holds r"
  shows "1 \<le> sr_event_count r" "sr_event_count r \<le> run_max_events"
  using run_codec.cell_wf [OF assms] by (simp_all add: wf_stored_run_def)

lemma running_fields:
  assumes "run_at s k = Holds r" "rs_status (sr_summary r) = RunRunning"
  shows "rs_failure (sr_summary r) = None"
  using run_codec.cell_wf [OF assms(1)] assms(2) by (simp add: wf_stored_run_def wf_summary_def)

lemma log_frame:
  assumes "log_of sha s d r" "elsewhere K s s'" "\<And>n. n < run_max_events \<Longrightarrow> event_slot d n \<notin> K" "sr_event_count r \<le> run_max_events"
  shows "log_of sha s' d r"
  using assms unfolding log_of_def by (simp add: elsewhere_slots [OF assms(2)])

lemma log_extended:
  assumes "log_of sha s d r" "elsewhere {run_slot d, k, event_slot d (sr_event_count r)} s s'" "in_family FamAdmission k \<or> k = run_slot d"
    "sr_event_count r' = sr_event_count r + 1" "sr_event_count r' \<le> run_max_events" "1 \<le> sr_event_count r"
    "event_at s' (event_slot d (sr_event_count r)) = Holds e" "logged sha r' (sr_event_count r) e"
    "rs_run (sr_summary r') = rs_run (sr_summary r)" "rs_started (sr_summary r') = rs_started (sr_summary r)"
    "rs_status (sr_summary r) = RunRunning"
  shows "log_of sha s' d r'"
  unfolding log_of_def
proof (intro conjI allI impI)
  have bound: "sr_event_count r < run_max_events" using assms(4,5) by simp
  have k: "k \<noteq> event_slot d n" for n using assms(3) slot_families(2) by auto
  have other: "event_at s' (event_slot d n) = event_at s (event_slot d n)" if "n < run_max_events" "n \<noteq> sr_event_count r" for n
    using that bound k [of n] by (intro elsewhere_slots [OF assms(2)]) auto
  fix n
  { assume n: "n < sr_event_count r'"
    show "\<exists>e. event_at s' (event_slot d n) = Holds e \<and> logged sha r' n e"
    proof (cases "n = sr_event_count r")
      case True
      then show ?thesis using assms(7,8) by blast
    next
      case False
      then have less: "n < sr_event_count r" using n assms(4) by simp
      then obtain e' where e': "event_at s (event_slot d n) = Holds e'" "logged sha r n e'"
        using assms(1) unfolding log_of_def by blast
      have "logged sha r' n e'" using e'(2) less assms(4,9,10,11) by (auto simp: logged_def split: if_splits)
      then show ?thesis using e'(1) other [of n] less bound by auto
    qed }
  { assume "sr_event_count r' \<le> n" "n < run_max_events"
    then show "event_at s' (event_slot d n) = Absent"
      using assms(1,4) other [of n] unfolding log_of_def by auto }
qed

lemma coupled_renewed: "coupled (a\<lparr>ad_updated := now, ad_lease := lease\<rparr>) r = coupled a r"
  by (simp add: coupled_def)

lemma coupled_recorded: "coupled a (r\<lparr>rs_updated := now, rs_attempts := attempts\<rparr>) = coupled a r"
  by (simp add: coupled_def)

lemma coupled_settled:
  "coupled a r \<Longrightarrow> status \<noteq> RunRunning \<Longrightarrow>
   coupled (settled_admission a status now response) (settled_summary r status now revision failure)"
  by (cases status) (auto simp: coupled_def settled_admission_def settled_summary_def split: option.splits)

lemma runs_ok_renewed:
  assumes ok: "runs_ok sha s" and a: "admission_at s akey = Holds a" "in_family FamAdmission akey"
    and a': "admission_at s' akey = Holds (a\<lparr>ad_updated := now, ad_lease := lease\<rparr>)" and out: "elsewhere {akey} s s'"
  shows "runs_ok sha s'"
proof -
  obtain q0 where q0: "akey = admission_slot q0" using admission_slots [OF a(2)] by blast
  have slots [simp]: "run_at s' (run_slot d) = run_at s (run_slot d)" "event_at s' (event_slot d n) = event_at s (event_slot d n)"
    "history_at s' (history_slot t d) = history_at s (history_slot t d)" for d n t
    using elsewhere_slots [OF out] by (simp_all add: q0)
  have adm: "admission_at s' (admission_slot q) =
      (if q = q0 then Holds (a\<lparr>ad_updated := now, ad_lease := lease\<rparr>) else admission_at s (admission_slot q))" for q
    using elsewhere_slots(3) [OF out, of q] a' by (simp add: q0)
  have log: "log_of sha s' d r = log_of sha s d r" for d r by (simp add: log_of_def)
  show ?thesis
  proof (rule runs_okI)
    fix d show "run_at s' (run_slot d) \<noteq> Unreadable" using runs_readable [OF ok] by simp
  next
    fix q show "admission_at s' (admission_slot q) \<noteq> Unreadable" using runs_readable [OF ok] by (simp add: adm)
  next
    fix d n assume "run_at s' (run_slot d) = Absent" "n < run_max_events"
    then show "event_at s' (event_slot d n) = Absent" using runs_absent [OF ok] by simp
  next
    fix d r assume r: "run_at s' (run_slot d) = Holds r"
    note old = runs_run [OF ok r [unfolded slots]]
    have "\<exists>a. admission_at s' (admission_slot (sha (rs_request (sr_summary r)))) = Holds a \<and> coupled a (sr_summary r)"
      using old(4) a(1) by (auto simp: adm q0 coupled_renewed)
    then show "sha (rs_run (sr_summary r)) = d \<and> log_of sha s' d r
       \<and> (if rs_status (sr_summary r) = RunRunning then rs_revision (sr_summary r) = None else 2 \<le> sr_event_count r)
       \<and> (\<exists>a. admission_at s' (admission_slot (sha (rs_request (sr_summary r)))) = Holds a \<and> coupled a (sr_summary r))
       \<and> history_at s' (history_slot (rs_started (sr_summary r)) d) =
            Holds \<lparr>rh_run = rs_run (sr_summary r), rh_started = rs_started (sr_summary r)\<rparr>"
      using old(1,2,3,5) by (simp only: log slots simp_thms)
  next
    fix q b assume "admission_at s' (admission_slot q) = Holds b"
    then obtain c where c: "admission_at s (admission_slot q) = Holds c" "ad_request b = ad_request c" "ad_run b = ad_run c"
      "\<And>r. coupled b r = coupled c r"
      using a(1) by (cases "q = q0") (auto simp: adm q0 coupled_renewed)
    show "sha (ad_request b) = q \<and> (\<exists>r. run_at s' (run_slot (sha (ad_run b))) = Holds r \<and> coupled b (sr_summary r))"
      using runs_admission [OF ok c(1)] by (simp add: c(2-4))
  qed
qed

lemma runs_ok_recorded:
  assumes ok: "runs_ok sha s" and r: "run_at s (run_slot (sha run)) = Holds r" "rs_status (sr_summary r) = RunRunning"
    and r': "run_at s' (run_slot (sha run)) = Holds r'" "r' = r\<lparr>sr_summary := (sr_summary r)\<lparr>rs_updated := now, rs_attempts := attempts\<rparr>,
       sr_event_count := sr_event_count r + 1\<rparr>"
    and e: "event_at s' (event_slot (sha run) (sr_event_count r)) =
       Holds \<lparr>ev_run = run, ev_seq = sr_event_count r, ev_at = now, ev_body = body\<rparr>" "progress_body body"
    and out: "elsewhere {run_slot (sha run), event_slot (sha run) (sr_event_count r)} s s'"
  shows "runs_ok sha s'"
proof -
  note bound = log_bound [OF r'(1)] log_bound [OF r(1)]
  have less: "sr_event_count r < run_max_events" using bound(2) by (simp add: r'(2))
  have slots [simp]: "admission_at s' (admission_slot q) = admission_at s (admission_slot q)"
    "history_at s' (history_slot t d) = history_at s (history_slot t d)" for d q t
    using elsewhere_slots [OF out] by simp_all
  have runs: "run_at s' (run_slot d) = (if d = sha run then Holds r' else run_at s (run_slot d))" for d
    using elsewhere_slots(1) [OF out, of d] r'(1) by simp
  have ev: "event_at s' (event_slot d n) = event_at s (event_slot d n)" if "d \<noteq> sha run" "n < run_max_events" for d n
    using that less by (intro elsewhere_slots [OF out]) simp
  have log: "log_of sha s' (sha run) r'"
  proof (rule log_extended [OF runs_run(2) [OF ok r(1)], where k = "run_slot (sha run)"])
    show "elsewhere {run_slot (sha run), run_slot (sha run), event_slot (sha run) (sr_event_count r)} s s'"
      using out by simp
    show "event_at s' (event_slot (sha run) (sr_event_count r)) =
       Holds \<lparr>ev_run = run, ev_seq = sr_event_count r, ev_at = now, ev_body = body\<rparr>" by (rule e(1))
    show "logged sha r' (sr_event_count r) \<lparr>ev_run = run, ev_seq = sr_event_count r, ev_at = now, ev_body = body\<rparr>"
      using runs_run(1) [OF ok r(1)] e(2) bound(3) r(2) by (simp add: logged_def r'(2))
  qed (use bound r(2) in \<open>simp_all add: r'(2)\<close>)
  have other: "log_of sha s' d x" if "d \<noteq> sha run" "log_of sha s d x" "sr_event_count x \<le> run_max_events" for d x
    using that less by (intro log_frame [OF that(2) out _ that(3)]) simp
  show ?thesis
  proof (rule runs_okI)
    fix d show "run_at s' (run_slot d) \<noteq> Unreadable" using runs_readable [OF ok] by (simp add: runs)
  next
    fix q show "admission_at s' (admission_slot q) \<noteq> Unreadable" using runs_readable [OF ok] by simp
  next
    fix d n assume "run_at s' (run_slot d) = Absent" "n < run_max_events"
    then show "event_at s' (event_slot d n) = Absent" using runs_absent [OF ok] ev by (auto simp: runs split: if_splits)
  next
    fix d x assume x: "run_at s' (run_slot d) = Holds x"
    show "sha (rs_run (sr_summary x)) = d \<and> log_of sha s' d x
       \<and> (if rs_status (sr_summary x) = RunRunning then rs_revision (sr_summary x) = None else 2 \<le> sr_event_count x)
       \<and> (\<exists>a. admission_at s' (admission_slot (sha (rs_request (sr_summary x)))) = Holds a \<and> coupled a (sr_summary x))
       \<and> history_at s' (history_slot (rs_started (sr_summary x)) d) =
            Holds \<lparr>rh_run = rs_run (sr_summary x), rh_started = rs_started (sr_summary x)\<rparr>"
    proof (cases "d = sha run")
      case True
      then have "x = r'" using x by (simp add: runs)
      then show ?thesis using True log runs_run [OF ok r(1)] r(2) by (simp add: r'(2) coupled_recorded)
    next
      case False
      then have old: "run_at s (run_slot d) = Holds x" using x by (simp add: runs)
      show ?thesis using runs_run [OF ok old] other [OF False] log_bound [OF old] by simp
    qed
  next
    fix q b assume b: "admission_at s' (admission_slot q) = Holds b"
    show "sha (ad_request b) = q \<and> (\<exists>r. run_at s' (run_slot (sha (ad_run b))) = Holds r \<and> coupled b (sr_summary r))"
      using runs_admission [OF ok b [unfolded slots]] r(1) by (auto simp: runs r'(2) coupled_recorded)
  qed
qed

lemma runs_ok_settled:
  assumes ok: "runs_ok sha s" and r: "run_at s (run_slot (sha run)) = Holds r" "rs_status (sr_summary r) = RunRunning"
    and status: "status \<noteq> RunRunning" and a: "admission_at s akey = Holds a" "in_family FamAdmission akey" "ad_run a = run"
    and r': "run_at s' (run_slot (sha run)) = Holds r'" "r' = \<lparr>sr_summary = settled_summary (sr_summary r) status now revision failure,
       sr_event_count = sr_event_count r + 1, sr_transcript = transcript\<rparr>"
    and a': "admission_at s' akey = Holds (settled_admission a status now response)"
    and e: "event_at s' (event_slot (sha run) (sr_event_count r)) = Holds (settled_event run (sr_event_count r) now status revision failure)"
    and out: "elsewhere {run_slot (sha run), akey, event_slot (sha run) (sr_event_count r)} s s'"
  shows "runs_ok sha s'"
proof -
  obtain q0 where q0: "akey = admission_slot q0" using admission_slots [OF a(2)] by blast
  note old = runs_run [OF ok r(1)]
  obtain r0 where "run_at s (run_slot (sha (ad_run a))) = Holds r0" "coupled a (sr_summary r0)" "sha (ad_request a) = q0"
    using runs_admission [OF ok a(1) [unfolded q0]] by blast
  then have couple: "coupled a (sr_summary r)" and q: "sha (rs_request (sr_summary r)) = q0" and run: "rs_run (sr_summary r) = run"
    using r(1) a(3) by (auto simp: coupled_def)
  have fields: "rs_revision (sr_summary r) = None" "rs_failure (sr_summary r) = None"
    using old(3) r(2) running_fields [OF r] by auto
  note bound = log_bound [OF r'(1)] log_bound [OF r(1)]
  have less: "sr_event_count r < run_max_events" using bound(2) by (simp add: r'(2))
  have couple': "coupled (settled_admission a status now response) (sr_summary r')"
    using coupled_settled [OF couple status] by (simp add: r'(2))
  have history [simp]: "history_at s' (history_slot t d) = history_at s (history_slot t d)" for d t
    using elsewhere_slots [OF out] by (simp add: q0)
  have runs: "run_at s' (run_slot d) = (if d = sha run then Holds r' else run_at s (run_slot d))" for d
    using elsewhere_slots(1) [OF out, of d] r'(1) by (simp add: q0)
  have adm: "admission_at s' (admission_slot q) =
      (if q = q0 then Holds (settled_admission a status now response) else admission_at s (admission_slot q))" for q
    using elsewhere_slots(3) [OF out, of q] a' by (simp add: q0)
  have ev: "event_at s' (event_slot d n) = event_at s (event_slot d n)" if "d \<noteq> sha run" "n < run_max_events" for d n
    using that less by (intro elsewhere_slots [OF out]) (simp add: q0)
  have log: "log_of sha s' (sha run) r'"
  proof (rule log_extended [OF old(2), where k = akey])
    show "elsewhere {run_slot (sha run), akey, event_slot (sha run) (sr_event_count r)} s s'" by (rule out)
    show "event_at s' (event_slot (sha run) (sr_event_count r)) =
       Holds (settled_event run (sr_event_count r) now status revision failure)" by (rule e)
    show "logged sha r' (sr_event_count r) (settled_event run (sr_event_count r) now status revision failure)"
      using bound(3) status fields run by (simp add: logged_def r'(2) settled_event_def settled_summary_def split: option.split)
  qed (use bound r(2) a(2) in \<open>simp_all add: r'(2) settled_summary_def\<close>)
  have other: "log_of sha s' d x" if "d \<noteq> sha run" "log_of sha s d x" "sr_event_count x \<le> run_max_events" for d x
    using that less by (intro log_frame [OF that(2) out _ that(3)]) (simp add: q0)
  show ?thesis
  proof (rule runs_okI)
    fix d show "run_at s' (run_slot d) \<noteq> Unreadable" using runs_readable [OF ok] by (simp add: runs)
  next
    fix q show "admission_at s' (admission_slot q) \<noteq> Unreadable" using runs_readable [OF ok] by (simp add: adm)
  next
    fix d n assume "run_at s' (run_slot d) = Absent" "n < run_max_events"
    then show "event_at s' (event_slot d n) = Absent" using runs_absent [OF ok] ev by (auto simp: runs split: if_splits)
  next
    fix d x assume x: "run_at s' (run_slot d) = Holds x"
    show "sha (rs_run (sr_summary x)) = d \<and> log_of sha s' d x
       \<and> (if rs_status (sr_summary x) = RunRunning then rs_revision (sr_summary x) = None else 2 \<le> sr_event_count x)
       \<and> (\<exists>a. admission_at s' (admission_slot (sha (rs_request (sr_summary x)))) = Holds a \<and> coupled a (sr_summary x))
       \<and> history_at s' (history_slot (rs_started (sr_summary x)) d) =
            Holds \<lparr>rh_run = rs_run (sr_summary x), rh_started = rs_started (sr_summary x)\<rparr>"
    proof (cases "d = sha run")
      case True
      then have x': "x = r'" using x by (simp add: runs)
      have "rs_run (sr_summary r') = run" "rs_started (sr_summary r') = rs_started (sr_summary r)"
        "rs_request (sr_summary r') = rs_request (sr_summary r)" "rs_status (sr_summary r') = status" "2 \<le> sr_event_count r'"
        using run bound(3) by (simp_all add: r'(2) settled_summary_def)
      then show ?thesis using True log old(5) couple' status q run by (simp add: x' adm)
    next
      case False
      then have before: "run_at s (run_slot d) = Holds x" using x by (simp add: runs)
      note was = runs_run [OF ok before]
      have "sha (rs_request (sr_summary x)) \<noteq> q0"
        using was(1,4) False run a(1) couple by (auto simp: q0 coupled_def)
      then show ?thesis using was other [OF False] log_bound [OF before] by (simp add: adm)
    qed
  next
    fix q b assume b: "admission_at s' (admission_slot q) = Holds b"
    show "sha (ad_request b) = q \<and> (\<exists>r. run_at s' (run_slot (sha (ad_run b))) = Holds r \<and> coupled b (sr_summary r))"
    proof (cases "q = q0")
      case True
      then have "b = settled_admission a status now response" using b by (simp add: adm)
      then show ?thesis using couple' a(3) runs_admission(1) [OF ok a(1) [unfolded q0]] True
        by (simp add: settled_admission_def runs)
    next
      case False
      then have before: "admission_at s (admission_slot q) = Holds b" using b by (simp add: adm)
      note was = runs_admission [OF ok this]
      have "sha (ad_run b) \<noteq> sha run"
        using was q False r(1) by (auto simp: coupled_def)
      then show ?thesis using was by (simp add: runs)
    qed
  qed
qed

lemma runs_ok_admitted:
  assumes ok: "runs_ok sha s"
    and new: "admission_at s (admission_slot (sha request)) = Absent" "run_at s (run_slot (sha run)) = Absent"
      "history_at s (history_slot now (sha run)) = Absent"
    and a': "admission_at s' (admission_slot (sha request)) = Holds (new_admission request conv fingerprint run now lease)"
    and r': "run_at s' (run_slot (sha run)) = Holds \<lparr>sr_summary = new_summary run request conv now, sr_event_count = 1, sr_transcript = None\<rparr>"
    and e: "event_at s' (event_slot (sha run) 0) = Holds \<lparr>ev_run = run, ev_seq = 0, ev_at = now, ev_body = Admitted\<rparr>"
    and h: "history_at s' (history_slot now (sha run)) = Holds \<lparr>rh_run = run, rh_started = now\<rparr>"
    and out: "elsewhere {admission_slot (sha request), run_slot (sha run), event_slot (sha run) 0, history_slot now (sha run)} s s'"
  shows "runs_ok sha s'"
proof -
  let ?r = "\<lparr>sr_summary = new_summary run request conv now, sr_event_count = 1, sr_transcript = None\<rparr>"
  let ?a = "new_admission request conv fingerprint run now lease"
  have zero: "0 < run_max_events" by (simp add: run_max_events_def)
  have couple: "coupled ?a (new_summary run request conv now)"
    by (simp add: coupled_def new_admission_def new_summary_def)
  have runs: "run_at s' (run_slot d) = (if d = sha run then Holds ?r else run_at s (run_slot d))" for d
    using elsewhere_slots(1) [OF out, of d] r' by simp
  have adm: "admission_at s' (admission_slot q) = (if q = sha request then Holds ?a else admission_at s (admission_slot q))" for q
    using elsewhere_slots(3) [OF out, of q] a' by simp
  have history: "history_at s' (history_slot t d) = Holds x" if "history_at s (history_slot t d) = Holds x" for t d x
    using elsewhere_slots(4) [OF out, of t d] that new(3) by (cases "history_slot t d = history_slot now (sha run)") auto
  have ev: "event_at s' (event_slot d n) = event_at s (event_slot d n)" if "d \<noteq> sha run \<or> n \<noteq> 0" "n < run_max_events" for d n
    using that zero by (intro elsewhere_slots [OF out]) auto
  have log: "log_of sha s' (sha run) ?r"
    unfolding log_of_def using e runs_absent [OF ok new(2)] ev by (simp add: logged_def new_summary_def)
  have other: "log_of sha s' d x" if "d \<noteq> sha run" "log_of sha s d x" "sr_event_count x \<le> run_max_events" for d x
    using that zero by (intro log_frame [OF that(2) out _ that(3)]) simp
  show ?thesis
  proof (rule runs_okI)
    fix d show "run_at s' (run_slot d) \<noteq> Unreadable" using runs_readable [OF ok] by (simp add: runs)
  next
    fix q show "admission_at s' (admission_slot q) \<noteq> Unreadable" using runs_readable [OF ok] by (simp add: adm)
  next
    fix d n assume "run_at s' (run_slot d) = Absent" "n < run_max_events"
    then show "event_at s' (event_slot d n) = Absent" using runs_absent [OF ok] ev by (auto simp: runs split: if_splits)
  next
    fix d x assume x: "run_at s' (run_slot d) = Holds x"
    show "sha (rs_run (sr_summary x)) = d \<and> log_of sha s' d x
       \<and> (if rs_status (sr_summary x) = RunRunning then rs_revision (sr_summary x) = None else 2 \<le> sr_event_count x)
       \<and> (\<exists>a. admission_at s' (admission_slot (sha (rs_request (sr_summary x)))) = Holds a \<and> coupled a (sr_summary x))
       \<and> history_at s' (history_slot (rs_started (sr_summary x)) d) =
            Holds \<lparr>rh_run = rs_run (sr_summary x), rh_started = rs_started (sr_summary x)\<rparr>"
    proof (cases "d = sha run")
      case True
      then have "x = ?r" using x by (simp add: runs)
      then show ?thesis using True log couple h by (simp add: adm new_summary_def)
    next
      case False
      then have before: "run_at s (run_slot d) = Holds x" using x by (simp add: runs)
      note was = runs_run [OF ok before]
      have "sha (rs_request (sr_summary x)) \<noteq> sha request" using was(4) new(1) by auto
      then show ?thesis using was other [OF False] log_bound [OF before] history by (simp add: adm)
    qed
  next
    fix q b assume b: "admission_at s' (admission_slot q) = Holds b"
    show "sha (ad_request b) = q \<and> (\<exists>r. run_at s' (run_slot (sha (ad_run b))) = Holds r \<and> coupled b (sr_summary r))"
    proof (cases "q = sha request")
      case True
      then have "b = ?a" using b by (simp add: adm)
      then show ?thesis using couple True by (simp add: new_admission_def runs)
    next
      case False
      then have before: "admission_at s (admission_slot q) = Holds b" using b by (simp add: adm)
      note was = runs_admission [OF ok this]
      have "sha (ad_run b) \<noteq> sha run" using was new(2) by auto
      then show ?thesis using was by (simp add: runs)
    qed
  qed
qed

lemma runs_ok_step:
  assumes "run_commit sha False s s'" "runs_ok sha s"
  shows "runs_ok sha s'"
  using assms(1)
proof cases
  case runs_untouched
  then show ?thesis using runs_ok_frame assms(2) by blast
next
  case (run_admitted request run now conv fingerprint lease)
  then show ?thesis by (intro runs_ok_admitted [OF assms(2)])
next
  case (run_recorded run r now attempts body)
  then show ?thesis by (intro runs_ok_recorded [OF assms(2)]) auto
next
  case (run_settled run r status akey a now revision failure transcript response)
  then show ?thesis by (intro runs_ok_settled [OF assms(2)]) auto
next
  case (admission_renewed akey a now lease)
  then show ?thesis by (intro runs_ok_renewed [OF assms(2)])
qed simp_all

section \<open>What holds with retention too\<close>

text \<open>A running run only advances; a settled one stays as it is, or retention removes it.\<close>

definition run_moves :: "stored_run \<Rightarrow> stored_run \<Rightarrow> bool" where
  "run_moves r r' \<longleftrightarrow> r' = r \<or>
     (rs_status (sr_summary r) = RunRunning \<and> sr_event_count r < sr_event_count r'
      \<and> rs_run (sr_summary r') = rs_run (sr_summary r) \<and> rs_request (sr_summary r') = rs_request (sr_summary r)
      \<and> rs_conv (sr_summary r') = rs_conv (sr_summary r) \<and> rs_started (sr_summary r') = rs_started (sr_summary r))"

lemma run_moves_refl [simp]: "run_moves r r"
  by (simp add: run_moves_def)

lemma run_moves_trans: "run_moves a b \<Longrightarrow> run_moves b c \<Longrightarrow> run_moves a c"
  by (auto simp: run_moves_def)

lemma run_moves_settled: "run_moves r r' \<Longrightarrow> rs_status (sr_summary r) \<noteq> RunRunning \<Longrightarrow> r' = r"
  by (simp add: run_moves_def)

lemma run_slots: "in_family FamRun k \<Longrightarrow> \<exists>d. k = run_slot d"
  by (auto simp: in_family_def run_slot_def elim: prefixE)

lemma run_kept:
  assumes "run_commit sha m s s'" "run_at s (run_slot d) = Holds r"
  shows "(\<exists>r'. run_at s' (run_slot d) = Holds r' \<and> run_moves r r')
    \<or> (m \<and> rs_status (sr_summary r) \<noteq> RunRunning \<and> run_at s' (run_slot d) = Absent)"
  using assms(1)
proof cases
  case runs_untouched
  then show ?thesis using assms(2) elsewhere_slots(1) [of "{}"] by auto
next
  case (run_admitted request run now conv fingerprint lease)
  then have "run_slot d \<noteq> run_slot (sha run)" using assms(2) by auto
  then have "run_at s' (run_slot d) = run_at s (run_slot d)"
    by (intro elsewhere_slots [OF run_admitted(12)]) simp
  then show ?thesis using assms(2) by auto
next
  case (run_recorded run x now attempts body)
  then show ?thesis using assms(2) elsewhere_slots(1) [OF run_recorded(7), of d]
    by (cases "d = sha run") (auto simp: run_moves_def)
next
  case (run_settled run x status akey a now revision failure transcript response)
  then show ?thesis using assms(2) elsewhere_slots(1) [OF run_settled(13), of d] admission_slots [OF run_settled(5)]
    by (cases "d = sha run") (auto simp: run_moves_def settled_summary_def)
next
  case (admission_renewed akey a now lease)
  then show ?thesis using assms(2) elsewhere_slots(1) [OF admission_renewed(5), of d] admission_slots [OF admission_renewed(2)]
    by auto
next
  case events_retired
  have "within (run_families - {FamEvent}) (run_slot d)" by (auto simp: within_def)
  then have "lookup s' (run_slot d) = lookup s (run_slot d)" using events_retired(3) by blast
  then show ?thesis using assms(2) by (auto dest: cell_frame [of s' _ s parse_stored_run])
next
  case (run_retired K)
  show ?thesis
  proof (cases "run_slot d \<in> K")
    case True
    then have "lookup s' (run_slot d) = None" using run_retired(2) by blast
    moreover obtain x where "run_at s (run_slot d) = Holds x" "rs_status (sr_summary x) \<noteq> RunRunning"
      using bspec [OF run_retired(4) True] by auto
    ultimately show ?thesis using assms(2) run_retired(1) by (simp add: cell_at_def)
  next
    case False
    then show ?thesis using assms(2) elsewhere_slots(1) [OF run_retired(6), of d] by auto
  qed
qed

text \<open>An admission is answered once: its request, run, conversation and fingerprint never change.\<close>

definition admission_moves :: "admission \<Rightarrow> admission \<Rightarrow> bool" where
  "admission_moves a a' \<longleftrightarrow> a' = a \<or>
     (ad_status a = AdmRunning \<and> ad_request a' = ad_request a \<and> ad_run a' = ad_run a \<and> ad_conv a' = ad_conv a
      \<and> ad_fingerprint a' = ad_fingerprint a \<and> ad_started a' = ad_started a)"

lemma admission_moves_refl [simp]: "admission_moves a a"
  by (simp add: admission_moves_def)

lemma admission_moves_trans: "admission_moves a b \<Longrightarrow> admission_moves b c \<Longrightarrow> admission_moves a c"
  by (auto simp: admission_moves_def)

lemma admission_kept:
  assumes "run_commit sha m s s'" "admission_at s (admission_slot q) = Holds a"
  shows "(\<exists>a'. admission_at s' (admission_slot q) = Holds a' \<and> admission_moves a a')
    \<or> (m \<and> ad_status a \<noteq> AdmRunning \<and> admission_at s' (admission_slot q) = Absent)"
  using assms(1)
proof cases
  case runs_untouched
  then show ?thesis using assms(2) elsewhere_slots(3) [of "{}"] by auto
next
  case (run_admitted request run now conv fingerprint lease)
  then have "admission_slot q \<noteq> admission_slot (sha request)" using assms(2) by auto
  then have "admission_at s' (admission_slot q) = admission_at s (admission_slot q)"
    by (intro elsewhere_slots [OF run_admitted(12)]) simp
  then show ?thesis using assms(2) by auto
next
  case (run_recorded run x now attempts body)
  then show ?thesis using assms(2) elsewhere_slots(3) [OF run_recorded(7), of q] by auto
next
  case (run_settled run x status akey b now revision failure transcript response)
  then show ?thesis using assms(2) elsewhere_slots(3) [OF run_settled(13), of q]
    by (cases "akey = admission_slot q") (auto simp: admission_moves_def settled_admission_def)
next
  case (admission_renewed akey b now lease)
  then show ?thesis using assms(2) elsewhere_slots(3) [OF admission_renewed(5), of q]
    by (cases "akey = admission_slot q") (auto simp: admission_moves_def)
next
  case events_retired
  have "within (run_families - {FamEvent}) (admission_slot q)" by (auto simp: within_def)
  then have "lookup s' (admission_slot q) = lookup s (admission_slot q)" using events_retired(3) by blast
  then show ?thesis using assms(2) by (auto dest: cell_frame [of s' _ s parse_admission])
next
  case (run_retired K)
  show ?thesis
  proof (cases "admission_slot q \<in> K")
    case True
    then have "lookup s' (admission_slot q) = None" using run_retired(2) by blast
    moreover obtain x where "admission_at s (admission_slot q) = Holds x" "ad_status x \<noteq> AdmRunning"
      using bspec [OF run_retired(5) True] by auto
    ultimately show ?thesis using assms(2) run_retired(1) by (simp add: cell_at_def)
  next
    case False
    then show ?thesis using assms(2) elsewhere_slots(3) [OF run_retired(6), of q] by auto
  qed
qed

section \<open>The runs over time\<close>

text \<open>Without retention, over any sequence of steps.\<close>

definition runs_evolve :: "(string \<Rightarrow> string) \<Rightarrow> snapshot \<Rightarrow> snapshot \<Rightarrow> bool" where
  "runs_evolve sha s s' \<longleftrightarrow> (runs_ok sha s \<longrightarrow> runs_ok sha s')
     \<and> (\<forall>d r. run_at s (run_slot d) = Holds r \<longrightarrow> (\<exists>r'. run_at s' (run_slot d) = Holds r' \<and> run_moves r r'))
     \<and> (\<forall>q a. admission_at s (admission_slot q) = Holds a \<longrightarrow>
          (\<exists>a'. admission_at s' (admission_slot q) = Holds a' \<and> admission_moves a a'))"

lemma runs_evolve_refl [simp]: "runs_evolve sha s s"
  by (auto simp: runs_evolve_def)

lemma runs_evolve_trans: "runs_evolve sha a b \<Longrightarrow> runs_evolve sha b c \<Longrightarrow> runs_evolve sha a c"
  unfolding runs_evolve_def by (meson run_moves_trans admission_moves_trans)

lemma runs_evolve_step: "run_commit sha False s s' \<Longrightarrow> runs_evolve sha s s'"
  unfolding runs_evolve_def using runs_ok_step run_kept admission_kept by blast

text \<open>With retention, nothing that is running goes away.\<close>

definition running_evolve :: "snapshot \<Rightarrow> snapshot \<Rightarrow> bool" where
  "running_evolve s s' \<longleftrightarrow>
     (\<forall>d r. run_at s (run_slot d) = Holds r \<longrightarrow> rs_status (sr_summary r) = RunRunning \<longrightarrow>
        (\<exists>r'. run_at s' (run_slot d) = Holds r' \<and> run_moves r r'))
     \<and> (\<forall>q a. admission_at s (admission_slot q) = Holds a \<longrightarrow> ad_status a = AdmRunning \<longrightarrow>
          (\<exists>a'. admission_at s' (admission_slot q) = Holds a' \<and> admission_moves a a'))"

lemma running_evolve_step: "run_commit sha m s s' \<Longrightarrow> running_evolve s s'"
  unfolding running_evolve_def using run_kept admission_kept by blast

end
