(* ===== verification/HistoryCommit.thy ===== *)
theory HistoryCommit
  imports SettleSteps
begin

text \<open>
  What \<open>settleDeliveryWithHistory\<close> commits: nothing, or in one step the receipt as delivered, the
  binding of the entry and the next revision of the destination conversation.
\<close>

section \<open>The commit\<close>

abbreviation link_at :: "snapshot \<Rightarrow> string \<Rightarrow> delivery_link cell" where
  "link_at \<equiv> cell_at parse_delivery_link"

definition history_families :: "key_family set" where
  "history_families = {FamDelivery, FamDeliveryEntry, FamConversation}"

definition written :: "snapshot \<Rightarrow> string \<Rightarrow> js \<Rightarrow> bool" where
  "written s k v \<longleftrightarrow> (\<exists>b. encode_execution_record v = Inr b \<and> map_option sv_value (lookup s k) = Some b)"

text \<open>The revision written has the entry of the request as its last one, with the time it was
  recorded at.\<close>

definition revision_of :: "history_request \<Rightarrow> string \<Rightarrow> canonical_transcript option \<Rightarrow> canonical_transcript \<Rightarrow> bool" where
  "revision_of h recorded prior t \<longleftrightarrow>
     wf_transcript t \<and> ct_conv t = hq_conv h
     \<and> ct_revision t = (case prior of None \<Rightarrow> 1 | Some p \<Rightarrow> ct_revision p + 1)
     \<and> ct_entries t = (case prior of None \<Rightarrow> [] | Some p \<Rightarrow> ct_entries p) @ [with_recorded recorded (hq_entry h)]"

text \<open>The transcript it continues is the one the conversation record stands for.\<close>

definition continues :: "conversation option \<Rightarrow> canonical_transcript option \<Rightarrow> bool" where
  "continues previous prior \<longleftrightarrow>
     (case previous of
        None \<Rightarrow> prior = None
      | Some c \<Rightarrow> (\<exists>p. prior = Some p \<and> wf_transcript p \<and> ct_revision p = cv_revision c \<and> length (ct_entries p) = cv_count c))"

definition history_step :: "(string \<Rightarrow> string) \<Rightarrow> history_request \<Rightarrow> snapshot \<Rightarrow> snapshot \<Rightarrow> bool" where
  "history_step sha h s s' \<longleftrightarrow>
     (\<exists>d updated recorded prior t manifest previous created ckey.
        receipt_at s (hq_delivery_key h) = Holds d \<and> de_status d = DelIntent \<and> de_key d = hq_key h
        \<and> \<not> history_mismatch h d
        \<and> receipt_at s' (hq_delivery_key h) = Holds (delivered_with_history d h updated)
        \<and> link_at s (hq_binding_key h) = Absent \<and> link_at s' (hq_binding_key h) = Holds (binding_of h t recorded)
        \<and> revision_of h recorded prior t
        \<and> conversation_state_key sha (hq_conv h) = Inr ckey
        \<and> cell_at (parse_conversation sha) s ckey = (case previous of None \<Rightarrow> Absent | Some c \<Rightarrow> Holds c)
        \<and> continues previous prior
        \<and> written s' ckey (encode_conversation (appended_conversation t manifest previous created recorded))
        \<and> (\<forall>k. within history_families k \<longrightarrow> k \<notin> {hq_delivery_key h, hq_binding_key h, ckey} \<longrightarrow> lookup s' k = lookup s k))"

definition history_commit :: "(string \<Rightarrow> string) \<Rightarrow> history_request \<Rightarrow> snapshot \<Rightarrow> snapshot \<Rightarrow> bool" where
  "history_commit sha h s s' \<longleftrightarrow>
     (\<forall>k. within history_families k \<longrightarrow> lookup s' k = lookup s k) \<or> history_step sha h s s'"

lemma history_commit_refl [simp]: "history_commit sha h s s"
  by (simp add: history_commit_def)

section \<open>The request\<close>

definition history_wf :: "config \<Rightarrow> history_request \<Rightarrow> bool" where
  "history_wf cf h \<longleftrightarrow>
     ident_ok (hq_key h) \<and> fingerprint_ok (hq_fingerprint h) \<and> opt_ok ident_ok (hq_message h) \<and> conv_id_ok (hq_conv h)
     \<and> fingerprint_ok (hq_entry_fingerprint h) \<and> wf_entry (hq_conv h) (hq_entry h) \<and> assistant_entry (hq_entry h)
     \<and> (sha_hex (cf_sha cf) \<longrightarrow> fingerprint_ok (hq_digest h)) \<and> request_ok h
     \<and> delivery_state_key (cf_sha cf) (hq_key h) = Inr (hq_delivery_key h)"

lemma parse_history_wf: "parse_history_input cf input = Inr h \<Longrightarrow> history_wf cf h"
  apply (frule parse_history_ok)
  unfolding parse_history_input_def history_wf_def
  apply (elim rbind_InrE)
  apply (simp only: sum.inject)
  apply hypsubst
  apply (intro conjI impI)
  by (auto simp: parse_iffs dest: parse_delivery_entry_wf delivery_digest_Inr elim!: opt_field_ok)

section \<open>The revision written\<close>

lemma with_recorded_wf: "wf_entry conv e \<Longrightarrow> canonical_ts t \<Longrightarrow> wf_entry conv (with_recorded t e)"
  by (cases e) (auto simp: wf_common_def)

lemma later_of_canonical: "canonical_ts a \<Longrightarrow> canonical_ts b \<Longrightarrow> canonical_ts (later_of a b)"
  by (simp add: later_of_def)

lemma parsed_entries:
  assumes "parse_canonical_transcript (transcript_literal conv n (map encode_entry es)) = Inr t" "list_all (wf_entry conv) es"
  shows "ct_entries t = es" "ct_conv t = conv" "ct_revision t = n"
proof -
  have "imap (\<lambda>i. parse_transcript_entry conv (''canonical transcript.entries.'' @ nat_text i)) 0 (map encode_entry es) = Inr es"
    using assms(2) by (intro imap_roundtrip entry_roundtrip) (simp add: list_all_length)
  then have "ct_entries t = es \<and> ct_conv t = conv \<and> ct_revision t = n"
    using assms(1) unfolding parse_canonical_transcript_def transcript_literal_def
    by (elim rbind_InrE) (auto simp: parse_iffs)
  then show "ct_entries t = es" "ct_conv t = conv" "ct_revision t = n" by simp_all
qed

lemma appended_revision:
  assumes a: "append_canonical_transcript prior (hq_conv h) [encode_entry (with_recorded recorded (hq_entry h))] = Inr t"
    and h: "wf_entry (hq_conv h) (hq_entry h)" "canonical_ts recorded" and prior: "\<And>p. prior = Some p \<Longrightarrow> wf_transcript p"
  shows "revision_of h recorded prior t"
proof -
  let ?e = "with_recorded recorded (hq_entry h)"
  have e: "wf_entry (hq_conv h) ?e" by (rule with_recorded_wf [OF h])
  have wf: "wf_transcript t" by (rule append_wf [OF a])
  show ?thesis
  proof (cases prior)
    case None
    then have "parse_canonical_transcript (transcript_literal (hq_conv h) 1 (map encode_entry [?e])) = Inr t"
      using a by (auto simp: append_canonical_transcript_def parse_iffs rbind_Inr_iff Let_def)
    from parsed_entries [OF this] e wf None show ?thesis by (simp add: revision_of_def)
  next
    case (Some p)
    then have p: "wf_transcript p" by (rule prior)
    have parsed: "parse_canonical_transcript (transcript_literal (hq_conv h) (ct_revision p + 1) (map encode_entry (ct_entries p @ [?e]))) = Inr t"
      and conv: "ct_conv p = hq_conv h"
      using a Some p by (auto simp: append_canonical_transcript_def transcript_roundtrip parse_iffs rbind_Inr_iff Let_def)
    have "list_all (wf_entry (hq_conv h)) (ct_entries p @ [?e])" using p e conv by (simp add: wf_transcript_def)
    from parsed_entries [OF parsed this] wf Some show ?thesis by (simp add: revision_of_def)
  qed
qed

lemma binding_wf:
  assumes "history_wf cf h" "sha_hex (cf_sha cf)" "revision_of h recorded prior t" "canonical_ts recorded"
    "ct_entries t \<noteq> []" "length (ct_entries t) \<le> max_conversation_entries"
  shows "wf_delivery_link (binding_of h t recorded)"
proof -
  have "ident_ok (hq_entry_id h)" using assms(1) unfolding history_wf_def hq_entry_id_def
    by (cases "hq_entry h") (auto simp: wf_common_def)
  moreover have "1 \<le> length (ct_entries t)" using assms(5) by (cases "ct_entries t") auto
  ultimately show ?thesis using assms(1-4,6)
    by (simp add: wf_delivery_link_def binding_of_def history_wf_def revision_of_def wf_transcript_def)
qed

lemma delivered_wf:
  assumes "history_wf cf h" "sha_hex (cf_sha cf)" "wf_delivery d" "canonical_ts updated"
  shows "wf_delivery (delivered_with_history d h updated)"
proof -
  have "ident_ok (hq_entry_id h)" using assms(1) unfolding history_wf_def hq_entry_id_def
    by (cases "hq_entry h") (auto simp: wf_common_def)
  then show ?thesis using assms
    by (auto simp: wf_delivery_def delivered_with_history_def history_wf_def opt_ok_def history_count_def present_def)
qed

section \<open>The method\<close>

definition loaded_ok :: "conversation option \<Rightarrow> loaded_transcript option \<Rightarrow> bool" where
  "loaded_ok previous loaded \<longleftrightarrow> loaded_chunks_ok loaded \<and> continues previous (map_option lt_transcript loaded)"

lemma keeps_chunked:
  assumes "wf_manifest sha conv m"
  shows "keeps F (\<lambda>l. wf_transcript (lt_transcript l) \<and> (\<forall>x \<in> set (lt_chunks l). in_family FamChunk (er_key x)))
    (load_chunked_transcript sha conv m)"
proof -
  have m: "list_all (\<lambda>d. in_family FamChunk (ck_key d)) (cm_chunks m)"
    unfolding list_all_length
  proof (intro allI impI)
    fix i assume "i < length (cm_chunks m)"
    then have "wf_chunk sha conv i (cm_chunks m ! i)" using assms by (simp add: wf_manifest_def list_all_iff)
    then show "in_family FamChunk (ck_key (cm_chunks m ! i))" unfolding wf_chunk_def by (blast intro: key_in_family)
  qed
  show ?thesis unfolding load_chunked_transcript_def Let_def
    by (rule keeps_bind [OF keeps_chunk_records [OF m]]) (auto intro!: keeps_intros dest: decode_wf)
qed

lemma keeps_loaded:
  assumes "wf_conversation (cf_sha cf) c"
  shows "keeps F (\<lambda>l. loaded_ok (Some c) (Some l)) (load_conversation_transcript_state cf c)"
proof -
  have "keeps F (\<lambda>l. wf_transcript (lt_transcript l) \<and> (\<forall>x \<in> set (lt_chunks l). in_family FamChunk (er_key x))) (load_transcript_body cf c)"
  proof (cases "cv_body c")
    case (InlineTranscript t)
    then show ?thesis using assms
      by (auto simp: load_transcript_body_def wf_conversation_def wf_body_def intro: keeps_intros)
  next
    case (TranscriptChunks m)
    then show ?thesis using assms keeps_chunked
      by (simp add: load_transcript_body_def wf_conversation_def wf_body_def)
  next
    case (TranscriptRef r)
    show ?thesis unfolding load_transcript_body_def TranscriptRef transcript_body.case
      by (rule keeps_step [OF keeps_read_artifact]) (auto intro!: keeps_intros dest: decode_wf)
  qed
  note step = keeps_bind [OF this]
  show ?thesis unfolding load_conversation_transcript_state_def
    by (intro step keeps_intros) (auto simp: loaded_ok_def continues_def loaded_chunks_ok_def)
qed


lemma append_step:
  assumes h: "history_wf cf h" "sha_hex (cf_sha cf)" and ckey: "conversation_state_key (cf_sha cf) (hq_conv h) = Inr ckey"
    and loaded: "loaded_ok (map_option er_value found) loaded"
    and d: "de_status (er_value existing) = DelIntent" "de_key (er_value existing) = hq_key h"
      "\<not> history_mismatch h (er_value existing)" "er_key existing = hq_delivery_key h"
    and found: "\<And>c. found = Some c \<Longrightarrow> er_key c = ckey"
    and was: "was l parse_delivery existing s1" "\<And>c. found = Some c \<Longrightarrow> was l (parse_conversation (cf_sha cf)) c s1"
    and times: "canonical_ts recorded" "canonical_ts updated"
    and t: "append_canonical_transcript (map_option lt_transcript loaded) (hq_conv h)
               [encode_entry (with_recorded recorded (hq_entry h))] = Inr t"
    and chunks: "chunk_canonical_transcript (cf_sha cf) t = Inr (manifest, cs)"
    and ps: "rmap encode_put
        [(hq_delivery_key h, Some (er_version existing), encode_delivery (delivered_with_history (er_value existing) h updated)),
         (ckey, map_option er_version found,
           encode_conversation (appended_conversation t manifest (map_option er_value found) created recorded)),
         (hq_binding_key h, None, encode_delivery_link (binding_of h t recorded))] = Inr ps"
      "rmap byte_put (chunk_puts previous cs) = Inr bs"
    and previous: "previous = (case loaded of None \<Rightarrow> [] | Some l \<Rightarrow> lt_chunks l)"
    and c: "commits checks (ps @ bs) (stale_chunks previous cs) s1 s2"
  shows "history_commit (cf_sha cf) h s1 s2"
proof -
  let ?d = "delivered_with_history (er_value existing) h updated" and ?previous = "map_option er_value found"
  let ?c = "appended_conversation t manifest ?previous created recorded"
  have rev: "revision_of h recorded (map_option lt_transcript loaded) t"
    by (rule appended_revision [OF t _ times(1)])
      (use h loaded in \<open>auto simp: history_wf_def loaded_ok_def continues_def split: option.splits\<close>)
  have wfd: "wf_delivery ?d" by (rule delivered_wf [OF h delivery_codec.was_wf [OF was(1)] times(2)])
  have wfb: "wf_delivery_link (binding_of h t recorded)"
    by (rule binding_wf [OF h rev times(1)])
      (use rev in \<open>auto simp: revision_of_def wf_transcript_def transcript_max_entries_def max_conversation_entries_def\<close>)
  have receipt: "receipt_at s1 (hq_delivery_key h) = Holds (er_value existing)" "receipt_at s2 (hq_delivery_key h) = Holds ?d"
    using commit_updated [OF c ps(1) _ was(1), where v = "encode_delivery ?d"] delivery_codec.cell_put [OF c ps(1) _ wfd, where ev = "Some (er_version existing)" and key = "hq_delivery_key h"]
    by (simp_all add: d(4))
  have binding: "link_at s1 (hq_binding_key h) = Absent" "link_at s2 (hq_binding_key h) = Holds (binding_of h t recorded)"
    using commit_created [OF c ps(1), where key = "hq_binding_key h" and v = "encode_delivery_link (binding_of h t recorded)"] link_codec.cell_put [OF c ps(1) _ wfb, where ev = None] by simp_all
  have conv: "written s2 ckey (encode_conversation ?c)"
    unfolding written_def by (rule conjunct2 [OF commit_put [OF c ps(1), where ev = "map_option er_version found"]]) simp
  have prev: "cell_at (parse_conversation (cf_sha cf)) s1 ckey = (case ?previous of None \<Rightarrow> Absent | Some c \<Rightarrow> Holds c)"
  proof (cases found)
    case None
    then show ?thesis
      using commit_created [OF c ps(1), where key = ckey and v = "encode_conversation ?c"] by simp
  next
    case (Some x)
    then show ?thesis using commit_updated [OF c ps(1), where x = x and v = "encode_conversation ?c"] was(2) found by simp
  qed
  have chunk: "in_family FamChunk k" if "k \<in> fst ` set (chunk_puts previous cs) \<union> fst ` set (stale_chunks previous cs)" for k
  proof -
    have "in_family FamChunk (ck_key (tc_descriptor x))" if "x \<in> set cs" for x
      using chunked_keys [OF chunks append_wf [OF t] that] .
    moreover have "in_family FamChunk (er_key x)" if "x \<in> set previous" for x
      using that loaded by (cases loaded) (auto simp: previous loaded_ok_def loaded_chunks_ok_def)
    ultimately show ?thesis using that by (auto dest!: history_chunk_keys)
  qed
  have frame: "lookup s2 k = lookup s1 k" if "within history_families k" "k \<notin> {hq_delivery_key h, hq_binding_key h, ckey}" for k
  proof (rule commit_frame [OF c ps])
    have "\<not> in_family FamChunk k" using that(1) by (auto simp: within_def history_families_def dest: in_family_unique)
    then show "k \<notin> fst ` set (chunk_puts previous cs)" "k \<notin> fst ` set (stale_chunks previous cs)" using chunk by blast+
  qed (use that(2) in auto)
  have "continues ?previous (map_option lt_transcript loaded)" using loaded by (simp add: loaded_ok_def)
  then have "history_step (cf_sha cf) h s1 s2"
    unfolding history_step_def using receipt d(1-3) binding rev ckey prev conv frame by blast
  then show ?thesis by (simp add: history_commit_def)
qed

lemma append_history_upholds:
  assumes E: "clocked E cf" and h: "history_wf cf h" "sha_hex (cf_sha cf)" and ckey: "conversation_state_key (cf_sha cf) (hq_conv h) = Inr ckey"
    and loaded: "loaded_ok (map_option er_value found) loaded"
    and d: "de_status (er_value existing) = DelIntent" "de_key (er_value existing) = hq_key h"
      "\<not> history_mismatch h (er_value existing)" "er_key existing = hq_delivery_key h"
    and found: "\<And>c. found = Some c \<Longrightarrow> er_key c = ckey"
    and again: "upholds E (history_commit (cf_sha cf) h) (\<lambda>_. True) (\<lambda>_ _. True) again"
  shows "upholds E (history_commit (cf_sha cf) h)
    (\<lambda>s. was (se_limits E) parse_delivery existing s \<and> (\<forall>c. found = Some c \<longrightarrow> was (se_limits E) (parse_conversation (cf_sha cf)) c s))
    (\<lambda>_ _. True) (append_history cf h existing ckey found loaded again)"
  unfolding append_history_def Let_def
proof (intro upholds_intros upholds_now upholds_transaction lasting_intros history_commit_refl TrueI upholds_weaken [OF again], goal_cases)
  case (1 t tr cm manifest cs ps bs s1 s2)
  have now: "canonical_ts (to_iso t)" using clocked_iso [OF E 1(1)] .
  have recorded: "canonical_ts (case map_option er_value found of None \<Rightarrow> to_iso t | Some c \<Rightarrow> later_of (to_iso t) (cv_updated c))"
  proof (cases found)
    case (Some x)
    then have "wf_conversation (cf_sha cf) (er_value x)" using 1(5) conversation_codec.was_wf by blast
    then show ?thesis using now Some by (simp add: wf_conversation_def later_of_canonical)
  qed (simp add: now)
  have "wf_delivery (er_value existing)" using 1(5) delivery_codec.was_wf by blast
  then have updated: "canonical_ts (later_of (to_iso t) (de_updated (er_value existing)))"
    using now by (simp add: wf_delivery_def later_of_canonical)
  show ?case
    by (rule append_step [OF h ckey loaded d found _ _ recorded updated 1(2) _ 1(6,7) refl 1(8)]) (use 1(3-5) in auto)
qed


section \<open>The method commits only this\<close>

lemma untouched_history: "touches {} s s' \<Longrightarrow> history_commit sha h s s'"
  by (auto simp: history_commit_def touches_def within_def)

lemma unbound_upholds:
  assumes E: "clocked E cf" and h: "history_wf cf h" "sha_hex (cf_sha cf)"
    and d: "de_status (er_value existing) = DelIntent" "de_key (er_value existing) = hq_key h"
      "\<not> history_mismatch h (er_value existing)" "er_key existing = hq_delivery_key h"
    and again: "upholds E (history_commit (cf_sha cf) h) (\<lambda>_. True) (\<lambda>_ _. True) again"
  shows "upholds E (history_commit (cf_sha cf) h) (was (se_limits E) parse_delivery existing) (\<lambda>_ _. True)
    (history_unbound cf h existing again)"
  unfolding history_unbound_def
proof (intro upholds_intros upholds_read lasting_intros, goal_cases)
  case (1 ckey)
  have E': "transp (se_rely E)" using E by (simp add: clocked_def)
  show ?case unfolding option.case pbind.simps
    by (intro upholds_intros upholds_weaken [OF append_history_upholds [OF E h _ _ d _ again]])
      (use 1(2) in \<open>auto simp: loaded_ok_def loaded_chunks_ok_def continues_def\<close>)
next
  case (2 ckey x)
  have E': "transp (se_rely E)" using E by (simp add: clocked_def)
  show ?case unfolding option.case
  proof (rule upholds_given, rule upholds_keeps_bind [OF _ E' untouched_history])
    fix s assume s: "was (se_limits E) parse_delivery existing s \<and> was (se_limits E) (parse_conversation (cf_sha cf)) x s"
    then have wf: "wf_conversation (cf_sha cf) (er_value x)" using conversation_codec.was_wf by blast
    show "keeps {} (loaded_ok (Some (er_value x)))
        (pbind (load_conversation_transcript_state cf (er_value x)) (\<lambda>l. Return (Some l)))"
      by (rule keeps_bind [OF keeps_loaded [OF wf]]) (rule keeps_Return)
    fix loaded assume "loaded_ok (Some (er_value x)) loaded"
    then show "upholds E (history_commit (cf_sha cf) h)
        (\<lambda>s. was (se_limits E) parse_delivery existing s \<and> was (se_limits E) (parse_conversation (cf_sha cf)) x s) (\<lambda>_ _. True)
        (if case loaded of None \<Rightarrow> False
            | Some l \<Rightarrow> list_ex (\<lambda>e. ec_entry (entry_common_of e) = hq_entry_id h) (ct_entries (lt_transcript l))
         then Return (history_conflict h) else append_history cf h existing ckey (Some x) loaded again)"
      by (intro upholds_if upholds_Return TrueI upholds_weaken [OF append_history_upholds [OF E h _ _ d _ again]])
        (use 2 in auto)
  qed (assumption | intro lasting_intros)+
qed

lemma loop_upholds:
  assumes E: "clocked E cf" and sha: "sha_hex (cf_sha cf)" and h: "history_wf cf h"
  shows "upholds E (history_commit (cf_sha cf) h) (\<lambda>_. True) (\<lambda>_ _. True) (history_loop n cf h)"
proof (induction n)
  case (Suc n)
  have E': "transp (se_rely E)" using E by (simp add: clocked_def)
  have quiet: "upholds E (history_commit (cf_sha cf) h) P (\<lambda>_ _. True) (history_bound cf h d b)" for P d b
  proof (rule upholds_weaken [OF keeps_upholds [OF _ E' untouched_history]])
    show "keeps {} (\<lambda>_. True) (history_bound cf h d b)"
      unfolding history_bound_def
      by (intro keeps_intros keeps_step [OF keeps_load_transcript] TrueI) (auto intro: conversation_codec.decoded_wf)
  qed auto
  show ?case unfolding history_loop.simps history_found_def Let_def
  proof (intro upholds_read_case upholds_intros lasting_intros quiet TrueI, goal_cases)
    case (1 x u)
    show ?case
    proof (cases "de_status (er_value x) = DelDelivered")
      case True
      then show ?thesis by (simp add: history_unbound_def upholds_Throw)
    next
      case False
      have key: "de_key (er_value x) = hq_key h"
        using 1 by (auto simp: assert_delivery_key_authority_def require_def split: if_splits)
      have "de_status (er_value x) = DelIntent" using 1 False by (simp add: history_mismatch_def)
      then show ?thesis
        using 1 key by (intro upholds_weaken [OF unbound_upholds [OF E h sha _ _ _ _ Suc.IH]]) auto
    qed
  qed
qed (auto intro: upholds_intros)

text \<open>A refused request commits nothing.\<close>

lemma settle_history_upholds:
  assumes "clocked E cf" "sha_hex (cf_sha cf)"
  shows "upholds E (\<lambda>s s'. \<exists>h. (parse_history_input cf input = Inr h \<and> history_commit (cf_sha cf) h s s')) (\<lambda>_. True) (\<lambda>_ _. True)
    (settle_delivery_with_history cf input)"
  unfolding settle_delivery_with_history_def
  by (intro upholds_intros upholds_weaken [OF loop_upholds [OF assms parse_history_wf]]) auto

text \<open>On its receipt it is the settlement of the machine.\<close>

lemma history_receipt:
  assumes "history_commit sha h s s'" "request_ok h" "in_family FamDelivery k"
  shows "receipt_at s' k = receipt_at s k \<or>
    (\<exists>d d'. receipt_at s k = Holds d \<and> de_status d = DelIntent \<and> receipt_at s' k = Holds d' \<and> de_status d' = DelDelivered
       \<and> same_identity d d' \<and> de_attempts d' = de_attempts d \<and> de_token d' = de_token d)"
  using assms(1) unfolding history_commit_def
proof (elim disjE)
  assume "\<forall>k. within history_families k \<longrightarrow> lookup s' k = lookup s k"
  then show ?thesis using assms(3) by (auto simp: within_def history_families_def cell_at_def)
next
  assume "history_step sha h s s'"
  then obtain d updated ckey where
    d: "receipt_at s (hq_delivery_key h) = Holds d" "de_status d = DelIntent"
      "receipt_at s' (hq_delivery_key h) = Holds (delivered_with_history d h updated)"
    and ckey: "conversation_state_key sha (hq_conv h) = Inr ckey"
    and frame: "\<forall>k. within history_families k \<longrightarrow> k \<notin> {hq_delivery_key h, hq_binding_key h, ckey} \<longrightarrow> lookup s' k = lookup s k"
    unfolding history_step_def by blast
  show ?thesis
  proof (cases "k = hq_delivery_key h")
    case True
    then show ?thesis using d by (simp add: delivered_with_history_def same_identity_def)
  next
    case False
    have "k \<noteq> hq_binding_key h" "k \<noteq> ckey" using assms(2,3) key_in_family ckey
      by (auto simp: request_ok_def dest: in_family_unique)
    moreover have "within history_families k" using assms(3) by (auto simp: within_def history_families_def)
    ultimately have "lookup s' k = lookup s k" using frame False by blast
    then show ?thesis by (simp add: cell_at_def)
  qed
qed

lemma history_receipts:
  assumes "history_commit sha h s s'" "request_ok h"
  shows "receipts_evolve s s'"
  unfolding receipts_evolve_def
proof (intro allI impI)
  fix k assume "in_family FamDelivery k"
  from history_receipt [OF assms this] show "receipt_later (receipt_at s k) (receipt_at s' k)"
    by (elim disjE exE conjE) (auto intro: r_into_rtranclp)
qed

end
