(* ===== verification/Announces.thy ===== *)
theory Announces
  imports JournalPool RunInvariant HistoryCommit
begin

text \<open>
  Answers that are given at a commit. \<open>announces l A C p\<close>: whenever \<open>p\<close> returns an answer of \<open>A\<close>, its
  last call was a transaction that was applied, from a snapshot to one that \<open>C\<close> relates for this answer.
  So the moment such an answer comes into being is the moment of its commit.
\<close>

definition said :: "('a \<Rightarrow> bool) \<Rightarrow> 'a prog \<Rightarrow> bool" where
  "said A p \<longleftrightarrow> (\<exists>x. p = Return x \<and> A x)"

lemma said_simps [simp]:
  "said A (Return x) \<longleftrightarrow> A x" "\<not> said A (Throw e)" "\<not> said A Hang" "\<not> said A (ReadCall k f)"
  "\<not> said A (ScanCall pre c n g)" "\<not> said A (TransactCall q h)" "\<not> said A (ClockCall i)"
  "\<not> said A (GenerateCall j m)" "\<not> said A (ArtifactCall a b)"
  by (simp_all add: said_def)

primrec announces ::
  "limits \<Rightarrow> ('a \<Rightarrow> bool) \<Rightarrow> ('a \<Rightarrow> snapshot \<Rightarrow> snapshot \<Rightarrow> bool) \<Rightarrow> 'a prog \<Rightarrow> bool" where
  "announces l A C (Return x) \<longleftrightarrow> True"
| "announces l A C (Throw e) \<longleftrightarrow> True"
| "announces l A C Hang \<longleftrightarrow> True"
| "announces l A C (ReadCall key f) \<longleftrightarrow> (\<forall>r. \<not> said A (f r) \<and> announces l A C (f r))"
| "announces l A C (ScanCall pre cursor n f) \<longleftrightarrow> (\<forall>r. \<not> said A (f r) \<and> announces l A C (f r))"
| "announces l A C (TransactCall q f) \<longleftrightarrow>
     (\<forall>r. announces l A C (f r)
        \<and> (\<forall>x c st st'. f r = Return x \<longrightarrow> A x \<longrightarrow> snapshot_wf l (st_snap st) \<longrightarrow>
             state_transaction_internal l c q st = (r, st') \<longrightarrow> C x (st_snap st) (st_snap st')))"
| "announces l A C (ClockCall f) \<longleftrightarrow> (\<forall>a. \<not> said A (f a) \<and> announces l A C (f a))"
| "announces l A C (GenerateCall g f) \<longleftrightarrow> (\<forall>v. \<not> said A (f v) \<and> announces l A C (f v))"
| "announces l A C (ArtifactCall a f) \<longleftrightarrow> (\<forall>r. \<not> said A (f r) \<and> announces l A C (f r))"

text \<open>What the next step of such a program says.\<close>

lemma announces_step:
  assumes "prog_step E st p st' p'" "announces (se_limits E) A C p" "snapshot_wf (se_limits E) (st_snap st)"
  shows "announces (se_limits E) A C p' \<and> (\<forall>x. p' = Return x \<longrightarrow> A x \<longrightarrow> transacts p \<and> C x (st_snap st) (st_snap st'))"
  using assms(1)
proof cases
  case (step_transact_call c q r f)
  then have all: "announces (se_limits E) A C (f r)"
      "\<And>x. f r = Return x \<Longrightarrow> A x \<Longrightarrow> C x (st_snap st) (st_snap st')"
    using assms(2,3) by (simp, metis announces.simps(6))
  then show ?thesis by (simp add: step_transact_call)
next
  case (step_read_call c key r f)
  have "\<not> said A (f r) \<and> announces (se_limits E) A C (f r)" using assms(2) by (simp add: step_read_call)
  then show ?thesis by (simp add: step_read_call said_def)
next
  case (step_scan_call c pre cursor n r f)
  have "\<not> said A (f r) \<and> announces (se_limits E) A C (f r)" using assms(2) by (simp add: step_scan_call)
  then show ?thesis by (simp add: step_scan_call said_def)
next
  case (step_clock_call a f)
  have "\<not> said A (f a) \<and> announces (se_limits E) A C (f a)" using assms(2) by (simp add: step_clock_call)
  then show ?thesis by (simp add: step_clock_call said_def)
next
  case (step_generate_call g f v)
  have "\<not> said A (f v) \<and> announces (se_limits E) A C (f v)" using assms(2) by (simp add: step_generate_call)
  then show ?thesis by (simp add: step_generate_call said_def)
next
  case (step_artifact_call q f a)
  have "\<not> said A (f a) \<and> announces (se_limits E) A C (f a)" using assms(2) by (simp add: step_artifact_call)
  then show ?thesis by (simp add: step_artifact_call said_def)
qed

section \<open>Rules\<close>

named_theorems announces_intros

abbreviation mute :: "limits \<Rightarrow> ('a \<Rightarrow> bool) \<Rightarrow> ('a \<Rightarrow> snapshot \<Rightarrow> snapshot \<Rightarrow> bool) \<Rightarrow> 'a prog \<Rightarrow> bool" where
  "mute l A C p \<equiv> \<not> said A p \<and> announces l A C p"

lemma mute_bind: "(\<And>x. mute l A C (k x)) \<Longrightarrow> mute l A C (pbind p k)"
proof (induction p)
  case (TransactCall q f)
  then have "mute l A C (pbind (f r) k)" for r by blast
  then show ?case by (auto simp: said_def)
qed auto

lemma mute_lift [announces_intros]: "(\<And>x. r = Inr x \<Longrightarrow> mute l A C (k x)) \<Longrightarrow> mute l A C (pbind (lift r) k)"
  by (cases r) auto

text \<open>The calls that commit nothing; \<open>announced\<close> below is for the one that does.\<close>

lemmas mute_calls [announces_intros] =
  mute_bind [where p = "exec_read parse key" for parse key] mute_bind [where p = journal_now]
  mute_bind [where p = delivery_token] mute_bind [where p = "is_expired v" for v]

lemma mute_Return [announces_intros]: "\<not> A x \<Longrightarrow> mute l A C (Return x)"
  and mute_Throw [announces_intros]: "mute l A C (Throw e)"
  by simp_all

lemma mute_if [announces_intros]: "(b \<Longrightarrow> mute l A C p) \<Longrightarrow> (\<not> b \<Longrightarrow> mute l A C q) \<Longrightarrow> mute l A C (if b then p else q)"
  by simp

lemma mute_option [announces_intros]:
  "(v = None \<Longrightarrow> mute l A C p) \<Longrightarrow> (\<And>x. v = Some x \<Longrightarrow> mute l A C (f x)) \<Longrightarrow>
   mute l A C (case v of None \<Rightarrow> p | Some x \<Rightarrow> f x)"
  by (cases v) auto

lemma mute_tx_result [announces_intros]:
  "(\<And>rs ks. r = TxApplied rs ks \<Longrightarrow> mute l A C (f rs ks)) \<Longrightarrow> (\<And>cs. r = TxConflict cs \<Longrightarrow> mute l A C (g cs)) \<Longrightarrow>
   mute l A C (case r of TxApplied rs ks \<Rightarrow> f rs ks | TxConflict cs \<Rightarrow> g cs)"
  by (cases r) auto

text \<open>The transaction that makes the answer.\<close>

lemma announced:
  assumes conflict: "\<And>cs. mute l A C (k (TxConflict cs))"
    and applied: "\<And>rs ks. announces l A C (k (TxApplied rs ks))"
      "\<And>rs ks x ps bs s1 s2. k (TxApplied rs ks) = Return x \<Longrightarrow> A x \<Longrightarrow> rmap encode_put puts = Inr ps \<Longrightarrow>
        rmap byte_put byte_puts = Inr bs \<Longrightarrow> commits checks (ps @ bs) deletes s1 s2 \<Longrightarrow> C x s1 s2"
  shows "mute l A C (pbind (exec_transaction \<lparr>xq_checks = checks, xq_puts = puts, xq_byte_puts = byte_puts, xq_deletes = deletes\<rparr>) k)"
proof -
  have "mute l A C (pbind (TransactCall \<lparr>tq_checks = map entry_of checks, tq_puts = map put_of (ps @ bs),
      tq_deletes = map entry_of deletes\<rparr> lift) k)"
    if ps: "rmap encode_put puts = Inr ps" and bs: "rmap byte_put byte_puts = Inr bs" for ps bs
  proof -
    have "announces l A C (pbind (lift r) k)" for r
      using conflict applied(1) by (cases r) (simp_all, case_tac b, auto)
    moreover have "C x (st_snap st) (st_snap st')"
      if x: "pbind (lift r) k = Return x" "A x" and wf: "snapshot_wf l (st_snap st)"
        and run: "state_transaction_internal l c \<lparr>tq_checks = map entry_of checks, tq_puts = map put_of (ps @ bs),
          tq_deletes = map entry_of deletes\<rparr> st = (r, st')" for r x c st st'
    proof -
      obtain rs ks where r: "r = Inr (TxApplied rs ks)"
        using x conflict by (cases r) (auto, case_tac b, auto simp: said_def)
      have "commits checks (ps @ bs) deletes (st_snap st) (st_snap st')"
        using applied_commits [OF run [unfolded r] wf] by blast
      then show ?thesis using applied(2) [OF _ x(2) ps bs] x(1) by (simp add: r)
    qed
    ultimately show ?thesis by simp
  qed
  note call = this
  have "mute l A C (pbind (pbind (lift (rmap encode_put puts)) (\<lambda>ps. pbind (lift (rmap byte_put byte_puts)) (\<lambda>bs.
      TransactCall \<lparr>tq_checks = map entry_of checks, tq_puts = map put_of (ps @ bs), tq_deletes = map entry_of deletes\<rparr> lift))) k)"
    unfolding pbind_assoc by (intro mute_lift call)
  then show ?thesis by (simp add: exec_transaction_def)
qed

section \<open>Answers of a pool that exclude each other\<close>

text \<open>\<open>A c\<close> picks the announced answers of a call. Each leaves a mark on the store that lasts, and a
  commit that announces finds no mark of an answer it would clash with.\<close>

locale announcing = rely_guarantee E start ok G Q
  for E :: setting and start :: "'c \<Rightarrow> 'a prog" and ok :: "'c \<Rightarrow> bool"
    and G :: "'c \<Rightarrow> snapshot \<Rightarrow> 'a prog \<Rightarrow> snapshot \<Rightarrow> bool" and Q :: "'c \<Rightarrow> 'a \<Rightarrow> snapshot \<Rightarrow> bool" +
  fixes A :: "'c \<Rightarrow> 'a \<Rightarrow> bool" and C :: "'c \<Rightarrow> 'a \<Rightarrow> snapshot \<Rightarrow> snapshot \<Rightarrow> bool"
    and clash :: "'c \<Rightarrow> 'a \<Rightarrow> 'c \<Rightarrow> 'a \<Rightarrow> bool" and mark :: "'c \<Rightarrow> 'a \<Rightarrow> snapshot \<Rightarrow> bool"
  assumes starts: "ok c \<Longrightarrow> mute (se_limits E) (A c) (C c) (start c)"
    and fresh: "ok c \<Longrightarrow> A c x \<Longrightarrow> G c s (Return x) s' \<Longrightarrow> C c x s s' \<Longrightarrow>
      mark c x s' \<and> (\<forall>d y. A d y \<longrightarrow> mark d y s \<longrightarrow> \<not> clash c x d y)"
    and clash_sym: "clash c x d y \<Longrightarrow> clash d y c x"
    and mark_stays: "A c x \<Longrightarrow> mark c x s \<Longrightarrow> interf E s s' \<Longrightarrow> mark c x s'"
begin

definition tidy :: "('c, 'a) pool \<Rightarrow> bool" where
  "tidy P \<longleftrightarrow> (\<forall>(c, p) \<in> set (snd P). announces (se_limits E) (A c) (C c) p)
     \<and> (\<forall>i c x. answered P i c x \<longrightarrow> A c x \<longrightarrow> mark c x (st_snap (fst P)))
     \<and> (\<forall>i j c d x y. answered P i c x \<longrightarrow> answered P j d y \<longrightarrow> i \<noteq> j \<longrightarrow> A c x \<longrightarrow> A d y \<longrightarrow> \<not> clash c x d y)"

text \<open>An announced answer that is new was given by this step, at its commit.\<close>

lemma new_answer:
  assumes P: "sound P" "tidy P" and step: "pool_step E start P P'" and ok: "\<forall>(c, p) \<in> set (snd P'). ok c"
    and x: "answered P' i c x" "A c x" "\<not> answered P i c x"
  shows "ok c \<and> G c (st_snap (fst P)) (Return x) (st_snap (fst P')) \<and> C c x (st_snap (fst P)) (st_snap (fst P'))"
    "\<And>j d y. j \<noteq> i \<Longrightarrow> answered P' j d y \<Longrightarrow> A d y \<Longrightarrow> answered P j d y"
proof -
  have c: "ok c" using ok x(1) nth_mem unfolding answered_def by fastforce
  from step have "(ok c \<and> G c (st_snap (fst P)) (Return x) (st_snap (fst P')) \<and> C c x (st_snap (fst P)) (st_snap (fst P')))
    \<and> (\<forall>j d y. j \<noteq> i \<longrightarrow> answered P' j d y \<longrightarrow> A d y \<longrightarrow> answered P j d y)"
  proof (cases rule: pool_step.cases)
    case (pool_start st cs c')
    have "i = length cs" using x pool_start by (cases "i < length cs") (auto simp: answered_def nth_append)
    then have "start c = Return x" using x(1) pool_start by (auto simp: answered_def)
    then have "said (A c) (start c)" using x(2) by (simp add: said_def)
    then show ?thesis using starts [OF c] by blast
  next
    case (pool_call k cs c' p st st' p')
    have i: "i = k" using x pool_call by (cases "i = k") (auto simp: answered_def)
    then have c': "c' = c" "p' = Return x" using x(1) pool_call by (auto simp: answered_def)
    have mem: "(c, p) \<in> set cs" using pool_call(3,4) nth_mem c' by fastforce
    have wp: "wp E (G c) (Q c) p (st_snap st)" and s: "interf E (st_snap st) (st_snap st)"
      using P(1) mem pool_call by (auto simp: sound_def)
    have ann: "announces (se_limits E) (A c) (C c) p" using P(2) mem pool_call by (auto simp: tidy_def)
    have "transacts p \<and> C c x (st_snap st) (st_snap st')"
      using announces_step [OF pool_call(5) ann] s x(2) c'(2) by (auto simp: interf_def)
    moreover from this have "G c (st_snap st) (Return x) (st_snap st')"
      using wp_commit [OF pool_call(5) wp s] c'(2) by simp
    ultimately show ?thesis using c pool_call i by (auto simp: answered_def)
  next
    case (pool_public st st' cs)
    then show ?thesis using x by (simp add: answered_def)
  qed
  then show "ok c \<and> G c (st_snap (fst P)) (Return x) (st_snap (fst P')) \<and> C c x (st_snap (fst P)) (st_snap (fst P'))"
    "\<And>j d y. j \<noteq> i \<Longrightarrow> answered P' j d y \<Longrightarrow> A d y \<Longrightarrow> answered P j d y" by blast+
qed

lemma announces_pool_step:
  assumes P: "sound P" "tidy P" and step: "pool_step E start P P'" and ok: "\<forall>(c, p) \<in> set (snd P'). ok c"
  shows "\<forall>(c, p) \<in> set (snd P'). announces (se_limits E) (A c) (C c) p"
  using step
proof (cases rule: pool_step.cases)
  case (pool_start st cs c)
  then show ?thesis using P(2) starts ok by (auto simp: tidy_def)
next
  case (pool_call k cs c p st st' p')
  have mem: "(c, p) \<in> set cs" using pool_call(3,4) nth_mem by fastforce
  have "announces (se_limits E) (A c) (C c) p" "interf E (st_snap st) (st_snap st)"
    using P mem pool_call by (auto simp: tidy_def sound_def)
  then have "announces (se_limits E) (A c) (C c) p'"
    using announces_step [OF pool_call(5)] by (auto simp: interf_def)
  then show ?thesis using P(2) pool_call set_update_subset_insert [of cs k "(c, p')"] by (fastforce simp: tidy_def)
next
  case (pool_public st st' cs)
  then show ?thesis using P(2) by (simp add: tidy_def)
qed

lemma tidy_step:
  assumes P: "sound P" "tidy P" and step: "pool_step E start P P'" and ok: "\<forall>(c, p) \<in> set (snd P'). ok c"
  shows "tidy P'"
proof -
  note i = step_interf [OF P(1) step]
  have old: "mark c x (st_snap (fst P'))" if "answered P i c x" "A c x" for i c x
    using that P(2) mark_stays [OF that(2) _ i] by (auto simp: tidy_def)
  have marks: "mark c x (st_snap (fst P'))" if "answered P' i c x" "A c x" for i c x
    using old fresh new_answer(1) [OF P step ok that] that by (cases "answered P i c x") blast+
  have one: "\<not> clash c x d y" if a: "answered P' i c x" "A c x" "\<not> answered P i c x" and b: "answered P' j d y" "A d y" "i \<noteq> j"
    for i j c d x y
  proof -
    have "answered P j d y" using new_answer(2) [OF P step ok a _ b(1,2)] b(3) by simp
    then have "mark d y (st_snap (fst P))" using P(2) b(2) by (auto simp: tidy_def)
    then show ?thesis using fresh new_answer(1) [OF P step ok a] a(2) b(2) by blast
  qed
  have "\<not> clash c x d y" if a: "answered P' i c x" "A c x" and b: "answered P' j d y" "A d y" "i \<noteq> j" for i j c d x y
  proof (cases "answered P i c x \<and> answered P j d y")
    case True
    then show ?thesis using P(2) a b unfolding tidy_def by blast
  next
    case False
    then show ?thesis using one [OF a _ b] one [OF b(1,2) _ a] b(3) clash_sym by blast
  qed
  then show ?thesis using announces_pool_step [OF P step ok] marks unfolding tidy_def by blast
qed

lemma tidy_empty: "tidy (st, [])"
  by (simp add: tidy_def answered_def)

lemma tidy_run:
  assumes "pool_run E start P P'" "sound P" "tidy P" "\<forall>(c, p) \<in> set (snd P'). ok c"
  shows "tidy P'"
  using assms
proof (induction rule: rtranclp_induct)
  case (step M P')
  have ok: "\<forall>(c, p) \<in> set (snd M). ok c" using started_ok_back [OF step.hyps(2) step.prems(3)] .
  then show ?case
    using tidy_step [OF sound_run [OF step.hyps(1) step.prems(1) ok] _ step.hyps(2) step.prems(3)] step.IH [OF step.prems(1,2) ok] by blast
qed

lemma answers_apart:
  assumes "pool_run E start (st, []) P" "interf E (st_snap st) (st_snap st)" "\<forall>(c, p) \<in> set (snd P). ok c"
    "answered P i c x" "answered P j d y" "i \<noteq> j" "A c x" "A d y"
  shows "\<not> clash c x d y"
  using tidy_run [OF assms(1) sound_empty [OF assms(2)] tidy_empty assms(3)] assms(4-) unfolding tidy_def by blast

end

end
