(* ===== verification/JournalRely.thy ===== *)
theory JournalRely
  imports Announces Journal
begin

text \<open>
  The calls of the journal in one pool. Every call keeps its guarantee, \<open>call_commit\<close>, whatever the
  others do within theirs; so the locale \<open>rely_guarantee\<close> holds of the journal's own calls.
\<close>

section \<open>The guarantee of a call\<close>

definition journal_setting :: "limits \<Rightarrow> (string \<Rightarrow> string) \<Rightarrow> bool \<Rightarrow> setting" where
  "journal_setting l sha m =
     \<lparr>se_limits = l, se_rely = (\<lambda>s s'. receipts_evolve s s' \<and> (run_commit sha m)\<^sup>*\<^sup>* s s'), se_clock = clock_ok\<rparr>"

lemma journal_setting_simps [simp]:
  "se_limits (journal_setting l sha m) = l" "se_clock (journal_setting l sha m) = clock_ok"
  "se_rely (journal_setting l sha m) s s' \<longleftrightarrow> receipts_evolve s s' \<and> (run_commit sha m)\<^sup>*\<^sup>* s s'"
  by (simp_all add: journal_setting_def)

lemma journal_rely_trans: "transp (se_rely (journal_setting l sha m))"
  by (auto intro!: transpI dest: receipts_evolve_trans)

text \<open>The calls of a pool: retention runs only where \<open>m\<close> allows it, and the configuration is one the
  journal is built with.\<close>

definition config_ok :: "config \<Rightarrow> bool" where
  "config_ok cf \<longleftrightarrow> cf_stale cf \<le> 86400000 \<and> sha_hex (cf_sha cf)"

definition allowed :: "config \<Rightarrow> bool \<Rightarrow> journal_call \<Rightarrow> bool" where
  "allowed cf m c \<longleftrightarrow> config_ok cf \<and> (retains c \<longrightarrow> m)"

text \<open>The receipt a call is about.\<close>

definition receipt_key :: "config \<Rightarrow> js \<Rightarrow> string option" where
  "receipt_key cf v =
     (case v of JStr ident \<Rightarrow> (case delivery_state_key (cf_sha cf) ident of Inr k \<Rightarrow> Some k | Inl e \<Rightarrow> None) | _ \<Rightarrow> None)"

lemma receipt_key_simps [simp]: "receipt_key cf (JStr ident) = Some k \<longleftrightarrow> delivery_state_key (cf_sha cf) ident = Inr k"
  by (simp add: receipt_key_def split: sum.split)

fun receipt_of :: "config \<Rightarrow> journal_call \<Rightarrow> string option" where
  "receipt_of cf (PrepareDelivery i) = receipt_key cf (di_key i)"
| "receipt_of cf (SettleDelivery i) = receipt_key cf (si_key i)"
| "receipt_of cf _ = None"

lemma receipt_of_family: "receipt_of cf c = Some key \<Longrightarrow> in_family FamDelivery key"
  by (cases c) (auto simp: receipt_key_def key_simps split: js.splits sum.splits)

text \<open>What a call that writes receipts commits: one step of one receipt. An answer to send is given
  exactly when the attempt counter is moved to its number; only a settlement that says so records an
  attempt as failed.\<close>

definition receipt_commit :: "nat set \<Rightarrow> string \<Rightarrow> snapshot \<Rightarrow> journal_answer prog \<Rightarrow> snapshot \<Rightarrow> bool" where
  "receipt_commit fa key s p s' \<longleftrightarrow>
     (\<forall>j. j \<noteq> key \<longrightarrow> lookup s' j = lookup s j)
     \<and> (receipt_at s' key = receipt_at s key \<or> receipt_step (receipt_at s key) (receipt_at s' key))
     \<and> (\<forall>n t. p = Return (DeliveryAnswer (DeliverySend n t)) \<longrightarrow>
          attempts_of (receipt_at s key) < n \<and> attempts_of (receipt_at s' key) = n)
     \<and> (\<forall>n. failed_attempt (receipt_at s' key) n \<longrightarrow> receipt_at s' key = receipt_at s key \<or> n \<in> fa)"

fun delivery_call :: "config \<Rightarrow> journal_call \<Rightarrow> snapshot \<Rightarrow> journal_answer prog \<Rightarrow> snapshot \<Rightarrow> bool" where
  "delivery_call cf (PrepareDelivery i) s p s' \<longleftrightarrow>
     (\<exists>key. receipt_of cf (PrepareDelivery i) = Some key \<and> receipt_commit {} key s p s')"
| "delivery_call cf (SettleDelivery i) s p s' \<longleftrightarrow>
     (\<exists>key. receipt_of cf (SettleDelivery i) = Some key \<and> receipt_commit (fails_attempts i) key s p s')"
| "delivery_call cf (SettleDeliveryWithHistory i) s p s' \<longleftrightarrow>
     (\<exists>h. parse_history_input cf i = Inr h \<and> history_commit (cf_sha cf) h s s')"
| "delivery_call cf _ s p s' \<longleftrightarrow> True"

definition call_commit :: "config \<Rightarrow> journal_call \<Rightarrow> snapshot \<Rightarrow> journal_answer prog \<Rightarrow> snapshot \<Rightarrow> bool" where
  "call_commit cf c s p s' \<longleftrightarrow>
     touches (written_families c) s s' \<and> run_commit (cf_sha cf) (retains c) s s' \<and> delivery_call cf c s p s'"

fun call_answer :: "config \<Rightarrow> journal_call \<Rightarrow> journal_answer \<Rightarrow> snapshot \<Rightarrow> bool" where
  "call_answer cf (PrepareDelivery i) x s \<longleftrightarrow>
     (\<exists>key a. receipt_of cf (PrepareDelivery i) = Some key \<and> x = DeliveryAnswer a \<and> delivery_answered key a s)"
| "call_answer cf (SettleDelivery i) x s \<longleftrightarrow>
     (\<exists>key a. receipt_of cf (SettleDelivery i) = Some key \<and> x = DeliveryAnswer a \<and> delivery_answered key a s)"
| "call_answer cf _ x s \<longleftrightarrow> True"

section \<open>Every call keeps it\<close>

lemma wp_conj: "wp E G Q p s \<Longrightarrow> wp E G' Q' p s \<Longrightarrow> wp E (\<lambda>s p s'. G s p s' \<and> G' s p s') (\<lambda>x s. Q x s \<and> Q' x s) p s"
proof (induction p arbitrary: s)
  case (ReadCall key f)
  show ?case unfolding wp.simps by (intro allI impI conjI ReadCall.IH rangeI) (use ReadCall.prems in auto)
next
  case (ScanCall pre cursor n f)
  show ?case unfolding wp.simps by (intro allI impI conjI ScanCall.IH rangeI) (use ScanCall.prems in auto)
next
  case (TransactCall q f)
  show ?case unfolding wp.simps by (intro allI impI conjI TransactCall.IH rangeI) (use TransactCall.prems in auto)
next
  case (ClockCall f)
  show ?case unfolding wp.simps by (intro allI impI conjI ClockCall.IH rangeI) (use ClockCall.prems in auto)
next
  case (GenerateCall g f)
  show ?case unfolding wp.simps by (intro allI impI conjI GenerateCall.IH rangeI) (use GenerateCall.prems in auto)
next
  case (ArtifactCall a f)
  show ?case unfolding wp.simps by (intro allI impI conjI ArtifactCall.IH rangeI) (use ArtifactCall.prems in auto)
qed simp_all

lemma answer_simps: "answer f (Return x) = Return (f x)"
  by (simp add: answer_def)

lemma answer_Return: "answer f p = Return y \<longleftrightarrow> (\<exists>x. p = Return x \<and> y = f x)"
  by (cases p) (auto simp: answer_def)

lemma wp_answer:
  assumes "wp E G Q p s" "\<And>s p s'. G s p s' \<Longrightarrow> G' s (answer f p) s'" "\<And>x s. Q x s \<Longrightarrow> Q' (f x) s"
  shows "wp E G' Q' (answer f p) s"
  unfolding answer_def
proof (rule wp_bind)
  show "wp E (\<lambda>s p s'. G' s (pbind p (\<lambda>x. Return (f x))) s') (\<lambda>x. wp E G' Q' (Return (f x))) p s"
    by (rule wp_mono [OF assms(1)]) (use assms(2,3) in \<open>auto simp: answer_def\<close>)
qed

lemma receipt_commit_answer: "delivery_commit fa key s p s' \<Longrightarrow> receipt_commit fa key s (answer DeliveryAnswer p) s'"
  by (auto simp: delivery_commit_def receipt_commit_def answer_Return)

lemma journal_delivery_setting: "delivery_setting (journal_setting l sha m)"
  using journal_rely_trans by (simp add: delivery_setting_def)

lemma journal_clocked: "config_ok cf \<Longrightarrow> clocked (journal_setting l (cf_sha cf) m) cf"
  using journal_rely_trans by (simp add: clocked_def config_ok_def)

lemma delivery_call_wp:
  assumes "config_ok cf"
  shows "wp (journal_setting l (cf_sha cf) m) (delivery_call cf c) (call_answer cf c) (journal_prog cf c) s"
proof -
  let ?E = "journal_setting l (cf_sha cf) m"
  have other: "wp ?E (\<lambda>_ _ _. True) (\<lambda>_ _. True) (journal_prog cf c) s"
    using keeps_journal [of c cf] journal_rely_trans [of l "cf_sha cf" m] unfolding keeps_def by (blast intro: wp_mono)
  show ?thesis
  proof (cases c)
    case (PrepareDelivery i)
    show ?thesis unfolding PrepareDelivery journal_prog.simps
      by (rule wp_answer [OF prepare_delivery_wp [OF journal_delivery_setting]])
        (use assms in \<open>auto simp: config_ok_def intro: receipt_commit_answer\<close>)
  next
    case (SettleDelivery i)
    show ?thesis unfolding SettleDelivery journal_prog.simps
      by (rule wp_answer [OF settle_delivery_wp [OF journal_delivery_setting]]) (auto intro: receipt_commit_answer)
  next
    case (SettleDeliveryWithHistory i)
    have "wp ?E (\<lambda>s _ s'. \<exists>h. parse_history_input cf i = Inr h \<and> history_commit (cf_sha cf) h s s') (\<lambda>_ _. True)
        (settle_delivery_with_history cf i) s"
      using settle_history_upholds [OF journal_clocked] assms by (simp add: config_ok_def upholds_def)
    then show ?thesis unfolding SettleDeliveryWithHistory journal_prog.simps
      by (rule wp_answer) auto
  qed (rule wp_mono [OF other]; simp)+
qed

lemma journal_meets:
  assumes "allowed cf m c"
  shows "wp (journal_setting l (cf_sha cf) m) (call_commit cf c) (call_answer cf c) (journal_prog cf c) s"
proof -
  let ?E = "journal_setting l (cf_sha cf) m"
  have cf: "config_ok cf" using assms by (simp add: allowed_def)
  have "wp ?E (\<lambda>s _ s'. touches (written_families c) s s') (\<lambda>_ _. True) (journal_prog cf c) s"
    using keeps_journal [of c cf] journal_rely_trans by (simp add: keeps_def)
  moreover have "wp ?E (\<lambda>s _ s'. run_commit (cf_sha cf) (retains c) s s') (\<lambda>_ _. True) (journal_prog cf c) s"
    using journal_upholds [OF journal_clocked [OF cf]] by (simp add: upholds_def)
  ultimately show ?thesis
    by (rule wp_mono [OF wp_conj [OF wp_conj delivery_call_wp [OF cf]]]) (auto simp: call_commit_def)
qed

lemma run_commit_mono: "run_commit sha m s s' \<Longrightarrow> (m \<Longrightarrow> m') \<Longrightarrow> run_commit sha m' s s'"
  by (induction rule: run_commit.induct) (blast intro: run_commit.intros)+

lemma call_receipts:
  assumes "call_commit cf c s p s'"
  shows "receipts_evolve s s'"
proof (cases "FamDelivery \<in> written_families c")
  case False
  then have "\<not> within (written_families c) k" if "in_family FamDelivery k" for k
    using that by (auto simp: within_def dest: in_family_unique)
  then show ?thesis using assms by (intro receipts_frame) (auto simp: call_commit_def touches_def)
next
  case True
  have one: "receipts_evolve s s'" if "receipt_commit fa key s p s'" for fa key
    using that unfolding receipt_commit_def receipts_evolve_def
    by (metis cell_frame r_into_rtranclp rtranclp.rtrancl_refl)
  have "delivery_call cf c s p s'" using assms by (simp add: call_commit_def)
  with True one show ?thesis by (cases c) (auto dest: history_receipts parse_history_ok)
qed

lemma public_runs: "(\<And>k. is_internal_state_key k \<Longrightarrow> lookup s' k = lookup s k) \<Longrightarrow> run_commit sha m s s'"
  by (rule runs_untouched) (auto simp: elsewhere_def within_def dest: family_internal)

section \<open>The pool\<close>

interpretation journal: rely_guarantee "journal_setting l (cf_sha cf) m" "journal_prog cf" "allowed cf m" "call_commit cf"
    "call_answer cf" for l cf m
proof
  fix c s s' p
  show "allowed cf m c \<Longrightarrow> wp (journal_setting l (cf_sha cf) m) (call_commit cf c) (call_answer cf c) (journal_prog cf c) s"
    by (rule journal_meets)
  show "se_rely (journal_setting l (cf_sha cf) m) s s'" if "allowed cf m c" "call_commit cf c s p s'"
  proof -
    have "run_commit (cf_sha cf) m s s'"
      using that by (auto simp: allowed_def call_commit_def intro: run_commit_mono)
    then show ?thesis using call_receipts [OF that(2)] by simp
  qed
next
  fix s s' assume same: "\<And>k. is_internal_state_key k \<Longrightarrow> lookup s' k = lookup s k"
  have "receipts_evolve s s'" by (rule receipts_frame) (simp add: same family_internal)
  moreover have "run_commit (cf_sha cf) m s s'" by (rule public_runs) (rule same)
  ultimately show "se_rely (journal_setting l (cf_sha cf) m) s s'" by auto
next
  show "transp (se_rely (journal_setting l (cf_sha cf) m))" by (rule journal_rely_trans)
next
  fix s s' assume "se_rely (journal_setting l (cf_sha cf) m) s s'"
  then show "se_rely (journal_setting l (cf_sha cf) m) s' s'" by simp
next
  fix c x s s'
  assume q: "call_answer cf c x s" and i: "interf (journal_setting l (cf_sha cf) m) s s'"
  have later: "delivery_answered key a s'" if "delivery_answered key a s" "receipt_of cf c = Some key" for key a
    by (rule delivery_answered_later [OF that(1) receipt_rely [OF journal_delivery_setting i receipt_of_family [OF that(2)]]])
  show "call_answer cf c x s'" using q later by (cases c) auto
qed

end
