(* ===== verification/JournalAnswers.thy ===== *)
theory JournalAnswers
  imports JournalRely
begin

text \<open>
  Two answers of the journal that must be given at most once: the permission to send an attempt of a
  delivery, and the acceptance of a request. Both are instances of \<open>announcing\<close>.
\<close>

lemma mute_answer:
  "mute l (\<lambda>x. A (f x)) (\<lambda>x. C (f x)) p \<Longrightarrow> mute l A C (answer f p)"
proof (induction p)
  case (TransactCall q g)
  have step: "announces l (\<lambda>x. A (f x)) (\<lambda>x. C (f x)) (g r)" for r using TransactCall.prems by simp
  have "announces l A C (answer f (g r))" for r
  proof (cases "\<exists>x. g r = Return x")
    case True
    then show ?thesis by (auto simp: answer_simps)
  next
    case False
    then show ?thesis using TransactCall.IH [of "g r"] step [of r] by (simp add: said_def)
  qed
  moreover have "C y (st_snap st) (st_snap st')"
    if eq: "answer f (g r) = Return y" and "A y" "snapshot_wf l (st_snap st)" "state_transaction_internal l c q st = (r, st')" for y r c st st'
  proof -
    obtain x where "g r = Return x" "y = f x" using eq by (auto simp: answer_Return)
    then show ?thesis using TransactCall.prems that(2-4) by auto
  qed
  moreover have "answer f (TransactCall q g) = TransactCall q (\<lambda>r. answer f (g r))" by (simp add: answer_def)
  ultimately show ?case by simp
qed (auto simp: answer_def)

section \<open>Permissions to send\<close>

definition send_answer :: "journal_call \<Rightarrow> journal_answer \<Rightarrow> bool" where
  "send_answer c x \<longleftrightarrow> (\<exists>i. c = PrepareDelivery i \<or> (\<exists>j. c = SettleDelivery j)) \<and> (\<exists>n t. x = DeliveryAnswer (DeliverySend n t))"

definition same_send :: "config \<Rightarrow> journal_call \<Rightarrow> journal_answer \<Rightarrow> journal_call \<Rightarrow> journal_answer \<Rightarrow> bool" where
  "same_send cf c x d y \<longleftrightarrow> receipt_of cf c = receipt_of cf d
     \<and> (\<exists>n t t'. x = DeliveryAnswer (DeliverySend n t) \<and> y = DeliveryAnswer (DeliverySend n t'))"

definition send_mark :: "config \<Rightarrow> journal_call \<Rightarrow> journal_answer \<Rightarrow> snapshot \<Rightarrow> bool" where
  "send_mark cf c x s \<longleftrightarrow>
     (\<exists>key n t. receipt_of cf c = Some key \<and> x = DeliveryAnswer (DeliverySend n t) \<and> n \<le> attempts_of (receipt_at s key))"

abbreviation is_send :: "delivery_answer \<Rightarrow> bool" where
  "is_send a \<equiv> \<exists>n t. a = DeliverySend n t"

lemma prepare_mute: "mute l is_send (\<lambda>_ _ _. True) (prepare_delivery cf i)"
proof -
  have "mute l is_send (\<lambda>_ _ _. True) (prepare_loop n cf key ident fp ch run)" for n key ident fp ch run
  proof (induction n)
    case (Suc n)
    show ?case
      unfolding prepare_loop.simps claim_absent_def prepare_existing_def expire_intent_def retry_failed_def put_request_def Let_def
      by (intro announced announces_intros Suc.IH) (auto simp: Suc.IH)
  qed simp
  note loop = this
  show ?thesis unfolding prepare_delivery_def by (intro announces_intros loop)
qed

lemma settle_mute: "mute l is_send (\<lambda>_ _ _. True) (settle_delivery cf i)"
  unfolding settle_delivery_def settle_found_def settle_active_def Let_def
  by (intro announces_intros mute_bind) auto

interpretation sends: announcing "journal_setting l (cf_sha cf) m" "journal_prog cf" "allowed cf m" "call_commit cf"
    "call_answer cf" send_answer "\<lambda>_ _ _ _. True" "same_send cf" "send_mark cf" for l cf m
proof
  fix c x s s'
  show "mute (se_limits (journal_setting l (cf_sha cf) m)) (send_answer c) (\<lambda>_ _ _. True) (journal_prog cf c)"
  proof (cases "\<exists>i. c = PrepareDelivery i")
    case True
    then obtain i where c: "c = PrepareDelivery i" by blast
    show ?thesis unfolding c journal_prog.simps
      by (rule mute_answer) (use prepare_mute in \<open>simp add: send_answer_def\<close>)
  next
    case False
    show ?thesis
    proof (cases "\<exists>i. c = SettleDelivery i")
      case True
      then obtain i where c: "c = SettleDelivery i" by blast
      show ?thesis unfolding c journal_prog.simps
        by (rule mute_answer) (use settle_mute in \<open>simp add: send_answer_def\<close>)
    next
      case other: False
      have "mute l (\<lambda>_. False) (\<lambda>_ _ _. True) p" for p :: "journal_answer prog"
        by (induction p) (auto simp: said_def)
      moreover have "send_answer c = (\<lambda>_. False)" using False other by (auto simp: send_answer_def)
      ultimately show ?thesis by simp
    qed
  qed
next
  fix c x s s' assume a: "send_answer c x" and g: "call_commit cf c s (Return x) s'"
  obtain key fa where key: "receipt_of cf c = Some key" and r: "receipt_commit fa key s (Return x) s'"
    using a g by (fastforce simp: send_answer_def call_commit_def)
  obtain n t where x: "x = DeliveryAnswer (DeliverySend n t)" using a by (auto simp: send_answer_def)
  have n: "attempts_of (receipt_at s key) < n" "attempts_of (receipt_at s' key) = n"
    using r x by (auto simp: receipt_commit_def)
  then show "send_mark cf c x s' \<and> (\<forall>d y. send_answer d y \<longrightarrow> send_mark cf d y s \<longrightarrow> \<not> same_send cf c x d y)"
    using key x by (auto simp: send_mark_def same_send_def)
next
  fix c x d y assume "same_send cf c x d y"
  then show "same_send cf d y c x" by (auto simp: same_send_def)
next
  fix c x s s' assume m: "send_mark cf c x s" and i: "interf (journal_setting l (cf_sha cf) m) s s'"
  then obtain key n t where k: "receipt_of cf c = Some key" "x = DeliveryAnswer (DeliverySend n t)"
      "n \<le> attempts_of (receipt_at s key)" by (auto simp: send_mark_def)
  have "attempts_of (receipt_at s key) \<le> attempts_of (receipt_at s' key)"
    by (rule receipt_attempts_mono [OF receipt_rely [OF journal_delivery_setting i receipt_of_family [OF k(1)]]])
  then show "send_mark cf c x s'" using k by (auto simp: send_mark_def)
qed

section \<open>Acceptances\<close>

definition accept_answer :: "journal_call \<Rightarrow> journal_answer \<Rightarrow> bool" where
  "accept_answer c x \<longleftrightarrow> (\<exists>i. c = Admit i) \<and> (\<exists>r. x = AdmitAnswer (AdmissionAccepted r))"

definition accepted_by :: "(string \<Rightarrow> string) \<Rightarrow> journal_answer \<Rightarrow> snapshot \<Rightarrow> snapshot \<Rightarrow> bool" where
  "accepted_by sha x s s' \<longleftrightarrow>
     (\<forall>r. x = AdmitAnswer (AdmissionAccepted r) \<longrightarrow>
        admission_at s (admission_slot (sha (rs_request r))) = Absent \<and> run_at s (run_slot (sha (rs_run r))) = Absent
        \<and> admission_at s' (admission_slot (sha (rs_request r))) \<noteq> Absent \<and> run_at s' (run_slot (sha (rs_run r))) \<noteq> Absent)"

definition same_accept :: "(string \<Rightarrow> string) \<Rightarrow> journal_call \<Rightarrow> journal_answer \<Rightarrow> journal_call \<Rightarrow> journal_answer \<Rightarrow> bool" where
  "same_accept sha c x d y \<longleftrightarrow>
     (\<exists>r r'. x = AdmitAnswer (AdmissionAccepted r) \<and> y = AdmitAnswer (AdmissionAccepted r')
        \<and> (sha (rs_request r) = sha (rs_request r') \<or> sha (rs_run r) = sha (rs_run r')))"

definition accept_mark :: "(string \<Rightarrow> string) \<Rightarrow> journal_call \<Rightarrow> journal_answer \<Rightarrow> snapshot \<Rightarrow> bool" where
  "accept_mark sha c x s \<longleftrightarrow>
     (\<exists>r. x = AdmitAnswer (AdmissionAccepted r) \<and> admission_at s (admission_slot (sha (rs_request r))) \<noteq> Absent
        \<and> run_at s (run_slot (sha (rs_run r))) \<noteq> Absent)"

abbreviation is_accept :: "admission_answer \<Rightarrow> bool" where
  "is_accept a \<equiv> \<exists>r. a = AdmissionAccepted r"

lemma existing_mute: "mute l is_accept C (existing_admission n cf adm conv fp)"
proof (induction n arbitrary: adm)
  case (Suc n)
  have turn: "mute l is_accept C (case n of 0 \<Rightarrow> Throw (PlainError ''stale admission classification did not converge'')
     | Suc m \<Rightarrow> pbind (exec_read parse_admission key) (\<lambda>current. case current of
           None \<Rightarrow> Throw (PlainError ''admission disappeared during stale classification'')
         | Some c \<Rightarrow> existing_admission n cf c conv fp))" for key
  proof (cases n)
    case (Suc m)
    show ?thesis unfolding Suc nat.case by (intro announces_intros mute_bind Suc.IH [unfolded Suc])
  qed simp
  show ?case unfolding existing_admission.simps Let_def classify_stale_def
    by (intro announces_intros mute_bind turn) auto
qed simp

lemma put_present:
  assumes "commits checks (ps @ bs) deletes s1 s2" "rmap encode_put puts = Inr ps" "(key, ev, v) \<in> set puts"
  shows "cell_at parse s2 key \<noteq> Absent"
  using commit_put [OF assms] by (auto simp: cell_absent version_at_def)

lemma accepted_puts:
  assumes "commits checks (ps @ bs) deletes s1 s2" "rmap encode_put ([(akey, None, av), (rkey, None, rv)] @ event @ rest) = Inr ps"
  shows "cell_at parse s1 akey = Absent" "cell_at parse s2 akey \<noteq> Absent"
    "cell_at parse' s1 rkey = Absent" "cell_at parse' s2 rkey \<noteq> Absent"
  using commit_created [OF assms, of akey av] commit_created [OF assms, of rkey rv]
    put_present [OF assms, of akey None av] put_present [OF assms, of rkey None rv] by simp_all

lemma admit_mute: "mute l is_accept (\<lambda>a. accepted_by (cf_sha cf) (AdmitAnswer a)) (admit cf i)"
proof -
  have "mute l is_accept (\<lambda>a. accepted_by (cf_sha cf) (AdmitAnswer a)) (admit_loop n cf akey request conv fp run_v)"
    if akey: "admission_state_key (cf_sha cf) request = Inr akey" for n akey request conv fp run_v
  proof (induction n)
    case (Suc n)
    show ?case unfolding admit_loop.simps admit_new_def
    proof (intro announced announces_intros mute_bind [where p = "choose_run_id v" for v] existing_mute Suc.IH, goal_cases)
      case (3 found run now lease summary rkey event hkey rs ks x ps bs s1 s2)
      then have x: "x = AdmissionAccepted summary" by simp
      have "summary = new_summary run request conv now" using freeze_summary_id [OF _ 3(3)]
        by (auto simp: new_summary_def attempts_ok_def numbered_def)
      then have ids: "rs_request summary = request" "rs_run summary = run" by (simp_all add: new_summary_def)
      have keys: "akey = admission_slot (cf_sha cf request)" "rkey = run_slot (cf_sha cf run)"
        using akey 3(4) by (simp_all add: slot_keys)
      show ?case
        using accepted_puts [OF 3(11,9)] unfolding accepted_by_def x by (auto simp: ids keys)
    qed (simp_all add: tx_result.case)
  qed simp
  note loop = this
  show ?thesis unfolding admit_def by (intro announces_intros loop)
qed

lemma accepted_lasts:
  assumes "run_commit sha False s s'"
  shows "admission_at s (admission_slot q) \<noteq> Absent \<Longrightarrow> admission_at s' (admission_slot q) \<noteq> Absent"
    "run_at s (run_slot d) \<noteq> Absent \<Longrightarrow> run_at s' (run_slot d) \<noteq> Absent"
proof -
  have "(admission_at s (admission_slot q) \<noteq> Absent \<longrightarrow> admission_at s' (admission_slot q) \<noteq> Absent)
     \<and> (run_at s (run_slot d) \<noteq> Absent \<longrightarrow> run_at s' (run_slot d) \<noteq> Absent)"
    using assms
  proof cases
    case runs_untouched
    then show ?thesis using elsewhere_slots(1,3) [of "{}" s s'] by simp
  next
    case (run_admitted request run now conv fingerprint lease)
    then show ?thesis using elsewhere_slots(1) [OF run_admitted(12), of d] elsewhere_slots(3) [OF run_admitted(12), of q]
      by (cases "q = sha request"; cases "d = sha run") auto
  next
    case (run_recorded run r now attempts body)
    then show ?thesis using elsewhere_slots(1) [OF run_recorded(7), of d] elsewhere_slots(3) [OF run_recorded(7), of q]
      by (cases "d = sha run") auto
  next
    case (run_settled run r status akey a now revision failure transcript response)
    then show ?thesis
      using elsewhere_slots(1) [OF run_settled(13), of d] elsewhere_slots(3) [OF run_settled(13), of q] admission_slots [OF run_settled(5)]
      by (cases "d = sha run"; cases "akey = admission_slot q") auto
  next
    case (admission_renewed akey a now lease)
    then show ?thesis
      using elsewhere_slots(1) [OF admission_renewed(5), of d] elsewhere_slots(3) [OF admission_renewed(5), of q] admission_slots [OF admission_renewed(2)]
      by (cases "akey = admission_slot q") auto
  qed simp_all
  then show "admission_at s (admission_slot q) \<noteq> Absent \<Longrightarrow> admission_at s' (admission_slot q) \<noteq> Absent"
    "run_at s (run_slot d) \<noteq> Absent \<Longrightarrow> run_at s' (run_slot d) \<noteq> Absent" by blast+
qed

lemma accept_mark_lasts: "(run_commit sha False)\<^sup>*\<^sup>* s s' \<Longrightarrow> accept_mark sha c x s \<Longrightarrow> accept_mark sha c x s'"
  by (induction rule: rtranclp_induct) (auto simp: accept_mark_def dest: accepted_lasts)

interpretation accepts: announcing "journal_setting l (cf_sha cf) False" "journal_prog cf" "allowed cf False" "call_commit cf"
    "call_answer cf" accept_answer "\<lambda>_. accepted_by (cf_sha cf)" "same_accept (cf_sha cf)" "accept_mark (cf_sha cf)" for l cf
proof
  fix c x s s'
  show "mute (se_limits (journal_setting l (cf_sha cf) False)) (accept_answer c) (accepted_by (cf_sha cf)) (journal_prog cf c)"
  proof (cases "\<exists>i. c = Admit i")
    case True
    then obtain i where c: "c = Admit i" by blast
    show ?thesis unfolding c journal_prog.simps
      by (rule mute_answer) (use admit_mute in \<open>simp add: accept_answer_def\<close>)
  next
    case False
    have "mute l (\<lambda>_. False) C p" for p :: "journal_answer prog" and C
      by (induction p) (auto simp: said_def)
    moreover have "accept_answer c = (\<lambda>_. False)" using False by (auto simp: accept_answer_def)
    ultimately show ?thesis by simp
  qed
next
  fix c x s s' assume a: "accept_answer c x" and g: "accepted_by (cf_sha cf) x s s'"
  then show "accept_mark (cf_sha cf) c x s' \<and>
      (\<forall>d y. accept_answer d y \<longrightarrow> accept_mark (cf_sha cf) d y s \<longrightarrow> \<not> same_accept (cf_sha cf) c x d y)"
    by (auto simp: accept_answer_def accepted_by_def accept_mark_def same_accept_def)
next
  fix c x d y assume "same_accept (cf_sha cf) c x d y"
  then show "same_accept (cf_sha cf) d y c x" by (auto simp: same_accept_def)
next
  fix c x s s' assume "accept_mark (cf_sha cf) c x s" "interf (journal_setting l (cf_sha cf) False) s s'"
  then show "accept_mark (cf_sha cf) c x s'" by (auto simp: interf_def intro: accept_mark_lasts)
qed

end
