(* ===== verification/DeliveryRuns.thy ===== *)
theory DeliveryRuns
  imports CodecProps JournalAnswers
begin

text \<open>
  Runs of journal programs to their answer. \<open>reaches E st p st' p'\<close>: the program \<open>p\<close>, taking its steps
  one after the other on the store, gets from \<open>st\<close> to \<open>st'\<close> with \<open>p'\<close> left. The rules follow a method
  through its awaited calls; with them a delivery is run through claim, failure and retry.
\<close>

section \<open>Runs\<close>

inductive reaches :: "setting \<Rightarrow> store \<Rightarrow> 'a prog \<Rightarrow> store \<Rightarrow> 'a prog \<Rightarrow> bool" for E where
  reach_here: "reaches E st p st p"
| reach_step: "prog_step E st p st1 p1 \<Longrightarrow> reaches E st1 p1 st' p' \<Longrightarrow> reaches E st p st' p'"

lemma reach_lift: "r = Inr x \<Longrightarrow> reaches E st (k x) st' p' \<Longrightarrow> reaches E st (pbind (lift r) k) st' p'"
  by simp

lemma reach_now:
  "se_clock E t \<Longrightarrow> reaches E st (k (to_iso t)) st' p' \<Longrightarrow> reaches E st (pbind journal_now k) st' p'"
  unfolding journal_now_def canonical_instant_def
  by (simp, rule reach_step, rule step_clock_call [where a = "Some t"]) simp_all

lemma reach_token:
  "ident_ok token \<Longrightarrow> reaches E st (k token) st' p' \<Longrightarrow> reaches E st (pbind delivery_token k) st' p'"
  unfolding delivery_token_def
  by (simp, rule reach_step, rule step_generate_call [where v = "JStr token"]) (simp add: parse_evals)

lemma reach_read_absent:
  assumes "state_read_internal c (JStr key) st = (Inr None, st)" "reaches E st (k None) st' p'"
  shows "reaches E st (pbind (exec_read parse key) k) st' p'"
  unfolding exec_read_def pbind.simps
  by (rule reach_step [OF step_read_call [OF assms(1)]]) (simp add: assms(2))

lemma reach_read_present:
  assumes "state_read_internal c (JStr key) st = (Inr (Some rc), st)" "decode_record parse (rc_value rc) = Inr x"
    "reaches E st (k (Some (exec_record_of rc x))) st' p'"
  shows "reaches E st (pbind (exec_read parse key) k) st' p'"
  unfolding exec_read_def pbind.simps
  by (rule reach_step [OF step_read_call [OF assms(1)]]) (simp add: assms(2,3) decode_state_record_def)

lemma reach_put:
  assumes "encode_execution_record v = Inr b"
    "state_transaction_internal (se_limits E) c \<lparr>tq_checks = [], tq_puts = [put_of (key, ev, b)], tq_deletes = []\<rparr> st
       = (Inr (TxApplied rs ks), st1)"
    "reaches E st1 (k (TxApplied rs ks)) st' p'"
  shows "reaches E st (pbind (exec_transaction (put_request key ev v)) k) st' p'"
proof -
  have "pbind (exec_transaction (put_request key ev v)) k =
      TransactCall \<lparr>tq_checks = [], tq_puts = [put_of (key, ev, b)], tq_deletes = []\<rparr> (\<lambda>r. pbind (lift r) k)"
    by (simp add: exec_transaction_def put_request_def execution_transaction_max_mutations_def encode_put_def assms(1))
  moreover have "prog_step E st (TransactCall \<lparr>tq_checks = [], tq_puts = [put_of (key, ev, b)], tq_deletes = []\<rparr> (\<lambda>r. pbind (lift r) k))
      st1 (pbind (lift (Inr (TxApplied rs ks))) k)"
    by (rule step_transact_call [OF assms(2)])
  ultimately show ?thesis using reach_step assms(3) by simp
qed

lemma reach_answer: "reaches E st p st' (Return x) \<Longrightarrow> reaches E st (answer f p) st' (Return (f x))"
proof (induction st p st' "Return x :: 'a prog" rule: reaches.induct)
  case (reach_here st)
  show ?case by (simp add: answer_simps reaches.reach_here)
next
  case (reach_step st p st1 p1 st')
  from reach_step(1) have "prog_step E st (answer f p) st1 (answer f p1)"
    unfolding answer_def by cases (auto intro: prog_step.intros)
  then show ?case using reach_step(3) by (blast intro: reaches.reach_step)
qed

text \<open>In a pool: the call at position \<open>i\<close> runs, the others wait.\<close>

lemma reach_pool:
  assumes "reaches E st p st' p'" "i < length cs" "cs ! i = (c, p)"
  shows "pool_run E start (st, cs) (st', cs[i := (c, p')])"
  using assms
proof (induction arbitrary: cs rule: reaches.induct)
  case (reach_here st p)
  then have "cs[i := (c, p)] = cs" by (metis list_update_id)
  then show ?case by simp
next
  case (reach_step st p st1 p1 st' p')
  have "pool_step E start (st, cs) (st1, cs[i := (c, p1)])"
    using reach_step.hyps(1) reach_step.prems by (blast intro: pool_call)
  moreover have "pool_run E start (st1, cs[i := (c, p1)]) (st', (cs[i := (c, p1)])[i := (c, p')])"
    by (rule reach_step.IH) (use reach_step.prems in auto)
  ultimately show ?case by (simp add: converse_rtranclp_into_rtranclp)
qed

section \<open>A store of one receipt\<close>

definition one_limits :: limits where
  "one_limits = \<lparr>li_record_bytes = 1000000, li_records = 10, li_total_bytes = 10000000\<rparr>"

definition one_call :: call where
  "one_call = \<lparr>ca_aborted = False, ca_guard = None, ca_now = Some 0, ca_commit = CommitOk\<rparr>"

definition one_record :: "nat \<Rightarrow> string \<Rightarrow> stored" where
  "one_record n b = \<lparr>sv_value = b, sv_version = version_text n, sv_updated = to_iso 0\<rparr>"

definition one_store :: "string \<Rightarrow> nat \<Rightarrow> string \<Rightarrow> store" where
  "one_store key n b =
     \<lparr>st_snap = \<lparr>sn_generation = n, sn_list_generation = 0, sn_records = [(key, one_record n b)], sn_total = length b\<rparr>,
      st_closed = False, st_poisoned = False\<rparr>"

definition new_store :: store where
  "new_store = \<lparr>st_snap = empty_snapshot, st_closed = False, st_poisoned = False\<rparr>"

lemma new_read: "validate_execution_state_key (JStr key) = Inr key \<Longrightarrow> state_read_internal one_call (JStr key) new_store = (Inr None, new_store)"
  by (simp add: state_read_internal_def guarded_def run_exclusive_def guard_paths_def one_call_def new_store_def
      find_record_def lookup_def empty_snapshot_def)

lemma one_read:
  "validate_execution_state_key (JStr key) = Inr key \<Longrightarrow>
   state_read_internal one_call (JStr key) (one_store key n b) =
     (Inr (Some (to_state_record key (one_record n b))), one_store key n b)"
  by (simp add: state_read_internal_def guarded_def run_exclusive_def guard_paths_def one_call_def one_store_def
      find_record_def lookup_def)


text \<open>The file of such a store is far below its bound.\<close>

lemma version_texts:
  assumes "n \<in> {1, 2, 3}"
  shows "length (json_quote (version_text n)) \<le> 20" "length (int_text (int n)) \<le> 5" "version_ok (version_text n)"
proof -
  have one: "version_text 1 = ''v1''" "version_text 2 = ''v2''" "version_text 3 = ''v3''"
    "int_text (int 1) = ''1''" "int_text (int 2) = ''2''" "int_text (int 3) = ''3''"
    by code_simp+
  have ok: "version_ok ''v1''" "version_ok ''v2''" "version_ok ''v3''"
    by code_simp+
  show "length (json_quote (version_text n)) \<le> 20"
    using assms json_quote_length [of "version_text n"] one by auto
  show "length (int_text (int n)) \<le> 5" using assms one(4-6) by auto
  show "version_ok (version_text n)" using assms one ok by auto
qed

lemma quoted_names:
  "length (json_quote ''key'') = 5" "length (json_quote ''valueBase64'') = 13" "length (json_quote ''version'') = 9"
  "length (json_quote ''updatedAt'') = 11" "length (json_quote ''schema'') = 8" "length (json_quote ''generation'') = 12"
  "length (json_quote ''listGeneration'') = 16" "length (json_quote ''records'') = 9"
  "length (json_quote ''mono-agent.state-local.v1'') = 27" "length (int_text 0) = 1"
  by (simp_all add: json_quote_def json_escape_def code_of_def int_text_def nat_text.simps)

lemma one_serialized:
  assumes "length key \<le> 500" "length b \<le> 100000" "n \<in> {1, 2, 3}"
  shows "\<exists>f. serialize_snapshot (state_snapshot_byte_limit one_limits) (st_snap (one_store key n b)) = Inr f"
proof -
  have key: "length (json_quote key) \<le> 3002" using json_quote_length [of key] assms(1) by simp
  have "length (b64_encode False b) \<le> 400008"
    using b64_encode_length [of False b] assms(2) by simp
  then have val: "length (json_quote (b64_encode False b)) \<le> 2400050"
    using json_quote_length [of "b64_encode False b"] by simp
  have iso: "length (json_quote (to_iso 0)) \<le> 146" using json_quote_length [of "to_iso 0"] by (simp add: to_iso_epoch)
  have rec: "length (json_text (disk_record (key, one_record n b))) \<le> 2404000"
    using key val iso version_texts(1) [OF assms(3)]
    unfolding disk_record_def one_record_def req_def by (simp add: quoted_names)
  have "length (json_text (JObj (req ''schema'' (JStr ''mono-agent.state-local.v1'')
            @ req ''generation'' (JNum (int n)) @ req ''listGeneration'' (JNum 0)
            @ req ''records'' (JArr [disk_record (key, one_record n b)])))) \<le> 2404200"
    using rec version_texts(2) [OF assms(3)] unfolding req_def by (simp add: quoted_names)
  then show ?thesis
    by (simp add: serialize_snapshot_def one_store_def Let_def state_snapshot_byte_limit_def one_limits_def
        state_key_max_code_units_def)
qed

lemma new_put:
  assumes "validate_execution_state_key (JStr key) = Inr key" "length key \<le> 500" "length b \<le> 100000"
  shows "\<exists>rs. state_transaction_internal one_limits one_call \<lparr>tq_checks = [], tq_puts = [put_of (key, None, b)], tq_deletes = []\<rparr> new_store
    = (Inr (TxApplied rs []), one_store key 1 b)"
proof -
  have n: "normalize_transaction one_limits validate_execution_state_key
      \<lparr>tq_checks = [], tq_puts = [put_of (key, None, b)], tq_deletes = []\<rparr>
      = Inr \<lparr>tn_checks = [], tn_puts = [\<lparr>op_key = key, op_expected = None, op_value = b\<rparr>], tn_deletes = []\<rparr>"
    using assms by (simp add: normalize_transaction_def normalize_key_def clone_transaction_bytes_def put_of_def
        state_transaction_max_entries_def one_limits_def max_safe_integer_def)
  have fits: "\<exists>f. serialize_snapshot (state_snapshot_byte_limit one_limits) (st_snap (one_store key 1 b)) = Inr f"
    using assms by (intro one_serialized) auto
  show ?thesis
    using fits assms(3) unfolding state_transaction_internal_def transaction_with_validator_def n sum.case
    by (auto simp: guarded_def run_exclusive_def guard_paths_def
        one_call_def new_store_def run_plan_def plan_transaction_def tx_conflicts_def tx_expectations_def tx_deleted_def
        empty_snapshot_def lookup_def version_at_def size_at_def canonical_now_def commit_def one_store_def one_record_def
        one_limits_def max_safe_integer_def Let_def List.map_filter_def)
qed

lemma one_put:
  assumes "validate_execution_state_key (JStr key) = Inr key" "length key \<le> 500" "length b \<le> 100000" "length b' \<le> 100000"
    "n \<in> {1, 2}"
  shows "\<exists>rs. state_transaction_internal one_limits one_call
      \<lparr>tq_checks = [], tq_puts = [put_of (key, Some (version_text n), b')], tq_deletes = []\<rparr> (one_store key n b)
    = (Inr (TxApplied rs []), one_store key (n + 1) b')"
proof -
  have v: "version_ok (version_text n)" using assms(5) by (intro version_texts) auto
  have n: "normalize_transaction one_limits validate_execution_state_key
      \<lparr>tq_checks = [], tq_puts = [put_of (key, Some (version_text n), b')], tq_deletes = []\<rparr>
      = Inr \<lparr>tn_checks = [], tn_puts = [\<lparr>op_key = key, op_expected = Some (version_text n), op_value = b'\<rparr>], tn_deletes = []\<rparr>"
    using assms v by (simp add: normalize_transaction_def normalize_key_def clone_transaction_bytes_def put_of_def
        state_transaction_max_entries_def one_limits_def max_safe_integer_def validate_expected_version_def)
  have fits: "\<exists>f. serialize_snapshot (state_snapshot_byte_limit one_limits) (st_snap (one_store key (n + 1) b')) = Inr f"
    using assms by (intro one_serialized) auto
  show ?thesis
    using fits assms(3,4,5) unfolding state_transaction_internal_def transaction_with_validator_def n sum.case
    by (auto simp: guarded_def run_exclusive_def guard_paths_def
        one_call_def run_plan_def plan_transaction_def tx_conflicts_def tx_expectations_def tx_deleted_def
        lookup_def version_at_def size_at_def canonical_now_def commit_def one_store_def one_record_def
        one_limits_def max_safe_integer_def Let_def List.map_filter_def)
qed

section \<open>Claim, failure, retry\<close>

text \<open>The digest of the samples, and the receipt of \<open>d1\<close> in the three states it goes through.\<close>

definition run_config :: config where
  "run_config = \<lparr>cf_sha = sample_sha, cf_stale = 60000, cf_capable = False, cf_release = False\<rparr>"

definition run_key :: string where
  "run_key = prefix_deliveries @ sample_sha ''d1''"

definition claimed :: delivery where
  "claimed = new_delivery ''d1'' sample_digest ''c1'' None ''t1'' (to_iso 0) (to_iso 60000)"

definition failed :: delivery where
  "failed = settled_record claimed DelFailed (to_iso 0) None (Some ''offline'')"

definition retried :: delivery where
  "retried = intent_record failed 2 ''r1'' (to_iso 0) (to_iso 60000)"

definition delivered :: delivery where
  "delivered = settled_record claimed DelDelivered (to_iso 0) (Some ''m1'') None"

definition bytes_of :: "delivery \<Rightarrow> string" where
  "bytes_of d = json_text (encode_delivery d)"

lemma run_key_ok: "validate_execution_state_key (JStr run_key) = Inr run_key" "length run_key \<le> 500"
  "delivery_state_key sample_sha ''d1'' = Inr run_key"
proof -
  show "validate_execution_state_key (JStr run_key) = Inr run_key" by code_simp
  show "length run_key \<le> 500" by (simp add: run_key_def prefix_defs sample_sha_def)
  show "delivery_state_key sample_sha ''d1'' = Inr run_key" by (simp add: key_simps run_key_def)
qed

lemma canonical_lease: "canonical_ts (to_iso 60000)" "canonical_ts (to_iso 0)" "length (to_iso 60000) = 24" "length (to_iso 0) = 24"
  by (simp_all add: four_digit_year_def length_to_iso)

lemma offline_code: "code_ok ''offline''"
  by code_simp

lemma run_deliveries_wf: "wf_delivery claimed" "wf_delivery failed" "wf_delivery retried" "wf_delivery delivered"
  using canonical_lease offline_code
  by (simp_all add: wf_delivery_def claimed_def failed_def retried_def delivered_def new_delivery_def settled_record_def intent_record_def
      history_count_def present_def max_delivery_attempts_def)

lemma json_fields_length:
  "length (json_fields fs) \<le> sum_list (map (\<lambda>(k, v). 6 * length k + length (json_text v) + 4) fs)"
proof (induction fs rule: induct_list012)
  case (2 kv)
  then show ?case using json_quote_length [of "fst kv"] by (simp add: case_prod_beta)
next
  case (3 kv p fs)
  then show ?case using json_quote_length [of "fst kv"] by (simp add: case_prod_beta)
qed simp

lemma delivery_bytes:
  assumes "d \<in> {claimed, failed, retried, delivered}"
  shows "encode_execution_record (encode_delivery d) = Inr (bytes_of d)" "length (bytes_of d) \<le> 100000"
proof -
  have snap: "\<exists>n. snapshot_json (encode_delivery d) ''$'' 0 0 = Inr (encode_delivery d, n)"
    using assms by (auto simp: encode_delivery_def claimed_def failed_def retried_def delivered_def new_delivery_def settled_record_def intent_record_def
        req_def opt_def next_item_def container_guard_def snapshot_leaf_def execution_record_max_items_def execution_record_max_depth_def)
  have q: "length (json_quote sample_digest) \<le> 428" "length (json_quote (to_iso 0)) \<le> 146" "length (json_quote (to_iso 60000)) \<le> 146"
    using json_quote_length [of sample_digest] json_quote_length [of "to_iso 0"] json_quote_length [of "to_iso 60000"] canonical_lease
    by (simp_all add: sample_digest_def)
  have names: "length (json_quote ''mono-agent.delivery'') \<le> 116" "length (json_quote ''d1'') \<le> 14" "length (json_quote ''c1'') \<le> 14"
    "length (json_quote ''t1'') \<le> 14" "length (json_quote ''r1'') \<le> 14" "length (json_quote ''offline'') \<le> 44"
    "length (json_quote ''intent'') \<le> 38" "length (json_quote ''failed'') \<le> 38"
    "length (json_quote ''delivered'') \<le> 56" "length (json_quote ''m1'') \<le> 14" "int_text 1 = ''1''" "int_text 2 = ''2''"
    using json_quote_length [of "''mono-agent.delivery''"] json_quote_length [of "''d1''"] json_quote_length [of "''c1''"]
      json_quote_length [of "''t1''"] json_quote_length [of "''r1''"] json_quote_length [of "''offline''"]
      json_quote_length [of "''intent''"] json_quote_length [of "''failed''"] json_quote_length [of "''delivered''"] json_quote_length [of "''m1''"]
    by (simp_all, code_simp+)
  show len: "length (bytes_of d) \<le> 100000"
  proof -
    obtain fs where fs: "encode_delivery d = JObj fs" by (simp add: encode_delivery_def)
    have "length (bytes_of d) \<le> 2 + sum_list (map (\<lambda>(k, v). 6 * length k + length (json_text v) + 4) fs)"
      using json_fields_length [of fs] by (simp add: bytes_of_def fs)
    also have "\<dots> \<le> 100000"
      using assms q names fs [symmetric]
      by (auto simp: encode_delivery_def claimed_def failed_def retried_def delivered_def new_delivery_def settled_record_def intent_record_def
        req_def opt_def delivery_statuses_def)
    finally show ?thesis .
  qed
  show "encode_execution_record (encode_delivery d) = Inr (bytes_of d)"
    using snap len by (auto simp: encode_execution_record_def bytes_of_def execution_record_max_bytes_def)
qed

definition claim_input :: delivery_input where
  "claim_input = \<lparr>di_key = JStr ''d1'', di_fingerprint = JStr sample_digest, di_channel = JStr ''c1'', di_run = JUndef\<rparr>"

definition fail_input :: settlement_input where
  "fail_input = \<lparr>si_key = JStr ''d1'', si_fingerprint = JStr sample_digest, si_attempt = JNum 1, si_token = JStr ''t1'',
     si_status = AsFailed, si_message = JUndef, si_code = JStr ''offline''\<rparr>"

abbreviation run_setting :: setting where
  "run_setting \<equiv> journal_setting one_limits sample_sha False"

lemma run_clock: "se_clock run_setting 0"
  by (simp add: clock_ok_def four_digit_year_def)

lemma run_lease: "add_milliseconds (to_iso 0) (cf_stale run_config) = Inr (to_iso 60000)"
  using canonical_lease by (simp add: add_milliseconds_def timestamp_ms_def run_config_def parse_evals date_ms_to_iso four_digit_year_def
      max_date_milliseconds_def)

lemma turns: "delivery_retries = Suc 2"
  by (simp add: delivery_retries_def)

lemma run_config_simps [simp]: "cf_sha run_config = sample_sha" "cf_stale run_config = 60000"
  by (simp_all add: run_config_def)

lemma delivery_fields [simp]:
  "de_key claimed = ''d1''" "de_fingerprint claimed = sample_digest" "de_channel claimed = ''c1''" "de_run claimed = None"
  "de_status claimed = DelIntent" "de_attempts claimed = 1" "de_token claimed = ''t1''"
  "de_key failed = ''d1''" "de_fingerprint failed = sample_digest" "de_channel failed = ''c1''" "de_run failed = None"
  "de_status failed = DelFailed" "de_attempts failed = 1" "de_token failed = ''t1''"
  by (simp_all add: failed_def settled_record_def claimed_def new_delivery_def)

lemma claim_run:
  "reaches run_setting new_store (prepare_delivery run_config claim_input) (one_store run_key 1 (bytes_of claimed))
     (Return (DeliverySend 1 ''t1''))"
proof -
  obtain rs where put: "state_transaction_internal one_limits one_call
      \<lparr>tq_checks = [], tq_puts = [put_of (run_key, None, bytes_of claimed)], tq_deletes = []\<rparr> new_store
      = (Inr (TxApplied rs []), one_store run_key 1 (bytes_of claimed))"
    using new_put [OF run_key_ok(1,2) delivery_bytes(2)] by blast
  have "reaches run_setting new_store
      (claim_absent run_config run_key ''d1'' sample_digest ''c1'' None again) (one_store run_key 1 (bytes_of claimed))
      (Return (DeliverySend 1 ''t1''))" for again
    unfolding claim_absent_def
    apply (rule reach_now [OF run_clock])
    apply (rule reach_token [where token = "''t1''"], simp)
    apply (rule reach_lift [OF run_lease])
    apply (rule reach_put [where b = "bytes_of claimed" and c = one_call and rs = rs and ks = "[]"])
      apply (simp add: delivery_bytes(1) flip: claimed_def)
     apply (simp add: put)
    apply (simp add: reach_here)
    done
  then show ?thesis
    unfolding prepare_delivery_def turns prepare_loop.simps
    by (simp add: claim_input_def parse_evals opt_field_def run_key_ok)
      (rule reach_read_absent [OF new_read [OF run_key_ok(1)]], simp)
qed

lemma stored_delivery:
  "d \<in> {claimed, failed, retried, delivered} \<Longrightarrow> decode_record parse_delivery (rc_value (to_state_record key (one_record n (bytes_of d)))) = Inr d"
  using delivery_codec.decoded_encode [OF delivery_bytes(1)] run_deliveries_wf by (auto simp: to_state_record_def one_record_def)

lemma stored_version: "er_version (exec_record_of (to_state_record key (one_record n b)) x) = version_text n"
  "er_value (exec_record_of (to_state_record key (one_record n b)) x) = x"
  by (simp_all add: exec_record_of_def to_state_record_def one_record_def)

lemma fail_run:
  "reaches run_setting (one_store run_key 1 (bytes_of claimed)) (settle_delivery run_config fail_input)
     (one_store run_key 2 (bytes_of failed)) (Return DeliveryJoin)"
proof -
  obtain rs where put: "state_transaction_internal one_limits one_call
      \<lparr>tq_checks = [], tq_puts = [put_of (run_key, Some (version_text 1), bytes_of failed)], tq_deletes = []\<rparr>
      (one_store run_key 1 (bytes_of claimed)) = (Inr (TxApplied rs []), one_store run_key 2 (bytes_of failed))"
    using one_put [OF run_key_ok(1,2) delivery_bytes(2) delivery_bytes(2), of claimed failed 1] by (auto simp: numeral_2_eq_2)
  let ?x = "exec_record_of (to_state_record run_key (one_record 1 (bytes_of claimed))) claimed"
  have "reaches run_setting (one_store run_key 1 (bytes_of claimed)) (settle_active run_key ?x fail_input)
      (one_store run_key 2 (bytes_of failed)) (Return DeliveryJoin)"
    unfolding settle_active_def Let_def
    apply (simp add: fail_input_def parse_evals opt_field_def offline_code stored_version)
    apply (rule reach_now [OF run_clock])
    apply (rule reach_put [where b = "bytes_of failed" and c = one_call and rs = rs and ks = "[]"])
      apply (simp add: delivery_bytes(1) flip: failed_def)
     apply (simp add: put [unfolded One_nat_def])
    apply (simp add: reach_here)
    done
  then have found: "reaches run_setting (one_store run_key 1 (bytes_of claimed))
      (settle_found run_key ''d1'' sample_digest 1 ''t1'' fail_input (Some ?x)) (one_store run_key 2 (bytes_of failed)) (Return DeliveryJoin)"
    by (simp add: settle_found_def Let_def stored_version assert_delivery_key_authority_def require_def)
  have parsed: "bounded_identifier ''idempotencyKey'' (si_key fail_input) = Inr ''d1''"
    "parse_fingerprint ''fingerprint'' (si_fingerprint fail_input) = Inr sample_digest"
    "bounded_integer ''attempt'' 1 max_delivery_attempts (si_attempt fail_input) = Inr 1"
    "bounded_identifier ''delivery attempt token'' (si_token fail_input) = Inr ''t1''"
    "delivery_state_key (cf_sha run_config) ''d1'' = Inr run_key"
    by (simp_all add: fail_input_def parse_evals run_key_ok bounded_integer_def max_delivery_attempts_def)
  show ?thesis
    unfolding settle_delivery_def
    by (intro reach_lift [OF parsed(1)] reach_lift [OF parsed(2)] reach_lift [OF parsed(3)] reach_lift [OF parsed(4)]
        reach_lift [OF parsed(5)] reach_read_present [OF one_read [OF run_key_ok(1)] stored_delivery] found) simp
qed

definition deliver_input :: settlement_input where
  "deliver_input = \<lparr>si_key = JStr ''d1'', si_fingerprint = JStr sample_digest, si_attempt = JNum 1, si_token = JStr ''t1'',
     si_status = AsDelivered, si_message = JStr ''m1'', si_code = JUndef\<rparr>"

lemma deliver_run:
  "reaches run_setting (one_store run_key 1 (bytes_of claimed)) (settle_delivery run_config deliver_input)
     (one_store run_key 2 (bytes_of delivered)) (Return (DeliveryDuplicate (Some ''m1'')))"
proof -
  obtain rs where put: "state_transaction_internal one_limits one_call
      \<lparr>tq_checks = [], tq_puts = [put_of (run_key, Some (version_text 1), bytes_of delivered)], tq_deletes = []\<rparr>
      (one_store run_key 1 (bytes_of claimed)) = (Inr (TxApplied rs []), one_store run_key 2 (bytes_of delivered))"
    using one_put [OF run_key_ok(1,2) delivery_bytes(2) delivery_bytes(2), of claimed delivered 1] by (auto simp: numeral_2_eq_2)
  let ?x = "exec_record_of (to_state_record run_key (one_record 1 (bytes_of claimed))) claimed"
  have "reaches run_setting (one_store run_key 1 (bytes_of claimed)) (settle_active run_key ?x deliver_input)
      (one_store run_key 2 (bytes_of delivered)) (Return (DeliveryDuplicate (Some ''m1'')))"
    unfolding settle_active_def Let_def
    apply (simp add: deliver_input_def parse_evals opt_field_def stored_version)
    apply (rule reach_now [OF run_clock])
    apply (rule reach_put [where b = "bytes_of delivered" and c = one_call and rs = rs and ks = "[]"])
      apply (simp add: delivery_bytes(1) flip: delivered_def)
     apply (simp add: put [unfolded One_nat_def])
    apply (simp add: reach_here)
    done
  then have found: "reaches run_setting (one_store run_key 1 (bytes_of claimed))
      (settle_found run_key ''d1'' sample_digest 1 ''t1'' deliver_input (Some ?x)) (one_store run_key 2 (bytes_of delivered))
      (Return (DeliveryDuplicate (Some ''m1'')))"
    by (simp add: settle_found_def Let_def stored_version assert_delivery_key_authority_def require_def)
  have parsed: "bounded_identifier ''idempotencyKey'' (si_key deliver_input) = Inr ''d1''"
    "parse_fingerprint ''fingerprint'' (si_fingerprint deliver_input) = Inr sample_digest"
    "bounded_integer ''attempt'' 1 max_delivery_attempts (si_attempt deliver_input) = Inr 1"
    "bounded_identifier ''delivery attempt token'' (si_token deliver_input) = Inr ''t1''"
    "delivery_state_key (cf_sha run_config) ''d1'' = Inr run_key"
    by (simp_all add: deliver_input_def parse_evals run_key_ok bounded_integer_def max_delivery_attempts_def)
  show ?thesis
    unfolding settle_delivery_def
    by (intro reach_lift [OF parsed(1)] reach_lift [OF parsed(2)] reach_lift [OF parsed(3)] reach_lift [OF parsed(4)]
        reach_lift [OF parsed(5)] reach_read_present [OF one_read [OF run_key_ok(1)] stored_delivery] found) simp
qed

lemma retry_run:
  "reaches run_setting (one_store run_key 2 (bytes_of failed)) (prepare_delivery run_config claim_input)
     (one_store run_key 3 (bytes_of retried)) (Return (DeliverySend 2 ''r1''))"
proof -
  obtain rs where put: "state_transaction_internal one_limits one_call
      \<lparr>tq_checks = [], tq_puts = [put_of (run_key, Some (version_text 2), bytes_of retried)], tq_deletes = []\<rparr>
      (one_store run_key 2 (bytes_of failed)) = (Inr (TxApplied rs []), one_store run_key 3 (bytes_of retried))"
    using one_put [OF run_key_ok(1,2) delivery_bytes(2) delivery_bytes(2), of failed retried 2] by (auto simp: numeral_3_eq_3)
  let ?x = "exec_record_of (to_state_record run_key (one_record 2 (bytes_of failed))) failed"
  have "reaches run_setting (one_store run_key 2 (bytes_of failed)) (retry_failed run_config run_key ?x again)
      (one_store run_key 3 (bytes_of retried)) (Return (DeliverySend 2 ''r1''))" for again
    unfolding retry_failed_def
    apply (rule reach_now [OF run_clock])
    apply (rule reach_token [where token = "''r1''"], simp)
    apply (rule reach_lift [OF run_lease])
    apply (rule reach_put [where b = "bytes_of retried" and c = one_call and rs = rs and ks = "[]"])
      apply (use delivery_bytes(1) [of retried] in \<open>simp add: retried_def numeral_2_eq_2 stored_version\<close>)
     apply (simp add: put stored_version)
    apply (simp add: reach_here stored_version numeral_2_eq_2)
    done
  then show ?thesis
    unfolding prepare_delivery_def turns prepare_loop.simps
    by (simp add: claim_input_def parse_evals opt_field_def run_key_ok)
      (rule reach_read_present [OF one_read [OF run_key_ok(1)] stored_delivery];
        simp add: prepare_existing_def Let_def stored_version assert_delivery_key_authority_def require_def)
qed

end
