(* ===== verification/RunRuns.thy ===== *)
theory RunRuns
  imports DeliveryRuns ConvProps
begin

text \<open>
  A request is admitted on a new store: the run of \<open>admit\<close> to its acceptance, by the rules of
  \<open>DeliveryRuns\<close>.
\<close>

section \<open>Four records at once\<close>

lemma nat_text_length: "length (nat_text n) \<le> n + 1"
proof (induction n rule: nat_text.induct)
  case (1 n)
  then show ?case by (subst nat_text.simps) (auto intro: le_trans)
qed

definition small :: "string \<times> stored \<Rightarrow> bool" where
  "small kv \<longleftrightarrow> length (fst kv) \<le> 500 \<and> length (sv_value (snd kv)) \<le> 20000 \<and> length (sv_version (snd kv)) \<le> 100
     \<and> length (sv_updated (snd kv)) \<le> 100"

lemma small_record:
  assumes "small kv"
  shows "length (json_text (disk_record kv)) \<le> 500000"
proof -
  have parts: "length (json_quote (fst kv)) \<le> 3002" "length (json_quote (sv_version (snd kv))) \<le> 602"
    "length (json_quote (sv_updated (snd kv))) \<le> 602"
    using assms json_quote_length [of "fst kv"] json_quote_length [of "sv_version (snd kv)"] json_quote_length [of "sv_updated (snd kv)"]
    by (simp_all add: small_def)
  have "(length (sv_value (snd kv)) + 2) div 3 \<le> 20002 div 3"
    using assms by (intro div_le_mono) (simp add: small_def)
  moreover have "20002 div 3 = (6667::nat)" by simp
  ultimately have b64:  "length (json_quote (b64_encode False (sv_value (snd kv)))) \<le> 160010"
    using b64_encode_length [of False "sv_value (snd kv)"] json_quote_length [of "b64_encode False (sv_value (snd kv))"] by linarith
  show ?thesis using parts b64 unfolding disk_record_def req_def by (simp add: quoted_names)
qed

lemma json_items_length: "(\<forall>x \<in> set xs. length (json_text x) \<le> n) \<Longrightarrow> length (json_items xs) \<le> length xs * (n + 1)"
  by (induction xs rule: induct_list012) auto

lemma small_serialized:
  assumes "\<forall>kv \<in> set (sn_records s). small kv" "length (sn_records s) \<le> 8" "sn_generation s \<le> 100" "sn_list_generation s = 0"
  shows "\<exists>f. serialize_snapshot (state_snapshot_byte_limit one_limits) s = Inr f"
proof -
  let ?rs = "map disk_record (sort_key (\<lambda>kv. text_order (fst kv)) (sn_records s))"
  have "length (json_items ?rs) \<le> length ?rs * (500000 + 1)"
    by (rule json_items_length) (use assms(1) small_record in auto)
  then have "length (json_items ?rs) \<le> 8 * 500001" using assms(2) by simp
  moreover have "length (int_text (int (sn_generation s))) \<le> 101"
    using nat_text_length [of "sn_generation s"] assms(3) by (simp add: int_text_def)
  ultimately have "length (json_text (JObj (req ''schema'' (JStr ''mono-agent.state-local.v1'')
            @ req ''generation'' (JNum (int (sn_generation s))) @ req ''listGeneration'' (JNum 0)
            @ req ''records'' (JArr ?rs)))) \<le> 4000300"
    unfolding req_def by (simp add: quoted_names)
  then show ?thesis using assms(4)
    by (simp add: serialize_snapshot_def Let_def state_snapshot_byte_limit_def one_limits_def state_key_max_code_units_def)
qed

lemma four_puts:
  assumes "\<forall>k \<in> {k1, k2, k3, k4}. validate_execution_state_key (JStr k) = Inr k \<and> length k \<le> 500"
    "\<forall>b \<in> {b1, b2, b3, b4}. length b \<le> 20000" "distinct [k1, k2, k3, k4]"
  shows "\<exists>rs st'. state_transaction_internal one_limits one_call
      \<lparr>tq_checks = [], tq_puts = map put_of [(k1, None, b1), (k2, None, b2), (k3, None, b3), (k4, None, b4)], tq_deletes = []\<rparr> new_store
    = (Inr (TxApplied rs []), st')"
proof -
  let ?ops = "[\<lparr>op_key = k1, op_expected = None, op_value = b1\<rparr>, \<lparr>op_key = k2, op_expected = None, op_value = b2\<rparr>,
      \<lparr>op_key = k3, op_expected = None, op_value = b3\<rparr>, \<lparr>op_key = k4, op_expected = None, op_value = b4\<rparr>] :: put_op list"
  have n: "normalize_transaction one_limits validate_execution_state_key
      \<lparr>tq_checks = [], tq_puts = map put_of [(k1, None, b1), (k2, None, b2), (k3, None, b3), (k4, None, b4)], tq_deletes = []\<rparr>
      = Inr \<lparr>tn_checks = [], tn_puts = ?ops, tn_deletes = []\<rparr>"
    using assms by (simp add: normalize_transaction_def normalize_key_def clone_transaction_bytes_def put_of_def
        state_transaction_max_entries_def one_limits_def max_safe_integer_def)
  have v: "length (version_text i) \<le> 100" if "i \<le> 4" for i
    using nat_text_length [of i] that by (simp add: version_text_def)
  let ?s = "\<lparr>sn_generation = Suc (Suc (Suc (Suc 0))), sn_list_generation = 0,
    sn_records = [(k1, one_record (Suc 0) b1), (k2, one_record (Suc (Suc 0)) b2), (k3, one_record (Suc (Suc (Suc 0))) b3),
      (k4, one_record (Suc (Suc (Suc (Suc 0)))) b4)], sn_total = length b1 + (length b2 + (length b3 + length b4))\<rparr>"
  have "small (k, one_record i b)" if "k \<in> {k1, k2, k3, k4}" "b \<in> {b1, b2, b3, b4}" "i \<le> 4" for k b i
    using assms(1,2) that v [OF that(3)] by (auto simp: small_def one_record_def to_iso_epoch)
  then have "\<exists>f. serialize_snapshot (state_snapshot_byte_limit one_limits) ?s = Inr f"
    by (intro small_serialized) simp_all
  then show ?thesis
    using assms(2,3) unfolding state_transaction_internal_def transaction_with_validator_def n sum.case
    by (auto simp: guarded_def run_exclusive_def guard_paths_def
        one_call_def new_store_def run_plan_def plan_transaction_def tx_conflicts_def tx_expectations_def tx_deleted_def
        empty_snapshot_def lookup_def version_at_def size_at_def canonical_now_def commit_def one_record_def
        one_limits_def max_safe_integer_def Let_def List.map_filter_def)
qed

section \<open>An accepted request\<close>

definition admit_sample :: admit_input where
  "admit_sample = \<lparr>ai_request = JStr ''r1'', ai_conv = JStr ''conv-1'', ai_fingerprint = JStr sample_digest, ai_run = JStr ''d1''\<rparr>"

definition sample_summary :: run_summary where
  "sample_summary = new_summary ''d1'' ''r1'' ''conv-1'' (to_iso 0)"

definition sample_admission :: admission where
  "sample_admission = new_admission ''r1'' ''conv-1'' sample_digest ''d1'' (to_iso 0) (to_iso 60000)"

abbreviation sample_event :: run_event where
  "sample_event \<equiv> \<lparr>ev_run = ''d1'', ev_seq = 0, ev_at = to_iso 0, ev_body = Admitted\<rparr>"

abbreviation sample_digits :: string where
  "sample_digits \<equiv> sample_sha ''d1''"

lemma sample_keys:
  "validate_execution_state_key (JStr (admission_slot sample_digits)) = Inr (admission_slot sample_digits)"
  "validate_execution_state_key (JStr (run_slot sample_digits)) = Inr (run_slot sample_digits)"
  "validate_execution_state_key (JStr (event_slot sample_digits 0)) = Inr (event_slot sample_digits 0)"
  "validate_execution_state_key (JStr (history_slot sample_time sample_digits)) = Inr (history_slot sample_time sample_digits)"
proof -
  have step: "fixed_text (numeral k) n = fixed_text (pred_numeral k) (n div 10) @ [digit_char n]" for k n
    by (subst numeral_eq_Suc) (simp only: fixed_text.simps)
  have digits: "char_of (48 :: nat) = CHR ''0''" "char_of (52 :: nat) = CHR ''4''" "char_of (54 :: nat) = CHR ''6''"
    "char_of (56 :: nat) = CHR ''8''" by code_simp+
  have "fixed_text 16 8640000000000000 = ''8640000000000000''"
    by (simp add: step digit_char_def digits)
  then have h: "history_slot sample_time sample_digits = prefix_history @ ''8640000000000000'' @ ''/'' @ sample_digits"
    by (simp add: history_slot_def max_date_milliseconds_def date_ms_samples)
  show "validate_execution_state_key (JStr (admission_slot sample_digits)) = Inr (admission_slot sample_digits)" by code_simp
  show "validate_execution_state_key (JStr (run_slot sample_digits)) = Inr (run_slot sample_digits)" by code_simp
  show "validate_execution_state_key (JStr (event_slot sample_digits 0)) = Inr (event_slot sample_digits 0)" by code_simp
  show "validate_execution_state_key (JStr (history_slot sample_time sample_digits)) = Inr (history_slot sample_time sample_digits)"
    unfolding h by code_simp
qed

definition cost :: "(string \<times> js) list \<Rightarrow> nat" where
  "cost fs = 2 + sum_list (map (\<lambda>(k, v). 6 * length k + length (json_text v) + 4) fs)"

lemma object_length: "length (json_text (JObj fs)) \<le> cost fs"
  using json_fields_length [of fs] by (simp add: cost_def)

lemma quoted_samples:
  "length (json_quote sample_digest) \<le> 428" "length (json_quote (to_iso 0)) \<le> 146" "length (json_quote (to_iso 60000)) \<le> 146"
  "length (json_quote ''d1'') \<le> 14" "length (json_quote ''r1'') \<le> 14" "length (json_quote ''conv-1'') \<le> 38"
  "length (json_quote ''running'') \<le> 44" "length (json_quote ''admitted'') \<le> 50" "length (json_quote ''mono-agent.admission'') \<le> 122"
  "length (json_quote ''mono-agent.run'') \<le> 86" "length (json_quote ''mono-agent.run-event'') \<le> 122"
  "length (json_quote ''mono-agent.run-history'') \<le> 134"
  using json_quote_length [of sample_digest] json_quote_length [of "to_iso 0"] json_quote_length [of "to_iso 60000"] canonical_lease
    json_quote_length [of "''d1''"] json_quote_length [of "''r1''"] json_quote_length [of "''conv-1''"]
    json_quote_length [of "''running''"] json_quote_length [of "''admitted''"] json_quote_length [of "''mono-agent.admission''"]
    json_quote_length [of "''mono-agent.run''"] json_quote_length [of "''mono-agent.run-event''"] json_quote_length [of "''mono-agent.run-history''"]
  by (simp_all add: sample_digest_def)

lemma quoted_numbers: "length (int_text 1) = 1" "length (int_text 0) = 1"
  by (simp_all add: int_text_def nat_text.simps)

abbreviation sample_stored :: stored_run where
  "sample_stored \<equiv> \<lparr>sr_summary = sample_summary, sr_event_count = 1, sr_transcript = None\<rparr>"

abbreviation sample_history :: run_history where
  "sample_history \<equiv> \<lparr>rh_run = ''d1'', rh_started = to_iso 0\<rparr>"

lemma encoded:
  assumes "snapshot_json v ''$'' 0 0 = Inr (v, n)" "length (json_text v) \<le> 20000"
  shows "encode_execution_record v = Inr (json_text v) \<and> length (json_text v) \<le> 20000"
  using assms by (simp add: encode_execution_record_def execution_record_max_bytes_def)

lemma sample_bytes:
  "\<exists>b. encode_execution_record (encode_admission sample_admission) = Inr b \<and> length b \<le> 20000"
  "\<exists>b. encode_execution_record (encode_stored_run sample_stored) = Inr b \<and> length b \<le> 20000"
  "\<exists>b. encode_execution_record (encode_stored_event sample_event) = Inr b \<and> length b \<le> 20000"
  "\<exists>b. encode_execution_record (encode_run_history sample_history) = Inr b \<and> length b \<le> 20000"
proof -
  note defs = req_def opt_def encode_admission_def sample_admission_def new_admission_def encode_stored_run_def encode_summary_def
    sample_summary_def new_summary_def encode_stored_event_def encode_event_def event_base_def encode_run_history_def status_text_def
  note walk = next_item_def container_guard_def snapshot_leaf_def execution_record_max_items_def execution_record_max_depth_def
  note lengths = quoted_samples quoted_numbers
  have "\<exists>n. snapshot_json (encode_admission sample_admission) ''$'' 0 0 = Inr (encode_admission sample_admission, n)"
    by (simp add: defs walk)
  moreover have "length (json_text (encode_admission sample_admission)) \<le> 20000"
    using lengths unfolding defs by (intro order_trans [OF object_length]) (simp add: cost_def admission_statuses_def)
  ultimately show "\<exists>b. encode_execution_record (encode_admission sample_admission) = Inr b \<and> length b \<le> 20000"
    using encoded by blast
  have "length (json_text (encode_summary sample_summary)) \<le> 5000"
    using lengths unfolding defs by (intro order_trans [OF object_length]) (simp add: cost_def run_statuses_def)
  then have "length (json_text (encode_stored_run sample_stored)) \<le> 20000"
    unfolding encode_stored_run_def stored_run.simps req_def opt_def
    using lengths by (intro order_trans [OF object_length]) (simp add: cost_def)
  moreover have "\<exists>n. snapshot_json (encode_stored_run sample_stored) ''$'' 0 0 = Inr (encode_stored_run sample_stored, n)"
    by (simp add: defs walk)
  ultimately show "\<exists>b. encode_execution_record (encode_stored_run sample_stored) = Inr b \<and> length b \<le> 20000"
    using encoded by blast
  have "length (json_text (encode_event sample_event)) \<le> 5000"
    using lengths unfolding defs run_event.simps event_body.case by (intro order_trans [OF object_length]) (simp add: cost_def)
  then have "length (json_text (encode_stored_event sample_event)) \<le> 20000"
    unfolding encode_stored_event_def req_def opt_def
    using lengths by (intro order_trans [OF object_length]) (simp add: cost_def)
  moreover have "\<exists>n. snapshot_json (encode_stored_event sample_event) ''$'' 0 0 = Inr (encode_stored_event sample_event, n)"
    by (simp add: defs walk)
  ultimately show "\<exists>b. encode_execution_record (encode_stored_event sample_event) = Inr b \<and> length b \<le> 20000"
    using encoded by blast
  have "length (json_text (encode_run_history sample_history)) \<le> 20000"
    using lengths unfolding defs by (intro order_trans [OF object_length]) (simp add: cost_def)
  moreover have "\<exists>n. snapshot_json (encode_run_history sample_history) ''$'' 0 0 = Inr (encode_run_history sample_history, n)"
    by (simp add: defs walk)
  ultimately show "\<exists>b. encode_execution_record (encode_run_history sample_history) = Inr b \<and> length b \<le> 20000"
    using encoded by blast
qed

text \<open>The puts of an acceptance, as \<open>exec_transaction\<close> sends them.\<close>

lemma reach_transaction:
  assumes "rmap encode_put puts = Inr ps" "length puts \<le> execution_transaction_max_mutations"
    "state_transaction_internal (se_limits E) c \<lparr>tq_checks = [], tq_puts = map put_of ps, tq_deletes = []\<rparr> st
       = (Inr (TxApplied rs ks), st1)"
    "reaches E st1 (k (TxApplied rs ks)) st' p'"
  shows "reaches E st (pbind (exec_transaction \<lparr>xq_checks = [], xq_puts = puts, xq_byte_puts = [], xq_deletes = []\<rparr>) k) st' p'"
proof -
  have "pbind (exec_transaction \<lparr>xq_checks = [], xq_puts = puts, xq_byte_puts = [], xq_deletes = []\<rparr>) k =
      TransactCall \<lparr>tq_checks = [], tq_puts = map put_of ps, tq_deletes = []\<rparr> (\<lambda>r. pbind (lift r) k)"
    using assms(2) by (simp add: exec_transaction_def assms(1))
  moreover have "prog_step E st (TransactCall \<lparr>tq_checks = [], tq_puts = map put_of ps, tq_deletes = []\<rparr> (\<lambda>r. pbind (lift r) k))
      st1 (pbind (lift (Inr (TxApplied rs ks))) k)"
    by (rule step_transact_call [OF assms(3)])
  ultimately show ?thesis using reach_step assms(4) by simp
qed

lemma sample_key_lengths:
  "length (admission_slot sample_digits) \<le> 500" "length (run_slot sample_digits) \<le> 500"
  "length (event_slot sample_digits 0) \<le> 500" "length (history_slot sample_time sample_digits) \<le> 500"
  by (simp_all add: admission_slot_def run_slot_def event_slot_def history_slot_def prefix_defs sample_sha_def)

lemma admit_run:
  "\<exists>st'. reaches run_setting new_store (admit run_config admit_sample) st' (Return (AdmissionAccepted sample_summary))"
proof -
  let ?a = "admission_slot sample_digits" and ?r = "run_slot sample_digits" and ?e = "event_slot sample_digits 0"
    and ?h = "history_slot sample_time sample_digits"
  obtain b1 b2 b3 b4 where b: "encode_execution_record (encode_admission sample_admission) = Inr b1" "length b1 \<le> 20000"
      "encode_execution_record (encode_stored_run sample_stored) = Inr b2" "length b2 \<le> 20000"
      "encode_execution_record (encode_stored_event sample_event) = Inr b3" "length b3 \<le> 20000"
      "encode_execution_record (encode_run_history sample_history) = Inr b4" "length b4 \<le> 20000"
    using sample_bytes by blast
  let ?ps = "[(?a, None, b1), (?r, None, b2), (?e, None, b3), (?h, None, b4)]"
  have "\<exists>rs st'. state_transaction_internal one_limits one_call \<lparr>tq_checks = [], tq_puts = map put_of ?ps, tq_deletes = []\<rparr> new_store
      = (Inr (TxApplied rs []), st')"
    by (rule four_puts) (use sample_keys sample_key_lengths b in auto)
  then obtain rs st' where put: "state_transaction_internal one_limits one_call \<lparr>tq_checks = [], tq_puts = map put_of ?ps, tq_deletes = []\<rparr> new_store
      = (Inr (TxApplied rs []), st')" by blast
  have conv: "conv_id_ok ''conv-1''"
    using sample_transcript_wf by (simp add: wf_transcript_def sample_transcript_def)
  have wf: "wf_summary sample_summary"
    using canonical_lease conv by (simp add: sample_summary_def new_summary_def wf_summary_def numbered_def)
  have wfe: "wf_event sample_event"
    using canonical_lease by (simp add: wf_event_def run_max_events_def)
  have event: "event_puts run_config sample_event = Inr [(?e, None, encode_stored_event sample_event)]"
    unfolding event_puts_def event_record_wf [OF wfe] by (simp add: slot_keys(2) [THEN iffD2] rbind_Inr_iff sample_sha_def)
  have parsed: "bounded_identifier ''requestId'' (ai_request admit_sample) = Inr ''r1''"
    "bounded_conversation_id ''conversationId'' (ai_conv admit_sample) = Inr ''conv-1''"
    "parse_fingerprint ''fingerprint'' (ai_fingerprint admit_sample) = Inr sample_digest"
    "admission_state_key (cf_sha run_config) ''r1'' = Inr ?a"
    "freeze_summary (new_summary ''d1'' ''r1'' ''conv-1'' (to_iso 0)) = Inr sample_summary"
    "run_state_key (cf_sha run_config) ''d1'' = Inr ?r"
    "run_history_state_key (cf_sha run_config) (to_iso 0) ''d1'' = Inr ?h"
    using conv canonical_lease freeze_summary_wf [OF wf]
    by (simp_all add: admit_sample_def parse_evals slot_keys sample_sha_def sample_summary_def) (simp add: to_iso_epoch)
  have run: "reaches E st (k ''d1'') st2 p2 \<Longrightarrow> reaches E st (pbind (choose_run_id (ai_run admit_sample)) k) st2 p2" for E st k st2 p2
    by (simp add: choose_run_id_def admit_sample_def parse_evals)
  let ?puts = "[(?a, None, encode_admission sample_admission), (?r, None, encode_stored_run sample_stored)]
      @ [(?e, None, encode_stored_event sample_event)] @ [(?h, None, encode_run_history sample_history)]"
  have encoded: "rmap encode_put ?puts = Inr ?ps" by (simp add: encode_put_def b [unfolded One_nat_def])
  have "reaches run_setting new_store
      (admit_new run_config ?a ''r1'' ''conv-1'' sample_digest (ai_run admit_sample) again) st' (Return (AdmissionAccepted sample_summary))" for again
    unfolding admit_new_def
    apply (intro run reach_now [OF run_clock] reach_lift [OF run_lease] reach_lift [OF parsed(5)] reach_lift [OF parsed(6)]
        reach_lift [OF event] reach_lift [OF parsed(7)])
    apply (rule reach_transaction [where c = one_call and rs = rs and ks = "[]", OF encoded [unfolded sample_admission_def]])
      apply (simp add: execution_transaction_max_mutations_def)
     apply (use put in simp)
    apply (simp add: reach_here)
    done
  then show ?thesis
    unfolding admit_def admission_turns_def
    by (intro exI [where x = st'] reach_lift [OF parsed(1)] reach_lift [OF parsed(2)] reach_lift [OF parsed(3)] reach_lift [OF parsed(4)])
      (simp add: numeral_3_eq_3, rule reach_read_absent [OF new_read], simp_all add: sample_keys)
qed

end
