(* ===== verification/PoolProps.thy ===== *)
theory PoolProps
  imports RunRuns
begin

text \<open>
  What holds of the journal as a whole: any number of its calls at once, on one store that other code
  uses through the public interface, over any interleaving of their steps.
\<close>

section \<open>Pools of calls\<close>

text \<open>\<open>P\<close> came about by running calls of the journal from the store \<open>st\<close>; only with \<open>m\<close> is the
  retention pass among them.\<close>

definition served :: "limits \<Rightarrow> config \<Rightarrow> bool \<Rightarrow> store \<Rightarrow> (journal_call, journal_answer) pool \<Rightarrow> bool" where
  "served l cf m st P \<longleftrightarrow>
     snapshot_wf l (st_snap st) \<and> config_ok cf
     \<and> pool_run (journal_setting l (cf_sha cf) m) (journal_prog cf) (st, []) P
     \<and> (\<forall>(c, p) \<in> set (snd P). retains c \<longrightarrow> m)"

definition later :: "limits \<Rightarrow> config \<Rightarrow> bool \<Rightarrow> (journal_call, journal_answer) pool \<Rightarrow> (journal_call, journal_answer) pool \<Rightarrow> bool" where
  "later l cf m P P' \<longleftrightarrow> pool_run (journal_setting l (cf_sha cf) m) (journal_prog cf) P P' \<and> (\<forall>(c, p) \<in> set (snd P'). retains c \<longrightarrow> m)"

abbreviation calls_step :: "limits \<Rightarrow> config \<Rightarrow> bool \<Rightarrow> (journal_call, journal_answer) pool \<Rightarrow> (journal_call, journal_answer) pool \<Rightarrow> bool" where
  "calls_step l cf m \<equiv> pool_step (journal_setting l (cf_sha cf) m) (journal_prog cf)"

lemma served_run:
  assumes "served l cf m st P"
  shows "(calls_step l cf m)\<^sup>*\<^sup>* (st, []) P" "\<forall>(c, p) \<in> set (snd P). allowed cf m c"
    "interf (journal_setting l (cf_sha cf) m) (st_snap st) (st_snap st)"
  using assms by (auto simp: served_def allowed_def interf_def evolves_refl)

lemma served_sound:
  assumes "served l cf m st P"
  shows "journal.sound l cf m P"
  by (rule journal.sound_run [OF served_run(1) [OF assms] journal.sound_empty [OF served_run(3) [OF assms]] served_run(2) [OF assms]])

lemma served_later: "served l cf m st P \<Longrightarrow> later l cf m P P' \<Longrightarrow> served l cf m st P'"
  by (auto simp: served_def later_def)

lemma served_interf:
  assumes "served l cf m st P"
  shows "interf (journal_setting l (cf_sha cf) m) (st_snap st) (st_snap (fst P))"
  using journal.run_interf [OF served_run(1) [OF assms] journal.sound_empty [OF served_run(3) [OF assms]] served_run(2) [OF assms]]
  by simp

lemma later_interf:
  assumes "served l cf m st P" "later l cf m P P'"
  shows "interf (journal_setting l (cf_sha cf) m) (st_snap (fst P)) (st_snap (fst P'))"
proof -
  have "(calls_step l cf m)\<^sup>*\<^sup>* P P'" using assms(2) by (simp add: later_def)
  from journal.run_interf [OF this served_sound [OF assms(1)] served_run(2) [OF served_later [OF assms]]] show ?thesis .
qed

lemma served_tidy:
  assumes "served l cf m st P"
  shows "sends.tidy l cf m P"
  by (rule sends.tidy_run [OF served_run(1) [OF assms] journal.sound_empty [OF served_run(3) [OF assms]] sends.tidy_empty served_run(2) [OF assms]])

text \<open>Induction over what happens after \<open>P\<close>.\<close>

lemma later_induct [consumes 2, case_names same step]:
  assumes "served l cf m st P" "later l cf m P P'" "I P"
    and step: "\<And>M N. served l cf m st M \<Longrightarrow> later l cf m P M \<Longrightarrow> I M \<Longrightarrow> calls_step l cf m M N \<Longrightarrow>
      \<forall>(c, p) \<in> set (snd N). allowed cf m c \<Longrightarrow> I N"
  shows "I P'"
proof -
  have "(calls_step l cf m)\<^sup>*\<^sup>* P P'" "\<forall>(c, p) \<in> set (snd P'). allowed cf m c"
    using assms(2) served_run(2) [OF served_later [OF assms(1,2)]] by (simp_all add: later_def)
  then show ?thesis
  proof (induction rule: rtranclp_induct)
    case base
    show ?case by (rule assms(3))
  next
    case (step M N)
    have ok: "\<forall>(c, p) \<in> set (snd M). allowed cf m c" using journal.started_ok_back [OF step.hyps(2) step.prems] .
    then have "later l cf m P M" using step.hyps(1) by (auto simp: later_def allowed_def)
    then show ?case using assms(4) [OF served_later [OF assms(1)]] step.IH [OF ok] step.hyps(2) step.prems by blast
  qed
qed

section \<open>The sample pool\<close>

definition sample_pool :: "(journal_call, journal_answer) pool" where
  "sample_pool = (one_store run_key 3 (bytes_of retried),
     [(PrepareDelivery claim_input, Return (DeliveryAnswer (DeliverySend 1 ''t1''))),
      (SettleDelivery fail_input, Return (DeliveryAnswer DeliveryJoin)),
      (PrepareDelivery claim_input, Return (DeliveryAnswer (DeliverySend 2 ''r1'')))])"

lemma run_call:
  assumes "reaches E st (start c) st' p"
  shows "pool_run E start (st, cs) (st', cs @ [(c, p)])"
proof -
  have "pool_run E start (st, cs @ [(c, start c)]) (st', (cs @ [(c, start c)])[length cs := (c, p)])"
    by (rule reach_pool [OF assms]) simp_all
  then have "pool_run E start (st, cs @ [(c, start c)]) (st', cs @ [(c, p)])" by simp
  then show ?thesis using pool_start [of E start st cs c] by (rule converse_rtranclp_into_rtranclp [rotated])
qed

lemma sample_served: "served one_limits run_config False new_store sample_pool"
proof -
  let ?run = "pool_run run_setting (journal_prog run_config)"
  have 1: "?run (new_store, []) (one_store run_key 1 (bytes_of claimed), [(PrepareDelivery claim_input, Return (DeliveryAnswer (DeliverySend 1 ''t1'')))])"
    using run_call [where start = "journal_prog run_config" and c = "PrepareDelivery claim_input" and cs = "[]", OF _]
      reach_answer [OF claim_run] by simp
  have 2: "?run (one_store run_key 1 (bytes_of claimed), cs) (one_store run_key 2 (bytes_of failed), cs @ [(SettleDelivery fail_input, Return (DeliveryAnswer DeliveryJoin))])" for cs
    by (rule run_call) (use reach_answer [OF fail_run] in simp)
  have 3: "?run (one_store run_key 2 (bytes_of failed), cs) (one_store run_key 3 (bytes_of retried), cs @ [(PrepareDelivery claim_input, Return (DeliveryAnswer (DeliverySend 2 ''r1'')))])" for cs
    by (rule run_call) (use reach_answer [OF retry_run] in simp)
  have "?run (new_store, []) sample_pool"
    unfolding sample_pool_def
    using rtranclp_trans [OF 1 rtranclp_trans [OF 2 3]] by simp
  moreover have "snapshot_wf one_limits (st_snap new_store)"
    by (simp add: new_store_def empty_snapshot_wf)
  ultimately show ?thesis
    using sample_sha_hex by (simp add: served_def config_ok_def sample_pool_def retains_def)
qed

definition delivered_pool :: "(journal_call, journal_answer) pool" where
  "delivered_pool = (one_store run_key 2 (bytes_of delivered),
     [(PrepareDelivery claim_input, Return (DeliveryAnswer (DeliverySend 1 ''t1''))),
      (SettleDelivery deliver_input, Return (DeliveryAnswer (DeliveryDuplicate (Some ''m1''))))])"

lemma claim_served:
  "pool_run run_setting (journal_prog run_config) (new_store, [])
     (one_store run_key 1 (bytes_of claimed), [(PrepareDelivery claim_input, Return (DeliveryAnswer (DeliverySend 1 ''t1'')))])"
  using run_call [where start = "journal_prog run_config" and c = "PrepareDelivery claim_input" and cs = "[]", OF _]
    reach_answer [OF claim_run] by simp

lemma delivered_served: "served one_limits run_config False new_store delivered_pool"
proof -
  have 2: "pool_run run_setting (journal_prog run_config) (one_store run_key 1 (bytes_of claimed), cs)
      (one_store run_key 2 (bytes_of delivered), cs @ [(SettleDelivery deliver_input, Return (DeliveryAnswer (DeliveryDuplicate (Some ''m1''))))])" for cs
    by (rule run_call) (use reach_answer [OF deliver_run] in simp)
  have "pool_run run_setting (journal_prog run_config) (new_store, []) delivered_pool"
    unfolding delivered_pool_def using rtranclp_trans [OF claim_served 2] by simp
  then show ?thesis
    using sample_sha_hex by (simp add: served_def config_ok_def delivered_pool_def retains_def new_store_def empty_snapshot_wf)
qed

lemma admitted_served:
  "\<exists>st. served one_limits run_config False new_store (st, [(Admit admit_sample, Return (AdmitAnswer (AdmissionAccepted sample_summary)))])"
proof -
  obtain st where "reaches run_setting new_store (admit run_config admit_sample) st (Return (AdmissionAccepted sample_summary))"
    using admit_run by blast
  from reach_answer [OF this, of AdmitAnswer]
  have "pool_run run_setting (journal_prog run_config) (new_store, []) (st, [] @ [(Admit admit_sample, Return (AdmitAnswer (AdmissionAccepted sample_summary)))])"
    by (intro run_call) simp
  then show ?thesis
    using sample_sha_hex by (auto simp: served_def config_ok_def retains_def new_store_def empty_snapshot_wf)
qed

lemma one_receipt:
  "d \<in> {claimed, failed, retried, delivered} \<Longrightarrow> receipt_at (st_snap (one_store run_key n (bytes_of d))) run_key = Holds d"
  using delivery_codec.decoded_encode [OF delivery_bytes(1)] run_deliveries_wf
  by (intro cell_holds [where r = "one_record n (bytes_of d)"]) (auto simp: one_store_def lookup_def one_record_def)

lemma run_key_family: "in_family FamDelivery run_key"
  by (simp add: run_key_def key_simps)

lemma run_key_of [simp]: "receipt_of run_config (PrepareDelivery claim_input) = Some run_key"
  by (simp add: claim_input_def run_key_ok)

section \<open>Deliveries\<close>

text \<open>C7: Over any interleaving of journal calls and other use of the store, every delivery receipt only
  moves along the receipt machine: claim, settlement, retry of a failure.\<close>

theorem receipts_follow_machine:
  assumes "served l cf m st P" "in_family FamDelivery k"
  shows "receipt_step\<^sup>*\<^sup>* (receipt_at (st_snap st) k) (receipt_at (st_snap (fst P)) k)"
  using served_interf [OF assms(1)] assms(2) by (simp add: interf_def receipts_evolve_def)

lemma receipts_follow_machine_witness:
  "receipt_step\<^sup>*\<^sup>* (receipt_at empty_snapshot run_key) (Holds retried) \<and> receipt_at empty_snapshot run_key = Absent"
  using receipts_follow_machine [OF sample_served run_key_family] one_receipt [of retried 3]
  by (simp add: sample_pool_def new_store_def) (simp add: cell_at_def lookup_def empty_snapshot_def)

text \<open>C1: Two permissions to send the same delivery never carry the same attempt number, whichever calls
  gave them and however they interleaved.\<close>

theorem send_attempts_apart:
  assumes "served l cf m st P" "answered P i c (DeliveryAnswer (DeliverySend n t))" "answered P j d (DeliveryAnswer (DeliverySend n' t'))"
    "i \<noteq> j" "receipt_of cf c = Some key" "receipt_of cf d = Some key"
  shows "n \<noteq> n'"
proof
  have call: "send_answer c (DeliveryAnswer (DeliverySend n t))" if "receipt_of cf c = Some key" for c n t
    using that by (cases c) (auto simp: send_answer_def)
  assume "n = n'"
  then have "same_send cf c (DeliveryAnswer (DeliverySend n t)) d (DeliveryAnswer (DeliverySend n' t'))"
    using assms(5,6) by (simp add: same_send_def)
  with sends.answers_apart [OF served_run(1) [OF assms(1)] served_run(3) [OF assms(1)] served_run(2) [OF assms(1)] assms(2-4)
      call [OF assms(5)] call [OF assms(6)]] show False by blast
qed

lemma send_attempts_apart_witness:
  "answered sample_pool 0 (PrepareDelivery claim_input) (DeliveryAnswer (DeliverySend 1 ''t1''))
   \<and> answered sample_pool 2 (PrepareDelivery claim_input) (DeliveryAnswer (DeliverySend 2 ''r1'')) \<and> (1 :: nat) \<noteq> 2"
proof -
  have a: "answered sample_pool 0 (PrepareDelivery claim_input) (DeliveryAnswer (DeliverySend 1 ''t1''))"
    "answered sample_pool 2 (PrepareDelivery claim_input) (DeliveryAnswer (DeliverySend 2 ''r1''))"
    by (simp_all add: sample_pool_def answered_def)
  from send_attempts_apart [OF sample_served a _ run_key_of run_key_of] a show ?thesis by simp
qed

text \<open>C5: Once a delivery is delivered or its outcome unknown, its receipt stays as it is and no call is
  ever given permission to send it again.\<close>

theorem settled_delivery_is_final:
  assumes "served l cf m st P" "later l cf m P P'" "receipt_at (st_snap (fst P)) key = Holds d"
    "de_status d = DelDelivered \<or> de_status d = DelUnknown" "in_family FamDelivery key"
  shows "receipt_at (st_snap (fst P')) key = Holds d
     \<and> (\<forall>i c n t. receipt_of cf c = Some key \<longrightarrow> answered P' i c (DeliveryAnswer (DeliverySend n t)) \<longrightarrow>
          answered P i c (DeliveryAnswer (DeliverySend n t)))"
  using assms(1,2)
proof (induction rule: later_induct)
  case same
  show ?case using assms(3) by blast
next
  case (step M N)
  have "receipt_later (Holds d) (receipt_at (st_snap (fst N)) key)"
    using receipt_rely [OF journal_delivery_setting journal.step_interf [OF served_sound [OF step.hyps(1)] step.hyps(3)] assms(5)] step.IH by simp
  then have held: "receipt_at (st_snap (fst N)) key = Holds d" using receipt_final assms(4) by blast
  have "answered M i c (DeliveryAnswer (DeliverySend n t))"
    if c: "receipt_of cf c = Some key" and a: "answered N i c (DeliveryAnswer (DeliverySend n t))" for i c n t
  proof (rule ccontr)
    assume new: "\<not> answered M i c (DeliveryAnswer (DeliverySend n t))"
    have "send_answer c (DeliveryAnswer (DeliverySend n t))" using c by (cases c) (auto simp: send_answer_def)
    from sends.new_answer(1) [OF served_sound [OF step.hyps(1)] served_tidy [OF step.hyps(1)] step.hyps(3,4) a this new]
    have "call_commit cf c (st_snap (fst M)) (Return (DeliveryAnswer (DeliverySend n t))) (st_snap (fst N))" by blast
    with c obtain fa where "receipt_commit fa key (st_snap (fst M)) (Return (DeliveryAnswer (DeliverySend n t))) (st_snap (fst N))"
      by (cases c) (auto simp: call_commit_def)
    then show False using held step.IH by (auto simp: receipt_commit_def)
  qed
  with held step.IH show ?case by blast
qed

lemma settled_delivery_is_final_witness:
  "\<exists>P'. later one_limits run_config False delivered_pool P' \<and> length (snd P') = 3
     \<and> receipt_at (st_snap (fst P')) run_key = Holds delivered"
proof -
  let ?P' = "(fst delivered_pool, snd delivered_pool @ [(PrepareDelivery claim_input, journal_prog run_config (PrepareDelivery claim_input))])"
  have "pool_step run_setting (journal_prog run_config) (fst delivered_pool, snd delivered_pool) ?P'"
    by (rule pool_start)
  then have l: "later one_limits run_config False delivered_pool ?P'"
    by (simp add: later_def r_into_rtranclp) (simp add: delivered_pool_def retains_def)
  have at: "receipt_at (st_snap (fst delivered_pool)) run_key = Holds delivered"
    using one_receipt [of delivered 2] by (simp add: delivered_pool_def)
  have "de_status delivered = DelDelivered" by (simp add: delivered_def settled_record_def)
  then have "receipt_at (st_snap (fst ?P')) run_key = Holds delivered"
    using settled_delivery_is_final [OF delivered_served l at _ run_key_family] by blast
  with l show ?thesis by (intro exI [where x = ?P']) (simp add: delivered_pool_def)
qed

text \<open>C8: What an answer about a delivery said stays true: an attempt granted is counted, a delivered
  message was delivered, an unknown outcome is recorded.\<close>

theorem delivery_answers_hold:
  assumes "served l cf m st P" "answered P i c (DeliveryAnswer a)" "receipt_of cf c = Some key"
  shows "case a of
      DeliverySend n token \<Rightarrow> 1 \<le> n \<and> n \<le> attempts_of (receipt_at (st_snap (fst P)) key)
        \<and> (\<forall>d. receipt_at (st_snap (fst P)) key = Holds d \<longrightarrow> de_attempts d = n \<longrightarrow> de_token d = token)
    | DeliveryDuplicate m \<Rightarrow>
        \<exists>d. receipt_at (st_snap (fst P)) key = Holds d \<and> de_status d = DelDelivered \<and> de_message d = m
    | DeliveryUnknown e \<Rightarrow> \<exists>d. receipt_at (st_snap (fst P)) key = Holds d \<and> de_status d = DelUnknown \<and> de_code d = e
    | _ \<Rightarrow> receipt_at (st_snap (fst P)) key \<noteq> Absent"
proof -
  have "call_answer cf c (DeliveryAnswer a) (st_snap (fst P))"
    using journal.run_answers(1) [OF served_run(1) [OF assms(1)] journal.sound_empty [OF served_run(3) [OF assms(1)]] served_run(2) [OF assms(1)] assms(2)] .
  with assms(3) have "delivery_answered key a (st_snap (fst P))" by (cases c) auto
  then show ?thesis by (cases a) simp_all
qed

lemma delivery_answers_hold_witness:
  "\<exists>d. receipt_at (st_snap (fst delivered_pool)) run_key = Holds d \<and> de_status d = DelDelivered \<and> de_message d = Some ''m1''"
proof -
  have "answered delivered_pool 1 (SettleDelivery deliver_input) (DeliveryAnswer (DeliveryDuplicate (Some ''m1'')))"
    by (simp add: delivered_pool_def answered_def)
  from delivery_answers_hold [OF delivered_served this, of run_key] show ?thesis
    by (simp add: deliver_input_def run_key_ok)
qed

end
