(* ===== verification/RunProps.thy ===== *)
theory RunProps
  imports PoolProps
begin

text \<open>
  What holds of every call while others run: what it may write, that it ends, and what becomes of the
  runs, their event logs and admissions.
\<close>

section \<open>One step of a pool\<close>

lemma served_wp:
  assumes "served l cf m st P" "i < length (snd P)" "snd P ! i = (c, p)"
  shows "wp (journal_setting l (cf_sha cf) m) (call_commit cf c) (call_answer cf c) p (st_snap (fst P))"
    "interf (journal_setting l (cf_sha cf) m) (st_snap (fst P)) (st_snap (fst P))"
proof -
  have "(c, p) \<in> set (snd P)" using assms(2,3) nth_mem by metis
  then show "wp (journal_setting l (cf_sha cf) m) (call_commit cf c) (call_answer cf c) p (st_snap (fst P))"
    "interf (journal_setting l (cf_sha cf) m) (st_snap (fst P)) (st_snap (fst P))"
    using served_sound [OF assms(1)] by (auto simp: journal.sound_def)
qed

text \<open>The step of the call at \<open>i\<close>: it commits by its guarantee, or leaves the snapshot alone.\<close>

lemma step_of_call:
  assumes "served l cf m st P" "calls_step l cf m P P'" "i < length (snd P)" "snd P ! i = (c, p)" "snd P' ! i \<noteq> (c, p)"
  shows "st_snap (fst P') = st_snap (fst P) \<or> (\<exists>p'. call_commit cf c (st_snap (fst P)) p' (st_snap (fst P')))"
  using assms(2)
proof (cases rule: pool_step.cases)
  case (pool_start s cs c')
  then show ?thesis using assms(3-5) by (simp add: nth_append)
next
  case (pool_call j cs c' q s s' q')
  have "j = i" using pool_call assms(4,5) by (cases "j = i") auto
  then have q: "q = p" "c' = c" using pool_call assms(4) by auto
  show ?thesis
  proof (cases "transacts p")
    case True
    have "call_commit cf c (st_snap s) q' (st_snap s')"
      using wp_commit [OF pool_call(5) _ _ True [folded q]] served_wp [OF assms(1,3,4)] pool_call q by simp
    then show ?thesis using pool_call by auto
  next
    case False
    then show ?thesis using prog_step_idle [OF pool_call(5)] pool_call q by simp
  qed
next
  case (pool_public s s' cs)
  then show ?thesis using assms(4,5) by simp
qed

lemma step_runs:
  assumes "served l cf m st P" "calls_step l cf m P P'"
  shows "run_commit (cf_sha cf) m (st_snap (fst P)) (st_snap (fst P'))"
  using assms(2)
proof (cases rule: pool_step.cases)
  case (pool_start s cs c)
  then show ?thesis by simp
next
  case (pool_call i cs c p s s' p')
  have i: "i < length (snd P)" "snd P ! i = (c, p)" using pool_call by auto
  have ret: "retains c \<longrightarrow> m" using served_run(2) [OF assms(1)] nth_mem [OF i(1)] i(2) by (auto simp: allowed_def)
  show ?thesis
  proof (cases "transacts p")
    case True
    have "call_commit cf c (st_snap s) p' (st_snap s')"
      using wp_commit [OF pool_call(5) _ _ True] served_wp [OF assms(1) i] pool_call by simp
    then show ?thesis using pool_call ret by (auto simp: call_commit_def intro: run_commit_mono)
  next
    case False
    then show ?thesis using prog_step_idle [OF pool_call(5)] pool_call by simp
  qed
next
  case (pool_public s s' cs)
  have "snapshot_wf l (st_snap s)" using served_interf [OF assms(1)] pool_public by (simp add: interf_def)
  then show ?thesis using public_frame pool_public by (intro public_runs) fastforce
qed

text \<open>What a program may be after its next step.\<close>

primrec continuations :: "'a prog \<Rightarrow> 'a prog set" where
  "continuations (Return x) = {}"
| "continuations (Throw e) = {}"
| "continuations Hang = {}"
| "continuations (ReadCall key f) = range f"
| "continuations (ScanCall pre cursor n f) = range f"
| "continuations (TransactCall q f) = range f"
| "continuations (ClockCall f) = range f"
| "continuations (GenerateCall g f) = range f"
| "continuations (ArtifactCall a f) = range f"

lemma step_continues: "prog_step E st p st' p' \<Longrightarrow> p' \<in> continuations p"
  by (cases rule: prog_step.cases) auto

lemma continuations_wf: "wf {(q, p). q \<in> continuations p}"
proof (rule acc_wfI, rule allI)
  show "p \<in> Wellfounded.acc {(q, p). q \<in> continuations p}" for p :: "'a prog"
    by (induction p) (rule accI; auto)+
qed

text \<open>The sample pool with another call started.\<close>

lemma delivered_starts:
  assumes "\<not> retains c"
  shows "served one_limits run_config False new_store (fst delivered_pool, snd delivered_pool @ [(c, journal_prog run_config c)])"
proof -
  have "pool_step run_setting (journal_prog run_config) (fst delivered_pool, snd delivered_pool)
      (fst delivered_pool, snd delivered_pool @ [(c, journal_prog run_config c)])"
    by (rule pool_start)
  then have "later one_limits run_config False delivered_pool (fst delivered_pool, snd delivered_pool @ [(c, journal_prog run_config c)])"
    using assms by (simp add: later_def r_into_rtranclp) (simp add: delivered_pool_def retains_def)
  then show ?thesis by (rule served_later [OF delivered_served])
qed

text \<open>A call about to read takes its step.\<close>

lemma served_reads:
  assumes "served l cf m st P" "i < length (snd P)" "snd P ! i = (c, p)" "\<exists>key f. p = ReadCall key f"
  shows "\<exists>st' p'. prog_step (journal_setting l (cf_sha cf) m) (fst P) p st' p'
    \<and> calls_step l cf m P (st', (snd P)[i := (c, p')]) \<and> p' \<noteq> p"
proof -
  obtain key f where p: "p = ReadCall key f" using assms(4) by blast
  obtain r st' where "state_read_internal one_call (JStr key) (fst P) = (r, st')" by fastforce
  then have s: "prog_step (journal_setting l (cf_sha cf) m) (fst P) p st' (f r)"
    unfolding p by (rule step_read_call)
  have "calls_step l cf m (fst P, snd P) (st', (snd P)[i := (c, f r)])"
    using assms(2,3) s by (rule pool_call)
  moreover have "f r \<noteq> p" using step_continues [OF s] wf_not_refl [OF continuations_wf] by fastforce
  ultimately show ?thesis using s by auto
qed

section \<open>Every call\<close>

text \<open>C13: A step of a call changes no record outside the key families the call is meant to write.\<close>

theorem call_footprint:
  assumes "served l cf m st P" "calls_step l cf m P P'" "i < length (snd P)" "snd P ! i = (c, p)" "snd P' ! i \<noteq> (c, p)"
    "\<forall>f \<in> written_families c. \<not> in_family f k"
  shows "lookup (st_snap (fst P')) k = lookup (st_snap (fst P)) k"
  using step_of_call [OF assms(1-5)] assms(6) by (auto simp: call_commit_def touches_def within_def)

lemma claim_reads:
  "\<exists>key f. journal_prog run_config (PrepareDelivery claim_input) = ReadCall key f"
  unfolding journal_prog.simps answer_def prepare_delivery_def turns prepare_loop.simps
  by (simp add: claim_input_def parse_evals opt_field_def run_key_ok exec_read_def)

definition claiming_pool :: "(journal_call, journal_answer) pool" where
  "claiming_pool = (fst delivered_pool, snd delivered_pool @ [(PrepareDelivery claim_input, journal_prog run_config (PrepareDelivery claim_input))])"

lemma claiming_served: "served one_limits run_config False new_store claiming_pool"
  unfolding claiming_pool_def by (rule delivered_starts) (simp add: retains_def)

lemma claiming_call:
  "2 < length (snd claiming_pool)" "snd claiming_pool ! 2 = (PrepareDelivery claim_input, journal_prog run_config (PrepareDelivery claim_input))"
  by (simp_all add: claiming_pool_def delivered_pool_def numeral_2_eq_2)

lemma call_footprint_witness:
  "\<exists>st' p'. prog_step run_setting (fst claiming_pool) (journal_prog run_config (PrepareDelivery claim_input)) st' p'
     \<and> lookup (st_snap st') ''x'' = lookup (st_snap (fst claiming_pool)) ''x''"
proof -
  let ?c = "PrepareDelivery claim_input"
  from served_reads [OF claiming_served claiming_call claim_reads]
  obtain st' p' where s: "prog_step run_setting (fst claiming_pool) (journal_prog run_config ?c) st' p'"
      "calls_step one_limits run_config False claiming_pool (st', (snd claiming_pool)[2 := (?c, p')])" "p' \<noteq> journal_prog run_config ?c"
    by auto
  from call_footprint [OF claiming_served s(2) claiming_call, of "''x''"] s(3) claiming_call(1)
  have "lookup (st_snap st') ''x'' = lookup (st_snap (fst claiming_pool)) ''x''"
    by (simp add: in_family_def prefix_defs)
  with s(1) show ?thesis by blast
qed

text \<open>C15: No call waits for an answer that never comes: a call that has not finished can take a step.\<close>

theorem calls_progress:
  assumes "served l cf m st P" "i < length (snd P)" "snd P ! i = (c, p)"
  shows "(\<exists>x. p = Return x) \<or> (\<exists>e. p = Throw e) \<or> (\<exists>st' p'. prog_step (journal_setting l (cf_sha cf) m) (fst P) p st' p')"
proof (cases p)
  case Hang
  have "\<not> hung P i"
    by (rule journal.run_answers(2) [OF served_run(1) [OF assms(1)] journal.sound_empty [OF served_run(3) [OF assms(1)]] served_run(2) [OF assms(1)]])
  then show ?thesis using Hang assms(2,3) by (simp add: hung_def)
next
  case (ReadCall key f)
  obtain r st' where "state_read_internal one_call (JStr key) (fst P) = (r, st')" by fastforce
  then show ?thesis unfolding ReadCall by (blast intro: step_read_call)
next
  case (ScanCall pre cursor n f)
  obtain r st' where "state_scan_internal one_call (JStr pre) (cursor_js cursor) (JNum (int n)) (fst P) = (r, st')" by fastforce
  then show ?thesis unfolding ScanCall by (blast intro: step_scan_call)
next
  case (TransactCall q f)
  obtain r st' where "state_transaction_internal (se_limits (journal_setting l (cf_sha cf) m)) one_call q (fst P) = (r, st')" by fastforce
  then show ?thesis unfolding TransactCall by (blast intro: step_transact_call)
next
  case (ClockCall f)
  have "prog_step (journal_setting l (cf_sha cf) m) (fst P) (ClockCall f) (fst P) (f None)" by (rule step_clock_call) simp
  then show ?thesis unfolding ClockCall by blast
next
  case (GenerateCall g f)
  then show ?thesis by (blast intro: step_generate_call)
next
  case (ArtifactCall a f)
  then show ?thesis by (blast intro: step_artifact_call)
qed simp_all

lemma calls_progress_witness:
  "\<exists>st' p'. prog_step run_setting (fst claiming_pool) (journal_prog run_config (PrepareDelivery claim_input)) st' p'"
  using calls_progress [OF claiming_served claiming_call] claim_reads by auto

section \<open>Runs and admissions\<close>

text \<open>C6: Whatever the journal's calls do to runs, events, admissions and the history index is a sequence
  of the abstract steps: admission, recording, settlement, renewal and, with retention, retirement.\<close>

theorem journal_refines_runs:
  assumes "served l cf m st P"
  shows "(run_commit (cf_sha cf) m)\<^sup>*\<^sup>* (st_snap st) (st_snap (fst P))"
  using served_interf [OF assms] by (simp add: interf_def)

lemma journal_refines_runs_witness:
  "(run_commit sample_sha False)\<^sup>*\<^sup>* empty_snapshot (st_snap (fst delivered_pool))"
  using journal_refines_runs [OF delivered_served] by (simp add: new_store_def)

text \<open>C3: Without retention, the records of every run stay consistent over any interleaving: its event log
  is complete, numbered without gaps and ends with its settlement, it has its admission in the same
  state and its history entry, and every admission has its run.\<close>

theorem runs_stay_consistent:
  assumes "served l cf False st P" "runs_ok (cf_sha cf) (st_snap st)"
  shows "runs_ok (cf_sha cf) (st_snap (fst P))"
proof -
  have "(run_commit (cf_sha cf) False)\<^sup>*\<^sup>* (st_snap st) (st_snap (fst P))"
    using served_interf [OF assms(1)] by (simp add: interf_def)
  then show ?thesis using assms(2) by (induction rule: rtranclp_induct) (auto intro: runs_ok_step)
qed

lemma runs_stay_consistent_witness:
  "\<exists>st. answered (st, [(Admit admit_sample, Return (AdmitAnswer (AdmissionAccepted sample_summary)))]) 0 (Admit admit_sample)
       (AdmitAnswer (AdmissionAccepted sample_summary)) \<and> runs_ok sample_sha (st_snap st)"
proof -
  obtain st where s: "served one_limits run_config False new_store (st, [(Admit admit_sample, Return (AdmitAnswer (AdmissionAccepted sample_summary)))])"
    using admitted_served by blast
  have "runs_ok sample_sha (st_snap new_store)"
    by (rule runs_ok_empty) (simp add: new_store_def empty_snapshot_def lookup_def)
  from runs_stay_consistent [OF s] this show ?thesis by (auto simp: answered_def)
qed

text \<open>C9: A run that is not running any more never changes again, and a running one keeps its identity
  and only gains events, as long as retention does not run.\<close>

theorem settled_runs_stay:
  assumes "served l cf False st P" "later l cf False P P'" "run_at (st_snap (fst P)) (run_slot d) = Holds r"
  shows "\<exists>r'. run_at (st_snap (fst P')) (run_slot d) = Holds r'
    \<and> (rs_status (sr_summary r) \<noteq> RunRunning \<longrightarrow> r' = r)
    \<and> (rs_status (sr_summary r) = RunRunning \<longrightarrow> sr_event_count r \<le> sr_event_count r'
         \<and> rs_run (sr_summary r') = rs_run (sr_summary r) \<and> rs_request (sr_summary r') = rs_request (sr_summary r)
         \<and> rs_conv (sr_summary r') = rs_conv (sr_summary r) \<and> rs_started (sr_summary r') = rs_started (sr_summary r))"
proof -
  have "(run_commit (cf_sha cf) False)\<^sup>*\<^sup>* (st_snap (fst P)) (st_snap (fst P'))"
    using later_interf [OF assms(1,2)] by (simp add: interf_def)
  then have "runs_evolve (cf_sha cf) (st_snap (fst P)) (st_snap (fst P'))"
    by (induction rule: rtranclp_induct) (auto intro: runs_evolve_trans runs_evolve_step)
  then obtain r' where "run_at (st_snap (fst P')) (run_slot d) = Holds r'" "run_moves r r'"
    using assms(3) unfolding runs_evolve_def by blast
  then show ?thesis by (auto simp: run_moves_def)
qed

lemma admitted_run:
  assumes "served one_limits run_config False new_store (st, [(Admit admit_sample, Return (AdmitAnswer (AdmissionAccepted sample_summary)))])"
  shows "\<exists>r. run_at (st_snap st) (run_slot sample_digits) = Holds r"
    "admission_at (st_snap st) (admission_slot sample_digits) \<noteq> Absent"
proof -
  let ?P = "(st, [(Admit admit_sample, Return (AdmitAnswer (AdmissionAccepted sample_summary)))])"
  have a: "answered ?P 0 (Admit admit_sample) (AdmitAnswer (AdmissionAccepted sample_summary))"
    "accept_answer (Admit admit_sample) (AdmitAnswer (AdmissionAccepted sample_summary))"
    by (simp_all add: answered_def accept_answer_def)
  have "accept_mark sample_sha (Admit admit_sample) (AdmitAnswer (AdmissionAccepted sample_summary)) (st_snap st)"
    using accepts.tidy_run [OF served_run(1) [OF assms] journal.sound_empty [OF served_run(3) [OF assms]] accepts.tidy_empty served_run(2) [OF assms]] a
    unfolding accepts.tidy_def by fastforce
  then have present: "run_at (st_snap st) (run_slot sample_digits) \<noteq> Absent" "admission_at (st_snap st) (admission_slot sample_digits) \<noteq> Absent"
    by (simp_all add: accept_mark_def sample_summary_def new_summary_def sample_sha_def)
  have "(run_commit sample_sha False)\<^sup>*\<^sup>* empty_snapshot (st_snap st)"
    using served_interf [OF assms] by (simp add: interf_def new_store_def)
  moreover have "runs_ok sample_sha empty_snapshot"
    by (rule runs_ok_empty) (simp add: empty_snapshot_def lookup_def)
  ultimately have "runs_ok sample_sha (st_snap st)" by (induction rule: rtranclp_induct) (auto intro: runs_ok_step)
  then show "\<exists>r. run_at (st_snap st) (run_slot sample_digits) = Holds r"
    using present(1) runs_readable [of sample_sha "st_snap st" sample_digits] by (cases "run_at (st_snap st) (run_slot sample_digits)") auto
  show "admission_at (st_snap st) (admission_slot sample_digits) \<noteq> Absent" by (rule present(2))
qed

lemma settled_runs_stay_witness:
  "\<exists>(st :: store) r r'. run_at (st_snap st) (run_slot sample_digits) = Holds r
     \<and> run_at (st_snap (st\<lparr>st_closed := True\<rparr>)) (run_slot sample_digits) = Holds r' \<and> rs_run (sr_summary r') = rs_run (sr_summary r)"
proof -
  obtain st where s: "served one_limits run_config False new_store (st, [(Admit admit_sample, Return (AdmitAnswer (AdmissionAccepted sample_summary)))])"
    using admitted_served by blast
  let ?cs = "[(Admit admit_sample, Return (AdmitAnswer (AdmissionAccepted sample_summary)) :: journal_answer prog)]"
  obtain r where r: "run_at (st_snap st) (run_slot sample_digits) = Holds r" using admitted_run(1) [OF s] by blast
  have "calls_step one_limits run_config False (st, ?cs) (st\<lparr>st_closed := True\<rparr>, ?cs)"
    by (rule pool_public) (rule public_close)
  then have l: "later one_limits run_config False (st, ?cs) (st\<lparr>st_closed := True\<rparr>, ?cs)"
    by (simp only: later_def r_into_rtranclp) (simp add: retains_def)
  from settled_runs_stay [OF s l, of sample_digits r] r
  obtain r' where r': "run_at (st_snap (st\<lparr>st_closed := True\<rparr>)) (run_slot sample_digits) = Holds r'"
      "rs_status (sr_summary r) \<noteq> RunRunning \<longrightarrow> r' = r"
      "rs_status (sr_summary r) = RunRunning \<longrightarrow> rs_run (sr_summary r') = rs_run (sr_summary r)"
    by auto
  then have "rs_run (sr_summary r') = rs_run (sr_summary r)" by (cases "rs_status (sr_summary r) = RunRunning") simp_all
  with r r'(1) show ?thesis by (intro exI [where x = st] exI [where x = r] exI [where x = r']) simp
qed

text \<open>C10: Even while retention runs, no step of any call or of other code takes away a running run or a
  running admission, or changes what it is about.\<close>

theorem running_work_is_kept:
  assumes "served l cf m st P" "calls_step l cf m P P'"
  shows "(\<forall>d r. run_at (st_snap (fst P)) (run_slot d) = Holds r \<longrightarrow> rs_status (sr_summary r) = RunRunning \<longrightarrow>
       (\<exists>r'. run_at (st_snap (fst P')) (run_slot d) = Holds r' \<and> rs_run (sr_summary r') = rs_run (sr_summary r)
          \<and> rs_request (sr_summary r') = rs_request (sr_summary r)))
    \<and> (\<forall>q a. admission_at (st_snap (fst P)) (admission_slot q) = Holds a \<longrightarrow> ad_status a = AdmRunning \<longrightarrow>
       (\<exists>a'. admission_at (st_snap (fst P')) (admission_slot q) = Holds a' \<and> ad_run a' = ad_run a \<and> ad_request a' = ad_request a))"
proof -
  note kept = running_evolve_step [OF step_runs [OF assms], unfolded running_evolve_def]
  show ?thesis
  proof (intro conjI allI impI, goal_cases)
    case (1 d r)
    then obtain r' where "run_at (st_snap (fst P')) (run_slot d) = Holds r'" "run_moves r r'" using kept by blast
    with 1(2) show ?case by (auto simp: run_moves_def)
  next
    case (2 q a)
    then obtain a' where "admission_at (st_snap (fst P')) (admission_slot q) = Holds a'" "admission_moves a a'" using kept by blast
    with 2(2) show ?case by (auto simp: admission_moves_def)
  qed
qed

lemma running_work_is_kept_witness:
  "\<exists>(st :: store) r. run_at (st_snap st) (run_slot sample_digits) = Holds r
     \<and> (rs_status (sr_summary r) = RunRunning \<longrightarrow> (\<exists>r'. run_at (st_snap (st\<lparr>st_closed := True\<rparr>)) (run_slot sample_digits) = Holds r'
          \<and> rs_run (sr_summary r') = rs_run (sr_summary r)))"
proof -
  obtain st where s: "served one_limits run_config False new_store (st, [(Admit admit_sample, Return (AdmitAnswer (AdmissionAccepted sample_summary)))])"
    using admitted_served by blast
  let ?cs = "[(Admit admit_sample, Return (AdmitAnswer (AdmissionAccepted sample_summary)) :: journal_answer prog)]"
  obtain r where r: "run_at (st_snap st) (run_slot sample_digits) = Holds r" using admitted_run(1) [OF s] by blast
  have "calls_step one_limits run_config False (st, ?cs) (st\<lparr>st_closed := True\<rparr>, ?cs)"
    by (rule pool_public) (rule public_close)
  from conjunct1 [OF running_work_is_kept [OF s this], rule_format, of sample_digits r] r
  show ?thesis by (intro exI [where x = st] exI [where x = r]) auto
qed

text \<open>C2: Where retention does not run (no \<open>MaintainExecution\<close> call is in the pool, the \<open>False\<close> of \<open>served\<close>), a
  request is accepted at most once, and a run id is given to at most one request, over any interleaving
  of the other calls: after an acceptance its admission and run are there, and every other acceptance is
  of another request and another run. Retention deletes the admission and the run of a terminal run past
  its cutoff, after which the same request may be accepted anew.\<close>

theorem accepted_once:
  assumes "served l cf False st P" "answered P i (Admit input) (AdmitAnswer (AdmissionAccepted r))"
  shows "admission_at (st_snap (fst P)) (admission_slot (cf_sha cf (rs_request r))) \<noteq> Absent
    \<and> run_at (st_snap (fst P)) (run_slot (cf_sha cf (rs_run r))) \<noteq> Absent
    \<and> (\<forall>j input' r'. j \<noteq> i \<longrightarrow> answered P j (Admit input') (AdmitAnswer (AdmissionAccepted r')) \<longrightarrow>
         cf_sha cf (rs_request r') \<noteq> cf_sha cf (rs_request r) \<and> cf_sha cf (rs_run r') \<noteq> cf_sha cf (rs_run r))"
proof -
  have tidy: "accepts.tidy l cf P"
    by (rule accepts.tidy_run [OF served_run(1) [OF assms(1)] journal.sound_empty [OF served_run(3) [OF assms(1)]] accepts.tidy_empty
        served_run(2) [OF assms(1)]])
  have a: "accept_answer (Admit input) (AdmitAnswer (AdmissionAccepted r))" for input r by (simp add: accept_answer_def)
  have "accept_mark (cf_sha cf) (Admit input) (AdmitAnswer (AdmissionAccepted r)) (st_snap (fst P))"
    using tidy assms(2) a unfolding accepts.tidy_def by blast
  moreover have "\<not> same_accept (cf_sha cf) (Admit input) (AdmitAnswer (AdmissionAccepted r)) (Admit input') (AdmitAnswer (AdmissionAccepted r'))"
    if "j \<noteq> i" "answered P j (Admit input') (AdmitAnswer (AdmissionAccepted r'))" for j input' r'
    using tidy assms(2) that a unfolding accepts.tidy_def by blast
  ultimately show ?thesis unfolding accept_mark_def same_accept_def by (metis admission_answer.inject(1) journal_answer.inject(1))
qed

lemma accepted_once_witness:
  "\<exists>st :: store. admission_at (st_snap st) (admission_slot (sample_sha (rs_request sample_summary))) \<noteq> Absent"
proof -
  obtain st where s: "served one_limits run_config False new_store (st, [(Admit admit_sample, Return (AdmitAnswer (AdmissionAccepted sample_summary)))])"
    using admitted_served by blast
  from accepted_once [OF s, of 0 admit_sample sample_summary] show ?thesis by (intro exI [where x = st]) (simp add: answered_def)
qed

end
