(* ===== verification/JournalProps.thy ===== *)
theory JournalProps
  imports RunProps
begin

text \<open>
  The settlement of a delivery together with its history, and what becomes of a run at its event bound.
\<close>

section \<open>Settlement with history\<close>

text \<open>C36: A step of \<open>settleDeliveryWithHistory\<close> changes no receipt, binding or conversation, or all three
  at once: the intent becomes delivered, its entry is bound and appended as the next revision.\<close>

theorem history_settles_together:
  assumes "served l cf m st P" "calls_step l cf m P P'" "i < length (snd P)" "snd P ! i = (SettleDeliveryWithHistory input, p)"
    "snd P' ! i \<noteq> (SettleDeliveryWithHistory input, p)"
  shows "(\<forall>k. within history_families k \<longrightarrow> lookup (st_snap (fst P')) k = lookup (st_snap (fst P)) k)
    \<or> (\<exists>h. parse_history_input cf input = Inr h \<and> history_step (cf_sha cf) h (st_snap (fst P)) (st_snap (fst P')))"
  using step_of_call [OF assms] by (auto simp: call_commit_def history_commit_def)

definition history_fields :: "(string \<times> js) list" where
  "history_fields = [(''kind'', JStr ''verbatim''), (''entryId'', JStr ''e1''), (''runId'', JStr ''d1''),
     (''requestId'', JStr ''r1''), (''conversationId'', JStr ''conv-1''), (''role'', JStr ''assistant''), (''text'', JStr ''hi'')]"

definition history_sample :: history_input where
  "history_sample = \<lparr>hi_key = JStr ''d1'', hi_fingerprint = JStr sample_digest, hi_attempt = JNum 1, hi_token = JStr ''t1'',
     hi_message = JUndef, hi_conv = JStr ''conv-1'',
     hi_entry = JObj history_fields,
     hi_entry_fingerprint = JStr sample_digest\<rparr>"

definition history_entry :: transcript_entry where
  "history_entry = VerbatimEntry \<lparr>ec_entry = ''e1'', ec_run = ''d1'', ec_request = ''r1'', ec_conv = ''conv-1'', ec_at = epoch_text\<rparr> RoleAssistant ''hi''"

lemma conv_ok: "conv_id_ok ''conv-1''"
  using sample_transcript_wf by (simp add: wf_transcript_def sample_transcript_def)

lemma history_texts: "ident_ok ''e1''" "text_ok transcript_max_text_bytes True ''hi''"
  by (code_simp, simp add: text_ok_def transcript_max_text_bytes_def blank_def has_nul_def)

lemma one_parsed: "1 \<le> n \<Longrightarrow> bounded_integer path (Suc 0) n (JNum 1) = Inr 1"
  by (simp add: bounded_integer_def)

lemma history_entry_parsed:
  "parse_transcript_entry ''conv-1'' path (JObj (history_fields @ req ''recordedAt'' (JStr epoch_text))) = Inr history_entry"
  using canonical_epoch conv_ok history_texts
  by (simp add: parse_transcript_entry_def history_fields_def parse_entry_common_def parse_evals value_kind_def entry_keys_def
    epoch_text_def history_entry_def roles_def)

lemma history_transcript_parsed:
  "\<exists>t. parse_canonical_transcript (transcript_literal ''conv-1'' 1 [JObj (history_fields @ req ''recordedAt'' (JStr epoch_text))]) = Inr t
     \<and> ct_entries t = [history_entry]"
  using conv_ok history_entry_parsed unfolding parse_canonical_transcript_def transcript_literal_def
  by (simp add: parse_evals transcript_max_entries_def one_parsed max_safe_integer_def)

lemma history_delivery_entry: "parse_delivery_transcript_entry (JObj history_fields) ''conv-1'' epoch_text = Inr history_entry"
  using history_transcript_parsed unfolding parse_delivery_transcript_entry_def
  by (auto simp: parse_evals own_data_field_def delivery_entry_keys_def history_fields_def history_entry_def)

lemma history_digest: "\<exists>d. delivery_entry_digest sample_sha history_entry = Inr d"
proof -
  have "length (json_text (JObj (authority_fields history_entry))) \<le> chunked_transcript_max_bytes"
    using json_quote_length [of "''verbatim''"] json_quote_length [of "''e1''"] json_quote_length [of "''d1''"] json_quote_length [of "''r1''"]
      json_quote_length [of "''conv-1''"] json_quote_length [of "''assistant''"] json_quote_length [of "''hi''"]
    unfolding history_entry_def authority_fields.simps req_def
    by (intro order_trans [OF object_length]) (simp add: cost_def roles_def chunked_transcript_max_bytes_def)
  then show ?thesis by (simp add: delivery_entry_digest_def Let_def) (simp add: history_entry_def)
qed

lemma history_parses: "\<exists>h. parse_history_input run_config history_sample = Inr h"
proof -
  obtain d where "delivery_entry_digest sample_sha history_entry = Inr d" using history_digest by blast
  moreover obtain k where "delivery_entry_state_key sample_sha (ec_entry (entry_common_of history_entry)) = Inr k"
    using history_texts(1) by (simp add: key_simps history_entry_def)
  ultimately show ?thesis
    using history_delivery_entry conv_ok unfolding parse_history_input_def
    by (simp add: history_sample_def parse_evals opt_field_def run_key_ok one_parsed max_delivery_attempts_def)
qed

definition history_pool :: "(journal_call, journal_answer) pool" where
  "history_pool = (fst delivered_pool,
     snd delivered_pool @ [(SettleDeliveryWithHistory history_sample, journal_prog run_config (SettleDeliveryWithHistory history_sample))])"

lemma history_served: "served one_limits run_config False new_store history_pool"
  unfolding history_pool_def by (rule delivered_starts) (simp add: retains_def)

lemma history_call:
  "2 < length (snd history_pool)"
  "snd history_pool ! 2 = (SettleDeliveryWithHistory history_sample, journal_prog run_config (SettleDeliveryWithHistory history_sample))"
  by (simp_all add: history_pool_def delivered_pool_def numeral_2_eq_2)

lemma history_settles_together_witness:
  "\<exists>st' p'. prog_step run_setting (fst history_pool) (journal_prog run_config (SettleDeliveryWithHistory history_sample)) st' p'
     \<and> ((\<forall>k. within history_families k \<longrightarrow> lookup (st_snap st') k = lookup (st_snap (fst history_pool)) k)
       \<or> (\<exists>h. history_step sample_sha h (st_snap (fst history_pool)) (st_snap st')))"
proof -
  let ?c = "SettleDeliveryWithHistory history_sample"
  have "\<exists>key f. journal_prog run_config ?c = ReadCall key f"
    using history_parses unfolding journal_prog.simps answer_def settle_delivery_with_history_def
    by (auto simp: history_retries_def numeral_eq_Suc exec_read_def)
  from served_reads [OF history_served history_call this]
  obtain st' p' where s: "prog_step run_setting (fst history_pool) (journal_prog run_config ?c) st' p'"
      "calls_step one_limits run_config False history_pool (st', (snd history_pool)[2 := (?c, p')])" "p' \<noteq> journal_prog run_config ?c"
    by auto
  from history_settles_together [OF history_served s(2) history_call] s(3) history_call(1)
  have "(\<forall>k. within history_families k \<longrightarrow> lookup (st_snap st') k = lookup (st_snap (fst history_pool)) k)
       \<or> (\<exists>h. history_step sample_sha h (st_snap (fst history_pool)) (st_snap st'))" by auto
  with s(1) show ?thesis by blast
qed

section \<open>A run at its bound\<close>

lemma full_run_step:
  assumes "run_commit sha m s s'" "run_at s (run_slot d) = Holds r" "sr_event_count r = run_max_events"
    "rs_status (sr_summary r) = RunRunning"
  shows "run_at s' (run_slot d) = Holds r"
proof -
  have full: "sr_event_count x \<le> run_max_events" if "run_at s' k = Holds x" for k x
    using run_codec.cell_wf [OF that] by (simp add: wf_stored_run_def)
  have stays: "elsewhere K s s' \<Longrightarrow> run_slot d \<notin> K \<Longrightarrow> run_at s' (run_slot d) = Holds r" for K
    using assms(2) by (simp add: elsewhere_slots)
  show ?thesis
    using assms(1)
  proof (cases rule: run_commit.cases)
    case runs_untouched
    then show ?thesis using stays by blast
  next
    case (run_admitted request run now conv fingerprint lease)
    then show ?thesis using assms(2) by (intro stays) auto
  next
    case (run_recorded run r' now attempts body)
    show ?thesis
    proof (cases "d = sha run")
      case True
      then show ?thesis using full [OF run_recorded(4)] run_recorded(1) assms(2,3) by simp
    next
      case False
      then show ?thesis using run_recorded by (intro stays) auto
    qed
  next
    case (run_settled run r' status akey a now revision failure transcript response)
    show ?thesis
    proof (cases "d = sha run")
      case True
      then show ?thesis using full [OF run_settled(10)] run_settled(1) assms(2,3) by simp
    next
      case False
      moreover have "run_slot d \<noteq> akey" using run_settled(5) by (metis in_family_unique key_family.distinct slot_families(1))
      ultimately show ?thesis using run_settled by (intro stays) auto
    qed
  next
    case (admission_renewed akey a now lease)
    moreover have "run_slot d \<noteq> akey" using admission_renewed(2) by (metis in_family_unique key_family.distinct slot_families(1))
    ultimately show ?thesis by (intro stays) auto
  next
    case events_retired
    then have "lookup s' (run_slot d) = lookup s (run_slot d)" by (simp add: within_def run_families_def)
    then show ?thesis using assms(2) by (simp add: cell_at_def)
  next
    case (run_retired K)
    have "run_slot d \<notin> K" using run_retired(4) assms(2,4) by fastforce
    then show ?thesis using run_retired stays by blast
  qed
qed

text \<open>C37: A running run whose log has reached its bound of ten thousand events is never written again:
  no call settles it, classifies it as stale or retires it.\<close>

theorem full_run_is_stuck:
  assumes "served l cf m st P" "later l cf m P P'" "run_at (st_snap (fst P)) (run_slot d) = Holds r"
    "rs_status (sr_summary r) = RunRunning" "sr_event_count r = run_max_events"
  shows "run_at (st_snap (fst P')) (run_slot d) = Holds r"
proof -
  have "(run_commit (cf_sha cf) m)\<^sup>*\<^sup>* (st_snap (fst P)) (st_snap (fst P'))"
    using later_interf [OF assms(1,2)] by (simp add: interf_def)
  then show ?thesis using assms(3-5) by (induction rule: rtranclp_induct) (auto intro: full_run_step)
qed

definition full_run :: stored_run where
  "full_run = \<lparr>sr_summary = sample_summary, sr_event_count = run_max_events, sr_transcript = None\<rparr>"

lemma full_bytes: "\<exists>b. encode_execution_record (encode_stored_run full_run) = Inr b \<and> length b \<le> 20000"
proof -
  note defs = req_def opt_def encode_stored_run_def encode_summary_def full_run_def sample_summary_def new_summary_def status_text_def
  note walk = next_item_def container_guard_def snapshot_leaf_def execution_record_max_items_def execution_record_max_depth_def
  have number: "length (int_text (int run_max_events)) \<le> 10001"
    using nat_text_length [of run_max_events] by (simp add: int_text_def run_max_events_def)
  have "length (json_text (encode_summary sample_summary)) \<le> 5000"
    using quoted_samples quoted_numbers unfolding defs by (intro order_trans [OF object_length]) (simp add: cost_def run_statuses_def)
  then have "length (json_text (encode_stored_run full_run)) \<le> 20000"
    unfolding encode_stored_run_def full_run_def stored_run.simps req_def opt_def
    using quoted_samples quoted_numbers number by (intro order_trans [OF object_length]) (simp add: cost_def)
  moreover have "\<exists>n. snapshot_json (encode_stored_run full_run) ''$'' 0 0 = Inr (encode_stored_run full_run, n)"
    by (simp add: defs walk)
  ultimately show ?thesis using encoded by blast
qed

lemma full_run_wf: "wf_stored_run full_run"
proof -
  have "wf_summary sample_summary"
    using canonical_lease conv_ok by (simp add: sample_summary_def new_summary_def wf_summary_def numbered_def)
  then show ?thesis by (simp add: wf_stored_run_def full_run_def run_max_events_def) (simp add: sample_summary_def new_summary_def)
qed

lemma full_served:
  "\<exists>b. served one_limits run_config True (one_store (run_slot sample_digits) 1 b) (one_store (run_slot sample_digits) 1 b, [])
     \<and> run_at (st_snap (one_store (run_slot sample_digits) 1 b)) (run_slot sample_digits) = Holds full_run"
proof -
  obtain b where b: "encode_execution_record (encode_stored_run full_run) = Inr b" "length b \<le> 20000" using full_bytes by blast
  have "run_at (st_snap (one_store (run_slot sample_digits) 1 b)) (run_slot sample_digits) = Holds full_run"
    using run_codec.decoded_encode [OF b(1) full_run_wf]
    by (intro cell_holds [where r = "one_record 1 b"]) (auto simp: one_store_def lookup_def one_record_def)
  moreover have "snapshot_wf one_limits (st_snap (one_store (run_slot sample_digits) 1 b))"
    using b(2) sample_key_lengths(2)
    by (auto simp: one_store_def snapshot_wf_def lookup_def versions_ok_def one_record_def one_limits_def stored_size_def max_safe_integer_def
        split: if_splits)
  ultimately show ?thesis using sample_sha_hex by (auto simp: served_def config_ok_def)
qed

lemma full_run_is_stuck_witness:
  "\<exists>b P'. later one_limits run_config True (one_store (run_slot sample_digits) 1 b, []) P' \<and> length (snd P') = 1
     \<and> run_at (st_snap (fst P')) (run_slot sample_digits) = Holds full_run"
proof -
  obtain b where s: "served one_limits run_config True (one_store (run_slot sample_digits) 1 b) (one_store (run_slot sample_digits) 1 b, [])"
    and r: "run_at (st_snap (one_store (run_slot sample_digits) 1 b)) (run_slot sample_digits) = Holds full_run"
    using full_served by blast
  let ?P = "(one_store (run_slot sample_digits) 1 b, [])"
  let ?P' = "(one_store (run_slot sample_digits) 1 b, [] @ [(Admit admit_sample, journal_prog run_config (Admit admit_sample))])"
  have "calls_step one_limits run_config True ?P ?P'" by (rule pool_start)
  then have l: "later one_limits run_config True ?P ?P'" by (simp only: later_def r_into_rtranclp) simp
  have "run_at (st_snap (fst ?P')) (run_slot sample_digits) = Holds full_run"
    by (rule full_run_is_stuck [OF s l]) (use r in \<open>simp_all add: full_run_def sample_summary_def new_summary_def\<close>)
  with l show ?thesis by (intro exI [where x = b] exI [where x = ?P']) simp
qed

end
