(* ===== verification/RetryBounds.thy ===== *)
theory RetryBounds
  imports Journal JournalPool
begin

text \<open>
  How often a journal call tries to commit. \<open>tries n b p\<close>: whatever it is answered, \<open>p\<close> asks for at most
  \<open>n\<close> transactions, and when it returns at least \<open>b\<close> of them are left. The rules follow the structure of
  a program; each method with a loop is one lemma, whose number is the code's own count of turns.
\<close>

section \<open>The predicate and its rules\<close>

primrec tries :: "nat \<Rightarrow> nat \<Rightarrow> 'a prog \<Rightarrow> bool" where
  "tries n b (Return x) \<longleftrightarrow> b \<le> n"
| "tries n b (Throw e) \<longleftrightarrow> True"
| "tries n b Hang \<longleftrightarrow> True"
| "tries n b (ReadCall key f) \<longleftrightarrow> (\<forall>r. tries n b (f r))"
| "tries n b (ScanCall pre cursor k f) \<longleftrightarrow> (\<forall>r. tries n b (f r))"
| "tries n b (TransactCall q f) \<longleftrightarrow> (case n of 0 \<Rightarrow> False | Suc m \<Rightarrow> \<forall>r. tries m b (f r))"
| "tries n b (ClockCall f) \<longleftrightarrow> (\<forall>a. tries n b (f a))"
| "tries n b (GenerateCall g f) \<longleftrightarrow> (\<forall>v. tries n b (f v))"
| "tries n b (ArtifactCall a f) \<longleftrightarrow> (\<forall>r. tries n b (f r))"

abbreviation quiet :: "'a prog \<Rightarrow> bool" where
  "quiet \<equiv> tries 0 0"

named_theorems tries_intros

lemma tries_shift: "tries n b p \<Longrightarrow> tries (n + k) (b + k) p"
  by (induction p arbitrary: n) (auto split: nat.splits)

lemma tries_mono: "tries n b p \<Longrightarrow> n \<le> n' \<Longrightarrow> b' \<le> b \<Longrightarrow> tries n' b' p"
proof (induction p arbitrary: n n')
  case (TransactCall q f)
  then obtain m m' where m: "n = Suc m" "n' = Suc m'" "m \<le> m'" by (cases n; cases n') auto
  then have "tries m' b' (f r)" for r using TransactCall.IH [OF rangeI, of m r m'] TransactCall.prems by simp
  then show ?case by (simp add: m)
qed (simp_all, (metis rangeI)+)

lemma tries_bind: "tries n b p \<Longrightarrow> (\<And>x. tries b c (k x)) \<Longrightarrow> tries n c (pbind p k)"
proof (induction p arbitrary: n)
  case (Return x)
  then show ?case using tries_mono [of b c "k x" n c] by simp
next
  case (TransactCall q f)
  then show ?case by (cases n) auto
qed auto

lemma tries_quiet: "quiet p \<Longrightarrow> (\<And>x. tries n c (k x)) \<Longrightarrow> tries n c (pbind p k)"
  using tries_shift [of 0 0 p n] by (auto intro: tries_bind)

lemma tries_catch: "tries n 0 p \<Longrightarrow> (\<And>e m. m \<le> n \<Longrightarrow> tries m 0 (h e)) \<Longrightarrow> tries n 0 (pcatch p h)"
proof (induction p arbitrary: n)
  case (TransactCall q f)
  then show ?case by (cases n) auto
qed auto

lemma tries_Return [tries_intros]: "b \<le> n \<Longrightarrow> tries n b (Return x)"
  and tries_Throw [tries_intros]: "tries n b (Throw e)"
  and tries_Hang [tries_intros]: "tries n b Hang"
  by simp_all

lemma tries_if [tries_intros]: "(c \<Longrightarrow> tries n b p) \<Longrightarrow> (\<not> c \<Longrightarrow> tries n b q) \<Longrightarrow> tries n b (if c then p else q)"
  by simp

lemma tries_option [tries_intros]:
  "tries n b p \<Longrightarrow> (\<And>x. tries n b (f x)) \<Longrightarrow> tries n b (case v of None \<Rightarrow> p | Some x \<Rightarrow> f x)"
  by (cases v) auto

lemma tries_tx_result [tries_intros]:
  "(\<And>rs ks. tries n b (f rs ks)) \<Longrightarrow> (\<And>cs. tries n b (g cs)) \<Longrightarrow>
   tries n b (case r of TxApplied rs ks \<Rightarrow> f rs ks | TxConflict cs \<Rightarrow> g cs)"
  by (cases r) auto

lemma tries_sum [tries_intros]:
  "(\<And>e. tries n b (f e)) \<Longrightarrow> (\<And>x. tries n b (g x)) \<Longrightarrow> tries n b (case r of Inl e \<Rightarrow> f e | Inr x \<Rightarrow> g x)"
  by (cases r) auto

lemma tries_prod [tries_intros]: "(\<And>x y. tries n b (f x y)) \<Longrightarrow> tries n b (case p of (x, y) \<Rightarrow> f x y)"
  by (cases p) auto

lemma tries_js [tries_intros]: "(\<And>t. tries n b (f t)) \<Longrightarrow> tries n b p \<Longrightarrow> tries n b (case v of JBytes t \<Rightarrow> f t | _ \<Rightarrow> p)"
  "(\<And>c. tries n b (g c)) \<Longrightarrow> tries n b p \<Longrightarrow> tries n b (case v of JBool c \<Rightarrow> g c | _ \<Rightarrow> p)"
  "(\<And>t. tries n b (f t)) \<Longrightarrow> tries n b p \<Longrightarrow> tries n b (case v of JStr t \<Rightarrow> f t | _ \<Rightarrow> p)"
  by (cases v; simp)+

lemma tries_lift [tries_intros]: "b \<le> n \<Longrightarrow> tries n b (lift r)"
  and tries_bind_lift [tries_intros]: "(\<And>x. tries n b (k x)) \<Longrightarrow> tries n b (pbind (lift r) k)"
  by (cases r; simp)+

lemma tries_calls [tries_intros]:
  "(\<And>v. tries n b (h v)) \<Longrightarrow> tries n b (GenerateCall g h)"
  "(\<And>v. tries n b (f v)) \<Longrightarrow> tries n b (ArtifactCall a f)"
  by simp_all

lemma quiet_calls:
  "quiet (exec_read parse key)" "quiet (exec_read_bytes key)" "quiet (exec_scan pre cursor limit parse)"
  "quiet canonical_instant" "quiet journal_now" "quiet delivery_token" "quiet (is_expired v)" "quiet proactive_id"
  unfolding exec_read_def exec_read_bytes_def exec_scan_def canonical_instant_def journal_now_def delivery_token_def
    is_expired_def proactive_id_def
  by (auto intro!: tries_intros tries_quiet split: option.split js.split)

lemmas tries_quiet_calls [tries_intros] = quiet_calls [THEN tries_quiet]

lemma tries_transaction [tries_intros]:
  "(\<And>r. tries n b (k r)) \<Longrightarrow> tries (Suc n) b (pbind (exec_transaction q) k)"
  unfolding exec_transaction_def
  by (cases "rmap encode_put (xq_puts q)"; cases "rmap byte_put (xq_byte_puts q)") (auto intro!: tries_intros)

section \<open>Methods that commit nothing\<close>

lemma quiet_put_artifact: "quiet (exec_put_artifact cf data media file)"
  and quiet_read_artifact: "quiet (exec_read_artifact cf r)"
  and quiet_delete_artifact: "quiet (exec_delete_artifact cf r)"
  unfolding exec_put_artifact_def exec_read_artifact_def exec_delete_artifact_def by (intro tries_intros order_refl)+

lemma quiet_chunk_records: "quiet (load_chunk_records sha bytes ds)"
proof (induction ds arbitrary: bytes)
  case (Cons d ds)
  show ?case unfolding load_chunk_records.simps Let_def by (intro tries_intros tries_quiet [OF Cons.IH] order_refl)
qed simp

lemma quiet_load_state: "quiet (load_conversation_transcript_state cf c)"
proof -
  have "quiet (load_transcript_body cf c)"
    unfolding load_transcript_body_def load_chunked_transcript_def Let_def
    by (cases "cv_body c")
      (simp_all, (intro tries_intros tries_quiet [OF quiet_chunk_records] tries_quiet [OF quiet_read_artifact] order_refl)+)
  note step = tries_quiet [OF this]
  show ?thesis unfolding load_conversation_transcript_state_def by (intro step tries_intros order_refl)
qed

lemma quiet_load_transcript: "quiet (load_conversation_transcript cf c)"
  unfolding load_conversation_transcript_def by (intro tries_quiet [OF quiet_load_state] tries_intros order_refl)

lemma quiet_authority: "quiet (require_running_run cf run)" "quiet (require_running_admission cf request run conv)"
  "quiet (settle_admission cf run request conv)"
  unfolding require_running_run_def require_running_admission_def settle_admission_def by (intro tries_intros order_refl)+

lemma quiet_candidates: "quiet (delete_candidates cf proven as)"
proof (induction as arbitrary: proven)
  case (Cons a as)
  have "quiet (pcatch (pbind (lift (artifact_reference a)) (exec_delete_artifact cf)) (\<lambda>e. Return False))"
    by (rule tries_catch) (intro tries_intros quiet_delete_artifact, simp)
  note step = tries_quiet [OF this]
  show ?case unfolding delete_candidates.simps by (intro tries_intros step Cons.IH)
qed simp

lemma quiet_plan_transcript: "quiet (plan_transcript cf conv v)"
proof -
  have "quiet (case found of None \<Rightarrow> Return []
      | Some c \<Rightarrow> pbind (load_conversation_transcript_state cf (er_value c)) (\<lambda>loaded.
          if ct_revision (lt_transcript loaded) \<noteq> cv_revision (er_value c) \<or> length (ct_entries (lt_transcript loaded)) \<noteq> cv_count (er_value c)
          then Throw (PlainError ''canonical transcript pointer does not match its artifact'')
          else pbind (lift (assert_append_only (lt_transcript loaded) t)) (\<lambda>_. Return (lt_chunks loaded))))" for found t
    by (intro tries_intros tries_quiet [OF quiet_load_state] order_refl)
  note step = tries_quiet [OF this]
  show ?thesis unfolding plan_transcript_def by (intro tries_intros step order_refl)
qed

lemma quiet_plan_session: "quiet (plan_session cf conv input)"
  unfolding plan_session_def plan_session_store_def plan_session_eviction_def by (intro tries_intros order_refl)

lemma quiet_check_staged: "quiet (check_staged cf intent transcript)"
proof -
  have "quiet (read_all_artifacts cf rs)" for rs
    by (induction rs) (auto intro: tries_quiet [OF quiet_read_artifact])
  then show ?thesis unfolding check_staged_def by (intro tries_intros order_refl)
qed

section \<open>Methods that retry\<close>

lemma tries_loose: "tries n b p \<Longrightarrow> n \<le> m \<Longrightarrow> tries m b p"
  using tries_mono by blast

lemma tries_prepare: "tries delivery_retries 0 (prepare_delivery cf i)"
proof -
  have "tries n 0 (prepare_loop n cf key ident fp ch run)" for n key ident fp ch run
  proof (induction n)
    case (Suc n)
    show ?case
      unfolding prepare_loop.simps claim_absent_def prepare_existing_def expire_intent_def retry_failed_def Let_def
      by (intro tries_intros Suc.IH) simp_all
  qed simp
  then show ?thesis unfolding prepare_delivery_def by (intro tries_intros)
qed

lemma tries_settle_delivery: "tries 1 0 (settle_delivery cf i)"
  unfolding settle_delivery_def settle_found_def settle_active_def Let_def One_nat_def
  by (intro tries_intros) simp_all

lemma quiet_history_bound: "quiet (history_bound cf h d b)"
  unfolding history_bound_def Let_def by (intro tries_intros tries_quiet [OF quiet_load_transcript] order_refl)

lemma tries_history: "tries history_retries 0 (settle_delivery_with_history cf i)"
proof -
  have loaded: "quiet (case found of None \<Rightarrow> Return None
      | Some c \<Rightarrow> pbind (load_conversation_transcript_state cf (er_value c)) (\<lambda>l. Return (Some l)))" for found
    by (intro tries_intros tries_quiet [OF quiet_load_state] order_refl)
  have "tries n 0 (history_loop n cf h)" for n h
  proof (induction n)
    case (Suc n)
    show ?case
      unfolding history_loop.simps history_found_def history_unbound_def append_history_def Let_def
      by (intro tries_intros tries_quiet [OF loaded] Suc.IH tries_loose [OF quiet_history_bound]) simp_all
  qed simp
  then show ?thesis unfolding settle_delivery_with_history_def by (intro tries_intros)
qed

lemma tries_open: "tries open_retries 0 (open_conversation cf i)"
proof -
  have "tries n 0 (open_loop n cf title initial metadata)" for n title initial metadata
  proof (induction n)
    case (Suc n)
    show ?case unfolding open_loop.simps open_once_def by (intro tries_intros Suc.IH) simp_all
  qed simp
  then show ?thesis unfolding open_conversation_def by (intro tries_intros)
qed

lemma tries_evict: "tries 1 0 (evict_session cf conv route expected)"
  unfolding evict_session_def One_nat_def by (intro tries_intros) simp_all

lemma tries_commit_event: "tries n 0 again \<Longrightarrow> tries (Suc n) 0 (commit_run_event cf stored s e again)"
  unfolding commit_run_event_def by (intro tries_intros) simp_all

lemma tries_record_attempt: "tries admission_turns 0 (record_attempt cf run_v attempt_v)"
proof -
  have update: "tries n 0 p \<Longrightarrow> (\<And>as. tries n 0 (q as)) \<Longrightarrow> tries n 0 (case u of AlreadyRecorded \<Rightarrow> p | NewAttempts as \<Rightarrow> q as)"
    for n u and p :: "run_summary prog" and q
    by (cases u) auto
  have "tries n 0 (record_attempt_loop n cf run evidence)" for n run evidence
  proof (induction n)
    case (Suc n)
    show ?case unfolding record_attempt_loop.simps Let_def
      by (intro tries_quiet [OF quiet_authority(1)] tries_intros update tries_commit_event Suc.IH) simp_all
  qed simp
  then show ?thesis unfolding record_attempt_def by (intro tries_intros)
qed

lemma tries_record_interaction: "tries admission_turns 0 (record_interaction cf run_v evidence_v)"
proof -
  have "tries n 0 (record_interaction_loop n cf run evidence)" for n run evidence
  proof (induction n)
    case (Suc n)
    show ?case unfolding record_interaction_loop.simps
      by (intro tries_quiet [OF quiet_authority(1)] tries_intros tries_commit_event Suc.IH)
  qed simp
  then show ?thesis unfolding record_interaction_def by (intro tries_intros)
qed

lemma tries_renew: "tries 1 0 (renew_admission cf request_v run_v)"
  unfolding renew_admission_def Let_def One_nat_def by (intro tries_intros) simp_all

section \<open>Publication and its cleanup\<close>

lemma tries_ensure: "tries (intent_retries + n) n (ensure_artifact_intent cf run request ds)"
proof -
  have once: "tries (Suc m) n (ensure_once cf key run request ads again)" if "tries m n again" "n \<le> m" for m key ads again
    unfolding ensure_once_def store_intent_def Let_def
    by (intro tries_quiet [OF quiet_authority(1)] tries_quiet [OF quiet_authority(2)] tries_intros that) (use that(2) in simp_all)
  have "tries (m + n) n (ensure_loop m cf key run request ads)" for m key ads
    by (induction m) (auto intro: once)
  then show ?thesis unfolding ensure_artifact_intent_def by (intro tries_intros)
qed

lemma tries_abandon: "tries (intent_retries + n) n (abandon_artifact_publication ensured published)"
proof -
  have "tries (m + n) n (abandon_loop m ensured published)" for m
  proof (induction m)
    case (Suc m)
    show ?case unfolding abandon_loop.simps abandon_once_def Let_def add_Suc
      by (intro tries_intros Suc.IH) simp_all
  qed simp
  then show ?thesis by (simp add: abandon_artifact_publication_def)
qed

text \<open>A turn of the cleanup commits at most twice: the move to cleanup and its end.\<close>

lemma tries_reconcile: "tries (2 * reconcile_retries) 0 (reconcile_artifact_intent cf r)"
proof -
  have finish: "tries (Suc n) 0 (finish_cleanup cf proven current again)" if "\<And>p. tries n 0 (again p)" for n proven current again
  proof -
    have tx: "tries (Suc n) n (if b then exec_transaction q else pbind journal_now (\<lambda>now. exec_transaction (q' now)))" for b q q'
      using tries_transaction [where k = Return and b = n and n = n] by (intro tries_intros) simp_all
    show ?thesis unfolding finish_cleanup_def Let_def
      by (intro tries_intros tries_quiet [OF quiet_candidates] tries_bind [OF tx] that) simp_all
  qed
  have once: "tries (Suc (Suc n)) 0 (reconcile_once cf proven current again)" if "\<And>p. tries n 0 (again p)" for n proven current again
  proof -
    have again: "tries (Suc n) 0 (again p)" for p using tries_loose [OF that] by simp
    show ?thesis unfolding reconcile_once_def Let_def
      by (intro tries_intros finish that again tries_loose [OF finish [OF that]]) simp_all
  qed
  have "tries (2 * n) 0 (reconcile_loop n cf key proven)" for n key proven
  proof (induction n arbitrary: proven)
    case (Suc n)
    have "tries (Suc (Suc (2 * n))) 0 (reconcile_loop (Suc n) cf key proven)"
      unfolding reconcile_loop.simps by (intro tries_intros once Suc.IH) simp_all
    then show ?case by simp
  qed simp
  then have "tries (Suc (Suc (2 * 4))) 0 (reconcile_once cf [] r (reconcile_loop 4 cf (er_key r)))" by (intro once)
  then show ?thesis by (simp add: reconcile_artifact_intent_def reconcile_retries_def)
qed

definition cleanup_tries :: nat where
  "cleanup_tries = 2 * reconcile_retries"

lemma tries_best_reconcile: "tries cleanup_tries 0 (best_effort_reconcile cf run)"
  unfolding best_effort_reconcile_def cleanup_tries_def
  by (rule tries_catch) (intro tries_intros tries_bind [OF tries_reconcile]; simp)+

lemma tries_best_abandon: "tries (intent_retries + cleanup_tries) 0 (best_effort_abandon cf ensured published)"
  unfolding best_effort_abandon_def
  by (rule tries_catch, rule tries_bind [OF tries_abandon])
    (intro tries_intros tries_bind [OF tries_reconcile [folded cleanup_tries_def]]; simp)+

text \<open>A publication that fails gives up after its cleanup; one that works has committed nothing.\<close>

lemma tries_publish_one:
  assumes "intent_retries + cleanup_tries \<le> n"
  shows "tries n n (publish_one cf ensured published data media file d)"
proof -
  have put: "quiet (pcatch (pbind (exec_put_artifact cf data media file) (\<lambda>ref. Return (Inr ref))) (\<lambda>e. Return (Inl e)))"
    by (rule tries_catch) (intro tries_quiet [OF quiet_put_artifact] tries_intros; simp)+
  have abandon: "tries n n (pbind (case ensured of None \<Rightarrow> Return () | Some en \<Rightarrow> best_effort_abandon cf en published') (\<lambda>_. Throw e))"
    for published' e
    by (cases ensured) (auto intro: tries_bind [OF tries_loose [OF tries_best_abandon assms]])
  show ?thesis unfolding publish_one_def Let_def by (intro tries_quiet [OF put] tries_intros abandon order_refl)
qed

lemma tries_stage: "tries (intent_retries + (intent_retries + cleanup_tries)) 0 (stage_run_artifacts cf run_v request_v artifacts_v)"
proof -
  have "tries n 0 (publish_plans cf ensured published ps)" if "intent_retries + cleanup_tries \<le> n" for n ensured published ps
  proof (induction ps arbitrary: published)
    case (Cons p ps)
    show ?case unfolding publish_plans.simps
      by (rule tries_bind [OF tries_publish_one [OF that]]) (intro tries_intros tries_bind [OF Cons.IH], simp)
  qed simp
  then show ?thesis unfolding stage_run_artifacts_def
    by (intro tries_intros tries_bind [OF tries_ensure]) simp_all
qed

lemma tries_settle: "tries (intent_retries + (intent_retries + cleanup_tries)) 0 (settle cf input)"
proof -
  let ?m = "intent_retries + cleanup_tries"
  have intent: "tries (intent_retries + ?m) ?m (settlement_intent cf run request ds)" for run request ds
    unfolding settlement_intent_def by (intro tries_intros tries_bind [OF tries_ensure]) simp_all
  have slot: "tries ?m ?m (publish_slot cf ensured published media plan)" for ensured published media plan
    unfolding publish_slot_def by (intro tries_intros tries_bind [OF tries_publish_one]) simp_all
  have transcript: "quiet (if b then Return None else pbind (plan_transcript cf conv v) (\<lambda>t. Return (Some t)))" for b conv v
    by (intro tries_intros tries_quiet [OF quiet_plan_transcript] order_refl)
  have commit: "tries ?m 0 (commit_settlement cf p)" for p
  proof -
    have "tries (Suc cleanup_tries) 0 (commit_settlement cf p)"
      unfolding commit_settlement_def Let_def
      by (intro tries_intros) (auto intro!: tries_intros tries_bind [OF tries_best_reconcile])
    then show ?thesis by (rule tries_loose) (simp add: intent_retries_def)
  qed
  have running: "tries (intent_retries + ?m) 0 (settle_running cf input run request status failure stored)"
    for run request status failure stored
    unfolding settle_running_def Let_def
    by (intro tries_quiet [OF quiet_authority(3)] tries_quiet [OF transcript] tries_quiet [OF quiet_plan_session]
        tries_bind [OF intent] tries_quiet [OF quiet_check_staged] tries_bind [OF slot] tries_intros commit)
  show ?thesis unfolding settle_def Let_def by (intro tries_intros running) simp_all
qed

section \<open>Admission\<close>

lemma tries_existing: "tries (n + cleanup_tries) 0 (existing_admission n cf adm conv fp)"
proof (induction n arbitrary: adm)
  case (Suc n)
  have best: "tries (Suc n + cleanup_tries) 0 (pbind (best_effort_reconcile cf run) (\<lambda>_. Return x))" for run and x :: admission_answer
    by (rule tries_bind [OF tries_loose [OF tries_best_reconcile]]) simp_all
  have later: "tries (n + cleanup_tries) 0 (pbind (if b then Return () else best_effort_reconcile cf run) (\<lambda>_. Return x))"
    for b run and x :: admission_answer
    by (rule tries_bind [where b = 0]) (auto intro: tries_loose [OF tries_best_reconcile])
  have stale: "tries (Suc n + cleanup_tries) 0 (classify_stale cf adm again)" if "tries (n + cleanup_tries) 0 again" for again
    unfolding classify_stale_def Let_def add_Suc by (intro tries_intros later that)
  have again: "tries (n + cleanup_tries) 0 (case n of
        0 \<Rightarrow> Throw (PlainError ''stale admission classification did not converge'')
      | Suc m \<Rightarrow> pbind (exec_read parse_admission (er_key adm)) (\<lambda>current. case current of
          None \<Rightarrow> Throw (PlainError ''admission disappeared during stale classification'')
        | Some c \<Rightarrow> existing_admission n cf c conv fp))"
  proof (cases n)
    case (Suc m)
    have "tries (n + cleanup_tries) 0 (pbind (exec_read parse_admission (er_key adm)) (\<lambda>current. case current of
          None \<Rightarrow> Throw (PlainError ''admission disappeared during stale classification'')
        | Some c \<Rightarrow> existing_admission n cf c conv fp))"
      by (intro tries_intros Suc.IH)
    then show ?thesis unfolding Suc nat.case .
  qed simp
  show ?case unfolding existing_admission.simps Let_def
    by (intro tries_intros best stale again) simp_all
qed simp

definition admission_tries :: nat where
  "admission_tries = 2 * admission_turns - 1 + cleanup_tries"

lemma tries_admit: "tries admission_tries 0 (admit cf input)"
proof -
  have id: "quiet (choose_run_id v)" for v
  proof -
    have "quiet (if b then GenerateCall RunIdGenerator Return else Return v)" for b by simp
    then show ?thesis unfolding choose_run_id_def by (rule tries_quiet) (intro tries_intros order_refl)
  qed
  have fresh: "tries (Suc n) 0 (admit_new cf akey request conv fp run_v again)" if "tries n 0 again" for n akey request conv fp run_v again
    unfolding admit_new_def by (intro tries_quiet [OF id] tries_intros that) simp_all
  have loop: "tries (n + (2 + cleanup_tries)) 0 (admit_loop n cf akey request conv fp run_v)" for n akey request conv fp run_v
  proof (induction n)
    case (Suc n)
    have "tries (Suc (n + (2 + cleanup_tries))) 0 (existing_admission admission_turns cf a conv fp)" for a
      by (rule tries_loose [OF tries_existing]) (simp add: admission_turns_def)
    then show ?case unfolding admit_loop.simps add_Suc by (intro tries_intros fresh Suc.IH)
  qed simp
  then have "tries (admission_turns + (2 + cleanup_tries)) 0 (admit cf input)" unfolding admit_def by (intro tries_intros)
  then show ?thesis by (simp add: admission_tries_def admission_turns_def)
qed

section \<open>Reading\<close>

lemma quiet_read_run: "quiet (read_run cf run_v)"
proof -
  have pages: "quiet (read_event_pages n pre count events cursor)" for n pre count events cursor
  proof (induction n arbitrary: events cursor)
    case (Suc n)
    show ?case unfolding read_event_pages.simps Let_def by (intro tries_intros Suc.IH order_refl)
  qed simp
  have events: "quiet (read_events cf r)" for r
    unfolding read_events_def Let_def by (intro tries_intros tries_quiet [OF pages] order_refl)
  have transcript: "quiet (read_run_transcript cf r)" for r
    unfolding read_run_transcript_def by (intro tries_intros tries_quiet [OF quiet_read_artifact] order_refl)
  show ?thesis unfolding read_run_def
    by (intro tries_intros tries_quiet [OF events] tries_quiet [OF transcript] order_refl)
qed

lemma quiet_list_runs: "quiet (list_runs cf cursor)"
proof -
  have "quiet (summaries_of cf hs)" for hs
  proof (induction hs)
    case (Cons h hs)
    show ?case unfolding summaries_of.simps by (intro tries_intros Cons.IH tries_quiet [OF Cons.IH] order_refl)
  qed simp
  note step = tries_quiet [OF this]
  show ?thesis unfolding list_runs_def by (intro tries_intros step order_refl)
qed

lemma quiet_loads:
  "quiet (read_cached_response cf ref)" "quiet (load_transcript cf v)" "quiet (load_conversation cf v)"
  "quiet (list_conversations cf cursor)" "quiet (load_session cf v route)"
proof -
  have "quiet (pbind (lift (parse_artifact_ref ref)) (exec_read_artifact cf))"
    by (intro tries_intros quiet_read_artifact)
  then show "quiet (read_cached_response cf ref)" by (simp add: read_cached_response_def)
  show "quiet (load_transcript cf v)" "quiet (load_conversation cf v)" "quiet (list_conversations cf cursor)"
    "quiet (load_session cf v route)"
    unfolding load_transcript_def load_conversation_def list_conversations_def load_session_def Let_def
    by (intro tries_intros tries_quiet [OF quiet_load_transcript] order_refl)+
qed

section \<open>The journal\<close>

text \<open>The transactions a call may ask for. Retention and reconciliation do as many as there are records.\<close>

fun transaction_budget :: "journal_call \<Rightarrow> nat option" where
  "transaction_budget (Admit _) = Some 15"
| "transaction_budget (RenewAdmission _ _) = Some 1"
| "transaction_budget (RecordAttempt _ _) = Some 3"
| "transaction_budget (RecordInteraction _ _) = Some 3"
| "transaction_budget (StageRunArtifacts _ _ _) = Some 16"
| "transaction_budget (Settle _) = Some 16"
| "transaction_budget (OpenConversation _) = Some 3"
| "transaction_budget (SettleDeliveryWithHistory _) = Some 5"
| "transaction_budget (EvictProviderSession _ _ _) = Some 1"
| "transaction_budget (PrepareDelivery _) = Some 3"
| "transaction_budget (SettleDelivery _) = Some 1"
| "transaction_budget (ReconcileArtifactPublications _ _) = None"
| "transaction_budget (MaintainExecution _) = None"
| "transaction_budget _ = Some 0"

lemma tries_answer: "tries n 0 p \<Longrightarrow> tries n 0 (answer f p)"
  unfolding answer_def by (rule tries_bind) auto

lemmas turns_defs = admission_tries_def cleanup_tries_def admission_turns_def reconcile_retries_def intent_retries_def
  delivery_retries_def history_retries_def open_retries_def

lemma tries_counts:
  "tries 15 0 (admit cf i)" "tries 3 0 (record_attempt cf v w)" "tries 3 0 (record_interaction cf v w)"
  "tries 16 0 (stage_run_artifacts cf v w x)" "tries 16 0 (settle cf j)" "tries 3 0 (open_conversation cf v)"
  "tries 5 0 (settle_delivery_with_history cf h)" "tries 3 0 (prepare_delivery cf d)"
  using tries_admit [of cf i] tries_record_attempt [of cf v w] tries_record_interaction [of cf v w] tries_stage [of cf v w x]
    tries_settle [of cf j] tries_open [of cf v] tries_history [of cf h] tries_prepare [of cf d]
  by (simp_all add: turns_defs)

lemma tries_journal: "transaction_budget c = Some n \<Longrightarrow> tries n 0 (journal_prog cf c)"
  by (cases c)
    (auto simp: tries_answer tries_counts tries_renew [unfolded One_nat_def] tries_evict [unfolded One_nat_def]
      tries_settle_delivery [unfolded One_nat_def] quiet_read_run quiet_list_runs quiet_loads)

lemma tries_step: "prog_step E st p st' p' \<Longrightarrow> tries n b p \<Longrightarrow> tries (if transacts p then n - 1 else n) b p' \<and> (transacts p \<longrightarrow> 0 < n)"
  by (induction rule: prog_step.induct) (auto split: nat.splits)

lemma tries_run:
  assumes "\<And>i. i < k \<Longrightarrow> \<exists>st st'. prog_step E st (f i) st' (f (Suc i))" "tries n b (f 0)"
  shows "card {i. i < k \<and> transacts (f i)} \<le> n"
  using assms
proof (induction k arbitrary: f n)
  case (Suc k)
  let ?n = "if transacts (f 0) then n - 1 else n"
  obtain st st' where "prog_step E st (f 0) st' (f (Suc 0))" using Suc.prems(1) by blast
  from tries_step [OF this Suc.prems(2)] have t: "tries ?n b (f (Suc 0))" "transacts (f 0) \<longrightarrow> 0 < n" by simp_all
  have "card {i. i < k \<and> transacts (f (Suc i))} \<le> ?n"
    by (rule Suc.IH [where f = "\<lambda>i. f (Suc i)"]) (use Suc.prems(1) t(1) in auto)
  moreover have "{i. i < Suc k \<and> transacts (f i)} = (if transacts (f 0) then {0} else {}) \<union> Suc ` {i. i < k \<and> transacts (f (Suc i))}"
    by (auto simp: image_iff less_Suc_eq_0_disj)
  then have "card {i. i < Suc k \<and> transacts (f i)}
      \<le> card (if transacts (f 0) then {0 :: nat} else {}) + card (Suc ` {i. i < k \<and> transacts (f (Suc i))})"
    by (metis card_Un_le)
  moreover have "card (Suc ` {i. i < k \<and> transacts (f (Suc i))}) = card {i. i < k \<and> transacts (f (Suc i))}"
    by (rule card_image) simp
  ultimately show ?case using t(2) by (cases "transacts (f 0)") simp_all
qed simp

end
