(* ===== verification/RetryProps.thy ===== *)
theory RetryProps
  imports RetryBounds DeliveryRuns
begin

text \<open>How often a journal call tries to commit, over every execution of it.\<close>

lemma reaches_chain:
  "reaches E st p st' p' \<Longrightarrow>
   \<exists>k f. f 0 = p \<and> f k = p' \<and> (\<forall>i < k. \<exists>st st'. prog_step E st (f i) st' (f (Suc i)))"
proof (induction rule: reaches.induct)
  case (reach_here st p)
  then show ?case by (intro exI [of _ 0] exI [of _ "\<lambda>_. p"]) simp
next
  case (reach_step st p st1 p1 st' p')
  then obtain k f where f: "f 0 = p1" "f k = p'" "\<And>i. i < k \<Longrightarrow> \<exists>st st'. prog_step E st (f i) st' (f (Suc i))" by blast
  have "\<exists>st st'. prog_step E st (case_nat p f i) st' (case_nat p f (Suc i))" if "i < Suc k" for i
    using that f reach_step.hyps(1) by (cases i) auto
  then show ?case using f(2) by (intro exI [of _ "Suc k"] exI [of _ "case_nat p f"]) simp
qed

text \<open>C14: Contention cannot keep a call trying: over any execution, on any stores and with any answers, the
  call asks for no more transactions than its budget, which are the turns of its loops. Preparing a
  delivery tries three times, settling it once, settling it with its history five times; an admission
  fifteen times, clean-up of its predecessor included.\<close>

theorem retries_bounded:
  assumes "transaction_budget c = Some n" "f 0 = journal_prog cf c"
    and steps: "\<forall>i < k. \<exists>st st'. prog_step E st (f i) st' (f (Suc i))"
  shows "card {i. i < k \<and> transacts (f i)} \<le> n"
  by (rule tries_run [where f = f and E = E and b = 0]) (use tries_journal [OF assms(1)] assms(2) steps in simp_all)

lemma retries_bounded_witness:
  "\<exists>(k :: nat) f. f 0 = journal_prog run_config (PrepareDelivery claim_input) \<and> f k = Return (DeliveryAnswer (DeliverySend 1 ''t1''))
     \<and> card {i. i < k \<and> transacts (f i)} \<le> 3"
proof -
  have "reaches run_setting new_store (journal_prog run_config (PrepareDelivery claim_input)) (one_store run_key 1 (bytes_of claimed))
      (Return (DeliveryAnswer (DeliverySend 1 ''t1'')))"
    using reach_answer [OF claim_run] by simp
  from reaches_chain [OF this] obtain k f where f: "f 0 = journal_prog run_config (PrepareDelivery claim_input)"
      "f k = Return (DeliveryAnswer (DeliverySend 1 ''t1''))"
      "\<forall>i < k. \<exists>st st'. prog_step run_setting st (f i) st' (f (Suc i))"
    by blast
  have c: "card {i. i < k \<and> transacts (f i)} \<le> 3" by (rule retries_bounded [OF _ f(1,3)]) simp_all
  show ?thesis by (rule exI [of _ k], rule exI [of _ f], rule conjI [OF f(1) conjI [OF f(2) c]])
qed

end
