(* ===== verification/CronRecord.thy ===== *)
theory CronRecord
  imports StateStore ExecBytes RecordCodec
begin

text \<open>
  The durable record a cron trigger keeps of one job, its strict reader and its writer, and the pure
  operations on it (\<^verbatim>\<open>packages/trigger-cron/src/scheduler-durable.ts\<close>, \<^verbatim>\<open>jobs.ts\<close>, \<^verbatim>\<open>scheduler.ts\<close>).
\<close>

section \<open>Instants\<close>

text \<open>\<^verbatim>\<open>new Date(s).getTime()\<close> on a text that \<^verbatim>\<open>toISOString\<close> can print: years outside 0 to 9999
  have a sign and six digits.\<close>

definition instant_ms :: "string \<Rightarrow> int" where
  "instant_ms s =
     (if length s = 27 then
        ms_of_fields ((read_fields (''0000'' @ drop 7 s))
          \<lparr>yr := (if take 1 s = ''-'' then - 1 else 1) * int (read_nat 0 (take 6 (drop 1 s)))\<rparr>)
      else date_ms s)"

text \<open>\<^verbatim>\<open>canonicalInstant\<close> accepts exactly the texts \<^verbatim>\<open>toISOString\<close> prints.\<close>

definition instant_ok :: "string \<Rightarrow> bool" where
  "instant_ok s \<longleftrightarrow> \<bar>instant_ms s\<bar> \<le> max_date_ms \<and> to_iso (instant_ms s) = s"

lemma small_tail: "small_fields ((fields_of_ms t)\<lparr>yr := 0\<rparr>)"
proof -
  define y where "y = year_of_day (t div 86400000)"
  define yd where "yd = t div 86400000 - day_from_year y"
  define r where "r = nat (t mod 86400000)"
  have yd: "0 \<le> yd" "yd < 367" unfolding yd_def y_def by (rule yday_bounds)+
  have "month_of (is_leap y) yd < 100" using month_of_bounds [OF yd(1), of "is_leap y"] by simp
  moreover have "nat (yd - month_start (is_leap y) (month_of (is_leap y) yd)) + 1 < 100"
    using day_of_month_bounds [OF yd, of "is_leap y"] by simp
  moreover have "r div 3600000 < 100" unfolding r_def by linarith
  moreover have "r div 60000 mod 60 < 100" "r div 1000 mod 60 < 100" "r mod 1000 < 1000"
    using mod_less_divisor [of 60 "r div 60000"] mod_less_divisor [of 60 "r div 1000"] by linarith+
  moreover have "fields_of_ms t = \<lparr>yr = y, mon = month_of (is_leap y) yd,
      dom = nat (yd - month_start (is_leap y) (month_of (is_leap y) yd)) + 1,
      hh = r div 3600000, mi = r div 60000 mod 60, ss = r div 1000 mod 60, msec = r mod 1000\<rparr>"
    by (simp only: fields_of_ms_def Let_def y_def yd_def r_def)
  ultimately show ?thesis by (simp only: small_fields_def date_fields.simps) simp
qed

lemma iso_tail_yr [simp]: "iso_tail (f\<lparr>yr := y\<rparr>) = iso_tail f"
  by (simp add: iso_tail_def)

lemma year_bound:
  assumes "\<bar>t\<bar> \<le> max_date_ms"
  shows "\<bar>year_of_day (t div 86400000)\<bar> < 1000000"
proof -
  have "day_from_year 1000000 > t div 86400000" "day_from_year (- 999999) \<le> t div 86400000"
    using assms by (simp_all add: day_from_year_def max_date_ms_def)
  then show ?thesis
    using year_of_day_bounds [of "t div 86400000"] day_from_year_mono [of 1000000 "year_of_day (t div 86400000)"]
      day_from_year_mono [of "year_of_day (t div 86400000) + 1" "- 999999"]
    by linarith
qed

lemma instant_to_iso:
  assumes "\<bar>t\<bar> \<le> max_date_ms"
  shows "instant_ms (to_iso t) = t"
proof (cases "four_digit_year t")
  case True
  then have "length (to_iso t) = 24" by (simp add: length_to_iso)
  then show ?thesis using True by (simp add: instant_ms_def date_ms_to_iso)
next
  case False
  let ?f = "fields_of_ms t" and ?y = "year_of_day (t div 86400000)"
  have y: "\<not> (0 \<le> ?y \<and> ?y \<le> 9999)" using False by (simp add: four_digit_year_of_day)
  let ?s = "if ?y < 0 then ''-'' else ''+''"
  have iso: "to_iso t = ?s @ fixed_text 6 (nat \<bar>?y\<bar>) @ iso_tail ?f"
    using y by (auto simp: to_iso_def Let_def iso_year_def)
  have parts: "length (to_iso t) = 27" "drop 7 (to_iso t) = iso_tail ?f" "take 1 (to_iso t) = ?s"
    "take 6 (drop 1 (to_iso t)) = fixed_text 6 (nat \<bar>?y\<bar>)"
    unfolding iso by simp_all
  have "''0000'' @ iso_tail ?f = iso_year (yr (?f\<lparr>yr := 0\<rparr>)) @ iso_tail (?f\<lparr>yr := 0\<rparr>)"
    by (simp add: iso_year_def fixed_text_unfold digit_char_def) code_simp
  then have "read_fields (''0000'' @ iso_tail ?f) = ?f\<lparr>yr := 0\<rparr>"
    by (simp only: read_fields_iso [OF small_tail])
  moreover have "read_nat 0 (fixed_text 6 (nat \<bar>?y\<bar>)) = nat \<bar>?y\<bar>"
    using year_bound [OF assms] by (simp add: read_fixed_text)
  ultimately have "instant_ms (to_iso t) = ms_of_fields (?f\<lparr>yr := ?y\<rparr>)"
    unfolding instant_ms_def parts by simp
  also have "?f\<lparr>yr := ?y\<rparr> = ?f" by (simp add: fields_of_ms_def Let_def)
  finally show ?thesis by (simp add: ms_of_fields_of_ms)
qed

lemma instant_ok_iff: "instant_ok s \<longleftrightarrow> (\<exists>t. \<bar>t\<bar> \<le> max_date_ms \<and> s = to_iso t)"
  unfolding instant_ok_def by (metis instant_to_iso)

lemma instant_ok_iso [simp]: "\<bar>t\<bar> \<le> max_date_ms \<Longrightarrow> instant_ok (to_iso t)"
  by (auto simp: instant_ok_iff)

section \<open>Jobs\<close>

datatype cron_overlap = OverlapSkip | OverlapQueue | OverlapReplace
datatype cron_overflow = DropNewest | DropOldest | Coalesce
datatype cron_notify = NotifyChannel string | NotifyDestination string string

record cron_job =
  jb_id :: string
  jb_expression :: string
  jb_timezone :: string
  jb_prompt :: string
  jb_runtime :: "string option"
  jb_model :: "string option"
  jb_effort :: "string option"
  jb_notify :: "cron_notify option"
  jb_overlap :: cron_overlap
  jb_queue_depth :: nat
  jb_overflow :: cron_overflow
  jb_max_run_ms :: nat

datatype cron_status =
    CronAccepted | CronRejected | CronDuplicate | CronSkipped | CronQueued | CronDropped | CronCancelled | CronUnknown | CronMissed

definition outcome_statuses :: "(string \<times> cron_status) list" where
  "outcome_statuses =
     [(''accepted'', CronAccepted), (''rejected'', CronRejected), (''duplicate'', CronDuplicate), (''skipped'', CronSkipped),
      (''queued'', CronQueued), (''dropped'', CronDropped), (''cancelled'', CronCancelled), (''unknown'', CronUnknown),
      (''missed'', CronMissed)]"

datatype issue_status = IssueMissed | IssueRejected | IssueUnknown | IssueClockRegressed

definition issue_statuses :: "(string \<times> issue_status) list" where
  "issue_statuses = [(''missed'', IssueMissed), (''rejected'', IssueRejected), (''unknown'', IssueUnknown), (''clock-regressed'', IssueClockRegressed)]"

section \<open>The durable record\<close>

record durable_active =
  da_owner :: string
  da_key :: string
  da_scheduled :: string
  da_claimed :: string

record durable_outcome =
  do_status :: cron_status
  do_scheduled :: string
  do_key :: string

record durable_issue =
  di_status :: issue_status
  di_observed :: string
  di_scheduled :: string

record durable_missed =
  dm_ranges :: nat
  dm_at_least :: nat
  dm_from :: string
  dm_through :: string

record clock_regression =
  dc_from :: string
  dc_to :: string

record durable_job =
  dj_job :: string
  dj_schedule :: string
  dj_watermark :: string
  dj_active :: "durable_active option"
  dj_outcome :: "durable_outcome option"
  dj_issue :: "durable_issue option"
  dj_missed :: "durable_missed option"
  dj_regressions :: nat
  dj_last_regression :: "clock_regression option"

definition durable_record_bytes :: nat where "durable_record_bytes = 16 * 1024"

section \<open>The reader\<close>

definition invalid_field :: "string \<Rightarrow> js_error" where
  "invalid_field field = PlainError (''Cron durable '' @ field @ '' is invalid.'')"

definition exact_record :: "string list \<Rightarrow> string \<Rightarrow> js \<Rightarrow> (string \<times> js) list result" where
  "exact_record allowed field v =
     (case v of
        JObj fs \<Rightarrow>
          if list_all (\<lambda>(k, _). k \<in> set allowed) fs then Inr fs else Inl (PlainError (field @ '' contains unknown fields.''))
      | JBytes _ \<Rightarrow> Inl (PlainError (field @ '' must be a plain object.''))
      | JExotic \<Rightarrow> Inl (PlainError (field @ '' must be a plain object.''))
      | _ \<Rightarrow> Inl (PlainError (field @ '' must be an object.'')))"

definition cron_string :: "string \<Rightarrow> nat \<Rightarrow> js \<Rightarrow> string result" where
  "cron_string field maximum v =
     (case v of
        JStr s \<Rightarrow> if s \<noteq> [] \<and> utf16_length s \<le> maximum then Inr s else Inl (invalid_field field)
      | _ \<Rightarrow> Inl (invalid_field field))"

definition cron_instant :: "string \<Rightarrow> js \<Rightarrow> string result" where
  "cron_instant field v =
     (case v of JStr s \<Rightarrow> if instant_ok s then Inr s else Inl (invalid_field field) | _ \<Rightarrow> Inl (invalid_field field))"

definition cron_integer :: "string \<Rightarrow> js \<Rightarrow> nat result" where
  "cron_integer field v =
     (case v of JNum n \<Rightarrow> if 0 \<le> n \<and> n \<le> max_safe_integer then Inr (nat n) else Inl (invalid_field field)
      | _ \<Rightarrow> Inl (invalid_field field))"

definition positive_integer :: "string \<Rightarrow> js \<Rightarrow> nat result" where
  "positive_integer field v =
     rbind (cron_integer field v) (\<lambda>n. if n = 0 then Inl (invalid_field field) else Inr n)"

definition cron_enum :: "string \<Rightarrow> (string \<times> 'a) list \<Rightarrow> js \<Rightarrow> 'a result" where
  "cron_enum message table v =
     (case v of
        JStr s \<Rightarrow> (case map_of table s of None \<Rightarrow> Inl (PlainError message) | Some x \<Rightarrow> Inr x)
      | _ \<Rightarrow> Inl (PlainError message))"

definition owner_id_ok :: "string \<Rightarrow> bool" where
  "owner_id_ok s \<longleftrightarrow> length s = 36 \<and> list_all (\<lambda>c. is_hex c \<or> c = CHR ''-'') s"

definition key_text :: string where "key_text = ''cron:v1:''"

definition cron_key_ok :: "string \<Rightarrow> bool" where
  "cron_key_ok s \<longleftrightarrow> take 8 s = key_text \<and> hex64 (drop 8 s)"

definition cron_key_field :: "string \<Rightarrow> js \<Rightarrow> string result" where
  "cron_key_field subject v =
     rbind (cron_string ''idempotencyKey'' 80 v) (\<lambda>key.
     rbind (require (cron_key_ok key) (PlainError (subject @ '' has an invalid idempotency key.''))) (\<lambda>_. Inr key))"

definition parse_active :: "js \<Rightarrow> durable_active result" where
  "parse_active v =
     rbind (exact_record [''ownerId'', ''idempotencyKey'', ''scheduledAt'', ''claimedAt''] ''Cron durable active invocation'' v) (\<lambda>input.
     rbind (cron_string ''ownerId'' 64 (fld input ''ownerId'')) (\<lambda>owner.
     rbind (require (owner_id_ok owner) (PlainError ''Cron durable active invocation has an invalid owner id.'')) (\<lambda>_.
     rbind (cron_key_field ''Cron durable active invocation'' (fld input ''idempotencyKey'')) (\<lambda>key.
     rbind (cron_instant ''scheduledAt'' (fld input ''scheduledAt'')) (\<lambda>scheduled.
     rbind (cron_instant ''claimedAt'' (fld input ''claimedAt'')) (\<lambda>claimed.
     Inr \<lparr>da_owner = owner, da_key = key, da_scheduled = scheduled, da_claimed = claimed\<rparr>))))))"

definition parse_outcome :: "js \<Rightarrow> durable_outcome result" where
  "parse_outcome v =
     rbind (exact_record [''status'', ''scheduledAt'', ''idempotencyKey''] ''Cron durable outcome'' v) (\<lambda>input.
     rbind (cron_enum ''Cron durable outcome has an invalid status.'' outcome_statuses (fld input ''status'')) (\<lambda>status.
     rbind (cron_key_field ''Cron durable outcome'' (fld input ''idempotencyKey'')) (\<lambda>key.
     rbind (cron_instant ''scheduledAt'' (fld input ''scheduledAt'')) (\<lambda>scheduled.
     Inr \<lparr>do_status = status, do_scheduled = scheduled, do_key = key\<rparr>))))"

definition parse_issue :: "js \<Rightarrow> durable_issue result" where
  "parse_issue v =
     rbind (exact_record [''status'', ''observedAt'', ''scheduledAt''] ''Cron durable health issue'' v) (\<lambda>input.
     rbind (cron_enum ''Cron durable health issue has an invalid status.'' issue_statuses (fld input ''status'')) (\<lambda>status.
     rbind (cron_instant ''observedAt'' (fld input ''observedAt'')) (\<lambda>observed.
     rbind (cron_instant ''scheduledAt'' (fld input ''scheduledAt'')) (\<lambda>scheduled.
     Inr \<lparr>di_status = status, di_observed = observed, di_scheduled = scheduled\<rparr>))))"

definition parse_missed :: "js \<Rightarrow> durable_missed result" where
  "parse_missed v =
     rbind (exact_record [''ranges'', ''atLeast'', ''from'', ''through''] ''Cron durable missed range'' v) (\<lambda>input.
     rbind (cron_instant ''from'' (fld input ''from'')) (\<lambda>from_at.
     rbind (cron_instant ''through'' (fld input ''through'')) (\<lambda>through_at.
     rbind (require (instant_ms from_at \<le> instant_ms through_at) (PlainError ''Cron durable missed range is reversed.'')) (\<lambda>_.
     rbind (positive_integer ''ranges'' (fld input ''ranges'')) (\<lambda>ranges.
     rbind (positive_integer ''atLeast'' (fld input ''atLeast'')) (\<lambda>at_least.
     Inr \<lparr>dm_ranges = ranges, dm_at_least = at_least, dm_from = from_at, dm_through = through_at\<rparr>))))))"

definition parse_clock_regression :: "js \<Rightarrow> clock_regression result" where
  "parse_clock_regression v =
     rbind (exact_record [''from'', ''to''] ''Cron durable clock regression'' v) (\<lambda>input.
     rbind (cron_instant ''from'' (fld input ''from'')) (\<lambda>from_at.
     rbind (cron_instant ''to'' (fld input ''to'')) (\<lambda>to_at.
     rbind (require (instant_ms to_at < instant_ms from_at) (PlainError ''Cron durable clock regression must move backward.'')) (\<lambda>_.
     Inr \<lparr>dc_from = from_at, dc_to = to_at\<rparr>))))"

definition state_subject :: "string \<Rightarrow> string" where
  "state_subject job = ''Cron durable state for job \"'' @ job @ ''\"''"

definition parse_durable_fields :: "string \<Rightarrow> js \<Rightarrow> durable_job result" where
  "parse_durable_fields job v =
     rbind (exact_record [''schemaVersion'', ''jobId'', ''scheduleFingerprint'', ''watermark'', ''active'', ''lastOutcome'',
              ''issue'', ''missed'', ''clockRegressions'', ''lastClockRegression''] (state_subject job) v) (\<lambda>input.
     rbind (require (fld input ''schemaVersion'' = JNum 1 \<and> fld input ''jobId'' = JStr job)
              (PlainError (state_subject job @ '' has the wrong identity or schema version.''))) (\<lambda>_.
     rbind (cron_string ''scheduleFingerprint'' 64 (fld input ''scheduleFingerprint'')) (\<lambda>schedule.
     rbind (require (hex64 schedule) (PlainError (state_subject job @ '' has an invalid schedule fingerprint.''))) (\<lambda>_.
     rbind (cron_instant ''watermark'' (fld input ''watermark'')) (\<lambda>watermark.
     rbind (cron_integer ''clockRegressions'' (fld input ''clockRegressions'')) (\<lambda>regressions.
     rbind (opt_field parse_active (fld input ''active'')) (\<lambda>active.
     rbind (opt_field parse_outcome (fld input ''lastOutcome'')) (\<lambda>outcome.
     rbind (opt_field parse_issue (fld input ''issue'')) (\<lambda>issue.
     rbind (opt_field parse_missed (fld input ''missed'')) (\<lambda>missed.
     rbind (opt_field parse_clock_regression (fld input ''lastClockRegression'')) (\<lambda>last.
     Inr \<lparr>dj_job = job, dj_schedule = schedule, dj_watermark = watermark, dj_active = active, dj_outcome = outcome,
       dj_issue = issue, dj_missed = missed, dj_regressions = regressions, dj_last_regression = last\<rparr>)))))))))))"

definition parse_durable_record :: "string \<Rightarrow> string \<Rightarrow> durable_job result" where
  "parse_durable_record job bytes =
     (if bytes = [] \<or> durable_record_bytes < length bytes then Inl (PlainError (state_subject job @ '' has an invalid size.''))
      else case json_parse bytes of
        None \<Rightarrow> Inl (PlainError (state_subject job @ '' is not valid JSON.''))
      | Some v \<Rightarrow> parse_durable_fields job v)"

section \<open>The writer\<close>

text \<open>A count past the safe integers prints as the floating-point number it is.\<close>

definition count_js :: "nat \<Rightarrow> js" where
  "count_js n = (if int n \<le> max_safe_integer then JNum (int n) else JFloat (nat_text n))"

definition encode_active :: "durable_active \<Rightarrow> js" where
  "encode_active a = JObj (req ''ownerId'' (JStr (da_owner a)) @ req ''idempotencyKey'' (JStr (da_key a))
     @ req ''scheduledAt'' (JStr (da_scheduled a)) @ req ''claimedAt'' (JStr (da_claimed a)))"

definition encode_outcome :: "durable_outcome \<Rightarrow> js" where
  "encode_outcome x = JObj (req ''status'' (JStr (enum_text outcome_statuses (do_status x)))
     @ req ''scheduledAt'' (JStr (do_scheduled x)) @ req ''idempotencyKey'' (JStr (do_key x)))"

definition encode_issue :: "durable_issue \<Rightarrow> js" where
  "encode_issue x = JObj (req ''status'' (JStr (enum_text issue_statuses (di_status x)))
     @ req ''observedAt'' (JStr (di_observed x)) @ req ''scheduledAt'' (JStr (di_scheduled x)))"

definition encode_missed :: "durable_missed \<Rightarrow> js" where
  "encode_missed x = JObj (req ''ranges'' (count_js (dm_ranges x)) @ req ''atLeast'' (count_js (dm_at_least x))
     @ req ''from'' (JStr (dm_from x)) @ req ''through'' (JStr (dm_through x)))"

definition encode_clock_regression :: "clock_regression \<Rightarrow> js" where
  "encode_clock_regression x = JObj (req ''from'' (JStr (dc_from x)) @ req ''to'' (JStr (dc_to x)))"

definition durable_json :: "durable_job \<Rightarrow> js" where
  "durable_json r =
     JObj (req ''schemaVersion'' (JNum 1) @ req ''jobId'' (JStr (dj_job r)) @ req ''scheduleFingerprint'' (JStr (dj_schedule r))
       @ req ''watermark'' (JStr (dj_watermark r)) @ opt ''active'' encode_active (dj_active r)
       @ opt ''lastOutcome'' encode_outcome (dj_outcome r) @ opt ''issue'' encode_issue (dj_issue r)
       @ opt ''missed'' encode_missed (dj_missed r) @ req ''clockRegressions'' (count_js (dj_regressions r))
       @ opt ''lastClockRegression'' encode_clock_regression (dj_last_regression r))"

definition encode_durable_record :: "durable_job \<Rightarrow> string result" where
  "encode_durable_record r =
     (let bytes = json_text (durable_json r) @ [CHR 0x0A] in
      if durable_record_bytes < length bytes then Inl (PlainError ''Cron durable state record exceeds its byte limit.'')
      else Inr bytes)"

section \<open>The round trip\<close>

lemma json_parse_line: "json_ok v \<Longrightarrow> json_parse (json_text v @ [CHR 0x0A]) = Some v"
  using p_text_roundtrip(1) [of v "[CHR 0x0A]" "Suc (length (json_text v @ [CHR 0x0A]))"]
  by (simp add: json_parse_def number_char_def is_digit_def code_of_def del: p_value.simps)

lemma outcome_enum [simp]: "enum_ok outcome_statuses" "enum_ok issue_statuses"
  unfolding enum_ok_def
  by (rule allI, case_tac a, simp_all add: outcome_statuses_def, rule allI, case_tac a, simp_all add: issue_statuses_def)

lemma exact_record_Inr [parse_iffs]:
  "exact_record allowed field v = Inr fs \<longleftrightarrow> v = JObj fs \<and> list_all (\<lambda>(k, _). k \<in> set allowed) fs"
  by (auto simp: exact_record_def split: js.splits)

lemma cron_string_Inr [parse_iffs]:
  "cron_string field n v = Inr t \<longleftrightarrow> v = JStr t \<and> t \<noteq> [] \<and> utf16_length t \<le> n"
  by (auto simp: cron_string_def split: js.splits)

lemma cron_instant_Inr [parse_iffs]: "cron_instant field v = Inr t \<longleftrightarrow> v = JStr t \<and> instant_ok t"
  by (auto simp: cron_instant_def split: js.splits)

lemma cron_integer_Inr [parse_iffs]: "cron_integer field v = Inr i \<longleftrightarrow> v = JNum (int i) \<and> int i \<le> max_safe_integer"
  by (auto simp: cron_integer_def split: js.splits)

lemma positive_integer_Inr [parse_iffs]:
  "positive_integer field v = Inr i \<longleftrightarrow> v = JNum (int i) \<and> 0 < i \<and> int i \<le> max_safe_integer"
  by (auto simp: positive_integer_def rbind_Inr_iff cron_integer_Inr)

lemma cron_enum_Inr [parse_iffs]: "cron_enum message table v = Inr x \<longleftrightarrow> (\<exists>t. v = JStr t \<and> map_of table t = Some x)"
  by (auto simp: cron_enum_def split: js.splits option.splits)

lemma hex_ascii: "is_hex c \<Longrightarrow> code_of c < 128"
  by (auto simp: is_hex_def code_of_def)

lemma minus_ascii: "code_of CHR ''-'' < 128"
  by code_simp

lemma utf16_ascii: "list_all (\<lambda>c. code_of c < 128) s \<Longrightarrow> utf16_length s = length s"
  by (induction s) (auto simp: utf16_length_def code_of_def)

lemma cron_key_lengths:
  assumes "cron_key_ok s"
  shows "s \<noteq> []" "utf16_length s = 72"
proof -
  have s: "s = key_text @ drop 8 s" using assms append_take_drop_id [of 8 s] by (simp add: cron_key_ok_def)
  have h: "length (drop 8 s) = 64" "list_all is_hex (drop 8 s)" using assms by (simp_all add: cron_key_ok_def hex64_def)
  show "s \<noteq> []" using h(1) by auto
  have "list_all (\<lambda>c. code_of c < 128) key_text" by code_simp
  then have "list_all (\<lambda>c. code_of c < 128) (key_text @ drop 8 s)"
    using h(2) hex_ascii by (auto simp: list_all_iff)
  then have "utf16_length s = length s" using s utf16_ascii by metis
  then show "utf16_length s = 72" using h(1) by simp
qed

lemma owner_lengths:
  assumes "owner_id_ok s"
  shows "s \<noteq> []" "utf16_length s = 36"
proof -
  have "length s = 36" "list_all (\<lambda>c. is_hex c \<or> c = CHR ''-'') s" using assms by (simp_all add: owner_id_ok_def)
  moreover have "list_all (\<lambda>c. code_of c < 128) s"
    using calculation(2) by (rule list.pred_mono_strong) (metis hex_ascii minus_ascii)
  ultimately show "s \<noteq> []" "utf16_length s = 36" using utf16_ascii [of s] by auto
qed

lemma hex64_lengths: "hex64 s \<Longrightarrow> s \<noteq> [] \<and> utf16_length s = 64"
  using utf16_ascii [of s] by (auto simp: hex64_def list_all_iff dest: hex_ascii)

definition wf_active :: "durable_active \<Rightarrow> bool" where
  "wf_active a \<longleftrightarrow> owner_id_ok (da_owner a) \<and> cron_key_ok (da_key a) \<and> instant_ok (da_scheduled a) \<and> instant_ok (da_claimed a)"

definition wf_outcome :: "durable_outcome \<Rightarrow> bool" where
  "wf_outcome x \<longleftrightarrow> cron_key_ok (do_key x) \<and> instant_ok (do_scheduled x)"

definition wf_issue :: "durable_issue \<Rightarrow> bool" where
  "wf_issue x \<longleftrightarrow> instant_ok (di_observed x) \<and> instant_ok (di_scheduled x)"

definition wf_missed :: "durable_missed \<Rightarrow> bool" where
  "wf_missed x \<longleftrightarrow> instant_ok (dm_from x) \<and> instant_ok (dm_through x) \<and> instant_ms (dm_from x) \<le> instant_ms (dm_through x)
     \<and> 0 < dm_ranges x \<and> int (dm_ranges x) \<le> max_safe_integer \<and> 0 < dm_at_least x \<and> int (dm_at_least x) \<le> max_safe_integer"

definition wf_clock_regression :: "clock_regression \<Rightarrow> bool" where
  "wf_clock_regression x \<longleftrightarrow> instant_ok (dc_from x) \<and> instant_ok (dc_to x) \<and> instant_ms (dc_to x) < instant_ms (dc_from x)"

definition wf_durable :: "durable_job \<Rightarrow> bool" where
  "wf_durable r \<longleftrightarrow> hex64 (dj_schedule r) \<and> instant_ok (dj_watermark r) \<and> opt_ok wf_active (dj_active r)
     \<and> opt_ok wf_outcome (dj_outcome r) \<and> opt_ok wf_issue (dj_issue r) \<and> opt_ok wf_missed (dj_missed r)
     \<and> int (dj_regressions r) \<le> max_safe_integer \<and> opt_ok wf_clock_regression (dj_last_regression r)"

lemma cron_evals [parse_evals]:
  "list_all (\<lambda>(k, _). k \<in> set allowed) fs \<Longrightarrow> exact_record allowed field (JObj fs) = Inr fs"
  "t \<noteq> [] \<Longrightarrow> utf16_length t \<le> n \<Longrightarrow> cron_string field n (JStr t) = Inr t"
  "instant_ok t \<Longrightarrow> cron_instant field (JStr t) = Inr t"
  "int i \<le> max_safe_integer \<Longrightarrow> cron_integer field (count_js i) = Inr i"
  "int i \<le> max_safe_integer \<Longrightarrow> 0 < i \<Longrightarrow> positive_integer field (count_js i) = Inr i"
  "enum_ok table \<Longrightarrow> cron_enum message table (JStr (enum_text table a)) = Inr a"
  by (simp_all add: exact_record_Inr cron_string_Inr cron_instant_Inr cron_integer_Inr positive_integer_Inr cron_enum_Inr enum_ok_def
      count_js_def)

lemma cron_key_eval [parse_evals]: "cron_key_ok k \<Longrightarrow> cron_key_field subject (JStr k) = Inr k"
  using cron_key_lengths [of k] by (simp add: cron_key_field_def parse_evals)

lemma active_roundtrip [parse_evals]: "wf_active a \<Longrightarrow> parse_active (encode_active a) = Inr a"
  using owner_lengths [of "da_owner a"]
  by (simp add: parse_active_def encode_active_def wf_active_def parse_evals cong: rbind_weak_cong)

lemma outcome_roundtrip [parse_evals]: "wf_outcome x \<Longrightarrow> parse_outcome (encode_outcome x) = Inr x"
  by (simp add: parse_outcome_def encode_outcome_def wf_outcome_def parse_evals cong: rbind_weak_cong)

lemma issue_roundtrip [parse_evals]: "wf_issue x \<Longrightarrow> parse_issue (encode_issue x) = Inr x"
  by (simp add: parse_issue_def encode_issue_def wf_issue_def parse_evals cong: rbind_weak_cong)

lemma missed_roundtrip [parse_evals]: "wf_missed x \<Longrightarrow> parse_missed (encode_missed x) = Inr x"
  by (simp add: parse_missed_def encode_missed_def wf_missed_def parse_evals cong: rbind_weak_cong)

lemma regression_roundtrip [parse_evals]: "wf_clock_regression x \<Longrightarrow> parse_clock_regression (encode_clock_regression x) = Inr x"
  by (simp add: parse_clock_regression_def encode_clock_regression_def wf_clock_regression_def parse_evals cong: rbind_weak_cong)

lemma encoded_present [simp]:
  "encode_active a \<noteq> JUndef" "encode_outcome b \<noteq> JUndef" "encode_issue c \<noteq> JUndef" "encode_missed d \<noteq> JUndef"
  "encode_clock_regression e \<noteq> JUndef"
  by (simp_all add: encode_active_def encode_outcome_def encode_issue_def encode_missed_def encode_clock_regression_def)

lemma durable_roundtrip:
  assumes "wf_durable r"
  shows "parse_durable_fields (dj_job r) (durable_json r) = Inr r"
  using assms hex64_lengths [of "dj_schedule r"]
  by (simp add: parse_durable_fields_def durable_json_def wf_durable_def opt_ok_def parse_evals cong: rbind_weak_cong)

lemma cron_key_field_Inr [parse_iffs]: "cron_key_field subject v = Inr k \<longleftrightarrow> v = JStr k \<and> cron_key_ok k"
  using cron_key_lengths [of k] by (auto simp: cron_key_field_def parse_iffs rbind_Inr_iff)

lemma parse_active_wf: "parse_active v = Inr a \<Longrightarrow> wf_active a"
  unfolding parse_active_def by (elim rbind_InrE) (auto simp: parse_iffs wf_active_def)

lemma parse_outcome_wf: "parse_outcome v = Inr a \<Longrightarrow> wf_outcome a"
  unfolding parse_outcome_def by (elim rbind_InrE) (auto simp: parse_iffs wf_outcome_def)

lemma parse_issue_wf: "parse_issue v = Inr a \<Longrightarrow> wf_issue a"
  unfolding parse_issue_def by (elim rbind_InrE) (auto simp: parse_iffs wf_issue_def)

lemma parse_missed_wf: "parse_missed v = Inr a \<Longrightarrow> wf_missed a"
  unfolding parse_missed_def by (elim rbind_InrE) (auto simp: parse_iffs wf_missed_def)

lemma parse_regression_wf: "parse_clock_regression v = Inr a \<Longrightarrow> wf_clock_regression a"
  unfolding parse_clock_regression_def by (elim rbind_InrE) (auto simp: parse_iffs wf_clock_regression_def)

lemma parse_durable_wf:
  assumes "parse_durable_fields job v = Inr r"
  shows "wf_durable r \<and> dj_job r = job"
  using assms unfolding parse_durable_fields_def
  apply (elim rbind_InrE)
  apply (simp only: sum.inject)
  apply hypsubst
  unfolding wf_durable_def
  apply (intro conjI)
  by (auto simp: parse_iffs elim!: opt_field_ok dest: parse_active_wf parse_outcome_wf parse_issue_wf parse_missed_wf parse_regression_wf)

lemma count_json_ok [simp]: "json_ok (count_js n)"
proof (cases "int n \<le> max_safe_integer")
  case False
  then have "int_text (int n) = nat_text n" by (simp add: int_text_def)
  then have "number_ok (nat_text n)" "list_all number_char (nat_text n)" "read_int (nat_text n) = int n"
    using int_text_ok [of "int n"] by simp_all
  then show ?thesis using False by (simp add: count_js_def float_ok_def number_value_def)
qed (simp add: count_js_def)

lemma part_json_ok [simp]:
  "json_ok (encode_active a)" "json_ok (encode_outcome b)" "json_ok (encode_issue c)" "json_ok (encode_missed d)"
  "json_ok (encode_clock_regression e)"
  by (simp_all add: encode_active_def encode_outcome_def encode_issue_def encode_missed_def encode_clock_regression_def)

lemma durable_json_ok: "json_ok (durable_json r)"
  by (simp add: durable_json_def max_safe_integer_def opt_ok_def)

lemma encode_durable_Inr:
  "encode_durable_record r = Inr b \<longleftrightarrow> b = json_text (durable_json r) @ [CHR 0x0A] \<and> length b \<le> durable_record_bytes"
  by (auto simp: encode_durable_record_def Let_def)

text \<open>The watermark in stored bytes, whether or not the reader accepts the rest.\<close>

definition watermark_text :: "string \<Rightarrow> string option" where
  "watermark_text b =
     (case json_parse b of Some (JObj fs) \<Rightarrow> (case fld fs ''watermark'' of JStr t \<Rightarrow> Some t | _ \<Rightarrow> None) | _ \<Rightarrow> None)"

lemma watermark_encoded: "encode_durable_record r = Inr b \<Longrightarrow> watermark_text b = Some (dj_watermark r)"
  unfolding encode_durable_Inr
  by (auto simp: watermark_text_def json_parse_line [OF durable_json_ok]) (simp add: durable_json_def)

lemma watermark_parsed: "parse_durable_record job b = Inr r \<Longrightarrow> watermark_text b = Some (dj_watermark r)"
  unfolding parse_durable_record_def parse_durable_fields_def watermark_text_def
  by (auto split: if_splits option.splits elim!: rbind_InrE) (auto simp: parse_iffs)

section \<open>Keys, counts and merges\<close>

definition cron_idempotency_key :: "(string \<Rightarrow> string) \<Rightarrow> string \<Rightarrow> string \<Rightarrow> string \<Rightarrow> string" where
  "cron_idempotency_key sha inst job scheduled =
     key_text @ sha (json_text (JArr [JNum 1, JStr inst, JStr job, JStr scheduled]))"

definition schedule_fingerprint :: "(string \<Rightarrow> string) \<Rightarrow> cron_job \<Rightarrow> string" where
  "schedule_fingerprint sha job = sha (json_text (JArr [JNum 1, JStr (jb_id job), JStr (jb_expression job), JStr (jb_timezone job)]))"

definition durable_job_key :: "(string \<Rightarrow> string) \<Rightarrow> string \<Rightarrow> string \<Rightarrow> string" where
  "durable_job_key sha inst job = ''trigger-cron/v1/jobs/'' @ sha (json_text (JArr [JNum 1, JStr inst, JStr job]))"

definition initial_durable :: "(string \<Rightarrow> string) \<Rightarrow> cron_job \<Rightarrow> string \<Rightarrow> durable_job" where
  "initial_durable sha job now =
     \<lparr>dj_job = jb_id job, dj_schedule = schedule_fingerprint sha job, dj_watermark = now, dj_active = None, dj_outcome = None,
      dj_issue = None, dj_missed = None, dj_regressions = 0, dj_last_regression = None\<rparr>"

definition omit_active :: "durable_job \<Rightarrow> durable_job" where
  "omit_active r = r\<lparr>dj_active := None\<rparr>"

definition definitively_settled :: "durable_job \<Rightarrow> bool" where
  "definitively_settled r \<longleftrightarrow>
     (case dj_active r of None \<Rightarrow> False
      | Some a \<Rightarrow> (case dj_outcome r of None \<Rightarrow> False | Some x \<Rightarrow> do_key x = da_key a \<and> do_status x \<noteq> CronUnknown))"

text \<open>\<^verbatim>\<open>n + 1\<close> on a number that is at most \<^verbatim>\<open>2 ** 53\<close>.\<close>

definition number_succ :: "nat \<Rightarrow> nat" where
  "number_succ n = min (2 ^ 53) (n + 1)"

definition capped_succ :: "nat \<Rightarrow> nat" where
  "capped_succ n = min (nat max_safe_integer) (number_succ n)"

definition merge_missed :: "durable_missed option \<Rightarrow> string \<Rightarrow> string \<Rightarrow> durable_missed" where
  "merge_missed current from_at through_at =
     (case current of
        None \<Rightarrow> \<lparr>dm_ranges = 1, dm_at_least = 1, dm_from = from_at, dm_through = through_at\<rparr>
      | Some m \<Rightarrow>
          \<lparr>dm_ranges = capped_succ (dm_ranges m), dm_at_least = capped_succ (dm_at_least m),
           dm_from = (if instant_ms (dm_from m) \<le> instant_ms from_at then dm_from m else from_at),
           dm_through = (if instant_ms through_at \<le> instant_ms (dm_through m) then dm_through m else through_at)\<rparr>)"

lemma merge_missed_wf:
  assumes "opt_ok wf_missed current" "instant_ok f" "instant_ok t" "instant_ms f \<le> instant_ms t"
  shows "wf_missed (merge_missed current f t)"
  using assms by (cases current) (auto simp: wf_missed_def merge_missed_def capped_succ_def number_succ_def max_safe_integer_def)

end
