(* ===== verification/CronDue.thy ===== *)
theory CronDue
  imports CronRecord
begin

text \<open>
  Which firings of a job are due (\<^verbatim>\<open>scheduler-helpers.ts\<close>), and the values a firing is reported with.
  The cron expression library is a parameter: \<open>previous job t\<close> and \<open>upcoming job t\<close> are
  \<^verbatim>\<open>previousCronOccurrence\<close> and \<^verbatim>\<open>nextCronOccurrence\<close> of the instant \<open>t\<close>, which may throw.
\<close>

section \<open>Due firings\<close>

type_synonym occurrence = "cron_job \<Rightarrow> int \<Rightarrow> int result"

record due_range =
  dr_from :: int
  dr_through :: int

record due_set =
  ds_selected :: "int list"
  ds_missed :: "due_range option"

definition due_boundary :: "occurrence \<Rightarrow> occurrence \<Rightarrow> cron_job \<Rightarrow> int \<Rightarrow> int \<Rightarrow> due_range option result" where
  "due_boundary previous upcoming job watermark now =
     (if now \<le> watermark then Inr None
      else
        rbind (previous job (min (now + 1) max_date_ms)) (\<lambda>through_at.
        if through_at \<le> watermark then Inr None
        else rbind (upcoming job watermark) (\<lambda>from_at. Inr (Some \<lparr>dr_from = from_at, dr_through = through_at\<rparr>))))"

definition all_due_range :: "occurrence \<Rightarrow> occurrence \<Rightarrow> cron_job \<Rightarrow> int \<Rightarrow> int \<Rightarrow> due_range option result" where
  "all_due_range = due_boundary"

text \<open>The loop of \<^verbatim>\<open>collectDue\<close>: firings from \<open>cursor\<close> downwards, and where it stopped.\<close>

primrec walk_back :: "occurrence \<Rightarrow> cron_job \<Rightarrow> int \<Rightarrow> nat \<Rightarrow> int \<Rightarrow> (int list \<times> int) result" where
  "walk_back previous job watermark 0 cursor = Inr ([], cursor)"
| "walk_back previous job watermark (Suc n) cursor =
     (if cursor \<le> watermark then Inr ([], cursor)
      else
        rbind (previous job cursor) (\<lambda>before.
        rbind (walk_back previous job watermark n before) (\<lambda>(descending, end_at). Inr (cursor # descending, end_at))))"

definition collect_due :: "occurrence \<Rightarrow> occurrence \<Rightarrow> cron_job \<Rightarrow> int \<Rightarrow> int \<Rightarrow> nat \<Rightarrow> due_set result" where
  "collect_due previous upcoming job watermark now limit =
     rbind (due_boundary previous upcoming job watermark now) (\<lambda>boundary.
     case boundary of
       None \<Rightarrow> Inr \<lparr>ds_selected = [], ds_missed = None\<rparr>
     | Some b \<Rightarrow>
         rbind (walk_back previous job watermark limit (dr_through b)) (\<lambda>(descending, cursor).
         Inr \<lparr>ds_selected = rev descending,
           ds_missed = (if cursor < dr_from b then None else Some \<lparr>dr_from = dr_from b, dr_through = cursor\<rparr>)\<rparr>))"

section \<open>Results\<close>

record cron_result =
  cr_status :: cron_status
  cr_job :: string
  cr_scheduled :: string
  cr_key :: string
  cr_run :: "string option"
  cr_reason :: "string option"

datatype cron_source = FromSchedule | FromCommand | FromRecovery

datatype trigger_receipt =
    ReceiptAccepted "string option"
  | ReceiptRejected bool "string option"
  | ReceiptUnknown

text \<open>\<open>ReceiptRejected True\<close> is a rejection with the code \<^verbatim>\<open>duplicate\<close>.\<close>

definition result_of :: "cron_job \<Rightarrow> string \<Rightarrow> string \<Rightarrow> cron_status \<Rightarrow> string option \<Rightarrow> string option \<Rightarrow> cron_result" where
  "result_of job scheduled key status run reason =
     \<lparr>cr_status = status, cr_job = jb_id job, cr_scheduled = scheduled, cr_key = key, cr_run = run, cr_reason = reason\<rparr>"

fun receipt_result :: "cron_job \<Rightarrow> string \<Rightarrow> string \<Rightarrow> trigger_receipt \<Rightarrow> cron_result" where
  "receipt_result job scheduled key (ReceiptAccepted run) = result_of job scheduled key CronAccepted run None"
| "receipt_result job scheduled key ReceiptUnknown =
     result_of job scheduled key CronUnknown None (Some ''The trigger host reported an unknown outcome.'')"
| "receipt_result job scheduled key (ReceiptRejected duplicate reason) =
     (if duplicate then
        result_of job scheduled key CronDuplicate None
          (Some (case reason of None \<Rightarrow> ''The trigger host reported a duplicate event.'' | Some t \<Rightarrow> t))
      else result_of job scheduled key CronRejected None reason)"

definition issue_for_result :: "durable_issue option \<Rightarrow> cron_result \<Rightarrow> string \<Rightarrow> durable_issue option" where
  "issue_for_result current result observed =
     (case current of
        Some i \<Rightarrow> Some i
      | None \<Rightarrow>
          (case cr_status result of
             CronRejected \<Rightarrow> Some \<lparr>di_status = IssueRejected, di_observed = observed, di_scheduled = cr_scheduled result\<rparr>
           | CronUnknown \<Rightarrow> Some \<lparr>di_status = IssueUnknown, di_observed = observed, di_scheduled = cr_scheduled result\<rparr>
           | CronMissed \<Rightarrow> Some \<lparr>di_status = IssueMissed, di_observed = observed, di_scheduled = cr_scheduled result\<rparr>
           | _ \<Rightarrow> None))"

definition delivery_channel :: "cron_job \<Rightarrow> string option" where
  "delivery_channel job =
     (case jb_notify job of None \<Rightarrow> None | Some (NotifyChannel c) \<Rightarrow> Some c | Some (NotifyDestination c d) \<Rightarrow> Some c)"

fun overlap_text :: "cron_overlap \<Rightarrow> string" where
  "overlap_text OverlapSkip = ''skip''"
| "overlap_text OverlapQueue = ''queue''"
| "overlap_text OverlapReplace = ''replace''"

fun source_text :: "cron_source \<Rightarrow> string" where
  "source_text FromSchedule = ''schedule''"
| "source_text FromCommand = ''command''"
| "source_text FromRecovery = ''recovery''"

fun notify_json :: "cron_notify \<Rightarrow> js" where
  "notify_json (NotifyChannel c) = JObj (req ''channel'' (JStr c))"
| "notify_json (NotifyDestination c d) = JObj (req ''channel'' (JStr c) @ req ''destination'' (JStr d))"

definition cron_metadata :: "cron_job \<Rightarrow> string \<Rightarrow> string \<Rightarrow> string \<Rightarrow> cron_source \<Rightarrow> js" where
  "cron_metadata job scheduled invoked key source =
     JObj (req ''triggerKind'' (JStr ''cron'')
       @ req ''cron'' (JObj (req ''schemaVersion'' (JNum 1) @ req ''jobId'' (JStr (jb_id job))
           @ req ''expression'' (JStr (jb_expression job)) @ req ''timezone'' (JStr (jb_timezone job))
           @ req ''scheduledAt'' (JStr scheduled) @ req ''invokedAt'' (JStr invoked) @ req ''idempotencyKey'' (JStr key)
           @ req ''source'' (JStr (source_text source)) @ req ''overlap'' (JStr (overlap_text (jb_overlap job)))
           @ req ''maxRunMs'' (JNum (int (jb_max_run_ms job))) @ opt ''effort'' JStr (jb_effort job)
           @ opt ''notify'' notify_json (jb_notify job)))
       @ opt ''effort'' JStr (jb_effort job)
       @ (case jb_notify job of None \<Rightarrow> [] | Some (NotifyChannel c) \<Rightarrow> req ''destination'' (JStr [])
          | Some (NotifyDestination c d) \<Rightarrow> req ''destination'' (JStr d)))"

definition invocation_result_json :: "cron_result \<Rightarrow> js" where
  "invocation_result_json r =
     JObj (req ''status'' (JStr (enum_text outcome_statuses (cr_status r))) @ req ''jobId'' (JStr (cr_job r))
       @ req ''scheduledAt'' (JStr (cr_scheduled r)) @ req ''idempotencyKey'' (JStr (cr_key r))
       @ opt ''runId'' JStr (cr_run r) @ opt ''reason'' JStr (cr_reason r))"

section \<open>What is collected\<close>

text \<open>The documented behaviour of the cron library: \<open>fires\<close> is the set of instants its expression names.\<close>

definition finds_previous :: "occurrence \<Rightarrow> cron_job \<Rightarrow> (int \<Rightarrow> bool) \<Rightarrow> bool" where
  "finds_previous previous job fires \<longleftrightarrow>
     (\<forall>t p. previous job t = Inr p \<longrightarrow> p < t \<and> fires p \<and> (\<forall>x. p < x \<and> x < t \<longrightarrow> \<not> fires x))"

definition finds_next :: "occurrence \<Rightarrow> cron_job \<Rightarrow> (int \<Rightarrow> bool) \<Rightarrow> bool" where
  "finds_next upcoming job fires \<longleftrightarrow>
     (\<forall>t n. upcoming job t = Inr n \<longrightarrow> t < n \<and> fires n \<and> (\<forall>x. t < x \<and> x < n \<longrightarrow> \<not> fires x))"

lemma walk_back_spec:
  assumes "finds_previous previous job fires" "walk_back previous job watermark n cursor = Inr (ds, end_at)" "fires cursor"
  shows "length ds \<le> n \<and> sorted_wrt (>) ds \<and> (\<forall>x \<in> set ds. fires x \<and> watermark < x \<and> x \<le> cursor \<and> end_at < x)
     \<and> fires end_at \<and> end_at \<le> cursor \<and> (\<forall>x. fires x \<longrightarrow> watermark < x \<longrightarrow> x \<le> cursor \<longrightarrow> x \<in> set ds \<or> x \<le> end_at)
     \<and> (watermark < end_at \<longrightarrow> length ds = n)"
  using assms(2,3)
proof (induction n arbitrary: cursor ds)
  case (Suc n)
  show ?case
  proof (cases "cursor \<le> watermark")
    case True
    then show ?thesis using Suc.prems by auto
  next
    case False
    then obtain before es where b: "previous job cursor = Inr before" "walk_back previous job watermark n before = Inr (es, end_at)"
        "ds = cursor # es"
      using Suc.prems by (auto simp: rbind_Inr_iff)
    have p: "before < cursor" "fires before" "\<And>x. before < x \<Longrightarrow> x < cursor \<Longrightarrow> \<not> fires x"
      using assms(1) b(1) by (auto simp: finds_previous_def)
    note ih = Suc.IH [OF b(2) p(2)]
    have "x \<in> set ds \<or> x \<le> end_at" if "fires x" "watermark < x" "x \<le> cursor" for x
    proof (cases "x \<le> before")
      case True
      then show ?thesis using that ih b(3) by auto
    next
      case False
      then have "x = cursor" using that p(3) [of x] by linarith
      then show ?thesis using b(3) by simp
    qed
    moreover have "length ds \<le> Suc n" "sorted_wrt (>) ds" using ih p(1) unfolding b(3) by auto
    moreover have "\<forall>x \<in> set ds. fires x \<and> watermark < x \<and> x \<le> cursor \<and> end_at < x"
    proof
      fix x assume "x \<in> set ds"
      then consider "x = cursor" | "x \<in> set es" unfolding b(3) by auto
      then show "fires x \<and> watermark < x \<and> x \<le> cursor \<and> end_at < x"
        by cases (use ih p(1) False Suc.prems(2) in force)+
    qed
    moreover have "fires end_at" "end_at \<le> cursor" "watermark < end_at \<longrightarrow> length ds = Suc n"
      using ih p(1) unfolding b(3) by simp_all
    ultimately show ?thesis by blast
  qed
qed auto

text \<open>C32: The firings collected are at most the limit, in order, due and after the watermark; every due
  firing is collected or lies in the missed range, which is then before all collected ones.\<close>

theorem due_firings:
  assumes "finds_previous previous job fires" "finds_next upcoming job fires" "now < max_date_ms"
    "collect_due previous upcoming job watermark now limit = Inr d"
  shows "length (ds_selected d) \<le> limit \<and> sorted_wrt (<) (ds_selected d)
    \<and> (\<forall>x \<in> set (ds_selected d). fires x \<and> watermark < x \<and> x \<le> now)
    \<and> (\<forall>x. fires x \<longrightarrow> watermark < x \<longrightarrow> x \<le> now \<longrightarrow>
         x \<in> set (ds_selected d) \<or> (\<exists>m. ds_missed d = Some m \<and> dr_from m \<le> x \<and> x \<le> dr_through m))
    \<and> (\<forall>m. ds_missed d = Some m \<longrightarrow> watermark < dr_from m \<and> dr_from m \<le> dr_through m
         \<and> length (ds_selected d) = limit \<and> (\<forall>x \<in> set (ds_selected d). dr_through m < x))"
proof -
  obtain b where b: "due_boundary previous upcoming job watermark now = Inr b" using assms(4) by (auto simp: collect_due_def rbind_Inr_iff)
  show ?thesis
  proof (cases b)
    case None
    have "\<not> fires x" if "watermark < x" "x \<le> now" for x
    proof -
      have "watermark < now" using that by simp
      then
      obtain p where p: "previous job (now + 1) = Inr p" "p \<le> watermark"
        using b None assms(3) by (auto simp: due_boundary_def min_def rbind_Inr_iff split: if_splits)
      then show ?thesis using assms(1) that unfolding finds_previous_def by (metis less_add_one order_le_less_trans order_le_less)
    qed
    then show ?thesis using assms(4) b None by (auto simp: collect_due_def)
  next
    case (Some r)
    have p: "previous job (now + 1) = Inr (dr_through r)" "watermark < dr_through r" and n: "upcoming job watermark = Inr (dr_from r)"
      using b Some assms(3) by (auto simp: due_boundary_def min_def rbind_Inr_iff split: if_splits)
    have through: "dr_through r \<le> now" "fires (dr_through r)" "\<And>x. dr_through r < x \<Longrightarrow> x \<le> now \<Longrightarrow> \<not> fires x"
      using assms(1) p(1) unfolding finds_previous_def by fastforce+
    have first: "watermark < dr_from r" "\<And>x. watermark < x \<Longrightarrow> fires x \<Longrightarrow> dr_from r \<le> x"
      using assms(2) n unfolding finds_next_def by (fastforce, meson linorder_not_le)
    obtain ds end_at where w: "walk_back previous job watermark limit (dr_through r) = Inr (ds, end_at)"
      and d: "d = \<lparr>ds_selected = rev ds, ds_missed = (if end_at < dr_from r then None else Some \<lparr>dr_from = dr_from r, dr_through = end_at\<rparr>)\<rparr>"
      using assms(4) b Some by (auto simp: collect_due_def rbind_Inr_iff)
    note spec = walk_back_spec [OF assms(1) w through(2)]
    have sort: "sorted_wrt (<) (rev ds)" using spec by (simp add: sorted_wrt_rev)
    have all: "x \<in> set ds \<or> dr_from r \<le> end_at \<and> dr_from r \<le> x \<and> x \<le> end_at" if "fires x" "watermark < x" "x \<le> now" for x
    proof -
      have "x \<le> dr_through r" using that through(3) [of x] by linarith
      then have "x \<in> set ds \<or> x \<le> end_at" using that spec by blast
      then show ?thesis using first(2) [OF that(2,1)] by auto
    qed
    have long: "length ds = limit" if "dr_from r \<le> end_at" using that spec first(1) by simp
    have due: "\<forall>x \<in> set ds. fires x \<and> watermark < x \<and> x \<le> now" using spec through(1) by force
    have before: "\<forall>x \<in> set ds. end_at < x" "length ds \<le> limit" using spec by simp_all
    show ?thesis
    proof (cases "end_at < dr_from r")
      case True
      then have "ds_selected d = rev ds" "ds_missed d = None" unfolding d by simp_all
      moreover have "x \<in> set ds" if "fires x" "watermark < x" "x \<le> now" for x using all [OF that] True by linarith
      ultimately show ?thesis using sort due before(2) by simp
    next
      case False
      then have "ds_selected d = rev ds" "ds_missed d = Some \<lparr>dr_from = dr_from r, dr_through = end_at\<rparr>" unfolding d by simp_all
      moreover have "x \<in> set ds \<or> dr_from r \<le> x \<and> x \<le> end_at" if "fires x" "watermark < x" "x \<le> now" for x using all [OF that] by blast
      ultimately show ?thesis using False sort due before long first(1) by simp
    qed
  qed
qed

definition every_minute :: cron_job where
  "every_minute = \<lparr>jb_id = ''job'', jb_expression = ''* * * * *'', jb_timezone = ''UTC'', jb_prompt = ''p'', jb_runtime = None,
     jb_model = None, jb_effort = None, jb_notify = None, jb_overlap = OverlapSkip, jb_queue_depth = 16,
     jb_overflow = DropNewest, jb_max_run_ms = 1200000\<rparr>"

definition minute_before :: occurrence where
  "minute_before job t = Inr ((t - 1) div 60000 * 60000)"

definition minute_after :: occurrence where
  "minute_after job t = Inr ((t div 60000 + 1) * 60000)"

lemma minute_occurrences:
  "finds_previous minute_before job (\<lambda>t. t mod 60000 = 0)" "finds_next minute_after job (\<lambda>t. t mod 60000 = 0)"
proof -
  have m: "x = x div 60000 * 60000 + x mod 60000" "0 \<le> x mod 60000" "x mod 60000 < 60000" for x :: int by simp_all
  show "finds_previous minute_before job (\<lambda>t. t mod 60000 = 0)"
    unfolding finds_previous_def
  proof (intro allI impI conjI)
    fix t p :: int assume "minute_before job t = Inr p"
    then have p: "p = (t - 1) div 60000 * 60000" by (simp add: minute_before_def)
    show "p < t" using m [of "t - 1"] p by linarith
    show "p mod 60000 = 0" by (simp add: p)
    fix x assume x: "p < x \<and> x < t"
    then have "x div 60000 \<le> (t - 1) div 60000" by (intro zdiv_mono1) simp_all
    then show "x mod 60000 \<noteq> 0" using x p m(1) [of x] by linarith
  qed
  show "finds_next minute_after job (\<lambda>t. t mod 60000 = 0)"
    unfolding finds_next_def
  proof (intro allI impI conjI)
    fix t n :: int assume "minute_after job t = Inr n"
    then have n: "n = t div 60000 * 60000 + 60000" by (simp add: minute_after_def distrib_right)
    show "t < n" using m [of t] n by linarith
    show "n mod 60000 = 0" unfolding n by simp
    fix x assume x: "t < x \<and> x < n"
    show "x mod 60000 \<noteq> 0"
    proof
      assume "x mod 60000 = 0"
      then have "x div 60000 < t div 60000 + 1" using x n m(1) [of x] by linarith
      then show False using x \<open>x mod 60000 = 0\<close> m [of t] m(1) [of x] by linarith
    qed
  qed
qed

lemma due_firings_witness:
  "\<exists>d. collect_due minute_before minute_after every_minute 0 300000 2 = Inr d \<and> length (ds_selected d) \<le> 2
     \<and> ds_selected d = [240000, 300000] \<and> ds_missed d = Some \<lparr>dr_from = 60000, dr_through = 180000\<rparr>"
proof -
  have d: "collect_due minute_before minute_after every_minute 0 300000 2 =
      Inr \<lparr>ds_selected = [240000, 300000], ds_missed = Some \<lparr>dr_from = 60000, dr_through = 180000\<rparr>\<rparr>"
    by (simp add: collect_due_def due_boundary_def minute_before_def minute_after_def max_date_ms_def numeral_2_eq_2)
  from due_firings [OF minute_occurrences _ this] show ?thesis unfolding d by (simp add: max_date_ms_def)
qed

end
