(* ===== verification/CronProg.thy ===== *)
theory CronProg
  imports CronDue
begin

text \<open>
  The asynchronous functions of a cron trigger as programs. A program is a tree of its awaited calls,
  its accesses to the state of the trigger, its readings of the clock, the emissions it dispatches and
  the tasks it leaves running. Between two of them other tasks of the same trigger and other triggers
  may act.
\<close>

section \<open>The state of a trigger for one job\<close>

datatype lifecycle = CronNew | CronStarting | CronRunning | CronStopping | CronStopped

text \<open>\<^verbatim>\<open>ActiveInvocation\<close>, without its abort controller and promise: an emission may be interrupted
  at any time.\<close>

record local_active =
  la_key :: string
  la_release :: bool

record pending_invocation =
  pe_scheduled :: string
  pe_source :: cron_source
  pe_key :: string
  pe_promise :: nat

text \<open>The callback of an armed timer.\<close>

datatype cron_timer = WakeRecovery | WakeAt int

record sched =
  sc_lifecycle :: lifecycle
  sc_timer :: "cron_timer option"
  sc_target :: "int option"
  sc_active :: "local_active option"
  sc_pending :: "pending_invocation list"
  sc_record :: durable_job
  sc_version :: "string option"
  sc_mutating :: bool
  sc_emitted :: nat
  sc_last_result :: "cron_result option"
  sc_observed :: int
  sc_regression :: "clock_regression option"
  sc_error :: "string option"
  sc_unsettled :: "durable_issue option"
  sc_reconciling :: bool
  sc_requested :: "cron_source option"
  sc_foreign :: bool
  sc_transition :: bool
  sc_fenced :: bool
  sc_resolved :: "(nat \<times> cron_result) list"
  sc_promises :: nat

text \<open>What is fixed for a trigger: its digest, instance, owner id, job, whether the durable state
  capability is granted, and the cron library.\<close>

record cron_cx =
  cx_sha :: "string \<Rightarrow> string"
  cx_inst :: string
  cx_owner :: string
  cx_job :: cron_job
  cx_durable :: bool
  cx_previous :: occurrence
  cx_upcoming :: occurrence

definition job_state :: "cron_cx \<Rightarrow> int \<Rightarrow> sched" where
  "job_state cx now =
     \<lparr>sc_lifecycle = CronNew, sc_timer = None, sc_target = None, sc_active = None, sc_pending = [],
      sc_record = initial_durable (cx_sha cx) (cx_job cx) (to_iso now), sc_version = None, sc_mutating = False, sc_emitted = 0,
      sc_last_result = None, sc_observed = now, sc_regression = None, sc_error = None, sc_unsettled = None,
      sc_reconciling = False, sc_requested = None, sc_foreign = False, sc_transition = False, sc_fenced = False,
      sc_resolved = [], sc_promises = 0\<rparr>"

section \<open>Programs\<close>

record cron_event =
  ce_id :: string
  ce_instance :: string
  ce_prompt :: string
  ce_created :: string
  ce_runtime :: "string option"
  ce_model :: "string option"
  ce_channel :: "string option"
  ce_metadata :: js

text \<open>How the race of an emission with its watchdog and its interruption ends; the flag of the last two
  is whether the emission had settled by then.\<close>

datatype emission =
    EmissionReceipt trigger_receipt
  | EmissionFailed
  | EmissionTimedOut bool
  | EmissionInterrupted bool

datatype cron_task =
    TaskReconcile cron_source
  | TaskRun pending_invocation
  | TaskComplete pending_invocation cron_result
  | TaskRelease string
  | TaskTimer cron_timer

datatype 'a cron =
    CDone 'a
  | CFail js_error
  | CRead string "(string \<times> string) option result \<Rightarrow> 'a cron"
  | CCas string "string option" string "cas_result result \<Rightarrow> 'a cron"
  | CLocal "sched \<Rightarrow> sched" "sched \<Rightarrow> 'a cron"
  | CClock "int option \<Rightarrow> 'a cron"
  | CLock "'a cron"
  | CEmit cron_event "emission \<Rightarrow> 'a cron"
  | CAwait nat "cron_result \<Rightarrow> 'a cron"
  | CSpawn cron_task "'a cron"
  | CSettled "'a cron"

text \<open>\<open>CLocal f g\<close> changes the state by \<open>f\<close> and goes on as \<open>g\<close> of the state as it was.\<close>

primrec cbind :: "'a cron \<Rightarrow> ('a \<Rightarrow> 'b cron) \<Rightarrow> 'b cron" where
  "cbind (CDone x) k = k x"
| "cbind (CFail e) k = CFail e"
| "cbind (CRead key f) k = CRead key (\<lambda>r. cbind (f r) k)"
| "cbind (CCas key ev v f) k = CCas key ev v (\<lambda>r. cbind (f r) k)"
| "cbind (CLocal f g) k = CLocal f (\<lambda>s. cbind (g s) k)"
| "cbind (CClock f) k = CClock (\<lambda>t. cbind (f t) k)"
| "cbind (CLock p) k = CLock (cbind p k)"
| "cbind (CEmit e f) k = CEmit e (\<lambda>r. cbind (f r) k)"
| "cbind (CAwait n f) k = CAwait n (\<lambda>r. cbind (f r) k)"
| "cbind (CSpawn t p) k = CSpawn t (cbind p k)"
| "cbind (CSettled p) k = CSettled (cbind p k)"

text \<open>\<^verbatim>\<open>try\<close>: a failure becomes a value.\<close>

primrec ctry :: "'a cron \<Rightarrow> 'a result cron" where
  "ctry (CDone x) = CDone (Inr x)"
| "ctry (CFail e) = CDone (Inl e)"
| "ctry (CRead key f) = CRead key (\<lambda>r. ctry (f r))"
| "ctry (CCas key ev v f) = CCas key ev v (\<lambda>r. ctry (f r))"
| "ctry (CLocal f g) = CLocal f (\<lambda>s. ctry (g s))"
| "ctry (CClock f) = CClock (\<lambda>t. ctry (f t))"
| "ctry (CLock p) = CLock (ctry p)"
| "ctry (CEmit e f) = CEmit e (\<lambda>r. ctry (f r))"
| "ctry (CAwait n f) = CAwait n (\<lambda>r. ctry (f r))"
| "ctry (CSpawn t p) = CSpawn t (ctry p)"
| "ctry (CSettled p) = CSettled (ctry p)"

fun clift :: "'a result \<Rightarrow> 'a cron" where
  "clift (Inl e) = CFail e"
| "clift (Inr x) = CDone x"

definition peek :: "(sched \<Rightarrow> 'a) \<Rightarrow> 'a cron" where
  "peek f = CLocal (\<lambda>s. s) (\<lambda>s. CDone (f s))"

definition poke :: "(sched \<Rightarrow> sched) \<Rightarrow> unit cron" where
  "poke f = CLocal f (\<lambda>_. CDone ())"

text \<open>\<^verbatim>\<open>validClockInstant\<close>.\<close>

definition clock_instant :: "int cron" where
  "clock_instant =
     CClock (\<lambda>t. case t of None \<Rightarrow> CFail (PlainError ''Cron clock returned an invalid date.'') | Some n \<Rightarrow> CDone n)"

text \<open>\<^verbatim>\<open>mutateState\<close>: one mutation of a job's state at a time, whether the one before failed or not.\<close>

definition mutate_state :: "'a cron \<Rightarrow> 'a cron" where
  "mutate_state p =
     CLock (cbind (ctry p) (\<lambda>r. cbind (poke (\<lambda>s. s\<lparr>sc_mutating := False\<rparr>)) (\<lambda>_. clift r)))"

definition stable_persistence_failure :: string where
  "stable_persistence_failure = ''durable_state_unavailable''"

definition has_pending_repair :: "sched \<Rightarrow> bool" where
  "has_pending_repair s \<longleftrightarrow>
     (case sc_active s of None \<Rightarrow> False | Some a \<Rightarrow> la_release a) \<or> sc_regression s \<noteq> None \<or> sc_transition s \<or> sc_fenced s"

definition fence_generation :: "sched \<Rightarrow> sched" where
  "fence_generation s = s\<lparr>sc_fenced := True, sc_foreign := False, sc_error := Some ''durable_state_schedule_changed''\<rparr>"

definition is_foreign_active :: "string \<Rightarrow> sched \<Rightarrow> bool" where
  "is_foreign_active owner s \<longleftrightarrow>
     (case dj_active (sc_record s) of
        None \<Rightarrow> False
      | Some a \<Rightarrow> da_owner a \<noteq> owner \<or> (case sc_active s of None \<Rightarrow> True | Some l \<Rightarrow> la_key l \<noteq> da_key a))"

text \<open>\<^verbatim>\<open>a ??= b\<close>.\<close>

definition or_else :: "'a option \<Rightarrow> 'a \<Rightarrow> 'a option" where
  "or_else a b = (case a of None \<Rightarrow> Some b | Some x \<Rightarrow> Some x)"

end
