(* ===== verification/CronDurable.thy ===== *)
theory CronDurable
  imports CronProg
begin

text \<open>
  The durable side of a cron trigger: the operations of \<^verbatim>\<open>createCronDurableScheduler\<close>
  (\<^verbatim>\<open>scheduler-durable.ts\<close>). The abort signal of a start is not modelled: an aborted start fails like one
  whose capability fails.
\<close>

section \<open>Updating the record\<close>

definition durable_cas_attempts :: nat where "durable_cas_attempts = 4"

definition cx_fingerprint :: "cron_cx \<Rightarrow> string" where
  "cx_fingerprint cx = schedule_fingerprint (cx_sha cx) (cx_job cx)"

definition cx_key :: "cron_cx \<Rightarrow> string" where
  "cx_key cx = durable_job_key (cx_sha cx) (cx_inst cx) (jb_id (cx_job cx))"

definition job_error :: "cron_cx \<Rightarrow> string \<Rightarrow> js_error" where
  "job_error cx what = PlainError (state_subject (jb_id (cx_job cx)) @ what)"

definition generation_error :: "cron_cx \<Rightarrow> js_error" where
  "generation_error cx = PlainError (''Cron schedule generation for job \"'' @ jb_id (cx_job cx) @ ''\" was replaced.'')"

definition hold :: "durable_job \<Rightarrow> string option \<Rightarrow> unit cron" where
  "hold r version = poke (\<lambda>s. s\<lparr>sc_record := r, sc_version := version\<rparr>)"

text \<open>A transform answers with a value for its caller and the next record, or \<open>None\<close> when it returns the
  record it was given.\<close>

type_synonym 'x transform = "durable_job \<Rightarrow> ('x \<times> durable_job option) cron"

primrec update_loop :: "nat \<Rightarrow> cron_cx \<Rightarrow> bool \<Rightarrow> 'x transform \<Rightarrow> (bool \<times> 'x) cron" where
  "update_loop 0 cx allow transform = CFail (job_error cx '' changed repeatedly during an update.'')"
| "update_loop (Suc n) cx allow transform =
     cbind (peek (\<lambda>s. (sc_record s, sc_version s))) (\<lambda>(current, version).
     if \<not> allow \<and> dj_schedule current \<noteq> cx_fingerprint cx
     then cbind (poke fence_generation) (\<lambda>_. CFail (generation_error cx))
     else
       cbind (transform current) (\<lambda>(x, changed).
       case changed of
         None \<Rightarrow> CDone (False, x)
       | Some nxt \<Rightarrow>
           if \<not> cx_durable cx then cbind (hold nxt None) (\<lambda>_. CDone (True, x))
           else
             cbind (clift (encode_durable_record nxt)) (\<lambda>bytes.
             CCas (cx_key cx) version bytes (\<lambda>answer.
             cbind (clift answer) (\<lambda>result.
             case result of
               CasApplied r \<Rightarrow> cbind (hold nxt (Some (rc_version r))) (\<lambda>_. CDone (True, x))
             | CasConflict _ \<Rightarrow>
                 CRead (cx_key cx) (\<lambda>again.
                 cbind (clift again) (\<lambda>found.
                 case found of
                   None \<Rightarrow> CFail (job_error cx '' disappeared during an update.'')
                 | Some (bytes', version') \<Rightarrow>
                     cbind (clift (parse_durable_record (jb_id (cx_job cx)) bytes')) (\<lambda>r.
                     cbind (hold r (Some version')) (\<lambda>_. update_loop n cx allow transform)))))))))"

definition update_record :: "cron_cx \<Rightarrow> bool \<Rightarrow> 'x transform \<Rightarrow> (bool \<times> 'x) cron" where
  "update_record = update_loop durable_cas_attempts"

text \<open>An update whose transform neither waits nor reads anything, and whose answer is not used.\<close>

definition update_by :: "cron_cx \<Rightarrow> bool \<Rightarrow> (durable_job \<Rightarrow> durable_job option) \<Rightarrow> unit cron" where
  "update_by cx allow f = cbind (mutate_state (update_record cx allow (\<lambda>r. CDone ((), f r)))) (\<lambda>_. CDone ())"

section \<open>Recovery\<close>

definition omit_settled :: "durable_job \<Rightarrow> durable_job option" where
  "omit_settled r = (if definitively_settled r then Some (omit_active r) else None)"

definition recover_settled_active :: "cron_cx \<Rightarrow> unit cron" where
  "recover_settled_active cx =
     cbind (peek sc_record) (\<lambda>r.
     if \<not> definitively_settled r then CDone () else update_by cx True omit_settled)"

definition with_regression :: "string \<Rightarrow> string \<Rightarrow> durable_job \<Rightarrow> durable_job" where
  "with_regression from_at to_at r =
     r\<lparr>dj_issue := or_else (dj_issue r) \<lparr>di_status = IssueClockRegressed, di_observed = to_at, di_scheduled = to_at\<rparr>,
       dj_regressions := number_succ (dj_regressions r),
       dj_last_regression := Some \<lparr>dc_from = from_at, dc_to = to_at\<rparr>\<rparr>"

definition recover_restart_regression :: "cron_cx \<Rightarrow> int \<Rightarrow> unit cron" where
  "recover_restart_regression cx started =
     cbind (peek sc_record) (\<lambda>r.
     let watermark = instant_ms (dj_watermark r) in
     if watermark \<le> started then CDone ()
     else update_by cx False (\<lambda>c. Some (with_regression (to_iso watermark) (to_iso started) c)))"

definition unknown_outcome_at :: "durable_job \<Rightarrow> string option" where
  "unknown_outcome_at r =
     (case dj_outcome r of
        None \<Rightarrow> None
      | Some x \<Rightarrow> if do_status x = CronUnknown then Some (do_scheduled x) else None)"

definition unknown_at :: "durable_job \<Rightarrow> string option" where
  "unknown_at r = (case dj_active r of Some a \<Rightarrow> Some (da_scheduled a) | None \<Rightarrow> unknown_outcome_at r)"

definition unknown_issue :: "string \<Rightarrow> string \<Rightarrow> durable_issue" where
  "unknown_issue observed scheduled = \<lparr>di_status = IssueUnknown, di_observed = observed, di_scheduled = scheduled\<rparr>"

definition report_unknown :: "string \<Rightarrow> durable_job \<Rightarrow> durable_job option" where
  "report_unknown observed r =
     (case unknown_at r of
        None \<Rightarrow> None
      | Some at \<Rightarrow> if dj_issue r \<noteq> None then None else Some (r\<lparr>dj_issue := Some (unknown_issue observed at)\<rparr>))"

definition recover_unknown_outcome :: "cron_cx \<Rightarrow> int \<Rightarrow> unit cron" where
  "recover_unknown_outcome cx started =
     cbind (peek sc_record) (\<lambda>r.
     if dj_issue r \<noteq> None then CDone ()
     else case dj_active r of
       Some a \<Rightarrow>
         poke (\<lambda>s. s\<lparr>sc_foreign := True, sc_unsettled := Some (unknown_issue (to_iso started) (da_scheduled a))\<rparr>)
     | None \<Rightarrow>
         if unknown_outcome_at r = None then CDone () else update_by cx False (report_unknown (to_iso started)))"

section \<open>A changed schedule\<close>

definition rescheduled :: "cron_cx \<Rightarrow> int \<Rightarrow> durable_job \<Rightarrow> durable_job option" where
  "rescheduled cx started r =
     (if dj_schedule r = cx_fingerprint cx \<or> dj_active r \<noteq> None then None
      else
        (let watermark = to_iso (max (instant_ms (dj_watermark r)) started) in
         Some ((initial_durable (cx_sha cx) (cx_job cx) watermark)
           \<lparr>dj_issue := or_else (dj_issue r) \<lparr>di_status = IssueMissed, di_observed = to_iso started, di_scheduled = watermark\<rparr>,
            dj_missed := Some (merge_missed (dj_missed r) (dj_watermark r) watermark),
            dj_regressions := dj_regressions r, dj_last_regression := dj_last_regression r\<rparr>)))"

definition after_reschedule :: "cron_cx \<Rightarrow> int \<Rightarrow> sched \<Rightarrow> sched" where
  "after_reschedule cx started s =
     (if dj_schedule (sc_record s) \<noteq> cx_fingerprint cx then
        s\<lparr>sc_transition := True, sc_foreign := True,
          sc_unsettled := or_else (sc_unsettled s) (unknown_issue (to_iso started)
            (case dj_active (sc_record s) of Some a \<Rightarrow> da_scheduled a | None \<Rightarrow> dj_watermark (sc_record s)))\<rparr>
      else
        s\<lparr>sc_transition := False, sc_foreign := False,
          sc_unsettled := (if dj_issue (sc_record s) = None then None else sc_unsettled s)\<rparr>)"

definition replace_changed_schedule :: "cron_cx \<Rightarrow> int \<Rightarrow> unit cron" where
  "replace_changed_schedule cx started =
     cbind (update_by cx True (rescheduled cx started)) (\<lambda>_. poke (after_reschedule cx started))"

section \<open>Start\<close>

definition initialize_found :: "cron_cx \<Rightarrow> int \<Rightarrow> unit cron" where
  "initialize_found cx started =
     cbind (recover_settled_active cx) (\<lambda>_.
     cbind (peek sc_record) (\<lambda>r.
     cbind (if dj_schedule r \<noteq> cx_fingerprint cx then replace_changed_schedule cx started else CDone ()) (\<lambda>_.
     cbind (peek sc_transition) (\<lambda>transition.
     cbind (if \<not> transition then recover_restart_regression cx started else CDone ()) (\<lambda>_.
     recover_unknown_outcome cx started)))))"

primrec initialize_loop :: "nat \<Rightarrow> cron_cx \<Rightarrow> int \<Rightarrow> unit cron" where
  "initialize_loop 0 cx started = CFail (job_error cx '' changed repeatedly during initialization.'')"
| "initialize_loop (Suc n) cx started =
     CRead (cx_key cx) (\<lambda>answer.
     cbind (clift answer) (\<lambda>found.
     case found of
       Some (bytes, version) \<Rightarrow>
         cbind (clift (parse_durable_record (jb_id (cx_job cx)) bytes)) (\<lambda>r.
         cbind (hold r (Some version)) (\<lambda>_. initialize_found cx started))
     | None \<Rightarrow>
         (let r = initial_durable (cx_sha cx) (cx_job cx) (to_iso started) in
          cbind (clift (encode_durable_record r)) (\<lambda>bytes.
          CCas (cx_key cx) None bytes (\<lambda>swapped.
          cbind (clift swapped) (\<lambda>result.
          case result of
            CasApplied x \<Rightarrow> hold r (Some (rc_version x))
          | CasConflict _ \<Rightarrow> initialize_loop n cx started))))))"

definition initialize_job :: "cron_cx \<Rightarrow> int \<Rightarrow> unit cron" where
  "initialize_job cx started =
     cbind (poke (\<lambda>s. s\<lparr>sc_observed := started\<rparr>)) (\<lambda>_.
     if \<not> cx_durable cx then hold (initial_durable (cx_sha cx) (cx_job cx) (to_iso started)) None
     else initialize_loop durable_cas_attempts cx started)"

section \<open>The clock\<close>

definition note_regression :: "int \<Rightarrow> sched \<Rightarrow> sched" where
  "note_regression now s =
     (if sc_regression s = None \<and> now < sc_observed s then
        s\<lparr>sc_regression := Some \<lparr>dc_from = to_iso (sc_observed s), dc_to = to_iso now\<rparr>,
          sc_unsettled := or_else (sc_unsettled s)
            \<lparr>di_status = IssueClockRegressed, di_observed = to_iso now, di_scheduled = to_iso now\<rparr>\<rparr>
      else s)"

definition account_clock_regression :: "cron_cx \<Rightarrow> int \<Rightarrow> unit cron" where
  "account_clock_regression cx now =
     cbind (poke (note_regression now)) (\<lambda>_.
     cbind (peek sc_regression) (\<lambda>waiting.
     case waiting of
       None \<Rightarrow> poke (\<lambda>s. s\<lparr>sc_observed := now\<rparr>)
     | Some x \<Rightarrow>
         cbind (update_by cx False (\<lambda>r. if dj_last_regression r = Some x then None
             else Some (with_regression (dc_from x) (dc_to x) r))) (\<lambda>_.
         cbind (peek sc_record) (\<lambda>r.
         if dj_last_regression r \<noteq> Some x
         then CFail (PlainError (''Cron durable clock regression for job \"'' @ jb_id (cx_job cx) @ ''\" was not recorded.''))
         else
           poke (\<lambda>s. let t = s\<lparr>sc_observed := now, sc_regression := None\<rparr> in
             if has_pending_repair t then t else t\<lparr>sc_error := None\<rparr>)))))"

section \<open>Firings\<close>

definition refresh_job :: "cron_cx \<Rightarrow> unit cron" where
  "refresh_job cx =
     (if \<not> cx_durable cx then CDone ()
      else
        mutate_state
          (CRead (cx_key cx) (\<lambda>answer.
           cbind (clift answer) (\<lambda>found.
           case found of
             None \<Rightarrow> CFail (job_error cx '' disappeared during reconciliation.'')
           | Some (bytes, version) \<Rightarrow>
               cbind (clift (parse_durable_record (jb_id (cx_job cx)) bytes)) (\<lambda>r.
               cbind (hold r (Some version)) (\<lambda>_.
               cbind (peek sc_transition) (\<lambda>transition.
               if \<not> transition \<and> dj_schedule r \<noteq> cx_fingerprint cx
               then cbind (poke fence_generation) (\<lambda>_. CFail (generation_error cx))
               else CDone ())))))))"

definition missed_range :: "string \<Rightarrow> string \<Rightarrow> string \<Rightarrow> string \<Rightarrow> durable_job \<Rightarrow> durable_job option" where
  "missed_range key from_at through_at observed r =
     (if instant_ms through_at \<le> instant_ms (dj_watermark r) then None
      else Some (r\<lparr>dj_watermark := through_at,
        dj_outcome := Some \<lparr>do_status = CronMissed, do_scheduled = through_at, do_key = key\<rparr>,
        dj_issue := or_else (dj_issue r) \<lparr>di_status = IssueMissed, di_observed = observed, di_scheduled = through_at\<rparr>,
        dj_missed := Some (merge_missed (dj_missed r) from_at through_at)\<rparr>))"

definition cx_firing_key :: "cron_cx \<Rightarrow> string \<Rightarrow> string" where
  "cx_firing_key cx scheduled = cron_idempotency_key (cx_sha cx) (cx_inst cx) (jb_id (cx_job cx)) scheduled"

definition record_missed_range :: "cron_cx \<Rightarrow> due_range \<Rightarrow> int \<Rightarrow> unit cron" where
  "record_missed_range cx m observed =
     (let from_at = to_iso (dr_from m); through_at = to_iso (dr_through m); key = cx_firing_key cx through_at in
      mutate_state
        (cbind (update_record cx False (\<lambda>r. CDone ((), missed_range key from_at through_at (to_iso observed) r))) (\<lambda>_.
         poke (\<lambda>s. s\<lparr>sc_last_result := Some (result_of (cx_job cx) through_at key CronMissed None
           (Some (''Catch-up was bounded; overdue firings from '' @ from_at @ '' through '' @ through_at @ '' were recorded as missed.'')))\<rparr>))))"

definition claim_transform :: "cron_cx \<Rightarrow> string \<Rightarrow> string \<Rightarrow> bool transform" where
  "claim_transform cx scheduled key r =
     (case dj_active r of
        Some a \<Rightarrow> CDone (da_owner a = cx_owner cx \<and> da_key a = key, None)
      | None \<Rightarrow>
          cbind clock_instant (\<lambda>now.
          CDone (True, Some (r\<lparr>dj_active := Some \<lparr>da_owner = cx_owner cx, da_key = key, da_scheduled = scheduled,
            da_claimed = to_iso now\<rparr>\<rparr>))))"

definition claim_active :: "cron_cx \<Rightarrow> string \<Rightarrow> string \<Rightarrow> bool cron" where
  "claim_active cx scheduled key =
     cbind (mutate_state (update_record cx False (claim_transform cx scheduled key))) (\<lambda>(_, claimed). CDone claimed)"

definition clear_transform :: "cron_cx \<Rightarrow> string \<Rightarrow> bool transform" where
  "clear_transform cx key r =
     CDone (case dj_active r of
        None \<Rightarrow> (True, None)
      | Some a \<Rightarrow> if da_owner a \<noteq> cx_owner cx \<or> da_key a \<noteq> key then (False, None) else (True, Some (omit_active r)))"

definition clear_active :: "cron_cx \<Rightarrow> string \<Rightarrow> bool cron" where
  "clear_active cx key =
     cbind (mutate_state (update_record cx True (clear_transform cx key))) (\<lambda>(_, cleared). CDone cleared)"

definition settle_record :: "durable_issue option \<Rightarrow> cron_result \<Rightarrow> string \<Rightarrow> durable_job \<Rightarrow> durable_job option" where
  "settle_record unsettled result observed r =
     (let issue = issue_for_result (case dj_issue r of Some i \<Rightarrow> Some i | None \<Rightarrow> unsettled) result observed;
          kept = (case issue of None \<Rightarrow> dj_issue r | Some i \<Rightarrow> Some i) in
      if \<not> (case dj_outcome r of None \<Rightarrow> False | Some x \<Rightarrow> do_key x = cr_key result) then
        (if issue = None \<or> dj_issue r \<noteq> None then None else Some (r\<lparr>dj_issue := issue\<rparr>))
      else Some (r\<lparr>dj_outcome := Some \<lparr>do_status = cr_status result, do_scheduled = cr_scheduled result, do_key = cr_key result\<rparr>,
             dj_issue := kept\<rparr>))"

definition settle_transform :: "cron_result \<Rightarrow> unit transform" where
  "settle_transform result r =
     cbind (peek sc_unsettled) (\<lambda>unsettled.
     cbind clock_instant (\<lambda>now.
     CDone ((), settle_record unsettled result (to_iso now) r)))"

definition settle_invocation :: "cron_cx \<Rightarrow> cron_result \<Rightarrow> cron_result cron" where
  "settle_invocation cx result =
     cbind (ctry (mutate_state (update_record cx False (settle_transform result)))) (\<lambda>settled.
     case settled of
       Inr _ \<Rightarrow>
         cbind (poke (\<lambda>s. if has_pending_repair s then s else s\<lparr>sc_error := None, sc_unsettled := None\<rparr>)) (\<lambda>_. CDone result)
     | Inl _ \<Rightarrow>
         cbind (poke (\<lambda>s. s\<lparr>sc_error := Some stable_persistence_failure\<rparr>)) (\<lambda>_.
         cbind (peek sc_unsettled) (\<lambda>unsettled.
         cbind (case unsettled of Some i \<Rightarrow> CDone i
            | None \<Rightarrow> cbind clock_instant (\<lambda>now. CDone (unknown_issue (to_iso now) (cr_scheduled result)))) (\<lambda>issue.
         cbind (poke (\<lambda>s. s\<lparr>sc_unsettled := or_else (sc_unsettled s) issue\<rparr>)) (\<lambda>_.
         CDone \<lparr>cr_status = CronUnknown, cr_job = cr_job result, cr_scheduled = cr_scheduled result, cr_key = cr_key result,
           cr_run = None,
           cr_reason = Some ''Cron received an outcome but could not durably settle it; effects remain unknown.''\<rparr>)))))"

end
