(* ===== verification/CronScheduler.thy ===== *)
theory CronScheduler
  imports CronDurable
begin

text \<open>
  The functions of \<^verbatim>\<open>createCronTrigger\<close> (\<^verbatim>\<open>scheduler.ts\<close>): timers, admission of a firing, its emission and
  release, reconciliation, start and stop. The emission's abort controller is not modelled; an emission may
  be interrupted at any time. \<^verbatim>\<open>stop\<close> does not wait for the work it ends.
\<close>

section \<open>Timers\<close>

definition arm :: "cron_cx \<Rightarrow> int \<Rightarrow> unit cron" where
  "arm cx target =
     cbind (peek sc_lifecycle) (\<lambda>l.
     if l \<noteq> CronRunning then CDone ()
     else cbind clock_instant (\<lambda>_. poke (\<lambda>s. s\<lparr>sc_target := Some target, sc_timer := Some (WakeAt target)\<rparr>)))"

definition release_pending :: "sched \<Rightarrow> bool" where
  "release_pending s \<longleftrightarrow> (case sc_active s of None \<Rightarrow> False | Some a \<Rightarrow> la_release a)"

definition schedule_next :: "cron_cx \<Rightarrow> unit cron" where
  "schedule_next cx =
     cbind (peek (\<lambda>s. s)) (\<lambda>s.
     if sc_lifecycle s \<noteq> CronRunning then CDone ()
     else
       cbind (poke (\<lambda>s. s\<lparr>sc_timer := None\<rparr>)) (\<lambda>_.
       if sc_fenced s \<and> \<not> release_pending s then poke (\<lambda>s. s\<lparr>sc_target := None\<rparr>)
       else
         cbind clock_instant (\<lambda>now.
         if sc_transition s \<or> sc_foreign s \<or> release_pending s \<or> sc_regression s \<noteq> None
         then poke (\<lambda>s. s\<lparr>sc_target := None, sc_timer := Some WakeRecovery\<rparr>)
         else
           cbind (clift (cx_upcoming cx (cx_job cx) (max now (instant_ms (dj_watermark (sc_record s)))))) (\<lambda>target. arm cx target))))"

section \<open>Releasing an active firing\<close>

definition resolve :: "nat \<Rightarrow> cron_result \<Rightarrow> unit cron" where
  "resolve n result = poke (\<lambda>s. s\<lparr>sc_resolved := (n, result) # sc_resolved s\<rparr>)"

definition complete_pending :: "cron_cx \<Rightarrow> pending_invocation \<Rightarrow> cron_result \<Rightarrow> unit cron" where
  "complete_pending cx p result = cbind (settle_invocation cx result) (\<lambda>r. resolve (pe_promise p) r)"

definition terminal :: "cron_cx \<Rightarrow> cron_status \<Rightarrow> string \<Rightarrow> pending_invocation \<Rightarrow> cron_result" where
  "terminal cx status reason p = result_of (cx_job cx) (pe_scheduled p) (pe_key p) status None (Some reason)"

primrec complete_all :: "cron_cx \<Rightarrow> cron_status \<Rightarrow> string \<Rightarrow> pending_invocation list \<Rightarrow> 'a cron \<Rightarrow> 'a cron" where
  "complete_all cx status reason [] k = k"
| "complete_all cx status reason (p # ps) k =
     CSpawn (TaskComplete p (terminal cx status reason p)) (complete_all cx status reason ps k)"

definition runs_next :: "sched \<Rightarrow> bool" where
  "runs_next s \<longleftrightarrow> sc_lifecycle s = CronRunning \<and> \<not> sc_fenced s"

definition released :: "string \<Rightarrow> sched \<Rightarrow> sched" where
  "released key s =
     (if (case sc_active s of None \<Rightarrow> True | Some a \<Rightarrow> la_key a \<noteq> key) then s
      else
        (let t = s\<lparr>sc_active := None\<rparr>; u = (if has_pending_repair t then t else t\<lparr>sc_error := None\<rparr>) in
         u\<lparr>sc_pending := (if runs_next s then drop 1 (sc_pending s) else [])\<rparr>))"

definition repair_release :: "cron_cx \<Rightarrow> bool cron" where
  "repair_release cx =
     cbind (peek sc_active) (\<lambda>active.
     case active of
       None \<Rightarrow> CDone True
     | Some a \<Rightarrow>
         if \<not> la_release a then CDone True
         else
           cbind (ctry (clear_active cx (la_key a))) (\<lambda>cleared.
           case cleared of
             Inl _ \<Rightarrow> cbind (poke (\<lambda>s. s\<lparr>sc_error := Some stable_persistence_failure\<rparr>)) (\<lambda>_. CDone False)
           | Inr False \<Rightarrow> cbind (poke (\<lambda>s. s\<lparr>sc_error := Some ''durable_state_active_conflict''\<rparr>)) (\<lambda>_. CDone False)
           | Inr True \<Rightarrow>
               CLocal (released (la_key a)) (\<lambda>s.
                 if (case sc_active s of None \<Rightarrow> True | Some b \<Rightarrow> la_key b \<noteq> la_key a) then CDone True
                 else case sc_pending s of
                   [] \<Rightarrow> CDone True
                 | p # ps \<Rightarrow>
                     if runs_next s then CSpawn (TaskRun p) (CDone True)
                     else complete_all cx CronCancelled ''Cron trigger stopped or changed schedule before emission.'' (p # ps) (CDone True))))"

definition release :: "cron_cx \<Rightarrow> string \<Rightarrow> unit cron" where
  "release cx key =
     CLocal (\<lambda>s. case sc_active s of None \<Rightarrow> s
              | Some a \<Rightarrow> if la_key a = key then s\<lparr>sc_active := Some (a\<lparr>la_release := True\<rparr>)\<rparr> else s)
       (\<lambda>s. if (case sc_active s of None \<Rightarrow> True | Some a \<Rightarrow> la_key a \<noteq> key) then CDone ()
         else
           cbind (repair_release cx) (\<lambda>repaired.
           cbind (peek sc_lifecycle) (\<lambda>l.
           if \<not> repaired \<and> l = CronRunning then schedule_next cx else CDone ())))"

section \<open>Emitting a firing\<close>

definition event_of :: "cron_cx \<Rightarrow> string \<Rightarrow> cron_source \<Rightarrow> string \<Rightarrow> int \<Rightarrow> cron_event" where
  "event_of cx scheduled source key invoked =
     (let job = cx_job cx in
      \<lparr>ce_id = key, ce_instance = cx_inst cx, ce_prompt = jb_prompt job, ce_created = to_iso invoked, ce_runtime = jb_runtime job,
       ce_model = jb_model job, ce_channel = delivery_channel job,
       ce_metadata = cron_metadata job scheduled (to_iso invoked) key source\<rparr>)"

definition unknown_result :: "cron_cx \<Rightarrow> string \<Rightarrow> string \<Rightarrow> string \<Rightarrow> cron_result" where
  "unknown_result cx scheduled key reason = result_of (cx_job cx) scheduled key CronUnknown None (Some reason)"

fun emission_result :: "cron_cx \<Rightarrow> string \<Rightarrow> string \<Rightarrow> emission \<Rightarrow> cron_result" where
  "emission_result cx scheduled key (EmissionReceipt r) = receipt_result (cx_job cx) scheduled key r"
| "emission_result cx scheduled key EmissionFailed =
     unknown_result cx scheduled key ''Trigger emission ended without a definitive receipt; effects may have occurred.''"
| "emission_result cx scheduled key (EmissionTimedOut _) =
     unknown_result cx scheduled key ''The cron watchdog aborted an emission whose final effects are unknown.''"
| "emission_result cx scheduled key (EmissionInterrupted _) =
     unknown_result cx scheduled key ''Cron emission was interrupted after durable admission; its final effects are unknown.''"

fun emission_settled :: "emission \<Rightarrow> bool" where
  "emission_settled (EmissionReceipt _) = True"
| "emission_settled EmissionFailed = True"
| "emission_settled (EmissionTimedOut b) = b"
| "emission_settled (EmissionInterrupted b) = b"

definition note_unsettled :: "durable_issue cron \<Rightarrow> unit cron" where
  "note_unsettled p =
     cbind (peek sc_unsettled) (\<lambda>u.
     case u of Some _ \<Rightarrow> CDone () | None \<Rightarrow> cbind p (\<lambda>i. poke (\<lambda>s. s\<lparr>sc_unsettled := or_else (sc_unsettled s) i\<rparr>)))"

definition unknown_now :: "string \<Rightarrow> durable_issue cron" where
  "unknown_now scheduled = cbind clock_instant (\<lambda>now. CDone (unknown_issue (to_iso now) scheduled))"

definition emit_firing :: "cron_cx \<Rightarrow> string \<Rightarrow> cron_source \<Rightarrow> string \<Rightarrow> cron_result cron" where
  "emit_firing cx scheduled source key =
     cbind (poke (\<lambda>s. s\<lparr>sc_active := Some \<lparr>la_key = key, la_release = False\<rparr>\<rparr>)) (\<lambda>_.
     cbind clock_instant (\<lambda>invoked.
     CEmit (event_of cx scheduled source key invoked) (\<lambda>outcome.
     cbind (settle_invocation cx (emission_result cx scheduled key outcome)) (\<lambda>result.
     cbind (poke (\<lambda>s. s\<lparr>sc_emitted := sc_emitted s + 1, sc_last_result := Some result\<rparr>)) (\<lambda>_.
     if emission_settled outcome then cbind (release cx key) (\<lambda>_. CDone result)
     else CSpawn (TaskRelease key) (CDone result))))))"

definition run_now :: "cron_cx \<Rightarrow> string \<Rightarrow> cron_source \<Rightarrow> string \<Rightarrow> cron_result cron" where
  "run_now cx scheduled source key =
     cbind (ctry (claim_active cx scheduled key)) (\<lambda>claimed.
     case claimed of
       Inl _ \<Rightarrow>
         cbind (poke (\<lambda>s. s\<lparr>sc_error := Some stable_persistence_failure\<rparr>)) (\<lambda>_.
         CDone (result_of (cx_job cx) scheduled key CronRejected None
           (Some ''Cron could not durably claim this firing; no emission was attempted.'')))
     | Inr False \<Rightarrow>
         cbind (ctry (cbind (note_unsettled (unknown_now scheduled)) (\<lambda>_.
           settle_invocation cx (result_of (cx_job cx) scheduled key CronSkipped None
             (Some ''Another scheduler owner has an unresolved in-flight firing.''))))) (\<lambda>settled.
         case settled of
           Inr r \<Rightarrow> CDone r
         | Inl _ \<Rightarrow>
             cbind (poke (\<lambda>s. s\<lparr>sc_error := Some stable_persistence_failure\<rparr>)) (\<lambda>_.
             CDone (result_of (cx_job cx) scheduled key CronRejected None
               (Some ''Cron could not durably claim this firing; no emission was attempted.''))))
     | Inr True \<Rightarrow> emit_firing cx scheduled source key)"

section \<open>Admitting a firing\<close>

definition locally_active :: "cron_cx \<Rightarrow> local_active option \<Rightarrow> durable_active \<Rightarrow> bool" where
  "locally_active cx local a \<longleftrightarrow>
     da_owner a = cx_owner cx \<and> (case local of None \<Rightarrow> False | Some l \<Rightarrow> la_key l = da_key a)"

definition prior_unknown :: "local_active option \<Rightarrow> durable_job \<Rightarrow> durable_issue option cron" where
  "prior_unknown local r =
     (case dj_outcome r of
        None \<Rightarrow> CDone None
      | Some x \<Rightarrow>
          if do_status x = CronUnknown \<and> (case local of None \<Rightarrow> True | Some l \<Rightarrow> do_key x \<noteq> la_key l)
          then cbind (unknown_now (do_scheduled x)) (\<lambda>i. CDone (Some i)) else CDone None)"

definition reserve_transform :: "cron_cx \<Rightarrow> string \<Rightarrow> string \<Rightarrow> durable_active option transform" where
  "reserve_transform cx scheduled key r =
     (if instant_ms scheduled \<le> instant_ms (dj_watermark r) then CDone (None, None)
      else
        cbind (peek (\<lambda>s. (sc_active s, sc_unsettled s))) (\<lambda>(local, unsettled).
        if (case dj_active r of None \<Rightarrow> False | Some a \<Rightarrow> \<not> locally_active cx local a) then CDone (dj_active r, None)
        else
          cbind (prior_unknown local r) (\<lambda>prior.
          cbind (case dj_active r of Some a \<Rightarrow> CDone a
             | None \<Rightarrow> cbind clock_instant (\<lambda>now. CDone \<lparr>da_owner = cx_owner cx, da_key = key, da_scheduled = scheduled,
                 da_claimed = to_iso now\<rparr>)) (\<lambda>active.
          let issue = (case dj_issue r of Some i \<Rightarrow> Some i
                | None \<Rightarrow> (case unsettled of Some i \<Rightarrow> Some i | None \<Rightarrow> prior)) in
          CDone (None, Some (r\<lparr>dj_watermark := scheduled, dj_active := Some active,
            dj_outcome := Some \<lparr>do_status = CronUnknown, do_scheduled = scheduled, do_key = key\<rparr>, dj_issue := issue\<rparr>))))))"

definition outcome_key_is :: "string \<Rightarrow> durable_job \<Rightarrow> bool" where
  "outcome_key_is key r \<longleftrightarrow> (case dj_outcome r of None \<Rightarrow> False | Some x \<Rightarrow> do_key x = key)"

definition reserve :: "cron_cx \<Rightarrow> string \<Rightarrow> string \<Rightarrow> (bool \<times> durable_active option) cron" where
  "reserve cx scheduled key =
     mutate_state
       (cbind (peek sc_record) (\<lambda>r.
        if instant_ms scheduled \<le> instant_ms (dj_watermark r) then CDone (False, None)
        else
          cbind (update_record cx False (reserve_transform cx scheduled key)) (\<lambda>(applied, blocked).
          cbind (peek sc_record) (\<lambda>r'.
          CDone (applied \<and> instant_ms scheduled \<le> instant_ms (dj_watermark r') \<and> outcome_key_is key r', blocked)))))"

datatype reservation = Reserved | NotReserved cron_result

definition try_reserve :: "cron_cx \<Rightarrow> string \<Rightarrow> string \<Rightarrow> reservation cron" where
  "try_reserve cx scheduled key =
     cbind (reserve cx scheduled key) (\<lambda>(reserved, blocked).
     cbind (peek sc_record) (\<lambda>r.
     if \<not> reserved \<or> \<not> outcome_key_is key r then
       (case blocked of
          Some a \<Rightarrow>
            cbind (poke (\<lambda>s. s\<lparr>sc_foreign := True\<rparr>)) (\<lambda>_.
            cbind (note_unsettled (unknown_now (da_scheduled a))) (\<lambda>_.
            CDone (NotReserved (result_of (cx_job cx) scheduled key CronSkipped None
              (Some ''Another scheduler owner has an unresolved in-flight firing.'')))))
        | None \<Rightarrow>
            CDone (NotReserved (result_of (cx_job cx) scheduled key CronDuplicate None
              (Some ''This job instant was already admitted or is older than the durable run watermark.''))))
     else
       cbind (poke (\<lambda>s. let t = s\<lparr>sc_foreign := False\<rparr> in
           if has_pending_repair t then t else t\<lparr>sc_error := None, sc_unsettled := None\<rparr>)) (\<lambda>_.
       CDone Reserved)))"

text \<open>The queue after a firing arrives, the firings it displaces and why.\<close>

definition enqueue :: "cron_job \<Rightarrow> pending_invocation \<Rightarrow> pending_invocation list \<Rightarrow>
    pending_invocation list \<times> pending_invocation list \<times> string" where
  "enqueue job p queue =
     (if jb_overlap job = OverlapReplace then ([p], queue, ''Replaced by a newer firing.'')
      else if length queue < jb_queue_depth job then (queue @ [p], [], [])
      else case jb_overflow job of
        DropOldest \<Rightarrow> (drop 1 queue @ [p], take 1 queue, ''Cron queue dropped its oldest firing.'')
      | Coalesce \<Rightarrow> ([p], queue, ''Cron queue coalesced to its newest firing.'')
      | DropNewest \<Rightarrow> (queue, [p], ''Cron queue is full.''))"

definition queue_firing :: "cron_cx \<Rightarrow> string \<Rightarrow> cron_source \<Rightarrow> string \<Rightarrow> cron_result cron" where
  "queue_firing cx scheduled source key =
     (let p = (\<lambda>s. \<lparr>pe_scheduled = scheduled, pe_source = source, pe_key = key, pe_promise = sc_promises s\<rparr>) in
      CLocal (\<lambda>s. s\<lparr>sc_pending := fst (enqueue (cx_job cx) (p s) (sc_pending s)), sc_promises := sc_promises s + 1\<rparr>)
        (\<lambda>s. case enqueue (cx_job cx) (p s) (sc_pending s) of (_, displaced, reason) \<Rightarrow>
           complete_all cx CronDropped reason displaced (CAwait (sc_promises s) CDone)))"

definition admit_reserved :: "cron_cx \<Rightarrow> string \<Rightarrow> cron_source \<Rightarrow> string \<Rightarrow> cron_result cron" where
  "admit_reserved cx scheduled source key =
     cbind (peek (\<lambda>s. (sc_lifecycle s, sc_active s))) (\<lambda>(l, active).
     if l \<noteq> CronRunning then
       cbind (ctry (clear_active cx key)) (\<lambda>cleared.
       cbind (case cleared of Inl _ \<Rightarrow> poke (\<lambda>s. s\<lparr>sc_error := Some stable_persistence_failure\<rparr>) | Inr _ \<Rightarrow> CDone ()) (\<lambda>_.
       settle_invocation cx (result_of (cx_job cx) scheduled key CronCancelled None
         (Some ''Cron trigger stopped after durable admission and before emission.''))))
     else if active = None then run_now cx scheduled source key
     else if jb_overlap (cx_job cx) = OverlapSkip then
       settle_invocation cx (result_of (cx_job cx) scheduled key CronSkipped None (Some ''A prior firing is still active.''))
     else queue_firing cx scheduled source key)"

definition admit_firing :: "cron_cx \<Rightarrow> string \<Rightarrow> cron_source \<Rightarrow> cron_result cron" where
  "admit_firing cx scheduled source =
     (let key = cx_firing_key cx scheduled in
      cbind (peek (\<lambda>s. s)) (\<lambda>s.
      if sc_fenced s \<or> sc_transition s then
        CDone (result_of (cx_job cx) scheduled key CronRejected None
          (Some ''Cron schedule authority changed; this scheduler generation is fenced.''))
      else if sc_regression s \<noteq> None then
        cbind (schedule_next cx) (\<lambda>_. CDone (result_of (cx_job cx) scheduled key CronRejected None
          (Some ''Cron is awaiting durable clock-regression evidence.'')))
      else if release_pending s then
        cbind (schedule_next cx) (\<lambda>_. CDone (result_of (cx_job cx) scheduled key CronSkipped None
          (Some ''A definitively settled firing is awaiting durable fence repair.'')))
      else
        cbind (ctry (try_reserve cx scheduled key)) (\<lambda>reserved.
        case reserved of
          Inl _ \<Rightarrow>
            cbind (poke (\<lambda>s. s\<lparr>sc_error := Some stable_persistence_failure\<rparr>)) (\<lambda>_.
            CDone (result_of (cx_job cx) scheduled key CronRejected None
              (Some ''Cron could not durably reserve this firing; no emission was attempted.'')))
        | Inr (NotReserved r) \<Rightarrow> CDone r
        | Inr Reserved \<Rightarrow> admit_reserved cx scheduled source key)))"

section \<open>Reconciliation\<close>

definition max_cron_catch_up :: nat where "max_cron_catch_up = 32"

text \<open>The checks a turn of the loop makes before it looks for due firings; \<open>False\<close> ends the loop.\<close>

definition reconcile_foreign :: "cron_cx \<Rightarrow> int \<Rightarrow> bool cron" where
  "reconcile_foreign cx now =
     CLocal (\<lambda>s. if is_foreign_active (cx_owner cx) s then
           s\<lparr>sc_foreign := True, sc_unsettled := or_else (sc_unsettled s) (unknown_issue (to_iso now)
              (case dj_active (sc_record s) of None \<Rightarrow> [] | Some a \<Rightarrow> da_scheduled a))\<rparr>
         else s\<lparr>sc_foreign := False,
           sc_unsettled := (if sc_foreign s \<and> dj_issue (sc_record s) = None \<and> unknown_outcome_at (sc_record s) = None
             then None else sc_unsettled s)\<rparr>)
       (\<lambda>s. CDone (\<not> is_foreign_active (cx_owner cx) s))"

definition reconcile_repair :: "cron_cx \<Rightarrow> bool cron" where
  "reconcile_repair cx =
     cbind (peek release_pending) (\<lambda>waiting. if waiting then repair_release cx else CDone True)"

definition reconcile_transition :: "cron_cx \<Rightarrow> int \<Rightarrow> bool cron" where
  "reconcile_transition cx now =
     cbind (peek sc_transition) (\<lambda>transition.
     if \<not> transition then CDone True
     else cbind (replace_changed_schedule cx now) (\<lambda>_. cbind (peek sc_transition) (\<lambda>still. CDone (\<not> still))))"

definition reconcile_fence :: "cron_cx \<Rightarrow> bool cron" where
  "reconcile_fence cx =
     cbind (peek sc_fenced) (\<lambda>fenced.
     if \<not> fenced then CDone True
     else cbind (reconcile_repair cx) (\<lambda>repaired.
       if \<not> repaired then CDone False else cbind (peek sc_fenced) (\<lambda>still. CDone (\<not> still))))"

primrec all_checks :: "bool cron list \<Rightarrow> bool cron" where
  "all_checks [] = CDone True"
| "all_checks (p # ps) = cbind p (\<lambda>ok. if ok then all_checks ps else CDone False)"

definition reconcile_checks :: "cron_cx \<Rightarrow> int \<Rightarrow> bool cron" where
  "reconcile_checks cx now =
     all_checks
       [reconcile_fence cx,
        cbind (refresh_job cx) (\<lambda>_. cbind (recover_settled_active cx) (\<lambda>_. CDone True)),
        reconcile_transition cx now,
        reconcile_repair cx,
        cbind (account_clock_regression cx now) (\<lambda>_. CDone True),
        reconcile_foreign cx now]"

text \<open>The firings of a turn; \<open>False\<close> leaves the whole function.\<close>

primrec admit_each :: "cron_cx \<Rightarrow> cron_source \<Rightarrow> int list \<Rightarrow> bool cron" where
  "admit_each cx source [] = CDone True"
| "admit_each cx source (t # ts) =
     cbind (peek sc_lifecycle) (\<lambda>l.
     if l \<noteq> CronRunning then CDone False
     else
       cbind (admit_firing cx (to_iso t) source) (\<lambda>_.
       cbind (peek sc_foreign) (\<lambda>foreign. if foreign then CDone False else admit_each cx source ts)))"

definition record_missed :: "cron_cx \<Rightarrow> due_range option \<Rightarrow> int \<Rightarrow> unit cron" where
  "record_missed cx m now = (case m of None \<Rightarrow> CDone () | Some r \<Rightarrow> record_missed_range cx r now)"

text \<open>The loop, by what is left of the catch-up limit: every turn that goes on admits a firing.\<close>

function reconcile_firings :: "cron_cx \<Rightarrow> cron_source \<Rightarrow> nat \<Rightarrow> unit cron" where
  "reconcile_firings cx source remaining =
     cbind (peek sc_lifecycle) (\<lambda>l.
     if l \<noteq> CronRunning then CDone ()
     else
       cbind clock_instant (\<lambda>now.
       cbind (reconcile_checks cx now) (\<lambda>ok.
       if \<not> ok then CDone ()
       else
         cbind (peek sc_record) (\<lambda>r.
         let watermark = instant_ms (dj_watermark r) in
         if remaining = 0 then
           cbind (clift (all_due_range (cx_previous cx) (cx_upcoming cx) (cx_job cx) watermark now)) (\<lambda>m. record_missed cx m now)
         else
           cbind (clift (collect_due (cx_previous cx) (cx_upcoming cx) (cx_job cx) watermark now remaining)) (\<lambda>due.
           cbind (record_missed cx (ds_missed due) now) (\<lambda>_.
           if ds_selected due = [] then CDone ()
           else
             cbind (admit_each cx source (ds_selected due)) (\<lambda>more.
             if \<not> more then CDone ()
             else reconcile_firings cx source (remaining - length (ds_selected due)))))))))"
  by pat_completeness auto
termination
  by (relation "measure (\<lambda>(cx, source, remaining). remaining)") auto

declare reconcile_firings.simps [simp del]

definition reconcile :: "cron_cx \<Rightarrow> cron_source \<Rightarrow> unit cron" where
  "reconcile cx source =
     CLocal (\<lambda>s. if sc_lifecycle s \<noteq> CronRunning then s
              else if sc_reconciling s then s\<lparr>sc_requested := Some source\<rparr> else s\<lparr>sc_reconciling := True\<rparr>)
       (\<lambda>s. if sc_lifecycle s \<noteq> CronRunning \<or> sc_reconciling s then CDone ()
         else
           cbind (ctry (reconcile_firings cx source max_cron_catch_up)) (\<lambda>r.
           cbind (case r of Inl _ \<Rightarrow> poke (\<lambda>s. s\<lparr>sc_error := Some stable_persistence_failure\<rparr>) | Inr _ \<Rightarrow> CDone ()) (\<lambda>_.
           CLocal (\<lambda>s. s\<lparr>sc_reconciling := False, sc_requested := None\<rparr>)
             (\<lambda>s. if sc_lifecycle s \<noteq> CronRunning then CDone ()
               else case sc_requested s of None \<Rightarrow> schedule_next cx | Some next \<Rightarrow> CSpawn (TaskReconcile next) (CDone ())))))"

definition timer_fired :: "cron_cx \<Rightarrow> cron_timer \<Rightarrow> unit cron" where
  "timer_fired cx timer =
     cbind (peek sc_lifecycle) (\<lambda>l.
     if l \<noteq> CronRunning then CDone ()
     else case timer of
       WakeRecovery \<Rightarrow> CSpawn (TaskReconcile FromRecovery) (CDone ())
     | WakeAt target \<Rightarrow>
         cbind clock_instant (\<lambda>now.
         if now < target then
           cbind (ctry (account_clock_regression cx now)) (\<lambda>r.
           cbind (case r of Inl _ \<Rightarrow> poke (\<lambda>s. s\<lparr>sc_error := Some stable_persistence_failure\<rparr>) | Inr _ \<Rightarrow> CDone ()) (\<lambda>_.
           cbind (peek (\<lambda>s. (sc_lifecycle s, sc_regression s))) (\<lambda>(l', waiting).
           if l' \<noteq> CronRunning then CDone ()
           else if waiting = None then arm cx target else schedule_next cx)))
         else CSpawn (TaskReconcile FromSchedule) (CDone ())))"

section \<open>The life of a trigger\<close>

definition start :: "cron_cx \<Rightarrow> unit cron" where
  "start cx =
     cbind (peek sc_lifecycle) (\<lambda>l.
     if l = CronRunning then CDone ()
     else if l \<noteq> CronNew then CFail (PlainError ''Cron trigger cannot start.'')
     else
       cbind (poke (\<lambda>s. s\<lparr>sc_lifecycle := CronStarting\<rparr>)) (\<lambda>_.
       cbind clock_instant (\<lambda>started.
       cbind (ctry (cbind (initialize_job cx started) (\<lambda>_.
         cbind (peek sc_lifecycle) (\<lambda>l'.
         if l' \<noteq> CronStarting then CFail (PlainError ''Cron trigger stopped during startup.'') else CDone ())))) (\<lambda>r.
       case r of
         Inl e \<Rightarrow>
           cbind (poke (\<lambda>s. if sc_lifecycle s = CronStarting then s\<lparr>sc_lifecycle := CronNew\<rparr> else s)) (\<lambda>_. CFail e)
       | Inr _ \<Rightarrow>
           cbind (poke (\<lambda>s. s\<lparr>sc_lifecycle := CronRunning\<rparr>)) (\<lambda>_.
           cbind (schedule_next cx) (\<lambda>_. CSpawn (TaskReconcile FromRecovery) (CDone ())))))))"

definition stop :: "cron_cx \<Rightarrow> unit cron" where
  "stop cx =
     cbind (peek sc_lifecycle) (\<lambda>l.
     if l = CronStopped then CDone ()
     else
       CLocal (\<lambda>s. s\<lparr>sc_lifecycle := CronStopping, sc_timer := None, sc_target := None, sc_pending := []\<rparr>)
         (\<lambda>s. complete_all cx CronCancelled ''Cron trigger stopped before emission.'' (sc_pending s)
            (CSettled (poke (\<lambda>s. s\<lparr>sc_lifecycle := CronStopped\<rparr>)))))"

text \<open>\<^verbatim>\<open>invoke\<close> on an instant already in canonical form, or now.\<close>

definition invoke :: "cron_cx \<Rightarrow> int option \<Rightarrow> cron_result cron" where
  "invoke cx requested =
     cbind (peek sc_lifecycle) (\<lambda>l.
     if l \<noteq> CronRunning then CFail (PlainError ''Cron trigger is not running.'')
     else
       cbind clock_instant (\<lambda>now.
       let instant = (case requested of None \<Rightarrow> now | Some t \<Rightarrow> t) in
       if now < instant then CFail (RangeError ''trigger-cron:invoke scheduledAt'')
       else admit_firing cx (to_iso instant) FromCommand))"

fun task_prog :: "cron_cx \<Rightarrow> cron_task \<Rightarrow> unit cron" where
  "task_prog cx (TaskReconcile source) = reconcile cx source"
| "task_prog cx (TaskRun p) =
     cbind (run_now cx (pe_scheduled p) (pe_source p) (pe_key p)) (\<lambda>r. resolve (pe_promise p) r)"
| "task_prog cx (TaskComplete p result) = complete_pending cx p result"
| "task_prog cx (TaskRelease key) = CSettled (release cx key)"
| "task_prog cx (TaskTimer timer) = timer_fired cx timer"

end
