(* ===== verification/CronSystem.thy ===== *)
theory CronSystem
  imports CronScheduler JournalPool
begin

text \<open>
  Triggers at work: the durable state capability the host grants (\<^verbatim>\<open>packages/core/src/host.ts\<close>) and a
  system of processes that run a trigger for the same job of the same instance, on one state store that
  other code uses too.
\<close>

section \<open>The durable state capability\<close>

definition cap_key :: "string \<Rightarrow> string \<Rightarrow> string result" where
  "cap_key inst key =
     (if key = [] \<or> 512 < utf16_length key \<or> hd key = CHR ''/'' \<or> ''..'' \<in> set (split_slash key)
      then Inl (TypeError ''cron durable state key must be a bounded relative key'')
      else Inr (''trigger/'' @ inst @ ''/'' @ key))"

definition cap_value_bytes :: nat where "cap_value_bytes = 64 * 1024"

definition cap_value :: "string \<Rightarrow> string result" where
  "cap_value value = (if cap_value_bytes < length value then Inl (TypeError ''cron durable state value'') else Inr value)"

definition cap_read :: "string \<Rightarrow> call \<Rightarrow> string \<Rightarrow> store \<Rightarrow> (string \<times> string) option result \<times> store" where
  "cap_read inst c key st =
     (case cap_key inst key of
        Inl e \<Rightarrow> (Inl e, st)
      | Inr k \<Rightarrow>
          (case state_read c (JStr k) st of
             (res, st') \<Rightarrow>
               (rbind res (\<lambda>found. case found of None \<Rightarrow> Inr None
                  | Some r \<Rightarrow> rbind (cap_value (rc_value r)) (\<lambda>bytes. Inr (Some (bytes, rc_version r)))), st')))"

definition version_argument_ok :: "string option \<Rightarrow> bool" where
  "version_argument_ok expected \<longleftrightarrow> (case expected of None \<Rightarrow> True | Some v \<Rightarrow> v \<noteq> [] \<and> utf16_length v \<le> 512)"

definition cap_cas ::
  "limits \<Rightarrow> string \<Rightarrow> call \<Rightarrow> string \<Rightarrow> string option \<Rightarrow> string \<Rightarrow> store \<Rightarrow> cas_result result \<times> store" where
  "cap_cas l inst c key expected value st =
     (if \<not> version_argument_ok expected then (Inl (TypeError ''cron durable state expectedVersion is invalid''), st)
      else
        case rbind (cap_key inst key) (\<lambda>k. rbind (cap_value value) (\<lambda>bytes. Inr (k, bytes))) of
          Inl e \<Rightarrow> (Inl e, st)
        | Inr (k, bytes) \<Rightarrow>
            state_compare_and_swap l c (JStr k) (case expected of None \<Rightarrow> JNull | Some v \<Rightarrow> JStr v) bytes st)"

section \<open>Steps of one activity\<close>

text \<open>A configuration is the store, the state of the trigger and what is left of the activity. A step adds
  the events it dispatches and the tasks it leaves running. A call may fail at any time, also after it
  took effect; an emission may end in any way.\<close>

inductive act_step ::
  "limits \<Rightarrow> cron_cx \<Rightarrow> store \<times> sched \<times> 'a cron \<Rightarrow> store \<times> sched \<times> 'a cron \<Rightarrow> cron_event list \<Rightarrow> cron_task list \<Rightarrow> bool"
  for l cx where
  act_read: "cap_read (cx_inst cx) c key st = (r, st') \<Longrightarrow> act_step l cx (st, s, CRead key f) (st', s, f r) [] []"
| act_cas: "cap_cas l (cx_inst cx) c key expected v st = (rr, st') \<Longrightarrow>
    act_step l cx (st, s, CCas key expected v f') (st', s, f' rr) [] []"
| act_cas_lost: "cap_cas l (cx_inst cx) c key expected v st = (rr, st') \<Longrightarrow>
    act_step l cx (st, s, CCas key expected v f') (st', s, f' (Inl e)) [] []"
| act_local: "act_step l cx (st, s, CLocal h g) (st, h s, g s) [] []"
| act_clock: "(case t of None \<Rightarrow> True | Some n \<Rightarrow> \<bar>n\<bar> \<le> max_date_ms) \<Longrightarrow> act_step l cx (st, s, CClock k) (st, s, k t) [] []"
| act_lock: "\<not> sc_mutating s \<Longrightarrow> act_step l cx (st, s, CLock p) (st, s\<lparr>sc_mutating := True\<rparr>, p) [] []"
| act_emit: "act_step l cx (st, s, CEmit ev q) (st, s, q outcome) [ev] []"
| act_await: "(n, x) \<in> set (sc_resolved s) \<Longrightarrow> act_step l cx (st, s, CAwait n w) (st, s, w x) [] []"
| act_spawn: "act_step l cx (st, s, CSpawn task p) (st, s, p) [] [task]"
| act_settled: "act_step l cx (st, s, CSettled p) (st, s, p) [] []"

section \<open>Systems\<close>

text \<open>The calls that begin an activity.\<close>

datatype cron_call = CallStart | CallStop | CallInvoke "int option"

fun call_prog :: "cron_cx \<Rightarrow> cron_call \<Rightarrow> unit cron" where
  "call_prog cx CallStart = start cx"
| "call_prog cx CallStop = stop cx"
| "call_prog cx (CallInvoke t) = cbind (invoke cx t) (\<lambda>_. CDone ())"

fun call_ok :: "cron_call \<Rightarrow> bool" where
  "call_ok (CallInvoke (Some t)) \<longleftrightarrow> \<bar>t\<bar> \<le> max_date_ms"
| "call_ok _ \<longleftrightarrow> True"

text \<open>The occurrences the cron library finds are dates.\<close>

definition finds_dates :: "occurrence \<Rightarrow> bool" where
  "finds_dates occ \<longleftrightarrow> (\<forall>job t d. occ job t = Inr d \<longrightarrow> \<bar>d\<bar> \<le> max_date_ms)"

text \<open>Triggers of one job: they share digest, instance and job id and hold the capability; owner,
  schedule and everything else of the job may differ.\<close>

definition trigger_of :: "(string \<Rightarrow> string) \<Rightarrow> string \<Rightarrow> string \<Rightarrow> cron_cx \<Rightarrow> bool" where
  "trigger_of sha inst job cx \<longleftrightarrow>
     cx_sha cx = sha \<and> cx_inst cx = inst \<and> jb_id (cx_job cx) = job \<and> cx_durable cx
     \<and> finds_dates (cx_previous cx) \<and> finds_dates (cx_upcoming cx)"

text \<open>The store, the processes (\<open>None\<close> once they have crashed), the activities with the process each
  belongs to, and every event dispatched so far.\<close>

type_synonym cron_system =
  "store \<times> (cron_cx \<times> sched) option list \<times> (nat \<times> unit cron) list \<times> cron_event list"

definition job_key :: "(string \<Rightarrow> string) \<Rightarrow> string \<Rightarrow> string \<Rightarrow> string" where
  "job_key sha inst job = ''trigger/'' @ inst @ ''/'' @ durable_job_key sha inst job"

text \<open>\<open>sys_stray\<close>: a timer that was armed again without being cleared still fires. \<open>sys_lifecycle\<close>: a trigger
  of several jobs has one lifecycle, which its other jobs change too.\<close>

inductive system_step ::
  "limits \<Rightarrow> (string \<Rightarrow> string) \<Rightarrow> string \<Rightarrow> string \<Rightarrow> cron_system \<Rightarrow> cron_system \<Rightarrow> bool"
  for l sha inst job where
  sys_create: "trigger_of sha inst job cx \<Longrightarrow> \<bar>now\<bar> \<le> max_date_ms \<Longrightarrow>
    system_step l sha inst job (st, ps, acts, tr) (st, ps @ [Some (cx, job_state cx now)], acts, tr)"
| sys_crash: "i < length ps \<Longrightarrow>
    system_step l sha inst job (st, ps, acts, tr) (st, ps[i := None], acts, tr)"
| sys_call: "i < length ps \<Longrightarrow> ps ! i = Some (cx, s) \<Longrightarrow> call_ok call \<Longrightarrow>
    system_step l sha inst job (st, ps, acts, tr) (st, ps, acts @ [(i, call_prog cx call)], tr)"
| sys_timer: "i < length ps \<Longrightarrow> ps ! i = Some (cx, s) \<Longrightarrow> sc_timer s = Some timer \<Longrightarrow>
    system_step l sha inst job (st, ps, acts, tr)
      (st, ps[i := Some (cx, s\<lparr>sc_timer := None\<rparr>)], acts @ [(i, task_prog cx (TaskTimer timer))], tr)"
| sys_stray: "i < length ps \<Longrightarrow> ps ! i = Some (cx, s) \<Longrightarrow>
    system_step l sha inst job (st, ps, acts, tr) (st, ps, acts @ [(i, task_prog cx (TaskTimer timer))], tr)"
| sys_lifecycle: "i < length ps \<Longrightarrow> ps ! i = Some (cx, s) \<Longrightarrow>
    system_step l sha inst job (st, ps, acts, tr) (st, ps[i := Some (cx, s\<lparr>sc_lifecycle := l'\<rparr>)], acts, tr)"
| sys_act: "i < length ps \<Longrightarrow> ps ! i = Some (cx, s) \<Longrightarrow> j < length acts \<Longrightarrow> acts ! j = (i, p) \<Longrightarrow>
    act_step l cx (st, s, p) (st', s', p') es ts \<Longrightarrow>
    system_step l sha inst job (st, ps, acts, tr)
      (st', ps[i := Some (cx, s')], acts[j := (i, p')] @ map (\<lambda>t. (i, task_prog cx t)) ts, tr @ es)"
| sys_other: "public_step l st st' \<Longrightarrow>
    lookup (st_snap st') (job_key sha inst job) = lookup (st_snap st) (job_key sha inst job) \<Longrightarrow>
    system_step l sha inst job (st, ps, acts, tr) (st', ps, acts, tr)"

abbreviation system_run ::
  "limits \<Rightarrow> (string \<Rightarrow> string) \<Rightarrow> string \<Rightarrow> string \<Rightarrow> cron_system \<Rightarrow> cron_system \<Rightarrow> bool" where
  "system_run l sha inst job \<equiv> (system_step l sha inst job)\<^sup>*\<^sup>*"

text \<open>The instant an event fires for, as its metadata says.\<close>

definition event_instant :: "cron_event \<Rightarrow> string option" where
  "event_instant e =
     (case ce_metadata e of
        JObj fs \<Rightarrow> (case fld fs ''cron'' of JObj cs \<Rightarrow> (case fld cs ''scheduledAt'' of JStr t \<Rightarrow> Some t | _ \<Rightarrow> None) | _ \<Rightarrow> None)
      | _ \<Rightarrow> None)"

lemma event_instant_of [simp]: "event_instant (event_of cx scheduled source key now) = Some scheduled"
  by (simp add: event_instant_def event_of_def cron_metadata_def Let_def)

text \<open>The watermark of the job in the store.\<close>

definition stored_watermark :: "string \<Rightarrow> snapshot \<Rightarrow> int option" where
  "stored_watermark k s =
     (case lookup s k of None \<Rightarrow> None | Some r \<Rightarrow> map_option instant_ms (watermark_text (sv_value r)))"

end
