(* ===== verification/CronGood.thy ===== *)
theory CronGood
  imports CronSystem "HOL-Library.Multiset"
begin

text \<open>
  What an activity of a trigger may do with the instants it owns. An activity comes to own an instant when
  its write raises the stored watermark to it, hands it to the queue or to the task that runs it, and
  gives it up when it dispatches the event. \<open>good\<close> is the weakest precondition of a program under any
  steps of others, in terms of the instants it owns and of the watermarks its versions stand for.
\<close>

section \<open>Owned instants\<close>

text \<open>The watermark every version of the record that ever was stored stood for.\<close>

type_synonym history = "string \<Rightarrow> int option"

definition mark :: "string \<Rightarrow> int option" where
  "mark bytes = map_option instant_ms (watermark_text bytes)"

abbreviation wm :: "durable_job \<Rightarrow> int" where "wm r \<equiv> instant_ms (dj_watermark r)"

definition pending_instants :: "sched \<Rightarrow> int multiset" where
  "pending_instants s = mset (map (\<lambda>p. instant_ms (pe_scheduled p)) (sc_pending s))"

definition sched_ok :: "history \<Rightarrow> sched \<Rightarrow> bool" where
  "sched_ok H s \<longleftrightarrow> instant_ok (dj_watermark (sc_record s)) \<and> (\<forall>v. sc_version s = Some v \<longrightarrow> H v = Some (wm (sc_record s)))"

fun task_instants :: "cron_task \<Rightarrow> int multiset" where
  "task_instants (TaskRun p) = {#instant_ms (pe_scheduled p)#}"
| "task_instants _ = {#}"

text \<open>What an applied write of watermark \<open>w\<close> over version \<open>ev\<close> wins.\<close>

definition won :: "history \<Rightarrow> string option \<Rightarrow> int \<Rightarrow> int multiset" where
  "won H ev w = (case ev of None \<Rightarrow> {#w#} | Some v \<Rightarrow> if H v = Some w then {#} else {#w#})"

definition write_ok :: "history \<Rightarrow> string option \<Rightarrow> int \<Rightarrow> bool" where
  "write_ok H ev w \<longleftrightarrow> (\<forall>v. ev = Some v \<longrightarrow> (\<exists>w0. H v = Some w0 \<and> w0 \<le> w))"

definition event_ms :: "cron_event \<Rightarrow> int" where
  "event_ms e = (case event_instant e of None \<Rightarrow> 0 | Some t \<Rightarrow> instant_ms t)"

lemma event_ms_of [simp]: "event_ms (event_of cx scheduled source key now) = instant_ms scheduled"
  by (simp add: event_ms_def)

section \<open>The weakest precondition\<close>

primrec good ::
  "string \<Rightarrow> (js_error \<Rightarrow> history \<Rightarrow> int multiset \<Rightarrow> bool) \<Rightarrow> ('a \<Rightarrow> history \<Rightarrow> int multiset \<Rightarrow> bool) \<Rightarrow>
   'a cron \<Rightarrow> history \<Rightarrow> int multiset \<Rightarrow> bool" where
  "good K E Q (CDone x) = Q x"
| "good K E Q (CFail e) = E e"
| "good K E Q (CRead key f) = (\<lambda>H T. key = K \<and> (\<forall>H'. H \<subseteq>\<^sub>m H' \<longrightarrow>
     (\<forall>e. good K E Q (f (Inl e)) H' T) \<and> good K E Q (f (Inr None)) H' T
     \<and> (\<forall>b v. H' v = mark b \<longrightarrow> good K E Q (f (Inr (Some (b, v)))) H' T)))"
| "good K E Q (CCas key ev b f) = (\<lambda>H T. key = K \<and> (\<exists>w. mark b = Some w \<and> write_ok H ev w \<and> (\<forall>H'. H \<subseteq>\<^sub>m H' \<longrightarrow>
     (\<forall>e. good K E Q (f (Inl e)) H' T) \<and> (\<forall>c. good K E Q (f (Inr (CasConflict c))) H' T)
     \<and> (\<forall>r. H' (rc_version r) = Some w \<longrightarrow> good K E Q (f (Inr (CasApplied r))) H' (T + won H ev w)))))"
| "good K E Q (CLocal h g) = (\<lambda>H T. \<forall>H' s. H \<subseteq>\<^sub>m H' \<longrightarrow> sched_ok H' s \<longrightarrow> sched_ok H' (h s)
     \<and> (\<exists>T'. T' + pending_instants (h s) \<subseteq># T + pending_instants s \<and> good K E Q (g s) H' T'))"
| "good K E Q (CClock f) = (\<lambda>H T. \<forall>H'. H \<subseteq>\<^sub>m H' \<longrightarrow>
     good K E Q (f None) H' T \<and> (\<forall>n. \<bar>n\<bar> \<le> max_date_ms \<longrightarrow> good K E Q (f (Some n)) H' T))"
| "good K E Q (CLock p) = (\<lambda>H T. \<forall>H'. H \<subseteq>\<^sub>m H' \<longrightarrow> good K E Q p H' T)"
| "good K E Q (CEmit ev f) = (\<lambda>H T. event_ms ev \<in># T \<and> (\<forall>H' x. H \<subseteq>\<^sub>m H' \<longrightarrow> good K E Q (f x) H' (T - {#event_ms ev#})))"
| "good K E Q (CAwait n f) = (\<lambda>H T. \<forall>H' x. H \<subseteq>\<^sub>m H' \<longrightarrow> good K E Q (f x) H' T)"
| "good K E Q (CSpawn t p) = (\<lambda>H T. \<exists>T'. T' + task_instants t \<subseteq># T \<and> (\<forall>H'. H \<subseteq>\<^sub>m H' \<longrightarrow> good K E Q p H' T'))"
| "good K E Q (CSettled p) = (\<lambda>H T. \<forall>H'. H \<subseteq>\<^sub>m H' \<longrightarrow> good K E Q p H' T)"

lemma grow_refl [simp]: "H \<subseteq>\<^sub>m (H :: history)"
  by (simp add: map_le_def)

lemma grow_trans: "H \<subseteq>\<^sub>m H' \<Longrightarrow> H' \<subseteq>\<^sub>m H'' \<Longrightarrow> H \<subseteq>\<^sub>m (H'' :: history)"
  by (rule map_le_trans)

lemma grown: "H \<subseteq>\<^sub>m H' \<Longrightarrow> H v = Some w \<Longrightarrow> H' v = Some (w :: int)"
  by (metis domI map_le_def)

lemma write_ok_grow: "H \<subseteq>\<^sub>m H' \<Longrightarrow> write_ok H ev w \<Longrightarrow> write_ok H' ev w"
  unfolding write_ok_def by (metis grown)

lemma won_grow: "H \<subseteq>\<^sub>m H' \<Longrightarrow> write_ok H ev w \<Longrightarrow> won H' ev w = won H ev w"
proof (cases ev)
  case (Some v)
  assume sub: "H \<subseteq>\<^sub>m H'" and "write_ok H ev w"
  then obtain w0 where "H v = Some w0" using Some by (auto simp: write_ok_def)
  moreover from this have "H' v = Some w0" by (rule grown [OF sub])
  ultimately
  show ?thesis by (simp add: won_def Some)
qed (simp add: won_def)

lemma sched_ok_grow: "H \<subseteq>\<^sub>m H' \<Longrightarrow> sched_ok H s \<Longrightarrow> sched_ok H' s"
  unfolding sched_ok_def by (metis grown)

lemma good_bind [simp]: "good K E Q (cbind p k) = good K E (\<lambda>x. good K E Q (k x)) p"
  by (induction p) simp_all

lemma good_try [simp]: "good K E Q (ctry p) = good K (\<lambda>e. Q (Inl e)) (\<lambda>x. Q (Inr x)) p"
  by (induction p) simp_all

lemma good_mono:
  "good K E Q p H T \<Longrightarrow> (\<And>e H' T'. H \<subseteq>\<^sub>m H' \<Longrightarrow> E e H' T' \<Longrightarrow> E' e H' T') \<Longrightarrow>
   (\<And>x H' T'. H \<subseteq>\<^sub>m H' \<Longrightarrow> Q x H' T' \<Longrightarrow> Q' x H' T') \<Longrightarrow> good K E' Q' p H T"
proof (induction p arbitrary: H T)
  case (CRead key f)
  have step: "good K E' Q' (f x) H' T'" if "good K E Q (f x) H' T'" "H \<subseteq>\<^sub>m H'" for x H' T'
    by (rule CRead.IH [OF rangeI that(1)]) (use CRead.prems(2,3) grow_trans [OF that(2)] in auto)
  show ?case using CRead.prems(1) by (auto intro: step)
next
  case (CCas key ev b f)
  have step: "good K E' Q' (f x) H' T'" if "good K E Q (f x) H' T'" "H \<subseteq>\<^sub>m H'" for x H' T'
    by (rule CCas.IH [OF rangeI that(1)]) (use CCas.prems(2,3) grow_trans [OF that(2)] in auto)
  show ?case using CCas.prems(1) by simp (metis step)
next
  case (CLocal h g)
  have step: "good K E' Q' (g x) H' T'" if "good K E Q (g x) H' T'" "H \<subseteq>\<^sub>m H'" for x H' T'
    by (rule CLocal.IH [OF rangeI that(1)]) (use CLocal.prems(2,3) grow_trans [OF that(2)] in auto)
  show ?case using CLocal.prems(1) step by simp meson
next
  case (CClock f)
  have step: "good K E' Q' (f x) H' T'" if "good K E Q (f x) H' T'" "H \<subseteq>\<^sub>m H'" for x H' T'
    by (rule CClock.IH [OF rangeI that(1)]) (use CClock.prems(2,3) grow_trans [OF that(2)] in auto)
  show ?case using CClock.prems(1) by (auto intro: step)
next
  case (CLock p)
  have step: "good K E' Q' p H' T'" if "good K E Q p H' T'" "H \<subseteq>\<^sub>m H'" for H' T'
    by (rule CLock.IH [OF that(1)]) (use CLock.prems(2,3) grow_trans [OF that(2)] in auto)
  show ?case using CLock.prems(1) by (auto intro: step)
next
  case (CEmit ev f)
  have step: "good K E' Q' (f x) H' T'" if "good K E Q (f x) H' T'" "H \<subseteq>\<^sub>m H'" for x H' T'
    by (rule CEmit.IH [OF rangeI that(1)]) (use CEmit.prems(2,3) grow_trans [OF that(2)] in auto)
  show ?case using CEmit.prems(1) by (auto intro: step)
next
  case (CAwait n f)
  have step: "good K E' Q' (f x) H' T'" if "good K E Q (f x) H' T'" "H \<subseteq>\<^sub>m H'" for x H' T'
    by (rule CAwait.IH [OF rangeI that(1)]) (use CAwait.prems(2,3) grow_trans [OF that(2)] in auto)
  show ?case using CAwait.prems(1) by (auto intro: step)
next
  case (CSpawn t p)
  have step: "good K E' Q' p H' T'" if "good K E Q p H' T'" "H \<subseteq>\<^sub>m H'" for H' T'
    by (rule CSpawn.IH [OF that(1)]) (use CSpawn.prems(2,3) grow_trans [OF that(2)] in auto)
  show ?case using CSpawn.prems(1) by (auto intro: step)
next
  case (CSettled p)
  have step: "good K E' Q' p H' T'" if "good K E Q p H' T'" "H \<subseteq>\<^sub>m H'" for H' T'
    by (rule CSettled.IH [OF that(1)]) (use CSettled.prems(2,3) grow_trans [OF that(2)] in auto)
  show ?case using CSettled.prems(1) by (auto intro: step)
qed simp_all

text \<open>What holds of a program now holds of it later.\<close>

lemma good_grow:
  assumes "good K E Q p H T" "H \<subseteq>\<^sub>m H'"
    and "\<And>e. E e H T \<Longrightarrow> E e H' T" "\<And>x. Q x H T \<Longrightarrow> Q x H' T"
  shows "good K E Q p H' T"
proof (cases p)
  case (CCas key ev b f)
  then show ?thesis
    using assms(1) by simp (metis won_grow [OF assms(2)] write_ok_grow [OF assms(2)] grow_trans [OF assms(2)])
next
  case (CSpawn t p)
  then show ?thesis using assms(1) by simp (metis grow_trans [OF assms(2)])
qed (use assms in \<open>auto dest: grow_trans [OF assms(2)]\<close>)

lemma good_lift [simp]:
  "good K E Q (clift r) = (case r of Inl e \<Rightarrow> E e | Inr x \<Rightarrow> Q x)"
  by (cases r) simp_all

text \<open>A change of the state that keeps the record and its version and at most drops queued firings.\<close>

definition light :: "(sched \<Rightarrow> sched) \<Rightarrow> bool" where
  "light h \<longleftrightarrow> (\<forall>s. sc_record (h s) = sc_record s \<and> sc_version (h s) = sc_version s
     \<and> pending_instants (h s) \<subseteq># pending_instants s)"

definition plain :: "(sched \<Rightarrow> sched) \<Rightarrow> bool" where
  "plain h \<longleftrightarrow> (\<forall>s. sc_record (h s) = sc_record s \<and> sc_version (h s) = sc_version s \<and> sc_pending (h s) = sc_pending s)"

lemma plain_light: "plain h \<Longrightarrow> light h"
  by (simp add: plain_def light_def pending_instants_def)

lemma light_ok: "light h \<Longrightarrow> sched_ok H s \<Longrightarrow> sched_ok H (h s)"
  by (simp add: light_def sched_ok_def)

lemma good_local:
  assumes "light h" "\<And>H' s. H \<subseteq>\<^sub>m H' \<Longrightarrow> sched_ok H' s \<Longrightarrow> good K E Q (g s) H' T"
  shows "good K E Q (CLocal h g) H T"
  using assms(2) light_ok [OF assms(1)] assms(1)
  by (auto simp: light_def intro!: exI [of _ T])

lemma good_peek: "(\<And>H' s. H \<subseteq>\<^sub>m H' \<Longrightarrow> sched_ok H' s \<Longrightarrow> Q (f s) H' T) \<Longrightarrow> good K E Q (peek f) H T"
  unfolding peek_def by (rule good_local) (simp_all add: light_def)

lemma good_poke: "light h \<Longrightarrow> (\<And>H'. H \<subseteq>\<^sub>m H' \<Longrightarrow> Q () H' T) \<Longrightarrow> good K E Q (poke h) H T"
  unfolding poke_def by (rule good_local) simp_all

lemma good_clock:
  "(\<And>e H'. H \<subseteq>\<^sub>m H' \<Longrightarrow> E e H' T) \<Longrightarrow> (\<And>n H'. H \<subseteq>\<^sub>m H' \<Longrightarrow> \<bar>n\<bar> \<le> max_date_ms \<Longrightarrow> Q n H' T) \<Longrightarrow>
   good K E Q clock_instant H T"
  by (simp add: clock_instant_def)

lemma good_mutate:
  assumes "\<And>H'. H \<subseteq>\<^sub>m H' \<Longrightarrow> good K (\<lambda>e H' T'. \<forall>H''. H' \<subseteq>\<^sub>m H'' \<longrightarrow> E e H'' T') (\<lambda>x H' T'. \<forall>H''. H' \<subseteq>\<^sub>m H'' \<longrightarrow> Q x H'' T') p H' T"
  shows "good K E Q (mutate_state p) H T"
  unfolding mutate_state_def
  by (simp, intro allI impI, rule good_mono [OF assms])
    (auto intro!: good_poke simp: light_def pending_instants_def)

end
