(* ===== verification/CronQuiet.thy ===== *)
theory CronQuiet
  imports CronGood
begin

text \<open>
  The operations that own no instant need none: they are quiet. An update of the record whose transform
  never lowers the watermark wins the instant it raises the watermark to.
\<close>

section \<open>Updates of the record\<close>

definition moves :: "durable_job \<Rightarrow> durable_job \<Rightarrow> bool" where
  "moves r n \<longleftrightarrow> instant_ok (dj_watermark n) \<and> wm r \<le> wm n"

definition raised :: "durable_job \<Rightarrow> durable_job \<Rightarrow> int multiset" where
  "raised r n = (if wm r < wm n then {#wm n#} else {#})"

lemma parsed_wf: "parse_durable_record job b = Inr r \<Longrightarrow> wf_durable r \<and> dj_job r = job"
  by (auto simp: parse_durable_record_def dest: parse_durable_wf split: if_splits option.splits)

lemma good_hold:
  assumes "instant_ok (dj_watermark r)" "\<And>v. version = Some v \<Longrightarrow> H v = Some (wm r)" "T' \<subseteq># T" "\<And>H'. H \<subseteq>\<^sub>m H' \<Longrightarrow> Q () H' T'"
  shows "good K E Q (hold r version) H T"
  using assms
  by (auto simp: hold_def poke_def sched_ok_def pending_instants_def intro!: exI [of _ T'] dest: grown)

lemma good_read_back:
  assumes "\<And>e H' T'. H \<subseteq>\<^sub>m H' \<Longrightarrow> E e H' T'" "H v = mark b"
    and "\<And>r H'. H \<subseteq>\<^sub>m H' \<Longrightarrow> instant_ok (dj_watermark r) \<Longrightarrow> good K E Q (p r) H' T"
  shows "good K E Q (cbind (clift (parse_durable_record job b)) (\<lambda>r. cbind (hold r (Some v)) (\<lambda>_. p r))) H T"
proof (cases "parse_durable_record job b")
  case (Inr r)
  have "H v = Some (wm r)" "instant_ok (dj_watermark r)"
    using assms(2) watermark_parsed [OF Inr] parsed_wf [OF Inr] by (auto simp: mark_def wf_durable_def)
  then show ?thesis using assms(3) by (auto simp: Inr intro!: good_hold)
qed (simp add: assms(1))

lemma good_swap:
  assumes E: "\<And>e H' T'. H \<subseteq>\<^sub>m H' \<Longrightarrow> E e H' T'"
    and ok: "instant_ok (dj_watermark nxt)" "write_ok H version (wm nxt)" "T' \<subseteq># T + won H version (wm nxt)"
    and applied: "\<And>H'. H \<subseteq>\<^sub>m H' \<Longrightarrow> Q x H' T'"
    and conflict: "\<And>H'. H \<subseteq>\<^sub>m H' \<Longrightarrow> good K E Q p H' T"
  shows "good K E Q (cbind (clift (encode_durable_record nxt)) (\<lambda>bytes. CCas K version bytes (\<lambda>res. cbind (clift res) (\<lambda>result.
    case result of CasApplied r \<Rightarrow> cbind (hold nxt (Some (rc_version r))) (\<lambda>_. CDone x) | CasConflict c \<Rightarrow> p)))) H T"
proof (cases "encode_durable_record nxt")
  case (Inr b)
  have "mark b = Some (wm nxt)" using watermark_encoded [OF Inr] by (simp add: mark_def)
  moreover have "good K (E :: js_error \<Rightarrow> history \<Rightarrow> int multiset \<Rightarrow> bool) (\<lambda>_. Q x) (hold nxt (Some (rc_version r))) H' (T + won H version (wm nxt))"
    if "H \<subseteq>\<^sub>m H'" "H' (rc_version r) = Some (wm nxt)" for H' and r :: state_record
    using that ok applied by (auto intro!: good_hold dest: grow_trans)
  ultimately show ?thesis using ok(2) E conflict by (simp add: Inr)
qed (simp add: E)

lemma good_update_loop:
  assumes cx: "cx_durable cx" "cx_key cx = K"
    and E: "\<And>e H' T'. H \<subseteq>\<^sub>m H' \<Longrightarrow> E e H' T'"
    and tr: "\<And>r H'. H \<subseteq>\<^sub>m H' \<Longrightarrow> instant_ok (dj_watermark r) \<Longrightarrow>
      good K E (\<lambda>(x, c) H'' T'. T' = T \<and> (case c of None \<Rightarrow> Q (False, x) H'' T
        | Some n \<Rightarrow> moves r n \<and> (\<forall>H3. H'' \<subseteq>\<^sub>m H3 \<longrightarrow> Q (True, x) H3 (T + raised r n)))) (transform r) H' T"
    and "H \<subseteq>\<^sub>m G"
  shows "good K E Q (update_loop k cx allow transform) G T"
  using assms(5)
proof (induction k arbitrary: G)
  case 0
  then show ?case by (simp add: E)
next
  case (Suc k)
  note later = grow_trans [OF Suc.prems]
  show ?case
    unfolding update_loop.simps good_bind
  proof (rule good_peek, simp only: prod.case)
    fix G1 s assume G1: "G \<subseteq>\<^sub>m G1" and s: "sched_ok G1 s"
    let ?r = "sc_record s" and ?v = "sc_version s"
    let ?fence = "\<not> allow \<and> dj_schedule ?r \<noteq> cx_fingerprint cx"
    have G1': "H \<subseteq>\<^sub>m G1" using G1 later by blast
    have fence: "good K E Q (cbind (poke fence_generation) (\<lambda>_. CFail (generation_error cx))) G1 T"
      using E G1' by (auto intro!: good_poke simp: light_def fence_generation_def pending_instants_def dest: grow_trans)
    have r: "instant_ok (dj_watermark ?r)" using s by (simp add: sched_ok_def)
    let ?after = "\<lambda>x c. case c of None \<Rightarrow> CDone (False, x) | Some n \<Rightarrow>
        if \<not> cx_durable cx then cbind (hold n None) (\<lambda>_. CDone (True, x))
        else cbind (clift (encode_durable_record n)) (\<lambda>bytes. CCas (cx_key cx) ?v bytes (\<lambda>res. cbind (clift res) (\<lambda>result.
          case result of CasApplied a \<Rightarrow> cbind (hold n (Some (rc_version a))) (\<lambda>_. CDone (True, x))
          | CasConflict _ \<Rightarrow> CRead (cx_key cx) (\<lambda>again. cbind (clift again) (\<lambda>found.
             case found of None \<Rightarrow> CFail (job_error cx '' disappeared during an update.'')
             | Some (b, v) \<Rightarrow> cbind (clift (parse_durable_record (jb_id (cx_job cx)) b)) (\<lambda>r.
                 cbind (hold r (Some v)) (\<lambda>_. update_loop k cx allow transform)))))))"
    have swap: "good K E Q (?after x c) G2 T2"
      if G2: "G1 \<subseteq>\<^sub>m G2" and post: "T2 = T" "case c of None \<Rightarrow> Q (False, x) G2 T
        | Some n \<Rightarrow> moves ?r n \<and> (\<forall>H3. G2 \<subseteq>\<^sub>m H3 \<longrightarrow> Q (True, x) H3 (T + raised ?r n))" for x c G2 T2
    proof (cases c)
      case (Some n)
      have n: "moves ?r n" and q: "\<And>H3. G2 \<subseteq>\<^sub>m H3 \<Longrightarrow> Q (True, x) H3 (T + raised ?r n)" using post Some by auto
      have E': "E e H' T'" if "G2 \<subseteq>\<^sub>m H'" for e H' T' using E grow_trans [OF grow_trans [OF G1' G2] that] by blast
      have v: "\<And>v. ?v = Some v \<Longrightarrow> G2 v = Some (wm ?r)" using s G2 by (auto simp: sched_ok_def dest: grown)
      have "write_ok G2 ?v (wm n)" "raised ?r n \<subseteq># won G2 ?v (wm n)"
        using v n by (auto simp: write_ok_def moves_def raised_def won_def split: option.splits)
      moreover have "good K E Q (CRead (cx_key cx) (\<lambda>again. cbind (clift again) (\<lambda>found.
             case found of None \<Rightarrow> CFail (job_error cx '' disappeared during an update.'')
             | Some (b, v) \<Rightarrow> cbind (clift (parse_durable_record (jb_id (cx_job cx)) b)) (\<lambda>r.
                 cbind (hold r (Some v)) (\<lambda>_. update_loop k cx allow transform))))) H' T" if H': "G2 \<subseteq>\<^sub>m H'" for H'
      proof -
        have "H \<subseteq>\<^sub>m H''" if "H' \<subseteq>\<^sub>m H''" for H'' using grow_trans [OF grow_trans [OF grow_trans [OF G1' G2] H'] that] .
        then show ?thesis using cx(2) E by (auto simp del: good_bind intro!: good_read_back Suc.IH [folded cx(2)] dest: grow_trans)
      qed
      ultimately show ?thesis
        using cx n q E' post(1) by (auto simp: Some moves_def simp del: good_bind good.simps intro!: good_swap [where T' = "T + raised ?r n"])
    qed (use post in simp)
    show "good K E Q (if ?fence then cbind (poke fence_generation) (\<lambda>_. CFail (generation_error cx))
      else cbind (transform ?r) (\<lambda>(x, c). ?after x c)) G1 T"
    proof (cases ?fence)
      case False
      have "good K E Q (cbind (transform ?r) (\<lambda>(x, c). ?after x c)) G1 T"
        unfolding good_bind
      proof (rule good_mono [OF tr [OF G1' r]], assumption)
        fix y G2 T2
        assume G2: "G1 \<subseteq>\<^sub>m G2" and y: "(case y of (x, c) \<Rightarrow> \<lambda>H'' T'. T' = T \<and> (case c of None \<Rightarrow> Q (False, x) H'' T
          | Some n \<Rightarrow> moves ?r n \<and> (\<forall>H3. H'' \<subseteq>\<^sub>m H3 \<longrightarrow> Q (True, x) H3 (T + raised ?r n)))) G2 T2"
        obtain x c where xc: "y = (x, c)" by (cases y)
        show "good K E Q (case y of (x, c) \<Rightarrow> ?after x c) G2 T2"
          using swap [OF G2, of T2 x c] y unfolding xc by (simp only: prod.case)
      qed
      then show ?thesis unfolding if_not_P [OF False] .
    next
      case True
      show ?thesis unfolding if_P [OF True] by (rule fence)
    qed
  qed
qed

text \<open>A transform that keeps its instants and never lowers the watermark.\<close>

definition moving :: "string \<Rightarrow> 'x transform \<Rightarrow> bool" where
  "moving K t \<longleftrightarrow> (\<forall>r H T. instant_ok (dj_watermark r) \<longrightarrow>
     good K (\<lambda>_ _ _. True) (\<lambda>(x, c) _ T'. T' = T \<and> (\<forall>n. c = Some n \<longrightarrow> moves r n)) (t r) H T)"

section \<open>Quiet programs\<close>

definition quiet :: "string \<Rightarrow> 'a cron \<Rightarrow> bool" where
  "quiet K p \<longleftrightarrow> (\<forall>H T. good K (\<lambda>_ _ _. True) (\<lambda>_ _ _. True) p H T)"

named_theorems quiets \<open>Programs that are quiet\<close>

lemma quiet_good: "quiet K p \<Longrightarrow> (\<And>e H' T'. H \<subseteq>\<^sub>m H' \<Longrightarrow> E e H' T') \<Longrightarrow> (\<And>x H' T'. H \<subseteq>\<^sub>m H' \<Longrightarrow> Q x H' T') \<Longrightarrow> good K E Q p H T"
  unfolding quiet_def by (blast intro: good_mono)

lemma quietI: "(\<And>H T. good K (\<lambda>_ _ _. True) (\<lambda>_ _ _. True) p H T) \<Longrightarrow> quiet K p"
  by (simp add: quiet_def)

lemma quiet_ends [quiets, simp]: "quiet K (CDone x)" "quiet K (CFail e)"
  by (simp_all add: quiet_def)

lemma quiet_cbind [quiets]: "quiet K p \<Longrightarrow> (\<And>x. quiet K (k x)) \<Longrightarrow> quiet K (cbind p k)"
  by (rule quietI, simp, rule quiet_good, assumption) (simp_all add: quiet_def)

lemma quiet_try [quiets]: "quiet K p \<Longrightarrow> quiet K (ctry p)"
  by (simp add: quiet_def)

lemma quiet_lift [quiets]: "quiet K (clift r)"
  by (cases r) simp_all

lemma quiet_peek [quiets]: "quiet K (peek f)"
  by (rule quietI, rule good_peek) simp

lemma quiet_local: "light h \<Longrightarrow> (\<And>s. quiet K (g s)) \<Longrightarrow> quiet K (CLocal h g)"
  by (rule quietI, rule good_local) (simp_all add: quiet_def)

lemma quiet_poke: "plain h \<Longrightarrow> quiet K (poke h)"
  unfolding poke_def by (rule quiet_local) (simp_all add: plain_light)

lemma quiet_clock [quiets]: "quiet K clock_instant"
  by (rule quietI, rule good_clock) simp_all

lemma quiet_steps [quiets]:
  "quiet K p \<Longrightarrow> quiet K (CLock p)" "quiet K p \<Longrightarrow> quiet K (CSettled p)" "task_instants t = {#} \<Longrightarrow> quiet K p \<Longrightarrow> quiet K (CSpawn t p)"
  "(\<And>x. quiet K (w x)) \<Longrightarrow> quiet K (CAwait n w)"
  by (auto simp: quiet_def)

lemma quiet_mutate [quiets]: "quiet K p \<Longrightarrow> quiet K (mutate_state p)"
  unfolding mutate_state_def by (intro quiets quiet_poke) (simp_all add: plain_def)

lemma quiet_branches [quiets]:
  "(b \<Longrightarrow> quiet K p) \<Longrightarrow> (\<not> b \<Longrightarrow> quiet K q) \<Longrightarrow> quiet K (if b then p else q)"
  "(a = None \<Longrightarrow> quiet K p) \<Longrightarrow> (\<And>x. a = Some x \<Longrightarrow> quiet K (f x)) \<Longrightarrow> quiet K (case a of None \<Rightarrow> p | Some x \<Rightarrow> f x)"
  "(\<And>e. r = Inl e \<Longrightarrow> quiet K (g e)) \<Longrightarrow> (\<And>x. r = Inr x \<Longrightarrow> quiet K (h x)) \<Longrightarrow> quiet K (case r of Inl e \<Rightarrow> g e | Inr x \<Rightarrow> h x)"
  "(\<And>y z. d = (y, z) \<Longrightarrow> quiet K (k y z)) \<Longrightarrow> quiet K (case d of (y, z) \<Rightarrow> k y z)"
  by (auto split: option.splits sum.splits prod.splits)

lemma quiet_bool: "quiet K p \<Longrightarrow> quiet K q \<Longrightarrow> quiet K (case b of True \<Rightarrow> p | False \<Rightarrow> q)"
  by (cases b) simp_all

definition of_job :: "string \<Rightarrow> cron_cx \<Rightarrow> bool" where
  "of_job K cx \<longleftrightarrow> cx_durable cx \<and> cx_key cx = K \<and> finds_dates (cx_previous cx) \<and> finds_dates (cx_upcoming cx)"

lemma quiet_update: "of_job K cx \<Longrightarrow> moving K t \<Longrightarrow> quiet K (update_record cx allow t)"
  unfolding update_record_def of_job_def
proof (intro quietI good_update_loop [OF _ _ _ _ grow_refl])
  fix H H' :: history and T and r :: durable_job
  assume "moving K t" "instant_ok (dj_watermark r)"
  then have "good K (\<lambda>_ _ _. True) (\<lambda>(x, c) _ T'. T' = T \<and> (\<forall>n. c = Some n \<longrightarrow> moves r n)) (t r) H' T"
    by (simp add: moving_def)
  then show "good K (\<lambda>_ _ _. True) (\<lambda>(x, c) H'' T'. T' = T \<and> (case c of None \<Rightarrow> True
      | Some n \<Rightarrow> moves r n \<and> (\<forall>H3. H'' \<subseteq>\<^sub>m H3 \<longrightarrow> True))) (t r) H' T"
    by (rule good_mono) (auto split: option.splits)
qed simp_all

lemma moving_value: "(\<And>r n. instant_ok (dj_watermark r) \<Longrightarrow> f r = Some n \<Longrightarrow> moves r n) \<Longrightarrow> moving K (\<lambda>r. CDone ((), f r))"
  by (simp add: moving_def)

lemma quiet_update_by:
  "of_job K cx \<Longrightarrow> (\<And>r n. instant_ok (dj_watermark r) \<Longrightarrow> f r = Some n \<Longrightarrow> moves r n) \<Longrightarrow> quiet K (update_by cx allow f)"
  unfolding update_by_def by (intro quiets quiet_update moving_value)

section \<open>The durable operations\<close>

lemma plain_intros:
  "plain (\<lambda>s. s)" "plain fence_generation" "plain (note_regression now)" "plain (after_reschedule cx started)"
  by (simp_all add: plain_def fence_generation_def note_regression_def after_reschedule_def)

lemma keeps_watermark: "instant_ok (dj_watermark r) \<Longrightarrow> dj_watermark n = dj_watermark r \<Longrightarrow> moves r n"
  by (simp add: moves_def)

lemma rescheduled_moves:
  assumes "instant_ok (dj_watermark r)" "\<bar>started\<bar> \<le> max_date_ms" "rescheduled cx started r = Some n"
  shows "moves r n"
proof -
  have "\<bar>max (wm r) started\<bar> \<le> max_date_ms" using assms(1,2) by (auto simp: instant_ok_def)
  then show ?thesis using assms(3)
    by (auto simp: rescheduled_def moves_def initial_durable_def Let_def instant_to_iso split: if_splits)
qed

lemma missed_range_moves:
  "instant_ok (dj_watermark r) \<Longrightarrow> instant_ok t \<Longrightarrow> missed_range key f t observed r = Some n \<Longrightarrow> moves r n"
  by (auto simp: missed_range_def moves_def split: if_splits)

lemma settle_record_moves:
  "instant_ok (dj_watermark r) \<Longrightarrow> settle_record u result observed r = Some n \<Longrightarrow> moves r n"
  by (auto simp: settle_record_def Let_def moves_def split: if_splits)

lemma moving_claim: "moving K (claim_transform cx scheduled key)"
  unfolding moving_def claim_transform_def
  by (auto split: option.splits intro!: good_clock simp: moves_def)

lemma moving_clear: "moving K (clear_transform cx key)"
  by (auto simp: moving_def clear_transform_def moves_def omit_active_def split: option.splits)

lemma moving_settle: "moving K (settle_transform result)"
  unfolding moving_def settle_transform_def
  by (auto intro!: good_peek good_clock dest: settle_record_moves)

lemma quiet_recover_settled [quiets]: "of_job K cx \<Longrightarrow> quiet K (recover_settled_active cx)"
  unfolding recover_settled_active_def
  by (intro quiets quiet_update_by) (auto simp: omit_settled_def omit_active_def moves_def split: if_splits)

lemma with_regression_moves: "instant_ok (dj_watermark r) \<Longrightarrow> moves r (with_regression f t r)"
  by (simp add: with_regression_def moves_def)

lemma quiet_restart_regression [quiets]: "of_job K cx \<Longrightarrow> quiet K (recover_restart_regression cx started)"
  unfolding recover_restart_regression_def Let_def
  by (intro quiets quiet_update_by) (auto intro: with_regression_moves)

lemma quiet_unknown_outcome [quiets]: "of_job K cx \<Longrightarrow> quiet K (recover_unknown_outcome cx started)"
  unfolding recover_unknown_outcome_def
  by (intro quiets quiet_update_by quiet_poke)
    (auto simp: report_unknown_def plain_def moves_def split: option.splits if_splits)

lemma quiet_reschedule [quiets]:
  "of_job K cx \<Longrightarrow> \<bar>started\<bar> \<le> max_date_ms \<Longrightarrow> quiet K (replace_changed_schedule cx started)"
  unfolding replace_changed_schedule_def
  by (intro quiets quiet_update_by quiet_poke) (auto simp: plain_intros dest: rescheduled_moves)

lemma quiet_account [quiets]: "of_job K cx \<Longrightarrow> quiet K (account_clock_regression cx now)"
  unfolding account_clock_regression_def
  by (intro quiets quiet_update_by quiet_poke)
    (auto simp: plain_def note_regression_def Let_def split: if_splits intro: with_regression_moves)

lemma quiet_record_missed_range [quiets]:
  assumes "of_job K cx" "\<bar>dr_through m\<bar> \<le> max_date_ms"
  shows "quiet K (record_missed_range cx m observed)"
  unfolding record_missed_range_def Let_def
  using assms(2)
  by (intro quiets quiet_update [OF assms(1)] moving_value quiet_poke)
    (auto simp: plain_def intro: missed_range_moves instant_ok_iso)

lemma quiet_claim [quiets]: "of_job K cx \<Longrightarrow> quiet K (claim_active cx scheduled key)"
  unfolding claim_active_def by (intro quiets quiet_update moving_claim)

lemma quiet_clear [quiets]: "of_job K cx \<Longrightarrow> quiet K (clear_active cx key)"
  unfolding clear_active_def by (intro quiets quiet_update moving_clear)

lemma quiet_settle [quiets]: "of_job K cx \<Longrightarrow> quiet K (settle_invocation cx result)"
  unfolding settle_invocation_def
  by (intro quiets quiet_update moving_settle quiet_poke) (auto simp: plain_def)

text \<open>Reading the record and taking hold of it.\<close>

lemma quiet_read_hold:
  assumes "of_job K cx" "quiet K q" "\<And>r. instant_ok (dj_watermark r) \<Longrightarrow> quiet K (p r)"
  shows "quiet K (CRead (cx_key cx) (\<lambda>res. cbind (clift res) (\<lambda>found. case found of None \<Rightarrow> q
    | Some (b, v) \<Rightarrow> cbind (clift (parse_durable_record job b)) (\<lambda>r. cbind (hold r (Some v)) (\<lambda>_. p r)))))"
proof (rule quietI)
  fix H T
  have K: "cx_key cx = K" using assms(1) by (simp add: of_job_def)
  have "good K (\<lambda>_ _ _. True) (\<lambda>_ _ _. True)
      (cbind (clift (parse_durable_record job b)) (\<lambda>r. cbind (hold r (Some v)) (\<lambda>_. p r))) H' T" if "H' v = mark b" for b v H'
    using that assms(3) by (intro good_read_back) (auto simp: quiet_def)
  then show "good K (\<lambda>_ _ _. True) (\<lambda>_ _ _. True) (CRead (cx_key cx) (\<lambda>res. cbind (clift res) (\<lambda>found. case found of None \<Rightarrow> q
    | Some (b, v) \<Rightarrow> cbind (clift (parse_durable_record job b)) (\<lambda>r. cbind (hold r (Some v)) (\<lambda>_. p r))))) H T"
    using assms(2) by (simp add: K quiet_def del: good_bind)
qed

lemma quiet_refresh [quiets]:
  assumes "of_job K cx"
  shows "quiet K (refresh_job cx)"
proof -
  have "quiet K (CRead (cx_key cx) (\<lambda>res. cbind (clift res) (\<lambda>found. case found of
      None \<Rightarrow> CFail (job_error cx '' disappeared during reconciliation.'')
    | Some (b, v) \<Rightarrow> cbind (clift (parse_durable_record (jb_id (cx_job cx)) b)) (\<lambda>r. cbind (hold r (Some v)) (\<lambda>_.
        cbind (peek sc_transition) (\<lambda>transition. if \<not> transition \<and> dj_schedule r \<noteq> cx_fingerprint cx
          then cbind (poke fence_generation) (\<lambda>_. CFail (generation_error cx)) else CDone ()))))))"
    using assms by (intro quiet_read_hold quiets quiet_poke) (simp_all add: plain_intros)
  then show ?thesis unfolding refresh_job_def by (intro quiets)
qed

lemma quiet_initialize_found:
  "of_job K cx \<Longrightarrow> \<bar>started\<bar> \<le> max_date_ms \<Longrightarrow> quiet K (initialize_found cx started)"
  unfolding initialize_found_def by (intro quiets)

lemma quiet_create:
  assumes "of_job K cx" "instant_ok (dj_watermark r)" "quiet K p"
  shows "quiet K (cbind (clift (encode_durable_record r)) (\<lambda>bytes. CCas (cx_key cx) None bytes (\<lambda>res. cbind (clift res) (\<lambda>result.
    case result of CasApplied x \<Rightarrow> hold r (Some (rc_version x)) | CasConflict _ \<Rightarrow> p))))"
proof (rule quietI)
  fix H T
  have K: "cx_key cx = K" using assms(1) by (simp add: of_job_def)
  show "good K (\<lambda>_ _ _. True) (\<lambda>_ _ _. True) (cbind (clift (encode_durable_record r)) (\<lambda>bytes. CCas (cx_key cx) None bytes
    (\<lambda>res. cbind (clift res) (\<lambda>result. case result of CasApplied x \<Rightarrow> hold r (Some (rc_version x)) | CasConflict _ \<Rightarrow> p)))) H T"
  proof (cases "encode_durable_record r")
    case (Inr b)
    have "mark b = Some (wm r)" using watermark_encoded [OF Inr] by (simp add: mark_def)
    moreover have "good K (\<lambda>_ _ _. True) (\<lambda>_ _ _. True) (hold r (Some (rc_version x))) H' (T + won H None (wm r))"
      if "H' (rc_version x) = Some (wm r)" for H' and x :: state_record
      using that assms(2) by (auto intro!: good_hold)
    ultimately show ?thesis using assms(3) by (simp add: Inr K quiet_def write_ok_def)
  qed simp
qed

lemma quiet_initialize_loop:
  assumes "of_job K cx" "\<bar>started\<bar> \<le> max_date_ms"
  shows "quiet K (initialize_loop n cx started)"
proof (induction n)
  case (Suc n)
  have K: "cx_key cx = K" using assms(1) by (simp add: of_job_def)
  let ?r = "initial_durable (cx_sha cx) (cx_job cx) (to_iso started)"
  have "instant_ok (dj_watermark ?r)" using assms(2) by (simp add: initial_durable_def)
  from quiet_create [OF assms(1) this Suc] quiet_initialize_found [OF assms] show ?case
    unfolding initialize_loop.simps Let_def by (intro quiet_read_hold [OF assms(1)])
qed simp

lemma quiet_initialize [quiets]:
  assumes "of_job K cx" "\<bar>started\<bar> \<le> max_date_ms"
  shows "quiet K (initialize_job cx started)"
  using assms quiet_initialize_loop [OF assms] unfolding initialize_job_def
  by (intro quiets quiet_poke) (auto simp: plain_def of_job_def)

end
