(* ===== verification/CronOwned.thy ===== *)
theory CronOwned
  imports CronQuiet
begin

text \<open>
  The activities of a trigger and the instants they own: reserving a firing wins its instant, the queue
  and the task that runs a queued firing carry it, the emission gives it up.
\<close>

section \<open>Dates of due firings\<close>

definition date_ok :: "int \<Rightarrow> bool" where
  "date_ok t \<longleftrightarrow> \<bar>t\<bar> \<le> max_date_ms"

lemma walk_back_dates:
  "finds_dates previous \<Longrightarrow> walk_back previous job watermark n cursor = Inr (ds, end_at) \<Longrightarrow> date_ok cursor \<Longrightarrow>
   date_ok end_at \<and> list_all date_ok ds"
  by (induction n arbitrary: cursor ds) (fastforce simp: rbind_Inr_iff finds_dates_def date_ok_def split: if_splits)+

lemma boundary_dates:
  "finds_dates previous \<Longrightarrow> finds_dates upcoming \<Longrightarrow> due_boundary previous upcoming job watermark now = Inr (Some b) \<Longrightarrow>
   date_ok (dr_through b)"
  by (auto simp: due_boundary_def rbind_Inr_iff finds_dates_def date_ok_def split: if_splits)

lemma collect_dates:
  assumes "finds_dates previous" "finds_dates upcoming" "collect_due previous upcoming job watermark now n = Inr d"
  shows "list_all date_ok (ds_selected d) \<and> (\<forall>m. ds_missed d = Some m \<longrightarrow> date_ok (dr_through m))"
  using assms(3)
  by (auto simp: collect_due_def rbind_Inr_iff list_all_rev split: option.splits if_splits
      dest!: boundary_dates [OF assms(1,2)] walk_back_dates [OF assms(1)])

section \<open>Quiet parts of the trigger\<close>

lemma quiet_arm [quiets]: "quiet K (arm cx target)"
  unfolding arm_def by (intro quiets quiet_poke) (simp add: plain_def)

lemma quiet_schedule_next [quiets]: "quiet K (schedule_next cx)"
  unfolding schedule_next_def by (intro quiets quiet_poke) (simp_all add: plain_def)

lemma quiet_resolve [quiets]: "quiet K (resolve n result)"
  unfolding resolve_def by (intro quiet_poke) (simp add: plain_def)

lemma quiet_complete [quiets]: "of_job K cx \<Longrightarrow> quiet K (complete_pending cx p result)"
  unfolding complete_pending_def by (intro quiets)

lemma quiet_complete_all [quiets]: "quiet K k \<Longrightarrow> quiet K (complete_all cx status reason ps k)"
  by (induction ps) (auto intro!: quiets)

lemma quiet_unknown_now [quiets]: "quiet K (unknown_now scheduled)"
  unfolding unknown_now_def by (intro quiets)

lemma quiet_note_unsettled [quiets]: "quiet K p \<Longrightarrow> quiet K (note_unsettled p)"
  unfolding note_unsettled_def by (intro quiets quiet_poke) (simp_all add: plain_def)

text \<open>A repaired release hands the first queued firing to the task that runs it.\<close>

lemma quiet_released:
  assumes "of_job K cx"
  shows "quiet K (CLocal (released key) (\<lambda>s.
     if (case sc_active s of None \<Rightarrow> True | Some b \<Rightarrow> la_key b \<noteq> key) then CDone True
     else case sc_pending s of [] \<Rightarrow> CDone True
       | p # ps \<Rightarrow> if runs_next s then CSpawn (TaskRun p) (CDone True)
           else complete_all cx status reason (p # ps) (CDone True)))"
proof (rule quietI)
  fix H T
  let ?E = "\<lambda>_ _ _. True" and ?Q = "\<lambda>_ _ _. True"
  have all: "good K ?E ?Q (complete_all cx status reason ps (CDone True)) H' T'" for ps H' T'
  proof -
    have "quiet K (complete_all cx status reason ps (CDone True))" by (intro quiets)
    then show ?thesis by (simp add: quiet_def)
  qed
  have step: "\<exists>T'. T' + pending_instants (released key s) \<subseteq># T + pending_instants s \<and>
      good K ?E ?Q (if (case sc_active s of None \<Rightarrow> True | Some b \<Rightarrow> la_key b \<noteq> key) then CDone True
     else case sc_pending s of [] \<Rightarrow> CDone True
       | p # ps \<Rightarrow> if runs_next s then CSpawn (TaskRun p) (CDone True)
           else complete_all cx status reason (p # ps) (CDone True)) H' T'" for s H'
  proof (cases "(case sc_active s of None \<Rightarrow> True | Some b \<Rightarrow> la_key b \<noteq> key) \<or> sc_pending s = []")
    case True
    then show ?thesis by (intro exI [of _ T]) (auto simp: released_def pending_instants_def Let_def split: option.splits)
  next
    case False
    then obtain p ps where p: "sc_pending s = p # ps" by (cases "sc_pending s") auto
    show ?thesis
    proof (cases "runs_next s")
      case True
      then show ?thesis using False p
        by (intro exI [of _ "add_mset (instant_ms (pe_scheduled p)) T"])
          (auto simp: released_def pending_instants_def Let_def split: option.splits)
    next
      case no: False
      then show ?thesis using False p all [of "p # ps"]
        by (intro exI [of _ T]) (auto simp: released_def pending_instants_def Let_def split: option.splits)
    qed
  qed
  moreover have "sched_ok H' (released key s)" if "sched_ok H' s" for H' s
    using that by (simp add: released_def sched_ok_def Let_def)
  ultimately show "good K ?E ?Q (CLocal (released key) (\<lambda>s.
     if (case sc_active s of None \<Rightarrow> True | Some b \<Rightarrow> la_key b \<noteq> key) then CDone True
     else case sc_pending s of [] \<Rightarrow> CDone True
       | p # ps \<Rightarrow> if runs_next s then CSpawn (TaskRun p) (CDone True)
           else complete_all cx status reason (p # ps) (CDone True))) H T"
    by simp
qed

lemma quiet_repair [quiets]: "of_job K cx \<Longrightarrow> quiet K (repair_release cx)"
  unfolding repair_release_def
  by (intro quiets quiet_bool quiet_released quiet_poke) (simp_all add: plain_def)

lemma quiet_release [quiets]: "of_job K cx \<Longrightarrow> quiet K (release cx key)"
  unfolding release_def
  by (intro quiets quiet_local) (auto simp: light_def pending_instants_def split: option.splits)

section \<open>Emission\<close>

abbreviation owns :: "string \<Rightarrow> string \<Rightarrow> 'a cron \<Rightarrow> bool" where
  "owns K scheduled p \<equiv> (\<forall>H T. instant_ms scheduled \<in># T \<longrightarrow> good K (\<lambda>_ _ _. True) (\<lambda>_ _ _. True) p H T)"

lemma emit_owned:
  assumes "of_job K cx"
  shows "owns K scheduled (emit_firing cx scheduled source key)"
proof -
  have rest: "quiet K (cbind (settle_invocation cx (emission_result cx scheduled key x)) (\<lambda>result.
     cbind (poke (\<lambda>s. s\<lparr>sc_emitted := sc_emitted s + 1, sc_last_result := Some result\<rparr>)) (\<lambda>_.
     if emission_settled x then cbind (release cx key) (\<lambda>_. CDone result)
     else CSpawn (TaskRelease key) (CDone result))))" for x
    using assms by (intro quiets quiet_poke) (simp_all add: plain_def)
  show ?thesis
    unfolding emit_firing_def good_bind [of K _ _ "poke _"] good_bind [of K _ _ clock_instant]
    by (intro allI impI good_poke good_clock)
      (use rest in \<open>auto simp: light_def pending_instants_def quiet_def simp del: good_bind\<close>)
qed

text \<open>Claiming the fence of an owned firing keeps the instant.\<close>

lemma good_claim:
  assumes "of_job K cx"
  shows "good K (\<lambda>_ _ _. True) (\<lambda>_ _ T'. T' = T) (claim_active cx scheduled key) H T"
proof -
  have update: "good K (\<lambda>_ _ _. True) (\<lambda>_ _ T'. T' = T) (update_record cx False (claim_transform cx scheduled key)) H' T" for H'
    unfolding update_record_def
    by (rule good_update_loop [OF _ _ _ _ grow_refl])
      (use assms in \<open>auto simp: of_job_def claim_transform_def moves_def raised_def intro!: good_clock split: option.splits\<close>)
  show ?thesis
    unfolding claim_active_def
    by (simp add: case_prod_unfold, rule good_mutate, rule good_mono [OF update]) simp_all
qed

lemma run_owned:
  assumes "of_job K cx"
  shows "owns K scheduled (run_now cx scheduled source key)"
proof (intro allI impI)
  fix H T
  assume own: "instant_ms scheduled \<in># T"
  let ?rejected = "result_of (cx_job cx) scheduled key CronRejected None (Some ''Cron could not durably claim this firing; no emission was attempted.'')"
  have failed: "quiet K (cbind (poke (\<lambda>s. s\<lparr>sc_error := Some stable_persistence_failure\<rparr>)) (\<lambda>_. CDone ?rejected))"
    by (intro quiets quiet_poke) (simp add: plain_def)
  have skipped: "quiet K (cbind (ctry (cbind (note_unsettled (unknown_now scheduled)) (\<lambda>_.
      settle_invocation cx (result_of (cx_job cx) scheduled key CronSkipped None (Some ''Another scheduler owner has an unresolved in-flight firing.'')))))
      (\<lambda>settled. case settled of Inr r \<Rightarrow> CDone r
        | Inl _ \<Rightarrow> cbind (poke (\<lambda>s. s\<lparr>sc_error := Some stable_persistence_failure\<rparr>)) (\<lambda>_. CDone ?rejected)))"
    using assms by (intro quiets quiet_poke) (simp_all add: plain_def)
  show "good K (\<lambda>_ _ _. True) (\<lambda>_ _ _. True) (run_now cx scheduled source key) H T"
    unfolding run_now_def good_bind [of K _ _ "ctry (claim_active cx scheduled key)"] good_try
    by (rule good_mono [OF good_claim [OF assms]])
      (use failed skipped emit_owned [OF assms] own in \<open>auto simp: quiet_def simp del: good_bind split: bool.splits\<close>)
qed

section \<open>Admission\<close>

text \<open>A reservation that succeeds owns its instant.\<close>

lemma good_reserve_transform:
  assumes "instant_ok scheduled"
  shows "good K (\<lambda>_ _ _. True) (\<lambda>(x, c) H T'. T' = T \<and> (\<forall>n. c = Some n \<longrightarrow> moves r n \<and> raised r n = {#instant_ms scheduled#}))
    (reserve_transform cx scheduled key r) H T"
  using assms unfolding reserve_transform_def prior_unknown_def unknown_now_def
  by (auto intro!: good_peek good_clock simp: moves_def raised_def Let_def split: option.splits)

lemma good_reserve:
  assumes "of_job K cx" "instant_ok scheduled"
  shows "good K (\<lambda>_ _ _. True) (\<lambda>(ok, b) _ T'. ok \<longrightarrow> instant_ms scheduled \<in># T') (reserve cx scheduled key) H T"
proof -
  have update: "good K (\<lambda>_ _ _. True) (\<lambda>(ok, b) _ T'. ok \<longrightarrow> instant_ms scheduled \<in># T')
      (update_record cx False (reserve_transform cx scheduled key)) H' T" for H'
    unfolding update_record_def
    by (rule good_update_loop [OF _ _ _ _ grow_refl])
      (use assms in \<open>auto simp: of_job_def intro!: good_mono [OF good_reserve_transform [OF assms(2)]] split: option.splits\<close>)
  have body: "good K (\<lambda>_ _ _. True) (\<lambda>(ok, b) _ T'. ok \<longrightarrow> instant_ms scheduled \<in># T')
     (cbind (peek sc_record) (\<lambda>r.
        if instant_ms scheduled \<le> instant_ms (dj_watermark r) then CDone (False, None)
        else
          cbind (update_record cx False (reserve_transform cx scheduled key)) (\<lambda>(applied, blocked).
          cbind (peek sc_record) (\<lambda>r'.
          CDone (applied \<and> instant_ms scheduled \<le> instant_ms (dj_watermark r') \<and> outcome_key_is key r', blocked))))) H' T" for H'
    unfolding good_bind [of K _ _ "peek sc_record"]
    by (rule good_peek) (auto intro!: good_peek good_mono [OF update] split: prod.splits)
  show ?thesis
    unfolding reserve_def by (rule good_mutate, rule good_mono [OF body]) (auto split: prod.splits)
qed

lemma good_try_reserve:
  assumes "of_job K cx" "instant_ok scheduled"
  shows "good K (\<lambda>_ _ _. True) (\<lambda>x _ T'. x = Reserved \<longrightarrow> instant_ms scheduled \<in># T') (try_reserve cx scheduled key) H T"
proof -
  have blocked: "good K (\<lambda>_ _ _. True) (\<lambda>x _ T'. x = Reserved \<longrightarrow> instant_ms scheduled \<in># T')
    (cbind (poke (\<lambda>s. s\<lparr>sc_foreign := True\<rparr>)) (\<lambda>_. cbind (note_unsettled (unknown_now (da_scheduled a))) (\<lambda>_. CDone (NotReserved y)))) H' T'"
    for a y H' T'
  proof -
    have "quiet K (cbind (poke (\<lambda>s. s\<lparr>sc_foreign := True\<rparr>)) (\<lambda>_. note_unsettled (unknown_now (da_scheduled a))))"
      by (intro quiets quiet_poke) (simp_all add: plain_def)
    then show ?thesis by (auto simp: quiet_def elim!: good_mono)
  qed
  have taken: "good K (\<lambda>_ _ _. True) (\<lambda>x _ T'. x = Reserved \<longrightarrow> instant_ms scheduled \<in># T') (cbind (poke h) (\<lambda>_. CDone Reserved)) H' T'"
    if "instant_ms scheduled \<in># T'" "plain h" for h H' T'
    unfolding good_bind by (rule good_poke [OF plain_light]) (use that in simp_all)
  show ?thesis
    unfolding try_reserve_def good_bind [of K _ _ "reserve cx scheduled key"]
    by (rule good_mono [OF good_reserve [OF assms]])
      (use blocked in \<open>auto intro!: good_peek taken simp: plain_def Let_def
        good_bind [of K _ _ "peek _"] simp del: good_bind split: prod.splits option.splits\<close>)
qed

text \<open>A queued firing takes its instant along.\<close>

lemma enqueue_instants:
  "mset (map (\<lambda>p. instant_ms (pe_scheduled p)) (fst (enqueue job p queue)))
   \<subseteq># add_mset (instant_ms (pe_scheduled p)) (mset (map (\<lambda>p. instant_ms (pe_scheduled p)) queue))"
proof (cases queue)
  case (Cons a list)
  then show ?thesis by (simp add: enqueue_def split: cron_overflow.splits)
qed (simp add: enqueue_def split: cron_overflow.splits)

lemma queue_owned: "owns K scheduled (queue_firing cx scheduled source key)"
proof (intro allI impI)
  fix H T
  assume own: "instant_ms scheduled \<in># T"
  let ?p = "\<lambda>s. \<lparr>pe_scheduled = scheduled, pe_source = source, pe_key = key, pe_promise = sc_promises s\<rparr>"
  have after: "quiet K (case e of (_, displaced, reason) \<Rightarrow> complete_all cx CronDropped reason displaced (CAwait n CDone))"
    for e :: "pending_invocation list \<times> pending_invocation list \<times> string" and n
    by (intro quiets)
  have "T - {#instant_ms scheduled#} + pending_instants (s\<lparr>sc_pending := fst (enqueue (cx_job cx) (?p s) (sc_pending s)), sc_promises := n\<rparr>)
      \<subseteq># T + pending_instants s" for s n
    using enqueue_instants [of "cx_job cx" "?p s" "sc_pending s"] own
    by (auto simp: pending_instants_def dest!: multi_member_split)
  then show "good K (\<lambda>_ _ _. True) (\<lambda>_ _ _. True) (queue_firing cx scheduled source key) H T"
    unfolding queue_firing_def Let_def good.simps
    using after by (auto simp: sched_ok_def quiet_def simp del: good_bind split: prod.splits)
qed

lemma admit_reserved_owned:
  assumes "of_job K cx"
  shows "owns K scheduled (admit_reserved cx scheduled source key)"
proof (intro allI impI)
  fix H T
  assume own: "instant_ms scheduled \<in># T"
  have cancelled: "quiet K (cbind (ctry (clear_active cx key)) (\<lambda>cleared.
       cbind (case cleared of Inl _ \<Rightarrow> poke (\<lambda>s. s\<lparr>sc_error := Some stable_persistence_failure\<rparr>) | Inr _ \<Rightarrow> CDone ()) (\<lambda>_.
       settle_invocation cx r)))" for r
    using assms by (intro quiets quiet_poke) (simp_all add: plain_def)
  have skipped: "quiet K (settle_invocation cx r)" for r using assms by (intro quiets)
  show "good K (\<lambda>_ _ _. True) (\<lambda>_ _ _. True) (admit_reserved cx scheduled source key) H T"
    unfolding admit_reserved_def good_bind [of K _ _ "peek _"]
    by (rule good_peek)
      (use cancelled skipped own run_owned [OF assms] queue_owned in \<open>auto simp: quiet_def simp del: good_bind\<close>)
qed

lemma quiet_admit [quiets]:
  assumes "of_job K cx" "instant_ok scheduled"
  shows "quiet K (admit_firing cx scheduled source)"
proof -
  have tried: "quiet K (cbind (ctry (try_reserve cx scheduled key)) (\<lambda>reserved. case reserved of
          Inl _ \<Rightarrow> cbind (poke (\<lambda>s. s\<lparr>sc_error := Some stable_persistence_failure\<rparr>)) (\<lambda>_. CDone r)
        | Inr (NotReserved x) \<Rightarrow> CDone x
        | Inr Reserved \<Rightarrow> admit_reserved cx scheduled source key))" for key r
  proof (rule quietI, simp only: good_bind good_try)
    fix H T
    have failed: "quiet K (cbind (poke (\<lambda>s. s\<lparr>sc_error := Some stable_persistence_failure\<rparr>)) (\<lambda>_. CDone r))"
      by (intro quiets quiet_poke) (simp add: plain_def)
    show "good K (\<lambda>e. good K (\<lambda>_ _ _. True) (\<lambda>_ _ _. True) (case Inl e of
          Inl _ \<Rightarrow> cbind (poke (\<lambda>s. s\<lparr>sc_error := Some stable_persistence_failure\<rparr>)) (\<lambda>_. CDone r)
        | Inr (NotReserved x) \<Rightarrow> CDone x
        | Inr Reserved \<Rightarrow> admit_reserved cx scheduled source key))
      (\<lambda>y. good K (\<lambda>_ _ _. True) (\<lambda>_ _ _. True) (case Inr y of
          Inl _ \<Rightarrow> cbind (poke (\<lambda>s. s\<lparr>sc_error := Some stable_persistence_failure\<rparr>)) (\<lambda>_. CDone r)
        | Inr (NotReserved x) \<Rightarrow> CDone x
        | Inr Reserved \<Rightarrow> admit_reserved cx scheduled source key)) (try_reserve cx scheduled key) H T"
      by (rule good_mono [OF good_try_reserve [OF assms]])
        (use failed admit_reserved_owned [OF assms(1)] in \<open>auto simp: quiet_def simp del: good_bind split: reservation.splits\<close>)
  qed
  show ?thesis
    unfolding admit_firing_def Let_def by (intro quiets tried)
qed

section \<open>Reconciliation and tasks\<close>

lemma quiet_foreign [quiets]: "quiet K (reconcile_foreign cx now)"
  unfolding reconcile_foreign_def by (intro quiet_local) (auto simp: light_def pending_instants_def)

lemma quiet_checks [quiets]:
  assumes "of_job K cx" "\<bar>now\<bar> \<le> max_date_ms"
  shows "quiet K (reconcile_checks cx now)"
proof -
  have all: "quiet K (all_checks ps)" if "\<forall>p \<in> set ps. quiet K p" for ps
    using that by (induction ps) (auto intro!: quiets)
  have "quiet K (reconcile_repair cx)" using assms unfolding reconcile_repair_def by (intro quiets)
  moreover from this have "quiet K (reconcile_fence cx)" unfolding reconcile_fence_def by (intro quiets)
  moreover have "quiet K (reconcile_transition cx now)" using assms unfolding reconcile_transition_def by (intro quiets)
  moreover have "quiet K (cbind (refresh_job cx) (\<lambda>_. cbind (recover_settled_active cx) (\<lambda>_. CDone True)))"
    "quiet K (cbind (account_clock_regression cx now) (\<lambda>_. CDone True))"
    using assms by (auto intro!: quiets)
  ultimately show ?thesis unfolding reconcile_checks_def by (intro all) (auto intro: quiets)
qed

lemma quiet_admit_each:
  "of_job K cx \<Longrightarrow> list_all date_ok ts \<Longrightarrow> quiet K (admit_each cx source ts)"
  by (induction ts) (auto intro!: quiets simp: date_ok_def)

lemma quiet_record_missed [quiets]:
  "of_job K cx \<Longrightarrow> (\<And>r. m = Some r \<Longrightarrow> date_ok (dr_through r)) \<Longrightarrow> quiet K (record_missed cx m now)"
  unfolding record_missed_def by (intro quiets) (auto simp: date_ok_def)

lemma quiet_clock_bind:
  "(\<And>n. \<bar>n\<bar> \<le> max_date_ms \<Longrightarrow> quiet K (k n)) \<Longrightarrow> quiet K (cbind clock_instant k)"
  by (rule quietI, simp, rule good_clock) (simp_all add: quiet_def)

lemma quiet_lift_bind: "(\<And>x. r = Inr x \<Longrightarrow> quiet K (k x)) \<Longrightarrow> quiet K (cbind (clift r) k)"
  by (cases r) simp_all

lemma quiet_reconcile_loop:
  assumes "of_job K cx"
  shows "quiet K (reconcile_firings cx source n)"
proof (induction n rule: less_induct)
  case (less n)
  have dates: "finds_dates (cx_previous cx)" "finds_dates (cx_upcoming cx)" using assms by (simp_all add: of_job_def)
  have bounded: "quiet K (cbind (clift (all_due_range (cx_previous cx) (cx_upcoming cx) (cx_job cx) w now)) (\<lambda>m. record_missed cx m now))" for w now
    using assms by (intro quiet_lift_bind quiets) (auto simp: all_due_range_def dest: boundary_dates [OF dates])
  have turn: "quiet K (cbind (clift (collect_due (cx_previous cx) (cx_upcoming cx) (cx_job cx) w now n)) (\<lambda>due.
      cbind (record_missed cx (ds_missed due) now) (\<lambda>_.
      if ds_selected due = [] then CDone ()
      else cbind (admit_each cx source (ds_selected due)) (\<lambda>more.
        if \<not> more then CDone () else reconcile_firings cx source (n - length (ds_selected due))))))" if "n \<noteq> 0" for w now
  proof (rule quiet_lift_bind)
    fix due
    assume "collect_due (cx_previous cx) (cx_upcoming cx) (cx_job cx) w now n = Inr due"
    note d = collect_dates [OF dates this]
    have "quiet K (reconcile_firings cx source (n - length (ds_selected due)))" if "ds_selected due \<noteq> []"
      using less.IH that \<open>n \<noteq> 0\<close> by simp
    then show "quiet K (cbind (record_missed cx (ds_missed due) now) (\<lambda>_.
      if ds_selected due = [] then CDone ()
      else cbind (admit_each cx source (ds_selected due)) (\<lambda>more.
        if \<not> more then CDone () else reconcile_firings cx source (n - length (ds_selected due)))))"
      using assms d by (intro quiets quiet_admit_each) auto
  qed
  show ?case
    unfolding reconcile_firings.simps [of cx source n] Let_def
    using assms by (intro quiet_clock_bind quiet_cbind quiet_peek quiet_branches quiet_ends quiet_checks bounded turn)
qed

lemma quiet_reconcile [quiets]:
  assumes "of_job K cx"
  shows "quiet K (reconcile cx source)"
  unfolding reconcile_def
  using assms quiet_reconcile_loop [OF assms]
  by (intro quiets quiet_local quiet_poke) (auto simp: light_def plain_def pending_instants_def)

lemma quiet_timer [quiets]: "of_job K cx \<Longrightarrow> quiet K (timer_fired cx timer)"
  unfolding timer_fired_def
  by (cases timer) (auto intro!: quiets quiet_poke simp: plain_def split: sum.splits)

text \<open>Every task is safe with the instants it was left with; every call of a trigger with none.\<close>

theorem task_safe:
  assumes "of_job K cx"
  shows "good K (\<lambda>_ _ _. True) (\<lambda>_ _ _. True) (task_prog cx t) H (task_instants t)"
proof (cases t)
  case (TaskRun p)
  have resolved: "good K (\<lambda>_ _ _. True) (\<lambda>_ _ _. True) (resolve (pe_promise p) r) H' T'" for r H' T'
  proof -
    have "quiet K (resolve (pe_promise p) r)" by (intro quiets)
    then show ?thesis by (simp add: quiet_def)
  qed
  have "good K (\<lambda>_ _ _. True) (\<lambda>_ _ _. True) (run_now cx (pe_scheduled p) (pe_source p) (pe_key p)) H {#instant_ms (pe_scheduled p)#}"
    using run_owned [OF assms, of "pe_scheduled p" "pe_source p" "pe_key p"] by simp
  then show ?thesis
    unfolding TaskRun task_prog.simps task_instants.simps good_bind by (rule good_mono) (simp_all add: resolved)
next
  case (TaskReconcile source)
  then show ?thesis using quiet_reconcile [OF assms] by (simp add: quiet_def)
next
  case (TaskComplete p r)
  then show ?thesis using quiet_complete [OF assms] by (simp add: quiet_def)
next
  case (TaskRelease key)
  then show ?thesis using quiet_release [OF assms] by (simp add: quiet_def)
next
  case (TaskTimer timer)
  then show ?thesis using quiet_timer [OF assms] by (simp add: quiet_def)
qed

theorem call_safe:
  assumes "of_job K cx" "call_ok c"
  shows "quiet K (call_prog cx c)"
proof (cases c)
  case CallStart
  show ?thesis unfolding CallStart call_prog.simps start_def
    using assms by (intro quiet_clock_bind quiets quiet_poke) (auto simp: plain_def)
next
  case CallStop
  show ?thesis unfolding CallStop call_prog.simps stop_def
    by (intro quiets quiet_local quiet_poke) (auto simp: plain_def light_def pending_instants_def)
next
  case (CallInvoke t)
  have "\<bar>case t of None \<Rightarrow> now | Some x \<Rightarrow> x\<bar> \<le> max_date_ms" if "\<bar>now\<bar> \<le> max_date_ms" for now
    using that assms(2) CallInvoke by (cases t) simp_all
  then have "quiet K (invoke cx t)" unfolding invoke_def Let_def
    using assms(1) by (intro quiet_clock_bind quiets) auto
  then show ?thesis unfolding CallInvoke call_prog.simps by (intro quiets)
qed

end
