(* ===== verification/CronRuns.thy ===== *)
theory CronRuns
  imports CronOwned
begin

text \<open>
  The invariant of a system of triggers of one job: the instants owned by activities, queued by
  triggers and dispatched so far are all different and at most the stored watermark.
\<close>

section \<open>One call of the capability\<close>

lemma cap_key_Inr: "cap_key inst (durable_job_key sha inst job) = Inr k \<Longrightarrow> k = job_key sha inst job"
  by (simp add: cap_key_def job_key_def split: if_splits)

lemma cap_read_effect:
  assumes "cap_read inst c (durable_job_key sha inst job) st = (r, st')"
  shows "st_snap st' = st_snap st"
    and "r = Inr (Some (b, v)) \<Longrightarrow> \<exists>x. lookup (st_snap st) (job_key sha inst job) = Some x \<and> sv_value x = b \<and> sv_version x = v"
  using assms unfolding cap_read_def state_read_def
  by (auto split: sum.splits prod.splits dest!: cap_key_Inr)
    (auto elim!: guarded_cases rbind_InrE simp: validate_state_key_syntax_def find_record_def to_state_record_def cap_value_def
      split: if_splits option.splits)

text \<open>A compare-and-swap that applies found the expected version and stores the value under a new one.\<close>

definition swapped :: "string \<Rightarrow> string option \<Rightarrow> string \<Rightarrow> snapshot \<Rightarrow> snapshot \<Rightarrow> state_record \<Rightarrow> bool" where
  "swapped k expected v s s' x \<longleftrightarrow>
     version_at s k = expected \<and> rc_version x = version_text (sn_generation s + 1) \<and> sn_generation s' = sn_generation s + 1
     \<and> (\<exists>r. lookup s' k = Some r \<and> sv_value r = v \<and> sv_version r = rc_version x)"

lemma put_swapped:
  "put_draft l c s k v = Inr (d, r) \<Longrightarrow> version_at s k = ev \<Longrightarrow> swapped k ev v s d (to_state_record k r)"
  by (erule put_draft_Inr) (simp add: swapped_def to_state_record_def lookup_def)

lemma cas_effect:
  assumes "state_compare_and_swap l c (JStr k) (case expected of None \<Rightarrow> JNull | Some v \<Rightarrow> JStr v) v st = (r, st')"
  shows "(st_snap st' = st_snap st \<and> (\<forall>x. r \<noteq> Inr (CasApplied x)))
    \<or> (\<exists>x. r = Inr (CasApplied x) \<and> swapped k expected v (st_snap st) (st_snap st') x)"
proof -
  have key: "validate_state_key (JStr k) = Inr k' \<Longrightarrow> k' = k" for k'
    by (auto simp: validate_state_key_def validate_state_key_syntax_def rbind_Inr_iff split: if_splits)
  from assms show ?thesis unfolding state_compare_and_swap_def Let_def
  proof (cases rule: guarded_plan_cases)
    case (answered a)
    then show ?thesis by (auto elim!: rbind_InrE split: if_splits)
  next
    case (committed d a)
    then have "version_at (st_snap st) k = expected \<and> (\<exists>x. put_draft l c (st_snap st) k v = Inr (d, x) \<and> a = CasApplied (to_state_record k x))"
      by (cases expected) (auto elim!: rbind_InrE dest!: key simp: validate_expected_version_def split: if_splits)
    then show ?thesis using committed(2,3) by (auto intro: put_swapped)
  qed simp
qed

lemma cap_cas_effect:
  assumes "cap_cas l inst c (durable_job_key sha inst job) expected v st = (r, st')" "snapshot_wf l (st_snap st)"
  shows "(st_snap st' = st_snap st \<and> (\<forall>x. r \<noteq> Inr (CasApplied x)))
    \<or> (\<exists>x. r = Inr (CasApplied x) \<and> snapshot_wf l (st_snap st')
         \<and> swapped (job_key sha inst job) expected v (st_snap st) (st_snap st') x)"
proof (cases "version_argument_ok expected")
  case True
  show ?thesis
  proof (cases "rbind (cap_key inst (durable_job_key sha inst job)) (\<lambda>k. rbind (cap_value v) (\<lambda>bytes. Inr (k, bytes)))")
    case (Inr kb)
    then have "kb = (job_key sha inst job, v)" by (auto elim!: rbind_InrE dest!: cap_key_Inr simp: cap_value_def split: if_splits)
    then have cas: "state_compare_and_swap l c (JStr (job_key sha inst job)) (case expected of None \<Rightarrow> JNull | Some v \<Rightarrow> JStr v) v st = (r, st')"
      using assms(1) True Inr by (simp add: cap_cas_def)
    then show ?thesis using cas_effect [OF cas] cas_kept [OF cas] assms(2) by (auto simp: kept_def)
  qed (use assms(1) True in \<open>auto simp: cap_cas_def\<close>)
qed (use assms(1) in \<open>auto simp: cap_cas_def\<close>)

section \<open>The parts of the invariant\<close>

text \<open>Every version the history names was issued; the record's version stands for its watermark.\<close>

definition store_ok :: "limits \<Rightarrow> string \<Rightarrow> history \<Rightarrow> snapshot \<Rightarrow> bool" where
  "store_ok l k H s \<longleftrightarrow> snapshot_wf l s \<and> (\<forall>v w. H v = Some w \<longrightarrow> (\<exists>n \<le> sn_generation s. v = version_text n))
     \<and> (\<forall>r. lookup s k = Some r \<longrightarrow> H (sv_version r) = mark (sv_value r))"

definition instants_ok :: "string \<Rightarrow> snapshot \<Rightarrow> int multiset \<Rightarrow> bool" where
  "instants_ok k s M \<longleftrightarrow> (\<forall>x. count M x \<le> 1) \<and> (\<forall>x \<in># M. \<exists>w. stored_watermark k s = Some w \<and> x \<le> w)"

definition not_back :: "string \<Rightarrow> snapshot \<Rightarrow> snapshot \<Rightarrow> bool" where
  "not_back k s s' \<longleftrightarrow> (\<forall>w. stored_watermark k s = Some w \<longrightarrow> (\<exists>w'. stored_watermark k s' = Some w' \<and> w \<le> w'))"

lemma not_back_refl [simp]: "not_back k s s"
  by (simp add: not_back_def)

lemma not_back_trans: "not_back k a b \<Longrightarrow> not_back k b c \<Longrightarrow> not_back k a c"
  unfolding not_back_def by (meson order_trans)

lemma instants_ok_mono: "instants_ok k s M \<Longrightarrow> M' \<subseteq># M \<Longrightarrow> instants_ok k s M'"
  unfolding instants_ok_def by (meson mset_subset_eqD mset_subset_eq_count order_trans)

lemma stored_mark: "stored_watermark k s = (case lookup s k of None \<Rightarrow> None | Some r \<Rightarrow> mark (sv_value r))"
  by (simp add: stored_watermark_def mark_def split: option.split)

text \<open>What an applied write does to them.\<close>

lemma write_step:
  assumes ok: "store_ok l k H s" "snapshot_wf l s'" and sw: "swapped k ev b s s' x"
    and wr: "mark b = Some w" "write_ok H ev w"
  defines "H' \<equiv> H(rc_version x \<mapsto> w)"
  shows "H \<subseteq>\<^sub>m H'" "store_ok l k H' s'" "not_back k s s'" "instants_ok k s M \<Longrightarrow> instants_ok k s' (M + won H ev w)"
proof -
  obtain r where r: "lookup s' k = Some r" "sv_value r = b" "sv_version r = rc_version x"
    and ver: "version_at s k = ev" "rc_version x = version_text (sn_generation s + 1)" "sn_generation s' = sn_generation s + 1"
    using sw by (auto simp: swapped_def)
  have "H (rc_version x) = None"
    using ok(1) ver(2) by (cases "H (rc_version x)") (fastforce simp: store_ok_def)+
  then show "H \<subseteq>\<^sub>m H'" by (auto simp: H'_def map_le_def)
  show "store_ok l k H' s'"
    using ok r wr(1) ver by (auto simp: store_ok_def H'_def intro: le_SucI)
  have new: "stored_watermark k s' = Some w" using r wr(1) by (simp add: stored_mark)
  have old: "\<exists>v. ev = Some v \<and> H v = Some w0 \<and> w0 \<le> w" if stored: "stored_watermark k s = Some w0" for w0
  proof -
    obtain q where "lookup s k = Some q" "mark (sv_value q) = Some w0" using stored by (auto simp: stored_mark split: option.splits)
    then show ?thesis using ok(1) ver(1) wr(2) by (auto simp: store_ok_def version_at_def write_ok_def)
  qed
  then show "not_back k s s'" using new by (auto simp: not_back_def)
  show "instants_ok k s' (M + won H ev w)" if M: "instants_ok k s M"
  proof (cases "won H ev w = {#}")
    case True
    then show ?thesis using M new old by (fastforce simp: instants_ok_def)
  next
    case False
    then have won: "won H ev w = {#w#}" by (auto simp: won_def split: option.splits if_splits)
    have less: "x < w" if x: "x \<in># M" for x
    proof -
      obtain w0 where "stored_watermark k s = Some w0" "x \<le> w0" using M x by (auto simp: instants_ok_def)
      then show ?thesis using old [of w0] False by (auto simp: won_def split: if_splits)
    qed
    then have "count M w = 0" by (meson less_irrefl not_in_iff)
    then have "count (add_mset w M) x \<le> 1" for x using M by (auto simp: instants_ok_def)
    then show ?thesis using new less unfolding won instants_ok_def by (auto dest: less_imp_le)
  qed
qed

section \<open>One step of an activity\<close>

abbreviation safe :: "string \<Rightarrow> unit cron \<Rightarrow> history \<Rightarrow> int multiset \<Rightarrow> bool" where
  "safe K \<equiv> good K (\<lambda>_ _ _. True) (\<lambda>_ _ _. True)"

lemma safe_grow: "safe K p H T \<Longrightarrow> H \<subseteq>\<^sub>m H' \<Longrightarrow> safe K p H' T"
  by (erule good_grow) simp_all

definition left :: "cron_task list \<Rightarrow> int multiset" where
  "left ts = sum_list (map task_instants ts)"

definition dispatched :: "cron_event list \<Rightarrow> int multiset" where
  "dispatched es = mset (map event_ms es)"

lemma act_safe:
  assumes step: "act_step l cx (st, s, p) (st', s', p') es ts" and cx: "trigger_of sha inst job cx"
    and ok: "store_ok l (job_key sha inst job) H (st_snap st)" "sched_ok H s" "safe (durable_job_key sha inst job) p H T"
  shows "\<exists>H' T' W. H \<subseteq>\<^sub>m H' \<and> store_ok l (job_key sha inst job) H' (st_snap st') \<and> sched_ok H' s'
    \<and> safe (durable_job_key sha inst job) p' H' T'
    \<and> T' + pending_instants s' + left ts + dispatched es \<subseteq># T + pending_instants s + W
    \<and> not_back (job_key sha inst job) (st_snap st) (st_snap st')
    \<and> (\<forall>M. instants_ok (job_key sha inst job) (st_snap st) M \<longrightarrow> instants_ok (job_key sha inst job) (st_snap st') (M + W))"
    (is "\<exists>H' T' W. ?after H' T' W")
proof -
  let ?K = "durable_job_key sha inst job" and ?k = "job_key sha inst job"
  have same: "\<exists>H' T' W. ?after H' T' W"
    if "st_snap st' = st_snap st" "sched_ok H s'" "safe ?K p' H T'" "T' + pending_instants s' + left ts + dispatched es \<subseteq># T + pending_instants s" for T'
    using that ok by (intro exI [of _ H] exI [of _ T'] exI [of _ "{#}"]) simp
  have inst: "cx_inst cx = inst" using cx by (simp add: trigger_of_def)
  have cas: "\<exists>H' T' W. ?after H' T' W"
    if call: "cap_cas l inst c ?K expected v st = (r, st')" and p: "p = CCas ?K expected v f" "p' = f y" "s' = s" "es = []" "ts = []"
      and y: "y = r \<or> (\<exists>e. y = Inl e)" for c expected v r f y
  proof -
    obtain w where w: "mark v = Some w" "write_ok H expected w"
      and good: "\<And>H'. H \<subseteq>\<^sub>m H' \<Longrightarrow> (\<forall>e. safe ?K (f (Inl e)) H' T) \<and> (\<forall>c. safe ?K (f (Inr (CasConflict c))) H' T)
        \<and> (\<forall>x. H' (rc_version x) = Some w \<longrightarrow> safe ?K (f (Inr (CasApplied x))) H' (T + won H expected w))"
      using ok(3) p(1) by auto
    have "snapshot_wf l (st_snap st)" using ok(1) by (simp add: store_ok_def)
    from cap_cas_effect [OF call this] show ?thesis
    proof (elim disjE exE conjE)
      assume no: "st_snap st' = st_snap st" "\<forall>x. r \<noteq> Inr (CasApplied x)"
      have "safe ?K (f y) H T" using good [OF grow_refl] no(2) y by (cases y; cases "projr y") auto
      then show ?thesis using no(1) p ok(2) by (intro same [of T]) (simp_all add: left_def dispatched_def)
    next
      fix x
      assume x: "r = Inr (CasApplied x)" "snapshot_wf l (st_snap st')" "swapped ?k expected v (st_snap st) (st_snap st') x"
      note wr = write_step [OF ok(1) x(2,3) w]
      let ?H' = "H(rc_version x \<mapsto> w)"
      have "\<exists>T'. safe ?K (f y) ?H' T' \<and> T' \<subseteq># T + won H expected w"
        using y
      proof (elim disjE exE)
        assume "y = r"
        then show ?thesis using good [OF wr(1)] x(1) by (intro exI [of _ "T + won H expected w"]) simp
      next
        fix e assume "y = Inl e"
        then show ?thesis using good [OF wr(1)] by (intro exI [of _ T]) simp
      qed
      then obtain T' where T': "safe ?K (f y) ?H' T'" "T' \<subseteq># T + won H expected w" by blast
      have "T' + pending_instants s \<subseteq># T + pending_instants s + won H expected w"
        using T'(2) by (metis add.assoc add.commute mset_subset_eq_mono_add_right_cancel)
      then show ?thesis
        using wr T'(1) p sched_ok_grow [OF wr(1) ok(2)]
        by (intro exI [of _ ?H'] exI [of _ T'] exI [of _ "won H expected w"]) (simp add: left_def dispatched_def)
    qed
  qed
  from step show ?thesis
  proof (cases rule: act_step.cases)
    case (act_read c key r f)
    note read = cap_read_effect [of inst c sha job st r st']
    have "safe ?K (f r) H T"
      using ok(1,3) act_read inst read(2) by (cases r; cases "projr r") (force simp: store_ok_def)+
    then show ?thesis using act_read read(1) inst ok(2,3) by (intro same [of T]) (simp_all add: left_def dispatched_def)
  next
    case (act_cas c key expected v r f)
    then show ?thesis using cas [of c expected v r f r] inst ok(3) by simp
  next
    case (act_cas_lost c key expected v r f e)
    then show ?thesis using cas [of c expected v r f "Inl e"] inst ok(3) by simp
  next
    case (act_local h g)
    then obtain T' where "T' + pending_instants s' \<subseteq># T + pending_instants s" "sched_ok H s'" "safe ?K p' H T'"
      using ok(2,3) grow_refl [of H] unfolding act_local good.simps by blast
    then show ?thesis using act_local by (intro same [of T']) (simp_all add: left_def dispatched_def)
  next
    case (act_clock t k)
    then have "safe ?K p' H T" "st_snap st' = st_snap st" using ok(3) grow_refl [of H] by (auto split: option.splits)
    then show ?thesis using act_clock ok(2) by (intro same [of T]) (simp_all add: left_def dispatched_def sched_ok_def pending_instants_def)
  next
    case act_lock
    then have "safe ?K p' H T" "st_snap st' = st_snap st" using ok(3) grow_refl [of H] by (auto split: option.splits)
    then show ?thesis using act_lock ok(2) by (intro same [of T]) (simp_all add: left_def dispatched_def sched_ok_def pending_instants_def)
  next
    case (act_await n x w)
    then have "safe ?K p' H T" "st_snap st' = st_snap st" using ok(3) grow_refl [of H] by (auto split: option.splits)
    then show ?thesis using act_await ok(2) by (intro same [of T]) (simp_all add: left_def dispatched_def sched_ok_def pending_instants_def)
  next
    case act_settled
    then have "safe ?K p' H T" "st_snap st' = st_snap st" using ok(3) grow_refl [of H] by (auto split: option.splits)
    then show ?thesis using act_settled ok(2) by (intro same [of T]) (simp_all add: left_def dispatched_def sched_ok_def pending_instants_def)
  next
    case (act_emit ev q outcome)
    then have "event_ms ev \<in># T" "safe ?K p' H (T - {#event_ms ev#})" using ok(3) grow_refl [of H] by auto
    then show ?thesis using act_emit ok(2) by (intro same [of "T - {#event_ms ev#}"]) (simp_all add: left_def dispatched_def)
  next
    case (act_spawn task)
    then obtain T' where "T' + task_instants task \<subseteq># T" "safe ?K p' H T'" using ok(3) grow_refl [of H] by auto
    then show ?thesis using act_spawn ok(2) by (intro same [of T']) (simp_all add: left_def dispatched_def)
  qed
qed

section \<open>The invariant of a system\<close>

definition process_instants :: "(cron_cx \<times> sched) option \<Rightarrow> int multiset" where
  "process_instants x = (case x of None \<Rightarrow> {#} | Some (cx, s) \<Rightarrow> pending_instants s)"

definition all_instants :: "(cron_cx \<times> sched) option list \<Rightarrow> int multiset list \<Rightarrow> cron_event list \<Rightarrow> int multiset" where
  "all_instants ps Ts tr = sum_list (map process_instants ps) + sum_list Ts + dispatched tr"

definition system_ok ::
  "limits \<Rightarrow> (string \<Rightarrow> string) \<Rightarrow> string \<Rightarrow> string \<Rightarrow> history \<Rightarrow> int multiset list \<Rightarrow> cron_system \<Rightarrow> bool" where
  "system_ok l sha inst job H Ts Y \<longleftrightarrow>
     (case Y of (st, ps, acts, tr) \<Rightarrow>
        store_ok l (job_key sha inst job) H (st_snap st)
        \<and> (\<forall>cx s. Some (cx, s) \<in> set ps \<longrightarrow> trigger_of sha inst job cx \<and> sched_ok H s)
        \<and> list_all2 (\<lambda>(i, p) T. safe (durable_job_key sha inst job) p H T) acts Ts
        \<and> instants_ok (job_key sha inst job) (st_snap st) (all_instants ps Ts tr))"

lemma trigger_of_job: "trigger_of sha inst job cx \<Longrightarrow> of_job (durable_job_key sha inst job) cx"
  by (auto simp: trigger_of_def of_job_def cx_key_def)

lemma sum_list_change:
  "i < length xs \<Longrightarrow> sum_list (xs[i := x]) + xs ! i = sum_list xs + (x :: 'a :: comm_monoid_add)"
  by (induction xs arbitrary: i) (auto simp: ac_simps split: nat.splits)

lemma acts_grow:
  "list_all2 (\<lambda>(i, p) T. safe K p H T) acts Ts \<Longrightarrow> H \<subseteq>\<^sub>m H' \<Longrightarrow> list_all2 (\<lambda>(i, p) T. safe K p H' T) acts Ts"
  by (erule list_all2_mono) (auto intro: safe_grow)

lemma tasks_safe:
  "of_job K cx \<Longrightarrow> list_all2 (\<lambda>(i, p) T. safe K p H T) (map (\<lambda>t. (i, task_prog cx t)) ts) (map task_instants ts)"
  by (induction ts) (auto intro: task_safe)

lemma process_change:
  assumes "i < length ps" "ps ! i = Some (cx, s)"
  shows "sum_list (map process_instants (ps[i := Some (cx, s')])) + pending_instants s
    = sum_list (map process_instants ps) + pending_instants s'"
  using sum_list_change [of i "map process_instants ps" "pending_instants s'"] assms
  by (simp add: map_update process_instants_def)

lemma system_step_ok:
  assumes "system_step l sha inst job Y Y'" "system_ok l sha inst job H Ts Y"
  shows "\<exists>H' Ts'. system_ok l sha inst job H' Ts' Y' \<and> not_back (job_key sha inst job) (st_snap (fst Y)) (st_snap (fst Y'))"
  using assms
proof (induction rule: system_step.induct)
  case (sys_create cx now st ps acts tr)
  have "sched_ok H (job_state cx now)" using sys_create(2) by (simp add: sched_ok_def job_state_def initial_durable_def)
  then show ?case using sys_create
    by (intro exI [of _ H] exI [of _ Ts]) (auto simp: system_ok_def all_instants_def process_instants_def pending_instants_def job_state_def)
next
  case (sys_crash i ps st acts tr)
  have "sum_list (map process_instants (ps[i := None])) \<subseteq># sum_list (map process_instants ps)"
    using sum_list_change [of i "map process_instants ps" "{#}"] sys_crash(1)
    by (simp add: map_update process_instants_def) (metis mset_subset_eq_add_left)
  then have "all_instants (ps[i := None]) Ts tr \<subseteq># all_instants ps Ts tr" by (simp add: all_instants_def)
  then show ?case using sys_crash
    by (intro exI [of _ H] exI [of _ Ts]) (auto simp: system_ok_def dest: set_update_subset_insert [THEN subsetD] intro: instants_ok_mono)
next
  case (sys_call i ps cx s call st acts tr)
  then have "of_job (durable_job_key sha inst job) cx" by (auto simp: system_ok_def intro!: trigger_of_job) (metis nth_mem)
  then have "safe (durable_job_key sha inst job) (call_prog cx call) H {#}"
    using call_safe [OF _ sys_call(3)] by (simp add: quiet_def)
  then show ?case using sys_call
    by (intro exI [of _ H] exI [of _ "Ts @ [{#}]"]) (auto simp: system_ok_def all_instants_def list_all2_appendI)
next
  case (sys_timer i ps cx s timer st acts tr)
  have cx: "trigger_of sha inst job cx" "sched_ok H s" using sys_timer by (auto simp: system_ok_def) (metis nth_mem)+
  have "safe (durable_job_key sha inst job) (task_prog cx (TaskTimer timer)) H {#}"
    using task_safe [OF trigger_of_job [OF cx(1)], of "TaskTimer timer"] by simp
  moreover have "sched_ok H (s\<lparr>sc_timer := None\<rparr>)" using cx(2) by (simp add: sched_ok_def)
  moreover have "all_instants (ps[i := Some (cx, s\<lparr>sc_timer := None\<rparr>)]) (Ts @ [{#}]) tr = all_instants ps Ts tr"
    using process_change [OF sys_timer(1,2), of "s\<lparr>sc_timer := None\<rparr>"] by (simp add: all_instants_def pending_instants_def)
  ultimately show ?case using sys_timer cx(1)
    by (intro exI [of _ H] exI [of _ "Ts @ [{#}]"])
      (auto simp: system_ok_def list_all2_appendI dest: set_update_subset_insert [THEN subsetD])
next
  case (sys_stray i ps cx s st acts tr timer)
  then have "of_job (durable_job_key sha inst job) cx" by (auto simp: system_ok_def intro!: trigger_of_job) (metis nth_mem)
  then have "safe (durable_job_key sha inst job) (task_prog cx (TaskTimer timer)) H {#}"
    using task_safe [of _ _ "TaskTimer timer"] by simp
  then show ?case using sys_stray
    by (intro exI [of _ H] exI [of _ "Ts @ [{#}]"]) (auto simp: system_ok_def all_instants_def list_all2_appendI)
next
  case (sys_lifecycle i ps cx s st acts tr l')
  let ?s = "s\<lparr>sc_lifecycle := l'\<rparr>"
  have cx: "trigger_of sha inst job cx" "sched_ok H s" using sys_lifecycle by (auto simp: system_ok_def) (metis nth_mem)+
  have "sched_ok H ?s" using cx(2) by (simp add: sched_ok_def)
  moreover have "all_instants (ps[i := Some (cx, ?s)]) Ts tr = all_instants ps Ts tr"
    using process_change [OF sys_lifecycle(1,2), of ?s] by (simp add: all_instants_def pending_instants_def)
  ultimately show ?case using sys_lifecycle cx(1)
    by (intro exI [of _ H] exI [of _ Ts]) (auto simp: system_ok_def dest: set_update_subset_insert [THEN subsetD])
next
  case (sys_act i ps cx s j acts p st st' s' p' es ts tr)
  let ?K = "durable_job_key sha inst job" and ?k = "job_key sha inst job"
  have cx: "trigger_of sha inst job cx" "sched_ok H s" using sys_act by (auto simp: system_ok_def) (metis nth_mem)+
  have ok: "store_ok l ?k H (st_snap st)" "list_all2 (\<lambda>(i, p) T. safe ?K p H T) acts Ts"
      "instants_ok ?k (st_snap st) (all_instants ps Ts tr)"
    using sys_act(6) by (simp_all add: system_ok_def)
  have j: "j < length Ts" and p: "safe ?K p H (Ts ! j)"
    using list_all2_lengthD [OF ok(2)] list_all2_nthD [OF ok(2) sys_act(3)] sys_act(3,4) by simp_all
  obtain H' T' W where new: "H \<subseteq>\<^sub>m H'" "store_ok l ?k H' (st_snap st')" "sched_ok H' s'" "safe ?K p' H' T'"
    "T' + pending_instants s' + left ts + dispatched es \<subseteq># Ts ! j + pending_instants s + W"
    "not_back ?k (st_snap st) (st_snap st')"
    "\<And>M. instants_ok ?k (st_snap st) M \<Longrightarrow> instants_ok ?k (st_snap st') (M + W)"
    using act_safe [OF sys_act(5) cx(1) ok(1) cx(2) p] by blast
  let ?Ts = "Ts[j := T'] @ map task_instants ts"
  have acts: "list_all2 (\<lambda>(i, p) T. safe ?K p H' T) (acts[j := (i, p')] @ map (\<lambda>t. (i, task_prog cx t)) ts) ?Ts"
    using acts_grow [OF ok(2) new(1)] new(4) tasks_safe [OF trigger_of_job [OF cx(1)]]
    by (intro list_all2_appendI list_all2_update_cong) simp_all
  have "all_instants (ps[i := Some (cx, s')]) ?Ts (tr @ es) \<subseteq># all_instants ps Ts tr + W"
  proof -
    obtain R where R: "Ts ! j + pending_instants s + W = T' + pending_instants s' + left ts + dispatched es + R"
      using new(5) by (auto simp: mset_subset_eq_exists_conv)
    have "all_instants (ps[i := Some (cx, s')]) ?Ts (tr @ es) + R + (pending_instants s + Ts ! j)
        = (sum_list (map process_instants (ps[i := Some (cx, s')])) + pending_instants s) + (sum_list (Ts[j := T']) + Ts ! j)
          + dispatched tr + left ts + dispatched es + R"
      by (simp add: all_instants_def left_def dispatched_def ac_simps)
    also have "\<dots> = sum_list (map process_instants ps) + sum_list Ts + dispatched tr
          + (T' + pending_instants s' + left ts + dispatched es + R)"
      unfolding process_change [OF sys_act(1,2)] sum_list_change [OF j] by (simp add: ac_simps)
    also have "\<dots> = (all_instants ps Ts tr + W) + (pending_instants s + Ts ! j)"
      unfolding R [symmetric] by (simp add: all_instants_def ac_simps)
    finally have "all_instants (ps[i := Some (cx, s')]) ?Ts (tr @ es) + R = all_instants ps Ts tr + W"
      by (simp only: add_right_cancel)
    then show ?thesis by (metis mset_subset_eq_add_left)
  qed
  then have "instants_ok ?k (st_snap st') (all_instants (ps[i := Some (cx, s')]) ?Ts (tr @ es))"
    using instants_ok_mono [OF new(7) [OF ok(3)]] by blast
  moreover have "trigger_of sha inst job cx' \<and> sched_ok H' t" if "Some (cx', t) \<in> set (ps[i := Some (cx, s')])" for cx' t
    using set_update_subset_insert [THEN subsetD, OF that] sys_act(6) cx(1) new(3) sched_ok_grow [OF new(1)]
    by (auto simp: system_ok_def)
  ultimately show ?case using acts new(2,6)
    by (intro exI [of _ H'] exI [of _ ?Ts]) (simp add: system_ok_def)
next
  case (sys_other st st' ps acts tr)
  let ?k = "job_key sha inst job"
  have "snapshot_wf l (st_snap st') \<and> evolves (st_snap st) (st_snap st')"
    using sys_other store_step_kept [OF public_store_step [OF sys_other(1)]] by (simp add: system_ok_def store_ok_def kept_def)
  then have "store_ok l ?k H (st_snap st')"
    using sys_other(2,3) by (auto simp: system_ok_def store_ok_def evolves_def intro: order_trans)
  moreover have "stored_watermark ?k (st_snap st') = stored_watermark ?k (st_snap st)"
    using sys_other(2) by (simp add: stored_watermark_def)
  ultimately show ?case using sys_other(3)
    by (intro exI [of _ H] exI [of _ Ts]) (auto simp: system_ok_def instants_ok_def not_back_def)
qed

end
