(* ===== verification/CronRun.thy ===== *)
theory CronRun
  imports CronRuns RunRuns
begin

text \<open>
  A sample run: a trigger starts on a new store and a command fires it once. It shows that the
  hypotheses of the properties hold where an event was dispatched.
\<close>

section \<open>Runs of one activity\<close>

inductive reach ::
  "limits \<Rightarrow> cron_cx \<Rightarrow> store \<times> sched \<times> 'a cron \<Rightarrow> store \<times> sched \<times> 'a cron \<Rightarrow> cron_event list \<Rightarrow> cron_task list \<Rightarrow> bool"
  for l cx where
  reach_stay: "reach l cx C C [] []"
| reach_step: "act_step l cx C C' es ts \<Longrightarrow> reach l cx C' D es' ts' \<Longrightarrow> reach l cx C D (es @ es') (ts @ ts')"

lemma step_bind: "act_step l cx C C' es ts \<Longrightarrow>
    act_step l cx (fst C, fst (snd C), cbind (snd (snd C)) k) (fst C', fst (snd C'), cbind (snd (snd C')) k) es ts"
  by (induction rule: act_step.induct) (auto intro: act_step.intros)

lemma step_try: "act_step l cx C C' es ts \<Longrightarrow>
    act_step l cx (fst C, fst (snd C), ctry (snd (snd C))) (fst C', fst (snd C'), ctry (snd (snd C'))) es ts"
  by (induction rule: act_step.induct) (auto intro: act_step.intros)

lemma reach_bind: "reach l cx C D es ts \<Longrightarrow>
    reach l cx (fst C, fst (snd C), cbind (snd (snd C)) k) (fst D, fst (snd D), cbind (snd (snd D)) k) es ts"
  by (induction rule: reach.induct) (auto intro: reach.intros step_bind)

lemma reach_try: "reach l cx C D es ts \<Longrightarrow>
    reach l cx (fst C, fst (snd C), ctry (snd (snd C))) (fst D, fst (snd D), ctry (snd (snd D))) es ts"
  by (induction rule: reach.induct) (auto intro: reach.intros step_try)

lemma reach_trans: "reach l cx C D es ts \<Longrightarrow> reach l cx D F es' ts' \<Longrightarrow> reach l cx C F (es @ es') (ts @ ts')"
  by (induction rule: reach.induct) (auto intro: reach.intros)

text \<open>\<open>gives\<close>: the program returns \<open>x\<close> and dispatches nothing.\<close>

abbreviation gives ::
  "cron_cx \<Rightarrow> store \<Rightarrow> sched \<Rightarrow> 'a cron \<Rightarrow> store \<Rightarrow> sched \<Rightarrow> 'a \<Rightarrow> cron_task list \<Rightarrow> bool" where
  "gives cx st s p st' s' x ts \<equiv> reach one_limits cx (st, s, p) (st', s', CDone x) [] ts"

lemma after_gives:
  assumes "gives cx st s p st' s' x ts" "reach one_limits cx (st', s', k x) D es ts'"
  shows "reach one_limits cx (st, s, cbind p k) D es (ts @ ts')"
  using reach_trans [OF reach_bind [OF assms(1)], of k] assms(2) by simp

lemma gives_bind: "gives cx st s p st1 s1 x [] \<Longrightarrow> reach one_limits cx (st1, s1, k x) D es ts \<Longrightarrow> reach one_limits cx (st, s, cbind p k) D es ts"
  using after_gives [of cx st s p st1 s1 x "[]"] by simp

lemma gives_try: "gives cx st s p st' s' x ts \<Longrightarrow> gives cx st s (ctry p) st' s' (Inr x) ts"
  using reach_try [of one_limits cx "(st, s, p)" "(st', s', CDone x)" "[]" ts] by simp

lemma gives_done: "gives cx st s (CDone x) st s x []"
  by (rule reach_stay)

lemma gives_lift: "r = Inr x \<Longrightarrow> gives cx st s (clift r) st s x []"
  by (simp add: reach_stay)

lemma reach_one: "act_step l cx C C' [] [] \<Longrightarrow> reach l cx C' D es ts \<Longrightarrow> reach l cx C D es ts"
  using reach_step [of l cx C C' "[]" "[]"] by simp

lemma gives_peek: "gives cx st s (peek f) st s (f s) []"
  unfolding peek_def by (rule reach_one [OF act_local reach_stay])

lemma gives_poke: "gives cx st s (poke f) st (f s) () []"
  unfolding poke_def by (rule reach_one [OF act_local reach_stay])

lemma gives_clock: "\<bar>n\<bar> \<le> max_date_ms \<Longrightarrow> gives cx st s clock_instant st s n []"
  unfolding clock_instant_def by (rule reach_one [OF act_clock [of "Some n"]]) (simp_all add: reach_stay)

lemma gives_mutate:
  assumes "\<not> sc_mutating s" "gives cx st (s\<lparr>sc_mutating := True\<rparr>) p st' s' x []"
  shows "gives cx st s (mutate_state p) st' (s'\<lparr>sc_mutating := False\<rparr>) x []"
  unfolding mutate_state_def
  by (rule reach_one [OF act_lock [OF assms(1)]], rule gives_bind [OF gives_try [OF assms(2)]], rule gives_bind [OF gives_poke])
    (simp add: reach_stay)

lemma gives_update_none:
  assumes "dj_schedule (sc_record s) = cx_fingerprint cx" "gives cx st s (t (sc_record s)) st s (x, None) []"
  shows "gives cx st s (update_record cx allow t) st s (False, x) []"
  unfolding update_record_def durable_cas_attempts_def numeral_eq_Suc pred_numeral_simps update_loop.simps(2)
  by (rule gives_bind [OF gives_peek]) (simp add: assms(1) gives_bind [OF assms(2)] reach_stay)

lemma gives_update:
  assumes "dj_schedule (sc_record s) = cx_fingerprint cx" "gives cx st s (t (sc_record s)) st s (x, Some n) []"
    "cx_durable cx" "encode_durable_record n = Inr b"
    "cap_cas one_limits (cx_inst cx) one_call (cx_key cx) (sc_version s) b st = (Inr (CasApplied r), st')"
  shows "gives cx st s (update_record cx allow t) st' (s\<lparr>sc_record := n, sc_version := Some (rc_version r)\<rparr>) (True, x) []"
  unfolding update_record_def durable_cas_attempts_def numeral_eq_Suc pred_numeral_simps update_loop.simps(2)
  apply (rule gives_bind [OF gives_peek])
  apply (simp add: assms(1))
  apply (rule gives_bind [OF assms(2)])
  apply (simp add: assms(3,4))
  apply (rule reach_one [OF act_cas [OF assms(5)]])
  apply (simp add: hold_def)
  apply (rule gives_bind [OF gives_poke])
  apply (rule gives_done)
  done

section \<open>Runs of a system\<close>

lemma reach_system:
  assumes "reach l cx C D es ts" "trigger_of sha inst job cx" "C = (st, s, p)" "j < length acts" "acts ! j = (0, p)"
  shows "\<exists>more. system_run l sha inst job (st, [Some (cx, s)], acts, tr)
    (fst D, [Some (cx, fst (snd D))], acts[j := (0, snd (snd D))] @ more, tr @ es)"
  using assms
proof (induction arbitrary: st s p acts tr rule: reach.induct)
  case (reach_stay C)
  then have "(fst C, [Some (cx, fst (snd C))], acts[j := (0, snd (snd C))] @ [], tr @ []) = (st, [Some (cx, s)], acts, tr)"
    by (simp add: list_update_same_conv)
  then show ?case by (metis rtranclp.rtrancl_refl)
next
  case (reach_step C C' es ts D es' ts')
  obtain st1 s1 p1 where C': "C' = (st1, s1, p1)" by (cases C')
  let ?acts = "acts[j := (0, p1)] @ map (\<lambda>t. (0, task_prog cx t)) ts"
  have one: "system_step l sha inst job (st, [Some (cx, s)], acts, tr) (st1, [Some (cx, s1)], ?acts, tr @ es)"
    using sys_act [of 0 "[Some (cx, s)]" cx s j acts p l st st1 s1 p1 es ts sha inst job tr] reach_step by (simp add: C')
  obtain more where "system_run l sha inst job (st1, [Some (cx, s1)], ?acts, tr @ es)
      (fst D, [Some (cx, fst (snd D))], ?acts[j := (0, snd (snd D))] @ more, (tr @ es) @ es')"
    using reach_step.IH [of st1 s1 p1 ?acts "tr @ es"] reach_step.prems C' by (auto simp: nth_append)
  then have "system_run l sha inst job (st, [Some (cx, s)], acts, tr)
      (fst D, [Some (cx, fst (snd D))], acts[j := (0, snd (snd D))] @ (map (\<lambda>t. (0, task_prog cx t)) ts @ more), tr @ (es @ es'))"
    using one reach_step.prems by (simp add: list_update_append converse_rtranclp_into_rtranclp)
  then show ?case by blast
qed

section \<open>The sample\<close>

text \<open>Occurrences within the range of dates.\<close>

definition dated :: "occurrence \<Rightarrow> occurrence" where
  "dated occ job t = (case occ job t of Inl e \<Rightarrow> Inl e
     | Inr d \<Rightarrow> if \<bar>d\<bar> \<le> max_date_ms then Inr d else Inl (RangeError ''Invalid time value''))"

definition owner_text :: string where "owner_text = ''00000000-0000-4000-8000-000000000000''"

definition sample_cx :: cron_cx where
  "sample_cx = \<lparr>cx_sha = sample_sha, cx_inst = ''a'', cx_owner = owner_text, cx_job = every_minute, cx_durable = True,
     cx_previous = dated minute_before, cx_upcoming = dated minute_after\<rparr>"

lemma sample_trigger: "trigger_of sample_sha ''a'' ''job'' sample_cx"
  by (auto simp: trigger_of_def sample_cx_def every_minute_def finds_dates_def dated_def split: sum.splits if_splits)

abbreviation cron_slot :: string where "cron_slot \<equiv> job_key sample_sha ''a'' ''job''"

definition cron_store :: "nat \<Rightarrow> string \<Rightarrow> store" where
  "cron_store n b =
     \<lparr>st_snap = \<lparr>sn_generation = n, sn_list_generation = n, sn_records = [(cron_slot, one_record n b)], sn_total = length b\<rparr>,
      st_closed = False, st_poisoned = False\<rparr>"

lemma cron_slot_ok: "validate_state_key (JStr cron_slot) = Inr cron_slot" "length cron_slot \<le> 500"
  "cap_key ''a'' (cx_key sample_cx) = Inr cron_slot" "is_execution_state_key cron_slot = False" "key_syntax_ok cron_slot"
proof -
  have k: "cron_slot = ''trigger/a/trigger-cron/v1/jobs/'' @ replicate 64 CHR ''a''"
    "cx_key sample_cx = ''trigger-cron/v1/jobs/'' @ replicate 64 CHR ''a''"
    by (simp_all add: job_key_def durable_job_key_def sample_sha_def cx_key_def sample_cx_def)
  show "validate_state_key (JStr cron_slot) = Inr cron_slot" "length cron_slot \<le> 500"
    "cap_key ''a'' (cx_key sample_cx) = Inr cron_slot" "is_execution_state_key cron_slot = False" "key_syntax_ok cron_slot"
    unfolding k by code_simp+
qed

lemma cron_serialized:
  assumes "length b \<le> 100000" "n \<in> {1, 2}"
  shows "\<exists>f. serialize_snapshot (state_snapshot_byte_limit one_limits) (st_snap (cron_store n b)) = Inr f"
proof -
  have n: "n \<in> {1, 2, 3}" using assms(2) by auto
  have key: "length (json_quote cron_slot) \<le> 3002" using json_quote_length [of cron_slot] cron_slot_ok(2) by simp
  have "length (b64_encode False b) \<le> 400008"
    using b64_encode_length [of False b] assms(1) by simp
  then have val: "length (json_quote (b64_encode False b)) \<le> 2400050"
    using json_quote_length [of "b64_encode False b"] by simp
  have iso: "length (json_quote (to_iso 0)) \<le> 146" using json_quote_length [of "to_iso 0"] by (simp add: to_iso_epoch)
  have rec: "length (json_text (disk_record (cron_slot, one_record n b))) \<le> 2404000"
    using key val iso version_texts(1) [OF n]
    unfolding disk_record_def one_record_def req_def by (simp add: quoted_names)
  have "length (json_text (JObj (req ''schema'' (JStr ''mono-agent.state-local.v1'')
            @ req ''generation'' (JNum (int n)) @ req ''listGeneration'' (JNum (int n))
            @ req ''records'' (JArr [disk_record (cron_slot, one_record n b)])))) \<le> 2404200"
    using rec version_texts(2) [OF n] unfolding req_def by (simp add: quoted_names)
  then show ?thesis
    by (simp add: serialize_snapshot_def cron_store_def Let_def state_snapshot_byte_limit_def one_limits_def
        state_key_max_code_units_def)
qed

lemma cron_new_read: "cap_read ''a'' one_call (cx_key sample_cx) new_store = (Inr None, new_store)"
  by (simp add: cap_read_def cron_slot_ok state_read_def validate_state_key_syntax_def guarded_def run_exclusive_def
      guard_paths_def one_call_def new_store_def find_record_def lookup_def empty_snapshot_def)

lemma capped: "length b \<le> 20000 \<Longrightarrow> cap_value b = Inr b \<and> length b \<le> li_record_bytes one_limits"
  by (simp add: cap_value_def cap_value_bytes_def one_limits_def)

lemma cron_swap:
  assumes "length b' \<le> 20000" "n \<in> {1, 2}" "version_at (st_snap st) cron_slot = ev" "version_argument_ok ev"
    "\<And>v. ev = Some v \<Longrightarrow> version_ok v" "\<not> st_closed st" "\<not> st_poisoned st"
    "put_draft one_limits one_call (st_snap st) cron_slot b' = Inr (st_snap (cron_store n b'), one_record n b')"
    "st\<lparr>st_snap := st_snap (cron_store n b')\<rparr> = cron_store n b'"
  shows "\<exists>r. cap_cas one_limits ''a'' one_call (cx_key sample_cx) ev b' st = (Inr (CasApplied r), cron_store n b')
    \<and> rc_version r = version_text n"
proof -
  obtain f where f: "serialize_snapshot (state_snapshot_byte_limit one_limits) (st_snap (cron_store n b')) = Inr f"
    using cron_serialized [of b' n] assms(1,2) by auto
  have ev: "(if js = JNull then Inr None else validate_expected_version js) = Inr ev"
    if "js = (case ev of None \<Rightarrow> JNull | Some v \<Rightarrow> JStr v)" for js
    using that assms(5) by (cases ev) (simp_all add: validate_expected_version_def)
  have commit: "commit one_limits one_call (st_snap (cron_store n b')) st = (Inr (), cron_store n b')"
    by (simp only: commit_def f sum.case) (simp add: one_call_def assms(9))
  have "state_compare_and_swap one_limits one_call (JStr cron_slot) (case ev of None \<Rightarrow> JNull | Some v \<Rightarrow> JStr v) b' st
    = (Inr (CasApplied (to_state_record cron_slot (one_record n b'))), cron_store n b')"
    unfolding state_compare_and_swap_def guarded_def run_exclusive_def guard_paths_def Let_def ev [OF refl] cron_slot_ok(1) run_plan_def
    using capped [OF assms(1)] assms(3,6,7)
    by (simp add: one_call_def assms(8) [unfolded one_call_def] commit [unfolded one_call_def])
  then show ?thesis using capped [OF assms(1)] assms(4)
    by (simp add: cap_cas_def cron_slot_ok to_state_record_def one_record_def)
qed

lemma cron_create:
  assumes "length b \<le> 20000"
  shows "\<exists>r. cap_cas one_limits ''a'' one_call (cx_key sample_cx) None b new_store = (Inr (CasApplied r), cron_store 1 b)
    \<and> rc_version r = version_text 1"
  by (rule cron_swap)
    (use assms in \<open>simp_all add: version_at_def new_store_def empty_snapshot_def lookup_def version_argument_ok_def put_draft_def
       size_at_def next_version_def next_list_generation_def canonical_now_def one_call_def one_limits_def max_safe_integer_def
       cron_store_def one_record_def Let_def\<close>)

lemma cron_replace:
  assumes "length b \<le> 20000" "length b' \<le> 20000"
  shows "\<exists>r. cap_cas one_limits ''a'' one_call (cx_key sample_cx) (Some (version_text 1)) b' (cron_store 1 b)
      = (Inr (CasApplied r), cron_store 2 b') \<and> rc_version r = version_text 2"
proof -
  have v: "version_argument_ok (Some (version_text 1))" "version_ok (version_text 1)" by code_simp+
  show ?thesis
    by (rule cron_swap)
      (use assms v in \<open>simp_all add: version_at_def lookup_def put_draft_def size_at_def next_version_def next_list_generation_def
         canonical_now_def one_call_def one_limits_def max_safe_integer_def cron_store_def one_record_def Let_def numeral_2_eq_2\<close>)
qed

text \<open>The record as created at 0 and as reserved for the firing at 60000.\<close>

definition fresh_job :: durable_job where
  "fresh_job = initial_durable sample_sha every_minute (to_iso 0)"

definition minute_key :: string where
  "minute_key = cx_firing_key sample_cx (to_iso 60000)"

definition reserved_job :: durable_job where
  "reserved_job = fresh_job\<lparr>dj_watermark := to_iso 60000,
     dj_active := Some \<lparr>da_owner = owner_text, da_key = minute_key, da_scheduled = to_iso 60000, da_claimed = to_iso 60000\<rparr>,
     dj_outcome := Some \<lparr>do_status = CronUnknown, do_scheduled = to_iso 60000, do_key = minute_key\<rparr>\<rparr>"

lemma minute_instants [simp]: "instant_ms (to_iso 0) = 0" "instant_ms (to_iso 60000) = 60000"
  by (simp_all add: instant_to_iso max_date_ms_def)

definition line_of :: "durable_job \<Rightarrow> string" where
  "line_of r = json_text (durable_json r) @ [CHR 0x0A]"

lemma sample_lines:
  "encode_durable_record fresh_job = Inr (line_of fresh_job)" "length (line_of fresh_job) \<le> 20000"
  "encode_durable_record reserved_job = Inr (line_of reserved_job)" "length (line_of reserved_job) \<le> 20000"
proof -
  have texts: "length (json_quote (to_iso 0)) \<le> 146" "length (json_quote (to_iso 60000)) \<le> 146" by (rule quoted_samples)+
  have "length minute_key \<le> 72" by (simp add: minute_key_def cx_firing_key_def cron_idempotency_key_def sample_cx_def sample_sha_def key_text_def)
  then have keys: "length (json_quote minute_key) \<le> 434" "length (json_quote owner_text) \<le> 218"
    "length (json_quote (sample_sha x)) \<le> 386" "length (json_quote ''unknown'') \<le> 44" "length (json_quote ''job'') \<le> 20" for x
    using json_quote_length [of minute_key] json_quote_length [of owner_text] json_quote_length [of "sample_sha x"]
      json_quote_length [of "''unknown''"] json_quote_length [of "''job''"]
    by (simp_all add: owner_text_def sample_sha_def)
  have active: "length (json_text (encode_active \<lparr>da_owner = owner_text, da_key = minute_key, da_scheduled = to_iso 60000, da_claimed = to_iso 60000\<rparr>)) \<le> 2000"
    using texts keys unfolding encode_active_def req_def by (intro order_trans [OF object_length]) (simp add: cost_def)
  have outcome: "length (json_text (encode_outcome \<lparr>do_status = CronUnknown, do_scheduled = to_iso 60000, do_key = minute_key\<rparr>)) \<le> 2000"
    using texts keys unfolding encode_outcome_def req_def
    by (intro order_trans [OF object_length]) (simp add: cost_def outcome_statuses_def)
  have fp: "length (json_quote (schedule_fingerprint sample_sha every_minute)) \<le> 386" "jb_id every_minute = ''job''"
    using keys(3) by (simp_all add: schedule_fingerprint_def every_minute_def)
  have f: "length (json_text (durable_json fresh_job)) \<le> 16000"
    using texts keys fp unfolding durable_json_def fresh_job_def initial_durable_def req_def opt_def count_js_def
    by (intro order_trans [OF object_length]) (simp add: cost_def quoted_numbers max_safe_integer_def)
  have r: "length (json_text (durable_json reserved_job)) \<le> 16000"
    using texts keys fp active outcome unfolding durable_json_def reserved_job_def fresh_job_def initial_durable_def req_def opt_def count_js_def
    by (intro order_trans [OF object_length]) (simp add: cost_def quoted_numbers max_safe_integer_def)
  show "encode_durable_record fresh_job = Inr (line_of fresh_job)" "length (line_of fresh_job) \<le> 20000"
    "encode_durable_record reserved_job = Inr (line_of reserved_job)" "length (line_of reserved_job) \<le> 20000"
    using f r by (simp_all add: encode_durable_Inr line_of_def durable_record_bytes_def)
qed

section \<open>Start\<close>

definition created_store :: store where "created_store = cron_store 1 (line_of fresh_job)"

definition reserved_store :: store where "reserved_store = cron_store 2 (line_of reserved_job)"

lemma sample_cx_simps [simp]:
  "cx_durable sample_cx" "cx_inst sample_cx = ''a''" "cx_job sample_cx = every_minute" "cx_sha sample_cx = sample_sha"
  "cx_owner sample_cx = owner_text" "cx_upcoming sample_cx every_minute 0 = Inr 60000"
  by (simp_all add: sample_cx_def dated_def minute_after_def max_date_ms_def)

definition running_minute :: sched where
  "running_minute = (job_state sample_cx 0)\<lparr>sc_lifecycle := CronRunning, sc_timer := Some (WakeAt 60000), sc_target := Some 60000,
     sc_record := fresh_job, sc_version := Some (version_text 1)\<rparr>"

lemma gives_initialize:
  "gives sample_cx new_store (s\<lparr>sc_observed := 0\<rparr>) (initialize_loop durable_cas_attempts sample_cx 0)
     created_store (s\<lparr>sc_observed := 0, sc_record := fresh_job, sc_version := Some (version_text 1)\<rparr>) () []"
proof -
  obtain r where r: "cap_cas one_limits ''a'' one_call (cx_key sample_cx) None (line_of fresh_job) new_store
      = (Inr (CasApplied r), created_store)" "rc_version r = version_text 1"
    using cron_create [OF sample_lines(2)] unfolding created_store_def by blast
  show ?thesis
    unfolding durable_cas_attempts_def numeral_eq_Suc pred_numeral_simps initialize_loop.simps(2) Let_def
    apply (rule reach_one [OF act_read [where c = one_call and r = "Inr None" and st' = new_store]])
     apply (simp add: cron_new_read)
    apply (simp add: sample_lines(1) flip: fresh_job_def)
    apply (rule reach_one [OF act_cas [where c = one_call and rr = "Inr (CasApplied r)" and st' = "created_store"]])
     apply (simp add: r(1))
    using gives_poke [of sample_cx "created_store" "s\<lparr>sc_observed := 0\<rparr>"
      "\<lambda>s. s\<lparr>sc_record := fresh_job, sc_version := Some (version_text 1)\<rparr>"]
    apply (simp add: hold_def r(2))
    done
qed

lemma reach_emit: "reach l cx (st, s, CEmit ev q) (st, s, q x) [ev] []"
  using reach_step [OF act_emit reach_stay, of l cx st s ev q x] by simp

lemma gives_end: "s = s' \<Longrightarrow> gives cx st s (CDone x) st s' x []"
  by (simp add: reach_stay)

lemma gives_schedule:
  assumes "sc_lifecycle s = CronRunning" "\<not> sc_fenced s" "\<not> sc_transition s" "\<not> sc_foreign s" "sc_active s = None"
    "sc_regression s = None" "sc_record s = fresh_job"
  shows "gives sample_cx st s (schedule_next sample_cx) st (s\<lparr>sc_target := Some 60000, sc_timer := Some (WakeAt 60000)\<rparr>) () []"
proof -
  have w: "instant_ms (dj_watermark fresh_job) = 0" by (simp add: fresh_job_def initial_durable_def)
  have zero: "\<bar>0 :: int\<bar> \<le> max_date_ms" by (simp add: max_date_ms_def)
  show ?thesis
    unfolding schedule_next_def arm_def
    apply (rule gives_bind [OF gives_peek])
    apply (simp add: assms release_pending_def)
    apply (rule gives_bind [OF gives_poke])
    apply (rule gives_bind [OF gives_clock [OF zero]])
    apply (simp add: assms w release_pending_def)
    apply (rule gives_bind [OF gives_peek])
    apply (simp add: assms(1))
    apply (rule gives_bind [OF gives_clock [OF zero]])
    using gives_poke [of sample_cx st "s\<lparr>sc_timer := None\<rparr>" "\<lambda>s. s\<lparr>sc_target := Some 60000, sc_timer := Some (WakeAt 60000)\<rparr>"]
    apply simp
    done
qed

lemma start_run:
  "gives sample_cx new_store (job_state sample_cx 0) (start sample_cx) created_store running_minute () [TaskReconcile FromRecovery]"
proof -
  let ?s = "(job_state sample_cx 0)\<lparr>sc_lifecycle := CronStarting\<rparr>"
  let ?t = "?s\<lparr>sc_observed := 0, sc_record := fresh_job, sc_version := Some (version_text 1)\<rparr>"
  have zero: "\<bar>0 :: int\<bar> \<le> max_date_ms" by (simp add: max_date_ms_def)
  have fresh: "sc_lifecycle (job_state sample_cx 0) = CronNew" by (simp add: job_state_def)
  have init: "gives sample_cx new_store ?s (initialize_job sample_cx 0) created_store ?t () []"
    unfolding initialize_job_def
    by (rule gives_bind [OF gives_poke]) (use gives_initialize [of ?s] in simp)
  have tried: "gives sample_cx new_store ?s (ctry (cbind (initialize_job sample_cx 0) (\<lambda>_. cbind (peek sc_lifecycle) (\<lambda>l'.
      if l' \<noteq> CronStarting then CFail e else CDone ())))) created_store ?t (Inr ()) []" for e
    by (rule gives_try, rule gives_bind [OF init], rule gives_bind [OF gives_peek]) (simp add: gives_done)
  have running: "gives sample_cx created_store (?t\<lparr>sc_lifecycle := CronRunning\<rparr>) (schedule_next sample_cx)
      created_store running_minute () []"
    using gives_schedule [of "?t\<lparr>sc_lifecycle := CronRunning\<rparr>" "created_store"]
    by (simp add: job_state_def running_minute_def)
  have spawned: "gives sample_cx st s (CSpawn t (CDone ())) st s () [t]" for st s t
    using reach_step [OF act_spawn reach_stay, of one_limits sample_cx st s t "CDone ()"] by simp
  show ?thesis
    unfolding start_def
    apply (rule gives_bind [OF gives_peek])
    apply (simp add: fresh)
    apply (rule gives_bind [OF gives_poke])
    apply (rule gives_bind [OF gives_clock [OF zero]])
    apply (rule gives_bind [OF tried])
    apply (simp only: sum.case)
    apply (rule gives_bind [OF gives_poke])
    apply (rule gives_bind [OF running])
    apply (rule spawned)
    done
qed

section \<open>A command\<close>

lemma running_simps [simp]:
  "sc_lifecycle running_minute = CronRunning" "sc_record running_minute = fresh_job" "sc_version running_minute = Some (version_text 1)"
  "sc_active running_minute = None" "sc_unsettled running_minute = None" "sc_error running_minute = None" "\<not> sc_mutating running_minute"
  "\<not> sc_foreign running_minute" "\<not> sc_fenced running_minute" "\<not> sc_transition running_minute" "sc_regression running_minute = None"
  by (simp_all add: running_minute_def job_state_def)

lemma job_simps [simp]:
  "dj_watermark fresh_job = to_iso 0" "dj_active fresh_job = None" "dj_outcome fresh_job = None" "dj_issue fresh_job = None"
  "dj_schedule fresh_job = cx_fingerprint sample_cx" "dj_watermark reserved_job = to_iso 60000" "dj_schedule reserved_job = cx_fingerprint sample_cx"
  "dj_active reserved_job = Some \<lparr>da_owner = owner_text, da_key = minute_key, da_scheduled = to_iso 60000, da_claimed = to_iso 60000\<rparr>"
  "dj_outcome reserved_job = Some \<lparr>do_status = CronUnknown, do_scheduled = to_iso 60000, do_key = minute_key\<rparr>"
  by (simp_all add: fresh_job_def initial_durable_def reserved_job_def cx_fingerprint_def)

definition held :: sched where
  "held = running_minute\<lparr>sc_record := reserved_job, sc_version := Some (version_text 2)\<rparr>"

lemma minute_ok: "\<bar>60000 :: int\<bar> \<le> max_date_ms"
  by (simp add: max_date_ms_def)

lemma transform_run:
  "gives sample_cx st (running_minute\<lparr>sc_mutating := True\<rparr>) (reserve_transform sample_cx (to_iso 60000) minute_key fresh_job)
     st (running_minute\<lparr>sc_mutating := True\<rparr>) (None, Some reserved_job) []"
proof -
  have "fresh_job\<lparr>dj_watermark := to_iso 60000,
      dj_active := Some \<lparr>da_owner = owner_text, da_key = minute_key, da_scheduled = to_iso 60000, da_claimed = to_iso 60000\<rparr>,
      dj_outcome := Some \<lparr>do_status = CronUnknown, do_scheduled = to_iso 60000, do_key = minute_key\<rparr>, dj_issue := None\<rparr> = reserved_job"
    by (simp add: reserved_job_def fresh_job_def initial_durable_def)
  then show ?thesis
    unfolding reserve_transform_def
    apply simp
    apply (rule gives_bind [OF gives_peek])
    apply (simp add: prior_unknown_def)
    apply (rule gives_bind [OF gives_bind [OF gives_clock [OF minute_ok] gives_done]])
    apply (simp add: reach_stay)
    done
qed

lemma reserve_run:
  "gives sample_cx created_store running_minute (reserve sample_cx (to_iso 60000) minute_key) reserved_store held (True, None) []"
proof -
  let ?m = "running_minute\<lparr>sc_mutating := True\<rparr>"
  obtain r where r: "cap_cas one_limits ''a'' one_call (cx_key sample_cx) (Some (version_text 1)) (line_of reserved_job) created_store
      = (Inr (CasApplied r), reserved_store)" "rc_version r = version_text 2"
    using cron_replace [OF sample_lines(2,4)] unfolding created_store_def reserved_store_def by blast
  have swap: "gives sample_cx created_store ?m (update_record sample_cx False (reserve_transform sample_cx (to_iso 60000) minute_key))
      reserved_store (?m\<lparr>sc_record := reserved_job, sc_version := Some (rc_version r)\<rparr>) (True, None) []"
    by (rule gives_update [OF _ _ _ sample_lines(3)]) (use r transform_run [of created_store] in simp_all)
  have held: "?m\<lparr>sc_record := reserved_job, sc_version := Some (rc_version r), sc_mutating := False\<rparr> = held"
    by (simp add: held_def running_minute_def job_state_def r(2))
  have "gives sample_cx created_store running_minute (reserve sample_cx (to_iso 60000) minute_key) reserved_store
      (?m\<lparr>sc_record := reserved_job, sc_version := Some (rc_version r), sc_mutating := False\<rparr>) (True, None) []"
    unfolding reserve_def
    apply (rule gives_mutate)
     apply simp
    apply (rule gives_bind [OF gives_peek])
    apply simp
    apply (rule gives_bind [OF swap])
    apply simp
    apply (rule gives_bind [OF gives_peek])
    apply (simp add: outcome_key_is_def reach_stay)
    done
  then show ?thesis by (simp only: held)
qed

lemma held_simps [simp]:
  "sc_lifecycle held = CronRunning" "sc_record held = reserved_job" "sc_active held = None" "sc_unsettled held = None"
  "sc_error held = None" "\<not> sc_mutating held" "\<not> sc_foreign held" "\<not> sc_fenced held" "\<not> sc_transition held" "sc_regression held = None"
  by (simp_all add: held_def)

lemma held_same: "held\<lparr>sc_foreign := False, sc_error := None, sc_unsettled := None\<rparr> = held" "held\<lparr>sc_mutating := True, sc_mutating := False\<rparr> = held"
  by (simp_all add: held_def running_minute_def job_state_def)

lemma try_reserve_run:
  "gives sample_cx created_store running_minute (try_reserve sample_cx (to_iso 60000) minute_key) reserved_store held Reserved []"
  unfolding try_reserve_def
  apply (rule gives_bind [OF reserve_run])
  apply simp
  apply (rule gives_bind [OF gives_peek])
  apply (simp add: outcome_key_is_def)
  apply (rule gives_bind [OF gives_poke])
  apply (simp add: has_pending_repair_def held_same reach_stay)
  done

lemma claim_run_minute:
  "gives sample_cx reserved_store held (claim_active sample_cx (to_iso 60000) minute_key) reserved_store held True []"
proof -
  have "gives sample_cx reserved_store held (mutate_state (update_record sample_cx False (claim_transform sample_cx (to_iso 60000) minute_key)))
      reserved_store (held\<lparr>sc_mutating := True, sc_mutating := False\<rparr>) (False, True) []"
    by (rule gives_mutate, simp, rule gives_update_none) (simp_all add: claim_transform_def reach_stay)
  then show ?thesis
    unfolding claim_active_def held_same by (rule gives_bind) (simp add: reach_stay)
qed

definition minute_event :: cron_event where
  "minute_event = event_of sample_cx (to_iso 60000) FromCommand minute_key 60000"

lemma fire_run:
  "\<exists>s p. reach one_limits sample_cx (created_store, running_minute, call_prog sample_cx (CallInvoke (Some 60000)))
     (reserved_store, s, p) [minute_event] []"
proof -
  have emit: "\<exists>s p. reach one_limits sample_cx (reserved_store, held, emit_firing sample_cx (to_iso 60000) FromCommand minute_key)
     (reserved_store, s, p) [minute_event] []"
    unfolding emit_firing_def
    apply (rule exI, rule exI)
    apply (rule gives_bind [OF gives_poke])
    apply (rule gives_bind [OF gives_clock [OF minute_ok]])
    apply (simp only: minute_event_def [symmetric])
    apply (rule reach_emit [where x = EmissionFailed])
    done
  then obtain s p where e: "reach one_limits sample_cx (reserved_store, held, emit_firing sample_cx (to_iso 60000) FromCommand minute_key)
     (reserved_store, s, p) [minute_event] []" by blast
  have run: "reach one_limits sample_cx (reserved_store, held, run_now sample_cx (to_iso 60000) FromCommand minute_key)
     (reserved_store, s, p) [minute_event] []"
    unfolding run_now_def by (rule gives_bind [OF gives_try [OF claim_run_minute]]) (simp add: e)
  have admit: "reach one_limits sample_cx (reserved_store, held, admit_reserved sample_cx (to_iso 60000) FromCommand minute_key)
     (reserved_store, s, p) [minute_event] []"
    unfolding admit_reserved_def by (rule gives_bind [OF gives_peek]) (simp add: run)
  have fired: "reach one_limits sample_cx (created_store, running_minute, admit_firing sample_cx (to_iso 60000) FromCommand)
     (reserved_store, s, p) [minute_event] []"
    unfolding admit_firing_def Let_def minute_key_def [symmetric]
    apply (rule gives_bind [OF gives_peek])
    apply (simp add: release_pending_def)
    apply (rule gives_bind [OF gives_try [OF try_reserve_run]])
    apply (simp add: admit)
    done
  have "reach one_limits sample_cx (created_store, running_minute, invoke sample_cx (Some 60000)) (reserved_store, s, p) [minute_event] []"
    unfolding invoke_def Let_def
    apply (rule gives_bind [OF gives_peek])
    apply simp
    apply (rule gives_bind [OF gives_clock [OF minute_ok]])
    apply (simp add: fired)
    done
  from reach_bind [OF this, of "\<lambda>_. CDone ()"] show ?thesis by auto
qed

text \<open>The whole run: the trigger is created, started and told to fire.\<close>

lemma sample_run:
  "\<exists>s acts. system_run one_limits sample_sha ''a'' ''job'' (new_store, [], [], [])
     (reserved_store, [Some (sample_cx, s)], acts, [minute_event])"
proof -
  let ?step = "system_step one_limits sample_sha ''a'' ''job''"
  note tr = sample_trigger
  have create: "?step (new_store, [], [], []) (new_store, [Some (sample_cx, job_state sample_cx 0)], [], [])"
    using sys_create [OF tr, of 0 one_limits new_store "[]"] by (simp add: max_date_ms_def)
  have call: "?step (new_store, [Some (sample_cx, job_state sample_cx 0)], [], [])
      (new_store, [Some (sample_cx, job_state sample_cx 0)], [(0, start sample_cx)], [])"
    using sys_call [where i = 0 and call = CallStart and acts = "[]" and ps = "[Some (sample_cx, job_state sample_cx 0)]"] by simp
  obtain acts where start: "system_run one_limits sample_sha ''a'' ''job'' (new_store, [Some (sample_cx, job_state sample_cx 0)], [(0, start sample_cx)], [])
      (created_store, [Some (sample_cx, running_minute)], acts, [])"
    using reach_system [OF start_run tr refl, of 0 "[(0, start sample_cx)]" "[]"] by auto
  let ?acts = "acts @ [(0, call_prog sample_cx (CallInvoke (Some 60000)))]"
  have invoke: "?step (created_store, [Some (sample_cx, running_minute)], acts, []) (created_store, [Some (sample_cx, running_minute)], ?acts, [])"
    using sys_call [of 0 "[Some (sample_cx, running_minute)]" sample_cx running_minute "CallInvoke (Some 60000)"] by (simp add: max_date_ms_def)
  obtain s p where fire: "reach one_limits sample_cx (created_store, running_minute, call_prog sample_cx (CallInvoke (Some 60000)))
     (reserved_store, s, p) [minute_event] []"
    using fire_run by blast
  obtain acts' where "system_run one_limits sample_sha ''a'' ''job'' (created_store, [Some (sample_cx, running_minute)], ?acts, [])
      (reserved_store, [Some (sample_cx, s)], acts', [minute_event])"
    using reach_system [OF fire tr refl, of "length acts" ?acts "[]"] by (auto simp del: call_prog.simps)
  with create call start invoke show ?thesis
    by (meson converse_rtranclp_into_rtranclp rtranclp_trans)
qed

end
