(* ===== verification/CronProps.thy ===== *)
theory CronProps
  imports CronRun
begin

text \<open>
  The properties of the cron trigger: what it stores can be read back, and over any interleaving of
  triggers of one job, with crashes, lost answers and other users of the store, no instant fires twice.
\<close>

section \<open>The record\<close>

text \<open>C33: A record that fits the size limit is read back unchanged from the bytes written for it.\<close>

theorem durable_bytes_roundtrip:
  assumes "wf_durable r" "encode_durable_record r = Inr b"
  shows "parse_durable_record (dj_job r) b = Inr r"
proof -
  have b: "b = json_text (durable_json r) @ [CHR 0x0A]" "length b \<le> durable_record_bytes"
    using assms(2) unfolding encode_durable_Inr by blast+
  then have "json_parse b = Some (durable_json r)" "b \<noteq> []" by (simp_all add: json_parse_line [OF durable_json_ok])
  then show ?thesis using b(2) durable_roundtrip [OF assms(1)] by (simp add: parse_durable_record_def)
qed

lemma reserved_wf: "wf_durable reserved_job"
proof -
  have hex: "hex64 (sample_sha x)" for x using sample_sha_hex by (simp add: sha_hex_def)
  have "cron_key_ok minute_key"
    using hex by (simp add: minute_key_def cx_firing_key_def cron_idempotency_key_def cron_key_ok_def key_text_def)
  moreover have "owner_id_ok owner_text" by code_simp
  ultimately show ?thesis
    using hex by (simp add: wf_durable_def reserved_job_def fresh_job_def initial_durable_def wf_active_def wf_outcome_def
        schedule_fingerprint_def max_date_ms_def max_safe_integer_def)
qed

lemma durable_bytes_roundtrip_witness: "parse_durable_record ''job'' (line_of reserved_job) = Inr reserved_job"
  using durable_bytes_roundtrip [OF reserved_wf sample_lines(3)]
  by (simp add: reserved_job_def fresh_job_def initial_durable_def every_minute_def)

text \<open>C35: Merging a missed range keeps the record readable and covers the old range and the new one.\<close>

theorem merged_range_covers:
  assumes "opt_ok wf_missed current" "instant_ok f" "instant_ok t" "instant_ms f \<le> instant_ms t"
  shows "wf_missed (merge_missed current f t)
    \<and> instant_ms (dm_from (merge_missed current f t)) \<le> instant_ms f
    \<and> instant_ms t \<le> instant_ms (dm_through (merge_missed current f t))
    \<and> (\<forall>m. current = Some m \<longrightarrow> instant_ms (dm_from (merge_missed current f t)) \<le> instant_ms (dm_from m)
         \<and> instant_ms (dm_through m) \<le> instant_ms (dm_through (merge_missed current f t)))"
  using merge_missed_wf [OF assms] by (auto simp: merge_missed_def split: option.splits)

lemma merged_range_covers_witness:
  "wf_missed (merge_missed (Some \<lparr>dm_ranges = 1, dm_at_least = 1, dm_from = to_iso 60000, dm_through = to_iso 60000\<rparr>) (to_iso 0) (to_iso 0))"
  using merged_range_covers [of "Some \<lparr>dm_ranges = 1, dm_at_least = 1, dm_from = to_iso 60000, dm_through = to_iso 60000\<rparr>" "to_iso 0" "to_iso 0"]
  by (simp add: opt_ok_def wf_missed_def max_date_ms_def max_safe_integer_def)

text \<open>C34: The queue never holds more firings than its depth, and a firing that arrives or was queued is
  either queued afterwards or among the displaced ones, which are completed.\<close>

theorem queue_keeps_firings:
  assumes "0 < jb_queue_depth job" "length queue \<le> jb_queue_depth job" "enqueue job p queue = (queue', displaced, reason)"
  shows "length queue' \<le> jb_queue_depth job \<and> mset queue' + mset displaced = add_mset p (mset queue)
    \<and> (jb_overlap job \<noteq> OverlapReplace \<longrightarrow> length queue < jb_queue_depth job \<longrightarrow> queue' = queue @ [p])"
  using assms by (cases queue) (auto simp: enqueue_def split: if_splits cron_overflow.splits)

definition minute_pending :: "int \<Rightarrow> pending_invocation" where
  "minute_pending t = \<lparr>pe_scheduled = to_iso t, pe_source = FromSchedule, pe_key = minute_key, pe_promise = 0\<rparr>"

lemma queue_keeps_firings_witness:
  "mset [minute_pending 60000] + mset [minute_pending 0] = add_mset (minute_pending 60000) (mset [minute_pending 0])"
  using queue_keeps_firings [of "every_minute\<lparr>jb_overlap := OverlapQueue, jb_queue_depth := 1, jb_overflow := DropOldest\<rparr>"
      "[minute_pending 0]" "minute_pending 60000" "[minute_pending 60000]" "[minute_pending 0]" "''Cron queue dropped its oldest firing.''"]
  by (simp add: enqueue_def)

section \<open>Systems of triggers\<close>

text \<open>\<open>Y\<close> came about by running triggers of one job from the store \<open>st\<close>.\<close>

definition triggered :: "limits \<Rightarrow> (string \<Rightarrow> string) \<Rightarrow> string \<Rightarrow> string \<Rightarrow> store \<Rightarrow> cron_system \<Rightarrow> bool" where
  "triggered l sha inst job st Y \<longleftrightarrow> snapshot_wf l (st_snap st) \<and> system_run l sha inst job (st, [], [], []) Y"

lemma system_run_ok:
  assumes "system_run l sha inst job Y Y'" "system_ok l sha inst job H Ts Y"
  shows "\<exists>H' Ts'. system_ok l sha inst job H' Ts' Y' \<and> not_back (job_key sha inst job) (st_snap (fst Y)) (st_snap (fst Y'))"
  using assms(1)
proof (induction rule: rtranclp_induct)
  case base
  then show ?case using assms(2) by auto
next
  case (step M N)
  then show ?case using system_step_ok [OF step.hyps(2)] by (meson not_back_trans)
qed

lemma empty_ok:
  assumes "snapshot_wf l (st_snap st)"
  shows "\<exists>H. system_ok l sha inst job H [] (st, [], [], [])"
proof -
  let ?k = "job_key sha inst job"
  let ?H = "\<lambda>v. case lookup (st_snap st) ?k of None \<Rightarrow> None | Some r \<Rightarrow> if v = sv_version r then mark (sv_value r) else None"
  have "store_ok l ?k ?H (st_snap st)"
    using assms by (auto simp: store_ok_def snapshot_wf_def versions_ok_def split: option.splits if_splits) metis
  then have "system_ok l sha inst job ?H [] (st, [], [], [])"
    by (simp add: system_ok_def all_instants_def dispatched_def instants_ok_def)
  then show ?thesis by blast
qed

lemma triggered_ok:
  assumes "triggered l sha inst job st Y"
  shows "\<exists>H Ts. system_ok l sha inst job H Ts Y"
  using assms empty_ok [of l st sha inst job] system_run_ok unfolding triggered_def by blast

lemma triggered_instants:
  assumes "triggered l sha inst job st (st', ps, acts, tr)"
  shows "instants_ok (job_key sha inst job) (st_snap st') (dispatched tr)"
proof -
  obtain H Ts where "system_ok l sha inst job H Ts (st', ps, acts, tr)" using triggered_ok [OF assms] by blast
  then have "instants_ok (job_key sha inst job) (st_snap st') (all_instants ps Ts tr)" by (simp add: system_ok_def)
  then show ?thesis by (rule instants_ok_mono) (simp add: all_instants_def)
qed

lemma sample_triggered: "\<exists>s acts. triggered one_limits sample_sha ''a'' ''job'' new_store
    (reserved_store, [Some (sample_cx, s)], acts, [minute_event])"
  using sample_run by (auto simp: triggered_def new_store_def empty_snapshot_wf)

text \<open>C4: No instant of a job is dispatched twice: the events of any number of triggers of the job, over any
  interleaving with crashes, lost answers, failing calls and other users of the store, all fire for different
  instants.\<close>

theorem emitted_once:
  assumes "triggered l sha inst job st (st', ps, acts, tr)"
  shows "distinct (map event_ms tr) \<and> distinct (map event_instant tr)"
proof -
  have "\<forall>x. count (mset (map event_ms tr)) x \<le> 1"
    using triggered_instants [OF assms] by (simp add: instants_ok_def dispatched_def)
  then have "distinct (map event_ms tr)"
    by (metis distinct_count_atmost_1 count_mset_0_iff le_neq_implies_less less_one)
  moreover from this have "distinct (map event_instant tr)"
  proof -
    have "map event_ms tr = map (case_option 0 instant_ms) (map event_instant tr)" by (simp add: event_ms_def)
    then show "distinct (map event_ms tr) \<Longrightarrow> distinct (map event_instant tr)" by (metis distinct_map)
  qed
  ultimately show ?thesis by simp
qed

lemma emitted_once_witness:
  "\<exists>s acts. triggered one_limits sample_sha ''a'' ''job'' new_store (reserved_store, [Some (sample_cx, s)], acts, [minute_event])
     \<and> distinct (map event_ms [minute_event]) \<and> event_instant minute_event = Some (to_iso 60000)"
proof -
  obtain s acts where "triggered one_limits sample_sha ''a'' ''job'' new_store (reserved_store, [Some (sample_cx, s)], acts, [minute_event])"
    using sample_triggered by blast
  with emitted_once [OF this] show ?thesis by (auto simp: minute_event_def)
qed

text \<open>C12: An event is only dispatched for an instant that the stored watermark has reached: the firing is
  durably reserved before its emission and stays reserved.\<close>

theorem reserved_before_emission:
  assumes "triggered l sha inst job st (st', ps, acts, tr)" "e \<in> set tr"
  shows "\<exists>w. stored_watermark (job_key sha inst job) (st_snap st') = Some w \<and> event_ms e \<le> w"
  using triggered_instants [OF assms(1)] assms(2) by (auto simp: instants_ok_def dispatched_def)

lemma reserved_before_emission_witness:
  "\<exists>w. stored_watermark (job_key sample_sha ''a'' ''job'') (st_snap reserved_store) = Some w \<and> 60000 \<le> w"
proof -
  obtain s acts where "triggered one_limits sample_sha ''a'' ''job'' new_store (reserved_store, [Some (sample_cx, s)], acts, [minute_event])"
    using sample_triggered by blast
  from reserved_before_emission [OF this, of minute_event] show ?thesis by (simp add: minute_event_def)
qed

text \<open>C11: The stored watermark of a job never goes back and never disappears, whatever triggers, crashes and
  changes of the schedule come in between.\<close>

theorem watermark_never_back:
  assumes "triggered l sha inst job st Y" "system_run l sha inst job Y Y'"
    "stored_watermark (job_key sha inst job) (st_snap (fst Y)) = Some w"
  shows "\<exists>w'. stored_watermark (job_key sha inst job) (st_snap (fst Y')) = Some w' \<and> w \<le> w'"
proof -
  obtain H Ts where "system_ok l sha inst job H Ts Y" using triggered_ok [OF assms(1)] by blast
  from system_run_ok [OF assms(2) this] show ?thesis using assms(3) by (auto simp: not_back_def)
qed

lemma reserved_watermark: "stored_watermark cron_slot (st_snap reserved_store) = Some 60000"
  using watermark_encoded [OF sample_lines(3)]
  by (simp add: stored_watermark_def reserved_store_def cron_store_def lookup_def one_record_def)

lemma watermark_never_back_witness:
  "\<exists>s acts s'. system_step one_limits sample_sha ''a'' ''job'' (reserved_store, [Some (sample_cx, s)], acts, [minute_event])
       (reserved_store, [None], acts, [minute_event])
     \<and> (\<exists>w'. stored_watermark cron_slot (st_snap (fst (reserved_store, [None :: (cron_cx \<times> sched) option], acts, s'))) = Some w' \<and> 60000 \<le> w')"
proof -
  obtain s acts where t: "triggered one_limits sample_sha ''a'' ''job'' new_store (reserved_store, [Some (sample_cx, s)], acts, [minute_event])"
    using sample_triggered by blast
  have crash: "system_step one_limits sample_sha ''a'' ''job'' (reserved_store, [Some (sample_cx, s)], acts, [minute_event])
      (reserved_store, [None], acts, [minute_event])"
    using sys_crash [of 0 "[Some (sample_cx, s)]"] by simp
  from watermark_never_back [OF t, of "(reserved_store, [None], acts, [minute_event])"] crash reserved_watermark
  show ?thesis by auto
qed

end
