(* ===== verification/HostValues.thy ===== *)
theory HostValues
  imports SessionJson
begin

text \<open>
  The checks the core host makes on values that come from modules and callers: bounded copies
  (\<^verbatim>\<open>snapshotBoundedValue\<close> and \<^verbatim>\<open>ownDataRecord\<close> of \<^verbatim>\<open>core/src/bounded-value.ts\<close>), text
  checks and JSON checks (\<^verbatim>\<open>host-values.ts\<close>), fingerprints (\<^verbatim>\<open>host-admission.ts\<close>), and
  module diagnostics (\<^verbatim>\<open>runtime-result-normalizer.ts\<close>). A copy of a \<open>js\<close> value is the value, so
  a snapshot is the check alone.
\<close>

section \<open>Texts\<close>

text \<open>\<open>trimmed s\<close> is \<^verbatim>\<open>s === s.trim()\<close>. In UTF-8 a white-space character is a byte of
  \<open>js_ws1\<close>, the two bytes of a no-break space, or three bytes of \<open>js_ws3\<close>.\<close>

definition space_end :: "nat list \<Rightarrow> bool" where
  "space_end bs \<longleftrightarrow>
     (1 \<le> length bs \<and> last bs \<in> set js_ws1) \<or> (2 \<le> length bs \<and> drop (length bs - 2) bs = [194, 160])
     \<or> (3 \<le> length bs \<and> drop (length bs - 3) bs \<in> set js_ws3)"

definition space_start :: "nat list \<Rightarrow> bool" where
  "space_start bs \<longleftrightarrow>
     (1 \<le> length bs \<and> hd bs \<in> set js_ws1) \<or> (2 \<le> length bs \<and> take 2 bs = [194, 160])
     \<or> (3 \<le> length bs \<and> take 3 bs \<in> set js_ws3)"

definition trimmed :: "string \<Rightarrow> bool" where
  "trimmed s \<longleftrightarrow> \<not> space_start (map of_char s) \<and> \<not> space_end (map of_char s)"

definition control_char :: "char \<Rightarrow> bool" where
  "control_char c \<longleftrightarrow> code_of c < 32 \<or> code_of c = 127"

definition assert_bounded_text :: "string \<Rightarrow> nat \<Rightarrow> string \<Rightarrow> unit result" where
  "assert_bounded_text name maximum s = require (length s \<le> maximum) (RangeError name)"

definition assert_route_text :: "string \<Rightarrow> nat \<Rightarrow> string \<Rightarrow> unit result" where
  "assert_route_text name maximum s =
     rbind (assert_bounded_text name maximum s) (\<lambda>_.
     require (\<not> (s = [] \<or> \<not> trimmed s \<or> list_ex control_char s)) (TypeError name))"

definition route_text :: "string \<Rightarrow> nat \<Rightarrow> js \<Rightarrow> string result" where
  "route_text name maximum v =
     (case v of
        JStr s \<Rightarrow> rbind (assert_route_text name maximum s) (\<lambda>_. Inr s)
      | _ \<Rightarrow> Inl (TypeError name))"

lemma route_text_Inr [parse_iffs]:
  "route_text name maximum v = Inr s \<longleftrightarrow>
     v = JStr s \<and> s \<noteq> [] \<and> trimmed s \<and> \<not> list_ex control_char s \<and> length s \<le> maximum"
  by (auto simp: route_text_def assert_route_text_def assert_bounded_text_def rbind_Inr_iff split: js.splits)

section \<open>Bounded copies\<close>

text \<open>\<^verbatim>\<open>ownDataRecord\<close> without a list of keys.\<close>

definition plain_record :: "string \<Rightarrow> js \<Rightarrow> (string \<times> js) list result" where
  "plain_record path v =
     (case v of
        JObj fs \<Rightarrow> if list_ex (\<lambda>(k, _). k \<in> set unsafe_keys) fs then Inl (TypeError path) else Inr fs
      | _ \<Rightarrow> Inl (TypeError path))"

text \<open>\<^verbatim>\<open>denseOwnDataArray\<close>.\<close>

definition host_array :: "string \<Rightarrow> nat \<Rightarrow> js \<Rightarrow> js list result" where
  "host_array path maximum v =
     (case v of
        JArr xs \<Rightarrow> if length xs \<le> maximum then Inr xs else Inl (TypeError path)
      | _ \<Rightarrow> Inl (TypeError path))"

record bounds =
  bd_bytes :: nat
  bd_items :: nat
  bd_depth :: nat
  bd_undefined :: bool
  bd_binary :: bool
  bd_root :: bool

text \<open>Counters are \<open>(items, bytes)\<close>.\<close>

definition charge :: "bounds \<Rightarrow> string \<Rightarrow> nat \<Rightarrow> counters \<Rightarrow> counters result" where
  "charge b path n st =
     (if bd_bytes b < snd st + n then Inl (TypeError path) else Inr (fst st, snd st + n))"

definition add_items :: "bounds \<Rightarrow> string \<Rightarrow> nat \<Rightarrow> counters \<Rightarrow> counters result" where
  "add_items b path n st =
     (if bd_items b < fst st + n then Inl (TypeError path) else Inr (fst st + n, snd st))"

type_synonym visit = "string \<Rightarrow> nat \<Rightarrow> counters \<Rightarrow> counters result"

fun visit_items :: "visit list \<Rightarrow> string \<Rightarrow> nat \<Rightarrow> nat \<Rightarrow> counters \<Rightarrow> counters result" where
  "visit_items [] path depth i st = Inr st"
| "visit_items (w # ws) path depth i st =
     rbind (w (path @ ''['' @ nat_text i @ '']'') depth st) (visit_items ws path depth (i + 1))"

fun visit_fields :: "bounds \<Rightarrow> (string \<times> visit) list \<Rightarrow> string \<Rightarrow> nat \<Rightarrow> counters \<Rightarrow> counters result" where
  "visit_fields b [] path depth st = Inr st"
| "visit_fields b (kw # ws) path depth st =
     rbind (charge b path (length (fst kw)) st) (\<lambda>st1.
     rbind ((snd kw) (path @ ''.'' @ fst kw) depth st1) (visit_fields b ws path depth))"

definition at_root :: "bounds \<Rightarrow> string \<Rightarrow> nat \<Rightarrow> counters \<Rightarrow> counters result" where
  "at_root b path depth st = (if depth = 0 \<and> bd_root b then add_items b path 1 st else Inr st)"

definition below_depth :: "bounds \<Rightarrow> string \<Rightarrow> nat \<Rightarrow> unit result" where
  "below_depth b path depth = require (depth < bd_depth b) (TypeError path)"

primrec visit_value :: "bounds \<Rightarrow> js \<Rightarrow> visit" where
  "visit_value b JUndef path depth st =
     rbind (at_root b path depth st) (\<lambda>st1. if bd_undefined b then charge b path 8 st1 else Inl (TypeError path))"
| "visit_value b JNull path depth st = rbind (at_root b path depth st) (charge b path 8)"
| "visit_value b (JBool x) path depth st = rbind (at_root b path depth st) (charge b path 8)"
| "visit_value b (JNum i) path depth st = rbind (at_root b path depth st) (charge b path 16)"
| "visit_value b (JFloat t) path depth st = rbind (at_root b path depth st) (charge b path 16)"
| "visit_value b JNonFinite path depth st = rbind (at_root b path depth st) (\<lambda>_. Inl (TypeError path))"
| "visit_value b (JStr s) path depth st = rbind (at_root b path depth st) (charge b path (length s))"
| "visit_value b (JArr xs) path depth st =
     rbind (at_root b path depth st) (\<lambda>st1.
     rbind (below_depth b path depth) (\<lambda>_.
     rbind (host_array path (bd_items b) (JArr xs)) (\<lambda>_.
     rbind (add_items b path (length xs) st1) (visit_items (map (visit_value b) xs) path (depth + 1) 0))))"
| "visit_value b (JObj fs) path depth st =
     rbind (at_root b path depth st) (\<lambda>st1.
     rbind (below_depth b path depth) (\<lambda>_.
     rbind (plain_record path (JObj fs)) (\<lambda>_.
     rbind (add_items b path (length fs) st1)
       (visit_fields b (map (map_prod id (visit_value b)) fs) path (depth + 1)))))"
| "visit_value b (JBytes d) path depth st =
     rbind (at_root b path depth st) (\<lambda>st1.
     if \<not> bd_binary b then Inl (TypeError path)
     else if bd_bytes b < snd st1 + length d then Inl (RangeError path)
     else charge b path (length d) st1)"
| "visit_value b JExotic path depth st = rbind (at_root b path depth st) (\<lambda>_. Inl (TypeError path))"

definition snapshot_bounded :: "bounds \<Rightarrow> string \<Rightarrow> js \<Rightarrow> js result" where
  "snapshot_bounded b path v = rbind (visit_value b v path 0 (0, 0)) (\<lambda>_. Inr v)"

lemma snapshot_same: "snapshot_bounded b path v = Inr w \<Longrightarrow> w = v"
  by (auto simp: snapshot_bounded_def rbind_Inr_iff)

text \<open>No copy has more bytes or items than its bounds.\<close>

lemma charge_bound: "charge b path n st = Inr st' \<Longrightarrow> snd st' \<le> bd_bytes b \<and> fst st' = fst st"
  by (auto simp: charge_def split: if_splits)

lemma add_items_bound: "add_items b path n st = Inr st' \<Longrightarrow> fst st' \<le> bd_items b \<and> snd st' = snd st"
  by (auto simp: add_items_def split: if_splits)

definition within_bounds :: "bounds \<Rightarrow> counters \<Rightarrow> bool" where
  "within_bounds b st \<longleftrightarrow> fst st \<le> bd_items b \<and> snd st \<le> bd_bytes b"

lemma charge_within: "charge b path n st = Inr st' \<Longrightarrow> within_bounds b st \<Longrightarrow> within_bounds b st'"
  by (auto simp: within_bounds_def dest: charge_bound)

lemma add_items_within: "add_items b path n st = Inr st' \<Longrightarrow> within_bounds b st \<Longrightarrow> within_bounds b st'"
  by (auto simp: within_bounds_def dest: add_items_bound)

lemma at_root_within: "at_root b path depth st = Inr st' \<Longrightarrow> within_bounds b st \<Longrightarrow> within_bounds b st'"
  by (auto simp: at_root_def split: if_splits dest: add_items_within)

definition keeps_bounds :: "bounds \<Rightarrow> visit \<Rightarrow> bool" where
  "keeps_bounds b w \<longleftrightarrow> (\<forall>path depth st st'. w path depth st = Inr st' \<longrightarrow> within_bounds b st \<longrightarrow> within_bounds b st')"

lemma visit_items_within:
  "list_all (keeps_bounds b) ws \<Longrightarrow> visit_items ws path depth i st = Inr st' \<Longrightarrow> within_bounds b st \<Longrightarrow> within_bounds b st'"
  by (induction ws arbitrary: i st) (auto simp: rbind_Inr_iff keeps_bounds_def simp del: split_paired_All)

lemma visit_fields_within:
  "list_all (\<lambda>kw. keeps_bounds b (snd kw)) ws \<Longrightarrow> visit_fields b ws path depth st = Inr st' \<Longrightarrow> within_bounds b st \<Longrightarrow>
   within_bounds b st'"
proof (induction ws arbitrary: st)
  case (Cons kw ws)
  then obtain st1 st2 where s: "charge b path (length (fst kw)) st = Inr st1" "snd kw (path @ ''.'' @ fst kw) depth st1 = Inr st2"
      "visit_fields b ws path depth st2 = Inr st'"
    by (auto simp: rbind_Inr_iff)
  have "within_bounds b st1" using charge_within [OF s(1)] Cons.prems(3) .
  then have "within_bounds b st2" using s(2) Cons.prems(1) unfolding keeps_bounds_def by (simp del: split_paired_All)
  then show ?case using Cons.IH Cons.prems(1) s(3) by simp
qed simp

lemma visit_within: "keeps_bounds b (visit_value b v)"
proof (induction v)
  case (JArr xs)
  have ws: "list_all (keeps_bounds b) (map (visit_value b) xs)" using JArr by (simp add: list_all_iff)
  show ?case unfolding keeps_bounds_def visit_value.simps rbind_Inr_iff
    using visit_items_within [OF ws] by (blast dest: at_root_within add_items_within)
next
  case (JObj fs)
  have ws: "list_all (\<lambda>kw. keeps_bounds b (snd kw)) (map (map_prod id (visit_value b)) fs)"
    using JObj by (fastforce simp: list_all_iff)
  show ?case unfolding keeps_bounds_def visit_value.simps rbind_Inr_iff
    using visit_fields_within [OF ws] by (blast dest: at_root_within add_items_within)
qed (auto simp: keeps_bounds_def rbind_Inr_iff split: if_splits dest: charge_within at_root_within)

section \<open>JSON\<close>

text \<open>\<^verbatim>\<open>isJsonValue\<close> below a depth.\<close>

primrec is_json_value :: "js \<Rightarrow> nat \<Rightarrow> bool" where
  "is_json_value JUndef depth = False"
| "is_json_value JNull depth = True"
| "is_json_value (JBool b) depth = True"
| "is_json_value (JNum i) depth = True"
| "is_json_value (JFloat t) depth = True"
| "is_json_value JNonFinite depth = False"
| "is_json_value (JStr s) depth = True"
| "is_json_value (JArr xs) depth = (depth < 64 \<and> list_all (\<lambda>f. f (depth + 1)) (map is_json_value xs))"
| "is_json_value (JObj fs) depth =
     (depth < 64 \<and> list_all (\<lambda>kf. snd kf (depth + 1)) (map (map_prod id is_json_value) fs))"
| "is_json_value (JBytes b) depth = False"
| "is_json_value JExotic depth = False"

definition is_json_object :: "js \<Rightarrow> bool" where
  "is_json_object v = (case v of JObj fs \<Rightarrow> is_json_value (JObj fs) 0 | _ \<Rightarrow> False)"

section \<open>Fingerprints\<close>

text \<open>\<^verbatim>\<open>durableFingerprint\<close> rebuilds every object with its fields in text order; an object lists the
  fields whose name is an array index first, by their number.\<close>

definition index_name :: "string \<Rightarrow> bool" where
  "index_name k \<longleftrightarrow> k \<noteq> [] \<and> list_all is_digit k \<and> (k = ''0'' \<or> hd k \<noteq> CHR ''0'') \<and> read_int k < 4294967295"

definition listed_fields :: "(string \<times> js) list \<Rightarrow> (string \<times> js) list" where
  "listed_fields fs =
     sort_key (\<lambda>kv. read_int (fst kv)) (filter (\<lambda>kv. index_name (fst kv)) fs)
       @ filter (\<lambda>kv. \<not> index_name (fst kv)) fs"

primrec ordered_value :: "js \<Rightarrow> js" where
  "ordered_value JUndef = JUndef"
| "ordered_value JNull = JNull"
| "ordered_value (JBool b) = JBool b"
| "ordered_value (JNum i) = JNum i"
| "ordered_value (JFloat t) = JFloat t"
| "ordered_value JNonFinite = JNonFinite"
| "ordered_value (JStr s) = JStr s"
| "ordered_value (JArr xs) = JArr (map ordered_value xs)"
| "ordered_value (JObj fs) = JObj (listed_fields (order_fields (map (map_prod id ordered_value) fs)))"
| "ordered_value (JBytes b) = JBytes b"
| "ordered_value JExotic = JExotic"

definition host_fingerprint :: "(string \<Rightarrow> string) \<Rightarrow> js \<Rightarrow> string" where
  "host_fingerprint sha v = ''sha256:'' @ sha (json_text (ordered_value v))"

section \<open>Diagnostics of modules\<close>

definition max_identifier_bytes :: nat where "max_identifier_bytes = 4096"
definition max_diagnostic_message_bytes :: nat where "max_diagnostic_message_bytes = 16 * 1024"
definition max_diagnostic_path_segments :: nat where "max_diagnostic_path_segments = 64"
definition runtime_result_max_items :: nat where "runtime_result_max_items = 20000"
definition runtime_graph_max_depth :: nat where "runtime_graph_max_depth = 64"
definition runtime_model_validation_max_bytes :: nat where "runtime_model_validation_max_bytes = 1024 * 1024"

definition module_text :: "string \<Rightarrow> nat \<Rightarrow> bool \<Rightarrow> js \<Rightarrow> string result" where
  "module_text path maximum allow_empty v =
     (case v of
        JStr s \<Rightarrow>
          rbind (require (allow_empty \<or> s \<noteq> []) (TypeError path)) (\<lambda>_.
          rbind (require (length s \<le> maximum) (TypeError path)) (\<lambda>_. Inr s))
      | _ \<Rightarrow> Inl (TypeError path))"

lemma module_text_Inr [parse_iffs]:
  "module_text path maximum e v = Inr s \<longleftrightarrow> v = JStr s \<and> (e \<or> s \<noteq> []) \<and> length s \<le> maximum"
  by (auto simp: module_text_def rbind_Inr_iff split: js.splits)

datatype severity = SevInfo | SevWarning | SevError

definition severities :: "(string \<times> severity) list" where
  "severities = [(''info'', SevInfo), (''warning'', SevWarning), (''error'', SevError)]"

record diagnostic =
  dg_code :: string
  dg_severity :: severity
  dg_message :: string
  dg_path :: "js list option"
  dg_hint :: "string option"

definition diagnostic_segment :: "string \<Rightarrow> js \<Rightarrow> js result" where
  "diagnostic_segment path v =
     (case v of
        JStr s \<Rightarrow> rbind (module_text path max_identifier_bytes False v) (\<lambda>t. Inr (JStr t))
      | JNum i \<Rightarrow> Inr (JNum i)
      | _ \<Rightarrow> Inl (TypeError path))"

definition diagnostic_value :: "string \<Rightarrow> js \<Rightarrow> diagnostic result" where
  "diagnostic_value path v =
     rbind (own_data_record path [''code'', ''severity'', ''message'', ''path'', ''hint''] v) (\<lambda>input.
     rbind (opt_field (\<lambda>p.
       rbind (host_array (path @ ''.path'') max_diagnostic_path_segments p)
         (imap (\<lambda>i. diagnostic_segment (path @ ''.path['' @ nat_text i @ '']'')) 0)) (fld input ''path'')) (\<lambda>segments.
     rbind (module_text (path @ ''.code'') max_identifier_bytes False (fld input ''code'')) (\<lambda>code.
     rbind (string_enum (path @ ''.severity'') severities (fld input ''severity'')) (\<lambda>severity.
     rbind (module_text (path @ ''.message'') max_diagnostic_message_bytes False (fld input ''message'')) (\<lambda>message.
     rbind (opt_field (module_text (path @ ''.hint'') max_diagnostic_message_bytes True) (fld input ''hint'')) (\<lambda>hint.
     Inr \<lparr>dg_code = code, dg_severity = severity, dg_message = message, dg_path = segments, dg_hint = hint\<rparr>))))))"

definition runtime_bounds :: "nat \<Rightarrow> bounds" where
  "runtime_bounds maximum =
     \<lparr>bd_bytes = maximum, bd_items = runtime_result_max_items, bd_depth = runtime_graph_max_depth,
      bd_undefined = True, bd_binary = True, bd_root = False\<rparr>"

definition normalize_module_diagnostic :: "string \<Rightarrow> js \<Rightarrow> diagnostic result" where
  "normalize_module_diagnostic path v =
     rbind (snapshot_bounded (runtime_bounds runtime_model_validation_max_bytes) path v) (diagnostic_value path)"

end
