(* ===== verification/HostMessage.thy ===== *)
theory HostMessage
  imports HostValues Transcript
begin

text \<open>
  What the core host accepts as a submission and as an outbound channel message
  (\<^verbatim>\<open>core/src/host-submit-input.ts\<close>, \<^verbatim>\<open>host-outbound.ts\<close>), the history text of a message and
  the fingerprint under which its delivery is made durable (\<^verbatim>\<open>host-delivery.ts\<close>). An absent field
  of a submission is \<open>JUndef\<close>. Whether a value is an interaction handler or an abort signal is asked
  of the caller: both are objects with methods, which \<open>js\<close> does not look into.
\<close>

section \<open>Attachments\<close>

definition default_message_bytes :: nat where "default_message_bytes = 1000000"
definition default_max_attachments :: nat where "default_max_attachments = 10"
definition default_attachment_bytes :: nat where "default_attachment_bytes = 25000000"
definition default_total_attachment_bytes :: nat where "default_total_attachment_bytes = 50000000"
definition submit_snapshot_max_items :: nat where "submit_snapshot_max_items = 20000"
definition submit_snapshot_max_bytes :: nat where "submit_snapshot_max_bytes = 16 * 1024 * 1024"
definition submit_snapshot_max_depth :: nat where "submit_snapshot_max_depth = 64"

datatype attachment_kind = KindImage | KindAudio | KindFile

definition attachment_kinds :: "(string \<times> attachment_kind) list" where
  "attachment_kinds = [(''image'', KindImage), (''audio'', KindAudio), (''file'', KindFile)]"

text \<open>The size of an attachment is the length of its data.\<close>

record attachment =
  am_id :: string
  am_kind :: attachment_kind
  am_name :: string
  am_media :: string
  am_data :: string

definition present_text :: "js \<Rightarrow> string option" where
  "present_text v = (case v of JStr s \<Rightarrow> if blank s then None else Some s | _ \<Rightarrow> None)"

definition clone_bytes :: "string \<Rightarrow> nat \<Rightarrow> js \<Rightarrow> string result" where
  "clone_bytes path maximum v =
     (case v of
        JBytes b \<Rightarrow> if maximum < length b then Inl (RangeError path) else Inr b
      | _ \<Rightarrow> Inl (TypeError path))"

text \<open>Once the fields have their types, they are bounded and the data is copied.\<close>

definition bounded_attachment ::
  "string \<Rightarrow> nat \<Rightarrow> js \<Rightarrow> string \<Rightarrow> attachment_kind \<Rightarrow> string \<Rightarrow> string \<Rightarrow> int \<Rightarrow> attachment result" where
  "bounded_attachment path used content ident kind name media declared =
     rbind (require (0 \<le> declared) (TypeError path)) (\<lambda>_.
     rbind (assert_bounded_text (path @ ''.id'') 512 ident) (\<lambda>_.
     rbind (assert_bounded_text (path @ ''.name'') 255 name) (\<lambda>_.
     rbind (assert_bounded_text (path @ ''.mediaType'') 255 media) (\<lambda>_.
     rbind (require (\<not> (has_nul ident \<or> has_nul name \<or> has_nul media)) (TypeError path)) (\<lambda>_.
     rbind (clone_bytes (path @ ''.data'') (min default_attachment_bytes (default_total_attachment_bytes - used)) content) (\<lambda>data.
     rbind (require (declared = int (length data)) (TypeError path)) (\<lambda>_.
     rbind (require (used + length data \<le> default_total_attachment_bytes) (RangeError ''attachments'')) (\<lambda>_.
     Inr \<lparr>am_id = ident, am_kind = kind, am_name = name, am_media = media, am_data = data\<rparr>))))))))"

definition typed_attachment ::
  "string \<Rightarrow> (string \<times> js) list \<Rightarrow> (string \<times> attachment_kind \<times> string \<times> string \<times> int) option" where
  "typed_attachment path fs =
     (case (present_text (fld fs ''id''), present_text (fld fs ''name''), present_text (fld fs ''mediaType''),
            string_enum path attachment_kinds (fld fs ''kind''), fld fs ''sizeBytes'') of
        (Some ident, Some name, Some media, Inr kind, JNum declared) \<Rightarrow> Some (ident, kind, name, media, declared)
      | _ \<Rightarrow> None)"

definition normalize_attachment :: "nat \<Rightarrow> nat \<Rightarrow> js \<Rightarrow> attachment result" where
  "normalize_attachment i used v =
     (let path = ''attachments.'' @ nat_text i in
      rbind (own_data_record path [''id'', ''kind'', ''name'', ''mediaType'', ''sizeBytes'', ''data''] v) (\<lambda>fs.
      case typed_attachment path fs of
        None \<Rightarrow> Inl (TypeError path)
      | Some (ident, kind, name, media, declared) \<Rightarrow>
          bounded_attachment path used (fld fs ''data'') ident kind name media declared))"

fun normalize_attachments :: "nat \<Rightarrow> nat \<Rightarrow> js list \<Rightarrow> attachment list result" where
  "normalize_attachments i used [] = Inr []"
| "normalize_attachments i used (v # vs) =
     rbind (normalize_attachment i used v) (\<lambda>a.
     rbind (normalize_attachments (i + 1) (used + length (am_data a)) vs) (\<lambda>as. Inr (a # as)))"

definition attachments_size :: "attachment list \<Rightarrow> nat" where
  "attachments_size as = sum_list (map (\<lambda>a. length (am_data a)) as)"

text \<open>However many there are, together they stay within the bound.\<close>

lemma normalize_attachment_total:
  "normalize_attachment i used v = Inr a \<Longrightarrow> used + length (am_data a) \<le> default_total_attachment_bytes"
  by (auto simp: normalize_attachment_def Let_def bounded_attachment_def rbind_Inr_iff split: option.splits)

lemma normalize_attachments_total:
  "normalize_attachments i used vs = Inr as \<Longrightarrow> used \<le> default_total_attachment_bytes \<Longrightarrow>
   used + attachments_size as \<le> default_total_attachment_bytes \<and> length as = length vs"
proof (induction vs arbitrary: i used as)
  case (Cons v vs)
  then obtain a bs where a: "normalize_attachment i used v = Inr a" and bs: "as = a # bs"
      "normalize_attachments (i + 1) (used + length (am_data a)) vs = Inr bs"
    by (auto simp: rbind_Inr_iff)
  from Cons.IH [OF bs(2) normalize_attachment_total [OF a]] show ?case by (simp add: bs(1) attachments_size_def)
qed (simp add: attachments_size_def)

section \<open>Submissions\<close>

definition submit_bounds :: bounds where
  "submit_bounds =
     \<lparr>bd_bytes = submit_snapshot_max_bytes, bd_items = submit_snapshot_max_items, bd_depth = submit_snapshot_max_depth,
      bd_undefined = False, bd_binary = True, bd_root = True\<rparr>"

definition submit_string :: "string \<Rightarrow> js \<Rightarrow> string result" where
  "submit_string path v =
     (case v of
        JStr s \<Rightarrow>
          rbind (require (\<not> (blank s \<or> has_nul s)) (TypeError path)) (\<lambda>_.
          rbind (assert_bounded_text path 4096 s) (\<lambda>_. Inr s))
      | _ \<Rightarrow> Inl (TypeError path))"

definition submit_string_list :: "string \<Rightarrow> js \<Rightarrow> string list result" where
  "submit_string_list path v =
     rbind (host_array path submit_snapshot_max_items v)
       (imap (\<lambda>i. submit_string (path @ ''.'' @ nat_text i)) 0)"

definition bounded_submit_integer :: "string \<Rightarrow> int \<Rightarrow> int \<Rightarrow> js \<Rightarrow> int result" where
  "bounded_submit_integer name low high v =
     (case v of
        JNum i \<Rightarrow> if i < low \<or> high < i then Inl (RangeError name) else Inr i
      | _ \<Rightarrow> Inl (RangeError name))"

record submission =
  su_request :: string
  su_conv :: string
  su_text :: string
  su_attachments :: "attachment list"
  su_runtime :: js
  su_model :: js
  su_effort :: js
  su_max_turns :: "int option"
  su_max_output :: "int option"
  su_schema :: "js option"
  su_handler :: js
  su_signal :: js
  su_metadata :: "(string \<times> js) list option"
  su_capabilities :: "string list option"
  su_policy :: "(string list option \<times> string list option) option"

definition submission_keys :: "string list" where
  "submission_keys =
     [''requestId'', ''conversationId'', ''text'', ''attachments'', ''runtime'', ''model'', ''effort'', ''maxTurns'',
      ''maxOutputTokens'', ''responseSchema'', ''interactionHandler'', ''signal'', ''metadata'',
      ''requiredCapabilities'', ''toolPolicy'']"

text \<open>\<^verbatim>\<open>...(input.x === undefined ? {} : { x: input.x })\<close>.\<close>

definition defined :: "string \<Rightarrow> js \<Rightarrow> (string \<times> js) list" where
  "defined k v = (if v = JUndef then [] else [(k, v)])"

definition durable_fields :: "(string \<times> js) list \<Rightarrow> js" where
  "durable_fields fs =
     JObj (concat (map (\<lambda>k. defined k (fld fs k)) [''responseSchema'', ''metadata'', ''requiredCapabilities'', ''toolPolicy'']))"

definition submit_schema :: "js \<Rightarrow> js result" where
  "submit_schema v =
     rbind (require (is_json_object v) (TypeError ''responseSchema'')) (\<lambda>_.
     rbind (require (length (json_text v) \<le> 64 * 1024) (RangeError ''responseSchema'')) (\<lambda>_. Inr v))"

definition submit_policy :: "js \<Rightarrow> (string list option \<times> string list option) result" where
  "submit_policy v =
     rbind (own_data_record ''toolPolicy'' [''allow'', ''deny''] v) (\<lambda>fs.
     rbind (opt_field (submit_string_list ''toolPolicy.allow'') (fld fs ''allow'')) (\<lambda>allow.
     rbind (opt_field (submit_string_list ''toolPolicy.deny'') (fld fs ''deny'')) (\<lambda>deny.
     Inr (allow, deny))))"

definition submit_text :: "js \<Rightarrow> string result" where
  "submit_text v =
     (case v of
        JStr s \<Rightarrow>
          rbind (assert_bounded_text ''text'' default_message_bytes s) (\<lambda>_.
          rbind (require (\<not> has_nul s) (TypeError ''text'')) (\<lambda>_. Inr s))
      | _ \<Rightarrow> Inl (TypeError ''text''))"

text \<open>\<open>uuid\<close> is what \<^verbatim>\<open>randomUUID\<close> returns.\<close>

definition normalize_submit_input :: "(js \<Rightarrow> bool) \<Rightarrow> (js \<Rightarrow> bool) \<Rightarrow> string \<Rightarrow> js \<Rightarrow> submission result" where
  "normalize_submit_input is_handler is_signal uuid v =
     rbind (own_data_record ''submission'' submission_keys v) (\<lambda>fs.
     rbind (route_text ''requestId'' 512
              (if fld fs ''requestId'' \<in> {JUndef, JNull} then JStr uuid else fld fs ''requestId'')) (\<lambda>request.
     rbind (route_text ''conversationId'' 4096 (fld fs ''conversationId'')) (\<lambda>conv.
     rbind (submit_text (fld fs ''text'')) (\<lambda>txt.
     rbind (opt_field (bounded_submit_integer ''maxTurns'' 1 10000) (fld fs ''maxTurns'')) (\<lambda>turns.
     rbind (opt_field (bounded_submit_integer ''maxOutputTokens'' 1 100000000) (fld fs ''maxOutputTokens'')) (\<lambda>tokens.
     rbind (snapshot_bounded submit_bounds ''submission durable fields'' (durable_fields fs)) (\<lambda>_.
     rbind (opt_field submit_schema (fld fs ''responseSchema'')) (\<lambda>schema.
     rbind (opt_field (plain_record ''metadata'') (fld fs ''metadata'')) (\<lambda>metadata.
     rbind (opt_field (submit_string_list ''requiredCapabilities'') (fld fs ''requiredCapabilities'')) (\<lambda>capabilities.
     rbind (opt_field submit_policy (fld fs ''toolPolicy'')) (\<lambda>policy.
     rbind (require (fld fs ''interactionHandler'' = JUndef \<or> is_handler (fld fs ''interactionHandler''))
              (TypeError ''interactionHandler'')) (\<lambda>_.
     rbind (require (fld fs ''signal'' = JUndef \<or> is_signal (fld fs ''signal'')) (TypeError ''signal'')) (\<lambda>_.
     rbind (host_array ''attachments'' default_max_attachments
              (if fld fs ''attachments'' \<in> {JUndef, JNull} then JArr [] else fld fs ''attachments'')) (\<lambda>vs.
     rbind (normalize_attachments 0 0 vs) (\<lambda>attachments.
     Inr \<lparr>su_request = request, su_conv = conv, su_text = txt, su_attachments = attachments,
       su_runtime = fld fs ''runtime'', su_model = fld fs ''model'', su_effort = fld fs ''effort'',
       su_max_turns = turns, su_max_output = tokens, su_schema = schema, su_handler = fld fs ''interactionHandler'',
       su_signal = fld fs ''signal'', su_metadata = metadata, su_capabilities = capabilities, su_policy = policy\<rparr>)))))))))))))))"

section \<open>Outbound messages\<close>

record outbound =
  om_conv :: string
  om_text :: string
  om_attachments :: "attachment list"
  om_reply :: "string option"
  om_key :: string
  om_metadata :: "js option"

definition outbound_bounds :: bounds where
  "outbound_bounds =
     \<lparr>bd_bytes = submit_snapshot_max_bytes, bd_items = submit_snapshot_max_items, bd_depth = submit_snapshot_max_depth,
      bd_undefined = False, bd_binary = False, bd_root = True\<rparr>"

definition outbound_metadata :: "js \<Rightarrow> js result" where
  "outbound_metadata v =
     rbind (snapshot_bounded outbound_bounds ''outbound message metadata'' v) (\<lambda>m.
     rbind (require (is_json_object m) (TypeError ''outbound message metadata'')) (\<lambda>_. Inr m))"

text \<open>\<open>fallback\<close> is what the channel's resolver answers, \<open>JUndef\<close> when it has none.\<close>

definition normalize_outbound_message :: "js result \<Rightarrow> js \<Rightarrow> outbound result" where
  "normalize_outbound_message fallback v =
     rbind (own_data_record ''outbound message''
              [''conversationId'', ''text'', ''attachments'', ''replyToMessageId'', ''idempotencyKey'', ''metadata''] v) (\<lambda>fs.
     rbind (route_text ''idempotencyKey'' 512 (fld fs ''idempotencyKey'')) (\<lambda>key.
     let blank_conv = (fld fs ''conversationId'' = JStr []) in
     rbind (if blank_conv then fallback else Inr (fld fs ''conversationId'')) (\<lambda>conv.
     rbind (require (\<not> (blank_conv \<and> conv = JUndef)) (TypeError ''conversationId'')) (\<lambda>_.
     rbind (normalize_submit_input (\<lambda>_. False) (\<lambda>_. False) []
              (JObj (req ''requestId'' (JStr key) @ req ''conversationId'' conv @ req ''text'' (fld fs ''text'')
                 @ defined ''attachments'' (fld fs ''attachments'')))) (\<lambda>su.
     rbind (opt_field (route_text ''replyToMessageId'' 4096) (fld fs ''replyToMessageId'')) (\<lambda>reply.
     rbind (opt_field outbound_metadata (fld fs ''metadata'')) (\<lambda>metadata.
     Inr \<lparr>om_conv = su_conv su, om_text = su_text su, om_attachments = su_attachments su, om_reply = reply,
       om_key = key, om_metadata = metadata\<rparr>)))))))"

definition delivery_trigger_kind :: "(string \<times> js) list option \<Rightarrow> (string \<times> js) list" where
  "delivery_trigger_kind metadata =
     (let kind = (case metadata of None \<Rightarrow> JUndef | Some fs \<Rightarrow> fld fs ''triggerKind'') in
      if kind = JStr ''cron'' \<or> kind = JStr ''webhook'' then [(''triggerKind'', kind)] else [])"

definition normalize_completion_delivery :: "js \<Rightarrow> (string \<times> string option) option result" where
  "normalize_completion_delivery v =
     (if v = JUndef then Inr None
      else
        rbind (own_data_record ''channel completion delivery'' [''channel'', ''destination''] v) (\<lambda>fs.
        rbind (route_text ''channel completion delivery channel'' 512 (fld fs ''channel'')) (\<lambda>channel.
        rbind (opt_field (route_text ''channel completion delivery destination'' 4096) (fld fs ''destination'')) (\<lambda>destination.
        Inr (Some (channel, destination))))))"

section \<open>The identity of a delivery\<close>

fun join_lines :: "string list \<Rightarrow> string" where
  "join_lines [] = []"
| "join_lines [t] = t"
| "join_lines (t # ts) = t @ [CHR 0x0A] @ join_lines ts"

definition delivery_history_text :: "outbound \<Rightarrow> string" where
  "delivery_history_text m =
     join_lines (filter (\<lambda>part. part \<noteq> [])
       (om_text m # map (\<lambda>a. ''[sent attachment: '' @ am_name a @ '']'') (om_attachments m)))"

definition attachment_identity :: "(string \<Rightarrow> string) \<Rightarrow> attachment \<Rightarrow> js" where
  "attachment_identity sha a =
     JObj (req ''id'' (JStr (am_id a)) @ req ''kind'' (JStr (enum_text attachment_kinds (am_kind a)))
       @ req ''name'' (JStr (am_name a)) @ req ''mediaType'' (JStr (am_media a))
       @ req ''sizeBytes'' (JNum (int (length (am_data a)))) @ req ''sha256'' (JStr (''sha256:'' @ sha (am_data a))))"

definition or_null :: "('a \<Rightarrow> js) \<Rightarrow> 'a option \<Rightarrow> js" where
  "or_null f x = (case x of None \<Rightarrow> JNull | Some y \<Rightarrow> f y)"

definition delivery_fingerprint :: "(string \<Rightarrow> string) \<Rightarrow> string \<Rightarrow> outbound \<Rightarrow> string" where
  "delivery_fingerprint sha channel m =
     host_fingerprint sha
       (JObj (req ''schemaVersion'' (JNum 1) @ req ''kind'' (JStr ''mono-agent.delivery-fingerprint'')
          @ req ''channelInstanceId'' (JStr channel) @ req ''conversationId'' (JStr (om_conv m))
          @ req ''text'' (JStr (om_text m)) @ req ''attachments'' (JArr (map (attachment_identity sha) (om_attachments m)))
          @ req ''replyToMessageId'' (or_null JStr (om_reply m)) @ req ''metadata'' (or_null id (om_metadata m))))"

lemma delivery_fingerprint_ok: "(\<And>t. hex64 (sha t)) \<Longrightarrow> fingerprint_ok (delivery_fingerprint sha channel m)"
  by (simp add: delivery_fingerprint_def host_fingerprint_def fingerprint_ok_def)

lemma outbound_key: "normalize_outbound_message fallback v = Inr m \<Longrightarrow> om_key m \<noteq> [] \<and> trimmed (om_key m) \<and> length (om_key m) \<le> 512"
  by (auto simp: normalize_outbound_message_def rbind_Inr_iff Let_def parse_iffs)

text \<open>An accepted message carries at most ten attachments of fifty million bytes together.\<close>

lemma host_array_length: "host_array path n v = Inr xs \<Longrightarrow> length xs \<le> n"
  by (auto simp: host_array_def split: js.splits if_splits)

lemma submit_attachments:
  assumes "normalize_submit_input h g u v = Inr su"
  shows "length (su_attachments su) \<le> default_max_attachments \<and> attachments_size (su_attachments su) \<le> default_total_attachment_bytes"
proof -
  obtain w vs where vs: "host_array ''attachments'' default_max_attachments w = Inr vs" and a: "normalize_attachments 0 0 vs = Inr (su_attachments su)"
    using assms unfolding normalize_submit_input_def
    by (elim rbind_InrE) (simp only: sum.inject, hypsubst, simp only: submission.simps)
  show ?thesis using host_array_length [OF vs] normalize_attachments_total [OF a] by simp
qed

lemma outbound_attachments:
  "normalize_outbound_message fallback v = Inr m \<Longrightarrow>
   length (om_attachments m) \<le> default_max_attachments \<and> attachments_size (om_attachments m) \<le> default_total_attachment_bytes"
  by (auto simp: normalize_outbound_message_def rbind_Inr_iff Let_def dest!: submit_attachments)

end
