(* ===== verification/HostDelivery.thy ===== *)
theory HostDelivery
  imports HostMessage Journal
begin

text \<open>
  Delivering a message through a channel (\<^verbatim>\<open>HostDelivery\<close> of \<^verbatim>\<open>core/src/host-delivery.ts\<close>) over
  the journal, reached through the delivery methods of \<^verbatim>\<open>StateExecutionClient\<close>
  (\<^verbatim>\<open>state-execution-client.ts\<close>). A delivery is a program that asks: the journal for a permission or
  a settlement, the channel to send and to name the destination, the host for a conversation, a local
  append, or whether its signal is aborted. The channel and the host's own caches answer as they like.

  A channel answers with its status as a text, as its interface says. The code reads the status through
  \<^verbatim>\<open>String\<close>, so that an array holding one of the words would pass too; here it is refused.
\<close>

section \<open>Results of a channel\<close>

datatype channel_status = ChannelDelivered | ChannelDuplicate | ChannelUnknown | ChannelFailed

definition channel_statuses :: "(string \<times> channel_status) list" where
  "channel_statuses =
     [(''delivered'', ChannelDelivered), (''duplicate'', ChannelDuplicate), (''unknown'', ChannelUnknown),
      (''failed'', ChannelFailed)]"

record channel_result =
  cr_status :: channel_status
  cr_key :: string
  cr_message :: "string option"
  cr_diagnostic :: "diagnostic option"

record channel_outcome =
  co_result :: channel_result
  co_destination :: "string option"

definition key_mismatch :: js_error where
  "key_mismatch = TypeError ''channel delivery result idempotency key is invalid''"

definition host_bounded_text :: "string \<Rightarrow> nat \<Rightarrow> js \<Rightarrow> string result" where
  "host_bounded_text name maximum v = bounded_text name maximum False v"

definition result_message :: "channel_status \<Rightarrow> js \<Rightarrow> string result" where
  "result_message status v =
     rbind (require (status = ChannelDelivered \<or> status = ChannelDuplicate) (TypeError ''channel delivery result messageId''))
       (\<lambda>_. host_bounded_text ''channel delivery result messageId'' 512 v)"

definition normalize_result :: "string \<Rightarrow> js \<Rightarrow> channel_result result" where
  "normalize_result key v =
     rbind (own_data_record ''channel delivery result'' [''status'', ''idempotencyKey'', ''messageId'', ''diagnostic''] v) (\<lambda>fs.
     rbind (string_enum ''channel delivery result status'' channel_statuses (fld fs ''status'')) (\<lambda>status.
     rbind (require (fld fs ''idempotencyKey'' = JStr key) key_mismatch) (\<lambda>_.
     rbind (opt_field (result_message status) (fld fs ''messageId'')) (\<lambda>message.
     rbind (opt_field (normalize_module_diagnostic ''channel delivery result diagnostic'') (fld fs ''diagnostic'')) (\<lambda>diagnostic.
     Inr \<lparr>cr_status = status, cr_key = key, cr_message = message, cr_diagnostic = diagnostic\<rparr>)))))"

lemma normalize_result_key: "normalize_result key v = Inr r \<Longrightarrow> cr_key r = key"
  by (auto simp: normalize_result_def rbind_Inr_iff)

text \<open>The outcomes the host makes up itself.\<close>

definition host_outcome :: "channel_status \<Rightarrow> string \<Rightarrow> string \<Rightarrow> string \<Rightarrow> channel_outcome" where
  "host_outcome status key code message =
     \<lparr>co_result = \<lparr>cr_status = status, cr_key = key, cr_message = None,
        cr_diagnostic = Some \<lparr>dg_code = code, dg_severity = SevError, dg_message = message, dg_path = None, dg_hint = None\<rparr>\<rparr>,
      co_destination = None\<rparr>"

section \<open>Programs that ask\<close>

datatype 'a hprog =
    HReturn 'a
  | HThrow js_error
  | AskJournal journal_call "journal_answer result \<Rightarrow> 'a hprog"
  | AskChannel outbound "js result \<Rightarrow> 'a hprog"
  | AskHistory outbound channel_result "js result \<Rightarrow> 'a hprog"
  | AskConversation string "js list option result \<Rightarrow> 'a hprog"
  | AskAppend string js "unit result \<Rightarrow> 'a hprog"
  | AskAborted "bool \<Rightarrow> 'a hprog"

primrec hbind :: "'a hprog \<Rightarrow> ('a \<Rightarrow> 'b hprog) \<Rightarrow> 'b hprog" where
  "hbind (HReturn x) k = k x"
| "hbind (HThrow e) k = HThrow e"
| "hbind (AskJournal c f) k = AskJournal c (\<lambda>r. hbind (f r) k)"
| "hbind (AskChannel m f) k = AskChannel m (\<lambda>r. hbind (f r) k)"
| "hbind (AskHistory m x f) k = AskHistory m x (\<lambda>r. hbind (f r) k)"
| "hbind (AskConversation conv f) k = AskConversation conv (\<lambda>r. hbind (f r) k)"
| "hbind (AskAppend conv e f) k = AskAppend conv e (\<lambda>r. hbind (f r) k)"
| "hbind (AskAborted f) k = AskAborted (\<lambda>r. hbind (f r) k)"

primrec hcatch :: "'a hprog \<Rightarrow> (js_error \<Rightarrow> 'a hprog) \<Rightarrow> 'a hprog" where
  "hcatch (HReturn x) h = HReturn x"
| "hcatch (HThrow e) h = h e"
| "hcatch (AskJournal c f) h = AskJournal c (\<lambda>r. hcatch (f r) h)"
| "hcatch (AskChannel m f) h = AskChannel m (\<lambda>r. hcatch (f r) h)"
| "hcatch (AskHistory m x f) h = AskHistory m x (\<lambda>r. hcatch (f r) h)"
| "hcatch (AskConversation conv f) h = AskConversation conv (\<lambda>r. hcatch (f r) h)"
| "hcatch (AskAppend conv e f) h = AskAppend conv e (\<lambda>r. hcatch (f r) h)"
| "hcatch (AskAborted f) h = AskAborted (\<lambda>r. hcatch (f r) h)"

fun hlift :: "'a result \<Rightarrow> 'a hprog" where
  "hlift (Inl e) = HThrow e"
| "hlift (Inr x) = HReturn x"

section \<open>The delivery methods of the state client\<close>

definition output_bounds :: bounds where
  "output_bounds =
     \<lparr>bd_bytes = 96 * 1024 * 1024, bd_items = 250000, bd_depth = 64, bd_undefined = False, bd_binary = True, bd_root = True\<rparr>"

definition malformed :: "string \<Rightarrow> js_error" where
  "malformed label = TypeError (''state execution returned malformed '' @ label)"

definition client_call :: "string \<Rightarrow> js \<Rightarrow> js result" where
  "client_call operation v =
     (if v = JUndef then Inr JUndef
      else case snapshot_bounded output_bounds (''state execution '' @ operation) v of
             Inl _ \<Rightarrow> Inl (malformed operation)
           | Inr w \<Rightarrow> Inr w)"

definition client_object :: "string \<Rightarrow> js \<Rightarrow> (string \<times> js) list result" where
  "client_object label v = (case plain_record label v of Inl _ \<Rightarrow> Inl (malformed label) | Inr fs \<Rightarrow> Inr fs)"

definition client_keys :: "string list \<Rightarrow> string \<Rightarrow> (string \<times> js) list \<Rightarrow> unit result" where
  "client_keys allowed label fs = require (list_all (\<lambda>(k, _). k \<in> set allowed) fs) (malformed label)"

definition client_text :: "string \<Rightarrow> nat \<Rightarrow> js \<Rightarrow> string result" where
  "client_text label maximum v =
     (case v of
        JStr s \<Rightarrow> if s = [] \<or> has_nul s \<or> maximum < length s then Inl (malformed label) else Inr s
      | _ \<Rightarrow> Inl (malformed label))"

definition client_integer :: "string \<Rightarrow> int \<Rightarrow> js \<Rightarrow> nat result" where
  "client_integer label low v =
     (case v of
        JNum i \<Rightarrow> if i < low \<or> max_safe_integer < i then Inl (malformed label) else Inr (nat i)
      | _ \<Rightarrow> Inl (malformed label))"

definition client_delivery :: "js \<Rightarrow> delivery_answer result" where
  "client_delivery v =
     rbind (client_object ''delivery'' v) (\<lambda>fs.
     if fld fs ''status'' = JStr ''send'' then
       rbind (client_keys [''status'', ''attempt'', ''token''] ''delivery'' fs) (\<lambda>_.
       rbind (client_integer ''delivery attempt'' 1 (fld fs ''attempt'')) (\<lambda>n.
       rbind (client_text ''delivery token'' 512 (fld fs ''token'')) (\<lambda>t. Inr (DeliverySend n t))))
     else if fld fs ''status'' = JStr ''duplicate'' then
       rbind (client_keys [''status'', ''messageId''] ''delivery'' fs) (\<lambda>_.
       rbind (opt_field (client_text ''delivery messageId'' 512) (fld fs ''messageId'')) (\<lambda>m. Inr (DeliveryDuplicate m)))
     else if fld fs ''status'' = JStr ''unknown'' then
       rbind (client_keys [''status'', ''code''] ''delivery'' fs) (\<lambda>_.
       rbind (opt_field (client_text ''delivery code'' 512) (fld fs ''code'')) (\<lambda>c. Inr (DeliveryUnknown c)))
     else if fld fs ''status'' = JStr ''join'' then
       rbind (client_keys [''status''] ''delivery'' fs) (\<lambda>_. Inr DeliveryJoin)
     else if fld fs ''status'' = JStr ''conflict'' then
       rbind (client_keys [''status''] ''delivery'' fs) (\<lambda>_. Inr DeliveryConflict)
     else Inl (malformed ''delivery''))"

definition client_with_history :: "js \<Rightarrow> history_answer result" where
  "client_with_history v =
     rbind (client_object ''delivery with history'' v) (\<lambda>fs.
     let status = fld fs ''status''; keys = [''status'', ''conversationId'', ''entryId''];
         counted = [''revision'', ''entryCount'', ''messageId'']
     in
     rbind (require (status \<in> {JStr ''appended'', JStr ''duplicate'', JStr ''conflict''})
              (malformed ''delivery with history status'')) (\<lambda>_.
     rbind (client_keys (if status = JStr ''conflict'' then keys else keys @ counted) ''delivery with history'' fs) (\<lambda>_.
     rbind (client_text ''delivery with history conversationId'' 4096 (fld fs ''conversationId'')) (\<lambda>conv.
     rbind (client_text ''delivery with history entryId'' 512 (fld fs ''entryId'')) (\<lambda>entry.
     if status = JStr ''conflict'' then Inr (HistoryConflict conv entry)
     else
       rbind (client_integer ''delivery history revision'' 1 (fld fs ''revision'')) (\<lambda>revision.
       rbind (client_integer ''delivery history entryCount'' 1 (fld fs ''entryCount'')) (\<lambda>count.
       rbind (opt_field (client_text ''delivery history messageId'' 512) (fld fs ''messageId'')) (\<lambda>message.
       Inr ((if status = JStr ''appended'' then HistoryAppended else HistoryDuplicate) conv entry revision count message)))))))))"

text \<open>The object literals the journal answers with.\<close>

fun delivery_js :: "delivery_answer \<Rightarrow> js" where
  "delivery_js (DeliverySend n t) =
     JObj (req ''status'' (JStr ''send'') @ req ''attempt'' (JNum (int n)) @ req ''token'' (JStr t))"
| "delivery_js DeliveryJoin = JObj (req ''status'' (JStr ''join''))"
| "delivery_js (DeliveryDuplicate m) = JObj (req ''status'' (JStr ''duplicate'') @ opt ''messageId'' JStr m)"
| "delivery_js (DeliveryUnknown c) = JObj (req ''status'' (JStr ''unknown'') @ opt ''code'' JStr c)"
| "delivery_js DeliveryConflict = JObj (req ''status'' (JStr ''conflict''))"

definition counted_js :: "string \<Rightarrow> string \<Rightarrow> string \<Rightarrow> nat \<Rightarrow> nat \<Rightarrow> string option \<Rightarrow> js" where
  "counted_js status conv entry revision count message =
     JObj (req ''status'' (JStr status) @ req ''conversationId'' (JStr conv) @ req ''entryId'' (JStr entry)
       @ req ''revision'' (JNum (int revision)) @ req ''entryCount'' (JNum (int count)) @ opt ''messageId'' JStr message)"

fun history_js :: "history_answer \<Rightarrow> js" where
  "history_js (HistoryAppended conv entry revision count message) = counted_js ''appended'' conv entry revision count message"
| "history_js (HistoryDuplicate conv entry revision count message) = counted_js ''duplicate'' conv entry revision count message"
| "history_js (HistoryConflict conv entry) =
     JObj (req ''status'' (JStr ''conflict'') @ req ''conversationId'' (JStr conv) @ req ''entryId'' (JStr entry))"

fun answer_js :: "journal_answer \<Rightarrow> js" where
  "answer_js (DeliveryAnswer a) = delivery_js a"
| "answer_js (HistoryAnswer a) = history_js a"
| "answer_js _ = JUndef"

definition ask_client :: "journal_call \<Rightarrow> string \<Rightarrow> (js \<Rightarrow> 'a result) \<Rightarrow> 'a hprog" where
  "ask_client c operation parse =
     AskJournal c (\<lambda>r. hlift (rbind r (\<lambda>a. rbind (client_call operation (answer_js a)) parse)))"

definition client_prepare :: "delivery_input \<Rightarrow> delivery_answer hprog" where
  "client_prepare i = ask_client (PrepareDelivery i) ''delivery.prepare'' client_delivery"

definition client_settle :: "settlement_input \<Rightarrow> delivery_answer hprog" where
  "client_settle i = ask_client (SettleDelivery i) ''delivery.settle'' client_delivery"

definition client_settle_history :: "history_input \<Rightarrow> history_answer hprog" where
  "client_settle_history i = ask_client (SettleDeliveryWithHistory i) ''delivery.settle-with-history'' client_with_history"

definition retry_delivery_with_history :: "history_input \<Rightarrow> history_answer hprog" where
  "retry_delivery_with_history i = hcatch (client_settle_history i) (\<lambda>_. client_settle_history i)"

section \<open>One delivery\<close>

text \<open>Whether the host has a durable execution, the digest, and the text a diagnostic gives an error.\<close>

record delivery_cx =
  dx_durable :: bool
  dx_sha :: "string \<Rightarrow> string"
  dx_redact :: "js_error \<Rightarrow> string"

definition settle_intent ::
  "delivery_answer option \<Rightarrow> string \<Rightarrow> outbound \<Rightarrow> settlement \<Rightarrow> string \<Rightarrow> delivery_answer option hprog" where
  "settle_intent intent fingerprint m status code =
     (case intent of
        Some (DeliverySend n token) \<Rightarrow>
          hbind (client_settle \<lparr>si_key = JStr (om_key m), si_fingerprint = JStr fingerprint, si_attempt = JNum (int n),
                   si_token = JStr token, si_status = status, si_message = JUndef, si_code = JStr code\<rparr>)
            (\<lambda>a. HReturn (Some a))
      | _ \<Rightarrow> HReturn None)"

definition settle_best_effort ::
  "delivery_answer option \<Rightarrow> string \<Rightarrow> outbound \<Rightarrow> settlement \<Rightarrow> string \<Rightarrow> delivery_answer option hprog" where
  "settle_best_effort intent fingerprint m status code =
     hcatch (settle_intent intent fingerprint m status code) (\<lambda>_. HReturn None)"

definition history_destination :: "string \<Rightarrow> js \<Rightarrow> string result" where
  "history_destination label v =
     rbind (own_data_record label [''conversationId''] v) (\<lambda>fs.
     host_bounded_text (label @ '' conversationId'') 4096 (fld fs ''conversationId''))"

definition delivery_entry_id :: "(string \<Rightarrow> string) \<Rightarrow> string \<Rightarrow> outbound \<Rightarrow> string" where
  "delivery_entry_id sha channel m = ''delivery:'' @ sha (channel @ [CHR 0x00] @ om_key m)"

definition delivery_entry :: "(string \<Rightarrow> string) \<Rightarrow> string \<Rightarrow> outbound \<Rightarrow> string \<Rightarrow> js" where
  "delivery_entry sha channel m destination =
     JObj (req ''kind'' (JStr ''verbatim'') @ req ''entryId'' (JStr (delivery_entry_id sha channel m))
       @ req ''runId'' (JStr (om_key m)) @ req ''requestId'' (JStr (om_key m)) @ req ''conversationId'' (JStr destination)
       @ req ''role'' (JStr ''assistant'') @ req ''text'' (JStr (delivery_history_text m)))"

definition delivery_entry_fingerprint ::
  "(string \<Rightarrow> string) \<Rightarrow> string \<Rightarrow> outbound \<Rightarrow> string \<Rightarrow> channel_result \<Rightarrow> string \<Rightarrow> string" where
  "delivery_entry_fingerprint sha channel m fingerprint r destination =
     host_fingerprint sha
       (JObj (req ''schemaVersion'' (JNum 1) @ req ''kind'' (JStr ''mono-agent.delivery-history-fingerprint'')
          @ req ''channelInstanceId'' (JStr channel) @ req ''deliveryFingerprint'' (JStr fingerprint)
          @ req ''messageId'' (or_null JStr (cr_message r)) @ req ''destination'' (JStr destination)
          @ req ''entry'' (delivery_entry sha channel m destination)))"

text \<open>\<^verbatim>\<open>JSON.stringify({ ...stored, recordedAt: undefined }) === JSON.stringify(entry)\<close>.\<close>

definition same_entry :: "js option \<Rightarrow> js \<Rightarrow> bool" where
  "same_entry found entry =
     (case found of
        Some (JObj fs) \<Rightarrow> json_text (JObj (filter (\<lambda>(k, _). k \<noteq> ''recordedAt'') fs)) = json_text entry
      | _ \<Rightarrow> False)"

definition find_entry :: "string \<Rightarrow> js list \<Rightarrow> js option" where
  "find_entry ident es = find (\<lambda>e. case e of JObj fs \<Rightarrow> fld fs ''entryId'' = JStr ident | _ \<Rightarrow> False) es"

definition history_identity_conflict :: js_error where
  "history_identity_conflict = PlainError ''channel delivery history identity conflict''"

definition append_local :: "js \<Rightarrow> string \<Rightarrow> js list option \<Rightarrow> js list result" where
  "append_local entry recorded current =
     (let entries = (case current of None \<Rightarrow> [] | Some es \<Rightarrow> es);
          ident = (case entry of JObj fs \<Rightarrow> (case fld fs ''entryId'' of JStr t \<Rightarrow> t | _ \<Rightarrow> []) | _ \<Rightarrow> []);
          prior = find_entry ident entries
      in
      if prior \<noteq> None \<and> \<not> same_entry prior entry then Inl history_identity_conflict
      else if prior \<noteq> None then Inr entries
      else Inr (entries @ [JObj ((case entry of JObj fs \<Rightarrow> fs | _ \<Rightarrow> []) @ req ''recordedAt'' (JStr recorded))]))"

definition history_names :: "string \<Rightarrow> string \<Rightarrow> history_answer \<Rightarrow> bool" where
  "history_names conv entry a =
     (case a of
        HistoryAppended c e _ _ _ \<Rightarrow> c = conv \<and> e = entry
      | HistoryDuplicate c e _ _ _ \<Rightarrow> c = conv \<and> e = entry
      | HistoryConflict _ _ \<Rightarrow> False)"

definition settle_with_history ::
  "delivery_cx \<Rightarrow> string \<Rightarrow> outbound \<Rightarrow> string \<Rightarrow> channel_result \<Rightarrow> delivery_answer option \<Rightarrow> string \<Rightarrow> unit hprog" where
  "settle_with_history cx channel m fingerprint r intent destination =
     (case intent of
        Some (DeliverySend n token) \<Rightarrow>
          hbind (retry_delivery_with_history
                   \<lparr>hi_key = JStr (om_key m), hi_fingerprint = JStr fingerprint, hi_attempt = JNum (int n), hi_token = JStr token,
                    hi_message = (case cr_message r of None \<Rightarrow> JUndef | Some t \<Rightarrow> JStr t), hi_conv = JStr destination,
                    hi_entry = delivery_entry (dx_sha cx) channel m destination,
                    hi_entry_fingerprint = JStr (delivery_entry_fingerprint (dx_sha cx) channel m fingerprint r destination)\<rparr>)
            (\<lambda>a. if history_names destination (delivery_entry_id (dx_sha cx) channel m) a then HReturn ()
                 else HThrow history_identity_conflict)
      | _ \<Rightarrow> HReturn ())"

definition record_history ::
  "delivery_cx \<Rightarrow> string \<Rightarrow> outbound \<Rightarrow> string \<Rightarrow> channel_result \<Rightarrow> delivery_answer option \<Rightarrow> channel_outcome hprog" where
  "record_history cx channel m fingerprint r intent =
     AskHistory m r (\<lambda>v.
     hbind (hlift (rbind v (history_destination (channel @ '' delivery history resolution'')))) (\<lambda>destination.
     let entry = delivery_entry (dx_sha cx) channel m destination in
     hbind
       (if \<not> dx_durable cx then AskAppend destination entry hlift
        else
          hbind (settle_with_history cx channel m fingerprint r intent destination) (\<lambda>_.
          AskConversation destination (\<lambda>loaded.
          hbind (hlift loaded) (\<lambda>found.
          if same_entry (case found of None \<Rightarrow> None | Some es \<Rightarrow> find_entry (delivery_entry_id (dx_sha cx) channel m) es) entry
          then HReturn () else HThrow history_identity_conflict))))
       (\<lambda>_. HReturn \<lparr>co_result = r, co_destination = Some destination\<rparr>)))"

definition confirm_delivery ::
  "delivery_cx \<Rightarrow> string \<Rightarrow> outbound \<Rightarrow> string \<Rightarrow> channel_result \<Rightarrow> delivery_answer option \<Rightarrow> channel_outcome hprog" where
  "confirm_delivery cx channel m fingerprint r intent =
     hcatch (record_history cx channel m fingerprint r intent) (\<lambda>e.
     hbind (settle_best_effort intent fingerprint m AsUnknown ''channel-delivery-history-unknown'') (\<lambda>_.
     HReturn (host_outcome ChannelUnknown (om_key m) ''channel_delivery_history_unknown''
       (''The delivery destination history could not be confirmed: '' @ dx_redact cx e))))"

definition settled_code :: "channel_result \<Rightarrow> string" where
  "settled_code r =
     (case cr_diagnostic r of
        Some d \<Rightarrow> dg_code d
      | None \<Rightarrow> ''channel-delivery-'' @ enum_text channel_statuses (cr_status r))"

definition is_unknown_answer :: "delivery_answer option \<Rightarrow> bool" where
  "is_unknown_answer a = (case a of Some (DeliveryUnknown _) \<Rightarrow> True | _ \<Rightarrow> False)"

text \<open>The channel said that it failed, or that it does not know.\<close>

definition settle_refusal ::
  "delivery_cx \<Rightarrow> outbound \<Rightarrow> string \<Rightarrow> channel_result \<Rightarrow> delivery_answer option \<Rightarrow> channel_outcome hprog" where
  "settle_refusal cx m fingerprint r intent =
     hcatch
       (hbind (settle_intent intent fingerprint m (if cr_status r = ChannelFailed then AsFailed else AsUnknown) (settled_code r)) (\<lambda>a.
        if (if cr_status r = ChannelFailed then a = Some DeliveryJoin else is_unknown_answer a)
        then HReturn \<lparr>co_result = r, co_destination = None\<rparr>
        else HThrow (PlainError ''delivery settlement returned'')))
       (\<lambda>e. HReturn (host_outcome ChannelUnknown (om_key m) ''channel_delivery_settlement_unknown''
              (''The channel response could not be durably settled: '' @ dx_redact cx e)))"

definition is_send_answer :: "delivery_answer option \<Rightarrow> bool" where
  "is_send_answer intent = (case intent of Some (DeliverySend _ _) \<Rightarrow> True | _ \<Rightarrow> False)"

definition after_channel ::
  "delivery_cx \<Rightarrow> string \<Rightarrow> outbound \<Rightarrow> string \<Rightarrow> delivery_answer option \<Rightarrow> js result \<Rightarrow> channel_outcome hprog" where
  "after_channel cx channel m fingerprint intent raw =
     (case raw of
        Inl e \<Rightarrow>
          hbind (settle_best_effort intent fingerprint m AsUnknown ''channel-delivery-threw'') (\<lambda>_.
          HReturn (host_outcome ChannelUnknown (om_key m) ''channel_delivery_unknown''
            (''The channel delivery outcome is unknown: '' @ dx_redact cx e)))
      | Inr v \<Rightarrow>
          (case normalize_result (om_key m) v of
             Inl e \<Rightarrow>
               hbind (settle_best_effort intent fingerprint m AsUnknown
                        (if e = key_mismatch then ''channel-delivery-idempotency-mismatch'' else ''channel-delivery-malformed-result'')) (\<lambda>_.
               HReturn (host_outcome ChannelUnknown (om_key m)
                 (if e = key_mismatch then ''channel_delivery_idempotency_mismatch'' else ''channel_delivery_unknown'')
                 (''The channel delivery outcome is unknown: '' @ dx_redact cx e)))
           | Inr r \<Rightarrow>
               if cr_status r = ChannelDelivered \<or> cr_status r = ChannelDuplicate
               then confirm_delivery cx channel m fingerprint r intent
               else if \<not> is_send_answer intent then HReturn \<lparr>co_result = r, co_destination = None\<rparr>
               else settle_refusal cx m fingerprint r intent))"

definition send_message ::
  "delivery_cx \<Rightarrow> string \<Rightarrow> outbound \<Rightarrow> string \<Rightarrow> delivery_answer option \<Rightarrow> channel_outcome hprog" where
  "send_message cx channel m fingerprint intent =
     AskAborted (\<lambda>aborted.
     if aborted then
       hbind (settle_best_effort intent fingerprint m AsFailed ''channel-delivery-cancelled-before-send'') (\<lambda>_.
       HReturn (host_outcome ChannelFailed (om_key m) ''channel_delivery_cancelled''
         ''The channel delivery was cancelled before sending''))
     else AskChannel m (after_channel cx channel m fingerprint intent))"

definition duplicate_result :: "outbound \<Rightarrow> string option \<Rightarrow> channel_result" where
  "duplicate_result m message =
     \<lparr>cr_status = ChannelDuplicate, cr_key = om_key m, cr_message = message, cr_diagnostic = None\<rparr>"

definition deliver_once :: "delivery_cx \<Rightarrow> string \<Rightarrow> outbound \<Rightarrow> string \<Rightarrow> channel_outcome hprog" where
  "deliver_once cx channel m fingerprint =
     hbind
       (if \<not> dx_durable cx then HReturn None
        else hbind (client_prepare \<lparr>di_key = JStr (om_key m), di_fingerprint = JStr fingerprint, di_channel = JStr channel, di_run = JUndef\<rparr>)
               (\<lambda>a. HReturn (Some a)))
       (\<lambda>intent.
        case intent of
          Some (DeliveryDuplicate message) \<Rightarrow>
            confirm_delivery cx channel m fingerprint (duplicate_result m message) intent
        | Some DeliveryConflict \<Rightarrow>
            HReturn (host_outcome ChannelFailed (om_key m) ''channel_delivery_idempotency_conflict''
              ''The idempotency key was already used for a different delivery'')
        | Some DeliveryJoin \<Rightarrow>
            HReturn (host_outcome ChannelUnknown (om_key m) ''channel_delivery_in_progress''
              ''A matching delivery is already in progress'')
        | Some (DeliveryUnknown code) \<Rightarrow>
            HReturn (host_outcome ChannelUnknown (om_key m)
              (case code of None \<Rightarrow> ''channel_delivery_unknown'' | Some c \<Rightarrow> c)
              ''The prior delivery outcome is unknown and will not be replayed'')
        | _ \<Rightarrow> send_message cx channel m fingerprint intent)"

section \<open>Asking for a delivery\<close>

text \<open>What the host knows of a channel: whether it can deliver and resolve history, and what its
  resolver of a default conversation answers. A delivery whose key is already in flight is joined when
  it is the same delivery.\<close>

record channel_caps =
  ch_delivers :: bool
  ch_resolves :: bool
  ch_default :: "js result"

type_synonym inflight = "string \<Rightarrow> (string \<times> nat) option"

datatype deliver_start =
    DeliverThrows js_error
  | DeliverAnswers channel_outcome
  | DeliverJoins nat
  | DeliverRuns outbound string

definition deliver_message ::
  "(string \<Rightarrow> string) \<Rightarrow> (string \<Rightarrow> channel_caps option) \<Rightarrow> inflight \<Rightarrow> string \<Rightarrow> js \<Rightarrow> deliver_start" where
  "deliver_message sha channels running channel v =
     (case normalize_outbound_message (case channels channel of None \<Rightarrow> Inr JUndef | Some c \<Rightarrow> ch_default c) v of
        Inl e \<Rightarrow> DeliverThrows e
      | Inr m \<Rightarrow>
          if 1000000 < length (delivery_history_text m) then DeliverThrows (RangeError ''channel delivery history text'')
          else if (case channels channel of None \<Rightarrow> True | Some c \<Rightarrow> \<not> ch_delivers c \<or> \<not> ch_resolves c)
          then DeliverAnswers (host_outcome ChannelFailed (om_key m) ''channel_delivery_unsupported''
                 (''Channel '' @ channel @ '' does not support proactive delivery''))
          else
            (let fingerprint = delivery_fingerprint sha channel m in
             case running (om_key m) of
               Some (other, i) \<Rightarrow>
                 if other = fingerprint then DeliverJoins i
                 else DeliverAnswers (host_outcome ChannelFailed (om_key m) ''channel_delivery_idempotency_conflict''
                        ''The idempotency key is already active for a different delivery'')
             | None \<Rightarrow> DeliverRuns m fingerprint))"

end
