(* ===== verification/HostSystem.thy ===== *)
theory HostSystem
  imports HostDelivery PoolProps
begin

text \<open>
  Deliveries of a host, any number at a time, over the journal: their programs take turns with each
  other, with the calls they have made of the journal, with the journal's other callers and with other
  users of its store. A delivery may stop waiting for a call it made, which goes on; the host may stop
  at any moment, losing its deliveries and its maps, and start again on the same journal. The messages
  handed to a channel are logged with the key they carry and what the channel answered.
\<close>

datatype wait = Idle | OnJournal nat | OnChannel nat

text \<open>\<open>dt_permit\<close> and \<open>sn_permit\<close> are history: the call of the journal that gave the permission.\<close>

record delivery_task =
  dt_key :: string
  dt_prog :: "channel_outcome hprog"
  dt_wait :: wait
  dt_permit :: "nat option"

record sent =
  sn_key :: string
  sn_permit :: "nat option"
  sn_answer :: "js result option"

record host =
  hs_pool :: "(journal_call, journal_answer) pool"
  hs_tasks :: "delivery_task list"
  hs_inflight :: inflight
  hs_local :: "string \<Rightarrow> js list option"
  hs_sent :: "sent list"

definition start_host :: "store \<Rightarrow> host" where
  "start_host st = \<lparr>hs_pool = (st, []), hs_tasks = [], hs_inflight = Map.empty, hs_local = Map.empty, hs_sent = []\<rparr>"

fun permission :: "nat \<Rightarrow> journal_call \<Rightarrow> journal_answer \<Rightarrow> nat option \<Rightarrow> nat option" where
  "permission q (PrepareDelivery i) (DeliveryAnswer (DeliverySend n t)) previous = Some q"
| "permission q c x previous = previous"

definition with_task :: "nat \<Rightarrow> delivery_task \<Rightarrow> host \<Rightarrow> host" where
  "with_task i t h = h\<lparr>hs_tasks := (hs_tasks h)[i := t]\<rparr>"

abbreviation task_at :: "host \<Rightarrow> nat \<Rightarrow> delivery_task \<Rightarrow> bool" where
  "task_at h i t \<equiv> i < length (hs_tasks h) \<and> hs_tasks h ! i = t"

fun writes_receipts :: "journal_call \<Rightarrow> bool" where
  "writes_receipts (PrepareDelivery _) = True"
| "writes_receipts (SettleDelivery _) = True"
| "writes_receipts (SettleDeliveryWithHistory _) = True"
| "writes_receipts _ = False"

definition settled_prog :: "'a hprog \<Rightarrow> bool" where
  "settled_prog p = (case p of HReturn _ \<Rightarrow> True | HThrow _ \<Rightarrow> True | _ \<Rightarrow> False)"

inductive task_step :: "config \<Rightarrow> host \<Rightarrow> host \<Rightarrow> bool" for cf where
  task_asks:
    "task_at h i t \<Longrightarrow> dt_wait t = Idle \<Longrightarrow> dt_prog t = AskJournal c f \<Longrightarrow> hs_pool h = (st, cs) \<Longrightarrow>
     task_step cf h (with_task i (t\<lparr>dt_wait := OnJournal (length cs)\<rparr>) (h\<lparr>hs_pool := (st, cs @ [(c, journal_prog cf c)])\<rparr>))"
| task_answered:
    "task_at h i t \<Longrightarrow> dt_wait t = OnJournal q \<Longrightarrow> dt_prog t = AskJournal c f \<Longrightarrow> answered (hs_pool h) q c x \<Longrightarrow>
     task_step cf h (with_task i (t\<lparr>dt_prog := f (Inr x), dt_wait := Idle, dt_permit := permission q c x (dt_permit t)\<rparr>) h)"
| task_gives_up:
    "task_at h i t \<Longrightarrow> dt_prog t = AskJournal c f \<Longrightarrow>
     task_step cf h (with_task i (t\<lparr>dt_prog := f (Inl e), dt_wait := Idle\<rparr>) h)"
| task_sends:
    "task_at h i t \<Longrightarrow> dt_wait t = Idle \<Longrightarrow> dt_prog t = AskChannel m g \<Longrightarrow>
     task_step cf h (with_task i (t\<lparr>dt_wait := OnChannel (length (hs_sent h))\<rparr>)
       (h\<lparr>hs_sent := hs_sent h @ [\<lparr>sn_key = om_key m, sn_permit = dt_permit t, sn_answer = None\<rparr>]\<rparr>))"
| task_sent:
    "task_at h i t \<Longrightarrow> dt_wait t = OnChannel j \<Longrightarrow> dt_prog t = AskChannel m g \<Longrightarrow>
     task_step cf h (with_task i (t\<lparr>dt_prog := g v, dt_wait := Idle\<rparr>)
       (h\<lparr>hs_sent := (hs_sent h)[j := (hs_sent h ! j)\<lparr>sn_answer := Some v\<rparr>]\<rparr>))"
| task_history:
    "task_at h i t \<Longrightarrow> dt_prog t = AskHistory m r g' \<Longrightarrow> task_step cf h (with_task i (t\<lparr>dt_prog := g' v'\<rparr>) h)"
| task_conversation:
    "task_at h i t \<Longrightarrow> dt_prog t = AskConversation conv k \<Longrightarrow> task_step cf h (with_task i (t\<lparr>dt_prog := k loaded\<rparr>) h)"
| task_aborted:
    "task_at h i t \<Longrightarrow> dt_prog t = AskAborted k' \<Longrightarrow> task_step cf h (with_task i (t\<lparr>dt_prog := k' aborted\<rparr>) h)"
| task_appends:
    "task_at h i t \<Longrightarrow> dt_prog t = AskAppend conv entry k'' \<Longrightarrow> append_local entry recorded (hs_local h conv) = Inr es \<Longrightarrow>
     task_step cf h (with_task i (t\<lparr>dt_prog := k'' (Inr ())\<rparr>) (h\<lparr>hs_local := (hs_local h)(conv \<mapsto> es)\<rparr>))"
| task_append_fails:
    "task_at h i t \<Longrightarrow> dt_prog t = AskAppend conv entry k'' \<Longrightarrow> task_step cf h (with_task i (t\<lparr>dt_prog := k'' (Inl e)\<rparr>) h)"
| task_finishes:
    "task_at h i t \<Longrightarrow> settled_prog (dt_prog t) \<Longrightarrow> hs_inflight h (dt_key t) = Some (fp, i) \<Longrightarrow>
     task_step cf h (h\<lparr>hs_inflight := (hs_inflight h)(dt_key t := None)\<rparr>)"

inductive host_step :: "limits \<Rightarrow> config \<Rightarrow> bool \<Rightarrow> delivery_cx \<Rightarrow> host \<Rightarrow> host \<Rightarrow> bool" for l cf m cx where
  host_delivers:
    "deliver_message (dx_sha cx) channels (hs_inflight h) channel v = DeliverRuns message fingerprint \<Longrightarrow>
     host_step l cf m cx h
       (h\<lparr>hs_tasks := hs_tasks h @ [\<lparr>dt_key = om_key message, dt_prog = deliver_once cx channel message fingerprint,
                                      dt_wait = Idle, dt_permit = None\<rparr>],
          hs_inflight := (hs_inflight h)(om_key message \<mapsto> (fingerprint, length (hs_tasks h)))\<rparr>)"
| host_task: "task_step cf h h' \<Longrightarrow> host_step l cf m cx h h'"
| host_journal:
    "calls_step l cf m (hs_pool h) P \<Longrightarrow> length (snd P) = length (snd (hs_pool h)) \<Longrightarrow> host_step l cf m cx h (h\<lparr>hs_pool := P\<rparr>)"
| host_other_call:
    "\<not> writes_receipts c \<Longrightarrow> (retains c \<longrightarrow> m) \<Longrightarrow> hs_pool h = (st, cs) \<Longrightarrow>
     host_step l cf m cx h (h\<lparr>hs_pool := (st, cs @ [(c, journal_prog cf c)])\<rparr>)"
| host_stops: "host_step l cf m cx h (h\<lparr>hs_tasks := [], hs_inflight := Map.empty, hs_local := Map.empty\<rparr>)"

abbreviation host_run :: "limits \<Rightarrow> config \<Rightarrow> bool \<Rightarrow> delivery_cx \<Rightarrow> host \<Rightarrow> host \<Rightarrow> bool" where
  "host_run l cf m cx \<equiv> (host_step l cf m cx)\<^sup>*\<^sup>*"

text \<open>The channel answered that it failed to deliver: a well-formed result with status \<^verbatim>\<open>failed\<close>.\<close>

definition reads_failed :: "string \<Rightarrow> js result \<Rightarrow> bool" where
  "reads_failed key v =
     (case v of
        Inl _ \<Rightarrow> False
      | Inr w \<Rightarrow> (case normalize_result key w of Inl _ \<Rightarrow> False | Inr r \<Rightarrow> cr_status r = ChannelFailed))"

definition said_failed :: "sent \<Rightarrow> bool" where
  "said_failed e = (case sn_answer e of None \<Rightarrow> False | Some v \<Rightarrow> reads_failed (sn_key e) v)"

end
