(* ===== verification/HostSafe.thy ===== *)
theory HostSafe
  imports HostSystem
begin

text \<open>
  What one delivery may ask of the journal and of the channel, by what it holds: nothing yet, the
  permission to send an attempt, the right to record an attempt as failed because the channel said so,
  or nothing more. \<open>safe key Q T p g\<close>: the program \<open>p\<close>, holding \<open>g\<close>, keeps to it whatever it is
  answered, returns with \<open>Q\<close> and throws with \<open>T\<close>. Every delivery is safe.
\<close>

datatype holds = Fresh | Held nat | MayFail nat | Closed

fun granted :: "journal_call \<Rightarrow> journal_answer result \<Rightarrow> holds \<Rightarrow> holds" where
  "granted (PrepareDelivery i) (Inr (DeliveryAnswer (DeliverySend n t))) g = Held n"
| "granted c r g = g"

definition issued :: "journal_call \<Rightarrow> holds \<Rightarrow> holds" where
  "issued c g = (case c of SettleDelivery i \<Rightarrow> if fails_attempts i = {} then g else Closed | _ \<Rightarrow> g)"

fun may_issue :: "string \<Rightarrow> journal_call \<Rightarrow> holds \<Rightarrow> bool" where
  "may_issue key (PrepareDelivery i) g \<longleftrightarrow> g = Fresh \<and> di_key i = JStr key"
| "may_issue key (SettleDelivery i) g \<longleftrightarrow> si_key i = JStr key \<and> (\<forall>n \<in> fails_attempts i. g = Held n \<or> g = MayFail n)"
| "may_issue key (SettleDeliveryWithHistory i) g \<longleftrightarrow> True"
| "may_issue key c g \<longleftrightarrow> False"

definition after_answer :: "string \<Rightarrow> nat \<Rightarrow> js result \<Rightarrow> holds" where
  "after_answer key n v = (if reads_failed key v then MayFail n else Closed)"

primrec safe :: "string \<Rightarrow> ('a \<Rightarrow> holds \<Rightarrow> bool) \<Rightarrow> (js_error \<Rightarrow> holds \<Rightarrow> bool) \<Rightarrow> 'a hprog \<Rightarrow> holds \<Rightarrow> bool" where
  "safe key Q T (HReturn x) g \<longleftrightarrow> Q x g"
| "safe key Q T (HThrow e) g \<longleftrightarrow> T e g"
| "safe key Q T (AskJournal c f) g \<longleftrightarrow> may_issue key c g \<and> (\<forall>r. safe key Q T (f r) (granted c r (issued c g)))"
| "safe key Q T (AskChannel m f) g \<longleftrightarrow>
     om_key m = key \<and> (\<exists>n. g = Held n \<and> (\<forall>v. safe key Q T (f v) (after_answer key n v)))"
| "safe key Q T (AskHistory m x f) g \<longleftrightarrow> (\<forall>v. safe key Q T (f v) g)"
| "safe key Q T (AskConversation conv f) g \<longleftrightarrow> (\<forall>v. safe key Q T (f v) g)"
| "safe key Q T (AskAppend conv e f) g \<longleftrightarrow> (\<forall>v. safe key Q T (f v) g)"
| "safe key Q T (AskAborted f) g \<longleftrightarrow> (\<forall>v. safe key Q T (f v) g)"

lemma safe_bind [simp]: "safe key Q T (hbind p k) g \<longleftrightarrow> safe key (\<lambda>x. safe key Q T (k x)) T p g"
  by (induction p arbitrary: g) auto

lemma safe_catch [simp]: "safe key Q T (hcatch p h) g \<longleftrightarrow> safe key Q (\<lambda>e. safe key Q T (h e)) p g"
  by (induction p arbitrary: g) auto

lemma safe_lift [simp]: "safe key Q T (hlift r) g \<longleftrightarrow> (case r of Inl e \<Rightarrow> T e g | Inr x \<Rightarrow> Q x g)"
  by (cases r) auto

abbreviation safely :: "string \<Rightarrow> 'a hprog \<Rightarrow> holds \<Rightarrow> bool" where
  "safely key \<equiv> safe key (\<lambda>_ _. True) (\<lambda>_ _. True)"

section \<open>The client\<close>

lemma client_call_same: "client_call operation v = Inr w \<Longrightarrow> w = v"
  by (auto simp: client_call_def dest: snapshot_same split: if_splits sum.splits)

lemma client_object_Inr: "client_object label v = Inr fs \<Longrightarrow> v = JObj fs"
  by (auto simp: client_object_def plain_record_def split: sum.splits js.splits if_splits)

lemma client_text_Inr: "client_text label n v = Inr s \<Longrightarrow> v = JStr s"
  by (auto simp: client_text_def split: js.splits if_splits)

lemma client_integer_Inr: "client_integer label low v = Inr n \<Longrightarrow> 0 \<le> low \<Longrightarrow> v = JNum (int n)"
  by (auto simp: client_integer_def split: js.splits if_splits)

lemma client_opt_text: "opt_field (client_text label n) (case x of None \<Rightarrow> JUndef | Some t \<Rightarrow> JStr t) = Inr y \<Longrightarrow> y = x"
  by (auto simp: opt_field_def rbind_Inr_iff dest: client_text_Inr split: option.splits if_splits)

lemma client_delivery_same: "client_delivery (delivery_js a) = Inr b \<Longrightarrow> b = a"
  by (cases a) (auto simp: client_delivery_def rbind_Inr_iff dest!: client_object_Inr client_text_Inr client_integer_Inr client_opt_text)

text \<open>The client passes on the journal's answer or refuses it.\<close>

lemma client_answer:
  assumes "rbind (client_call operation (answer_js x)) client_delivery = Inr a"
  shows "x = DeliveryAnswer a"
proof -
  have a: "client_delivery (answer_js x) = Inr a"
    using assms client_call_same by (auto simp: rbind_Inr_iff)
  show ?thesis
  proof (cases x)
    case (DeliveryAnswer b)
    with a client_delivery_same show ?thesis by force
  next
    case (HistoryAnswer h)
    then show ?thesis using a
      by (cases h) (auto simp: client_delivery_def counted_js_def rbind_Inr_iff client_keys_def dest!: client_object_Inr)
  qed (use a in \<open>auto simp: client_delivery_def rbind_Inr_iff dest: client_object_Inr\<close>)
qed

lemma prepare_safe:
  assumes "di_key i = JStr key" "\<And>n t. Q (DeliverySend n t) (Held n)" "\<And>a. \<not> is_send_answer (Some a) \<Longrightarrow> Q a Fresh" "\<And>e g. T e g"
  shows "safe key Q T (client_prepare i) Fresh"
proof -
  have "case rbind r (\<lambda>a. rbind (client_call ''delivery.prepare'' (answer_js a)) client_delivery) of
      Inl e \<Rightarrow> T e (granted (PrepareDelivery i) r Fresh) | Inr a \<Rightarrow> Q a (granted (PrepareDelivery i) r Fresh)" for r
  proof (cases "rbind r (\<lambda>a. rbind (client_call ''delivery.prepare'' (answer_js a)) client_delivery)")
    case (Inr a)
    then have "r = Inr (DeliveryAnswer a)" by (cases r) (auto dest: client_answer simp del: rbind.simps(2) simp: rbind.simps)
    with Inr show ?thesis using assms(2,3) by (cases a) (auto simp: is_send_answer_def)
  qed (simp add: assms(4))
  then show ?thesis using assms(1) by (simp add: client_prepare_def ask_client_def issued_def)
qed

lemma settle_safe:
  assumes "si_key i = JStr key" "\<And>n. n \<in> fails_attempts i \<Longrightarrow> g = Held n \<or> g = MayFail n" "\<And>x. Q x (issued (SettleDelivery i) g)" "\<And>e g. T e g"
  shows "safe key Q T (client_settle i) g"
  using assms by (auto simp: client_settle_def ask_client_def split: sum.split)

lemma fails_simps: "fails_attempts i \<subseteq> (if si_status i = AsFailed then {n. si_attempt i = JNum (int n)} else {})"
  by (auto simp: fails_attempts_def parse_iffs)

lemma intent_unknown_safe:
  assumes "\<And>x. Q x g" "\<And>e g. T e g"
  shows "safe (om_key m) Q T (settle_intent intent fp m AsUnknown code) g"
  using assms by (auto simp: settle_intent_def fails_attempts_def issued_def intro!: settle_safe split: option.split delivery_answer.split)

lemma intent_failed_safe:
  assumes "\<And>x g. Q x g" "\<And>e g. T e g" "\<And>n t. intent = Some (DeliverySend n t) \<Longrightarrow> g = Held n \<or> g = MayFail n"
  shows "safe (om_key m) Q T (settle_intent intent fp m AsFailed code) g"
  using assms by (auto simp: settle_intent_def fails_attempts_def parse_iffs intro!: settle_safe split: option.split delivery_answer.split)

section \<open>Every delivery is safe\<close>

lemma history_safe: "(\<And>x. Q x g) \<Longrightarrow> (\<And>e. T e g) \<Longrightarrow> safe key Q T (client_settle_history i) g"
  by (auto simp: client_settle_history_def ask_client_def issued_def split: sum.split)

lemma record_history_safe:
  assumes "\<And>x. Q x g" "\<And>e. T e g"
  shows "safe key Q T (record_history cx channel m fp r intent) g"
  using assms
  by (auto simp: record_history_def settle_with_history_def retry_delivery_with_history_def Let_def
      intro!: history_safe split: option.split delivery_answer.split sum.split)

lemma confirm_safe: "safely (om_key m) (confirm_delivery cx channel m fp r intent) g"
  by (auto simp: confirm_delivery_def settle_best_effort_def intro!: record_history_safe intent_unknown_safe)

lemma refusal_safe:
  "(cr_status r = ChannelFailed \<Longrightarrow> \<forall>n t. intent = Some (DeliverySend n t) \<longrightarrow> g = Held n \<or> g = MayFail n) \<Longrightarrow>
   safely (om_key m) (settle_refusal cx m fp r intent) g"
  by (cases "cr_status r = ChannelFailed")
    (auto simp: settle_refusal_def intro!: intent_failed_safe intent_unknown_safe)

lemma after_channel_safe:
  assumes "intent = Some (DeliverySend n t)"
  shows "safely (om_key m) (after_channel cx channel m fp intent v) (after_answer (om_key m) n v)"
  using assms
  by (auto simp: after_channel_def settle_best_effort_def after_answer_def reads_failed_def is_send_answer_def
      intro!: intent_unknown_safe confirm_safe refusal_safe split: sum.split)

lemma send_safe:
  assumes "intent = Some (DeliverySend n t)"
  shows "safely (om_key m) (send_message cx channel m fp intent) (Held n)"
  using assms after_channel_safe [OF assms]
  by (auto simp: send_message_def settle_best_effort_def intro!: intent_failed_safe)

lemma once_safe:
  assumes "dx_durable cx"
  shows "safely (om_key m) (deliver_once cx channel m fp) Fresh"
  unfolding deliver_once_def
  using assms by (auto intro!: prepare_safe send_safe confirm_safe simp: is_send_answer_def split: delivery_answer.split)

end
