(* ===== verification/HostGuard.thy ===== *)
theory HostGuard
  imports HostSafe
begin

text \<open>
  The invariant of a host: a permission to send belongs to one delivery and is used once, and an attempt
  is only recorded as failed once its permission has been given back, unused or answered with a failure.
\<close>

section \<open>What the journal does to an attempt\<close>

definition grant :: "config \<Rightarrow> (journal_call, journal_answer) pool \<Rightarrow> nat \<Rightarrow> string \<Rightarrow> nat \<Rightarrow> bool" where
  "grant cf P q rk n \<longleftrightarrow>
     (\<exists>i t. answered P q (PrepareDelivery i) (DeliveryAnswer (DeliverySend n t)) \<and> receipt_key cf (di_key i) = Some rk)"

text \<open>Attempt \<open>n\<close> is over: recorded as failed, or followed by another.\<close>

definition attempt_over :: "delivery cell \<Rightarrow> nat \<Rightarrow> bool" where
  "attempt_over r n \<longleftrightarrow> n < attempts_of r \<or> failed_attempt r n"

lemma step_over:
  assumes "receipt_step r r'" "attempt_over r' n" "\<not> attempt_over r n" "1 \<le> n"
  shows "failed_attempt r' n \<and> r' \<noteq> r"
  using assms by cases (auto simp: attempt_over_def)

lemma receipt_commit_over:
  assumes "receipt_commit fa key s p s'" "attempt_over (receipt_at s' rk) n" "\<not> attempt_over (receipt_at s rk) n" "1 \<le> n"
  shows "rk = key \<and> n \<in> fa"
proof (cases "rk = key")
  case True
  with assms step_over show ?thesis unfolding receipt_commit_def by metis
next
  case False
  then have "lookup s' rk = lookup s rk" using assms(1) by (simp add: receipt_commit_def)
  then show ?thesis using assms(2,3) by (simp add: cell_at_def)
qed

definition fails :: "config \<Rightarrow> journal_call \<Rightarrow> string \<Rightarrow> nat \<Rightarrow> bool" where
  "fails cf c rk n \<longleftrightarrow> (\<exists>i. c = SettleDelivery i \<and> receipt_key cf (si_key i) = Some rk \<and> n \<in> fails_attempts i)"

text \<open>Only a settlement that was asked to fail an attempt ends it.\<close>

lemma commit_over:
  assumes c: "call_commit cf c s p s'" and rk: "in_family FamDelivery rk"
    and over: "attempt_over (receipt_at s' rk) n" "\<not> attempt_over (receipt_at s rk) n" "1 \<le> n"
  shows "fails cf c rk n"
proof -
  have d: "delivery_call cf c s p s'" and t: "touches (written_families c) s s'" using c by (simp_all add: call_commit_def)
  have written: "FamDelivery \<in> written_families c"
  proof (rule ccontr)
    assume "FamDelivery \<notin> written_families c"
    then have "\<not> within (written_families c) rk" using rk by (auto simp: within_def dest: in_family_unique)
    then have "lookup s' rk = lookup s rk" using t by (simp add: touches_def)
    then show False using over by (simp add: cell_at_def)
  qed
  show ?thesis
  proof (cases c)
    case (PrepareDelivery i)
    then show ?thesis using d receipt_commit_over [OF _ over] by auto
  next
    case (SettleDelivery i)
    then show ?thesis using d receipt_commit_over [OF _ over] by (auto simp: fails_def)
  next
    case (SettleDeliveryWithHistory i)
    then obtain h where h: "parse_history_input cf i = Inr h" "history_commit (cf_sha cf) h s s'" using d by auto
    from history_receipt [OF h(2) parse_history_ok [OF h(1)] rk] over show ?thesis
      by (auto simp: attempt_over_def)
  qed (use written in simp_all)
qed

lemma prog_step_Return: "\<not> prog_step E st (Return x) st' p'"
  by (auto elim: prog_stepE)

lemma answered_stays:
  assumes "pool_step E start P P'" "answered P q c x"
  shows "answered P' q c x"
  using assms
proof (cases rule: pool_step.cases)
  case (pool_call i cs c' p st st' p')
  have "q \<noteq> i" using assms(2) pool_call by (auto simp: answered_def prog_step_Return)
  then show ?thesis using assms(2) pool_call by (simp add: answered_def)
qed (auto simp: answered_def nth_append)

lemma grant_stays: "pool_step E start P P' \<Longrightarrow> grant cf P q rk n \<Longrightarrow> grant cf P' q rk n"
  unfolding grant_def by (meson answered_stays)

lemma grant_apart:
  assumes "served l cf m st P" "grant cf P q rk n" "grant cf P q' rk n"
  shows "q = q'"
proof (rule ccontr)
  assume "q \<noteq> q'"
  obtain i t j u where a: "answered P q (PrepareDelivery i) (DeliveryAnswer (DeliverySend n t))" "receipt_key cf (di_key i) = Some rk"
      "answered P q' (PrepareDelivery j) (DeliveryAnswer (DeliverySend n u))" "receipt_key cf (di_key j) = Some rk"
    using assms(2,3) unfolding grant_def by blast
  have s: "send_answer (PrepareDelivery k) (DeliveryAnswer (DeliverySend n v))" for k v by (auto simp: send_answer_def)
  have "same_send cf (PrepareDelivery i) (DeliveryAnswer (DeliverySend n t)) (PrepareDelivery j) (DeliveryAnswer (DeliverySend n u))"
    using a(2,4) by (simp add: same_send_def)
  with sends.answers_apart [OF served_run(1) [OF assms(1)] served_run(3) [OF assms(1)] served_run(2) [OF assms(1)] a(1,3) \<open>q \<noteq> q'\<close> s s]
  show False by blast
qed

lemma grant_counted:
  assumes "served l cf m st P" "grant cf P q rk n"
  shows "1 \<le> n" "n \<le> attempts_of (receipt_at (st_snap (fst P)) rk)" "in_family FamDelivery rk" "q < length (snd P)"
proof -
  obtain i t where a: "answered P q (PrepareDelivery i) (DeliveryAnswer (DeliverySend n t))" "receipt_key cf (di_key i) = Some rk"
    using assms(2) unfolding grant_def by blast
  have "call_answer cf (PrepareDelivery i) (DeliveryAnswer (DeliverySend n t)) (st_snap (fst P))"
    using journal.run_answers(1) [OF served_run(1) [OF assms(1)] journal.sound_empty [OF served_run(3) [OF assms(1)]] served_run(2) [OF assms(1)] a(1)] .
  then show "1 \<le> n" "n \<le> attempts_of (receipt_at (st_snap (fst P)) rk)" using a(2) by auto
  show "in_family FamDelivery rk" using receipt_of_family [of cf "PrepareDelivery i"] a(2) by simp
  show "q < length (snd P)" using a(1) by (simp add: answered_def)
qed

text \<open>A step of the calls already made: whatever attempt it ends, some settlement was asked to fail; a
  permission it gives is for an attempt not over.\<close>

lemma calls_step_over:
  assumes P: "served l cf m st P" and step: "calls_step l cf m P P'" "length (snd P') = length (snd P)"
    and over: "attempt_over (receipt_at (st_snap (fst P')) rk) n" "\<not> attempt_over (receipt_at (st_snap (fst P)) rk) n"
    and rk: "in_family FamDelivery rk" "1 \<le> n"
  shows "\<exists>(c, p) \<in> set (snd P). fails cf c rk n"
  using step(1)
proof (cases rule: pool_step.cases)
  case (pool_start st cs c)
  then show ?thesis using step(2) by simp
next
  case (pool_call i cs c p st st' p')
  have mem: "(c, p) \<in> set cs" using pool_call(3,4) nth_mem by fastforce
  have s: "journal.sound l cf m P" by (rule served_sound [OF P])
  have "wp (journal_setting l (cf_sha cf) m) (call_commit cf c) (call_answer cf c) p (st_snap st)"
    "interf (journal_setting l (cf_sha cf) m) (st_snap st) (st_snap st)"
    using s mem pool_call by (auto simp: journal.sound_def)
  from wp_step [OF pool_call(5) this] have "call_commit cf c (st_snap st) p' (st_snap st')"
    using over pool_call by auto
  from commit_over [OF this rk(1)] over rk(2) pool_call have "fails cf c rk n" by simp
  with mem pool_call show ?thesis by auto
next
  case (pool_public st st' cs)
  have "snapshot_wf l (st_snap st)" using served_sound [OF P] pool_public by (simp add: journal.sound_def interf_def)
  from public_frame [OF pool_public(3) [simplified] this family_internal [OF rk(1)]]
  have "receipt_at (st_snap st') rk = receipt_at (st_snap st) rk" by (simp add: cell_at_def)
  then show ?thesis using over pool_public by simp
qed

lemma new_grant_open:
  assumes P: "served l cf m st P" and step: "calls_step l cf m P P'" and P': "served l cf m st P'"
    and g: "grant cf P' q rk n" "\<not> grant cf P q rk n"
  shows "\<not> attempt_over (receipt_at (st_snap (fst P')) rk) n"
proof -
  obtain i t where a: "answered P' q (PrepareDelivery i) (DeliveryAnswer (DeliverySend n t))" "receipt_key cf (di_key i) = Some rk"
    using g(1) unfolding grant_def by blast
  have new: "\<not> answered P q (PrepareDelivery i) (DeliveryAnswer (DeliverySend n t))" using g(2) a(2) unfolding grant_def by blast
  have "send_answer (PrepareDelivery i) (DeliveryAnswer (DeliverySend n t))" by (auto simp: send_answer_def)
  from sends.new_answer(1) [OF served_sound [OF P] served_tidy [OF P] step served_run(2) [OF P'] a(1) this new]
  have "call_commit cf (PrepareDelivery i) (st_snap (fst P)) (Return (DeliveryAnswer (DeliverySend n t))) (st_snap (fst P'))" by blast
  then have "receipt_commit {} rk (st_snap (fst P)) (Return (DeliveryAnswer (DeliverySend n t))) (st_snap (fst P'))"
    using a(2) by (simp add: call_commit_def)
  then show ?thesis by (auto simp: receipt_commit_def attempt_over_def)
qed

section \<open>The invariant\<close>

text \<open>A permission is released when no delivery waits for it or may still use it, and every message sent
  on it was answered with a failure.\<close>

definition released :: "sent list \<Rightarrow> delivery_task list \<Rightarrow> holds list \<Rightarrow> nat \<Rightarrow> bool" where
  "released S ts gs q \<longleftrightarrow>
     (\<forall>e \<in> set S. sn_permit e = Some q \<longrightarrow> said_failed e)
     \<and> (\<forall>i < length ts. dt_wait (ts ! i) \<noteq> OnJournal q \<and> (dt_permit (ts ! i) = Some q \<longrightarrow> (\<forall>n. gs ! i \<noteq> Held n)))"

definition calls_of :: "delivery_task \<Rightarrow> nat set" where
  "calls_of t = (case dt_wait t of OnJournal q \<Rightarrow> {q} | _ \<Rightarrow> {}) \<union> set_option (dt_permit t)"

lemma calls_of_simps:
  "dt_wait t = OnJournal q \<Longrightarrow> q \<in> calls_of t" "dt_permit t = Some q \<Longrightarrow> q \<in> calls_of t"
  by (simp_all add: calls_of_def)

definition permitted :: "config \<Rightarrow> (journal_call, journal_answer) pool \<Rightarrow> delivery_task \<Rightarrow> nat \<Rightarrow> nat \<Rightarrow> bool" where
  "permitted cf P t q n \<longleftrightarrow>
     dt_permit t = Some q \<and> (\<exists>rk. receipt_key cf (JStr (dt_key t)) = Some rk \<and> grant cf P q rk n)"

fun holds_ok :: "config \<Rightarrow> (journal_call, journal_answer) pool \<Rightarrow> sent list \<Rightarrow> delivery_task \<Rightarrow> holds \<Rightarrow> bool" where
  "holds_ok cf P S t (Held n) \<longleftrightarrow> (\<exists>q. permitted cf P t q n \<and> (\<forall>e \<in> set S. sn_permit e \<noteq> Some q))"
| "holds_ok cf P S t (MayFail n) \<longleftrightarrow>
     (\<exists>q. permitted cf P t q n \<and> (\<forall>e \<in> set S. sn_permit e = Some q \<longrightarrow> said_failed e))"
| "holds_ok cf P S t g \<longleftrightarrow> True"

definition asking :: "(journal_call, journal_answer) pool \<Rightarrow> sent list \<Rightarrow> delivery_task \<Rightarrow> holds \<Rightarrow> nat \<Rightarrow> bool" where
  "asking P S t g q \<longleftrightarrow>
     (\<exists>c f. dt_prog t = AskJournal c f \<and> q < length (snd P) \<and> fst (snd P ! q) = c
        \<and> (\<forall>e \<in> set S. sn_permit e \<noteq> Some q) \<and> (\<forall>i. c = PrepareDelivery i \<longrightarrow> di_key i = JStr (dt_key t))
        \<and> (\<forall>r. safely (dt_key t) (f r) (granted c r g)))"

definition sending :: "config \<Rightarrow> (journal_call, journal_answer) pool \<Rightarrow> sent list \<Rightarrow> delivery_task \<Rightarrow> holds \<Rightarrow> nat \<Rightarrow> bool" where
  "sending cf P S t g j \<longleftrightarrow>
     (\<exists>m f n q. dt_prog t = AskChannel m f \<and> g = Closed \<and> permitted cf P t q n
        \<and> j < length S \<and> S ! j = \<lparr>sn_key = dt_key t, sn_permit = Some q, sn_answer = None\<rparr>
        \<and> (\<forall>v. safely (dt_key t) (f v) (after_answer (dt_key t) n v)))"

definition task_ok :: "config \<Rightarrow> (journal_call, journal_answer) pool \<Rightarrow> sent list \<Rightarrow> delivery_task \<Rightarrow> holds \<Rightarrow> bool" where
  "task_ok cf P S t g \<longleftrightarrow> holds_ok cf P S t g \<and>
     (case dt_wait t of
        Idle \<Rightarrow> safely (dt_key t) (dt_prog t) g
      | OnJournal q \<Rightarrow> asking P S t g q
      | OnChannel j \<Rightarrow> sending cf P S t g j)"

text \<open>The messages sent: each on a permission of its own, and a second one of a key only after a failure.\<close>

definition sent_ok :: "config \<Rightarrow> (journal_call, journal_answer) pool \<Rightarrow> sent list \<Rightarrow> bool" where
  "sent_ok cf P S \<longleftrightarrow>
     (\<forall>e \<in> set S. \<exists>q rk n. sn_permit e = Some q \<and> receipt_key cf (JStr (sn_key e)) = Some rk \<and> grant cf P q rk n)
     \<and> distinct (map sn_permit S)
     \<and> (\<forall>j < length S. \<forall>i < j. sn_key (S ! i) = sn_key (S ! j) \<longrightarrow> said_failed (S ! i))"

definition tasks_ok :: "config \<Rightarrow> (journal_call, journal_answer) pool \<Rightarrow> sent list \<Rightarrow> delivery_task list \<Rightarrow> holds list \<Rightarrow> bool" where
  "tasks_ok cf P S ts gs \<longleftrightarrow>
     length gs = length ts
     \<and> (\<forall>i < length ts. task_ok cf P S (ts ! i) (gs ! i) \<and> (\<forall>q \<in> calls_of (ts ! i). q < length (snd P)))
     \<and> (\<forall>i < length ts. \<forall>j < length ts. i \<noteq> j \<longrightarrow> calls_of (ts ! i) \<inter> calls_of (ts ! j) = {})"

definition ends_ok :: "config \<Rightarrow> (journal_call, journal_answer) pool \<Rightarrow> (nat \<Rightarrow> bool) \<Rightarrow> bool" where
  "ends_ok cf P rel \<longleftrightarrow>
     (\<forall>(c, p) \<in> set (snd P). \<forall>rk n. fails cf c rk n \<longrightarrow> (\<exists>q. grant cf P q rk n \<and> rel q))
     \<and> (\<forall>q rk n. grant cf P q rk n \<longrightarrow> attempt_over (receipt_at (st_snap (fst P)) rk) n \<longrightarrow> rel q)"

definition host_ok ::
  "limits \<Rightarrow> config \<Rightarrow> bool \<Rightarrow> store \<Rightarrow> (journal_call, journal_answer) pool \<Rightarrow> sent list \<Rightarrow> delivery_task list \<Rightarrow> holds list \<Rightarrow> bool" where
  "host_ok l cf m st P S ts gs \<longleftrightarrow>
     served l cf m st P \<and> sent_ok cf P S \<and> tasks_ok cf P S ts gs \<and> ends_ok cf P (released S ts gs)"

lemma ends_okI:
  "(\<And>c p rk n. (c, p) \<in> set (snd P) \<Longrightarrow> fails cf c rk n \<Longrightarrow> \<exists>q. grant cf P q rk n \<and> rel q) \<Longrightarrow>
   (\<And>q rk n. grant cf P q rk n \<Longrightarrow> attempt_over (receipt_at (st_snap (fst P)) rk) n \<Longrightarrow> rel q) \<Longrightarrow> ends_ok cf P rel"
  unfolding ends_ok_def by (simp add: split_beta) force

lemma ends_okD:
  assumes "ends_ok cf P rel"
  shows "(c, p) \<in> set (snd P) \<Longrightarrow> fails cf c rk n \<Longrightarrow> \<exists>q. grant cf P q rk n \<and> rel q"
    "grant cf P q rk n \<Longrightarrow> attempt_over (receipt_at (st_snap (fst P)) rk) n \<Longrightarrow> rel q"
  using assms unfolding ends_ok_def by auto

lemma ends_mono: "ends_ok cf P rel \<Longrightarrow> (\<And>q rk n. grant cf P q rk n \<Longrightarrow> rel q \<Longrightarrow> rel' q) \<Longrightarrow> ends_ok cf P rel'"
  by (rule ends_okI) (blast dest: ends_okD)+

text \<open>A permission that is not released is for an attempt that is not over, which nobody has asked to fail.\<close>

lemma unreleased:
  assumes "host_ok l cf m st P S ts gs" "grant cf P q rk n" "\<not> released S ts gs q"
  shows "\<not> attempt_over (receipt_at (st_snap (fst P)) rk) n" "(c, p) \<in> set (snd P) \<Longrightarrow> \<not> fails cf c rk n"
proof -
  have e: "ends_ok cf P (released S ts gs)" and P: "served l cf m st P" using assms(1) by (simp_all add: host_ok_def)
  show "\<not> attempt_over (receipt_at (st_snap (fst P)) rk) n" using ends_okD(2) [OF e assms(2)] assms(3) by blast
  show "\<not> fails cf c rk n" if "(c, p) \<in> set (snd P)"
    using ends_okD(1) [OF e that] grant_apart [OF P assms(2)] assms(3) by blast
qed

section \<open>The journal moves\<close>

definition pool_grows :: "config \<Rightarrow> (journal_call, journal_answer) pool \<Rightarrow> (journal_call, journal_answer) pool \<Rightarrow> bool" where
  "pool_grows cf P P' \<longleftrightarrow>
     (\<forall>q < length (snd P). q < length (snd P') \<and> fst (snd P' ! q) = fst (snd P ! q))
     \<and> (\<forall>q rk n. grant cf P q rk n \<longrightarrow> grant cf P' q rk n)"

lemma calls_step_grows: "calls_step l cf m P P' \<Longrightarrow> pool_grows cf P P'"
  unfolding pool_grows_def using grant_stays
  by (auto elim!: pool_step.cases simp: nth_append nth_list_update)

lemma permitted_grows: "pool_grows cf P P' \<Longrightarrow> permitted cf P t q n \<Longrightarrow> permitted cf P' t q n"
  unfolding pool_grows_def permitted_def by blast

lemma task_ok_grows:
  assumes "pool_grows cf P P'" "task_ok cf P S t g"
  shows "task_ok cf P' S t g"
proof -
  have "holds_ok cf P S t g" using assms(2) by (simp add: task_ok_def)
  then have "holds_ok cf P' S t g" by (cases g) (auto dest: permitted_grows [OF assms(1)])
  moreover have "asking P' S t g q" if "asking P S t g q" for q
  proof -
    have "q < length (snd P)" using that by (auto simp: asking_def)
    then have "q < length (snd P') \<and> fst (snd P' ! q) = fst (snd P ! q)" using assms(1) by (simp add: pool_grows_def)
    with that show ?thesis by (auto simp: asking_def)
  qed
  moreover have "sending cf P S t g j \<Longrightarrow> sending cf P' S t g j" for j
    unfolding sending_def by (elim exE conjE) (intro exI conjI, assumption+, erule permitted_grows [OF assms(1)], assumption+)
  ultimately show ?thesis using assms(2) unfolding task_ok_def by (cases "dt_wait t") simp_all
qed

lemma sent_ok_grows:
  assumes "pool_grows cf P P'" "sent_ok cf P S"
  shows "sent_ok cf P' S"
proof -
  have "grant cf P q rk n \<Longrightarrow> grant cf P' q rk n" for q rk n using assms(1) by (simp add: pool_grows_def)
  then have "\<forall>e \<in> set S. \<exists>q rk n. sn_permit e = Some q \<and> receipt_key cf (JStr (sn_key e)) = Some rk \<and> grant cf P' q rk n"
    using assms(2) unfolding sent_ok_def by meson
  then show ?thesis using assms(2) by (simp add: sent_ok_def)
qed

lemma tasks_ok_grows:
  assumes "pool_grows cf P P'" "tasks_ok cf P S ts gs"
  shows "tasks_ok cf P' S ts gs"
proof -
  have "q < length (snd P) \<Longrightarrow> q < length (snd P')" for q using assms(1) by (simp add: pool_grows_def)
  then show ?thesis using assms(2) task_ok_grows [OF assms(1)] unfolding tasks_ok_def by simp
qed

end
