(* ===== verification/HostKept.thy ===== *)
theory HostKept
  imports HostGuard
begin

text \<open>Every step of a host keeps its invariant.\<close>

section \<open>Steps of the journal\<close>

lemma served_step:
  assumes "served l cf m st P" "calls_step l cf m P P'" "\<And>c p. (c, p) \<in> set (snd P') \<Longrightarrow> retains c \<Longrightarrow> m"
  shows "served l cf m st P'"
  using assms(1,2) assms(3) unfolding served_def by (auto intro: rtranclp.rtrancl_into_rtrancl)

lemma same_calls:
  assumes "calls_step l cf m P P'" "length (snd P') = length (snd P)" "(c, p') \<in> set (snd P')"
  obtains p where "(c, p) \<in> set (snd P)"
proof -
  obtain i where i: "i < length (snd P)" "snd P' ! i = (c, p')" using assms(2,3) by (metis in_set_conv_nth)
  have "fst (snd P' ! i) = fst (snd P ! i)" using calls_step_grows [OF assms(1)] i(1) by (simp add: pool_grows_def)
  then have "(c, snd (snd P ! i)) \<in> set (snd P)" using i by (metis fst_conv nth_mem prod.collapse)
  then show ?thesis by (rule that)
qed

lemma journal_step_ok:
  assumes ok: "host_ok l cf m st P S ts gs" and step: "calls_step l cf m P P'" "length (snd P') = length (snd P)"
  shows "host_ok l cf m st P' S ts gs"
proof -
  let ?rel = "released S ts gs"
  have P: "served l cf m st P" and e: "ends_ok cf P ?rel" using ok by (simp_all add: host_ok_def)
  note grows = calls_step_grows [OF step(1)]
  have stays: "grant cf P q rk n \<Longrightarrow> grant cf P' q rk n" for q rk n using grows by (simp add: pool_grows_def)
  have P': "served l cf m st P'"
  proof (rule served_step [OF P step(1)])
    fix c p assume "(c, p) \<in> set (snd P')" "retains c"
    with same_calls [OF step] P show m unfolding served_def by blast
  qed
  have "ends_ok cf P' ?rel"
  proof (rule ends_okI)
    fix c p rk n assume "(c, p) \<in> set (snd P')" "fails cf c rk n"
    then show "\<exists>q. grant cf P' q rk n \<and> ?rel q" using same_calls [OF step] ends_okD(1) [OF e] stays by metis
  next
    fix q rk n assume g: "grant cf P' q rk n" and over: "attempt_over (receipt_at (st_snap (fst P')) rk) n"
    have old: "grant cf P q rk n" using new_grant_open [OF P step(1) P' g] over by blast
    show "?rel q"
    proof (cases "attempt_over (receipt_at (st_snap (fst P)) rk) n")
      case True
      then show ?thesis by (rule ends_okD(2) [OF e old])
    next
      case False
      obtain c p where "(c, p) \<in> set (snd P)" "fails cf c rk n"
        using calls_step_over [OF P step over False grant_counted(3,1) [OF P old]] by blast
      with ends_okD(1) [OF e] grant_apart [OF P old] show ?thesis by blast
    qed
  qed
  then show ?thesis using ok P' sent_ok_grows [OF grows] tasks_ok_grows [OF grows] by (simp add: host_ok_def)
qed

text \<open>A call is made.\<close>

lemma ends_append:
  assumes P: "served l cf m st (st0, cs)" and m: "retains c \<longrightarrow> m" and e: "ends_ok cf (st0, cs) rel"
    and fails: "\<And>rk n. fails cf c rk n \<Longrightarrow> \<exists>q. grant cf (st0, cs) q rk n \<and> rel q"
  shows "served l cf m st (st0, cs @ [(c, journal_prog cf c)])" "ends_ok cf (st0, cs @ [(c, journal_prog cf c)]) rel"
    "pool_grows cf (st0, cs) (st0, cs @ [(c, journal_prog cf c)])"
proof -
  let ?P' = "(st0, cs @ [(c, journal_prog cf c)])"
  have step: "calls_step l cf m (st0, cs) ?P'" by (rule pool_start)
  show P': "served l cf m st ?P'"
    by (rule served_step [OF P step]) (use P m in \<open>auto simp: served_def\<close>)
  show grows: "pool_grows cf (st0, cs) ?P'" by (rule calls_step_grows [OF step])
  then have stays: "grant cf (st0, cs) q rk n \<Longrightarrow> grant cf ?P' q rk n" for q rk n by (simp add: pool_grows_def)
  show "ends_ok cf ?P' rel"
  proof (rule ends_okI)
    fix d p rk n assume "(d, p) \<in> set (snd ?P')" "fails cf d rk n"
    then have "\<exists>q. grant cf (st0, cs) q rk n \<and> rel q" using fails ends_okD(1) [OF e] by auto
    then show "\<exists>q. grant cf ?P' q rk n \<and> rel q" using stays by blast
  next
    fix q rk n assume g: "grant cf ?P' q rk n" and over: "attempt_over (receipt_at (st_snap (fst ?P')) rk) n"
    have "grant cf (st0, cs) q rk n" using new_grant_open [OF P step P' g] over by blast
    then show "rel q" using ends_okD(2) [OF e] over by simp
  qed
qed

lemma no_fails: "\<not> writes_receipts c \<Longrightarrow> \<not> fails cf c rk n"
  by (auto simp: fails_def)

lemma other_call_ok:
  assumes ok: "host_ok l cf m st (st0, cs) S ts gs" and c: "\<not> writes_receipts c" "retains c \<longrightarrow> m"
  shows "host_ok l cf m st (st0, cs @ [(c, journal_prog cf c)]) S ts gs"
proof -
  have "served l cf m st (st0, cs)" "ends_ok cf (st0, cs) (released S ts gs)" using ok by (simp_all add: host_ok_def)
  note new = ends_append [OF this(1) c(2) this(2)]
  show ?thesis
    using ok new no_fails [OF c(1)] sent_ok_grows tasks_ok_grows by (simp add: host_ok_def)
qed

section \<open>Steps of a delivery\<close>

lemma released_update:
  assumes "released S ts gs q" "i < length ts" "length gs = length ts" "dt_wait t' \<noteq> OnJournal q" "dt_permit t' = Some q \<Longrightarrow> \<forall>n. g' \<noteq> Held n"
  shows "released S (ts[i := t']) (gs[i := g']) q"
  using assms by (auto simp: released_def nth_list_update)

lemma tasks_update:
  assumes "tasks_ok cf P S ts gs" "i < length ts" "task_ok cf P S t' g'"
    and "\<And>q. q \<in> calls_of t' \<Longrightarrow> q \<in> calls_of (ts ! i) \<or> q < length (snd P) \<and> (\<forall>j < length ts. q \<notin> calls_of (ts ! j))"
  shows "tasks_ok cf P S (ts[i := t']) (gs[i := g'])"
proof -
  have apart: "calls_of t' \<inter> calls_of (ts ! j) = {}" if "j < length ts" "j \<noteq> i" for j
    using that assms(1,2,4) unfolding tasks_ok_def by blast
  have "q < length (snd P)" if "q \<in> calls_of t'" for q using that assms(1,2,4) unfolding tasks_ok_def by blast
  with apart assms(1-3) show ?thesis
    unfolding tasks_ok_def by (auto simp: nth_list_update Int_commute)
qed

lemma tasks_okD:
  assumes "tasks_ok cf P S ts gs" "i < length ts"
  shows "task_ok cf P S (ts ! i) (gs ! i)" "length gs = length ts"
    "q \<in> calls_of (ts ! i) \<Longrightarrow> q < length (snd P)"
    "q \<in> calls_of (ts ! i) \<Longrightarrow> j < length ts \<Longrightarrow> j \<noteq> i \<Longrightarrow> q \<notin> calls_of (ts ! j)"
  using assms unfolding tasks_ok_def by blast+

text \<open>A delivery goes on, holding what it held or less.\<close>

lemma task_goes_on:
  assumes ok: "host_ok l cf m st P S ts gs" and i: "i < length ts"
    and t': "task_ok cf P S t' g'" "calls_of t' \<subseteq> calls_of (ts ! i)"
    and rel: "\<And>q. released S ts gs q \<Longrightarrow> dt_wait t' \<noteq> OnJournal q \<and> (dt_permit t' = Some q \<longrightarrow> (\<forall>n. g' \<noteq> Held n))"
  shows "host_ok l cf m st P S (ts[i := t']) (gs[i := g'])"
proof -
  have tasks: "tasks_ok cf P S ts gs" and e: "ends_ok cf P (released S ts gs)" using ok by (simp_all add: host_ok_def)
  have "ends_ok cf P (released S (ts[i := t']) (gs[i := g']))"
    by (rule ends_mono [OF e], rule released_update) (use i rel tasks_okD(2) [OF tasks i] in auto)
  moreover have "tasks_ok cf P S (ts[i := t']) (gs[i := g'])"
    by (rule tasks_update [OF tasks i t'(1)]) (use t'(2) in blast)
  ultimately show ?thesis using ok by (simp add: host_ok_def)
qed

lemma released_task:
  "released S ts gs q \<Longrightarrow> i < length ts \<Longrightarrow> dt_wait (ts ! i) \<noteq> OnJournal q \<and> (dt_permit (ts ! i) = Some q \<longrightarrow> (\<forall>n. gs ! i \<noteq> Held n))"
  by (simp add: released_def)

lemma holds_same: "dt_permit t' = dt_permit t \<Longrightarrow> dt_key t' = dt_key t \<Longrightarrow> holds_ok cf P S t' g \<longleftrightarrow> holds_ok cf P S t g"
  by (cases g) (simp_all add: permitted_def)

text \<open>An answer of the host itself.\<close>

lemma quiet_ok:
  assumes ok: "host_ok l cf m st P S ts gs" and i: "i < length ts" "ts ! i = t" and idle: "dt_wait t = Idle"
    and p': "safely (dt_key t) p' (gs ! i)"
  shows "host_ok l cf m st P S (ts[i := t\<lparr>dt_prog := p'\<rparr>]) (gs[i := gs ! i])"
proof (rule task_goes_on [OF ok i(1)])
  have "tasks_ok cf P S ts gs" using ok by (simp add: host_ok_def)
  then have "task_ok cf P S t (gs ! i)" using tasks_okD(1) i by blast
  then show "task_ok cf P S (t\<lparr>dt_prog := p'\<rparr>) (gs ! i)"
    using idle p' holds_same [of "t\<lparr>dt_prog := p'\<rparr>" t] by (simp add: task_ok_def)
qed (use i idle released_task in \<open>auto simp: calls_of_def\<close>)

text \<open>A delivery asks the journal.\<close>

lemma holds_issued: "holds_ok cf P S t g \<Longrightarrow> holds_ok cf P S t (issued c g)"
  by (cases c) (auto simp: issued_def)

lemma issued_held: "issued c g = Held n \<Longrightarrow> g = Held n"
  by (cases c) (auto simp: issued_def split: if_splits)

lemma permit_apart:
  assumes "tasks_ok cf P S ts gs" "i < length ts" "dt_permit (ts ! i) = Some q" "j < length ts" "j \<noteq> i"
  shows "dt_wait (ts ! j) \<noteq> OnJournal q" "dt_permit (ts ! j) \<noteq> Some q"
  using tasks_okD(4) [OF assms(1,2) calls_of_simps(2) [OF assms(3)] assms(4,5)] calls_of_simps by blast+

text \<open>What it gives back when it asks to fail an attempt.\<close>

lemma fail_releases:
  assumes tasks: "tasks_ok cf P S ts gs" and i: "i < length ts" "ts ! i = t"
    and may: "may_issue (dt_key t) c (gs ! i)" and fails: "fails cf c rk n" and holds: "holds_ok cf P S t (gs ! i)"
    and t': "dt_wait t' = OnJournal (length (snd P))"
  shows "\<exists>q. grant cf P q rk n \<and> released S (ts[i := t']) (gs[i := issued c (gs ! i)]) q"
proof -
  obtain x where c: "c = SettleDelivery x" "receipt_key cf (si_key x) = Some rk" "n \<in> fails_attempts x"
    using fails by (auto simp: fails_def)
  then have key: "si_key x = JStr (dt_key t)" and g: "gs ! i = Held n \<or> gs ! i = MayFail n" using may by auto
  have closed: "issued c (gs ! i) = Closed" using c by (auto simp: issued_def)
  obtain q where q: "permitted cf P t q n" and sent: "\<forall>e \<in> set S. sn_permit e = Some q \<longrightarrow> said_failed e"
    using holds g by auto
  then have grant: "grant cf P q rk n" and permit: "dt_permit (ts ! i) = Some q" using key c(2) i by (auto simp: permitted_def)
  have "q < length (snd P)" using tasks_okD(3) [OF tasks i(1) calls_of_simps(2) [OF permit]] .
  then have "released S (ts[i := t']) (gs[i := issued c (gs ! i)]) q"
    using sent closed t' i permit_apart [OF tasks i(1) permit] tasks_okD(2) [OF tasks i(1)]
    by (auto simp: released_def nth_list_update)
  with grant show ?thesis by blast
qed

lemma asks_ok:
  assumes ok: "host_ok l cf m st (st0, cs) S ts gs" and i: "i < length ts" "ts ! i = t" and idle: "dt_wait t = Idle"
    and p: "dt_prog t = AskJournal c f"
  shows "host_ok l cf m st (st0, cs @ [(c, journal_prog cf c)]) S (ts[i := t\<lparr>dt_wait := OnJournal (length cs)\<rparr>])
    (gs[i := issued c (gs ! i)])"
proof -
  let ?P = "(st0, cs)" and ?P' = "(st0, cs @ [(c, journal_prog cf c)])" and ?t' = "t\<lparr>dt_wait := OnJournal (length cs)\<rparr>"
  have P: "served l cf m st ?P" and tasks: "tasks_ok cf ?P S ts gs" and sent: "sent_ok cf ?P S"
    and e: "ends_ok cf ?P (released S ts gs)" using ok by (simp_all add: host_ok_def)
  have t: "task_ok cf ?P S t (gs ! i)" using tasks_okD(1) [OF tasks i(1)] i(2) by simp
  then have may: "may_issue (dt_key t) c (gs ! i)" and safe: "\<And>r. safely (dt_key t) (f r) (granted c r (issued c (gs ! i)))"
    and holds: "holds_ok cf ?P S t (gs ! i)"
    using idle p by (simp_all add: task_ok_def)
  have m: "retains c \<longrightarrow> m" using may by (cases c) (auto simp: retains_def)
  have old: "\<forall>e \<in> set S. sn_permit e \<noteq> Some (length cs)"
    using sent grant_counted(4) [OF P] unfolding sent_ok_def by fastforce
  have "ends_ok cf ?P (released S (ts[i := ?t']) (gs[i := issued c (gs ! i)]))"
  proof (rule ends_mono [OF e], rule released_update)
    fix q rk n assume g: "grant cf ?P q rk n" and q: "released S ts gs q"
    show "dt_wait ?t' \<noteq> OnJournal q" using grant_counted(4) [OF P g] by auto
    show "\<forall>n. issued c (gs ! i) \<noteq> Held n" if "dt_permit ?t' = Some q"
      using released_task [OF q i(1)] that i(2) by (auto dest: issued_held)
  qed (use i tasks_okD(2) [OF tasks i(1)] in auto)
  moreover have "\<exists>q. grant cf ?P q rk n \<and> released S (ts[i := ?t']) (gs[i := issued c (gs ! i)]) q" if "fails cf c rk n" for rk n
    using fail_releases [OF tasks i may that holds, of ?t'] by simp
  ultimately have new: "served l cf m st ?P'" "ends_ok cf ?P' (released S (ts[i := ?t']) (gs[i := issued c (gs ! i)]))"
    "pool_grows cf ?P ?P'"
    using ends_append [OF P m] by blast+
  have grows: "pool_grows cf ?P ?P'" using new(3) by simp
  have "task_ok cf ?P' S ?t' (issued c (gs ! i))"
  proof -
    have "holds_ok cf ?P' S t (issued c (gs ! i))"
      using task_ok_grows [OF grows t] holds_issued by (simp add: task_ok_def)
    moreover have "di_key x = JStr (dt_key t)" if "c = PrepareDelivery x" for x using may that by simp
    ultimately show ?thesis using p safe old holds_same [of ?t' t] by (simp add: task_ok_def asking_def)
  qed
  moreover have "q \<in> calls_of (ts ! i) \<or> q < length (snd ?P') \<and> (\<forall>j < length ts. q \<notin> calls_of (ts ! j))" if "q \<in> calls_of ?t'" for q
    using that tasks_okD(3) [OF tasks] i(2) by (fastforce simp: calls_of_def)
  ultimately have "tasks_ok cf ?P' S (ts[i := ?t']) (gs[i := issued c (gs ! i)])"
    by (intro tasks_update [OF tasks_ok_grows [OF grows tasks] i(1)])
  then show ?thesis using new sent_ok_grows [OF grows sent] by (simp add: host_ok_def)
qed

end
