(* ===== verification/HostMoves.thy ===== *)
theory HostMoves
  imports HostKept
begin

text \<open>The steps of a host that answer a delivery, use its permission, start deliveries or lose them; and
  so every run of a host.\<close>

section \<open>Answers of the journal\<close>

lemma granted_refused: "granted c (Inl e) g = g"
  by (cases c) simp_all

lemma grant_from:
  assumes "served l cf m st P" "answered P q (PrepareDelivery i) (DeliveryAnswer (DeliverySend n t))" "di_key i = JStr k"
  shows "\<exists>rk. receipt_key cf (JStr k) = Some rk \<and> grant cf P q rk n"
proof -
  have "call_answer cf (PrepareDelivery i) (DeliveryAnswer (DeliverySend n t)) (st_snap (fst P))"
    using journal.run_answers(1) [OF served_run(1) [OF assms(1)] journal.sound_empty [OF served_run(3) [OF assms(1)]]
        served_run(2) [OF assms(1)] assms(2)] .
  then obtain rk where "receipt_key cf (di_key i) = Some rk" by auto
  then show ?thesis using assms(2,3) by (auto simp: grant_def)
qed

definition gives_permission :: "journal_call \<Rightarrow> journal_answer \<Rightarrow> bool" where
  "gives_permission c x \<longleftrightarrow> (\<exists>i n t. c = PrepareDelivery i \<and> x = DeliveryAnswer (DeliverySend n t))"

lemma permission_kept: "\<not> gives_permission c x \<Longrightarrow> permission q c x p = p \<and> granted c (Inr x) g = g"
proof (cases c)
  case (PrepareDelivery i)
  moreover assume "\<not> gives_permission c x"
  ultimately show ?thesis
  proof (cases x)
    case (DeliveryAnswer a)
    then show ?thesis using PrepareDelivery \<open>\<not> gives_permission c x\<close> by (cases a) (auto simp: gives_permission_def)
  qed (simp_all add: PrepareDelivery)
qed simp_all

lemma answered_ok:
  assumes ok: "host_ok l cf m st P S ts gs" and i: "i < length ts" "ts ! i = t" and wait: "dt_wait t = OnJournal q"
    and p: "dt_prog t = AskJournal c f" and a: "answered P q c x"
  shows "host_ok l cf m st P S (ts[i := t\<lparr>dt_prog := f (Inr x), dt_wait := Idle, dt_permit := permission q c x (dt_permit t)\<rparr>])
    (gs[i := granted c (Inr x) (gs ! i)])"
proof -
  let ?t' = "t\<lparr>dt_prog := f (Inr x), dt_wait := Idle, dt_permit := permission q c x (dt_permit t)\<rparr>"
  have P: "served l cf m st P" and tasks: "tasks_ok cf P S ts gs" using ok by (simp_all add: host_ok_def)
  have t: "task_ok cf P S t (gs ! i)" using tasks_okD(1) [OF tasks i(1)] i(2) by simp
  then have asking: "asking P S t (gs ! i) q" and holds: "holds_ok cf P S t (gs ! i)" using wait by (simp_all add: task_ok_def)
  then have safe: "safely (dt_key t) (f (Inr x)) (granted c (Inr x) (gs ! i))" using p by (auto simp: asking_def)
  show ?thesis
  proof (cases "gives_permission c x")
    case False
    note kept = permission_kept [OF False]
    have same: "holds_ok cf P S ?t' (gs ! i) \<longleftrightarrow> holds_ok cf P S t (gs ! i)" by (rule holds_same) (simp_all add: kept)
    show ?thesis
      by (rule task_goes_on [OF ok i(1)])
        (use i safe holds same kept released_task in \<open>auto simp: task_ok_def calls_of_def\<close>)
  next
    case True
    then obtain j n u where c: "c = PrepareDelivery j" "x = DeliveryAnswer (DeliverySend n u)" by (auto simp: gives_permission_def)
    have unsent: "\<forall>e \<in> set S. sn_permit e \<noteq> Some q" and key: "di_key j = JStr (dt_key t)"
      using asking p c(1) by (auto simp: asking_def)
    have "permitted cf P ?t' q n" using grant_from [OF P a [unfolded c] key] c by (simp add: permitted_def)
    then have "task_ok cf P S ?t' (granted c (Inr x) (gs ! i))" using unsent safe c by (auto simp: task_ok_def)
    then show ?thesis
      by (rule task_goes_on [OF ok i(1)]) (use i wait c released_task in \<open>auto simp: calls_of_def\<close>)
  qed
qed

lemma gives_up_ok:
  assumes ok: "host_ok l cf m st P S ts gs" and i: "i < length ts" "ts ! i = t" and p: "dt_prog t = AskJournal c f"
  shows "\<exists>g'. host_ok l cf m st P S (ts[i := t\<lparr>dt_prog := f (Inl e), dt_wait := Idle\<rparr>]) (gs[i := g'])"
proof -
  let ?t' = "t\<lparr>dt_prog := f (Inl e), dt_wait := Idle\<rparr>"
  have tasks: "tasks_ok cf P S ts gs" using ok by (simp add: host_ok_def)
  have t: "task_ok cf P S t (gs ! i)" using tasks_okD(1) [OF tasks i(1)] i(2) by simp
  define g' where "g' = (if dt_wait t = Idle then issued c (gs ! i) else gs ! i)"
  have safe: "safely (dt_key t) (f (Inl e)) g'" and holds: "holds_ok cf P S t g'"
    using t p holds_issued unfolding g'_def
    by (auto simp: task_ok_def asking_def sending_def granted_refused split: wait.splits)
      (metis granted_refused)+
  have same: "holds_ok cf P S ?t' g' \<longleftrightarrow> holds_ok cf P S t g'" by (rule holds_same) simp_all
  have held: "g' = Held n \<Longrightarrow> gs ! i = Held n" for n by (auto simp: g'_def dest: issued_held split: if_splits)
  have "host_ok l cf m st P S (ts[i := ?t']) (gs[i := g'])"
    by (rule task_goes_on [OF ok i(1)])
      (use i safe holds same held released_task in \<open>auto simp: task_ok_def calls_of_def\<close>)
  then show ?thesis by blast
qed

section \<open>The channel\<close>

text \<open>The log moves on at the messages sent on one permission only.\<close>

definition moves_on :: "nat \<Rightarrow> sent list \<Rightarrow> sent list \<Rightarrow> bool" where
  "moves_on q S S' \<longleftrightarrow>
     length S \<le> length S' \<and> (\<forall>e \<in> set S'. sn_permit e = Some q \<or> e \<in> set S)
     \<and> (\<forall>i < length S. sn_permit (S ! i) \<noteq> Some q \<longrightarrow> S' ! i = S ! i)"

lemma moves_on_other: "moves_on q S S' \<Longrightarrow> e \<in> set S' \<Longrightarrow> sn_permit e = Some q' \<Longrightarrow> q' \<noteq> q \<Longrightarrow> e \<in> set S"
  by (auto simp: moves_on_def)

lemma sendingI:
  "dt_prog t = AskChannel m f \<Longrightarrow> g = Closed \<Longrightarrow> permitted cf P t q n \<Longrightarrow> j < length S \<Longrightarrow>
   S ! j = \<lparr>sn_key = dt_key t, sn_permit = Some q, sn_answer = None\<rparr> \<Longrightarrow>
   (\<And>v. safely (dt_key t) (f v) (after_answer (dt_key t) n v)) \<Longrightarrow> sending cf P S t g j"
  unfolding sending_def
  by (rule exI [of _ m], rule exI [of _ f], rule exI [of _ n], rule exI [of _ q]) simp

lemma task_ok_moves:
  assumes "moves_on q S S'" "q \<notin> calls_of t" "task_ok cf P S t g"
  shows "task_ok cf P S' t g"
proof -
  have permit: "dt_permit t = Some q' \<Longrightarrow> q' \<noteq> q" and wait: "dt_wait t = OnJournal q' \<Longrightarrow> q' \<noteq> q" for q'
    using assms(2) calls_of_simps by blast+
  have "holds_ok cf P S t g" using assms(3) by (simp add: task_ok_def)
  then have holds: "holds_ok cf P S' t g"
    by (cases g) (auto simp: permitted_def dest: permit moves_on_other [OF assms(1)])
  show ?thesis
  proof (cases "dt_wait t")
    case (OnJournal q')
    then have "asking P S' t g q'"
      using assms(3) wait [OF OnJournal] moves_on_other [OF assms(1)] unfolding task_ok_def asking_def by (simp, meson)
    then show ?thesis using holds OnJournal by (simp add: task_ok_def)
  next
    case (OnChannel j)
    then have "sending cf P S t g j" using assms(3) by (simp add: task_ok_def)
    then obtain m f n q' where s: "dt_prog t = AskChannel m f" "g = Closed" "permitted cf P t q' n" "j < length S"
        "S ! j = \<lparr>sn_key = dt_key t, sn_permit = Some q', sn_answer = None\<rparr>"
        "\<forall>v. safely (dt_key t) (f v) (after_answer (dt_key t) n v)"
      unfolding sending_def by (elim exE conjE) (erule that, assumption+)
    have "q' \<noteq> q" using s(3) permit by (simp add: permitted_def)
    then have j: "j < length S'" "S' ! j = S ! j" using assms(1) s(4,5) by (auto simp: moves_on_def)
    have "sending cf P S' t g j" by (rule sendingI [OF s(1-3) j(1) trans [OF j(2) s(5)]]) (use s(6) in blast)
    then show ?thesis using holds OnChannel by (simp add: task_ok_def)
  qed (use assms(3) holds in \<open>simp add: task_ok_def\<close>)
qed

lemma channel_step_ok:
  assumes ok: "host_ok l cf m st P S ts gs" and i: "i < length ts" and permit: "dt_permit (ts ! i) = Some q"
    and moves: "moves_on q S S'" and sent: "sent_ok cf P S'" and rel: "\<not> released S ts gs q"
    and t': "task_ok cf P S' t' g'" "dt_permit t' = Some q" "\<forall>k. dt_wait t' \<noteq> OnJournal k"
  shows "host_ok l cf m st P S' (ts[i := t']) (gs[i := g'])"
proof -
  have tasks: "tasks_ok cf P S ts gs" and e: "ends_ok cf P (released S ts gs)" using ok by (simp_all add: host_ok_def)
  have calls: "calls_of t' = {q}" using t'(2,3) by (auto simp: calls_of_def split: wait.splits)
  have mine: "q \<in> calls_of (ts ! i)" by (rule calls_of_simps(2) [OF permit])
  have sub: "calls_of (ts[i := t'] ! k) \<subseteq> calls_of (ts ! k)" if "k < length ts" for k
    using that i calls mine by (cases "k = i") simp_all
  have "tasks_ok cf P S' (ts[i := t']) (gs[i := g'])"
    unfolding tasks_ok_def
  proof (intro conjI allI impI ballI)
    show "length (gs[i := g']) = length (ts[i := t'])" using tasks_okD(2) [OF tasks i] by simp
    fix j assume j: "j < length (ts[i := t'])"
    show "task_ok cf P S' (ts[i := t'] ! j) (gs[i := g'] ! j)"
    proof (cases "j = i")
      case True
      then show ?thesis using t'(1) i tasks_okD(2) [OF tasks i] by simp
    next
      case False
      with j have "q \<notin> calls_of (ts ! j)" "task_ok cf P S (ts ! j) (gs ! j)"
        using tasks_okD(4) [OF tasks i mine] tasks_okD(1) [OF tasks] by simp_all
      from task_ok_moves [OF moves this] show ?thesis using False by simp
    qed
    have j': "j < length ts" using j by simp
    show "k < length (snd P)" if "k \<in> calls_of (ts[i := t'] ! j)" for k
      by (rule tasks_okD(3) [OF tasks j' subsetD [OF sub [OF j'] that]])
    show "calls_of (ts[i := t'] ! j) \<inter> calls_of (ts[i := t'] ! k) = {}" if "k < length (ts[i := t'])" "j \<noteq> k" for k
    proof -
      have k: "k < length ts" using that by simp
      have "calls_of (ts ! j) \<inter> calls_of (ts ! k) = {}" using tasks_okD(4) [OF tasks j' _ k] that(2) by blast
      with sub [OF j'] sub [OF k] show ?thesis by blast
    qed
  qed
  moreover have "ends_ok cf P (released S' (ts[i := t']) (gs[i := g']))"
  proof (rule ends_mono [OF e], rule released_update)
    fix k rk n assume k: "released S ts gs k"
    then have "k \<noteq> q" using rel by auto
    then show "released S' ts gs k" using k moves_on_other [OF moves] by (auto simp: released_def)
    show "dt_wait t' \<noteq> OnJournal k" using t'(3) by simp
    show "\<forall>n. g' \<noteq> Held n" if "dt_permit t' = Some k" using that t'(2) \<open>k \<noteq> q\<close> by simp
  qed (use i tasks_okD(2) [OF tasks i] in auto)
  ultimately show ?thesis using ok sent by (simp add: host_ok_def)
qed

text \<open>An attempt that may be sent is the latest of its receipt, so the earlier ones are over.\<close>

lemma earlier_said_failed:
  assumes ok: "host_ok l cf m st P S ts gs" and q: "grant cf P q rk n" "\<not> released S ts gs q" "\<forall>e \<in> set S. sn_permit e \<noteq> Some q"
    and e: "e \<in> set S" "receipt_key cf (JStr (sn_key e)) = Some rk"
  shows "said_failed e"
proof -
  have P: "served l cf m st P" and sent: "sent_ok cf P S" and ends: "ends_ok cf P (released S ts gs)" using ok by (simp_all add: host_ok_def)
  obtain q' n' where e': "sn_permit e = Some q'" "grant cf P q' rk n'"
    using sent e unfolding sent_ok_def by (metis option.inject)
  have "\<not> attempt_over (receipt_at (st_snap (fst P)) rk) n" by (rule unreleased(1) [OF ok q(1,2)])
  then have n: "n = attempts_of (receipt_at (st_snap (fst P)) rk)"
    using grant_counted(2) [OF P q(1)] by (auto simp: attempt_over_def)
  have "n' \<noteq> n" using grant_apart [OF P q(1)] e' q(3) e(1) by metis
  then have "attempt_over (receipt_at (st_snap (fst P)) rk) n'"
    using grant_counted(2) [OF P e'(2)] n by (auto simp: attempt_over_def)
  from ends_okD(2) [OF ends e'(2) this] show ?thesis using e(1) e'(1) by (auto simp: released_def)
qed

lemma sent_ok_append:
  assumes "sent_ok cf P S" "sn_permit e = Some q" "receipt_key cf (JStr (sn_key e)) = Some rk" "grant cf P q rk n"
    and "\<forall>e \<in> set S. sn_permit e \<noteq> Some q" "\<And>d. d \<in> set S \<Longrightarrow> sn_key d = sn_key e \<Longrightarrow> said_failed d"
  shows "sent_ok cf P (S @ [e])"
  unfolding sent_ok_def
proof (intro conjI)
  show "\<forall>d \<in> set (S @ [e]). \<exists>q rk n. sn_permit d = Some q \<and> receipt_key cf (JStr (sn_key d)) = Some rk \<and> grant cf P q rk n"
    using assms(1-4) by (simp add: sent_ok_def) blast
  show "distinct (map sn_permit (S @ [e]))" using assms(1,2,5) by (auto simp: sent_ok_def)
  show "\<forall>j < length (S @ [e]). \<forall>i < j. sn_key ((S @ [e]) ! i) = sn_key ((S @ [e]) ! j) \<longrightarrow> said_failed ((S @ [e]) ! i)"
    using assms(1,6) by (auto simp: sent_ok_def nth_append less_Suc_eq)
qed

lemma sends_ok:
  assumes ok: "host_ok l cf m st P S ts gs" and i: "i < length ts" "ts ! i = t" and idle: "dt_wait t = Idle"
    and p: "dt_prog t = AskChannel msg f"
  shows "host_ok l cf m st P (S @ [\<lparr>sn_key = om_key msg, sn_permit = dt_permit t, sn_answer = None\<rparr>])
    (ts[i := t\<lparr>dt_wait := OnChannel (length S)\<rparr>]) (gs[i := Closed])"
proof -
  have tasks: "tasks_ok cf P S ts gs" and sent: "sent_ok cf P S" using ok by (simp_all add: host_ok_def)
  have t: "task_ok cf P S t (gs ! i)" using tasks_okD(1) [OF tasks i(1)] i(2) by simp
  then obtain n where key: "om_key msg = dt_key t" and held: "gs ! i = Held n"
    and safe: "\<And>v. safely (dt_key t) (f v) (after_answer (dt_key t) n v)"
    using idle p by (auto simp: task_ok_def)
  obtain q where q: "permitted cf P t q n" "\<forall>e \<in> set S. sn_permit e \<noteq> Some q" using t held by (auto simp: task_ok_def)
  then obtain rk where permit: "dt_permit t = Some q" and rk: "receipt_key cf (JStr (dt_key t)) = Some rk" "grant cf P q rk n"
    by (auto simp: permitted_def)
  let ?e = "\<lparr>sn_key = om_key msg, sn_permit = dt_permit t, sn_answer = None\<rparr>" and ?t' = "t\<lparr>dt_wait := OnChannel (length S)\<rparr>"
  have rel: "\<not> released S ts gs q" using i permit held by (auto simp: released_def)
  show ?thesis
  proof (rule channel_step_ok [OF ok i(1) _ _ _ rel])
    show "dt_permit (ts ! i) = Some q" "dt_permit ?t' = Some q" "\<forall>k. dt_wait ?t' \<noteq> OnJournal k" using i(2) permit by simp_all
    show "moves_on q S (S @ [?e])" using permit by (auto simp: moves_on_def nth_append)
    show "sent_ok cf P (S @ [?e])"
    proof (rule sent_ok_append [OF sent _ _ rk(2) q(2)])
      fix d assume d: "d \<in> set S" "sn_key d = sn_key ?e"
      show "said_failed d" by (rule earlier_said_failed [OF ok rk(2) rel q(2) d(1)]) (use d(2) key rk(1) in simp)
    qed (use permit key rk(1) in simp_all)
    have "permitted cf P ?t' q n" using q(1) by (simp add: permitted_def)
    then have "sending cf P (S @ [?e]) ?t' Closed (length S)"
      by (rule sendingI [of _ msg f, rotated 2]) (use p key permit safe in simp_all)
    then show "task_ok cf P (S @ [?e]) ?t' Closed" by (simp add: task_ok_def)
  qed
qed

section \<open>The channel answers\<close>

lemma sent_ok_answer:
  assumes sent: "sent_ok cf P S" and j: "j < length S" "sn_answer (S ! j) = None"
  shows "sent_ok cf P (S[j := (S ! j)\<lparr>sn_answer := Some v\<rparr>])"
proof -
  let ?e = "(S ! j)\<lparr>sn_answer := Some v\<rparr>"
  have grants: "\<forall>e \<in> set S. \<exists>q rk n. sn_permit e = Some q \<and> receipt_key cf (JStr (sn_key e)) = Some rk \<and> grant cf P q rk n"
    and apart: "distinct (map sn_permit S)"
    and order: "\<And>i k. k < length S \<Longrightarrow> i < k \<Longrightarrow> sn_key (S ! i) = sn_key (S ! k) \<Longrightarrow> said_failed (S ! i)"
    using sent unfolding sent_ok_def by blast+
  have "map sn_permit (S[j := ?e]) = map sn_permit S" using j(1) by (simp add: map_update list_update_same_conv)
  then have "distinct (map sn_permit (S[j := ?e]))" using apart by simp
  moreover have "\<exists>q rk n. sn_permit e = Some q \<and> receipt_key cf (JStr (sn_key e)) = Some rk \<and> grant cf P q rk n" if "e \<in> set (S[j := ?e])" for e
  proof -
    have "e \<in> insert ?e (set S)" by (rule subsetD [OF set_update_subset_insert that])
    then consider "e \<in> set S" | "e = ?e" by blast
    then show ?thesis
    proof cases
      case 2
      then show ?thesis using grants nth_mem [OF j(1)] by simp
    qed (use grants in blast)
  qed
  moreover have "said_failed (S[j := ?e] ! i)" if k: "k < length S" "i < k" "sn_key (S[j := ?e] ! i) = sn_key (S[j := ?e] ! k)" for i k
  proof -
    have "sn_key (S[j := ?e] ! x) = sn_key (S ! x)" for x using j(1) by (cases "x = j") simp_all
    then have "said_failed (S ! i)" using order [OF k(1,2)] k(3) by simp
    moreover have "i \<noteq> j" using calculation j(2) by (auto simp: said_failed_def)
    ultimately show ?thesis by simp
  qed
  ultimately show ?thesis unfolding sent_ok_def by simp
qed

lemma sent_answer_ok:
  assumes ok: "host_ok l cf m st P S ts gs" and i: "i < length ts" "ts ! i = t" and wait: "dt_wait t = OnChannel j"
    and p: "dt_prog t = AskChannel msg f"
  shows "\<exists>g'. host_ok l cf m st P (S[j := (S ! j)\<lparr>sn_answer := Some v\<rparr>]) (ts[i := t\<lparr>dt_prog := f v, dt_wait := Idle\<rparr>]) (gs[i := g'])"
proof -
  have tasks: "tasks_ok cf P S ts gs" and sent: "sent_ok cf P S" using ok by (simp_all add: host_ok_def)
  have "task_ok cf P S t (gs ! i)" using tasks_okD(1) [OF tasks i(1)] i(2) by simp
  then obtain n q where q: "permitted cf P t q n" and j: "j < length S" "S ! j = \<lparr>sn_key = dt_key t, sn_permit = Some q, sn_answer = None\<rparr>"
    and safe: "\<And>v. safely (dt_key t) (f v) (after_answer (dt_key t) n v)"
    using wait p by (auto simp: task_ok_def sending_def)
  let ?e = "(S ! j)\<lparr>sn_answer := Some v\<rparr>" and ?t' = "t\<lparr>dt_prog := f v, dt_wait := Idle\<rparr>" and ?g' = "after_answer (dt_key t) n v"
  have permit: "dt_permit t = Some q" using q by (simp add: permitted_def)
  have e: "?e = \<lparr>sn_key = dt_key t, sn_permit = Some q, sn_answer = Some v\<rparr>" using j(2) by simp
  have "S ! j \<in> set S" "sn_permit (S ! j) = Some q" "\<not> said_failed (S ! j)"
    using nth_mem [OF j(1)] by (simp, simp add: j(2), simp add: j(2) said_failed_def)
  then have rel: "\<not> released S ts gs q" unfolding released_def by blast
  have only: "d = ?e" if d: "d \<in> set (S[j := ?e])" "sn_permit d = Some q" for d
  proof -
    obtain x where x: "x < length S" "d = S[j := ?e] ! x" using d(1) by (auto simp: in_set_conv_nth)
    have "sn_permit (S ! x) = sn_permit (S ! j)" using x d(2) j by (cases "x = j") simp_all
    then have "x = j" using sent x(1) j(1) by (simp add: sent_ok_def distinct_conv_nth) (metis length_map nth_map)
    with x j(1) show ?thesis by simp
  qed
  have "host_ok l cf m st P (S[j := ?e]) (ts[i := ?t']) (gs[i := ?g'])"
  proof (rule channel_step_ok [OF ok i(1) _ _ _ rel])
    show "dt_permit (ts ! i) = Some q" "dt_permit ?t' = Some q" "\<forall>k. dt_wait ?t' \<noteq> OnJournal k" using i(2) permit by simp_all
    show "moves_on q S (S[j := ?e])"
      using set_update_subset_insert [of S j ?e] j unfolding moves_on_def e by (auto simp: nth_list_update)
    show "sent_ok cf P (S[j := ?e])" by (rule sent_ok_answer [OF sent j(1)]) (simp add: j(2))
    have "holds_ok cf P (S[j := ?e]) ?t' ?g'"
    proof (cases "reads_failed (dt_key t) v")
      case True
      then have "said_failed ?e" unfolding e by (simp add: said_failed_def)
      then have "\<forall>d \<in> set (S[j := ?e]). sn_permit d = Some q \<longrightarrow> said_failed d" using only by metis
      moreover have "permitted cf P ?t' q n" using q by (simp add: permitted_def)
      ultimately show ?thesis using True by (auto simp: after_answer_def)
    qed (simp add: after_answer_def)
    then show "task_ok cf P (S[j := ?e]) ?t' ?g'" using safe by (simp add: task_ok_def)
  qed
  then show ?thesis by blast
qed

section \<open>Deliveries begin and are lost\<close>

lemma delivers_ok:
  assumes ok: "host_ok l cf m st P S ts gs" and t: "dt_wait t = Idle" "dt_permit t = None" "safely (dt_key t) (dt_prog t) Fresh"
  shows "host_ok l cf m st P S (ts @ [t]) (gs @ [Fresh])"
proof -
  have tasks: "tasks_ok cf P S ts gs" and e: "ends_ok cf P (released S ts gs)" using ok by (simp_all add: host_ok_def)
  have len: "length gs = length ts" using tasks by (simp add: tasks_ok_def)
  have calls: "calls_of t = {}" using t by (simp add: calls_of_def)
  have new: "task_ok cf P S t Fresh" using t by (simp add: task_ok_def)
  have "tasks_ok cf P S (ts @ [t]) (gs @ [Fresh])"
    unfolding tasks_ok_def
  proof (intro conjI allI impI ballI)
    show "length (gs @ [Fresh]) = length (ts @ [t])" using len by simp
    fix i assume i: "i < length (ts @ [t])"
    show "task_ok cf P S ((ts @ [t]) ! i) ((gs @ [Fresh]) ! i)"
      using i new tasks_okD(1) [OF tasks] len by (cases "i < length ts") (simp_all add: nth_append less_Suc_eq)
    show "q < length (snd P)" if "q \<in> calls_of ((ts @ [t]) ! i)" for q
      using that i calls tasks_okD(3) [OF tasks] by (cases "i < length ts") (simp_all add: nth_append less_Suc_eq)
    show "calls_of ((ts @ [t]) ! i) \<inter> calls_of ((ts @ [t]) ! j) = {}" if "j < length (ts @ [t])" "i \<noteq> j" for j
    proof (cases "i < length ts \<and> j < length ts")
      case True
      then have "calls_of (ts ! i) \<inter> calls_of (ts ! j) = {}" using tasks_okD(4) [OF tasks, of i _ j] that(2) by blast
      with True show ?thesis by (simp add: nth_append)
    next
      case False
      then have "(ts @ [t]) ! i = t \<or> (ts @ [t]) ! j = t" using i that(1) by (auto simp: nth_append less_Suc_eq)
      then show ?thesis using calls by auto
    qed
  qed
  moreover have "ends_ok cf P (released S (ts @ [t]) (gs @ [Fresh]))"
    by (rule ends_mono [OF e]) (use t len in \<open>auto simp: released_def nth_append less_Suc_eq\<close>)
  ultimately show ?thesis using ok by (simp add: host_ok_def)
qed

lemma stops_ok:
  assumes "host_ok l cf m st P S ts gs"
  shows "host_ok l cf m st P S [] []"
proof -
  have "ends_ok cf P (released S ts gs)" using assms by (simp add: host_ok_def)
  then have "ends_ok cf P (released S [] [])" by (rule ends_mono) (simp add: released_def)
  then show ?thesis using assms by (simp add: host_ok_def tasks_ok_def)
qed

section \<open>Every run of a host\<close>

definition host_inv :: "limits \<Rightarrow> config \<Rightarrow> bool \<Rightarrow> store \<Rightarrow> host \<Rightarrow> bool" where
  "host_inv l cf m st h \<longleftrightarrow> (\<exists>gs. host_ok l cf m st (hs_pool h) (hs_sent h) (hs_tasks h) gs)"

lemma host_invI: "host_ok l cf m st (hs_pool h) (hs_sent h) (hs_tasks h) gs \<Longrightarrow> host_inv l cf m st h"
  unfolding host_inv_def by blast

lemma task_step_inv:
  assumes "task_step cf h h'" "host_inv l cf m st h"
  shows "host_inv l cf m st h'"
proof -
  obtain gs where ok: "host_ok l cf m st (hs_pool h) (hs_sent h) (hs_tasks h) gs" using assms(2) by (auto simp: host_inv_def)
  have quiet: "host_inv l cf m st (with_task i (t\<lparr>dt_prog := p'\<rparr>) h1)"
    if "task_at h i t" "safely (dt_key t) p' (gs ! i)" "dt_wait t = Idle"
      "hs_pool h1 = hs_pool h" "hs_sent h1 = hs_sent h" "hs_tasks h1 = hs_tasks h" for i t p' h1
    by (rule host_invI [of _ _ _ _ _ "gs[i := gs ! i]"])
      (use quiet_ok [OF ok _ _ that(3,2)] that in \<open>simp add: with_task_def\<close>)
  have at: "task_ok cf (hs_pool h) (hs_sent h) t (gs ! i)" if "task_at h i t" for i t
    using ok tasks_okD(1) that unfolding host_ok_def by blast
  show ?thesis
    using assms(1)
  proof cases
    case (task_asks i t c f st0 cs)
    have "host_ok l cf m st (st0, cs) (hs_sent h) (hs_tasks h) gs" using ok task_asks by simp
    from asks_ok [OF this _ _ task_asks(3,4), of i] task_asks(2)
    show ?thesis unfolding task_asks(1) by (intro host_invI) (simp add: with_task_def)
  next
    case (task_answered i t q c f x)
    from answered_ok [OF ok _ _ task_answered(3,4,5), of i] task_answered(2)
    show ?thesis unfolding task_answered(1) by (intro host_invI) (simp add: with_task_def)
  next
    case (task_gives_up i t c f e)
    from gives_up_ok [OF ok _ _ task_gives_up(3), of i e] task_gives_up(2)
    obtain g' where "host_ok l cf m st (hs_pool h) (hs_sent h) ((hs_tasks h)[i := t\<lparr>dt_prog := f (Inl e), dt_wait := Idle\<rparr>]) (gs[i := g'])"
      by auto
    then show ?thesis unfolding task_gives_up(1) by (intro host_invI) (simp add: with_task_def)
  next
    case (task_sends i t msg g)
    from sends_ok [OF ok _ _ task_sends(3,4), of i] task_sends(2)
    show ?thesis unfolding task_sends(1) by (intro host_invI) (simp add: with_task_def)
  next
    case (task_sent i t j msg g v)
    from sent_answer_ok [OF ok _ _ task_sent(3,4), of i v] task_sent(2)
    obtain g' where "host_ok l cf m st (hs_pool h) ((hs_sent h)[j := (hs_sent h ! j)\<lparr>sn_answer := Some v\<rparr>])
        ((hs_tasks h)[i := t\<lparr>dt_prog := g v, dt_wait := Idle\<rparr>]) (gs[i := g'])"
      by auto
    then show ?thesis unfolding task_sent(1) by (intro host_invI) (simp add: with_task_def)
  next
    case (task_history i t msg r g' v')
    then show ?thesis using at [of i t] by (auto simp: task_ok_def asking_def sending_def intro!: quiet split: wait.splits)
  next
    case (task_conversation i t conv k loaded)
    then show ?thesis using at [of i t] by (auto simp: task_ok_def asking_def sending_def intro!: quiet split: wait.splits)
  next
    case (task_aborted i t k' aborted)
    then show ?thesis using at [of i t] by (auto simp: task_ok_def asking_def sending_def intro!: quiet split: wait.splits)
  next
    case (task_appends i t conv entry k'' recorded es)
    then show ?thesis using at [of i t] by (auto simp: task_ok_def asking_def sending_def intro!: quiet split: wait.splits)
  next
    case (task_append_fails i t conv entry k'' e)
    then show ?thesis using at [of i t] by (auto simp: task_ok_def asking_def sending_def intro!: quiet split: wait.splits)
  next
    case (task_finishes i t fp)
    then show ?thesis using ok by (auto intro!: host_invI)
  qed
qed

lemma host_step_inv:
  assumes "host_step l cf m cx h h'" "dx_durable cx" "host_inv l cf m st h"
  shows "host_inv l cf m st h'"
proof -
  obtain gs where ok: "host_ok l cf m st (hs_pool h) (hs_sent h) (hs_tasks h) gs" using assms(3) by (auto simp: host_inv_def)
  show ?thesis
    using assms(1)
  proof cases
    case (host_delivers channels channel v message fingerprint)
    show ?thesis unfolding host_delivers(1)
      by (rule host_invI [of _ _ _ _ _ "gs @ [Fresh]"]) (use delivers_ok [OF ok] once_safe [OF assms(2)] in simp)
  next
    case host_task
    then show ?thesis using task_step_inv assms(3) by blast
  next
    case (host_journal P)
    show ?thesis unfolding host_journal(1) by (rule host_invI) (use journal_step_ok [OF ok host_journal(2,3)] in simp)
  next
    case (host_other_call c st0 cs)
    then have "host_ok l cf m st (st0, cs) (hs_sent h) (hs_tasks h) gs" using ok by simp
    from other_call_ok [OF this host_other_call(2,3)] show ?thesis
      unfolding host_other_call(1) by (intro host_invI) simp
  next
    case host_stops
    show ?thesis unfolding host_stops by (rule host_invI) (use stops_ok [OF ok] in simp)
  qed
qed

lemma start_host_inv:
  assumes "snapshot_wf l (st_snap st)" "config_ok cf"
  shows "host_inv l cf m st (start_host st)"
proof -
  have "served l cf m st (st, [])" using assms by (simp add: served_def)
  moreover have "\<not> grant cf (st, []) q rk n" for q rk n by (simp add: grant_def answered_def)
  ultimately have "host_ok l cf m st (st, []) [] [] []"
    by (simp add: host_ok_def sent_ok_def tasks_ok_def ends_ok_def)
  then show ?thesis by (intro host_invI [of _ _ _ _ _ "[]"]) (simp add: start_host_def)
qed

lemma host_run_inv:
  assumes "host_run l cf m cx (start_host st) h" "snapshot_wf l (st_snap st)" "config_ok cf" "dx_durable cx"
  shows "host_inv l cf m st h"
  using assms(1)
proof (induction rule: rtranclp_induct)
  case base
  show ?case by (rule start_host_inv [OF assms(2,3)])
next
  case (step h1 h2)
  then show ?case using host_step_inv [OF _ assms(4)] by blast
qed

end
