(* ===== verification/HostRun.thy ===== *)
theory HostRun
  imports HostMoves
begin

text \<open>
  A run of a host for the witness: a message is delivered and the channel says it failed; the delivery is
  settled as failed and asked for again, and the message is handed to the channel a second time.
\<close>

section \<open>Runs of a call within a host\<close>

lemma host_reaches:
  assumes "reaches (journal_setting l (cf_sha cf) m) s p s' p'" "i < length cs" "cs ! i = (c, p)" "hs_pool h = (s, cs)"
  shows "host_run l cf m cx h (h\<lparr>hs_pool := (s', cs[i := (c, p')])\<rparr>)"
  using assms
proof (induction arbitrary: cs h rule: reaches.induct)
  case (reach_here s p)
  then have "cs[i := (c, p)] = cs" by (metis list_update_id)
  then have "h\<lparr>hs_pool := (s, cs[i := (c, p)])\<rparr> = h" using reach_here.prems(3) by simp
  then show ?case by simp
next
  case (reach_step s p s1 p1 s' p')
  let ?h = "h\<lparr>hs_pool := (s1, cs[i := (c, p1)])\<rparr>"
  have "calls_step l cf m (s, cs) (s1, cs[i := (c, p1)])"
    using reach_step.hyps(1) reach_step.prems(1,2) by (blast intro: pool_call)
  then have "host_step l cf m cx h ?h" using reach_step.prems(3) by (intro host_journal) simp_all
  moreover have "host_run l cf m cx ?h (?h\<lparr>hs_pool := (s', (cs[i := (c, p1)])[i := (c, p')])\<rparr>)"
    by (rule reach_step.IH) (use reach_step.prems in simp_all)
  ultimately show ?case by (simp add: converse_rtranclp_into_rtranclp)
qed

text \<open>A delivery asks the journal and takes its answer.\<close>

lemma host_asks:
  assumes "task_at h i t" "dt_wait t = Idle" "dt_prog t = AskJournal c f" "hs_pool h = (s, cs)"
    and "reaches (journal_setting l (cf_sha cf) m) s (journal_prog cf c) s' (Return x)"
  shows "host_run l cf m cx h
    (with_task i (t\<lparr>dt_prog := f (Inr x), dt_wait := Idle, dt_permit := permission (length cs) c x (dt_permit t)\<rparr>)
      (h\<lparr>hs_pool := (s', cs @ [(c, Return x)])\<rparr>))"
proof -
  let ?t = "t\<lparr>dt_wait := OnJournal (length cs)\<rparr>"
  let ?h1 = "with_task i ?t (h\<lparr>hs_pool := (s, cs @ [(c, journal_prog cf c)])\<rparr>)"
  let ?h2 = "?h1\<lparr>hs_pool := (s', (cs @ [(c, journal_prog cf c)])[length cs := (c, Return x)])\<rparr>"
  have 1: "host_step l cf m cx h ?h1" using assms(1-4) by (intro host_task task_asks)
  have 2: "host_run l cf m cx ?h1 ?h2" by (rule host_reaches [OF assms(5)]) (simp_all add: with_task_def)
  have "task_step cf ?h2 (with_task i (?t\<lparr>dt_prog := f (Inr x), dt_wait := Idle, dt_permit := permission (length cs) c x (dt_permit ?t)\<rparr>) ?h2)"
    by (rule task_answered) (use assms(1,3) in \<open>simp_all add: with_task_def answered_def\<close>)
  then have "host_step l cf m cx ?h2 (with_task i (t\<lparr>dt_prog := f (Inr x), dt_wait := Idle, dt_permit := permission (length cs) c x (dt_permit t)\<rparr>)
      (h\<lparr>hs_pool := (s', cs @ [(c, Return x)])\<rparr>))"
    by (intro host_task) (simp add: with_task_def)
  with 1 2 show ?thesis by (meson converse_rtranclp_into_rtranclp rtranclp.rtrancl_into_rtrancl)
qed

section \<open>The message\<close>

definition sample_cx :: delivery_cx where
  "sample_cx = \<lparr>dx_durable = True, dx_sha = sample_sha, dx_redact = (\<lambda>_. ''error'')\<rparr>"

definition sample_outbound :: outbound where
  "sample_outbound = \<lparr>om_conv = ''k1'', om_text = ''hi'', om_attachments = [], om_reply = None, om_key = ''d1'', om_metadata = None\<rparr>"

definition sample_message :: js where
  "sample_message = JObj [(''conversationId'', JStr ''k1''), (''text'', JStr ''hi''), (''idempotencyKey'', JStr ''d1'')]"

definition sample_channels :: "string \<Rightarrow> channel_caps option" where
  "sample_channels = (\<lambda>_. Some \<lparr>ch_delivers = True, ch_resolves = True, ch_default = Inr JUndef\<rparr>)"

definition offline_answer :: js where
  "offline_answer = JObj [(''status'', JStr ''failed''), (''idempotencyKey'', JStr ''d1''),
     (''diagnostic'', JObj [(''code'', JStr ''offline''), (''severity'', JStr ''error''), (''message'', JStr ''m'')])]"

lemma route_d1: "route_text n k (JStr ''d1'') = (if 2 \<le> k then Inr ''d1'' else Inl (RangeError n))"
  and route_k1: "route_text n k (JStr ''k1'') = (if 2 \<le> k then Inr ''k1'' else Inl (RangeError n))"
  by (simp_all add: route_text_def assert_route_text_def assert_bounded_text_def require_def trimmed_def space_start_def
      space_end_def js_ws1_def js_ws3_def control_char_def code_of_def)

lemma no_snapshot: "snapshot_bounded submit_bounds path (JObj []) = Inr (JObj [])"
  by (simp add: snapshot_bounded_def submit_bounds_def at_root_def below_depth_def require_def plain_record_def host_array_def
      add_items_def submit_snapshot_max_items_def submit_snapshot_max_depth_def)

lemma sample_submission:
  "normalize_submit_input h g u (JObj [(''requestId'', JStr ''d1''), (''conversationId'', JStr ''k1''), (''text'', JStr ''hi'')])
     = Inr \<lparr>su_request = ''d1'', su_conv = ''k1'', su_text = ''hi'', su_attachments = [], su_runtime = JUndef, su_model = JUndef,
         su_effort = JUndef, su_max_turns = None, su_max_output = None, su_schema = None, su_handler = JUndef, su_signal = JUndef,
         su_metadata = None, su_capabilities = None, su_policy = None\<rparr>"
  by (simp add: normalize_submit_input_def own_data_record_def submission_keys_def route_d1 route_k1 submit_text_def
      assert_bounded_text_def require_def default_message_bytes_def has_nul_def opt_field_def durable_fields_def defined_def
      no_snapshot host_array_def)

lemma sample_outbound_ok: "normalize_outbound_message (Inr JUndef) sample_message = Inr sample_outbound"
  using sample_submission [of "\<lambda>_. False" "\<lambda>_. False" "[]"]
  by (simp add: sample_message_def sample_outbound_def normalize_outbound_message_def own_data_record_def route_d1 Let_def
      require_def defined_def opt_field_def req_def)

lemma sample_starts: "deliver_message sample_sha sample_channels Map.empty ''c1'' sample_message = DeliverRuns sample_outbound sample_digest"
  by (simp add: deliver_message_def sample_channels_def sample_outbound_ok) (simp add: sample_outbound_def delivery_history_text_def
      delivery_fingerprint_def host_fingerprint_def sample_sha_def sample_digest_def)

lemma offline_diagnostic:
  "normalize_module_diagnostic path (JObj [(''code'', JStr ''offline''), (''severity'', JStr ''error''), (''message'', JStr ''m'')])
     = Inr \<lparr>dg_code = ''offline'', dg_severity = SevError, dg_message = ''m'', dg_path = None, dg_hint = None\<rparr>"
  by (simp add: normalize_module_diagnostic_def snapshot_bounded_def runtime_bounds_def at_root_def below_depth_def require_def
      plain_record_def unsafe_keys_def add_items_def charge_def runtime_result_max_items_def runtime_graph_max_depth_def
      runtime_model_validation_max_bytes_def diagnostic_value_def own_data_record_def opt_field_def module_text_def
      max_identifier_bytes_def max_diagnostic_message_bytes_def string_enum_def severities_def)

lemma offline_reads: "normalize_result ''d1'' offline_answer = Inr \<lparr>cr_status = ChannelFailed, cr_key = ''d1'', cr_message = None,
    cr_diagnostic = Some \<lparr>dg_code = ''offline'', dg_severity = SevError, dg_message = ''m'', dg_path = None, dg_hint = None\<rparr>\<rparr>"
  by (simp add: offline_answer_def normalize_result_def own_data_record_def string_enum_def channel_statuses_def require_def
      opt_field_def offline_diagnostic)

section \<open>The delivery of the message\<close>

lemma client_passes:
  "n \<in> {1, 2} \<Longrightarrow> t \<in> {''t1'', ''r1''} \<Longrightarrow>
   rbind (client_call operation (delivery_js (DeliverySend n t))) client_delivery = Inr (DeliverySend n t)"
  "rbind (client_call operation (delivery_js DeliveryJoin)) client_delivery = Inr DeliveryJoin"
  by (auto simp: client_call_def snapshot_bounded_def output_bounds_def at_root_def below_depth_def require_def plain_record_def
      unsafe_keys_def add_items_def charge_def client_delivery_def client_object_def client_keys_def client_integer_def max_safe_integer_def
      client_text_def has_nul_def req_def)

lemma sample_cx_fields: "dx_durable sample_cx" and sample_cx_sha: "dx_sha sample_cx = sample_sha"
  and sample_outbound_key: "om_key sample_outbound = ''d1''"
  by (simp_all add: sample_cx_def sample_outbound_def)

lemma once_asks:
  obtains F where "deliver_once sample_cx ''c1'' sample_outbound sample_digest = AskJournal (PrepareDelivery claim_input) F"
    "\<And>n t. n \<in> {1, 2} \<Longrightarrow> t \<in> {''t1'', ''r1''} \<Longrightarrow>
       F (Inr (DeliveryAnswer (DeliverySend n t))) = send_message sample_cx ''c1'' sample_outbound sample_digest (Some (DeliverySend n t))"
proof -
  let ?k = "\<lambda>intent. case intent of
      Some (DeliveryDuplicate message) \<Rightarrow>
        confirm_delivery sample_cx ''c1'' sample_outbound sample_digest (duplicate_result sample_outbound message) intent
    | Some DeliveryConflict \<Rightarrow>
        HReturn (host_outcome ChannelFailed (om_key sample_outbound) ''channel_delivery_idempotency_conflict''
          ''The idempotency key was already used for a different delivery'')
    | Some DeliveryJoin \<Rightarrow>
        HReturn (host_outcome ChannelUnknown (om_key sample_outbound) ''channel_delivery_in_progress''
          ''A matching delivery is already in progress'')
    | Some (DeliveryUnknown code) \<Rightarrow>
        HReturn (host_outcome ChannelUnknown (om_key sample_outbound)
          (case code of None \<Rightarrow> ''channel_delivery_unknown'' | Some c \<Rightarrow> c)
          ''The prior delivery outcome is unknown and will not be replayed'')
    | _ \<Rightarrow> send_message sample_cx ''c1'' sample_outbound sample_digest intent"
  let ?F = "\<lambda>r. hbind (hbind (hlift (rbind r (\<lambda>a. rbind (client_call ''delivery.prepare'' (answer_js a)) client_delivery)))
      (\<lambda>a. HReturn (Some a))) ?k"
  have "deliver_once sample_cx ''c1'' sample_outbound sample_digest = AskJournal (PrepareDelivery claim_input) ?F"
    by (simp add: deliver_once_def client_prepare_def ask_client_def sample_cx_fields claim_input_def sample_outbound_key)
  moreover have "?F (Inr (DeliveryAnswer (DeliverySend n t))) = send_message sample_cx ''c1'' sample_outbound sample_digest (Some (DeliverySend n t))"
    if "n \<in> {1, 2}" "t \<in> {''t1'', ''r1''}" for n t
    using client_passes(1) [OF that, of "''delivery.prepare''"] by simp
  ultimately show ?thesis by (rule that)
qed

lemma offline_settles:
  obtains G x where "after_channel sample_cx ''c1'' sample_outbound sample_digest (Some (DeliverySend 1 ''t1'')) (Inr offline_answer)
      = AskJournal (SettleDelivery fail_input) G"
    "G (Inr (DeliveryAnswer DeliveryJoin)) = HReturn x"
proof -
  have k: "om_key sample_outbound = ''d1''" by (simp add: sample_outbound_def)
  let ?r = "\<lparr>cr_status = ChannelFailed, cr_key = ''d1'', cr_message = None,
    cr_diagnostic = Some \<lparr>dg_code = ''offline'', dg_severity = SevError, dg_message = ''m'', dg_path = None, dg_hint = None\<rparr>\<rparr>"
  let ?h = "\<lambda>e. HReturn (host_outcome ChannelUnknown (om_key sample_outbound) ''channel_delivery_settlement_unknown''
              (''The channel response could not be durably settled: '' @ dx_redact sample_cx e))"
  let ?G = "\<lambda>r. hcatch (hbind (hbind (hlift (rbind r (\<lambda>a. rbind (client_call ''delivery.settle'' (answer_js a)) client_delivery)))
      (\<lambda>a. HReturn (Some a))) (\<lambda>a. if a = Some DeliveryJoin then HReturn \<lparr>co_result = ?r, co_destination = None\<rparr>
        else HThrow (PlainError ''delivery settlement returned''))) ?h"
  have "after_channel sample_cx ''c1'' sample_outbound sample_digest (Some (DeliverySend 1 ''t1'')) (Inr offline_answer)
      = AskJournal (SettleDelivery fail_input) ?G"
    by (simp add: after_channel_def k offline_reads is_send_answer_def settle_refusal_def settle_intent_def client_settle_def
        ask_client_def fail_input_def settled_code_def)
  moreover have "?G (Inr (DeliveryAnswer DeliveryJoin)) = HReturn \<lparr>co_result = ?r, co_destination = None\<rparr>"
    using client_passes(2) [of "''delivery.settle''"] by simp
  ultimately show ?thesis by (rule that)
qed

section \<open>The run\<close>

abbreviation host_at :: "store \<Rightarrow> (journal_call \<times> journal_answer prog) list \<Rightarrow> delivery_task list \<Rightarrow> inflight \<Rightarrow> sent list \<Rightarrow> host" where
  "host_at s cs ts f S \<equiv> \<lparr>hs_pool = (s, cs), hs_tasks = ts, hs_inflight = f, hs_local = Map.empty, hs_sent = S\<rparr>"

abbreviation sample_run :: "host \<Rightarrow> host \<Rightarrow> bool" where
  "sample_run \<equiv> host_run one_limits run_config False sample_cx"

text \<open>From a call for the message to its hand-over to the channel, when the journal says send.\<close>

lemma sample_sends:
  assumes "reaches run_setting s (prepare_delivery run_config claim_input) s' (Return (DeliverySend n t))"
    and n: "n \<in> {1, 2}" "t \<in> {''t1'', ''r1''}"
  shows "sample_run (host_at s cs ts Map.empty S)
    (host_at s' (cs @ [(PrepareDelivery claim_input, Return (DeliveryAnswer (DeliverySend n t)))])
      (ts @ [\<lparr>dt_key = ''d1'', dt_prog = AskChannel sample_outbound
          (after_channel sample_cx ''c1'' sample_outbound sample_digest (Some (DeliverySend n t))),
        dt_wait = OnChannel (length S), dt_permit = Some (length cs)\<rparr>])
      [''d1'' \<mapsto> (sample_digest, length ts)] (S @ [\<lparr>sn_key = ''d1'', sn_permit = Some (length cs), sn_answer = None\<rparr>]))"
proof -
  obtain F where F: "deliver_once sample_cx ''c1'' sample_outbound sample_digest = AskJournal (PrepareDelivery claim_input) F"
    "F (Inr (DeliveryAnswer (DeliverySend n t))) = send_message sample_cx ''c1'' sample_outbound sample_digest (Some (DeliverySend n t))"
    using once_asks n by metis
  let ?step = "host_step one_limits run_config False sample_cx"
  let ?cs = "cs @ [(PrepareDelivery claim_input, Return (DeliveryAnswer (DeliverySend n t)))]"
  let ?f = "[''d1'' \<mapsto> (sample_digest, length ts)]"
  let ?t = "\<lambda>p w q. \<lparr>dt_key = ''d1'', dt_prog = p, dt_wait = w, dt_permit = q\<rparr>"
  let ?chan = "AskChannel sample_outbound (after_channel sample_cx ''c1'' sample_outbound sample_digest (Some (DeliverySend n t)))"
  let ?h0 = "host_at s cs ts Map.empty S"
  let ?h1 = "host_at s cs (ts @ [?t (AskJournal (PrepareDelivery claim_input) F) Idle None]) ?f S"
  let ?h2 = "host_at s' ?cs (ts @ [?t (send_message sample_cx ''c1'' sample_outbound sample_digest (Some (DeliverySend n t))) Idle (Some (length cs))]) ?f S"
  let ?h3 = "host_at s' ?cs (ts @ [?t ?chan Idle (Some (length cs))]) ?f S"
  have "deliver_message (dx_sha sample_cx) sample_channels (hs_inflight ?h0) ''c1'' sample_message = DeliverRuns sample_outbound sample_digest"
    by (simp add: sample_starts sample_cx_sha)
  from host_delivers [OF this] have 1: "?step ?h0 ?h1" by (simp add: F(1) sample_outbound_key)
  have "reaches (journal_setting one_limits (cf_sha run_config) False) s (journal_prog run_config (PrepareDelivery claim_input)) s'
      (Return (DeliveryAnswer (DeliverySend n t)))"
    using reach_answer [OF assms(1)] by (simp add: run_config_def)
  from host_asks [where h = ?h1 and i = "length ts" and t = "?t (AskJournal (PrepareDelivery claim_input) F) Idle None" and f = F
      and cs = cs and cx = sample_cx, OF _ _ _ _ this]
  have 2: "sample_run ?h1 ?h2" by (simp add: F(2) with_task_def)
  from task_aborted [where h = ?h2 and i = "length ts" and aborted = False and cf = run_config
      and t = "?t (send_message sample_cx ''c1'' sample_outbound sample_digest (Some (DeliverySend n t))) Idle (Some (length cs))"]
  have 3: "task_step run_config ?h2 ?h3" by (simp add: send_message_def with_task_def)
  from task_sends [where h = ?h3 and i = "length ts" and cf = run_config and t = "?t ?chan Idle (Some (length cs))"]
  have 4: "task_step run_config ?h3 (host_at s' ?cs (ts @ [?t ?chan (OnChannel (length S)) (Some (length cs))]) ?f
      (S @ [\<lparr>sn_key = ''d1'', sn_permit = Some (length cs), sn_answer = None\<rparr>]))"
    by (simp add: with_task_def sample_outbound_key)
  from 1 2 host_task [OF 3] host_task [OF 4] show ?thesis
    by (meson converse_rtranclp_into_rtranclp rtranclp.rtrancl_into_rtrancl)
qed

text \<open>The channel answers that it failed, the delivery settles, ends, and is asked for again.\<close>

lemma sample_host:
  "\<exists>h. sample_run (start_host new_store) h
     \<and> hs_sent h = [\<lparr>sn_key = ''d1'', sn_permit = Some 0, sn_answer = Some (Inr offline_answer)\<rparr>,
                   \<lparr>sn_key = ''d1'', sn_permit = Some 2, sn_answer = None\<rparr>]"
proof -
  obtain G x where G: "after_channel sample_cx ''c1'' sample_outbound sample_digest (Some (DeliverySend 1 ''t1'')) (Inr offline_answer)
      = AskJournal (SettleDelivery fail_input) G" "G (Inr (DeliveryAnswer DeliveryJoin)) = HReturn x"
    by (rule offline_settles)
  let ?step = "host_step one_limits run_config False sample_cx"
  let ?s1 = "one_store run_key 1 (bytes_of claimed)" and ?s2 = "one_store run_key 2 (bytes_of failed)"
  let ?c1 = "[(PrepareDelivery claim_input, Return (DeliveryAnswer (DeliverySend 1 ''t1'')))]"
  let ?c2 = "?c1 @ [(SettleDelivery fail_input, Return (DeliveryAnswer DeliveryJoin))]"
  let ?t = "\<lambda>p w. \<lparr>dt_key = ''d1'', dt_prog = p, dt_wait = w, dt_permit = Some 0\<rparr>"
  let ?chan = "AskChannel sample_outbound (after_channel sample_cx ''c1'' sample_outbound sample_digest (Some (DeliverySend 1 ''t1'')))"
  let ?f = "[''d1'' \<mapsto> (sample_digest, 0)]"
  let ?S = "\<lambda>a. [\<lparr>sn_key = ''d1'', sn_permit = Some 0, sn_answer = a\<rparr>]"
  let ?h1 = "host_at ?s1 ?c1 [?t ?chan (OnChannel 0)] ?f (?S None)"
  let ?h2 = "host_at ?s1 ?c1 [?t (AskJournal (SettleDelivery fail_input) G) Idle] ?f (?S (Some (Inr offline_answer)))"
  let ?h3 = "host_at ?s2 ?c2 [?t (HReturn x) Idle] ?f (?S (Some (Inr offline_answer)))"
  let ?h4 = "host_at ?s2 ?c2 [?t (HReturn x) Idle] Map.empty (?S (Some (Inr offline_answer)))"
  have 1: "sample_run (start_host new_store) ?h1"
    using sample_sends [OF claim_run, of "[]" "[]" "[]"] by (simp add: start_host_def)
  from task_sent [where h = ?h1 and i = 0 and cf = run_config and v = "Inr offline_answer" and t = "?t ?chan (OnChannel 0)" and j = 0 and m = sample_outbound]
  have 2: "task_step run_config ?h1 ?h2" by (simp add: with_task_def G(1) del: One_nat_def)
  have "reaches (journal_setting one_limits (cf_sha run_config) False) ?s1 (journal_prog run_config (SettleDelivery fail_input)) ?s2
      (Return (DeliveryAnswer DeliveryJoin))"
    using reach_answer [OF fail_run] by (simp add: run_config_def)
  from host_asks [where h = ?h2 and i = 0 and t = "?t (AskJournal (SettleDelivery fail_input) G) Idle" and f = G and cs = ?c1
      and cx = sample_cx, OF _ _ _ _ this]
  have 3: "sample_run ?h2 ?h3" by (simp add: G(2) with_task_def)
  from task_finishes [where h = ?h3 and i = 0 and cf = run_config and t = "?t (HReturn x) Idle" and fp = sample_digest]
  have 4: "task_step run_config ?h3 ?h4" by (simp add: settled_prog_def)
  obtain h where 5: "sample_run ?h4 h" "hs_sent h = ?S (Some (Inr offline_answer)) @ [\<lparr>sn_key = ''d1'', sn_permit = Some 2, sn_answer = None\<rparr>]"
    using sample_sends [OF retry_run, of ?c2 "[?t (HReturn x) Idle]" "?S (Some (Inr offline_answer))"] by (simp add: numeral_2_eq_2)
  have "sample_run (start_host new_store) h"
    using 1 host_task [OF 2] 3 host_task [OF 4] 5(1) by (meson converse_rtranclp_into_rtranclp rtranclp_trans)
  with 5(2) show ?thesis by (intro exI [of _ h]) simp
qed

lemma offline_said: "said_failed \<lparr>sn_key = ''d1'', sn_permit = p, sn_answer = Some (Inr offline_answer)\<rparr>"
  by (simp add: said_failed_def reads_failed_def offline_reads)

end
