(* ===== verification/HostProps.thy ===== *)
theory HostProps
  imports HostRun
begin

text \<open>What a host with a durable journal hands to its channels.\<close>

text \<open>C38: A message is handed to its channel a second time only after the channel answered the earlier time
  that it failed to deliver. So it holds over any interleaving of the deliveries of a host, which may
  run, give up waiting for a call and be lost in a crash together with the host's maps, with the calls
  of the journal and the other users of its store, as long as only the host's deliveries write delivery
  receipts: of two messages sent under one idempotency key the earlier one was answered with a
  well-formed result whose status is \<^verbatim>\<open>failed\<close>. No other answer, no error of the channel, no lost answer
  of the journal and no restart leads to a second send.\<close>

theorem sent_once:
  assumes "host_run l cf m cx (start_host st) h" "snapshot_wf l (st_snap st)" "config_ok cf" "dx_durable cx"
    and "i < j" "j < length (hs_sent h)" "sn_key (hs_sent h ! i) = sn_key (hs_sent h ! j)"
  shows "said_failed (hs_sent h ! i)"
  using host_run_inv [OF assms(1-4)] assms(5-7) unfolding host_inv_def host_ok_def sent_ok_def by blast

lemma sent_once_witness:
  "\<exists>h. host_run one_limits run_config False sample_cx (start_host new_store) h \<and> length (hs_sent h) = 2 \<and> said_failed (hs_sent h ! 0)"
proof -
  obtain h where h: "sample_run (start_host new_store) h"
    "hs_sent h = [\<lparr>sn_key = ''d1'', sn_permit = Some 0, sn_answer = Some (Inr offline_answer)\<rparr>,
                  \<lparr>sn_key = ''d1'', sn_permit = Some 2, sn_answer = None\<rparr>]"
    using sample_host by blast
  have "config_ok run_config" using sample_sha_hex by (simp add: config_ok_def run_config_def)
  moreover have "snapshot_wf one_limits (st_snap new_store)" by (simp add: new_store_def empty_snapshot_wf)
  ultimately have "said_failed (hs_sent h ! 0)"
    using sent_once [OF h(1), of 0 1] by (simp add: h(2) sample_cx_fields)
  then show ?thesis using h by (intro exI [of _ h]) simp
qed

end
