(* ===== verification/Spec2Isabelle.thy ===== *)
theory Spec2Isabelle
  imports StoreProps ConvProps KeyProps JournalProps RetryProps CronProps HostProps
begin

text \<open>
  Verification library for the durable parts of mono-agent: the execution journal of the package
  \<^verbatim>\<open>src/packages/state-local\<close>, the cron trigger \<^verbatim>\<open>src/packages/trigger-cron\<close> that fires on its store, and the
  deliveries the core host \<^verbatim>\<open>src/packages/core\<close> makes over the journal.

  \<^bold>\<open>The program.\<close> A versioned key-value store (\<^verbatim>\<open>store.ts\<close>) keeps byte records with versions and changes
  them by conditional transactions. On it the journal (\<^verbatim>\<open>execution-journal*.ts\<close>) keeps the state of an
  agent: the requests it admitted, their runs with numbered event logs, the deliveries it sent out,
  the conversations and provider sessions. Each kind of record lives under its own key prefix, as JSON
  text written and read by strict codecs (\<^verbatim>\<open>execution-codec.ts\<close>, \<^verbatim>\<open>execution-journal-records.ts\<close>,
  \<^verbatim>\<open>execution-transcript.ts\<close>). The calls of the journal are asynchronous: any number of them run at once,
  in any interleaving, each a sequence of reads, scans and conditional transactions with bounded
  retries, while other code uses the store through its public interface.

  A cron trigger (\<^verbatim>\<open>scheduler*.ts\<close>) keeps one record per job in the same store, through the capability the
  host grants it (\<^verbatim>\<open>core/src/host.ts\<close>). It reserves a firing by raising the watermark of the record with a
  compare-and-swap, then claims the firing and dispatches its event. Several triggers, in one process or
  many, may serve the same job; each may crash or lose an answer at any time.

  The host sends messages out through channels (\<^verbatim>\<open>core/src/host-delivery.ts\<close>). Before it hands a message to a
  channel it asks the journal for permission under the idempotency key of the message; afterwards it settles
  the delivery, together with the history of the destination when the channel delivered.

  \<^bold>\<open>Theories, bottom up.\<close>
  \<^item> \<open>Prelude\<close>: results, lists, decimal texts, the collections of hints. \<open>IsoTime\<close>: \<^verbatim>\<open>Date\<close> and its text.
    \<open>JsValue\<close>: untyped values and scalar parsers (\<^verbatim>\<open>validation.ts\<close>). \<open>JsonText\<close>: \<^verbatim>\<open>JSON.stringify\<close> and
    \<^verbatim>\<open>JSON.parse\<close>. \<open>Base64\<close>: scan cursors.
  \<^item> Codecs: \<open>Transcript\<close>, \<open>RecordCodec\<close>, \<open>RunCodec\<close>, \<open>ArtifactCodec\<close>, \<open>SessionJson\<close> (session metadata),
    \<open>Fingerprint\<close> (durable fingerprints), \<open>ConvCodec\<close>; \<open>ExecBytes\<close>
    (the bounded copy and bytes of a record) and \<open>ExecKeys\<close> (durable keys and their families). The locale
    \<open>record_codec\<close> states what a codec promises; \<open>RecordContract\<close> interprets it for every record.
    \<open>CodecProps\<close>, \<open>ConvProps\<close>, \<open>KeyProps\<close> (which records share a key) hold the properties.
  \<^item> Store: \<open>StateStore\<close> (the snapshot, guarded calls, transactions, scans), \<open>StoreLaws\<close> and
    \<open>StoreContract\<close> (its invariant and the contract of a versioned store, a locale), \<open>StoreProps\<close>.
  \<^item> Programs: \<open>JournalProg\<close> gives an asynchronous call as a tree of its store calls, clock readings,
    generated ids and artifact calls; every answer the environment can give is a branch. \<open>JournalConcern\<close>,
    \<open>RunJournal\<close>, \<open>RunSettle\<close>, \<open>DeliveryJournal\<close>, \<open>DeliveryHistory\<close>, \<open>ConversationJournal\<close>, \<open>IntentCleanup\<close>,
    \<open>MaintenanceJournal\<close> are the methods, one definition per method or branch, and \<open>Journal\<close> lists the
    twenty calls.
  \<^item> Logic: \<open>JournalLogic\<close> (weakest preconditions of a program that others interfere with, the locale
    \<open>rely_guarantee\<close>), \<open>ScanLogic\<close>, \<open>Upholds\<close> (what each commit of a program upholds), \<open>Footprint\<close> and
    \<open>FootprintMethods\<close> (the key families a call writes), \<open>JournalPool\<close> (pools of calls over one store),
    \<open>Announces\<close> (answers that are never repeated, the locale \<open>announcing\<close>), \<open>RetryBounds\<close> (how many
    transactions a program may still ask for, for every method; \<open>RetryProps\<close> for whole executions).
  \<^item> Specifications and their proofs: the receipt machine \<open>receipt_step\<close> in \<open>DeliveryJournal\<close>; the abstract
    steps \<open>run_commit\<close> on runs, events, admissions and history index in \<open>RunSteps\<close>, met by every method in
    \<open>RunMethods\<close> and \<open>SettleSteps\<close>; the consistency \<open>runs_ok\<close> of these records and what a run may become in
    \<open>RunInvariant\<close>; the joint commit \<open>history_commit\<close> in \<open>HistoryCommit\<close>. \<open>JournalRely\<close> and \<open>JournalAnswers\<close>
    interpret the locales on the journal; \<open>DeliveryRuns\<close> and \<open>RunRuns\<close> run calls on concrete stores for the
    witnesses; \<open>PoolProps\<close>, \<open>RunProps\<close>, \<open>JournalProps\<close> hold the properties of the whole.
  \<^item> Cron: \<open>CronRecord\<close> (the record, its reader and writer), \<open>CronDue\<close> (due firings, receipts, metadata),
    \<open>CronProg\<close> (the state of a trigger and its programs: awaited calls, accesses to the shared state, clock,
    emissions, tasks left running), \<open>CronDurable\<close> (\<^verbatim>\<open>scheduler-durable.ts\<close>), \<open>CronScheduler\<close> (\<^verbatim>\<open>scheduler.ts\<close>),
    \<open>CronSystem\<close> (the capability and the step relation of a system of triggers). \<open>CronGood\<close> is a weakest
    precondition in terms of the instants an activity owns, \<open>CronQuiet\<close> and \<open>CronOwned\<close> give it for every
    operation, \<open>CronRuns\<close> lifts it to the invariant of the system, \<open>CronRun\<close> is a sample run and \<open>CronProps\<close>
    holds the properties.
  \<^item> Host deliveries: \<open>HostValues\<close> (bounded copies, text and JSON checks, fingerprints, diagnostics),
    \<open>HostMessage\<close> (submissions and outbound messages), \<open>HostDelivery\<close> (\<^verbatim>\<open>HostDelivery\<close> and the delivery methods of
    \<^verbatim>\<open>StateExecutionClient\<close> as programs), \<open>HostSystem\<close> (any number of deliveries over a pool of journal calls,
    with crashes). \<open>HostSafe\<close> says when a delivery may still send and when it may settle as failed, and that
    every delivery stays within it; \<open>HostGuard\<close> and \<open>HostKept\<close> tie its permission to the receipt in the store;
    \<open>HostMoves\<close> proves the invariant of the system, \<open>HostRun\<close> is a sample run and \<open>HostProps\<close> holds the property.

  \<^bold>\<open>How the state corresponds.\<close> A snapshot is the \<^verbatim>\<open>Map\<close> of the store with its generation counters; a store
  adds the closed and poisoned flags. A text is its UTF-8 bytes. A thrown error is the left value of a
  result; a program that throws ends in \<open>Throw\<close>. The SHA-256 digest is a parameter, of which the
  properties need at most that it is 64 hexadecimal digits. A property over \<open>served l cf m st P\<close> is about
  any pool \<open>P\<close> of calls that started on any well-formed store \<open>st\<close>; \<open>m\<close> says whether retention may run.

  \<^bold>\<open>Bounds and fuel.\<close> Retry loops carry the code's own counts (three turns for admission, recording and
  delivery, five for settlement with history). A scan of all pages has one unit of fuel more than its
  maximum of records, and event pages one more than the event count: every page before the last adds
  at least one record. The catch-up loop of a cron trigger is a recursion on what is left of its 32 firings,
  its updates have the four attempts of the code. \<open>retries_bounded\<close> states how many transactions each call
  asks for at most, whatever the contention; retention and the reconciliation of publications ask for as many
  as there are records. \<open>calls_progress\<close> states that no call waits for ever, so that no fuel runs out.

  \<^bold>\<open>Numbers.\<close> \<open>JNum\<close> is a safe integer, \<open>JFloat\<close> any other finite number. \<open>JNum 0\<close> stands for zero and negative
  zero, which the code tells apart in one place only, the material of a durable fingerprint; there they
  are different values (\<open>MNegZero\<close>).

  \<^bold>\<open>Cron.\<close> The state \<open>sched\<close> is the \<^verbatim>\<open>JobState\<close> of one job with the lifecycle of its trigger; other jobs of the
  same trigger may change that lifecycle at any time. A timer may fire as soon as it is armed, a promise is a
  number, an emission ends in any way at any time. \<open>CLock\<close> is the promise chain of \<^verbatim>\<open>mutateState\<close>, in any order.
  The cron library is a pair of functions that find the occurrence before and after an instant. A property
  over \<open>triggered l sha inst job st Y\<close> is about any system that triggers of the job built from the store \<open>st\<close>.

  \<^bold>\<open>Host deliveries.\<close> A delivery is a program that asks: the journal, the channel, the channel's resolver of
  destinations, the cache of conversations, its abort signal. The journal answers by the calls of the pool,
  everything else as it likes. \<open>host_run l cf m cx\<close> is any run of a host on a store, crashes included; its
  deliveries are the only callers that write delivery receipts. The status of a channel result is a text.

  \<^bold>\<open>Not modelled.\<close> Of the cron trigger: loading and parsing of job files, the configuration, the command's
  input parser, health, delays of timers, what \<^verbatim>\<open>stop\<close> waits for, and abort signals, which are failing calls.
  Of the rest: the files behind the store (opening, replay, compaction, permissions, locks), the
  artifact files (artifact calls answer arbitrarily), abort signals other than the one each store call
  checks, field order of a copied object; of the core host everything but the values, messages and deliveries above
  and the capability of triggers; and the other packages: channels, runtimes, user interfaces, installers. They are
  listed with reasons in the manifest.
\<close>

text \<open>C21: Decoding the bytes of an encoded canonical transcript yields that transcript.\<close>

theorem transcript_bytes_roundtrip:
  "wf_transcript t \<Longrightarrow> encode_canonical_transcript t = Inr b \<Longrightarrow>
   decode_canonical_transcript b (Some (ct_conv t)) = Inr t"
  by (rule decode_encode) auto

lemma transcript_bytes_roundtrip_witness:
  "decode_canonical_transcript sample_text (Some ''conv-1'') = Inr sample_transcript"
  using transcript_bytes_roundtrip [OF sample_transcript_wf sample_transcript_bytes]
  by (simp add: sample_transcript_def)

text \<open>C20: The append-only check accepts a revision exactly when it is the next revision of the same
  conversation and keeps every settled entry in place.\<close>

theorem transcript_append_only:
  assumes "wf_transcript p" "wf_transcript n"
  shows "assert_append_only p n = Inr () \<longleftrightarrow>
     ct_conv n = ct_conv p \<and> int (ct_revision p) < max_safe_integer \<and> ct_revision n = ct_revision p + 1
     \<and> prefix (ct_entries p) (ct_entries n)"
  using assert_append_only_iff [OF assms] by auto

lemma transcript_append_only_witness: "assert_append_only sample_transcript sample_transcript \<noteq> Inr ()"
  using transcript_append_only [OF sample_transcript_wf sample_transcript_wf] by simp

end
